(* ===== verification/Prelude.thy ===== *)
theory Prelude
  imports Main "HOL-Library.List_Lexorder" "HOL-Library.Char_ord"
begin

text \<open>
  Shared vocabulary of the development.

  \<^item> Results: a computation that may raise is a value of \<open>'e + 'a\<close>; \<open>bind_res\<close> is sequencing
    (the first raise wins), \<open>map_res\<close> a comprehension whose body may raise and \<open>fold_res\<close> a
    \<open>for\<close> loop whose body may raise.
  \<^item> Python dictionaries: association lists in insertion order (\<open>'v dict\<close>), with
    \<open>dict_set\<close> keeping the position of an existing key as Python does.  The contract the
    components rely on is the locale \<open>dict_store\<close>, interpreted here on these lists.
  \<^item> \<open>dict.fromkeys\<close>, \<open>sorted(set(..))\<close>, \<open>str.join\<close>, \<open>str.split\<close> and the few other string
    operations the code uses.  Strings are lists of characters ordered by code point.
  The collections \<open>res_simps\<close> and \<open>dict_simps\<close> are what the component proofs add to the simplifier.
\<close>

named_theorems res_simps \<open>equations and inversions of the result combinators\<close>
named_theorems dict_simps \<open>equations of the insertion-ordered dictionary\<close>

section \<open>Results\<close>

fun bind_res :: "'e + 'a \<Rightarrow> ('a \<Rightarrow> 'e + 'b) \<Rightarrow> 'e + 'b" where
  "bind_res (Inl e) f = Inl e"
| "bind_res (Inr a) f = f a"

definition guard_res :: "bool \<Rightarrow> 'e \<Rightarrow> 'e + unit" where
  \<comment> \<open>\<open>if not b: raise e\<close>\<close>
  "guard_res b e = (if b then Inr () else Inl e)"

fun map_res :: "('a \<Rightarrow> 'e + 'b) \<Rightarrow> 'a list \<Rightarrow> 'e + 'b list" where
  "map_res f [] = Inr []"
| "map_res f (x # xs) = bind_res (f x) (\<lambda>y. bind_res (map_res f xs) (\<lambda>ys. Inr (y # ys)))"

fun fold_res :: "('s \<Rightarrow> 'a \<Rightarrow> 'e + 's) \<Rightarrow> 's \<Rightarrow> 'a list \<Rightarrow> 'e + 's" where
  "fold_res f s [] = Inr s"
| "fold_res f s (x # xs) = bind_res (f s x) (\<lambda>s'. fold_res f s' xs)"

fun is_ok :: "'e + 'a \<Rightarrow> bool" where
  "is_ok (Inl e) = False"
| "is_ok (Inr a) = True"

lemma bind_res_Inr_iff [res_simps]:
  "bind_res m f = Inr b \<longleftrightarrow> (\<exists>a. m = Inr a \<and> f a = Inr b)"
  by (cases m) auto

lemma bind_res_Inl_iff [res_simps]:
  "bind_res m f = Inl e \<longleftrightarrow> m = Inl e \<or> (\<exists>a. m = Inr a \<and> f a = Inl e)"
  by (cases m) auto

lemma guard_res_iff [res_simps]:
  "guard_res b e = Inr u \<longleftrightarrow> b"
  "guard_res b e = Inl e' \<longleftrightarrow> \<not> b \<and> e' = e"
  by (auto simp: guard_res_def)

lemma is_ok_iff: "is_ok r \<longleftrightarrow> (\<exists>a. r = Inr a)"
  by (cases r) auto

lemma bind_res_cong:
  "m = m' \<Longrightarrow> (\<And>a. m' = Inr a \<Longrightarrow> f a = f' a) \<Longrightarrow> bind_res m f = bind_res m' f'"
  by (cases m') auto

lemma map_res_cong [fundef_cong]:
  "xs = ys \<Longrightarrow> (\<And>x. x \<in> set ys \<Longrightarrow> f x = g x) \<Longrightarrow> map_res f xs = map_res g ys"
  by (induction ys arbitrary: xs) auto

lemma fold_res_cong [fundef_cong]:
  "s = t \<Longrightarrow> xs = ys \<Longrightarrow> (\<And>a x. x \<in> set ys \<Longrightarrow> f a x = g a x) \<Longrightarrow> fold_res f s xs = fold_res g t ys"
proof (induction ys arbitrary: xs s t)
  case (Cons y ys)
  then show ?case by (auto intro: bind_res_cong)
qed auto

lemma map_res_Inr_iff: "map_res f xs = Inr ys \<longleftrightarrow> list_all2 (\<lambda>x y. f x = Inr y) xs ys"
  by (induction xs arbitrary: ys) (auto simp: res_simps list_all2_Cons1)

lemma map_res_length: "map_res f xs = Inr ys \<Longrightarrow> length ys = length xs"
  by (auto simp: map_res_Inr_iff dest: list_all2_lengthD)

lemma fold_res_append:
  "fold_res f s (xs @ ys) = bind_res (fold_res f s xs) (\<lambda>s'. fold_res f s' ys)"
proof (induction xs arbitrary: s)
  case (Cons x xs)
  then show ?case by (cases "f s x") auto
qed simp

lemma fold_res_invariant:
  assumes "P s" and "\<And>s x s'. P s \<Longrightarrow> x \<in> set xs \<Longrightarrow> f s x = Inr s' \<Longrightarrow> P s'"
    and "fold_res f s xs = Inr t"
  shows "P t"
  using assms
proof (induction xs arbitrary: s)
  case (Cons x xs)
  from Cons.prems(3) obtain s' where s': "f s x = Inr s'" "fold_res f s' xs = Inr t"
    by (auto simp: res_simps)
  with Cons.prems have "P s'" by auto
  then show ?case by (rule Cons.IH) (use Cons.prems(2) s' in auto)
qed simp

section \<open>Insertion-ordered dictionaries\<close>

type_synonym 'v dict = "(string \<times> 'v) list"

abbreviation dict_get :: "'v dict \<Rightarrow> string \<Rightarrow> 'v option" where
  "dict_get \<equiv> map_of"

definition dict_get_default :: "'v dict \<Rightarrow> string \<Rightarrow> 'v \<Rightarrow> 'v" where
  "dict_get_default d k v = (case map_of d k of None \<Rightarrow> v | Some w \<Rightarrow> w)"

definition dict_keys :: "'v dict \<Rightarrow> string list" where
  "dict_keys d = map fst d"

definition dict_has :: "'v dict \<Rightarrow> string \<Rightarrow> bool" where
  "dict_has d k = (map_of d k \<noteq> None)"

fun dict_set :: "'v dict \<Rightarrow> string \<Rightarrow> 'v \<Rightarrow> 'v dict" where
  "dict_set [] k v = [(k, v)]"
| "dict_set ((k', w) # d) k v = (if k' = k then (k, v) # d else (k', w) # dict_set d k v)"

definition dict_del :: "'v dict \<Rightarrow> string \<Rightarrow> 'v dict" where
  "dict_del d k = filter (\<lambda>(k', _). k' \<noteq> k) d"

definition dict_update :: "'v dict \<Rightarrow> 'v dict \<Rightarrow> 'v dict" where
  \<comment> \<open>\<open>d.update(e)\<close>, and \<open>{**d, **e}\<close>\<close>
  "dict_update d e = foldl (\<lambda>acc (k, v). dict_set acc k v) d e"

definition dict_wf :: "'v dict \<Rightarrow> bool" where
  "dict_wf d = distinct (map fst d)"

lemma dict_get_set [dict_simps]:
  "map_of (dict_set d k v) = (map_of d)(k \<mapsto> v)"
  by (induction d k v rule: dict_set.induct) (auto simp: fun_eq_iff)

lemma dict_get_del [dict_simps]:
  "map_of (dict_del d k) = (map_of d)(k := None)"
  unfolding dict_del_def by (induction d) (auto simp: fun_eq_iff)

lemma fst_set_dict_set [dict_simps]:
  "fst ` set (dict_set d k v) = insert k (fst ` set d)"
  by (induction d k v rule: dict_set.induct) auto

lemma set_dict_keys [dict_simps]: "set (dict_keys d) = dom (map_of d)"
  by (simp add: dict_keys_def dom_map_of_conv_image_fst)

lemma dict_has_set [dict_simps]: "dict_has (dict_set d k v) k' = (k' = k \<or> dict_has d k')"
  by (simp add: dict_has_def dict_simps)

lemma dict_has_keys [dict_simps]: "dict_has d k \<longleftrightarrow> k \<in> fst ` set d"
  unfolding dict_has_def by (force simp: map_of_eq_None_iff)

lemma dict_wf_Nil [simp]: "dict_wf []"
  by (simp add: dict_wf_def)

lemma dict_wf_set [simp]: "dict_wf d \<Longrightarrow> dict_wf (dict_set d k v)"
  unfolding dict_wf_def
  by (induction d k v rule: dict_set.induct) (auto simp: dict_simps)

lemma dict_wf_del [simp]: "dict_wf d \<Longrightarrow> dict_wf (dict_del d k)"
  unfolding dict_wf_def dict_del_def by (simp add: distinct_map_filter)

lemma dict_get_update [dict_simps]:
  "dict_wf e \<Longrightarrow> map_of (dict_update d e) = map_of d ++ map_of e"
  unfolding dict_update_def dict_wf_def
proof (induction e arbitrary: d)
  case (Cons p e)
  obtain k v where p: "p = (k, v)" by (cases p)
  with Cons have "map_of (foldl (\<lambda>acc (k, v). dict_set acc k v) d (p # e)) =
      ((map_of d)(k \<mapsto> v)) ++ map_of e"
    by (simp add: dict_simps)
  moreover from Cons.prems p have "map_of e k = None"
    by (force simp: map_of_eq_None_iff)
  ultimately show ?case using p
    by (auto simp: fun_eq_iff map_add_def split: option.splits)
qed simp

lemma dict_wf_update [simp]: "dict_wf d \<Longrightarrow> dict_wf (dict_update d e)"
  unfolding dict_update_def by (induction e arbitrary: d) auto

lemma dict_set_fresh: "map_of d k = None \<Longrightarrow> dict_set d k v = d @ [(k, v)]"
  by (induction d k v rule: dict_set.induct) (auto split: if_splits)

lemma map_of_values: "dict_wf d \<Longrightarrow> (k, v) \<in> set d \<longleftrightarrow> map_of d k = Some v"
  by (auto simp: dict_wf_def dest: map_of_SomeD)

text \<open>
  The contract of a keyed store.  Clients (the service store, the scope layers, the table of
  mounted rows) rely on these laws only.
\<close>

locale dict_store =
  fixes lookup :: "'d \<Rightarrow> 'k \<Rightarrow> 'v option"
    and store :: "'d \<Rightarrow> 'k \<Rightarrow> 'v \<Rightarrow> 'd"
    and remove :: "'d \<Rightarrow> 'k \<Rightarrow> 'd"
    and inv :: "'d \<Rightarrow> bool"
  assumes lookup_store: "lookup (store d k v) j = (if j = k then Some v else lookup d j)"
    and lookup_remove: "lookup (remove d k) j = (if j = k then None else lookup d j)"
    and inv_store: "inv d \<Longrightarrow> inv (store d k v)"
    and inv_remove: "inv d \<Longrightarrow> inv (remove d k)"
begin

lemma remove_undoes_store:
  assumes "lookup d k = None"
  shows "lookup (remove (store d k v) k) = lookup d"
  using assms by (auto simp: fun_eq_iff lookup_store lookup_remove)

lemma store_frame: "j \<noteq> k \<Longrightarrow> lookup (store d k v) j = lookup d j"
  by (simp add: lookup_store)

lemma remove_frame: "j \<noteq> k \<Longrightarrow> lookup (remove d k) j = lookup d j"
  by (simp add: lookup_remove)

lemma store_remove_interleave:
  assumes "lookup d k = None" and "j \<noteq> k"
  shows "lookup (remove (store (store d k v) j w) k) = lookup (store d j w)"
  using assms by (auto simp: fun_eq_iff lookup_store lookup_remove)

end

interpretation pydict: dict_store map_of dict_set dict_del dict_wf
  by unfold_locales (auto simp: dict_simps)

section \<open>Ordering and deduplication\<close>

definition fromkeys :: "'a list \<Rightarrow> 'a list" where
  \<comment> \<open>\<open>list(dict.fromkeys(xs))\<close>: the first occurrence of each element, in order\<close>
  "fromkeys xs = rev (remdups (rev xs))"

definition sorted_set :: "'a::linorder list \<Rightarrow> 'a list" where
  \<comment> \<open>\<open>sorted(set(xs))\<close>\<close>
  "sorted_set xs = sort (remdups xs)"

lemma set_fromkeys [simp]: "set (fromkeys xs) = set xs"
  by (simp add: fromkeys_def)

lemma distinct_fromkeys [simp]: "distinct (fromkeys xs)"
  by (simp add: fromkeys_def)

lemma fromkeys_distinct: "distinct xs \<Longrightarrow> fromkeys xs = xs"
  by (simp add: fromkeys_def distinct_remdups_id)

lemma set_sorted_set [simp]: "set (sorted_set xs) = set xs"
  by (simp add: sorted_set_def)

lemma sorted_sorted_set [simp]: "sorted (sorted_set xs)"
  by (simp add: sorted_set_def)

lemma distinct_sorted_set [simp]: "distinct (sorted_set xs)"
  by (simp add: sorted_set_def)

lemma sorted_set_Nil_iff [simp]: "sorted_set xs = [] \<longleftrightarrow> xs = []"
  by (metis set_empty set_sorted_set)

lemma sorted_set_cong: "set xs = set ys \<Longrightarrow> sorted_set xs = sorted_set ys"
  by (rule sorted_distinct_set_unique) auto

definition list_diff :: "'a list \<Rightarrow> 'a list \<Rightarrow> 'a list" where
  "list_diff xs ys = filter (\<lambda>x. x \<notin> set ys) xs"

lemma set_list_diff [simp]: "set (list_diff xs ys) = set xs - set ys"
  by (auto simp: list_diff_def)

section \<open>Strings\<close>

fun starts_with :: "string \<Rightarrow> string \<Rightarrow> bool" where
  "starts_with [] s = True"
| "starts_with (p # ps) [] = False"
| "starts_with (p # ps) (c # cs) = (p = c \<and> starts_with ps cs)"

definition ends_with :: "string \<Rightarrow> string \<Rightarrow> bool" where
  "ends_with suffix s = starts_with (rev suffix) (rev s)"

fun contains_sub :: "string \<Rightarrow> string \<Rightarrow> bool" where
  \<comment> \<open>\<open>needle in haystack\<close>\<close>
  "contains_sub needle [] = (needle = [])"
| "contains_sub needle (c # cs) = (starts_with needle (c # cs) \<or> contains_sub needle cs)"

fun str_join :: "string \<Rightarrow> string list \<Rightarrow> string" where
  "str_join sep [] = []"
| "str_join sep [s] = s"
| "str_join sep (s # t # ts) = s @ sep @ str_join sep (t # ts)"

fun str_split :: "char \<Rightarrow> string \<Rightarrow> string list" where
  \<comment> \<open>\<open>s.split(c)\<close> for a one-character separator: never empty\<close>
  "str_split c [] = [[]]"
| "str_split c (x # xs) =
     (if x = c then [] # str_split c xs
      else (case str_split c xs of [] \<Rightarrow> [[x]] | s # ss \<Rightarrow> (x # s) # ss))"

definition char_in :: "char \<Rightarrow> char \<Rightarrow> char \<Rightarrow> bool" where
  "char_in lo hi c = (lo \<le> c \<and> c \<le> hi)"

definition is_lower_char :: "char \<Rightarrow> bool" where
  "is_lower_char c = char_in CHR ''a'' CHR ''z'' c"

definition is_upper_char :: "char \<Rightarrow> bool" where
  "is_upper_char c = char_in CHR ''A'' CHR ''Z'' c"

definition is_digit_char :: "char \<Rightarrow> bool" where
  "is_digit_char c = char_in CHR ''0'' CHR ''9'' c"

definition is_space :: "char \<Rightarrow> bool" where
  \<comment> \<open>\<open>str.isspace\<close> on the code points below 256\<close>
  "is_space c \<longleftrightarrow> char_in (CHR 0x09) (CHR 0x0D) c \<or> char_in (CHR 0x1C) (CHR 0x20) c \<or> c = CHR 0x85 \<or> c = CHR 0xA0"

definition py_strip :: "string \<Rightarrow> string" where
  \<comment> \<open>\<open>s.strip()\<close>\<close>
  "py_strip s = rev (dropWhile is_space (rev (dropWhile is_space s)))"

lemma py_strip_length: "length (py_strip s) \<le> length s"
  unfolding py_strip_def by (metis length_dropWhile_le length_rev order_trans)

lemma dropWhile_hd: "xs = [] \<or> \<not> P (hd xs) \<Longrightarrow> dropWhile P xs = xs"
  by (cases xs) auto

lemma py_strip_idem [simp]: "py_strip (py_strip s) = py_strip s"
proof -
  define t where "t = dropWhile is_space s"
  define r where "r = rev (dropWhile is_space (rev t))"
  have "t = [] \<or> \<not> is_space (hd t)" unfolding t_def using hd_dropWhile [of is_space s] by blast
  moreover have "rev r @ [] = dropWhile is_space (rev t)" by (simp add: r_def)
  moreover have "t = r @ rev (takeWhile is_space (rev t))"
    unfolding r_def by (metis rev_append rev_rev_ident takeWhile_dropWhile_id)
  then have "r = [] \<or> hd r = hd t" by (metis hd_append2)
  moreover have "r = []" if "t = []" using that by (simp add: r_def)
  ultimately have "dropWhile is_space r = r" by (intro dropWhile_hd) auto
  then show ?thesis by (simp add: py_strip_def r_def t_def)
qed

lemma str_split_not_Nil [simp]: "str_split c s \<noteq> []"
  by (induction c s rule: str_split.induct) (auto split: list.splits)

lemma str_join_split: "str_join [c] (str_split c s) = s"
proof (induction c s rule: str_split.induct)
  case (2 c x xs)
  show ?case
  proof (cases "str_split c xs")
    case (Cons t ts)
    then show ?thesis using 2 by (cases ts) auto
  qed simp
qed simp

lemma starts_with_iff: "starts_with p s \<longleftrightarrow> (\<exists>t. s = p @ t)"
  by (induction p s rule: starts_with.induct) auto

lemma contains_sub_iff: "contains_sub p s \<longleftrightarrow> (\<exists>a b. s = a @ p @ b)"
proof (induction p s rule: contains_sub.induct)
  case (2 p c cs)
  show ?case
  proof
    assume "contains_sub p (c # cs)"
    then show "\<exists>a b. c # cs = a @ p @ b"
      using 2 by (auto simp: starts_with_iff) (metis append.simps)+
  next
    assume "\<exists>a b. c # cs = a @ p @ b"
    then obtain a b where ab: "c # cs = a @ p @ b" by blast
    show "contains_sub p (c # cs)"
    proof (cases a)
      case Nil
      with ab have "c # cs = p @ b" by simp
      then have "starts_with p (c # cs)" unfolding starts_with_iff by blast
      then show ?thesis by simp
    next
      case (Cons d a')
      with ab 2 show ?thesis by auto
    qed
  qed
qed auto

end
