(* ===== verification/Values.thy ===== *)
theory Values
  imports Prelude Complex_Main
begin

text \<open>
  Python values as the configuration code sees them: what \<open>json.loads\<close> produces, and the tuples
  a module's \<open>Config\<close> or \<open>Defaults\<close> may contain.  A float is a real number or one of the three
  IEEE specials; rounding is not modelled.  \<open>py_eq\<close> is Python's \<open>==\<close>, under which
  \<open>True == 1 == 1.0\<close> and dictionaries compare without regard to order (NaN differs from itself;
  the identity shortcut of container membership is not modelled).
\<close>

datatype pyfloat = Fin real | PosInf | NegInf | NaN

datatype pyval =
    VNull
  | VBool bool
  | VInt int
  | VFloat pyfloat
  | VStr string
  | VList "pyval list"
  | VTuple "pyval list"
  | VDict "(string \<times> pyval) list"

fun pf_le :: "pyfloat \<Rightarrow> pyfloat \<Rightarrow> bool" where
  "pf_le (Fin x) (Fin y) = (x \<le> y)"
| "pf_le NaN _ = False"
| "pf_le _ NaN = False"
| "pf_le NegInf _ = True"
| "pf_le _ PosInf = True"
| "pf_le _ _ = False"

fun pf_eq :: "pyfloat \<Rightarrow> pyfloat \<Rightarrow> bool" where
  "pf_eq NaN _ = False"
| "pf_eq _ NaN = False"
| "pf_eq x y = (x = y)"

definition pf_lt :: "pyfloat \<Rightarrow> pyfloat \<Rightarrow> bool" where
  "pf_lt x y = (pf_le x y \<and> \<not> pf_eq x y)"

fun pf_finite :: "pyfloat \<Rightarrow> bool" where
  "pf_finite (Fin x) = True"
| "pf_finite _ = False"

text \<open>The numeric reading of a value: booleans are integers in Python.\<close>

fun num_of :: "pyval \<Rightarrow> pyfloat option" where
  "num_of (VBool b) = Some (Fin (if b then 1 else 0))"
| "num_of (VInt i) = Some (Fin (of_int i))"
| "num_of (VFloat f) = Some f"
| "num_of _ = None"

fun py_eq :: "pyval \<Rightarrow> pyval \<Rightarrow> bool"
  and py_eq_list :: "pyval list \<Rightarrow> pyval list \<Rightarrow> bool"
  and py_eq_items :: "(string \<times> pyval) list \<Rightarrow> (string \<times> pyval) list \<Rightarrow> bool" where
  "py_eq (VStr s) v = (v = VStr s)"
| "py_eq VNull v = (v = VNull)"
| "py_eq (VList xs) v = (case v of VList ys \<Rightarrow> py_eq_list xs ys | _ \<Rightarrow> False)"
| "py_eq (VTuple xs) v = (case v of VTuple ys \<Rightarrow> py_eq_list xs ys | _ \<Rightarrow> False)"
| "py_eq (VDict d) v =
     (case v of VDict e \<Rightarrow> length d = length e \<and> py_eq_items d e | _ \<Rightarrow> False)"
| "py_eq (VBool b) v =
     (case num_of v of None \<Rightarrow> False | Some y \<Rightarrow> pf_eq (Fin (if b then 1 else 0)) y)"
| "py_eq (VInt i) v = (case num_of v of None \<Rightarrow> False | Some y \<Rightarrow> pf_eq (Fin (of_int i)) y)"
| "py_eq (VFloat f) v = (case num_of v of None \<Rightarrow> False | Some y \<Rightarrow> pf_eq f y)"
| "py_eq_list [] ys = (ys = [])"
| "py_eq_list (x # xs) ys =
     (case ys of [] \<Rightarrow> False | y # ys' \<Rightarrow> py_eq x y \<and> py_eq_list xs ys')"
| "py_eq_items [] e = True"
| "py_eq_items ((k, v) # d) e =
     ((case map_of e k of None \<Rightarrow> False | Some w \<Rightarrow> py_eq v w) \<and> py_eq_items d e)"

definition py_in :: "pyval \<Rightarrow> pyval list \<Rightarrow> bool" where
  "py_in v vs = list_ex (\<lambda>w. py_eq v w) vs"

fun truthy :: "pyval \<Rightarrow> bool" where
  "truthy VNull = False"
| "truthy (VBool b) = b"
| "truthy (VInt i) = (i \<noteq> 0)"
| "truthy (VFloat f) = (f \<noteq> Fin 0)"
| "truthy (VStr s) = (s \<noteq> [])"
| "truthy (VList xs) = (xs \<noteq> [])"
| "truthy (VTuple xs) = (xs \<noteq> [])"
| "truthy (VDict d) = (d \<noteq> [])"

text \<open>\<open>isinstance\<close> tests: \<open>bool\<close> is a subclass of \<open>int\<close>.\<close>

fun is_dict :: "pyval \<Rightarrow> bool" where "is_dict (VDict d) = True" | "is_dict _ = False"
fun is_list :: "pyval \<Rightarrow> bool" where "is_list (VList d) = True" | "is_list _ = False"
fun is_str :: "pyval \<Rightarrow> bool" where "is_str (VStr d) = True" | "is_str _ = False"
fun is_bool :: "pyval \<Rightarrow> bool" where "is_bool (VBool d) = True" | "is_bool _ = False"
fun is_float :: "pyval \<Rightarrow> bool" where "is_float (VFloat d) = True" | "is_float _ = False"
fun is_exact_int :: "pyval \<Rightarrow> bool" where "is_exact_int (VInt i) = True" | "is_exact_int _ = False"

definition is_number :: "pyval \<Rightarrow> bool" where
  \<comment> \<open>\<open>isinstance(v, (int, float))\<close>\<close>
  "is_number v = (num_of v \<noteq> None)"

fun is_int :: "pyval \<Rightarrow> bool" where
  "is_int (VInt i) = True" | "is_int (VBool b) = True" | "is_int _ = False"

fun non_finite_float :: "pyval \<Rightarrow> bool" where
  "non_finite_float (VFloat f) = (\<not> pf_finite f)"
| "non_finite_float _ = False"

definition nonempty_str :: "pyval \<Rightarrow> bool" where
  \<comment> \<open>\<open>isinstance(v, str) and v\<close>\<close>
  "nonempty_str v = (is_str v \<and> truthy v)"

fun str_of :: "pyval \<Rightarrow> string" where
  \<comment> \<open>the string of a value already known to be one\<close>
  "str_of (VStr s) = s"
| "str_of _ = []"

text \<open>No key occurs twice anywhere in a value: what every Python dictionary satisfies.\<close>

fun val_wf :: "pyval \<Rightarrow> bool"
  and vals_wf :: "pyval list \<Rightarrow> bool"
  and items_wf :: "(string \<times> pyval) list \<Rightarrow> bool" where
  "val_wf (VList xs) = vals_wf xs"
| "val_wf (VTuple xs) = vals_wf xs"
| "val_wf (VDict d) = (dict_wf d \<and> items_wf d)"
| "val_wf _ = True"
| "vals_wf [] = True"
| "vals_wf (x # xs) = (val_wf x \<and> vals_wf xs)"
| "items_wf [] = True"
| "items_wf ((k, v) # d) = (val_wf v \<and> items_wf d)"

fun has_nan :: "pyval \<Rightarrow> bool"
  and has_nan_list :: "pyval list \<Rightarrow> bool"
  and has_nan_items :: "(string \<times> pyval) list \<Rightarrow> bool" where
  "has_nan (VFloat f) = (f = NaN)"
| "has_nan (VList xs) = has_nan_list xs"
| "has_nan (VTuple xs) = has_nan_list xs"
| "has_nan (VDict d) = has_nan_items d"
| "has_nan _ = False"
| "has_nan_list [] = False"
| "has_nan_list (x # xs) = (has_nan x \<or> has_nan_list xs)"
| "has_nan_items [] = False"
| "has_nan_items ((k, v) # d) = (has_nan v \<or> has_nan_items d)"

lemma is_dictE: "is_dict v \<Longrightarrow> (\<And>d. v = VDict d \<Longrightarrow> P) \<Longrightarrow> P" by (cases v) auto
lemma is_listE: "is_list v \<Longrightarrow> (\<And>d. v = VList d \<Longrightarrow> P) \<Longrightarrow> P" by (cases v) auto
lemma is_strE: "is_str v \<Longrightarrow> (\<And>s. v = VStr s \<Longrightarrow> P) \<Longrightarrow> P" by (cases v) auto

lemma nonempty_str_iff: "nonempty_str v \<longleftrightarrow> (\<exists>s. v = VStr s \<and> s \<noteq> [])"
  by (cases v) (auto simp: nonempty_str_def)

lemma items_wf_iff: "items_wf d \<longleftrightarrow> (\<forall>(k, v) \<in> set d. val_wf v)"
  by (induction d) auto

lemma items_wf_get: "items_wf d \<Longrightarrow> map_of d k = Some v \<Longrightarrow> val_wf v"
  by (auto simp: items_wf_iff dest: map_of_SomeD)

lemma pf_eq_refl [simp]: "pf_eq x x \<longleftrightarrow> x \<noteq> NaN"
  by (cases x) auto

lemma py_eq_items_mono:
  "\<forall>(k, v) \<in> set d. map_of e k = Some v \<and> py_eq v v \<Longrightarrow> py_eq_items d e"
  by (induction d) auto

text \<open>\<open>==\<close> is reflexive on NaN-free values, as every JSON document read by the code is.\<close>

lemma py_eq_refl:
  "\<not> has_nan v \<Longrightarrow> val_wf v \<Longrightarrow> py_eq v v"
  "\<not> has_nan_list vs \<Longrightarrow> vals_wf vs \<Longrightarrow> py_eq_list vs vs"
  "\<not> has_nan_items d \<Longrightarrow> items_wf d \<Longrightarrow> \<forall>(k, v) \<in> set d. py_eq v v"
proof (induction v and vs and d rule: has_nan_has_nan_list_has_nan_items.induct)
  case (4 d)
  then have "\<forall>(k, v) \<in> set d. map_of d k = Some v \<and> py_eq v v"
    by (auto simp: dict_wf_def)
  with 4 show ?case by (auto intro: py_eq_items_mono)
qed auto

end
