(* ===== verification/Schema.thy ===== *)
theory Schema
  imports Values
begin

text \<open>
  The plugin schema dialect of src/src/aka/core/plugin_runtime/schema.py: \<open>check_schema\<close> accepts
  the schemas a plugin may declare, \<open>validate_schema\<close> checks a value against one.  Every raise
  is a value of \<open>schema_error\<close>: \<open>PluginError\<close> carries the code and what the message names; the
  other constructors are the exceptions Python itself would raise on a malformed schema.
  The theorems show that the two functions fit: on a schema that \<open>check_schema\<close> accepts the
  validator only ever raises \<open>PluginError\<close>, and it accepts exactly the values of a declarative
  conformance relation.
\<close>

datatype schema_msg =
    Expected string | UnsupportedValue | MissingKey string | UnknownField string
  | StringTooShort | OutsideRange | UnsupportedKeywords | NeedsType | ConstraintMismatch
  | EnumShape | MinLengthShape | BoundShape | MinExceedsMax | PropertiesShape
  | RequiredShape | AdditionalShape

datatype schema_error =
    PluginError string string schema_msg   \<comment> \<open>code, path, what the message says\<close>
  | PyKeyError string
  | PyTypeError

type_synonym schema_res = "schema_error + unit"

definition invalid_manifest :: "schema_msg \<Rightarrow> schema_error" where
  "invalid_manifest m = PluginError ''invalid_manifest'' [] m"

definition schema_validation :: "string \<Rightarrow> schema_msg \<Rightarrow> schema_error" where
  "schema_validation path m = PluginError ''schema_validation'' path m"

section \<open>The validator\<close>

text \<open>\<open>isinstance(value, types[kind])\<close>, with the exclusion of booleans from the number kinds;
  \<open>None\<close> is the \<open>KeyError\<close> of an unknown kind.\<close>

definition kind_matches :: "string \<Rightarrow> pyval \<Rightarrow> bool option" where
  "kind_matches kind v =
     (if kind = ''object'' then Some (is_dict v)
      else if kind = ''array'' then Some (is_list v)
      else if kind = ''string'' then Some (is_str v)
      else if kind = ''integer'' then Some (is_int v \<and> \<not> is_bool v)
      else if kind = ''number'' then Some (is_number v \<and> \<not> is_bool v)
      else if kind = ''boolean'' then Some (is_bool v)
      else if kind = ''null'' then Some (v = VNull)
      else None)"

definition digit_string :: "nat \<Rightarrow> string" where
  "digit_string n = [char_of (48 + n mod 10)]"

fun nat_string :: "nat \<Rightarrow> string" where
  "nat_string n = (if n < 10 then digit_string n else nat_string (n div 10) @ digit_string n)"

declare nat_string.simps [simp del]

definition num_le :: "pyval \<Rightarrow> pyval \<Rightarrow> schema_error + bool" where
  \<comment> \<open>\<open>x <= y\<close>; comparing a non-number raises \<open>TypeError\<close>\<close>
  "num_le x y = (case (num_of x, num_of y) of (Some a, Some b) \<Rightarrow> Inr (pf_le a b) | _ \<Rightarrow> Inl PyTypeError)"

definition num_lt :: "pyval \<Rightarrow> pyval \<Rightarrow> schema_error + bool" where
  "num_lt x y = (case (num_of x, num_of y) of (Some a, Some b) \<Rightarrow> Inr (pf_lt a b) | _ \<Rightarrow> Inl PyTypeError)"

definition validate_required :: "pyval list \<Rightarrow> pyval dict \<Rightarrow> string \<Rightarrow> schema_res" where
  "validate_required req d path =
     fold_res (\<lambda>_ r. case r of
         VStr k \<Rightarrow> guard_res (dict_has d k) (schema_validation path (MissingKey k))
       | _ \<Rightarrow> Inl (schema_validation path (MissingKey []))) () req"

definition validate_enum :: "pyval dict \<Rightarrow> pyval \<Rightarrow> string \<Rightarrow> schema_res" where
  "validate_enum s v path =
     (case map_of s ''enum'' of None \<Rightarrow> Inr ()
      | Some (VList vs) \<Rightarrow> guard_res (py_in v vs) (schema_validation path UnsupportedValue)
      | Some _ \<Rightarrow> Inl PyTypeError)"

definition validate_string :: "pyval dict \<Rightarrow> string \<Rightarrow> string \<Rightarrow> schema_res" where
  "validate_string s v path =
     bind_res (num_lt (VInt (int (length v))) (dict_get_default s ''minLength'' (VInt 0)))
       (\<lambda>short. guard_res (\<not> short) (schema_validation path StringTooShort))"

definition validate_number :: "pyval dict \<Rightarrow> pyval \<Rightarrow> string \<Rightarrow> schema_res" where
  "validate_number s v path =
     (if non_finite_float v then Inl (schema_validation path OutsideRange)
      else bind_res (num_le (dict_get_default s ''minimum'' (VFloat NegInf)) v) (\<lambda>lo.
        if \<not> lo then Inl (schema_validation path OutsideRange)
        else bind_res (num_le v (dict_get_default s ''maximum'' (VFloat PosInf))) (\<lambda>hi.
          guard_res hi (schema_validation path OutsideRange))))"

text \<open>
  \<open>validate_schema\<close> with its two loops: over the items of an object and over the elements of an
  array.  The recursion is on the value.
\<close>

fun validate_schema :: "pyval \<Rightarrow> pyval \<Rightarrow> string \<Rightarrow> schema_res"
  and validate_items :: "pyval dict \<Rightarrow> pyval dict \<Rightarrow> string \<Rightarrow> schema_res"
  and validate_elems :: "pyval dict \<Rightarrow> pyval list \<Rightarrow> nat \<Rightarrow> string \<Rightarrow> schema_res" where
  "validate_schema sv v path =
     (case sv of VDict s \<Rightarrow>
       (case map_of s ''type'' of None \<Rightarrow> Inl (PyKeyError ''type'')
        | Some kv \<Rightarrow>
         (case kind_matches (str_of kv) v of None \<Rightarrow> Inl (PyKeyError (str_of kv))
          | Some m \<Rightarrow>
           if \<not> m then Inl (schema_validation path (Expected (str_of kv)))
           else bind_res (validate_enum s v path) (\<lambda>_. case v of
                VDict d \<Rightarrow>
                  (case dict_get_default s ''required'' (VList []) of
                     VList req \<Rightarrow> bind_res (validate_required req d path)
                                    (\<lambda>_. validate_items s d path)
                   | _ \<Rightarrow> Inl PyTypeError)
              | VList xs \<Rightarrow> validate_elems s xs 0 path
              | VStr str \<Rightarrow> validate_string s str path
              | VInt i \<Rightarrow> validate_number s v path
              | VFloat f \<Rightarrow> validate_number s v path
              | _ \<Rightarrow> Inr ())))
      | _ \<Rightarrow> Inl PyTypeError)"
| "validate_items s [] path = Inr ()"
| "validate_items s ((k, item) # d) path =
     (case dict_get_default s ''properties'' (VDict []) of
        VDict ps \<Rightarrow>
          (case dict_get_default ps k (dict_get_default s ''additionalProperties'' (VBool True)) of
             VBool False \<Rightarrow> Inl (schema_validation path (UnknownField k))
           | VDict child \<Rightarrow>
               bind_res (validate_schema (VDict child) item (path @ ''.'' @ k))
                 (\<lambda>_. validate_items s d path)
           | _ \<Rightarrow> validate_items s d path)
      | _ \<Rightarrow> Inl PyTypeError)"
| "validate_elems s [] i path = Inr ()"
| "validate_elems s (x # xs) i path =
     (case map_of s ''items'' of None \<Rightarrow> Inl (PyKeyError ''items'')
      | Some child \<Rightarrow>
          bind_res (validate_schema child x (path @ ''['' @ nat_string i @ '']''))
            (\<lambda>_. validate_elems s xs (Suc i) path))"

declare validate_schema.simps [simp del]

section \<open>The schema check\<close>

definition schema_kinds :: "string list" where
  "schema_kinds = [''object'', ''array'', ''string'', ''integer'', ''number'', ''boolean'', ''null'']"

definition schema_keywords :: "string list" where
  "schema_keywords = [''type'', ''description'', ''properties'', ''required'',
     ''additionalProperties'', ''items'', ''enum'', ''minLength'', ''minimum'', ''maximum'']"

definition typed_keywords :: "string \<Rightarrow> string list" where
  "typed_keywords kind =
     (if kind = ''object'' then [''properties'', ''required'', ''additionalProperties'']
      else if kind = ''array'' then [''items'']
      else if kind = ''string'' then [''minLength'']
      else if kind = ''integer'' \<or> kind = ''number'' then [''minimum'', ''maximum'']
      else [])"

definition check_type :: "pyval dict \<Rightarrow> schema_res" where
  "check_type s =
     (case map_of s ''type'' of
        Some (VStr kind) \<Rightarrow>
          if kind \<notin> set schema_kinds then Inl (invalid_manifest NeedsType)
          else guard_res
            (list_all (\<lambda>k. k \<in> set ([''type'', ''description'', ''enum''] @ typed_keywords kind))
              (dict_keys s))
            (invalid_manifest ConstraintMismatch)
      | _ \<Rightarrow> Inl (invalid_manifest NeedsType))"

definition check_enum :: "pyval dict \<Rightarrow> schema_res" where
  "check_enum s =
     (case map_of s ''enum'' of None \<Rightarrow> Inr ()
      | Some e \<Rightarrow> guard_res (is_list e \<and> truthy e) (invalid_manifest EnumShape))"

definition check_min_length :: "pyval dict \<Rightarrow> schema_res" where
  "check_min_length s =
     (case map_of s ''minLength'' of None \<Rightarrow> Inr ()
      | Some (VInt n) \<Rightarrow> guard_res (0 \<le> n) (invalid_manifest MinLengthShape)
      | Some _ \<Rightarrow> Inl (invalid_manifest MinLengthShape))"

definition check_bound :: "pyval dict \<Rightarrow> string \<Rightarrow> schema_res" where
  "check_bound s bound =
     (case map_of s bound of None \<Rightarrow> Inr ()
      | Some b \<Rightarrow> guard_res ((is_exact_int b \<or> is_float b) \<and> \<not> non_finite_float b)
                    (invalid_manifest BoundShape))"

definition check_bounds :: "pyval dict \<Rightarrow> schema_res" where
  "check_bounds s =
     bind_res (check_bound s ''minimum'') (\<lambda>_.
     bind_res (check_bound s ''maximum'') (\<lambda>_.
       case (num_of (dict_get_default s ''minimum'' (VFloat NegInf)),
             num_of (dict_get_default s ''maximum'' (VFloat PosInf))) of
         (Some lo, Some hi) \<Rightarrow> guard_res (\<not> pf_lt hi lo) (invalid_manifest MinExceedsMax)
       | _ \<Rightarrow> Inl PyTypeError))"

definition check_shape :: "pyval dict \<Rightarrow> schema_res" where
  "check_shape s =
     (case (dict_get_default s ''properties'' (VDict []), dict_get_default s ''required'' (VList [])) of
        (VDict ps, VList req) \<Rightarrow>
          guard_res (list_all (\<lambda>k. is_str k \<and> dict_has ps (str_of k)) req)
            (invalid_manifest RequiredShape)
      | _ \<Rightarrow> Inl (invalid_manifest PropertiesShape))"

definition check_local :: "pyval dict \<Rightarrow> schema_res" where
  \<comment> \<open>every check of \<open>check_schema\<close> before it recurses, in order\<close>
  "check_local s =
     (if \<not> list_all (\<lambda>k. k \<in> set schema_keywords) (dict_keys s)
      then Inl (invalid_manifest UnsupportedKeywords)
      else bind_res (check_type s) (\<lambda>_.
           bind_res (check_enum s) (\<lambda>_.
           bind_res (check_min_length s) (\<lambda>_.
           bind_res (check_bounds s) (\<lambda>_. check_shape s)))))"

lemma map_of_size:
  "map_of s k = Some v \<Longrightarrow> size v < size_list (size_prod (\<lambda>_. 0) size) s"
  by (induction s) (auto split: if_splits)

function (sequential) check_schema :: "pyval \<Rightarrow> schema_res"
  and check_children :: "pyval dict \<Rightarrow> schema_res" where
  "check_schema (VDict s) =
     bind_res (check_local s) (\<lambda>_.
     bind_res (case map_of s ''properties'' of Some (VDict ps) \<Rightarrow> check_children ps | _ \<Rightarrow> Inr ()) (\<lambda>_.
     bind_res
       (case map_of s ''additionalProperties'' of None \<Rightarrow> Inr ()
        | Some (VDict e) \<Rightarrow> check_schema (VDict e)
        | Some (VBool b) \<Rightarrow> Inr ()
        | Some _ \<Rightarrow> Inl (invalid_manifest AdditionalShape)) (\<lambda>_.
       if map_of s ''type'' = Some (VStr ''array'')
       then (case map_of s ''items'' of None \<Rightarrow> Inl (invalid_manifest UnsupportedKeywords)
             | Some c \<Rightarrow> check_schema c)
       else Inr ())))"
| "check_schema v = Inl (invalid_manifest UnsupportedKeywords)"
| "check_children [] = Inr ()"
| "check_children ((k, c) # ps) = bind_res (check_schema c) (\<lambda>_. check_children ps)"
  by pat_completeness auto

termination
  by (relation "measure (\<lambda>x. case x of Inl v \<Rightarrow> size v | Inr ps \<Rightarrow> size_list (size_prod (\<lambda>_. 0) size) ps)")
    (auto dest: map_of_size)

section \<open>What an accepted schema looks like\<close>

abbreviation schema_ok :: "pyval \<Rightarrow> bool" where
  "schema_ok s \<equiv> check_schema s = Inr ()"

lemma check_children_iff:
  "check_children ps = Inr () \<longleftrightarrow> (\<forall>(k, c) \<in> set ps. schema_ok c)"
  by (induction ps) (auto simp: res_simps)

lemma schema_ok_dict: "schema_ok sv \<Longrightarrow> \<exists>s. sv = VDict s"
  by (cases sv) auto

lemma schema_ok_local: "schema_ok (VDict s) \<Longrightarrow> check_local s = Inr ()"
  by (auto simp: res_simps)

lemma schema_ok_type:
  assumes "schema_ok (VDict s)"
  obtains kind where "map_of s ''type'' = Some (VStr kind)" and "kind \<in> set schema_kinds"
    and "\<And>k. k \<in> set (dict_keys s) \<Longrightarrow> k \<in> set ([''type'', ''description'', ''enum''] @ typed_keywords kind)"
proof -
  from schema_ok_local [OF assms] have ct: "check_type s = Inr ()"
    by (auto simp: check_local_def res_simps simp del: set_simps split: if_splits)
  then obtain kind where ty: "map_of s ''type'' = Some (VStr kind)"
    by (cases "map_of s ''type''"; cases "the (map_of s ''type'')") (simp_all add: check_type_def)
  from ct have k: "kind \<in> set schema_kinds"
    by (rule contrapos_pp) (simp add: check_type_def ty del: set_simps)
  from ct k have "list_all (\<lambda>k. k \<in> set ([''type'', ''description'', ''enum''] @ typed_keywords kind))
      (dict_keys s)"
    by (simp add: check_type_def ty guard_res_def del: set_simps split: if_splits)
  with ty k show ?thesis by (intro that) (simp_all only: list_all_iff, blast)
qed

lemma schema_ok_enum:
  assumes "schema_ok (VDict s)" and "map_of s ''enum'' = Some e"
  shows "\<exists>vs. e = VList vs \<and> vs \<noteq> []"
  using schema_ok_local [OF assms(1)] assms(2)
  by (cases e) (auto simp: check_local_def check_enum_def res_simps split: if_splits)

lemma schema_ok_min_length:
  assumes "schema_ok (VDict s)"
  obtains n where "dict_get_default s ''minLength'' (VInt 0) = VInt n" and "0 \<le> n"
  using schema_ok_local [OF assms]
  by (auto simp: check_local_def check_min_length_def dict_get_default_def res_simps
      split: if_splits option.splits pyval.splits intro: that)

lemma schema_ok_bound:
  assumes "schema_ok (VDict s)" and "bound = ''minimum'' \<or> bound = ''maximum''"
  shows "num_of (dict_get_default s bound (VFloat f)) \<noteq> None"
proof (cases "map_of s bound")
  case (Some b)
  from schema_ok_local [OF assms(1)] assms(2) have "check_bound s bound = Inr ()"
    by (auto simp: check_local_def check_bounds_def res_simps split: if_splits)
  with Some show ?thesis
    by (cases b) (auto simp: check_bound_def dict_get_default_def res_simps)
qed (simp add: dict_get_default_def)

lemma schema_ok_shape:
  assumes "schema_ok (VDict s)"
  obtains ps req where "dict_get_default s ''properties'' (VDict []) = VDict ps"
    and "dict_get_default s ''required'' (VList []) = VList req"
    and "\<And>k. k \<in> set req \<Longrightarrow> \<exists>str. k = VStr str \<and> dict_has ps str"
  using schema_ok_local [OF assms]
  by (auto simp: check_local_def check_shape_def res_simps list_all_iff elim: is_strE
      split: if_splits pyval.splits intro: that)
    (metis is_strE str_of.simps(1) that)

lemma schema_ok_property:
  assumes "schema_ok (VDict s)" and "dict_get_default s ''properties'' (VDict []) = VDict ps"
    and "map_of ps k = Some c"
  shows "schema_ok c"
  using assms
  by (auto simp: res_simps check_children_iff dict_get_default_def dest: map_of_SomeD
      split: option.splits)

lemma schema_ok_additional:
  assumes "schema_ok (VDict s)" and "map_of s ''additionalProperties'' = Some e"
  shows "(\<exists>d. e = VDict d \<and> schema_ok e) \<or> is_bool e"
  using assms by (cases e) (auto simp: res_simps simp del: check_schema.simps(2-)
      intro: check_schema.simps(2-))

lemma schema_ok_items:
  assumes "schema_ok (VDict s)" and "map_of s ''type'' = Some (VStr ''array'')"
  obtains c where "map_of s ''items'' = Some c" and "schema_ok c"
  using assms by (auto simp: res_simps split: option.splits intro: that)

text \<open>The schema that applies to a field: a property, the additional schema, or no constraint.\<close>

lemma schema_ok_field:
  assumes "schema_ok (VDict s)" and "dict_get_default s ''properties'' (VDict []) = VDict ps"
    and "dict_get_default ps k (dict_get_default s ''additionalProperties'' (VBool True)) = c"
  shows "is_bool c \<or> (is_dict c \<and> schema_ok c)"
proof (cases "map_of ps k")
  case None
  show ?thesis
  proof (cases "map_of s ''additionalProperties''")
    case None
    with \<open>map_of ps k = None\<close> assms(3) show ?thesis by (auto simp: dict_get_default_def)
  next
    case (Some e)
    with \<open>map_of ps k = None\<close> assms(3) have "c = e" by (simp add: dict_get_default_def)
    with schema_ok_additional [OF assms(1) Some] show ?thesis by auto
  qed
next
  case (Some c')
  with assms(3) have "c = c'" by (simp add: dict_get_default_def)
  with schema_ok_property [OF assms(1,2) Some] schema_ok_dict [of c] show ?thesis by auto
qed


declare check_schema.simps [simp del]

section \<open>Validation of accepted schemas\<close>

definition is_validation_error :: "schema_error \<Rightarrow> bool" where
  "is_validation_error e = (\<exists>path m. e = schema_validation path m)"

lemma is_validation_errorI [simp]: "is_validation_error (schema_validation path m)"
  by (auto simp: is_validation_error_def)

lemma kind_matches_known: "kind \<in> set schema_kinds \<Longrightarrow> \<exists>b. kind_matches kind v = Some b"
  by (auto simp: schema_kinds_def kind_matches_def)

lemma kind_matches_array: "kind_matches kind (VList xs) = Some True \<Longrightarrow> kind = ''array''"
  by (simp add: kind_matches_def is_number_def split: if_splits)

lemma validate_required_error:
  "validate_required req d path = Inl e \<Longrightarrow> is_validation_error e"
  unfolding validate_required_def
  by (induction req) (auto simp: res_simps split: pyval.splits)

lemma validate_string_error:
  assumes "schema_ok (VDict s)" and "validate_string s str path = Inl e"
  shows "is_validation_error e"
proof -
  obtain n where "dict_get_default s ''minLength'' (VInt 0) = VInt n"
    by (rule schema_ok_min_length [OF assms(1)])
  with assms(2) show ?thesis by (auto simp: validate_string_def num_lt_def res_simps)
qed

lemma validate_enum_error:
  assumes "schema_ok (VDict s)" and "validate_enum s v path = Inl e"
  shows "is_validation_error e"
  using schema_ok_enum [OF assms(1)] assms(2)
  by (auto simp: validate_enum_def res_simps split: option.splits)

lemma validate_number_error:
  assumes ok: "schema_ok (VDict s)" and v: "num_of v \<noteq> None" and err: "validate_number s v path = Inl e"
  shows "is_validation_error e"
proof -
  have "num_of (dict_get_default s ''minimum'' (VFloat NegInf)) \<noteq> None"
    "num_of (dict_get_default s ''maximum'' (VFloat PosInf)) \<noteq> None"
    by (rule schema_ok_bound [OF ok], simp)+
  with v err show ?thesis
    by (auto simp: validate_number_def num_le_def res_simps split: if_splits)
qed

lemma validate_schema_unfold:
  assumes "map_of s ''type'' = Some (VStr kind)" and "kind_matches kind v = Some m"
  shows "validate_schema (VDict s) v path = (if \<not> m then Inl (schema_validation path (Expected kind))
      else bind_res (validate_enum s v path) (\<lambda>_. case v of
         VDict d \<Rightarrow>
           (case dict_get_default s ''required'' (VList []) of
              VList req \<Rightarrow> bind_res (validate_required req d path) (\<lambda>_. validate_items s d path)
            | _ \<Rightarrow> Inl PyTypeError)
       | VList xs \<Rightarrow> validate_elems s xs 0 path
       | VStr str \<Rightarrow> validate_string s str path
       | VInt i \<Rightarrow> validate_number s v path
       | VFloat f \<Rightarrow> validate_number s v path
       | _ \<Rightarrow> Inr ()))"
  using assms by (simp add: validate_schema.simps [of "VDict s"])

lemma validation_errors:
  "schema_ok sv \<Longrightarrow> validate_schema sv v path = Inl e \<Longrightarrow> is_validation_error e"
  "schema_ok (VDict s) \<Longrightarrow> validate_items s d path = Inl e \<Longrightarrow> is_validation_error e"
  "schema_ok (VDict s) \<Longrightarrow> map_of s ''type'' = Some (VStr ''array'') \<Longrightarrow>
     validate_elems s xs i path = Inl e \<Longrightarrow> is_validation_error e"
proof (induction sv v path and s d path and s xs i path
    arbitrary: e and e and e
    rule: validate_schema_validate_items_validate_elems.induct)
  case (1 sv v path)
  from schema_ok_dict [OF "1.prems"(1)] obtain s where sv: "sv = VDict s" by blast
  note ok = "1.prems"(1) [unfolded sv]
  obtain kind where ty: "map_of s ''type'' = Some (VStr kind)" and k: "kind \<in> set schema_kinds"
    by (rule schema_ok_type [OF ok])
  obtain m where m: "kind_matches kind v = Some m"
    using kind_matches_known [OF k] by blast
  from m have m': "kind_matches (str_of (VStr kind)) v = Some m" by simp
  note unf = validate_schema_unfold [OF ty m, folded sv]
  obtain ps req where req: "dict_get_default s ''required'' (VList []) = VList req"
    by (rule schema_ok_shape [OF ok])
  note prem = "1.prems"(2) [unfolded unf]
  note errs = validate_required_error validate_enum_error [OF ok] validate_string_error [OF ok]
    validate_number_error [OF ok, of "VInt i" for i] validate_number_error [OF ok, of "VFloat f" for f]
  show ?case
  proof (cases m)
    case False
    with prem show ?thesis by auto
  next
    case True
    show ?thesis
    proof (cases v)
      case (VDict d)
      with prem True req "1.IH"(2) [OF sv ty m' _ VDict req ok] errs show ?thesis
        by (auto simp: res_simps)
    next
      case (VList xs)
      with m True have "kind = ''array''" by (auto dest: kind_matches_array)
      with prem True VList "1.IH"(1) [OF sv ty m' _ VList ok] ok ty errs show ?thesis
        by (auto simp: res_simps)
    qed (use prem True errs in \<open>auto simp: res_simps\<close>)
  qed
next
  case (2 s path)
  then show ?case by simp
next
  case (3 s k item d path)
  obtain ps req where ps: "dict_get_default s ''properties'' (VDict []) = VDict ps"
    using schema_ok_shape [OF "3.prems"(1)] by metis
  from schema_ok_field [OF "3.prems"(1) ps refl, of k] 3 ps show ?case
    by (auto simp: res_simps elim!: is_dictE split: pyval.splits bool.splits)
next
  case (4 s i path)
  then show ?case by simp
next
  case (5 s x xs i path)
  from schema_ok_items [OF "5.prems"(1,2)] obtain c where "map_of s ''items'' = Some c" "schema_ok c"
    by metis
  with 5 show ?case by (auto simp: res_simps)
qed

text \<open>
  What the validator accepts, stated without paths, messages or an order of checks.
\<close>

definition leaf_conforms :: "pyval dict \<Rightarrow> pyval \<Rightarrow> bool" where
  "leaf_conforms s v =
     (case v of
        VStr str \<Rightarrow> \<not> pf_lt (Fin (of_nat (length str))) (the (num_of (dict_get_default s ''minLength'' (VInt 0))))
      | VInt i \<Rightarrow> pf_le (the (num_of (dict_get_default s ''minimum'' (VFloat NegInf)))) (Fin (of_int i))
                  \<and> pf_le (Fin (of_int i)) (the (num_of (dict_get_default s ''maximum'' (VFloat PosInf))))
      | VFloat f \<Rightarrow> pf_finite f
                  \<and> pf_le (the (num_of (dict_get_default s ''minimum'' (VFloat NegInf)))) f
                  \<and> pf_le f (the (num_of (dict_get_default s ''maximum'' (VFloat PosInf))))
      | _ \<Rightarrow> True)"

definition field_schema :: "pyval dict \<Rightarrow> string \<Rightarrow> pyval" where
  "field_schema s k =
     (case dict_get_default s ''properties'' (VDict []) of
        VDict ps \<Rightarrow> dict_get_default ps k (dict_get_default s ''additionalProperties'' (VBool True))
      | _ \<Rightarrow> VNull)"

inductive conforms :: "pyval \<Rightarrow> pyval \<Rightarrow> bool" where
  conforms_leaf:
    "map_of s ''type'' = Some (VStr kind) \<Longrightarrow> kind_matches kind v = Some True \<Longrightarrow>
     (\<forall>vs. map_of s ''enum'' = Some (VList vs) \<longrightarrow> py_in v vs) \<Longrightarrow>
     \<not> is_dict v \<Longrightarrow> \<not> is_list v \<Longrightarrow> leaf_conforms s v \<Longrightarrow> conforms (VDict s) v"
| conforms_array:
    "map_of s ''type'' = Some (VStr ''array'') \<Longrightarrow>
     (\<forall>vs. map_of s ''enum'' = Some (VList vs) \<longrightarrow> py_in (VList xs) vs) \<Longrightarrow>
     map_of s ''items'' = Some c \<Longrightarrow> (\<forall>x \<in> set xs. conforms c x) \<Longrightarrow>
     conforms (VDict s) (VList xs)"
| conforms_object:
    "map_of s ''type'' = Some (VStr ''object'') \<Longrightarrow>
     (\<forall>vs. map_of s ''enum'' = Some (VList vs) \<longrightarrow> py_in (VDict d) vs) \<Longrightarrow>
     dict_get_default s ''required'' (VList []) = VList req \<Longrightarrow>
     (\<forall>k. VStr k \<in> set req \<longrightarrow> dict_has d k) \<Longrightarrow>
     (\<forall>(k, item) \<in> set d. field_schema s k = VBool True \<or>
        is_dict (field_schema s k) \<and> conforms (field_schema s k) item) \<Longrightarrow>
     conforms (VDict s) (VDict d)"

inductive_cases conforms_arrayE: "conforms sv (VList xs)"
inductive_cases conforms_objectE: "conforms sv (VDict d)"

lemma validate_enum_ok:
  assumes "schema_ok (VDict s)"
  shows "validate_enum s v path = Inr () \<longleftrightarrow> (\<forall>vs. map_of s ''enum'' = Some (VList vs) \<longrightarrow> py_in v vs)"
  using schema_ok_enum [OF assms]
  by (auto simp: validate_enum_def res_simps split: option.splits)

lemma validate_required_ok:
  assumes "\<And>k. k \<in> set req \<Longrightarrow> is_str k"
  shows "validate_required req d path = Inr () \<longleftrightarrow> (\<forall>k. VStr k \<in> set req \<longrightarrow> dict_has d k)"
  using assms unfolding validate_required_def
  by (induction req) (force simp: res_simps elim: is_strE)+

lemma validate_leaf_ok:
  assumes "schema_ok (VDict s)"
  shows "validate_string s str path = Inr () \<longleftrightarrow> leaf_conforms s (VStr str)"
    and "validate_number s (VInt i) path = Inr () \<longleftrightarrow> leaf_conforms s (VInt i)"
    and "validate_number s (VFloat f) path = Inr () \<longleftrightarrow> leaf_conforms s (VFloat f)"
proof -
  obtain n where "dict_get_default s ''minLength'' (VInt 0) = VInt n"
    by (rule schema_ok_min_length [OF assms])
  then show "validate_string s str path = Inr () \<longleftrightarrow> leaf_conforms s (VStr str)"
    by (auto simp: validate_string_def num_lt_def leaf_conforms_def res_simps)
  from schema_ok_bound [OF assms, of "''minimum''" NegInf]
    schema_ok_bound [OF assms, of "''maximum''" PosInf]
  obtain lo hi where "num_of (dict_get_default s ''minimum'' (VFloat NegInf)) = Some lo"
    "num_of (dict_get_default s ''maximum'' (VFloat PosInf)) = Some hi"
    by auto
  then show "validate_number s (VInt i) path = Inr () \<longleftrightarrow> leaf_conforms s (VInt i)"
    "validate_number s (VFloat f) path = Inr () \<longleftrightarrow> leaf_conforms s (VFloat f)"
    by (auto simp: validate_number_def num_le_def leaf_conforms_def res_simps)
qed

lemma kind_matches_object: "kind_matches kind (VDict d) = Some True \<Longrightarrow> kind = ''object''"
  by (simp add: kind_matches_def is_number_def split: if_splits)

lemma conforms_kind:
  assumes "conforms (VDict s) v" and "map_of s ''type'' = Some (VStr kind)"
  shows "kind_matches kind v = Some True"
  using assms by cases (auto simp: kind_matches_def)

lemma field_schema_cases:
  assumes "schema_ok (VDict s)"
  shows "field_schema s k = VBool True \<or> field_schema s k = VBool False
    \<or> (\<exists>c. field_schema s k = VDict c \<and> schema_ok (VDict c))"
proof -
  obtain ps req where ps: "dict_get_default s ''properties'' (VDict []) = VDict ps"
    by (rule schema_ok_shape [OF assms])
  from schema_ok_field [OF assms ps refl, of k] ps show ?thesis
    by (cases "field_schema s k") (auto simp: field_schema_def)
qed

lemma validate_items_step:
  assumes "schema_ok (VDict s)"
  shows "validate_items s ((k, item) # d) path =
    (case field_schema s k of
       VBool False \<Rightarrow> Inl (schema_validation path (UnknownField k))
     | VDict c \<Rightarrow> bind_res (validate_schema (VDict c) item (path @ ''.'' @ k)) (\<lambda>_. validate_items s d path)
     | _ \<Rightarrow> validate_items s d path)"
proof -
  obtain ps req where ps: "dict_get_default s ''properties'' (VDict []) = VDict ps"
    by (rule schema_ok_shape [OF assms])
  then show ?thesis by (simp add: field_schema_def)
qed

text \<open>The validator accepts exactly the conforming values.\<close>

lemma conforms_dict_iff:
  assumes ok: "schema_ok (VDict s)" and ty: "map_of s ''type'' = Some (VStr kind)"
    and m: "kind_matches kind (VDict d) = Some True"
    and req: "dict_get_default s ''required'' (VList []) = VList req"
  shows "conforms (VDict s) (VDict d) \<longleftrightarrow>
    (\<forall>vs. map_of s ''enum'' = Some (VList vs) \<longrightarrow> py_in (VDict d) vs) \<and>
    (\<forall>k. VStr k \<in> set req \<longrightarrow> dict_has d k) \<and>
    (\<forall>(k, item) \<in> set d. field_schema s k = VBool True \<or>
        is_dict (field_schema s k) \<and> conforms (field_schema s k) item)"
  using kind_matches_object [OF m] ty req
  by (auto elim: conforms_objectE intro: conforms_object)

lemma conforms_list_iff:
  assumes "schema_ok (VDict s)" and ty: "map_of s ''type'' = Some (VStr kind)"
    and m: "kind_matches kind (VList xs) = Some True" and "map_of s ''items'' = Some c"
  shows "conforms (VDict s) (VList xs) \<longleftrightarrow>
    (\<forall>vs. map_of s ''enum'' = Some (VList vs) \<longrightarrow> py_in (VList xs) vs) \<and> (\<forall>x \<in> set xs. conforms c x)"
  using kind_matches_array [OF m] assms
  by (auto elim: conforms_arrayE intro: conforms_array)

lemma conforms_leaf_iff:
  assumes "map_of s ''type'' = Some (VStr kind)" and "kind_matches kind v = Some True"
    and "\<not> is_dict v" and "\<not> is_list v"
  shows "conforms (VDict s) v \<longleftrightarrow>
    (\<forall>vs. map_of s ''enum'' = Some (VList vs) \<longrightarrow> py_in v vs) \<and> leaf_conforms s v"
  using assms by (auto elim: conforms.cases intro: conforms_leaf)

lemma leaf_conforms_trivial [simp]:
  "leaf_conforms s VNull" "leaf_conforms s (VBool b)" "leaf_conforms s (VTuple ts)"
  by (simp_all add: leaf_conforms_def)

lemma schema_ok_required:
  assumes "schema_ok (VDict s)"
  shows "\<exists>req. dict_get_default s ''required'' (VList []) = VList req \<and> (\<forall>k \<in> set req. is_str k)"
  by (rule schema_ok_shape [OF assms]) force

lemma validate_iff_conforms:
  "schema_ok sv \<Longrightarrow> validate_schema sv v path = Inr () \<longleftrightarrow> conforms sv v"
  "schema_ok (VDict s) \<Longrightarrow> validate_items s d path = Inr () \<longleftrightarrow>
     (\<forall>(k, item) \<in> set d. field_schema s k = VBool True \<or>
        is_dict (field_schema s k) \<and> conforms (field_schema s k) item)"
  "schema_ok (VDict s) \<Longrightarrow> map_of s ''type'' = Some (VStr ''array'') \<Longrightarrow> map_of s ''items'' = Some c \<Longrightarrow>
     validate_elems s xs i path = Inr () \<longleftrightarrow> (\<forall>x \<in> set xs. conforms c x)"
proof (induction sv v path and s d path and s xs i path arbitrary: and and c
    rule: validate_schema_validate_items_validate_elems.induct)
  case (1 sv v path)
  from schema_ok_dict [OF "1.prems"] obtain s where sv: "sv = VDict s" by blast
  note ok = "1.prems" [unfolded sv]
  obtain kind where ty: "map_of s ''type'' = Some (VStr kind)" and k: "kind \<in> set schema_kinds"
    by (rule schema_ok_type [OF ok])
  obtain m where m: "kind_matches kind v = Some m"
    using kind_matches_known [OF k] by blast
  from m have m': "kind_matches (str_of (VStr kind)) v = Some m" by simp
  from schema_ok_required [OF ok] obtain req
    where req: "dict_get_default s ''required'' (VList []) = VList req" and strs: "\<forall>k \<in> set req. is_str k"
    by blast
  have reqs: "validate_required req d path = Inr () \<longleftrightarrow> (\<forall>k. VStr k \<in> set req \<longrightarrow> dict_has d k)" for d
    by (rule validate_required_ok) (use strs in blast)
  show ?case
  proof (cases m)
    case False
    with m sv ty conforms_kind [of s v] show ?thesis
      by (auto simp: validate_schema_unfold [OF ty m])
  next
    case True
    note unf = validate_schema_unfold [OF ty m, of path]
    show ?thesis
    proof (cases v)
      case (VDict d)
      with "1.IH"(2) [OF sv ty m' _ VDict req ok] True m
        conforms_dict_iff [OF ok ty _ req, of d] req reqs validate_enum_ok [OF ok]
      show ?thesis unfolding sv unf by (simp add: res_simps)
    next
      case (VList xs)
      with m True ty have ty': "map_of s ''type'' = Some (VStr ''array'')"
        by (auto dest: kind_matches_array)
      obtain c where c: "map_of s ''items'' = Some c"
        by (rule schema_ok_items [OF ok ty'])
      with "1.IH"(1) [OF sv ty m' _ VList ok ty'] True m VList
        conforms_list_iff [OF ok ty _ c, of xs] validate_enum_ok [OF ok]
      show ?thesis unfolding sv unf by (simp add: res_simps)
    qed (unfold sv unf, use m True validate_enum_ok [OF ok] validate_leaf_ok [OF ok]
          conforms_leaf_iff [OF ty, of v] in \<open>simp_all add: res_simps\<close>)
  qed
next
  case (3 s k item d path)
  obtain ps req where ps: "dict_get_default s ''properties'' (VDict []) = VDict ps"
    by (rule schema_ok_shape [OF "3.prems"])
  let ?c = "field_schema s k"
  from field_schema_cases [OF "3.prems", of k] consider "?c = VBool True" | "?c = VBool False"
    | c where "?c = VDict c" "schema_ok (VDict c)" by blast
  then show ?case
  proof cases
    case 1
    with "3.IH" "3.prems" ps show ?thesis by (auto simp: field_schema_def)
  next
    case 2
    with validate_items_step [OF "3.prems"] show ?thesis by auto
  next
    case 3
    with "3.IH" "3.prems" ps show ?thesis
      by (auto simp: field_schema_def res_simps)
  qed
next
  case (5 s x xs i path)
  from schema_ok_items [OF "5.prems"(1,2)] "5.prems"(3) have "schema_ok c" by auto
  with 5 show ?case by (auto simp: res_simps)
qed simp_all

section \<open>Properties\<close>

text \<open>
  C37: For a schema that \<open>check_schema\<close> accepts, \<open>validate_schema\<close> returns exactly on the values that
  conform to it, and otherwise raises a \<open>schema_validation\<close> error and nothing else.
\<close>

theorem validation_decides:
  assumes "check_schema sv = Inr ()"
  shows "(case validate_schema sv v path of
       Inr _ \<Rightarrow> conforms sv v
     | Inl e \<Rightarrow> \<not> conforms sv v \<and> is_validation_error e)"
proof (cases "validate_schema sv v path")
  case (Inl e)
  with validation_errors(1) [OF assms Inl] validate_iff_conforms(1) [OF assms, of v path] show ?thesis by auto
next
  case (Inr u)
  with validate_iff_conforms(1) [OF assms, of v path] show ?thesis by simp
qed

definition sample_schema :: pyval where
  "sample_schema = VDict [(''type'', VStr ''object''),
     (''properties'', VDict [(''n'', VDict [(''type'', VStr ''string''), (''minLength'', VInt 1)])]),
     (''required'', VList [VStr ''n'']), (''additionalProperties'', VBool False)]"

theorem validation_decides_witness:
  "validate_schema sample_schema (VDict [(''n'', VStr ''x'')]) [] = Inr () \<and>
     conforms sample_schema (VDict [(''n'', VStr ''x'')]) \<and> \<not> conforms sample_schema (VDict [])"
proof -
  have ok: "check_schema sample_schema = Inr ()" by code_simp
  have v: "validate_schema sample_schema (VDict [(''n'', VStr ''x'')]) [] = Inr ()"
    "\<not> is_ok (validate_schema sample_schema (VDict []) [])" by code_simp+
  then obtain e where "validate_schema sample_schema (VDict []) [] = Inl e" by (cases "validate_schema sample_schema (VDict []) []") auto
  with v validation_decides [OF ok, of "VDict [(''n'', VStr ''x'')]" "[]"] validation_decides [OF ok, of "VDict []" "[]"]
  show ?thesis by simp
qed

end
