(* ===== verification/Errors.thy ===== *)
theory Errors
  imports Schema
begin

text \<open>
  The exceptions of the plugin core (src/src/aka/core/errors.py) as one datatype, together with
  the built-in exceptions the core raises and two constructors for plugin code: \<open>OtherException\<close>
  is any other subclass of \<open>Exception\<close>, \<open>BaseExc\<close> a \<open>BaseException\<close> that \<open>except Exception\<close>
  does not catch.  A message is its text, with \<open>MsgV\<close> where the text ends in the \<open>repr\<close> of a
  value and \<open>MsgExn\<close> for the text of another exception.
\<close>

datatype exn =
    DeclarationError string msg
  | ConfigError string msg
  | CompositionError string msg
  | DuplicateProvide string string string   \<comment> \<open>name, owner, claimant\<close>
  | UndeclaredInjection string string
  | UnknownService string
  | EventContractError string msg
  | WaterfallReentry string string
  | MonotonicViolation string string string
  | SettleDivergence nat "string list"
  | BootFailure "(string \<times> msg) list"
  | DisposalErrors "(string \<times> exn) list"
  | InvariantFailed string string
  | SchemaError schema_error
  | ValueError msg
  | TypeError msg
  | AttributeError string
  | OtherException string string
  | BaseExc string
and msg =
    Msg string
  | MsgV string pyval
  | MsgSchema schema_error
  | MsgExn exn

fun is_exception :: "exn \<Rightarrow> bool" where
  \<comment> \<open>caught by \<open>except Exception\<close>\<close>
  "is_exception (BaseExc _) = False"
| "is_exception _ = True"

fun is_core_error :: "exn \<Rightarrow> bool" where
  \<comment> \<open>caught by \<open>except CoreError\<close>\<close>
  "is_core_error (SchemaError _) = False"
| "is_core_error (ValueError _) = False"
| "is_core_error (TypeError _) = False"
| "is_core_error (AttributeError _) = False"
| "is_core_error (OtherException _ _) = False"
| "is_core_error (BaseExc _) = False"
| "is_core_error _ = True"

fun is_contract_error :: "exn \<Rightarrow> bool" where
  \<comment> \<open>an \<open>EventContractError\<close> or one of its two subclasses\<close>
  "is_contract_error (EventContractError _ _) = True"
| "is_contract_error (WaterfallReentry _ _) = True"
| "is_contract_error (MonotonicViolation _ _ _) = True"
| "is_contract_error _ = False"

lemma core_error_is_exception: "is_core_error e \<Longrightarrow> is_exception e"
  by (cases e) auto

end
