(* ===== verification/Keys.thy ===== *)
theory Keys
  imports Errors
begin

text \<open>
  Service and event tokens (src/src/aka/core/keys.py): the name grammars, the checks a
  \<open>ServiceKey\<close> and an \<open>Event\<close> run when they are built, and the import-time \<open>TokenTable\<close>.
  A payload or result type is its class name; \<open>None\<close> in \<open>ev_payload\<close> is a payload that is not a
  type.  \<open>token_table\<close> of src/src/aka/core/boot.py folds the same conflict rule over a sequence.
\<close>

section \<open>Name grammars\<close>

definition name_char :: "char \<Rightarrow> bool" where
  "name_char c = (is_lower_char c \<or> is_digit_char c \<or> c = CHR ''_'' \<or> c = CHR ''-'')"

definition is_name :: "string \<Rightarrow> bool" where
  \<comment> \<open>\<open>[a-z][a-z0-9_-]*\<close>\<close>
  "is_name s = (case s of [] \<Rightarrow> False | c # cs \<Rightarrow> is_lower_char c \<and> list_all name_char cs)"

definition event_char :: "char \<Rightarrow> bool" where
  "event_char c = (is_lower_char c \<or> is_digit_char c \<or> c = CHR ''-'')"

definition is_event_part :: "string \<Rightarrow> bool" where
  "is_event_part s = (case s of [] \<Rightarrow> False | c # cs \<Rightarrow> is_lower_char c \<and> list_all event_char cs)"

definition is_event_name :: "string \<Rightarrow> bool" where
  \<comment> \<open>\<open>[a-z][a-z0-9-]*/[a-z][a-z0-9-]*\<close>: exactly two parts around one slash\<close>
  "is_event_name s = (case str_split CHR ''/'' s of
      [ns, action] \<Rightarrow> is_event_part ns \<and> is_event_part action | _ \<Rightarrow> False)"

section \<open>Service keys\<close>

record service_key =
  sk_name :: string
  sk_definition :: string
  sk_cardinality :: string
  sk_module :: string
  sk_version :: pyval
  sk_doc :: string

definition positive_version :: "pyval \<Rightarrow> bool" where
  "positive_version v = (case v of VInt n \<Rightarrow> 1 \<le> n | _ \<Rightarrow> False)"

definition service_key_check :: "service_key \<Rightarrow> exn + unit" where
  "service_key_check k =
     (if \<not> is_name (sk_name k) then
        Inl (ValueError (MsgV ''service name is not a stable identifier: '' (VStr (sk_name k))))
      else if sk_definition k = [] then
        Inl (ValueError (Msg (''service '' @ sk_name k @ '' declares no definition class'')))
      else if sk_cardinality k \<notin> {''single'', ''registry''} then
        Inl (ValueError (MsgV (''service '' @ sk_name k @ '' has unsupported cardinality: '')
               (VStr (sk_cardinality k))))
      else if \<not> positive_version (sk_version k) then
        Inl (ValueError (Msg (''service '' @ sk_name k @ '' has invalid protocol version'')))
      else Inr ())"

section \<open>Events\<close>

record event =
  ev_name :: string
  ev_mode :: string
  ev_payload :: "string option"
  ev_result :: "string option"
  ev_monotonic :: bool
  ev_shrink :: bool      \<comment> \<open>a \<open>shrink_check\<close> is attached\<close>
  ev_doc :: string

definition event_modes :: "string list" where
  "event_modes = [''emit'', ''waterfall'']"

definition returning_modes :: "string list" where
  "returning_modes = [''waterfall'']"

definition event_check :: "event \<Rightarrow> exn + unit" where
  "event_check e =
     (let err = (\<lambda>m. Inl (EventContractError (ev_name e) m));
          returning = (ev_mode e \<in> set returning_modes)
      in if \<not> is_event_name (ev_name e) then
           err (Msg ''name must be <namespace>/<action> in lowercase'')
         else if ev_mode e \<notin> set event_modes then
           err (MsgV ''unsupported mode: '' (VStr (ev_mode e)))
         else if ev_payload e = None then err (Msg ''payload must be a type'')
         else if returning \<and> ev_result e = None then
           err (Msg (ev_mode e @ '' dispatch must declare a result type''))
         else if \<not> returning \<and> ev_result e \<noteq> None then
           err (Msg (ev_mode e @ '' dispatch must not declare a result type''))
         else if ev_monotonic e \<and> ev_mode e \<noteq> ''waterfall'' then
           err (Msg ''only a waterfall can be monotonic'')
         else if ev_shrink e \<and> \<not> ev_monotonic e then
           err (Msg ''shrink_check only applies to a monotonic waterfall'')
         else Inr ())"

text \<open>Two events are equal when all compared fields are: \<open>shrink_check\<close> is excluded.\<close>

definition event_eq :: "event \<Rightarrow> event \<Rightarrow> bool" where
  "event_eq a b = (a\<lparr>ev_shrink := False\<rparr> = b\<lparr>ev_shrink := False\<rparr>)"

section \<open>Token tables\<close>

record 'tok token_table =
  tt_kind :: string
  tt_tokens :: "'tok dict"

definition table_add ::
  "('tok \<Rightarrow> string) \<Rightarrow> ('tok \<Rightarrow> 'tok \<Rightarrow> bool) \<Rightarrow> 'tok token_table \<Rightarrow> 'tok \<Rightarrow> exn + ('tok \<times> 'tok token_table)" where
  "table_add name_of eq t tok =
     (case map_of (tt_tokens t) (name_of tok) of
        Some existing \<Rightarrow>
          if \<not> eq existing tok
          then Inl (ValueError (Msg (tt_kind t @ '' '' @ name_of tok @ '' metadata conflicts'')))
          else Inr (existing, t)
      | None \<Rightarrow> Inr (tok, t\<lparr>tt_tokens := dict_set (tt_tokens t) (name_of tok) tok\<rparr>))"

definition table_get :: "'tok token_table \<Rightarrow> string \<Rightarrow> 'tok option" where
  "table_get t name = map_of (tt_tokens t) name"

definition table_names :: "'tok token_table \<Rightarrow> string list" where
  "table_names t = sort (dict_keys (tt_tokens t))"

definition table_values :: "'tok token_table \<Rightarrow> 'tok list" where
  "table_values t = map (\<lambda>n. the (table_get t n)) (table_names t)"

definition seam_table :: "service_key list \<Rightarrow> exn + service_key dict" where
  \<comment> \<open>\<open>boot.token_table\<close>: an equal re-declaration overwrites with itself\<close>
  "seam_table toks = fold_res (\<lambda>acc tok.
     case map_of acc (sk_name tok) of
       Some previous \<Rightarrow>
         if previous \<noteq> tok
         then Inl (ValueError (Msg (''service token '' @ sk_name tok @ '' metadata conflicts'')))
         else Inr (dict_set acc (sk_name tok) tok)
     | None \<Rightarrow> Inr (dict_set acc (sk_name tok) tok)) [] toks"

definition table_wf :: "('tok \<Rightarrow> string) \<Rightarrow> 'tok token_table \<Rightarrow> bool" where
  "table_wf name_of t = (dict_wf (tt_tokens t) \<and>
     list_all (\<lambda>(k, tok). name_of tok = k) (tt_tokens t))"

lemma list_all_dict_set:
  "list_all P d \<Longrightarrow> P (k, v) \<Longrightarrow> list_all P (dict_set d k v)"
  by (induction d k v rule: dict_set.induct) auto

lemma table_add_wf:
  assumes "table_wf name_of t" and "table_add name_of eq t tok = Inr (r, t')"
  shows "table_wf name_of t'"
  using assms by (auto simp: table_add_def table_wf_def list_all_dict_set split: option.splits if_splits)

lemma table_add_lookup:
  assumes "table_add name_of eq t tok = Inr (r, t')"
  shows "table_get t' (name_of tok) = Some r"
    and "table_get t n = Some old \<Longrightarrow> table_get t' n = Some old"
  using assms by (auto simp: table_add_def table_get_def dict_simps split: option.splits if_splits)

lemma seam_table_step:
  assumes "map_of acc (sk_name tok) = Some previous \<Longrightarrow> previous = tok"
  shows "map_of (dict_set acc (sk_name tok) tok) = (map_of acc)(sk_name tok \<mapsto> tok)"
  by (simp add: dict_simps)

lemma seam_table_fold:
  fixes toks :: "service_key list"
  defines "step \<equiv> \<lambda>acc tok. case map_of acc (sk_name tok) of
       Some previous \<Rightarrow>
         if previous \<noteq> tok
         then Inl (ValueError (Msg (''service token '' @ sk_name tok @ '' metadata conflicts'')))
         else Inr (dict_set acc (sk_name tok) tok)
     | None \<Rightarrow> Inr (dict_set acc (sk_name tok) tok)"
  assumes "fold_res step acc toks = Inr d"
  shows "map_of acc k = Some v \<Longrightarrow> map_of d k = Some v"
    and "tok \<in> set toks \<Longrightarrow> map_of d (sk_name tok) = Some tok"
    and "map_of d k = Some v \<Longrightarrow> map_of acc k = Some v \<or> (v \<in> set toks \<and> sk_name v = k)"
proof -
  from assms(2) have "(\<forall>k v. map_of acc k = Some v \<longrightarrow> map_of d k = Some v) \<and>
      (\<forall>tok \<in> set toks. map_of d (sk_name tok) = Some tok) \<and>
      (\<forall>k v. map_of d k = Some v \<longrightarrow> map_of acc k = Some v \<or> (v \<in> set toks \<and> sk_name v = k))"
  proof (induction toks arbitrary: acc)
    case (Cons t ts)
    then obtain acc' where st: "step acc t = Inr acc'" and fr: "fold_res step acc' ts = Inr d"
      by (auto simp: res_simps)
    from st have acc': "map_of acc' = (map_of acc)(sk_name t \<mapsto> t)"
      and old: "map_of acc (sk_name t) = Some p \<Longrightarrow> p = t" for p
      by (auto simp: step_def dict_simps split: option.splits if_splits)
    from Cons.IH [OF fr] acc' old show ?case
      by (auto split: if_splits) (metis option.inject)+
  qed simp
  then show "map_of acc k = Some v \<Longrightarrow> map_of d k = Some v"
    and "tok \<in> set toks \<Longrightarrow> map_of d (sk_name tok) = Some tok"
    and "map_of d k = Some v \<Longrightarrow> map_of acc k = Some v \<or> (v \<in> set toks \<and> sk_name v = k)"
    by blast+
qed

lemma seam_table_exact:
  assumes "seam_table toks = Inr d"
  shows "map_of d n = Some tok \<longleftrightarrow> tok \<in> set toks \<and> sk_name tok = n"
  using seam_table_fold [OF assms [unfolded seam_table_def]] by auto

section \<open>Properties\<close>

lemma seam_table_conflict_free:
  fixes toks :: "service_key list"
  assumes "\<forall>a \<in> set toks. \<forall>b \<in> set toks. sk_name a = sk_name b \<longrightarrow> a = b"
  shows "\<exists>d. seam_table toks = Inr d"
proof -
  let ?step = "\<lambda>acc tok. case map_of acc (sk_name tok) of
       Some previous \<Rightarrow>
         if previous \<noteq> tok
         then Inl (ValueError (Msg (''service token '' @ sk_name tok @ '' metadata conflicts'')))
         else Inr (dict_set acc (sk_name tok) tok)
     | None \<Rightarrow> Inr (dict_set acc (sk_name tok) tok)"
  have "\<exists>d. fold_res ?step acc ts = Inr d"
    if "\<forall>a \<in> T. \<forall>b \<in> T. sk_name a = sk_name b \<longrightarrow> a = b" and "set ts \<subseteq> T"
      and "\<forall>k v. map_of acc k = Some v \<longrightarrow> v \<in> T \<and> sk_name v = k" for acc ts T
    using that
  proof (induction ts arbitrary: acc)
    case (Cons t ts)
    then have "?step acc t = Inr (dict_set acc (sk_name t) t)" by (auto split: option.splits)
    moreover have "\<exists>d. fold_res ?step (dict_set acc (sk_name t) t) ts = Inr d"
      by (rule Cons.IH) (use Cons.prems in \<open>auto simp: dict_simps\<close>)
    ultimately show ?case by simp
  qed simp
  from this [OF assms] show ?thesis by (simp add: seam_table_def)
qed

text \<open>
  \<open>token_table\<close> succeeds exactly when equal names mean equal tokens, and the table then maps a name
  to a token exactly when that token was given under that name.
\<close>

theorem token_table_exact:
  "((\<exists>d. seam_table toks = Inr d) \<longleftrightarrow> (\<forall>a b. a \<in> set toks \<and> b \<in> set toks \<and> sk_name a = sk_name b \<longrightarrow> a = b)) \<and>
   (seam_table toks = Inr d \<longrightarrow> (map_of d n = Some tok \<longleftrightarrow> tok \<in> set toks \<and> sk_name tok = n))"
proof -
  have "a = b" if "seam_table toks = Inr d" "a \<in> set toks" "b \<in> set toks" "sk_name a = sk_name b" for a b d
    using seam_table_exact [OF that(1), of "sk_name a" a] seam_table_exact [OF that(1), of "sk_name a" b] that by simp
  with seam_table_exact seam_table_conflict_free [of toks] show ?thesis by blast
qed

definition key_a :: service_key where
  "key_a = \<lparr>sk_name = ''a'', sk_definition = ''d'', sk_cardinality = ''single'', sk_module = ''m'',
     sk_version = VInt 1, sk_doc = []\<rparr>"

theorem token_table_exact_witness:
  "seam_table [key_a, key_a] = Inr [(''a'', key_a)] \<and> (\<nexists>d. seam_table [key_a, key_a\<lparr>sk_doc := ''x''\<rparr>] = Inr d)"
proof -
  have "seam_table [key_a, key_a] = Inr [(''a'', key_a)]" by (simp add: seam_table_def key_a_def)
  moreover have "\<nexists>d. seam_table [key_a, key_a\<lparr>sk_doc := ''x''\<rparr>] = Inr d"
  proof
    assume "\<exists>d. seam_table [key_a, key_a\<lparr>sk_doc := ''x''\<rparr>] = Inr d"
    from iffD1 [OF conjunct1 [OF token_table_exact] this, rule_format, of key_a "key_a\<lparr>sk_doc := ''x''\<rparr>"]
    have "key_a = key_a\<lparr>sk_doc := ''x''\<rparr>" by (simp add: key_a_def)
    then show False by (simp add: key_a_def)
  qed
  ultimately show ?thesis by blast
qed

end
