(* ===== verification/Declarations.thy ===== *)
theory Declarations
  imports Keys
begin

text \<open>
  The plugin declaration contract (src/src/aka/core/declaration.py).  A Python module is its
  dotted name, whether it is a package, its docstring and its attributes: plain values, functions
  with their parameter list, submodules, and other callables.  \<open>declare_module\<close> is \<open>declare\<close>, with
  its checks in the code's order; the functions it calls keep their names.

  \<open>decl_ok\<close> says what a declaration that passed is worth: the theorems show that \<open>declare\<close>
  establishes it and that a composition row's extra injections keep it.
\<close>

section \<open>Modules\<close>

datatype param_kind = PosOnly | PosOrKw | VarPos | KwOnly | VarKw

record param =
  pm_kind :: param_kind
  pm_default :: bool

record pyfunc =
  fn_params :: "param list"
  fn_async :: bool

datatype attr = AVal pyval | AFunc pyfunc | AModule | ACallable

record pymodule =
  md_name :: string
  md_package :: bool
  md_doc :: string
  md_attrs :: "attr dict"

fun attr_callable :: "attr \<Rightarrow> bool" where
  "attr_callable (AFunc f) = True"
| "attr_callable ACallable = True"
| "attr_callable _ = False"

record plugin_decl =
  dc_name :: string
  dc_module :: string
  dc_schema :: "pyval option"
  dc_defaults :: "pyval dict"
  dc_inject :: "string list"
  dc_optional :: "string list"
  dc_provide :: "string list"
  dc_interpolate :: "string list"
  dc_resume :: string
  dc_identity_files :: "string list"
  dc_identity_packages :: "string list"
  dc_observational :: "string list"
  dc_doc :: string
  dc_validator :: bool     \<comment> \<open>a \<open>validate_config\<close> hook is exported\<close>

section \<open>Names and signatures\<close>

definition dash_name :: "string \<Rightarrow> string" where
  "dash_name s = map (\<lambda>c. if c = CHR ''_'' then CHR ''-'' else c) s"

definition expected_name :: "string \<Rightarrow> bool \<Rightarrow> string" where
  "expected_name module_name is_package =
     (let segments = filter (\<lambda>s. s \<noteq> []) (str_split CHR ''.'' module_name);
          segment = (if segments \<noteq> [] then last segments else module_name)
      in dash_name
           (if \<not> is_package \<and> segment \<in> {''plugin'', ''__init__''} \<and> length segments > 1
            then segments ! (length segments - 2) else segment))"

definition positional_params :: "pyfunc \<Rightarrow> param list" where
  "positional_params f = filter (\<lambda>p. pm_kind p \<in> {PosOnly, PosOrKw}) (fn_params f)"

definition has_variadic :: "pyfunc \<Rightarrow> bool" where
  "has_variadic f = list_ex (\<lambda>p. pm_kind p \<in> {VarPos, VarKw}) (fn_params f)"

definition has_required_keyword :: "pyfunc \<Rightarrow> bool" where
  "has_required_keyword f = list_ex (\<lambda>p. pm_kind p = KwOnly \<and> \<not> pm_default p) (fn_params f)"

definition check_apply_signature :: "string \<Rightarrow> attr \<Rightarrow> exn + unit" where
  "check_apply_signature m a =
     (case a of
        AFunc f \<Rightarrow>
          if fn_async f then
            Inl (DeclarationError m (Msg ''apply must be synchronous; async hooks are unsupported''))
          else if has_variadic f then
            Inl (DeclarationError m (Msg ''apply must not be variadic; declare apply(ctx, config) explicitly''))
          else if has_required_keyword f then
            Inl (DeclarationError m (Msg ''apply must not require keyword-only arguments; the loader passes (ctx, config) positionally''))
          else if length (positional_params f) \<noteq> 2 then
            Inl (DeclarationError m (MsgV ''apply positional arguments: '' (VInt (int (length (positional_params f))))))
          else Inr ()
      | _ \<Rightarrow> Inl (DeclarationError m (Msg ''apply must be a plain function taking (ctx, config)'')))"

definition check_config_validator_signature :: "string \<Rightarrow> attr \<Rightarrow> exn + unit" where
  "check_config_validator_signature m a =
     (case a of
        AFunc f \<Rightarrow>
          if fn_async f then
            Inl (DeclarationError m (Msg ''validator must be synchronous; async hooks are unsupported''))
          else if has_variadic f then
            Inl (DeclarationError m (Msg ''validate_config must not be variadic; it receives the effective config''))
          else if has_required_keyword f \<or> length (positional_params f) \<noteq> 1 then
            Inl (DeclarationError m (Msg ''validate_config must take exactly one positional argument (config)''))
          else Inr ()
      | _ \<Rightarrow> Inl (DeclarationError m (Msg ''validate_config must be a plain function taking (config)'')))"

section \<open>Exported values\<close>

definition duplicates :: "string list \<Rightarrow> string list" where
  "duplicates names = sorted_set (filter (\<lambda>n. count_list names n > 1) names)"

fun sequence_items :: "attr \<Rightarrow> pyval list option" where
  "sequence_items (AVal (VTuple vs)) = Some vs"
| "sequence_items (AVal (VList vs)) = Some vs"
| "sequence_items _ = None"

definition name_sequence :: "string \<Rightarrow> string \<Rightarrow> attr \<Rightarrow> exn + string list" where
  \<comment> \<open>\<open>_sequence\<close>\<close>
  "name_sequence m export a =
     (case sequence_items a of
        None \<Rightarrow> Inl (DeclarationError m (Msg (export @ '' must be a tuple of strings'')))
      | Some vs \<Rightarrow>
          if \<not> list_all nonempty_str vs then
            Inl (DeclarationError m (Msg (export @ '' contains a non-string entry'')))
          else
            let names = map str_of vs in
            if duplicates names \<noteq> [] then
              Inl (DeclarationError m (Msg (export @ '' repeats '' @ str_join '', '' (duplicates names))))
            else Inr names)"

definition export_sequence :: "pymodule \<Rightarrow> string \<Rightarrow> exn + string list" where
  "export_sequence md export =
     name_sequence (md_name md) export (dict_get_default (md_attrs md) export (AVal (VTuple [])))"

definition declaration_plugin_error :: "string \<Rightarrow> schema_error \<Rightarrow> exn" where
  \<comment> \<open>\<open>except PluginError as exc: raise DeclarationError\<close>; anything else propagates\<close>
  "declaration_plugin_error m e =
     (case e of PluginError _ _ _ \<Rightarrow> DeclarationError m (MsgSchema e) | _ \<Rightarrow> SchemaError e)"

definition check_defaults :: "string \<Rightarrow> pyval option \<Rightarrow> pyval dict \<Rightarrow> exn + unit" where
  "check_defaults m schema defaults =
     (if defaults = [] then Inr ()
      else case schema of
        None \<Rightarrow> Inl (DeclarationError m (Msg ''Defaults declared without a Config schema''))
      | Some sv \<Rightarrow>
        (case (case sv of VDict s \<Rightarrow> dict_get_default s ''properties'' (VDict []) | _ \<Rightarrow> VDict []) of
           VDict props \<Rightarrow>
             let unknown = sorted_set (list_diff (dict_keys defaults) (dict_keys props)) in
             if unknown \<noteq> [] then
               Inl (DeclarationError m (Msg (''Defaults sets unknown fields: '' @ str_join '', '' unknown)))
             else fold_res (\<lambda>_ (key, v).
               (case map_of props key of None \<Rightarrow> Inl (AttributeError key)
                | Some child \<Rightarrow>
                    (case validate_schema child v (''Defaults.'' @ key) of
                       Inl e \<Rightarrow> Inl (declaration_plugin_error m e)
                     | Inr _ \<Rightarrow> Inr ()))) () defaults
         | _ \<Rightarrow> Inl (TypeError (Msg []))))"

fun property_path :: "pyval \<Rightarrow> string list \<Rightarrow> bool" where
  "property_path node [] = is_dict node"
| "property_path node (segment # rest) =
     (case node of VDict s \<Rightarrow>
        (case map_of s ''properties'' of
           Some (VDict props) \<Rightarrow>
             (case map_of props segment of None \<Rightarrow> False | Some child \<Rightarrow> property_path child rest)
         | _ \<Rightarrow> False)
      | _ \<Rightarrow> False)"

definition property_exists :: "pyval option \<Rightarrow> string \<Rightarrow> bool" where
  "property_exists schema path =
     (case schema of None \<Rightarrow> False | Some s \<Rightarrow> property_path s (str_split CHR ''.'' path))"

section \<open>The checks of declare\<close>

definition rival_exports :: "string list" where
  "rival_exports = [''PLUGIN'', ''Plugin'', ''plugin'']"

definition rivals_of :: "pymodule \<Rightarrow> string list" where
  "rivals_of md = filter (\<lambda>x. case map_of (md_attrs md) x of None \<Rightarrow> False
     | Some a \<Rightarrow> a \<noteq> AModule) rival_exports"

definition check_entry_points :: "pymodule \<Rightarrow> exn + unit" where
  \<comment> \<open>\<open>apply\<close>, its rivals, and the validator hook\<close>
  "check_entry_points md =
     (let m = md_name md; ap = map_of (md_attrs md) ''apply'' in
      if (case ap of None \<Rightarrow> True | Some a \<Rightarrow> \<not> attr_callable a) then
        Inl (DeclarationError m (Msg ''module exports no callable apply''))
      else if rivals_of md \<noteq> [] then
        Inl (DeclarationError m (Msg (''exports apply and also '' @ str_join '', '' (rivals_of md))))
      else bind_res (check_apply_signature m (the ap)) (\<lambda>_.
        case map_of (md_attrs md) ''validate_config'' of
          None \<Rightarrow> Inr ()
        | Some (AVal VNull) \<Rightarrow> Inr ()
        | Some a \<Rightarrow> check_config_validator_signature m a))"

definition declared_name :: "pymodule \<Rightarrow> exn + string" where
  "declared_name md =
     (let m = md_name md; expected = expected_name m (md_package md) in
      case map_of (md_attrs md) ''name'' of
        Some (AVal (VStr s)) \<Rightarrow>
          if \<not> is_name s then
            Inl (DeclarationError m (MsgV ''name must be a lowercase stable identifier, got '' (VStr s)))
          else if s \<noteq> expected then
            Inl (DeclarationError m (Msg (''name must be '' @ expected @ '' to match its package, got '' @ s)))
          else Inr s
      | _ \<Rightarrow> Inl (DeclarationError m (Msg ''name must be a lowercase stable identifier'')))"

definition check_resume :: "string \<Rightarrow> attr \<Rightarrow> string list \<Rightarrow> exn + string" where
  "check_resume m policy observational =
     (case policy of
        AVal (VStr p) \<Rightarrow>
          if p \<notin> {''strict'', ''observational''} then
            Inl (DeclarationError m (Msg ''resume_policy must be strict or observational''))
          else if p = ''observational'' \<and> observational = [] then
            Inl (DeclarationError m (Msg ''observational resume_policy requires observational_fields''))
          else if list_diff observational [''group''] \<noteq> [] then
            Inl (DeclarationError m (Msg ''observational_fields may currently contain only group''))
          else Inr p
      | _ \<Rightarrow> Inl (DeclarationError m (Msg ''resume_policy must be strict or observational'')))"

definition list_inter :: "string list \<Rightarrow> string list \<Rightarrow> string list" where
  "list_inter xs ys = filter (\<lambda>x. x \<in> set ys) xs"

definition check_seams :: "string \<Rightarrow> string list \<Rightarrow> string list \<Rightarrow> string list \<Rightarrow> service_key dict option \<Rightarrow> exn + unit" where
  "check_seams m inject optional provide known =
     (let both = list_inter inject provide; twice = list_inter inject optional in
      if both \<noteq> [] then
        Inl (DeclarationError m (Msg (''cannot inject and provide the same service: ''
               @ str_join '', '' (sorted_set both))))
      else if twice \<noteq> [] then
        Inl (DeclarationError m (Msg (''service is both required and optional: ''
               @ str_join '', '' (sorted_set twice))))
      else case known of
        None \<Rightarrow> Inr ()
      | Some seams \<Rightarrow>
          let unknown = sorted_set (list_diff (inject @ optional @ provide) (dict_keys seams)) in
          if unknown \<noteq> [] then
            Inl (DeclarationError m (Msg (''references unregistered seams: '' @ str_join '', '' unknown)))
          else Inr ())"

definition declared_schema :: "pymodule \<Rightarrow> exn + pyval option" where
  "declared_schema md =
     (let m = md_name md in
      case map_of (md_attrs md) ''Config'' of
        None \<Rightarrow> Inr None
      | Some (AVal VNull) \<Rightarrow> Inr None
      | Some (AVal (VDict s)) \<Rightarrow>
          (case check_schema (VDict s) of
             Inl e \<Rightarrow> Inl (declaration_plugin_error m e)
           | Inr _ \<Rightarrow>
               if map_of s ''type'' \<noteq> Some (VStr ''object'') then
                 Inl (DeclarationError m (Msg ''Config must have type object''))
               else Inr (Some (VDict s)))
      | Some _ \<Rightarrow> Inl (DeclarationError m (Msg ''Config must be a schema dict'')))"

definition declared_defaults :: "pymodule \<Rightarrow> exn + pyval dict" where
  "declared_defaults md =
     (case dict_get_default (md_attrs md) ''Defaults'' (AVal (VDict [])) of
        AVal (VDict d) \<Rightarrow> Inr d
      | _ \<Rightarrow> Inl (DeclarationError (md_name md) (Msg ''Defaults must be a dict'')))"

definition check_interpolate :: "string \<Rightarrow> pyval option \<Rightarrow> string list \<Rightarrow> exn + unit" where
  "check_interpolate m schema paths =
     fold_res (\<lambda>_ path. guard_res (property_exists schema path)
       (DeclarationError m (Msg (''interpolate names '' @ path @ '', which is not a Config property'')))) () paths"

definition declare_module :: "pymodule \<Rightarrow> service_key dict option \<Rightarrow> exn + plugin_decl" where
  "declare_module md known =
     (let m = md_name md in
      bind_res (check_entry_points md) (\<lambda>_.
      bind_res (declared_name md) (\<lambda>name.
      bind_res (export_sequence md ''inject'') (\<lambda>inject.
      bind_res (export_sequence md ''optional_inject'') (\<lambda>optional.
      bind_res (export_sequence md ''provide'') (\<lambda>provide.
      bind_res (export_sequence md ''interpolate'') (\<lambda>interpolate.
      bind_res (export_sequence md ''identity_files'') (\<lambda>files.
      bind_res (export_sequence md ''identity_packages'') (\<lambda>packages.
      bind_res (export_sequence md ''observational_fields'') (\<lambda>observational.
      bind_res (check_resume m (dict_get_default (md_attrs md) ''resume_policy'' (AVal (VStr ''strict'')))
                 observational) (\<lambda>resume.
      bind_res (check_seams m inject optional provide known) (\<lambda>_.
      bind_res (declared_schema md) (\<lambda>schema.
      bind_res (declared_defaults md) (\<lambda>defaults.
      bind_res (check_defaults m schema defaults) (\<lambda>_.
      bind_res (check_interpolate m schema interpolate) (\<lambda>_.
        Inr \<lparr>dc_name = name, dc_module = m, dc_schema = schema, dc_defaults = defaults,
             dc_inject = inject, dc_optional = optional, dc_provide = provide,
             dc_interpolate = interpolate, dc_resume = resume, dc_identity_files = files,
             dc_identity_packages = packages, dc_observational = observational,
             dc_doc = md_doc md,
             dc_validator = (case map_of (md_attrs md) ''validate_config'' of
                None \<Rightarrow> False | Some a \<Rightarrow> a \<noteq> AVal VNull)\<rparr>))))))))))))))))"

definition with_extra_inject :: "plugin_decl \<Rightarrow> string list \<Rightarrow> exn + plugin_decl" where
  "with_extra_inject d extra =
     (let added = filter (\<lambda>n. n \<noteq> []) extra;
          overlap = sorted_set (list_inter added (dc_provide d)) in
      if overlap \<noteq> [] then
        Inl (DeclarationError (dc_module d)
          (Msg (''composition row injects '' @ str_join '', '' overlap @ '', which this plugin provides'')))
      else
        let merged = sorted_set (dc_inject d @ added) in
        if merged = dc_inject d then Inr d
        else Inr (d\<lparr>dc_inject := merged,
                    dc_optional := filter (\<lambda>n. n \<notin> set merged) (dc_optional d)\<rparr>))"


section \<open>What an accepted declaration is worth\<close>

definition seams_ok :: "string list \<Rightarrow> string list \<Rightarrow> string list \<Rightarrow> bool" where
  "seams_ok inject optional provide = (distinct inject \<and> distinct optional \<and> distinct provide \<and>
     set inject \<inter> set provide = {} \<and> set inject \<inter> set optional = {} \<and>
     [] \<notin> set inject \<union> set optional \<union> set provide)"

definition schema_entry_ok :: "pyval option \<Rightarrow> pyval dict \<Rightarrow> bool" where
  \<comment> \<open>the schema is an accepted object schema and every default conforms to its property\<close>
  "schema_entry_ok schema defaults =
     (case schema of
        None \<Rightarrow> defaults = []
      | Some sv \<Rightarrow> schema_ok sv \<and>
          (\<exists>s ps. sv = VDict s \<and> map_of s ''type'' = Some (VStr ''object'') \<and>
             dict_get_default s ''properties'' (VDict []) = VDict ps \<and>
             (\<forall>(k, v) \<in> set defaults. \<exists>c. map_of ps k = Some c \<and> schema_ok c \<and> conforms c v)))"

definition decl_ok :: "plugin_decl \<Rightarrow> bool" where
  "decl_ok d = (is_name (dc_name d) \<and>
     seams_ok (dc_inject d) (dc_optional d) (dc_provide d) \<and>
     schema_entry_ok (dc_schema d) (dc_defaults d) \<and>
     list_all (property_exists (dc_schema d)) (dc_interpolate d) \<and>
     dc_resume d \<in> {''strict'', ''observational''} \<and> set (dc_observational d) \<subseteq> {''group''} \<and>
     (dc_resume d = ''observational'' \<longrightarrow> dc_observational d \<noteq> []))"

lemma set_list_inter [simp]: "set (list_inter xs ys) = set xs \<inter> set ys"
  by (auto simp: list_inter_def)

lemma list_inter_Nil [simp]: "list_inter xs ys = [] \<longleftrightarrow> set xs \<inter> set ys = {}"
  by (metis set_empty set_list_inter)

lemma duplicates_Nil: "duplicates xs = [] \<longleftrightarrow> distinct xs"
proof -
  have "distinct xs \<longleftrightarrow> (\<forall>x. count_list xs x \<le> 1)"
  proof (induction xs)
    case (Cons y xs)
    have "(\<forall>x. count_list (y # xs) x \<le> 1) \<longleftrightarrow> count_list xs y = 0 \<and> (\<forall>x. count_list xs x \<le> 1)"
      (is "?l \<longleftrightarrow> ?r")
    proof
      assume l: ?l
      from spec [OF l, of y] have "count_list xs y = 0" by simp
      moreover have "count_list xs x \<le> 1" for x
        using spec [OF l, of x] by (cases "y = x") simp_all
      ultimately show ?r by blast
    qed simp
    with Cons show ?case by (simp add: count_list_0_iff)
  qed simp
  moreover have "count_list xs x = 0" if "x \<notin> set xs" for x
    using that by simp
  ultimately show ?thesis
    unfolding duplicates_def sorted_set_Nil_iff filter_empty_conv
    by (metis le_less_linear linorder_not_le zero_le)
qed

lemma name_sequence_ok:
  assumes "name_sequence m export a = Inr names"
  shows "distinct names" and "[] \<notin> set names"
proof -
  from assms obtain vs where vs: "sequence_items a = Some vs"
    unfolding name_sequence_def by (cases "sequence_items a") (simp_all only: option.case sum.distinct)
  have "list_all nonempty_str vs" and "names = map str_of vs" and "distinct names"
    using assms by (simp_all add: name_sequence_def vs Let_def duplicates_Nil split: if_splits)
  then show "distinct names" and "[] \<notin> set names"
    by (auto simp: list_all_iff nonempty_str_iff)
qed

lemma check_seams_ok:
  assumes "check_seams m inject optional provide known = Inr ()"
  shows "set inject \<inter> set provide = {}" and "set inject \<inter> set optional = {}"
    and "known = Some seams \<Longrightarrow> set inject \<union> set optional \<union> set provide \<subseteq> fst ` set seams"
  using assms
  by (auto simp: check_seams_def Let_def dict_keys_def list_diff_def filter_empty_conv
      split: if_splits option.splits)

lemma declared_name_ok:
  assumes "declared_name md = Inr n"
  shows "is_name n \<and> n = expected_name (md_name md) (md_package md)"
  using assms
  by (auto simp: declared_name_def Let_def split: option.splits attr.splits pyval.splits if_splits)

lemma check_resume_ok:
  assumes "check_resume m policy obs = Inr p"
  shows "p \<in> {''strict'', ''observational''}" and "set obs \<subseteq> {''group''}"
    and "p = ''observational'' \<longrightarrow> obs \<noteq> []"
proof -
  from assms obtain q where "policy = AVal (VStr q)"
    by (auto simp: check_resume_def split: attr.splits pyval.splits)
  with assms have "q = p \<and> p \<in> {''strict'', ''observational''} \<and>
      (p = ''observational'' \<longrightarrow> obs \<noteq> []) \<and> list_diff obs [''group''] = []"
    by (simp add: check_resume_def split: if_splits)
  moreover from this have "set obs - {''group''} = {}"
    using set_list_diff [of obs "[''group'']"] by (metis empty_set list.simps(15))
  ultimately show "p \<in> {''strict'', ''observational''}" and "set obs \<subseteq> {''group''}"
    and "p = ''observational'' \<longrightarrow> obs \<noteq> []" by auto
qed

lemma declared_schema_ok:
  assumes "declared_schema md = Inr (Some sv)"
  obtains s where "sv = VDict s" and "schema_ok sv" and "map_of s ''type'' = Some (VStr ''object'')"
  using assms
  by (auto simp: declared_schema_def Let_def split: option.splits attr.splits pyval.splits
      sum.splits if_splits intro: that)

lemma fold_unit_ok:
  "fold_res (\<lambda>_. f) () xs = Inr () \<longleftrightarrow> (\<forall>x \<in> set xs. f x = Inr ())"
  by (induction xs) (auto simp: res_simps)

lemma check_defaults_ok:
  assumes "declared_schema md = Inr schema" and "check_defaults m schema defaults = Inr ()"
  shows "schema_entry_ok schema defaults"
proof (cases schema)
  case None
  with assms(2) show ?thesis by (simp add: check_defaults_def schema_entry_ok_def split: if_splits)
next
  case (Some sv)
  from assms(1) Some have "declared_schema md = Inr (Some sv)" by simp
  then obtain s where sv: "sv = VDict s" and ok: "schema_ok sv"
    and ty: "map_of s ''type'' = Some (VStr ''object'')" by (rule declared_schema_ok)
  obtain ps req where ps: "dict_get_default s ''properties'' (VDict []) = VDict ps"
    by (rule schema_ok_shape [OF ok [unfolded sv]])
  have "\<exists>c. map_of ps k = Some c \<and> schema_ok c \<and> conforms c v" if kv: "(k, v) \<in> set defaults" for k v
  proof -
    from assms(2) kv have all: "\<forall>(key, v) \<in> set defaults. (case map_of ps key of
        None \<Rightarrow> Inl (AttributeError key)
      | Some child \<Rightarrow> (case validate_schema child v (''Defaults.'' @ key) of
            Inl e \<Rightarrow> Inl (declaration_plugin_error m e) | Inr _ \<Rightarrow> Inr ())) = Inr ()"
      by (auto simp: check_defaults_def Some sv ps Let_def fold_unit_ok split: if_splits)
    from bspec [OF all kv] obtain c where c: "map_of ps k = Some c"
      and "validate_schema c v (''Defaults.'' @ k) = Inr ()"
      by (auto split: option.splits sum.splits)
    with schema_ok_property [OF ok [unfolded sv] ps c] validate_iff_conforms(1) show ?thesis by blast
  qed
  with Some sv ok ty ps show ?thesis by (auto simp: schema_entry_ok_def)
qed

lemma check_interpolate_ok:
  "check_interpolate m schema paths = Inr () \<longleftrightarrow> list_all (property_exists schema) paths"
  by (simp add: check_interpolate_def fold_unit_ok res_simps list_all_iff)

lemma declare_module_parts:
  assumes "declare_module md known = Inr d"
  shows "check_entry_points md = Inr ()" and "declared_name md = Inr (dc_name d)"
    and "export_sequence md ''inject'' = Inr (dc_inject d)"
    and "export_sequence md ''optional_inject'' = Inr (dc_optional d)"
    and "export_sequence md ''provide'' = Inr (dc_provide d)"
    and "check_resume (md_name md) (dict_get_default (md_attrs md) ''resume_policy''
           (AVal (VStr ''strict''))) (dc_observational d) = Inr (dc_resume d)"
    and "check_seams (md_name md) (dc_inject d) (dc_optional d) (dc_provide d) known = Inr ()"
    and "declared_schema md = Inr (dc_schema d)"
    and "check_defaults (md_name md) (dc_schema d) (dc_defaults d) = Inr ()"
    and "check_interpolate (md_name md) (dc_schema d) (dc_interpolate d) = Inr ()"
    and "dc_module d = md_name md"
  using assms by (auto simp: declare_module_def Let_def bind_res_Inr_iff)

lemma declare_module_ok:
  assumes "declare_module md known = Inr d"
  shows "decl_ok d"
proof -
  note p = declare_module_parts [OF assms]
  note seq = name_sequence_ok [OF p(3) [unfolded export_sequence_def]]
    name_sequence_ok [OF p(4) [unfolded export_sequence_def]]
    name_sequence_ok [OF p(5) [unfolded export_sequence_def]]
  have "seams_ok (dc_inject d) (dc_optional d) (dc_provide d)"
    using seq check_seams_ok(1,2) [OF p(7)] by (simp add: seams_ok_def)
  moreover have "schema_entry_ok (dc_schema d) (dc_defaults d)"
    by (rule check_defaults_ok [OF p(8,9)])
  moreover have "list_all (property_exists (dc_schema d)) (dc_interpolate d)"
    using p(10) by (simp add: check_interpolate_ok)
  ultimately show ?thesis
    using conjunct1 [OF declared_name_ok [OF p(2)]] check_resume_ok [OF p(6)] by (simp add: decl_ok_def)
qed

lemma with_extra_inject_Inr:
  assumes "with_extra_inject d extra = Inr d'"
  obtains (same) "d' = d" "set extra - {[]} \<subseteq> set (dc_inject d)"
  | (merged) merged where "set merged = set (dc_inject d) \<union> (set extra - {[]})" "distinct merged"
      "merged \<noteq> dc_inject d" "(set extra - {[]}) \<inter> set (dc_provide d) = {}"
      "d' = d\<lparr>dc_inject := merged, dc_optional := filter (\<lambda>n. n \<notin> set merged) (dc_optional d)\<rparr>"
proof -
  let ?added = "filter (\<lambda>n. n \<noteq> []) extra"
  define merged where "merged = sorted_set (dc_inject d @ ?added)"
  have mem: "set merged = set (dc_inject d) \<union> (set extra - {[]})" by (auto simp: merged_def)
  from assms have over: "(set extra - {[]}) \<inter> set (dc_provide d) = {}"
    and d': "d' = (if merged = dc_inject d then d else d\<lparr>dc_inject := merged,
          dc_optional := filter (\<lambda>n. n \<notin> set merged) (dc_optional d)\<rparr>)"
    by (auto simp: with_extra_inject_def Let_def merged_def split: if_splits)
  have "distinct merged" by (simp add: merged_def)
  with mem over d' show ?thesis by (cases "merged = dc_inject d") (use that in auto)
qed

lemma with_extra_inject_ok:
  assumes "decl_ok d" and "with_extra_inject d extra = Inr d'"
  shows "decl_ok d'"
  using assms(2)
proof (cases rule: with_extra_inject_Inr)
  case same
  with assms(1) show ?thesis by simp
next
  case (merged m)
  have "seams_ok (dc_inject d) (dc_optional d) (dc_provide d)" using assms(1) by (simp add: decl_ok_def)
  then have "seams_ok m (filter (\<lambda>n. n \<notin> set m) (dc_optional d)) (dc_provide d)"
    using merged(1,2,4) unfolding seams_ok_def by auto
  with assms(1) merged(5) show ?thesis by (simp add: decl_ok_def)
qed

section \<open>Properties\<close>

text \<open>
  C40: A declaration that \<open>declare\<close> returns, also with a row's extra injections merged in, is sound: its name
  is the stable name of its package, its three service lists have no repetition and do not overlap where
  they must not, its schema is accepted, every default and every interpolated path belongs to the schema,
  and it may be observational only with observational fields.
\<close>

theorem declare_sound:
  assumes "declare_module md known = Inr d" and "with_extra_inject d extra = Inr d'"
  shows "dc_name d' = expected_name (md_name md) (md_package md) \<and> decl_ok d' \<and>
    set extra - {[]} \<subseteq> set (dc_inject d') \<and> set (dc_inject d) \<subseteq> set (dc_inject d') \<and> dc_provide d' = dc_provide d"
proof -
  have n: "dc_name d = expected_name (md_name md) (md_package md)"
    using declared_name_ok [OF declare_module_parts(2) [OF assms(1)]] by simp
  have ok: "decl_ok d'" by (rule with_extra_inject_ok [OF declare_module_ok [OF assms(1)] assms(2)])
  from assms(2) show ?thesis
    by (cases rule: with_extra_inject_Inr) (use n ok in auto)
qed

definition sample_decl_module :: pymodule where
  "sample_decl_module = \<lparr>md_name = ''p.my_a.plugin'', md_package = False, md_doc = [],
     md_attrs = [(''apply'', AFunc \<lparr>fn_params = [\<lparr>pm_kind = PosOrKw, pm_default = False\<rparr>,
         \<lparr>pm_kind = PosOrKw, pm_default = False\<rparr>], fn_async = False\<rparr>),
       (''name'', AVal (VStr ''my-a'')), (''inject'', AVal (VTuple [VStr ''s'']))]\<rparr>"

theorem declare_sound_witness:
  "\<exists>d d'. declare_module sample_decl_module None = Inr d \<and> with_extra_inject d [''t''] = Inr d' \<and>
     decl_ok d' \<and> dc_name d' = ''my-a''"
proof -
  have e: "case declare_module sample_decl_module None of Inl _ \<Rightarrow> False
     | Inr d \<Rightarrow> is_ok (with_extra_inject d [''t'']) \<and> expected_name ''p.my_a.plugin'' False = ''my-a''"
    by code_simp
  then obtain d d' where d: "declare_module sample_decl_module None = Inr d" "with_extra_inject d [''t''] = Inr d'"
    "expected_name ''p.my_a.plugin'' False = ''my-a''"
    by (auto simp: is_ok_iff split: sum.splits)
  from declare_sound [OF d(1,2)] d show ?thesis by (auto simp: sample_decl_module_def)
qed

end
