(* ===== verification/Compositions.thy ===== *)
theory Compositions
  imports Declarations
begin

text \<open>
  Composition of a plugin tree (src/src/aka/core/composition.py): rows, bundles with nested
  groups, patches, profiles, and the substitution of \<open>${aka:name}\<close> and \<open>${env:NAME}\<close> references.

  Reading a file is the parameter \<open>files\<close> from paths to what \<open>_read\<close> found there (\<open>raw_doc\<close>);
  \<open>importlib.resources.files\<close> is \<open>module_dir\<close>, the process environment is \<open>env\<close>, Python's
  \<open>str\<close> on a value that is not a string is \<open>to_str\<close>, and \<open>json.dumps\<close> is a parameter of \<open>dump\<close>.
  \<open>isidentifier\<close> is modelled on ASCII names.

  The lemmas show that no operation repeats a row id, what each patch does to its row and that it
  leaves the others alone, and that interpolation equals a structural recursion on the config.
\<close>

section \<open>Rows\<close>

record row =
  rw_id :: string
  rw_name :: string
  rw_config :: "pyval dict"
  rw_required :: bool
  rw_disabled :: bool
  rw_inject :: "string list"
  rw_isolate :: "string list"
  rw_group :: string
  rw_doc :: string
  rw_source :: string
  rw_config_source :: string

record composition =
  cp_profile :: string
  cp_rows :: "row list"
  cp_layers :: "string list"
  cp_variables :: "string dict"
  cp_resolved :: bool

definition comp_enabled :: "composition \<Rightarrow> row list" where
  "comp_enabled c = filter (\<lambda>r. \<not> rw_disabled r) (cp_rows c)"

definition comp_required :: "composition \<Rightarrow> string set" where
  "comp_required c = set (map rw_id (filter rw_required (cp_rows c)))"

definition comp_row :: "composition \<Rightarrow> string \<Rightarrow> row option" where
  "comp_row c entry_id = find (\<lambda>r. rw_id r = entry_id) (cp_rows c)"

definition row_fields :: "string list" where
  "row_fields = [''id'', ''name'', ''config'', ''group'', ''disabled'', ''inject'', ''isolate'',
     ''required'', ''doc'']"

definition patch_fields :: "string list" where
  "patch_fields = [''id'', ''config'', ''disabled'', ''insert'', ''remove'', ''required'', ''inject'',
     ''isolate'', ''doc'']"

definition profile_fields :: "string list" where
  "profile_fields = [''api_version'', ''bundles'', ''patches'', ''doc'']"

definition bundle_fields :: "string list" where
  "bundle_fields = [''api_version'', ''entries'', ''doc'']"

definition patch_file_fields :: "string list" where
  "patch_file_fields = [''api_version'', ''patches'', ''doc'']"

definition group_fields :: "string list" where
  "group_fields = [''id'', ''entries'', ''isolate'', ''disabled'', ''doc'']"

section \<open>Reading documents\<close>

datatype raw_doc = Unreadable | BadJson | Document pyval

definition read_document :: "(string \<Rightarrow> raw_doc) \<Rightarrow> string \<Rightarrow> exn + pyval dict" where
  "read_document files path =
     (case files path of
        Unreadable \<Rightarrow> Inl (CompositionError path (Msg ''cannot read''))
      | BadJson \<Rightarrow> Inl (CompositionError path (Msg ''invalid JSON''))
      | Document v \<Rightarrow>
          (case v of
             VDict d \<Rightarrow>
               if map_of d ''api_version'' \<noteq> Some (VInt 1)
               then Inl (CompositionError path (MsgV ''api_version must be 1, got ''
                      (dict_get_default d ''api_version'' VNull)))
               else Inr d
           | _ \<Rightarrow> Inl (CompositionError path (Msg ''document must be a JSON object''))))"

definition check_fields :: "string \<Rightarrow> pyval dict \<Rightarrow> string list \<Rightarrow> exn + unit" where
  "check_fields source document allowed =
     (let unknown = sorted_set (list_diff (dict_keys document) allowed)
      in guard_res (unknown = [])
           (CompositionError source (Msg (''unsupported field(s): '' @ str_join '', '' unknown))))"

fun read_flag :: "string \<Rightarrow> pyval \<Rightarrow> string \<Rightarrow> exn + bool" where
  "read_flag source VNull label = Inr False"
| "read_flag source (VBool b) label = Inr b"
| "read_flag source v label =
     Inl (CompositionError source (MsgV (label @ '' must be true or false, got '') v))"

fun read_names :: "string \<Rightarrow> pyval \<Rightarrow> string \<Rightarrow> exn + string list" where
  "read_names source VNull label = Inr []"
| "read_names source (VList vs) label =
     (if list_all nonempty_str vs then Inr (map str_of vs)
      else Inl (CompositionError source (Msg (label @ '' contains a non-string entry''))))"
| "read_names source v label =
     Inl (CompositionError source (Msg (label @ '' must be an array of strings'')))"

abbreviation field :: "pyval dict \<Rightarrow> string \<Rightarrow> pyval" where
  \<comment> \<open>\<open>d.get(k)\<close>\<close>
  "field d k \<equiv> dict_get_default d k VNull"

fun text_of :: "(pyval \<Rightarrow> string) \<Rightarrow> pyval \<Rightarrow> string" where
  \<comment> \<open>\<open>str(v or "")\<close>\<close>
  "text_of to_str (VStr s) = s"
| "text_of to_str v = (if truthy v then to_str v else [])"

definition read_row :: "(pyval \<Rightarrow> string) \<Rightarrow> string \<Rightarrow> pyval \<Rightarrow> exn + row" where
  "read_row to_str source entry =
     (case entry of
        VDict d \<Rightarrow>
          bind_res (check_fields source d row_fields) (\<lambda>_.
          if \<not> nonempty_str (field d ''id'') then
            Inl (CompositionError source (MsgV ''entry needs a string id, got '' (field d ''id'')))
          else
            let entry_id = str_of (field d ''id'') in
            if \<not> nonempty_str (field d ''name'') then
              Inl (CompositionError source (Msg (''entry '' @ entry_id @ '' needs a module path in name'')))
            else case dict_get_default d ''config'' (VDict []) of
              VDict config \<Rightarrow>
                bind_res (read_flag source (field d ''required'') (''entry '' @ entry_id @ '' required'')) (\<lambda>required.
                bind_res (read_flag source (field d ''disabled'') (''entry '' @ entry_id @ '' disabled'')) (\<lambda>disabled.
                bind_res (read_names source (field d ''inject'') (''entry '' @ entry_id @ '' inject'')) (\<lambda>inject.
                bind_res (read_names source (field d ''isolate'') (''entry '' @ entry_id @ '' isolate'')) (\<lambda>isolate.
                  Inr \<lparr>rw_id = entry_id, rw_name = str_of (field d ''name''), rw_config = config,
                       rw_required = required, rw_disabled = disabled, rw_inject = inject,
                       rw_isolate = fromkeys isolate,
                       rw_group = text_of to_str (field d ''group''),
                       rw_doc = text_of to_str (field d ''doc''), rw_source = source,
                       rw_config_source = (if config \<noteq> [] then source else [])\<rparr>))))
            | _ \<Rightarrow> Inl (CompositionError source (Msg (''entry '' @ entry_id @ '' config must be an object''))))
      | _ \<Rightarrow> Inl (CompositionError source (Msg ''entry must be a JSON object'')))"

text \<open>What a group adds to a row flattened out of it.\<close>

definition in_group :: "string \<Rightarrow> string list \<Rightarrow> bool \<Rightarrow> row \<Rightarrow> row" where
  "in_group group_id isolate disabled child =
     child\<lparr>rw_group := (if rw_group child \<noteq> [] then rw_group child else group_id),
           rw_isolate := fromkeys (isolate @ rw_isolate child),
           rw_disabled := rw_disabled child \<or> disabled\<rparr>"

definition group_head :: "string \<Rightarrow> pyval dict \<Rightarrow> exn + (string \<times> string list \<times> bool)" where
  "group_head source d =
     bind_res (check_fields source d group_fields) (\<lambda>_.
     if \<not> nonempty_str (field d ''id'') then
       Inl (CompositionError source (Msg ''group needs a string id''))
     else
       let group_id = str_of (field d ''id'') in
       bind_res (read_names source (field d ''isolate'') (''group '' @ group_id @ '' isolate'')) (\<lambda>isolate.
       bind_res (read_flag source (field d ''disabled'') (''group '' @ group_id @ '' disabled'')) (\<lambda>disabled.
         Inr (group_id, isolate, disabled))))"

function (sequential) flatten :: "(pyval \<Rightarrow> string) \<Rightarrow> string \<Rightarrow> pyval \<Rightarrow> exn + row list"
  and flatten_entries :: "(pyval \<Rightarrow> string) \<Rightarrow> string \<Rightarrow> pyval list \<Rightarrow> exn + row list"
  and flatten_entry :: "(pyval \<Rightarrow> string) \<Rightarrow> string \<Rightarrow> pyval \<Rightarrow> exn + row list" where
  "flatten to_str source (VList es) = flatten_entries to_str source es"
| "flatten to_str source v = Inl (CompositionError source (Msg ''entries must be an array''))"
| "flatten_entries to_str source [] = Inr []"
| "flatten_entries to_str source (e # es) =
     bind_res (flatten_entry to_str source e) (\<lambda>rows.
     bind_res (flatten_entries to_str source es) (\<lambda>rest. Inr (rows @ rest)))"
| "flatten_entry to_str source (VDict d) =
     (case map_of d ''entries'' of
        None \<Rightarrow> bind_res (read_row to_str source (VDict d)) (\<lambda>r. Inr [r])
      | Some children \<Rightarrow>
          bind_res (group_head source d) (\<lambda>(group_id, isolate, disabled).
          bind_res (flatten to_str source children) (\<lambda>rows.
            Inr (map (in_group group_id isolate disabled) rows))))"
| "flatten_entry to_str source v = bind_res (read_row to_str source v) (\<lambda>r. Inr [r])"
  by pat_completeness auto

termination
  by (relation "measure (\<lambda>x. case x of Inl (_, _, v) \<Rightarrow> 2 * size v
        | Inr (Inl (_, _, es)) \<Rightarrow> 2 * size_list size es + 1 | Inr (Inr (_, _, v)) \<Rightarrow> 2 * size v + 1)")
    (auto dest: map_of_size)

section \<open>Patches\<close>

fun row_index :: "row list \<Rightarrow> string \<Rightarrow> nat option" where
  \<comment> \<open>\<open>next((i for i, row in enumerate(rows) if row.id == entry_id), None)\<close>\<close>
  "row_index [] entry_id = None"
| "row_index (r # rows) entry_id =
     (if rw_id r = entry_id then Some 0 else map_option Suc (row_index rows entry_id))"

definition patch_conflicts :: "string \<Rightarrow> pyval dict \<Rightarrow> string \<Rightarrow> exn + unit" where
  \<comment> \<open>an \<open>insert\<close> or a \<open>remove\<close> stands alone in its patch\<close>
  "patch_conflicts source patch word =
     (let entry_id = str_of (field patch ''id'');
          conflicts = sorted_set (list_diff (dict_keys patch) [''id'', word])
      in guard_res (conflicts = []) (CompositionError source
           (Msg (''patch '' @ entry_id @ '' '' @ word @ '' conflicts with '' @ str_join '', '' conflicts))))"

fun carries_id :: "pyval option \<Rightarrow> bool" where
  \<comment> \<open>\<open>isinstance(insert, dict) and "id" in insert\<close>\<close>
  "carries_id (Some (VDict ins)) = dict_has ins ''id''"
| "carries_id _ = False"

definition patch_target :: "string \<Rightarrow> pyval \<Rightarrow> exn + (string \<times> pyval dict)" where
  "patch_target source patch =
     (case patch of
        VDict d \<Rightarrow>
          bind_res (check_fields source d patch_fields) (\<lambda>_.
          if nonempty_str (field d ''id'') then Inr (str_of (field d ''id''), d)
          else Inl (CompositionError source (MsgV ''patch needs a string id, got '' (field d ''id''))))
      | _ \<Rightarrow> Inl (CompositionError source (Msg ''patch must be a JSON object'')))"

definition patch_shape :: "string \<Rightarrow> string \<Rightarrow> pyval dict \<Rightarrow> exn + bool" where
  \<comment> \<open>whether the patch removes its target; an \<open>insert\<close> or a removal must stand alone\<close>
  "patch_shape source entry_id d =
     bind_res (guard_res (map_of d ''insert'' = None \<or> is_dict (the (map_of d ''insert'')))
       (CompositionError source (Msg (''patch '' @ entry_id @ '' insert must be an object'')))) (\<lambda>_.
     bind_res (read_flag source (field d ''remove'') (''patch '' @ entry_id @ '' remove'')) (\<lambda>remove.
     bind_res (if map_of d ''insert'' \<noteq> None then patch_conflicts source d ''insert'' else Inr ()) (\<lambda>_.
     bind_res (if remove then patch_conflicts source d ''remove'' else Inr ()) (\<lambda>_.
     bind_res (guard_res (\<not> carries_id (map_of d ''insert''))
       (CompositionError source (Msg (''patch '' @ entry_id @ '' insert must not carry its own id'')))) (\<lambda>_.
       Inr remove)))))"

definition patch_head :: "string \<Rightarrow> pyval \<Rightarrow> exn + (string \<times> pyval dict \<times> bool)" where
  \<comment> \<open>the checks that do not look at the rows: the target, the patch, and whether it removes\<close>
  "patch_head source patch =
     bind_res (patch_target source patch) (\<lambda>(entry_id, d).
     bind_res (patch_shape source entry_id d) (\<lambda>remove. Inr (entry_id, d, remove)))"

definition when_field :: "pyval dict \<Rightarrow> string \<Rightarrow> (pyval \<Rightarrow> row \<Rightarrow> exn + row) \<Rightarrow> row \<Rightarrow> exn + row" where
  "when_field d k f r = (case map_of d k of None \<Rightarrow> Inr r | Some v \<Rightarrow> f v r)"

definition patch_config :: "string \<Rightarrow> string \<Rightarrow> pyval \<Rightarrow> row \<Rightarrow> exn + row" where
  "patch_config source entry_id v r =
     (case v of
        VDict config \<Rightarrow> Inr (r\<lparr>rw_config := config, rw_config_source := source\<rparr>)
      | _ \<Rightarrow> Inl (CompositionError source (Msg (''patch '' @ entry_id @ '' config must be an object''))))"

definition patch_row :: "(pyval \<Rightarrow> string) \<Rightarrow> string \<Rightarrow> string \<Rightarrow> pyval dict \<Rightarrow> row \<Rightarrow> exn + row" where
  "patch_row to_str source entry_id d r0 =
     (let label = (\<lambda>f. ''patch '' @ entry_id @ '' '' @ f) in
      bind_res (when_field d ''config'' (patch_config source entry_id) (r0\<lparr>rw_source := source\<rparr>)) (\<lambda>r1.
      bind_res (when_field d ''disabled'' (\<lambda>v r. bind_res (read_flag source v (label ''disabled''))
        (\<lambda>b. Inr (r\<lparr>rw_disabled := b\<rparr>))) r1) (\<lambda>r2.
      bind_res (when_field d ''required'' (\<lambda>v r. bind_res (read_flag source v (label ''required''))
        (\<lambda>b. Inr (r\<lparr>rw_required := b\<rparr>))) r2) (\<lambda>r3.
      bind_res (when_field d ''inject'' (\<lambda>v r. bind_res (read_names source v (label ''inject''))
        (\<lambda>ns. Inr (r\<lparr>rw_inject := ns\<rparr>))) r3) (\<lambda>r4.
      bind_res (when_field d ''isolate'' (\<lambda>v r. bind_res (read_names source v (label ''isolate''))
        (\<lambda>ns. Inr (r\<lparr>rw_isolate := ns\<rparr>))) r4) (\<lambda>r5.
      bind_res (when_field d ''doc'' (\<lambda>v r. Inr (r\<lparr>rw_doc := text_of to_str v\<rparr>)) r5) (\<lambda>r6.
      if map_of d ''insert'' \<noteq> None
      then Inl (CompositionError source
             (Msg (''patch '' @ entry_id @ '' cannot insert a row that already exists'')))
      else Inr r6)))))))"

definition apply_patch :: "(pyval \<Rightarrow> string) \<Rightarrow> string \<Rightarrow> row list \<Rightarrow> pyval \<Rightarrow> exn + row list" where
  "apply_patch to_str source rows patch =
     bind_res (patch_head source patch) (\<lambda>(entry_id, d, remove).
     case row_index rows entry_id of
       None \<Rightarrow>
         if remove then Inr rows
         else (case map_of d ''insert'' of
                 Some (VDict ins) \<Rightarrow>
                   bind_res (read_row to_str source (VDict (dict_update [(''id'', VStr entry_id)] ins)))
                     (\<lambda>r. Inr (rows @ [r]))
               | _ \<Rightarrow> Inl (CompositionError source
                        (Msg (''patch targets unknown row '' @ entry_id @ ''; add insert to create it''))))
     | Some i \<Rightarrow>
         if remove then Inr (take i rows @ drop (Suc i) rows)
         else bind_res (patch_row to_str source entry_id d (rows ! i)) (\<lambda>r. Inr (rows[i := r])))"

definition apply_patches :: "(pyval \<Rightarrow> string) \<Rightarrow> string \<Rightarrow> row list \<Rightarrow> pyval list \<Rightarrow> exn + row list" where
  "apply_patches to_str source rows patches = fold_res (apply_patch to_str source) rows patches"

definition patch_list :: "string \<Rightarrow> pyval dict \<Rightarrow> exn + pyval list" where
  "patch_list source d =
     (case dict_get_default d ''patches'' (VList []) of
        VList ps \<Rightarrow> Inr ps
      | _ \<Rightarrow> Inl (CompositionError source (Msg ''patches must be an array'')))"

definition apply_patch_document ::
  "(pyval \<Rightarrow> string) \<Rightarrow> string \<Rightarrow> row list \<Rightarrow> pyval dict \<Rightarrow> exn + row list" where
  "apply_patch_document to_str source rows document =
     bind_res (check_fields source document patch_file_fields) (\<lambda>_.
     bind_res (patch_list source document) (apply_patches to_str source rows))"

section \<open>Profiles\<close>

definition ident_start :: "char \<Rightarrow> bool" where
  "ident_start c = (is_lower_char c \<or> is_upper_char c \<or> c = CHR ''_'')"

definition ident_char :: "char \<Rightarrow> bool" where
  "ident_char c = (ident_start c \<or> is_digit_char c)"

definition is_identifier :: "string \<Rightarrow> bool" where
  "is_identifier s = (case s of [] \<Rightarrow> False | c # cs \<Rightarrow> ident_start c \<and> list_all ident_char cs)"

definition split_once :: "char \<Rightarrow> string \<Rightarrow> string \<times> string" where
  \<comment> \<open>\<open>s.split(c, 1)\<close> on a string that contains \<open>c\<close>\<close>
  "split_once c s = (takeWhile (\<lambda>x. x \<noteq> c) s, drop 1 (dropWhile (\<lambda>x. x \<noteq> c) s))"

record site =
  st_dir :: string                                    \<comment> \<open>\<open>profiles_dir\<close>\<close>
  st_files :: "string \<Rightarrow> raw_doc"
  st_module_dir :: "string \<Rightarrow> string option"          \<comment> \<open>\<open>None\<close>: the package cannot be imported\<close>
  st_to_str :: "pyval \<Rightarrow> string"

definition bundle_path :: "site \<Rightarrow> string \<Rightarrow> string \<Rightarrow> exn + string" where
  "bundle_path st profile_path bundle =
     (if CHR '':'' \<notin> set bundle then Inr (st_dir st @ ''/bundles/'' @ bundle @ ''.json'')
      else
        let (modname, relative) = split_once CHR '':'' bundle in
        if modname = [] \<or> \<not> list_all is_identifier (str_split CHR ''.'' modname) \<or> relative = []
           \<or> starts_with ''/'' relative \<or> ''..'' \<in> set (str_split CHR ''/'' relative)
        then Inl (CompositionError profile_path (Msg ''invalid module bundle reference''))
        else (case st_module_dir st modname of
                None \<Rightarrow> Inl (CompositionError profile_path (Msg ''module bundle is unavailable''))
              | Some dir \<Rightarrow> Inr (dir @ ''/'' @ relative)))"

definition add_unique_row :: "string \<Rightarrow> row list \<Rightarrow> row \<Rightarrow> exn + row list" where
  "add_unique_row source rows r =
     (if list_ex (\<lambda>e. rw_id e = rw_id r) rows
      then Inl (CompositionError source (Msg (''duplicate row id '' @ rw_id r)))
      else Inr (rows @ [r]))"

definition add_bundle :: "site \<Rightarrow> string \<Rightarrow> row list \<times> string list \<Rightarrow> string \<Rightarrow>
    exn + (row list \<times> string list)" where
  "add_bundle st profile_path acc bundle =
     bind_res (bundle_path st profile_path bundle) (\<lambda>path.
     bind_res (read_document (st_files st) path) (\<lambda>document.
     bind_res (check_fields path document bundle_fields) (\<lambda>_.
     let source = ''bundle:'' @ bundle in
     bind_res (flatten (st_to_str st) source (dict_get_default document ''entries'' (VList []))) (\<lambda>rows.
     bind_res (fold_res (add_unique_row source) (fst acc) rows) (\<lambda>rows'.
       Inr (rows', snd acc @ [source]))))))"

definition add_patch_file :: "site \<Rightarrow> row list \<times> string list \<Rightarrow> string \<Rightarrow> exn + (row list \<times> string list)" where
  "add_patch_file st acc path =
     (let source = ''patch:'' @ path in
      bind_res (read_document (st_files st) path) (\<lambda>document.
      bind_res (apply_patch_document (st_to_str st) source (fst acc) document) (\<lambda>rows.
        Inr (rows, snd acc @ [source]))))"

definition add_layer :: "site \<Rightarrow> string \<Rightarrow> pyval list \<Rightarrow> row list \<times> string list \<Rightarrow>
    exn + (row list \<times> string list)" where
  \<comment> \<open>a layer without patches leaves no trace in the list of layers\<close>
  "add_layer st source patches acc =
     (if patches = [] then Inr acc
      else bind_res (apply_patches (st_to_str st) source (fst acc) patches) (\<lambda>rows.
             Inr (rows, snd acc @ [source])))"

definition resolve_variables :: "string dict \<Rightarrow> exn + string dict" where
  "resolve_variables variables =
     bind_res (fold_res (\<lambda>_ (name, _). guard_res (is_identifier name)
        (CompositionError ''variables'' (MsgV ''invalid composition variable name: '' (VStr name)))) () variables)
       (\<lambda>_. Inr variables)"

definition resolve :: "site \<Rightarrow> string \<Rightarrow> string list \<Rightarrow> pyval list \<Rightarrow> string dict \<Rightarrow> exn + composition" where
  "resolve st profile patch_files patches variables =
     (let profile_path = st_dir st @ ''/'' @ profile @ ''.json'' in
      bind_res (read_document (st_files st) profile_path) (\<lambda>document.
      bind_res (check_fields profile_path document profile_fields) (\<lambda>_.
      bind_res (read_names profile_path (field document ''bundles'') ''bundles'') (\<lambda>bundles.
      bind_res (fold_res (add_bundle st profile_path) ([], []) bundles) (\<lambda>acc1.
      bind_res (patch_list profile_path document) (\<lambda>own.
      bind_res (add_layer st (''profile:'' @ profile) own acc1) (\<lambda>acc2.
      bind_res (fold_res (add_patch_file st) acc2 patch_files) (\<lambda>acc3.
      bind_res (add_layer st ''cli'' patches acc3) (\<lambda>acc4.
      bind_res (resolve_variables variables) (\<lambda>vars.
        Inr \<lparr>cp_profile = profile, cp_rows = fst acc4, cp_layers = snd acc4,
             cp_variables = vars, cp_resolved = False\<rparr>))))))))))"


section \<open>References\<close>

datatype piece = Lit char | Ref string string     \<comment> \<open>a character, or \<open>${namespace:key}\<close>\<close>

definition match_reference :: "string \<Rightarrow> (string \<times> string \<times> string) option" where
  \<comment> \<open>\<open>_REFERENCE\<close> at the start of a text: namespace, key, and what follows\<close>
  "match_reference s =
     (case (if starts_with ''${env:'' s then Some ''env''
            else if starts_with ''${aka:'' s then Some ''aka'' else None) of
        None \<Rightarrow> None
      | Some ns \<Rightarrow>
          let key = takeWhile ident_char (drop 6 s); rest = dropWhile ident_char (drop 6 s)
          in if is_identifier key \<and> starts_with ''}'' rest then Some (ns, key, drop 1 rest) else None)"

lemma drop_starts_with: "starts_with ''}'' t \<Longrightarrow> length t \<le> n \<Longrightarrow> length (drop 1 t) < n"
  by (cases t) auto

lemma match_reference_shorter: "match_reference s = Some (ns, key, rest) \<Longrightarrow> length rest < length s"
proof -
  assume "match_reference s = Some (ns, key, rest)"
  then have "starts_with ''}'' (dropWhile ident_char (drop 6 s))"
    and rest: "rest = drop 1 (dropWhile ident_char (drop 6 s))"
    by (auto simp: match_reference_def Let_def split: if_splits option.splits)
  moreover have "length (dropWhile ident_char (drop 6 s)) \<le> length s"
    by (metis diff_le_self length_drop length_dropWhile_le order_trans)
  ultimately show ?thesis by (simp only: drop_starts_with)
qed

function pieces :: "string \<Rightarrow> piece list" where
  \<comment> \<open>the scan of \<open>_REFERENCE.sub\<close>: leftmost, non-overlapping\<close>
  "pieces [] = []"
| "pieces (c # cs) =
     (case match_reference (c # cs) of
        Some (ns, key, rest) \<Rightarrow> Ref ns key # pieces rest
      | None \<Rightarrow> Lit c # pieces cs)"
  by pat_completeness auto

termination
  by (relation "measure length") (auto dest: match_reference_shorter)

fun literal_text :: "piece list \<Rightarrow> string" where
  \<comment> \<open>\<open>_REFERENCE.sub("", text)\<close>\<close>
  "literal_text [] = []"
| "literal_text (Lit c # ps) = c # literal_text ps"
| "literal_text (Ref ns key # ps) = literal_text ps"

type_synonym environ = "string \<Rightarrow> string option"

definition replacement :: "environ \<Rightarrow> string dict \<Rightarrow> string \<Rightarrow> piece \<Rightarrow> exn + string" where
  "replacement env variables source p =
     (case p of
        Lit c \<Rightarrow> Inr [c]
      | Ref ns key \<Rightarrow>
          if ns = ''env'' then Inr (case env key of None \<Rightarrow> [] | Some v \<Rightarrow> v)
          else (case map_of variables key of
                  None \<Rightarrow> Inl (CompositionError source
                    (Msg (''unknown composition variable '' @ key @ ''; supported: ''
                          @ str_join '', '' (sort (dict_keys variables)))))
                | Some v \<Rightarrow> Inr v))"

definition substitute :: "environ \<Rightarrow> string \<Rightarrow> string dict \<Rightarrow> string \<Rightarrow> exn + string" where
  "substitute env text variables source =
     (if contains_sub ''${'' (literal_text (pieces text))
      then Inl (CompositionError source
             (Msg ''unsupported reference syntax; use ${aka:name} or ${env:NAME}''))
      else bind_res (map_res (replacement env variables source) (pieces text)) (\<lambda>parts. Inr (concat parts)))"

section \<open>Interpolation of a config\<close>

fun contains_reference :: "pyval \<Rightarrow> bool"
  and list_reference :: "pyval list \<Rightarrow> bool"
  and items_reference :: "pyval dict \<Rightarrow> bool" where
  "contains_reference (VStr s) = contains_sub ''${'' s"
| "contains_reference (VList vs) = list_reference vs"
| "contains_reference (VTuple vs) = list_reference vs"
| "contains_reference (VDict d) = items_reference d"
| "contains_reference _ = False"
| "list_reference [] = False"
| "list_reference (v # vs) = (contains_reference v \<or> list_reference vs)"
| "items_reference [] = False"
| "items_reference ((k, v) # d) = (contains_reference v \<or> items_reference d)"

fun substitute_value :: "environ \<Rightarrow> string dict \<Rightarrow> string \<Rightarrow> pyval \<Rightarrow> exn + pyval"
  and substitute_list :: "environ \<Rightarrow> string dict \<Rightarrow> string \<Rightarrow> pyval list \<Rightarrow> exn + pyval list"
  and substitute_items :: "environ \<Rightarrow> string dict \<Rightarrow> string \<Rightarrow> pyval dict \<Rightarrow> exn + pyval dict" where
  "substitute_value env vars src (VStr s) = bind_res (substitute env s vars src) (\<lambda>t. Inr (VStr t))"
| "substitute_value env vars src (VList vs) = bind_res (substitute_list env vars src vs) (\<lambda>ws. Inr (VList ws))"
| "substitute_value env vars src (VTuple vs) = bind_res (substitute_list env vars src vs) (\<lambda>ws. Inr (VList ws))"
| "substitute_value env vars src (VDict d) = bind_res (substitute_items env vars src d) (\<lambda>e. Inr (VDict e))"
| "substitute_value env vars src v = Inr v"
| "substitute_list env vars src [] = Inr []"
| "substitute_list env vars src (v # vs) =
     bind_res (substitute_value env vars src v) (\<lambda>w.
     bind_res (substitute_list env vars src vs) (\<lambda>ws. Inr (w # ws)))"
| "substitute_items env vars src [] = Inr []"
| "substitute_items env vars src ((k, v) # d) =
     bind_res (substitute_value env vars src v) (\<lambda>w.
     bind_res (substitute_items env vars src d) (\<lambda>e. Inr ((k, w) # e)))"

type_synonym path = "string list"

fun walk :: "path \<Rightarrow> pyval dict \<Rightarrow> (path \<times> pyval) list"
  and walk_value :: "path \<Rightarrow> pyval \<Rightarrow> (path \<times> pyval) list" where
  "walk prefix [] = []"
| "walk prefix ((k, v) # d) = walk_value (prefix @ [k]) v @ walk prefix d"
| "walk_value p (VDict e) = walk p e"
| "walk_value p v = [(p, v)]"

fun assign :: "pyval dict \<Rightarrow> path \<Rightarrow> pyval \<Rightarrow> exn + pyval dict" where
  "assign config [] v = Inr config"
| "assign config [k] v = Inr (dict_set config k v)"
| "assign config (segment # k # rest) v =
     (case field config segment of
        VDict child \<Rightarrow>
          bind_res (assign child (k # rest) v) (\<lambda>child'. Inr (dict_set config segment (VDict child')))
      | _ \<Rightarrow> Inl (CompositionError ''interpolation'' (Msg (''cannot write: '' @ segment @ '' is not an object''))))"

definition interpolate_value :: "environ \<Rightarrow> path set \<Rightarrow> string dict \<Rightarrow> string \<Rightarrow> path \<Rightarrow> pyval \<Rightarrow> exn + pyval" where
  "interpolate_value env allowed vars src p v =
     (if \<not> contains_reference v then Inr v
      else if p \<notin> allowed then
        Inl (CompositionError src (Msg (''field '' @ str_join ''.'' p
          @ '' contains a reference but is not listed in the interpolate allowlist'')))
      else substitute_value env vars src v)"

definition interpolate_field :: "environ \<Rightarrow> path set \<Rightarrow> string dict \<Rightarrow> string \<Rightarrow> pyval dict \<Rightarrow> path \<times> pyval \<Rightarrow>
    exn + pyval dict" where
  "interpolate_field env allowed vars src acc pv =
     (if \<not> contains_reference (snd pv) then Inr acc
      else bind_res (interpolate_value env allowed vars src (fst pv) (snd pv)) (\<lambda>w. assign acc (fst pv) w))"

definition apply_interpolation :: "environ \<Rightarrow> pyval dict \<Rightarrow> string list \<Rightarrow> string dict \<Rightarrow> string \<Rightarrow>
    exn + pyval dict" where
  "apply_interpolation env config allowlist vars src =
     fold_res (interpolate_field env (set (map (str_split CHR ''.'') allowlist)) vars src) config (walk [] config)"

section \<open>Dumping\<close>

definition row_json :: "row \<Rightarrow> pyval" where
  "row_json r = VDict
     [(''id'', VStr (rw_id r)), (''name'', VStr (rw_name r)), (''config'', VDict (rw_config r)),
      (''required'', VBool (rw_required r)), (''disabled'', VBool (rw_disabled r)),
      (''inject'', VList (map VStr (rw_inject r))), (''isolate'', VList (map VStr (rw_isolate r))),
      (''group'', VStr (rw_group r)), (''doc'', VStr (rw_doc r)), (''source'', VStr (rw_source r)),
      (''config_source'', VStr (rw_config_source r))]"

definition row_text :: "(pyval \<Rightarrow> string) \<Rightarrow> row \<Rightarrow> string list" where
  \<comment> \<open>the lines of one row; \<open>json_line\<close> is \<open>json.dumps(.., sort_keys=True)\<close>\<close>
  "row_text json_line r =
     (let flags = (if rw_required r then [''required''] else []) @ (if rw_disabled r then [''disabled''] else []) in
      [''['' @ rw_id r @ ''] '' @ rw_name r @
         (if flags \<noteq> [] then ''  ('' @ str_join '', '' flags @ '')'' else [])]
      @ (if rw_group r \<noteq> [] then [''  group: '' @ rw_group r] else [])
      @ (if rw_doc r \<noteq> [] then [''  doc: '' @ rw_doc r] else [])
      @ [''  from: '' @ rw_source r]
      @ (if rw_inject r \<noteq> [] then [''  inject: '' @ str_join '', '' (rw_inject r)] else [])
      @ (if rw_isolate r \<noteq> [] then [''  isolate: '' @ str_join '', '' (rw_isolate r)] else [])
      @ (if rw_config r \<noteq> []
         then [''  config (set by '' @ (if rw_config_source r \<noteq> [] then rw_config_source r else rw_source r) @ ''):'']
              @ map (\<lambda>k. ''    '' @ k @ '' = '' @ json_line (field (rw_config r) k)) (sort (dict_keys (rw_config r)))
         else [''  config: module Defaults only''])
      @ [[]])"

definition dump :: "(pyval \<Rightarrow> string) \<Rightarrow> (pyval \<Rightarrow> string) \<Rightarrow> composition \<Rightarrow> string \<Rightarrow> exn + string" where
  "dump json_pretty json_line c fmt =
     (if fmt = ''json'' then
        Inr (json_pretty (VDict
          [(''api_version'', VInt 1), (''profile'', VStr (cp_profile c)),
           (''layers'', VList (map VStr (cp_layers c))),
           (''variables'', VDict (map (\<lambda>(k, v). (k, VStr v)) (cp_variables c))),
           (''entries'', VList (map row_json (cp_rows c)))]))
      else if fmt \<noteq> ''text'' then
        Inl (CompositionError ''dump'' (Msg (''unsupported format: '' @ fmt)))
      else
        Inr (str_join [CHR 0x0A]
          ([''profile: '' @ cp_profile c, ''layers: '' @ str_join '' -> '' (cp_layers c), []]
           @ concat (map (row_text json_line) (cp_rows c)))))"

section \<open>Row ids\<close>

definition rows_ok :: "row list \<Rightarrow> bool" where
  "rows_ok rows = (distinct (map rw_id rows) \<and> list_all (\<lambda>r. rw_id r \<noteq> [] \<and> rw_name r \<noteq> []) rows)"

lemma read_row_Inr:
  assumes "read_row to_str source v = Inr r"
  shows "\<exists>d. v = VDict d \<and> field d ''id'' = VStr (rw_id r) \<and> rw_id r \<noteq> [] \<and> rw_name r \<noteq> []"
proof (cases v)
  case (VDict d)
  note a = assms [unfolded VDict read_row_def pyval.case]
  from a have id: "nonempty_str (field d ''id'')" and nm: "nonempty_str (field d ''name'')"
    by (auto simp: res_simps Let_def split: if_splits)
  obtain config where "dict_get_default d ''config'' (VDict []) = VDict config"
    using a id nm by (cases "dict_get_default d ''config'' (VDict [])") (auto simp: res_simps Let_def)
  with a id nm have "rw_id r = str_of (field d ''id'')" "rw_name r = str_of (field d ''name'')"
    by (auto simp: res_simps Let_def)
  with id nm VDict show ?thesis by (auto simp: nonempty_str_iff)
qed (use assms in \<open>simp_all add: read_row_def\<close>)

lemma row_index_Some:
  assumes "row_index rows k = Some i"
  obtains pre r post where "rows = pre @ r # post" and "i = length pre" and "rw_id r = k"
    and "k \<notin> rw_id ` set pre"
  using assms
proof (induction rows arbitrary: i thesis)
  case (Cons r rows)
  show ?case
  proof (cases "rw_id r = k")
    case True
    with Cons.prems(2) have "i = 0" by simp
    with True show ?thesis using Cons.prems(1) [of "[]" r rows] by simp
  next
    case False
    with Cons.prems(2) obtain j where "row_index rows k = Some j" "i = Suc j" by auto
    from Cons.IH [OF _ this(1)] obtain pre s post where
      "rows = pre @ s # post" "j = length pre" "rw_id s = k" "k \<notin> rw_id ` set pre" by metis
    with False \<open>i = Suc j\<close> show ?thesis using Cons.prems(1) [of "r # pre" s post] by auto
  qed
qed simp

lemma row_index_None: "row_index rows k = None \<longleftrightarrow> k \<notin> rw_id ` set rows"
  by (induction rows) auto

lemma when_field_set:
  assumes "when_field d k f r = Inr r'"
    and "\<And>v. f v r = Inr r' \<Longrightarrow> \<exists>x. r' = upd x r" and "upd (old r) r = r"
  obtains x where "r' = upd x r" and "map_of d k = None \<Longrightarrow> x = old r"
proof (cases "map_of d k")
  case None
  with assms(1,3) show ?thesis using that [of "old r"] by (simp add: when_field_def)
next
  case (Some v)
  with assms(1) assms(2) [of v] obtain x where "r' = upd x r" by (auto simp: when_field_def)
  with Some show ?thesis using that by simp
qed

lemma patch_row_Inr:
  assumes "patch_row to_str source k d r = Inr r'"
  obtains config config_source disabled required inject isolate doc where
    "r' = r\<lparr>rw_source := source, rw_config := config, rw_config_source := config_source,
            rw_disabled := disabled, rw_required := required, rw_inject := inject,
            rw_isolate := isolate, rw_doc := doc\<rparr>"
    and "map_of d ''config'' = None \<and> config = rw_config r \<and> config_source = rw_config_source r \<or>
         map_of d ''config'' = Some (VDict config) \<and> config_source = source"
    and "map_of d ''disabled'' = None \<Longrightarrow> disabled = rw_disabled r"
    and "map_of d ''required'' = None \<Longrightarrow> required = rw_required r"
    and "map_of d ''inject'' = None \<Longrightarrow> inject = rw_inject r"
    and "map_of d ''isolate'' = None \<Longrightarrow> isolate = rw_isolate r"
proof -
  let ?label = "\<lambda>f. ''patch '' @ k @ '' '' @ f"
  from assms [unfolded patch_row_def Let_def bind_res_Inr_iff] obtain r1 r2 r3 r4 r5 where
    s1: "when_field d ''config'' (patch_config source k) (r\<lparr>rw_source := source\<rparr>) = Inr r1"
    and s2: "when_field d ''disabled'' (\<lambda>v r. bind_res (read_flag source v (?label ''disabled''))
        (\<lambda>b. Inr (r\<lparr>rw_disabled := b\<rparr>))) r1 = Inr r2"
    and s3: "when_field d ''required'' (\<lambda>v r. bind_res (read_flag source v (?label ''required''))
        (\<lambda>b. Inr (r\<lparr>rw_required := b\<rparr>))) r2 = Inr r3"
    and s4: "when_field d ''inject'' (\<lambda>v r. bind_res (read_names source v (?label ''inject''))
        (\<lambda>ns. Inr (r\<lparr>rw_inject := ns\<rparr>))) r3 = Inr r4"
    and s5: "when_field d ''isolate'' (\<lambda>v r. bind_res (read_names source v (?label ''isolate''))
        (\<lambda>ns. Inr (r\<lparr>rw_isolate := ns\<rparr>))) r4 = Inr r5"
    and s6: "when_field d ''doc'' (\<lambda>v r. Inr (r\<lparr>rw_doc := text_of to_str v\<rparr>)) r5 = Inr r'"
    by (auto split: if_splits)
  obtain c cs where c: "r1 = r\<lparr>rw_source := source, rw_config := c, rw_config_source := cs\<rparr>"
    and cc: "map_of d ''config'' = None \<and> c = rw_config r \<and> cs = rw_config_source r \<or>
         map_of d ''config'' = Some (VDict c) \<and> cs = source"
  proof (cases "map_of d ''config''")
    case None
    with s1 have "r1 = r\<lparr>rw_source := source\<rparr>" by (simp add: when_field_def)
    then have "r1 = r\<lparr>rw_source := source, rw_config := rw_config r,
        rw_config_source := rw_config_source r\<rparr>" by simp
    then show ?thesis by (rule that) (simp add: None)
  next
    case (Some v)
    with s1 have "patch_config source k v (r\<lparr>rw_source := source\<rparr>) = Inr r1" by (simp add: when_field_def)
    then obtain c where "v = VDict c" "r1 = r\<lparr>rw_source := source, rw_config := c, rw_config_source := source\<rparr>"
      by (cases v) (auto simp: patch_config_def)
    with Some that show ?thesis by blast
  qed
  obtain b where b: "r2 = r1\<lparr>rw_disabled := b\<rparr>" and bb: "map_of d ''disabled'' = None \<Longrightarrow> b = rw_disabled r1"
    by (rule when_field_set [OF s2, of "\<lambda>x r. r\<lparr>rw_disabled := x\<rparr>" rw_disabled]) (auto simp: res_simps)
  obtain q where q: "r3 = r2\<lparr>rw_required := q\<rparr>" and qq: "map_of d ''required'' = None \<Longrightarrow> q = rw_required r2"
    by (rule when_field_set [OF s3, of "\<lambda>x r. r\<lparr>rw_required := x\<rparr>" rw_required]) (auto simp: res_simps)
  obtain n where n: "r4 = r3\<lparr>rw_inject := n\<rparr>" and nn: "map_of d ''inject'' = None \<Longrightarrow> n = rw_inject r3"
    by (rule when_field_set [OF s4, of "\<lambda>x r. r\<lparr>rw_inject := x\<rparr>" rw_inject]) (auto simp: res_simps)
  obtain i where i: "r5 = r4\<lparr>rw_isolate := i\<rparr>" and ii: "map_of d ''isolate'' = None \<Longrightarrow> i = rw_isolate r4"
    by (rule when_field_set [OF s5, of "\<lambda>x r. r\<lparr>rw_isolate := x\<rparr>" rw_isolate]) (auto simp: res_simps)
  obtain t where t: "r' = r5\<lparr>rw_doc := t\<rparr>"
    by (rule when_field_set [OF s6, of "\<lambda>x r. r\<lparr>rw_doc := x\<rparr>" rw_doc]) auto
  show thesis
    by (rule that [where config = c and config_source = cs and disabled = b and required = q
        and inject = n and isolate = i and doc = t]) (use c cc b bb q qq n nn i ii t in auto)
qed


section \<open>What a patch does\<close>

lemma patch_target_Inr:
  assumes "patch_target source patch = Inr (k, d)"
  shows "patch = VDict d" and "field d ''id'' = VStr k" and "k \<noteq> []"
proof -
  have "patch = VDict d \<and> nonempty_str (field d ''id'') \<and> k = str_of (field d ''id'')"
    using assms by (cases patch) (auto simp: patch_target_def bind_res_Inr_iff split: if_split_asm)
  then show "patch = VDict d" "field d ''id'' = VStr k" "k \<noteq> []" by (auto simp: nonempty_str_iff)
qed

lemma patch_conflicts_Inr:
  "patch_conflicts source d w = Inr () \<Longrightarrow> set (dict_keys d) \<subseteq> {''id'', w}"
  by (auto simp: patch_conflicts_def guard_res_iff list_diff_def filter_empty_conv)

lemma patch_shape_Inr:
  assumes "patch_shape source k d = Inr remove"
  shows "map_of d ''insert'' = Some v \<Longrightarrow> \<exists>ins. v = VDict ins \<and> map_of ins ''id'' = None"
    and "map_of d ''insert'' \<noteq> None \<Longrightarrow> set (dict_keys d) \<subseteq> {''id'', ''insert''}"
    and "remove \<Longrightarrow> set (dict_keys d) \<subseteq> {''id'', ''remove''}"
    and "remove \<longleftrightarrow> field d ''remove'' = VBool True"
proof -
  from assms obtain label u1 u2 where flag: "read_flag source (field d ''remove'') label = Inr remove"
    and ins: "map_of d ''insert'' = None \<or> is_dict (the (map_of d ''insert''))"
    and c1: "(if map_of d ''insert'' \<noteq> None then patch_conflicts source d ''insert'' else Inr ()) = Inr u1"
    and c2: "(if remove then patch_conflicts source d ''remove'' else Inr ()) = Inr u2"
    and nid: "\<not> carries_id (map_of d ''insert'')"
    unfolding patch_shape_def bind_res_Inr_iff guard_res_iff sum.inject
    by (elim exE conjE) (hypsubst, rule that, assumption+)
  show "\<exists>ins. v = VDict ins \<and> map_of ins ''id'' = None" if "map_of d ''insert'' = Some v"
    using that ins nid by (cases v) (auto simp: dict_has_def)
  show "set (dict_keys d) \<subseteq> {''id'', ''insert''}" if "map_of d ''insert'' \<noteq> None"
    using that c1 by (intro patch_conflicts_Inr) simp
  show "set (dict_keys d) \<subseteq> {''id'', ''remove''}" if remove
    using that c2 by (intro patch_conflicts_Inr) simp
  show "remove \<longleftrightarrow> field d ''remove'' = VBool True"
    using flag by (cases "field d ''remove''") auto
qed

lemma patch_head_Inr:
  assumes "patch_head source patch = Inr (k, d, remove)"
  shows "patch_target source patch = Inr (k, d)" and "patch_shape source k d = Inr remove"
  using assms unfolding patch_head_def by (auto simp: bind_res_Inr_iff)

lemma dict_update_get_other:
  "map_of e k = None \<Longrightarrow> map_of (dict_update d e) k = map_of d k"
proof -
  assume "map_of e k = None"
  then have "map_of (foldl (\<lambda>acc (k, v). dict_set acc k v) x e) k = map_of x k" for x
    by (induction e arbitrary: x) (auto simp: dict_simps split: if_splits)
  then show ?thesis by (simp add: dict_update_def)
qed

text \<open>The four outcomes of a patch: nothing to remove, a new row, a removed row, a replaced row.\<close>

lemma apply_patch_cases:
  assumes "apply_patch to_str source rows patch = Inr rows'"
  obtains (absent) k d where "patch_head source patch = Inr (k, d, True)"
      "k \<notin> rw_id ` set rows" "rows' = rows"
  | (insert) k d r where "patch_head source patch = Inr (k, d, False)"
      "k \<notin> rw_id ` set rows" "rows' = rows @ [r]" "rw_id r = k" "k \<noteq> []" "rw_name r \<noteq> []"
  | (remove) k d pre r post where "patch_head source patch = Inr (k, d, True)"
      "rows = pre @ r # post" "rw_id r = k" "k \<notin> rw_id ` set pre" "rows' = pre @ post"
  | (update) k d pre r post r' where "patch_head source patch = Inr (k, d, False)"
      "rows = pre @ r # post" "rw_id r = k" "k \<notin> rw_id ` set pre" "rows' = pre @ r' # post"
      "patch_row to_str source k d r = Inr r'"
proof -
  from assms obtain k d rem where h: "patch_head source patch = Inr (k, d, rem)"
    unfolding apply_patch_def bind_res_Inr_iff by (metis prod_cases3)
  note a = assms [unfolded apply_patch_def h bind_res.simps prod.case]
  note sh = patch_shape_Inr [OF patch_head_Inr(2) [OF h]]
  show thesis
  proof (cases "row_index rows k")
    case None
    then have fresh: "k \<notin> rw_id ` set rows" by (simp add: row_index_None)
    show thesis
    proof (cases rem)
      case True
      with a None have "rows' = rows" by simp
      with h True fresh show thesis by (intro absent) simp_all
    next
      case False
      with a None obtain v where v: "map_of d ''insert'' = Some v" by (cases "map_of d ''insert''") auto
      from sh(1) [OF v] obtain ins where ins: "v = VDict ins" "map_of ins ''id'' = None" by blast
      from a False None v ins have "bind_res (read_row to_str source
          (VDict (dict_update [(''id'', VStr k)] ins))) (\<lambda>r. Inr (rows @ [r])) = Inr rows'" by simp
      then obtain r where r: "read_row to_str source (VDict (dict_update [(''id'', VStr k)] ins)) = Inr r"
        and rows': "rows' = rows @ [r]" unfolding bind_res_Inr_iff by blast
      have "rw_id r = k" "rw_id r \<noteq> []" "rw_name r \<noteq> []"
        using read_row_Inr [OF r] dict_update_get_other [OF ins(2)] by (auto simp: dict_get_default_def)
      show thesis
        by (rule insert [OF _ fresh rows' \<open>rw_id r = k\<close>]) (use h False \<open>rw_id r = k\<close> \<open>rw_id r \<noteq> []\<close> \<open>rw_name r \<noteq> []\<close> in simp_all)
    qed
  next
    case (Some i)
    then obtain pre r post where rows: "rows = pre @ r # post" "i = length pre" "rw_id r = k"
      "k \<notin> rw_id ` set pre" by (rule row_index_Some)
    show thesis
    proof (cases rem)
      case True
      with a Some rows have "rows' = pre @ post" by simp
      with h True rows show thesis by (intro remove) simp_all
    next
      case False
      from a Some rows False have
        "bind_res (patch_row to_str source k d r) (\<lambda>r. Inr (pre @ r # post)) = Inr rows'"
        by (simp add: nth_append)
      then obtain r' where "patch_row to_str source k d r = Inr r'" "rows' = pre @ r' # post"
        unfolding bind_res_Inr_iff by blast
      with False rows h show thesis by (intro update) simp_all
    qed
  qed
qed

lemma apply_patch_rows_ok:
  assumes "rows_ok rows" and "apply_patch to_str source rows patch = Inr rows'"
  shows "rows_ok rows'"
  using assms(2)
proof (cases rule: apply_patch_cases)
  case (update k d pre r post r')
  obtain "rw_id r' = rw_id r" "rw_name r' = rw_name r"
    by (rule patch_row_Inr [OF update(6)]) simp
  with update assms(1) show ?thesis by (auto simp: rows_ok_def)
qed (use assms(1) in \<open>auto simp: rows_ok_def\<close>)

lemma apply_patch_frame:
  assumes "apply_patch to_str source rows patch = Inr rows'"
    and "patch_head source patch = Inr (k, d, remove)"
  shows "filter (\<lambda>r. rw_id r \<noteq> k) rows' = filter (\<lambda>r. rw_id r \<noteq> k) rows"
  using assms(1)
proof (cases rule: apply_patch_cases)
  case (update k' d' pre r post r')
  obtain "rw_id r' = rw_id r" by (rule patch_row_Inr [OF update(6)]) simp
  with update assms(2) show ?thesis by auto
qed (use assms(2) in auto)

lemma apply_patches_rows_ok:
  "rows_ok rows \<Longrightarrow> apply_patches to_str source rows patches = Inr rows' \<Longrightarrow> rows_ok rows'"
  unfolding apply_patches_def
  by (rule fold_res_invariant [where P = rows_ok]) (auto intro: apply_patch_rows_ok)

lemma flatten_rows_named:
  "flatten to_str source v = Inr rows \<Longrightarrow> list_all (\<lambda>r. rw_id r \<noteq> [] \<and> rw_name r \<noteq> []) rows"
  "flatten_entries to_str source vs = Inr rows \<Longrightarrow> list_all (\<lambda>r. rw_id r \<noteq> [] \<and> rw_name r \<noteq> []) rows"
  "flatten_entry to_str source v = Inr rows \<Longrightarrow> list_all (\<lambda>r. rw_id r \<noteq> [] \<and> rw_name r \<noteq> []) rows"
proof (induction to_str source v and to_str source vs and to_str source v
    arbitrary: rows and rows and rows rule: flatten_flatten_entries_flatten_entry.induct)
  case (5 to_str source d)
  show ?case
  proof (cases "map_of d ''entries''")
    case None
    with 5(2) show ?thesis by (auto simp: bind_res_Inr_iff dest: read_row_Inr)
  next
    case (Some children)
    with 5(2) obtain g i b rs where rs: "flatten to_str source children = Inr rs"
      and rows: "rows = map (in_group g i b) rs" by (auto simp: bind_res_Inr_iff)
    from 5(1) [OF Some rs] have "list_all (\<lambda>r. rw_id r \<noteq> [] \<and> rw_name r \<noteq> []) rs" .
    then show ?thesis unfolding rows by (simp add: list_all_iff in_group_def)
  qed
qed (auto simp: bind_res_Inr_iff dest: read_row_Inr)

lemma add_unique_rows_ok:
  assumes "rows_ok rows" and "list_all (\<lambda>r. rw_id r \<noteq> [] \<and> rw_name r \<noteq> []) new"
    and "fold_res (add_unique_row source) rows new = Inr rows'"
  shows "rows_ok rows'"
  using assms
proof (induction new arbitrary: rows)
  case (Cons r new)
  then obtain rows1 where s: "add_unique_row source rows r = Inr rows1"
    and f: "fold_res (add_unique_row source) rows1 new = Inr rows'" by (auto simp: bind_res_Inr_iff)
  from s have "rw_id r \<notin> rw_id ` set rows" and "rows1 = rows @ [r]"
    by (auto simp: add_unique_row_def list_ex_iff split: if_split_asm)
  with Cons.prems(1,2) have "rows_ok rows1" by (simp add: rows_ok_def)
  from Cons.IH [OF this _ f] Cons.prems(2) show ?case by simp
qed simp

lemma add_bundle_rows_ok:
  "rows_ok (fst acc) \<Longrightarrow> add_bundle st path acc bundle = Inr acc' \<Longrightarrow> rows_ok (fst acc')"
  unfolding add_bundle_def Let_def bind_res_Inr_iff
  by (auto dest!: flatten_rows_named(1) dest: add_unique_rows_ok)

lemma add_layer_rows_ok:
  "rows_ok (fst acc) \<Longrightarrow> add_layer st source patches acc = Inr acc' \<Longrightarrow> rows_ok (fst acc')"
  by (auto simp: add_layer_def bind_res_Inr_iff dest: apply_patches_rows_ok split: if_splits)

lemma add_patch_file_rows_ok:
  "rows_ok (fst acc) \<Longrightarrow> add_patch_file st acc path = Inr acc' \<Longrightarrow> rows_ok (fst acc')"
  by (auto simp: add_patch_file_def apply_patch_document_def Let_def bind_res_Inr_iff
      dest: apply_patches_rows_ok)

lemma resolve_rows_ok:
  assumes "resolve st profile files patches variables = Inr c"
  shows "rows_ok (cp_rows c)"
proof -
  let ?ok = "\<lambda>acc. rows_ok (fst acc)"
  from assms [unfolded resolve_def Let_def bind_res_Inr_iff] obtain bundles own a1 a2 a3 a4 where
    f1: "fold_res (add_bundle st (st_dir st @ ''/'' @ profile @ ''.json'')) ([], []) bundles = Inr a1"
    and f2: "add_layer st (''profile:'' @ profile) own a1 = Inr a2"
    and f3: "fold_res (add_patch_file st) a2 files = Inr a3"
    and f4: "add_layer st ''cli'' patches a3 = Inr a4" and c: "cp_rows c = fst a4"
    by auto
  have "?ok a1"
    by (rule fold_res_invariant [where P = ?ok, OF _ _ f1])
      (simp add: rows_ok_def, rule add_bundle_rows_ok)
  then have "?ok a2" using f2 by (rule add_layer_rows_ok)
  then have "?ok a3"
    by (rule fold_res_invariant [where P = ?ok, OF _ _ f3]) (rule add_patch_file_rows_ok)
  with f4 c add_layer_rows_ok show ?thesis by metis
qed


section \<open>Substitution\<close>

fun render :: "piece \<Rightarrow> string" where
  "render (Lit c) = [c]"
| "render (Ref ns key) = ''${'' @ ns @ '':'' @ key @ ''}''"

fun piece_ok :: "piece \<Rightarrow> bool" where
  "piece_ok (Lit c) = True"
| "piece_ok (Ref ns key) = (ns \<in> {''env'', ''aka''} \<and> is_identifier key)"

lemma match_reference_Some:
  assumes "match_reference s = Some (ns, key, rest)"
  shows "s = render (Ref ns key) @ rest" and "piece_ok (Ref ns key)"
proof -
  have split: "key' @ ''}'' @ drop 1 t = u" if "key' = takeWhile ident_char u" "t = dropWhile ident_char u"
    "starts_with ''}'' t" for key' t u
  proof -
    from that(3) obtain r where "t = ''}'' @ r" by (auto simp: starts_with_iff)
    then have "''}'' @ drop 1 t = t" by simp
    then show ?thesis unfolding that(1) by (simp only: that(2) takeWhile_dropWhile_id)
  qed
  have six: "s = pre @ drop 6 s" if "starts_with pre s" "length pre = 6" for pre
    using that by (auto simp: starts_with_iff)
  have "s = render (Ref ns key) @ rest \<and> piece_ok (Ref ns key)"
  proof (cases "starts_with ''${env:'' s")
    case True
    with assms have "key = takeWhile ident_char (drop 6 s)" "ns = ''env''" "is_identifier key"
      "starts_with ''}'' (dropWhile ident_char (drop 6 s))" "rest = drop 1 (dropWhile ident_char (drop 6 s))"
      by (auto simp: match_reference_def Let_def split: if_splits)
    with split [OF this(1) refl this(4)] six [OF True] show ?thesis by simp
  next
    case False
    with assms have aka: "starts_with ''${aka:'' s"
      by (auto simp: match_reference_def split: if_splits)
    with False assms have "key = takeWhile ident_char (drop 6 s)" "ns = ''aka''" "is_identifier key"
      "starts_with ''}'' (dropWhile ident_char (drop 6 s))" "rest = drop 1 (dropWhile ident_char (drop 6 s))"
      by (auto simp: match_reference_def Let_def split: if_splits)
    with split [OF this(1) refl this(4)] six [OF aka] show ?thesis by simp
  qed
  then show "s = render (Ref ns key) @ rest" and "piece_ok (Ref ns key)" by blast+
qed

lemma pieces_render: "concat (map render (pieces s)) = s \<and> list_all piece_ok (pieces s)"
proof (induction s rule: pieces.induct)
  case (2 c cs)
  show ?case
  proof (cases "match_reference (c # cs)")
    case None
    with 2 show ?thesis by simp
  next
    case (Some m)
    obtain ns key rest where m: "m = (ns, key, rest)" by (cases m)
    from 2(2) [OF Some m [symmetric] refl] Some match_reference_Some [of "c # cs" ns key rest] m
    show ?thesis by simp
  qed
qed simp

lemma match_reference_prefix: "match_reference s = Some m \<Longrightarrow> contains_sub ''${'' s"
proof -
  assume a: "match_reference s = Some m"
  obtain ns key rest where "m = (ns, key, rest)" by (cases m)
  with match_reference_Some(1) a have "s = [] @ ''${'' @ (ns @ '':'' @ key @ ''}'' @ rest)" by fastforce
  then show ?thesis unfolding contains_sub_iff by blast
qed

lemma pieces_plain: "\<not> contains_sub ''${'' s \<Longrightarrow> pieces s = map Lit s"
proof (induction s rule: pieces.induct)
  case (2 c cs)
  then have none: "match_reference (c # cs) = None"
    using match_reference_prefix [of "c # cs"] by (cases "match_reference (c # cs)") blast+
  from 2(3) have "\<not> contains_sub ''${'' cs" by (simp del: starts_with.simps)
  with 2(1) none show ?case by simp
qed simp

lemma literal_text_Lit: "literal_text (map Lit s) = s"
  by (induction s) auto

lemma substitute_plain: "\<not> contains_sub ''${'' s \<Longrightarrow> substitute env s vars src = Inr s"
proof -
  assume a: "\<not> contains_sub ''${'' s"
  have "map_res (replacement env vars src) (map Lit s) = Inr (map (\<lambda>c. [c]) s)"
    by (induction s) (auto simp: replacement_def)
  with a show ?thesis by (simp add: substitute_def pieces_plain literal_text_Lit)
qed

section \<open>Interpolation is structural\<close>

text \<open>The recursion on the shape of the config that \<open>_walk\<close> and \<open>_assign\<close> amount to.\<close>

fun interp_items :: "environ \<Rightarrow> path set \<Rightarrow> string dict \<Rightarrow> string \<Rightarrow> path \<Rightarrow> pyval dict \<Rightarrow> exn + pyval dict"
  and interp_value :: "environ \<Rightarrow> path set \<Rightarrow> string dict \<Rightarrow> string \<Rightarrow> path \<Rightarrow> pyval \<Rightarrow> exn + pyval" where
  "interp_items env al vars src p [] = Inr []"
| "interp_items env al vars src p ((k, v) # d) =
     bind_res (interp_value env al vars src (p @ [k]) v) (\<lambda>w.
     bind_res (interp_items env al vars src p d) (\<lambda>e. Inr ((k, w) # e)))"
| "interp_value env al vars src p (VDict e) =
     bind_res (interp_items env al vars src p e) (\<lambda>e'. Inr (VDict e'))"
| "interp_value env al vars src p v = interpolate_value env al vars src p v"

fun sub_at :: "pyval dict \<Rightarrow> path \<Rightarrow> pyval dict option" where
  "sub_at d [] = Some d"
| "sub_at d (k # p) = (case map_of d k of Some (VDict e) \<Rightarrow> sub_at e p | _ \<Rightarrow> None)"

fun put_at :: "pyval dict \<Rightarrow> path \<Rightarrow> pyval dict \<Rightarrow> pyval dict" where
  "put_at d [] e = e"
| "put_at d (k # p) e =
     (case map_of d k of Some (VDict c) \<Rightarrow> dict_set d k (VDict (put_at c p e)) | _ \<Rightarrow> d)"

lemma sub_at_Cons:
  assumes "sub_at d (k # p) = Some e"
  obtains c where "map_of d k = Some (VDict c)" and "sub_at c p = Some e"
proof (cases "map_of d k")
  case (Some v)
  with assms that show ?thesis by (cases v) auto
qed (use assms in simp)

lemma dict_set_set: "dict_set (dict_set d k v) k w = dict_set d k w"
  by (induction d k v rule: dict_set.induct) auto

lemma dict_set_same: "map_of d k = Some v \<Longrightarrow> dict_set d k v = d"
  by (induction d) auto

lemma sub_at_put: "sub_at d p = Some e \<Longrightarrow> sub_at (put_at d p x) p = Some x"
proof (induction p arbitrary: d)
  case (Cons k p)
  from Cons.prems show ?case by (rule sub_at_Cons) (simp add: dict_simps Cons.IH)
qed simp

lemma put_at_put: "sub_at d p = Some e \<Longrightarrow> put_at (put_at d p x) p y = put_at d p y"
proof (induction p arbitrary: d)
  case (Cons k p)
  from Cons.prems show ?case by (rule sub_at_Cons) (simp add: dict_simps dict_set_set Cons.IH)
qed simp

lemma put_at_same: "sub_at d p = Some e \<Longrightarrow> put_at d p e = d"
proof (induction p arbitrary: d)
  case (Cons k p)
  from Cons.prems show ?case by (rule sub_at_Cons) (simp add: dict_set_same Cons.IH)
qed simp

lemma assign_put: "sub_at d p = Some e \<Longrightarrow> assign d (p @ [k]) v = Inr (put_at d p (dict_set e k v))"
proof (induction p arbitrary: d)
  case (Cons j p)
  obtain k' q where pk: "p @ [k] = k' # q" by (cases "p @ [k]") auto
  from Cons.prems obtain c where c: "map_of d j = Some (VDict c)" "sub_at c p = Some e"
    by (rule sub_at_Cons)
  from Cons.IH [OF c(2)] have "assign c (k' # q) v = Inr (put_at c p (dict_set e k v))" by (simp add: pk)
  with c(1) show ?case by (simp add: pk dict_get_default_def)
qed simp

lemma sub_at_snoc:
  assumes "sub_at d p = Some e" and "map_of e k = Some (VDict c)"
  shows "sub_at d (p @ [k]) = Some c \<and> put_at d (p @ [k]) x = put_at d p (dict_set e k (VDict x))"
  using assms
proof (induction p arbitrary: d)
  case (Cons j p)
  from Cons.prems(1) show ?case by (rule sub_at_Cons) (simp add: Cons.IH [OF _ Cons.prems(2)])
qed simp

lemma dict_set_middle:
  "k \<notin> fst ` set pre \<Longrightarrow> dict_set (pre @ (k, v) # d) k w = pre @ (k, w) # d"
  by (induction pre) auto

lemma map_of_middle: "k \<notin> fst ` set pre \<Longrightarrow> map_of (pre @ (k, v) # d) k = Some v"
  by (induction pre) auto

lemma interpolate_leaf:
  assumes "sub_at acc p = Some e" and "map_of e k = Some v"
  shows "interpolate_field env al vars src acc (p @ [k], v) =
    bind_res (interpolate_value env al vars src (p @ [k]) v) (\<lambda>w. Inr (put_at acc p (dict_set e k w)))"
  using assms
  by (auto simp: interpolate_field_def interpolate_value_def assign_put dict_set_same put_at_same)

lemma bind_res_assoc: "bind_res (bind_res m f) g = bind_res m (\<lambda>x. bind_res (f x) g)"
  by (cases m) auto

lemma fold_walk:
  fixes env al vars src
  defines "step \<equiv> interpolate_field env al vars src"
  shows "sub_at acc p = Some (pre @ d) \<Longrightarrow> distinct (map fst (pre @ d)) \<Longrightarrow> items_wf d \<Longrightarrow>
      fold_res step acc (walk p d) =
      bind_res (interp_items env al vars src p d) (\<lambda>d'. Inr (put_at acc p (pre @ d')))"
    and "sub_at acc q = Some e \<Longrightarrow> map_of e k = Some v \<Longrightarrow> p = q @ [k] \<Longrightarrow> val_wf v \<Longrightarrow>
      fold_res step acc (walk_value p v) =
      bind_res (interp_value env al vars src p v) (\<lambda>w. Inr (put_at acc q (dict_set e k w)))"
proof (induction p d and p v arbitrary: acc pre and acc q e k rule: walk_walk_value.induct)
  case (1 p)
  then show ?case by (simp add: put_at_same)
next
  case (2 p k v d)
  have k: "k \<notin> fst ` set pre" using 2(4) by auto
  let ?e = "pre @ (k, v) # d"
  have one: "fold_res step acc (walk_value (p @ [k]) v) =
      bind_res (interp_value env al vars src (p @ [k]) v) (\<lambda>w. Inr (put_at acc p (pre @ (k, w) # d)))"
    using 2(1) [OF 2(3) map_of_middle [OF k] refl] 2(5) by (simp add: dict_set_middle [OF k])
  have two: "fold_res step (put_at acc p (pre @ (k, w) # d)) (walk p d) =
      bind_res (interp_items env al vars src p d) (\<lambda>d'. Inr (put_at acc p (pre @ (k, w) # d')))" for w
  proof -
    have "sub_at (put_at acc p (pre @ (k, w) # d)) p = Some ((pre @ [(k, w)]) @ d)"
      using sub_at_put [OF 2(3)] by simp
    from 2(2) [OF this] 2(4,5) show ?thesis by (simp add: put_at_put [OF 2(3)])
  qed
  show ?case by (simp add: fold_res_append one two bind_res_assoc)
next
  case (3 p e')
  from 3(2-5) have s: "sub_at acc p = Some ([] @ e')" by (simp add: sub_at_snoc)
  from 3(1) [OF s] 3(5) have "fold_res step acc (walk p e') =
      bind_res (interp_items env al vars src p e') (\<lambda>d'. Inr (put_at acc p d'))"
    by (simp add: dict_wf_def)
  with 3(2-4) show ?case by (simp add: bind_res_assoc sub_at_snoc)
qed (simp_all add: step_def interpolate_leaf bind_res_assoc)

lemma interpolation_structural:
  assumes "val_wf (VDict config)"
  shows "apply_interpolation env config allowlist vars src =
    interp_items env (set (map (str_split CHR ''.'') allowlist)) vars src [] config"
proof -
  have "bind_res m (\<lambda>d'. Inr d') = m" for m :: "exn + pyval dict" by (cases m) auto
  then show ?thesis
    unfolding apply_interpolation_def
    by (subst fold_walk(1) [where pre = "[]"]) (use assms in \<open>simp_all add: dict_wf_def\<close>)
qed

section \<open>Properties\<close>

text \<open>
  A resolved composition, from any profile, bundles, patch files and patches, has rows with non-empty
  and pairwise different ids and a module each.
\<close>

theorem resolve_ids_unique:
  assumes "resolve st profile files patches variables = Inr c"
  shows "distinct (map rw_id (cp_rows c)) \<and> (\<forall>r \<in> set (cp_rows c). rw_id r \<noteq> [] \<and> rw_name r \<noteq> [])"
  using resolve_rows_ok [OF assms] by (simp add: rows_ok_def list_all_iff)

definition sample_site :: site where
  "sample_site = \<lparr>st_dir = ''d'', st_files = (\<lambda>p. if p = ''d/p.json''
       then Document (VDict [(''api_version'', VInt 1), (''bundles'', VList [])]) else Unreadable),
     st_module_dir = (\<lambda>_. None), st_to_str = (\<lambda>_. [])\<rparr>"

theorem resolve_ids_unique_witness:
  "\<exists>c. resolve sample_site ''p'' [] [VDict [(''id'', VStr ''a''), (''insert'', VDict [(''name'', VStr ''m'')])]] [] = Inr c \<and>
     map rw_id (cp_rows c) = [''a''] \<and> distinct (map rw_id (cp_rows c))"
proof -
  have "map_sum (\<lambda>_. ()) (\<lambda>c. map rw_id (cp_rows c))
      (resolve sample_site ''p'' [] [VDict [(''id'', VStr ''a''), (''insert'', VDict [(''name'', VStr ''m'')])]] []) = Inr [''a'']"
    by code_simp
  then obtain c where c: "resolve sample_site ''p'' [] [VDict [(''id'', VStr ''a''), (''insert'', VDict [(''name'', VStr ''m'')])]] [] = Inr c"
    "map rw_id (cp_rows c) = [''a'']"
    by (cases "resolve sample_site ''p'' [] [VDict [(''id'', VStr ''a''), (''insert'', VDict [(''name'', VStr ''m'')])]] []") auto
  from conjunct1 [OF resolve_ids_unique [OF c(1)]] c show ?thesis by (intro exI [of _ c] conjI)
qed

definition keeps_unmentioned :: "pyval dict \<Rightarrow> row \<Rightarrow> row \<Rightarrow> bool" where
  "keeps_unmentioned d r r' =
     (rw_id r' = rw_id r \<and> rw_name r' = rw_name r \<and> rw_group r' = rw_group r \<and>
      (map_of d ''config'' = None \<longrightarrow> rw_config r' = rw_config r) \<and>
      (map_of d ''disabled'' = None \<longrightarrow> rw_disabled r' = rw_disabled r) \<and>
      (map_of d ''required'' = None \<longrightarrow> rw_required r' = rw_required r) \<and>
      (map_of d ''inject'' = None \<longrightarrow> rw_inject r' = rw_inject r) \<and>
      (map_of d ''isolate'' = None \<longrightarrow> rw_isolate r' = rw_isolate r))"

text \<open>
  An accepted patch touches only the row it names: all other rows stay, in their order; a removed row is
  gone; a patched row keeps its id, its module and its group, and every field the patch does not mention
  keeps its value.
\<close>

theorem patch_touches_one_row:
  assumes "rows_ok rows" and "apply_patch to_str source rows patch = Inr rows'"
    and "patch_head source patch = Inr (k, d, remove)"
  shows "rows_ok rows' \<and> filter (\<lambda>r. rw_id r \<noteq> k) rows' = filter (\<lambda>r. rw_id r \<noteq> k) rows \<and>
    (if remove then k \<notin> rw_id ` set rows'
     else \<exists>r'. filter (\<lambda>r. rw_id r = k) rows' = [r'] \<and>
       (\<forall>r. filter (\<lambda>r. rw_id r = k) rows = [r] \<longrightarrow> keeps_unmentioned d r r'))"
proof -
  note ok' = apply_patch_rows_ok [OF assms(1,2)] and fr = apply_patch_frame [OF assms(2,3)]
  have di: "distinct (map rw_id rows)" using assms(1) by (simp add: rows_ok_def)
  have none: "filter (\<lambda>r. rw_id r = k) xs = []" if "k \<notin> rw_id ` set xs" for xs
    using that by (auto simp: filter_empty_conv)
  from assms(2) have "if remove then k \<notin> rw_id ` set rows'
     else \<exists>r'. filter (\<lambda>r. rw_id r = k) rows' = [r'] \<and>
       (\<forall>r. filter (\<lambda>r. rw_id r = k) rows = [r] \<longrightarrow> keeps_unmentioned d r r')"
  proof (cases rule: apply_patch_cases)
    case (absent k' d')
    with assms(3) show ?thesis by simp
  next
    case (insert k' d' r)
    with assms(3) have "\<not> remove" "rw_id r = k" and "k \<notin> rw_id ` set rows" by simp_all
    from none [OF this(3)] this(1,2) insert(3) show ?thesis by simp
  next
    case (remove k' d' pre r post)
    with assms(3) di show ?thesis by auto
  next
    case (update k' d' pre r post r')
    with assms(3) have eq: "k' = k" "d' = d" "\<not> remove" by simp_all
    with update di have out: "k \<notin> rw_id ` set pre" "k \<notin> rw_id ` set post" by auto
    have "keeps_unmentioned d r r'" by (rule patch_row_Inr [OF update(6)]) (auto simp: keeps_unmentioned_def eq)
    moreover from this have "rw_id r' = k" using update(3) eq by (simp add: keeps_unmentioned_def)
    ultimately show ?thesis using update(2,3,5) eq none [OF out(1)] none [OF out(2)] by simp
  qed
  with ok' fr show ?thesis by blast
qed

definition sample_rows :: "row list" where
  "sample_rows = map (\<lambda>k. \<lparr>rw_id = k, rw_name = ''m'', rw_config = [], rw_required = False, rw_disabled = False,
     rw_inject = [], rw_isolate = [], rw_group = [], rw_doc = [], rw_source = ''f'', rw_config_source = ''f''\<rparr>) [''a'', ''b'']"

theorem patch_touches_one_row_witness:
  "\<exists>rows'. apply_patch (\<lambda>_. []) ''s'' sample_rows (VDict [(''id'', VStr ''b''), (''disabled'', VBool True)]) = Inr rows' \<and>
     filter (\<lambda>r. rw_id r \<noteq> ''b'') rows' = [hd sample_rows]"
proof -
  let ?p = "VDict [(''id'', VStr ''b''), (''disabled'', VBool True)]"
  have ok: "rows_ok sample_rows" by (simp add: rows_ok_def sample_rows_def)
  have "is_ok (apply_patch (\<lambda>_. []) ''s'' sample_rows ?p)" by code_simp
  then obtain rows' where a: "apply_patch (\<lambda>_. []) ''s'' sample_rows ?p = Inr rows'" by (auto simp: is_ok_iff)
  have "map_sum (\<lambda>_. ()) fst (patch_head ''s'' ?p) = Inr ''b''" by code_simp
  then obtain d rem where "patch_head ''s'' ?p = Inr (''b'', d, rem)" by (cases "patch_head ''s'' ?p") auto
  from patch_touches_one_row [OF ok a this] have "filter (\<lambda>r. rw_id r \<noteq> ''b'') rows' = filter (\<lambda>r. rw_id r \<noteq> ''b'') sample_rows"
    by blast
  with a show ?thesis by (simp add: sample_rows_def)
qed

text \<open>
  The walk over a config that collects paths and assigns interpolated leaves is the recursion on its
  shape: the same keys in the same order, every leaf interpolated under its own path, the first failing leaf
  raising.
\<close>

theorem interpolation_follows_shape:
  assumes "val_wf (VDict config)" and "apply_interpolation env config allowlist vars src = Inr result"
  shows "interp_items env (set (map (str_split CHR ''.'') allowlist)) vars src [] config = Inr result \<and>
    dict_keys result = dict_keys config"
proof -
  have "interp_items env al vars src p d = Inr e \<Longrightarrow> dict_keys e = dict_keys d" for al p d e
    by (induction d arbitrary: e) (auto simp: dict_keys_def bind_res_Inr_iff)
  with interpolation_structural [OF assms(1)] assms(2) show ?thesis by simp
qed

theorem interpolation_follows_shape_witness:
  "\<exists>r. apply_interpolation (\<lambda>_. Some ''v'') [(''k'', VStr ''${env:X}''), (''n'', VInt 1)] [''k''] [] ''s'' = Inr r \<and>
     dict_keys r = [''k'', ''n'']"
proof -
  have wf: "val_wf (VDict [(''k'', VStr ''${env:X}''), (''n'', VInt 1)])" by (simp add: dict_wf_def)
  have "is_ok (apply_interpolation (\<lambda>_. Some ''v'') [(''k'', VStr ''${env:X}''), (''n'', VInt 1)] [''k''] [] ''s'')"
    by code_simp
  then obtain r where r: "apply_interpolation (\<lambda>_. Some ''v'') [(''k'', VStr ''${env:X}''), (''n'', VInt 1)] [''k''] [] ''s'' = Inr r"
    by (auto simp: is_ok_iff)
  from interpolation_follows_shape [OF wf r] r show ?thesis by (simp add: dict_keys_def)
qed

text \<open>
  Splitting a text into literals and references loses nothing: the pieces render back to the text, every
  reference found has one of the two namespaces and an identifier as its key, and a text without the
  reference opener is returned unchanged by \<open>substitute\<close>.
\<close>

theorem reference_scan_roundtrip:
  "concat (map render (pieces s)) = s \<and> list_all piece_ok (pieces s) \<and>
   (contains_sub ''${'' s \<or> substitute env s vars src = Inr s)"
  using pieces_render [of s] substitute_plain [of s env vars src] by blast

end
