(* ===== verification/Effects.thy ===== *)
theory Effects
  imports Errors
begin

text \<open>
  Reversible effects (src/src/aka/core/effects.py).  An \<open>EffectStack\<close> files the undo action of
  every contribution a plugin makes and unwinds them in reverse order.  The undo actions are
  values of a type \<open>'a\<close>; running one is the parameter \<open>run\<close>, which changes the world outside
  the stack and may raise.  An \<open>Effect\<close> object has an identity (\<open>eff_id\<close>), and its \<open>disposed\<close>
  flag is membership of that identity in \<open>es_disposed\<close>, so that the flag outlives the object's
  removal from the list as it does in Python.  The disposer returned by \<open>add\<close> is a handle:
  \<open>Some id\<close>, or \<open>None\<close> for \<open>_noop\<close>.

  The locale \<open>reversible\<close> is what teardown relies on: undoing a contribution on any state
  equivalent to the one right after it leads back to a state equivalent to the one before.
  Its theorem is that unwinding a stack undoes a whole load.
\<close>

record 'a effect =
  eff_id :: nat
  eff_dispose :: 'a
  eff_label :: string
  eff_owner :: string

record 'a effect_stack =
  es_owner :: string
  es_effects :: "'a effect list"
  es_unwinding :: bool
  es_disposed :: "nat list"
  es_next :: nat

type_synonym ('a, 'w) runner = "'a \<Rightarrow> 'w \<Rightarrow> exn option \<times> 'w"

definition es_empty :: "string \<Rightarrow> 'a effect_stack" where
  "es_empty owner = \<lparr>es_owner = owner, es_effects = [], es_unwinding = False,
     es_disposed = [], es_next = 0\<rparr>"

definition es_add :: "('a, 'w) runner \<Rightarrow> 'a \<Rightarrow> string \<Rightarrow> 'a effect_stack \<Rightarrow> 'w \<Rightarrow>
    (exn + nat option) \<times> 'a effect_stack \<times> 'w" where
  "es_add run dispose label st w =
     (if es_unwinding st then
        (case run dispose w of
           (None, w') \<Rightarrow> (Inr None, st, w')
         | (Some e, w') \<Rightarrow> (Inl e, st, w'))
      else
        (Inr (Some (es_next st)),
         st\<lparr>es_effects := es_effects st @ [\<lparr>eff_id = es_next st, eff_dispose = dispose,
              eff_label = (if label = [] then ''effect'' else label), eff_owner = es_owner st\<rparr>],
            es_next := Suc (es_next st)\<rparr>, w))"

text \<open>Calling the disposer of one effect: at most once, and it leaves the list first.\<close>

definition es_dispose :: "('a, 'w) runner \<Rightarrow> 'a effect \<Rightarrow> 'a effect_stack \<Rightarrow> 'w \<Rightarrow>
    exn option \<times> 'a effect_stack \<times> 'w" where
  "es_dispose run eff st w =
     (if eff_id eff \<in> set (es_disposed st) then (None, st, w)
      else
        let st' = st\<lparr>es_disposed := eff_id eff # es_disposed st,
                     es_effects := filter (\<lambda>e. eff_id e \<noteq> eff_id eff) (es_effects st)\<rparr>;
            (r, w') = run (eff_dispose eff) w
        in (r, st', w'))"

text \<open>
  The loop of \<open>unwind\<close>, over the effects from the last registered to the first: failures that
  are exceptions are collected, the first \<open>BaseException\<close> is kept, and the loop always drains.
\<close>

fun unwind_loop :: "('a, 'w) runner \<Rightarrow> 'a effect list \<Rightarrow> nat list \<Rightarrow> 'w \<Rightarrow>
    (string \<times> exn) list \<Rightarrow> exn option \<Rightarrow> nat list \<times> 'w \<times> (string \<times> exn) list \<times> exn option" where
  "unwind_loop run [] disposed w failures abort = (disposed, w, failures, abort)"
| "unwind_loop run (e # es) disposed w failures abort =
     (if eff_id e \<in> set disposed then unwind_loop run es disposed w failures abort
      else
        (case run (eff_dispose e) w of
           (None, w') \<Rightarrow> unwind_loop run es (eff_id e # disposed) w' failures abort
         | (Some exc, w') \<Rightarrow>
             if is_exception exc
             then unwind_loop run es (eff_id e # disposed) w'
                    (failures @ [(eff_owner e @ '':'' @ eff_label e, exc)]) abort
             else unwind_loop run es (eff_id e # disposed) w' failures
                    (case abort of None \<Rightarrow> Some exc | Some a \<Rightarrow> Some a)))"

definition es_unwind :: "('a, 'w) runner \<Rightarrow> 'a effect_stack \<Rightarrow> 'w \<Rightarrow>
    exn option \<times> 'a effect_stack \<times> 'w" where
  "es_unwind run st w =
     (let (disposed, w', failures, abort) =
            unwind_loop run (rev (es_effects st)) (es_disposed st) w [] None;
          st' = st\<lparr>es_effects := [], es_unwinding := False, es_disposed := disposed\<rparr>
      in (case abort of
            Some exc \<Rightarrow> (Some exc, st', w')
          | None \<Rightarrow> if failures \<noteq> [] then (Some (DisposalErrors failures), st', w')
                    else (None, st', w')))"

definition es_live :: "'a effect_stack \<Rightarrow> string list" where
  "es_live st = map eff_label (es_effects st)"

definition es_len :: "'a effect_stack \<Rightarrow> nat" where
  "es_len st = length (es_effects st)"

section \<open>The stack invariant\<close>

definition es_wf :: "'a effect_stack \<Rightarrow> bool" where
  "es_wf st = (distinct (map eff_id (es_effects st)) \<and>
     (\<forall>e \<in> set (es_effects st). eff_id e < es_next st \<and> eff_id e \<notin> set (es_disposed st)) \<and>
     (\<forall>i \<in> set (es_disposed st). i < es_next st))"

lemma es_wf_empty [simp]: "es_wf (es_empty owner)"
  by (simp add: es_wf_def es_empty_def)

lemma es_wf_add:
  assumes "es_wf st" shows "es_wf (fst (snd (es_add run d l st w)))"
  using assms by (auto simp: es_add_def es_wf_def less_Suc_eq split: prod.splits option.splits)

lemma es_wf_dispose:
  assumes "es_wf st" and "eff_id e < es_next st"
  shows "es_wf (fst (snd (es_dispose run e st w)))"
  using assms by (auto simp: es_dispose_def es_wf_def Let_def distinct_map_filter split: prod.splits)

section \<open>What unwinding does\<close>

text \<open>The world after running every undo action of a list, whether or not it raises.\<close>

definition run_all :: "('a, 'w) runner \<Rightarrow> 'a effect list \<Rightarrow> 'w \<Rightarrow> 'w" where
  "run_all run es w = foldl (\<lambda>w e. snd (run (eff_dispose e) w)) w es"

fun raised :: "('a, 'w) runner \<Rightarrow> 'a effect list \<Rightarrow> 'w \<Rightarrow> ('a effect \<times> exn) list" where
  "raised run [] w = []"
| "raised run (e # es) w =
     (case run (eff_dispose e) w of (None, w') \<Rightarrow> raised run es w'
      | (Some exc, w') \<Rightarrow> (e, exc) # raised run es w')"

definition disposal_failures :: "('a effect \<times> exn) list \<Rightarrow> (string \<times> exn) list" where
  "disposal_failures rs = map (\<lambda>(e, exc). (eff_owner e @ '':'' @ eff_label e, exc))
     (filter (\<lambda>(e, exc). is_exception exc) rs)"

definition first_abort :: "('a effect \<times> exn) list \<Rightarrow> exn option" where
  "first_abort rs = map_option snd (find (\<lambda>(e, exc). \<not> is_exception exc) rs)"

lemma unwind_loop_result:
  assumes "distinct (map eff_id es)" and "\<forall>e \<in> set es. eff_id e \<notin> set disposed"
  shows "unwind_loop run es disposed w failures abort =
    (rev (map eff_id es) @ disposed, run_all run es w,
     failures @ disposal_failures (raised run es w),
     case abort of Some a \<Rightarrow> Some a | None \<Rightarrow> first_abort (raised run es w))"
  using assms
proof (induction es arbitrary: disposed w failures abort)
  case Nil
  then show ?case
    by (simp add: run_all_def disposal_failures_def first_abort_def split: option.splits)
next
  case (Cons e es)
  have IH: "unwind_loop run es (eff_id e # disposed) w' f a =
      (rev (map eff_id es) @ eff_id e # disposed, run_all run es w',
       f @ disposal_failures (raised run es w'),
       case a of Some b \<Rightarrow> Some b | None \<Rightarrow> first_abort (raised run es w'))" for w' f a
    by (rule Cons.IH) (use Cons.prems in \<open>auto intro: rev_image_eqI\<close>)
  obtain r w' where r: "run (eff_dispose e) w = (r, w')" by (cases "run (eff_dispose e) w")
  from Cons.prems have "eff_id e \<notin> set disposed" by simp
  with IH r show ?case
    by (cases r)
      (auto simp: run_all_def disposal_failures_def first_abort_def split: option.splits)
qed

lemma es_unwind_result:
  assumes "es_wf st"
  shows "es_unwind run st w =
    (let rs = raised run (rev (es_effects st)) w in
     (case first_abort rs of Some exc \<Rightarrow> Some exc
      | None \<Rightarrow> if disposal_failures rs \<noteq> [] then Some (DisposalErrors (disposal_failures rs)) else None),
     st\<lparr>es_effects := [], es_unwinding := False,
        es_disposed := map eff_id (es_effects st) @ es_disposed st\<rparr>,
     run_all run (rev (es_effects st)) w)"
proof -
  have "distinct (map eff_id (rev (es_effects st)))"
    "\<forall>e \<in> set (rev (es_effects st)). eff_id e \<notin> set (es_disposed st)"
    using assms by (simp_all add: es_wf_def rev_map [symmetric])
  note loop = unwind_loop_result [OF this, of run w "[]" None]
  show ?thesis
    unfolding es_unwind_def loop by (simp add: rev_map [symmetric] Let_def split: option.splits)
qed

lemma es_wf_unwind:
  assumes "es_wf st" shows "es_wf (fst (snd (es_unwind run st w)))"
  using assms by (auto simp: es_unwind_result es_wf_def)

lemma es_dispose_disposed: "eff_id e \<in> set (es_disposed st) \<Longrightarrow> es_dispose run e st w = (None, st, w)"
  by (simp add: es_dispose_def)

section \<open>Reversible contributions\<close>

locale reversible =
  fixes contribute :: "'a \<Rightarrow> 'w \<Rightarrow> 'w"
    and undo :: "('a, 'w) runner"
    and fits :: "'a \<Rightarrow> 'w \<Rightarrow> bool"
    and eqv :: "'w \<Rightarrow> 'w \<Rightarrow> bool"
  assumes eqv_refl: "eqv w w"
    and eqv_trans: "eqv u v \<Longrightarrow> eqv v w \<Longrightarrow> eqv u w"
    and undo_silent: "fits a w \<Longrightarrow> eqv v (contribute a w) \<Longrightarrow> fst (undo a v) = None"
    and undo_contribute: "fits a w \<Longrightarrow> eqv v (contribute a w) \<Longrightarrow> eqv (snd (undo a v)) w"
begin

fun load_all :: "'a list \<Rightarrow> 'w \<Rightarrow> 'w" where
  "load_all [] w = w"
| "load_all (a # as) w = load_all as (contribute a w)"

fun fits_all :: "'a list \<Rightarrow> 'w \<Rightarrow> bool" where
  "fits_all [] w = True"
| "fits_all (a # as) w = (fits a w \<and> fits_all as (contribute a w))"

lemma undo_all:
  assumes "fits_all (map eff_dispose es) w" and "eqv v (load_all (map eff_dispose es) w)"
  shows "eqv (run_all undo (rev es) v) w \<and> raised undo (rev es) v = []"
  using assms
proof (induction es arbitrary: w v)
  case Nil
  then show ?case by (simp add: run_all_def)
next
  case (Cons e es)
  let ?a = "eff_dispose e"
  from Cons have IH: "eqv (run_all undo (rev es) v) (contribute ?a w)" "raised undo (rev es) v = []"
    by auto
  have ra: "raised undo (xs @ [e]) u = raised undo xs u @ raised undo [e] (run_all undo xs u)" for xs u
    by (induction xs arbitrary: u) (auto simp: run_all_def split: prod.splits option.splits)
  from Cons.prems have "fits ?a w" by simp
  note undo_silent [OF this IH(1)] undo_contribute [OF this IH(1)]
  then show ?case
    using IH(2) by (cases "undo ?a (run_all undo (rev es) v)") (simp add: ra, simp add: run_all_def)
qed

lemma unwind_restores:
  assumes "es_wf st" and "fits_all (map eff_dispose (es_effects st)) w"
    and "eqv v (load_all (map eff_dispose (es_effects st)) w)"
  shows "fst (es_unwind undo st v) = None \<and> eqv (snd (snd (es_unwind undo st v))) w"
  using undo_all [OF assms(2,3)] assms(1)
  by (simp add: es_unwind_result disposal_failures_def first_abort_def)

end

section \<open>Properties\<close>

text \<open>
  Unwinding runs every live disposer exactly once, the last registered first, whatever they raise;
  the first abort wins over the collected failures, failures become one \<open>DisposalErrors\<close> naming each
  effect, and the stack is empty and no longer unwinding.
\<close>

theorem unwind_drains:
  assumes "es_wf st" and "es_unwind run st w = (r, st', w')"
  shows "w' = run_all run (rev (es_effects st)) w \<and> es_effects st' = [] \<and> \<not> es_unwinding st' \<and>
    (\<forall>e \<in> set (es_effects st). es_dispose run e st' w' = (None, st', w')) \<and>
    (let rs = raised run (rev (es_effects st)) w in
     r = (case first_abort rs of Some exc \<Rightarrow> Some exc
          | None \<Rightarrow> if disposal_failures rs \<noteq> [] then Some (DisposalErrors (disposal_failures rs)) else None))"
  using assms(2) by (auto simp: es_unwind_result [OF assms(1)] Let_def intro!: es_dispose_disposed)

theorem unwind_drains_witness:
  "\<exists>st' w'. es_unwind (\<lambda>a w. (if a = (1::nat) then Some (BaseExc ''stop'') else None, a # w))
      \<lparr>es_owner = ''o'', es_effects = [\<lparr>eff_id = 0, eff_dispose = 7, eff_label = ''x'', eff_owner = ''o''\<rparr>,
         \<lparr>eff_id = 1, eff_dispose = 1, eff_label = ''y'', eff_owner = ''o''\<rparr>],
        es_unwinding = False, es_disposed = [], es_next = 2\<rparr> [] = (Some (BaseExc ''stop''), st', w') \<and>
     w' = [7, 1] \<and> es_effects st' = []"
proof -
  let ?run = "\<lambda>a w. (if a = (1::nat) then Some (BaseExc ''stop'') else None, a # w)"
  let ?st = "\<lparr>es_owner = ''o'', es_effects = [\<lparr>eff_id = 0, eff_dispose = 7, eff_label = ''x'', eff_owner = ''o''\<rparr>,
         \<lparr>eff_id = 1, eff_dispose = 1, eff_label = ''y'', eff_owner = ''o''\<rparr>],
        es_unwinding = False, es_disposed = [], es_next = 2\<rparr>"
  have wf: "es_wf ?st" by (simp add: es_wf_def)
  obtain r st' w' where u: "es_unwind ?run ?st [] = (r, st', w')" by (rule prod_cases3)
  from unwind_drains [OF wf u] have "r = Some (BaseExc ''stop'')" "w' = [7, 1]" "es_effects st' = []"
    by (simp_all add: run_all_def first_abort_def)
  with u show ?thesis by blast
qed

end
