(* ===== verification/Realms.thy ===== *)
theory Realms
  imports Effects Keys
begin

text \<open>
  The service store and its isolation realms (src/src/aka/core/registry.py).  \<open>Realm\<close> objects
  point to their parent and are shared, so they live in a heap of allocation numbers; a realm is
  allocated after its parent (\<open>realms_wf\<close>).  A service value is its tag and the names of its
  callable attributes.  Listeners on the root realm are numbered; \<open>notify\<close> itself is a step of
  the plugin tree (theory Fibers), so \<open>realm_provide\<close> and \<open>realm_withdraw\<close> return the name to
  announce.

  The lemmas show that \<open>entries\<close> lists exactly what \<open>resolve\<close> finds, that a registration is
  visible where it should be and nowhere else, and (interpretation \<open>services\<close>) that withdrawing
  what a load published restores every lookup.
\<close>

record service_value =
  sv_tag :: string
  sv_callables :: "string list"

record impl =
  im_key :: service_key
  im_value :: service_value
  im_fiber :: nat
  im_entry :: string
  im_serial :: nat

record realm =
  rl_label :: string
  rl_parent :: "nat option"
  rl_isolated :: "string list"
  rl_impls :: "impl dict"
  rl_listeners :: "nat list"
  rl_serial :: nat

type_synonym realm_heap = "nat \<rightharpoonup> realm"

definition realms_wf :: "realm_heap \<Rightarrow> bool" where
  "realms_wf h = (\<forall>i r. h i = Some r \<longrightarrow> dict_wf (rl_impls r) \<and>
     (\<forall>n m. map_of (rl_impls r) n = Some m \<longrightarrow> sk_name (im_key m) = n) \<and>
     (\<forall>p. rl_parent r = Some p \<longrightarrow> p < i \<and> h p \<noteq> None \<and>
        (\<forall>n. map_of (rl_impls r) n \<noteq> None \<longrightarrow> n \<in> set (rl_isolated r))))"

definition new_realm :: "string \<Rightarrow> nat option \<Rightarrow> string list \<Rightarrow> realm" where
  "new_realm label parent isolated =
     \<lparr>rl_label = label, rl_parent = parent, rl_isolated = isolated, rl_impls = [],
      rl_listeners = [], rl_serial = 0\<rparr>"

section \<open>Topology\<close>

text \<open>The walk to the parent; the guard is the allocation order, which \<open>realms_wf\<close> provides.\<close>

definition realm_up :: "realm_heap \<Rightarrow> nat \<Rightarrow> nat option" where
  "realm_up h i = (case h i of None \<Rightarrow> None
     | Some r \<Rightarrow> (case rl_parent r of None \<Rightarrow> None | Some p \<Rightarrow> if p < i then Some p else None))"

lemma realm_up_less [dest]: "realm_up h i = Some p \<Longrightarrow> p < i"
  by (auto simp: realm_up_def split: option.splits if_splits)

function realm_root :: "realm_heap \<Rightarrow> nat \<Rightarrow> nat" where
  "realm_root h i = (case realm_up h i of None \<Rightarrow> i | Some p \<Rightarrow> realm_root h p)"
  by pat_completeness auto
termination by (relation "measure snd") auto

function owner_of :: "realm_heap \<Rightarrow> nat \<Rightarrow> string \<Rightarrow> nat" where
  "owner_of h i name =
     (case realm_up h i of None \<Rightarrow> i
      | Some p \<Rightarrow> if (case h i of Some r \<Rightarrow> name \<in> set (rl_isolated r) | None \<Rightarrow> False) then i
                  else owner_of h p name)"
  by pat_completeness auto
termination by (relation "measure (\<lambda>(h, i, n). i)") auto

declare realm_root.simps [simp del] owner_of.simps [simp del]

definition realm_isolate :: "realm_heap \<Rightarrow> nat \<Rightarrow> nat \<Rightarrow> string \<Rightarrow> string list \<Rightarrow> realm_heap" where
  \<comment> \<open>\<open>self.isolate(label, names)\<close>, allocated at \<open>i\<close>\<close>
  "realm_isolate h parent i label names = h(i \<mapsto> new_realm label (Some parent) names)"

section \<open>Reads\<close>

definition own_impl :: "realm_heap \<Rightarrow> nat \<Rightarrow> string \<Rightarrow> impl option" where
  "own_impl h i name = (case h i of None \<Rightarrow> None | Some r \<Rightarrow> map_of (rl_impls r) name)"

definition realm_resolve :: "realm_heap \<Rightarrow> nat \<Rightarrow> string \<Rightarrow> impl option" where
  "realm_resolve h i name = own_impl h (owner_of h i name) name"

function realm_entries :: "realm_heap \<Rightarrow> nat \<Rightarrow> impl dict" where
  "realm_entries h i =
     (case h i of None \<Rightarrow> []
      | Some r \<Rightarrow> dict_update
          (case realm_up h i of None \<Rightarrow> []
           | Some p \<Rightarrow> filter (\<lambda>(n, _). n \<notin> set (rl_isolated r)) (realm_entries h p))
          (rl_impls r))"
  by pat_completeness auto
termination by (relation "measure snd") auto

declare realm_entries.simps [simp del]

section \<open>Writes\<close>

definition registry_missing :: "service_value \<Rightarrow> string list" where
  "registry_missing v = filter (\<lambda>a. a \<notin> set (sv_callables v)) [''register'', ''ids'']"

definition require_registry_shape :: "service_key \<Rightarrow> service_value \<Rightarrow> string \<Rightarrow> exn + unit" where
  "require_registry_shape key v entry =
     (let missing = registry_missing v in
      if missing \<noteq> []
      then Inl (TypeError (Msg (''entry \"'' @ entry @ ''\" provides registry seam '' @ sk_name key
             @ '' with a value missing '' @ str_join '', '' missing
             @ ''(); provide a registry implementation or declare the seam single'')))
      else Inr ())"

definition bump_serial :: "realm_heap \<Rightarrow> nat \<Rightarrow> realm_heap" where
  "bump_serial h rt = (case h rt of None \<Rightarrow> h
     | Some r \<Rightarrow> h(rt \<mapsto> r\<lparr>rl_serial := Suc (rl_serial r)\<rparr>))"

definition root_serial :: "realm_heap \<Rightarrow> nat \<Rightarrow> nat" where
  "root_serial h rt = (case h rt of None \<Rightarrow> 0 | Some r \<Rightarrow> rl_serial r)"

definition put_impl :: "realm_heap \<Rightarrow> nat \<Rightarrow> string \<Rightarrow> impl \<Rightarrow> realm_heap" where
  "put_impl h i name m = (case h i of None \<Rightarrow> h
     | Some r \<Rightarrow> h(i \<mapsto> r\<lparr>rl_impls := dict_set (rl_impls r) name m\<rparr>))"

definition del_impl :: "realm_heap \<Rightarrow> nat \<Rightarrow> string \<Rightarrow> realm_heap" where
  "del_impl h i name = (case h i of None \<Rightarrow> h
     | Some r \<Rightarrow> h(i \<mapsto> r\<lparr>rl_impls := dict_del (rl_impls r) name\<rparr>))"

text \<open>\<open>provide\<close>: the new implementation with its owner realm, and the heap that holds it.\<close>

definition realm_provide :: "realm_heap \<Rightarrow> nat \<Rightarrow> service_key \<Rightarrow> service_value \<Rightarrow> nat \<Rightarrow> string \<Rightarrow>
    exn + (nat \<times> impl \<times> realm_heap)" where
  "realm_provide h i key v fiber entry =
     (let owner = owner_of h i (sk_name key) in
      (case own_impl h owner (sk_name key) of
         Some existing \<Rightarrow> Inl (DuplicateProvide (sk_name key) (im_entry existing) entry)
       | None \<Rightarrow>
         bind_res (if sk_cardinality key = ''registry'' then require_registry_shape key v entry else Inr ())
           (\<lambda>_.
             let rt = realm_root h i;
                 h1 = bump_serial h rt;
                 m = \<lparr>im_key = key, im_value = v, im_fiber = fiber, im_entry = entry,
                      im_serial = root_serial h1 rt\<rparr>
             in Inr (owner, m, put_impl h1 owner (sk_name key) m))))"

text \<open>The disposer: only if the very same implementation is still registered.\<close>

definition realm_withdraw :: "realm_heap \<Rightarrow> nat \<Rightarrow> impl \<Rightarrow> bool \<times> realm_heap" where
  "realm_withdraw h owner m =
     (let name = sk_name (im_key m) in
      (case own_impl h owner name of
         None \<Rightarrow> (False, h)
       | Some cur \<Rightarrow> if im_serial cur = im_serial m then (True, del_impl h owner name) else (False, h)))"

definition realm_on_mutate :: "realm_heap \<Rightarrow> nat \<Rightarrow> nat \<Rightarrow> realm_heap" where
  "realm_on_mutate h i listener =
     (let rt = realm_root h i in
      (case h rt of None \<Rightarrow> h
       | Some r \<Rightarrow> h(rt \<mapsto> r\<lparr>rl_listeners := rl_listeners r @ [listener]\<rparr>)))"

definition realm_unlisten :: "realm_heap \<Rightarrow> nat \<Rightarrow> nat \<Rightarrow> realm_heap" where
  "realm_unlisten h i listener =
     (let rt = realm_root h i in
      (case h rt of None \<Rightarrow> h
       | Some r \<Rightarrow> h(rt \<mapsto> r\<lparr>rl_listeners := remove1 listener (rl_listeners r)\<rparr>)))"

definition realm_listeners :: "realm_heap \<Rightarrow> nat \<Rightarrow> nat list" where
  \<comment> \<open>whom \<open>_notify\<close> calls\<close>
  "realm_listeners h i = (case h (realm_root h i) of None \<Rightarrow> [] | Some r \<Rightarrow> rl_listeners r)"

section \<open>Topology is stable\<close>

definition same_topology :: "realm_heap \<Rightarrow> realm_heap \<Rightarrow> bool" where
  "same_topology g h = (\<forall>i. map_option (\<lambda>r. (rl_parent r, rl_isolated r)) (g i)
                          = map_option (\<lambda>r. (rl_parent r, rl_isolated r)) (h i))"

lemma same_topology_refl [simp]: "same_topology h h"
  by (simp add: same_topology_def)

lemma same_topology_trans: "same_topology f g \<Longrightarrow> same_topology g h \<Longrightarrow> same_topology f h"
  by (simp add: same_topology_def)

lemma same_topology_up: "same_topology g h \<Longrightarrow> realm_up g i = realm_up h i"
  unfolding realm_up_def same_topology_def
  by (erule allE [of _ i], cases "g i"; cases "h i"; simp)

lemma same_topology_isolated:
  assumes "same_topology g h"
  shows "(case g i of Some r \<Rightarrow> n \<in> set (rl_isolated r) | None \<Rightarrow> False) =
         (case h i of Some r \<Rightarrow> n \<in> set (rl_isolated r) | None \<Rightarrow> False)"
  using assms unfolding same_topology_def
  by (elim allE [of _ i], cases "g i"; cases "h i"; simp)

lemma same_topology_owner: "same_topology g h \<Longrightarrow> owner_of g i n = owner_of h i n"
proof (induction i rule: less_induct)
  case (less i)
  show ?case
    unfolding owner_of.simps [of g i n] owner_of.simps [of h i n]
      same_topology_up [OF less.prems] same_topology_isolated [OF less.prems]
    using less.IH [OF realm_up_less] less.prems by (cases "realm_up h i") auto
qed

lemma same_topology_root: "same_topology g h \<Longrightarrow> realm_root g i = realm_root h i"
proof (induction i rule: less_induct)
  case (less i)
  show ?case
    unfolding realm_root.simps [of g i] realm_root.simps [of h i] same_topology_up [OF less.prems]
    using less.IH [OF realm_up_less] less.prems by (cases "realm_up h i") auto
qed

lemma topology_updates [simp]:
  "same_topology (bump_serial h r) h"
  "same_topology (put_impl h i n m) h"
  "same_topology (del_impl h i n) h"
  by (auto simp: same_topology_def bump_serial_def put_impl_def del_impl_def split: option.splits)

lemma own_impl_put: "h i \<noteq> None \<Longrightarrow>
    own_impl (put_impl h i n m) j k = (if j = i \<and> k = n then Some m else own_impl h j k)"
  by (auto simp: own_impl_def put_impl_def dict_simps)

lemma own_impl_del:
    "own_impl (del_impl h i n) j k = (if j = i \<and> k = n then None else own_impl h j k)"
  by (auto simp: own_impl_def del_impl_def dict_simps split: option.splits)

lemma own_impl_bump [simp]: "own_impl (bump_serial h r) j k = own_impl h j k"
  by (auto simp: own_impl_def bump_serial_def split: option.splits)

lemma put_impl_dom [simp]: "put_impl h i n m j = None \<longleftrightarrow> h j = None"
  "del_impl h i n j = None \<longleftrightarrow> h j = None" "bump_serial h r j = None \<longleftrightarrow> h j = None"
  by (auto simp: put_impl_def del_impl_def bump_serial_def split: option.splits)

lemma owner_step:
  assumes "realm_up h i = Some p"
  shows "owner_of h i n = i \<and> (\<exists>r. h i = Some r \<and> n \<in> set (rl_isolated r)) \<or> owner_of h i n = owner_of h p n"
  using assms by (auto simp: owner_of.simps [of h i n] realm_up_def split: option.splits)

lemma owner_exists: "realms_wf h \<Longrightarrow> h i \<noteq> None \<Longrightarrow> h (owner_of h i n) \<noteq> None"
proof (induction i rule: less_induct)
  case (less i)
  show ?case
  proof (cases "realm_up h i")
    case None
    then show ?thesis using less.prems by (simp add: owner_of.simps [of h i n])
  next
    case (Some p)
    from less.prems(2) obtain r where "h i = Some r" by auto
    with less.prems Some have "h p \<noteq> None"
      by (auto simp: realm_up_def realms_wf_def split: option.splits if_splits)
    with less.IH [OF realm_up_less [OF Some]] less.prems owner_step [OF Some, of n] show ?thesis
      by auto
  qed
qed

section \<open>Resolution and enumeration\<close>

lemma realm_entries_wf: "dict_wf (realm_entries h i)"
proof (induction h i rule: realm_entries.induct)
  case (1 h i)
  have "dict_wf (filter P d)" if "dict_wf d" for P and d :: "impl dict"
    using that by (simp add: dict_wf_def distinct_map_filter)
  with 1 show ?case
    by (cases "h i"; cases "realm_up h i") (simp_all add: realm_entries.simps [of h i])
qed

lemma map_of_filter_key: "map_of (filter (\<lambda>(n, _). P n) d) k = (if P k then map_of d k else None)"
  by (induction d) auto

lemma realm_up_wf:
  assumes "realms_wf h" and "h i = Some r"
  shows "realm_up h i = rl_parent r"
  using assms by (auto simp: realm_up_def realms_wf_def split: option.splits)

lemma entries_resolve:
  assumes wf: "realms_wf h" and "h i \<noteq> None"
  shows "map_of (realm_entries h i) n = realm_resolve h i n"
  using assms(2)
proof (induction i rule: less_induct)
  case (less i)
  then obtain r where r: "h i = Some r" by auto
  from wf r have wfr: "dict_wf (rl_impls r)" by (auto simp: realms_wf_def)
  note up = realm_up_wf [OF wf r]
  show ?case
  proof (cases "rl_parent r")
    case None
    then show ?thesis
      by (simp add: realm_entries.simps [of h i] realm_resolve_def owner_of.simps [of h i n] up r
          own_impl_def dict_simps wfr)
  next
    case (Some p)
    with wf r have p: "p < i" "h p \<noteq> None"
      and iso: "map_of (rl_impls r) n \<noteq> None \<Longrightarrow> n \<in> set (rl_isolated r)"
      by (auto simp: realms_wf_def)
    from less.IH [OF p] have "map_of (realm_entries h p) n = realm_resolve h p n" .
    with Some iso show ?thesis
      by (cases "map_of (rl_impls r) n")
        (auto simp: realm_entries.simps [of h i] realm_resolve_def owner_of.simps [of h i n] up r
          own_impl_def dict_simps wfr map_of_filter_key map_add_def)
  qed
qed

lemma realm_provide_Inr:
  assumes "realm_provide h i key v f e = Inr (owner, m, h')"
  shows "owner = owner_of h i (sk_name key)"
    and "own_impl h owner (sk_name key) = None"
    and "im_key m = key" and "im_value m = v" and "im_fiber m = f" and "im_entry m = e"
    and "im_serial m = root_serial (bump_serial h (realm_root h i)) (realm_root h i)"
    and "h' = put_impl (bump_serial h (realm_root h i)) owner (sk_name key) m"
  using assms by (auto simp: realm_provide_def Let_def res_simps split: option.splits)

lemma realm_provide_resolve:
  assumes wf: "realms_wf h" and i: "h i \<noteq> None"
    and ok: "realm_provide h i key v f e = Inr (owner, m, h')"
  shows "realm_resolve h' j n =
    (if n = sk_name key \<and> owner_of h j n = owner then Some m else realm_resolve h j n)"
proof -
  note P = realm_provide_Inr [OF ok]
  have top: "same_topology h' h"
    unfolding P(8) by (rule same_topology_trans [OF topology_updates(2) topology_updates(1)])
  from owner_exists [OF wf i, of "sk_name key"] P(1)
  have "bump_serial h (realm_root h i) owner \<noteq> None" by simp
  then have "own_impl h' j k = (if j = owner \<and> k = sk_name key then Some m else own_impl h j k)" for j k
    by (simp add: P(8) own_impl_put)
  then show ?thesis by (auto simp: realm_resolve_def same_topology_owner [OF top])
qed

lemma realm_provide_self:
  assumes "realms_wf h" and "h i \<noteq> None" and "realm_provide h i key v f e = Inr (owner, m, h')"
  shows "realm_resolve h' i (sk_name key) = Some m"
  using realm_provide_resolve [OF assms, of i "sk_name key"] realm_provide_Inr(1) [OF assms(3)] by simp

lemma realms_wf_put:
  assumes "realms_wf h" and "sk_name (im_key m) = n"
    and "\<And>r p. h i = Some r \<Longrightarrow> rl_parent r = Some p \<Longrightarrow> n \<in> set (rl_isolated r)"
  shows "realms_wf (put_impl h i n m)"
  using assms unfolding realms_wf_def put_impl_def
  by (auto simp: dict_simps split: option.splits)

lemma realms_wf_del: "realms_wf h \<Longrightarrow> realms_wf (del_impl h i n)"
  unfolding realms_wf_def del_impl_def by (auto simp: dict_simps split: option.splits)

lemma realms_wf_bump: "realms_wf h \<Longrightarrow> realms_wf (bump_serial h r)"
  unfolding realms_wf_def bump_serial_def by (auto split: option.splits)

lemma owner_isolates:
  "h (owner_of h i n) = Some r \<Longrightarrow> realm_up h (owner_of h i n) = Some p \<Longrightarrow> n \<in> set (rl_isolated r)"
proof (induction i rule: less_induct)
  case (less i)
  show ?case
  proof (cases "realm_up h i")
    case None
    with less.prems show ?thesis by (simp add: owner_of.simps [of h i n])
  next
    case (Some q)
    with less.IH [OF realm_up_less [OF Some]] less.prems owner_step [OF Some, of n] show ?thesis
      by auto
  qed
qed

lemma realms_wf_provide:
  assumes wf: "realms_wf h" and ok: "realm_provide h i key v f e = Inr (owner, m, h')"
  shows "realms_wf h'"
proof -
  note P = realm_provide_Inr [OF ok]
  show ?thesis unfolding P(8)
  proof (rule realms_wf_put [OF realms_wf_bump [OF wf]])
    show "sk_name (im_key m) = sk_name key" by (simp add: P(3))
    fix r p assume r: "bump_serial h (realm_root h i) owner = Some r" and p: "rl_parent r = Some p"
    from r obtain r0 where r0: "h owner = Some r0" "rl_parent r0 = rl_parent r" "rl_isolated r0 = rl_isolated r"
      by (auto simp: bump_serial_def split: option.splits if_splits)
    with realm_up_wf [OF wf r0(1)] p have "realm_up h owner = Some p" by simp
    with owner_isolates [of h i "sk_name key" r0 p] r0 P(1) show "sk_name key \<in> set (rl_isolated r)"
      by simp
  qed
qed

lemma realm_withdraw_topology: "same_topology (snd (realm_withdraw h owner m)) h"
  by (auto simp: realm_withdraw_def Let_def split: option.splits)

lemma realms_wf_withdraw: "realms_wf h \<Longrightarrow> realms_wf (snd (realm_withdraw h owner m))"
  by (auto simp: realm_withdraw_def Let_def realms_wf_del split: option.splits)

lemma realm_withdraw_resolve:
  assumes "realm_withdraw h owner m = (hit, h')"
  shows "realm_resolve h' j n =
    (if hit \<and> n = sk_name (im_key m) \<and> owner_of h j n = owner then None else realm_resolve h j n)"
proof -
  from realm_withdraw_topology [of h owner m] assms have "same_topology h' h" by simp
  with assms show ?thesis
    by (auto simp: realm_resolve_def same_topology_owner realm_withdraw_def Let_def own_impl_del
        split: option.splits if_splits)
qed

section \<open>Published services are withdrawn without a trace\<close>

type_synonym service_act = "nat \<times> service_key \<times> service_value \<times> nat \<times> string \<times> nat"
  \<comment> \<open>realm, key, value, fiber, row and the serial the registration will get\<close>

definition service_do :: "service_act \<Rightarrow> realm_heap \<Rightarrow> realm_heap" where
  "service_do a h = (case a of (i, key, v, f, e, _) \<Rightarrow>
     (case realm_provide h i key v f e of Inl _ \<Rightarrow> h | Inr (_, _, h') \<Rightarrow> h'))"

definition service_undo :: "service_act \<Rightarrow> realm_heap \<Rightarrow> exn option \<times> realm_heap" where
  "service_undo a h = (case a of (i, key, v, f, e, s) \<Rightarrow>
     (None, snd (realm_withdraw h (owner_of h i (sk_name key))
        \<lparr>im_key = key, im_value = v, im_fiber = f, im_entry = e, im_serial = s\<rparr>)))"

definition service_fits :: "service_act \<Rightarrow> realm_heap \<Rightarrow> bool" where
  "service_fits a h = (case a of (i, key, v, f, e, s) \<Rightarrow>
     h (owner_of h i (sk_name key)) \<noteq> None \<and>
     (case realm_provide h i key v f e of Inl _ \<Rightarrow> False | Inr (_, m, _) \<Rightarrow> im_serial m = s))"

definition service_eqv :: "realm_heap \<Rightarrow> realm_heap \<Rightarrow> bool" where
  \<comment> \<open>the same realms holding the same implementations; serial counters may differ\<close>
  "service_eqv g h = (same_topology g h \<and> (\<forall>i n. own_impl g i n = own_impl h i n))"

interpretation services: reversible service_do service_undo service_fits service_eqv
proof
  fix a v w
  assume fits: "service_fits a w" and eqv: "service_eqv v (service_do a w)"
  obtain i key x f e s where a: "a = (i, key, x, f, e, s)" by (cases a) auto
  from fits a obtain owner m w' where ok: "realm_provide w i key x f e = Inr (owner, m, w')"
    and s: "im_serial m = s" and ex: "w (owner_of w i (sk_name key)) \<noteq> None"
    by (auto simp: service_fits_def split: sum.splits prod.splits)
  note P = realm_provide_Inr [OF ok]
  show "fst (service_undo a v) = None" by (simp add: service_undo_def a)
  have top: "same_topology w' w"
    unfolding P(8) by (rule same_topology_trans [OF topology_updates(2) topology_updates(1)])
  from eqv a ok have vw: "service_eqv v w'" by (simp add: service_do_def)
  then have topv: "same_topology v w" using top by (auto simp: service_eqv_def same_topology_def)
  have own': "own_impl w' j k = (if j = owner \<and> k = sk_name key then Some m else own_impl w j k)" for j k
    unfolding P(8) using ex P(1) by (simp add: own_impl_put)
  have "owner_of v i (sk_name key) = owner" using same_topology_owner [OF topv] P(1) by simp
  moreover have "own_impl v owner (sk_name key) = Some m"
    using vw own' by (simp add: service_eqv_def)
  ultimately show "service_eqv (snd (service_undo a v)) w"
    using vw own' P(2) s topv
    by (auto simp: service_eqv_def service_undo_def a realm_withdraw_def Let_def own_impl_del
        same_topology_trans [OF topology_updates(3)])
qed (auto simp: service_eqv_def same_topology_def)

section \<open>Properties\<close>

text \<open>
  A service provided in a realm becomes visible in exactly the realms whose lookups of that name end
  in the same owning realm; every other name and realm resolves as before, and the realm heap stays
  well formed.
\<close>

theorem provide_visibility:
  assumes "realms_wf h" and "h i \<noteq> None" and "realm_provide h i key v f e = Inr (owner, m, h')"
  shows "realms_wf h' \<and> im_value m = v \<and> im_fiber m = f \<and> realm_resolve h i (sk_name key) = None \<and>
    (\<forall>j n. realm_resolve h' j n =
       (if n = sk_name key \<and> owner_of h j n = owner_of h i n then Some m else realm_resolve h j n))"
proof -
  note P = realm_provide_Inr [OF assms(3)]
  from P(1,2) have "realm_resolve h i (sk_name key) = None" by (simp add: realm_resolve_def)
  with realms_wf_provide [OF assms(1,3)] realm_provide_resolve [OF assms] P(1,4,5) show ?thesis by auto
qed

definition sample_realms :: realm_heap where
  \<comment> \<open>a root realm and one that isolates \<open>s\<close>\<close>
  "sample_realms = [0 \<mapsto> new_realm ''root'' None [], 1 \<mapsto> new_realm ''x'' (Some 0) [''s'']]"

definition sample_service :: service_key where
  "sample_service = \<lparr>sk_name = ''s'', sk_definition = ''d'', sk_cardinality = ''single'', sk_module = ''m'',
     sk_version = VInt 1, sk_doc = []\<rparr>"

lemma sample_realms_wf: "realms_wf sample_realms"
  by (simp add: realms_wf_def sample_realms_def new_realm_def)

lemma sample_realms_walk:
  "owner_of sample_realms 1 ''s'' = 1" "owner_of sample_realms 0 ''s'' = 0" "realm_root sample_realms 1 = 0"
proof -
  have up: "realm_up sample_realms 1 = Some 0" "realm_up sample_realms 0 = None"
    by (simp_all add: realm_up_def sample_realms_def new_realm_def)
  have at: "sample_realms 1 = Some (new_realm ''x'' (Some 0) [''s''])" by (simp add: sample_realms_def)
  show "owner_of sample_realms 1 ''s'' = 1"
    by (subst owner_of.simps) (simp only: up at option.case new_realm_def realm.select_convs list.set, simp)
  show "owner_of sample_realms 0 ''s'' = 0" by (subst owner_of.simps) (simp add: up)
  have "realm_root sample_realms 0 = 0" by (subst realm_root.simps) (simp add: up)
  then show "realm_root sample_realms 1 = 0" by (subst realm_root.simps) (simp only: up option.case)
qed

theorem provide_visibility_witness:
  "\<exists>owner m h'. realm_provide sample_realms 1 sample_service \<lparr>sv_tag = ''v'', sv_callables = []\<rparr> 5 ''e'' = Inr (owner, m, h') \<and>
     realm_resolve h' 1 ''s'' = Some m \<and> realm_resolve h' 0 ''s'' = None"
proof -
  note o = sample_realms_walk
  then obtain owner m h' where p: "realm_provide sample_realms 1 sample_service \<lparr>sv_tag = ''v'', sv_callables = []\<rparr> 5 ''e'' = Inr (owner, m, h')"
    by (simp add: realm_provide_def sample_service_def Let_def own_impl_def sample_realms_def new_realm_def)
  have "realm_resolve sample_realms 0 ''s'' = None"
    by (simp add: realm_resolve_def o own_impl_def) (simp add: sample_realms_def new_realm_def)
  moreover have "sample_realms 1 \<noteq> None" by (simp add: sample_realms_def)
  ultimately show ?thesis
    using provide_visibility [OF sample_realms_wf _ p] o p by (auto simp: sample_service_def)
qed

text \<open>
  \<open>entries\<close> lists exactly what \<open>resolve\<close> finds, in every realm of a well-formed heap.
\<close>

theorem entries_list_resolve:
  assumes "realms_wf h" and "h i \<noteq> None"
  shows "dict_wf (realm_entries h i) \<and> map_of (realm_entries h i) n = realm_resolve h i n"
  using realm_entries_wf entries_resolve [OF assms] by blast

theorem entries_list_resolve_witness:
  "map_of (realm_entries sample_realms 1) ''s'' = realm_resolve sample_realms 1 ''s''"
  using entries_list_resolve [OF sample_realms_wf, of 1 "''s''"] by (simp add: sample_realms_def)

text \<open>
  Whatever services a load published, unwinding its effect stack withdraws them without raising and
  every realm resolves every name as it did before the load.
\<close>

theorem publish_withdraw_restores:
  assumes "es_wf st" and "services.fits_all (map eff_dispose (es_effects st)) h"
    and "es_unwind service_undo st (services.load_all (map eff_dispose (es_effects st)) h) = (r, st', h')"
  shows "r = None \<and> (\<forall>i n. realm_resolve h' i n = realm_resolve h i n)"
proof -
  have "service_eqv (services.load_all (map eff_dispose (es_effects st)) h)
      (services.load_all (map eff_dispose (es_effects st)) h)" by (simp add: service_eqv_def)
  from services.unwind_restores [OF assms(1,2) this] assms(3) have "r = None" "service_eqv h' h" by simp_all
  then show ?thesis using same_topology_owner [of h' h] by (simp add: service_eqv_def realm_resolve_def)
qed

theorem publish_withdraw_restores_witness:
  "\<exists>st' h'. es_unwind service_undo
       \<lparr>es_owner = ''o'', es_effects = [\<lparr>eff_id = 0,
          eff_dispose = (1, sample_service, \<lparr>sv_tag = ''v'', sv_callables = []\<rparr>, 5, ''e'', 1), eff_label = ''x'', eff_owner = ''o''\<rparr>],
         es_unwinding = False, es_disposed = [], es_next = 1\<rparr>
       (service_do (1, sample_service, \<lparr>sv_tag = ''v'', sv_callables = []\<rparr>, 5, ''e'', 1) sample_realms) = (None, st', h') \<and>
     realm_resolve h' 1 ''s'' = realm_resolve sample_realms 1 ''s''"
proof -
  let ?a = "(1, sample_service, \<lparr>sv_tag = ''v'', sv_callables = []\<rparr>, 5, ''e'', 1) :: service_act"
  let ?st = "\<lparr>es_owner = ''o'', es_effects = [\<lparr>eff_id = 0, eff_dispose = ?a, eff_label = ''x'', eff_owner = ''o''\<rparr>],
         es_unwinding = False, es_disposed = [], es_next = 1\<rparr>"
  have wf: "es_wf ?st" by (simp add: es_wf_def)
  note o = sample_realms_walk
  have f: "services.fits_all (map eff_dispose (es_effects ?st)) sample_realms"
    using o by (simp add: service_fits_def realm_provide_def sample_service_def Let_def own_impl_def
        sample_realms_def new_realm_def root_serial_def bump_serial_def)
  obtain r st' h' where u: "es_unwind service_undo ?st (services.load_all (map eff_dispose (es_effects ?st)) sample_realms) = (r, st', h')"
    by (rule prod_cases3)
  from publish_withdraw_restores [OF wf f u] u show ?thesis by auto
qed

end
