(* ===== verification/Fibers.thy ===== *)
theory Fibers
  imports Compositions Realms
begin

text \<open>
  Fibers and the plugin tree (src/src/aka/core/fiber.py, with the parts of
  src/src/aka/core/context.py a plugin's \<open>apply\<close> uses): mounting, the dependency epoch, loading,
  unloading, disposal and the settle loop.

  A \<open>Fiber\<close> and a \<open>Realm\<close> are shared objects, so both live in heaps, at their \<open>uid\<close> and their
  allocation number; the fields of \<open>Root\<close> are the record \<open>world\<close>.  What a plugin does is a
  parameter: \<open>pr_apply\<close> gives, for the world and the fiber, a program (\<open>script\<close>) of the calls
  \<open>apply\<close> makes on its context, each with a continuation that sees the call's result or
  exception, ending in a return (with or without a cleanup) or a raise.  Cleanups are numbered
  and \<open>pr_cleanup\<close> says whether one raises; they do not touch the tree.

  Everything here runs inside \<open>settle\<close> or during the disposal of the whole tree, where a changed
  service only enqueues its dependents; \<open>host_provide\<close> and \<open>restart\<close> are the two operations a
  host calls outside, and settle themselves.  Listeners on the core's own events are not
  modelled, except the rewriting of a config (\<open>pr_config\<close>).
\<close>

section \<open>The state\<close>

datatype fstate = Pending | Loading | Active | Unloading | Disposed | Failed

datatype undo =
    UProvide nat nat impl       \<comment> \<open>fiber, owning realm, registration\<close>
  | UCleanup nat

record fiber =
  fb_decl :: plugin_decl
  fb_raw :: "pyval dict"
  fb_resolved :: bool
  fb_entry :: string
  fb_realm :: nat
  fb_required :: bool
  fb_parent :: "nat option"
  fb_children :: "nat list"
  fb_effects :: "undo effect_stack"
  fb_provided :: "string list"
  fb_config :: "pyval dict option"
  fb_state :: fstate
  fb_error :: "exn option"
  fb_epoch :: "nat list option"       \<comment> \<open>\<open>None\<close> is \<open>INACTIVE\<close>\<close>
  fb_restart :: bool

record transition =
  ft_uid :: nat
  ft_entry :: string
  ft_previous :: fstate
  ft_current :: fstate
  ft_error :: "exn option"

record world =
  w_seams :: "service_key dict"
  w_variables :: "string dict"
  w_rounds :: nat
  w_realms :: realm_heap
  w_next_realm :: nat
  w_heap :: "nat \<rightharpoonup> fiber"
  w_table :: "nat dict"               \<comment> \<open>\<open>root.fibers\<close>: row id to fiber\<close>
  w_uid :: nat
  w_pending :: "nat list"
  w_settling :: bool
  w_disposing :: bool
  w_transitions :: "transition list"
  w_errors :: "(string \<times> exn) list"
  w_order :: "nat list"
  w_closed :: bool

definition root_world :: "service_key dict \<Rightarrow> string dict \<Rightarrow> nat \<Rightarrow> world" where
  "root_world seams variables rounds =
     \<lparr>w_seams = seams, w_variables = variables, w_rounds = rounds,
      w_realms = realm_on_mutate [0 \<mapsto> new_realm ''root'' None []] 0 0, w_next_realm = 1,
      w_heap = Map.empty, w_table = [], w_uid = 0, w_pending = [], w_settling = False,
      w_disposing = False, w_transitions = [], w_errors = [], w_order = [], w_closed = False\<rparr>"

datatype script =
    Return "nat option"
  | Raise exn
  | Provide service_key service_value "exn + unit \<Rightarrow> script"
  | Effect nat string script
  | Plugin plugin_decl "pyval dict" string bool "string list" "exn + nat \<Rightarrow> script"
  | Get string "impl option \<Rightarrow> script"
  | Restart nat script

datatype verdict = Accepts | Rejects string | Aborts exn

record plugins =
  pr_apply :: "world \<Rightarrow> nat \<Rightarrow> script"
  pr_cleanup :: "nat \<Rightarrow> exn option"
  pr_config :: "string \<Rightarrow> pyval dict \<Rightarrow> exn + pyval dict"
  pr_validator :: "string \<Rightarrow> pyval dict \<Rightarrow> verdict"
  pr_env :: environ

definition upd :: "nat \<Rightarrow> (fiber \<Rightarrow> fiber) \<Rightarrow> world \<Rightarrow> world" where
  "upd u f w = (case w_heap w u of None \<Rightarrow> w | Some b \<Rightarrow> w\<lparr>w_heap := (w_heap w)(u \<mapsto> f b)\<rparr>)"

abbreviation fib :: "world \<Rightarrow> nat \<Rightarrow> fiber" where
  "fib w u \<equiv> the (w_heap w u)"

section \<open>Observation\<close>

definition transition_to :: "nat \<Rightarrow> fstate \<Rightarrow> world \<Rightarrow> world" where
  \<comment> \<open>\<open>_transition\<close> and \<open>observe\<close>\<close>
  "transition_to u st w =
     (let t = \<lparr>ft_uid = u, ft_entry = fb_entry (fib w u), ft_previous = fb_state (fib w u),
               ft_current = st, ft_error = fb_error (fib w u)\<rparr>;
          w1 = upd u (\<lambda>b. b\<lparr>fb_state := st\<rparr>) w
      in w1\<lparr>w_transitions := w_transitions w1 @ [t],
            w_order := (if st = Active then filter (\<lambda>v. v \<noteq> u) (w_order w1) @ [u] else w_order w1)\<rparr>)"

definition report :: "string \<Rightarrow> exn \<Rightarrow> world \<Rightarrow> world" where
  "report source e w = w\<lparr>w_errors := w_errors w @ [(source, e)]\<rparr>"

definition fail_fiber :: "nat \<Rightarrow> exn \<Rightarrow> world \<Rightarrow> world" where
  "fail_fiber u e w =
     report (''entry '' @ fb_entry (fib w u)) e
       (transition_to u Failed (upd u (\<lambda>b. b\<lparr>fb_error := Some e, fb_epoch := None\<rparr>) w))"

section \<open>The epoch\<close>

definition unsatisfied :: "world \<Rightarrow> fiber \<Rightarrow> string list" where
  "unsatisfied w b = filter (\<lambda>n. realm_resolve (w_realms w) (fb_realm b) n = None) (dc_inject (fb_decl b))"

definition service_serial :: "world \<Rightarrow> fiber \<Rightarrow> string \<Rightarrow> nat option" where
  "service_serial w b n = map_option im_serial (realm_resolve (w_realms w) (fb_realm b) n)"

definition compute_epoch :: "world \<Rightarrow> fiber \<Rightarrow> nat list option" where
  "compute_epoch w b =
     (let required = map (service_serial w b) (sort (dc_inject (fb_decl b)));
          optional = map (service_serial w b) (sort (dc_optional (fb_decl b)))
      in if None \<in> set required then None
         else Some (map the required @ map (\<lambda>s. case s of None \<Rightarrow> 0 | Some i \<Rightarrow> i) optional))"

section \<open>Waking dependents\<close>

definition enqueue :: "nat \<Rightarrow> world \<Rightarrow> world" where
  "enqueue u w = w\<lparr>w_pending := w_pending w @ [u]\<rparr>"

definition depends_on :: "world \<Rightarrow> string \<Rightarrow> nat \<Rightarrow> bool" where
  "depends_on w name u = (name \<in> set (dc_inject (fb_decl (fib w u))) \<or>
     name \<in> set (dc_optional (fb_decl (fib w u))))"

definition dependents :: "world \<Rightarrow> string \<Rightarrow> nat list" where
  "dependents w name = filter (depends_on w name) (map snd (w_table w))"

definition service_changed :: "nat \<Rightarrow> string \<Rightarrow> world \<Rightarrow> world" where
  \<comment> \<open>\<open>_notify\<close> of the root realm, calling \<open>_service_changed\<close> while settling or disposing\<close>
  "service_changed realm name w =
     (if realm_listeners (w_realms w) realm = [] then w
      else w\<lparr>w_pending := w_pending w @ dependents w name\<rparr>)"

section \<open>Disposal\<close>

definition run_undo :: "plugins \<Rightarrow> undo \<Rightarrow> world \<Rightarrow> exn option \<times> world" where
  "run_undo P a w =
     (case a of
        UProvide u owner m \<Rightarrow>
          let name = sk_name (im_key m);
              w1 = upd u (\<lambda>b. b\<lparr>fb_provided := filter (\<lambda>n. n \<noteq> name) (fb_provided b)\<rparr>) w;
              (gone, realms) = realm_withdraw (w_realms w1) owner m;
              w2 = w1\<lparr>w_realms := realms\<rparr>
          in (None, if gone then service_changed owner name w2 else w2)
      | UCleanup i \<Rightarrow> (pr_cleanup P i, w))"

definition first_error :: "exn option \<Rightarrow> exn option \<Rightarrow> exn option" where
  "first_error a b = (case a of None \<Rightarrow> b | Some e \<Rightarrow> Some e)"

definition unwind_effects :: "plugins \<Rightarrow> nat \<Rightarrow> world \<Rightarrow> exn option \<times> world" where
  \<comment> \<open>the second half of \<open>_discard_effects\<close>: clear, unwind, and report the collected failures\<close>
  "unwind_effects P u w =
     (let w1 = upd u (\<lambda>b. b\<lparr>fb_provided := []\<rparr>) w;
          (r, st, w2) = es_unwind (run_undo P) (fb_effects (fib w1 u)) w1;
          w3 = upd u (\<lambda>b. b\<lparr>fb_effects := st\<rparr>) w2
      in case r of
           None \<Rightarrow> (None, w3)
         | Some (DisposalErrors fs) \<Rightarrow>
             (None, report (fb_entry (fib w3 u) @ '' teardown'') (DisposalErrors fs) w3)
         | Some e \<Rightarrow> (Some e, w3))"

definition forget :: "nat \<Rightarrow> world \<Rightarrow> world" where
  "forget u w = (let entry = fb_entry (fib w u) in
     if map_of (w_table w) entry = Some u then w\<lparr>w_table := dict_del (w_table w) entry\<rparr> else w)"

definition retire :: "nat \<Rightarrow> world \<Rightarrow> world" where
  \<comment> \<open>the \<open>finally\<close> of \<open>dispose\<close>\<close>
  "retire u w =
     (let w1 = (case fb_parent (fib w u) of None \<Rightarrow> w
                | Some p \<Rightarrow> upd p (\<lambda>b. b\<lparr>fb_children := remove1 u (fb_children b)\<rparr>) w)
      in forget u (transition_to u Disposed w1))"

text \<open>
  Children are allocated after their parent and before \<open>cap\<close>; the guard makes the recursion over
  the tree visible to the termination check, and \<open>tree_ok\<close> below shows it never skips a child.
\<close>

function dispose_upto :: "plugins \<Rightarrow> nat \<Rightarrow> nat \<Rightarrow> world \<Rightarrow> exn option \<times> world" where
  "dispose_upto P cap u w =
     (if fb_state (fib w u) = Disposed then (None, w)
      else
        let failed = (fb_state (fib w u) = Failed);
            w1 = (if failed then w else transition_to u Unloading w);
            (abort, w2) = foldl (\<lambda>s c. let (r, v') = dispose_upto P cap c (snd s) in (first_error (fst s) r, v'))
               (None, w1) (filter (\<lambda>c. u < c \<and> c \<le> cap) (fb_children (fib w1 u)));
            (r, w3) = unwind_effects P u w2;
            err = first_error abort r;
            w4 = (if failed \<or> err \<noteq> None then w3
                  else transition_to u Pending (upd u (\<lambda>b. b\<lparr>fb_config := None\<rparr>) w3))
        in (err, retire u w4))"
  by pat_completeness auto

termination by (relation "measure (\<lambda>(P, cap, u, w). cap - u)") auto

declare dispose_upto.simps [simp del]

definition dispose_fiber :: "plugins \<Rightarrow> nat \<Rightarrow> world \<Rightarrow> exn option \<times> world" where
  "dispose_fiber P u w = dispose_upto P (w_uid w) u w"

definition dispose_children :: "plugins \<Rightarrow> nat list \<Rightarrow> world \<Rightarrow> exn option \<times> world" where
  "dispose_children P cs w =
     foldl (\<lambda>s c. let (r, v') = dispose_fiber P c (snd s) in (first_error (fst s) r, v')) (None, w) cs"

definition discard_effects :: "plugins \<Rightarrow> nat \<Rightarrow> world \<Rightarrow> exn option \<times> world" where
  "discard_effects P u w =
     (let (abort, w1) = dispose_children P (fb_children (fib w u)) w;
          (r, w2) = unwind_effects P u w1
      in (first_error abort r, w2))"

definition unload :: "plugins \<Rightarrow> nat \<Rightarrow> world \<Rightarrow> exn option \<times> world" where
  "unload P u w =
     (let (err, w1) = discard_effects P u (transition_to u Unloading w)
      in if err \<noteq> None then (err, w1)
         else (None, transition_to u Pending (upd u (\<lambda>b. b\<lparr>fb_config := None\<rparr>) w1)))"

section \<open>Mounting\<close>

definition isolation_names :: "world \<Rightarrow> string list \<Rightarrow> exn + string list" where
  "isolation_names w names =
     (let unknown = sorted_set (list_diff names (dict_keys (w_seams w))) in
      if [] \<in> set names then Inl (ValueError (Msg ''isolation names must be non-empty strings''))
      else if unknown \<noteq> [] then Inl (UnknownService (str_join '', '' unknown))
      else Inr names)"

definition new_fiber :: "plugin_decl \<Rightarrow> pyval dict \<Rightarrow> bool \<Rightarrow> string \<Rightarrow> nat \<Rightarrow> bool \<Rightarrow> nat option \<Rightarrow> fiber" where
  "new_fiber d config resolved entry realm required parent =
     \<lparr>fb_decl = d, fb_raw = config, fb_resolved = resolved, fb_entry = entry, fb_realm = realm,
      fb_required = required, fb_parent = parent, fb_children = [], fb_effects = es_empty entry,
      fb_provided = [], fb_config = None, fb_state = Pending, fb_error = None, fb_epoch = None,
      fb_restart = False\<rparr>"

definition base_realm :: "world \<Rightarrow> nat option \<Rightarrow> nat" where
  "base_realm w parent = (case parent of None \<Rightarrow> 0 | Some p \<Rightarrow> fb_realm (fib w p))"

definition realm_for :: "nat \<Rightarrow> string \<Rightarrow> string list \<Rightarrow> world \<Rightarrow> nat \<times> world" where
  "realm_for base entry isolated w =
     (if isolated = [] then (base, w)
      else (w_next_realm w, w\<lparr>w_realms := realm_isolate (w_realms w) base (w_next_realm w) entry isolated,
                              w_next_realm := Suc (w_next_realm w)\<rparr>))"

definition admit :: "fiber \<Rightarrow> world \<Rightarrow> world" where
  \<comment> \<open>the \<open>Fiber\<close> constructor, and its entry in the table and the queue\<close>
  "admit b w =
     (let u = Suc (w_uid w);
          w1 = w\<lparr>w_uid := u, w_heap := (w_heap w)(u \<mapsto> b)\<rparr>;
          w2 = (case fb_parent b of None \<Rightarrow> w1
                | Some p \<Rightarrow> upd p (\<lambda>x. x\<lparr>fb_children := fb_children x @ [u]\<rparr>) w1)
      in enqueue u (w2\<lparr>w_table := dict_set (w_table w2) (fb_entry b) u\<rparr>))"

definition mount :: "plugin_decl \<Rightarrow> pyval dict \<Rightarrow> string \<Rightarrow> bool \<Rightarrow> bool \<Rightarrow> string list \<Rightarrow> nat option \<Rightarrow> world \<Rightarrow>
    (exn + nat) \<times> world" where
  "mount d config entry required resolved isolate parent w =
     (case isolation_names w isolate of
        Inl e \<Rightarrow> (Inl e, w)
      | Inr isolated \<Rightarrow>
        let entry_id = (if entry \<noteq> [] then entry else dc_name d) in
        if map_of (w_table w) entry_id \<noteq> None
        then (Inl (ConfigError entry_id (Msg ''duplicate composition row id'')), w)
        else
          let (realm, w1) = realm_for (base_realm w parent) entry_id isolated w
          in (Inr (Suc (w_uid w1)),
              admit (new_fiber d config resolved entry_id realm required parent) w1))"

section \<open>What a plugin may call\<close>

definition seam_key :: "world \<Rightarrow> service_key \<Rightarrow> exn + service_key" where
  \<comment> \<open>\<open>Context._key\<close>\<close>
  "seam_key w key =
     (case map_of (w_seams w) (sk_name key) of
        None \<Rightarrow> Inl (UnknownService (sk_name key))
      | Some k \<Rightarrow> if k \<noteq> key then Inl (UnknownService (sk_name key @ '' (conflicting token metadata)''))
                  else Inr k)"

definition file_effect :: "plugins \<Rightarrow> nat \<Rightarrow> undo \<Rightarrow> string \<Rightarrow> world \<Rightarrow> exn option \<times> world" where
  \<comment> \<open>\<open>fiber.effects.add\<close>\<close>
  "file_effect P u a label w =
     (case es_add (run_undo P) a label (fb_effects (fib w u)) w of
        (Inl e, st, w1) \<Rightarrow> (Some e, upd u (\<lambda>b. b\<lparr>fb_effects := st\<rparr>) w1)
      | (Inr _, st, w1) \<Rightarrow> (None, upd u (\<lambda>b. b\<lparr>fb_effects := st\<rparr>) w1))"

definition register_service :: "nat \<Rightarrow> service_key \<Rightarrow> service_value \<Rightarrow> world \<Rightarrow> exn + (nat \<times> impl \<times> world)" where
  \<comment> \<open>the checks of \<open>provide\<close> and the registration in the realm, before anyone is notified\<close>
  "register_service u key v w =
     bind_res (seam_key w key) (\<lambda>k.
     bind_res (guard_res (fb_state (fib w u) \<in> {Loading, Active})
       (ConfigError (fb_entry (fib w u)) (Msg (''cannot provide '' @ sk_name k)))) (\<lambda>_.
     bind_res (realm_provide (w_realms w) (fb_realm (fib w u)) k v u (fb_entry (fib w u)))
       (\<lambda>(owner, m, realms). Inr (owner, m, w\<lparr>w_realms := realms\<rparr>))))"

definition file_service :: "plugins \<Rightarrow> nat \<Rightarrow> nat \<Rightarrow> impl \<Rightarrow> world \<Rightarrow> exn option \<times> world" where
  "file_service P u owner m w =
     (let name = sk_name (im_key m) in
      file_effect P u (UProvide u owner m) (''provide '' @ name)
        (upd u (\<lambda>b. b\<lparr>fb_provided := name # filter (\<lambda>n. n \<noteq> name) (fb_provided b)\<rparr>) w))"

definition provide :: "plugins \<Rightarrow> nat \<Rightarrow> service_key \<Rightarrow> service_value \<Rightarrow> world \<Rightarrow> (exn + unit) \<times> world" where
  "provide P u key v w =
     (case register_service u key v w of
        Inl e \<Rightarrow> (Inl e, w)
      | Inr (owner, m, w1) \<Rightarrow>
          (case file_service P u owner m (service_changed owner (sk_name (im_key m)) w1) of
             (None, w2) \<Rightarrow> (Inr (), w2)
           | (Some e, w2) \<Rightarrow> (Inl e, w2)))"

definition child_entry :: "world \<Rightarrow> nat \<Rightarrow> plugin_decl \<Rightarrow> string \<Rightarrow> string" where
  "child_entry w u d entry = (if entry \<noteq> [] then entry else fb_entry (fib w u) @ ''/'' @ dc_name d)"

definition request_restart :: "nat \<Rightarrow> world \<Rightarrow> world" where
  \<comment> \<open>\<open>restart\<close> called while settling: the nested \<open>settle\<close> returns at once.  A number that is no
    fiber is not a handle a plugin can hold\<close>
  "request_restart u w =
     (if w_heap w u = None \<or> fb_state (fib w u) = Disposed \<or> w_disposing w then w
      else enqueue u (upd u (\<lambda>b. b\<lparr>fb_restart := True\<rparr>) w))"

primrec run_script :: "plugins \<Rightarrow> nat \<Rightarrow> script \<Rightarrow> world \<Rightarrow> (exn + nat option) \<times> world" where
  "run_script P u (Return c) w = (Inr c, w)"
| "run_script P u (Raise e) w = (Inl e, w)"
| "run_script P u (Provide key v k) w =
     (let (r, w1) = provide P u key v w in run_script P u (k r) w1)"
| "run_script P u (Effect i label k) w =
     (case file_effect P u (UCleanup i) label w of
        (None, w1) \<Rightarrow> run_script P u k w1
      | (Some e, w1) \<Rightarrow> (Inl e, w1))"
| "run_script P u (Plugin d config entry required isolate k) w =
     (let (r, w1) = mount d config (child_entry w u d entry) required False isolate (Some u) w
      in run_script P u (k r) w1)"
| "run_script P u (Get name k) w = run_script P u (k (realm_resolve (w_realms w) (fb_realm (fib w u)) name)) w"
| "run_script P u (Restart v k) w = run_script P u k (request_restart v w)"

section \<open>Loading\<close>

definition effective_config :: "plugins \<Rightarrow> fiber \<Rightarrow> string dict \<Rightarrow> exn + pyval dict" where
  \<comment> \<open>the merged config of \<open>_resolve_config\<close>, before validation\<close>
  "effective_config P b variables =
     bind_res (if fb_resolved b then Inr (fb_raw b)
               else apply_interpolation (pr_env P) (fb_raw b) (dc_interpolate (fb_decl b)) variables
                      (''entry:'' @ fb_entry b)) (\<lambda>interpolated.
     bind_res (pr_config P (fb_entry b) interpolated) (\<lambda>draft.
       Inr (if fb_resolved b then draft else dict_update (dc_defaults (fb_decl b)) draft)))"

definition config_plugin_error :: "string \<Rightarrow> schema_error \<Rightarrow> exn" where
  "config_plugin_error entry e =
     (case e of PluginError _ _ _ \<Rightarrow> ConfigError entry (MsgSchema e) | _ \<Rightarrow> SchemaError e)"

definition validated_config :: "plugins \<Rightarrow> fiber \<Rightarrow> pyval dict \<Rightarrow> exn + pyval dict" where
  "validated_config P b merged =
     (case dc_schema (fb_decl b) of
        None \<Rightarrow>
          if merged \<noteq> []
          then Inl (ConfigError (fb_entry b) (Msg (''row supplies config but '' @ dc_module (fb_decl b)
                 @ '' declares no Config schema: '' @ str_join '', '' (sort (dict_keys merged)))))
          else Inr []
      | Some schema \<Rightarrow>
          (case validate_schema schema (VDict merged) (fb_entry b @ ''.config'') of
             Inl e \<Rightarrow> Inl (config_plugin_error (fb_entry b) e)
           | Inr _ \<Rightarrow>
               if \<not> dc_validator (fb_decl b) then Inr merged
               else (case pr_validator P (dc_module (fb_decl b)) merged of
                       Accepts \<Rightarrow> Inr merged
                     | Rejects m \<Rightarrow> Inl (ConfigError (fb_entry b) (Msg m))
                     | Aborts e \<Rightarrow> Inl e)))"

definition resolve_config :: "plugins \<Rightarrow> world \<Rightarrow> nat \<Rightarrow> exn + pyval dict" where
  "resolve_config P w u =
     bind_res (effective_config P (fib w u) (w_variables w)) (validated_config P (fib w u))"

definition abandon :: "nat \<Rightarrow> world \<Rightarrow> world" where
  \<comment> \<open>leave the fiber inert and retryable\<close>
  "abandon u w = transition_to u Pending (upd u (\<lambda>b. b\<lparr>fb_epoch := None\<rparr>) w)"

definition discard_and :: "plugins \<Rightarrow> nat \<Rightarrow> (world \<Rightarrow> exn option \<times> world) \<Rightarrow> world \<Rightarrow> exn option \<times> world" where
  "discard_and P u f w =
     (case discard_effects P u w of (None, w1) \<Rightarrow> f w1 | (Some e, w1) \<Rightarrow> (Some e, w1))"

definition missing_provides :: "world \<Rightarrow> nat \<Rightarrow> string list" where
  "missing_provides w u = sorted_set (list_diff (dc_provide (fb_decl (fib w u))) (fb_provided (fib w u)))"

definition finish_load :: "plugins \<Rightarrow> nat \<Rightarrow> world \<Rightarrow> exn option \<times> world" where
  "finish_load P u w =
     (let missing = missing_provides w u in
      if missing \<noteq> [] then
        discard_and P u (\<lambda>v. (None, fail_fiber u (ConfigError (fb_entry (fib w u))
          (Msg (''declared provide '' @ str_join '', '' missing @ '' but never registered it''))) v)) w
      else (None, transition_to u Active w))"

definition run_apply :: "plugins \<Rightarrow> nat \<Rightarrow> world \<Rightarrow> (exn + unit) \<times> world" where
  \<comment> \<open>\<open>apply\<close>, and filing the cleanup it returned\<close>
  "run_apply P u w =
     (case run_script P u (pr_apply P w u) w of
        (Inl e, w1) \<Rightarrow> (Inl e, w1)
      | (Inr None, w1) \<Rightarrow> (Inr (), w1)
      | (Inr (Some i), w1) \<Rightarrow>
          (case file_effect P u (UCleanup i) ''apply() return'' w1 of
             (None, w2) \<Rightarrow> (Inr (), w2) | (Some e, w2) \<Rightarrow> (Inl e, w2)))"

definition load :: "plugins \<Rightarrow> nat \<Rightarrow> world \<Rightarrow> exn option \<times> world" where
  "load P u w0 =
     (let w = transition_to u Loading w0 in
      case resolve_config P w u of
        Inl e \<Rightarrow>
          if is_exception e then (None, fail_fiber u e w)
          else discard_and P u (\<lambda>v. (Some e, abandon u v)) w
      | Inr config \<Rightarrow>
          (case run_apply P u (upd u (\<lambda>b. b\<lparr>fb_config := Some config\<rparr>) w) of
             (Inr _, w1) \<Rightarrow> finish_load P u w1
           | (Inl e, w1) \<Rightarrow>
               if is_exception e then discard_and P u (\<lambda>v. (None, fail_fiber u e v)) w1
               else discard_and P u (\<lambda>v. (Some e, abandon u v)) w1))"

section \<open>Refreshing and settling\<close>

definition apply_restart :: "plugins \<Rightarrow> nat \<Rightarrow> world \<Rightarrow> exn option \<times> world" where
  "apply_restart P u w0 =
     (let b = fib w0 u; w = upd u (\<lambda>b. b\<lparr>fb_restart := False\<rparr>) w0;
          inert = (\<lambda>v. upd u (\<lambda>b. b\<lparr>fb_epoch := None\<rparr>) v) in
      if fb_state b = Failed then
        (None, inert (transition_to u Pending (upd u (\<lambda>b. b\<lparr>fb_error := None\<rparr>) w)))
      else if es_effects (fb_effects b) \<noteq> [] \<or> fb_children b \<noteq> [] \<or> fb_state b = Active then
        (case unload P u w of (None, w1) \<Rightarrow> (None, inert w1) | (Some e, w1) \<Rightarrow> (Some e, w1))
      else (None, inert w))"

definition reconcile_epoch :: "plugins \<Rightarrow> nat \<Rightarrow> world \<Rightarrow> exn option \<times> world" where
  "reconcile_epoch P u w =
     (if fb_state (fib w u) = Failed then (None, w)
      else
        let epoch = compute_epoch w (fib w u); previous = fb_epoch (fib w u) in
        if epoch = previous then (None, w)
        else
          let w1 = upd u (\<lambda>b. b\<lparr>fb_epoch := epoch\<rparr>) w in
          if epoch = None then
            (if fb_state (fib w u) = Active then unload P u w1 else (None, w1))
          else if previous = None then load P u w1
          else (case unload P u w1 of (None, w2) \<Rightarrow> load P u w2 | (Some e, w2) \<Rightarrow> (Some e, w2)))"

definition refresh :: "plugins \<Rightarrow> nat \<Rightarrow> world \<Rightarrow> exn option \<times> world" where
  "refresh P u w =
     (if fb_state (fib w u) = Disposed then (None, w)
      else if fb_restart (fib w u) then
        (case apply_restart P u w of
           (None, w1) \<Rightarrow> reconcile_epoch P u w1
         | (Some e, w1) \<Rightarrow> (Some e, w1))
      else reconcile_epoch P u w)"

fun run_batch :: "plugins \<Rightarrow> nat list \<Rightarrow> world \<Rightarrow> exn option \<times> world" where
  "run_batch P [] w = (None, w)"
| "run_batch P (u # us) w =
     (case refresh P u w of
        (None, w1) \<Rightarrow> run_batch P us w1
      | (Some e, w1) \<Rightarrow> (Some e, w1\<lparr>w_pending := us @ w_pending w1\<rparr>))"

definition stuck_rows :: "world \<Rightarrow> string list" where
  "stuck_rows w = fromkeys (map (\<lambda>u. fb_entry (fib w u)) (w_pending w))"

fun settle_loop :: "plugins \<Rightarrow> nat \<Rightarrow> world \<Rightarrow> exn option \<times> world" where
  \<comment> \<open>with the number of rounds still allowed\<close>
  "settle_loop P 0 w =
     (if w_pending w = [] then (None, w)
      else (Some (SettleDivergence (w_rounds w) (stuck_rows w)), w))"
| "settle_loop P (Suc n) w =
     (if w_pending w = [] then (None, w)
      else (case run_batch P (fromkeys (w_pending w)) (w\<lparr>w_pending := []\<rparr>) of
              (None, w1) \<Rightarrow> settle_loop P n w1
            | (Some e, w1) \<Rightarrow> (Some e, w1)))"

definition settle :: "plugins \<Rightarrow> world \<Rightarrow> exn option \<times> world" where
  "settle P w =
     (if w_settling w then (None, w)
      else (case settle_loop P (w_rounds w) (w\<lparr>w_settling := True\<rparr>) of
              (r, w1) \<Rightarrow> (r, w1\<lparr>w_settling := False\<rparr>)))"

section \<open>What a host calls\<close>

definition restart :: "plugins \<Rightarrow> nat \<Rightarrow> world \<Rightarrow> exn option \<times> world" where
  "restart P u w =
     (if fb_state (fib w u) = Disposed \<or> w_disposing w then (None, w)
      else
        let w1 = enqueue u (upd u (\<lambda>b. b\<lparr>fb_restart := True\<rparr>) w)
        in if fb_state (fib w u) \<in> {Loading, Unloading} then (None, w1) else settle P w1)"

definition host_provide :: "plugins \<Rightarrow> nat \<Rightarrow> service_key \<Rightarrow> service_value \<Rightarrow> world \<Rightarrow> (exn + unit) \<times> world" where
  \<comment> \<open>\<open>ctx.provide\<close> outside a settle: the dependents settle before the effect is filed\<close>
  "host_provide P u key v w =
     (case register_service u key v w of
        Inl e \<Rightarrow> (Inl e, w)
      | Inr (owner, m, w1) \<Rightarrow>
          let name = sk_name (im_key m); w2 = service_changed owner name w1 in
          (case (if w_pending w2 \<noteq> w_pending w1 \<and> \<not> w_disposing w2 then settle P w2 else (None, w2)) of
             (Some e, w3) \<Rightarrow> (Inl e, w3)
           | (None, w3) \<Rightarrow>
               (case file_service P u owner m w3 of
                  (None, w4) \<Rightarrow> (Inr (), w4) | (Some e, w4) \<Rightarrow> (Inl e, w4))))"

definition teardown_order :: "world \<Rightarrow> nat list" where
  \<comment> \<open>reverse activation order; rows never active come last, the newest first\<close>
  "teardown_order w =
     sort_key (\<lambda>u. - (case find (\<lambda>(i, v). v = u) (enumerate 0 (w_order w)) of
                        None \<Rightarrow> - 1 | Some (i, v) \<Rightarrow> int i))
       (sort_key (\<lambda>u. - int u) (map snd (w_table w)))"

definition dispose_row :: "plugins \<Rightarrow> exn option \<times> world \<Rightarrow> nat \<Rightarrow> exn option \<times> world" where
  "dispose_row P s u =
     (let (r, w1) = dispose_fiber P u (snd s) in
      case r of
        None \<Rightarrow> (fst s, w1)
      | Some e \<Rightarrow>
          if is_exception e then (fst s, report (fb_entry (fib w1 u) @ '' dispose'') e w1)
          else (first_error (fst s) (Some e), w1))"

definition dispose_root :: "plugins \<Rightarrow> world \<Rightarrow> exn option \<times> world" where
  "dispose_root P w =
     (let (abort, w1) = foldl (dispose_row P) (None, w\<lparr>w_disposing := True\<rparr>) (teardown_order w)
      in (abort, w1\<lparr>w_pending := [], w_realms := realm_unlisten (w_realms w1) 0 0,
                    w_closed := True, w_disposing := False\<rparr>))"

definition rows_in :: "world \<Rightarrow> fstate \<Rightarrow> string list" where
  "rows_in w st = sort (map fst (filter (\<lambda>(_, u). fb_state (fib w u) = st) (w_table w)))"

definition active_rows :: "world \<Rightarrow> string list" where
  "active_rows w = rows_in w Active"

definition failed_rows :: "world \<Rightarrow> (string \<times> exn option) list" where
  "failed_rows w = map (\<lambda>k. (k, fb_error (fib w (the (map_of (w_table w) k))))) (rows_in w Failed)"

definition pending_rows :: "world \<Rightarrow> (string \<times> string list) list" where
  "pending_rows w = map (\<lambda>k. (k, unsatisfied w (fib w (the (map_of (w_table w) k))))) (rows_in w Pending)"

definition live_effects :: "world \<Rightarrow> nat" where
  "live_effects w = sum_list (map (\<lambda>(_, u). es_len (fb_effects (fib w u))) (w_table w))"

end
