(* ===== verification/Trees.thy ===== *)
theory Trees
  imports Fibers
begin

text \<open>
  The invariant of the plugin tree (theory Fibers) and what each operation may change.

  \<open>tree_ok\<close>: the row table lists exactly the fibers that are not disposed, each under its own
  id; parents and children agree; every published service has its withdrawal on the effect stack
  of the fiber that owns it; a disposed fiber holds nothing.  \<open>evolves\<close> relates the tree before
  and after a step: a live fiber outside the step's subjects keeps its lifecycle fields, and if
  a service it depends on changed then it is queued.  Both are proved operation by operation,
  through disposal, mounting, a plugin's \<open>apply\<close>, loading and refreshing; the theory Settle
  builds on them.
\<close>

section \<open>Field updates\<close>

named_theorems tree_simps \<open>how the primitive steps act on the fields of the world\<close>

lemma upd_fields [tree_simps]:
  "w_heap (upd u f w) = (w_heap w)(u := map_option f (w_heap w u))"
  "w_table (upd u f w) = w_table w" "w_realms (upd u f w) = w_realms w"
  "w_uid (upd u f w) = w_uid w" "w_next_realm (upd u f w) = w_next_realm w"
  "w_pending (upd u f w) = w_pending w" "w_seams (upd u f w) = w_seams w"
  "w_settling (upd u f w) = w_settling w" "w_disposing (upd u f w) = w_disposing w"
  "w_rounds (upd u f w) = w_rounds w" "w_errors (upd u f w) = w_errors w"
  "w_variables (upd u f w) = w_variables w" "w_order (upd u f w) = w_order w"
  "w_transitions (upd u f w) = w_transitions w" "w_closed (upd u f w) = w_closed w"
  by (auto simp: upd_def split: option.splits)

lemma transition_fields [tree_simps]:
  "w_heap (transition_to u s w) = (w_heap w)(u := map_option (\<lambda>b. b\<lparr>fb_state := s\<rparr>) (w_heap w u))"
  "w_table (transition_to u s w) = w_table w" "w_realms (transition_to u s w) = w_realms w"
  "w_uid (transition_to u s w) = w_uid w" "w_next_realm (transition_to u s w) = w_next_realm w"
  "w_pending (transition_to u s w) = w_pending w" "w_seams (transition_to u s w) = w_seams w"
  "w_settling (transition_to u s w) = w_settling w" "w_disposing (transition_to u s w) = w_disposing w"
  "w_rounds (transition_to u s w) = w_rounds w" "w_variables (transition_to u s w) = w_variables w"
  by (auto simp: transition_to_def Let_def tree_simps)

lemma report_fields [tree_simps]:
  "w_heap (report s e w) = w_heap w" "w_table (report s e w) = w_table w"
  "w_realms (report s e w) = w_realms w" "w_uid (report s e w) = w_uid w"
  "w_next_realm (report s e w) = w_next_realm w" "w_pending (report s e w) = w_pending w"
  "w_seams (report s e w) = w_seams w" "w_settling (report s e w) = w_settling w"
  "w_disposing (report s e w) = w_disposing w" "w_rounds (report s e w) = w_rounds w"
  "w_variables (report s e w) = w_variables w"
  by (auto simp: report_def)

lemma enqueue_fields [tree_simps]:
  "w_heap (enqueue u w) = w_heap w" "w_table (enqueue u w) = w_table w"
  "w_realms (enqueue u w) = w_realms w" "w_uid (enqueue u w) = w_uid w"
  "w_next_realm (enqueue u w) = w_next_realm w" "w_pending (enqueue u w) = w_pending w @ [u]"
  "w_seams (enqueue u w) = w_seams w" "w_settling (enqueue u w) = w_settling w"
  "w_disposing (enqueue u w) = w_disposing w" "w_rounds (enqueue u w) = w_rounds w"
  "w_variables (enqueue u w) = w_variables w"
  by (auto simp: enqueue_def)

lemma service_changed_fields [tree_simps]:
  "w_heap (service_changed i n w) = w_heap w" "w_table (service_changed i n w) = w_table w"
  "w_realms (service_changed i n w) = w_realms w" "w_uid (service_changed i n w) = w_uid w"
  "w_next_realm (service_changed i n w) = w_next_realm w"
  "w_seams (service_changed i n w) = w_seams w" "w_settling (service_changed i n w) = w_settling w"
  "w_disposing (service_changed i n w) = w_disposing w" "w_rounds (service_changed i n w) = w_rounds w"
  "w_variables (service_changed i n w) = w_variables w"
  "set (w_pending w) \<subseteq> set (w_pending (service_changed i n w))"
  by (auto simp: service_changed_def)

section \<open>The invariant\<close>

definition files :: "nat \<Rightarrow> nat \<Rightarrow> impl \<Rightarrow> fiber \<Rightarrow> bool" where
  "files v i m b = (\<exists>e \<in> set (es_effects (fb_effects b)). eff_dispose e = UProvide v i m)"

definition live :: "world \<Rightarrow> nat \<Rightarrow> bool" where
  "live w u = (\<exists>b. w_heap w u = Some b \<and> fb_state b \<noteq> Disposed)"

definition fiber_ok :: "world \<Rightarrow> nat \<Rightarrow> fiber \<Rightarrow> bool" where
  "fiber_ok w u b = (u \<le> w_uid w \<and> fb_realm b < w_next_realm w \<and>
     es_wf (fb_effects b) \<and> \<not> es_unwinding (fb_effects b) \<and>
     (\<forall>v i m. files v i m b \<longrightarrow> v = u \<and> i < w_next_realm w) \<and>
     distinct (fb_children b) \<and>
     (\<forall>c \<in> set (fb_children b). u < c \<and>
        (\<exists>bc. w_heap w c = Some bc \<and> fb_parent bc = Some u \<and> fb_state bc \<noteq> Disposed)) \<and>
     (\<forall>p. fb_parent b = Some p \<and> fb_state b \<noteq> Disposed \<longrightarrow>
        (\<exists>bp. w_heap w p = Some bp \<and> u \<in> set (fb_children bp))) \<and>
     (fb_state b = Disposed \<longrightarrow> es_effects (fb_effects b) = [] \<and> fb_children b = []) \<and>
     (map_of (w_table w) (fb_entry b) = Some u \<longleftrightarrow> fb_state b \<noteq> Disposed))"

definition realms_ok :: "world \<Rightarrow> bool" where
  "realms_ok w = (realms_wf (w_realms w) \<and> (\<forall>i. w_realms w i \<noteq> None \<longleftrightarrow> i < w_next_realm w) \<and>
     0 < w_next_realm w \<and> (\<forall>i < w_next_realm w. realm_listeners (w_realms w) i \<noteq> []))"

definition services_owned :: "world \<Rightarrow> bool" where
  "services_owned w = (\<forall>i n m. own_impl (w_realms w) i n = Some m \<longrightarrow>
     (\<exists>b. w_heap w (im_fiber m) = Some b \<and> files (im_fiber m) i m b))"

definition table_ok :: "world \<Rightarrow> bool" where
  "table_ok w = (dict_wf (w_table w) \<and>
     (\<forall>k u. map_of (w_table w) k = Some u \<longrightarrow> (\<exists>b. w_heap w u = Some b \<and> fb_entry b = k)))"

definition tree_ok :: "world \<Rightarrow> bool" where
  "tree_ok w = ((\<forall>u b. w_heap w u = Some b \<longrightarrow> fiber_ok w u b) \<and> realms_ok w \<and>
     services_owned w \<and> table_ok w)"

lemma tree_okD:
  assumes "tree_ok w"
  shows "w_heap w u = Some b \<Longrightarrow> fiber_ok w u b" and "realms_ok w" and "services_owned w" and "table_ok w"
  using assms by (auto simp: tree_ok_def)

lemma fiber_okD:
  assumes "fiber_ok w u b"
  shows "u \<le> w_uid w" and "fb_realm b < w_next_realm w" and "es_wf (fb_effects b)"
    and "\<not> es_unwinding (fb_effects b)" and "files v i m b \<Longrightarrow> v = u \<and> i < w_next_realm w"
    and "distinct (fb_children b)"
    and "c \<in> set (fb_children b) \<Longrightarrow> u < c \<and> (\<exists>bc. w_heap w c = Some bc \<and> fb_parent bc = Some u \<and> fb_state bc \<noteq> Disposed)"
    and "fb_parent b = Some p \<Longrightarrow> fb_state b \<noteq> Disposed \<Longrightarrow> \<exists>bp. w_heap w p = Some bp \<and> u \<in> set (fb_children bp)"
    and "fb_state b = Disposed \<Longrightarrow> es_effects (fb_effects b) = [] \<and> fb_children b = []"
    and "map_of (w_table w) (fb_entry b) = Some u \<longleftrightarrow> fb_state b \<noteq> Disposed"
  using assms unfolding fiber_ok_def by blast+

text \<open>Only these fields matter to the invariant.\<close>

definition lean :: "fiber \<Rightarrow> fiber" where
  "lean b = b\<lparr>fb_provided := [], fb_config := None, fb_error := None, fb_epoch := None,
     fb_restart := False, fb_state := (if fb_state b = Disposed then Disposed else Pending)\<rparr>"

lemma lean_fields:
  assumes "lean b' = lean b"
  shows "fb_realm b' = fb_realm b" "fb_effects b' = fb_effects b" "fb_children b' = fb_children b"
    "fb_parent b' = fb_parent b" "fb_entry b' = fb_entry b" "fb_decl b' = fb_decl b"
    "fb_state b' = Disposed \<longleftrightarrow> fb_state b = Disposed" "files v i m b' \<longleftrightarrow> files v i m b"
proof -
  have sel: "fb_realm (lean x) = fb_realm x" "fb_effects (lean x) = fb_effects x"
    "fb_children (lean x) = fb_children x" "fb_parent (lean x) = fb_parent x"
    "fb_entry (lean x) = fb_entry x" "fb_decl (lean x) = fb_decl x"
    "fb_state (lean x) = Disposed \<longleftrightarrow> fb_state x = Disposed" for x
    by (simp_all add: lean_def)
  show "fb_realm b' = fb_realm b" "fb_effects b' = fb_effects b" "fb_children b' = fb_children b"
    "fb_parent b' = fb_parent b" "fb_entry b' = fb_entry b" "fb_decl b' = fb_decl b"
    "fb_state b' = Disposed \<longleftrightarrow> fb_state b = Disposed"
    using assms sel by metis+
  then show "files v i m b' \<longleftrightarrow> files v i m b" by (simp add: files_def)
qed

definition same_tree :: "world \<Rightarrow> world \<Rightarrow> bool" where
  "same_tree w' w = ((\<forall>v. map_option lean (w_heap w' v) = map_option lean (w_heap w v)) \<and>
     w_table w' = w_table w \<and> w_uid w' = w_uid w \<and> w_next_realm w' = w_next_realm w \<and>
     w_realms w' = w_realms w)"

lemma same_tree_heap:
  assumes "same_tree w' w" and "w_heap w' v = Some b'"
  obtains b where "w_heap w v = Some b" and "lean b' = lean b"
  using assms unfolding same_tree_def by (metis map_option_eq_Some)

lemma same_tree_sym: "same_tree w' w \<Longrightarrow> same_tree w w'"
  by (simp add: same_tree_def)

lemma same_tree_trans: "same_tree w2 w1 \<Longrightarrow> same_tree w1 w \<Longrightarrow> same_tree w2 w"
  by (simp add: same_tree_def)

lemma fiber_ok_same_tree:
  assumes s: "same_tree w' w" and b: "lean b' = lean b" and ok: "fiber_ok w u b"
  shows "fiber_ok w' u b'"
proof -
  note f = lean_fields [OF b] and o = fiber_okD [OF ok]
  have flds: "w_table w' = w_table w" "w_uid w' = w_uid w" "w_next_realm w' = w_next_realm w"
    using s by (auto simp: same_tree_def)
  have up: "\<exists>x'. w_heap w' v = Some x' \<and> lean x' = lean x" if "w_heap w v = Some x" for v x
    using same_tree_heap [OF same_tree_sym [OF s] that] by metis
  show ?thesis
    unfolding fiber_ok_def f flds
  proof (intro conjI ballI allI impI)
    fix c assume "c \<in> set (fb_children b)"
    with o(7) obtain bc where c: "u < c" "w_heap w c = Some bc" "fb_parent bc = Some u" "fb_state bc \<noteq> Disposed"
      by blast
    then show "u < c" by simp
    from up [OF c(2)] obtain x where "w_heap w' c = Some x" "lean x = lean bc" by blast
    with c lean_fields [OF this(2)]
    show "\<exists>bc. w_heap w' c = Some bc \<and> fb_parent bc = Some u \<and> fb_state bc \<noteq> Disposed" by auto
  next
    fix p assume "fb_parent b = Some p \<and> fb_state b \<noteq> Disposed"
    with o(8) obtain bp where p: "w_heap w p = Some bp" "u \<in> set (fb_children bp)" by blast
    from up [OF p(1)] obtain x where "w_heap w' p = Some x" "lean x = lean bp" by blast
    with p lean_fields(3) [OF this(2)]
    show "\<exists>bp. w_heap w' p = Some bp \<and> u \<in> set (fb_children bp)" by auto
  qed (use o in blast)+
qed

lemma tree_ok_same_tree:
  assumes s: "same_tree w' w" and ok: "tree_ok w"
  shows "tree_ok w'"
proof -
  have flds: "w_table w' = w_table w" "w_realms w' = w_realms w" "w_next_realm w' = w_next_realm w"
    using s by (auto simp: same_tree_def)
  have up: "\<exists>x'. w_heap w' v = Some x' \<and> lean x' = lean x" if "w_heap w v = Some x" for v x
    using same_tree_heap [OF same_tree_sym [OF s] that] by metis
  have "fiber_ok w' u b'" if "w_heap w' u = Some b'" for u b'
    using same_tree_heap [OF s that] fiber_ok_same_tree [OF s] tree_okD(1) [OF ok] by metis
  moreover have "realms_ok w'" using tree_okD(2) [OF ok] by (simp add: realms_ok_def flds)
  moreover have "services_owned w'"
    unfolding services_owned_def flds
  proof (intro allI impI)
    fix i n m assume "own_impl (w_realms w) i n = Some m"
    with tree_okD(3) [OF ok] obtain b where "w_heap w (im_fiber m) = Some b" "files (im_fiber m) i m b"
      unfolding services_owned_def by blast
    with up lean_fields(8) show "\<exists>b. w_heap w' (im_fiber m) = Some b \<and> files (im_fiber m) i m b" by metis
  qed
  moreover have "table_ok w'"
    using tree_okD(4) [OF ok] up lean_fields(5) unfolding table_ok_def flds by metis
  ultimately show ?thesis by (simp add: tree_ok_def)
qed

lemma same_tree_upd:
  assumes "\<And>b. w_heap w u = Some b \<Longrightarrow> lean (f b) = lean b"
  shows "same_tree (upd u f w) w"
  using assms by (cases "w_heap w u") (simp_all add: same_tree_def tree_simps)

lemma same_tree_transition:
  assumes "s \<noteq> Disposed" and "live w u \<or> w_heap w u = None"
  shows "same_tree (transition_to u s w) w"
proof (cases "w_heap w u")
  case (Some b)
  with assms(2) have "fb_state b \<noteq> Disposed" by (simp add: live_def)
  with assms(1) Some show ?thesis by (simp add: same_tree_def tree_simps lean_def)
qed (simp add: same_tree_def tree_simps)


lemma same_tree_fields:
  "same_tree (w\<lparr>w_transitions := ts\<rparr>) w" "same_tree (w\<lparr>w_pending := ps\<rparr>) w"
  "same_tree (w\<lparr>w_settling := b\<rparr>) w" "same_tree (w\<lparr>w_disposing := b\<rparr>) w"
  "same_tree (report s e w) w" "same_tree (enqueue u w) w" "same_tree (service_changed i n w) w"
  "same_tree w w"
  by (simp_all add: same_tree_def tree_simps)

section \<open>Evolution\<close>

definition ident :: "fiber \<Rightarrow> plugin_decl \<times> nat \<times> string \<times> nat option" where
  "ident b = (fb_decl b, fb_realm b, fb_entry b, fb_parent b)"

definition life :: "fiber \<Rightarrow> fstate \<times> nat list option" where
  "life b = (fb_state b, fb_epoch b)"

text \<open>\<open>T\<close> are the step's subjects; everything else that is live may only be queued.\<close>

definition kept :: "nat set \<Rightarrow> world \<Rightarrow> world \<Rightarrow> nat \<Rightarrow> fiber \<Rightarrow> bool" where
  "kept T w w' v b' = (\<exists>b. w_heap w v = Some b \<and> fb_state b \<noteq> Disposed \<and>
     (v \<in> T \<or> life b' = life b) \<and>
     (v \<in> T \<or> v \<in> set (w_pending w') \<or> fb_restart b' = fb_restart b) \<and>
     (v \<in> set (w_pending w') \<or> compute_epoch w' b' = compute_epoch w b))"

definition fresh :: "nat set \<Rightarrow> world \<Rightarrow> world \<Rightarrow> nat \<Rightarrow> fiber \<Rightarrow> bool" where
  "fresh T w w' v b' = (w_uid w < v \<and> v \<in> set (w_pending w') \<and> (v \<in> T \<or> life b' = (Pending, None)))"

definition same_settings :: "world \<Rightarrow> world \<Rightarrow> bool" where
  "same_settings w w' = (w_rounds w' = w_rounds w \<and> w_settling w' = w_settling w \<and>
     w_seams w' = w_seams w \<and> w_variables w' = w_variables w \<and> w_disposing w' = w_disposing w)"

definition evolves :: "nat set \<Rightarrow> world \<Rightarrow> world \<Rightarrow> bool" where
  "evolves T w w' = (set (w_pending w) \<subseteq> set (w_pending w') \<and> w_uid w \<le> w_uid w' \<and>
     same_settings w w' \<and>
     (\<forall>v \<in> set (w_pending w'). v \<in> set (w_pending w) \<or> w_heap w' v \<noteq> None) \<and>
     (\<forall>v b. w_heap w v = Some b \<longrightarrow> (\<exists>b'. w_heap w' v = Some b' \<and> ident b' = ident b)) \<and>
     (\<forall>v b'. w_heap w' v = Some b' \<and> fb_state b' \<noteq> Disposed \<longrightarrow> fresh T w w' v b' \<or> kept T w w' v b'))"

lemma evolves_live:
  assumes "evolves T w w'" and "w_heap w' v = Some b'" and "fb_state b' \<noteq> Disposed"
  shows "fresh T w w' v b' \<or> kept T w w' v b'"
  using assms unfolding evolves_def by blast

lemma evolves_ident:
  assumes "evolves T w w'" and "w_heap w v = Some b"
  obtains b' where "w_heap w' v = Some b'" and "ident b' = ident b"
  using assms unfolding evolves_def by blast

lemma evolves_pending: "evolves T w w' \<Longrightarrow> set (w_pending w) \<subseteq> set (w_pending w')"
  by (simp add: evolves_def)

lemma evolves_trans:
  assumes e1: "evolves T w w1" and e2: "evolves T w1 w2"
  shows "evolves T w w2"
proof -
  have live2: "fresh T w w2 v b2 \<or> kept T w w2 v b2"
    if b2: "w_heap w2 v = Some b2" "fb_state b2 \<noteq> Disposed" for v b2
  proof (cases "fresh T w1 w2 v b2")
    case True
    moreover have "w_uid w \<le> w_uid w1" using e1 by (simp add: evolves_def)
    ultimately show ?thesis by (auto simp: fresh_def)
  next
    case False
    with evolves_live [OF e2 b2] obtain b1 where b1: "w_heap w1 v = Some b1" "fb_state b1 \<noteq> Disposed"
      and k2: "v \<in> T \<or> life b2 = life b1" "v \<in> T \<or> v \<in> set (w_pending w2) \<or> fb_restart b2 = fb_restart b1"
        "v \<in> set (w_pending w2) \<or> compute_epoch w2 b2 = compute_epoch w1 b1"
      unfolding kept_def by blast
    show ?thesis
    proof (cases "fresh T w w1 v b1")
      case True
      with evolves_pending [OF e2] k2 show ?thesis by (auto simp: fresh_def)
    next
      case False
      with evolves_live [OF e1 b1] have "kept T w w1 v b1" by blast
      with k2 evolves_pending [OF e2] show ?thesis unfolding kept_def by (metis subsetD)
    qed
  qed
  have "\<exists>b2. w_heap w2 v = Some b2 \<and> ident b2 = ident b" if "w_heap w v = Some b" for v b
    using e1 e2 that unfolding evolves_def by metis
  moreover have "v \<in> set (w_pending w) \<or> w_heap w2 v \<noteq> None" if "v \<in> set (w_pending w2)" for v
    using e1 e2 that unfolding evolves_def by (metis option.exhaust option.distinct(1))
  moreover have "set (w_pending w) \<subseteq> set (w_pending w2)" "w_uid w \<le> w_uid w2" "same_settings w w2"
    using e1 e2 by (auto simp: evolves_def same_settings_def)
  ultimately show ?thesis using live2 unfolding evolves_def by blast
qed

lemma evolves_mono: "evolves S w w' \<Longrightarrow> S \<subseteq> T \<Longrightarrow> evolves T w w'"
  unfolding evolves_def kept_def fresh_def by blast

lemma compute_epoch_cong:
  assumes "\<And>n. n \<in> set (dc_inject (fb_decl b)) \<union> set (dc_optional (fb_decl b)) \<Longrightarrow>
      realm_resolve (w_realms w') (fb_realm b) n = realm_resolve (w_realms w) (fb_realm b) n"
    and "fb_decl b' = fb_decl b" and "fb_realm b' = fb_realm b"
  shows "compute_epoch w' b' = compute_epoch w b"
proof -
  have "map (service_serial w' b') (sort (dc_inject (fb_decl b))) = map (service_serial w b) (sort (dc_inject (fb_decl b)))"
    "map (service_serial w' b') (sort (dc_optional (fb_decl b))) = map (service_serial w b) (sort (dc_optional (fb_decl b)))"
    using assms by (auto simp: service_serial_def)
  then show ?thesis by (simp add: compute_epoch_def assms(2))
qed

text \<open>Steps that leave the services alone and touch the lifecycle of \<open>T\<close> only.\<close>

definition quiet :: "nat set \<Rightarrow> world \<Rightarrow> world \<Rightarrow> bool" where
  "quiet T w w' = (w_uid w' = w_uid w \<and> w_realms w' = w_realms w \<and>
     set (w_pending w) \<subseteq> set (w_pending w') \<and> same_settings w w' \<and>
     (\<forall>v \<in> set (w_pending w'). v \<in> set (w_pending w) \<or> w_heap w' v \<noteq> None) \<and>
     (\<forall>v. (w_heap w v = None) = (w_heap w' v = None)) \<and>
     (\<forall>v b b'. w_heap w v = Some b \<longrightarrow> w_heap w' v = Some b' \<longrightarrow>
        ident b' = ident b \<and> (fb_state b' \<noteq> Disposed \<longrightarrow> fb_state b \<noteq> Disposed) \<and>
        (v \<in> T \<or> fb_state b' = Disposed \<or> life b' = life b) \<and>
        (v \<in> T \<or> v \<in> set (w_pending w') \<or> fb_state b' = Disposed \<or> fb_restart b' = fb_restart b)))"

lemma quiet_evolves: assumes "quiet T w w'" shows "evolves T w w'"
proof -
  have "kept T w w' v b'" if b': "w_heap w' v = Some b'" "fb_state b' \<noteq> Disposed" for v b'
  proof -
    from assms b'(1) obtain b where b: "w_heap w v = Some b"
      unfolding quiet_def by (metis option.exhaust option.distinct(1))
    with assms b' have q: "ident b' = ident b" "fb_state b \<noteq> Disposed" "v \<in> T \<or> life b' = life b"
      "v \<in> T \<or> v \<in> set (w_pending w') \<or> fb_restart b' = fb_restart b" unfolding quiet_def by blast+
    have "compute_epoch w' b' = compute_epoch w b"
      by (rule compute_epoch_cong) (use assms q(1) in \<open>auto simp: quiet_def ident_def\<close>)
    with b q show ?thesis unfolding kept_def by blast
  qed
  moreover have "\<exists>b'. w_heap w' v = Some b' \<and> ident b' = ident b" if "w_heap w v = Some b" for v b
    using assms that unfolding quiet_def by (metis option.distinct(1) option.exhaust)
  ultimately show ?thesis using assms unfolding evolves_def quiet_def by auto
qed

lemma quiet_trans: "quiet T w w1 \<Longrightarrow> quiet T w1 w2 \<Longrightarrow> evolves T w w2"
  by (meson evolves_trans quiet_evolves)

lemma quiet_upd:
  assumes "\<And>b. w_heap w u = Some b \<Longrightarrow> ident (f b) = ident b \<and> fb_state (f b) = fb_state b \<and>
      (u \<in> T \<or> life (f b) = life b \<and> fb_restart (f b) = fb_restart b)"
  shows "quiet T w (upd u f w)"
  using assms by (auto simp: quiet_def tree_simps same_settings_def)

lemma quiet_transition:
  assumes "u \<in> T" and "live w u \<or> s = Disposed"
  shows "quiet T w (transition_to u s w)"
  using assms by (auto simp: quiet_def tree_simps ident_def live_def same_settings_def)

lemma quiet_fields:
  "quiet T w (w\<lparr>w_transitions := ts\<rparr>)" "quiet T w (report s e w)"
  "w_heap w u \<noteq> None \<Longrightarrow> quiet T w (enqueue u w)"
  "quiet T w (w\<lparr>w_realms := w_realms w\<rparr>)" "quiet T w w"
  by (auto simp: quiet_def tree_simps same_settings_def)


section \<open>Services change\<close>

lemma listeners_cong:
  assumes "same_topology g h" and "\<And>i. map_option rl_listeners (g i) = map_option rl_listeners (h i)"
  shows "realm_listeners g i = realm_listeners h i"
proof -
  from assms(2) [of "realm_root h i"] show ?thesis
    unfolding realm_listeners_def same_topology_root [OF assms(1)]
    by (cases "g (realm_root h i)"; cases "h (realm_root h i)") auto
qed

lemma listeners_updates:
  "map_option rl_listeners (put_impl h i n m j) = map_option rl_listeners (h j)"
  "map_option rl_listeners (del_impl h i n j) = map_option rl_listeners (h j)"
  "map_option rl_listeners (bump_serial h r j) = map_option rl_listeners (h j)"
  by (auto simp: put_impl_def del_impl_def bump_serial_def split: option.splits)

lemma owner_le: "owner_of h i n \<le> i"
proof (induction i rule: less_induct)
  case (less i)
  show ?case
  proof (cases "realm_up h i")
    case (Some p)
    with less.IH [OF realm_up_less] realm_up_less [OF Some] have "owner_of h p n \<le> i" by fastforce
    with Some show ?thesis by (auto simp: owner_of.simps [of h i n])
  qed (simp add: owner_of.simps [of h i n])
qed

lemma live_registered:
  assumes "tree_ok w" and "w_heap w v = Some b" and "fb_state b \<noteq> Disposed"
  shows "v \<in> set (map snd (w_table w))"
  using fiber_okD(10) [OF tree_okD(1) [OF assms(1,2)]] assms(3)
  by (force dest: map_of_SomeD)

lemma announce_evolves:
  assumes ok: "tree_ok w" and h: "realm_listeners h i \<noteq> []"
    and other: "\<And>j k. j < w_next_realm w \<Longrightarrow> k \<noteq> n \<Longrightarrow> realm_resolve h j k = realm_resolve (w_realms w) j k"
  shows "evolves {} w (service_changed i n (w\<lparr>w_realms := h\<rparr>))"
proof -
  let ?w = "service_changed i n (w\<lparr>w_realms := h\<rparr>)"
  have pend: "w_pending ?w = w_pending w @ dependents w n"
    using h by (simp add: service_changed_def dependents_def depends_on_def [abs_def])
  have "kept {} w ?w v b" if b: "w_heap w v = Some b" "fb_state b \<noteq> Disposed" for v b
  proof (cases "depends_on w n v")
    case True
    with live_registered [OF ok b] pend have "v \<in> set (w_pending ?w)" by (auto simp: dependents_def)
    with b show ?thesis by (auto simp: kept_def)
  next
    case False
    note r = fiber_okD(2) [OF tree_okD(1) [OF ok b(1)]]
    have "compute_epoch ?w b = compute_epoch w b"
    proof (rule compute_epoch_cong)
      fix k assume "k \<in> set (dc_inject (fb_decl b)) \<union> set (dc_optional (fb_decl b))"
      with False b(1) have "k \<noteq> n" by (auto simp: depends_on_def)
      with other [OF r] show "realm_resolve (w_realms ?w) (fb_realm b) k = realm_resolve (w_realms w) (fb_realm b) k"
        by (simp add: tree_simps)
    qed simp_all
    with b show ?thesis by (auto simp: kept_def)
  qed
  moreover have "w_heap w v \<noteq> None" if "v \<in> set (dependents w n)" for v
  proof -
    from that obtain k where "(k, v) \<in> set (w_table w)" by (auto simp: dependents_def)
    with tree_okD(4) [OF ok] show ?thesis by (auto simp: table_ok_def map_of_values)
  qed
  ultimately show ?thesis unfolding evolves_def by (auto simp: tree_simps pend same_settings_def)
qed

lemma tree_ok_realms:
  assumes "tree_ok w" and "realms_ok (w\<lparr>w_realms := h\<rparr>)"
    and "\<And>i n m. own_impl h i n = Some m \<Longrightarrow> own_impl (w_realms w) i n = Some m"
  shows "tree_ok (w\<lparr>w_realms := h\<rparr>)"
  using assms unfolding tree_ok_def services_owned_def table_ok_def fiber_ok_def by simp blast

lemma withdraw_realms_ok:
  assumes "realms_ok w"
  shows "realms_ok (w\<lparr>w_realms := snd (realm_withdraw (w_realms w) i m)\<rparr>)"
proof -
  let ?h = "snd (realm_withdraw (w_realms w) i m)"
  note t = realm_withdraw_topology [of "w_realms w" i m]
  have "realm_listeners ?h j = realm_listeners (w_realms w) j" for j
    by (rule listeners_cong [OF t])
      (auto simp: realm_withdraw_def Let_def listeners_updates split: option.splits)
  moreover have "?h j = None \<longleftrightarrow> w_realms w j = None" for j
    by (auto simp: realm_withdraw_def Let_def split: option.splits)
  ultimately show ?thesis using assms realms_wf_withdraw by (auto simp: realms_ok_def)
qed

lemma own_impl_withdraw:
  "own_impl (snd (realm_withdraw h i m)) j n = Some x \<Longrightarrow> own_impl h j n = Some x"
  by (auto simp: realm_withdraw_def Let_def own_impl_del split: option.splits if_splits)

lemma own_impl_withdrawn:
  "own_impl (snd (realm_withdraw h i m)) i (sk_name (im_key m)) \<noteq> Some m"
  by (auto simp: realm_withdraw_def Let_def own_impl_del split: option.splits)

lemma run_undo_spec:
  assumes ok: "tree_ok w" and u: "w_heap w u = Some b" and a: "\<forall>v i m. a = UProvide v i m \<longrightarrow> v = u \<and> i < w_next_realm w"
    and run: "run_undo P a w = (r, w')"
  shows "tree_ok w'" and "evolves {} w w'" and "w_uid w' = w_uid w" and "w_next_realm w' = w_next_realm w"
    and "\<And>v. v \<noteq> u \<Longrightarrow> w_heap w' v = w_heap w v" and "w_table w' = w_table w"
    and "\<exists>ps. w_heap w' u = Some (b\<lparr>fb_provided := ps\<rparr>)"
    and "own_impl (w_realms w') i n = Some m \<Longrightarrow> own_impl (w_realms w) i n = Some m"
    and "a = UProvide u i m \<Longrightarrow> own_impl (w_realms w') i (sk_name (im_key m)) \<noteq> Some m"
proof -
  have "tree_ok w' \<and> evolves {} w w' \<and> w_uid w' = w_uid w \<and> w_next_realm w' = w_next_realm w \<and>
      (\<forall>v. v \<noteq> u \<longrightarrow> w_heap w' v = w_heap w v) \<and> w_table w' = w_table w \<and>
      (\<exists>ps. w_heap w' u = Some (b\<lparr>fb_provided := ps\<rparr>)) \<and>
      (\<forall>i n m. own_impl (w_realms w') i n = Some m \<longrightarrow> own_impl (w_realms w) i n = Some m) \<and>
      (\<forall>i m. a = UProvide u i m \<longrightarrow> own_impl (w_realms w') i (sk_name (im_key m)) \<noteq> Some m)"
  proof (cases a)
    case (UCleanup j)
    with run have "w' = w" by (simp add: run_undo_def)
    then show ?thesis using ok u UCleanup quiet_evolves [OF quiet_fields(5)]
      by (auto intro!: exI [of _ "fb_provided b"])
  next
    case (UProvide v i m)
    with a have v: "v = u" "i < w_next_realm w" by auto
    let ?n = "sk_name (im_key m)"
    define w1 where "w1 = upd u (\<lambda>b. b\<lparr>fb_provided := filter (\<lambda>k. k \<noteq> ?n) (fb_provided b)\<rparr>) w"
    obtain hit h where hh: "realm_withdraw (w_realms w) i m = (hit, h)"
      by (cases "realm_withdraw (w_realms w) i m")
    define w2 where "w2 = w1\<lparr>w_realms := h\<rparr>"
    have w': "w' = (if hit then service_changed i ?n w2 else w2)"
      using run UProvide v hh by (simp add: run_undo_def w1_def w2_def tree_simps Let_def split: if_splits)
    have s1: "same_tree w1 w" unfolding w1_def by (rule same_tree_upd) (simp add: lean_def)
    then have ok1: "tree_ok w1" using ok tree_ok_same_tree by blast
    have q1: "evolves {} w w1" unfolding w1_def by (rule quiet_evolves, rule quiet_upd) (simp add: ident_def life_def)
    have r1: "w_realms w1 = w_realms w" "w_next_realm w1 = w_next_realm w" by (simp_all add: w1_def tree_simps)
    have rok: "realms_ok w2"
      using withdraw_realms_ok [OF tree_okD(2) [OF ok1], of i m] hh by (simp add: w2_def r1)
    have ok2: "tree_ok w2"
      unfolding w2_def
      by (rule tree_ok_realms [OF ok1]) (use rok own_impl_withdraw [of "w_realms w" i m] hh in \<open>simp_all add: w2_def r1\<close>)
    have ok': "tree_ok w'"
      unfolding w' using ok2 tree_ok_same_tree [OF same_tree_fields(7) ok2] by simp
    have e2: "evolves {} w1 w'"
    proof (cases hit)
      case True
      have "realm_listeners h i \<noteq> []" using rok v(2) by (simp add: realms_ok_def w2_def r1)
      then have "evolves {} w1 (service_changed i ?n (w1\<lparr>w_realms := h\<rparr>))"
        by (rule announce_evolves [OF ok1]) (use realm_withdraw_resolve [OF hh] in \<open>simp add: r1\<close>)
      with True show ?thesis by (simp add: w' w2_def)
    next
      case False
      with hh have "h = w_realms w" by (auto simp: realm_withdraw_def Let_def split: option.splits if_splits)
      with False show ?thesis
        using quiet_evolves [OF quiet_fields(5), of "{}" w1] by (simp add: w' w2_def r1 [symmetric])
    qed
    from u have heap: "w_heap w' = (w_heap w)(u \<mapsto> b\<lparr>fb_provided := filter (\<lambda>k. k \<noteq> ?n) (fb_provided b)\<rparr>)"
      by (simp add: w' w2_def w1_def tree_simps)
    have rel: "w_realms w' = h" by (simp add: w' w2_def tree_simps)
    show ?thesis
      using ok' evolves_trans [OF q1 e2] own_impl_withdraw [of "w_realms w" i m] own_impl_withdrawn [of "w_realms w" i m] hh
      by (auto simp: heap rel UProvide) (auto simp: w' w2_def w1_def tree_simps)
  qed
  then show "tree_ok w'" "evolves {} w w'" "w_uid w' = w_uid w" "w_next_realm w' = w_next_realm w"
    "\<And>v. v \<noteq> u \<Longrightarrow> w_heap w' v = w_heap w v" "w_table w' = w_table w"
    "\<exists>ps. w_heap w' u = Some (b\<lparr>fb_provided := ps\<rparr>)"
    "own_impl (w_realms w') i n = Some m \<Longrightarrow> own_impl (w_realms w) i n = Some m"
    "a = UProvide u i m \<Longrightarrow> own_impl (w_realms w') i (sk_name (im_key m)) \<noteq> Some m"
    by blast+
qed


section \<open>Unwinding a fiber\<close>

lemma run_all_spec:
  assumes "tree_ok w" and "w_heap w u = Some b"
    and "\<forall>e \<in> set es. \<forall>v i m. eff_dispose e = UProvide v i m \<longrightarrow> v = u \<and> i < w_next_realm w"
  shows "tree_ok (run_all (run_undo P) es w) \<and> evolves {} w (run_all (run_undo P) es w) \<and>
    w_uid (run_all (run_undo P) es w) = w_uid w \<and> w_next_realm (run_all (run_undo P) es w) = w_next_realm w \<and>
    w_table (run_all (run_undo P) es w) = w_table w \<and>
    (\<forall>v. v \<noteq> u \<longrightarrow> w_heap (run_all (run_undo P) es w) v = w_heap w v) \<and>
    (\<exists>ps. w_heap (run_all (run_undo P) es w) u = Some (b\<lparr>fb_provided := ps\<rparr>)) \<and>
    (\<forall>i n m. own_impl (w_realms (run_all (run_undo P) es w)) i n = Some m \<longrightarrow> own_impl (w_realms w) i n = Some m) \<and>
    (\<forall>i m e. e \<in> set es \<and> eff_dispose e = UProvide u i m \<longrightarrow>
       own_impl (w_realms (run_all (run_undo P) es w)) i (sk_name (im_key m)) \<noteq> Some m)"
  using assms
proof (induction es arbitrary: w b)
  case Nil
  then show ?case using quiet_evolves [OF quiet_fields(5)]
    by (auto simp: run_all_def intro!: exI [of _ "fb_provided b"])
next
  case (Cons e es)
  obtain r w1 where r: "run_undo P (eff_dispose e) w = (r, w1)" by (cases "run_undo P (eff_dispose e) w")
  have a: "\<forall>v i m. eff_dispose e = UProvide v i m \<longrightarrow> v = u \<and> i < w_next_realm w"
    using Cons.prems(3) by (meson list.set_intros(1))
  note s = run_undo_spec [OF Cons.prems(1,2) a r]
  obtain ps where ps: "w_heap w1 u = Some (b\<lparr>fb_provided := ps\<rparr>)" using s(7) by blast
  have all: "run_all (run_undo P) (e # es) w = run_all (run_undo P) es w1" by (simp add: run_all_def r)
  have es: "\<forall>e \<in> set es. \<forall>v i m. eff_dispose e = UProvide v i m \<longrightarrow> v = u \<and> i < w_next_realm w1"
    using Cons.prems(3) s(4) by (metis list.set_intros(2))
  note ih = Cons.IH [OF s(1) ps es]
  have gone: "own_impl (w_realms (run_all (run_undo P) es w1)) i (sk_name (im_key m)) \<noteq> Some m"
    if "e' \<in> set (e # es)" "eff_dispose e' = UProvide u i m" for e' i m
  proof -
    have mono: "own_impl (w_realms (run_all (run_undo P) es w1)) i n = Some x \<Longrightarrow> own_impl (w_realms w1) i n = Some x" for n x
      using ih by blast
    show ?thesis
    proof (cases "e' = e")
      case True
      with s(9) that(2) mono show ?thesis by blast
    next
      case False
      with that have "e' \<in> set es" by simp
      with that(2) ih show ?thesis by blast
    qed
  qed
  from ih have "\<exists>qs. w_heap (run_all (run_undo P) es w1) u = Some (b\<lparr>fb_provided := qs\<rparr>)" by auto
  with ih gone s evolves_trans [OF s(2)] show ?case unfolding all by auto
qed

text \<open>Replacing one fiber, keeping its place in the tree.\<close>

lemma fiber_ok_update:
  assumes ok: "fiber_ok w v c" and u: "w_heap w u = Some b" and h: "w_heap w' = (w_heap w)(u \<mapsto> b')"
    and same: "fb_parent b' = fb_parent b" "fb_children b' = fb_children b"
      "fb_state b' = Disposed \<longleftrightarrow> fb_state b = Disposed"
    and w: "w_table w' = w_table w" "w_uid w' = w_uid w" "w_next_realm w' = w_next_realm w"
  shows "fiber_ok w' v c"
proof -
  note o = fiber_okD [OF ok]
  show ?thesis
    unfolding fiber_ok_def w
  proof (intro conjI ballI allI impI)
    fix k assume "k \<in> set (fb_children c)"
    with o(7) obtain bc where k: "v < k" "w_heap w k = Some bc" "fb_parent bc = Some v" "fb_state bc \<noteq> Disposed"
      by blast
    then show "v < k" by simp
    from k u same show "\<exists>bc. w_heap w' k = Some bc \<and> fb_parent bc = Some v \<and> fb_state bc \<noteq> Disposed"
      unfolding h by (cases "k = u") auto
  next
    fix p assume "fb_parent c = Some p \<and> fb_state c \<noteq> Disposed"
    with o(8) obtain bp where "w_heap w p = Some bp" "v \<in> set (fb_children bp)" by blast
    with u same show "\<exists>bp. w_heap w' p = Some bp \<and> v \<in> set (fb_children bp)"
      unfolding h by (cases "p = u") auto
  qed (use o in blast)+
qed

lemma table_ok_update:
  assumes "table_ok w" and "w_heap w u = Some b" and h: "w_heap w' = (w_heap w)(u \<mapsto> b')"
    and "fb_entry b' = fb_entry b" and "w_table w' = w_table w"
  shows "table_ok w'"
  unfolding table_ok_def
proof (intro conjI allI impI)
  show "dict_wf (w_table w')" using assms by (simp add: table_ok_def)
  fix k v assume "map_of (w_table w') k = Some v"
  with assms obtain c where "w_heap w v = Some c" "fb_entry c = k" unfolding table_ok_def by metis
  with assms(2,4) show "\<exists>b. w_heap w' v = Some b \<and> fb_entry b = k" unfolding h by (cases "v = u") auto
qed

lemma unwind_effects_spec:
  assumes ok: "tree_ok w" and u: "w_heap w u = Some b" and run: "unwind_effects P u w = (r, w')"
  shows "tree_ok w'" and "evolves {} w w'" and "w_uid w' = w_uid w" and "w_next_realm w' = w_next_realm w"
    and "w_table w' = w_table w" and "\<And>v. v \<noteq> u \<Longrightarrow> w_heap w' v = w_heap w v"
    and "\<exists>ps st. w_heap w' u = Some (b\<lparr>fb_provided := ps, fb_effects := st\<rparr>) \<and> es_effects st = []"
proof -
  define w1 where "w1 = upd u (\<lambda>b. b\<lparr>fb_provided := []\<rparr>) w"
  define es where "es = es_effects (fb_effects b)"
  define w2 where "w2 = run_all (run_undo P) (rev es) w1"
  have s1: "same_tree w1 w" unfolding w1_def by (rule same_tree_upd) (simp add: lean_def)
  then have ok1: "tree_ok w1" using ok tree_ok_same_tree by blast
  have q1: "evolves {} w w1" unfolding w1_def by (rule quiet_evolves, rule quiet_upd) (simp add: ident_def life_def)
  from u have u1: "w_heap w1 u = Some (b\<lparr>fb_provided := []\<rparr>)" by (simp add: w1_def tree_simps)
  note fo = fiber_okD [OF tree_okD(1) [OF ok u]]
  have mine: "\<forall>e \<in> set (rev es). \<forall>v i m. eff_dispose e = UProvide v i m \<longrightarrow> v = u \<and> i < w_next_realm w1"
    using fo(5) by (auto simp: files_def es_def w1_def tree_simps)
  note ra = run_all_spec [OF ok1 u1 mine, of P, folded w2_def]
  then obtain ps where ps: "w_heap w2 u = Some (b\<lparr>fb_provided := ps\<rparr>)" by auto
  obtain st where st: "es_unwind (run_undo P) (fb_effects b) w1 = (fst (es_unwind (run_undo P) (fb_effects b) w1), st, w2)"
    and ste: "es_effects st = []" "\<not> es_unwinding st" "es_wf st"
    using es_unwind_result [OF fo(3), of "run_undo P" w1] es_wf_unwind [OF fo(3), of "run_undo P" w1]
    by (auto simp: Let_def w2_def es_def)
  define w3 where "w3 = upd u (\<lambda>b. b\<lparr>fb_effects := st\<rparr>) w2"
  have w': "same_tree w' w3 \<and> quiet {} w3 w' \<and> w_heap w' = w_heap w3"
    using run st u1 by (auto simp: unwind_effects_def Let_def w1_def [symmetric] w3_def [symmetric] same_tree_fields
        quiet_fields tree_simps split: option.splits exn.splits prod.splits)
  have h3: "w_heap w3 = (w_heap w2)(u \<mapsto> b\<lparr>fb_provided := ps, fb_effects := st\<rparr>)"
    using ps by (simp add: w3_def tree_simps fun_eq_iff)
  have f3: "w_realms w3 = w_realms w2" "w_table w3 = w_table w2" "w_next_realm w3 = w_next_realm w2" "w_uid w3 = w_uid w2"
    by (simp_all add: w3_def tree_simps)
  from ra have ok2: "tree_ok w2" by blast
  have "tree_ok w3"
    unfolding tree_ok_def
  proof (intro conjI allI impI)
    fix v c assume v: "w_heap w3 v = Some c"
    have keep: "fiber_ok w2 x y \<Longrightarrow> fiber_ok w3 x y" for x y
      by (rule fiber_ok_update [OF _ ps h3]) (simp_all add: f3)
    show "fiber_ok w3 v c"
    proof (cases "v = u")
      case True
      with v h3 have c: "c = b\<lparr>fb_provided := ps, fb_effects := st\<rparr>" by simp
      from keep [OF tree_okD(1) [OF ok2 ps]] ste show ?thesis
        unfolding c True fiber_ok_def files_def by simp
    next
      case False
      with v h3 have "w_heap w2 v = Some c" by simp
      then show ?thesis using keep tree_okD(1) [OF ok2] by blast
    qed
  next
    show "realms_ok w3" using tree_okD(2) [OF ok2] by (simp add: realms_ok_def f3)
  next
    show "table_ok w3" by (rule table_ok_update [OF tree_okD(4) [OF ok2] ps h3]) (simp_all add: f3)
  next
    show "services_owned w3"
      unfolding services_owned_def f3
    proof (intro allI impI)
      fix i n m assume m: "own_impl (w_realms w2) i n = Some m"
      with tree_okD(3) [OF ok2] obtain c where c: "w_heap w2 (im_fiber m) = Some c" "files (im_fiber m) i m c"
        unfolding services_owned_def by blast
      have n: "sk_name (im_key m) = n"
        using tree_okD(2) [OF ok2] m
        by (auto simp: realms_ok_def realms_wf_def own_impl_def split: option.splits)
      have "im_fiber m \<noteq> u"
      proof
        assume "im_fiber m = u"
        with c ps have "files u i m (b\<lparr>fb_provided := ps\<rparr>)" by simp
        then have "files u i m b" by (simp add: files_def)
        then obtain e where "e \<in> set (rev es)" "eff_dispose e = UProvide u i m" by (auto simp: files_def es_def)
        with ra n m show False by blast
      qed
      with c h3 show "\<exists>b. w_heap w3 (im_fiber m) = Some b \<and> files (im_fiber m) i m b" by auto
    qed
  qed
  with w' tree_ok_same_tree show "tree_ok w'" by blast
  have "quiet {} w2 w3" unfolding w3_def by (rule quiet_upd) (simp add: ident_def life_def)
  with w' ra q1 show "evolves {} w w'" by (meson evolves_trans quiet_evolves)
  from ra f3 w' show "w_uid w' = w_uid w" "w_next_realm w' = w_next_realm w" "w_table w' = w_table w"
    by (auto simp: same_tree_def w1_def tree_simps)
  show "w_heap w' v = w_heap w v" if "v \<noteq> u" for v
    using that w' h3 ra by (simp add: w1_def tree_simps)
  show "\<exists>ps st. w_heap w' u = Some (b\<lparr>fb_provided := ps, fb_effects := st\<rparr>) \<and> es_effects st = []"
    using w' h3 ste by auto
qed


section \<open>Disposal\<close>

lemma retire_heap:
  assumes ok: "tree_ok w" and u: "w_heap w u = Some b" and "fb_state b \<noteq> Disposed"
  shows "w_heap (retire u w) v = (if v = u then Some (b\<lparr>fb_state := Disposed\<rparr>)
      else if fb_parent b = Some v then map_option (\<lambda>x. x\<lparr>fb_children := remove1 u (fb_children x)\<rparr>) (w_heap w v)
      else w_heap w v)"
    and "w_table (retire u w) = dict_del (w_table w) (fb_entry b)"
    and "w_realms (retire u w) = w_realms w" "w_uid (retire u w) = w_uid w"
      "w_next_realm (retire u w) = w_next_realm w" "w_pending (retire u w) = w_pending w"
    and "quiet {} w (retire u w)"
proof -
  note f = fiber_okD [OF tree_okD(1) [OF ok u]]
  define w1 where "w1 = (case fb_parent b of None \<Rightarrow> w
                | Some p \<Rightarrow> upd p (\<lambda>b. b\<lparr>fb_children := remove1 u (fb_children b)\<rparr>) w)"
  have up: "fb_parent b \<noteq> Some u"
    using f(8) [of u] f(7) [of u] assms(3) u by auto
  have h1: "w_heap w1 v = (if fb_parent b = Some v then map_option (\<lambda>x. x\<lparr>fb_children := remove1 u (fb_children x)\<rparr>) (w_heap w v)
      else w_heap w v)" for v
    by (auto simp: w1_def tree_simps split: option.splits)
  have f1: "w_table w1 = w_table w" "w_realms w1 = w_realms w" "w_uid w1 = w_uid w"
    "w_next_realm w1 = w_next_realm w" "w_pending w1 = w_pending w" "w_rounds w1 = w_rounds w"
    "w_settling w1 = w_settling w" "w_seams w1 = w_seams w" "w_variables w1 = w_variables w"
    "w_disposing w1 = w_disposing w"
    by (auto simp: w1_def tree_simps split: option.splits)
  from up u have u1: "w_heap w1 u = Some b" by (simp add: h1)
  have entry: "map_of (w_table w) (fb_entry b) = Some u" using f(10) assms(3) by blast
  have ret: "retire u w = (let x = transition_to u Disposed w1 in x\<lparr>w_table := dict_del (w_table x) (fb_entry b)\<rparr>)"
    using u u1 entry by (simp add: retire_def w1_def [symmetric] Let_def forget_def tree_simps f1)
  have h: "w_heap (retire u w) = (w_heap w1)(u \<mapsto> b\<lparr>fb_state := Disposed\<rparr>)"
    using u1 by (simp add: ret Let_def tree_simps)
  show "w_heap (retire u w) v = (if v = u then Some (b\<lparr>fb_state := Disposed\<rparr>)
      else if fb_parent b = Some v then map_option (\<lambda>x. x\<lparr>fb_children := remove1 u (fb_children x)\<rparr>) (w_heap w v)
      else w_heap w v)"
    by (simp add: h h1)
  show "w_table (retire u w) = dict_del (w_table w) (fb_entry b)" "w_realms (retire u w) = w_realms w"
    "w_uid (retire u w) = w_uid w" "w_next_realm (retire u w) = w_next_realm w"
    "w_pending (retire u w) = w_pending w"
    by (simp_all add: ret Let_def tree_simps f1)
  show "quiet {} w (retire u w)"
    unfolding quiet_def h using u assms(3)
    by (auto simp: h1 ret Let_def tree_simps f1 ident_def life_def same_settings_def)
qed

lemma retire_spec:
  assumes ok: "tree_ok w" and u: "w_heap w u = Some b" and nd: "fb_state b \<noteq> Disposed"
    and e: "es_effects (fb_effects b) = []" and ch: "fb_children b = []"
  shows "tree_ok (retire u w)"
proof -
  let ?w = "retire u w"
  note h = retire_heap(1) [OF ok u nd] and t = retire_heap(2) [OF ok u nd]
    and r = retire_heap(3-5) [OF ok u nd]
  note f = fiber_okD [OF tree_okD(1) [OF ok u]]
  have dw: "dict_wf (w_table w)" using tree_okD(4) [OF ok] by (simp add: table_ok_def)
  have entry: "map_of (w_table w) (fb_entry b) = Some u" using f(10) nd by blast
  have tab: "map_of (w_table ?w) k = (if k = fb_entry b then None else map_of (w_table w) k)" for k
    by (simp add: t dict_simps)
  have old: "\<exists>c. w_heap w v = Some c \<and> c' = c\<lparr>fb_children := (if fb_parent b = Some v then remove1 u (fb_children c) else fb_children c)\<rparr>"
    if "w_heap ?w v = Some c'" "v \<noteq> u" for v c'
    using that by (auto simp: h split: if_splits)
  show ?thesis
    unfolding tree_ok_def
  proof (intro conjI allI impI)
    fix v c' assume v: "w_heap ?w v = Some c'"
    show "fiber_ok ?w v c'"
    proof (cases "v = u")
      case True
      with v h have c': "c' = b\<lparr>fb_state := Disposed\<rparr>" by simp
      show ?thesis
        unfolding fiber_ok_def True c' r using f e ch by (simp add: tab files_def)
    next
      case False
      from old [OF v False] obtain c where c: "w_heap w v = Some c"
        and c': "c' = c\<lparr>fb_children := (if fb_parent b = Some v then remove1 u (fb_children c) else fb_children c)\<rparr>"
        by blast
      note o = fiber_okD [OF tree_okD(1) [OF ok c]]
      have notin: "u \<notin> set (fb_children c')"
        using o(6) o(7) [of u] u unfolding c' by auto
      have kid: "v < k \<and> (\<exists>bc. w_heap ?w k = Some bc \<and> fb_parent bc = Some v \<and> fb_state bc \<noteq> Disposed)"
        if "k \<in> set (fb_children c')" for k
      proof -
        from that notin have "k \<noteq> u" by auto
        moreover from that have "k \<in> set (fb_children c)" unfolding c' by (auto split: if_splits dest: set_mp [OF set_remove1_subset])
        ultimately show ?thesis using o(7) [of k] by (auto simp: h)
      qed
      have par: "\<exists>bp. w_heap ?w p = Some bp \<and> v \<in> set (fb_children bp)"
        if "fb_parent c = Some p" "fb_state c \<noteq> Disposed" for p
      proof -
        from o(8) [OF that] obtain bp where bp: "w_heap w p = Some bp" "v \<in> set (fb_children bp)" by blast
        with ch u have "p \<noteq> u" by auto
        with bp False show ?thesis by (auto simp: h)
      qed
      have "fb_entry c = fb_entry b \<longrightarrow> fb_state c = Disposed"
        using o(10) entry False by auto
      with o kid par show ?thesis
        unfolding fiber_ok_def r by (auto simp: c' tab files_def)
    qed
  next
    show "realms_ok ?w" using tree_okD(2) [OF ok] by (simp add: realms_ok_def r)
  next
    show "services_owned ?w"
      unfolding services_owned_def r
    proof (intro allI impI)
      fix i n m assume "own_impl (w_realms w) i n = Some m"
      with tree_okD(3) [OF ok] obtain c where c: "w_heap w (im_fiber m) = Some c" "files (im_fiber m) i m c"
        unfolding services_owned_def by blast
      with u e have "im_fiber m \<noteq> u" by (auto simp: files_def)
      with c show "\<exists>b. w_heap ?w (im_fiber m) = Some b \<and> files (im_fiber m) i m b"
        by (auto simp: h files_def)
    qed
  next
    show "table_ok ?w"
      unfolding table_ok_def
    proof (intro conjI allI impI)
      show "dict_wf (w_table ?w)" using dw by (simp add: t)
      fix k v assume a: "map_of (w_table ?w) k = Some v"
      then have k: "k \<noteq> fb_entry b" "map_of (w_table w) k = Some v" by (auto simp: tab split: if_splits)
      with tree_okD(4) [OF ok] obtain c where "w_heap w v = Some c" "fb_entry c = k" unfolding table_ok_def by metis
      with k u show "\<exists>b. w_heap ?w v = Some b \<and> fb_entry b = k" by (cases "v = u") (auto simp: h)
    qed
  qed
qed


definition shrinks :: "world \<Rightarrow> world \<Rightarrow> bool" where
  \<comment> \<open>no fiber, realm or row appears\<close>
  "shrinks w w' = (w_uid w' = w_uid w \<and> w_next_realm w' = w_next_realm w \<and>
     (\<forall>k v. map_of (w_table w') k = Some v \<longrightarrow> map_of (w_table w) k = Some v))"

lemma shrinks_trans: "shrinks w w1 \<Longrightarrow> shrinks w1 w2 \<Longrightarrow> shrinks w w2"
  by (simp add: shrinks_def)

lemma evolves_drop:
  assumes e: "evolves {u} w w'" and d: "w_heap w' u = Some b'" "fb_state b' = Disposed"
  shows "evolves {} w w'"
proof -
  have "fresh {} w w' v c \<or> kept {} w w' v c"
    if "w_heap w' v = Some c" "fb_state c \<noteq> Disposed" for v c
  proof -
    have "v \<noteq> u" using that d by auto
    with evolves_live [OF e that] show ?thesis by (simp add: kept_def fresh_def)
  qed
  with e show ?thesis unfolding evolves_def by simp
qed

text \<open>What disposing \<open>u\<close> does to the fibers allocated before it: it only leaves its parent's list.\<close>

definition disposes :: "nat \<Rightarrow> fiber \<Rightarrow> world \<Rightarrow> world \<Rightarrow> bool" where
  "disposes u b w w' = (tree_ok w' \<and> evolves {} w w' \<and> shrinks w w' \<and>
     (\<forall>v < u. w_heap w' v = (if fb_parent b = Some v
        then map_option (\<lambda>x. x\<lparr>fb_children := remove1 u (fb_children x)\<rparr>) (w_heap w v) else w_heap w v)) \<and>
     (\<exists>b'. w_heap w' u = Some b' \<and> fb_state b' = Disposed))"

lemma dispose_children_spec:
  assumes "tree_ok w" and "w_heap w u = Some b" and "set ds \<subseteq> {u<..}"
    and "fb_children b = ds" and "fb_state b \<noteq> Disposed"
    and step: "\<And>c v bc r v'. c \<in> set ds \<Longrightarrow> tree_ok v \<Longrightarrow> w_uid v = w_uid w \<Longrightarrow> w_heap v c = Some bc \<Longrightarrow>
        fb_state bc \<noteq> Disposed \<Longrightarrow> f c v = (r, v') \<Longrightarrow> disposes c bc v v'"
    and "foldl (\<lambda>s c. let (r, v') = f c (snd s) in (first_error (fst s) r, v')) (ab, w) ds = (r, w')"
  shows "tree_ok w' \<and> evolves {} w w' \<and> shrinks w w' \<and> (\<forall>v < u. w_heap w' v = w_heap w v) \<and>
    w_heap w' u = Some (b\<lparr>fb_children := []\<rparr>)"
  using assms
proof (induction ds arbitrary: w b ab)
  case Nil
  then have "w' = w" by simp
  with Nil show ?case using quiet_evolves [OF quiet_fields(5)] by (simp add: shrinks_def)
next
  case (Cons c ds)
  from fiber_okD(7) [OF tree_okD(1) [OF Cons.prems(1,2)], of c] Cons.prems(4)
  obtain bc where c: "u < c" "w_heap w c = Some bc" "fb_parent bc = Some u" "fb_state bc \<noteq> Disposed" by auto
  obtain r1 w1 where r1: "f c w = (r1, w1)" by (cases "f c w")
  have d: "disposes c bc w w1"
    by (rule Cons.prems(6) [OF _ Cons.prems(1) refl c(2,4) r1]) simp
  from d have ok1: "tree_ok w1" and e1: "evolves {} w w1" and s1: "shrinks w w1"
    by (simp_all add: disposes_def)
  from d c Cons.prems(2,4) have u1: "w_heap w1 u = Some (b\<lparr>fb_children := ds\<rparr>)"
    by (simp add: disposes_def)
  from d c have low: "\<forall>v < u. w_heap w1 v = w_heap w v" by (auto simp: disposes_def)
  have fold1: "foldl (\<lambda>s c. let (r, v') = f c (snd s) in (first_error (fst s) r, v')) (first_error ab r1, w1) ds = (r, w')"
    using Cons.prems(7) r1 by simp
  have uid: "w_uid w1 = w_uid w" using s1 by (simp add: shrinks_def)
  have step1: "\<And>c v bc r v'. c \<in> set ds \<Longrightarrow> tree_ok v \<Longrightarrow> w_uid v = w_uid w1 \<Longrightarrow> w_heap v c = Some bc \<Longrightarrow>
      fb_state bc \<noteq> Disposed \<Longrightarrow> f c v = (r, v') \<Longrightarrow> disposes c bc v v'"
    using Cons.prems(6) uid by (metis list.set_intros(2))
  have "tree_ok w' \<and> evolves {} w1 w' \<and> shrinks w1 w' \<and> (\<forall>v < u. w_heap w' v = w_heap w1 v) \<and>
      w_heap w' u = Some (b\<lparr>fb_children := ds\<rparr>\<lparr>fb_children := []\<rparr>)"
    by (rule Cons.IH [OF ok1 u1 _ _ _ step1 fold1]) (use Cons.prems(3,5) in auto)
  moreover from this e1 have "evolves {} w w'" by (blast intro: evolves_trans)
  moreover from calculation s1 have "shrinks w w'" by (blast intro: shrinks_trans)
  ultimately show ?case using low by simp
qed

lemma dispose_upto_spec:
  assumes "tree_ok w" and "w_heap w u = Some b" and "fb_state b \<noteq> Disposed" and "w_uid w \<le> cap"
    and "dispose_upto P cap u w = (r, w')"
  shows "disposes u b w w'"
  using assms
proof (induction "cap - u" arbitrary: u b w r w' rule: less_induct)
  case less
  note ok = less.prems(1) and u = less.prems(2) and nd = less.prems(3)
  define w1 where "w1 = (if fb_state b = Failed then w else transition_to u Unloading w)"
  have s1: "same_tree w1 w"
    unfolding w1_def using same_tree_transition [of Unloading w u] nd u by (auto simp: live_def same_tree_fields)
  then have ok1: "tree_ok w1" using ok tree_ok_same_tree by blast
  have e1: "evolves {u} w w1"
    unfolding w1_def using quiet_evolves [OF quiet_fields(5)] quiet_evolves [OF quiet_transition [of u "{u}" w Unloading]] nd u
    by (auto simp: live_def)
  obtain b1 where u1: "w_heap w1 u = Some b1" and b1: "b1 = b\<lparr>fb_state := fb_state b1\<rparr>" "fb_state b1 \<noteq> Disposed"
  proof (cases "fb_state b = Failed")
    case True
    with u show ?thesis using that [of b] by (simp add: w1_def)
  next
    case False
    with u show ?thesis using that [of "b\<lparr>fb_state := Unloading\<rparr>"] by (simp add: w1_def tree_simps)
  qed
  have b1': "fb_children b1 = fb_children b" "fb_parent b1 = fb_parent b" by (subst b1(1), simp)+
  have uid: "w_uid w1 = w_uid w" by (simp add: w1_def tree_simps)
  note f1 = fiber_okD [OF tree_okD(1) [OF ok1 u1]]
  have kids: "filter (\<lambda>c. u < c \<and> c \<le> cap) (fb_children b1) = fb_children b1"
  proof (rule filter_True)
    show "\<forall>c \<in> set (fb_children b1). u < c \<and> c \<le> cap"
      using f1(7) fiber_okD(1) [OF tree_okD(1) [OF ok1]] less.prems(4) uid by (metis order_trans)
  qed
  obtain ab w2 where fold: "foldl (\<lambda>s c. let (r, v') = dispose_upto P cap c (snd s) in (first_error (fst s) r, v'))
      (None, w1) (fb_children b1) = (ab, w2)" by fastforce
  have rec: "disposes c bc v v'" if "c \<in> set (fb_children b1)" "tree_ok v" "w_uid v = w_uid w1" "w_heap v c = Some bc"
      "fb_state bc \<noteq> Disposed" "dispose_upto P cap c v = (r0, v')" for c v bc r0 v'
  proof -
    from fiber_okD(1) [OF tree_okD(1) [OF that(2,4)]] that(3) uid less.prems(4) have "c \<le> cap" by simp
    moreover from f1(7) that(1) have "u < c" by blast
    ultimately have "cap - c < cap - u" by simp
    from less.hyps [OF this that(2,4,5) _ that(6)] that(3) uid less.prems(4) show ?thesis by simp
  qed
  have in2: "tree_ok w2 \<and> evolves {} w1 w2 \<and> shrinks w1 w2 \<and> (\<forall>v < u. w_heap w2 v = w_heap w1 v) \<and>
      w_heap w2 u = Some (b1\<lparr>fb_children := []\<rparr>)"
    by (rule dispose_children_spec [OF ok1 u1 _ refl b1(2) rec fold]) (use f1(7) in auto)
  then have ok2: "tree_ok w2" and u2: "w_heap w2 u = Some (b1\<lparr>fb_children := []\<rparr>)" by blast+
  obtain r3 w3 where un: "unwind_effects P u w2 = (r3, w3)" by (cases "unwind_effects P u w2")
  note n = unwind_effects_spec [OF ok2 u2 un]
  obtain st ps where u3: "w_heap w3 u = Some (b1\<lparr>fb_children := [], fb_provided := ps, fb_effects := st\<rparr>)"
    and st: "es_effects st = []" using n(7) by auto
  define w4 where "w4 = (if fb_state b = Failed \<or> first_error ab r3 \<noteq> None then w3
                  else transition_to u Pending (upd u (\<lambda>b. b\<lparr>fb_config := None\<rparr>) w3))"
  obtain b4 where u4: "w_heap w4 u = Some b4" and b4: "fb_state b4 \<noteq> Disposed" "fb_children b4 = []"
    "fb_effects b4 = st" "fb_parent b4 = fb_parent b"
    using u3 b1(2) b1' by (cases "fb_state b = Failed \<or> first_error ab r3 \<noteq> None") (auto simp: w4_def tree_simps)
  have s4: "same_tree w4 w3"
  proof -
    let ?x = "upd u (\<lambda>b. b\<lparr>fb_config := None\<rparr>) w3"
    have "same_tree ?x w3" by (rule same_tree_upd) (simp add: lean_def)
    moreover have "same_tree (transition_to u Pending ?x) ?x"
      by (rule same_tree_transition) (use u3 b1(2) in \<open>simp_all add: live_def tree_simps\<close>)
    ultimately have "same_tree (transition_to u Pending ?x) w3" by (blast intro: same_tree_trans)
    then show ?thesis by (simp add: w4_def same_tree_fields)
  qed
  then have ok4: "tree_ok w4" using n(1) tree_ok_same_tree by blast
  have e4: "evolves {u} w3 w4"
  proof -
    let ?x = "upd u (\<lambda>b. b\<lparr>fb_config := None\<rparr>) w3"
    have "quiet {u} w3 ?x" by (rule quiet_upd) (simp add: ident_def life_def)
    moreover have "quiet {u} ?x (transition_to u Pending ?x)"
      by (rule quiet_transition) (use u3 b1(2) in \<open>simp_all add: live_def tree_simps\<close>)
    ultimately show ?thesis
      using quiet_trans quiet_evolves [OF quiet_fields(5)] by (auto simp: w4_def)
  qed
  have res: "w' = retire u w4"
    using less.prems(5) nd u u1 unfolding dispose_upto.simps [of P cap u w]
    by (auto simp: w1_def [symmetric] kids fold [unfolded Let_def] un w4_def Let_def)
  note rh = retire_heap [OF ok4 u4 b4(1)]
  have "tree_ok w'" unfolding res by (rule retire_spec [OF ok4 u4 b4(1)]) (use b4 st in auto)
  moreover have "evolves {u} w w'"
    unfolding res
    by (meson e1 e4 evolves_mono evolves_trans empty_subsetI in2 n(2) quiet_evolves rh(7))
  moreover have d: "w_heap w' u = Some (b4\<lparr>fb_state := Disposed\<rparr>)" unfolding res rh(1) by simp
  ultimately have "evolves {} w w'" using evolves_drop by fastforce
  moreover have "shrinks w w'"
    using in2 n(3-5) s4 rh s1 unfolding res shrinks_def same_tree_def
    by (simp add: dict_simps split: if_splits)
  moreover have "w_heap w' v = (if fb_parent b = Some v
      then map_option (\<lambda>x. x\<lparr>fb_children := remove1 u (fb_children x)\<rparr>) (w_heap w v) else w_heap w v)" if "v < u" for v
  proof -
    have "w_heap w4 v = w_heap w v"
      using that in2 n(6) by (auto simp: w4_def w1_def tree_simps)
    with that show ?thesis unfolding res rh(1) b4(4) by simp
  qed
  ultimately show ?case using \<open>tree_ok w'\<close> d by (simp add: disposes_def)
qed

lemma dispose_fiber_spec:
  assumes "tree_ok w" and "w_heap w u = Some b" and "fb_state b \<noteq> Disposed" and "dispose_fiber P u w = (r, w')"
  shows "disposes u b w w'"
  by (rule dispose_upto_spec [OF assms(1-3) order_refl assms(4) [unfolded dispose_fiber_def]])


lemma discard_effects_spec:
  assumes ok: "tree_ok w" and u: "w_heap w u = Some b" and nd: "fb_state b \<noteq> Disposed"
    and run: "discard_effects P u w = (r, w')"
  shows "tree_ok w'" and "evolves {} w w'" and "shrinks w w'"
    and "\<exists>ps st. w_heap w' u = Some (b\<lparr>fb_children := [], fb_provided := ps, fb_effects := st\<rparr>) \<and> es_effects st = []"
proof -
  obtain ab w1 where c: "dispose_children P (fb_children b) w = (ab, w1)"
    by (cases "dispose_children P (fb_children b) w")
  obtain r2 where un: "unwind_effects P u w1 = (r2, w')"
    using run u c by (cases "unwind_effects P u w1") (simp add: discard_effects_def)
  have d: "tree_ok w1 \<and> evolves {} w w1 \<and> shrinks w w1 \<and> (\<forall>v < u. w_heap w1 v = w_heap w v) \<and>
    w_heap w1 u = Some (b\<lparr>fb_children := []\<rparr>)"
    by (rule dispose_children_spec [OF ok u _ refl nd _ c [unfolded dispose_children_def]])
      (use fiber_okD(7) [OF tree_okD(1) [OF ok u]] in \<open>auto intro: dispose_fiber_spec\<close>)
  then have ok1: "tree_ok w1" and u1: "w_heap w1 u = Some (b\<lparr>fb_children := []\<rparr>)" by blast+
  note n = unwind_effects_spec [OF ok1 u1 un]
  show "tree_ok w'" by (rule n(1))
  show "evolves {} w w'" using d n(2) evolves_trans by blast
  show "shrinks w w'" using d n(3-5) by (simp add: shrinks_def)
  show "\<exists>ps st. w_heap w' u = Some (b\<lparr>fb_children := [], fb_provided := ps, fb_effects := st\<rparr>) \<and> es_effects st = []"
    using n(7) by simp
qed

lemma transition_spec:
  assumes "tree_ok w" and "w_heap w u = Some b" and "fb_state b \<noteq> Disposed" and "s \<noteq> Disposed"
  shows "tree_ok (transition_to u s w)" and "evolves {u} w (transition_to u s w)"
    and "w_heap (transition_to u s w) u = Some (b\<lparr>fb_state := s\<rparr>)"
proof -
  have "live w u" using assms by (simp add: live_def)
  then show "tree_ok (transition_to u s w)"
    using tree_ok_same_tree [OF same_tree_transition] assms by blast
  show "evolves {u} w (transition_to u s w)"
    using \<open>live w u\<close> by (intro quiet_evolves quiet_transition) auto
  show "w_heap (transition_to u s w) u = Some (b\<lparr>fb_state := s\<rparr>)" using assms(2) by (simp add: tree_simps)
qed

lemma upd_spec:
  assumes "tree_ok w" and "w_heap w u = Some b" and "lean (f b) = lean b"
    and "ident (f b) = ident b" and "fb_state (f b) = fb_state b"
  shows "tree_ok (upd u f w)" and "evolves {u} w (upd u f w)"
    and "life (f b) = life b \<Longrightarrow> fb_restart (f b) = fb_restart b \<Longrightarrow> evolves {} w (upd u f w)" and "w_heap (upd u f w) u = Some (f b)"
proof -
  show "tree_ok (upd u f w)" by (rule tree_ok_same_tree [OF same_tree_upd]) (use assms in auto)
  show "evolves {u} w (upd u f w)" by (rule quiet_evolves, rule quiet_upd) (use assms in auto)
  show "evolves {} w (upd u f w)" if "life (f b) = life b" "fb_restart (f b) = fb_restart b"
    by (rule quiet_evolves, rule quiet_upd) (use assms that in auto)
  show "w_heap (upd u f w) u = Some (f b)" using assms(2) by (simp add: tree_simps)
qed

lemma unload_spec:
  assumes ok: "tree_ok w" and u: "w_heap w u = Some b" and nd: "fb_state b \<noteq> Disposed"
    and run: "unload P u w = (r, w')"
  shows "tree_ok w'" and "evolves {u} w w'" and "shrinks w w'"
    and "\<exists>b'. w_heap w' u = Some b' \<and> fb_epoch b' = fb_epoch b \<and> fb_restart b' = fb_restart b \<and>
      fb_state b' = (if r = None then Pending else Unloading)"
proof -
  note t = transition_spec [OF ok u nd, of Unloading, simplified]
  let ?w = "transition_to u Unloading w"
  obtain r1 w1 where d: "discard_effects P u ?w = (r1, w1)" by (cases "discard_effects P u ?w")
  note n = discard_effects_spec [OF t(1,3) _ d, simplified]
  obtain ps st where u1: "w_heap w1 u = Some (b\<lparr>fb_state := Unloading, fb_children := [], fb_provided := ps, fb_effects := st\<rparr>)"
    using n(4) by auto
  have e1: "evolves {u} w w1" using t(2) n(2) by (meson empty_subsetI evolves_mono evolves_trans)
  have s1: "shrinks w w1" using n(3) by (simp add: shrinks_def tree_simps)
  show "tree_ok w'" "evolves {u} w w'" "shrinks w w'"
    "\<exists>b'. w_heap w' u = Some b' \<and> fb_epoch b' = fb_epoch b \<and> fb_restart b' = fb_restart b \<and>
      fb_state b' = (if r = None then Pending else Unloading)"
  proof -
    have "tree_ok w' \<and> evolves {u} w w' \<and> shrinks w w' \<and> (\<exists>b'. w_heap w' u = Some b' \<and> fb_epoch b' = fb_epoch b \<and>
      fb_restart b' = fb_restart b \<and> fb_state b' = (if r = None then Pending else Unloading))"
    proof (cases r1)
      case None
      let ?x = "upd u (\<lambda>b. b\<lparr>fb_config := None\<rparr>) w1"
      note x = upd_spec [OF n(1) u1, of "\<lambda>b. b\<lparr>fb_config := None\<rparr>", simplified lean_def ident_def, simplified]
      note y = transition_spec [OF x(1) x(4), of Pending, simplified]
      from run d None have w': "w' = transition_to u Pending ?x" "r = None" by (simp_all add: unload_def)
      have "evolves {u} w w'" unfolding w' by (rule evolves_trans [OF evolves_trans [OF e1 x(2)] y(2)])
      with w' y s1 u1 show ?thesis by (simp add: shrinks_def tree_simps)
    next
      case (Some e)
      with run d have "w' = w1" "r = Some e" by (simp_all add: unload_def)
      with n(1) e1 s1 u1 show ?thesis by simp
    qed
    then show "tree_ok w'" "evolves {u} w w'" "shrinks w w'"
      "\<exists>b'. w_heap w' u = Some b' \<and> fb_epoch b' = fb_epoch b \<and> fb_restart b' = fb_restart b \<and>
        fb_state b' = (if r = None then Pending else Unloading)" by blast+
  qed
qed


section \<open>Mounting\<close>

lemma realm_isolate_low:
  assumes "j < i"
  shows "owner_of (realm_isolate h p i l ns) j n = owner_of h j n" and "realm_root (realm_isolate h p i l ns) j = realm_root h j"
proof -
  let ?h = "realm_isolate h p i l ns"
  have up: "k < i \<Longrightarrow> realm_up ?h k = realm_up h k" for k by (simp add: realm_up_def realm_isolate_def)
  have here: "k < i \<Longrightarrow> ?h k = h k" for k by (simp add: realm_isolate_def)
  show "owner_of ?h j n = owner_of h j n"
    using assms
  proof (induction j rule: less_induct)
    case (less j)
    show ?case
    proof (cases "realm_up h j")
      case None
      then show ?thesis by (simp add: owner_of.simps [of ?h j n] owner_of.simps [of h j n] up [OF less.prems])
    next
      case (Some a)
      with less.IH [of a] less.prems realm_up_less [OF Some] show ?thesis
        by (simp add: owner_of.simps [of ?h j n] owner_of.simps [of h j n] up [OF less.prems] here [OF less.prems])
    qed
  qed
  show "realm_root ?h j = realm_root h j"
    using assms
  proof (induction j rule: less_induct)
    case (less j)
    show ?case
    proof (cases "realm_up h j")
      case None
      then show ?thesis by (simp add: realm_root.simps [of ?h j] realm_root.simps [of h j] up [OF less.prems])
    next
      case (Some a)
      with less.IH [of a] less.prems realm_up_less [OF Some] show ?thesis
        by (simp add: realm_root.simps [of ?h j] realm_root.simps [of h j] up [OF less.prems])
    qed
  qed
qed

lemma realm_isolate_resolve:
  assumes "j < i" and "i \<notin> dom h"
  shows "realm_resolve (realm_isolate h p i l ns) j n = realm_resolve h j n"
proof -
  have "owner_of h j n < i" using owner_le [of h j n] assms(1) by simp
  then show ?thesis
    unfolding realm_resolve_def realm_isolate_low [OF assms(1)] by (simp add: own_impl_def realm_isolate_def)
qed

lemma realm_isolate_ok:
  assumes ok: "realms_ok w" and p: "p < w_next_realm w"
  shows "realms_ok (w\<lparr>w_realms := realm_isolate (w_realms w) p (w_next_realm w) l ns,
      w_next_realm := Suc (w_next_realm w)\<rparr>)" (is "realms_ok ?w")
proof -
  let ?h = "realm_isolate (w_realms w) p (w_next_realm w) l ns" and ?i = "w_next_realm w"
  have "realms_wf ?h"
    using ok p unfolding realms_ok_def realms_wf_def realm_isolate_def new_realm_def
    by (auto split: if_splits)
  moreover have "realm_listeners ?h j \<noteq> []" if "j < Suc ?i" for j
  proof -
    have low: "realm_listeners ?h k \<noteq> []" if "k < ?i" for k
    proof -
      have "realm_root g k \<le> k" for g k
      proof (induction k rule: less_induct)
        case (less k)
        show ?case
          using less.IH [OF realm_up_less] by (auto simp: realm_root.simps [of g k] split: option.splits)
            (meson le_trans less_imp_le_nat realm_up_less)
      qed
      with that have "realm_root (w_realms w) k < ?i" using le_less_trans by blast
      then show ?thesis
        using ok that unfolding realm_listeners_def realm_isolate_low [OF that] realms_ok_def
        by (simp add: realm_isolate_def)
    qed
    have "realm_up ?h ?i = Some p" using p by (simp add: realm_up_def realm_isolate_def new_realm_def)
    then have "realm_root ?h ?i = realm_root ?h p" by (simp add: realm_root.simps [of ?h ?i])
    with low [OF p] low that show ?thesis by (cases "j = ?i") (auto simp: realm_listeners_def)
  qed
  moreover have "?h j \<noteq> None \<longleftrightarrow> j < Suc ?i" for j
    using ok unfolding realms_ok_def by (auto simp: realm_isolate_def less_Suc_eq)
  ultimately show ?thesis by (simp add: realms_ok_def)
qed

lemma tree_ok_isolate:
  assumes ok: "tree_ok w" and p: "p < w_next_realm w"
  shows "tree_ok (w\<lparr>w_realms := realm_isolate (w_realms w) p (w_next_realm w) l ns,
      w_next_realm := Suc (w_next_realm w)\<rparr>)"
    and "evolves {} w (w\<lparr>w_realms := realm_isolate (w_realms w) p (w_next_realm w) l ns,
      w_next_realm := Suc (w_next_realm w)\<rparr>)"
proof -
  let ?w = "w\<lparr>w_realms := realm_isolate (w_realms w) p (w_next_realm w) l ns,
      w_next_realm := Suc (w_next_realm w)\<rparr>"
  let ?h = "realm_isolate (w_realms w) p (w_next_realm w) l ns"
  have unused: "w_next_realm w \<notin> dom (w_realms w)"
    using tree_okD(2) [OF ok] by (auto simp: realms_ok_def)
  have own: "own_impl ?h i n = own_impl (w_realms w) i n" for i n
    using unused by (auto simp: own_impl_def realm_isolate_def new_realm_def domIff)
  have "fiber_ok ?w u b" if "w_heap w u = Some b" for u b
  proof -
    note o = fiber_okD [OF tree_okD(1) [OF ok that]]
    have "files v i m b \<Longrightarrow> v = u \<and> i < Suc (w_next_realm w)" for v i m using o(5) less_SucI by blast
    with o show ?thesis unfolding fiber_ok_def by simp
  qed
  then show "tree_ok ?w"
    using realm_isolate_ok [OF tree_okD(2) [OF ok] p] tree_okD(3,4) [OF ok]
    by (simp add: tree_ok_def services_owned_def own table_ok_def)
  have "kept {} w ?w v b" if b: "w_heap w v = Some b" "fb_state b \<noteq> Disposed" for v b
  proof -
    note lt = fiber_okD(2) [OF tree_okD(1) [OF ok b(1)]]
    have "compute_epoch ?w b = compute_epoch w b"
      by (rule compute_epoch_cong) (simp_all add: realm_isolate_resolve [OF lt unused])
    with b show ?thesis by (simp add: kept_def)
  qed
  then show "evolves {} w ?w" unfolding evolves_def by (simp add: same_settings_def)
qed

text \<open>Adding a fresh fiber under a live parent.\<close>

lemma add_fiber_spec:
  assumes ok: "tree_ok w" and new: "w_uid w < u" and b: "b = new_fiber d config resolved entry realm required parent"
    and realm: "realm < w_next_realm w" and free: "map_of (w_table w) entry = None"
    and par: "\<And>p. parent = Some p \<Longrightarrow> \<exists>bp. w_heap w p = Some bp \<and> fb_state bp \<noteq> Disposed"
    and w': "w_heap w' = (\<lambda>v. if v = u then Some b else if parent = Some v
        then map_option (\<lambda>x. x\<lparr>fb_children := fb_children x @ [u]\<rparr>) (w_heap w v) else w_heap w v)"
    and f: "w_table w' = dict_set (w_table w) entry u" "w_uid w' = u" "w_next_realm w' = w_next_realm w"
      "w_realms w' = w_realms w" "set (w_pending w') = insert u (set (w_pending w))"
      "w_rounds w' = w_rounds w" "w_settling w' = w_settling w" "w_seams w' = w_seams w"
      "w_variables w' = w_variables w" "w_disposing w' = w_disposing w"
  shows "tree_ok w'" and "evolves {} w w'"
proof -
  have unused: "w_heap w v = None" if "u \<le> v" for v
    using fiber_okD(1) [OF tree_okD(1) [OF ok, of v]] new that by (cases "w_heap w v") force+
  have low: "v < u" if "w_heap w v = Some c" for v c using unused [of v] that by (cases "u \<le> v") auto
  have bf: "fb_entry b = entry" "fb_realm b = realm" "fb_children b = []" "fb_parent b = parent"
    "fb_state b = Pending" "fb_effects b = es_empty entry" by (simp_all add: b new_fiber_def)
  have nofree: "fb_entry c = entry \<Longrightarrow> fb_state c = Disposed" if "w_heap w v = Some c" for v c
    using fiber_okD(10) [OF tree_okD(1) [OF ok that]] free by auto
  have tab: "map_of (w_table w') k = (if k = entry then Some u else map_of (w_table w) k)" for k
    by (simp add: f dict_simps)
  have old: "\<exists>c. w_heap w v = Some c \<and> v < u \<and> c' = c\<lparr>fb_children := fb_children c @ (if parent = Some v then [u] else [])\<rparr>"
    if "w_heap w' v = Some c'" "v \<noteq> u" for v c'
    using that low by (auto simp: w' split: if_splits)
  have up: "\<exists>c'. w_heap w' v = Some c' \<and> c' = c\<lparr>fb_children := fb_children c @ (if parent = Some v then [u] else [])\<rparr>"
    if "w_heap w v = Some c" for v c
    using that low [OF that] by (auto simp: w')
  show "tree_ok w'"
    unfolding tree_ok_def
  proof (intro conjI allI impI)
    fix v c' assume v: "w_heap w' v = Some c'"
    show "fiber_ok w' v c'"
    proof (cases "v = u")
      case True
      with v have c': "c' = b" by (simp add: w')
      have "\<exists>bp. w_heap w' p = Some bp \<and> u \<in> set (fb_children bp)" if "parent = Some p" for p
        using par [OF that] up that by force
      then show ?thesis
        unfolding fiber_ok_def True c' bf f using realm by (auto simp: files_def es_empty_def dict_simps bf es_wf_def)
    next
      case False
      from old [OF v False] obtain c where c: "w_heap w v = Some c" "v < u"
        and c': "c' = c\<lparr>fb_children := fb_children c @ (if parent = Some v then [u] else [])\<rparr>" by blast
      note o = fiber_okD [OF tree_okD(1) [OF ok c(1)]]
      have kid: "v < k \<and> (\<exists>bc. w_heap w' k = Some bc \<and> fb_parent bc = Some v \<and> fb_state bc \<noteq> Disposed)"
        if "k \<in> set (fb_children c')" for k
      proof (cases "k = u")
        case True
        with that o(7) [of u] unused [of u] have "parent = Some v" by (auto simp: c' split: if_splits)
        with True c(2) show ?thesis by (simp add: w' bf)
      next
        case False
        with that have "k \<in> set (fb_children c)" by (auto simp: c' split: if_splits)
        with o(7) up show ?thesis by fastforce
      qed
      have par': "\<exists>bp. w_heap w' p = Some bp \<and> v \<in> set (fb_children bp)"
        if "fb_parent c = Some p" "fb_state c \<noteq> Disposed" for p
        using o(8) [OF that] up by fastforce
      have dist: "distinct (fb_children c')" using o(6) o(7) [of u] unused [of u] by (auto simp: c')
      have dead: "fb_state c = Disposed \<Longrightarrow> parent \<noteq> Some v" using par c(1) by auto
      have tabv: "map_of (w_table w') (fb_entry c) = Some v \<longleftrightarrow> fb_state c \<noteq> Disposed"
        using o(10) nofree [OF c(1)] False by (auto simp: tab)
      show ?thesis
        unfolding fiber_ok_def f using o(2-5,9) c(2) kid par' dist dead tabv
        by (auto simp: c' files_def f)
    qed
  next
    show "realms_ok w'" using tree_okD(2) [OF ok] by (simp add: realms_ok_def f)
  next
    show "services_owned w'"
      unfolding services_owned_def f
    proof (intro allI impI)
      fix i n m assume "own_impl (w_realms w) i n = Some m"
      with tree_okD(3) [OF ok] obtain c where c: "w_heap w (im_fiber m) = Some c" "files (im_fiber m) i m c"
        unfolding services_owned_def by blast
      from up [OF c(1)] obtain ks where "w_heap w' (im_fiber m) = Some (c\<lparr>fb_children := ks\<rparr>)" by blast
      with c(2) show "\<exists>b. w_heap w' (im_fiber m) = Some b \<and> files (im_fiber m) i m b" by (simp add: files_def)
    qed
  next
    show "table_ok w'"
      unfolding table_ok_def
    proof (intro conjI allI impI)
      show "dict_wf (w_table w')" using tree_okD(4) [OF ok] by (simp add: f table_ok_def)
      fix k v assume "map_of (w_table w') k = Some v"
      then have "(if k = entry then Some u else map_of (w_table w) k) = Some v" by (simp only: tab)
      then consider "k = entry" "v = u" | "map_of (w_table w) k = Some v" by (cases "k = entry") simp_all
      then show "\<exists>b. w_heap w' v = Some b \<and> fb_entry b = k"
      proof cases
        case 1 then show ?thesis by (simp add: w' bf)
      next
        case 2
        with tree_okD(4) [OF ok] obtain c where c: "w_heap w v = Some c" "fb_entry c = k" unfolding table_ok_def by blast
        from up [OF c(1)] obtain ks where "w_heap w' v = Some (c\<lparr>fb_children := ks\<rparr>)" by blast
        with c(2) show ?thesis by simp
      qed
    qed
  qed
  have "fresh {} w w' v c' \<or> kept {} w w' v c'"
    if c': "w_heap w' v = Some c'" "fb_state c' \<noteq> Disposed" for v c'
  proof (cases "v = u")
    case True
    with c'(1) have "c' = b" by (simp add: w')
    with True new f show ?thesis by (simp add: fresh_def life_def b new_fiber_def)
  next
    case False
    from old [OF c'(1) False] obtain ks c where c: "w_heap w v = Some c" "c' = c\<lparr>fb_children := ks\<rparr>" by blast
    have "compute_epoch w' c' = compute_epoch w c"
      by (rule compute_epoch_cong) (simp_all add: f c(2))
    with c c'(2) show ?thesis by (simp add: kept_def life_def)
  qed
  moreover have "\<exists>b'. w_heap w' v = Some b' \<and> ident b' = ident c" if "w_heap w v = Some c" for v c
    using up [OF that] by (auto simp: ident_def)
  ultimately show "evolves {} w w'"
    unfolding evolves_def using new f w' by (auto simp: same_settings_def)
qed

lemma mount_spec:
  assumes ok: "tree_ok w" and parent: "\<forall>p. parent = Some p \<longrightarrow> (\<exists>bp. w_heap w p = Some bp \<and> fb_state bp \<noteq> Disposed)"
    and run: "mount d config entry required resolved isolate parent w = (r, w')"
  shows "tree_ok w'" and "evolves {} w w'" and "r = Inl e \<Longrightarrow> w' = w"
    and "r = Inr u \<Longrightarrow> w_heap w u = None \<and> u \<in> set (w_pending w') \<and> live w' u"
    and "w_heap w v = Some b \<Longrightarrow> \<exists>ks. w_heap w' v = Some (b\<lparr>fb_children := ks\<rparr>)"
proof -
  note par = parent [rule_format]
  have "tree_ok w' \<and> evolves {} w w' \<and> (\<forall>e. r = Inl e \<longrightarrow> w' = w) \<and>
    (\<forall>u. r = Inr u \<longrightarrow> w_heap w u = None \<and> u \<in> set (w_pending w') \<and> live w' u) \<and>
    (\<forall>v b. w_heap w v = Some b \<longrightarrow> (\<exists>ks. w_heap w' v = Some (b\<lparr>fb_children := ks\<rparr>)))"
  proof (cases r)
    case (Inl e)
    with run have "w' = w" by (auto simp: mount_def Let_def split: sum.splits if_splits prod.splits)
    moreover have "\<exists>ks. b = b\<lparr>fb_children := ks\<rparr>" for b :: fiber by (rule exI [of _ "fb_children b"]) simp
    ultimately show ?thesis using ok quiet_evolves [OF quiet_fields(5)] Inl by auto
  next
    case (Inr u)
    define id where "id = (if entry \<noteq> [] then entry else dc_name d)"
    define base where "base = base_realm w parent"
    have base: "base < w_next_realm w"
    proof (cases parent)
      case None
      with tree_okD(2) [OF ok] show ?thesis by (simp add: base_def base_realm_def realms_ok_def)
    next
      case (Some p)
      with par obtain bp where "w_heap w p = Some bp" by blast
      with Some fiber_okD(2) [OF tree_okD(1) [OF ok this]] show ?thesis by (simp add: base_def base_realm_def)
    qed
    obtain realm w1 where rf: "realm_for base id isolate w = (realm, w1)" by (cases "realm_for base id isolate w")
    then have w1: "w1 = (if isolate = [] then w else w\<lparr>w_realms := realm_isolate (w_realms w) base (w_next_realm w) id isolate,
                                         w_next_realm := Suc (w_next_realm w)\<rparr>)"
      and rl: "realm < w_next_realm w1" using base by (auto simp: realm_for_def split: if_splits)
    from Inr run have free: "map_of (w_table w) id = None" and iso: "isolation_names w isolate = Inr isolate"
      by (auto simp: mount_def Let_def id_def isolation_names_def split: sum.splits if_splits prod.splits)
    have ok1: "tree_ok w1" and e1: "evolves {} w w1"
      using ok tree_ok_isolate [OF ok base, of id isolate] quiet_evolves [OF quiet_fields(5)] by (simp_all add: w1)
    have same: "w_heap w1 = w_heap w" "w_table w1 = w_table w" "w_uid w1 = w_uid w" "w_pending w1 = w_pending w"
      by (simp_all add: w1)
    define b where "b = new_fiber d config resolved id realm required parent"
    have bf: "fb_parent b = parent" "fb_entry b = id" "fb_state b = Pending" by (simp_all add: b_def new_fiber_def)
    from run Inr free iso rf have u: "u = Suc (w_uid w1)" and w': "w' = admit b w1"
      by (simp_all add: mount_def id_def base_def b_def Let_def)
    have unused: "w_heap w u = None"
      using fiber_okD(1) [OF tree_okD(1) [OF ok, of u]] by (cases "w_heap w u") (auto simp: u same)
    have heap: "w_heap w' = (\<lambda>v. if v = u then Some b else if parent = Some v
        then map_option (\<lambda>x. x\<lparr>fb_children := fb_children x @ [u]\<rparr>) (w_heap w1 v) else w_heap w1 v)"
      using par unused by (auto simp: fun_eq_iff w' admit_def Let_def tree_simps u same bf split: option.splits)
    have f': "w_table w' = dict_set (w_table w1) id u" "w_uid w' = u" "w_next_realm w' = w_next_realm w1"
      "w_realms w' = w_realms w1" "w_pending w' = w_pending w1 @ [u]" "w_rounds w' = w_rounds w1"
      "w_settling w' = w_settling w1" "w_seams w' = w_seams w1" "w_variables w' = w_variables w1"
      "w_disposing w' = w_disposing w1"
      by (auto simp: w' admit_def Let_def tree_simps u bf split: option.splits)
    have a: "tree_ok w' \<and> evolves {} w1 w'"
      by (rule conjI; rule add_fiber_spec [OF ok1 _ b_def rl _ _ heap])
        (use free par f' in \<open>auto simp: same u\<close>)
    moreover have "live w' u" by (simp add: live_def heap bf)
    moreover have "u \<in> set (w_pending w')" by (simp add: f')
    moreover have "\<exists>ks. w_heap w' v = Some (b\<lparr>fb_children := ks\<rparr>)" if "w_heap w v = Some b" for v b
    proof -
      have "\<exists>ks. b = b\<lparr>fb_children := ks\<rparr>" by (rule exI [of _ "fb_children b"]) simp
      with that unused show ?thesis by (auto simp: heap same)
    qed
    moreover have "evolves {} w w'" using a e1 by (blast intro: evolves_trans)
    ultimately show ?thesis using unused Inr by simp
  qed
  then show "tree_ok w'" "evolves {} w w'" "r = Inl e \<Longrightarrow> w' = w"
    "r = Inr u \<Longrightarrow> w_heap w u = None \<and> u \<in> set (w_pending w') \<and> live w' u"
    "w_heap w v = Some b \<Longrightarrow> \<exists>ks. w_heap w' v = Some (b\<lparr>fb_children := ks\<rparr>)" by blast+
qed

end
