(* ===== verification/Settle.thy ===== *)
theory Settle
  imports Trees
begin

text \<open>
  What settling a plugin tree achieves (theory Fibers; src/src/aka/core/fiber.py).  Continuing
  theory Trees through a plugin's \<open>apply\<close>: each call keeps \<open>tree_ok\<close> and \<open>evolves\<close>, so a fiber that
  is refreshed is either up to date (\<open>stable\<close>) or queued again, and when the queue runs empty
  every live fiber is stable.  Then the disposal of the whole tree.
\<close>

section \<open>Effects and services\<close>

definition push_effect :: "undo \<Rightarrow> string \<Rightarrow> undo effect_stack \<Rightarrow> undo effect_stack" where
  "push_effect a label st = st\<lparr>es_effects := es_effects st @ [\<lparr>eff_id = es_next st, eff_dispose = a,
     eff_label = (if label = [] then ''effect'' else label), eff_owner = es_owner st\<rparr>],
     es_next := Suc (es_next st)\<rparr>"

lemma file_effect_result:
  assumes "tree_ok w" and "w_heap w u = Some b"
  shows "file_effect P u a label w = (None, upd u (\<lambda>b. b\<lparr>fb_effects := push_effect a label (fb_effects b)\<rparr>) w)"
proof -
  from fiber_okD(4) [OF tree_okD(1) [OF assms]] have "\<not> es_unwinding (fb_effects b)" .
  with assms(2) show ?thesis
    by (simp add: file_effect_def es_add_def push_effect_def upd_def)
qed

lemma push_effect_spec:
  assumes ok: "tree_ok w" and u: "w_heap w u = Some b" and nd: "fb_state b \<noteq> Disposed"
    and a: "\<forall>v i m. a = UProvide v i m \<longrightarrow> v = u \<and> i < w_next_realm w"
    and b': "b' = b\<lparr>fb_provided := ps, fb_effects := push_effect a label (fb_effects b)\<rparr>"
    and w': "w_heap w' = (w_heap w)(u \<mapsto> b')" "w_table w' = w_table w" "w_realms w' = w_realms w"
      "w_uid w' = w_uid w" "w_next_realm w' = w_next_realm w"
  shows "tree_ok w'"
proof -
  have fl: "files v i m b' \<longleftrightarrow> files v i m b \<or> a = UProvide v i m" for v i m
    by (auto simp: files_def b' push_effect_def)
  have keep: "fiber_ok w x y \<Longrightarrow> fiber_ok w' x y" for x y
    by (rule fiber_ok_update [OF _ u w'(1)]) (simp_all add: w' b')
  have wf: "es_wf (fb_effects b')" "\<not> es_unwinding (fb_effects b')"
    using fiber_okD(3,4) [OF tree_okD(1) [OF ok u]]
    by (auto simp: es_wf_def push_effect_def b' less_Suc_eq)
  show ?thesis
    unfolding tree_ok_def
  proof (intro conjI allI impI)
    fix v c assume v: "w_heap w' v = Some c"
    show "fiber_ok w' v c"
    proof (cases "v = u")
      case True
      with v w' have c: "c = b'" by simp
      from keep [OF tree_okD(1) [OF ok u]] wf a nd show ?thesis
        unfolding fiber_ok_def c True fl by (auto simp: w') (auto simp: b')
    next
      case False
      with v w' show ?thesis using keep tree_okD(1) [OF ok] by simp
    qed
  next
    show "realms_ok w'" using tree_okD(2) [OF ok] by (simp add: realms_ok_def w')
    show "table_ok w'" by (rule table_ok_update [OF tree_okD(4) [OF ok] u w'(1)]) (simp_all add: b' w')
    show "services_owned w'"
      unfolding services_owned_def w'(3)
    proof (intro allI impI)
      fix i n m assume "own_impl (w_realms w) i n = Some m"
      with tree_okD(3) [OF ok] obtain c where "w_heap w (im_fiber m) = Some c" "files (im_fiber m) i m c"
        unfolding services_owned_def by blast
      with u show "\<exists>b. w_heap w' (im_fiber m) = Some b \<and> files (im_fiber m) i m b"
        by (cases "im_fiber m = u") (auto simp: w'(1) fl)
    qed
  qed
qed

lemma file_cleanup_spec:
  assumes ok: "tree_ok w" and u: "w_heap w u = Some b" and nd: "fb_state b \<noteq> Disposed"
    and run: "file_effect P u (UCleanup i) label w = (r, w')"
  shows "r = None" and "tree_ok w'" and "evolves {} w w'"
    and "w_heap w' u = Some (b\<lparr>fb_effects := push_effect (UCleanup i) label (fb_effects b)\<rparr>)"
proof -
  from run file_effect_result [OF ok u] have r: "r = None"
    and w': "w' = upd u (\<lambda>b. b\<lparr>fb_effects := push_effect (UCleanup i) label (fb_effects b)\<rparr>) w" by auto
  show "r = None" by (rule r)
  have b: "b\<lparr>fb_provided := fb_provided b\<rparr> = b" by simp
  show "tree_ok w'"
    by (rule push_effect_spec [OF ok u nd, where a = "UCleanup i" and label = label and ps = "fb_provided b"])
      (use u in \<open>simp_all add: w' tree_simps\<close>)
  show "evolves {} w w'"
    unfolding w' by (rule quiet_evolves, rule quiet_upd) (simp add: ident_def life_def)
  show "w_heap w' u = Some (b\<lparr>fb_effects := push_effect (UCleanup i) label (fb_effects b)\<rparr>)"
    using u by (simp add: w' tree_simps)
qed

lemma register_service_Inr:
  assumes "register_service u key v w = Inr (owner, m, w1)"
  obtains h where "w1 = w\<lparr>w_realms := h\<rparr>"
    and "realm_provide (w_realms w) (fb_realm (fib w u)) key v u (fb_entry (fib w u)) = Inr (owner, m, h)"
    and "fb_state (fib w u) \<in> {Loading, Active}" and "map_of (w_seams w) (sk_name key) = Some key"
proof -
  from assms obtain k where k: "seam_key w key = Inr k"
    and st: "fb_state (fib w u) \<in> {Loading, Active}"
    and rp: "bind_res (realm_provide (w_realms w) (fb_realm (fib w u)) k v u (fb_entry (fib w u)))
       (\<lambda>(owner, m, realms). Inr (owner, m, w\<lparr>w_realms := realms\<rparr>)) = Inr (owner, m, w1)"
    by (auto simp: register_service_def bind_res_Inr_iff guard_res_iff)
  from k have "k = key" "map_of (w_seams w) (sk_name key) = Some key"
    by (auto simp: seam_key_def split: option.splits if_splits)
  with rp st that show ?thesis by (auto simp: bind_res_Inr_iff)
qed

lemma provide_realms_ok:
  assumes ok: "realms_ok w" and p: "realm_provide (w_realms w) i key v f e = Inr (owner, m, h)"
  shows "realms_ok (w\<lparr>w_realms := h\<rparr>)"
proof -
  note P = realm_provide_Inr [OF p]
  have top: "same_topology h (w_realms w)"
    unfolding P(8) by (rule same_topology_trans [OF topology_updates(2) topology_updates(1)])
  have "realm_listeners h j = realm_listeners (w_realms w) j" for j
    by (rule listeners_cong [OF top]) (simp add: P(8) listeners_updates)
  moreover have "h j = None \<longleftrightarrow> w_realms w j = None" for j by (simp add: P(8))
  moreover have "realms_wf h" using realms_wf_provide [OF _ p] ok by (simp add: realms_ok_def)
  ultimately show ?thesis using ok by (simp add: realms_ok_def)
qed

text \<open>Filing a registration closes the gap \<open>register_service\<close> opened in \<open>services_owned\<close>.\<close>

lemma publish_spec:
  assumes ok: "tree_ok w" and u: "w_heap w u = Some b" and nd: "fb_state b \<noteq> Disposed"
    and p: "realm_provide (w_realms w) (fb_realm b) key v u e = Inr (owner, m, h)"
    and b': "b' = b\<lparr>fb_provided := ps, fb_effects := push_effect (UProvide u owner m) label (fb_effects b)\<rparr>"
    and w': "w_heap w' = (w_heap w)(u \<mapsto> b')" "w_table w' = w_table w" "w_realms w' = h"
      "w_uid w' = w_uid w" "w_next_realm w' = w_next_realm w"
  shows "tree_ok w'"
proof -
  note P = realm_provide_Inr [OF p]
  note rlt = fiber_okD(2) [OF tree_okD(1) [OF ok u]]
  have owner: "owner < w_next_realm w" using owner_le [of "w_realms w" "fb_realm b" "sk_name key"] rlt P(1) by simp
  then have ex: "w_realms w owner \<noteq> None" using tree_okD(2) [OF ok] by (simp add: realms_ok_def)
  let ?w = "w\<lparr>w_heap := (w_heap w)(u \<mapsto> b')\<rparr>"
  have ok1: "tree_ok ?w"
    by (rule push_effect_spec [OF ok u nd _ b']) (use owner in simp_all)
  have own: "own_impl h i n = (if i = owner \<and> n = sk_name key then Some m else own_impl (w_realms w) i n)" for i n
    unfolding P(8) using ex by (simp add: own_impl_put)
  have rok: "realms_ok (w\<lparr>w_realms := h\<rparr>)" by (rule provide_realms_ok [OF tree_okD(2) [OF ok] p])
  show ?thesis
    unfolding tree_ok_def
  proof (intro conjI allI impI)
    fix x c assume "w_heap w' x = Some c"
    with w' have "fiber_ok ?w x c" using tree_okD(1) [OF ok1] by simp
    then show "fiber_ok w' x c" unfolding fiber_ok_def by (simp add: w')
  next
    show "realms_ok w'" using rok by (simp add: realms_ok_def w')
    show "table_ok w'" using tree_okD(4) [OF ok1] by (simp add: table_ok_def w')
    show "services_owned w'"
      unfolding services_owned_def w'(3)
    proof (intro allI impI)
      fix i n x assume "own_impl h i n = Some x"
      then have "(if i = owner \<and> n = sk_name key then Some m else own_impl (w_realms w) i n) = Some x"
        by (simp only: own)
      then consider "i = owner" "x = m" | "own_impl (w_realms w) i n = Some x"
        by (cases "i = owner \<and> n = sk_name key") auto
      then show "\<exists>b. w_heap w' (im_fiber x) = Some b \<and> files (im_fiber x) i x b"
      proof cases
        case 1
        with P(5) show ?thesis by (auto simp: w'(1) b' files_def push_effect_def)
      next
        case 2
        with tree_okD(3) [OF ok1] show ?thesis by (simp add: services_owned_def w'(1))
      qed
    qed
  qed
qed

lemma register_evolves:
  assumes ok: "tree_ok w" and u: "w_heap w u = Some b"
    and p: "realm_provide (w_realms w) (fb_realm b) key v u e = Inr (owner, m, h)"
  shows "evolves {} w (service_changed owner (sk_name (im_key m)) (w\<lparr>w_realms := h\<rparr>))"
proof (rule announce_evolves [OF ok])
  note P = realm_provide_Inr [OF p]
  note rlt = fiber_okD(2) [OF tree_okD(1) [OF ok u]]
  have owner: "owner < w_next_realm w" using owner_le [of "w_realms w" "fb_realm b" "sk_name key"] rlt P(1) by simp
  have rok: "realms_ok (w\<lparr>w_realms := h\<rparr>)" by (rule provide_realms_ok [OF tree_okD(2) [OF ok] p])
  then show "realm_listeners h owner \<noteq> []" using owner by (simp add: realms_ok_def)
  fix j k assume k: "k \<noteq> sk_name (im_key m)"
  have ex: "w_realms w (fb_realm b) \<noteq> None" using tree_okD(2) [OF ok] rlt by (simp add: realms_ok_def)
  from tree_okD(2) [OF ok] have "realms_wf (w_realms w)" by (simp add: realms_ok_def)
  from realm_provide_resolve [OF this ex p, of j k] k P(3) show "realm_resolve h j k = realm_resolve (w_realms w) j k"
    by simp
qed

lemma provide_spec:
  assumes ok: "tree_ok w" and u: "w_heap w u = Some b" and run: "provide P u key v w = (r, w')"
  shows "tree_ok w'" and "evolves {} w w'" and "\<And>x. x \<noteq> u \<Longrightarrow> w_heap w' x = w_heap w x"
    and "\<exists>ps st. w_heap w' u = Some (b\<lparr>fb_provided := ps, fb_effects := st\<rparr>)"
proof -
  have "tree_ok w' \<and> evolves {} w w' \<and> (\<forall>x. x \<noteq> u \<longrightarrow> w_heap w' x = w_heap w x) \<and>
      (\<exists>ps st. w_heap w' u = Some (b\<lparr>fb_provided := ps, fb_effects := st\<rparr>))"
  proof (cases "register_service u key v w")
    case (Inl e)
    with run have "w' = w" by (simp add: provide_def)
    moreover have "\<exists>ps st. b = b\<lparr>fb_provided := ps, fb_effects := st\<rparr>"
      by (rule exI [of _ "fb_provided b"], rule exI [of _ "fb_effects b"]) simp
    ultimately show ?thesis using ok u quiet_evolves [OF quiet_fields(5)] by auto
  next
    case (Inr reg)
    obtain owner m w1 where reg: "reg = (owner, m, w1)" by (cases reg)
    obtain h where w1: "w1 = w\<lparr>w_realms := h\<rparr>"
      and p: "realm_provide (w_realms w) (fb_realm b) key v u (fb_entry b) = Inr (owner, m, h)"
      and st: "fb_state b \<in> {Loading, Active}"
      by (rule register_service_Inr [OF Inr [unfolded reg]]) (use u in simp)
    let ?n = "sk_name (im_key m)"
    let ?f = "\<lambda>b. b\<lparr>fb_provided := ?n # filter (\<lambda>k. k \<noteq> ?n) (fb_provided b)\<rparr>"
    define w2 where "w2 = upd u ?f (service_changed owner ?n w1)"
    have nd: "fb_state b \<noteq> Disposed" using st by auto
    have u2: "w_heap w2 u = Some (?f b)" using u by (simp add: w2_def w1 tree_simps)
    have nu: "\<not> es_unwinding (fb_effects b)" using fiber_okD(4) [OF tree_okD(1) [OF ok u]] .
    have fe: "file_effect P u (UProvide u owner m) label w2 =
        (None, upd u (\<lambda>b. b\<lparr>fb_effects := push_effect (UProvide u owner m) label (fb_effects b)\<rparr>) w2)" for label
      using u2 nu by (simp add: file_effect_def es_add_def push_effect_def upd_def)
    have w': "w' = upd u (\<lambda>b. b\<lparr>fb_effects := push_effect (UProvide u owner m) (''provide '' @ ?n) (fb_effects b)\<rparr>) w2"
      using run by (simp add: provide_def Inr reg file_service_def Let_def w2_def [symmetric] fe)
    have heap: "w_heap w' = (w_heap w)(u \<mapsto> b\<lparr>fb_provided := ?n # filter (\<lambda>k. k \<noteq> ?n) (fb_provided b),
        fb_effects := push_effect (UProvide u owner m) (''provide '' @ ?n) (fb_effects b)\<rparr>)"
      using u by (simp add: w' w2_def w1 tree_simps)
    have "tree_ok w'"
      by (rule publish_spec [OF ok u nd p refl heap]) (simp_all add: w' w2_def w1 tree_simps)
    moreover have "evolves {} w w'"
    proof -
      have "evolves {} w (service_changed owner ?n w1)" unfolding w1 by (rule register_evolves [OF ok u p])
      moreover have "evolves {} (service_changed owner ?n w1) w2" "evolves {} w2 w'"
        unfolding w2_def w' by (rule quiet_evolves, rule quiet_upd, simp add: ident_def life_def)+
      ultimately show ?thesis by (blast intro: evolves_trans)
    qed
    ultimately show ?thesis unfolding heap by auto
  qed
  then show "tree_ok w'" "evolves {} w w'" "\<And>x. x \<noteq> u \<Longrightarrow> w_heap w' x = w_heap w x"
    "\<exists>ps st. w_heap w' u = Some (b\<lparr>fb_provided := ps, fb_effects := st\<rparr>)" by blast+
qed


section \<open>Running apply\<close>

text \<open>What a step inside the loading of \<open>u\<close> may do to \<open>u\<close> itself.\<close>

definition loading :: "nat \<Rightarrow> nat list option \<Rightarrow> bool \<Rightarrow> world \<Rightarrow> bool" where
  "loading u ep rs w = (\<exists>b. w_heap w u = Some b \<and> fb_state b = Loading \<and> fb_epoch b = ep \<and>
     (u \<in> set (w_pending w) \<or> fb_restart b = rs))"

lemma loading_evolves:
  assumes "loading u ep rs w" and e: "evolves {} w w'" and "w_heap w' u = Some b'" and nd: "fb_state b' \<noteq> Disposed"
    and low: "u \<le> w_uid w"
  shows "loading u ep rs w'"
proof -
  from assms(1) obtain b where b: "w_heap w u = Some b" "fb_state b = Loading" "fb_epoch b = ep"
    "u \<in> set (w_pending w) \<or> fb_restart b = rs" by (auto simp: loading_def)
  from evolves_live [OF e assms(3) nd] low have "kept {} w w' u b'" by (auto simp: fresh_def)
  with b have "life b' = life b" "u \<in> set (w_pending w') \<or> fb_restart b' = fb_restart b" by (auto simp: kept_def)
  with b assms(3) evolves_pending [OF e] show ?thesis by (auto simp: loading_def life_def)
qed

lemma request_restart_spec:
  assumes ok: "tree_ok w"
  shows "tree_ok (request_restart v w)" and "evolves {} w (request_restart v w)"
    and "w_heap w u = Some b \<Longrightarrow> \<exists>rs. w_heap (request_restart v w) u = Some (b\<lparr>fb_restart := rs\<rparr>)"
proof -
  let ?w = "upd v (\<lambda>b. b\<lparr>fb_restart := True\<rparr>) w"
  have id: "\<exists>rs. b = b\<lparr>fb_restart := rs\<rparr>" for b :: fiber by (rule exI [of _ "fb_restart b"]) simp
  have "tree_ok ?w" by (rule tree_ok_same_tree [OF same_tree_upd ok]) (simp add: lean_def)
  then have "tree_ok (enqueue v ?w)" using tree_ok_same_tree [OF same_tree_fields(6)] by blast
  then show "tree_ok (request_restart v w)" using ok by (simp add: request_restart_def)
  show "evolves {} w (request_restart v w)"
  proof (cases "w_heap w v = None \<or> fb_state (fib w v) = Disposed \<or> w_disposing w")
    case False
    then have "quiet {} w (enqueue v ?w)"
      by (auto simp: quiet_def tree_simps same_settings_def ident_def life_def)
    with False show ?thesis by (auto simp: request_restart_def intro: quiet_evolves)
  qed (simp add: request_restart_def quiet_evolves quiet_fields)
  show "\<exists>rs. w_heap (request_restart v w) u = Some (b\<lparr>fb_restart := rs\<rparr>)" if "w_heap w u = Some b"
    using that id by (auto simp: request_restart_def tree_simps)
qed

lemma run_script_spec:
  assumes "tree_ok w" and "loading u ep rs w" and "run_script P u s w = (r, w')"
  shows "tree_ok w' \<and> evolves {} w w' \<and> loading u ep rs w'"
  using assms
proof (induction s arbitrary: w)
  case (Return c)
  then show ?case using quiet_evolves [OF quiet_fields(5)] by simp
next
  case (Raise e)
  then show ?case using quiet_evolves [OF quiet_fields(5)] by simp
next
  case (Get n k)
  from Get.IH [OF rangeI Get.prems(1,2)] Get.prems(3) show ?case by simp
next
  case (Provide key v k)
  from Provide.prems(2) obtain b where b: "w_heap w u = Some b" "fb_state b = Loading" by (auto simp: loading_def)
  obtain r1 w1 where r1: "provide P u key v w = (r1, w1)" by (cases "provide P u key v w")
  note p = provide_spec [OF Provide.prems(1) b(1) r1]
  from p(4) b(2) obtain b1 where b1: "w_heap w1 u = Some b1" "fb_state b1 \<noteq> Disposed" by auto
  have l1: "loading u ep rs w1"
    by (rule loading_evolves [OF Provide.prems(2) p(2) b1])
      (use fiber_okD(1) [OF tree_okD(1) [OF Provide.prems(1) b(1)]] in simp)
  have "run_script P u (k r1) w1 = (r, w')" using Provide.prems(3) r1 by simp
  from Provide.IH [OF rangeI p(1) l1 this] p(2) show ?case by (blast intro: evolves_trans)
next
  case (Effect i label k)
  from Effect.prems(2) obtain b where b: "w_heap w u = Some b" "fb_state b = Loading" by (auto simp: loading_def)
  then have nd: "fb_state b \<noteq> Disposed" by simp
  obtain r1 w1 where r1: "file_effect P u (UCleanup i) label w = (r1, w1)" by (cases "file_effect P u (UCleanup i) label w")
  note p = file_cleanup_spec [OF Effect.prems(1) b(1) nd r1]
  have l1: "loading u ep rs w1"
    by (rule loading_evolves [OF Effect.prems(2) p(3,4)])
      (use b fiber_okD(1) [OF tree_okD(1) [OF Effect.prems(1) b(1)]] in simp_all)
  have "run_script P u k w1 = (r, w')" using Effect.prems(3) r1 p(1) by simp
  from Effect.IH [OF p(2) l1 this] p(3) show ?case by (blast intro: evolves_trans)
next
  case (Plugin d config entry required isolate k)
  from Plugin.prems(2) obtain b where b: "w_heap w u = Some b" "fb_state b = Loading" by (auto simp: loading_def)
  obtain r1 w1 where r1: "mount d config (child_entry w u d entry) required False isolate (Some u) w = (r1, w1)"
    by (cases "mount d config (child_entry w u d entry) required False isolate (Some u) w")
  have "\<forall>p. Some u = Some p \<longrightarrow> (\<exists>bp. w_heap w p = Some bp \<and> fb_state bp \<noteq> Disposed)" using b by simp
  note p = mount_spec [OF Plugin.prems(1) this r1]
  from p(5) [OF b(1)] b(2) obtain b1 where b1: "w_heap w1 u = Some b1" "fb_state b1 \<noteq> Disposed" by auto
  have l1: "loading u ep rs w1"
    by (rule loading_evolves [OF Plugin.prems(2) p(2) b1])
      (use fiber_okD(1) [OF tree_okD(1) [OF Plugin.prems(1) b(1)]] in simp)
  have "run_script P u (k r1) w1 = (r, w')" using Plugin.prems(3) r1 by simp
  from Plugin.IH [OF rangeI p(1) l1 this] p(2) show ?case by (blast intro: evolves_trans)
next
  case (Restart v k)
  from Restart.prems(2) obtain b where b: "w_heap w u = Some b" "fb_state b = Loading" by (auto simp: loading_def)
  note p = request_restart_spec [OF Restart.prems(1), where v = v]
  from p(3) [OF b(1)] b(2) obtain b1 where b1: "w_heap (request_restart v w) u = Some b1" "fb_state b1 \<noteq> Disposed" by auto
  have l1: "loading u ep rs (request_restart v w)"
    by (rule loading_evolves [OF Restart.prems(2) p(2) b1])
      (use fiber_okD(1) [OF tree_okD(1) [OF Restart.prems(1) b(1)]] in simp)
  from Restart.IH [OF p(1) l1] Restart.prems(3) p(2) show ?case by (auto intro: evolves_trans)
qed

lemma run_apply_spec:
  assumes ok: "tree_ok w" and l: "loading u ep rs w" and run: "run_apply P u w = (r, w')"
  shows "tree_ok w' \<and> evolves {} w w' \<and> loading u ep rs w'"
proof -
  obtain r1 w1 where r1: "run_script P u (pr_apply P w u) w = (r1, w1)" by (cases "run_script P u (pr_apply P w u) w")
  have s: "tree_ok w1 \<and> evolves {} w w1 \<and> loading u ep rs w1" by (rule run_script_spec [OF ok l r1])
  show ?thesis
  proof (cases "\<exists>i. r1 = Inr (Some i)")
    case False
    with run r1 have "w' = w1" by (auto simp: run_apply_def split: sum.splits option.splits)
    with s show ?thesis by simp
  next
    case True
    then obtain i where i: "r1 = Inr (Some i)" by blast
    from s obtain b where b: "w_heap w1 u = Some b" "fb_state b = Loading" by (auto simp: loading_def)
    then have nd: "fb_state b \<noteq> Disposed" by simp
    from s have ok1: "tree_ok w1" by blast
    obtain r2 w2 where r2: "file_effect P u (UCleanup i) ''apply() return'' w1 = (r2, w2)"
      by (cases "file_effect P u (UCleanup i) ''apply() return'' w1")
    note p = file_cleanup_spec [OF ok1 b(1) nd r2]
    have "w' = w2" using run r1 i r2 p(1) by (simp add: run_apply_def)
    moreover have "loading u ep rs w2"
      by (rule loading_evolves [OF _ p(3,4)])
        (use s b fiber_okD(1) [OF tree_okD(1) [OF ok1 b(1)]] in simp_all)
    ultimately show ?thesis using s p(2,3) by (blast intro: evolves_trans)
  qed
qed

section \<open>Loading\<close>

text \<open>How a load of \<open>u\<close> may end when it does not raise.\<close>

definition loaded :: "nat \<Rightarrow> nat list option \<Rightarrow> bool \<Rightarrow> world \<Rightarrow> bool" where
  "loaded u ep rs w = (\<exists>b. w_heap w u = Some b \<and>
     (fb_state b = Active \<and> fb_epoch b = ep \<or> fb_state b = Failed \<and> fb_epoch b = None) \<and>
     (u \<in> set (w_pending w) \<or> fb_restart b = rs))"

lemma fail_fiber_spec:
  assumes ok: "tree_ok w" and u: "w_heap w u = Some b" and nd: "fb_state b \<noteq> Disposed"
  shows "tree_ok (fail_fiber u e w)" and "evolves {u} w (fail_fiber u e w)"
    and "w_heap (fail_fiber u e w) u = Some (b\<lparr>fb_error := Some e, fb_epoch := None, fb_state := Failed\<rparr>)"
    and "w_pending (fail_fiber u e w) = w_pending w"
proof -
  let ?x = "upd u (\<lambda>b. b\<lparr>fb_error := Some e, fb_epoch := None\<rparr>) w"
  note x = upd_spec [OF ok u, of "\<lambda>b. b\<lparr>fb_error := Some e, fb_epoch := None\<rparr>", simplified lean_def ident_def, simplified]
  note y = transition_spec [OF x(1) x(4), of Failed, simplified, OF nd]
  let ?y = "transition_to u Failed ?x"
  have f: "fail_fiber u e w = report (''entry '' @ fb_entry (fib w u)) e ?y" by (simp add: fail_fiber_def)
  show "tree_ok (fail_fiber u e w)" unfolding f using tree_ok_same_tree [OF same_tree_fields(5)] y(1) by blast
  show "evolves {u} w (fail_fiber u e w)"
    unfolding f by (rule evolves_trans [OF evolves_trans [OF x(2) y(2)] quiet_evolves [OF quiet_fields(2)]])
  show "w_heap (fail_fiber u e w) u = Some (b\<lparr>fb_error := Some e, fb_epoch := None, fb_state := Failed\<rparr>)"
    unfolding f using u by (simp add: tree_simps)
  show "w_pending (fail_fiber u e w) = w_pending w" unfolding f by (simp add: tree_simps)
qed

lemma abandon_spec:
  assumes ok: "tree_ok w" and u: "w_heap w u = Some b" and nd: "fb_state b \<noteq> Disposed"
  shows "tree_ok (abandon u w)" and "evolves {u} w (abandon u w)"
    and "w_heap (abandon u w) u = Some (b\<lparr>fb_epoch := None, fb_state := Pending\<rparr>)"
proof -
  note x = upd_spec [OF ok u, of "\<lambda>b. b\<lparr>fb_epoch := None\<rparr>", simplified lean_def ident_def, simplified]
  note y = transition_spec [OF x(1) x(4), of Pending, simplified, OF nd]
  show "tree_ok (abandon u w)" "evolves {u} w (abandon u w)"
    unfolding abandon_def using x(2) y(1,2) by (blast intro: evolves_trans)+
  show "w_heap (abandon u w) u = Some (b\<lparr>fb_epoch := None, fb_state := Pending\<rparr>)"
    unfolding abandon_def using u by (simp add: tree_simps)
qed

lemma discard_fail_spec:
  assumes ok: "tree_ok w" and l: "loading u ep rs w"
    and run: "discard_and P u (\<lambda>v. (None, fail_fiber u (e v) v)) w = (r, w')"
  shows "tree_ok w' \<and> evolves {u} w w' \<and> (r = None \<longrightarrow> loaded u ep rs w')"
proof -
  from l obtain b where b: "w_heap w u = Some b" "fb_state b = Loading" "u \<in> set (w_pending w) \<or> fb_restart b = rs"
    by (auto simp: loading_def)
  then have nd: "fb_state b \<noteq> Disposed" by simp
  obtain r1 w1 where d: "discard_effects P u w = (r1, w1)" by (cases "discard_effects P u w")
  note n = discard_effects_spec [OF ok b(1) nd d]
  from n(4) b obtain b1 where b1: "w_heap w1 u = Some b1" "fb_state b1 \<noteq> Disposed" "fb_restart b1 = fb_restart b" by auto
  have e1: "evolves {u} w w1" using n(2) evolves_mono by blast
  show ?thesis
  proof (cases r1)
    case None
    with run d have w': "w' = fail_fiber u (e w1) w1" by (simp add: discard_and_def)
    note f = fail_fiber_spec [OF n(1) b1(1,2), of "e w1"]
    have "loaded u ep rs w'"
      using f(3) b1(3) b(3) evolves_pending [OF n(2)] by (auto simp: loaded_def w' f(4))
    with f(1,2) e1 show ?thesis unfolding w' by (blast intro: evolves_trans)
  next
    case (Some x)
    with run d have "w' = w1" "r = Some x" by (simp_all add: discard_and_def)
    with n(1) e1 show ?thesis by simp
  qed
qed

lemma discard_abandon_spec:
  assumes ok: "tree_ok w" and b: "w_heap w u = Some b" and nd: "fb_state b \<noteq> Disposed"
    and run: "discard_and P u (\<lambda>v. (Some e, abandon u v)) w = (r, w')"
  shows "tree_ok w' \<and> evolves {u} w w' \<and> r \<noteq> None"
proof -
  obtain r1 w1 where d: "discard_effects P u w = (r1, w1)" by (cases "discard_effects P u w")
  note n = discard_effects_spec [OF ok b(1) nd d]
  from n(4) nd obtain b1 where b1: "w_heap w1 u = Some b1" "fb_state b1 \<noteq> Disposed" by auto
  have e1: "evolves {u} w w1" using n(2) evolves_mono by blast
  show ?thesis
  proof (cases r1)
    case None
    with run d have w': "w' = abandon u w1" "r = Some e" by (simp_all add: discard_and_def)
    with abandon_spec(1,2) [OF n(1) b1] e1 show ?thesis by (auto intro: evolves_trans)
  next
    case (Some x)
    with run d have "w' = w1" "r = Some x" by (simp_all add: discard_and_def)
    with n(1) e1 show ?thesis by simp
  qed
qed

lemma finish_load_spec:
  assumes ok: "tree_ok w" and l: "loading u ep rs w" and run: "finish_load P u w = (r, w')"
  shows "tree_ok w' \<and> evolves {u} w w' \<and> (r = None \<longrightarrow> loaded u ep rs w')"
proof (cases "missing_provides w u = []")
  case False
  with run show ?thesis
    by (intro discard_fail_spec [OF ok l]) (simp add: finish_load_def Let_def)
next
  case True
  from l obtain b where b: "w_heap w u = Some b" "fb_state b = Loading" "fb_epoch b = ep"
    "u \<in> set (w_pending w) \<or> fb_restart b = rs" by (auto simp: loading_def)
  from True run have w': "w' = transition_to u Active w" "r = None" by (simp_all add: finish_load_def)
  note t = transition_spec [OF ok b(1), of Active, simplified]
  have "loaded u ep rs w'" using t(3) b by (simp add: loaded_def w' tree_simps)
  with t b show ?thesis by (simp add: w')
qed

lemma load_spec:
  assumes ok: "tree_ok w0" and u: "w_heap w0 u = Some b" and nd: "fb_state b \<noteq> Disposed"
    and run: "load P u w0 = (r, w')"
  shows "tree_ok w' \<and> evolves {u} w0 w' \<and> (r = None \<longrightarrow> loaded u (fb_epoch b) (fb_restart b) w')"
proof -
  define w where "w = transition_to u Loading w0"
  note t = transition_spec [OF ok u nd, of Loading, simplified, folded w_def]
  have lw: "loading u (fb_epoch b) (fb_restart b) w" using t(3) by (simp add: loading_def)
  have run': "(case resolve_config P w u of
        Inl e \<Rightarrow> if is_exception e then (None, fail_fiber u e w) else discard_and P u (\<lambda>v. (Some e, abandon u v)) w
      | Inr config \<Rightarrow>
          (case run_apply P u (upd u (\<lambda>b. b\<lparr>fb_config := Some config\<rparr>) w) of
             (Inr _, w1) \<Rightarrow> finish_load P u w1
           | (Inl e, w1) \<Rightarrow>
               if is_exception e then discard_and P u (\<lambda>v. (None, fail_fiber u e v)) w1
               else discard_and P u (\<lambda>v. (Some e, abandon u v)) w1)) = (r, w')"
    using run unfolding load_def w_def Let_def .
  show ?thesis
  proof (cases "resolve_config P w u")
    case (Inl e)
    show ?thesis
    proof (cases "is_exception e")
      case True
      with run' Inl have w': "w' = fail_fiber u e w" "r = None" by simp_all
      note f = fail_fiber_spec [OF t(1,3), of e, simplified]
      have "loaded u (fb_epoch b) (fb_restart b) w'" using f(3) by (simp add: loaded_def w')
      with f(1,2) t(2) show ?thesis unfolding w' by (blast intro: evolves_trans)
    next
      case False
      with run' Inl have "discard_and P u (\<lambda>v. (Some e, abandon u v)) w = (r, w')" by simp
      from discard_abandon_spec [OF t(1,3) _ this] t(2) show ?thesis by (auto intro: evolves_trans)
    qed
  next
    case (Inr config)
    let ?x = "upd u (\<lambda>b. b\<lparr>fb_config := Some config\<rparr>) w"
    note x = upd_spec [OF t(1,3), of "\<lambda>b. b\<lparr>fb_config := Some config\<rparr>", simplified lean_def ident_def, simplified]
    have lx: "loading u (fb_epoch b) (fb_restart b) ?x" using t(3) by (simp add: loading_def tree_simps)
    obtain r1 w1 where r1: "run_apply P u ?x = (r1, w1)" by (cases "run_apply P u ?x")
    have a: "tree_ok w1 \<and> evolves {} ?x w1 \<and> loading u (fb_epoch b) (fb_restart b) w1"
      by (rule run_apply_spec [OF x(1) lx r1])
    have e1: "evolves {u} w0 w1"
      using t(2) x(2) a evolves_mono [of "{}" ?x w1 "{u}"] by (blast intro: evolves_trans)
    from a have ok1: "tree_ok w1" and l1: "loading u (fb_epoch b) (fb_restart b) w1" by blast+
    show ?thesis
    proof (cases r1)
      case (Inr y)
      with run' \<open>resolve_config P w u = Inr config\<close> r1 have "finish_load P u w1 = (r, w')" by simp
      from finish_load_spec [OF ok1 l1 this] e1 show ?thesis by (blast intro: evolves_trans)
    next
      case (Inl e)
      show ?thesis
      proof (cases "is_exception e")
        case True
        with run' \<open>resolve_config P w u = Inr config\<close> r1 Inl
        have "discard_and P u (\<lambda>v. (None, fail_fiber u e v)) w1 = (r, w')" by simp
        from discard_fail_spec [OF ok1 l1 this] e1 show ?thesis by (blast intro: evolves_trans)
      next
        case False
        with run' \<open>resolve_config P w u = Inr config\<close> r1 Inl
        have run1: "discard_and P u (\<lambda>v. (Some e, abandon u v)) w1 = (r, w')" by simp
        from l1 obtain b1 where b1: "w_heap w1 u = Some b1" "fb_state b1 \<noteq> Disposed" by (auto simp: loading_def)
        from discard_abandon_spec [OF ok1 b1 run1] e1 show ?thesis by (auto intro: evolves_trans)
      qed
    qed
  qed
qed


section \<open>Refreshing\<close>

text \<open>Between refreshes a fiber's state and its epoch agree.\<close>

definition consistent :: "fiber \<Rightarrow> bool" where
  "consistent b = (case fb_state b of
     Pending \<Rightarrow> fb_epoch b = None | Active \<Rightarrow> fb_epoch b \<noteq> None | Failed \<Rightarrow> fb_epoch b = None
   | Disposed \<Rightarrow> True | _ \<Rightarrow> False)"

text \<open>A stable fiber has nothing to do: it failed, or its epoch is the current one.\<close>

definition stable :: "world \<Rightarrow> nat \<Rightarrow> bool" where
  "stable w u = (\<exists>b. w_heap w u = Some b \<and> consistent b \<and> \<not> fb_restart b \<and>
     (fb_state b = Failed \<or> fb_epoch b = compute_epoch w b))"

definition calm :: "world \<Rightarrow> bool" where
  "calm w = (\<forall>u b. w_heap w u = Some b \<longrightarrow> consistent b)"

definition queued_or_stable :: "nat set \<Rightarrow> world \<Rightarrow> bool" where
  "queued_or_stable S w = (\<forall>u. live w u \<longrightarrow> u \<in> S \<or> u \<in> set (w_pending w) \<or> stable w u)"

text \<open>How one refresh of \<open>u\<close> ends: the rest of the tree evolved, and \<open>u\<close> is done or queued.\<close>

definition refreshed :: "nat \<Rightarrow> world \<Rightarrow> world \<Rightarrow> bool" where
  "refreshed u w w' = (tree_ok w' \<and> evolves {u} w w' \<and>
     (\<exists>b'. w_heap w' u = Some b' \<and> consistent b' \<and>
        (fb_state b' = Disposed \<or> u \<in> set (w_pending w') \<or> stable w' u)))"

lemma stable_evolves:
  assumes e: "evolves T w w'" and "stable w v" and "v \<notin> T"
    and l: "w_heap w' v = Some b'" "fb_state b' \<noteq> Disposed" and q: "v \<notin> set (w_pending w')"
  shows "stable w' v"
proof -
  from evolves_live [OF e l] q obtain b where b: "w_heap w v = Some b" and k: "life b' = life b"
    "fb_restart b' = fb_restart b" "compute_epoch w' b' = compute_epoch w b"
    using assms(3) by (auto simp: fresh_def kept_def)
  from assms(2) b l k show ?thesis
    by (auto simp: stable_def life_def consistent_def split: fstate.splits)
qed

lemma loaded_refreshed:
  assumes ok: "tree_ok w'" and e: "evolves {u} w w'" and u: "w_heap w u = Some b"
    and l: "loaded u ep False w'" and ep: "ep = compute_epoch w b" "ep \<noteq> None" and low: "u \<le> w_uid w"
  shows "refreshed u w w'"
proof -
  from l obtain b' where b': "w_heap w' u = Some b'" and st: "fb_state b' = Active \<and> fb_epoch b' = ep \<or>
      fb_state b' = Failed \<and> fb_epoch b' = None" and rs: "u \<in> set (w_pending w') \<or> \<not> fb_restart b'"
    by (auto simp: loaded_def)
  have c: "consistent b'" using st ep(2) by (auto simp: consistent_def)
  have nd: "fb_state b' \<noteq> Disposed" using st by auto
  from evolves_live [OF e b' nd] low have "kept {u} w w' u b'" by (auto simp: fresh_def)
  with u ep(1) have "u \<in> set (w_pending w') \<or> compute_epoch w' b' = ep" by (simp add: kept_def)
  with b' c st rs have "u \<in> set (w_pending w') \<or> stable w' u" by (auto simp: stable_def)
  with ok e b' c show ?thesis by (auto simp: refreshed_def)
qed

lemma reconcile_epoch_spec:
  assumes ok: "tree_ok w" and u: "w_heap w u = Some b" and nd: "fb_state b \<noteq> Disposed"
    and c: "consistent b" and rs: "\<not> fb_restart b" and run: "reconcile_epoch P u w = (None, w')"
  shows "refreshed u w w'"
proof -
  note low = fiber_okD(1) [OF tree_okD(1) [OF ok u]]
  let ?ep = "compute_epoch w b"
  let ?x = "upd u (\<lambda>b. b\<lparr>fb_epoch := ?ep\<rparr>) w"
  note x = upd_spec [OF ok u, of "\<lambda>b. b\<lparr>fb_epoch := ?ep\<rparr>", simplified lean_def ident_def, simplified]
  have xu: "w_heap ?x u = Some (b\<lparr>fb_epoch := ?ep\<rparr>)" using u by (simp add: tree_simps)
  have cx: "compute_epoch ?x (b\<lparr>fb_epoch := ?ep\<rparr>) = ?ep"
    by (rule compute_epoch_cong) (simp_all add: tree_simps)
  consider (same) "fb_state b = Failed \<or> ?ep = fb_epoch b" "w' = w"
    | (gone) "fb_state b = Active" "?ep = None" "?ep \<noteq> fb_epoch b" "unload P u ?x = (None, w')"
    | (idle) "fb_state b \<noteq> Failed" "fb_state b \<noteq> Active" "?ep = None" "?ep \<noteq> fb_epoch b"
    | (first) "?ep \<noteq> None" "fb_epoch b = None" "load P u ?x = (None, w')"
    | (swap) w2 where "?ep \<noteq> None" "fb_epoch b \<noteq> None" "unload P u ?x = (None, w2)" "load P u w2 = (None, w')"
    using run u
    by (auto simp: reconcile_epoch_def Let_def split: if_splits prod.splits option.splits)
  then show ?thesis
  proof cases
    case same
    with u c rs have "stable w u" by (auto simp: stable_def)
    with same ok u c show ?thesis by (auto simp: refreshed_def intro: quiet_evolves quiet_fields)
  next
    case idle
    with c nd show ?thesis by (auto simp: consistent_def split: fstate.splits)
  next
    case gone
    note n = unload_spec [OF x(1) xu _ gone(4), simplified, OF nd]
    from n(4) gone(2) obtain b' where b': "w_heap w' u = Some b'" "fb_epoch b' = None" "fb_restart b' = fb_restart b"
      "fb_state b' = Pending" by auto
    from evolves_live [OF n(2) b'(1)] b'(4) low have "kept {u} ?x w' u b'" by (auto simp: fresh_def tree_simps)
    with xu cx gone(2) have "u \<in> set (w_pending w') \<or> compute_epoch w' b' = None" by (simp add: kept_def)
    with b' rs have "u \<in> set (w_pending w') \<or> stable w' u" by (auto simp: stable_def consistent_def)
    moreover have "evolves {u} w w'" using x(2) n(2) by (blast intro: evolves_trans)
    ultimately show ?thesis using n(1) b' by (auto simp: refreshed_def consistent_def)
  next
    case first
    from load_spec [OF x(1) xu _ first(3)] nd rs have l: "tree_ok w'" "evolves {u} ?x w'" "loaded u ?ep False w'" by auto
    have "evolves {u} w w'" using x(2) l(2) by (blast intro: evolves_trans)
    from loaded_refreshed [OF l(1) this u l(3) refl first(1) low] show ?thesis .
  next
    case swap
    note n = unload_spec [OF x(1) xu _ swap(3), simplified, OF nd]
    from n(4) obtain b2 where b2: "w_heap w2 u = Some b2" "fb_epoch b2 = ?ep" "fb_restart b2 = fb_restart b"
      "fb_state b2 = Pending" by auto
    from load_spec [OF n(1) b2(1) _ swap(4)] b2 rs have l: "tree_ok w'" "evolves {u} w2 w'" "loaded u ?ep False w'" by auto
    have "evolves {u} w w'" using x(2) n(2) l(2) by (blast intro: evolves_trans)
    from loaded_refreshed [OF l(1) this u l(3) refl swap(1) low] show ?thesis .
  qed
qed

lemma apply_restart_spec:
  assumes ok: "tree_ok w" and u: "w_heap w u = Some b" and nd: "fb_state b \<noteq> Disposed" and c: "consistent b"
    and run: "apply_restart P u w = (None, w')"
  shows "tree_ok w' \<and> evolves {u} w w' \<and>
    (\<exists>b'. w_heap w' u = Some b' \<and> fb_state b' = Pending \<and> fb_epoch b' = None \<and> \<not> fb_restart b')"
proof -
  let ?x = "upd u (\<lambda>b. b\<lparr>fb_restart := False\<rparr>) w"
  note x = upd_spec [OF ok u, of "\<lambda>b. b\<lparr>fb_restart := False\<rparr>", simplified lean_def ident_def, simplified]
  have xu: "w_heap ?x u = Some (b\<lparr>fb_restart := False\<rparr>)" using u by (simp add: tree_simps)
  have inert: "tree_ok (upd u (\<lambda>b. b\<lparr>fb_epoch := None\<rparr>) v) \<and> evolves {u} v (upd u (\<lambda>b. b\<lparr>fb_epoch := None\<rparr>) v) \<and>
      w_heap (upd u (\<lambda>b. b\<lparr>fb_epoch := None\<rparr>) v) u = Some (c\<lparr>fb_epoch := None\<rparr>)"
    if "tree_ok v" "w_heap v u = Some c" for v c
    using upd_spec [OF that, of "\<lambda>b. b\<lparr>fb_epoch := None\<rparr>", simplified lean_def ident_def, simplified] that(2)
    by (simp add: tree_simps)
  consider (failed) "fb_state b = Failed"
      "w' = upd u (\<lambda>b. b\<lparr>fb_epoch := None\<rparr>) (transition_to u Pending (upd u (\<lambda>b. b\<lparr>fb_error := None\<rparr>) ?x))"
    | (unload) w1 where "unload P u ?x = (None, w1)" "w' = upd u (\<lambda>b. b\<lparr>fb_epoch := None\<rparr>) w1"
    | (plain) "fb_state b \<noteq> Failed" "fb_state b \<noteq> Active" "w' = upd u (\<lambda>b. b\<lparr>fb_epoch := None\<rparr>) ?x"
    using run u
    by (auto simp: apply_restart_def Let_def split: if_splits prod.splits option.splits)
  then show ?thesis
  proof cases
    case failed
    let ?y = "upd u (\<lambda>b. b\<lparr>fb_error := None\<rparr>) ?x"
    note y = upd_spec [OF x(1) xu, of "\<lambda>b. b\<lparr>fb_error := None\<rparr>", simplified lean_def ident_def, simplified]
    have yu: "w_heap ?y u = Some (b\<lparr>fb_restart := False, fb_error := None\<rparr>)" using u by (simp add: tree_simps)
    note t = transition_spec [OF y(1) yu, of Pending, simplified, OF nd]
    have e: "evolves {u} w (transition_to u Pending ?y)" using x(2) y(2) t(2) by (blast intro: evolves_trans)
    from inert [OF t(1,3)] e show ?thesis unfolding failed(2) by (auto intro: evolves_trans)
  next
    case unload
    note n = unload_spec [OF x(1) xu _ unload(1), simplified, OF nd]
    from n(4) obtain b1 where b1: "w_heap w1 u = Some b1" "fb_state b1 = Pending" "\<not> fb_restart b1" by auto
    have e: "evolves {u} w w1" using x(2) n(2) by (blast intro: evolves_trans)
    from inert [OF n(1) b1(1)] b1 e show ?thesis unfolding unload(2) by (auto intro: evolves_trans)
  next
    case plain
    from plain(1,2) c nd have "fb_state b = Pending" by (cases "fb_state b") (simp_all add: consistent_def)
    with inert [OF x(1) xu] x(2) show ?thesis unfolding plain(3) by (auto intro: evolves_trans)
  qed
qed

lemma refresh_spec:
  assumes ok: "tree_ok w" and u: "w_heap w u = Some b" and c: "consistent b" and run: "refresh P u w = (None, w')"
  shows "refreshed u w w'"
proof (cases "fb_state b = Disposed")
  case True
  with run u have "w' = w" by (simp add: refresh_def)
  with ok u c True show ?thesis by (auto simp: refreshed_def intro: quiet_evolves quiet_fields)
next
  case nd: False
  show ?thesis
  proof (cases "fb_restart b")
    case False
    with run u nd have "reconcile_epoch P u w = (None, w')" by (simp add: refresh_def)
    from reconcile_epoch_spec [OF ok u nd c False this] show ?thesis .
  next
    case True
    with run u nd obtain w1 where r1: "apply_restart P u w = (None, w1)" and rc: "reconcile_epoch P u w1 = (None, w')"
      by (auto simp: refresh_def split: prod.splits option.splits)
    from apply_restart_spec [OF ok u nd c r1] obtain b1 where ok1: "tree_ok w1" and e1: "evolves {u} w w1"
      and b1: "w_heap w1 u = Some b1" "fb_state b1 = Pending" "fb_epoch b1 = None" "\<not> fb_restart b1" by blast
    have "refreshed u w1 w'"
      by (rule reconcile_epoch_spec [OF ok1 b1(1) _ _ b1(4) rc]) (use b1 in \<open>simp_all add: consistent_def\<close>)
    with e1 show ?thesis by (auto simp: refreshed_def intro: evolves_trans)
  qed
qed

section \<open>Settling\<close>

definition queue_ok :: "nat list \<Rightarrow> world \<Rightarrow> bool" where
  "queue_ok us w = (\<forall>u \<in> set us \<union> set (w_pending w). w_heap w u \<noteq> None)"

lemma calm_refreshed:
  assumes r: "refreshed u w w'" and c: "calm w"
  shows "calm w'"
  unfolding calm_def
proof (intro allI impI)
  fix v b' assume v: "w_heap w' v = Some b'"
  from r have e: "evolves {u} w w'" by (simp add: refreshed_def)
  show "consistent b'"
  proof (cases "v = u \<or> fb_state b' = Disposed")
    case True
    with r v show ?thesis by (auto simp: refreshed_def consistent_def)
  next
    case False
    with evolves_live [OF e v] have "life b' = (Pending, None) \<or> (\<exists>b. w_heap w v = Some b \<and> life b' = life b)"
      by (auto simp: fresh_def kept_def)
    with c show ?thesis by (auto simp: calm_def life_def consistent_def split: fstate.splits)
  qed
qed

lemma run_batch_spec:
  assumes "tree_ok w" and "calm w" and "queue_ok us w" and "queued_or_stable (set us) w"
    and "run_batch P us w = (None, w')"
  shows "tree_ok w' \<and> calm w' \<and> queue_ok [] w' \<and> queued_or_stable {} w' \<and> same_settings w w'"
  using assms
proof (induction us arbitrary: w)
  case Nil
  then show ?case by (simp add: queue_ok_def same_settings_def)
next
  case (Cons u us)
  from Cons.prems(5) obtain w1 where r: "refresh P u w = (None, w1)" and rest: "run_batch P us w1 = (None, w')"
    by (auto split: prod.splits option.splits)
  from Cons.prems(3) obtain b where u: "w_heap w u = Some b" by (auto simp: queue_ok_def)
  with Cons.prems(2) have c: "consistent b" by (simp add: calm_def)
  have R: "refreshed u w w1" by (rule refresh_spec [OF Cons.prems(1) u c r])
  then have ok1: "tree_ok w1" and e: "evolves {u} w w1" by (simp_all add: refreshed_def)
  have q1: "queue_ok us w1"
    using Cons.prems(3) e unfolding queue_ok_def evolves_def
    by (metis UnE UnI1 UnI2 list.set_intros(2) option.exhaust option.distinct(1))
  have s1: "queued_or_stable (set us) w1"
    unfolding queued_or_stable_def
  proof (intro allI impI)
    fix v assume "live w1 v"
    then obtain b1 where v: "w_heap w1 v = Some b1" "fb_state b1 \<noteq> Disposed" by (auto simp: live_def)
    show "v \<in> set us \<or> v \<in> set (w_pending w1) \<or> stable w1 v"
    proof (cases "v = u")
      case True
      with R v show ?thesis by (auto simp: refreshed_def)
    next
      case False
      show ?thesis
      proof (rule ccontr)
        assume n: "\<not> (v \<in> set us \<or> v \<in> set (w_pending w1) \<or> stable w1 v)"
        with evolves_live [OF e v] have "live w v" by (auto simp: fresh_def kept_def live_def)
        with Cons.prems(4) n False evolves_pending [OF e] have "stable w v"
          unfolding queued_or_stable_def by auto
        with stable_evolves [OF e _ _ v] n False show False by auto
      qed
    qed
  qed
  from Cons.IH [OF ok1 calm_refreshed [OF R Cons.prems(2)] q1 s1 rest] e
  show ?case by (auto simp: evolves_def same_settings_def)
qed

text \<open>The invariant between settles: everything that needs work is queued.\<close>

definition at_rest :: "world \<Rightarrow> bool" where
  "at_rest w = (tree_ok w \<and> calm w \<and> queue_ok [] w \<and> queued_or_stable {} w)"

lemma settle_loop_spec:
  assumes "at_rest w" and "settle_loop P n w = (None, w')"
  shows "at_rest w' \<and> w_pending w' = [] \<and> same_settings w w'"
  using assms
proof (induction n arbitrary: w)
  case 0
  then show ?case by (auto simp: same_settings_def split: if_splits)
next
  case (Suc n)
  show ?case
  proof (cases "w_pending w = []")
    case True
    with Suc.prems show ?thesis by (simp add: same_settings_def)
  next
    case False
    let ?us = "fromkeys (w_pending w)" and ?w = "w\<lparr>w_pending := []\<rparr>"
    from Suc.prems(2) False obtain w1 where b: "run_batch P ?us ?w = (None, w1)"
      and rest: "settle_loop P n w1 = (None, w')"
      by (auto split: prod.splits option.splits)
    have cong: "stable ?w v = stable w v" "live ?w v = live w v" for v
      by (simp_all add: stable_def live_def compute_epoch_def service_serial_def [abs_def])
    from Suc.prems(1) have "tree_ok ?w" using tree_ok_same_tree [OF same_tree_fields(2)] by (auto simp: at_rest_def)
    moreover have "calm ?w" "queue_ok ?us ?w" "queued_or_stable (set ?us) ?w"
      using Suc.prems(1) by (simp_all add: at_rest_def calm_def queue_ok_def queued_or_stable_def cong)
    ultimately have "at_rest w1 \<and> same_settings ?w w1"
      using run_batch_spec [OF _ _ _ _ b] by (simp add: at_rest_def)
    with Suc.IH [OF _ rest] show ?thesis by (auto simp: same_settings_def)
  qed
qed

lemma at_rest_flag: "at_rest (w\<lparr>w_settling := f\<rparr>) \<longleftrightarrow> at_rest w"
proof -
  have "same_tree (w\<lparr>w_settling := f\<rparr>) w" by (rule same_tree_fields)
  then have "tree_ok (w\<lparr>w_settling := f\<rparr>) = tree_ok w"
    using tree_ok_same_tree same_tree_sym by blast
  then show ?thesis
    by (simp add: at_rest_def calm_def queue_ok_def queued_or_stable_def live_def stable_def
        compute_epoch_def service_serial_def [abs_def])
qed

lemma settle_spec:
  assumes "at_rest w" and "\<not> w_settling w" and run: "settle P w = (None, w')"
  shows "at_rest w'" and "w_pending w' = []" and "live w' u \<Longrightarrow> stable w' u"
proof -
  from run assms(2) obtain w1 where l: "settle_loop P (w_rounds w) (w\<lparr>w_settling := True\<rparr>) = (None, w1)"
    and w': "w' = w1\<lparr>w_settling := False\<rparr>" by (auto simp: settle_def split: prod.splits)
  have "at_rest (w\<lparr>w_settling := True\<rparr>)" using assms(1) by (simp add: at_rest_flag)
  from settle_loop_spec [OF this l] have r: "at_rest w1" "w_pending w1 = []" by blast+
  then show rest: "at_rest w'" "w_pending w' = []" by (simp_all add: w' at_rest_flag)
  show "stable w' u" if "live w' u" using rest that by (auto simp: at_rest_def queued_or_stable_def)
qed


section \<open>Between settles\<close>

lemma root_world_at_rest: "at_rest (root_world seams variables rounds)"
proof -
  let ?h = "realm_on_mutate [0 \<mapsto> new_realm ''root'' None []] 0 0"
  have up: "realm_up [0 \<mapsto> new_realm ''root'' None []] 0 = None" by (simp add: realm_up_def new_realm_def)
  have rt: "realm_root [0 \<mapsto> new_realm ''root'' None []] 0 = 0"
    by (simp add: realm_root.simps [of "[0 \<mapsto> new_realm ''root'' None []]" 0] up)
  have h: "?h = [0 \<mapsto> (new_realm ''root'' None [])\<lparr>rl_listeners := [0]\<rparr>]"
    by (simp add: realm_on_mutate_def Let_def rt) (simp add: new_realm_def)
  have up': "realm_up ?h 0 = None" unfolding h realm_up_def by (simp add: new_realm_def)
  have rt': "realm_root ?h 0 = 0" by (simp add: realm_root.simps [of ?h 0] up')
  have "realms_ok (root_world seams variables rounds)"
    unfolding realms_ok_def root_world_def realms_wf_def realm_listeners_def world.select_convs
    using rt' unfolding h by (auto simp: new_realm_def split: if_splits)
  moreover have "own_impl ?h i n = None" for i n unfolding h own_impl_def by (simp add: new_realm_def)
  ultimately show ?thesis
    by (auto simp: at_rest_def tree_ok_def services_owned_def table_ok_def calm_def queue_ok_def
        queued_or_stable_def live_def root_world_def)
qed

lemma at_rest_evolves:
  assumes r: "at_rest w" and ok: "tree_ok w'" and e: "evolves {} w w'"
  shows "at_rest w'"
proof -
  from r have c: "calm w" and q: "queue_ok [] w" and s: "queued_or_stable {} w" by (simp_all add: at_rest_def)
  have "consistent b'" if v: "w_heap w' v = Some b'" for v b'
  proof (cases "fb_state b' = Disposed")
    case False
    with evolves_live [OF e v] have "life b' = (Pending, None) \<or> (\<exists>b. w_heap w v = Some b \<and> life b' = life b)"
      by (auto simp: fresh_def kept_def)
    with c show ?thesis by (auto simp: calm_def life_def consistent_def split: fstate.splits)
  qed (simp add: consistent_def)
  then have "calm w'" by (simp add: calm_def)
  moreover have "queue_ok [] w'"
    using q e unfolding queue_ok_def evolves_def by simp (metis option.exhaust option.distinct(1))
  moreover have "queued_or_stable {} w'"
    unfolding queued_or_stable_def
  proof (intro allI impI)
    fix v assume "live w' v"
    then obtain b' where v: "w_heap w' v = Some b'" "fb_state b' \<noteq> Disposed" by (auto simp: live_def)
    show "v \<in> {} \<or> v \<in> set (w_pending w') \<or> stable w' v"
    proof (cases "v \<in> set (w_pending w')")
      case False
      with evolves_live [OF e v] have "live w v" by (auto simp: fresh_def kept_def live_def)
      with s False evolves_pending [OF e] have "stable w v" unfolding queued_or_stable_def by auto
      with stable_evolves [OF e _ _ v False] show ?thesis by simp
    qed simp
  qed
  ultimately show ?thesis using ok by (simp add: at_rest_def)
qed

lemma mount_at_rest:
  assumes "at_rest w" and "mount d config entry required resolved isolate None w = (r, w')"
  shows "at_rest w'"
proof -
  from assms(1) have ok: "tree_ok w" by (simp add: at_rest_def)
  have "\<forall>p. None = Some p \<longrightarrow> (\<exists>bp. w_heap w p = Some bp \<and> fb_state bp \<noteq> Disposed)" by simp
  note m = mount_spec(1,2) [OF ok this assms(2)]
  show ?thesis by (rule at_rest_evolves [OF assms(1) m])
qed

lemma restart_at_rest:
  assumes r: "at_rest w" and u: "w_heap w u = Some b" and nd: "fb_state b \<noteq> Disposed" "\<not> w_disposing w"
  shows "restart P u w = settle P (request_restart u w)" and "at_rest (request_restart u w)"
proof -
  from r have ok: "tree_ok w" and "calm w" by (simp_all add: at_rest_def)
  then have "fb_state b \<notin> {Loading, Unloading}" using u by (force simp: calm_def consistent_def)
  with u nd show "restart P u w = settle P (request_restart u w)"
    by (simp add: restart_def request_restart_def Let_def)
  show "at_rest (request_restart u w)"
    using request_restart_spec(1,2) [OF ok] at_rest_evolves [OF r] by blast
qed

section \<open>Disposing the whole tree\<close>

lemma dead_stays_dead:
  assumes "evolves {} w w'" and "w_heap w u = Some b" and "fb_state b = Disposed" and "tree_ok w"
  shows "\<not> live w' u"
proof
  assume "live w' u"
  then obtain b' where "w_heap w' u = Some b'" "fb_state b' \<noteq> Disposed" by (auto simp: live_def)
  from evolves_live [OF assms(1) this] assms(2,3) fiber_okD(1) [OF tree_okD(1) [OF assms(4,2)]]
  show False by (auto simp: fresh_def kept_def)
qed

lemma dispose_row_spec:
  assumes ok: "tree_ok w" and u: "w_heap w u = Some b" and run: "dispose_row P (ab, w) u = (ab', w')"
  shows "tree_ok w' \<and> evolves {} w w' \<and> shrinks w w' \<and> (\<exists>b'. w_heap w' u = Some b' \<and> fb_state b' = Disposed)"
proof (cases "fb_state b = Disposed")
  case True
  with u have "dispose_fiber P u w = (None, w)" by (simp add: dispose_fiber_def dispose_upto.simps)
  with run have "w' = w" by (simp add: dispose_row_def)
  with ok u True show ?thesis by (auto simp: shrinks_def intro: quiet_evolves quiet_fields)
next
  case False
  obtain r w1 where d: "dispose_fiber P u w = (r, w1)" by (cases "dispose_fiber P u w")
  from dispose_fiber_spec [OF ok u False d] obtain b' where s: "tree_ok w1" "evolves {} w w1" "shrinks w w1"
    and b': "w_heap w1 u = Some b'" "fb_state b' = Disposed" by (auto simp: disposes_def)
  have "w' = w1 \<or> (\<exists>src e. w' = report src e w1)"
    using run d by (auto simp: dispose_row_def split: option.splits if_splits)
  then show ?thesis
  proof
    assume "w' = w1"
    with s b' show ?thesis by blast
  next
    assume "\<exists>src e. w' = report src e w1"
    then obtain src e where w': "w' = report src e w1" by blast
    have "tree_ok w'" unfolding w' using tree_ok_same_tree [OF same_tree_fields(5) s(1)] .
    moreover have "evolves {} w w'" unfolding w' by (rule evolves_trans [OF s(2) quiet_evolves [OF quiet_fields(2)]])
    ultimately show ?thesis using s(3) b' by (simp add: w' shrinks_def tree_simps)
  qed
qed

lemma dispose_rows_spec:
  assumes "tree_ok w" and "\<forall>u \<in> set us. w_heap w u \<noteq> None" and "foldl (dispose_row P) (ab, w) us = (ab', w')"
  shows "tree_ok w' \<and> evolves {} w w' \<and> shrinks w w' \<and> (\<forall>u \<in> set us. \<not> live w' u)"
  using assms
proof (induction us arbitrary: ab w)
  case Nil
  then show ?case by (auto simp: shrinks_def intro: quiet_evolves quiet_fields)
next
  case (Cons u us)
  obtain ab1 w1 where d: "dispose_row P (ab, w) u = (ab1, w1)" by (cases "dispose_row P (ab, w) u")
  from Cons.prems(2) obtain b where u: "w_heap w u = Some b" by auto
  from dispose_row_spec [OF Cons.prems(1) u d] obtain b1 where s: "tree_ok w1" "evolves {} w w1" "shrinks w w1"
    and b1: "w_heap w1 u = Some b1" "fb_state b1 = Disposed" by blast
  have "\<forall>v \<in> set us. w_heap w1 v \<noteq> None"
    using Cons.prems(2) s(2) unfolding evolves_def by (metis list.set_intros(2) option.exhaust option.distinct(1))
  from Cons.IH [OF s(1) this] Cons.prems(3) d
  have r: "tree_ok w' \<and> evolves {} w1 w' \<and> shrinks w1 w' \<and> (\<forall>u \<in> set us. \<not> live w' u)" by simp
  then have "\<not> live w' u" using dead_stays_dead [OF _ b1 s(1)] by blast
  with r s show ?case using evolves_trans shrinks_trans by (metis set_ConsD)
qed

lemma dispose_root_spec:
  assumes ok: "tree_ok w" and run: "dispose_root P w = (r, w')"
  shows "w_table w' = []" and "w_heap w' u = Some b \<Longrightarrow> fb_state b = Disposed"
    and "own_impl (w_realms w') i n = None" and "w_pending w' = []" and "w_closed w'"
proof -
  let ?w = "w\<lparr>w_disposing := True\<rparr>"
  obtain ab w1 where f: "foldl (dispose_row P) (None, ?w) (teardown_order w) = (ab, w1)"
    by (cases "foldl (dispose_row P) (None, ?w) (teardown_order w)")
  have ok0: "tree_ok ?w" using tree_ok_same_tree [OF same_tree_fields(4) ok] .
  have dw: "dict_wf (w_table w)" using tree_okD(4) [OF ok] by (simp add: table_ok_def)
  have all: "set (teardown_order w) = snd ` set (w_table w)" by (simp add: teardown_order_def)
  have "w_heap w u \<noteq> None" if "u \<in> snd ` set (w_table w)" for u
  proof -
    from that obtain k where "map_of (w_table w) k = Some u" using map_of_values [OF dw] by auto
    with tree_okD(4) [OF ok] show ?thesis unfolding table_ok_def by blast
  qed
  then have "\<forall>u \<in> set (teardown_order w). w_heap ?w u \<noteq> None" by (simp add: all)
  from dispose_rows_spec [OF ok0 this f] have s: "tree_ok w1" "shrinks ?w w1"
    and dead: "\<forall>u \<in> set (teardown_order w). \<not> live w1 u" by blast+
  have empty: "w_table w1 = []"
  proof (rule ccontr)
    assume "w_table w1 \<noteq> []"
    then obtain k v where "(k, v) \<in> set (w_table w1)" by (cases "w_table w1") auto
    with tree_okD(4) [OF s(1)] have "map_of (w_table w1) k = Some v" by (auto simp: table_ok_def map_of_values)
    with tree_okD(4) [OF s(1)] obtain c where m: "map_of (w_table w1) k = Some v" "w_heap w1 v = Some c" "fb_entry c = k"
      unfolding table_ok_def by blast
    with fiber_okD(10) [OF tree_okD(1) [OF s(1) m(2)]] have "live w1 v" by (simp add: live_def)
    moreover from m(1) s(2) have "v \<in> set (teardown_order w)"
      unfolding all shrinks_def by (force dest: map_of_SomeD)
    ultimately show False using dead by blast
  qed
  have disp: "fb_state c = Disposed" if "w_heap w1 v = Some c" for v c
    using fiber_okD(10) [OF tree_okD(1) [OF s(1) that]] empty by simp
  have none: "own_impl (w_realms w1) i n = None"
  proof (rule ccontr)
    assume "own_impl (w_realms w1) i n \<noteq> None"
    then obtain m where "own_impl (w_realms w1) i n = Some m" by blast
    with tree_okD(3) [OF s(1)] obtain c where c: "w_heap w1 (im_fiber m) = Some c" "files (im_fiber m) i m c"
      unfolding services_owned_def by blast
    with disp fiber_okD(9) [OF tree_okD(1) [OF s(1) c(1)]] show False by (auto simp: files_def)
  qed
  have w': "w' = w1\<lparr>w_pending := [], w_realms := realm_unlisten (w_realms w1) 0 0, w_closed := True, w_disposing := False\<rparr>"
    using run f by (simp add: dispose_root_def)
  show "w_table w' = []" "w_pending w' = []" "w_closed w'" by (simp_all add: w' empty)
  show "fb_state b = Disposed" if "w_heap w' u = Some b" using that disp by (simp add: w')
  show "own_impl (w_realms w') i n = None"
    using none by (auto simp: w' own_impl_def realm_unlisten_def Let_def split: option.splits)
qed

end
