(* ===== verification/Aborts.thy ===== *)
theory Aborts
  imports Settle
begin

text \<open>
  Settling when an exception escapes (src/src/aka/core/fiber.py): an abort raised by a plugin or a
  teardown, or an exhausted round budget.  Whatever is raised, the tree invariant survives and no
  fiber disappears, so the tree can still be disposed; the rows still waiting in the batch go back
  to the front of the queue.  The last section shows what an abort does lose: a fiber whose unload
  was aborted during a reload already carries its new epoch, and is not visited again.
\<close>

definition keeps :: "world \<Rightarrow> world \<Rightarrow> bool" where
  \<comment> \<open>the invariant holds afterwards and no allocated fiber is lost\<close>
  "keeps w w' = (tree_ok w' \<and> queue_ok [] w' \<and> (\<forall>v. w_heap w v \<noteq> None \<longrightarrow> w_heap w' v \<noteq> None))"

lemma evolves_heap: "evolves T w w' \<Longrightarrow> w_heap w v \<noteq> None \<Longrightarrow> w_heap w' v \<noteq> None"
  unfolding evolves_def by (metis option.exhaust option.distinct(1))

lemma evolves_queue: "evolves T w w' \<Longrightarrow> queue_ok [] w \<Longrightarrow> queue_ok [] w'"
  unfolding queue_ok_def evolves_def by simp (metis option.exhaust option.distinct(1))

lemma keepsI: "tree_ok w' \<Longrightarrow> evolves T w w' \<Longrightarrow> queue_ok [] w \<Longrightarrow> keeps w w'"
  using evolves_heap evolves_queue unfolding keeps_def by blast

lemma keeps_trans: "keeps w w1 \<Longrightarrow> keeps w1 w2 \<Longrightarrow> keeps w w2"
  by (auto simp: keeps_def)

section \<open>One refresh\<close>

lemma unload_keeps:
  assumes "tree_ok w" and "queue_ok [] w" and "w_heap w u = Some b" and "fb_state b \<noteq> Disposed"
    and "unload P u w = (r, w')"
  shows "keeps w w'" and "\<exists>b'. w_heap w' u = Some b' \<and> fb_state b' \<noteq> Disposed"
proof -
  note n = unload_spec [OF assms(1,3,4,5)]
  show "keeps w w'" by (rule keepsI [OF n(1,2) assms(2)])
  from n(4) show "\<exists>b'. w_heap w' u = Some b' \<and> fb_state b' \<noteq> Disposed" by (auto split: if_splits)
qed

lemma load_keeps:
  assumes "tree_ok w" and "queue_ok [] w" and "w_heap w u = Some b" and "fb_state b \<noteq> Disposed"
    and "load P u w = (r, w')"
  shows "keeps w w'"
  using load_spec [OF assms(1,3,4,5)] assms(2) keepsI by blast

lemma epoch_keeps:
  assumes "tree_ok w" and "queue_ok [] w" and u: "w_heap w u = Some b"
  shows "keeps w (upd u (\<lambda>b. b\<lparr>fb_epoch := ep\<rparr>) w)"
    and "w_heap (upd u (\<lambda>b. b\<lparr>fb_epoch := ep\<rparr>) w) u = Some (b\<lparr>fb_epoch := ep\<rparr>)"
  using upd_spec [OF assms(1) u, of "\<lambda>b. b\<lparr>fb_epoch := ep\<rparr>", simplified lean_def ident_def, simplified]
    keepsI [OF _ _ assms(2)] u by (auto simp: tree_simps)

lemma reconcile_epoch_keeps:
  assumes ok: "tree_ok w" and q: "queue_ok [] w" and u: "w_heap w u = Some b" and nd: "fb_state b \<noteq> Disposed"
    and run: "reconcile_epoch P u w = (r, w')"
  shows "keeps w w'"
proof -
  let ?ep = "compute_epoch w b"
  let ?x = "upd u (\<lambda>b. b\<lparr>fb_epoch := ?ep\<rparr>) w"
  note x = epoch_keeps [OF ok q u, of "compute_epoch w b"]
  have okx: "tree_ok ?x" "queue_ok [] ?x" using x(1) unfolding keeps_def by blast+
  have ndx: "fb_state (b\<lparr>fb_epoch := ?ep\<rparr>) \<noteq> Disposed" using nd by simp
  consider (same) "w' = w" | (idle) "w' = ?x" | (gone) "unload P u ?x = (r, w')" | (first) "load P u ?x = (r, w')"
    | (swap) w2 where "unload P u ?x = (None, w2)" "load P u w2 = (r, w')"
    using run u by (auto simp: reconcile_epoch_def Let_def split: if_splits prod.splits option.splits)
  then show ?thesis
  proof cases
    case same
    with ok q show ?thesis by (simp add: keeps_def)
  next
    case idle
    with x(1) show ?thesis by simp
  next
    case gone
    from keeps_trans [OF x(1) unload_keeps(1) [OF okx x(2) ndx gone]] show ?thesis .
  next
    case first
    from keeps_trans [OF x(1) load_keeps [OF okx x(2) ndx first]] show ?thesis .
  next
    case swap
    note k = unload_keeps [OF okx x(2) ndx swap(1)]
    from k(2) obtain b2 where b2: "w_heap w2 u = Some b2" "fb_state b2 \<noteq> Disposed" by blast
    from k(1) have "tree_ok w2" "queue_ok [] w2" by (simp_all add: keeps_def)
    from keeps_trans [OF keeps_trans [OF x(1) k(1)] load_keeps [OF this b2 swap(2)]] show ?thesis .
  qed
qed

lemma apply_restart_keeps:
  assumes ok: "tree_ok w" and q: "queue_ok [] w" and u: "w_heap w u = Some b" and nd: "fb_state b \<noteq> Disposed"
    and run: "apply_restart P u w = (r, w')"
  shows "keeps w w'" and "\<exists>b'. w_heap w' u = Some b' \<and> fb_state b' \<noteq> Disposed"
proof -
  let ?x = "upd u (\<lambda>b. b\<lparr>fb_restart := False\<rparr>) w"
  note x = upd_spec [OF ok u, of "\<lambda>b. b\<lparr>fb_restart := False\<rparr>", simplified lean_def ident_def, simplified]
  have xu: "w_heap ?x u = Some (b\<lparr>fb_restart := False\<rparr>)" using u by (simp add: tree_simps)
  have ndx: "fb_state (b\<lparr>fb_restart := False\<rparr>) \<noteq> Disposed" using nd by simp
  have kx: "keeps w ?x" by (rule keepsI [OF x(1,2) q])
  then have qx: "queue_ok [] ?x" by (simp add: keeps_def)
  let ?goal = "keeps w w' \<and> (\<exists>b'. w_heap w' u = Some b' \<and> fb_state b' \<noteq> Disposed)"
  have inert: "w' = upd u (\<lambda>b. b\<lparr>fb_epoch := None\<rparr>) v \<Longrightarrow> keeps w v \<Longrightarrow> w_heap v u = Some c \<Longrightarrow>
      fb_state c \<noteq> Disposed \<Longrightarrow> ?goal" for v c
    using epoch_keeps [of v u c None] keeps_trans [of w v] by (auto simp: keeps_def)
  consider (failed) "w' = upd u (\<lambda>b. b\<lparr>fb_epoch := None\<rparr>) (transition_to u Pending (upd u (\<lambda>b. b\<lparr>fb_error := None\<rparr>) ?x))"
    | (unload) w1 where "unload P u ?x = (None, w1)" "w' = upd u (\<lambda>b. b\<lparr>fb_epoch := None\<rparr>) w1"
    | (abort) "unload P u ?x = (r, w')"
    | (plain) "w' = upd u (\<lambda>b. b\<lparr>fb_epoch := None\<rparr>) ?x"
    using run u by (auto simp: apply_restart_def Let_def split: if_splits prod.splits option.splits)
  then have ?goal
  proof cases
    case failed
    let ?y = "upd u (\<lambda>b. b\<lparr>fb_error := None\<rparr>) ?x"
    note y = upd_spec [OF x(1) xu, of "\<lambda>b. b\<lparr>fb_error := None\<rparr>", simplified lean_def ident_def, simplified]
    have yu: "w_heap ?y u = Some (b\<lparr>fb_restart := False, fb_error := None\<rparr>)" using u by (simp add: tree_simps)
    note t = transition_spec [OF y(1) yu, of Pending, simplified, OF nd]
    have "keeps w (transition_to u Pending ?y)"
      by (rule keepsI [OF t(1) _ q]) (use x(2) y(2) t(2) in \<open>blast intro: evolves_trans\<close>)
    from inert [OF failed this t(3)] show ?thesis by simp
  next
    case unload
    note k = unload_keeps [OF x(1) qx xu ndx unload(1)]
    from k(2) obtain c where "w_heap w1 u = Some c" "fb_state c \<noteq> Disposed" by blast
    from inert [OF unload(2) keeps_trans [OF kx k(1)] this] show ?thesis .
  next
    case abort
    from unload_keeps [OF x(1) qx xu ndx abort] keeps_trans [OF kx] show ?thesis by blast
  next
    case plain
    from inert [OF plain kx xu ndx] show ?thesis .
  qed
  then show "keeps w w'" and "\<exists>b'. w_heap w' u = Some b' \<and> fb_state b' \<noteq> Disposed" by blast+
qed

lemma refresh_keeps:
  assumes ok: "tree_ok w" and q: "queue_ok [] w" and u: "w_heap w u \<noteq> None" and run: "refresh P u w = (r, w')"
  shows "keeps w w'"
proof -
  from u obtain b where b: "w_heap w u = Some b" by blast
  consider (dead) "w' = w" | (plain) "fb_state b \<noteq> Disposed" "reconcile_epoch P u w = (r, w')"
    | (again) w1 where "fb_state b \<noteq> Disposed" "apply_restart P u w = (None, w1)" "reconcile_epoch P u w1 = (r, w')"
    | (abort) "fb_state b \<noteq> Disposed" "apply_restart P u w = (r, w')"
    using run b by (auto simp: refresh_def split: if_splits prod.splits option.splits)
  then show ?thesis
  proof cases
    case dead
    with ok q show ?thesis by (simp add: keeps_def)
  next
    case plain
    from reconcile_epoch_keeps [OF ok q b plain] show ?thesis .
  next
    case again
    note k = apply_restart_keeps [OF ok q b again(1,2)]
    from k(2) obtain b1 where "w_heap w1 u = Some b1" "fb_state b1 \<noteq> Disposed" by blast
    from keeps_trans [OF k(1) reconcile_epoch_keeps [OF _ _ this again(3)]] k(1) show ?thesis by (simp add: keeps_def)
  next
    case abort
    from apply_restart_keeps(1) [OF ok q b abort] show ?thesis .
  qed
qed

section \<open>A settle\<close>

lemma run_batch_keeps:
  assumes "tree_ok w" and "queue_ok us w" and "run_batch P us w = (r, w')"
  shows "keeps w w'"
  using assms
proof (induction us arbitrary: w)
  case Nil
  then show ?case by (simp add: keeps_def)
next
  case (Cons u us)
  obtain r1 w1 where f: "refresh P u w = (r1, w1)" by (cases "refresh P u w")
  from Cons.prems(2) have q: "queue_ok [] w" "w_heap w u \<noteq> None" by (auto simp: queue_ok_def)
  note k = refresh_keeps [OF Cons.prems(1) q f]
  then have q1: "queue_ok us w1" using Cons.prems(2) by (auto simp: keeps_def queue_ok_def)
  show ?case
  proof (cases r1)
    case None
    with f Cons.prems(3) have "run_batch P us w1 = (r, w')" by simp
    from keeps_trans [OF k Cons.IH [OF _ q1 this]] k show ?thesis by (simp add: keeps_def)
  next
    case (Some e)
    with f Cons.prems(3) have w': "w' = w1\<lparr>w_pending := us @ w_pending w1\<rparr>" by simp
    have "tree_ok w'" unfolding w' using k tree_ok_same_tree [OF same_tree_fields(2)] by (auto simp: keeps_def)
    with k q1 show ?thesis by (auto simp: keeps_def w' queue_ok_def)
  qed
qed

lemma settle_loop_keeps:
  assumes "tree_ok w" and "queue_ok [] w" and "settle_loop P n w = (r, w')"
  shows "keeps w w'"
  using assms
proof (induction n arbitrary: w)
  case 0
  then show ?case by (auto simp: keeps_def split: if_splits)
next
  case (Suc n)
  show ?case
  proof (cases "w_pending w = []")
    case True
    with Suc.prems show ?thesis by (simp add: keeps_def)
  next
    case False
    let ?us = "fromkeys (w_pending w)" and ?w = "w\<lparr>w_pending := []\<rparr>"
    obtain r1 w1 where b: "run_batch P ?us ?w = (r1, w1)" by (cases "run_batch P ?us ?w")
    have "tree_ok ?w" using Suc.prems(1) tree_ok_same_tree [OF same_tree_fields(2)] by blast
    from run_batch_keeps [OF this _ b] Suc.prems(2) have k: "keeps w w1" by (simp add: keeps_def queue_ok_def)
    show ?thesis
    proof (cases r1)
      case None
      with b False Suc.prems(3) have "settle_loop P n w1 = (r, w')" by simp
      from keeps_trans [OF k Suc.IH [OF _ _ this]] k show ?thesis by (simp add: keeps_def)
    next
      case (Some e)
      with b False Suc.prems(3) k show ?thesis by simp
    qed
  qed
qed

lemma settle_keeps_tree:
  assumes "tree_ok w" and "queue_ok [] w" and run: "settle P w = (r, w')"
  shows "keeps w w'"
proof (cases "w_settling w")
  case True
  with assms show ?thesis by (simp add: settle_def keeps_def)
next
  case False
  let ?w = "w\<lparr>w_settling := True\<rparr>"
  obtain w1 where l: "settle_loop P (w_rounds w) ?w = (r, w1)" and w': "w' = w1\<lparr>w_settling := False\<rparr>"
    using run False by (auto simp: settle_def split: prod.splits)
  have "tree_ok ?w" using assms(1) tree_ok_same_tree [OF same_tree_fields(3)] by blast
  from settle_loop_keeps [OF this _ l] assms(2) have k: "keeps w w1" by (simp add: keeps_def queue_ok_def)
  then have "tree_ok w'" unfolding w' using tree_ok_same_tree [OF same_tree_fields(3)] by (auto simp: keeps_def)
  with k show ?thesis by (simp add: keeps_def w' queue_ok_def)
qed

lemma batch_abort_requeues:
  assumes "run_batch P us w = (Some e, w')"
  shows "\<exists>before u after w1 w2. us = before @ u # after \<and> run_batch P before w = (None, w1) \<and>
    refresh P u w1 = (Some e, w2) \<and> w' = w2\<lparr>w_pending := after @ w_pending w2\<rparr>"
  using assms
proof (induction us arbitrary: w)
  case (Cons u us)
  obtain r1 w1 where f: "refresh P u w = (r1, w1)" by (cases "refresh P u w")
  show ?case
  proof (cases r1)
    case None
    with f Cons.prems have "run_batch P us w1 = (Some e, w')" by simp
    from Cons.IH [OF this] obtain before v after w2 w3 where
      "us = before @ v # after" "run_batch P before w1 = (None, w2)" "refresh P v w2 = (Some e, w3)"
      "w' = w3\<lparr>w_pending := after @ w_pending w3\<rparr>" by blast
    with f None show ?thesis by (intro exI [of _ "u # before"] exI) auto
  next
    case (Some x)
    with f Cons.prems show ?thesis by (intro exI [of _ "[]"] exI) auto
  qed
qed simp

section \<open>What an aborted reload loses\<close>

lemma reload_abort_strands:
  assumes ok: "tree_ok w" and u: "w_heap w u = Some b" and act: "fb_state b = Active" "\<not> fb_restart b"
    and ep: "compute_epoch w b = Some new" "fb_epoch b = Some old" "old \<noteq> new"
    and abort: "unload P u (upd u (\<lambda>b. b\<lparr>fb_epoch := Some new\<rparr>) w) = (Some e, w1)"
  shows "refresh P u w = (Some e, w1)" and "fb_state (fib w1 u) = Unloading"
    and "fib w2 u = fib w1 u \<Longrightarrow> compute_epoch w2 (fib w2 u) = Some new \<Longrightarrow> refresh Q u w2 = (None, w2)"
proof -
  let ?x = "upd u (\<lambda>b. b\<lparr>fb_epoch := Some new\<rparr>) w"
  note x = upd_spec [OF ok u, of "\<lambda>b. b\<lparr>fb_epoch := Some new\<rparr>", simplified lean_def ident_def, simplified]
  have xu: "w_heap ?x u = Some (b\<lparr>fb_epoch := Some new\<rparr>)" using u by (simp add: tree_simps)
  show "refresh P u w = (Some e, w1)"
    using u act ep abort by (simp add: refresh_def reconcile_epoch_def)
  from unload_spec(4) [OF x(1) xu _ abort] act obtain b1 where b1: "w_heap w1 u = Some b1"
    "fb_epoch b1 = Some new" "\<not> fb_restart b1" "fb_state b1 = Unloading" by auto
  then have f: "fb_epoch (fib w1 u) = Some new" "\<not> fb_restart (fib w1 u)" "fb_state (fib w1 u) = Unloading" by simp_all
  then show "fb_state (fib w1 u) = Unloading" by simp
  show "refresh Q u w2 = (None, w2)" if "fib w2 u = fib w1 u" "compute_epoch w2 (fib w2 u) = Some new"
    using f that by (simp add: refresh_def reconcile_epoch_def)
qed

end
