(* ===== verification/Locks.thy ===== *)
theory Locks
  imports Compositions
begin

text \<open>
  The composition identity lock (src/src/aka/core/lock.py): the snapshot of a composition, the
  differences between a stored and a current snapshot, and the decision whether a campaign may
  be created or resumed.

  What only the machine can answer is the record \<open>host\<close>: the files of a package with their
  digests (\<open>ho_package\<close>; \<open>None\<close> when the package cannot be found), the names \<open>_identity_names\<close>
  collects, the SHA-256 of a JSON value, the installed version.  The lock file is \<open>lock_file\<close>:
  absent, not JSON, or a document.  A snapshot is a Python value, compared with \<open>py_eq\<close>.

  The theorems characterise what \<open>reconcile\<close> accepts: on resume, nothing but the allowed
  observational fields of a row that is observational on both sides has changed.
\<close>

section \<open>Identities\<close>

record host =
  ho_package :: "string \<Rightarrow> string dict option"
  ho_names :: "string \<Rightarrow> bool \<Rightarrow> exn + string list"
  ho_core_files :: "string \<Rightarrow> string list"
  ho_digest :: "pyval \<Rightarrow> string"
  ho_version :: "string option"
  ho_env :: environ

definition identity_files :: "host \<Rightarrow> string \<Rightarrow> string list \<Rightarrow> exn + pyval dict" where
  \<comment> \<open>\<open>_files\<close>\<close>
  "identity_files ho package names =
     (case ho_package ho package of
        None \<Rightarrow> Inl (CompositionError package (Msg ''identity package is unavailable''))
      | Some files \<Rightarrow>
          fold_res (\<lambda>digests name.
            case map_of files name of
              None \<Rightarrow> Inl (CompositionError package (Msg (''identity file is missing: '' @ name)))
            | Some sha \<Rightarrow> Inr (dict_set digests name (VStr sha))) [] names)"

definition identity_package :: "plugin_decl \<Rightarrow> string" where
  \<comment> \<open>\<open>module.rsplit(".", 1)[0]\<close> when the module is a \<open>.plugin\<close> wrapper\<close>
  "identity_package d =
     (if ends_with ''.plugin'' (dc_module d)
      then take (length (dc_module d) - length ''.plugin'') (dc_module d) else dc_module d)"

definition add_identity :: "host \<Rightarrow> pyval dict \<Rightarrow> string \<Rightarrow> exn + pyval dict" where
  "add_identity ho acc dependency =
     bind_res (ho_names ho dependency True) (\<lambda>names.
     bind_res (identity_files ho dependency names) (\<lambda>files.
       Inr (dict_set acc dependency (VDict files))))"

definition row_identities :: "host \<Rightarrow> plugin_decl \<Rightarrow> exn + pyval dict" where
  "row_identities ho d =
     bind_res (if dc_identity_files d \<noteq> [] then Inr (identity_package d, dc_identity_files d)
               else bind_res (ho_names ho (dc_module d) False) (\<lambda>names. Inr (dc_module d, names)))
       (\<lambda>(rt, names).
     bind_res (identity_files ho rt names) (\<lambda>files.
       fold_res (add_identity ho) [(rt, VDict files)] (dc_identity_packages d)))"

section \<open>The snapshot\<close>

definition row_head :: "row \<Rightarrow> pyval dict" where
  "row_head r =
     [(''id'', VStr (rw_id r)), (''module'', VStr (rw_name r)), (''enabled'', VBool (\<not> rw_disabled r)),
      (''required'', VBool (rw_required r)), (''group'', VStr (rw_group r)),
      (''isolate'', VList (map VStr (rw_isolate r))), (''inject'', VList (map VStr (rw_inject r)))]"

definition schema_value :: "pyval option \<Rightarrow> pyval" where
  "schema_value s = (case s of None \<Rightarrow> VNull | Some v \<Rightarrow> v)"

definition row_config :: "host \<Rightarrow> composition \<Rightarrow> pyval dict dict option \<Rightarrow> plugin_decl \<Rightarrow> row \<Rightarrow> exn + pyval dict" where
  \<comment> \<open>the effective config a row is identified by\<close>
  "row_config ho c effective d r =
     (case (case effective of None \<Rightarrow> None | Some e \<Rightarrow> map_of e (rw_id r)) of
        Some config \<Rightarrow> Inr config
      | None \<Rightarrow>
          bind_res (apply_interpolation (ho_env ho) (rw_config r) (dc_interpolate d) (cp_variables c)
                      (''entry:'' @ rw_id r))
            (\<lambda>config. Inr (dict_update (dc_defaults d) config)))"

definition snapshot_row :: "host \<Rightarrow> composition \<Rightarrow> plugin_decl option dict \<Rightarrow> pyval dict dict option \<Rightarrow> row \<Rightarrow> exn + pyval" where
  "snapshot_row ho c declarations effective r =
     (case map_of declarations (rw_id r) of
        Some (Some d) \<Rightarrow>
          bind_res (row_identities ho d) (\<lambda>identities.
          bind_res (row_config ho c effective d r) (\<lambda>config.
            Inr (VDict (row_head r @
              [(''config_digest'', VStr (ho_digest ho (VDict config))),
               (''schema_digest'', VStr (ho_digest ho (schema_value (dc_schema d)))),
               (''resume_policy'', VStr (dc_resume d)),
               (''identity_files'', VDict identities),
               (''observational_fields'', VList (map VStr (dc_observational d)))]))))
      | _ \<Rightarrow>
          Inr (VDict (row_head r @
            [(''config_digest'', VStr (ho_digest ho (VDict (rw_config r)))),
             (''schema_digest'', VStr ''unavailable''),
             (''resume_policy'', VStr ''strict''),
             (''identity_files'', VDict [])])))"

definition framework_files :: "host \<Rightarrow> string \<Rightarrow> string list \<Rightarrow> exn + pyval" where
  "framework_files ho package names =
     (if ho_package ho package = None then Inr (VDict [])
      else bind_res (identity_files ho package names) (\<lambda>files. Inr (VDict files)))"

definition token_value :: "service_key \<Rightarrow> pyval" where
  "token_value k = VDict
     [(''name'', VStr (sk_name k)), (''module'', VStr (sk_module k)),
      (''definition'', VStr (sk_definition k)), (''cardinality'', VStr (sk_cardinality k)),
      (''protocol_version'', sk_version k)]"

definition snapshot :: "host \<Rightarrow> composition \<Rightarrow> plugin_decl option dict \<Rightarrow> service_key list \<Rightarrow>
    pyval dict dict option \<Rightarrow> exn + pyval dict" where
  "snapshot ho c declarations tokens effective =
     bind_res (map_res (snapshot_row ho c declarations effective) (cp_rows c)) (\<lambda>entries.
     bind_res (framework_files ho ''aka.core'' (ho_core_files ho ''aka.core'')) (\<lambda>core.
     bind_res (framework_files ho ''aka'' [''__init__.py'']) (\<lambda>aka.
       Inr [(''lock_version'', VInt 2), (''profile'', VStr (cp_profile c)),
            (''variables_digest'', VStr (ho_digest ho (VDict (map (\<lambda>(k, v). (k, VStr v)) (cp_variables c))))),
            (''core_version'', VStr (case ho_version ho of None \<Rightarrow> ''source'' | Some v \<Rightarrow> v)),
            (''core_digest'', VStr (ho_digest ho (VDict [(''aka.core'', core), (''aka'', aka)]))),
            (''tokens'', VList (map token_value (sort_key sk_name tokens))),
            (''entries'', VList entries)])))"

section \<open>Differences\<close>

datatype difference = RowDiff string "string list" string | GlobalDiff string

fun render_difference :: "difference \<Rightarrow> string" where
  "render_difference (RowDiff entry_id fs kind) = entry_id @ '': fields changed '' @ str_join '','' fs"
| "render_difference (GlobalDiff name) = name @ '': changed''"

fun dict_of :: "pyval \<Rightarrow> pyval dict" where
  "dict_of (VDict d) = d"
| "dict_of _ = []"

fun list_of :: "pyval \<Rightarrow> pyval list" where
  "list_of (VList vs) = vs"
| "list_of _ = []"

definition entry_table :: "pyval dict \<Rightarrow> pyval dict dict" where
  \<comment> \<open>\<open>{entry["id"]: entry for entry in doc.get("entries", [])}\<close>\<close>
  "entry_table doc = foldl (\<lambda>acc e. dict_set acc (str_of (field (dict_of e) ''id'')) (dict_of e)) []
     (list_of (field doc ''entries''))"

definition opt_eq :: "pyval option \<Rightarrow> pyval option \<Rightarrow> bool" where
  "opt_eq a b = (case (a, b) of (None, None) \<Rightarrow> True | (Some x, Some y) \<Rightarrow> py_eq x y | _ \<Rightarrow> False)"

definition entry_eq :: "pyval dict option \<Rightarrow> pyval dict option \<Rightarrow> bool" where
  "entry_eq a b = opt_eq (map_option VDict a) (map_option VDict b)"

definition changed_fields :: "pyval dict \<Rightarrow> pyval dict \<Rightarrow> string list" where
  "changed_fields before after =
     sorted_set (filter (\<lambda>k. \<not> opt_eq (map_of before k) (map_of after k) \<or>
        map_of before k = None) (dict_keys before @ dict_keys after))"

definition entry_or_empty :: "pyval dict option \<Rightarrow> pyval dict" where
  "entry_or_empty e = (case e of None \<Rightarrow> [] | Some d \<Rightarrow> d)"

definition row_difference :: "pyval dict dict \<Rightarrow> pyval dict dict \<Rightarrow> string \<Rightarrow> difference list" where
  "row_difference old new entry_id =
     (if entry_eq (map_of old entry_id) (map_of new entry_id) then []
      else [RowDiff entry_id
              (changed_fields (entry_or_empty (map_of old entry_id)) (entry_or_empty (map_of new entry_id)))
              (if map_of old entry_id = None then ''added''
               else if map_of new entry_id = None then ''removed'' else ''changed'')])"

definition global_fields :: "string list" where
  "global_fields = [''core_version'', ''core_digest'', ''tokens'', ''variables_digest'']"

definition difference_records :: "pyval dict \<Rightarrow> pyval dict \<Rightarrow> difference list" where
  "difference_records stored current =
     (let old = entry_table stored; new = entry_table current in
      concat (map (row_difference old new) (sorted_set (dict_keys old @ dict_keys new)))
      @ concat (map (\<lambda>f. if py_eq (field stored f) (field current f) then [] else [GlobalDiff f])
          global_fields))"

definition differences :: "pyval dict \<Rightarrow> pyval dict \<Rightarrow> string list" where
  "differences stored current = map render_difference (difference_records stored current)"

section \<open>Reading and reconciling\<close>

datatype lock_file = NoLock | UnreadableLock | StoredLock pyval

definition lock_read :: "string \<Rightarrow> lock_file \<Rightarrow> exn + pyval dict option" where
  "lock_read path file =
     (case file of
        NoLock \<Rightarrow> Inr None
      | UnreadableLock \<Rightarrow> Inl (CompositionError path (Msg ''unreadable composition lock''))
      | StoredLock v \<Rightarrow>
          let version = field (dict_of v) ''lock_version'' in
          if \<not> py_eq version (VInt 2) then
            Inl (CompositionError path (MsgV ''unsupported composition lock version: '' version))
          else if \<not> (is_list (field (dict_of v) ''entries'') \<and>
              list_all (\<lambda>e. is_dict e \<and> is_str (field (dict_of e) ''id'')) (list_of (field (dict_of v) ''entries'')))
          then Inl (CompositionError path (Msg ''composition lock entries must be objects with string ids''))
          else Inr (Some (dict_of v)))"

definition policy_of :: "pyval dict \<Rightarrow> pyval" where
  "policy_of e = dict_get_default e ''resume_policy'' (VStr ''strict'')"

definition allowed_fields :: "pyval dict \<Rightarrow> exn + string list" where
  \<comment> \<open>\<open>set(entry.get("observational_fields", ()))\<close>: a list of hashable values, the characters of a
    string or the keys of an object; only its strings can name a field\<close>
  "allowed_fields e =
     (case map_of e ''observational_fields'' of
        None \<Rightarrow> Inr []
      | Some (VList vs) \<Rightarrow>
          if list_ex (\<lambda>v. is_list v \<or> is_dict v) vs then Inl (TypeError (Msg ''unhashable type''))
          else Inr (map str_of (filter is_str vs))
      | Some (VStr s) \<Rightarrow> Inr (map (\<lambda>c. [c]) s)
      | Some (VDict d) \<Rightarrow> Inr (dict_keys d)
      | Some v \<Rightarrow> Inl (TypeError (Msg ''object is not iterable'')))"

fun sensitive :: "pyval dict dict \<Rightarrow> pyval dict dict \<Rightarrow> difference \<Rightarrow> exn + bool" where
  "sensitive old new (GlobalDiff f) = Inr True"
| "sensitive old new (RowDiff entry_id fs kind) =
     (if kind \<noteq> ''changed'' then Inr True
      else
        let before = entry_or_empty (map_of old entry_id); after = entry_or_empty (map_of new entry_id) in
        if py_eq (policy_of before) (VStr ''strict'') \<or> py_eq (policy_of after) (VStr ''strict'') then Inr True
        else bind_res (allowed_fields before) (\<lambda>allowed.
             bind_res (allowed_fields after) (\<lambda>also.
               Inr (\<not> set fs \<subseteq> set allowed \<inter> set also))))"

definition resume :: "string \<Rightarrow> pyval dict option \<Rightarrow> pyval dict \<Rightarrow> exn + string list" where
  "resume path stored current =
     (case stored of
        None \<Rightarrow> Inl (CompositionError path (Msg ''resume requires an existing version 2 lock''))
      | Some st \<Rightarrow>
          let records = difference_records st current in
          bind_res (map_res (sensitive (entry_table st) (entry_table current)) records) (\<lambda>flags.
            let bad = map fst (filter snd (zip records flags)) in
            if bad \<noteq> []
            then Inl (CompositionError path (Msg (''resume identity mismatch: '' @
                   str_join ''; '' (map render_difference bad))))
            else Inr (map render_difference records)))"

definition reconcile :: "string \<Rightarrow> lock_file \<Rightarrow> pyval dict \<Rightarrow> string \<Rightarrow> (exn + string list) \<times> lock_file" where
  \<comment> \<open>the lock file is created atomically; another process creating it first is not modelled\<close>
  "reconcile path file current mode =
     (case lock_read path file of
        Inl e \<Rightarrow> (Inl e, file)
      | Inr stored \<Rightarrow>
          if mode = ''create'' then
            (if stored \<noteq> None
             then (Inl (CompositionError path (Msg ''create requires an unlocked workspace'')), file)
             else (Inr [], StoredLock (VDict current)))
          else if mode \<noteq> ''resume'' then
            (Inl (ValueError (Msg ''lock mode must be create or resume'')), file)
          else (resume path stored current, file))"

section \<open>What a resume may change\<close>

lemma difference_rows:
  "RowDiff k fs kind \<in> set (difference_records st cur) \<longleftrightarrow>
     k \<in> dom (map_of (entry_table st)) \<union> dom (map_of (entry_table cur)) \<and>
     \<not> entry_eq (map_of (entry_table st) k) (map_of (entry_table cur) k) \<and>
     fs = changed_fields (entry_or_empty (map_of (entry_table st) k)) (entry_or_empty (map_of (entry_table cur) k)) \<and>
     kind = (if map_of (entry_table st) k = None then ''added''
             else if map_of (entry_table cur) k = None then ''removed'' else ''changed'')"
  by (auto simp: difference_records_def Let_def row_difference_def dict_simps)

lemma difference_globals:
  "GlobalDiff f \<in> set (difference_records st cur) \<longleftrightarrow>
     f \<in> set global_fields \<and> \<not> py_eq (field st f) (field cur f)"
  by (auto simp: difference_records_def Let_def row_difference_def)

lemma no_flag_set:
  assumes "map_res f xs = Inr flags" and "filter snd (zip xs flags) = []" and "x \<in> set xs"
  shows "f x = Inr False"
proof -
  from assms(1) have a: "list_all2 (\<lambda>x y. f x = Inr y) xs flags" by (simp add: map_res_Inr_iff)
  from assms(3) obtain i where i: "i < length xs" "x = xs ! i" by (auto simp: in_set_conv_nth)
  with a have "f x = Inr (flags ! i)" "i < length flags" by (auto simp: list_all2_conv_all_nth)
  moreover from this i have "(x, flags ! i) \<in> set (zip xs flags)" by (auto simp: set_zip)
  with assms(2) have "\<not> flags ! i" by (auto simp: filter_empty_conv)
  ultimately show ?thesis by simp
qed

lemma resume_Inr:
  assumes "resume path (Some st) cur = Inr ds"
  shows "\<forall>d \<in> set (difference_records st cur). sensitive (entry_table st) (entry_table cur) d = Inr False"
    and "ds = map render_difference (difference_records st cur)"
  using assms no_flag_set [of "sensitive (entry_table st) (entry_table cur)"]
  by (auto simp: resume_def Let_def res_simps split: if_splits)

text \<open>The reader's view of an accepted resume, row by row.\<close>

definition observational_only :: "pyval dict \<Rightarrow> pyval dict \<Rightarrow> bool" where
  "observational_only before after =
     (\<not> py_eq (policy_of before) (VStr ''strict'') \<and> \<not> py_eq (policy_of after) (VStr ''strict'') \<and>
      (\<forall>k. map_of before k \<noteq> None \<or> map_of after k \<noteq> None \<longrightarrow>
         opt_eq (map_of before k) (map_of after k) \<and> map_of before k \<noteq> None \<or>
         (\<exists>xs ys. allowed_fields before = Inr xs \<and> allowed_fields after = Inr ys \<and> k \<in> set xs \<inter> set ys)))"

lemma resume_rows:
  assumes r: "resume path (Some st) cur = Inr ds"
  shows "entry_eq (map_of (entry_table st) k) (map_of (entry_table cur) k) \<or>
    (\<exists>before after. map_of (entry_table st) k = Some before \<and> map_of (entry_table cur) k = Some after \<and>
       observational_only before after)"
proof (cases "entry_eq (map_of (entry_table st) k) (map_of (entry_table cur) k)")
  case False
  let ?fs = "changed_fields (entry_or_empty (map_of (entry_table st) k)) (entry_or_empty (map_of (entry_table cur) k))"
  let ?kind = "if map_of (entry_table st) k = None then ''added''
       else if map_of (entry_table cur) k = None then ''removed'' else ''changed''"
  from False have "k \<in> dom (map_of (entry_table st)) \<union> dom (map_of (entry_table cur))"
    by (auto simp: entry_eq_def opt_eq_def split: option.splits)
  with False have "RowDiff k ?fs ?kind \<in> set (difference_records st cur)" by (simp add: difference_rows)
  with resume_Inr(1) [OF r] have ns: "sensitive (entry_table st) (entry_table cur) (RowDiff k ?fs ?kind) = Inr False"
    by blast
  then obtain before after where e: "map_of (entry_table st) k = Some before" "map_of (entry_table cur) k = Some after"
    by (cases "map_of (entry_table st) k"; cases "map_of (entry_table cur) k") auto
  with ns obtain xs ys where p: "\<not> py_eq (policy_of before) (VStr ''strict'')" "\<not> py_eq (policy_of after) (VStr ''strict'')"
    and al: "allowed_fields before = Inr xs" "allowed_fields after = Inr ys"
    and sub: "set (changed_fields before after) \<subseteq> set xs \<inter> set ys"
    by (auto simp: entry_or_empty_def Let_def res_simps split: if_splits)
  have "opt_eq (map_of before x) (map_of after x) \<and> map_of before x \<noteq> None \<or> x \<in> set xs \<inter> set ys"
    if "map_of before x \<noteq> None \<or> map_of after x \<noteq> None" for x
  proof (rule ccontr)
    assume n: "\<not> ?thesis"
    have "x \<in> set (dict_keys before @ dict_keys after)" using that by (auto simp: dict_simps)
    with n have "x \<in> set (changed_fields before after)" by (auto simp: changed_fields_def)
    with sub n show False by blast
  qed
  with p al have "observational_only before after" unfolding observational_only_def by blast
  with e show ?thesis by blast
qed simp

lemma resume_globals:
  assumes "resume path (Some st) cur = Inr ds" and "f \<in> set global_fields"
  shows "py_eq (field st f) (field cur f)"
  using resume_Inr(1) [OF assms(1)] assms(2) difference_globals [of f st cur] by auto

text \<open>A document compared with itself has no differences, when it holds no NaN.\<close>

lemma opt_eq_refl: "(\<And>v. a = Some v \<Longrightarrow> py_eq v v) \<Longrightarrow> opt_eq a a"
  by (cases a) (auto simp: opt_eq_def)

lemma has_nan_items_iff: "has_nan_items d \<longleftrightarrow> (\<exists>(k, v) \<in> set d. has_nan v)"
  by (induction d) auto

lemma has_nan_list_iff: "has_nan_list vs \<longleftrightarrow> (\<exists>v \<in> set vs. has_nan v)"
  by (induction vs) auto

lemma vals_wf_iff: "vals_wf vs \<longleftrightarrow> (\<forall>v \<in> set vs. val_wf v)"
  by (induction vs) auto

lemma dict_of_plain: "val_wf v \<Longrightarrow> \<not> has_nan v \<Longrightarrow> val_wf (VDict (dict_of v)) \<and> \<not> has_nan (VDict (dict_of v))"
  by (cases v) auto

lemma entry_table_member:
  assumes "map_of (entry_table doc) k = Some e"
  shows "\<exists>v \<in> set (list_of (field doc ''entries'')). e = dict_of v"
proof -
  have "map_of (foldl (\<lambda>acc e. dict_set acc (str_of (field (dict_of e) ''id'')) (dict_of e)) acc vs) k = Some e \<Longrightarrow>
      map_of acc k = Some e \<or> (\<exists>v \<in> set vs. e = dict_of v)" for acc vs
    by (induction vs arbitrary: acc) (fastforce simp: dict_simps split: if_splits)+
  with assms show ?thesis by (fastforce simp: entry_table_def)
qed

lemma field_plain:
  assumes "val_wf (VDict d)" and "\<not> has_nan (VDict d)"
  shows "val_wf (field d k) \<and> \<not> has_nan (field d k)"
  using assms by (auto simp: dict_get_default_def items_wf_iff has_nan_items_iff split: option.splits dest: map_of_SomeD)

lemma self_no_differences:
  assumes wf: "val_wf (VDict d)" and nn: "\<not> has_nan (VDict d)"
  shows "difference_records d d = []"
proof -
  have "py_eq (field d f) (field d f)" for f using field_plain [OF assms] py_eq_refl(1) by blast
  moreover have "entry_eq (map_of (entry_table d) k) (map_of (entry_table d) k)" for k
  proof (cases "map_of (entry_table d) k")
    case (Some e)
    from entry_table_member [OF this] obtain v where v: "v \<in> set (list_of (field d ''entries''))" "e = dict_of v" by blast
    from field_plain [OF assms, of "''entries''"] v(1) have "val_wf v \<and> \<not> has_nan v"
      by (cases "field d ''entries''") (auto simp: vals_wf_iff has_nan_list_iff)
    with dict_of_plain v(2) py_eq_refl(1) [of "VDict e"] show ?thesis by (simp add: Some entry_eq_def opt_eq_def)
  qed (simp add: entry_eq_def opt_eq_def)
  ultimately show ?thesis by (simp add: difference_records_def row_difference_def Let_def concat_eq_Nil_conv)
qed

section \<open>Properties\<close>

text \<open>
  A resume that is accepted changes nothing but what was declared observational: the version, the core
  digest, the tokens and the variables are equal, and every row either equals the stored one or exists on
  both sides, is not strict on either, and differs only in fields both sides allow.
\<close>

theorem resume_identity:
  assumes "reconcile path file current ''resume'' = (Inr ds, file')"
  shows "file' = file \<and> (\<exists>st. lock_read path file = Inr (Some st) \<and>
    (\<forall>f \<in> set global_fields. py_eq (field st f) (field current f)) \<and>
    (\<forall>k. entry_eq (map_of (entry_table st) k) (map_of (entry_table current) k) \<or>
       (\<exists>before after. map_of (entry_table st) k = Some before \<and> map_of (entry_table current) k = Some after \<and>
          observational_only before after)))"
proof -
  from assms obtain st where st: "lock_read path file = Inr (Some st)" and r: "resume path (Some st) current = Inr ds"
    and f: "file' = file"
    by (auto simp: reconcile_def resume_def split: sum.splits option.splits)
  with resume_globals [OF r] resume_rows [OF r] show ?thesis by blast
qed

definition sample_lock :: "pyval dict" where
  "sample_lock = [(''lock_version'', VInt 2), (''entries'', VList [VDict [(''id'', VStr ''a''), (''group'', VStr ''g'')]])]"

theorem resume_identity_witness:
  "\<exists>ds st. reconcile ''p'' (StoredLock (VDict sample_lock)) sample_lock ''resume'' = (Inr ds, StoredLock (VDict sample_lock)) \<and>
     lock_read ''p'' (StoredLock (VDict sample_lock)) = Inr (Some st) \<and> py_eq (field st ''tokens'') (field sample_lock ''tokens'')"
proof -
  have "fst (reconcile ''p'' (StoredLock (VDict sample_lock)) sample_lock ''resume'') = Inr []" by code_simp
  then obtain file' where r: "reconcile ''p'' (StoredLock (VDict sample_lock)) sample_lock ''resume'' = (Inr [], file')"
    by (cases "reconcile ''p'' (StoredLock (VDict sample_lock)) sample_lock ''resume''") simp
  from resume_identity [OF r] r show ?thesis by (auto simp: global_fields_def)
qed

text \<open>
  Creating a lock and then resuming from it with the same snapshot is accepted without differences; a
  second create is refused.
\<close>

theorem create_then_resume:
  assumes "val_wf (VDict cur)" and "\<not> has_nan (VDict cur)" and "map_of cur ''lock_version'' = Some (VInt 2)"
    and "map_of cur ''entries'' = Some (VList es)"
    and "\<forall>e \<in> set es. \<exists>d k. e = VDict d \<and> map_of d ''id'' = Some (VStr k)"
    and "reconcile path NoLock cur ''create'' = (r, file)"
  shows "r = Inr [] \<and> reconcile path file cur ''resume'' = (Inr [], file) \<and>
    (\<exists>e. reconcile path file cur ''create'' = (Inl e, file))"
proof -
  from assms(6) have f: "r = Inr []" "file = StoredLock (VDict cur)" by (simp_all add: reconcile_def lock_read_def)
  have "list_all (\<lambda>e. is_dict e \<and> is_str (field (dict_of e) ''id'')) es"
    using assms(5) by (fastforce simp: list_all_iff dict_get_default_def)
  with assms(3,4) have rd: "lock_read path file = Inr (Some cur)"
    by (simp add: lock_read_def f(2) Let_def dict_get_default_def pf_eq_refl)
  with self_no_differences [OF assms(1,2)] f(1) show ?thesis by (simp add: reconcile_def resume_def)
qed

theorem create_then_resume_witness:
  "reconcile ''p'' (StoredLock (VDict sample_lock)) sample_lock ''resume'' = (Inr [], StoredLock (VDict sample_lock))"
proof -
  have c: "reconcile ''p'' NoLock sample_lock ''create'' = (Inr [], StoredLock (VDict sample_lock))"
    by (simp add: reconcile_def lock_read_def)
  have "val_wf (VDict sample_lock)" "\<not> has_nan (VDict sample_lock)"
    by (simp_all add: sample_lock_def dict_wf_def)
  from create_then_resume [OF this _ _ _ c] show ?thesis by (auto simp: sample_lock_def)
qed

end
