(* ===== verification/Boot.thy ===== *)
theory Boot
  imports Aborts Locks "HOL-Library.Product_Lexorder"
begin

text \<open>
  From a resolved composition to a running tree: src/src/aka/core/loader.py (\<open>import_plugin\<close>,
  \<open>load\<close>, \<open>_mount\<close>, \<open>BootReport.verify_composition\<close>) and src/src/aka/core/boot.py (\<open>_prepare\<close>,
  \<open>boot\<close>, \<open>validate\<close>, \<open>freeze\<close>, \<open>_validate_plugin_config\<close>).

  The record \<open>startup\<close> holds what the program does not define: importing a module, the plugins'
  own code, how an exception prints as \<open>TypeName: message\<close>, and the machine facts of the lock.
  Warnings printed to stderr are in the report only.  An outcome always comes with the tree it
  leaves behind, so that failing and disposing can be told apart.
\<close>

section \<open>Importing and mounting\<close>

record startup =
  su_import :: "string \<Rightarrow> exn + pymodule"
  su_plugins :: plugins
  su_show :: "exn \<Rightarrow> string"
  su_rounds :: nat
  su_host :: host

definition import_plugin :: "startup \<Rightarrow> string \<Rightarrow> exn + pymodule" where
  "import_plugin S path =
     (case su_import S path of
        Inr m \<Rightarrow> Inr m
      | Inl e \<Rightarrow> if is_exception e then Inl (CompositionError path (MsgExn e)) else Inl e)"

definition check_row_seams :: "row \<Rightarrow> service_key dict option \<Rightarrow> exn + unit" where
  "check_row_seams r seams =
     (case seams of
        None \<Rightarrow> Inr ()
      | Some table \<Rightarrow>
          let unknown = sorted_set (list_diff (rw_inject r @ rw_isolate r) (dict_keys table)) in
          guard_res (unknown = []) (CompositionError (''entry:'' @ rw_id r)
            (Msg (''references unregistered seams: '' @ str_join '', '' unknown))))"

definition row_declaration :: "startup \<Rightarrow> row \<Rightarrow> service_key dict option \<Rightarrow> exn + plugin_decl" where
  "row_declaration S r seams =
     bind_res (import_plugin S (rw_name r)) (\<lambda>m.
     bind_res (check_row_seams r seams) (\<lambda>_.
     bind_res (declare_module m seams) (\<lambda>d. with_extra_inject d (rw_inject r))))"

definition mount_row :: "startup \<Rightarrow> service_key dict option \<Rightarrow> bool \<Rightarrow> row \<Rightarrow> world \<Rightarrow> (exn + nat) \<times> world" where
  "mount_row S seams resolved r w =
     (case row_declaration S r seams of
        Inl e \<Rightarrow> (Inl e, w)
      | Inr d \<Rightarrow> mount d (rw_config r) (rw_id r) (rw_required r) resolved (rw_isolate r) None w)"

fun mount_rows :: "startup \<Rightarrow> service_key dict option \<Rightarrow> bool \<Rightarrow> row list \<Rightarrow> (string \<times> string) list \<Rightarrow> world \<Rightarrow>
    exn option \<times> (string \<times> string) list \<times> world" where
  "mount_rows S seams resolved [] unresolved w = (None, unresolved, w)"
| "mount_rows S seams resolved (r # rs) unresolved w =
     (case mount_row S seams resolved r w of
        (Inr _, w1) \<Rightarrow> mount_rows S seams resolved rs unresolved w1
      | (Inl e, w1) \<Rightarrow>
          if is_core_error e then mount_rows S seams resolved rs (unresolved @ [(rw_id r, su_show S e)]) w1
          else (Some e, unresolved, w1))"

section \<open>Loading a composition\<close>

record boot_report =
  bt_active :: "string list"
  bt_failed :: "(string \<times> string) list"
  bt_pending :: "(string \<times> string list) list"
  bt_warnings :: "string list"
  bt_lock :: "string list"

definition dispose_with :: "startup \<Rightarrow> exn \<Rightarrow> world \<Rightarrow> (exn + boot_report) \<times> world" where
  \<comment> \<open>\<open>root.dispose(); raise\<close>: an abort out of the disposal replaces the exception\<close>
  "dispose_with S e w =
     (let (abort, w1) = dispose_root (su_plugins S) w
      in (Inl (case abort of None \<Rightarrow> e | Some x \<Rightarrow> x), w1))"

definition failed_texts :: "startup \<Rightarrow> world \<Rightarrow> (string \<times> string) list" where
  "failed_texts S w = map (\<lambda>(k, e). (k, case e of None \<Rightarrow> ''NoneType: None'' | Some x \<Rightarrow> su_show S x)) (failed_rows w)"

definition missing_text :: "string list \<Rightarrow> string" where
  "missing_text missing = (let s = str_join '', '' missing in if s = [] then ''an unavailable service'' else s)"

definition not_active_text :: string where
  "not_active_text = ''no enabled row with this id is active; check the composition for a disabled, '' @
     ''removed, or misspelled row''"

definition required_in_tree :: "world \<Rightarrow> string list" where
  "required_in_tree w = map fst (filter (\<lambda>(_, u). fb_required (fib w u)) (w_table w))"

definition blocking_reasons :: "(string \<times> string) list \<Rightarrow> (string \<times> string list) list \<Rightarrow> string list \<Rightarrow> string list \<Rightarrow>
    (string \<times> msg) list" where
  "blocking_reasons failed pending active required =
     (let reasons = dict_update (dict_update [] failed) (map (\<lambda>(k, m). (k, ''waiting for '' @ missing_text m)) pending)
      in map (\<lambda>k. (k, Msg (dict_get_default reasons k not_active_text)))
           (filter (\<lambda>k. k \<notin> set active) (sorted_set required)))"

definition boot_warnings :: "(string \<times> string) list \<Rightarrow> (string \<times> string list) list \<Rightarrow> string list" where
  "boot_warnings failed pending =
     map (\<lambda>(k, m). ''optional row \"'' @ k @ ''\" failed: '' @ m) failed @
     map (\<lambda>(k, m). ''optional row \"'' @ k @ ''\" is waiting for '' @ missing_text m) pending"

definition conclude :: "startup \<Rightarrow> string list \<Rightarrow> (string \<times> string) list \<Rightarrow> world \<Rightarrow> (exn + boot_report) \<times> world" where
  "conclude S required unresolved w =
     (let failed = sort (failed_texts S w @ unresolved);
          pending = pending_rows w;
          active = active_rows w;
          blocking = blocking_reasons failed pending active (required @ required_in_tree w)
      in if blocking \<noteq> [] then dispose_with S (BootFailure blocking) w
         else (Inr \<lparr>bt_active = active, bt_failed = failed, bt_pending = pending,
                    bt_warnings = boot_warnings failed pending, bt_lock = []\<rparr>, w))"

definition load_tree :: "startup \<Rightarrow> composition \<Rightarrow> service_key dict option \<Rightarrow> string list \<Rightarrow>
    (exn + boot_report) \<times> world" where
  \<comment> \<open>\<open>loader.load\<close>\<close>
  "load_tree S c seams required =
     (let w0 = root_world (case seams of None \<Rightarrow> [] | Some t \<Rightarrow> t) (cp_variables c) (su_rounds S) in
      case mount_rows S seams (cp_resolved c) (comp_enabled c) [] w0 of
        (Some e, _, w1) \<Rightarrow> dispose_with S e w1
      | (None, unresolved, w1) \<Rightarrow>
          (case settle (su_plugins S) w1 of
             (Some e, w2) \<Rightarrow> dispose_with S e w2
           | (None, w2) \<Rightarrow>
               conclude S (map rw_id (filter rw_required (cp_rows c)) @ required) unresolved w2))"

definition verify_composition :: "composition \<Rightarrow> world \<Rightarrow> exn + unit" where
  "verify_composition c w =
     (if \<not> cp_resolved c then Inl (ValueError (Msg ''composition verification requires frozen configs''))
      else
        let recorded = foldl (\<lambda>acc r. dict_set acc (rw_id r) r) [] (comp_enabled c) in
        fold_res (\<lambda>_ (entry_id, u).
          case map_of recorded entry_id of
            None \<Rightarrow> Inl (CompositionError entry_id
                (Msg ''startup setup changed the recorded composition or effective config''))
          | Some r \<Rightarrow>
              guard_res (case fb_config (fib w u) of None \<Rightarrow> True | Some config \<Rightarrow> py_eq (VDict config) (VDict (rw_config r)))
                (CompositionError entry_id
                  (Msg ''startup setup changed the recorded composition or effective config'')))
          () (w_table w))"

section \<open>Preparing a boot\<close>

definition run_validator :: "startup \<Rightarrow> plugin_decl \<Rightarrow> pyval dict \<Rightarrow> exn + pyval dict" where
  "run_validator S d config =
     (if \<not> dc_validator d then Inr config
      else (case pr_validator (su_plugins S) (dc_module d) config of
              Accepts \<Rightarrow> Inr config
            | Rejects m \<Rightarrow> Inl (OtherException ''Exception'' m)
            | Aborts e \<Rightarrow> Inl e))"

definition validate_plugin_config :: "startup \<Rightarrow> plugin_decl \<Rightarrow> row \<Rightarrow> string dict \<Rightarrow> bool \<Rightarrow> exn + pyval dict" where
  "validate_plugin_config S d r variables resolved =
     bind_res (if resolved then Inr (rw_config r)
               else apply_interpolation (pr_env (su_plugins S)) (rw_config r) (dc_interpolate d) variables
                      (''entry:'' @ rw_id r)) (\<lambda>config.
     let merged = (if resolved then config else dict_update (dc_defaults d) config) in
     case dc_schema d of
       None \<Rightarrow>
         if merged \<noteq> [] then Inl (ValueError (Msg ''plugin declares no Config schema''))
         else run_validator S d merged
     | Some schema \<Rightarrow>
         (case validate_schema schema (VDict merged) (rw_id r @ ''.config'') of
            Inl e \<Rightarrow> Inl (SchemaError e)
          | Inr _ \<Rightarrow> run_validator S d merged))"

definition plain_declaration :: "startup \<Rightarrow> row \<Rightarrow> service_key dict option \<Rightarrow> exn + plugin_decl" where
  \<comment> \<open>\<open>declare(import_plugin(row.name), ..).with_extra_inject(row.inject)\<close>\<close>
  "plain_declaration S r seams =
     bind_res (import_plugin S (rw_name r)) (\<lambda>m.
     bind_res (declare_module m seams) (\<lambda>d. with_extra_inject d (rw_inject r)))"

definition note_failure :: "'a \<Rightarrow> (string \<times> msg) list \<Rightarrow> string \<Rightarrow> exn \<Rightarrow> bool \<Rightarrow> exn + ('a \<times> (string \<times> msg) list)" where
  \<comment> \<open>\<open>except Exception as exc: failures.append((row.id, str(exc)))\<close>\<close>
  "note_failure x failures entry_id e counts =
     (if \<not> is_exception e then Inl e
      else Inr (x, if counts then failures @ [(entry_id, MsgExn e)] else failures))"

definition declare_row :: "startup \<Rightarrow> service_key dict \<Rightarrow> string set \<Rightarrow>
    plugin_decl option dict \<times> (string \<times> msg) list \<Rightarrow> row \<Rightarrow> exn + (plugin_decl option dict \<times> (string \<times> msg) list)" where
  "declare_row S seams required acc r =
     (let (declarations, failures) = acc in
      if rw_disabled r then Inr (dict_set declarations (rw_id r) None, failures)
      else (case plain_declaration S r (Some seams) of
              Inr d \<Rightarrow> Inr (dict_set declarations (rw_id r) (Some d), failures)
            | Inl e \<Rightarrow> note_failure (dict_set declarations (rw_id r) None) failures (rw_id r) e
                        (rw_id r \<in> required)))"

definition configure_row :: "startup \<Rightarrow> composition \<Rightarrow> plugin_decl option dict \<Rightarrow>
    pyval dict dict \<times> (string \<times> msg) list \<Rightarrow> row \<Rightarrow> exn + (pyval dict dict \<times> (string \<times> msg) list)" where
  "configure_row S c declarations acc r =
     (let (configs, failures) = acc in
      case map_of declarations (rw_id r) of
        Some (Some d) \<Rightarrow>
          (case validate_plugin_config S d r (cp_variables c) (cp_resolved c) of
             Inr config \<Rightarrow> Inr (dict_set configs (rw_id r) config, failures)
           | Inl e \<Rightarrow> note_failure configs failures (rw_id r) e True)
      | _ \<Rightarrow> Inr acc)"

definition claims_of :: "plugin_decl option dict \<Rightarrow> row \<Rightarrow> string list" where
  \<comment> \<open>the services a row provides into the shared realm\<close>
  "claims_of declarations r =
     (case map_of declarations (rw_id r) of
        Some (Some d) \<Rightarrow> filter (\<lambda>s. s \<notin> set (rw_isolate r)) (dc_provide d)
      | _ \<Rightarrow> [])"

definition collisions :: "plugin_decl option dict \<Rightarrow> row list \<Rightarrow> string list dict" where
  "collisions declarations rows =
     foldl (\<lambda>acc (s, k). dict_set acc s (dict_get_default acc s [] @ [k])) []
       (concat (map (\<lambda>r. map (\<lambda>s. (s, rw_id r)) (claims_of declarations r)) rows))"

definition duplicate_claim :: "service_key dict \<Rightarrow> string \<times> string list \<Rightarrow> exn + (string \<times> msg) list" where
  "duplicate_claim seams p =
     (let (service, rows) = p in
      if length rows \<le> 1 then Inr []
      else (case map_of seams service of
              None \<Rightarrow> Inl (OtherException ''KeyError'' service)
            | Some k \<Rightarrow>
                Inr (if sk_cardinality k = ''single''
                     then [(service, Msg (''single implementation is provided by rows '' @ str_join '', '' rows))]
                     else [])))"

definition check_collisions :: "service_key dict \<Rightarrow> plugin_decl option dict \<Rightarrow> row list \<Rightarrow> exn + unit" where
  "check_collisions seams declarations rows =
     bind_res (map_res (duplicate_claim seams) (sort_key fst (collisions declarations rows))) (\<lambda>dups.
       guard_res (concat dups = []) (BootFailure (concat dups)))"

definition prepare :: "startup \<Rightarrow> composition \<Rightarrow> service_key list \<Rightarrow> string list \<Rightarrow> string list \<Rightarrow>
    exn + (service_key dict \<times> plugin_decl option dict \<times> pyval dict dict)" where
  "prepare S c tokens required_rows required_services =
     bind_res (seam_table tokens) (\<lambda>seams.
     let unknown = sorted_set (list_diff required_services (dict_keys seams));
         required = set (map rw_id (filter rw_required (cp_rows c))) \<union> set required_rows in
     bind_res (guard_res (unknown = [])
       (BootFailure (map (\<lambda>n. (n, Msg ''required service has no registered token'')) unknown))) (\<lambda>_.
     bind_res (fold_res (declare_row S seams required) ([], []) (cp_rows c)) (\<lambda>(declarations, failures).
     bind_res (guard_res (failures = []) (BootFailure failures)) (\<lambda>_.
     bind_res (fold_res (configure_row S c declarations) ([], []) (comp_enabled c)) (\<lambda>(configs, failures).
     bind_res (guard_res (failures = []) (BootFailure failures)) (\<lambda>_.
     bind_res (check_collisions seams declarations (comp_enabled c)) (\<lambda>_.
       Inr (seams, declarations, configs))))))))"

section \<open>Booting, validating and freezing\<close>

definition lock_step :: "startup \<Rightarrow> composition \<Rightarrow> service_key dict \<Rightarrow> plugin_decl option dict \<Rightarrow> pyval dict dict \<Rightarrow>
    string option \<Rightarrow> string option \<Rightarrow> lock_file \<Rightarrow> (exn + string list) \<times> lock_file" where
  "lock_step S c seams declarations configs workspace mode file =
     (case mode of
        None \<Rightarrow> (Inr [], file)
      | Some m \<Rightarrow>
          (case workspace of
             None \<Rightarrow> (Inl (ValueError (Msg ''workspace is required with lock_mode'')), file)
           | Some path \<Rightarrow>
               (case snapshot (su_host S) c declarations (map snd seams) (Some configs) of
                  Inl e \<Rightarrow> (Inl e, file)
                | Inr current \<Rightarrow> reconcile path file current m)))"

definition missing_services :: "world \<Rightarrow> string list \<Rightarrow> string list" where
  "missing_services w required =
     filter (\<lambda>n. realm_resolve (w_realms w) 0 n = None) (sorted_set required)"

definition boot :: "startup \<Rightarrow> composition \<Rightarrow> service_key list \<Rightarrow> string list \<Rightarrow> string list \<Rightarrow> string option \<Rightarrow>
    string option \<Rightarrow> lock_file \<Rightarrow> (exn + boot_report) \<times> lock_file \<times> world option" where
  \<comment> \<open>with the tree left behind, when one was built\<close>
  "boot S c tokens required_rows required_services workspace mode file =
     (case prepare S c tokens required_rows required_services of
        Inl e \<Rightarrow> (Inl e, file, None)
      | Inr (seams, declarations, configs) \<Rightarrow>
          (case lock_step S c seams declarations configs workspace mode file of
             (Inl e, file1) \<Rightarrow> (Inl e, file1, None)
           | (Inr changes, file1) \<Rightarrow>
               (case load_tree S c (Some seams) (map rw_id (filter rw_required (cp_rows c)) @ required_rows) of
                  (Inl e, w) \<Rightarrow> (Inl e, file1, Some w)
                | (Inr rp, w) \<Rightarrow>
                    (case missing_services w required_services of
                       [] \<Rightarrow> (Inr (rp\<lparr>bt_lock := changes\<rparr>), file1, Some w)
                     | missing \<Rightarrow>
                         let (r, w1) = dispose_with S (BootFailure (map (\<lambda>n.
                               (n, Msg ''required service is unavailable in the root realm'')) missing)) w
                         in (r, file1, Some w1)))))"

definition validate_row :: "startup \<Rightarrow> composition \<Rightarrow> unit \<times> (string \<times> msg) list \<Rightarrow> row \<Rightarrow> exn + (unit \<times> (string \<times> msg) list)" where
  "validate_row S c acc r =
     (case bind_res (plain_declaration S r None) (\<lambda>d.
              validate_plugin_config S d r (cp_variables c) (cp_resolved c)) of
        Inr _ \<Rightarrow> Inr acc
      | Inl e \<Rightarrow> note_failure () (snd acc) (rw_id r) e True)"

definition validate :: "startup \<Rightarrow> composition \<Rightarrow> exn + unit" where
  "validate S c =
     bind_res (fold_res (validate_row S c) ((), []) (comp_enabled c)) (\<lambda>(_, failures).
       guard_res (failures = []) (BootFailure failures))"

definition freeze_row :: "pyval dict dict \<Rightarrow> row \<Rightarrow> row" where
  "freeze_row configs r = (case map_of configs (rw_id r) of None \<Rightarrow> r | Some config \<Rightarrow> r\<lparr>rw_config := config\<rparr>)"

definition freeze :: "startup \<Rightarrow> composition \<Rightarrow> service_key list \<Rightarrow> exn + (composition \<times> pyval dict)" where
  "freeze S c tokens =
     bind_res (prepare S c tokens [] []) (\<lambda>(seams, declarations, configs).
       let effective = c\<lparr>cp_rows := map (freeze_row configs) (cp_rows c), cp_resolved := True\<rparr> in
       bind_res (snapshot (su_host S) effective declarations (map snd seams) (Some configs)) (\<lambda>identity.
         Inr (effective, identity)))"

section \<open>A failed start leaves nothing behind\<close>

definition torn_down :: "world \<Rightarrow> bool" where
  "torn_down w = (w_table w = [] \<and> w_pending w = [] \<and> w_closed w \<and>
     (\<forall>u b. w_heap w u = Some b \<longrightarrow> fb_state b = Disposed) \<and> (\<forall>i n. own_impl (w_realms w) i n = None))"

lemma dispose_with_spec:
  assumes "tree_ok w" and "dispose_with S e w = (r, w')"
  shows "torn_down w'" and "\<exists>x. r = Inl x"
proof -
  from assms(2) obtain ab where d: "dispose_root (su_plugins S) w = (ab, w')" and r: "\<exists>x. r = Inl x"
    by (auto simp: dispose_with_def split: prod.splits)
  from dispose_root_spec [OF assms(1) d] show "torn_down w'" unfolding torn_down_def by blast
  from r show "\<exists>x. r = Inl x" .
qed

lemma mount_row_rest:
  assumes "at_rest w" and "mount_row S seams resolved r w = (x, w')"
  shows "at_rest w'" and "same_settings w w'"
proof -
  have "at_rest w' \<and> same_settings w w'"
  proof (cases "row_declaration S r seams")
    case (Inl e)
    with assms show ?thesis by (simp add: mount_row_def same_settings_def)
  next
    case (Inr d)
    with assms(2) have m: "mount d (rw_config r) (rw_id r) (rw_required r) resolved (rw_isolate r) None w = (x, w')"
      by (simp add: mount_row_def)
    have "tree_ok w" using assms(1) by (simp add: at_rest_def)
    from mount_spec(2) [OF this _ m] have "evolves {} w w'" by simp
    then have "same_settings w w'" by (simp add: evolves_def)
    with mount_at_rest [OF assms(1) m] show ?thesis by simp
  qed
  then show "at_rest w'" and "same_settings w w'" by blast+
qed

lemma mount_rows_rest:
  assumes "at_rest w" and "mount_rows S seams resolved rs un w = (x, un', w')"
  shows "at_rest w' \<and> same_settings w w'"
  using assms
proof (induction rs arbitrary: un w)
  case Nil
  then show ?case by (simp add: same_settings_def)
next
  case (Cons r rs)
  obtain y w1 where m: "mount_row S seams resolved r w = (y, w1)" by (cases "mount_row S seams resolved r w")
  note k = mount_row_rest [OF Cons.prems(1) m]
  from m Cons.prems(2) have "(\<exists>un1. mount_rows S seams resolved rs un1 w1 = (x, un', w')) \<or> w' = w1"
    by (auto split: sum.splits if_splits)
  then show ?case
  proof
    assume "\<exists>un1. mount_rows S seams resolved rs un1 w1 = (x, un', w')"
    with Cons.IH [OF k(1)] k(2) show ?thesis by (auto simp: same_settings_def)
  qed (use k in simp)
qed

lemma rows_in_iff:
  assumes "tree_ok w"
  shows "k \<in> set (rows_in w st) \<longleftrightarrow> (\<exists>u. map_of (w_table w) k = Some u \<and> fb_state (fib w u) = st)"
proof -
  from tree_okD(4) [OF assms] have "dict_wf (w_table w)" by (simp add: table_ok_def)
  then show ?thesis by (force simp: rows_in_def map_of_values [symmetric])
qed

lemma conclude_cases:
  assumes "tree_ok w" and "conclude S required un w = (r, w')"
  obtains (blocked) x where "r = Inl x" "torn_down w'"
  | (ready) rp where "r = Inr rp" "w' = w" "bt_active rp = active_rows w"
      "set required \<union> set (required_in_tree w) \<subseteq> set (active_rows w)"
proof (cases "blocking_reasons (sort (failed_texts S w @ un)) (pending_rows w) (active_rows w)
    (required @ required_in_tree w) = []")
  case False
  with assms(2) have "dispose_with S (BootFailure (blocking_reasons (sort (failed_texts S w @ un)) (pending_rows w)
      (active_rows w) (required @ required_in_tree w))) w = (r, w')" by (simp add: conclude_def Let_def)
  from dispose_with_spec [OF assms(1) this] blocked show ?thesis by blast
next
  case True
  then have "set required \<union> set (required_in_tree w) \<subseteq> set (active_rows w)"
    by (auto simp: blocking_reasons_def Let_def filter_empty_conv)
  moreover from True assms(2) obtain rp where "r = Inr rp" "w' = w" "bt_active rp = active_rows w"
    by (auto simp: conclude_def Let_def)
  ultimately show ?thesis using ready by blast
qed

lemma load_tree_cases:
  assumes "load_tree S c seams required = (r, w)"
  obtains (failed) x where "r = Inl x" "torn_down w"
  | (ready) rp where "r = Inr rp" "at_rest w" "w_pending w = []" "\<forall>u. live w u \<longrightarrow> stable w u"
      "bt_active rp = active_rows w" "comp_required c \<union> set required \<union> set (required_in_tree w) \<subseteq> set (active_rows w)"
proof -
  let ?w0 = "root_world (case seams of None \<Rightarrow> [] | Some t \<Rightarrow> t) (cp_variables c) (su_rounds S)"
  obtain x un w1 where m: "mount_rows S seams (cp_resolved c) (comp_enabled c) [] ?w0 = (x, un, w1)"
    by (cases "mount_rows S seams (cp_resolved c) (comp_enabled c) [] ?w0")
  from mount_rows_rest [OF root_world_at_rest m] have rest: "at_rest w1" and "w_settling w1 = w_settling ?w0"
    by (auto simp: same_settings_def)
  then have ns: "\<not> w_settling w1" by (simp add: root_world_def)
  from rest have ok1: "tree_ok w1" and q1: "queue_ok [] w1" by (simp_all add: at_rest_def)
  show ?thesis
  proof (cases x)
    case (Some e)
    with m assms have "dispose_with S e w1 = (r, w)" by (simp add: load_tree_def Let_def)
    from dispose_with_spec [OF ok1 this] failed show ?thesis by blast
  next
    case None
    obtain y w2 where s: "settle (su_plugins S) w1 = (y, w2)" by (cases "settle (su_plugins S) w1")
    from settle_keeps_tree [OF ok1 q1 s] have ok2: "tree_ok w2" by (simp add: keeps_def)
    show ?thesis
    proof (cases y)
      case (Some e)
      with m s None assms have "dispose_with S e w2 = (r, w)" by (simp add: load_tree_def Let_def)
      from dispose_with_spec [OF ok2 this] failed show ?thesis by blast
    next
      case y: None
      with m s None assms have cn: "conclude S (map rw_id (filter rw_required (cp_rows c)) @ required) un w2 = (r, w)"
        by (simp add: load_tree_def Let_def)
      from s y have "settle (su_plugins S) w1 = (None, w2)" by simp
      note st = settle_spec [OF rest ns this]
      from ok2 cn show ?thesis
      proof (cases rule: conclude_cases)
        case blocked
        with failed show ?thesis by blast
      next
        case (ready rp)
        then show ?thesis using that(2) [of rp] st by (simp add: comp_required_def)
      qed
    qed
  qed
qed

text \<open>What being active means once the tree has settled: every declared injection resolves.\<close>

lemma active_satisfied:
  assumes "stable w u" and "w_heap w u = Some b" and "fb_state b = Active"
  shows "unsatisfied w b = []"
proof -
  from assms have "compute_epoch w b \<noteq> None" by (auto simp: stable_def consistent_def)
  then have "None \<notin> service_serial w b ` set (dc_inject (fb_decl b))"
    by (auto simp: compute_epoch_def Let_def split: if_splits)
  then show ?thesis by (auto simp: unsatisfied_def service_serial_def filter_empty_conv)
qed

lemma boot_cases:
  assumes "boot S c tokens rows services ws mode file = (r, file', t)"
  obtains (early) x where "r = Inl x" "t = None"
  | (failed) x w where "r = Inl x" "t = Some w" "torn_down w"
  | (ready) rp w where "r = Inr rp" "t = Some w" "at_rest w" "w_pending w = []" "\<forall>u. live w u \<longrightarrow> stable w u"
      "bt_active rp = active_rows w" "comp_required c \<union> set rows \<union> set (required_in_tree w) \<subseteq> set (active_rows w)"
      "\<forall>n \<in> set services. realm_resolve (w_realms w) 0 n \<noteq> None"
proof (cases "t = None")
  case True
  with assms have "\<exists>x. r = Inl x"
    by (auto simp: boot_def Let_def split: sum.splits prod.splits list.splits)
  with True early show ?thesis by blast
next
  case False
  with assms obtain seams ds cs changes file1 where p: "prepare S c tokens rows services = Inr (seams, ds, cs)"
    and l: "lock_step S c seams ds cs ws mode file = (Inr changes, file1)"
    by (auto simp: boot_def Let_def split: sum.splits prod.splits)
  obtain y w where t: "load_tree S c (Some seams) (map rw_id (filter rw_required (cp_rows c)) @ rows) = (y, w)"
    by (cases "load_tree S c (Some seams) (map rw_id (filter rw_required (cp_rows c)) @ rows)")
  from t show ?thesis
  proof (cases rule: load_tree_cases)
    case (failed x)
    with assms p l t have "r = Inl x" "t = Some w" by (simp_all add: boot_def)
    with failed(2) that(2) show ?thesis by blast
  next
    case (ready rp)
    show ?thesis
    proof (cases "missing_services w services")
      case Nil
      then have "\<forall>n \<in> set services. realm_resolve (w_realms w) 0 n \<noteq> None"
        by (auto simp: missing_services_def filter_empty_conv)
      moreover have "r = Inr (rp\<lparr>bt_lock := changes\<rparr>)" "t = Some w"
        using assms p l t ready(1) Nil by (simp_all add: boot_def)
      ultimately show ?thesis using ready by (intro that(3) [of "rp\<lparr>bt_lock := changes\<rparr>" w]) auto
    next
      case (Cons n ns)
      from ready(2) have ok: "tree_ok w" by (simp add: at_rest_def)
      obtain z w1 where d: "dispose_with S (BootFailure (map (\<lambda>n.
          (n, Msg ''required service is unavailable in the root realm'')) (n # ns))) w = (z, w1)" by force
      from dispose_with_spec [OF ok d] have "torn_down w1" "\<exists>x. z = Inl x" by blast+
      moreover have "r = z" "t = Some w1"
        using assms p l t ready(1) Cons d by (simp_all add: boot_def)
      ultimately show ?thesis using that(2) by blast
    qed
  qed
qed

section \<open>What the preflight decides\<close>

lemma collisions_get:
  "map_of (foldl (\<lambda>acc (s, k). dict_set acc s (dict_get_default acc s [] @ [k])) acc ps) s =
     (let ks = map snd (filter (\<lambda>p. fst p = s) ps)
      in if ks = [] then map_of acc s else Some (dict_get_default acc s [] @ ks))"
proof (induction ps arbitrary: acc)
  case (Cons p ps)
  obtain a k where p: "p = (a, k)" by (cases p)
  from Cons.IH [of "dict_set acc a (dict_get_default acc a [] @ [k])"] show ?case
    by (auto simp: p Let_def dict_get_default_def dict_simps split: if_splits option.splits)
qed simp

lemma map_res_member: "map_res f xs = Inr ys \<Longrightarrow> x \<in> set xs \<Longrightarrow> \<exists>y \<in> set ys. f x = Inr y"
  by (induction xs arbitrary: ys) (auto simp: res_simps)

lemma two_claims:
  assumes ok: "check_collisions seams ds rows = Inr ()" and r: "r1 \<in> set rows" "r2 \<in> set rows"
    and s: "s \<in> set (claims_of ds r1)" "s \<in> set (claims_of ds r2)"
    and k: "map_of seams s = Some k" "sk_cardinality k = ''single''"
  shows "rw_id r1 = rw_id r2"
proof (rule ccontr)
  assume ne: "rw_id r1 \<noteq> rw_id r2"
  let ?ps = "concat (map (\<lambda>r. map (\<lambda>s. (s, rw_id r)) (claims_of ds r)) rows)"
  define ks where "ks = map snd (filter (\<lambda>p. fst p = s) ?ps)"
  have mem: "rw_id r1 \<in> set ks" "rw_id r2 \<in> set ks" using r s by (force simp: ks_def)+
  with ne have len: "\<not> length ks \<le> 1" by (cases ks rule: remdups_adj.cases) auto
  with mem(1) have "map_of (collisions ds rows) s = Some ks"
    unfolding collisions_def collisions_get by (auto simp: ks_def [symmetric] Let_def dict_get_default_def)
  then have m: "(s, ks) \<in> set (sort_key fst (collisions ds rows))" by (simp add: map_of_SomeD)
  from ok obtain dups where d: "map_res (duplicate_claim seams) (sort_key fst (collisions ds rows)) = Inr dups"
    and e: "concat dups = []" by (auto simp: check_collisions_def res_simps)
  from map_res_member [OF d m] obtain x where x: "x \<in> set dups" "duplicate_claim seams (s, ks) = Inr x" ..
  from x(1) e have "x = []" by auto
  with x(2) k len show False by (simp add: duplicate_claim_def)
qed

lemma prepare_parts:
  assumes "prepare S c tokens rows services = Inr (seams, ds, configs)"
  shows "seam_table tokens = Inr seams" and "set services \<subseteq> dom (map_of seams)"
    and "fold_res (configure_row S c ds) ([], []) (comp_enabled c) = Inr (configs, [])"
    and "check_collisions seams ds (comp_enabled c) = Inr ()"
  using assms by (auto simp: prepare_def Let_def res_simps dict_simps list_diff_def filter_empty_conv)

text \<open>A config that passes the preflight is the one the fiber loads with.\<close>

lemma validator_agrees:
  "run_validator S d config = Inr x \<longleftrightarrow> x = config \<and>
     (dc_validator d \<longrightarrow> pr_validator (su_plugins S) (dc_module d) config = Accepts)"
  by (auto simp: run_validator_def split: verdict.splits)

lemma preflight_iff:
  assumes b: "fb_decl b = d" "fb_raw b = rw_config r" "fb_resolved b = resolved" "fb_entry b = rw_id r"
    and quiet: "\<forall>entry config. pr_config (su_plugins S) entry config = Inr config"
    and hook: "dc_validator d \<longrightarrow> dc_schema d \<noteq> None"
  shows "validate_plugin_config S d r variables resolved = Inr config \<longleftrightarrow>
    bind_res (effective_config (su_plugins S) b variables) (validated_config (su_plugins S) b) = Inr config"
proof -
  define step where "step = (if resolved then Inr (rw_config r)
      else apply_interpolation (pr_env (su_plugins S)) (rw_config r) (dc_interpolate d) variables (''entry:'' @ rw_id r))"
  define merge where "merge x = (if resolved then x else dict_update (dc_defaults d) x)" for x
  have e: "effective_config (su_plugins S) b variables = bind_res step (\<lambda>x. Inr (merge x))"
    using b quiet by (simp add: effective_config_def step_def merge_def)
  show ?thesis
  proof (cases step)
    case (Inl x)
    then show ?thesis unfolding e by (simp add: validate_plugin_config_def step_def [symmetric])
  next
    case (Inr x)
    have v: "validate_plugin_config S d r variables resolved = (case dc_schema d of
         None \<Rightarrow> if merge x \<noteq> [] then Inl (ValueError (Msg ''plugin declares no Config schema''))
                 else run_validator S d (merge x)
       | Some schema \<Rightarrow> (case validate_schema schema (VDict (merge x)) (rw_id r @ ''.config'') of
            Inl e \<Rightarrow> Inl (SchemaError e) | Inr _ \<Rightarrow> run_validator S d (merge x)))"
      using Inr by (cases resolved; cases "dc_schema d";
          simp add: validate_plugin_config_def step_def merge_def Let_def split: sum.split)
    show ?thesis
    proof (cases "dc_schema d")
      case None
      with hook b show ?thesis by (auto simp: e Inr v validated_config_def validator_agrees)
    next
      case (Some schema)
      show ?thesis
      proof (cases "validate_schema schema (VDict (merge x)) (rw_id r @ ''.config'')")
        case (Inl y)
        with Some b show ?thesis by (simp add: e Inr v validated_config_def)
      next
        case ok: (Inr y)
        have l: "bind_res (bind_res step (\<lambda>x. Inr (merge x))) (validated_config (su_plugins S) b) =
            (if \<not> dc_validator d then Inr (merge x)
             else (case pr_validator (su_plugins S) (dc_module d) (merge x) of
                     Accepts \<Rightarrow> Inr (merge x) | Rejects m \<Rightarrow> Inl (ConfigError (rw_id r) (Msg m)) | Aborts e \<Rightarrow> Inl e))"
          using Some ok b by (simp add: Inr validated_config_def split: verdict.split)
        show ?thesis unfolding e l v
          by (simp add: Some ok validator_agrees split: verdict.splits) blast
      qed
    qed
  qed
qed

lemma mount_row_fiber:
  assumes "tree_ok w" and "rw_id r \<noteq> []" and "mount_row S seams resolved r w = (Inr u, w')"
  obtains d b where "row_declaration S r seams = Inr d" "w_heap w' u = Some b" "fb_decl b = d"
    "fb_raw b = rw_config r" "fb_resolved b = resolved" "fb_entry b = rw_id r" "w_variables w' = w_variables w"
proof -
  from assms(3) obtain d where d: "row_declaration S r seams = Inr d"
    and m: "mount d (rw_config r) (rw_id r) (rw_required r) resolved (rw_isolate r) None w = (Inr u, w')"
    by (auto simp: mount_row_def split: sum.splits)
  from mount_spec(2) [OF assms(1) _ m] have v: "w_variables w' = w_variables w"
    by (simp add: evolves_def same_settings_def)
  from m assms(2) obtain realm w1 where w': "w' = admit (new_fiber d (rw_config r) resolved (rw_id r) realm (rw_required r) None) w1"
    and u: "u = Suc (w_uid w1)"
    by (auto simp: mount_def Let_def split: sum.splits if_splits prod.splits)
  have "w_heap w' u = Some (new_fiber d (rw_config r) resolved (rw_id r) realm (rw_required r) None)"
    by (simp add: w' u admit_def Let_def new_fiber_def enqueue_fields)
  from that [OF d this] v show ?thesis by (simp add: new_fiber_def)
qed

section \<open>Freezing\<close>

text \<open>
  A frozen composition freezes to itself, whatever the environment: everything the environment
  could influence has been written into the rows.
\<close>

definition elsewhere :: "environ \<Rightarrow> startup \<Rightarrow> startup" where
  \<comment> \<open>the same program in another environment\<close>
  "elsewhere env S = S\<lparr>su_plugins := (su_plugins S)\<lparr>pr_env := env\<rparr>, su_host := (su_host S)\<lparr>ho_env := env\<rparr>\<rparr>"

lemma elsewhere_simps [simp]:
  "su_import (elsewhere env S) = su_import S" "pr_validator (su_plugins (elsewhere env S)) = pr_validator (su_plugins S)"
  "su_host (elsewhere env S) = (su_host S)\<lparr>ho_env := env\<rparr>"
  by (simp_all add: elsewhere_def)

lemma freeze_row_simps [simp]:
  "rw_id (freeze_row configs r) = rw_id r" "rw_name (freeze_row configs r) = rw_name r"
  "rw_inject (freeze_row configs r) = rw_inject r" "rw_isolate (freeze_row configs r) = rw_isolate r"
  "rw_disabled (freeze_row configs r) = rw_disabled r" "rw_required (freeze_row configs r) = rw_required r"
  "rw_group (freeze_row configs r) = rw_group r"
  by (simp_all add: freeze_row_def split: option.split)

lemma freeze_row_idem [simp]: "freeze_row configs (freeze_row configs r) = freeze_row configs r"
  by (simp add: freeze_row_def split: option.split)

lemma fold_res_map: "fold_res f s (map g xs) = fold_res (\<lambda>s x. f s (g x)) s xs"
  by (induction xs arbitrary: s) (auto intro: bind_res_cong)

lemma plain_declaration_frozen [simp]:
  "plain_declaration (elsewhere env S) (freeze_row configs r) seams = plain_declaration S r seams"
  by (simp add: plain_declaration_def import_plugin_def)

lemma declare_row_frozen [simp]:
  "declare_row (elsewhere env S) seams req acc (freeze_row configs r) = declare_row S seams req acc r"
  by (simp add: declare_row_def split: prod.split sum.split)

lemma claims_frozen [simp]: "claims_of ds (freeze_row configs r) = claims_of ds r"
  by (simp add: claims_of_def split: option.split)

lemma collisions_frozen [simp]: "collisions ds (map (freeze_row configs) rows) = collisions ds rows"
  by (simp add: collisions_def comp_def)

lemma validate_Inr:
  "validate_plugin_config S d r variables resolved = Inr config \<longleftrightarrow>
     (\<exists>x. (if resolved then Inr (rw_config r)
          else apply_interpolation (pr_env (su_plugins S)) (rw_config r) (dc_interpolate d) variables
                 (''entry:'' @ rw_id r)) = Inr x \<and>
        config = (if resolved then x else dict_update (dc_defaults d) x)) \<and>
     (case dc_schema d of None \<Rightarrow> config = []
      | Some schema \<Rightarrow> validate_schema schema (VDict config) (rw_id r @ ''.config'') = Inr ()) \<and>
     (dc_validator d \<longrightarrow> pr_validator (su_plugins S) (dc_module d) config = Accepts)" (is "_ \<longleftrightarrow> (\<exists>x. ?step = Inr x \<and> _ x) \<and> _")
proof (cases ?step)
  case (Inl e)
  then show ?thesis by (simp add: validate_plugin_config_def)
next
  case (Inr x)
  define m where "m = (if resolved then x else dict_update (dc_defaults d) x)"
  have "validate_plugin_config S d r variables resolved = (case dc_schema d of
         None \<Rightarrow> if m \<noteq> [] then Inl (ValueError (Msg ''plugin declares no Config schema'')) else run_validator S d m
       | Some schema \<Rightarrow> (case validate_schema schema (VDict m) (rw_id r @ ''.config'') of
            Inl e \<Rightarrow> Inl (SchemaError e) | Inr _ \<Rightarrow> run_validator S d m))"
    unfolding validate_plugin_config_def Inr bind_res.simps Let_def m_def [symmetric] ..
  moreover have "(\<exists>y. ?step = Inr y \<and> config = (if resolved then y else dict_update (dc_defaults d) y)) \<longleftrightarrow> config = m"
    unfolding Inr m_def by auto
  ultimately show ?thesis
    by (cases "dc_schema d"; cases "config = m") (auto simp: validator_agrees split: sum.splits)
qed

lemma revalidate:
  assumes "validate_plugin_config S d r variables resolved = Inr config"
  shows "validate_plugin_config (elsewhere env S) d (r\<lparr>rw_config := config\<rparr>) variables' True = Inr config"
  using assms by (cases "dc_schema d") (auto simp: validate_Inr)

lemma configure_failures:
  "fold_res (configure_row S c ds) (acc, fs) rows = Inr (configs, []) \<Longrightarrow> fs = []"
proof (induction rows arbitrary: acc fs)
  case (Cons r rows)
  from Cons.prems obtain acc1 fs1 where st: "configure_row S c ds (acc, fs) r = Inr (acc1, fs1)"
    and rest: "fold_res (configure_row S c ds) (acc1, fs1) rows = Inr (configs, [])" by (auto simp: res_simps)
  from Cons.IH [OF rest] st show ?case
    by (auto simp: configure_row_def note_failure_def split: option.splits sum.splits if_splits)
qed simp

lemma configure_step:
  assumes "fold_res (configure_row S c ds) (acc, []) (r # rows) = Inr (configs, [])"
  obtains (plain) d config where "map_of ds (rw_id r) = Some (Some d)"
      "validate_plugin_config S d r (cp_variables c) (cp_resolved c) = Inr config"
      "fold_res (configure_row S c ds) (dict_set acc (rw_id r) config, []) rows = Inr (configs, [])"
  | (skip) "\<forall>d. map_of ds (rw_id r) \<noteq> Some (Some d)" "fold_res (configure_row S c ds) (acc, []) rows = Inr (configs, [])"
proof -
  from assms obtain acc1 fs1 where st: "configure_row S c ds (acc, []) r = Inr (acc1, fs1)"
    and rest: "fold_res (configure_row S c ds) (acc1, fs1) rows = Inr (configs, [])" by (auto simp: res_simps)
  from configure_failures [OF rest] have fs1: "fs1 = []" .
  show ?thesis
  proof (cases "\<exists>d. map_of ds (rw_id r) = Some (Some d)")
    case True
    then obtain d where d: "map_of ds (rw_id r) = Some (Some d)" ..
    with st fs1 plain rest show ?thesis
      by (auto simp: configure_row_def note_failure_def split: sum.splits if_splits)
  next
    case False
    with st have "acc1 = acc" by (auto simp: configure_row_def split: option.splits)
    with False rest fs1 skip show ?thesis by simp
  qed
qed

lemma configure_lookup:
  assumes "fold_res (configure_row S c ds) (acc, []) rows = Inr (configs, [])"
  shows "k \<notin> rw_id ` set rows \<Longrightarrow> map_of configs k = map_of acc k"
    and "map_of acc k \<noteq> None \<Longrightarrow> map_of configs k \<noteq> None"
    and "r \<in> set rows \<Longrightarrow> map_of ds (rw_id r) = Some (Some d) \<Longrightarrow> map_of configs (rw_id r) \<noteq> None"
proof -
  have "(k \<notin> rw_id ` set rows \<longrightarrow> map_of configs k = map_of acc k) \<and>
      (\<forall>k. map_of acc k \<noteq> None \<longrightarrow> map_of configs k \<noteq> None) \<and>
      (\<forall>r d. r \<in> set rows \<and> map_of ds (rw_id r) = Some (Some d) \<longrightarrow> map_of configs (rw_id r) \<noteq> None)"
    using assms
  proof (induction rows arbitrary: acc)
    case (Cons q rows)
    from Cons.prems show ?case
    proof (cases rule: configure_step)
      case (plain e config)
      from Cons.IH [OF plain(3)] have ih: "k \<notin> rw_id ` set rows \<Longrightarrow> map_of configs k = map_of (dict_set acc (rw_id q) config) k"
        "\<forall>k. map_of (dict_set acc (rw_id q) config) k \<noteq> None \<longrightarrow> map_of configs k \<noteq> None"
        "\<forall>r d. r \<in> set rows \<and> map_of ds (rw_id r) = Some (Some d) \<longrightarrow> map_of configs (rw_id r) \<noteq> None" by blast+
      from ih(2) have "map_of configs (rw_id q) \<noteq> None" by (simp add: dict_simps)
      with ih show ?thesis by (auto simp: dict_simps split: if_splits)
    next
      case skip
      from Cons.IH [OF skip(2)] skip(1) show ?thesis by auto
    qed
  qed simp
  then show "k \<notin> rw_id ` set rows \<Longrightarrow> map_of configs k = map_of acc k"
    and "map_of acc k \<noteq> None \<Longrightarrow> map_of configs k \<noteq> None"
    and "r \<in> set rows \<Longrightarrow> map_of ds (rw_id r) = Some (Some d) \<Longrightarrow> map_of configs (rw_id r) \<noteq> None" by blast+
qed

lemma configure_frozen:
  assumes "fold_res (configure_row S c ds) (acc, []) rows = Inr (configs, [])" and "distinct (map rw_id rows)"
    and "cp_resolved c'"
  shows "fold_res (configure_row (elsewhere env S) c' ds) (acc, []) (map (freeze_row configs) rows) = Inr (configs, [])"
  using assms(1,2)
proof (induction rows arbitrary: acc)
  case (Cons r rows)
  from Cons.prems(1) show ?case
  proof (cases rule: configure_step)
    case (plain d config)
    from Cons.prems(2) have "rw_id r \<notin> rw_id ` set rows" by auto
    from configure_lookup(1) [OF plain(3) this] have "map_of configs (rw_id r) = Some config" by (simp add: dict_simps)
    then have f: "freeze_row configs r = r\<lparr>rw_config := config\<rparr>" by (simp add: freeze_row_def)
    have "configure_row (elsewhere env S) c' ds (acc, []) (freeze_row configs r) =
        Inr (dict_set acc (rw_id r) config, [])"
      using plain(1) revalidate [OF plain(2), of env "cp_variables c'"] assms(3) by (simp add: configure_row_def f)
    with Cons.IH [OF plain(3)] Cons.prems(2) show ?thesis by simp
  next
    case skip
    then have "configure_row (elsewhere env S) c' ds (acc, []) (freeze_row configs r) = Inr (acc, [])"
      by (auto simp: configure_row_def split: option.splits)
    with Cons.IH [OF skip(2)] Cons.prems(2) show ?thesis by simp
  qed
qed simp

lemma declare_step_frame:
  assumes "declare_row S seams req (ds, fs) r = Inr (ds', fs')"
  shows "k \<noteq> rw_id r \<Longrightarrow> map_of ds' k = map_of ds k" and "rw_disabled r \<Longrightarrow> map_of ds' (rw_id r) = Some None"
  using assms by (auto simp: declare_row_def note_failure_def dict_simps split: sum.splits if_splits)

lemma disabled_undeclared:
  assumes "fold_res (declare_row S seams req) acc rows = Inr (ds, fs)" and "distinct (map rw_id rows)"
    and "r \<in> set rows" and "rw_disabled r"
  shows "map_of ds (rw_id r) = Some None"
proof -
  have frame: "k \<notin> rw_id ` set rs \<Longrightarrow> fold_res (declare_row S seams req) acc rs = Inr (ds, fs) \<Longrightarrow>
      map_of ds k = map_of (fst acc) k" for k rs acc
  proof (induction rs arbitrary: acc)
    case (Cons q rs)
    then obtain acc1 where st: "declare_row S seams req (fst acc, snd acc) q = Inr (fst acc1, snd acc1)"
      and rest: "fold_res (declare_row S seams req) acc1 rs = Inr (ds, fs)" by (auto simp: res_simps)
    from Cons.IH [OF _ rest] Cons.prems(1) declare_step_frame(1) [OF st, of k] show ?case by simp
  qed simp
  from assms(3) obtain xs ys where rows: "rows = xs @ r # ys" by (auto simp: in_set_conv_decomp)
  with assms(1) obtain acc1 acc2 where st: "declare_row S seams req (fst acc1, snd acc1) r = Inr (fst acc2, snd acc2)"
    and rest: "fold_res (declare_row S seams req) acc2 ys = Inr (ds, fs)" by (auto simp: fold_res_append res_simps)
  from assms(2) rows have "rw_id r \<notin> rw_id ` set ys" by auto
  from frame [OF this rest] declare_step_frame(2) [OF st assms(4)] show ?thesis by simp
qed

lemma prepare_frozen:
  assumes p: "prepare S c tokens [] [] = Inr (seams, ds, configs)" and di: "distinct (map rw_id (cp_rows c))"
  defines "c' \<equiv> c\<lparr>cp_rows := map (freeze_row configs) (cp_rows c), cp_resolved := True\<rparr>"
  shows "prepare (elsewhere env S) c' tokens [] [] = Inr (seams, ds, configs)"
    and "r \<in> set (cp_rows c) \<Longrightarrow> map_of ds (rw_id r) = Some (Some d) \<Longrightarrow> map_of configs (rw_id r) \<noteq> None"
proof -
  let ?req = "set (map rw_id (filter rw_required (cp_rows c)))"
  have en: "comp_enabled c' = map (freeze_row configs) (comp_enabled c)"
    by (simp add: comp_enabled_def c'_def filter_map comp_def)
  have rq: "set (map rw_id (filter rw_required (cp_rows c'))) = ?req"
    by (simp add: c'_def filter_map comp_def image_image)
  have dr: "fold_res (declare_row (elsewhere env S) seams req) acc (cp_rows c') =
      fold_res (declare_row S seams req) acc (cp_rows c)" for req acc
    by (simp add: c'_def fold_res_map)
  have de: "distinct (map rw_id (comp_enabled c))" using di by (simp add: comp_enabled_def distinct_map_filter)
  note parts = prepare_parts [OF p]
  have cf: "fold_res (configure_row (elsewhere env S) c' ds) ([], []) (comp_enabled c') = Inr (configs, [])"
    unfolding en by (rule configure_frozen [OF parts(3) de]) (simp add: c'_def)
  have cl: "check_collisions seams ds (comp_enabled c') = Inr ()"
    using parts(4) by (simp add: en check_collisions_def)
  from p have fd: "fold_res (declare_row S seams ?req) ([], []) (cp_rows c) = Inr (ds, [])"
    by (auto simp: prepare_def Let_def res_simps)
  show "prepare (elsewhere env S) c' tokens [] [] = Inr (seams, ds, configs)"
    unfolding prepare_def parts(1) Let_def rq bind_res.simps
    using fd cf cl by (simp add: dr list_diff_def guard_res_def)
  show "map_of configs (rw_id r) \<noteq> None" if r: "r \<in> set (cp_rows c)" and d: "map_of ds (rw_id r) = Some (Some d)"
  proof -
    from disabled_undeclared [OF fd di r] d have "r \<in> set (comp_enabled c)" using r by (auto simp: comp_enabled_def)
    from configure_lookup(3) [OF parts(3) this d] show ?thesis .
  qed
qed

lemma snapshot_elsewhere:
  assumes "\<forall>r \<in> set (cp_rows c). \<forall>d. map_of ds (rw_id r) = Some (Some d) \<longrightarrow> map_of configs (rw_id r) \<noteq> None"
  shows "snapshot (ho\<lparr>ho_env := env\<rparr>) c ds tokens (Some configs) = snapshot ho c ds tokens (Some configs)"
proof -
  have f: "identity_files (ho\<lparr>ho_env := env\<rparr>) = identity_files ho" by (simp add: identity_files_def fun_eq_iff)
  then have a: "add_identity (ho\<lparr>ho_env := env\<rparr>) = add_identity ho" by (simp add: add_identity_def fun_eq_iff)
  have i: "row_identities (ho\<lparr>ho_env := env\<rparr>) = row_identities ho" by (simp add: row_identities_def a f fun_eq_iff)
  have w: "framework_files (ho\<lparr>ho_env := env\<rparr>) = framework_files ho" by (intro ext) (simp add: framework_files_def f)
  have "snapshot_row (ho\<lparr>ho_env := env\<rparr>) c ds (Some configs) r = snapshot_row ho c ds (Some configs) r"
    if "r \<in> set (cp_rows c)" for r
    using bspec [OF assms that] by (auto simp: snapshot_row_def row_config_def i split: option.split)
  then have "map_res (snapshot_row (ho\<lparr>ho_env := env\<rparr>) c ds (Some configs)) (cp_rows c) =
      map_res (snapshot_row ho c ds (Some configs)) (cp_rows c)" by (intro map_res_cong refl)
  then show ?thesis by (simp add: snapshot_def w)
qed

lemma freeze_again:
  assumes f: "freeze S c tokens = Inr (c', identity)" and di: "distinct (map rw_id (cp_rows c))"
  shows "freeze (elsewhere env S) c' tokens = Inr (c', identity)"
proof -
  from f obtain seams ds configs where p: "prepare S c tokens [] [] = Inr (seams, ds, configs)"
    and c': "c' = c\<lparr>cp_rows := map (freeze_row configs) (cp_rows c), cp_resolved := True\<rparr>"
    and sn: "snapshot (su_host S) c' ds (map snd seams) (Some configs) = Inr identity"
    by (auto simp: freeze_def Let_def res_simps)
  note pf = prepare_frozen [OF p di, folded c']
  have "c'\<lparr>cp_rows := map (freeze_row configs) (cp_rows c'), cp_resolved := True\<rparr> = c'" by (simp add: c' comp_def)
  moreover have "snapshot ((su_host S)\<lparr>ho_env := env\<rparr>) c' ds (map snd seams) (Some configs) = Inr identity"
  proof (subst snapshot_elsewhere)
    show "\<forall>r \<in> set (cp_rows c'). \<forall>d. map_of ds (rw_id r) = Some (Some d) \<longrightarrow> map_of configs (rw_id r) \<noteq> None"
      using pf(2) by (auto simp: c')
  qed (rule sn)
  ultimately show ?thesis using pf(1) [of env] by (simp add: freeze_def)
qed

end
