(* ===== verification/Driving.thy ===== *)
theory Driving
  imports Boot
begin

text \<open>
  The trees a program can hold: what \<open>Root\<close> offers between two settles (src/src/aka/core/fiber.py and boot.py), as the rules of
  two step relations.  \<open>driven\<close> trees are those whose settles all returned, the ones the runtime goes on with;
  \<open>reached\<close> trees are those left by any settle, also an aborted one, and by disposals.  Publishing a service from outside a
  settle is in neither: it can leave a service without its withdrawal (see the findings).
\<close>

inductive driven :: "world \<Rightarrow> bool" where
  driven_new: "driven (root_world seams variables rounds)"
| driven_row: "driven w \<Longrightarrow> mount_row S seams resolved r w = (x, w') \<Longrightarrow> driven w'"
| driven_restart: "driven w \<Longrightarrow> driven (request_restart u w)"
| driven_settle: "driven w \<Longrightarrow> settle P w = (None, w') \<Longrightarrow> driven w'"

inductive reached :: "world \<Rightarrow> bool" where
  reached_new: "reached (root_world seams variables rounds)"
| reached_row: "reached w \<Longrightarrow> mount_row S seams resolved r w = (x, w') \<Longrightarrow> reached w'"
| reached_restart: "reached w \<Longrightarrow> reached (request_restart u w)"
| reached_settle: "reached w \<Longrightarrow> settle P w = (r, w') \<Longrightarrow> reached w'"
| reached_dispose: "reached w \<Longrightarrow> w_heap w u = Some b \<Longrightarrow> dispose_fiber P u w = (r, w') \<Longrightarrow> reached w'"

section \<open>Invariants\<close>

lemma settle_idle: "settle P w = (r, w') \<Longrightarrow> \<not> w_settling w \<Longrightarrow> \<not> w_settling w'"
  by (auto simp: settle_def split: prod.splits)

lemma restart_idle: "tree_ok w \<Longrightarrow> \<not> w_settling w \<Longrightarrow> \<not> w_settling (request_restart u w)"
  using request_restart_spec(2) [of w u] by (simp add: evolves_def same_settings_def)

lemma driven_rest: "driven w \<Longrightarrow> at_rest w \<and> \<not> w_settling w"
proof (induction rule: driven.induct)
  case (driven_new seams variables rounds)
  then show ?case using root_world_at_rest by (simp add: root_world_def)
next
  case (driven_row w S seams resolved r x w')
  with mount_row_rest [OF _ driven_row.hyps(2)] show ?case by (simp add: same_settings_def)
next
  case (driven_restart w u)
  then have ok: "tree_ok w" by (simp add: at_rest_def)
  with driven_restart at_rest_evolves [OF _ request_restart_spec(1,2) [OF ok]] restart_idle show ?case by blast
next
  case (driven_settle w P w')
  with settle_spec(1) [OF _ _ driven_settle.hyps(2)] settle_idle show ?case by blast
qed

lemma mount_row_ok:
  assumes "tree_ok w" "queue_ok [] w" "mount_row S seams resolved r w = (x, w')"
  shows "tree_ok w' \<and> queue_ok [] w'"
proof (cases "row_declaration S r seams")
  case (Inl e)
  with assms show ?thesis by (simp add: mount_row_def)
next
  case (Inr d)
  with assms(3) have m: "mount d (rw_config r) (rw_id r) (rw_required r) resolved (rw_isolate r) None w = (x, w')"
    by (simp add: mount_row_def)
  from mount_spec(1,2) [OF assms(1) _ m] evolves_queue assms(2) show ?thesis by simp
qed

lemma dispose_ok:
  assumes "tree_ok w" "queue_ok [] w" "w_heap w u = Some b" "dispose_fiber P u w = (r, w')"
  shows "tree_ok w' \<and> queue_ok [] w'"
proof (cases "fb_state b = Disposed")
  case True
  with assms(3,4) have "w' = w" by (simp add: dispose_fiber_def dispose_upto.simps)
  with assms show ?thesis by simp
next
  case False
  from dispose_fiber_spec [OF assms(1,3) False assms(4)] have "tree_ok w'" "evolves {} w w'" by (simp_all add: disposes_def)
  with evolves_queue assms(2) show ?thesis by blast
qed

lemma reached_ok: "reached w \<Longrightarrow> tree_ok w \<and> queue_ok [] w"
proof (induction rule: reached.induct)
  case (reached_new seams variables rounds)
  then show ?case using root_world_at_rest by (simp add: at_rest_def)
next
  case (reached_row w S seams resolved r x w')
  then show ?case using mount_row_ok by blast
next
  case (reached_restart w u)
  then show ?case using request_restart_spec(1,2) evolves_queue by blast
next
  case (reached_settle w P r w')
  then show ?case using settle_keeps_tree by (auto simp: keeps_def)
next
  case (reached_dispose w u b P r w')
  then show ?case using dispose_ok by blast
qed

lemma driven_reached: "driven w \<Longrightarrow> reached w"
  by (induction rule: driven.induct) (auto intro: reached.intros)

lemma reached_boot:
  "reached w \<Longrightarrow> mount_rows S seams resolved rs un w = (x, un', w') \<Longrightarrow> reached w'"
  "driven w \<Longrightarrow> mount_rows S seams resolved rs un w = (x, un', w') \<Longrightarrow> driven w'"
proof -
  have "(reached w \<longrightarrow> reached w') \<and> (driven w \<longrightarrow> driven w')" if "mount_rows S seams resolved rs un w = (x, un', w')"
    using that
  proof (induction rs arbitrary: un w)
    case (Cons r rs)
    obtain y w1 where m: "mount_row S seams resolved r w = (y, w1)" by (cases "mount_row S seams resolved r w")
    from m Cons.prems have "(\<exists>un1. mount_rows S seams resolved rs un1 w1 = (x, un', w')) \<or> w' = w1"
      by (auto split: sum.splits if_splits)
    with Cons.IH reached_row [OF _ m] driven_row [OF _ m] show ?case by blast
  qed simp
  then show "reached w \<Longrightarrow> mount_rows S seams resolved rs un w = (x, un', w') \<Longrightarrow> reached w'"
    "driven w \<Longrightarrow> mount_rows S seams resolved rs un w = (x, un', w') \<Longrightarrow> driven w'" by blast+
qed

end
