(* ===== verification/Samples.thy ===== *)
theory Samples
  imports Boot
begin

text \<open>
  The small concrete inputs on which the properties are instantiated: a provider \<open>a\<close> of the
  service \<open>s\<close>, a consumer \<open>b\<close> of it, one row for each, and the worlds they boot into.
\<close>

definition sample_key :: service_key where
  "sample_key = \<lparr>sk_name = ''s'', sk_definition = ''d'', sk_cardinality = ''single'', sk_module = ''m'',
     sk_version = VInt 1, sk_doc = []\<rparr>"

definition sample_apply :: attr where
  "sample_apply = AFunc \<lparr>fn_params = [\<lparr>pm_kind = PosOrKw, pm_default = False\<rparr>,
     \<lparr>pm_kind = PosOrKw, pm_default = False\<rparr>], fn_async = False\<rparr>"

definition sample_module :: "string \<Rightarrow> string \<Rightarrow> pymodule" where
  \<comment> \<open>a module that lists the service \<open>s\<close> under the given export\<close>
  "sample_module name export = \<lparr>md_name = name, md_package = False, md_doc = [],
     md_attrs = [(''apply'', sample_apply), (''name'', AVal (VStr name)),
       (export, AVal (VTuple [VStr ''s'']))]\<rparr>"

definition sample_import :: "string \<Rightarrow> exn + pymodule" where
  "sample_import path =
     (if path = ''a'' then Inr (sample_module ''a'' ''provide'')
      else if path = ''b'' then Inr (sample_module ''b'' ''inject'')
      else Inl (OtherException ''ModuleNotFoundError'' path))"

definition sample_plugins :: plugins where
  "sample_plugins = \<lparr>
     pr_apply = (\<lambda>w u. if dc_name (fb_decl (fib w u)) = ''a''
       then Provide sample_key \<lparr>sv_tag = ''v'', sv_callables = []\<rparr> (\<lambda>r. case r of Inl e \<Rightarrow> Raise e | Inr _ \<Rightarrow> Return None)
       else Return (Some 0)),
     pr_cleanup = (\<lambda>i. if i = 0 then None else Some (BaseExc ''stop'')),
     pr_config = (\<lambda>_ c. Inr c), pr_validator = (\<lambda>_ _. Accepts), pr_env = (\<lambda>_. None)\<rparr>"

definition sample_host :: host where
  "sample_host = \<lparr>ho_package = (\<lambda>_. Some [(''__init__.py'', ''0'')]), ho_names = (\<lambda>_ _. Inr []), ho_core_files = (\<lambda>_. []),
     ho_digest = (\<lambda>_. ''h''), ho_version = None, ho_env = (\<lambda>_. None)\<rparr>"

definition sample :: startup where
  "sample = \<lparr>su_import = sample_import, su_plugins = sample_plugins, su_show = (\<lambda>_. ''e''), su_rounds = 9,
     su_host = sample_host\<rparr>"

definition sample_row :: "string \<Rightarrow> string \<Rightarrow> row" where
  "sample_row entry name = \<lparr>rw_id = entry, rw_name = name, rw_config = [], rw_required = True, rw_disabled = False,
     rw_inject = [], rw_isolate = [], rw_group = [], rw_doc = [], rw_source = ''f'', rw_config_source = ''f''\<rparr>"

definition sample_comp :: "string list \<Rightarrow> composition" where
  \<comment> \<open>one row for each of the modules\<close>
  "sample_comp names = \<lparr>cp_profile = ''p'', cp_rows = map (\<lambda>n. sample_row (''r'' @ n) n) names, cp_layers = [],
     cp_variables = [], cp_resolved = False\<rparr>"

end
