(* ===== verification/Scopes.thy ===== *)
theory Scopes
  imports Effects
begin

text \<open>
  Layered contributions (src/src/aka/core/scope.py).  \<open>Scope\<close> objects refer to their parent, and
  several children share one, so they live in a heap: a map from an allocation number to a layer.
  A layer is allocated after its parent, which is what the guard of \<open>scope_chain\<close> reads off and
  \<open>scopes_wf\<close> states.  \<open>se_id\<close> is the identity that \<open>layer.get(name) is entry\<close> compares.
  The lemmas show that the nearest layer wins a name, that a contribution never changes what
  another layer or another name resolves to, and (interpretation \<open>scoped\<close>) that unwinding the
  disposers of a load restores every layer.
\<close>

record scoped_entry =
  se_name :: string
  se_value :: pyval
  se_owner :: string
  se_order :: int
  se_id :: nat

record scope_layer =
  sl_name :: string
  sl_parent :: "nat option"
  sl_entries :: "scoped_entry dict dict"

type_synonym scope_heap = "nat \<rightharpoonup> scope_layer"

definition scopes_wf :: "scope_heap \<Rightarrow> bool" where
  "scopes_wf h = (\<forall>i l. h i = Some l \<longrightarrow>
     (\<forall>p. sl_parent l = Some p \<longrightarrow> p < i \<and> h p \<noteq> None) \<and>
     dict_wf (sl_entries l) \<and>
     (\<forall>kind layer. map_of (sl_entries l) kind = Some layer \<longrightarrow>
        dict_wf layer \<and> (\<forall>n e. map_of layer n = Some e \<longrightarrow> se_name e = n)))"

definition scope_child :: "scope_heap \<Rightarrow> nat \<Rightarrow> nat \<Rightarrow> string \<Rightarrow> scope_heap" where
  \<comment> \<open>\<open>Scope(name, parent=self)\<close>, allocated at \<open>i\<close>\<close>
  "scope_child h parent i name = h(i \<mapsto> \<lparr>sl_name = name, sl_parent = Some parent, sl_entries = []\<rparr>)"

fun scope_chain :: "scope_heap \<Rightarrow> nat \<Rightarrow> nat list" where
  \<comment> \<open>outermost first\<close>
  "scope_chain h i =
     (case h i of None \<Rightarrow> []
      | Some l \<Rightarrow> (case sl_parent l of None \<Rightarrow> [i]
                   | Some p \<Rightarrow> if p < i then scope_chain h p @ [i] else [i]))"

declare scope_chain.simps [simp del]

definition layer_entries :: "scope_heap \<Rightarrow> nat \<Rightarrow> string \<Rightarrow> scoped_entry dict" where
  "layer_entries h i kind =
     (case h i of None \<Rightarrow> [] | Some l \<Rightarrow> dict_get_default (sl_entries l) kind [])"

definition scope_contribute :: "scope_heap \<Rightarrow> nat \<Rightarrow> string \<Rightarrow> scoped_entry \<Rightarrow> exn + scope_heap" where
  "scope_contribute h i kind entry =
     (case h i of None \<Rightarrow> Inr h
      | Some l \<Rightarrow>
        let layer = layer_entries h i kind in
        (case map_of layer (se_name entry) of
           Some existing \<Rightarrow>
             Inl (DuplicateProvide (kind @ ''.'' @ se_name entry)
               (if se_owner existing \<noteq> [] then se_owner existing else sl_name l) (se_owner entry))
         | None \<Rightarrow> Inr (h(i \<mapsto> l\<lparr>sl_entries :=
             dict_set (sl_entries l) kind (dict_set layer (se_name entry) entry)\<rparr>))))"

definition scope_withdraw :: "scope_heap \<Rightarrow> nat \<Rightarrow> string \<Rightarrow> scoped_entry \<Rightarrow> scope_heap" where
  \<comment> \<open>the disposer \<open>contribute\<close> returns\<close>
  "scope_withdraw h i kind entry =
     (case h i of None \<Rightarrow> h
      | Some l \<Rightarrow>
        let layer = layer_entries h i kind in
        (case map_of layer (se_name entry) of
           None \<Rightarrow> h
         | Some e \<Rightarrow> if se_id e = se_id entry
             then h(i \<mapsto> l\<lparr>sl_entries := dict_set (sl_entries l) kind (dict_del layer (se_name entry))\<rparr>)
             else h))"

definition scope_merged :: "scope_heap \<Rightarrow> nat \<Rightarrow> string \<Rightarrow> scoped_entry dict" where
  "scope_merged h i kind =
     foldl (\<lambda>acc j. dict_update acc (layer_entries h j kind)) [] (scope_chain h i)"

definition scope_resolve :: "scope_heap \<Rightarrow> nat \<Rightarrow> string \<Rightarrow> scoped_entry list" where
  "scope_resolve h i kind =
     sort_key (\<lambda>e. se_order e)
       (sort_key (\<lambda>e. se_name e) (map snd (scope_merged h i kind)))"

section \<open>The nearest layer wins\<close>

lemma layer_entries_wf: "scopes_wf h \<Longrightarrow> dict_wf (layer_entries h i kind)"
  by (auto simp: layer_entries_def scopes_wf_def dict_get_default_def split: option.splits)

lemma layer_entries_name:
  "scopes_wf h \<Longrightarrow> map_of (layer_entries h i kind) n = Some e \<Longrightarrow> se_name e = n"
  by (auto simp: layer_entries_def scopes_wf_def dict_get_default_def split: option.splits)

lemma scope_merged_parent:
  assumes "h i = Some l" and "sl_parent l = Some p" and "p < i"
  shows "scope_merged h i kind = dict_update (scope_merged h p kind) (layer_entries h i kind)"
  using assms by (simp add: scope_merged_def scope_chain.simps [of h i])

lemma scope_merged_root:
  assumes "h i = Some l" and "sl_parent l = None"
  shows "scope_merged h i kind = dict_update [] (layer_entries h i kind)"
  using assms by (simp add: scope_merged_def scope_chain.simps [of h i])

lemma scope_merged_wf: "dict_wf (scope_merged h i kind)"
proof -
  have "dict_wf acc \<Longrightarrow> dict_wf (foldl (\<lambda>acc j. dict_update acc (layer_entries h j kind)) acc js)" for acc js
    by (induction js arbitrary: acc) auto
  then show ?thesis by (simp add: scope_merged_def)
qed

lemma scope_merged_lookup:
  assumes wf: "scopes_wf h" and i: "h i = Some l"
  shows "map_of (scope_merged h i kind) n =
    (case map_of (layer_entries h i kind) n of
       Some e \<Rightarrow> Some e
     | None \<Rightarrow> (case sl_parent l of None \<Rightarrow> None | Some p \<Rightarrow> map_of (scope_merged h p kind) n))"
proof (cases "sl_parent l")
  case None
  with scope_merged_root [where h = h and i = i and l = l, OF i] show ?thesis
    by (simp add: dict_simps layer_entries_wf [OF wf] map_add_def split: option.splits)
next
  case (Some p)
  from wf i Some have "p < i" by (auto simp: scopes_wf_def)
  with scope_merged_parent [where h = h and i = i and l = l, OF i Some] Some show ?thesis
    by (simp add: dict_simps layer_entries_wf [OF wf] map_add_def split: option.splits)
qed

lemma scope_merged_name:
  assumes "scopes_wf h" and "map_of (scope_merged h i kind) n = Some e"
  shows "se_name e = n"
  using assms(2)
proof (induction i rule: less_induct)
  case (less i)
  show ?case
  proof (cases "h i")
    case None
    with less.prems show ?thesis by (simp add: scope_merged_def scope_chain.simps [of h i])
  next
    case (Some l)
    have lt: "p < i" if "sl_parent l = Some p" for p
      using assms(1) Some that by (auto simp: scopes_wf_def)
    show ?thesis
    proof (cases "map_of (layer_entries h i kind) n")
      case None
      with less.prems scope_merged_lookup [where h = h and i = i and l = l, OF assms(1) Some]
      obtain p where "sl_parent l = Some p" "map_of (scope_merged h p kind) n = Some e"
        by (auto split: option.splits)
      with less.IH [OF lt] show ?thesis by simp
    next
      case (Some e')
      with less.prems scope_merged_lookup [where h = h and i = i and l = l, OF assms(1) \<open>h i = Some l\<close>]
      show ?thesis by (auto dest: layer_entries_name [OF assms(1)])
    qed
  qed
qed

lemma sort_key_stable_pair:
  fixes f :: "'a \<Rightarrow> 'b::linorder" and g :: "'a \<Rightarrow> 'c::linorder"
  shows "sorted_wrt (\<lambda>x y. f x < f y \<or> f x = f y \<and> g x \<le> g y) (sort_key f (sort_key g xs))"
proof -
  let ?ys = "sort_key f (sort_key g xs)"
  have "sorted_wrt (\<lambda>x y. f x \<le> f y) ?ys"
    using sorted_sort_key [of f] by (simp add: sorted_wrt_map)
  moreover have "sorted_wrt (\<lambda>x y. f x = f y \<longrightarrow> g x \<le> g y) ?ys"
  proof -
    have "sorted_wrt (\<lambda>x y. f x = f y \<longrightarrow> g x \<le> g y) zs"
      if "\<And>k. sorted_wrt (\<lambda>x y. g x \<le> g y) (filter (\<lambda>y. f y = k) zs)" for zs
      using that
    proof (induction zs)
      case (Cons z zs)
      have "sorted_wrt (\<lambda>x y. g x \<le> g y) (filter (\<lambda>y. f y = k) zs)" for k
        using Cons.prems [of k] by (auto split: if_splits)
      moreover from Cons.prems [of "f z"] have "\<forall>y \<in> set zs. f z = f y \<longrightarrow> g z \<le> g y" by auto
      ultimately show ?case using Cons.IH by auto
    qed simp
    moreover have "sorted_wrt (\<lambda>x y. g x \<le> g y) (filter (\<lambda>y. f y = k) ?ys)" for k
    proof -
      have "filter (\<lambda>y. f y = k) ?ys = filter (\<lambda>y. f y = k) (sort_key g xs)"
        by (rule sort_key_stable)
      moreover have "sorted_wrt (\<lambda>x y. g x \<le> g y) (sort_key g xs)"
        using sorted_sort_key [of g] by (simp add: sorted_wrt_map)
      ultimately show ?thesis by (simp add: sorted_wrt_filter)
    qed
    ultimately show ?thesis by blast
  qed
  ultimately show ?thesis
    by (metis (mono_tags, lifting) order_le_less sorted_wrt_iff_nth_less)
qed

section \<open>Contributions are local and reversible\<close>

lemma scope_contribute_layer:
  assumes "scope_contribute h i kind entry = Inr h'" and "h i \<noteq> None"
  shows "map_of (layer_entries h' j k) n =
    (if j = i \<and> k = kind \<and> n = se_name entry then Some entry else map_of (layer_entries h j k) n)"
  using assms
  by (auto simp: scope_contribute_def layer_entries_def dict_get_default_def dict_simps Let_def
      split: option.splits if_splits)

lemma scope_withdraw_layer:
  "map_of (layer_entries (scope_withdraw h i kind entry) j k) n =
    (if j = i \<and> k = kind \<and> n = se_name entry \<and>
        map_option se_id (map_of (layer_entries h i kind) n) = Some (se_id entry)
     then None else map_of (layer_entries h j k) n)"
  by (auto simp: scope_withdraw_def layer_entries_def dict_get_default_def dict_simps Let_def
      split: option.splits if_splits)

definition scope_eqv :: "scope_heap \<Rightarrow> scope_heap \<Rightarrow> bool" where
  \<comment> \<open>the same layers, with the same parents, resolving every name alike\<close>
  "scope_eqv g h = (\<forall>i. map_option sl_parent (g i) = map_option sl_parent (h i) \<and>
     (\<forall>kind n. map_of (layer_entries g i kind) n = map_of (layer_entries h i kind) n))"

type_synonym scope_act = "nat \<times> string \<times> scoped_entry"

definition scope_do :: "scope_act \<Rightarrow> scope_heap \<Rightarrow> scope_heap" where
  "scope_do a h = (case a of (i, kind, entry) \<Rightarrow>
     (case scope_contribute h i kind entry of Inl e \<Rightarrow> h | Inr h' \<Rightarrow> h'))"

definition scope_undo :: "scope_act \<Rightarrow> scope_heap \<Rightarrow> exn option \<times> scope_heap" where
  "scope_undo a h = (case a of (i, kind, entry) \<Rightarrow> (None, scope_withdraw h i kind entry))"

definition scope_fits :: "scope_act \<Rightarrow> scope_heap \<Rightarrow> bool" where
  "scope_fits a h = (case a of (i, kind, entry) \<Rightarrow>
     h i \<noteq> None \<and> is_ok (scope_contribute h i kind entry))"

lemma scope_contribute_parent:
  "scope_contribute h i kind entry = Inr h' \<Longrightarrow> map_option sl_parent (h' j) = map_option sl_parent (h j)"
  by (auto simp: scope_contribute_def Let_def split: option.splits if_splits)

lemma scope_withdraw_parent:
  "map_option sl_parent (scope_withdraw h i kind entry j) = map_option sl_parent (h j)"
  by (auto simp: scope_withdraw_def Let_def split: option.splits if_splits)

lemma scope_contribute_fresh:
  "scope_contribute h i kind entry = Inr h' \<Longrightarrow> h i \<noteq> None \<Longrightarrow>
   map_of (layer_entries h i kind) (se_name entry) = None"
  by (auto simp: scope_contribute_def Let_def split: option.splits)

interpretation scoped: reversible scope_do scope_undo scope_fits scope_eqv
proof
  fix a v w
  assume fits: "scope_fits a w" and eqv: "scope_eqv v (scope_do a w)"
  obtain i kind entry where a: "a = (i, kind, entry)" by (cases a)
  from fits a obtain w' where w': "scope_contribute w i kind entry = Inr w'" and i: "w i \<noteq> None"
    by (auto simp: scope_fits_def is_ok_iff)
  show "fst (scope_undo a v) = None" by (simp add: scope_undo_def a)
  from eqv a w' have "scope_eqv v w'" by (simp add: scope_do_def)
  then show "scope_eqv (snd (scope_undo a v)) w"
    using scope_contribute_layer [OF w' i] scope_contribute_parent [OF w']
      scope_contribute_fresh [OF w' i]
    by (auto simp: scope_eqv_def scope_undo_def a scope_withdraw_layer scope_withdraw_parent)
qed (auto simp: scope_eqv_def)

section \<open>Properties\<close>

text \<open>
  In a well-formed chain of layers the nearest layer that has a name decides it, and \<open>resolve\<close> lists
  exactly the merged entries, ordered by order and then by name.
\<close>

theorem nearest_layer_wins:
  assumes "scopes_wf h" and "h i = Some l"
  shows "map_of (scope_merged h i kind) n =
      (case map_of (layer_entries h i kind) n of
         Some e \<Rightarrow> Some e
       | None \<Rightarrow> (case sl_parent l of None \<Rightarrow> None | Some p \<Rightarrow> map_of (scope_merged h p kind) n)) \<and>
    set (scope_resolve h i kind) = {e. \<exists>n. map_of (scope_merged h i kind) n = Some e} \<and>
    sorted_wrt (\<lambda>x y. se_order x < se_order y \<or> se_order x = se_order y \<and> se_name x \<le> se_name y)
      (scope_resolve h i kind)"
proof (intro conjI)
  show "set (scope_resolve h i kind) = {e. \<exists>n. map_of (scope_merged h i kind) n = Some e}"
    using map_of_values [OF scope_merged_wf [of h i kind]] by (force simp: scope_resolve_def)
qed (use scope_merged_lookup [OF assms] sort_key_stable_pair in \<open>simp_all add: scope_resolve_def\<close>)

definition sample_scopes :: scope_heap where
  "sample_scopes = [0 \<mapsto> \<lparr>sl_name = ''g'', sl_parent = None, sl_entries = [(''k'',
       [(''n'', \<lparr>se_name = ''n'', se_value = VInt 1, se_owner = [], se_order = 0, se_id = 1\<rparr>)])]\<rparr>,
     1 \<mapsto> \<lparr>sl_name = ''c'', sl_parent = Some 0, sl_entries = []\<rparr>]"

theorem nearest_layer_wins_witness:
  "map_of (scope_merged sample_scopes 1 ''k'') ''n'' = map_of (scope_merged sample_scopes 0 ''k'') ''n''"
proof -
  have wf: "scopes_wf sample_scopes"
    by (auto simp: scopes_wf_def sample_scopes_def dict_wf_def split: if_splits)
  have i: "sample_scopes 1 = Some \<lparr>sl_name = ''c'', sl_parent = Some 0, sl_entries = []\<rparr>"
    by (simp add: sample_scopes_def)
  have e: "layer_entries sample_scopes 1 ''k'' = []"
    by (simp add: layer_entries_def sample_scopes_def dict_get_default_def)
  from conjunct1 [OF nearest_layer_wins [OF wf i, of "''k''" "''n''"]] show ?thesis
    unfolding e by simp
qed

text \<open>
  Contributing in one layer and then withdrawing the same entry restores every lookup of every
  layer; in between, only that name of that kind in that layer differs.
\<close>

theorem contribute_withdraw:
  assumes "scope_contribute h i kind entry = Inr h'" and "h i \<noteq> None"
  shows "map_of (layer_entries h' j k) n =
      (if j = i \<and> k = kind \<and> n = se_name entry then Some entry else map_of (layer_entries h j k) n) \<and>
    map_of (layer_entries (scope_withdraw h' i kind entry) j k) n = map_of (layer_entries h j k) n"
  using scope_contribute_layer [OF assms] scope_contribute_fresh [OF assms]
  by (auto simp: scope_withdraw_layer)

theorem contribute_withdraw_witness:
  "\<exists>h'. scope_contribute sample_scopes 1 ''k'' \<lparr>se_name = ''n'', se_value = VInt 2, se_owner = [], se_order = 0, se_id = 2\<rparr> = Inr h' \<and>
     map_of (layer_entries h' 1 ''k'') ''n'' \<noteq> None"
proof -
  let ?e = "\<lparr>se_name = ''n'', se_value = VInt 2, se_owner = [], se_order = 0, se_id = 2\<rparr>"
  have i: "sample_scopes 1 \<noteq> None" by (simp add: sample_scopes_def)
  obtain h' where c: "scope_contribute sample_scopes 1 ''k'' ?e = Inr h'"
    by (simp add: scope_contribute_def sample_scopes_def layer_entries_def dict_get_default_def)
  from contribute_withdraw [OF c i, of 1 "''k''" "''n''"] c show ?thesis by simp
qed

end
