(* ===== verification/Events.thy ===== *)
theory Events
  imports Keys
begin

text \<open>
  The event bus (src/src/aka/core/events.py): registration, \<open>emit\<close> and \<open>waterfall\<close>.

  A listener's callback is a value of a type \<open>'c\<close>.  For \<open>emit\<close>, calling one is the parameter
  \<open>call\<close>: it may change the bus (register, dispose) and the world \<open>'w\<close>, and may raise.  For
  \<open>waterfall\<close> a callback is interpreted by the parameter \<open>prog_of\<close> as a program (\<open>wprog\<close>) that
  may act on the state, call \<open>next()\<close> and observe its result or exception, and then return or
  raise; calls of \<open>next()\<close> after the callback has returned are outside this program type.  Class
  tests are the parameter \<open>isinst\<close>, the monotonicity check the parameter \<open>shrink\<close>.

  The lemmas show that dispatch follows \<open>(order, sequence)\<close>, that a listener raising an
  \<open>Exception\<close> does not starve the others, that \<open>terminal\<close> runs at most once per dispatch, and
  that a monotonic dispatch in which every listener delegates never shrinks the inner result.
\<close>

record 'c listener =
  ls_event :: string
  ls_callback :: 'c
  ls_order :: int
  ls_owner :: string
  ls_sequence :: nat
  ls_label :: string

definition seq_string :: "nat \<Rightarrow> string" where
  "seq_string n = nat_string n"

definition describe :: "'c listener \<Rightarrow> string" where
  "describe l = (if ls_label l \<noteq> [] then ls_label l
     else (if ls_owner l \<noteq> [] then ls_owner l else ''<anonymous>'') @ ''#'' @ seq_string (ls_sequence l))"

record 'c bus =
  bus_listeners :: "'c listener list dict"
  bus_sequence :: nat
  bus_closed :: bool
  bus_short :: "(string \<times> string) list"

definition short_circuit_history :: nat where
  "short_circuit_history = 256"

definition bus_init :: "'c bus" where
  "bus_init = \<lparr>bus_listeners = [], bus_sequence = 0, bus_closed = False, bus_short = []\<rparr>"

section \<open>Registration\<close>

text \<open>\<open>on\<close>; the callback is already known to be callable and synchronous.  The result is the
  sequence number its disposer removes, or \<open>None\<close> on a closed bus.\<close>

definition bus_on :: "event \<Rightarrow> 'c \<Rightarrow> int \<Rightarrow> string \<Rightarrow> string \<Rightarrow> 'c bus \<Rightarrow> nat option \<times> 'c bus" where
  "bus_on ev cb order owner label b =
     (if bus_closed b then (None, b)
      else
        let n = Suc (bus_sequence b);
            l = \<lparr>ls_event = ev_name ev, ls_callback = cb, ls_order = order, ls_owner = owner,
                 ls_sequence = n, ls_label = label\<rparr>;
            bucket = dict_get_default (bus_listeners b) (ev_name ev) []
        in (Some n, b\<lparr>bus_sequence := n,
                      bus_listeners := dict_set (bus_listeners b) (ev_name ev) (bucket @ [l])\<rparr>))"

definition bus_off :: "event \<Rightarrow> nat \<Rightarrow> 'c bus \<Rightarrow> 'c bus" where
  \<comment> \<open>the disposer returned by \<open>on\<close>\<close>
  "bus_off ev n b =
     (case map_of (bus_listeners b) (ev_name ev) of
        None \<Rightarrow> b
      | Some bucket \<Rightarrow> b\<lparr>bus_listeners := dict_set (bus_listeners b) (ev_name ev)
                           (filter (\<lambda>l. ls_sequence l \<noteq> n) bucket)\<rparr>)"

definition bus_bucket :: "'c bus \<Rightarrow> string \<Rightarrow> 'c listener list" where
  "bus_bucket b name = dict_get_default (bus_listeners b) name []"

definition bus_sorted :: "'c bus \<Rightarrow> string \<Rightarrow> 'c listener list" where
  \<comment> \<open>\<open>listeners\<close>: by order, then by registration\<close>
  "bus_sorted b name = sort_key ls_order (sort_key ls_sequence (bus_bucket b name))"

definition bus_has :: "'c bus \<Rightarrow> string \<Rightarrow> bool" where
  "bus_has b name = (bus_bucket b name \<noteq> [])"

definition bus_is_live :: "'c bus \<Rightarrow> 'c listener \<Rightarrow> bool" where
  "bus_is_live b l = list_ex (\<lambda>c. ls_sequence c = ls_sequence l) (bus_bucket b (ls_event l))"

definition bus_close :: "'c bus \<Rightarrow> 'c bus" where
  "bus_close b = b\<lparr>bus_closed := True, bus_listeners := [], bus_short := []\<rparr>"

section \<open>Contract checks\<close>

definition require_mode :: "event \<Rightarrow> string \<Rightarrow> exn + unit" where
  "require_mode ev mode = guard_res (ev_mode ev = mode)
     (EventContractError (ev_name ev)
       (Msg (''declared '' @ ev_mode ev @ '' dispatch cannot be dispatched as '' @ mode)))"

definition check_payload :: "('v \<Rightarrow> string \<Rightarrow> bool) \<Rightarrow> event \<Rightarrow> 'v \<Rightarrow> exn + unit" where
  "check_payload isinst ev v =
     (case ev_payload ev of None \<Rightarrow> Inl (TypeError (Msg []))
      | Some c \<Rightarrow> guard_res (isinst v c)
          (EventContractError (ev_name ev) (Msg (''payload must be '' @ c))))"

text \<open>\<open>isinst v ''NoneType''\<close> tells whether a listener returned \<open>None\<close>.\<close>

definition check_result :: "('v \<Rightarrow> string \<Rightarrow> bool) \<Rightarrow> event \<Rightarrow> 'v \<Rightarrow> exn + unit" where
  "check_result isinst ev v =
     (case ev_result ev of None \<Rightarrow> Inr ()
      | Some c \<Rightarrow>
          if isinst v ''NoneType''
          then Inl (EventContractError (ev_name ev)
                 (Msg (''a waterfall listener returned None; it must return '' @ c)))
          else guard_res (isinst v c)
                 (EventContractError (ev_name ev) (Msg (''result must be '' @ c))))"

section \<open>Emit\<close>

type_synonym ('c, 'p, 'w) caller = "'c \<Rightarrow> 'p \<Rightarrow> 'c bus \<times> 'w \<Rightarrow> exn option \<times> ('c bus \<times> 'w)"

fun emit_loop :: "('c, 'p, 'w) caller \<Rightarrow> (string \<Rightarrow> exn \<Rightarrow> 'w \<Rightarrow> 'w) \<Rightarrow> event \<Rightarrow> 'p \<Rightarrow>
    'c listener list \<Rightarrow> 'c bus \<times> 'w \<Rightarrow> exn option \<times> ('c bus \<times> 'w)" where
  "emit_loop call sink ev p [] s = (None, s)"
| "emit_loop call sink ev p (l # ls) s =
     (if \<not> bus_is_live (fst s) l then emit_loop call sink ev p ls s
      else
        (case call (ls_callback l) p s of
           (None, s') \<Rightarrow> emit_loop call sink ev p ls s'
         | (Some e, (b', w')) \<Rightarrow>
             if is_exception e
             then emit_loop call sink ev p ls (b', sink (ev_name ev @ '' listener '' @ describe l) e w')
             else (Some e, (b', w'))))"

definition emit :: "('c, 'p, 'w) caller \<Rightarrow> (string \<Rightarrow> exn \<Rightarrow> 'w \<Rightarrow> 'w) \<Rightarrow> ('p \<Rightarrow> string \<Rightarrow> bool) \<Rightarrow>
    event \<Rightarrow> 'p \<Rightarrow> 'c bus \<times> 'w \<Rightarrow> exn option \<times> ('c bus \<times> 'w)" where
  "emit call sink isinst ev p s =
     (case require_mode ev ''emit'' of
        Inl e \<Rightarrow> (Some e, s)
      | Inr _ \<Rightarrow>
        if bus_closed (fst s) then (None, s)
        else (case check_payload isinst ev p of
                Inl e \<Rightarrow> (Some e, s)
              | Inr _ \<Rightarrow> emit_loop call sink ev p (bus_sorted (fst s) (ev_name ev)) s))"

section \<open>Waterfall\<close>

datatype ('v, 'a) wprog =
    WRet 'v
  | WRaise exn
  | WAct 'a "('v, 'a) wprog"
  | WNext "'v option" "exn + 'v \<Rightarrow> ('v, 'a) wprog"   \<comment> \<open>\<open>next()\<close> or \<open>next(forward)\<close>\<close>

type_synonym ('v, 's) inner = "'v \<Rightarrow> 's \<Rightarrow> (exn + 'v) \<times> 's"

definition shrink_detail :: "event \<Rightarrow> ('v \<Rightarrow> 'v \<Rightarrow> string) \<Rightarrow> 'v \<Rightarrow> 'v \<Rightarrow> string" where
  \<comment> \<open>the detail of the check, empty when the event is not checked\<close>
  "shrink_detail ev shrink outer inner =
     (if ev_monotonic ev \<and> ev_shrink ev then shrink outer inner else [])"

text \<open>One call of \<open>delegate\<close>: the number of calls so far, and what to hand to the program.\<close>

definition delegate :: "event \<Rightarrow> ('v \<Rightarrow> 'v \<Rightarrow> string) \<Rightarrow> string \<Rightarrow> ('v, 's) inner \<Rightarrow> 'v \<Rightarrow> 'v option \<Rightarrow>
    nat \<Rightarrow> 's \<Rightarrow> (exn + 'v) \<times> 's" where
  "delegate ev shrink who inner v fwd calls s =
     (if calls \<ge> 1 then (Inl (WaterfallReentry (ev_name ev) who), s)
      else
        let forwarded = (case fwd of None \<Rightarrow> v | Some f \<Rightarrow> f);
            detail = shrink_detail ev shrink forwarded v
        in if detail \<noteq> []
           then (Inl (MonotonicViolation (ev_name ev) (who @ '' (forwarded to next())'') detail), s)
           else inner forwarded s)"

primrec run_prog :: "event \<Rightarrow> ('v \<Rightarrow> 'v \<Rightarrow> string) \<Rightarrow> ('a \<Rightarrow> 's \<Rightarrow> 's) \<Rightarrow> string \<Rightarrow> ('v, 's) inner \<Rightarrow> 'v \<Rightarrow>
    ('v, 'a) wprog \<Rightarrow> nat \<Rightarrow> 'v option \<Rightarrow> 's \<Rightarrow> (exn + 'v) \<times> nat \<times> 'v option \<times> 's" where
  "run_prog ev shrink act who inner v (WRet r) calls captured s = (Inr r, calls, captured, s)"
| "run_prog ev shrink act who inner v (WRaise e) calls captured s = (Inl e, calls, captured, s)"
| "run_prog ev shrink act who inner v (WAct a p) calls captured s =
     run_prog ev shrink act who inner v p calls captured (act a s)"
| "run_prog ev shrink act who inner v (WNext fwd k) calls captured s =
     (let (r, s') = delegate ev shrink who inner v fwd calls s;
          captured' = (case r of Inr x \<Rightarrow> if calls = 0 then Some x else captured | Inl _ \<Rightarrow> captured)
      in run_prog ev shrink act who inner v (k r) (Suc calls) captured' s')"

definition remember_short :: "string \<Rightarrow> string \<Rightarrow> 'c bus \<Rightarrow> 'c bus" where
  \<comment> \<open>append to a deque of bounded length\<close>
  "remember_short ev who b =
     (let xs = bus_short b @ [(ev, who)]
      in b\<lparr>bus_short := drop (length xs - short_circuit_history) xs\<rparr>)"

text \<open>The part of \<open>step\<close> after the callback has returned.\<close>

definition finish_step :: "('v \<Rightarrow> string \<Rightarrow> bool) \<Rightarrow> event \<Rightarrow> ('v \<Rightarrow> 'v \<Rightarrow> string) \<Rightarrow> string \<Rightarrow>
    (exn + 'v) \<times> nat \<times> 'v option \<times> ('c bus \<times> 'w) \<Rightarrow> (exn + 'v) \<times> ('c bus \<times> 'w)" where
  "finish_step isinst ev shrink who out =
     (case out of
        (Inl e, calls, captured, s) \<Rightarrow> (Inl e, s)
      | (Inr r, calls, captured, s) \<Rightarrow>
          let s' = (if calls = 0 then (remember_short (ev_name ev) who (fst s), snd s) else s);
              detail = (case captured of
                          Some c \<Rightarrow> if calls = 0 then [] else shrink_detail ev shrink r c
                        | None \<Rightarrow> [])
          in if detail \<noteq> [] then (Inl (MonotonicViolation (ev_name ev) who detail), s')
             else (bind_res (check_result isinst ev r) (\<lambda>_. Inr r), s'))"

primrec chain_step :: "('c \<Rightarrow> 'v \<Rightarrow> ('v, 'a) wprog) \<Rightarrow> ('a \<Rightarrow> 'c bus \<times> 'w \<Rightarrow> 'c bus \<times> 'w) \<Rightarrow>
    ('v \<Rightarrow> string \<Rightarrow> bool) \<Rightarrow> ('v \<Rightarrow> 'v \<Rightarrow> string) \<Rightarrow> event \<Rightarrow> ('v, 'c bus \<times> 'w) inner \<Rightarrow>
    'c listener list \<Rightarrow> ('v, 'c bus \<times> 'w) inner" where
  "chain_step prog_of act isinst shrink ev terminal [] v s = terminal v s"
| "chain_step prog_of act isinst shrink ev terminal (l # ls) v s =
     (if \<not> bus_is_live (fst s) l then chain_step prog_of act isinst shrink ev terminal ls v s
      else finish_step isinst ev shrink (describe l)
        (run_prog ev shrink act (describe l) (chain_step prog_of act isinst shrink ev terminal ls) v
           (prog_of (ls_callback l) v) 0 None s))"

definition waterfall :: "('c \<Rightarrow> 'v \<Rightarrow> ('v, 'a) wprog) \<Rightarrow> ('a \<Rightarrow> 'c bus \<times> 'w \<Rightarrow> 'c bus \<times> 'w) \<Rightarrow>
    ('v \<Rightarrow> string \<Rightarrow> bool) \<Rightarrow> ('v \<Rightarrow> 'v \<Rightarrow> string) \<Rightarrow> event \<Rightarrow> ('v, 'c bus \<times> 'w) inner \<Rightarrow>
    'v \<Rightarrow> 'c bus \<times> 'w \<Rightarrow> (exn + 'v) \<times> ('c bus \<times> 'w)" where
  "waterfall prog_of act isinst shrink ev terminal v s =
     (case bind_res (require_mode ev ''waterfall'') (\<lambda>_. check_payload isinst ev v) of
        Inl e \<Rightarrow> (Inl e, s)
      | Inr _ \<Rightarrow>
        if bus_closed (fst s) then terminal v s
        else
          (case chain_step prog_of act isinst shrink ev terminal
                  (bus_sorted (fst s) (ev_name ev)) v s of
             (Inl e, s') \<Rightarrow> (Inl e, s')
           | (Inr r, s') \<Rightarrow> (bind_res (check_result isinst ev r) (\<lambda>_. Inr r), s')))"

section \<open>Registration invariant\<close>

definition bus_wf :: "'c bus \<Rightarrow> bool" where
  "bus_wf b = (dict_wf (bus_listeners b) \<and>
     (\<forall>n. distinct (map ls_sequence (bus_bucket b n)) \<and>
          (\<forall>l \<in> set (bus_bucket b n). ls_event l = n \<and> ls_sequence l \<le> bus_sequence b)))"

lemma bus_wf_init [simp]: "bus_wf bus_init"
  by (simp add: bus_wf_def bus_init_def bus_bucket_def dict_get_default_def)

lemma bus_bucket_on:
  assumes "\<not> bus_closed b"
  shows "bus_bucket (snd (bus_on ev cb order owner label b)) n =
    bus_bucket b n @ (if n = ev_name ev then [\<lparr>ls_event = ev_name ev, ls_callback = cb,
       ls_order = order, ls_owner = owner, ls_sequence = Suc (bus_sequence b), ls_label = label\<rparr>] else [])"
  using assms by (auto simp: bus_on_def bus_bucket_def dict_get_default_def dict_simps Let_def)

lemma bus_bucket_off:
  "bus_bucket (bus_off ev i b) n =
    (if n = ev_name ev then filter (\<lambda>l. ls_sequence l \<noteq> i) (bus_bucket b n) else bus_bucket b n)"
  by (auto simp: bus_off_def bus_bucket_def dict_get_default_def dict_simps split: option.splits)

lemma bus_wf_on: "bus_wf b \<Longrightarrow> bus_wf (snd (bus_on ev cb order owner label b))"
proof (cases "bus_closed b")
  case False
  assume wf: "bus_wf b"
  have "dict_wf (bus_listeners (snd (bus_on ev cb order owner label b)))"
    using wf False by (simp add: bus_on_def Let_def bus_wf_def)
  moreover have "bus_sequence (snd (bus_on ev cb order owner label b)) = Suc (bus_sequence b)"
    using False by (simp add: bus_on_def Let_def)
  ultimately show ?thesis
    using wf unfolding bus_wf_def bus_bucket_on [OF False] by force
qed (simp add: bus_on_def)

lemma bus_wf_off: "bus_wf b \<Longrightarrow> bus_wf (bus_off ev i b)"
proof -
  assume wf: "bus_wf b"
  then have "dict_wf (bus_listeners (bus_off ev i b))"
    by (auto simp: bus_off_def bus_wf_def split: option.splits)
  moreover have "bus_sequence (bus_off ev i b) = bus_sequence b"
    by (simp add: bus_off_def split: option.splits)
  ultimately show ?thesis
    using wf unfolding bus_wf_def bus_bucket_off by (auto simp: distinct_map_filter)
qed

lemma bus_off_on:
  assumes "bus_wf b" and "bus_on ev cb order owner label b = (Some i, b')"
  shows "bus_bucket (bus_off ev i b') n = bus_bucket b n"
proof -
  from assms(2) have open_b: "\<not> bus_closed b" and i: "i = Suc (bus_sequence b)"
    by (auto simp: bus_on_def Let_def split: if_splits)
  from assms(1) have old: "filter (\<lambda>l. ls_sequence l \<noteq> i) (bus_bucket b m) = bus_bucket b m" for m
    unfolding bus_wf_def i by (intro filter_True) force
  from assms(2) have "b' = snd (bus_on ev cb order owner label b)" by simp
  with old i show ?thesis
    by (auto simp: bus_bucket_off bus_bucket_on [OF open_b])
qed

lemma set_bus_sorted [simp]: "set (bus_sorted b n) = set (bus_bucket b n)"
  by (simp add: bus_sorted_def)

lemma distinct_bus_sorted: "bus_wf b \<Longrightarrow> distinct (bus_sorted b n)"
  unfolding bus_sorted_def bus_wf_def by (metis distinct_map distinct_sort)

section \<open>Dispatch\<close>

text \<open>A callback that leaves the bus alone: its behaviour on the world.\<close>

definition quiet_call :: "('c, 'p, 'w) caller \<Rightarrow> bool" where
  "quiet_call call = (\<forall>c p s. fst (snd (call c p s)) = fst s)"

definition emit_one :: "('c, 'p, 'w) caller \<Rightarrow> (string \<Rightarrow> exn \<Rightarrow> 'w \<Rightarrow> 'w) \<Rightarrow> event \<Rightarrow> 'p \<Rightarrow> 'c bus \<Rightarrow>
    'w \<Rightarrow> 'c listener \<Rightarrow> 'w" where
  "emit_one call sink ev p b w l =
     (case call (ls_callback l) p (b, w) of
        (None, (_, w')) \<Rightarrow> w'
      | (Some e, (_, w')) \<Rightarrow> sink (ev_name ev @ '' listener '' @ describe l) e w')"

lemma emit_loop_quiet:
  assumes "quiet_call call" and "\<And>c s. case fst (call c p s) of None \<Rightarrow> True | Some e \<Rightarrow> is_exception e"
    and "\<forall>l \<in> set ls. bus_is_live b l"
  shows "emit_loop call sink ev p ls (b, w) = (None, (b, foldl (emit_one call sink ev p b) w ls))"
  using assms(3)
proof (induction ls arbitrary: w)
  case (Cons l ls)
  obtain r b' w' where r: "call (ls_callback l) p (b, w) = (r, (b', w'))" by (metis prod.exhaust)
  with assms(1) have b': "b' = b" unfolding quiet_call_def by (metis fst_conv snd_conv)
  have exc: "case r of None \<Rightarrow> True | Some e \<Rightarrow> is_exception e"
    using assms(2) [of "ls_callback l" "(b, w)"] r by simp
  show ?case
  proof (cases r)
    case None
    with r b' Cons show ?thesis by (simp add: emit_one_def)
  next
    case (Some e)
    with exc have "is_exception e" by simp
    with Some r b' Cons show ?thesis by (simp add: emit_one_def)
  qed
qed simp

lemma bus_sorted_live: "bus_wf b \<Longrightarrow> l \<in> set (bus_bucket b n) \<Longrightarrow> bus_is_live b l"
  by (auto simp: bus_wf_def bus_is_live_def list_ex_iff)

section \<open>At most one downstream dispatch\<close>

text \<open>
  A measure \<open>ticks\<close> of the state that only the inner dispatch can increase, and by at most one:
  then one run of a callback increases it by at most one, whatever the callback does.
\<close>

definition ticks_once :: "('s \<Rightarrow> nat) \<Rightarrow> ('v, 's) inner \<Rightarrow> bool" where
  "ticks_once ticks f = (\<forall>v s. ticks (snd (f v s)) \<le> Suc (ticks s))"

lemma delegate_ticks:
  assumes "ticks_once ticks inner"
  shows "ticks (snd (delegate ev shrink who inner v fwd calls s)) \<le> (if calls = 0 then Suc (ticks s) else ticks s)"
  using assms by (auto simp: delegate_def ticks_once_def Let_def split: option.splits)

lemma run_prog_ticks:
  assumes "ticks_once ticks inner" and "\<And>a s. ticks (act a s) = ticks s"
  shows "ticks (snd (snd (snd (run_prog ev shrink act who inner v p calls captured s))))
    \<le> (if calls = 0 then Suc (ticks s) else ticks s)"
proof (induction p arbitrary: calls captured s)
  case (WNext fwd k)
  obtain r s' where d: "delegate ev shrink who inner v fwd calls s = (r, s')"
    by (cases "delegate ev shrink who inner v fwd calls s")
  from delegate_ticks [OF assms(1), of ev shrink who v fwd calls s] d
  have s': "ticks s' \<le> (if calls = 0 then Suc (ticks s) else ticks s)" by simp
  have rest: "ticks (snd (snd (snd (run_prog ev shrink act who inner v (k r) (Suc calls) c s')))) \<le> ticks s'" for c
    using WNext.IH [of "k r" "Suc calls" c s'] by simp
  from order_trans [OF rest s'] show ?case by (simp add: d Let_def)
next
  case (WAct a p)
  from WAct.IH [of calls captured "act a s"] show ?case
    by (simp only: assms(2) run_prog.simps)
qed simp_all

lemma chain_step_ticks:
  fixes ticks :: "'c bus \<times> 'w \<Rightarrow> nat"
  assumes "ticks_once ticks terminal" and "\<And>a s. ticks (act a s) = ticks s"
    and "\<And>b b' w. ticks (b, w) = ticks (b', w)"
  shows "ticks_once ticks (chain_step prog_of act isinst shrink ev terminal ls)"
proof (induction ls)
  case Nil
  then show ?case using assms(1) by (simp add: ticks_once_def)
next
  case (Cons l ls)
  let ?inner = "chain_step prog_of act isinst shrink ev terminal ls"
  have fin: "ticks (snd (finish_step isinst ev shrink who out)) = ticks (snd (snd (snd out)))" for who out
    using assms(3) by (auto simp: finish_step_def Let_def split: prod.splits sum.splits)
  show ?case
    unfolding ticks_once_def
  proof (intro allI)
    fix v s
    show "ticks (snd (chain_step prog_of act isinst shrink ev terminal (l # ls) v s)) \<le> Suc (ticks s)"
    proof (cases "bus_is_live (fst s) l")
      case True
      with run_prog_ticks [where ticks = ticks and inner = ?inner and act = act and calls = 0, OF Cons assms(2)]
      show ?thesis by (simp only: chain_step.simps fin if_True not_True_eq_False if_False) simp
    next
      case False
      with Cons show ?thesis by (simp add: ticks_once_def del: split_paired_All)
    qed
  qed
qed

section \<open>Monotonic dispatch\<close>

text \<open>
  \<open>grows outer inner\<close>: the check finds nothing removed from \<open>inner\<close> in \<open>outer\<close>.  When the check is
  a preorder, a listener that delegates once and returns normally hands back a value that the
  inner result has not lost anything from.
\<close>

definition grows :: "('v \<Rightarrow> 'v \<Rightarrow> string) \<Rightarrow> 'v \<Rightarrow> 'v \<Rightarrow> bool" where
  "grows shrink outer inner = (shrink outer inner = [])"

definition checked :: "event \<Rightarrow> bool" where
  "checked ev = (ev_monotonic ev \<and> ev_shrink ev)"

lemma finish_step_grows:
  assumes "checked ev" and "finish_step isinst ev shrink who (r, calls, Some c, s) = (Inr x, s')" and "calls \<noteq> 0"
  shows "grows shrink x c"
  using assms
  by (auto simp: finish_step_def checked_def shrink_detail_def grows_def Let_def res_simps
      split: sum.splits if_splits)

lemma delegate_forwards:
  assumes "checked ev" and "delegate ev shrink who inner v fwd 0 s = (Inr x, s')"
  obtains f where "inner f s = (Inr x, s')" and "grows shrink f v"
  using assms
  by (auto simp: delegate_def checked_def shrink_detail_def grows_def Let_def split: if_splits intro: that)

text \<open>The value captured by a callback was produced by the inner dispatch, from a value grown
  from the one the listener received.\<close>

lemma run_prog_captured:
  assumes "checked ev"
    and "run_prog ev shrink act who inner v p calls captured s = (r, calls', captured', s')"
    and "calls = 0 \<Longrightarrow> captured = None"
    and "captured' = Some c"
  shows "captured = Some c \<or> (\<exists>f t t'. inner f t = (Inr c, t') \<and> grows shrink f v)"
  using assms(2-4)
proof (induction p arbitrary: calls captured s)
  case (WNext fwd k)
  obtain d s1 where d: "delegate ev shrink who inner v fwd calls s = (d, s1)"
    by (cases "delegate ev shrink who inner v fwd calls s")
  let ?cap = "case d of Inr x \<Rightarrow> if calls = 0 then Some x else captured | Inl _ \<Rightarrow> captured"
  from WNext.prems(1) d have "run_prog ev shrink act who inner v (k d) (Suc calls) ?cap s1 = (r, calls', captured', s')"
    by (simp add: Let_def)
  from WNext.IH [OF _ this] WNext.prems(3)
  have *: "?cap = Some c \<or> (\<exists>f t t'. inner f t = (Inr c, t') \<and> grows shrink f v)" by simp
  show ?case
  proof (cases "calls = 0 \<and> (\<exists>x. d = Inr x)")
    case True
    then obtain x where x: "calls = 0" "d = Inr x" by blast
    with d delegate_forwards [OF assms(1), of shrink who inner v fwd s x s1]
    obtain f where "inner f s = (Inr x, s1)" "grows shrink f v" by auto
    with * x show ?thesis by auto
  next
    case False
    then have "?cap = captured" by (cases d) auto
    with * show ?thesis by simp
  qed
qed auto

section \<open>Properties\<close>

text \<open>
  An emit calls every registered listener once, in the order of \<open>(order, sequence)\<close>; a listener
  raising an \<open>Exception\<close> is reported and does not keep the others from being called.
\<close>

theorem emit_reaches_all:
  assumes "bus_wf b" and "\<not> bus_closed b" and "quiet_call call"
    and "\<forall>c s. case fst (call c p s) of None \<Rightarrow> True | Some e \<Rightarrow> is_exception e"
    and "require_mode ev ''emit'' = Inr ()" and "check_payload isinst ev p = Inr ()"
  shows "emit call sink isinst ev p (b, w) =
      (None, (b, foldl (emit_one call sink ev p b) w (bus_sorted b (ev_name ev)))) \<and>
    set (bus_sorted b (ev_name ev)) = set (bus_bucket b (ev_name ev)) \<and> distinct (bus_sorted b (ev_name ev))"
proof -
  have "\<forall>l \<in> set (bus_sorted b (ev_name ev)). bus_is_live b l"
    using bus_sorted_live [OF assms(1)] by simp
  from emit_loop_quiet [OF assms(3) assms(4) [rule_format] this] assms(2,5,6) distinct_bus_sorted [OF assms(1)]
  show ?thesis by (simp add: emit_def)
qed

definition sample_event :: event where
  "sample_event = \<lparr>ev_name = ''a/b'', ev_mode = ''emit'', ev_payload = Some ''str'', ev_result = None,
     ev_monotonic = False, ev_shrink = False, ev_doc = []\<rparr>"

definition sample_bus :: "nat bus" where
  "sample_bus = snd (bus_on sample_event 7 0 ''o'' [] (snd (bus_on sample_event 8 (- 1) ''o'' [] bus_init)))"

theorem emit_reaches_all_witness:
  "emit (\<lambda>c p (b, w). (if c = 8 then Some (ValueError (Msg [])) else None, (b, w @ [c])))
     (\<lambda>_ _ w. w) (\<lambda>_ _. True) sample_event () (sample_bus, []) = (None, (sample_bus, [8, 7]))"
proof -
  let ?call = "\<lambda>c p (b, w). (if c = 8 then Some (ValueError (Msg [])) else None, (b, w @ [c]))"
  have wf: "bus_wf sample_bus" by (simp add: sample_bus_def bus_wf_on)
  have op: "\<not> bus_closed sample_bus" by (simp add: sample_bus_def bus_on_def bus_init_def Let_def)
  have q: "quiet_call ?call" by (auto simp: quiet_call_def)
  have ex: "\<forall>c s. case fst (?call c () s) of None \<Rightarrow> True | Some e \<Rightarrow> is_exception e" by simp
  have m: "require_mode sample_event ''emit'' = Inr ()" "check_payload (\<lambda>_ _. True) sample_event () = Inr ()"
    by (simp_all add: require_mode_def check_payload_def guard_res_def sample_event_def)
  have ls: "map ls_callback (bus_sorted sample_bus ''a/b'') = [8, 7]"
    by (simp add: bus_sorted_def bus_bucket_def sample_bus_def bus_on_def bus_init_def Let_def dict_get_default_def sample_event_def)
  have f: "foldl (emit_one ?call (\<lambda>_ _ w. w) sample_event () sample_bus) w ls = w @ map ls_callback ls" for w ls
    by (induction ls arbitrary: w) (simp_all add: emit_one_def)
  have n: "ev_name sample_event = ''a/b''" by (simp add: sample_event_def)
  from conjunct1 [OF emit_reaches_all [where sink = "\<lambda>_ _ w. w" and w = "[]", OF wf op q ex m]]
  show ?thesis unfolding f n ls by simp
qed

text \<open>
  Whatever the callbacks of a waterfall do (delegate once, several times or not at all, raise, act on
  the state), the terminal function runs at most once per dispatch.
\<close>

theorem terminal_at_most_once:
  assumes "\<forall>v b n. fst (snd (terminal v (b, n))) = b \<and> snd (snd (terminal v (b, n))) = Suc n"
    and "\<forall>a b n. snd (act a (b, n)) = (n :: nat)"
  shows "snd (snd (waterfall prog_of act isinst shrink ev terminal v (b, n))) \<le> Suc n"
proof -
  have t: "ticks_once snd terminal" using assms(1) by (simp add: ticks_once_def)
  have a: "snd (act a s) = snd s" for a s using assms(2) by (cases s) simp
  have "ticks_once snd (chain_step prog_of act isinst shrink ev terminal ls)" for ls
    by (rule chain_step_ticks [where ticks = snd]) (rule t, rule a, rule trans [OF snd_conv snd_conv [symmetric]])
  from this [unfolded ticks_once_def, rule_format, of "bus_sorted b (ev_name ev)" v "(b, n)"]
  have c: "snd (snd (chain_step prog_of act isinst shrink ev terminal (bus_sorted b (ev_name ev)) v (b, n))) \<le> Suc n"
    by simp
  from assms(1) have "snd (snd (terminal v (b, n))) \<le> Suc n" by simp
  with c show ?thesis by (auto simp: waterfall_def split: sum.split prod.split)
qed

theorem terminal_at_most_once_witness:
  "snd (snd (waterfall (\<lambda>c v. WNext None (\<lambda>_. WNext None (\<lambda>_. WRet v))) (\<lambda>(_::unit) s. s) (\<lambda>_ _. True) (\<lambda>_ _. [])
     sample_event (\<lambda>v (b, n). (Inr v, (b, Suc n))) () (sample_bus, 0))) \<le> Suc 0"
  by (rule terminal_at_most_once) auto

text \<open>
  In a checked monotonic waterfall, a listener whose step returns a value after delegating returns one
  that has lost nothing from an inner result, and that inner result was computed from a value that had
  lost nothing from the one the listener was given.
\<close>

theorem monotonic_step:
  assumes "checked ev" and "run_prog ev shrink act who inner v p 0 None s = (Inr r, calls, Some c, s1)"
    and "calls \<noteq> 0" and "finish_step isinst ev shrink who (Inr r, calls, Some c, s1) = (Inr x, s2)"
  shows "x = r \<and> grows shrink x c \<and> (\<exists>f t t'. inner f t = (Inr c, t') \<and> grows shrink f v)"
proof -
  have "x = r" using assms(4) by (auto simp: finish_step_def Let_def res_simps split: if_splits)
  with finish_step_grows [OF assms(1,4,3)] run_prog_captured [OF assms(1,2)] show ?thesis by simp
qed

definition sample_wf_event :: event where
  "sample_wf_event = \<lparr>ev_name = ''a/w'', ev_mode = ''waterfall'', ev_payload = Some ''list'', ev_result = Some ''list'',
     ev_monotonic = True, ev_shrink = True, ev_doc = []\<rparr>"

theorem monotonic_step_witness:
  "\<exists>f t t'. (\<lambda>v (s :: nat bus \<times> unit). (Inr v, s)) f t = (Inr [1::nat], t') \<and> grows (\<lambda>a b. if length a < length b then ''x'' else []) f [1]"
proof -
  let ?inner = "\<lambda>v (s :: nat bus \<times> unit). (Inr v, s)" and ?shrink = "\<lambda>a b :: nat list. if length a < length b then ''x'' else []"
  let ?p = "WNext None (\<lambda>r. WRet [1, 2]) :: (nat list, unit) wprog"
  have c: "checked sample_wf_event" by (simp add: checked_def sample_wf_event_def)
  have r: "run_prog sample_wf_event ?shrink (\<lambda>_ s. s) ''l'' ?inner [1] ?p 0 None (bus_init, ()) =
      (Inr [1, 2], 1, Some [1], (bus_init, ()))"
    by (simp add: delegate_def shrink_detail_def Let_def)
  have f: "finish_step (\<lambda>_ c. c = ''list'') sample_wf_event ?shrink ''l'' (Inr [1, 2], 1, Some [1], (bus_init, ())) =
      (Inr [1, 2], (bus_init :: nat bus, ()))"
    by (simp add: finish_step_def shrink_detail_def check_result_def guard_res_def sample_wf_event_def)
  from monotonic_step [OF c r _ f] show ?thesis by simp
qed

end
