(* ===== verification/Search.thy ===== *)
theory Search
  imports Compositions
begin

text \<open>
  The pooled search (src/src/aka/light/workflow/search.py): an epoch barrier over parallel
  trajectories of episodes with a durable checkpoint.

  The coordinator is a program counter over its in-memory state, the set of episodes running in the
  executor, the first failure of an episode, and the checkpoint on disk, which a durable write
  replaces atomically.  The driver (storage and execution, injected by the caller) is the environment:
  each of its calls may return anything its caller checks or raise.  \<open>search_step\<close> is one step of the
  coordinator or of the environment: an executor finishing any running episode in any order, the
  token count reaching the budget at any check, an interrupt, and the loss of the process between any
  two steps.  The lock file that admits one coordinator at a time is the assumption that there is one.
  \<open>Search_Runs\<close> proves what holds in every reachable state.
\<close>

section \<open>Options\<close>

record options =
  so_epochs :: nat
  so_trajectories :: nat
  so_per :: nat
  so_parallel :: nat

definition option_limits :: "(string \<times> int) list" where
  "option_limits = [(''epochs'', 10000), (''trajectories'', 64), (''episodes_per_trajectory'', 100),
     (''max_parallel_episodes'', 64)]"

definition check_option :: "pyval dict \<Rightarrow> string \<times> int \<Rightarrow> exn + nat" where
  \<comment> \<open>\<open>type(value) is not int\<close>: a boolean is refused\<close>
  "check_option d bound =
     (case field d (fst bound) of
        VInt i \<Rightarrow>
          if 1 \<le> i \<and> i \<le> snd bound then Inr (nat i)
          else Inl (ValueError (Msg (''search.'' @ fst bound @ '' must be an integer in range'')))
      | _ \<Rightarrow> Inl (ValueError (Msg (''search.'' @ fst bound @ '' must be an integer in range''))))"

definition search_options :: "pyval dict \<Rightarrow> exn + options" where
  "search_options d =
     bind_res (map_res (check_option d) option_limits) (\<lambda>vs.
       let opts = \<lparr>so_epochs = vs ! 0, so_trajectories = vs ! 1, so_per = vs ! 2, so_parallel = vs ! 3\<rparr> in
       if so_parallel opts > so_trajectories opts
       then Inl (ValueError (Msg ''search.max_parallel_episodes cannot exceed trajectories''))
       else Inr opts)"

section \<open>Kernels\<close>

definition positive_real :: "pyval \<Rightarrow> real option" where
  "positive_real v =
     (case v of
        VInt i \<Rightarrow> if i > 0 then Some (of_int i) else None
      | VFloat (Fin r) \<Rightarrow> if r > 0 then Some r else None
      | _ \<Rightarrow> None)"

definition latency :: "pyval \<Rightarrow> exn + real" where
  "latency v =
     (case v of
        VDict k \<Rightarrow>
          (case map_of k ''latency_us_geomean'' of
             None \<Rightarrow> Inl (OtherException ''KeyError'' ''latency_us_geomean'')
           | Some x \<Rightarrow>
               (case positive_real x of
                  None \<Rightarrow> Inl (ValueError (Msg (''Search selection requires a finite positive authoritative '' @
                    ''GeoMean latency'')))
                | Some r \<Rightarrow> Inr r))
      | _ \<Rightarrow> Inl (TypeError (Msg ''not a kernel'')))"

section \<open>The checkpoint\<close>

datatype job_status = JPending | JRunning | JCompleted

record job =
  jb_epoch :: nat
  jb_trajectory :: nat
  jb_step :: nat
  jb_episode :: nat
  jb_status :: job_status
  jb_result :: "pyval dict option"

datatype phase = Preparing | Running | Publishing

record active =
  ac_epoch :: nat
  ac_seed :: pyval
  ac_phase :: phase
  ac_jobs :: "job list"
  ac_winner :: "pyval option"

record search_state =
  ss_version :: nat
  ss_options :: options
  ss_binding :: string
  ss_budget :: int
  ss_bootstrap :: pyval
  ss_seed :: pyval
  ss_epoch :: nat
  ss_active :: "active option"
  ss_completed :: nat
  ss_stalls :: nat
  ss_stop :: string

datatype checkpoint = Absent | Broken exn | Stored search_state

record search_config =
  sc_options :: options
  sc_binding :: string
  sc_budget :: int

definition fresh_state :: "search_config \<Rightarrow> pyval \<Rightarrow> search_state" where
  "fresh_state c seed =
     \<lparr>ss_version = 1, ss_options = sc_options c, ss_binding = sc_binding c, ss_budget = sc_budget c,
      ss_bootstrap = seed, ss_seed = seed, ss_epoch = 1, ss_active = None, ss_completed = 0,
      ss_stalls = 0, ss_stop = []\<rparr>"

definition epoch_jobs :: "options \<Rightarrow> nat \<Rightarrow> job list" where
  "epoch_jobs opts epoch =
     concat (map (\<lambda>step. map (\<lambda>trajectory.
       \<lparr>jb_epoch = epoch, jb_trajectory = trajectory, jb_step = step,
        jb_episode = (epoch - 1) * so_per opts + step, jb_status = JPending, jb_result = None\<rparr>)
       [1..<Suc (so_trajectories opts)]) [1..<Suc (so_per opts)])"

definition new_epoch :: "options \<Rightarrow> search_state \<Rightarrow> active" where
  "new_epoch opts st =
     \<lparr>ac_epoch = ss_epoch st, ac_seed = ss_seed st, ac_phase = Preparing,
      ac_jobs = epoch_jobs opts (ss_epoch st), ac_winner = None\<rparr>"

section \<open>The coordinator\<close>

text \<open>Where the coordinator stands.  \<open>Scan i\<close> is the \<open>for\<close> loop of \<open>_run_jobs\<close> at job \<open>i\<close>; \<open>Waiting\<close> is
  the end of that loop; \<open>Draining\<close> is inside the loop over the finished episodes.\<close>

datatype pc =
    Stopped
  | Head
  | Prepare
  | Scan nat
  | Waiting
  | Draining
  | Publish
  | Commit
  | Returned string
  | Raised exn

datatype call =
    Prepared nat pyval
  | Started nat nat nat       \<comment> \<open>epoch, trajectory, episode\<close>
  | Published nat pyval
  | Interrupted

record coordinator =
  co_pc :: pc
  co_state :: search_state
  co_disk :: checkpoint
  co_running :: "nat list"      \<comment> \<open>indices of the jobs submitted to the executor\<close>
  co_failure :: "exn option"
  co_calls :: "call list"       \<comment> \<open>what the driver was asked to do, over all processes\<close>

abbreviation co_active :: "coordinator \<Rightarrow> active" where
  "co_active s \<equiv> the (ss_active (co_state s))"

abbreviation co_jobs :: "coordinator \<Rightarrow> job list" where
  "co_jobs s \<equiv> ac_jobs (co_active s)"

definition save :: "search_state \<Rightarrow> coordinator \<Rightarrow> coordinator" where
  \<comment> \<open>change the state and write the checkpoint\<close>
  "save st s = s\<lparr>co_state := st, co_disk := Stored st\<rparr>"

definition goto :: "pc \<Rightarrow> coordinator \<Rightarrow> coordinator" where
  "goto p s = s\<lparr>co_pc := p\<rparr>"

definition log_call :: "call \<Rightarrow> coordinator \<Rightarrow> coordinator" where
  "log_call x s = s\<lparr>co_calls := co_calls s @ [x]\<rparr>"

definition enter_run :: "search_config \<Rightarrow> exn + unit \<Rightarrow> search_state \<Rightarrow> coordinator \<Rightarrow> coordinator" where
  \<comment> \<open>the checks on a checkpoint, new or old, before the epochs; \<open>ready\<close> is how the driver's
    \<open>initialize\<close> ends\<close>
  "enter_run c ready st s =
     (if ss_version st \<noteq> 1 \<or> ss_options st \<noteq> sc_options c \<or> ss_binding st \<noteq> sc_binding c \<or>
         ss_budget st \<noteq> sc_budget c
      then goto (Raised (ValueError (Msg ''Search configuration or Campaign contract changed''))) s
      else (case ready of
              Inl e \<Rightarrow> goto (Raised e) s
            | Inr _ \<Rightarrow> goto (if ss_stop st \<noteq> [] then Returned (ss_stop st) else Head) (s\<lparr>co_state := st\<rparr>)))"

definition launch :: "search_config \<Rightarrow> exn + pyval \<Rightarrow> exn + unit \<Rightarrow> coordinator \<Rightarrow> coordinator" where
  \<comment> \<open>\<open>seed\<close> is what the driver's \<open>bootstrap\<close> returns\<close>
  "launch c seed ready s =
     (case co_disk s of
        Broken e \<Rightarrow> goto (Raised e) s
      | Stored st \<Rightarrow> enter_run c ready st s
      | Absent \<Rightarrow>
          (case bind_res seed (\<lambda>k. bind_res (latency k) (\<lambda>_. Inr k)) of
             Inl e \<Rightarrow> goto (Raised e) s
           | Inr k \<Rightarrow> enter_run c ready (fresh_state c k) (save (fresh_state c k) s)))"

definition with_active :: "active \<Rightarrow> search_state \<Rightarrow> search_state" where
  "with_active a st = st\<lparr>ss_active := Some a\<rparr>"

definition phase_pc :: "phase \<Rightarrow> pc" where
  "phase_pc p = (case p of Preparing \<Rightarrow> Prepare | Running \<Rightarrow> Scan 0 | Publishing \<Rightarrow> Publish)"

definition head :: "search_config \<Rightarrow> bool \<Rightarrow> coordinator \<Rightarrow> coordinator" where
  \<comment> \<open>the top of the \<open>while\<close> loop; \<open>reached\<close> is the answer of \<open>_budget_reached\<close>\<close>
  "head c reached s =
     (let st = co_state s in
      if ss_epoch st > so_epochs (sc_options c) then goto (Returned ''search: completed Epoch budget'') s
      else (case ss_active st of
              Some a \<Rightarrow> goto (phase_pc (ac_phase a)) (s\<lparr>co_running := [], co_failure := None\<rparr>)
            | None \<Rightarrow>
                if reached then goto (Returned ''budget: token-budget'') s
                else goto Prepare (save (with_active (new_epoch (sc_options c) st) st)
                       (s\<lparr>co_running := [], co_failure := None\<rparr>))))"

definition prepare_epoch :: "exn + unit \<Rightarrow> coordinator \<Rightarrow> coordinator" where
  "prepare_epoch r s =
     (let a = co_active s; s' = log_call (Prepared (ss_epoch (co_state s)) (ac_seed a)) s in
      case r of
        Inl e \<Rightarrow> goto (Raised e) s'
      | Inr _ \<Rightarrow> goto (Scan 0) (save (with_active (a\<lparr>ac_phase := Running\<rparr>) (co_state s)) s'))"

subsection \<open>Running the jobs of an epoch\<close>

definition busy :: "coordinator \<Rightarrow> nat list" where
  "busy s = map (\<lambda>i. jb_trajectory (co_jobs s ! i)) (co_running s)"

definition blocked :: "job list \<Rightarrow> job \<Rightarrow> bool" where
  \<comment> \<open>an earlier episode of the same trajectory is not completed\<close>
  "blocked jobs j =
     list_ex (\<lambda>p. jb_status p \<noteq> JCompleted \<and> jb_trajectory p = jb_trajectory j \<and> jb_episode p < jb_episode j) jobs"

definition put_job :: "nat \<Rightarrow> job \<Rightarrow> coordinator \<Rightarrow> coordinator" where
  "put_job i j s = (let a = co_active s in save (with_active (a\<lparr>ac_jobs := (ac_jobs a)[i := j]\<rparr>) (co_state s)) s)"

definition dispatch :: "nat \<Rightarrow> coordinator \<Rightarrow> coordinator" where
  \<comment> \<open>write the identity ahead, then start the episode\<close>
  "dispatch i s =
     (let j = co_jobs s ! i in
      (log_call (Started (jb_epoch j) (jb_trajectory j) (jb_episode j)) (put_job i (j\<lparr>jb_status := JRunning\<rparr>) s))
        \<lparr>co_running := co_running s @ [i]\<rparr>)"

definition scan_job :: "options \<Rightarrow> bool \<Rightarrow> nat \<Rightarrow> coordinator \<Rightarrow> coordinator" where
  "scan_job opts reached i s =
     (if length (co_jobs s) \<le> i \<or> co_failure s \<noteq> None \<or> length (co_running s) \<ge> so_parallel opts
      then goto Waiting s
      else
        let j = co_jobs s ! i in
        if jb_status j = JCompleted \<or> jb_trajectory j \<in> set (busy s) \<or> blocked (co_jobs s) j \<or>
           (jb_status j \<noteq> JRunning \<and> reached)
        then goto (Scan (Suc i)) s
        else goto (Scan (Suc i)) (dispatch i s))"

definition same_identity :: "pyval dict \<Rightarrow> job \<Rightarrow> bool" where
  "same_identity r j =
     (py_eq (field r ''epoch'') (VInt (int (jb_epoch j))) \<and>
      py_eq (field r ''trajectory'') (VInt (int (jb_trajectory j))) \<and>
      py_eq (field r ''episode'') (VInt (int (jb_episode j))))"

definition remember :: "exn \<Rightarrow> coordinator \<Rightarrow> coordinator" where
  \<comment> \<open>\<open>failure = failure or error\<close>\<close>
  "remember e s = s\<lparr>co_failure := (case co_failure s of None \<Rightarrow> Some e | Some x \<Rightarrow> Some x)\<rparr>"

definition interrupt :: "exn \<Rightarrow> coordinator \<Rightarrow> coordinator" where
  \<comment> \<open>the handler around \<open>_run_jobs\<close>; the executor is shut down before the exception leaves\<close>
  "interrupt e s = goto (Raised e) (log_call Interrupted (s\<lparr>co_running := []\<rparr>))"

definition finish_job :: "nat \<Rightarrow> exn + pyval \<Rightarrow> coordinator \<Rightarrow> coordinator" where
  \<comment> \<open>one future of the finished ones\<close>
  "finish_job i out s0 =
     (let s = s0\<lparr>co_running := remove1 i (co_running s0)\<rparr>; j = co_jobs s0 ! i in
      case out of
        Inr (VDict r) \<Rightarrow>
          if same_identity r j
          then goto Draining (put_job i (j\<lparr>jb_status := JCompleted, jb_result := Some r\<rparr>) s)
          else goto Draining (remember (OtherException ''RuntimeError''
                 ''Episode result does not match its scheduled identity'') s)
      | Inr _ \<Rightarrow> goto Draining (remember (AttributeError ''get'') s)
      | Inl e \<Rightarrow> if is_exception e then goto Draining (remember e s) else interrupt e s)"

definition retained :: "active \<Rightarrow> pyval list" where
  "retained a = filter (\<lambda>v. v \<noteq> VNull)
     (map (\<lambda>j. case jb_result j of None \<Rightarrow> VNull | Some r \<Rightarrow> field r ''retained_kernel'') (ac_jobs a))"

fun first_min :: "'a \<times> real \<Rightarrow> ('a \<times> real) list \<Rightarrow> 'a \<times> real" where
  \<comment> \<open>\<open>min(.., key=..)\<close>: the first of the least\<close>
  "first_min m [] = m"
| "first_min m (x # xs) = first_min (if snd x < snd m then x else m) xs"

definition timed :: "pyval \<Rightarrow> exn + (pyval \<times> real)" where
  "timed k = bind_res (latency k) (\<lambda>l. Inr (k, l))"

definition pick_winner :: "active \<Rightarrow> exn + pyval" where
  "pick_winner a =
     bind_res (map_res timed (retained a)) (\<lambda>rest.
     bind_res (timed (ac_seed a)) (\<lambda>seed. Inr (fst (first_min seed rest))))"

definition jobs_done :: "coordinator \<Rightarrow> coordinator" where
  \<comment> \<open>\<open>_run_jobs\<close> returns or raises, and what \<open>_run\<close> does with it\<close>
  "jobs_done s =
     (case co_failure s of
        Some e \<Rightarrow> interrupt e s
      | None \<Rightarrow>
          if \<not> list_all (\<lambda>j. jb_status j = JCompleted) (co_jobs s)
          then goto (Returned ''budget: token-budget (Epoch incomplete; no broadcast)'') s
          else (case pick_winner (co_active s) of
                  Inl e \<Rightarrow> goto (Raised e) s
                | Inr k \<Rightarrow> goto Publish (save (with_active ((co_active s)\<lparr>ac_winner := Some k, ac_phase := Publishing\<rparr>)
                             (co_state s)) s)))"

subsection \<open>Publishing an epoch\<close>

definition publish_epoch :: "exn + unit \<Rightarrow> coordinator \<Rightarrow> coordinator" where
  "publish_epoch r s =
     (let s' = log_call (Published (ss_epoch (co_state s)) (the (ac_winner (co_active s)))) s in
      case r of Inl e \<Rightarrow> goto (Raised e) s' | Inr _ \<Rightarrow> goto Commit s')"

definition committed :: "string \<Rightarrow> bool \<Rightarrow> search_state \<Rightarrow> search_state" where
  "committed stop stalled st =
     (let a = the (ss_active st) in
      st\<lparr>ss_stalls := (if stalled then ss_stalls st + 1 else 0), ss_seed := the (ac_winner a),
         ss_completed := ss_epoch st, ss_epoch := ss_epoch st + 1, ss_active := None, ss_stop := stop\<rparr>)"

definition commit_epoch :: "exn + string \<Rightarrow> coordinator \<Rightarrow> coordinator" where
  \<comment> \<open>the epoch's summary (which asks the driver for its tokens), the stop check, and the checkpoint\<close>
  "commit_epoch r s =
     (case bind_res r (\<lambda>stop.
             bind_res (latency (the (ac_winner (co_active s)))) (\<lambda>won.
             bind_res (latency (ac_seed (co_active s))) (\<lambda>before. Inr (stop, won \<ge> before)))) of
        Inl e \<Rightarrow> goto (Raised e) s
      | Inr (stop, stalled) \<Rightarrow>
          goto (if stop \<noteq> [] then Returned stop else Head) (save (committed stop stalled (co_state s)) s))"

section \<open>The step relation\<close>

definition lost :: "coordinator \<Rightarrow> coordinator" where
  \<comment> \<open>the process has ended or was lost; the checkpoint stays\<close>
  "lost s = goto Stopped (s\<lparr>co_running := [], co_failure := None\<rparr>)"

definition budget_answer :: "search_config \<Rightarrow> bool \<Rightarrow> bool" where
  "budget_answer c reached = (reached \<longrightarrow> sc_budget c > 0)"

definition in_jobs :: "pc \<Rightarrow> bool" where
  "in_jobs p = (case p of Scan i \<Rightarrow> True | Waiting \<Rightarrow> True | Draining \<Rightarrow> True | _ \<Rightarrow> False)"

text \<open>A step of the running process.\<close>

inductive work_step :: "search_config \<Rightarrow> coordinator \<Rightarrow> coordinator \<Rightarrow> bool" for c where
  at_head: "co_pc s = Head \<Longrightarrow> budget_answer c b \<Longrightarrow> work_step c s (head c b s)"
| prepared: "co_pc s = Prepare \<Longrightarrow> work_step c s (prepare_epoch r s)"
| scanned: "co_pc s = Scan i \<Longrightarrow> budget_answer c b \<Longrightarrow> work_step c s (scan_job (sc_options c) b i s)"
| idle: "co_pc s = Waiting \<Longrightarrow> co_running s = [] \<Longrightarrow> work_step c s (jobs_done s)"
| finished: "co_pc s = Waiting \<or> co_pc s = Draining \<Longrightarrow> i \<in> set (co_running s) \<Longrightarrow>
    work_step c s (finish_job i out s)"
| rescan: "co_pc s = Draining \<Longrightarrow> work_step c s (goto (Scan 0) s)"
| interrupted: "in_jobs (co_pc s) \<Longrightarrow> work_step c s (interrupt e s)"
| published: "co_pc s = Publish \<Longrightarrow> work_step c s (publish_epoch r s)"
| committed: "co_pc s = Commit \<Longrightarrow> work_step c s (commit_epoch r s)"

inductive search_step :: "search_config \<Rightarrow> coordinator \<Rightarrow> coordinator \<Rightarrow> bool" for c where
  launched: "co_pc s = Stopped \<Longrightarrow> search_step c s (launch c seed ready s)"
| worked: "work_step c s t \<Longrightarrow> search_step c s t"
| ended: "search_step c s (lost s)"


definition initial :: "coordinator \<Rightarrow> bool" where
  \<comment> \<open>no process, no checkpoint, nothing done\<close>
  "initial s = (co_pc s = Stopped \<and> co_disk s = Absent \<and> co_running s = [] \<and> co_calls s = [])"

inductive reachable :: "search_config \<Rightarrow> coordinator \<Rightarrow> bool" for c where
  start: "initial s \<Longrightarrow> reachable c s"
| step: "reachable c s \<Longrightarrow> search_step c s t \<Longrightarrow> reachable c t"

end
