(* ===== verification/Search_Runs.thy ===== *)
theory Search_Runs
  imports Search
begin

text \<open>
  What holds in every reachable state of the pooled search, across crashes and restarts, and that
  every process that is not lost ends.
\<close>

named_theorems co_simps \<open>how the steps of the coordinator change its state\<close>

declare save_def [co_simps] goto_def [co_simps] log_call_def [co_simps] with_active_def [co_simps]
  put_job_def [co_simps] Let_def [co_simps]

section \<open>The jobs of an epoch\<close>

definition plan :: "job \<Rightarrow> job" where
  "plan j = j\<lparr>jb_status := JPending, jb_result := None\<rparr>"

lemma plan_simps [simp]:
  "jb_epoch (plan j) = jb_epoch j" "jb_trajectory (plan j) = jb_trajectory j"
  "jb_episode (plan j) = jb_episode j" "jb_status (plan j) = JPending" "jb_result (plan j) = None"
  by (simp_all add: plan_def)

lemma plan_updates [simp]:
  "plan (j\<lparr>jb_status := x\<rparr>) = plan j" "plan (j\<lparr>jb_result := r\<rparr>) = plan j"
  by (cases j; simp add: plan_def)+

definition job_identity :: "job \<Rightarrow> nat \<times> nat" where
  "job_identity j = (jb_trajectory j, jb_episode j)"

lemma job_identity_plan [simp]: "job_identity (plan j) = job_identity j"
  by (simp add: job_identity_def)

lemma epoch_jobs_length: "length (epoch_jobs opts e) = so_per opts * so_trajectories opts"
  by (simp add: epoch_jobs_def length_concat comp_def sum_list_triv)

lemma epoch_jobs_pending: "j \<in> set (epoch_jobs opts e) \<Longrightarrow> jb_status j = JPending \<and> jb_result j = None \<and> jb_epoch j = e"
  by (auto simp: epoch_jobs_def)

lemma epoch_jobs_plan: "map plan (epoch_jobs opts e) = epoch_jobs opts e"
proof -
  have "plan j = j" if "j \<in> set (epoch_jobs opts e)" for j
    using epoch_jobs_pending [OF that] by (cases j) (simp add: plan_def)
  then show ?thesis by (simp add: map_idI)
qed

lemma epoch_jobs_identities: "distinct (map job_identity (epoch_jobs opts e))"
proof -
  let ?f = "\<lambda>(s, t). (t, (e - 1) * so_per opts + s)"
  have "map job_identity (epoch_jobs opts e) =
      map ?f (List.product [1..<Suc (so_per opts)] [1..<Suc (so_trajectories opts)])"
    by (simp add: epoch_jobs_def product_concat_map map_concat comp_def job_identity_def del: upt_Suc)
  moreover have "inj_on ?f A" for A by (auto intro: inj_onI)
  ultimately show ?thesis
    by (simp add: distinct_map distinct_product del: upt_Suc)
qed

definition jobs_ok :: "options \<Rightarrow> nat \<Rightarrow> job list \<Rightarrow> bool" where
  "jobs_ok opts e jobs =
     (map plan jobs = epoch_jobs opts e \<and>
      (\<forall>j \<in> set jobs. (jb_status j = JCompleted) = (jb_result j \<noteq> None)) \<and>
      (\<forall>j \<in> set jobs. \<forall>r. jb_result j = Some r \<longrightarrow> same_identity r j) \<and>
      (\<forall>j \<in> set jobs. jb_status j \<noteq> JPending \<longrightarrow> \<not> blocked jobs j))"

lemma jobs_okD:
  assumes "jobs_ok opts e jobs"
  shows "length jobs = so_per opts * so_trajectories opts"
    and "i < length jobs \<Longrightarrow> jb_epoch (jobs ! i) = e"
    and "distinct (map job_identity jobs)"
proof -
  have m: "map plan jobs = epoch_jobs opts e" using assms by (simp add: jobs_ok_def)
  then show l: "length jobs = so_per opts * so_trajectories opts"
    by (metis epoch_jobs_length length_map)
  show "jb_epoch (jobs ! i) = e" if "i < length jobs"
  proof -
    have "plan (jobs ! i) \<in> set (epoch_jobs opts e)" using that m by (metis length_map nth_map nth_mem)
    then show ?thesis using epoch_jobs_pending by fastforce
  qed
  have "map job_identity jobs = map job_identity (map plan jobs)" by (simp add: comp_def)
  then show "distinct (map job_identity jobs)" using m epoch_jobs_identities by metis
qed

lemma jobs_ok_fresh: "jobs_ok opts e (epoch_jobs opts e)"
  by (auto simp: jobs_ok_def epoch_jobs_plan dest: epoch_jobs_pending)

lemma blocked_iff:
  "blocked jobs j \<longleftrightarrow> (\<exists>p \<in> set jobs. jb_status p \<noteq> JCompleted \<and> jb_trajectory p = jb_trajectory j \<and>
     jb_episode p < jb_episode j)"
  by (auto simp: blocked_def list_ex_iff)

lemma blocked_updates [simp]:
  "blocked jobs (j\<lparr>jb_status := x\<rparr>) = blocked jobs j" "blocked jobs (j\<lparr>jb_result := r\<rparr>) = blocked jobs j"
  by (simp_all add: blocked_def)

text \<open>Moving one job forward keeps the plan: a dispatched job is not blocked, and completing a job
  blocks nothing.\<close>

lemma jobs_ok_dispatch:
  assumes ok: "jobs_ok opts e jobs" and i: "i < length jobs"
    and st: "jb_status (jobs ! i) \<noteq> JCompleted" and nb: "\<not> blocked jobs (jobs ! i)"
  shows "jobs_ok opts e (jobs[i := (jobs ! i)\<lparr>jb_status := JRunning\<rparr>])" (is "jobs_ok opts e ?js")
proof -
  have blk: "blocked ?js j \<longleftrightarrow> blocked jobs j" for j
    using i st by (auto simp: blocked_def list_ex_length nth_list_update)
  have "map plan ?js = map plan jobs" using i by (simp add: map_update list_update_same_conv)
  moreover have "(jb_status j = JCompleted) = (jb_result j \<noteq> None)" if "j \<in> set ?js" for j
  proof -
    from that i consider "j \<in> set jobs" | "j = (jobs ! i)\<lparr>jb_status := JRunning\<rparr>"
      by (auto dest: set_update_subset_insert [THEN subsetD])
    then show ?thesis using ok st i by cases (auto simp: jobs_ok_def)
  qed
  moreover have "same_identity r j" if "j \<in> set ?js" "jb_result j = Some r" for j r
  proof -
    from that(1) i consider "j \<in> set jobs" | "j = (jobs ! i)\<lparr>jb_status := JRunning\<rparr>"
      by (auto dest: set_update_subset_insert [THEN subsetD])
    then show ?thesis using ok that(2) i by cases (auto simp: jobs_ok_def same_identity_def)
  qed
  moreover have "\<not> blocked ?js j" if "j \<in> set ?js" "jb_status j \<noteq> JPending" for j
  proof -
    from that(1) i consider "j \<in> set jobs" | "j = (jobs ! i)\<lparr>jb_status := JRunning\<rparr>"
      by (auto dest: set_update_subset_insert [THEN subsetD])
    then show ?thesis using ok that(2) nb blk by cases (auto simp: jobs_ok_def)
  qed
  ultimately show ?thesis using ok by (simp add: jobs_ok_def)
qed

lemma jobs_ok_complete:
  assumes ok: "jobs_ok opts e jobs" and i: "i < length jobs"
    and st: "jb_status (jobs ! i) = JRunning" and r: "same_identity r (jobs ! i)"
  shows "jobs_ok opts e (jobs[i := (jobs ! i)\<lparr>jb_status := JCompleted, jb_result := Some r\<rparr>])" (is "jobs_ok opts e ?js")
proof -
  have blk: "blocked ?js j \<Longrightarrow> blocked jobs j" for j
    using i by (auto simp: blocked_def list_ex_length nth_list_update split: if_splits)
  have new: "j \<in> set ?js \<Longrightarrow> j \<in> set jobs \<or> j = (jobs ! i)\<lparr>jb_status := JCompleted, jb_result := Some r\<rparr>" for j
    by (auto dest: set_update_subset_insert [THEN subsetD])
  have nb: "\<not> blocked jobs (jobs ! i)" using ok i st by (auto simp: jobs_ok_def)
  have "map plan ?js = map plan jobs" using i by (simp add: map_update list_update_same_conv)
  moreover have "(jb_status j = JCompleted) = (jb_result j \<noteq> None)" if "j \<in> set ?js" for j
    using new [OF that] ok by (auto simp: jobs_ok_def)
  moreover have "same_identity q j" if "j \<in> set ?js" "jb_result j = Some q" for j q
    using new [OF that(1)] that(2) ok r by (auto simp: jobs_ok_def same_identity_def)
  moreover have "\<not> blocked ?js j" if "j \<in> set ?js" "jb_status j \<noteq> JPending" for j
    using new [OF that(1)] that(2) ok nb blk [of j] by (auto simp: jobs_ok_def)
  ultimately show ?thesis using ok by (simp add: jobs_ok_def)
qed

section \<open>Winners\<close>

definition lat :: "pyval \<Rightarrow> real" where
  "lat k = (case latency k of Inr l \<Rightarrow> l | Inl _ \<Rightarrow> 0)"

definition measured :: "pyval \<Rightarrow> bool" where
  "measured k = is_ok (latency k)"

lemma timed_iff: "timed k = Inr p \<longleftrightarrow> measured k \<and> p = (k, lat k)"
  by (cases "latency k") (auto simp: timed_def measured_def lat_def)

lemma first_min_least:
  "first_min m xs \<in> set (m # xs) \<and> (\<forall>x \<in> set (m # xs). snd (first_min m xs) \<le> snd x)"
proof (induction xs arbitrary: m)
  case (Cons x xs)
  show ?case using Cons.IH [of "if snd x < snd m then x else m"] by (auto split: if_splits)
qed simp

lemma map_timed: "map_res timed ks = Inr ps \<Longrightarrow> ps = map (\<lambda>k. (k, lat k)) ks \<and> (\<forall>k \<in> set ks. measured k)"
  by (induction ks arbitrary: ps) (auto simp: res_simps timed_iff)

lemma pick_winner_least:
  assumes "pick_winner a = Inr k"
  shows "k \<in> set (ac_seed a # retained a)" "measured k"
    and "\<forall>x \<in> set (ac_seed a # retained a). measured x \<and> lat k \<le> lat x"
proof -
  from assms obtain rest seed where r: "map_res timed (retained a) = Inr rest" "timed (ac_seed a) = Inr seed"
    and k: "k = fst (first_min seed rest)" by (auto simp: pick_winner_def res_simps)
  have seed: "seed = (ac_seed a, lat (ac_seed a))" and ms: "measured (ac_seed a)" using r(2) by (auto simp: timed_iff)
  have rest: "rest = map (\<lambda>k. (k, lat k)) (retained a)" and mr: "\<forall>k \<in> set (retained a). measured k"
    using map_timed [OF r(1)] by auto
  from first_min_least [of seed rest]
  have m: "first_min seed rest \<in> set (seed # rest)" "\<forall>x \<in> set (seed # rest). snd (first_min seed rest) \<le> snd x" by auto
  from m(1) seed rest have f: "first_min seed rest = (k, lat k)" using k by auto
  show "k \<in> set (ac_seed a # retained a)" using m(1) f seed rest by auto
  then show "measured k" using ms mr by auto
  show "\<forall>x \<in> set (ac_seed a # retained a). measured x \<and> lat k \<le> lat x"
    using m(2) f ms mr seed rest by auto
qed

section \<open>The invariant\<close>

definition active_ok :: "search_config \<Rightarrow> search_state \<Rightarrow> active \<Rightarrow> bool" where
  "active_ok c st a =
     (ac_epoch a = ss_epoch st \<and> ac_seed a = ss_seed st \<and>
      jobs_ok (sc_options c) (ss_epoch st) (ac_jobs a) \<and>
      (ac_phase a = Publishing \<longrightarrow>
         (\<forall>j \<in> set (ac_jobs a). jb_status j = JCompleted) \<and> (\<exists>k. ac_winner a = Some k \<and> pick_winner a = Inr k)))"

definition state_ok :: "search_config \<Rightarrow> search_state \<Rightarrow> bool" where
  "state_ok c st =
     (1 \<le> ss_epoch st \<and> Suc (ss_completed st) = ss_epoch st \<and>
      measured (ss_bootstrap st) \<and> measured (ss_seed st) \<and> lat (ss_seed st) \<le> lat (ss_bootstrap st) \<and>
      (\<forall>a. ss_active st = Some a \<longrightarrow> active_ok c st a))"

definition publishes :: "search_state \<Rightarrow> nat \<Rightarrow> pyval \<Rightarrow> bool" where
  \<comment> \<open>the epoch the state stands at is being published with this winner\<close>
  "publishes st e k = (e = ss_epoch st \<and>
     (\<exists>a. ss_active st = Some a \<and> ac_phase a = Publishing \<and> ac_winner a = Some k))"

definition history_ok :: "search_state \<Rightarrow> call list \<Rightarrow> bool" where
  "history_ok st calls =
     ((\<forall>e k. Published e k \<in> set calls \<longrightarrow> (e < ss_epoch st \<or> publishes st e k) \<and> measured k \<and>
         lat k \<le> lat (ss_bootstrap st) \<and> (e < ss_epoch st \<longrightarrow> lat (ss_seed st) \<le> lat k)) \<and>
      (\<forall>e k e' k'. Published e k \<in> set calls \<longrightarrow> Published e' k' \<in> set calls \<longrightarrow>
         (e = e' \<longrightarrow> k = k') \<and> (e \<le> e' \<longrightarrow> lat k' \<le> lat k)) \<and>
      (\<forall>e. 1 \<le> e \<longrightarrow> e < ss_epoch st \<longrightarrow> (\<exists>k. Published e k \<in> set calls)))"

definition running_ok :: "search_config \<Rightarrow> coordinator \<Rightarrow> bool" where
  "running_ok c s =
     (distinct (co_running s) \<and> distinct (busy s) \<and> length (co_running s) \<le> so_parallel (sc_options c) \<and>
      (\<forall>i \<in> set (co_running s). i < length (co_jobs s) \<and> jb_status (co_jobs s ! i) = JRunning))"

definition in_phase :: "phase \<Rightarrow> coordinator \<Rightarrow> bool" where
  "in_phase p s = (\<exists>a. ss_active (co_state s) = Some a \<and> ac_phase a = p)"

definition pc_ok :: "search_config \<Rightarrow> coordinator \<Rightarrow> bool" where
  "pc_ok c s =
     (case co_pc s of
        Prepare \<Rightarrow> in_phase Preparing s
      | Scan i \<Rightarrow> in_phase Running s \<and> running_ok c s \<and> i \<le> length (co_jobs s)
      | Waiting \<Rightarrow> in_phase Running s \<and> running_ok c s
      | Draining \<Rightarrow> in_phase Running s \<and> running_ok c s
      | Publish \<Rightarrow> in_phase Publishing s
      | Commit \<Rightarrow> in_phase Publishing s \<and>
          Published (ss_epoch (co_state s)) (the (ac_winner (co_active s))) \<in> set (co_calls s)
      | _ \<Rightarrow> True)"

definition at_work :: "pc \<Rightarrow> bool" where
  "at_work p = (case p of Stopped \<Rightarrow> False | Returned r \<Rightarrow> False | Raised e \<Rightarrow> False | _ \<Rightarrow> True)"

definition disk_ok :: "search_config \<Rightarrow> coordinator \<Rightarrow> bool" where
  "disk_ok c s =
     (case co_disk s of
        Absent \<Rightarrow> co_calls s = []
      | Broken e \<Rightarrow> False
      | Stored st \<Rightarrow> state_ok c st \<and> history_ok st (co_calls s))"

definition search_ok :: "search_config \<Rightarrow> coordinator \<Rightarrow> bool" where
  "search_ok c s =
     (disk_ok c s \<and> (at_work (co_pc s) \<longrightarrow> co_disk s = Stored (co_state s)) \<and> pc_ok c s \<and>
      (\<not> in_jobs (co_pc s) \<longrightarrow> co_running s = []))"

lemma search_ok_work:
  assumes "at_work (co_pc s)"
  shows "search_ok c s \<longleftrightarrow> co_disk s = Stored (co_state s) \<and> state_ok c (co_state s) \<and>
    history_ok (co_state s) (co_calls s) \<and> pc_ok c s \<and> (\<not> in_jobs (co_pc s) \<longrightarrow> co_running s = [])"
  using assms by (auto simp: search_ok_def disk_ok_def)

lemma search_ok_rest:
  assumes "\<not> at_work (co_pc s)"
  shows "search_ok c s \<longleftrightarrow> disk_ok c s \<and> co_running s = []"
  using assms by (auto simp: search_ok_def pc_ok_def in_jobs_def at_work_def split: pc.splits)

subsection \<open>The history of publications\<close>

lemma history_cong:
  assumes "history_ok st calls" "ss_epoch st' = ss_epoch st" "ss_bootstrap st' = ss_bootstrap st"
    "ss_seed st' = ss_seed st" "\<And>e k. publishes st e k \<Longrightarrow> publishes st' e k"
    "\<And>e k. Published e k \<in> set calls' \<longleftrightarrow> Published e k \<in> set calls"
  shows "history_ok st' calls'"
proof -
  have "(e < ss_epoch st' \<or> publishes st' e k) \<and> measured k \<and> lat k \<le> lat (ss_bootstrap st') \<and>
      (e < ss_epoch st' \<longrightarrow> lat (ss_seed st') \<le> lat k)" if "Published e k \<in> set calls'" for e k
    using assms that unfolding history_ok_def by metis
  then show ?thesis using assms unfolding history_ok_def by (simp only:) blast
qed

lemma publishes_winner:
  assumes "state_ok c st" "publishes st e k"
  shows "measured k" "lat k \<le> lat (ss_seed st)" "lat k \<le> lat (ss_bootstrap st)" "e = ss_epoch st"
proof -
  from assms(2) obtain a where a: "ss_active st = Some a" "ac_phase a = Publishing" "ac_winner a = Some k"
    and e: "e = ss_epoch st" by (auto simp: publishes_def)
  with assms(1) have ao: "active_ok c st a" by (auto simp: state_ok_def)
  with a have k: "pick_winner a = Inr k" and s: "ac_seed a = ss_seed st" by (auto simp: active_ok_def)
  from pick_winner_least [OF k] s show "measured k" "lat k \<le> lat (ss_seed st)" by auto
  with assms(1) show "lat k \<le> lat (ss_bootstrap st)" by (auto simp: state_ok_def)
  show "e = ss_epoch st" by fact
qed

lemma publishes_unique: "publishes st e k \<Longrightarrow> publishes st e' k' \<Longrightarrow> k' = k \<and> e' = e"
  by (auto simp: publishes_def)

lemma history_publish:
  assumes ok: "state_ok c st" and h: "history_ok st calls" and p: "publishes st e k"
  shows "history_ok st (calls @ [Published e k])"
proof -
  note w = publishes_winner [OF ok p]
  have old: "(e' < e \<longrightarrow> lat k \<le> lat k') \<and> (e \<le> e' \<longrightarrow> k' = k \<and> e' = e)" if m: "Published e' k' \<in> set calls" for e' k'
  proof -
    from h m have d: "e' < ss_epoch st \<or> publishes st e' k'" and s: "e' < ss_epoch st \<longrightarrow> lat (ss_seed st) \<le> lat k'"
      by (auto simp: history_ok_def)
    from d w(4) publishes_unique [OF p] have "e \<le> e' \<longrightarrow> k' = k \<and> e' = e" by auto
    moreover from s w(2,4) have "e' < e \<longrightarrow> lat k \<le> lat k'" by auto
    ultimately show ?thesis by blast
  qed
  have pair: "(a = b \<longrightarrow> x = y) \<and> (a \<le> b \<longrightarrow> lat y \<le> lat x)"
    if "Published a x \<in> set (calls @ [Published e k])" "Published b y \<in> set (calls @ [Published e k])" for a x b y
  proof -
    from that consider "Published a x \<in> set calls" "Published b y \<in> set calls"
      | "Published a x \<in> set calls" "b = e" "y = k" | "a = e" "x = k" "Published b y \<in> set calls"
      | "a = e" "x = k" "b = e" "y = k" by auto
    then show ?thesis
    proof cases
      case 1 then show ?thesis using h by (auto simp: history_ok_def)
    next
      case 2 then show ?thesis using old [of a x] by (cases "a < e") auto
    next
      case 3 then show ?thesis using old [of b y] by auto
    qed simp
  qed
  have single: "(a < ss_epoch st \<or> publishes st a x) \<and> measured x \<and> lat x \<le> lat (ss_bootstrap st) \<and>
      (a < ss_epoch st \<longrightarrow> lat (ss_seed st) \<le> lat x)"
    if "Published a x \<in> set (calls @ [Published e k])" for a x
    using that h p w by (auto simp: history_ok_def)
  have "\<exists>x. Published a x \<in> set (calls @ [Published e k])" if "1 \<le> a" "a < ss_epoch st" for a
    using h that by (auto simp: history_ok_def)
  with single pair show ?thesis unfolding history_ok_def by blast
qed

lemma history_commit:
  assumes ok: "state_ok c st" and h: "history_ok st calls" and p: "publishes st e k" and m: "Published e k \<in> set calls"
    and st': "ss_epoch st' = Suc (ss_epoch st)" "ss_seed st' = k" "ss_bootstrap st' = ss_bootstrap st"
  shows "history_ok st' calls"
proof -
  note w = publishes_winner [OF ok p]
  have single: "(a < ss_epoch st' \<or> publishes st' a x) \<and> measured x \<and> lat x \<le> lat (ss_bootstrap st') \<and>
      (a < ss_epoch st' \<longrightarrow> lat (ss_seed st') \<le> lat x)" if x: "Published a x \<in> set calls" for a x
  proof -
    from h x have "a < ss_epoch st \<or> publishes st a x" and l: "measured x" "lat x \<le> lat (ss_bootstrap st)"
      by (auto simp: history_ok_def)
    then have a: "a \<le> e" using w(4) publishes_unique [OF p] by auto
    moreover from h x m a have "lat k \<le> lat x" unfolding history_ok_def by blast
    ultimately show ?thesis using l w(4) st' by auto
  qed
  have "\<exists>x. Published a x \<in> set calls" if a: "1 \<le> a" "a < ss_epoch st'" for a
  proof (cases "a = e")
    case False
    with a st'(1) w(4) have "a < ss_epoch st" by auto
    with h a show ?thesis by (auto simp: history_ok_def)
  qed (use m in auto)
  moreover have "\<forall>a x b y. Published a x \<in> set calls \<longrightarrow> Published b y \<in> set calls \<longrightarrow>
      (a = b \<longrightarrow> x = y) \<and> (a \<le> b \<longrightarrow> lat y \<le> lat x)"
    using h by (simp add: history_ok_def)
  ultimately show ?thesis using single unfolding history_ok_def by blast
qed

subsection \<open>Every step keeps the invariant\<close>

lemma active_ok_update [simp]: "active_ok c (st\<lparr>ss_active := x\<rparr>) a = active_ok c st a"
  by (simp add: active_ok_def)

lemma state_ok_active:
  "state_ok c st \<Longrightarrow> active_ok c st a \<Longrightarrow> state_ok c (st\<lparr>ss_active := Some a\<rparr>)"
  by (simp add: state_ok_def)

lemma history_active:
  assumes "history_ok st calls" "\<And>e k. \<not> publishes st e k"
    "\<And>e k. Published e k \<in> set calls' \<longleftrightarrow> Published e k \<in> set calls"
  shows "history_ok (st\<lparr>ss_active := Some a\<rparr>) calls'"
  by (rule history_cong [OF assms(1)]) (use assms in auto)

lemma head_ok:
  assumes ok: "search_ok c s" and pc: "co_pc s = Head"
  shows "search_ok c (head c b s)"
proof -
  from ok pc have d: "co_disk s = Stored (co_state s)" "state_ok c (co_state s)" "history_ok (co_state s) (co_calls s)"
    and r: "co_running s = []" by (simp_all add: search_ok_work at_work_def in_jobs_def)
  show ?thesis
  proof (cases "ss_active (co_state s)")
    case None
    let ?a = "new_epoch (sc_options c) (co_state s)"
    have a: "active_ok c (co_state s) ?a" by (simp add: active_ok_def new_epoch_def jobs_ok_fresh)
    have h: "history_ok ((co_state s)\<lparr>ss_active := Some ?a\<rparr>) (co_calls s)"
      by (rule history_active [OF d(3)]) (auto simp: publishes_def None)
    have p: "in_phase Preparing (s\<lparr>co_state := (co_state s)\<lparr>ss_active := Some ?a\<rparr>\<rparr>)"
      by (simp add: in_phase_def new_epoch_def)
    from d r show ?thesis
      using state_ok_active [OF d(2) a] h p None
      by (auto simp: head_def co_simps search_ok_rest search_ok_work at_work_def disk_ok_def in_jobs_def pc_ok_def in_phase_def)
  next
    case (Some a)
    from d r Some show ?thesis
      by (auto simp: head_def co_simps search_ok_def at_work_def disk_ok_def in_jobs_def pc_ok_def in_phase_def
          phase_pc_def running_ok_def busy_def split: phase.splits)
  qed
qed

lemma prepare_ok:
  assumes ok: "search_ok c s" and pc: "co_pc s = Prepare"
  shows "search_ok c (prepare_epoch r s)"
proof -
  from ok pc have d: "co_disk s = Stored (co_state s)" "state_ok c (co_state s)" "history_ok (co_state s) (co_calls s)"
    and r: "co_running s = []" and p: "in_phase Preparing s"
    by (simp_all add: search_ok_work at_work_def in_jobs_def pc_ok_def)
  from p obtain a where a: "ss_active (co_state s) = Some a" "ac_phase a = Preparing" by (auto simp: in_phase_def)
  with d(2) have ao: "active_ok c (co_state s) (a\<lparr>ac_phase := Running\<rparr>)" by (auto simp: state_ok_def active_ok_def)
  have h: "history_ok ((co_state s)\<lparr>ss_active := Some (a\<lparr>ac_phase := Running\<rparr>)\<rparr>) (co_calls s @ [Prepared e k])" for e k
    by (rule history_active [OF d(3)]) (auto simp: publishes_def a)
  have h': "history_ok (co_state s) (co_calls s @ [Prepared e k])" for e k
    by (rule history_cong [OF d(3)]) auto
  show ?thesis
    using d r a state_ok_active [OF d(2) ao] h h'
    by (cases r) (auto simp: prepare_epoch_def co_simps search_ok_def at_work_def disk_ok_def in_jobs_def pc_ok_def in_phase_def
        running_ok_def busy_def)
qed

text \<open>Inside the jobs of an epoch: the state is the checkpoint, and the running episodes are in order.\<close>

lemma jobs_phaseE:
  assumes "search_ok c s" "in_jobs (co_pc s)"
  obtains a where "co_disk s = Stored (co_state s)" "state_ok c (co_state s)" "history_ok (co_state s) (co_calls s)"
    "ss_active (co_state s) = Some a" "ac_phase a = Running" "active_ok c (co_state s) a"
    "jobs_ok (sc_options c) (ss_epoch (co_state s)) (ac_jobs a)" "running_ok c s"
proof -
  have w: "at_work (co_pc s)" using assms(2) by (auto simp: in_jobs_def at_work_def split: pc.splits)
  from assms search_ok_work [OF w] have d: "co_disk s = Stored (co_state s)" "state_ok c (co_state s)"
    "history_ok (co_state s) (co_calls s)" and p: "pc_ok c s" by auto
  from p assms(2) have "in_phase Running s" and r: "running_ok c s"
    by (auto simp: pc_ok_def in_jobs_def split: pc.splits)
  then obtain a where a: "ss_active (co_state s) = Some a" "ac_phase a = Running" by (auto simp: in_phase_def)
  with d(2) have "active_ok c (co_state s) a" by (auto simp: state_ok_def)
  with a d r show ?thesis using that by (auto simp: active_ok_def)
qed

lemma jobs_ok_state:
  assumes "search_ok c s" "in_jobs (co_pc s)" "in_jobs p"
    "ss_active (co_state t) = Some a" "ac_phase a = Running"
    "active_ok c (co_state s) a" "co_disk t = Stored (co_state t)" "co_state t = (co_state s)\<lparr>ss_active := Some a\<rparr>"
    "\<And>e k. Published e k \<in> set (co_calls t) \<longleftrightarrow> Published e k \<in> set (co_calls s)"
    "running_ok c t" "co_pc t = p" "\<And>i. p = Scan i \<Longrightarrow> i \<le> length (co_jobs t)"
  shows "search_ok c t"
proof -
  from jobs_phaseE [OF assms(1,2)] obtain b where d: "state_ok c (co_state s)" "history_ok (co_state s) (co_calls s)"
    "ss_active (co_state s) = Some b" "ac_phase b = Running" by metis
  have w: "at_work (co_pc t)" using assms(3,11) by (auto simp: in_jobs_def at_work_def split: pc.splits)
  have "history_ok (co_state t) (co_calls t)" unfolding assms(8)
    by (rule history_active [OF d(2)]) (use assms(9) d(3,4) in \<open>auto simp: publishes_def\<close>)
  moreover have "state_ok c (co_state t)" unfolding assms(8) using state_ok_active [OF d(1) assms(6)] .
  moreover have "pc_ok c t" using assms(3,4,5,10,11,12) by (auto simp: pc_ok_def in_jobs_def in_phase_def split: pc.splits)
  ultimately show ?thesis using search_ok_work [OF w] assms(3,7,11) by auto
qed

lemma goto_ok:
  assumes "search_ok c s" "in_jobs (co_pc s)" "in_jobs p" "\<And>i. p = Scan i \<Longrightarrow> i \<le> length (co_jobs s)"
  shows "search_ok c (goto p s)"
proof -
  from jobs_phaseE [OF assms(1,2)] obtain a where d: "co_disk s = Stored (co_state s)"
    "ss_active (co_state s) = Some a" "ac_phase a = Running" "active_ok c (co_state s) a" "running_ok c s" by metis
  have "co_state s = (co_state s)\<lparr>ss_active := Some a\<rparr>" using d(2) by (cases "co_state s") simp
  with d assms(4) show ?thesis
    by (intro jobs_ok_state [OF assms(1,2,3), of _ a]) (auto simp: goto_def running_ok_def busy_def)
qed

definition move_job :: "nat \<Rightarrow> job \<Rightarrow> nat list \<Rightarrow> coordinator \<Rightarrow> coordinator" where
  \<comment> \<open>one job changes its status, and the set of running episodes with it\<close>
  "move_job i j running s = (put_job i j s)\<lparr>co_running := running\<rparr>"

lemma move_job_ok:
  assumes ok: "search_ok c s" "in_jobs (co_pc s)" "in_jobs p" and i: "i < length (co_jobs s)"
    and js: "jobs_ok (sc_options c) (ss_epoch (co_state s)) ((co_jobs s)[i := j])"
    and r: "distinct running" "length running \<le> so_parallel (sc_options c)"
      "\<forall>x \<in> set running. x < length (co_jobs s) \<and> jb_status ((co_jobs s)[i := j] ! x) = JRunning"
      "distinct (map (\<lambda>x. jb_trajectory ((co_jobs s)[i := j] ! x)) running)"
    and t: "co_disk t = Stored (co_state t)" "co_state t = co_state (put_job i j s)" "co_running t = running" "co_pc t = p"
      "\<And>e k. Published e k \<in> set (co_calls t) \<longleftrightarrow> Published e k \<in> set (co_calls s)"
      "\<And>n. p = Scan n \<Longrightarrow> n \<le> length (co_jobs s)"
  shows "search_ok c t"
proof -
  from jobs_phaseE [OF ok(1,2)] obtain a where d: "ss_active (co_state s) = Some a" "ac_phase a = Running"
    "active_ok c (co_state s) a" by metis
  let ?a = "a\<lparr>ac_jobs := (ac_jobs a)[i := j]\<rparr>"
  have st: "co_state t = (co_state s)\<lparr>ss_active := Some ?a\<rparr>" using t(2) d(1) by (simp add: co_simps)
  have "active_ok c (co_state s) ?a" using d js by (simp add: active_ok_def)
  moreover have "running_ok c t" using r t(3) st d(1) by (simp add: running_ok_def busy_def)
  ultimately show ?thesis using t(1,3-6) st d
    by (intro jobs_ok_state [OF ok, of t ?a]) simp_all
qed

lemma scan_ok:
  assumes ok: "search_ok c s" and pc: "co_pc s = Scan i"
  shows "search_ok c (scan_job (sc_options c) b i s)"
proof -
  have inj: "in_jobs (co_pc s)" using pc by (simp add: in_jobs_def)
  have gw: "search_ok c (goto Waiting s)" by (rule goto_ok [OF ok inj]) (simp_all add: in_jobs_def)
  show ?thesis
  proof (cases "length (co_jobs s) \<le> i \<or> co_failure s \<noteq> None \<or> length (co_running s) \<ge> so_parallel (sc_options c)")
    case True
    then show ?thesis using gw by (simp add: scan_job_def)
  next
    case False
    then have i: "i < length (co_jobs s)" and room: "length (co_running s) < so_parallel (sc_options c)" by auto
    have gs: "search_ok c (goto (Scan (Suc i)) s)" by (rule goto_ok [OF ok inj]) (use i in \<open>simp_all add: in_jobs_def\<close>)
    let ?j = "co_jobs s ! i"
    show ?thesis
    proof (cases "jb_status ?j = JCompleted \<or> jb_trajectory ?j \<in> set (busy s) \<or> blocked (co_jobs s) ?j \<or>
        (jb_status ?j \<noteq> JRunning \<and> b)")
      case True
      with False gs show ?thesis by (simp add: scan_job_def Let_def)
    next
      case go: False
      from jobs_phaseE [OF ok inj] obtain a where a: "ss_active (co_state s) = Some a" "co_disk s = Stored (co_state s)"
        "jobs_ok (sc_options c) (ss_epoch (co_state s)) (ac_jobs a)" "running_ok c s" by metis
      have ji: "jobs_ok (sc_options c) (ss_epoch (co_state s)) ((co_jobs s)[i := ?j\<lparr>jb_status := JRunning\<rparr>])"
        using jobs_ok_dispatch [OF a(3)] go i a(1) by simp
      have r: "distinct (co_running s)" "distinct (busy s)"
        "\<forall>x \<in> set (co_running s). x < length (co_jobs s) \<and> jb_status (co_jobs s ! x) = JRunning"
        using a(4) by (simp_all add: running_ok_def)
      have new: "i \<notin> set (co_running s)" using go by (auto simp: busy_def)
      have traj: "jb_trajectory ((co_jobs s)[i := ?j\<lparr>jb_status := JRunning\<rparr>] ! x) = jb_trajectory (co_jobs s ! x)" for x
        using i by (cases "x = i") simp_all
      have run: "\<forall>x \<in> set (co_running s @ [i]). x < length (co_jobs s) \<and>
          jb_status ((co_jobs s)[i := ?j\<lparr>jb_status := JRunning\<rparr>] ! x) = JRunning"
        using r(3) i new by (auto simp: nth_list_update)
      have "search_ok c (goto (Scan (Suc i)) (dispatch i s))"
        by (rule move_job_ok [OF ok inj _ i ji, of "Scan (Suc i)" "co_running s @ [i]"])
          (use r new room run i go in \<open>auto simp: in_jobs_def traj busy_def dispatch_def co_simps\<close>)
      with False go show ?thesis by (auto simp: scan_job_def Let_def)
    qed
  qed
qed

lemma stopping_ok:
  assumes ok: "search_ok c s" and t: "co_disk t = co_disk s" "\<not> at_work (co_pc t)" "co_running t = []"
    "\<And>e k. Published e k \<in> set (co_calls t) \<longleftrightarrow> Published e k \<in> set (co_calls s)" "co_disk s \<noteq> Absent"
  shows "search_ok c t"
proof -
  have "disk_ok c t"
    using ok t by (auto simp: search_ok_def disk_ok_def split: checkpoint.splits intro: history_cong)
  then show ?thesis using search_ok_rest [OF t(2)] t(3) by simp
qed

lemma interrupt_ok:
  assumes ok: "search_ok c s" and pc: "in_jobs (co_pc s)"
  shows "search_ok c (interrupt e s)"
proof -
  from jobs_phaseE [OF assms] have "co_disk s = Stored (co_state s)" by metis
  then show ?thesis
    by (intro stopping_ok [OF ok]) (auto simp: interrupt_def co_simps at_work_def)
qed

text \<open>An episode that ended, whatever it returned, is no longer running.\<close>

lemma drop_running_ok:
  assumes ok: "search_ok c s" and pc: "in_jobs (co_pc s)"
  shows "search_ok c (s\<lparr>co_running := remove1 i (co_running s), co_failure := f\<rparr>)"
proof -
  from jobs_phaseE [OF assms] obtain a where d: "co_disk s = Stored (co_state s)"
    "ss_active (co_state s) = Some a" "ac_phase a = Running" "active_ok c (co_state s) a" "running_ok c s" by metis
  have "co_state s = (co_state s)\<lparr>ss_active := Some a\<rparr>" using d(2) by (cases "co_state s") simp
  moreover have "running_ok c (s\<lparr>co_running := remove1 i (co_running s), co_failure := f\<rparr>)"
    using d(5) by (auto simp: running_ok_def busy_def distinct_remove1 distinct_map length_remove1
        dest: notin_set_remove1 intro: inj_on_subset)
  moreover have "n \<le> length (co_jobs s)" if "co_pc s = Scan n" for n
    using ok that by (auto simp: search_ok_def pc_ok_def)
  ultimately show ?thesis using d pc
    by (intro jobs_ok_state [OF ok pc pc, of _ a]) auto
qed

lemma finish_ok:
  assumes ok: "search_ok c s" and pc: "co_pc s = Waiting \<or> co_pc s = Draining" and i: "i \<in> set (co_running s)"
  shows "search_ok c (finish_job i out s)"
proof -
  have inj: "in_jobs (co_pc s)" using pc by (auto simp: in_jobs_def)
  let ?s = "s\<lparr>co_running := remove1 i (co_running s)\<rparr>"
  have fail: "search_ok c (goto Draining (remember e ?s))" for e
  proof -
    let ?f = "case co_failure s of None \<Rightarrow> Some e | Some x \<Rightarrow> Some x"
    have "search_ok c (goto Draining (s\<lparr>co_running := remove1 i (co_running s), co_failure := ?f\<rparr>))"
      by (rule goto_ok [OF drop_running_ok [OF ok inj]]) (use inj in \<open>auto simp: in_jobs_def\<close>)
    then show ?thesis by (simp add: remember_def)
  qed
  have int: "search_ok c (interrupt e ?s)" for e
    using interrupt_ok [OF drop_running_ok [OF ok inj, where i = i and f = "co_failure s"]] inj by simp
  have fin: "search_ok c (goto Draining (put_job i ((co_jobs s ! i)\<lparr>jb_status := JCompleted, jb_result := Some r\<rparr>) ?s))"
    if r: "same_identity r (co_jobs s ! i)" for r
  proof -
    from jobs_phaseE [OF ok inj] obtain a where a: "ss_active (co_state s) = Some a" "co_disk s = Stored (co_state s)"
      "jobs_ok (sc_options c) (ss_epoch (co_state s)) (ac_jobs a)" "running_ok c s" by metis
    then have il: "i < length (co_jobs s)" and st: "jb_status (co_jobs s ! i) = JRunning"
      and d: "distinct (co_running s)" "distinct (busy s)" "length (co_running s) \<le> so_parallel (sc_options c)"
      and run: "\<forall>x \<in> set (co_running s). x < length (co_jobs s) \<and> jb_status (co_jobs s ! x) = JRunning"
      using i by (auto simp: running_ok_def)
    let ?j = "(co_jobs s ! i)\<lparr>jb_status := JCompleted, jb_result := Some r\<rparr>"
    have js: "jobs_ok (sc_options c) (ss_epoch (co_state s)) ((co_jobs s)[i := ?j])"
      using jobs_ok_complete [OF a(3)] il st r a(1) by simp
    have traj: "jb_trajectory ((co_jobs s)[i := ?j] ! x) = jb_trajectory (co_jobs s ! x)" for x
      using il by (cases "x = i") simp_all
    have left: "set (remove1 i (co_running s)) = set (co_running s) - {i}" using d(1) by simp
    show ?thesis
      by (rule move_job_ok [OF ok inj _ il js, of Draining "remove1 i (co_running s)"])
        (use d run left in \<open>auto simp: in_jobs_def traj busy_def distinct_map length_remove1 co_simps nth_list_update
            intro: inj_on_subset\<close>)
  qed
  show ?thesis
    using fail int fin by (auto simp: finish_job_def Let_def split: sum.splits pyval.splits)
qed

lemma jobs_done_ok:
  assumes ok: "search_ok c s" and pc: "co_pc s = Waiting" and idle: "co_running s = []"
  shows "search_ok c (jobs_done s)"
proof -
  have inj: "in_jobs (co_pc s)" using pc by (simp add: in_jobs_def)
  from jobs_phaseE [OF ok inj] obtain a where a: "ss_active (co_state s) = Some a" "ac_phase a = Running"
    "co_disk s = Stored (co_state s)" "state_ok c (co_state s)" "history_ok (co_state s) (co_calls s)"
    "active_ok c (co_state s) a" by metis
  have stop: "search_ok c (goto p s)" if "\<not> at_work p" for p
    by (rule stopping_ok [OF ok]) (use that idle a(3) in \<open>auto simp: goto_def\<close>)
  have pub: "search_ok c (goto Publish (save (with_active (a\<lparr>ac_winner := Some k, ac_phase := Publishing\<rparr>) (co_state s)) s))"
    if all: "list_all (\<lambda>j. jb_status j = JCompleted) (ac_jobs a)" and k: "pick_winner a = Inr k" for k
  proof -
    let ?a = "a\<lparr>ac_winner := Some k, ac_phase := Publishing\<rparr>"
    have "pick_winner ?a = pick_winner a" by (simp add: pick_winner_def retained_def)
    then have ao: "active_ok c (co_state s) ?a" using a(6) all k by (simp add: active_ok_def list_all_iff)
    have h: "history_ok ((co_state s)\<lparr>ss_active := Some ?a\<rparr>) (co_calls s)"
      by (rule history_active [OF a(5)]) (auto simp: publishes_def a(1,2))
    show ?thesis using state_ok_active [OF a(4) ao] h idle
      by (simp add: search_ok_work at_work_def co_simps in_jobs_def pc_ok_def in_phase_def)
  qed
  show ?thesis
    using interrupt_ok [OF ok inj] stop pub a(1)
    by (auto simp: jobs_done_def at_work_def split: option.splits sum.splits)
qed

lemma publish_ok:
  assumes ok: "search_ok c s" and pc: "co_pc s = Publish"
  shows "search_ok c (publish_epoch r s)"
proof -
  from ok pc have d: "co_disk s = Stored (co_state s)" "state_ok c (co_state s)" "history_ok (co_state s) (co_calls s)"
    and r: "co_running s = []" and p: "in_phase Publishing s"
    by (simp_all add: search_ok_work at_work_def in_jobs_def pc_ok_def)
  from p obtain a where a: "ss_active (co_state s) = Some a" "ac_phase a = Publishing" by (auto simp: in_phase_def)
  with d(2) obtain k where k: "ac_winner a = Some k" by (auto simp: state_ok_def active_ok_def)
  with a have "publishes (co_state s) (ss_epoch (co_state s)) k" by (simp add: publishes_def)
  from history_publish [OF d(2,3) this]
  have h: "history_ok (co_state s) (co_calls s @ [Published (ss_epoch (co_state s)) k])" .
  show ?thesis using d r a k h p
    by (cases r) (simp_all add: publish_epoch_def co_simps search_ok_def at_work_def disk_ok_def in_jobs_def pc_ok_def in_phase_def)
qed

lemma commit_ok:
  assumes ok: "search_ok c s" and pc: "co_pc s = Commit"
  shows "search_ok c (commit_epoch r s)"
proof -
  from ok pc have d: "co_disk s = Stored (co_state s)" "state_ok c (co_state s)" "history_ok (co_state s) (co_calls s)"
    and r: "co_running s = []" and p: "in_phase Publishing s"
    and m: "Published (ss_epoch (co_state s)) (the (ac_winner (co_active s))) \<in> set (co_calls s)"
    by (simp_all add: search_ok_work at_work_def in_jobs_def pc_ok_def)
  from p obtain a where a: "ss_active (co_state s) = Some a" "ac_phase a = Publishing" by (auto simp: in_phase_def)
  with d(2) obtain k where k: "ac_winner a = Some k" by (auto simp: state_ok_def active_ok_def)
  with a have pub: "publishes (co_state s) (ss_epoch (co_state s)) k" by (simp add: publishes_def)
  note w = publishes_winner [OF d(2) pub]
  have m': "Published (ss_epoch (co_state s)) k \<in> set (co_calls s)" using m a k by simp
  have st: "state_ok c (committed stop stalled (co_state s))" for stop stalled
    using d(2) w a k by (auto simp: state_ok_def committed_def Let_def)
  have h: "history_ok (committed stop stalled (co_state s)) (co_calls s)" for stop stalled
    by (rule history_commit [OF d(2,3) pub m']) (simp_all add: committed_def Let_def a k)
  show ?thesis using d r st h p pc
    by (auto simp: commit_epoch_def co_simps search_ok_def at_work_def disk_ok_def in_jobs_def pc_ok_def split: sum.splits)
qed

lemma launch_ok:
  assumes ok: "search_ok c s" and pc: "co_pc s = Stopped"
  shows "search_ok c (launch c seed ready s)"
proof -
  from ok pc have r: "co_running s = []" and d: "disk_ok c s" by (simp_all add: search_ok_rest at_work_def)
  have enter: "search_ok c (enter_run c ready st s')"
    if "co_disk s' = Stored st" "state_ok c st" "history_ok st (co_calls s')" "co_running s' = []" "\<not> at_work (co_pc s')" for st s'
    using that
    by (auto simp: enter_run_def goto_def search_ok_def at_work_def disk_ok_def in_jobs_def pc_ok_def split: sum.splits)
  have fresh: "search_ok c (enter_run c ready (fresh_state c k) (save (fresh_state c k) s))"
    if "co_disk s = Absent" "measured k" for k
  proof -
    have "co_calls s = []" using d that(1) by (simp add: disk_ok_def)
    with that r pc show ?thesis
      by (intro enter) (auto simp: save_def state_ok_def history_ok_def fresh_state_def at_work_def)
  qed
  have m: "measured k" if "bind_res seed (\<lambda>k. bind_res (latency k) (\<lambda>_. Inr k)) = Inr k" for k
    using that by (auto simp: res_simps measured_def)
  have stop: "search_ok c (goto (Raised e) s)" for e
    using d r by (auto simp: goto_def search_ok_def at_work_def disk_ok_def in_jobs_def pc_ok_def split: checkpoint.splits)
  show ?thesis
    using d enter [of s] fresh m stop r pc
    by (auto simp: launch_def disk_ok_def at_work_def split: checkpoint.splits sum.splits)
qed

lemma lost_ok:
  assumes ok: "search_ok c s"
  shows "search_ok c (lost s)"
proof -
  have "disk_ok c s" using ok by (simp add: search_ok_def)
  then show ?thesis
    by (auto simp: lost_def goto_def search_ok_def at_work_def disk_ok_def in_jobs_def pc_ok_def split: checkpoint.splits)
qed

lemma search_step_ok:
  assumes "search_step c s t" and ok: "search_ok c s"
  shows "search_ok c t"
  using assms(1)
proof (cases rule: search_step.cases)
  case worked
  then show ?thesis
  proof (cases rule: work_step.cases)
    case rescan
    with ok show ?thesis by (auto intro: goto_ok simp: in_jobs_def)
  qed (use ok in \<open>auto intro: head_ok prepare_ok scan_ok jobs_done_ok finish_ok interrupt_ok publish_ok commit_ok\<close>)
qed (use ok in \<open>auto intro: launch_ok lost_ok\<close>)

lemma reachable_ok: "reachable c s \<Longrightarrow> search_ok c s"
proof (induction rule: reachable.induct)
  case (start s)
  then show ?case by (auto simp: initial_def search_ok_def disk_ok_def at_work_def pc_ok_def in_jobs_def)
next
  case (step s t)
  then show ?case using search_step_ok by blast
qed

section \<open>Every process ends\<close>

text \<open>
  The work a process can still do: episodes not yet submitted count twice (submitting and finishing),
  running ones once, and after every finished episode the list of jobs is scanned again.  A failed
  episode stops all submissions, so no process submits a job twice.
\<close>

definition waiting_jobs :: "coordinator \<Rightarrow> nat set" where
  "waiting_jobs s = {i. i < length (co_jobs s) \<and> jb_status (co_jobs s ! i) \<noteq> JCompleted \<and> i \<notin> set (co_running s)}"

definition job_effort :: "coordinator \<Rightarrow> nat" where
  "job_effort s = (if co_failure s = None then 2 * card (waiting_jobs s) else 0) + length (co_running s)"

definition job_count :: "search_config \<Rightarrow> nat" where
  "job_count c = so_per (sc_options c) * so_trajectories (sc_options c)"

definition epoch_effort :: "search_config \<Rightarrow> nat" where
  "epoch_effort c = 2 * job_count c * (job_count c + 5) + job_count c + 7"

definition pc_effort :: "search_config \<Rightarrow> coordinator \<Rightarrow> nat" where
  "pc_effort c s =
     (let J = job_count c in
      case co_pc s of
        Commit \<Rightarrow> 2
      | Publish \<Rightarrow> 3
      | Waiting \<Rightarrow> job_effort s * (J + 5) + 4
      | Scan i \<Rightarrow> job_effort s * (J + 5) + (J + 5 - i)
      | Draining \<Rightarrow> job_effort s * (J + 5) + J + 6
      | Prepare \<Rightarrow> 2 * J * (J + 5) + J + 6
      | _ \<Rightarrow> 0)"

definition effort :: "search_config \<Rightarrow> coordinator \<Rightarrow> nat" where
  "effort c s =
     (if \<not> at_work (co_pc s) then 0
      else if co_pc s = Head then (Suc (so_epochs (sc_options c)) - ss_epoch (co_state s)) * epoch_effort c + 1
      else (so_epochs (sc_options c) - ss_epoch (co_state s)) * epoch_effort c + pc_effort c s)"

lemma waiting_bound: "card (waiting_jobs s) \<le> length (co_jobs s)"
proof -
  have "waiting_jobs s \<subseteq> {..<length (co_jobs s)}" by (auto simp: waiting_jobs_def)
  from card_mono [OF _ this] show ?thesis by simp
qed

lemma finite_waiting [simp]: "finite (waiting_jobs s)"
  by (simp add: waiting_jobs_def)

lemma jobs_length:
  assumes "search_ok c s" "at_work (co_pc s)" "ss_active (co_state s) = Some a"
  shows "length (ac_jobs a) = job_count c"
  using assms jobs_okD(1) by (force simp: search_ok_work state_ok_def active_ok_def job_count_def)

lemma fresh_job_effort:
  assumes "co_running s = []" "length (co_jobs s) = job_count c"
  shows "job_effort s * (job_count c + 5) \<le> 2 * job_count c * (job_count c + 5)"
  using waiting_bound [of s] assms by (auto simp: job_effort_def intro: mult_le_mono1)

lemma dispatch_effort:
  assumes "i < length (co_jobs s)" "i \<notin> set (co_running s)" "jb_status (co_jobs s ! i) \<noteq> JCompleted"
    "co_failure s = None" "ss_active (co_state s) = Some a"
  shows "Suc (job_effort (goto p (dispatch i s))) = job_effort s"
proof -
  have "waiting_jobs (goto p (dispatch i s)) = waiting_jobs s - {i}"
    using assms by (auto simp: waiting_jobs_def dispatch_def co_simps nth_list_update)
  moreover have "i \<in> waiting_jobs s" using assms by (simp add: waiting_jobs_def)
  then have "card (waiting_jobs s - {i}) = card (waiting_jobs s) - 1" "card (waiting_jobs s) > 0"
    by (auto simp: card_gt_0_iff)
  ultimately show ?thesis using assms by (simp add: job_effort_def dispatch_def co_simps)
qed

lemma finish_effort:
  assumes i: "i \<in> set (co_running s)" "i < length (co_jobs s)" and d: "distinct (co_running s)"
    and a: "ss_active (co_state s) = Some a" and p: "at_work (co_pc (finish_job i out s))"
  shows "job_effort (finish_job i out s) < job_effort s"
proof -
  let ?s = "s\<lparr>co_running := remove1 i (co_running s)\<rparr>"
  have len: "length (remove1 i (co_running s)) < length (co_running s)" using i length_pos_if_in_set [of i "co_running s"] by (simp add: length_remove1)
  have fail: "job_effort (goto Draining (remember e ?s)) < job_effort s" for e
    using len by (simp add: job_effort_def remember_def goto_def split: option.splits)
  have fin: "job_effort (goto Draining (put_job i ((co_jobs s ! i)\<lparr>jb_status := JCompleted, jb_result := Some r\<rparr>) ?s)) < job_effort s" for r
  proof -
    have "waiting_jobs (goto Draining (put_job i ((co_jobs s ! i)\<lparr>jb_status := JCompleted, jb_result := Some r\<rparr>) ?s)) = waiting_jobs s"
      using i d a by (auto simp: waiting_jobs_def co_simps nth_list_update split: if_splits)
    then show ?thesis using len by (simp add: job_effort_def co_simps)
  qed
  show ?thesis
    using p fail fin
    by (auto simp: finish_job_def interrupt_def at_work_def goto_def Let_def split: sum.splits pyval.splits)
qed

lemma effort_rest: "\<not> at_work (co_pc s) \<Longrightarrow> effort c s = 0"
  by (simp add: effort_def)

lemma effort_in_epoch:
  "at_work (co_pc s) \<Longrightarrow> co_pc s \<noteq> Head \<Longrightarrow>
     effort c s = (so_epochs (sc_options c) - ss_epoch (co_state s)) * epoch_effort c + pc_effort c s"
  by (simp add: effort_def)

lemma effort_same_epoch:
  assumes "at_work (co_pc s)" "co_pc s \<noteq> Head" "co_pc t \<noteq> Head" "pc_effort c s > 0"
    "at_work (co_pc t) \<Longrightarrow> ss_epoch (co_state t) = ss_epoch (co_state s) \<and> pc_effort c t < pc_effort c s"
  shows "effort c t < effort c s"
  using assms by (cases "at_work (co_pc t)") (auto simp: effort_in_epoch effort_rest)

lemma job_effort_mono: "m < n \<Longrightarrow> m * k + k \<le> n * (k :: nat)"
  by (metis add.commute mult_Suc mult_le_mono1 Suc_leI)

lemma pc_effort_pos:
  assumes ok: "search_ok c s" and w: "at_work (co_pc s)" "co_pc s \<noteq> Head"
  shows "pc_effort c s > 0"
proof (cases "co_pc s")
  case (Scan i)
  with ok obtain a where "ss_active (co_state s) = Some a" "i \<le> length (co_jobs s)"
    by (auto simp: search_ok_work at_work_def pc_ok_def in_phase_def)
  with jobs_length [OF ok w(1)] Scan show ?thesis by (simp add: pc_effort_def Let_def)
qed (use w in \<open>auto simp: pc_effort_def at_work_def Let_def\<close>)

lemma head_effort:
  assumes ok: "search_ok c s" and pc: "co_pc s = Head"
  shows "effort c (head c b s) < effort c s"
proof -
  let ?t = "head c b s" and ?E = "so_epochs (sc_options c)" and ?e = "ss_epoch (co_state s)"
  have s: "effort c s = (Suc ?E - ?e) * epoch_effort c + 1" using pc by (simp add: effort_def at_work_def)
  show ?thesis
  proof (cases "at_work (co_pc ?t)")
    case False
    then show ?thesis using s by (simp add: effort_rest)
  next
    case True
    then have e: "?e \<le> ?E" by (auto simp: head_def goto_def at_work_def Let_def split: if_splits)
    have t: "co_pc ?t \<noteq> Head" "ss_epoch (co_state ?t) = ?e"
      using e by (auto simp: head_def co_simps phase_pc_def split: option.splits phase.splits)
    have "pc_effort c ?t \<le> epoch_effort c"
    proof (cases "ss_active (co_state s)")
      case None
      with e True show ?thesis
        by (auto simp: head_def co_simps pc_effort_def epoch_effort_def at_work_def split: if_splits)
    next
      case (Some a)
      with jobs_length [OF ok] pc have "length (ac_jobs a) = job_count c" by (simp add: at_work_def)
      then have "job_effort (goto (Scan 0) (s\<lparr>co_running := [], co_failure := None\<rparr>)) * (job_count c + 5)
          \<le> 2 * job_count c * (job_count c + 5)"
        by (intro fresh_job_effort) (simp_all add: Some goto_def)
      then have "pc_effort c (goto (Scan 0) (s\<lparr>co_running := [], co_failure := None\<rparr>)) \<le> epoch_effort c"
        unfolding pc_effort_def epoch_effort_def Let_def goto_def by (simp add: le_SucI)
      with e Some show ?thesis
        by (cases "ac_phase a") (auto simp: head_def pc_effort_def epoch_effort_def phase_pc_def goto_def Let_def)
    qed
    then have "effort c ?t \<le> (?E - ?e) * epoch_effort c + epoch_effort c"
      using t by (simp add: effort_in_epoch [OF True])
    also have "\<dots> = (Suc ?E - ?e) * epoch_effort c" using e by (simp add: Suc_diff_le)
    finally show ?thesis using s by simp
  qed
qed

lemma commit_effort:
  assumes pc: "co_pc s = Commit"
  shows "effort c (commit_epoch r s) < effort c s"
proof -
  let ?E = "so_epochs (sc_options c)" and ?e = "ss_epoch (co_state s)"
  have s: "effort c s = (?E - ?e) * epoch_effort c + 2" using pc by (simp add: effort_def at_work_def pc_effort_def)
  have "effort c (commit_epoch r s) \<le> (?E - ?e) * epoch_effort c + 1"
    by (auto simp: commit_epoch_def co_simps effort_def at_work_def committed_def split: sum.splits)
  with s show ?thesis by simp
qed

lemma prepare_effort:
  assumes ok: "search_ok c s" and pc: "co_pc s = Prepare"
  shows "effort c (prepare_epoch r s) < effort c s"
proof -
  from ok pc obtain a where a: "ss_active (co_state s) = Some a" and r: "co_running s = []"
    by (auto simp: search_ok_work at_work_def pc_ok_def in_phase_def in_jobs_def)
  have len: "length (ac_jobs a) = job_count c" using jobs_length [OF ok _ a] pc by (simp add: at_work_def)
  have "job_effort t * (job_count c + 5) \<le> 2 * job_count c * (job_count c + 5)"
    if "co_running t = []" "co_jobs t = ac_jobs a" for t
    using that len by (intro fresh_job_effort) simp_all
  from this [of "prepare_epoch (Inr ()) s"] show ?thesis using a r
    by (intro effort_same_epoch; cases r) (auto simp: pc prepare_epoch_def co_simps at_work_def pc_effort_def less_Suc_eq_le)
qed

lemma scan_effort:
  assumes ok: "search_ok c s" and pc: "co_pc s = Scan i"
  shows "effort c (scan_job (sc_options c) b i s) < effort c s"
proof -
  from ok pc obtain a where a: "ss_active (co_state s) = Some a" and i: "i \<le> length (ac_jobs a)"
    by (auto simp: search_ok_work at_work_def pc_ok_def in_phase_def)
  have len: "length (ac_jobs a) = job_count c" using jobs_length [OF ok _ a] pc by (simp add: at_work_def)
  let ?t = "scan_job (sc_options c) b i s"
  have "co_pc ?t = Waiting \<and> job_effort ?t = job_effort s \<or>
      i < job_count c \<and> co_pc ?t = Scan (Suc i) \<and> job_effort ?t \<le> job_effort s"
  proof (cases "length (co_jobs s) \<le> i \<or> co_failure s \<noteq> None \<or> length (co_running s) \<ge> so_parallel (sc_options c)")
    case True
    then show ?thesis by (simp add: scan_job_def goto_def job_effort_def waiting_jobs_def)
  next
    case False
    then have j: "i < length (ac_jobs a)" "co_failure s = None" using a by auto
    have d: "job_effort (goto (Scan (Suc i)) (dispatch i s)) \<le> job_effort s"
      if "jb_trajectory (co_jobs s ! i) \<notin> set (busy s)" "jb_status (co_jobs s ! i) \<noteq> JCompleted"
    proof -
      have "i \<notin> set (co_running s)" using that(1) by (auto simp: busy_def)
      from dispatch_effort [OF _ this that(2) j(2) a, of "Scan (Suc i)"] j a show ?thesis by simp
    qed
    have g: "job_effort (goto p s) = job_effort s" for p by (simp add: goto_def job_effort_def waiting_jobs_def)
    show ?thesis using False j len d g by (auto simp: scan_job_def Let_def goto_def)
  qed
  moreover have "ss_epoch (co_state ?t) = ss_epoch (co_state s)"
    by (simp add: scan_job_def dispatch_def co_simps)
  moreover have "pc_effort c ?t < pc_effort c s" if "co_pc ?t = Scan (Suc i)" "i < job_count c" "job_effort ?t \<le> job_effort s"
  proof -
    have "job_effort ?t * (job_count c + 5) \<le> job_effort s * (job_count c + 5)" using that(3) by (rule mult_le_mono1)
    moreover have "job_count c + 5 - Suc i < job_count c + 5 - i" using that(2) by simp
    ultimately show ?thesis unfolding pc_effort_def Let_def pc that(1) pc.case by (rule add_le_less_mono)
  qed
  ultimately show ?thesis using i len pc pc_effort_pos [OF ok]
    by (intro effort_same_epoch) (auto simp: pc_effort_def at_work_def Let_def)
qed

lemma finish_job_effort:
  assumes ok: "search_ok c s" and pc: "co_pc s = Waiting \<or> co_pc s = Draining" and i: "i \<in> set (co_running s)"
  shows "effort c (finish_job i out s) < effort c s"
proof -
  have inj: "in_jobs (co_pc s)" using pc by (auto simp: in_jobs_def)
  from jobs_phaseE [OF ok inj] obtain a where a: "ss_active (co_state s) = Some a" "running_ok c s" by metis
  let ?t = "finish_job i out s"
  have t: "co_pc ?t = Draining \<or> \<not> at_work (co_pc ?t)" "ss_epoch (co_state ?t) = ss_epoch (co_state s)"
    by (auto simp: finish_job_def Let_def co_simps interrupt_def remember_def at_work_def split: sum.splits pyval.splits)
  have less: "job_effort ?t < job_effort s" if "at_work (co_pc ?t)"
    using finish_effort [OF i _ _ a(1) that] i a by (auto simp: running_ok_def)
  have "job_effort ?t * (job_count c + 5) + (job_count c + 5) \<le> job_effort s * (job_count c + 5)" if "at_work (co_pc ?t)"
    using less [OF that] by (rule job_effort_mono)
  with less t pc show ?thesis
    by (intro effort_same_epoch) (auto simp: pc_effort_def at_work_def Let_def)
qed

lemma work_step_effort:
  assumes ok: "search_ok c s" and step: "work_step c s t"
  shows "effort c t < effort c s"
  using step
proof (cases rule: work_step.cases)
  case idle
  then show ?thesis
    by (intro effort_same_epoch)
      (auto simp: jobs_done_def interrupt_def co_simps at_work_def pc_effort_def split: option.splits sum.splits)
next
  case rescan
  then show ?thesis
    by (intro effort_same_epoch) (auto simp: goto_def at_work_def pc_effort_def job_effort_def waiting_jobs_def Let_def)
next
  case (interrupted e)
  then show ?thesis
    by (intro effort_same_epoch)
      (use pc_effort_pos [OF ok] in \<open>auto simp: interrupt_def co_simps at_work_def in_jobs_def split: pc.splits\<close>)
next
  case (published r)
  then show ?thesis
    by (intro effort_same_epoch; cases r) (auto simp: publish_epoch_def co_simps at_work_def pc_effort_def)
qed (use ok head_effort prepare_effort scan_effort finish_job_effort commit_effort in auto)

lemma job_effort_bound:
  assumes "running_ok c s"
  shows "job_effort s \<le> 2 * length (co_jobs s)"
proof -
  let ?r = "set (co_running s)"
  have "waiting_jobs s \<union> ?r \<subseteq> {..<length (co_jobs s)}" "waiting_jobs s \<inter> ?r = {}"
    using assms by (auto simp: running_ok_def waiting_jobs_def)
  then have "card (waiting_jobs s) + card ?r \<le> length (co_jobs s)"
    by (metis card_Un_disjoint card_lessThan card_mono finite_lessThan finite_set finite_waiting)
  moreover have "card ?r = length (co_running s)" using assms by (simp add: running_ok_def distinct_card)
  ultimately show ?thesis by (simp add: job_effort_def)
qed

lemma effort_bound:
  assumes ok: "search_ok c s"
  shows "effort c s \<le> so_epochs (sc_options c) * epoch_effort c + 1 + epoch_effort c"
proof (cases "at_work (co_pc s) \<and> co_pc s \<noteq> Head")
  case True
  have "pc_effort c s \<le> epoch_effort c"
  proof (cases "in_jobs (co_pc s)")
    case inj: True
    from jobs_phaseE [OF ok inj] obtain a where a: "ss_active (co_state s) = Some a" "running_ok c s" by metis
    from jobs_length [OF ok _ a(1)] True job_effort_bound [OF a(2)] a(1)
    have "job_effort s \<le> 2 * job_count c" by simp
    then have "job_effort s * (job_count c + 5) \<le> 2 * job_count c * (job_count c + 5)" by (rule mult_le_mono1)
    moreover have "pc_effort c s \<le> job_effort s * (job_count c + 5) + job_count c + 6"
      using inj by (auto simp: pc_effort_def Let_def in_jobs_def split: pc.splits)
    ultimately show ?thesis unfolding epoch_effort_def by linarith
  next
    case False
    with True show ?thesis
      by (auto simp: pc_effort_def Let_def in_jobs_def at_work_def epoch_effort_def split: pc.splits)
  qed
  moreover have "(so_epochs (sc_options c) - ss_epoch (co_state s)) * epoch_effort c \<le> so_epochs (sc_options c) * epoch_effort c"
    by (rule mult_le_mono1) simp
  ultimately have "effort c s \<le> so_epochs (sc_options c) * epoch_effort c + epoch_effort c"
    using True by (simp add: effort_in_epoch add_mono)
  then show ?thesis by simp
next
  case False
  have "(Suc (so_epochs (sc_options c)) - ss_epoch (co_state s)) * epoch_effort c \<le> Suc (so_epochs (sc_options c)) * epoch_effort c"
    by (rule mult_le_mono1) simp
  with False show ?thesis by (auto simp: effort_def)
qed

lemma search_progress:
  assumes ok: "search_ok c s" and w: "at_work (co_pc s)"
  shows "\<exists>t. work_step c s t"
proof (cases "co_pc s = Waiting \<and> co_running s \<noteq> []")
  case True
  then obtain i where "i \<in> set (co_running s)" by (cases "co_running s") auto
  with True show ?thesis by (blast intro: finished)
next
  case False
  have b: "budget_answer c False" by (simp add: budget_answer_def)
  from False w b show ?thesis
    by (cases "co_pc s") (auto simp: at_work_def intro: work_step.intros)
qed

section \<open>Finished work is never redone\<close>

definition done_in :: "search_state \<Rightarrow> nat \<Rightarrow> nat \<Rightarrow> nat \<Rightarrow> bool" where
  \<comment> \<open>the state has the result of this episode, or is past its epoch\<close>
  "done_in st e t n =
     (e < ss_epoch st \<or>
      (case ss_active st of
         None \<Rightarrow> False
       | Some a \<Rightarrow> \<exists>j \<in> set (ac_jobs a). jb_status j = JCompleted \<and> jb_epoch j = e \<and> job_identity j = (t, n)))"

lemma done_in_iff:
  "done_in st e t n \<longleftrightarrow> e < ss_epoch st \<or>
     (\<exists>a. ss_active st = Some a \<and> (\<exists>j \<in> set (ac_jobs a). jb_status j = JCompleted \<and> jb_epoch j = e \<and> job_identity j = (t, n)))"
  by (simp add: done_in_def split: option.splits)

definition recorded :: "coordinator \<Rightarrow> nat \<Rightarrow> nat \<Rightarrow> nat \<Rightarrow> bool" where
  "recorded s e t n = (case co_disk s of Stored st \<Rightarrow> done_in st e t n | _ \<Rightarrow> False)"

definition starts :: "coordinator \<Rightarrow> nat \<Rightarrow> nat \<Rightarrow> nat \<Rightarrow> nat" where
  "starts s e t n = length (filter (\<lambda>x. x = Started e t n) (co_calls s))"

lemma done_in_put:
  assumes "ss_active st = Some a" "i < length (ac_jobs a)" "jb_status (ac_jobs a ! i) \<noteq> JCompleted" "done_in st e t n"
  shows "done_in (st\<lparr>ss_active := Some (a\<lparr>ac_jobs := (ac_jobs a)[i := j]\<rparr>)\<rparr>) e t n"
proof (cases "e < ss_epoch st")
  case False
  with assms obtain k where k: "k < length (ac_jobs a)" "jb_status (ac_jobs a ! k) = JCompleted"
    "jb_epoch (ac_jobs a ! k) = e" "job_identity (ac_jobs a ! k) = (t, n)"
    by (auto simp: done_in_iff in_set_conv_nth)
  then have "k \<noteq> i" using assms(3) by auto
  then have "(ac_jobs a)[i := j] ! k = ac_jobs a ! k" by simp
  with k have "ac_jobs a ! k \<in> set ((ac_jobs a)[i := j])" by (metis length_list_update nth_mem)
  with k show ?thesis by (auto simp: done_in_iff)
qed (simp add: done_in_iff)

lemma dispatch_once:
  assumes ok: "jobs_ok opts (ss_epoch st) (ac_jobs a)" and a: "ss_active st = Some a" and i: "i < length (ac_jobs a)"
    and st: "jb_status (ac_jobs a ! i) \<noteq> JCompleted" and d: "done_in st e t n"
  shows "Started (jb_epoch (ac_jobs a ! i)) (jb_trajectory (ac_jobs a ! i)) (jb_episode (ac_jobs a ! i)) \<noteq> Started e t n"
proof
  assume same: "Started (jb_epoch (ac_jobs a ! i)) (jb_trajectory (ac_jobs a ! i)) (jb_episode (ac_jobs a ! i)) = Started e t n"
  then have "e = ss_epoch st" using jobs_okD(2) [OF ok i] by simp
  with d a obtain k where k: "k < length (ac_jobs a)" "jb_status (ac_jobs a ! k) = JCompleted" "job_identity (ac_jobs a ! k) = (t, n)"
    by (auto simp: done_in_iff in_set_conv_nth)
  from same k(3) have "job_identity (ac_jobs a ! i) = job_identity (ac_jobs a ! k)" by (simp add: job_identity_def)
  with jobs_okD(3) [OF ok] i k(1) have "i = k" by (auto simp: distinct_conv_nth)
  with st k(2) show False by simp
qed

lemma work_step_recorded:
  assumes ok: "search_ok c s" and step: "work_step c s u" and rec: "recorded s e t n"
  shows "recorded u e t n \<and> starts u e t n = starts s e t n"
proof -
  have w: "at_work (co_pc s)" using step by (cases rule: work_step.cases) (auto simp: at_work_def in_jobs_def split: pc.splits)
  with ok have disk: "co_disk s = Stored (co_state s)" and so: "state_ok c (co_state s)" by (auto simp: search_ok_work)
  from rec disk have d: "done_in (co_state s) e t n" by (simp add: recorded_def)
  have same: ?thesis if "co_disk u = Stored st" "done_in st e t n" "starts u e t n = starts s e t n" for st
    using that by (simp add: recorded_def)
  from step show ?thesis
  proof (cases rule: work_step.cases)
    case (at_head b)
    have "ss_active (co_state s) = None \<Longrightarrow> done_in ((co_state s)\<lparr>ss_active := x\<rparr>) e t n" for x
      using d by (auto simp: done_in_iff)
    with d disk show ?thesis unfolding at_head(1)
      by (auto simp: head_def co_simps recorded_def starts_def split: option.splits)
  next
    case (prepared r)
    with ok obtain a where a: "ss_active (co_state s) = Some a"
      by (auto simp: search_ok_work at_work_def pc_ok_def in_phase_def)
    with d have "done_in ((co_state s)\<lparr>ss_active := Some (a\<lparr>ac_phase := Running\<rparr>)\<rparr>) e t n" by (auto simp: done_in_iff)
    with d disk a show ?thesis unfolding prepared(1)
      by (cases r) (auto simp: prepare_epoch_def co_simps recorded_def starts_def)
  next
    case (scanned i b)
    then have inj: "in_jobs (co_pc s)" by (simp add: in_jobs_def)
    from jobs_phaseE [OF ok inj] obtain a where a: "ss_active (co_state s) = Some a"
      "jobs_ok (sc_options c) (ss_epoch (co_state s)) (ac_jobs a)" by metis
    have "recorded (dispatch i s) e t n \<and> starts (dispatch i s) e t n = starts s e t n"
      if i: "i < length (ac_jobs a)" "jb_status (ac_jobs a ! i) \<noteq> JCompleted"
      using done_in_put [OF a(1) i d] dispatch_once [OF a(2,1) i d] a(1)
      by (simp add: dispatch_def co_simps recorded_def starts_def)
    then have "recorded (goto p (dispatch i s)) e t n \<and> starts (goto p (dispatch i s)) e t n = starts s e t n"
      if "i < length (ac_jobs a)" "jb_status (ac_jobs a ! i) \<noteq> JCompleted" for p
      using that by (simp add: goto_def recorded_def starts_def)
    with d disk a(1) show ?thesis unfolding scanned(1)
      by (auto simp: scan_job_def goto_def recorded_def starts_def Let_def)
  next
    case idle
    have "done_in ((co_state s)\<lparr>ss_active := Some (a\<lparr>ac_winner := x, ac_phase := y\<rparr>)\<rparr>) e t n"
      if "ss_active (co_state s) = Some a" for a x y using d that by (auto simp: done_in_iff)
    moreover from ok idle(2) obtain a where "ss_active (co_state s) = Some a"
      by (auto simp: search_ok_work at_work_def pc_ok_def in_phase_def)
    ultimately show ?thesis unfolding idle(1) using d disk
      by (auto simp: jobs_done_def interrupt_def co_simps recorded_def starts_def split: option.splits sum.splits)
  next
    case (finished i out)
    then have inj: "in_jobs (co_pc s)" by (auto simp: in_jobs_def)
    from jobs_phaseE [OF ok inj] obtain a where a: "ss_active (co_state s) = Some a" "running_ok c s" by metis
    with finished(3) have i: "i < length (ac_jobs a)" "jb_status (ac_jobs a ! i) \<noteq> JCompleted" by (auto simp: running_ok_def)
    with done_in_put [OF a(1) i d] a(1) d disk show ?thesis unfolding finished(1)
      by (auto simp: finish_job_def interrupt_def remember_def co_simps recorded_def starts_def split: sum.splits pyval.splits)
  next
    case (committed r)
    with ok obtain a where a: "ss_active (co_state s) = Some a"
      by (auto simp: search_ok_work at_work_def pc_ok_def in_phase_def)
    with so have "jobs_ok (sc_options c) (ss_epoch (co_state s)) (ac_jobs a)" by (auto simp: state_ok_def active_ok_def)
    then have "j \<in> set (ac_jobs a) \<Longrightarrow> jb_epoch j = ss_epoch (co_state s)" for j
      using jobs_okD(2) by (metis in_set_conv_nth)
    with d a have "e < Suc (ss_epoch (co_state s))" by (auto simp: done_in_iff)
    then have "done_in (Search.committed x y (co_state s)) e t n" for x y by (simp add: done_in_iff committed_def Let_def)
    with d disk show ?thesis unfolding committed(1)
      by (auto simp: commit_epoch_def co_simps recorded_def starts_def split: sum.splits)
  qed (use d disk in \<open>auto simp: publish_epoch_def interrupt_def co_simps recorded_def starts_def split: sum.splits\<close>)
qed

lemma search_step_recorded:
  assumes ok: "search_ok c s" and step: "search_step c s u" and rec: "recorded s e t n"
  shows "recorded u e t n \<and> starts u e t n = starts s e t n"
  using step
proof (cases rule: search_step.cases)
  case worked
  then show ?thesis using work_step_recorded [OF ok _ rec] by simp
next
  case (launched seed ready)
  then show ?thesis using rec
    by (auto simp: launch_def enter_run_def goto_def recorded_def starts_def split: checkpoint.splits sum.splits)
next
  case ended
  then show ?thesis using rec by (simp add: lost_def goto_def recorded_def starts_def)
qed

section \<open>Properties\<close>

definition sample_kernel :: "int \<Rightarrow> pyval" where
  "sample_kernel us = VDict [(''latency_us_geomean'', VInt us)]"

definition sample_search :: search_config where
  "sample_search = \<lparr>sc_options = \<lparr>so_epochs = 1, so_trajectories = 2, so_per = 1, so_parallel = 2\<rparr>,
     sc_binding = ''b'', sc_budget = 0\<rparr>"

definition sample_episode :: "int \<Rightarrow> pyval \<Rightarrow> exn + pyval" where
  "sample_episode trajectory kept = Inr (VDict
     [(''epoch'', VInt 1), (''trajectory'', VInt trajectory), (''episode'', VInt 1), (''retained_kernel'', kept)])"

definition sample_start :: coordinator where
  "sample_start = \<lparr>co_pc = Stopped, co_state = fresh_state sample_search VNull, co_disk = Absent, co_running = [],
     co_failure = None, co_calls = []\<rparr>"

definition sample_begun :: coordinator where
  "sample_begun = prepare_epoch (Inr ()) (head sample_search False (launch sample_search (Inr (sample_kernel 100)) (Inr ()) sample_start))"

definition sample_busy :: coordinator where
  \<comment> \<open>both trajectories run, and the list of jobs is scanned\<close>
  "sample_busy = (let opts = sc_options sample_search in
     scan_job opts False 2 (scan_job opts False 1 (scan_job opts False 0 sample_begun)))"

definition sample_back :: coordinator where
  \<comment> \<open>the second trajectory ended first, with a faster kernel\<close>
  "sample_back = finish_job 1 (sample_episode 2 (sample_kernel 80)) sample_busy"

definition sample_published :: coordinator where
  "sample_published = (let opts = sc_options sample_search in
     jobs_done (scan_job opts False 2 (scan_job opts False 1 (scan_job opts False 0
       (goto (Scan 0) (finish_job 0 (sample_episode 1 VNull) sample_back))))))"

definition sample_finished :: coordinator where
  "sample_finished = head sample_search False (commit_epoch (Inr []) (publish_epoch (Inr ()) sample_published))"

lemmas sample_walk = reachable.step [OF _ worked] reachable.step [OF _ launched]

lemma sample_answer: "budget_answer c False"
  by (simp add: budget_answer_def)

lemma sample_launched: "reachable sample_search (launch sample_search (Inr (sample_kernel 100)) (Inr ()) sample_start)"
  by (rule sample_walk(2) [OF reachable.start]) (simp_all add: initial_def sample_start_def)

lemma sample_begun: "reachable sample_search sample_begun"
  unfolding sample_begun_def
  by (rule sample_walk(1) [OF sample_walk(1) [OF sample_launched at_head [OF _ sample_answer]] prepared]) code_simp+

lemma sample_busy: "reachable sample_search sample_busy"
  unfolding sample_busy_def Let_def
  by (rule sample_walk(1) [OF sample_walk(1) [OF sample_walk(1) [OF sample_begun scanned [OF _ sample_answer]]
        scanned [OF _ sample_answer]] scanned [OF _ sample_answer]]) code_simp+

lemma sample_back: "reachable sample_search sample_back"
  unfolding sample_back_def by (rule sample_walk(1) [OF sample_busy finished]) code_simp+

lemma sample_published: "reachable sample_search sample_published"
  unfolding sample_published_def Let_def
  by (rule sample_walk(1) [OF sample_walk(1) [OF sample_walk(1) [OF sample_walk(1) [OF sample_walk(1)
        [OF sample_walk(1) [OF sample_back finished] rescan]
        scanned [OF _ sample_answer]] scanned [OF _ sample_answer]] scanned [OF _ sample_answer]] idle]) code_simp+

lemma sample_finished: "reachable sample_search sample_finished"
  unfolding sample_finished_def
  by (rule sample_walk(1) [OF sample_walk(1) [OF sample_walk(1) [OF sample_published published] committed]
        at_head [OF _ sample_answer]]) code_simp+

text \<open>
  While the jobs of an epoch run, at most the configured number of episodes runs, at most one per
  trajectory, each is marked as running in the checkpoint on disk before it runs, and every earlier
  episode of its trajectory is completed there, in whatever order the episodes end and wherever the
  process was lost and restarted before.
\<close>

theorem admission_bounded:
  assumes "reachable c s" and "in_jobs (co_pc s)"
  shows "length (co_running s) \<le> so_parallel (sc_options c) \<and> distinct (busy s) \<and>
    (\<exists>st a. co_disk s = Stored st \<and> ss_active st = Some a \<and>
       (\<forall>i \<in> set (co_running s). i < length (ac_jobs a) \<and> jb_status (ac_jobs a ! i) = JRunning \<and>
          \<not> blocked (ac_jobs a) (ac_jobs a ! i)))"
proof -
  from jobs_phaseE [OF reachable_ok [OF assms(1)] assms(2)] obtain a where
    a: "co_disk s = Stored (co_state s)" "ss_active (co_state s) = Some a"
      "jobs_ok (sc_options c) (ss_epoch (co_state s)) (ac_jobs a)" "running_ok c s" by metis
  then have "\<not> blocked (ac_jobs a) (ac_jobs a ! i)" if "i \<in> set (co_running s)" for i
    using that by (auto simp: jobs_ok_def running_ok_def)
  with a show ?thesis by (auto simp: running_ok_def)
qed

theorem admission_bounded_witness:
  "length (co_running sample_busy) \<le> 2 \<and> distinct (busy sample_busy) \<and> co_running sample_busy = [0, 1]"
proof -
  have "in_jobs (co_pc sample_busy)" "co_running sample_busy = [0, 1]" by code_simp+
  with admission_bounded [OF sample_busy this(1)] show ?thesis by (simp add: sample_search_def)
qed

text \<open>
  C33: Across crashes and restarts, an epoch is never broadcast with two different kernels, a later
  epoch never broadcasts a slower kernel than an earlier one, none is slower than the bootstrap
  kernel, and every epoch counted as completed has been broadcast.
\<close>

theorem broadcasts_improve:
  assumes "reachable c s" and "co_disk s = Stored st"
  shows "(\<forall>e k e' k'. Published e k \<in> set (co_calls s) \<and> Published e' k' \<in> set (co_calls s) \<longrightarrow>
      (e = e' \<longrightarrow> k = k') \<and> (e \<le> e' \<longrightarrow> lat k' \<le> lat k) \<and> lat k \<le> lat (ss_bootstrap st)) \<and>
    (\<forall>e. 1 \<le> e \<and> e \<le> ss_completed st \<longrightarrow> (\<exists>k. Published e k \<in> set (co_calls s)))"
proof -
  from reachable_ok [OF assms(1)] assms(2) have so: "state_ok c st" and h: "history_ok st (co_calls s)"
    by (auto simp: search_ok_def disk_ok_def)
  from so have e: "ss_epoch st = Suc (ss_completed st)" by (simp add: state_ok_def)
  from h show ?thesis unfolding history_ok_def e by (metis less_Suc_eq_le)
qed

theorem broadcasts_improve_witness:
  "\<exists>st. co_disk sample_finished = Stored st \<and> ss_completed st = 1 \<and> (\<exists>k. Published 1 k \<in> set (co_calls sample_finished))"
proof -
  have "case co_disk sample_finished of Stored st \<Rightarrow> ss_completed st = 1 | _ \<Rightarrow> False" by code_simp
  then obtain st where st: "co_disk sample_finished = Stored st" "ss_completed st = 1"
    by (cases "co_disk sample_finished") auto
  with broadcasts_improve [OF sample_finished st(1)] show ?thesis by auto
qed

text \<open>
  C28: A broadcast is never partial: when an epoch is about to be published, every one of its jobs is
  completed in the checkpoint with a result for exactly that epoch, trajectory and episode, and the
  winner is the seed or a retained kernel and no slower than any of them.
\<close>

theorem no_partial_broadcast:
  assumes "reachable c s" and "co_pc s = Publish"
  shows "\<exists>st a k. co_disk s = Stored st \<and> ss_active st = Some a \<and> ac_winner a = Some k \<and>
    map plan (ac_jobs a) = epoch_jobs (sc_options c) (ss_epoch st) \<and>
    (\<forall>j \<in> set (ac_jobs a). jb_status j = JCompleted \<and> (\<exists>r. jb_result j = Some r \<and> same_identity r j)) \<and>
    k \<in> set (ss_seed st # retained a) \<and> (\<forall>x \<in> set (ss_seed st # retained a). lat k \<le> lat x)"
proof -
  from reachable_ok [OF assms(1)] assms(2)
  have d: "co_disk s = Stored (co_state s)" "state_ok c (co_state s)" and p: "in_phase Publishing s"
    by (simp_all add: search_ok_work at_work_def pc_ok_def)
  from p obtain a where a: "ss_active (co_state s) = Some a" "ac_phase a = Publishing" by (auto simp: in_phase_def)
  with d(2) have ao: "active_ok c (co_state s) a" by (auto simp: state_ok_def)
  with a obtain k where k: "ac_winner a = Some k" "pick_winner a = Inr k" by (auto simp: active_ok_def)
  from pick_winner_least [OF k(2)] ao a d k show ?thesis
    by (force simp: active_ok_def jobs_ok_def)
qed

theorem no_partial_broadcast_witness:
  "co_pc sample_published = Publish \<and> (\<exists>st a. co_disk sample_published = Stored st \<and> ss_active st = Some a \<and>
     ac_winner a \<noteq> None \<and> list_all (\<lambda>j. jb_status j = JCompleted) (ac_jobs a))"
proof -
  have p: "co_pc sample_published = Publish" by code_simp
  from no_partial_broadcast [OF sample_published p] show ?thesis using p by (auto simp: list_all_iff)
qed

text \<open>
  A finished episode is never run again: once the checkpoint has its result, every later state,
  after any number of steps, crashes and restarts, still has it (or is past its epoch), and the driver
  is not asked for it again.
\<close>

theorem finished_once:
  assumes "reachable c s" and "recorded s e t n" and "(search_step c)\<^sup>*\<^sup>* s u"
  shows "recorded u e t n \<and> starts u e t n = starts s e t n"
proof -
  from assms(3) have "search_ok c u \<and> recorded u e t n \<and> starts u e t n = starts s e t n"
  proof (induction rule: rtranclp_induct)
    case base
    then show ?case using assms(1,2) reachable_ok by blast
  next
    case (step u v)
    with search_step_ok search_step_recorded show ?case by metis
  qed
  then show ?thesis by blast
qed

theorem finished_once_witness:
  "recorded sample_back 1 2 1 \<and> starts (lost sample_back) 1 2 1 = 1 \<and> recorded (lost sample_back) 1 2 1"
proof -
  have r: "recorded sample_back 1 2 1" "starts sample_back 1 2 1 = 1" by code_simp+
  have "(search_step sample_search)\<^sup>*\<^sup>* sample_back (lost sample_back)" by (rule r_into_rtranclp) (rule ended)
  from finished_once [OF sample_back r(1) this] r show ?thesis by simp
qed

text \<open>
  C30: Every process of the search ends: whatever the driver answers and in whatever order episodes
  end, a launched coordinator makes at most a number of steps fixed by its options, is never stuck
  before it has returned or raised, and so returns or raises.
\<close>

theorem search_ends:
  assumes "reachable c s" and "(work_step c ^^ n) s t"
  shows "n \<le> so_epochs (sc_options c) * epoch_effort c + 1 + epoch_effort c \<and> (at_work (co_pc t) \<longrightarrow> (\<exists>u. work_step c t u))"
proof -
  have "search_ok c t \<and> effort c t + n \<le> effort c s"
    using assms(2)
  proof (induction n arbitrary: t)
    case 0
    then show ?case using reachable_ok [OF assms(1)] by simp
  next
    case (Suc n)
    then obtain v where v: "(work_step c ^^ n) s v" "work_step c v t" by auto
    with Suc.IH have "search_ok c v" "effort c v + n \<le> effort c s" by auto
    with v(2) work_step_effort search_step_ok [OF worked] show ?case by fastforce
  qed
  moreover have "effort c s \<le> so_epochs (sc_options c) * epoch_effort c + 1 + epoch_effort c"
    by (rule effort_bound [OF reachable_ok [OF assms(1)]])
  ultimately show ?thesis using search_progress by auto
qed

theorem search_ends_witness:
  "\<exists>n u. (work_step sample_search ^^ n) sample_busy u \<and> n = 1 \<and> n \<le> 2 * epoch_effort sample_search + 1"
proof -
  have "work_step sample_search sample_busy sample_back"
    unfolding sample_back_def by (rule finished) code_simp+
  then have "(work_step sample_search ^^ 1) sample_busy sample_back" by (simp only: relpowp_1)
  with search_ends [OF sample_busy this] show ?thesis by (auto simp: sample_search_def)
qed

end
