(* ===== verification/TokenUsage.thy ===== *)
theory TokenUsage
  imports Errors
begin

text \<open>
  Token accounting of agent sessions: \<open>TokenUsage\<close> and the normalized events of
  src/src/aka/contracts/agent.py.  Counts are Python integers or \<open>None\<close>; nothing in the code keeps
  them from being negative.  The collection \<open>usage_simps\<close> unfolds a usage into its components.
\<close>

named_theorems usage_simps \<open>usages by component\<close>

section \<open>Usages\<close>

datatype measurement = Exact | Partial | Unavailable

record token_usage =
  tu_input :: "int option"
  tu_output :: "int option"
  tu_cache_read :: "int option"
  tu_cache_write :: "int option"
  tu_total :: "int option"
  tu_measurement :: measurement

definition unavailable :: token_usage where
  "unavailable = \<lparr>tu_input = None, tu_output = None, tu_cache_read = None, tu_cache_write = None,
     tu_total = None, tu_measurement = Unavailable\<rparr>"

definition zero_usage :: token_usage where
  "zero_usage = \<lparr>tu_input = Some 0, tu_output = Some 0, tu_cache_read = Some 0, tu_cache_write = Some 0,
     tu_total = Some 0, tu_measurement = Exact\<rparr>"

definition components :: "(token_usage \<Rightarrow> int option) list" where
  "components = [tu_input, tu_output, tu_cache_read, tu_cache_write, tu_total]"

definition observed_usage :: "token_usage \<Rightarrow> bool" where
  "observed_usage u = (tu_total u \<noteq> None)"

definition sum_component :: "(token_usage \<Rightarrow> int option) \<Rightarrow> token_usage list \<Rightarrow> int option" where
  "sum_component f us = (if list_all (\<lambda>u. f u \<noteq> None) us then Some (sum_list (map (\<lambda>u. the (f u)) us)) else None)"

definition sum_token_usages :: "token_usage list \<Rightarrow> token_usage" where
  "sum_token_usages us =
     (let seen = filter observed_usage us in
      if seen = [] then unavailable
      else \<lparr>tu_input = sum_component tu_input seen, tu_output = sum_component tu_output seen,
            tu_cache_read = sum_component tu_cache_read seen, tu_cache_write = sum_component tu_cache_write seen,
            tu_total = Some (sum_list (map (\<lambda>u. case tu_total u of None \<Rightarrow> 0 | Some n \<Rightarrow> n) seen)),
            tu_measurement = (if length seen = length us \<and> list_all (\<lambda>u. tu_measurement u = Exact) seen
                              then Exact else Partial)\<rparr>)"

definition component_exceeds :: "int option \<Rightarrow> int option \<Rightarrow> bool" where
  "component_exceeds x y = (case (x, y) of (Some m, Some n) \<Rightarrow> m > n | _ \<Rightarrow> False)"

definition token_usage_exceeds :: "token_usage \<Rightarrow> token_usage \<Rightarrow> bool" where
  "token_usage_exceeds seen terminal = list_ex (\<lambda>f. component_exceeds (f seen) (f terminal)) components"

definition subtract_component :: "int option \<Rightarrow> int option \<Rightarrow> int option" where
  "subtract_component x y = (case (x, y) of (Some m, Some n) \<Rightarrow> Some (m - n) | _ \<Rightarrow> None)"

definition subtract_token_usage :: "token_usage \<Rightarrow> token_usage \<Rightarrow> exn + token_usage" where
  "subtract_token_usage whole part =
     (if token_usage_exceeds part whole then Inl (ValueError (Msg ''token usage part exceeds total''))
      else Inr \<lparr>tu_input = subtract_component (tu_input whole) (tu_input part),
                tu_output = subtract_component (tu_output whole) (tu_output part),
                tu_cache_read = subtract_component (tu_cache_read whole) (tu_cache_read part),
                tu_cache_write = subtract_component (tu_cache_write whole) (tu_cache_write part),
                tu_total = subtract_component (tu_total whole) (tu_total part),
                tu_measurement = (if tu_measurement whole = Exact \<and> tu_measurement part = Exact then Exact else Partial)\<rparr>)"

section \<open>Events\<close>

datatype event_kind = UsageDelta | TerminalUsage | PhaseMarker

record agent_event =
  ae_sequence :: nat
  ae_kind :: event_kind
  ae_usage :: "token_usage option"
  ae_phase :: "string option"
  ae_action :: "string option"
  ae_marker :: "string option"

definition resequence_agent_events :: "agent_event list \<Rightarrow> agent_event list" where
  "resequence_agent_events es = map (\<lambda>(i, e). e\<lparr>ae_sequence := i\<rparr>) (enumerate 0 es)"

record capabilities =
  ca_terminal :: bool
  ca_delta :: bool
  ca_marker :: bool
  ca_delta_observed :: bool

section \<open>Sums of usages\<close>

lemma sum_component_append [usage_simps]:
  "sum_component f (us @ vs) =
     (case (sum_component f us, sum_component f vs) of (Some m, Some n) \<Rightarrow> Some (m + n) | _ \<Rightarrow> None)"
  by (auto simp: sum_component_def)

lemma sum_component_simps [usage_simps]:
  "sum_component f [] = Some 0"
  "sum_component f (u # us) = (case (f u, sum_component f us) of (Some m, Some n) \<Rightarrow> Some (m + n) | _ \<Rightarrow> None)"
  by (auto simp: sum_component_def split: option.splits)

lemma observed_total: "list_all observed_usage us \<Longrightarrow>
    Some (sum_list (map (\<lambda>u. case tu_total u of None \<Rightarrow> 0 | Some n \<Rightarrow> n) us)) = sum_component tu_total us"
proof (induction us)
  case (Cons u us)
  then show ?case by (auto simp: sum_component_simps observed_usage_def simp flip: Cons.IH)
qed (simp add: sum_component_simps)

lemma sum_token_usages_cases:
  "sum_token_usages us =
     (let seen = filter observed_usage us in
      if seen = [] then unavailable
      else \<lparr>tu_input = sum_component tu_input seen, tu_output = sum_component tu_output seen,
            tu_cache_read = sum_component tu_cache_read seen, tu_cache_write = sum_component tu_cache_write seen,
            tu_total = sum_component tu_total seen,
            tu_measurement = (if list_all (\<lambda>u. observed_usage u \<and> tu_measurement u = Exact) us then Exact else Partial)\<rparr>)"
proof -
  have "length (filter observed_usage us) = length us \<longleftrightarrow> list_all observed_usage us"
    by (metis filter_True filter_id_conv length_filter_less list_all_iff nat_neq_iff)
  then have "(length (filter observed_usage us) = length us \<and> list_all (\<lambda>u. tu_measurement u = Exact) (filter observed_usage us)) =
      list_all (\<lambda>u. observed_usage u \<and> tu_measurement u = Exact) us"
    by (auto simp: list_all_iff)
  then show ?thesis
    by (simp add: sum_token_usages_def Let_def observed_total [symmetric] list_all_iff)
qed

lemma sum_observed: "observed_usage (sum_token_usages us) \<longleftrightarrow> filter observed_usage us \<noteq> []"
  by (auto simp: sum_token_usages_def Let_def observed_usage_def unavailable_def)

lemma sum_measurement:
  assumes "us \<noteq> []"
  shows "observed_usage (sum_token_usages us) \<and> tu_measurement (sum_token_usages us) = Exact \<longleftrightarrow>
     list_all (\<lambda>u. observed_usage u \<and> tu_measurement u = Exact) us"
proof (cases "filter observed_usage us = []")
  case True
  then show ?thesis using assms by (cases us) (auto simp: sum_observed filter_empty_conv)
next
  case False
  then have "observed_usage (sum_token_usages us)" by (simp add: sum_observed)
  moreover have "tu_measurement (sum_token_usages us) = Exact \<longleftrightarrow>
      list_all (\<lambda>u. observed_usage u \<and> tu_measurement u = Exact) us"
    using False by (simp add: sum_token_usages_cases Let_def)
  ultimately show ?thesis by simp
qed

lemma sum_total:
  "tu_total (sum_token_usages us) =
     (if filter observed_usage us = [] then None else sum_component tu_total (filter observed_usage us))"
  by (simp add: sum_token_usages_cases Let_def unavailable_def)

lemma sum_token_usages_append:
  assumes "us \<noteq> []" "vs \<noteq> []"
  shows "sum_token_usages (us @ vs) = sum_token_usages [sum_token_usages us, sum_token_usages vs]"
proof -
  let ?u = "filter observed_usage us" and ?v = "filter observed_usage vs"
  have m: "list_all (\<lambda>u. observed_usage u \<and> tu_measurement u = Exact) (us @ vs) =
      list_all (\<lambda>u. observed_usage u \<and> tu_measurement u = Exact) [sum_token_usages us, sum_token_usages vs]"
    using sum_measurement [OF assms(1)] sum_measurement [OF assms(2)] by simp
  have c: "sum_component f (?u @ ?v) = sum_component f (filter observed_usage [sum_token_usages us, sum_token_usages vs])"
    if "\<And>ws. filter observed_usage ws \<noteq> [] \<Longrightarrow> f (sum_token_usages ws) = sum_component f (filter observed_usage ws)" for f
    using that [of us] that [of vs]
    by (cases "?u = []"; cases "?v = []")
      (auto simp: usage_simps sum_observed split: option.splits)
  have f: "f (sum_token_usages ws) = sum_component f (filter observed_usage ws)"
    if "f \<in> set components" "filter observed_usage ws \<noteq> []" for f ws
    using that by (auto simp: components_def sum_token_usages_cases Let_def)
  have seen: "filter observed_usage (us @ vs) = [] \<longleftrightarrow>
      filter observed_usage [sum_token_usages us, sum_token_usages vs] = []"
    by (auto simp: sum_observed)
  show ?thesis
    unfolding sum_token_usages_cases [of "us @ vs"] sum_token_usages_cases [of "[sum_token_usages us, sum_token_usages vs]"]
      Let_def m
    using c [of tu_input] c [of tu_output] c [of tu_cache_read] c [of tu_cache_write] c [of tu_total] f seen
    by (simp add: components_def)
qed

lemma exceeds_total: "\<not> token_usage_exceeds a b \<Longrightarrow> tu_total a = Some m \<Longrightarrow> tu_total b = Some n \<Longrightarrow> m \<le> n"
  by (auto simp: token_usage_exceeds_def components_def component_exceeds_def)

lemma subtract_Inr:
  "\<not> token_usage_exceeds b a \<Longrightarrow> is_ok (subtract_token_usage a b)"
  by (simp add: subtract_token_usage_def)

end
