(* ===== verification/PhaseTokens.thy ===== *)
theory PhaseTokens
  imports TokenUsage "HOL-Library.Multiset"
begin

text \<open>
  Attribution of token usage to the phases of an agent session
  (src/src/aka/legacy/workflow/phase_tokens.py, shared by the light workflow).
  \<open>summarize_phase_tokens\<close> folds \<open>event_step\<close> over the normalized events; the local variables of its
  loop are the record \<open>tracker\<close>.  Its report is the record \<open>token_summary\<close>, written as the dictionary
  of the code by \<open>summary_dict\<close>; \<open>aggregate_attempt_tokens\<close> reads such dictionaries back from stored
  attempts, which may hold anything JSON can, so it may raise \<open>TypeError\<close>.
  \<open>round(a / b, 6)\<close> is the exact quotient rounded half to even; binary rounding of the quotient is
  not modelled.
\<close>

section \<open>The session as the loop sees it\<close>

definition phase_names :: "string list" where
  "phase_names = [''profile'', ''research'', ''planning'', ''implementation'', ''correctness'', ''benchmark'',
     ''recording'']"

definition sum_phase_usages :: "token_usage list \<Rightarrow> token_usage" where
  "sum_phase_usages us = (if us \<noteq> [] then sum_token_usages us else zero_usage)"

record tracker =
  tk_intervals :: "token_usage list list dict"
  tk_reasons :: "string list"
  tk_deltas :: "token_usage list"
  tk_phase :: "string option"
  tk_usage :: "token_usage list"
  tk_pending :: "token_usage option"
  tk_invalid :: "string list"

definition new_tracker :: "string list \<Rightarrow> tracker" where
  "new_tracker errors =
     \<lparr>tk_intervals = map (\<lambda>p. (p, [])) phase_names, tk_reasons = errors, tk_deltas = [], tk_phase = None,
      tk_usage = [], tk_pending = None, tk_invalid = []\<rparr>"

definition add_reason :: "string \<Rightarrow> tracker \<Rightarrow> tracker" where
  "add_reason r t = t\<lparr>tk_reasons := tk_reasons t @ [r]\<rparr>"

definition delta_step :: "token_usage \<Rightarrow> tracker \<Rightarrow> tracker" where
  "delta_step u t0 =
     (let t = t0\<lparr>tk_deltas := tk_deltas t0 @ [u]\<rparr> in
      if tk_phase t \<noteq> None \<and> tk_invalid t = [] then t\<lparr>tk_usage := tk_usage t @ [u], tk_pending := None\<rparr>
      else if tk_invalid t = [] then t\<lparr>tk_pending := Some u\<rparr>
      else t)"

definition pop_through :: "string \<Rightarrow> string list \<Rightarrow> string list" where
  \<comment> \<open>pop until the top is the phase, then pop it\<close>
  "pop_through p ps = rev (drop 1 (dropWhile (\<lambda>q. q \<noteq> p) (rev ps)))"

definition invalid_step :: "string \<Rightarrow> string \<Rightarrow> tracker \<Rightarrow> tracker" where
  \<comment> \<open>a marker inside an overlap: only the stack is maintained\<close>
  "invalid_step p action t =
     (if action = ''start'' then add_reason ''overlapping_phase'' (t\<lparr>tk_invalid := tk_invalid t @ [p]\<rparr>)
      else if p = last (tk_invalid t) then t\<lparr>tk_invalid := butlast (tk_invalid t)\<rparr>
      else if p \<in> set (tk_invalid t) then add_reason ''mismatched_phase_end'' (t\<lparr>tk_invalid := pop_through p (tk_invalid t)\<rparr>)
      else add_reason ''orphan_phase_end'' t)\<lparr>tk_pending := None\<rparr>"

definition start_step :: "string \<Rightarrow> tracker \<Rightarrow> tracker" where
  "start_step p t =
     (case tk_phase t of
        None \<Rightarrow> t\<lparr>tk_phase := Some p, tk_usage := (case tk_pending t of None \<Rightarrow> [] | Some u \<Rightarrow> [u]),
                  tk_pending := None\<rparr>
      | Some q \<Rightarrow> (add_reason ''overlapping_phase'' t)
                   \<lparr>tk_invalid := [q, p], tk_phase := None, tk_usage := [], tk_pending := None\<rparr>)"

definition end_step :: "string \<Rightarrow> tracker \<Rightarrow> tracker" where
  "end_step p t =
     (case tk_phase t of
        None \<Rightarrow> (add_reason ''orphan_phase_end'' t)\<lparr>tk_pending := None\<rparr>
      | Some q \<Rightarrow>
          if q = p
          then t\<lparr>tk_intervals := dict_set (tk_intervals t) p (dict_get_default (tk_intervals t) p [] @ [tk_usage t]),
                 tk_phase := None, tk_usage := []\<rparr>
          else (add_reason ''mismatched_phase_end'' t)\<lparr>tk_invalid := [q], tk_phase := None, tk_usage := []\<rparr>)"

definition marker_step :: "string \<Rightarrow> string option \<Rightarrow> tracker \<Rightarrow> tracker" where
  "marker_step p action t =
     (if \<not> dict_has (tk_intervals t) p \<or> action \<notin> {Some ''start'', Some ''end''}
      then (add_reason ''invalid_phase_marker'' t)\<lparr>tk_pending := None\<rparr>
      else if tk_invalid t \<noteq> [] then invalid_step p (the action) t
      else if action = Some ''start'' then start_step p t
      else end_step p t)"

definition event_step :: "tracker \<Rightarrow> agent_event \<Rightarrow> tracker" where
  "event_step t e =
     (case (ae_kind e, ae_usage e) of
        (UsageDelta, Some u) \<Rightarrow> delta_step u t
      | (PhaseMarker, _) \<Rightarrow> marker_step (case ae_phase e of None \<Rightarrow> [] | Some p \<Rightarrow> p) (ae_action e) t
      | _ \<Rightarrow> t)"

definition track :: "string list \<Rightarrow> agent_event list \<Rightarrow> tracker" where
  "track errors es =
     (let t = foldl event_step (new_tracker errors) es in
      if tk_phase t \<noteq> None \<or> tk_invalid t \<noteq> [] then add_reason ''unclosed_phase'' t else t)"

section \<open>The summary\<close>

record phase_row =
  pr_usage :: "token_usage option"
  pr_count :: int
  pr_measurement :: measurement
  pr_reason :: "string option"
  pr_intervals :: "token_usage list option"   \<comment> \<open>\<open>None\<close>: the key is absent\<close>

record token_summary =
  sm_terminal :: token_usage
  sm_phases :: "phase_row dict"
  sm_orchestration :: "token_usage option"
  sm_unattributed :: "token_usage option"
  sm_coverage :: "real option"
  sm_accounted :: "real option"
  sm_measurement :: measurement
  sm_reconciliation :: string
  sm_reasons :: "string list"

definition unobserved_row :: phase_row where
  "unobserved_row = \<lparr>pr_usage = None, pr_count = 0, pr_measurement = Unavailable,
     pr_reason = Some ''phase_not_observed'', pr_intervals = None\<rparr>"

definition no_delta_summary :: "token_usage \<Rightarrow> capabilities \<Rightarrow> string list \<Rightarrow> token_summary" where
  "no_delta_summary terminal caps errors =
     (let known = tu_total terminal \<noteq> None; z = (if known then Some 0 else None) in
      \<lparr>sm_terminal = terminal, sm_phases = map (\<lambda>p. (p, unobserved_row)) phase_names, sm_orchestration = None,
       sm_unattributed = (if known then Some terminal else None), sm_coverage = z, sm_accounted = z,
       sm_measurement = Unavailable, sm_reconciliation = (if known then ''reconciled'' else ''unavailable''),
       sm_reasons = sorted_set (errors @ [if \<not> ca_delta caps then ''backend_has_no_usage_delta''
                                         else ''backend_usage_delta_unobserved''])\<rparr>)"

definition interval_row :: "token_usage list list \<Rightarrow> phase_row" where
  "interval_row intervals =
     (if intervals = [] then unobserved_row
      else let us = map sum_phase_usages intervals; u = sum_phase_usages us in
        \<lparr>pr_usage = Some u, pr_count = int (length intervals), pr_measurement = tu_measurement u,
         pr_reason = None, pr_intervals = Some us\<rparr>)"

definition phase_rows :: "tracker \<Rightarrow> phase_row dict" where
  "phase_rows t = map (\<lambda>(p, intervals). (p, interval_row intervals)) (tk_intervals t)"

definition attributed_usages :: "phase_row dict \<Rightarrow> token_usage list" where
  "attributed_usages rows = List.map_filter (\<lambda>(p, r). pr_usage r) rows"

definition half_even :: "int \<Rightarrow> int \<Rightarrow> int" where
  \<comment> \<open>the nearest integer to the quotient of \<open>a\<close> by a positive \<open>b\<close>, ties to even\<close>
  "half_even a b =
     (let q = a div b; r = a mod b in
      if 2 * r < b then q else if 2 * r > b then q + 1 else if even q then q else q + 1)"

definition ratio :: "int \<Rightarrow> int \<Rightarrow> real option" where
  \<comment> \<open>\<open>round(a / b, 6) if b > 0 else (1.0 if a == 0 else None)\<close>\<close>
  "ratio a b = (if b > 0 then Some (real_of_int (half_even (a * 1000000) b) / 1000000)
                else if a = 0 then Some 1 else None)"

definition settle_unknown :: "token_usage \<Rightarrow> tracker \<Rightarrow> exn + token_summary" where
  \<comment> \<open>the branch \<open>terminal_total is None\<close>\<close>
  "settle_unknown terminal t =
     (let rows = phase_rows t; attributed = sum_phase_usages (attributed_usages rows);
          deltas = sum_phase_usages (tk_deltas t) in
      bind_res (if tu_total deltas \<noteq> None \<and> tu_total attributed \<noteq> None \<and> \<not> token_usage_exceeds attributed deltas
                then map_sum id Some (subtract_token_usage deltas attributed) else Inr None) (\<lambda>orchestration.
      Inr \<lparr>sm_terminal = terminal, sm_phases = rows, sm_orchestration = orchestration, sm_unattributed = None,
           sm_coverage = None, sm_accounted = None,
           sm_measurement = (if attributed_usages rows \<noteq> [] then Partial else Unavailable),
           sm_reconciliation = ''unavailable'',
           sm_reasons = sorted_set (tk_reasons t @ [''terminal_usage_unavailable''])\<rparr>))"

definition settle_inconsistent :: "token_usage \<Rightarrow> tracker \<Rightarrow> token_summary" where
  "settle_inconsistent terminal t =
     \<lparr>sm_terminal = terminal, sm_phases = phase_rows t, sm_orchestration = None, sm_unattributed = None,
      sm_coverage = None, sm_accounted = None, sm_measurement = Partial, sm_reconciliation = ''inconsistent'',
      sm_reasons = sorted_set (tk_reasons t @ [''usage_delta_exceeds_terminal''])\<rparr>"

definition settle_reconciled :: "token_usage \<Rightarrow> tracker \<Rightarrow> exn + token_summary" where
  "settle_reconciled terminal t =
     (let rows = phase_rows t; attributed = sum_phase_usages (attributed_usages rows);
          coverage = ratio (the (tu_total attributed)) (the (tu_total terminal)) in
      bind_res (subtract_token_usage terminal attributed) (\<lambda>orchestration.
      Inr \<lparr>sm_terminal = terminal, sm_phases = rows, sm_orchestration = Some orchestration,
           sm_unattributed = Some zero_usage, sm_coverage = coverage, sm_accounted = Some 1,
           sm_measurement =
             (if coverage = Some 1 \<and> tk_reasons t = [] \<and> tu_measurement terminal = Exact
                \<and> tu_measurement attributed = Exact then Exact
              else if attributed_usages rows \<noteq> [] then Partial else Unavailable),
           sm_reconciliation = ''reconciled'', sm_reasons = sorted_set (tk_reasons t)\<rparr>))"

definition settle_summary :: "token_usage \<Rightarrow> tracker \<Rightarrow> exn + token_summary" where
  "settle_summary terminal t =
     (let attributed = sum_phase_usages (attributed_usages (phase_rows t));
          deltas = sum_phase_usages (tk_deltas t) in
      if tu_total terminal = None then settle_unknown terminal t
      else if tu_total attributed = None \<or> tu_total deltas = None \<or> token_usage_exceeds attributed terminal
              \<or> token_usage_exceeds deltas terminal
      then Inr (settle_inconsistent terminal t)
      else settle_reconciled terminal t)"

definition summarize_phase_tokens ::
  "agent_event list \<Rightarrow> token_usage \<Rightarrow> capabilities \<Rightarrow> string list \<Rightarrow> exn + token_summary" where
  "summarize_phase_tokens events terminal caps errors =
     (if \<not> ca_delta caps \<or> \<not> ca_delta_observed caps then Inr (no_delta_summary terminal caps errors)
      else settle_summary terminal (track errors events))"

section \<open>Its dictionary\<close>

fun measurement_name :: "measurement \<Rightarrow> string" where
  "measurement_name Exact = ''exact''"
| "measurement_name Partial = ''partial''"
| "measurement_name Unavailable = ''unavailable''"

fun of_opt :: "('a \<Rightarrow> pyval) \<Rightarrow> 'a option \<Rightarrow> pyval" where
  "of_opt f None = VNull"
| "of_opt f (Some x) = f x"

definition usage_dict :: "token_usage \<Rightarrow> pyval" where
  "usage_dict u = VDict
     [(''input_tokens'', of_opt VInt (tu_input u)), (''output_tokens'', of_opt VInt (tu_output u)),
      (''cache_read_tokens'', of_opt VInt (tu_cache_read u)), (''cache_write_tokens'', of_opt VInt (tu_cache_write u)),
      (''total_tokens'', of_opt VInt (tu_total u)), (''measurement'', VStr (measurement_name (tu_measurement u)))]"

definition row_dict :: "phase_row \<Rightarrow> pyval" where
  "row_dict r = VDict
     ([(''usage'', of_opt usage_dict (pr_usage r)), (''interval_count'', VInt (pr_count r)),
       (''measurement'', VStr (measurement_name (pr_measurement r))), (''reason'', of_opt VStr (pr_reason r))]
      @ (case pr_intervals r of
           None \<Rightarrow> []
         | Some us \<Rightarrow> [(''intervals'', VList (map (\<lambda>(i, u). VDict [(''index'', VInt (int i)), (''usage'', usage_dict u)])
                                               (enumerate 1 us)))]))"

definition summary_dict :: "token_summary \<Rightarrow> pyval dict" where
  "summary_dict s =
     [(''terminal_usage'', usage_dict (sm_terminal s)),
      (''phases'', VDict (map (\<lambda>(p, r). (p, row_dict r)) (sm_phases s))),
      (''orchestration'', of_opt usage_dict (sm_orchestration s)),
      (''unattributed'', of_opt usage_dict (sm_unattributed s)),
      (''coverage'', of_opt (VFloat \<circ> Fin) (sm_coverage s)),
      (''semantic_phase_coverage'', of_opt (VFloat \<circ> Fin) (sm_coverage s)),
      (''accounted_coverage'', of_opt (VFloat \<circ> Fin) (sm_accounted s)),
      (''measurement'', VStr (measurement_name (sm_measurement s))),
      (''reconciliation_status'', VStr (sm_reconciliation s)),
      (''reason_codes'', VList (map VStr (sm_reasons s)))]"

section \<open>What the loop counts\<close>

text \<open>
  The usages the tracker has assigned or still holds, against those it has seen: every step keeps
  the first a sub-multiset of the second, so no delta is attributed twice.
\<close>

definition held :: "tracker \<Rightarrow> token_usage list" where
  "held t = concat (concat (map snd (tk_intervals t))) @ tk_usage t
     @ (case tk_pending t of None \<Rightarrow> [] | Some u \<Rightarrow> [u])"

definition tracker_ok :: "tracker \<Rightarrow> bool" where
  "tracker_ok t \<longleftrightarrow> dict_keys (tk_intervals t) = phase_names \<and> mset (held t) \<subseteq># mset (tk_deltas t)
     \<and> (tk_phase t = None \<longrightarrow> tk_usage t = []) \<and> (tk_phase t \<noteq> None \<longrightarrow> tk_invalid t = [])"

named_theorems track_defs \<open>the steps of the tracker\<close>

lemmas [track_defs] = delta_step_def invalid_step_def start_step_def end_step_def marker_step_def add_reason_def Let_def

lemma mset_dict_append:
  "map_of d p = Some v \<Longrightarrow> mset (concat (concat (map snd (dict_set d p (v @ [us]))))) =
     mset (concat (concat (map snd d))) + mset us"
  by (induction d p "v @ [us]" rule: dict_set.induct) (auto split: if_splits)

lemma keys_dict_append: "map_of d p \<noteq> None \<Longrightarrow> dict_keys (dict_set d p v) = dict_keys d"
  by (induction d p v rule: dict_set.induct) (auto simp: dict_keys_def)

lemma held_mono:
  assumes "tracker_ok t" "mset (held t') \<subseteq># mset (held t)" "tk_deltas t' = tk_deltas t"
    "dict_keys (tk_intervals t') = dict_keys (tk_intervals t)"
    "tk_phase t' = None \<longrightarrow> tk_usage t' = []" "tk_phase t' \<noteq> None \<longrightarrow> tk_invalid t' = []"
  shows "tracker_ok t'"
  using assms by (auto simp: tracker_ok_def intro: subset_mset.order_trans)

lemma msub_cons: "A \<subseteq># C \<Longrightarrow> A \<subseteq># add_mset x C"
  by (metis add_mset_add_single mset_subset_eq_add_left subset_mset.order_trans)

lemma delta_step_ok: "tracker_ok t \<Longrightarrow> tracker_ok (delta_step u t)"
proof -
  assume t: "tracker_ok t"
  have "mset (held (delta_step u t)) \<subseteq># add_mset u (mset (held t))"
    by (auto simp: track_defs held_def split: option.splits intro: msub_cons)
  with t show ?thesis
    unfolding tracker_ok_def by (auto simp: track_defs intro: subset_mset.order_trans)
qed

lemma start_step_ok: "tracker_ok t \<Longrightarrow> tk_invalid t = [] \<Longrightarrow> tracker_ok (start_step p t)"
  by (rule held_mono, assumption)
    (auto simp: tracker_ok_def track_defs held_def split: option.splits)

lemma end_step_ok:
  assumes "tracker_ok t" "dict_has (tk_intervals t) p"
  shows "tracker_ok (end_step p t)"
proof -
  from assms(2) obtain v where v: "map_of (tk_intervals t) p = Some v" by (auto simp: dict_has_def)
  show ?thesis
    by (rule held_mono [OF assms(1)])
      (use assms(1) v keys_dict_append [of "tk_intervals t" p] mset_dict_append [OF v] in
        \<open>auto simp: tracker_ok_def track_defs held_def dict_get_default_def split: option.splits\<close>)
qed

lemma invalid_step_ok: "tracker_ok t \<Longrightarrow> tk_invalid t \<noteq> [] \<Longrightarrow> tracker_ok (invalid_step p a t)"
  by (rule held_mono, assumption)
    (auto simp: tracker_ok_def track_defs held_def split: option.splits)

lemma marker_step_ok: "tracker_ok t \<Longrightarrow> tracker_ok (marker_step p a t)"
proof -
  assume t: "tracker_ok t"
  then have "tracker_ok ((add_reason r t)\<lparr>tk_pending := None\<rparr>)" for r
    by (rule held_mono) (use t in \<open>auto simp: tracker_ok_def track_defs held_def split: option.splits\<close>)
  with t show ?thesis
    by (auto simp: marker_step_def start_step_ok end_step_ok invalid_step_ok)
qed

lemma event_step_ok: "tracker_ok t \<Longrightarrow> tracker_ok (event_step t e)"
  by (auto simp: event_step_def marker_step_ok delta_step_ok split: event_kind.splits option.splits)

definition deltas_of :: "agent_event list \<Rightarrow> token_usage list" where
  "deltas_of es = List.map_filter (\<lambda>e. if ae_kind e = UsageDelta then ae_usage e else None) es"

lemma marker_deltas: "tk_deltas (marker_step p a t) = tk_deltas t"
proof -
  have "tk_deltas (invalid_step p b t) = tk_deltas t" for b by (simp add: invalid_step_def add_reason_def)
  moreover have "tk_deltas (start_step p t) = tk_deltas t" by (simp add: start_step_def add_reason_def split: option.split)
  moreover have "tk_deltas (end_step p t) = tk_deltas t" by (simp add: end_step_def add_reason_def split: option.split)
  ultimately show ?thesis by (simp add: marker_step_def add_reason_def)
qed

lemma step_deltas:
  "tk_deltas (event_step t e) = tk_deltas t @ deltas_of [e]"
  by (cases "ae_kind e"; cases "ae_usage e")
    (simp_all add: event_step_def marker_deltas delta_step_def Let_def deltas_of_def map_filter_def)

lemma track_deltas: "tk_deltas (track errors es) = deltas_of es"
proof -
  have "tk_deltas (foldl event_step t es) = tk_deltas t @ deltas_of es" for t
    by (induction es arbitrary: t) (auto simp: step_deltas, auto simp: deltas_of_def map_filter_def)
  then show ?thesis by (simp add: track_def track_defs new_tracker_def)
qed

lemma track_ok: "tracker_ok (track errors es)"
proof -
  have "tracker_ok (foldl event_step t es)" if "tracker_ok t" for t
    using that by (induction es arbitrary: t) (auto simp: event_step_ok)
  moreover have "tracker_ok (new_tracker errors)"
    by (simp add: tracker_ok_def new_tracker_def held_def dict_keys_def comp_def)
  moreover have "tracker_ok t \<Longrightarrow> tracker_ok (add_reason r t)" for t r
    by (simp add: tracker_ok_def add_reason_def held_def)
  ultimately show ?thesis by (simp add: track_def Let_def)
qed

end
