(* ===== verification/TokenReports.thy ===== *)
theory TokenReports
  imports PhaseTokens
begin

text \<open>
  Reports over several attempts: \<open>aggregate_attempt_tokens\<close> of
  src/src/aka/legacy/workflow/phase_tokens.py.  The attempts are read back from storage, so every field
  is any JSON value: \<open>str_other\<close> is Python's \<open>str\<close> of a float or a container, and a raise is the
  \<open>TypeError\<close> of a membership test on an unhashable value or of a loop over a number.
\<close>

section \<open>Reading a stored summary\<close>

fun as_dict :: "pyval \<Rightarrow> pyval dict option" where
  \<comment> \<open>\<open>isinstance(v, Mapping)\<close>\<close>
  "as_dict (VDict d) = Some d"
| "as_dict _ = None"

fun as_int :: "pyval \<Rightarrow> int option" where
  \<comment> \<open>\<open>isinstance(v, int) and not isinstance(v, bool)\<close>\<close>
  "as_int (VInt i) = Some i"
| "as_int _ = None"

definition get_item :: "pyval dict \<Rightarrow> string \<Rightarrow> pyval" where
  \<comment> \<open>\<open>d.get(k)\<close>\<close>
  "get_item d k = dict_get_default d k VNull"

fun hashable :: "pyval \<Rightarrow> bool" where
  "hashable (VList xs) = False"
| "hashable (VDict d) = False"
| "hashable (VTuple xs) = list_all hashable xs"
| "hashable _ = True"

fun read_measurement :: "pyval \<Rightarrow> measurement" where
  "read_measurement (VStr s) = (if s = ''exact'' then Exact else if s = ''partial'' then Partial else Unavailable)"
| "read_measurement _ = Unavailable"

definition usage_from_dict :: "pyval \<Rightarrow> exn + token_usage" where
  "usage_from_dict payload =
     (case as_dict payload of
        None \<Rightarrow> Inr unavailable
      | Some d \<Rightarrow>
          if \<not> hashable (get_item d ''measurement'') then Inl (TypeError (Msg ''unhashable type''))
          else Inr \<lparr>tu_input = as_int (get_item d ''input_tokens''), tu_output = as_int (get_item d ''output_tokens''),
                    tu_cache_read = as_int (get_item d ''cache_read_tokens''),
                    tu_cache_write = as_int (get_item d ''cache_write_tokens''),
                    tu_total = as_int (get_item d ''total_tokens''),
                    tu_measurement = read_measurement (get_item d ''measurement'')\<rparr>)"

fun int_string :: "int \<Rightarrow> string" where
  "int_string i = (if i < 0 then CHR ''-'' # nat_string (nat (- i)) else nat_string (nat i))"

fun py_str :: "(pyval \<Rightarrow> string) \<Rightarrow> pyval \<Rightarrow> string" where
  "py_str str_other VNull = ''None''"
| "py_str str_other (VBool b) = (if b then ''True'' else ''False'')"
| "py_str str_other (VInt i) = int_string i"
| "py_str str_other (VStr s) = s"
| "py_str str_other v = str_other v"

fun reason_items :: "pyval \<Rightarrow> exn + pyval list" where
  \<comment> \<open>the iteration over \<open>v or []\<close>\<close>
  "reason_items (VList xs) = Inr xs"
| "reason_items (VTuple xs) = Inr xs"
| "reason_items (VStr s) = Inr (map (\<lambda>c. VStr [c]) s)"
| "reason_items (VDict d) = Inr (map VStr (dict_keys d))"
| "reason_items v = (if truthy v then Inl (TypeError (Msg ''object is not iterable'')) else Inr [])"

definition token_summaries :: "pyval dict list \<Rightarrow> pyval dict list" where
  "token_summaries attempts = List.map_filter (\<lambda>a. as_dict (get_item a ''phase_tokens'')) attempts"

section \<open>The aggregate\<close>

definition observed_terminals :: "pyval dict list \<Rightarrow> exn + token_usage list" where
  "observed_terminals summaries =
     bind_res (map_res (\<lambda>s. usage_from_dict (get_item s ''terminal_usage'')) summaries)
       (\<lambda>us. Inr (filter observed_usage us))"

definition total_terminal :: "token_usage list \<Rightarrow> nat \<Rightarrow> token_usage" where
  "total_terminal seen attempts =
     (let terminal = (if seen \<noteq> [] then sum_phase_usages seen else unavailable) in
      if length seen \<noteq> attempts \<and> tu_total terminal \<noteq> None then terminal\<lparr>tu_measurement := Partial\<rparr> else terminal)"

record phase_tally =
  pt_usages :: "token_usage list"
  pt_count :: int
  pt_missing :: bool

definition tally_summary :: "string \<Rightarrow> phase_tally \<Rightarrow> pyval dict \<Rightarrow> exn + phase_tally" where
  "tally_summary phase t summary =
     (case Option.bind (as_dict (get_item summary ''phases'')) (\<lambda>ps. as_dict (get_item ps phase)) of
        None \<Rightarrow> Inr (t\<lparr>pt_missing := True\<rparr>)
      | Some v \<Rightarrow>
          if get_item v ''usage'' = VNull then Inr (t\<lparr>pt_missing := True\<rparr>)
          else bind_res (usage_from_dict (get_item v ''usage'')) (\<lambda>u.
            if tu_total u = None then Inr (t\<lparr>pt_missing := True\<rparr>)
            else Inr (t\<lparr>pt_usages := pt_usages t @ [u],
                        pt_count := pt_count t + (case as_int (get_item v ''interval_count'') of None \<Rightarrow> 0 | Some n \<Rightarrow> n)\<rparr>)))"

definition aggregate_phase :: "pyval dict list \<Rightarrow> string \<Rightarrow> exn + phase_row" where
  "aggregate_phase summaries phase =
     bind_res (fold_res (tally_summary phase) \<lparr>pt_usages = [], pt_count = 0, pt_missing = False\<rparr> summaries) (\<lambda>t.
     if pt_usages t = [] then Inr unobserved_row
     else let u0 = sum_phase_usages (pt_usages t);
              u = (if pt_missing t then u0\<lparr>tu_measurement := Partial\<rparr> else u0) in
       Inr \<lparr>pr_usage = Some u, pr_count = pt_count t, pr_measurement = tu_measurement u, pr_reason = None,
            pr_intervals = None\<rparr>)"

definition aggregate_phases :: "pyval dict list \<Rightarrow> exn + phase_row dict" where
  "aggregate_phases summaries =
     map_res (\<lambda>p. bind_res (aggregate_phase summaries p) (\<lambda>r. Inr (p, r))) phase_names"

definition summary_reasons :: "(pyval \<Rightarrow> string) \<Rightarrow> pyval dict list \<Rightarrow> exn + string list" where
  "summary_reasons str_other summaries =
     bind_res (map_res (\<lambda>s. reason_items (get_item s ''reason_codes'')) summaries)
       (\<lambda>vs. Inr (map (py_str str_other) (concat vs)))"

record coverage_tally =
  ct_attributed :: "token_usage list"
  ct_orchestration :: "token_usage list"
  ct_unattributed :: "token_usage list"
  ct_status :: "string list"

definition tally_phase :: "pyval dict \<Rightarrow> coverage_tally \<Rightarrow> string \<Rightarrow> exn + coverage_tally" where
  "tally_phase phases t p =
     (case as_dict (get_item phases p) of
        None \<Rightarrow> Inr t
      | Some v \<Rightarrow> bind_res (usage_from_dict (get_item v ''usage'')) (\<lambda>u.
          Inr (if tu_total u \<noteq> None then t\<lparr>ct_attributed := ct_attributed t @ [u]\<rparr> else t)))"

definition tally_coverage :: "(pyval \<Rightarrow> string) \<Rightarrow> coverage_tally \<Rightarrow> pyval dict \<Rightarrow> exn + coverage_tally" where
  "tally_coverage str_other t0 summary =
     bind_res (usage_from_dict (get_item summary ''terminal_usage'')) (\<lambda>terminal.
     if tu_total terminal = None then Inr t0
     else
       let t1 = t0\<lparr>ct_status := ct_status t0 @ [py_str str_other (get_item summary ''reconciliation_status'')]\<rparr> in
       bind_res (case as_dict (get_item summary ''phases'') of
                   None \<Rightarrow> Inr t1 | Some phases \<Rightarrow> fold_res (tally_phase phases) t1 phase_names) (\<lambda>t2.
       bind_res (usage_from_dict (get_item summary ''orchestration'')) (\<lambda>orch.
       bind_res (usage_from_dict (get_item summary ''unattributed'')) (\<lambda>unatt.
       Inr (t2\<lparr>ct_orchestration := ct_orchestration t2 @ (if tu_total orch \<noteq> None then [orch] else []),
              ct_unattributed := ct_unattributed t2 @ (if tu_total unatt \<noteq> None then [unatt] else [])\<rparr>)))))"

record token_report = token_summary +
  rp_with_terminal :: nat
  rp_attempts :: nat

definition or_zero :: "int option \<Rightarrow> int" where
  "or_zero x = (case x of None \<Rightarrow> 0 | Some n \<Rightarrow> n)"

record coverage_verdict =
  vd_status :: string
  vd_orchestration :: "token_usage option"
  vd_unattributed :: "token_usage option"
  vd_coverage :: "real option"
  vd_accounted :: "real option"
  vd_reasons :: "string list"

definition judge :: "token_usage \<Rightarrow> coverage_tally \<Rightarrow> string list \<Rightarrow> coverage_verdict" where
  "judge terminal t reasons =
     (let attributed = sum_phase_usages (ct_attributed t);
          unsettled = (\<lambda>status rs. \<lparr>vd_status = status, vd_orchestration = None, vd_unattributed = None,
                                   vd_coverage = None, vd_accounted = None, vd_reasons = rs\<rparr>) in
      if ''inconsistent'' \<in> set (ct_status t) then unsettled ''inconsistent'' reasons
      else if tu_total terminal = None then unsettled ''unavailable'' reasons
      else if token_usage_exceeds attributed terminal
           then unsettled ''inconsistent'' (reasons @ [''usage_delta_exceeds_terminal''])
      else let orch = sum_phase_usages (ct_orchestration t); n = or_zero (tu_total attributed) in
        \<lparr>vd_status = ''reconciled'', vd_orchestration = Some orch,
         vd_unattributed = Some (sum_phase_usages (ct_unattributed t)),
         vd_coverage = ratio n (the (tu_total terminal)),
         vd_accounted = ratio (n + or_zero (tu_total orch)) (the (tu_total terminal)), vd_reasons = reasons\<rparr>)"

definition aggregate_attempt_tokens :: "(pyval \<Rightarrow> string) \<Rightarrow> pyval dict list \<Rightarrow> exn + token_report" where
  "aggregate_attempt_tokens str_other attempts =
     (let summaries = token_summaries attempts in
      bind_res (observed_terminals summaries) (\<lambda>seen.
      let terminal = total_terminal seen (length attempts) in
      bind_res (aggregate_phases summaries) (\<lambda>phases.
      bind_res (summary_reasons str_other summaries) (\<lambda>codes.
      let reasons = codes @ (if length seen \<noteq> length attempts then [''attempt_terminal_usage_unavailable''] else []) in
      bind_res (fold_res (tally_coverage str_other)
                  \<lparr>ct_attributed = [], ct_orchestration = [], ct_unattributed = [], ct_status = []\<rparr> summaries) (\<lambda>t.
      let v = judge terminal t reasons;
          displayed = sum_phase_usages (attributed_usages phases) in
      Inr \<lparr>sm_terminal = terminal, sm_phases = phases, sm_orchestration = vd_orchestration v,
           sm_unattributed = vd_unattributed v, sm_coverage = vd_coverage v, sm_accounted = vd_accounted v,
           sm_measurement =
             (if vd_coverage v = Some 1 \<and> length seen = length attempts \<and> tu_measurement terminal = Exact
                \<and> vd_reasons v = [] then Exact
              else if or_zero (tu_total displayed) \<noteq> 0 then Partial else Unavailable),
           sm_reconciliation = vd_status v, sm_reasons = sorted_set (vd_reasons v),
           rp_with_terminal = length seen, rp_attempts = length attempts\<rparr>)))))"

end
