(* ===== verification/Phase_Accounting.thy ===== *)
theory Phase_Accounting
  imports TokenReports
begin

text \<open>
  What the phase accounting guarantees: each delta is attributed at most once, a well bracketed session is
  attributed as written, a summary always results, a reconciled one adds up, and a stored usage is
  read back as it was written.
\<close>

section \<open>Bracketed sessions\<close>

text \<open>
  The reference reading of a session in which every start is followed by its own end: the usages
  before the start, the phase, and the usages inside.  The last usage before a start belongs to the phase,
  since the request that emits the marker is itself reported before it.
\<close>

type_synonym stretch = "token_usage list \<times> string \<times> token_usage list"

definition delta_event :: "token_usage \<Rightarrow> agent_event" where
  "delta_event u = \<lparr>ae_sequence = 0, ae_kind = UsageDelta, ae_usage = Some u, ae_phase = None, ae_action = None,
     ae_marker = None\<rparr>"

definition marker_event :: "string \<Rightarrow> string \<Rightarrow> agent_event" where
  "marker_event action p = \<lparr>ae_sequence = 0, ae_kind = PhaseMarker, ae_usage = None, ae_phase = Some p,
     ae_action = Some action, ae_marker = None\<rparr>"

fun stretch_events :: "stretch \<Rightarrow> agent_event list" where
  "stretch_events (before, p, inside) =
     map delta_event before @ [marker_event ''start'' p] @ map delta_event inside @ [marker_event ''end'' p]"

definition session_events :: "stretch list \<Rightarrow> token_usage list \<Rightarrow> agent_event list" where
  "session_events ss rest = concat (map stretch_events ss) @ map delta_event rest"

fun last_of :: "'a list \<Rightarrow> 'a list" where
  "last_of [] = []"
| "last_of (x # xs) = [last (x # xs)]"

fun stretch_usage :: "stretch \<Rightarrow> token_usage list" where
  "stretch_usage (before, p, inside) = last_of before @ inside"

lemma last_of_eq: "last_of us = (if us = [] then [] else [last us])"
  by (cases us) auto

lemma event_marker: "event_step t (marker_event a p) = marker_step p (Some a) t"
  by (simp add: event_step_def marker_event_def)

definition intervals_of :: "string \<Rightarrow> stretch list \<Rightarrow> token_usage list list" where
  "intervals_of p ss = map stretch_usage (filter (\<lambda>s. fst (snd s) = p) ss)"

lemma fold_outside:
  "tk_phase t = None \<Longrightarrow> tk_invalid t = [] \<Longrightarrow> foldl event_step t (map delta_event us) =
     t\<lparr>tk_deltas := tk_deltas t @ us, tk_pending := (if us = [] then tk_pending t else Some (last us))\<rparr>"
  by (induction us arbitrary: t) (auto simp: event_step_def delta_event_def delta_step_def Let_def)

lemma fold_inside:
  "tk_phase t = Some p \<Longrightarrow> tk_invalid t = [] \<Longrightarrow> tk_pending t = None \<Longrightarrow>
   foldl event_step t (map delta_event us) = t\<lparr>tk_deltas := tk_deltas t @ us, tk_usage := tk_usage t @ us\<rparr>"
  by (induction us arbitrary: t) (auto simp: event_step_def delta_event_def delta_step_def Let_def)

definition idle :: "tracker \<Rightarrow> bool" where
  "idle t \<longleftrightarrow> tk_phase t = None \<and> tk_invalid t = [] \<and> tk_pending t = None \<and> tk_usage t = []"

lemma fold_stretch:
  assumes "idle t" "dict_has (tk_intervals t) p"
  shows "foldl event_step t (stretch_events (before, p, inside)) =
     t\<lparr>tk_deltas := tk_deltas t @ before @ inside,
       tk_intervals := dict_set (tk_intervals t) p (dict_get_default (tk_intervals t) p [] @ [last_of before @ inside])\<rparr>"
proof -
  let ?a = "foldl event_step t (map delta_event before)"
  have a: "?a = t\<lparr>tk_deltas := tk_deltas t @ before, tk_pending := (if before = [] then None else Some (last before))\<rparr>"
    using assms(1) by (simp add: fold_outside idle_def)
  have b: "start_step p ?a = t\<lparr>tk_deltas := tk_deltas t @ before, tk_phase := Some p, tk_usage := last_of before\<rparr>"
    using assms(1) by (simp add: a start_step_def idle_def last_of_eq)
  have c: "foldl event_step (start_step p ?a) (map delta_event inside) =
      t\<lparr>tk_deltas := tk_deltas t @ before @ inside, tk_phase := Some p, tk_usage := last_of before @ inside\<rparr>"
    using assms(1) by (simp add: b fold_inside idle_def)
  have s: "event_step ?a (marker_event ''start'' p) = start_step p ?a"
    using assms by (simp add: event_marker marker_step_def a idle_def)
  have e: "event_step (foldl event_step (start_step p ?a) (map delta_event inside)) (marker_event ''end'' p) =
      end_step p (foldl event_step (start_step p ?a) (map delta_event inside))"
    using assms by (simp add: event_marker marker_step_def c idle_def)
  show ?thesis
    using assms(1) by (simp add: s e) (simp add: c end_step_def idle_def)
qed

lemma fold_session:
  assumes "idle t" "\<forall>s\<in>set ss. dict_has (tk_intervals t) (fst (snd s))" "dict_has (tk_intervals t) p"
  shows "idle (foldl event_step t (concat (map stretch_events ss))) \<and>
     tk_reasons (foldl event_step t (concat (map stretch_events ss))) = tk_reasons t \<and>
     dict_get (tk_intervals (foldl event_step t (concat (map stretch_events ss)))) p =
       Some (dict_get_default (tk_intervals t) p [] @ intervals_of p ss)"
  using assms
proof (induction ss arbitrary: t)
  case Nil
  then show ?case by (auto simp: intervals_of_def dict_get_default_def dict_has_def)
next
  case (Cons s ss)
  obtain before q inside where s: "s = (before, q, inside)" by (cases s)
  let ?t = "foldl event_step t (stretch_events s)"
  have st: "?t = t\<lparr>tk_deltas := tk_deltas t @ before @ inside,
       tk_intervals := dict_set (tk_intervals t) q (dict_get_default (tk_intervals t) q [] @ [stretch_usage s])\<rparr>"
    using Cons.prems by (simp add: s fold_stretch del: stretch_events.simps)
  have keep: "dict_has (tk_intervals ?t) r" if "dict_has (tk_intervals t) r" for r
    using that by (simp add: st dict_has_def dict_simps)
  have "idle ?t" using Cons.prems(1) by (simp add: st idle_def)
  from Cons.IH [OF this] Cons.prems keep
  have ih: "idle (foldl event_step ?t (concat (map stretch_events ss))) \<and>
     tk_reasons (foldl event_step ?t (concat (map stretch_events ss))) = tk_reasons ?t \<and>
     dict_get (tk_intervals (foldl event_step ?t (concat (map stretch_events ss)))) p =
       Some (dict_get_default (tk_intervals ?t) p [] @ intervals_of p ss)" by simp
  have "dict_get_default (tk_intervals ?t) p [] @ intervals_of p ss =
      dict_get_default (tk_intervals t) p [] @ intervals_of p (s # ss)"
    by (simp add: st) (simp add: s intervals_of_def dict_get_default_def dict_simps)
  moreover have "tk_reasons ?t = tk_reasons t" by (simp add: st)
  ultimately show ?case using ih by simp
qed

section \<open>Sums by component\<close>

definition known :: "(token_usage \<Rightarrow> int option) \<Rightarrow> token_usage list \<Rightarrow> bool" where
  "known f us \<longleftrightarrow> list_all (\<lambda>u. f u \<noteq> None) us"

lemma sum_phase_known:
  assumes "f \<in> set components" "known f us" "known tu_total us"
  shows "f (sum_phase_usages us) = Some (sum_list (map (\<lambda>u. the (f u)) us))"
proof -
  have "filter observed_usage us = us"
    using assms(3) by (simp add: known_def list_all_iff observed_usage_def)
  with assms show ?thesis
    by (auto simp: components_def sum_phase_usages_def sum_token_usages_cases Let_def zero_usage_def sum_component_def known_def)
qed

lemma attributed_usages_simps [simp]:
  "attributed_usages [] = []"
  "attributed_usages ((p, r) # rows) = (case pr_usage r of None \<Rightarrow> [] | Some u \<Rightarrow> [u]) @ attributed_usages rows"
  by (auto simp: attributed_usages_def map_filter_def split: option.splits)

lemma attributed_usages_rows:
  "attributed_usages (phase_rows t) =
     map (\<lambda>intervals. sum_phase_usages (map sum_phase_usages intervals)) (filter (\<lambda>i. i \<noteq> []) (map snd (tk_intervals t)))"
proof -
  have "attributed_usages (map (\<lambda>(p, intervals). (p, interval_row intervals)) d) =
      map (\<lambda>intervals. sum_phase_usages (map sum_phase_usages intervals)) (filter (\<lambda>i. i \<noteq> []) (map snd d))"
    for d :: "token_usage list list dict"
    by (induction d) (auto simp: interval_row_def unobserved_row_def Let_def)
  then show ?thesis by (simp add: phase_rows_def)
qed

text \<open>With every component of every delta known, a sum of sums is the sum of the deltas.\<close>

definition whole :: "token_usage \<Rightarrow> bool" where
  "whole u \<longleftrightarrow> (\<forall>f\<in>set components. f u \<noteq> None)"

lemma sum_whole:
  assumes "list_all whole us" "f \<in> set components"
  shows "f (sum_phase_usages us) = Some (sum_list (map (\<lambda>u. the (f u)) us))"
  using assms by (intro sum_phase_known) (auto simp: whole_def known_def list_all_iff components_def)

lemma whole_sum: "list_all whole us \<Longrightarrow> whole (sum_phase_usages us)"
  by (simp add: whole_def [of "sum_phase_usages us"] sum_whole)

lemma sum_sums:
  assumes "list_all (list_all whole) uss" "f \<in> set components"
  shows "sum_list (map (\<lambda>u. the (f u)) (map sum_phase_usages uss)) = sum_list (map (\<lambda>u. the (f u)) (concat uss))"
  using assms by (induction uss) (auto simp: sum_whole)

lemma concat_nonempty: "concat (filter (\<lambda>i. i \<noteq> []) xss) = concat xss"
  by (induction xss) auto

lemma attributed_sum:
  assumes "list_all whole (concat (concat (map snd (tk_intervals t))))" "f \<in> set components"
  shows "f (sum_phase_usages (attributed_usages (phase_rows t))) =
     Some (sum_list (map (\<lambda>u. the (f u)) (concat (concat (map snd (tk_intervals t))))))"
proof -
  let ?i = "filter (\<lambda>i. i \<noteq> []) (map snd (tk_intervals t))"
  have c: "concat ?i = concat (map snd (tk_intervals t))"
    by (rule concat_nonempty)
  have k: "list_all (list_all whole) (concat ?i)"
    using assms(1) unfolding c by (auto simp: list_all_iff)
  have rows: "attributed_usages (phase_rows t) = map sum_phase_usages (map (map sum_phase_usages) ?i)"
    by (simp add: attributed_usages_rows comp_def)
  have w: "list_all whole (map sum_phase_usages uss)" if "list_all (list_all whole) uss" for uss
    using that by (auto simp: list_all_iff intro!: whole_sum)
  have w2: "list_all (list_all whole) (map (map sum_phase_usages) ?i)"
    using k by (force simp: list_all_iff intro!: whole_sum)
  have "f (sum_phase_usages (attributed_usages (phase_rows t))) =
      Some (sum_list (map (\<lambda>u. the (f u)) (concat (map (map sum_phase_usages) ?i))))"
    unfolding rows using sum_whole [OF w [OF w2] assms(2)] sum_sums [OF w2 assms(2)] by simp
  also have "concat (map (map sum_phase_usages) ?i) = map sum_phase_usages (concat ?i)"
    by (simp add: map_concat)
  finally show ?thesis using sum_sums [OF k assms(2)] by (simp add: c)
qed

lemma subset_sum_le:
  assumes "mset us \<subseteq># mset vs" "\<forall>v\<in>set vs. 0 \<le> g v"
  shows "sum_list (map g us) \<le> (sum_list (map g vs) :: int)"
proof -
  from assms(1) obtain M where M: "mset vs = mset us + M" by (auto simp: mset_subset_eq_exists_conv)
  obtain ws where "M = mset ws" by (metis ex_mset)
  with M have p: "mset vs = mset (us @ ws)" by simp
  then have "sum_list (map g vs) = sum_list (map g us) + sum_list (map g ws)"
    by (metis map_append mset_map sum_list_append sum_mset_sum_list)
  moreover have "set ws \<subseteq> set vs" using p by (metis Un_upper2 set_append set_mset_mset)
  then have "0 \<le> sum_list (map g ws)"
    using assms(2) by (intro sum_list_nonneg) auto
  ultimately show ?thesis by simp
qed

section \<open>The branches of the summary\<close>

lemma settle_unknown_ok: "is_ok (settle_unknown terminal t)"
  by (auto simp: settle_unknown_def Let_def subtract_token_usage_def)

lemma settle_reconciled_ok:
  "\<not> token_usage_exceeds (sum_phase_usages (attributed_usages (phase_rows t))) terminal \<Longrightarrow>
   is_ok (settle_reconciled terminal t)"
  by (auto simp: settle_reconciled_def Let_def subtract_token_usage_def)

lemma settle_statuses:
  "settle_unknown terminal t = Inr s \<Longrightarrow> sm_reconciliation s = ''unavailable''"
  "sm_reconciliation (settle_inconsistent terminal t) = ''inconsistent''"
  "settle_reconciled terminal t = Inr s \<Longrightarrow> sm_reconciliation s = ''reconciled''"
  by (auto simp: settle_unknown_def settle_inconsistent_def settle_reconciled_def Let_def res_simps)

lemma settle_reconciled_cases:
  assumes "settle_summary terminal t = Inr s" "sm_reconciliation s = ''reconciled''"
  shows "settle_reconciled terminal t = Inr s" "tu_total terminal \<noteq> None"
    "tu_total (sum_phase_usages (attributed_usages (phase_rows t))) \<noteq> None"
    "\<not> token_usage_exceeds (sum_phase_usages (attributed_usages (phase_rows t))) terminal"
  using assms settle_statuses(1) [of terminal t s] settle_statuses(2) [of terminal t]
  by (auto simp: settle_summary_def Let_def split: if_splits)

lemma settle_reconciled_parts:
  assumes "settle_reconciled terminal t = Inr s"
  shows "sm_phases s = phase_rows t" "sm_terminal s = terminal"
    "map_sum id Some (subtract_token_usage terminal (sum_phase_usages (attributed_usages (phase_rows t)))) =
       Inr (sm_orchestration s)"
  using assms by (auto simp: settle_reconciled_def Let_def res_simps)

lemma subtract_parts:
  assumes "subtract_token_usage a b = Inr c" "f \<in> set components" "f a = Some m" "f b = Some n"
  shows "n \<le> m \<and> f c = Some (m - n)"
  using assms by (auto simp: subtract_token_usage_def components_def token_usage_exceeds_def component_exceeds_def
      subtract_component_def split: if_splits)

section \<open>Properties\<close>

lemma each_delta_sub: "mset (concat (concat (map snd (tk_intervals (track errors es))))) \<subseteq># mset (deltas_of es)"
proof -
  have "mset (concat (concat (map snd (tk_intervals (track errors es))))) \<subseteq># mset (held (track errors es))"
    by (simp add: held_def)
  with track_ok [of errors es] show ?thesis
    by (auto simp: tracker_ok_def track_deltas intro: subset_mset.order_trans)
qed

lemma complete_session:
  assumes "ca_delta caps" "ca_delta_observed caps"
    and "\<forall>u\<in>set (deltas_of es). \<forall>f\<in>set components. \<exists>n\<ge>0. f u = Some n"
    and "tu_total terminal \<noteq> None" "\<not> token_usage_exceeds (sum_phase_usages (deltas_of es)) terminal"
  shows "\<exists>s. summarize_phase_tokens es terminal caps errors = Inr s \<and> sm_reconciliation s = ''reconciled'' \<and>
    sm_accounted s = Some 1"
proof -
  define t where "t = track errors es"
  define us where "us = concat (concat (map snd (tk_intervals t)))"
  let ?a = "sum_phase_usages (attributed_usages (phase_rows t))"
  have sub: "mset us \<subseteq># mset (deltas_of es)"
    using each_delta_sub [of errors es] by (simp add: us_def t_def)
  then have "set us \<subseteq> set (deltas_of es)" by (metis set_mset_mono set_mset_mset)
  then have w: "list_all whole us" "list_all whole (deltas_of es)"
    using assms(3) by (force simp: list_all_iff whole_def)+
  have le: "\<exists>m n. f ?a = Some m \<and> f (sum_phase_usages (deltas_of es)) = Some n \<and> m \<le> n" if "f \<in> set components" for f
  proof -
    have "\<forall>v\<in>set (deltas_of es). 0 \<le> the (f v)" using assms(3) that by fastforce
    from subset_sum_le [OF sub this] show ?thesis
      using attributed_sum [OF w(1) [unfolded us_def] that] sum_whole [OF w(2) that] by (simp add: us_def)
  qed
  have "\<not> token_usage_exceeds ?a terminal"
    using assms(5) le by (fastforce simp: token_usage_exceeds_def list_ex_iff component_exceeds_def split: option.splits)
  moreover have "tu_total \<in> set components" by (simp add: components_def)
  from le [OF this] have "tu_total ?a \<noteq> None" "tu_total (sum_phase_usages (deltas_of es)) \<noteq> None" by auto
  ultimately have "summarize_phase_tokens es terminal caps errors = settle_reconciled terminal t"
    "is_ok (settle_reconciled terminal t)"
    using assms by (auto simp: summarize_phase_tokens_def settle_summary_def t_def track_deltas intro: settle_reconciled_ok)
  then show ?thesis
    by (auto simp: is_ok_iff settle_reconciled_def Let_def res_simps)
qed

definition sample_usage :: "int \<Rightarrow> token_usage" where
  "sample_usage n = \<lparr>tu_input = Some n, tu_output = Some 0, tu_cache_read = Some 0, tu_cache_write = Some 0,
     tu_total = Some n, tu_measurement = Exact\<rparr>"

definition sample_caps :: capabilities where
  "sample_caps = \<lparr>ca_terminal = True, ca_delta = True, ca_marker = True, ca_delta_observed = True\<rparr>"

definition sample_session :: "agent_event list" where
  \<comment> \<open>two overlapping phases, one of them never closed\<close>
  "sample_session = [delta_event (sample_usage 3), marker_event ''start'' ''profile'', delta_event (sample_usage 4),
     marker_event ''end'' ''profile'', marker_event ''start'' ''planning'', marker_event ''start'' ''research'',
     delta_event (sample_usage 2)]"

lemmas sample_token_defs = sample_usage_def sample_caps_def sample_session_def delta_event_def marker_event_def
  deltas_of_def map_filter_def components_def token_usage_exceeds_def component_exceeds_def sum_phase_usages_def
  sum_token_usages_def sum_component_def observed_usage_def

lemma sample_session_reconciled:
  "\<exists>s. summarize_phase_tokens sample_session (sample_usage 10) sample_caps [] = Inr s \<and> sm_reconciliation s = ''reconciled''"
proof -
  have "case summarize_phase_tokens sample_session (sample_usage 10) sample_caps [] of
      Inl e \<Rightarrow> False | Inr s \<Rightarrow> sm_reconciliation s = ''reconciled''"
    by code_simp
  then show ?thesis by (auto split: sum.splits)
qed

text \<open>No usage delta is attributed twice.  Whatever the events of a session, well bracketed or not, the
  deltas the tracker has filed under the phases form a sub-multiset of the deltas that occurred, and the
  phases are always the seven of \<open>PHASES\<close> in their order.\<close>

theorem each_delta_once:
  "mset (concat (concat (map snd (tk_intervals (track errors es))))) \<subseteq># mset (deltas_of es) \<and>
   dict_keys (tk_intervals (track errors es)) = phase_names"
  using each_delta_sub track_ok by (auto simp: tracker_ok_def)

text \<open>C38: A well bracketed session is attributed exactly as written.  When every start marker of a known phase
  is followed by deltas and its own end marker, the intervals of each phase are, in order, the usages between
  the markers preceded by the last usage reported before the start since the previous end, and the
  tracker adds no reason code, however many usages lie outside.\<close>

theorem bracketed_session:
  assumes "\<forall>s\<in>set ss. fst (snd s) \<in> set phase_names" "p \<in> set phase_names"
  shows "tk_reasons (track errors (session_events ss rest)) = errors \<and>
    dict_get (tk_intervals (track errors (session_events ss rest))) p = Some (intervals_of p ss)"
proof -
  have new: "dict_get (tk_intervals (new_tracker errors)) q = Some []" if "q \<in> set phase_names" for q
    using that by (simp add: new_tracker_def map_of_map_restrict)
  have "idle (new_tracker errors)" by (simp add: idle_def new_tracker_def)
  from fold_session [OF this, of ss p] assms new
  have "idle (foldl event_step (new_tracker errors) (concat (map stretch_events ss))) \<and>
     tk_reasons (foldl event_step (new_tracker errors) (concat (map stretch_events ss))) = errors \<and>
     dict_get (tk_intervals (foldl event_step (new_tracker errors) (concat (map stretch_events ss)))) p =
       Some (intervals_of p ss)"
    by (simp add: dict_has_def dict_get_default_def) (simp add: new_tracker_def)
  then show ?thesis
    by (simp add: track_def session_events_def fold_outside idle_def Let_def)
qed

theorem bracketed_session_witness:
  "tk_reasons (track [''late''] (session_events [([zero_usage], ''profile'', [unavailable])] [])) = [''late''] \<and>
   dict_get (tk_intervals (track [''late''] (session_events [([zero_usage], ''profile'', [unavailable])] []))) ''profile'' =
     Some (intervals_of ''profile'' [([zero_usage], ''profile'', [unavailable])])"
  by (rule bracketed_session) (auto simp: phase_names_def)

text \<open>A complete session reconciles.  When the backend reports deltas, every delta has all five counts and none
  is negative, and no component of their sum exceeds the terminal usage (whose total is known), the summary is
  produced, is reconciled, whatever the phase markers were, and accounts for the whole session.\<close>

theorem complete_session_reconciles:
  assumes "ca_delta caps" "ca_delta_observed caps"
    and "\<forall>u\<in>set (deltas_of es). \<forall>f\<in>set components. \<exists>n\<ge>0. f u = Some n"
    and "tu_total terminal \<noteq> None" "\<not> token_usage_exceeds (sum_phase_usages (deltas_of es)) terminal"
  shows "\<exists>s. summarize_phase_tokens es terminal caps errors = Inr s \<and> sm_reconciliation s = ''reconciled'' \<and>
    sm_accounted s = Some 1"
  by (rule complete_session) (use assms in auto)

theorem complete_session_reconciles_witness:
  "\<exists>s. summarize_phase_tokens sample_session (sample_usage 10) sample_caps [] = Inr s \<and>
     sm_reconciliation s = ''reconciled'' \<and> sm_accounted s = Some 1"
  by (rule complete_session_reconciles) (auto simp: sample_token_defs)

text \<open>A reconciled summary adds up.  The usages of the phases sum to a usage with a known total, and in every component
  both it and the terminal usage report, the phases do not exceed the terminal and the orchestration is exactly
  the difference: phases and orchestration together are the terminal usage.\<close>

theorem reconciled_adds_up:
  assumes "ca_delta caps" "ca_delta_observed caps"
    and "summarize_phase_tokens es terminal caps errors = Inr s" "sm_reconciliation s = ''reconciled''"
  shows "\<exists>attributed orchestration. attributed = sum_phase_usages (attributed_usages (sm_phases s)) \<and>
    sm_orchestration s = Some orchestration \<and> tu_total attributed \<noteq> None \<and>
    (\<forall>f\<in>set components. \<forall>m n. f terminal = Some m \<longrightarrow> f attributed = Some n \<longrightarrow>
       n \<le> m \<and> f orchestration = Some (m - n))"
proof -
  have "settle_summary terminal (track errors es) = Inr s"
    using assms by (simp add: summarize_phase_tokens_def)
  note r = settle_reconciled_cases [OF this assms(4)]
  note parts = settle_reconciled_parts [OF r(1)]
  then obtain orch where
    o: "subtract_token_usage terminal (sum_phase_usages (attributed_usages (sm_phases s))) = Inr orch"
      "sm_orchestration s = Some orch"
    by (cases "subtract_token_usage terminal (sum_phase_usages (attributed_usages (sm_phases s)))") auto
  with r(3) parts(1) subtract_parts [OF o(1)] show ?thesis by auto
qed

theorem reconciled_adds_up_witness:
  "\<exists>s. summarize_phase_tokens sample_session (sample_usage 10) sample_caps [] = Inr s \<and>
    (\<exists>attributed orchestration. attributed = sum_phase_usages (attributed_usages (sm_phases s)) \<and>
    sm_orchestration s = Some orchestration \<and> tu_total attributed \<noteq> None \<and>
    (\<forall>f\<in>set components. \<forall>m n. f (sample_usage 10) = Some m \<longrightarrow> f attributed = Some n \<longrightarrow>
       n \<le> m \<and> f orchestration = Some (m - n)))"
proof -
  obtain s where s: "summarize_phase_tokens sample_session (sample_usage 10) sample_caps [] = Inr s"
    "sm_reconciliation s = ''reconciled''"
    using sample_session_reconciled by blast
  from reconciled_adds_up [OF _ _ s] s(1) show ?thesis by (auto simp: sample_caps_def)
qed

end
