(* ===== verification/Report_Accounting.thy ===== *)
theory Report_Accounting
  imports Phase_Accounting
begin

text \<open>
  Reports over stored summaries: a summary written by \<open>summary_dict\<close> is read back without loss, and attempts that
  each reconcile are accounted for in full by the aggregate.
\<close>

named_theorems stored_simps \<open>reading back what was stored\<close>

section \<open>Reading back\<close>

lemma usage_round_trip [stored_simps]: "usage_from_dict (usage_dict u) = Inr u"
  by (cases u; cases "tu_measurement u"; cases "tu_input u"; cases "tu_output u"; cases "tu_cache_read u";
      cases "tu_cache_write u"; cases "tu_total u")
    (simp_all add: usage_from_dict_def usage_dict_def get_item_def dict_get_default_def)

lemma usage_dict_not_null [stored_simps]: "usage_dict u \<noteq> VNull"
  by (simp add: usage_dict_def)

lemma stored_usage [stored_simps]:
  "usage_from_dict (of_opt usage_dict x) = Inr (case x of None \<Rightarrow> unavailable | Some u \<Rightarrow> u)"
  by (cases x) (simp_all add: usage_round_trip, simp add: usage_from_dict_def)

lemma stored_none [stored_simps]: "usage_from_dict VNull = Inr unavailable"
  by (simp add: usage_from_dict_def)

lemma summary_items [stored_simps]:
  "get_item (summary_dict s) ''terminal_usage'' = usage_dict (sm_terminal s)"
  "get_item (summary_dict s) ''phases'' = VDict (map (\<lambda>(p, r). (p, row_dict r)) (sm_phases s))"
  "get_item (summary_dict s) ''orchestration'' = of_opt usage_dict (sm_orchestration s)"
  "get_item (summary_dict s) ''unattributed'' = of_opt usage_dict (sm_unattributed s)"
  "get_item (summary_dict s) ''reconciliation_status'' = VStr (sm_reconciliation s)"
  "get_item (summary_dict s) ''reason_codes'' = VList (map VStr (sm_reasons s))"
  by (simp_all add: get_item_def summary_dict_def dict_get_default_def)

lemma stored_row [stored_simps]:
  "as_dict (get_item (map (\<lambda>(p, r). (p, row_dict r)) rows) p) =
     (case dict_get rows p of None \<Rightarrow> None | Some r \<Rightarrow> as_dict (row_dict r))"
  by (induction rows) (auto simp: get_item_def dict_get_default_def)

lemma row_items:
  assumes "as_dict (row_dict r) = Some d"
  shows "get_item d ''usage'' = of_opt usage_dict (pr_usage r)" "get_item d ''interval_count'' = VInt (pr_count r)"
  using assms by (auto simp: row_dict_def get_item_def dict_get_default_def)

lemma row_is_dict: "\<exists>d. as_dict (row_dict r) = Some d"
  by (simp add: row_dict_def)

lemma is_ok_bind: "is_ok m \<Longrightarrow> (\<And>a. is_ok (f a)) \<Longrightarrow> is_ok (bind_res m f)"
  by (auto simp: is_ok_iff)

lemma map_res_ok: "list_all (\<lambda>x. is_ok (f x)) xs \<Longrightarrow> is_ok (map_res f xs)"
  by (induction xs) (auto simp: is_ok_iff)

lemma fold_res_ok: "(\<And>s x. x \<in> set xs \<Longrightarrow> is_ok (f s x)) \<Longrightarrow> is_ok (fold_res f s xs)"
proof (induction xs arbitrary: s)
  case (Cons x xs)
  then obtain s' where "f s x = Inr s'" by (force simp: is_ok_iff)
  with Cons show ?case by simp
qed simp

section \<open>Aggregates of summaries\<close>

definition stored_as :: "pyval dict \<Rightarrow> token_summary \<Rightarrow> bool" where
  "stored_as a s \<longleftrightarrow> get_item a ''phase_tokens'' = VDict (summary_dict s)"

lemma stored_summaries: "list_all2 stored_as attempts ss \<Longrightarrow> token_summaries attempts = map summary_dict ss"
  by (induction rule: list_all2_induct) (auto simp: token_summaries_def stored_as_def map_filter_def)

lemma stored_terminals:
  "observed_terminals (map summary_dict ss) = Inr (filter observed_usage (map sm_terminal ss))"
proof -
  have "map_res (\<lambda>s. usage_from_dict (get_item s ''terminal_usage'')) (map summary_dict ss) = Inr (map sm_terminal ss)"
    by (induction ss) (auto simp: stored_simps)
  then show ?thesis by (simp add: observed_terminals_def)
qed

lemma stored_phases_ok: "is_ok (aggregate_phases (map summary_dict ss))"
proof -
  have step: "is_ok (tally_summary p t (summary_dict s))" for p t s
  proof (cases "dict_get (sm_phases s) p")
    case None
    then show ?thesis by (simp add: tally_summary_def stored_simps)
  next
    case (Some r)
    obtain d where "as_dict (row_dict r) = Some d" using row_is_dict by blast
    with Some show ?thesis by (cases "pr_usage r") (simp_all add: tally_summary_def stored_simps row_items)
  qed
  have "is_ok (aggregate_phase (map summary_dict ss) p)" for p
  proof -
    have "is_ok (fold_res (tally_summary p) t (map summary_dict ss))" for t
      by (rule fold_res_ok) (auto simp: step)
    then show ?thesis unfolding aggregate_phase_def by (rule is_ok_bind) (simp add: Let_def)
  qed
  then show ?thesis unfolding aggregate_phases_def
    by (intro map_res_ok) (auto simp: list_all_iff intro: is_ok_bind)
qed

lemma stored_reasons: "is_ok (summary_reasons str_other (map summary_dict ss))"
proof -
  have "is_ok (map_res (\<lambda>s. reason_items (get_item s ''reason_codes'')) (map summary_dict ss))"
    by (intro map_res_ok) (simp add: list_all_iff stored_simps)
  then show ?thesis by (auto simp: summary_reasons_def is_ok_iff)
qed

definition seen_phases :: "token_summary \<Rightarrow> token_usage list" where
  "seen_phases s = filter observed_usage (attributed_usages (sm_phases s))"

lemma tally_phase_stored:
  assumes "dict_get rows p = Some r"
  shows "tally_phase (map (\<lambda>(p, r). (p, row_dict r)) rows) t p =
     Inr (t\<lparr>ct_attributed := ct_attributed t @ filter observed_usage (attributed_usages [(p, r)])\<rparr>)"
proof -
  obtain d where d: "as_dict (row_dict r) = Some d" using row_is_dict by blast
  show ?thesis
    by (cases "pr_usage r") (simp_all add: tally_phase_def stored_simps row_items [OF d] assms d observed_usage_def unavailable_def)
qed

lemma tally_phases_stored:
  assumes "set ps \<subseteq> set (dict_keys rows)"
  shows "fold_res (tally_phase (map (\<lambda>(p, r). (p, row_dict r)) rows)) t ps =
     Inr (t\<lparr>ct_attributed := ct_attributed t @
        filter observed_usage (attributed_usages (map (\<lambda>p. (p, the (dict_get rows p))) ps))\<rparr>)"
  using assms
proof (induction ps arbitrary: t)
  case (Cons p ps)
  then obtain r where r: "dict_get rows p = Some r"
    by (auto simp: dict_keys_def dest: weak_map_of_SomeI)
  from Cons show ?case
    by (simp add: tally_phase_stored [OF r] r)
qed simp

lemma tally_stored:
  assumes "dict_keys (sm_phases s) = phase_names" "tu_total (sm_terminal s) \<noteq> None"
  shows "tally_coverage str_other t (summary_dict s) = Inr
     \<lparr>ct_attributed = ct_attributed t @ seen_phases s,
      ct_orchestration = ct_orchestration t @ filter observed_usage (case sm_orchestration s of None \<Rightarrow> [] | Some u \<Rightarrow> [u]),
      ct_unattributed = ct_unattributed t @ filter observed_usage (case sm_unattributed s of None \<Rightarrow> [] | Some u \<Rightarrow> [u]),
      ct_status = ct_status t @ [sm_reconciliation s]\<rparr>"
proof -
  have "map (\<lambda>p. (p, the (dict_get (sm_phases s) p))) phase_names = sm_phases s"
  proof -
    have "distinct (dict_keys (sm_phases s))" unfolding assms(1) by (simp add: phase_names_def)
    then have "map (\<lambda>p. (p, the (dict_get (sm_phases s) p))) (dict_keys (sm_phases s)) = sm_phases s"
      by (auto simp: dict_keys_def intro!: map_idI)
    then show ?thesis by (simp add: assms(1))
  qed
  then show ?thesis
    using assms(2)
    by (cases "sm_orchestration s"; cases "sm_unattributed s"; cases t)
      (auto simp: tally_coverage_def stored_simps tally_phases_stored assms(1) seen_phases_def Let_def
        observed_usage_def unavailable_def)
qed

section \<open>Reconciled attempts\<close>

definition settled :: "token_summary \<Rightarrow> bool" where
  "settled s \<longleftrightarrow> sm_reconciliation s = ''reconciled'' \<and> dict_keys (sm_phases s) = phase_names \<and>
     (\<exists>orch. sm_orchestration s = Some orch \<and>
        subtract_token_usage (sm_terminal s) (sum_phase_usages (attributed_usages (sm_phases s))) = Inr orch) \<and>
     tu_total (sm_terminal s) \<noteq> None \<and> tu_total (sum_phase_usages (attributed_usages (sm_phases s))) \<noteq> None"

lemma settledI:
  assumes "ca_delta caps" "ca_delta_observed caps" "summarize_phase_tokens es terminal caps errors = Inr s"
    "sm_reconciliation s = ''reconciled''"
  shows "settled s"
proof -
  have "settle_summary terminal (track errors es) = Inr s"
    using assms by (simp add: summarize_phase_tokens_def)
  note r = settle_reconciled_cases [OF this assms(4)]
  note parts = settle_reconciled_parts [OF r(1)]
  have "dict_keys (phase_rows (track errors es)) = dict_keys (tk_intervals (track errors es))"
    by (simp add: phase_rows_def dict_keys_def case_prod_unfold comp_def)
  with track_ok [of errors es] have "dict_keys (sm_phases s) = phase_names"
    by (simp add: parts tracker_ok_def)
  with parts r(2,3) assms(4) show ?thesis
    by (cases "subtract_token_usage terminal (sum_phase_usages (attributed_usages (phase_rows (track errors es))))")
      (auto simp: settled_def)
qed

lemma sum_phase_component:
  assumes "f \<in> set components" "tu_total (sum_phase_usages us) \<noteq> None"
  shows "f (sum_phase_usages us) = sum_component f (filter observed_usage us)"
proof (cases "us = []")
  case True
  then show ?thesis using assms(1)
    by (auto simp: sum_phase_usages_def zero_usage_def components_def sum_component_simps)
next
  case False
  then have "filter observed_usage us \<noteq> []"
    using assms(2) by (auto simp: sum_phase_usages_def sum_token_usages_def unavailable_def Let_def)
  with False assms(1) show ?thesis
    by (auto simp: sum_phase_usages_def sum_token_usages_cases components_def Let_def)
qed

lemma sum_observed_total: "list_all observed_usage us \<Longrightarrow> tu_total (sum_phase_usages us) \<noteq> None"
  by (auto simp: sum_phase_usages_def zero_usage_def sum_token_usages_def Let_def list_all_iff filter_empty_conv)

lemma settled_parts:
  assumes "settled s"
  obtains orch T A where "sm_orchestration s = Some orch" "tu_total (sm_terminal s) = Some T"
    "sum_component tu_total (seen_phases s) = Some A" "tu_total orch = Some (T - A)"
proof -
  let ?a = "sum_phase_usages (attributed_usages (sm_phases s))"
  from assms obtain orch T where o: "sm_orchestration s = Some orch" "tu_total (sm_terminal s) = Some T"
    "subtract_token_usage (sm_terminal s) ?a = Inr orch" "tu_total ?a \<noteq> None"
    by (auto simp: settled_def)
  then obtain A where A: "tu_total ?a = Some A" by blast
  have c: "tu_total \<in> set components" by (simp add: components_def)
  have "tu_total ?a = sum_component tu_total (seen_phases s)"
    using sum_phase_component [OF c o(4)] by (simp add: seen_phases_def)
  with subtract_parts [OF o(3) c o(2) A] o that A show thesis by simp
qed

lemma settled_within:
  assumes "settled s" "f \<in> set components" "f (sm_terminal s) = Some m" "sum_component f (seen_phases s) = Some n"
  shows "n \<le> m"
proof -
  let ?a = "sum_phase_usages (attributed_usages (sm_phases s))"
  from assms(1) obtain orch where o: "subtract_token_usage (sm_terminal s) ?a = Inr orch" "tu_total ?a \<noteq> None"
    by (auto simp: settled_def)
  have "f ?a = sum_component f (seen_phases s)"
    using sum_phase_component [OF assms(2) o(2)] by (simp add: seen_phases_def)
  with subtract_parts [OF o(1) assms(2,3)] assms(4) show ?thesis by simp
qed

lemma tally_settled:
  assumes "\<forall>s\<in>set ss. settled s"
  shows "\<exists>un. fold_res (tally_coverage str_other) t (map summary_dict ss) = Inr
     \<lparr>ct_attributed = ct_attributed t @ concat (map seen_phases ss),
      ct_orchestration = ct_orchestration t @ map (the \<circ> sm_orchestration) ss, ct_unattributed = un,
      ct_status = ct_status t @ map (\<lambda>_. ''reconciled'') ss\<rparr>"
  using assms
proof (induction ss arbitrary: t)
  case (Cons s ss)
  from Cons.prems have s: "settled s" by simp
  then obtain orch T A where o: "sm_orchestration s = Some orch" "tu_total (sm_terminal s) = Some T"
    "tu_total orch = Some (T - A)" by (rule settled_parts)
  from s have "dict_keys (sm_phases s) = phase_names" "sm_reconciliation s = ''reconciled''" by (auto simp: settled_def)
  with o obtain t' where t': "tally_coverage str_other t (summary_dict s) = Inr t'"
    "ct_attributed t' = ct_attributed t @ seen_phases s" "ct_orchestration t' = ct_orchestration t @ [orch]"
    "ct_status t' = ct_status t @ [''reconciled'']"
    by (simp add: tally_stored observed_usage_def)
  from Cons.IH [of t'] Cons.prems obtain un where "fold_res (tally_coverage str_other) t' (map summary_dict ss) = Inr
     \<lparr>ct_attributed = ct_attributed t' @ concat (map seen_phases ss),
      ct_orchestration = ct_orchestration t' @ map (the \<circ> sm_orchestration) ss, ct_unattributed = un,
      ct_status = ct_status t' @ map (\<lambda>_. ''reconciled'') ss\<rparr>"
    by auto
  then show ?case using o by (simp add: t')
next
  case Nil
  show ?case by (rule exI [of _ "ct_unattributed t"]) simp
qed

lemma settled_sums:
  assumes "\<forall>s\<in>set ss. settled s" "f \<in> set components"
    "sum_component f (map sm_terminal ss) = Some m" "sum_component f (concat (map seen_phases ss)) = Some n"
  shows "n \<le> m"
  using assms(1,3,4)
proof (induction ss arbitrary: m n)
  case (Cons s ss)
  then obtain a b c d where "f (sm_terminal s) = Some a" "sum_component f (map sm_terminal ss) = Some b" "m = a + b"
    "sum_component f (seen_phases s) = Some c" "sum_component f (concat (map seen_phases ss)) = Some d" "n = c + d"
    by (auto simp: sum_component_simps sum_component_append split: option.splits)
  with Cons settled_within [of s f a c] assms(2) show ?case by (simp add: add_mono)
qed (simp add: sum_component_simps)

lemma settled_total:
  assumes "\<forall>s\<in>set ss. settled s"
  shows "\<exists>A. sum_component tu_total (concat (map seen_phases ss)) = Some A \<and>
    sum_component tu_total (map (the \<circ> sm_orchestration) ss) =
      Some (sum_list (map (\<lambda>s. the (tu_total (sm_terminal s))) ss) - A)"
  using assms
proof (induction ss)
  case (Cons s ss)
  from Cons.prems have "settled s" by simp
  then obtain orch T A where "sm_orchestration s = Some orch" "tu_total (sm_terminal s) = Some T"
    "sum_component tu_total (seen_phases s) = Some A" "tu_total orch = Some (T - A)" by (rule settled_parts)
  with Cons show ?case
    by (auto simp: sum_component_simps sum_component_append)
qed (simp add: sum_component_simps)

lemma ratio_whole: "0 \<le> n \<Longrightarrow> ratio n n = Some 1"
  by (simp add: ratio_def half_even_def Let_def)

section \<open>Rounding\<close>

definition nearly_whole :: "agent_event list" where
  \<comment> \<open>all but one token of the session lie in a phase\<close>
  "nearly_whole = [delta_event (sample_usage 1), delta_event (sample_usage 0), marker_event ''start'' ''profile'',
     delta_event (sample_usage 9999999), marker_event ''end'' ''profile'']"

text \<open>\<open>measurement\<close> is decided on the rounded coverage, so it says \<open>exact\<close> although a token lies outside the phases.\<close>

lemma rounding_hides_orchestration:
  "case summarize_phase_tokens nearly_whole (sample_usage 10000000) sample_caps [] of
     Inl e \<Rightarrow> False
   | Inr s \<Rightarrow> sm_measurement s = Exact \<and> map_option tu_total (sm_orchestration s) = Some (Some 1)"
  by code_simp

section \<open>Properties\<close>

lemma sum_phase_all:
  assumes "list_all observed_usage us" "f \<in> set components"
  shows "f (sum_phase_usages us) = sum_component f us"
  using sum_phase_component [OF assms(2) sum_observed_total [OF assms(1)]] assms(1) by (simp add: list_all_iff)

lemma orchestrations_observed:
  assumes "\<forall>s\<in>set ss. settled s"
  shows "list_all observed_usage (map (the \<circ> sm_orchestration) ss)"
proof -
  have "observed_usage (the (sm_orchestration s))" if "settled s" for s
    using that by (auto elim!: settled_parts simp: observed_usage_def)
  with assms show ?thesis by (simp add: list_all_iff)
qed

lemma terminal_sum:
  assumes "\<forall>s\<in>set ss. settled s"
  shows "tu_total (sum_phase_usages (map sm_terminal ss)) = Some (sum_list (map (\<lambda>s. the (tu_total (sm_terminal s))) ss))"
proof -
  have o: "list_all observed_usage (map sm_terminal ss)"
    using assms by (auto simp: list_all_iff observed_usage_def settled_def)
  have "sum_component tu_total (map sm_terminal ss) = Some (sum_list (map (\<lambda>s. the (tu_total (sm_terminal s))) ss))"
    using o by (auto simp: sum_component_def list_all_iff observed_usage_def comp_def)
  then show ?thesis using sum_phase_all [OF o] by (simp add: components_def)
qed

lemma within_terminal:
  assumes "\<forall>s\<in>set ss. settled s"
  shows "\<not> token_usage_exceeds (sum_phase_usages (concat (map seen_phases ss))) (sum_phase_usages (map sm_terminal ss))"
proof -
  have o: "list_all observed_usage (map sm_terminal ss)" "list_all observed_usage (concat (map seen_phases ss))"
    using assms by (auto simp: list_all_iff observed_usage_def settled_def seen_phases_def)
  have "\<not> component_exceeds (f (sum_phase_usages (concat (map seen_phases ss)))) (f (sum_phase_usages (map sm_terminal ss)))"
    if "f \<in> set components" for f
    using sum_phase_all [OF o(1) that] sum_phase_all [OF o(2) that]
    by (auto simp: component_exceeds_def not_less dest: settled_sums [OF assms that] split: option.splits)
  then show ?thesis by (auto simp: token_usage_exceeds_def list_ex_iff)
qed

definition sample_attempt :: "token_summary \<Rightarrow> pyval dict" where
  "sample_attempt s = [(''phase_tokens'', VDict (summary_dict s))]"

text \<open>C34: Attempts that each reconcile with usage deltas are accounted for in full.  When there is at least one attempt, and every
  attempt carries the stored dictionary of a reconciled summary of a session whose adapter declares usage deltas and whose
  stream had some, with a terminal total that is not negative, then the aggregate of the attempts raises nothing, is reconciled
  itself, has the sum of the terminal totals as its terminal total, counts every attempt, and phases and orchestration together
  cover all of it: \<open>accounted_coverage\<close> is exactly 1.  (A session without deltas is stored as reconciled too, with nothing
  accounted; such attempts are excluded.)\<close>

theorem aggregate_accounts:
  assumes "list_all2 stored_as attempts ss" "ss \<noteq> []"
    and "\<forall>s\<in>set ss. sm_reconciliation s = ''reconciled'' \<and> 0 \<le> the (tu_total (sm_terminal s)) \<and>
      (\<exists>es terminal caps errors. ca_delta caps \<and> ca_delta_observed caps \<and>
         summarize_phase_tokens es terminal caps errors = Inr s)"
  shows "\<exists>r. aggregate_attempt_tokens str_other attempts = Inr r \<and> sm_reconciliation r = ''reconciled'' \<and>
    sm_accounted r = Some 1 \<and> rp_with_terminal r = length attempts \<and>
    tu_total (sm_terminal r) = Some (sum_list (map (\<lambda>s. the (tu_total (sm_terminal s))) ss))"
proof -
  have ok: "\<forall>s\<in>set ss. settled s" using assms(3) settledI by blast
  let ?T = "sum_list (map (\<lambda>s. the (tu_total (sm_terminal s))) ss)"
  let ?terminals = "map sm_terminal ss" and ?seen = "concat (map seen_phases ss)"
  have len: "length attempts = length ss" using assms(1) by (rule list_all2_lengthD)
  have obs: "list_all observed_usage ?terminals" "list_all observed_usage ?seen"
    using ok by (auto simp: list_all_iff observed_usage_def settled_def seen_phases_def)
  have "?T \<ge> 0" using assms(3) by (intro sum_list_nonneg) auto
  note T = terminal_sum [OF ok]
  obtain A where A: "sum_component tu_total ?seen = Some A"
    "sum_component tu_total (map (the \<circ> sm_orchestration) ss) = Some (?T - A)"
    using settled_total [OF ok] by blast
  have a: "tu_total (sum_phase_usages ?seen) = Some A" "\<not> token_usage_exceeds (sum_phase_usages ?seen) (sum_phase_usages ?terminals)"
    using within_terminal [OF ok] A(1) sum_phase_all [OF obs(2)] by (auto simp: components_def)
  have b: "tu_total (sum_phase_usages (map (the \<circ> sm_orchestration) ss)) = Some (?T - A)"
    using sum_phase_all [OF orchestrations_observed [OF ok]] A(2) by (simp add: components_def)
  obtain un where t: "fold_res (tally_coverage str_other)
      \<lparr>ct_attributed = [], ct_orchestration = [], ct_unattributed = [], ct_status = []\<rparr> (map summary_dict ss) = Inr
      \<lparr>ct_attributed = ?seen, ct_orchestration = map (the \<circ> sm_orchestration) ss, ct_unattributed = un,
       ct_status = map (\<lambda>_. ''reconciled'') ss\<rparr>"
    using tally_settled [OF ok, of str_other "\<lparr>ct_attributed = [], ct_orchestration = [], ct_unattributed = [], ct_status = []\<rparr>"]
    by auto
  obtain phases where p: "aggregate_phases (map summary_dict ss) = Inr phases"
    using stored_phases_ok by (auto simp: is_ok_iff)
  obtain codes where c: "summary_reasons str_other (map summary_dict ss) = Inr codes"
    using stored_reasons by (auto simp: is_ok_iff)
  have f: "filter observed_usage ?terminals = ?terminals" using obs(1) by (simp add: list_all_iff)
  have "total_terminal ?terminals (length attempts) = sum_phase_usages ?terminals"
    using assms(2) by (simp add: total_terminal_def len)
  moreover have "''inconsistent'' \<notin> set (map (\<lambda>_. ''reconciled'') ss)" by auto
  ultimately show ?thesis
    unfolding aggregate_attempt_tokens_def stored_summaries [OF assms(1)] Let_def stored_terminals f
    using T a b \<open>?T \<ge> 0\<close> len
    by (simp add: p c t judge_def Let_def or_zero_def ratio_whole)
qed

theorem aggregate_accounts_witness:
  "\<exists>s r. summarize_phase_tokens sample_session (sample_usage 10) sample_caps [] = Inr s \<and>
    aggregate_attempt_tokens (\<lambda>_. []) [sample_attempt s, sample_attempt s] = Inr r \<and> sm_reconciliation r = ''reconciled'' \<and>
    sm_accounted r = Some 1 \<and> rp_with_terminal r = length [sample_attempt s, sample_attempt s] \<and>
    tu_total (sm_terminal r) = Some (sum_list (map (\<lambda>s. the (tu_total (sm_terminal s))) [s, s]))"
proof -
  obtain s where s: "summarize_phase_tokens sample_session (sample_usage 10) sample_caps [] = Inr s"
    "sm_reconciliation s = ''reconciled''"
    using sample_session_reconciled by blast
  have "sm_terminal s = sample_usage 10"
    using settle_reconciled_parts(2) [OF settle_reconciled_cases(1) [OF _ s(2), of "sample_usage 10" "track [] sample_session"]] s(1)
    by (simp add: summarize_phase_tokens_def sample_caps_def)
  then have "0 \<le> the (tu_total (sm_terminal s))" by (simp add: sample_usage_def)
  moreover have "ca_delta sample_caps" "ca_delta_observed sample_caps" by (simp_all add: sample_caps_def)
  ultimately have "\<exists>r. aggregate_attempt_tokens (\<lambda>_. []) [sample_attempt s, sample_attempt s] = Inr r \<and>
      sm_reconciliation r = ''reconciled'' \<and> sm_accounted r = Some 1 \<and>
      rp_with_terminal r = length [sample_attempt s, sample_attempt s] \<and>
      tu_total (sm_terminal r) = Some (sum_list (map (\<lambda>s. the (tu_total (sm_terminal s))) [s, s]))"
    using s by (intro aggregate_accounts) (auto simp: stored_as_def sample_attempt_def get_item_def dict_get_default_def)
  with s(1) show ?thesis by blast
qed

end
