(* ===== verification/Abba.thy ===== *)
theory Abba
  imports TokenReports
begin

text \<open>
  The A/B/B/A comparison of a candidate kernel with the incumbent: its schedule, the reading of one run's result and
  the merge of shape batches (src/src/aka/legacy/evaluation/abba.py), and its configured bounds
  (src/src/aka/contracts/evaluation.py, src/src/aka/light/evaluation/policy.py).  Results are JSON values.
  \<open>float_text\<close> is Python's reading of a decimal text by \<open>float\<close>, \<open>str_other\<close> the text of a value that is neither a
  string, an integer, a boolean nor null.  Floats are exact reals and the three specials, and an integer too large for a
  float is not modelled.
\<close>

section \<open>Floats\<close>

fun pf_add :: "pyfloat \<Rightarrow> pyfloat \<Rightarrow> pyfloat" where
  "pf_add (Fin x) (Fin y) = Fin (x + y)"
| "pf_add NaN _ = NaN"
| "pf_add _ NaN = NaN"
| "pf_add PosInf NegInf = NaN"
| "pf_add NegInf PosInf = NaN"
| "pf_add (Fin x) y = y"
| "pf_add x _ = x"

fun pf_over :: "pyfloat \<Rightarrow> nat \<Rightarrow> pyfloat" where
  \<comment> \<open>division by a positive count\<close>
  "pf_over (Fin x) n = Fin (x / real n)"
| "pf_over f n = f"

fun to_float :: "(string \<Rightarrow> pyfloat option) \<Rightarrow> pyval \<Rightarrow> exn + pyfloat" where
  \<comment> \<open>\<open>float(v)\<close>\<close>
  "to_float float_text (VStr s) =
     (case float_text s of None \<Rightarrow> Inl (ValueError (Msg ''could not convert string to float'')) | Some f \<Rightarrow> Inr f)"
| "to_float float_text v =
     (case num_of v of None \<Rightarrow> Inl (TypeError (Msg ''float() argument must be a string or a real number'')) | Some f \<Rightarrow> Inr f)"

definition positive_finite :: "pyval \<Rightarrow> real option" where
  "positive_finite v = (case num_of v of Some (Fin x) \<Rightarrow> if x \<le> 0 then None else Some x | _ \<Rightarrow> None)"

fun fin_part :: "pyfloat \<Rightarrow> real" where
  "fin_part (Fin x) = x"
| "fin_part _ = 0"

definition geomean :: "pyfloat list \<Rightarrow> real option" where
  "geomean vs =
     (if vs = [] \<or> list_ex (\<lambda>v. pf_le v (Fin 0) \<or> \<not> pf_finite v) vs then None
      else Some (exp (sum_list (map (\<lambda>v. ln (fin_part v)) vs) / real (length vs))))"

section \<open>Configured bounds\<close>

definition is_positive_int :: "pyval \<Rightarrow> bool" where
  "is_positive_int v = (case v of VInt i \<Rightarrow> i > 0 | _ \<Rightarrow> False)"

fun the_int :: "pyval \<Rightarrow> int" where
  "the_int (VInt i) = i"
| "the_int _ = 0"

definition derived_evaluation_timeout :: "pyval \<Rightarrow> pyval \<Rightarrow> pyval \<Rightarrow> pyval \<Rightarrow> exn + int" where
  "derived_evaluation_timeout repeats per_run candidate performance =
     (if list_ex (\<lambda>v. \<not> is_positive_int v) [repeats, per_run, candidate, performance]
      then Inl (ValueError (Msg ''evaluation timing inputs must be positive integers''))
      else Inr (max (the_int candidate + the_int performance) (2 * the_int repeats * the_int per_run + 30)))"

definition typed_gateway_job_timeout :: "pyval \<Rightarrow> pyval \<Rightarrow> exn + int" where
  "typed_gateway_job_timeout command grace =
     (if \<not> is_positive_int command
      then Inl (ValueError (Msg ''Gateway command timeout must be a positive integer''))
      else if \<not> (case grace of VInt i \<Rightarrow> i \<ge> 0 | _ \<Rightarrow> False)
      then Inl (ValueError (Msg ''Gateway queue wait grace must be a non-negative integer''))
      else let requested = the_int command + the_int grace in
        if requested > 10800
        then Inl (ValueError (Msg ''Configured Gateway allocation exceeds Agate's 10800-second typed-job limit''))
        else Inr requested)"

definition validate_abba_repeats :: "pyval \<Rightarrow> exn + unit" where
  "validate_abba_repeats v =
     guard_res (case v of VInt i \<Rightarrow> 2 \<le> i \<and> i \<le> 16 \<and> even i | _ \<Rightarrow> False)
       (ValueError (Msg ''--comparison-repeats must be even, in 2..16 (measurements per side)''))"

section \<open>The schedule\<close>

type_synonym schedule = "(string \<times> nat) list"

definition verification_schedule :: "int \<Rightarrow> schedule" where
  "verification_schedule repeats =
     concat (map (\<lambda>r. map (\<lambda>revision. (revision, r))
                   (if even r then [''incumbent'', ''candidate''] else [''candidate'', ''incumbent'']))
            [0..<nat (max 1 repeats)])"

definition schedule_rows :: "schedule \<Rightarrow> pyval" where
  "schedule_rows schedule =
     VList (map (\<lambda>(revision, r). VDict [(''revision'', VStr revision), (''repeat'', VInt (int r))]) schedule)"

definition actual_rows :: "pyval dict list \<Rightarrow> pyval" where
  "actual_rows rows =
     VList (map (\<lambda>row. VDict [(''revision'', get_item row ''revision''), (''repeat'', get_item row ''repeat'')]) rows)"

section \<open>One result\<close>

definition result_latency :: "pyval \<Rightarrow> real option" where
  "result_latency result =
     (case as_dict result of
        None \<Rightarrow> None
      | Some d \<Rightarrow>
          if \<not> truthy (get_item d ''all_pass'') then None
          else let v = get_item d ''latency_us_geomean'' in
            positive_finite
              (if is_number v then v
               else case as_dict (get_item d ''performance'') of None \<Rightarrow> VNull | Some p \<Rightarrow> get_item p ''latency_us''))"

definition raw_score :: "pyval dict \<Rightarrow> pyval" where
  "raw_score d = dict_get_default d ''performance_score'' (get_item d ''speedup_vs_ref_geomean'')"

definition result_performance_score :: "pyval \<Rightarrow> real option" where
  "result_performance_score result =
     (case as_dict result of
        None \<Rightarrow> None
      | Some d \<Rightarrow>
          if \<not> truthy (get_item d ''all_pass'') then None
          else if is_bool (raw_score d) then None else positive_finite (raw_score d))"

section \<open>Shape batches\<close>

definition latency_items :: "pyval dict \<Rightarrow> exn + pyval dict" where
  "latency_items result =
     (let v = get_item result ''latency_us_by_shape'' in
      if truthy v then (case v of VDict d \<Rightarrow> Inr d | _ \<Rightarrow> Inl (AttributeError ''items'')) else Inr [])"

definition batch_latencies :: "(string \<Rightarrow> pyfloat option) \<Rightarrow> pyval dict list \<Rightarrow> exn + pyfloat dict" where
  "batch_latencies float_text results =
     fold_res (\<lambda>acc result. bind_res (latency_items result) (\<lambda>items.
       fold_res (\<lambda>a (shape, v). bind_res (to_float float_text v) (\<lambda>f. Inr (dict_set a shape f))) acc items)) [] results"

definition weighted_scores :: "pyval dict list \<Rightarrow> (real \<times> nat) list" where
  "weighted_scores results =
     List.map_filter (\<lambda>r. case (positive_finite (raw_score r), as_dict (get_item r ''latency_us_by_shape'')) of
         (Some score, Some d) \<Rightarrow> if is_bool (raw_score r) then None else Some (score, length d)
       | _ \<Rightarrow> None) results"

definition batch_score :: "pyval dict list \<Rightarrow> string list \<Rightarrow> real option" where
  "batch_score results shape_ids =
     (let ws = weighted_scores results; n = sum_list (map snd ws) in
      if n = length shape_ids \<and> n > 0 then Some (sum_list (map (\<lambda>(s, k). s * real k) ws) / real n) else None)"

definition batch_failures :: "(pyval \<Rightarrow> string) \<Rightarrow> pyval dict list \<Rightarrow> exn + string list" where
  "batch_failures str_other results =
     bind_res (map_res (\<lambda>r. reason_items (get_item r ''failures'')) results)
       (\<lambda>vs. Inr (map (py_str str_other) (concat vs)))"

fun py_max :: "pyfloat list \<Rightarrow> pyfloat" where
  \<comment> \<open>of a nonempty list: a later element wins only when it is greater\<close>
  "py_max (x # xs) = foldl (\<lambda>m y. if pf_lt m y then y else m) x xs"
| "py_max [] = NaN"

definition worst_error :: "(string \<Rightarrow> pyfloat option) \<Rightarrow> string \<Rightarrow> pyval dict list \<Rightarrow> exn + pyval" where
  "worst_error float_text k results =
     bind_res (map_res (\<lambda>r. let v = get_item r k in to_float float_text (if truthy v then v else VFloat (Fin 0))) results)
       (\<lambda>fs. Inr (VFloat (py_max fs)))"

definition of_real :: "real option \<Rightarrow> pyval" where
  "of_real x = of_opt (VFloat \<circ> Fin) x"

definition merge_batch_results ::
  "(string \<Rightarrow> pyfloat option) \<Rightarrow> (pyval \<Rightarrow> string) \<Rightarrow> pyval dict list \<Rightarrow> string list \<Rightarrow> exn + pyval dict" where
  "merge_batch_results float_text str_other results shape_ids =
     bind_res (batch_latencies float_text results) (\<lambda>by_shape.
     let missing = filter (\<lambda>s. \<not> dict_has by_shape s) shape_ids;
         latencies = List.map_filter (dict_get by_shape) shape_ids;
         score = batch_score results shape_ids in
     if results = [] then Inl (OtherException ''IndexError'' ''list index out of range'') else
     bind_res (batch_failures str_other results) (\<lambda>reported.
     bind_res (worst_error float_text ''max_abs_err'' results) (\<lambda>abs_err.
     bind_res (worst_error float_text ''max_rel_err'' results) (\<lambda>rel_err.
     Inr (dict_update (last results)
       [(''all_pass'', VBool (missing = [] \<and> score \<noteq> None \<and> list_all (\<lambda>r. truthy (get_item r ''all_pass'')) results)),
        (''failures'', VList (map VStr (reported @
            (if missing \<noteq> [] then [''shape batches did not return latency for: '' @ str_join '', '' missing] else [])))),
        (''latency_us_geomean'', if missing \<noteq> [] then VNull else of_real (geomean latencies)),
        (''latency_us_arith_mean'',
           if missing \<noteq> [] then VNull
           else if latencies \<noteq> [] then VFloat (pf_over (foldl pf_add (Fin 0) latencies) (length latencies)) else VFloat (Fin 0)),
        (''latency_us_by_shape'', VDict (map (\<lambda>(s, f). (s, VFloat f)) by_shape)),
        (''speedup_vs_ref_mean'', of_real score), (''speedup_vs_ref_geomean'', VNull), (''performance_score'', of_real score),
        (''max_abs_err'', abs_err), (''max_rel_err'', rel_err)])))))"

fun list_items :: "pyval \<Rightarrow> pyval list" where
  "list_items (VList xs) = xs"
| "list_items _ = []"

definition run_rows :: "pyval dict \<Rightarrow> pyval dict list" where
  \<comment> \<open>the rows of a payload whose rows are known to be dictionaries\<close>
  "run_rows payload = List.map_filter as_dict (list_items (get_item payload ''runs''))"

definition check_batch_payload :: "(pyval \<Rightarrow> string) \<Rightarrow> schedule \<Rightarrow> pyval dict \<Rightarrow> exn + unit" where
  "check_batch_payload str_other schedule payload =
     (let rows = get_item payload ''runs''; err = get_item payload ''error'' in
      if \<not> py_eq (get_item payload ''schema_version'') (VInt 1) \<or> truthy err \<or> \<not> is_list rows
         \<or> length (list_items rows) \<noteq> length schedule
      then Inl (ValueError (Msg (if truthy err then py_str str_other err else ''invalid shape batch result'')))
      else if list_ex (\<lambda>row. case as_dict row of None \<Rightarrow> True | Some d \<Rightarrow> \<not> is_dict (get_item d ''result'')) (list_items rows)
      then Inl (ValueError (Msg ''shape batch has no valid run result''))
      else if \<not> py_eq (actual_rows (run_rows payload)) (schedule_rows schedule)
      then Inl (ValueError (Msg ''shape batch returned an invalid ABBA schedule''))
      else Inr ())"

fun all_exit_zero :: "pyval dict list \<Rightarrow> exn + bool" where
  "all_exit_zero [] = Inr True"
| "all_exit_zero (row # rows) =
     (case dict_get row ''exit_code'' of
        None \<Rightarrow> Inl (OtherException ''KeyError'' ''exit_code'')
      | Some v \<Rightarrow> if py_eq v (VInt 0) then all_exit_zero rows else Inr False)"

definition joined_tail :: "(pyval \<Rightarrow> string) \<Rightarrow> string \<Rightarrow> pyval dict list \<Rightarrow> pyval" where
  "joined_tail str_other k rows =
     (let text = str_join [CHR 0x0A] (map (\<lambda>row. py_str str_other (dict_get_default row k (VStr []))) rows) in
      VStr (drop (length text - 3000) text))"

definition merge_step ::
  "(string \<Rightarrow> pyfloat option) \<Rightarrow> (pyval \<Rightarrow> string) \<Rightarrow> string list \<Rightarrow> string \<times> nat \<Rightarrow> pyval dict list \<Rightarrow> exn + pyval" where
  "merge_step float_text str_other shape_ids step rows =
     bind_res (merge_batch_results float_text str_other
                 (map (\<lambda>row. case as_dict (get_item row ''result'') of None \<Rightarrow> [] | Some d \<Rightarrow> d) rows) shape_ids) (\<lambda>result.
     bind_res (if truthy (get_item result ''all_pass'') then all_exit_zero rows else Inr False) (\<lambda>ok.
     Inr (VDict [(''revision'', VStr (fst step)), (''repeat'', VInt (int (snd step))), (''exit_code'', VInt (if ok then 0 else 1)),
        (''result'', VDict result), (''stdout_tail'', joined_tail str_other ''stdout_tail'' rows),
        (''stderr_tail'', joined_tail str_other ''stderr_tail'' rows)])))"

definition merge_batch_payloads ::
  "(string \<Rightarrow> pyfloat option) \<Rightarrow> (pyval \<Rightarrow> string) \<Rightarrow> pyval dict list \<Rightarrow> schedule \<Rightarrow> string list \<Rightarrow> exn + pyval dict" where
  "merge_batch_payloads float_text str_other payloads schedule shape_ids =
     (if length payloads = 1 then Inr (hd payloads)
      else bind_res (map_res (check_batch_payload str_other schedule) payloads) (\<lambda>_.
      bind_res (map_res (\<lambda>(i, step). merge_step float_text str_other shape_ids step (map (\<lambda>p. run_rows p ! i) payloads))
                 (enumerate 0 schedule)) (\<lambda>runs.
      let errors = str_join ''; '' (map (\<lambda>p. py_str str_other (get_item p ''error''))
                      (filter (\<lambda>p. truthy (get_item p ''error'')) payloads)) in
      Inr [(''schema_version'', VInt 1), (''runs'', VList runs), (''error'', if errors = [] then VNull else VStr errors),
           (''shape_batch_count'', VInt (int (length payloads)))])))"

end
