(* ===== verification/Acceptance.thy ===== *)
theory Acceptance
  imports Abba
begin

text \<open>
  The two acceptance gates of a finished comparison: \<open>score_verification_payload\<close> of
  src/src/aka/light/acceptance/verifier.py, which promotes on a strict reduction of the mean latency, and
  \<open>interpret_verification_payload\<close> of src/src/aka/legacy/evaluation/abba.py, which passes on complete
  runs and leaves the comparison of scores to its caller.
\<close>

section \<open>Verdicts\<close>

record verification_run =
  vr_revision :: pyval
  vr_repeat :: pyval
  vr_exit_code :: pyval
  vr_result :: pyval
  vr_stdout :: pyval
  vr_stderr :: pyval

datatype gate = PassGate | FailGate | ErrorGate

datatype gate_error = NoError | Because string | NotExceeded real real   \<comment> \<open>reduction and its threshold\<close>

record verification_result =
  vf_gate :: gate
  vf_candidate :: "real option"
  vf_incumbent :: "real option"
  vf_improvement :: "real option"
  vf_runs :: "verification_run list"
  vf_error :: gate_error
  vf_artifact :: string
  vf_candidate_score :: "real option"
  vf_incumbent_score :: "real option"

definition passed :: "verification_result \<Rightarrow> bool" where
  "passed v = (vf_gate v = PassGate \<and> vf_error v = NoError)"

definition plain_result :: "gate \<Rightarrow> verification_run list \<Rightarrow> gate_error \<Rightarrow> string \<Rightarrow> verification_result" where
  "plain_result gate runs err artifact =
     \<lparr>vf_gate = gate, vf_candidate = None, vf_incumbent = None, vf_improvement = None, vf_runs = runs,
      vf_error = err, vf_artifact = artifact, vf_candidate_score = None, vf_incumbent_score = None\<rparr>"

definition mean :: "real list \<Rightarrow> real option" where
  "mean xs = (if xs \<noteq> [] then Some (sum_list xs / real (length xs)) else None)"

section \<open>The light gate\<close>

record sides =
  sd_candidate :: "real list"
  sd_incumbent :: "real list"
  sd_candidate_scores :: "real list"
  sd_incumbent_scores :: "real list"
  sd_runs :: "verification_run list"

definition no_sides :: sides where
  "no_sides = \<lparr>sd_candidate = [], sd_incumbent = [], sd_candidate_scores = [], sd_incumbent_scores = [], sd_runs = []\<rparr>"

definition row_latency :: "pyval dict \<Rightarrow> real option" where
  \<comment> \<open>the latency a row counts for, if its run succeeded\<close>
  "row_latency row =
     (let result = get_item row ''result'' in
      case as_dict result of
        None \<Rightarrow> None
      | Some d \<Rightarrow>
          if is_bool (get_item d ''latency_us_geomean'') then None
          else if py_eq (get_item row ''exit_code'') (VInt 0) \<and> get_item d ''all_pass'' = VBool True
          then result_latency result else None)"

definition score_row :: "sides \<Rightarrow> pyval dict \<Rightarrow> exn + sides" where
  "score_row t0 row =
     (let result = get_item row ''result'';
          t = t0\<lparr>sd_runs := sd_runs t0 @ [\<lparr>vr_revision = get_item row ''revision'', vr_repeat = get_item row ''repeat'',
                vr_exit_code = dict_get_default row ''exit_code'' (VInt (- 1)), vr_result = result,
                vr_stdout = VStr [], vr_stderr = VStr []\<rparr>]\<rparr>;
          scores = (case result_performance_score result of None \<Rightarrow> [] | Some s \<Rightarrow> [s]) in
      case row_latency row of
        None \<Rightarrow> Inr t
      | Some latency \<Rightarrow>
          if get_item row ''revision'' = VStr ''candidate''
          then Inr (t\<lparr>sd_candidate := sd_candidate t @ [latency], sd_candidate_scores := sd_candidate_scores t @ scores\<rparr>)
          else if get_item row ''revision'' = VStr ''incumbent''
          then Inr (t\<lparr>sd_incumbent := sd_incumbent t @ [latency], sd_incumbent_scores := sd_incumbent_scores t @ scores\<rparr>)
          else Inl (OtherException ''KeyError'' ''revision''))"

definition is_close :: "real \<Rightarrow> real \<Rightarrow> bool" where
  \<comment> \<open>\<open>math.isclose(a, b, rel_tol=1e-12, abs_tol=1e-12)\<close>\<close>
  "is_close a b = (\<bar>a - b\<bar> \<le> max (max \<bar>a\<bar> \<bar>b\<bar> / 1000000000000) (1 / 1000000000000))"

definition judge_sides :: "sides \<Rightarrow> nat \<Rightarrow> real \<Rightarrow> string \<Rightarrow> verification_result" where
  "judge_sides t repeats threshold artifact =
     (let candidate = geomean (map Fin (sd_candidate t)); incumbent = geomean (map Fin (sd_incumbent t));
          v = \<lparr>vf_gate = FailGate, vf_candidate = candidate, vf_incumbent = incumbent, vf_improvement = None,
               vf_runs = sd_runs t, vf_error = NoError, vf_artifact = artifact,
               vf_candidate_score = mean (sd_candidate_scores t), vf_incumbent_score = mean (sd_incumbent_scores t)\<rparr> in
      case (candidate, incumbent) of
        (Some c, Some i) \<Rightarrow>
          if length (sd_candidate t) \<noteq> repeats \<or> length (sd_incumbent t) \<noteq> repeats \<or> c = 0 \<or> i = 0
          then v\<lparr>vf_error := Because ''Not every ABBA run passed with a valid GeoMean latency''\<rparr>
          else let p = (i - c) / i * 100 in
            if p > threshold \<and> \<not> is_close p threshold then v\<lparr>vf_improvement := Some p, vf_gate := PassGate\<rparr>
            else v\<lparr>vf_improvement := Some p, vf_error := NotExceeded p threshold\<rparr>
      | _ \<Rightarrow> v\<lparr>vf_error := Because ''Not every ABBA run passed with a valid GeoMean latency''\<rparr>)"

definition score_verification_payload ::
  "pyval \<Rightarrow> schedule \<Rightarrow> nat \<Rightarrow> pyfloat \<Rightarrow> string \<Rightarrow> exn + verification_result" where
  "score_verification_payload payload schedule repeats threshold artifact =
     (if \<not> pf_finite threshold \<or> pf_lt threshold (Fin 0)
      then Inl (ValueError (Msg ''Minimum latency improvement must be finite and non-negative''))
      else
        let rows = (case as_dict payload of None \<Rightarrow> VNull | Some d \<Rightarrow> get_item d ''runs'') in
        if \<not> is_list rows \<or> (case as_dict payload of None \<Rightarrow> False | Some d \<Rightarrow> truthy (get_item d ''error''))
           \<or> list_ex (\<lambda>row. \<not> is_dict row) (list_items rows)
           \<or> \<not> py_eq (actual_rows (List.map_filter as_dict (list_items rows))) (schedule_rows schedule)
        then Inr (plain_result ErrorGate [] (Because ''Incomplete ABBA schedule'') artifact)
        else bind_res (fold_res score_row no_sides (List.map_filter as_dict (list_items rows))) (\<lambda>t.
          Inr (judge_sides t repeats (fin_part threshold) artifact)))"

section \<open>The legacy gate\<close>

fun parse_digits :: "bool \<Rightarrow> int \<Rightarrow> string \<Rightarrow> int option" where
  \<comment> \<open>\<open>after\<close>: the previous character was a digit, so an underscore or the end may follow\<close>
  "parse_digits after acc [] = (if after then Some acc else None)"
| "parse_digits after acc (c # cs) =
     (if is_digit_char c then parse_digits True (acc * 10 + int (of_char c) - 48) cs
      else if c = CHR ''_'' \<and> after then parse_digits False acc cs
      else None)"

definition parse_int :: "string \<Rightarrow> int option" where
  \<comment> \<open>\<open>int(s)\<close> of an ASCII text\<close>
  "parse_int s0 =
     (let s = py_strip s0 in
      case s of
        [] \<Rightarrow> None
      | c # cs \<Rightarrow>
          if c = CHR ''-'' then map_option uminus (parse_digits False 0 cs)
          else if c = CHR ''+'' then parse_digits False 0 cs
          else parse_digits False 0 s)"

definition truncate_real :: "real \<Rightarrow> int" where
  "truncate_real x = (if x < 0 then \<lceil>x\<rceil> else \<lfloor>x\<rfloor>)"

fun py_int :: "pyval \<Rightarrow> exn + int" where
  \<comment> \<open>\<open>int(v)\<close>\<close>
  "py_int (VInt i) = Inr i"
| "py_int (VBool b) = Inr (if b then 1 else 0)"
| "py_int (VFloat f) =
     (case f of Fin x \<Rightarrow> Inr (truncate_real x)
      | NaN \<Rightarrow> Inl (ValueError (Msg ''cannot convert float NaN to integer''))
      | _ \<Rightarrow> Inl (OtherException ''OverflowError'' ''cannot convert float infinity to integer''))"
| "py_int (VStr s) =
     (case parse_int s of None \<Rightarrow> Inl (ValueError (Msg ''invalid literal for int() with base 10'')) | Some i \<Rightarrow> Inr i)"
| "py_int v = Inl (TypeError (Msg ''int() argument must be a string or a real number''))"

definition read_run :: "(pyval \<Rightarrow> string) \<Rightarrow> pyval dict \<Rightarrow> exn + verification_run" where
  "read_run str_other row =
     bind_res (py_int (dict_get_default row ''repeat'' (VInt (- 1)))) (\<lambda>r.
     bind_res (py_int (dict_get_default row ''exit_code'' (VInt (- 1)))) (\<lambda>code.
     Inr \<lparr>vr_revision = VStr (py_str str_other (dict_get_default row ''revision'' (VStr []))), vr_repeat = VInt r,
          vr_exit_code = VInt code,
          vr_result = (if is_dict (get_item row ''result'') then get_item row ''result'' else VNull),
          vr_stdout = VStr (py_str str_other (dict_get_default row ''stdout_tail'' (VStr []))),
          vr_stderr = VStr (py_str str_other (dict_get_default row ''stderr_tail'' (VStr [])))\<rparr>))"

definition run_values :: "string \<Rightarrow> (pyval \<Rightarrow> real option) \<Rightarrow> verification_run list \<Rightarrow> real list" where
  "run_values revision f runs =
     List.map_filter (\<lambda>r. if vr_revision r = VStr revision \<and> vr_exit_code r = VInt 0 then f (vr_result r) else None) runs"

definition judge_runs :: "verification_run list \<Rightarrow> nat \<Rightarrow> string \<Rightarrow> verification_result" where
  "judge_runs runs repeats artifact =
     (let cl = run_values ''candidate'' result_latency runs; il = run_values ''incumbent'' result_latency runs;
          cs = run_values ''candidate'' result_performance_score runs;
          is = run_values ''incumbent'' result_performance_score runs;
          v = \<lparr>vf_gate = FailGate, vf_candidate = geomean (map Fin cl), vf_incumbent = geomean (map Fin il),
               vf_improvement = None, vf_runs = runs,
               vf_error = Because ''not every authoritative ABBA run passed with a valid performance score'',
               vf_artifact = artifact, vf_candidate_score = mean cs, vf_incumbent_score = mean is\<rparr> in
      if length cl \<noteq> repeats \<or> length il \<noteq> repeats \<or> length cs \<noteq> repeats \<or> length is \<noteq> repeats then v
      else v\<lparr>vf_gate := PassGate, vf_error := NoError,
             vf_improvement := (case (mean cs, mean is) of
                 (Some c, Some i) \<Rightarrow> if c \<noteq> 0 \<and> i \<noteq> 0 then Some ((c / i - 1) * 100) else None
               | _ \<Rightarrow> None)\<rparr>)"

definition interpret_verification_payload ::
  "(pyval \<Rightarrow> string) \<Rightarrow> pyval \<Rightarrow> schedule \<Rightarrow> nat \<Rightarrow> string \<Rightarrow> exn + verification_result" where
  "interpret_verification_payload str_other payload schedule repeats artifact =
     (case as_dict payload of
        None \<Rightarrow> Inr (plain_result ErrorGate [] (Because ''unsupported result schema'') [])
      | Some d \<Rightarrow>
          if \<not> py_eq (get_item d ''schema_version'') (VInt 1)
          then Inr (plain_result ErrorGate [] (Because ''unsupported result schema'') [])
          else let rows = get_item d ''runs'' in
          if \<not> is_list rows \<or> list_ex (\<lambda>row. \<not> is_dict row) (list_items rows)
          then Inr (plain_result ErrorGate [] (Because ''runs must be a list of objects'') [])
          else bind_res (map_res (read_run str_other) (List.map_filter as_dict (list_items rows))) (\<lambda>runs.
            if truthy (get_item d ''error'')
            then Inr (plain_result ErrorGate runs (Because (py_str str_other (get_item d ''error''))) artifact)
            else if map (\<lambda>r. (vr_revision r, vr_repeat r)) runs \<noteq> map (\<lambda>(s, k). (VStr s, VInt (int k))) schedule
            then Inr (plain_result ErrorGate runs
                   (Because ''remote verifier did not execute the exact ABBA schedule'') artifact)
            else Inr (judge_runs runs repeats artifact)))"

end
