(* ===== verification/Promotion.thy ===== *)
theory Promotion
  imports Acceptance
begin

text \<open>
  What a comparison guarantees: the schedule is balanced and a drift in time favours neither side, a candidate the light gate
  promotes was strictly faster in a comparison every run of which succeeded, and a merged batch passes only when every
  shape was measured.
\<close>

section \<open>Balance of the schedule\<close>

definition schedule_block :: "nat \<Rightarrow> schedule" where
  "schedule_block r = map (\<lambda>revision. (revision, r))
     (if even r then [''incumbent'', ''candidate''] else [''candidate'', ''incumbent''])"

definition schedule_upto :: "nat \<Rightarrow> schedule" where
  "schedule_upto n = concat (map schedule_block [0..<n])"

lemma schedule_eq: "verification_schedule n = schedule_upto (nat (max 1 n))"
  unfolding verification_schedule_def schedule_upto_def schedule_block_def [abs_def] ..

lemma block_simps [simp]: "length (schedule_block r) = 2" "distinct (schedule_block r)"
  "set (schedule_block r) = {''incumbent'', ''candidate''} \<times> {r}"
  by (auto simp: schedule_block_def)

lemma schedule_Suc: "schedule_upto 0 = []" "schedule_upto (Suc n) = schedule_upto n @ schedule_block n"
  by (simp_all add: schedule_upto_def)

lemma schedule_length: "length (schedule_upto n) = 2 * n"
  by (induction n) (auto simp: schedule_Suc)

lemma times_lessThan_Suc: "A \<times> {..<n} \<union> A \<times> {n} = A \<times> {..<Suc n}"
  by (auto simp: less_Suc_eq)

lemma schedule_set: "set (schedule_upto n) = {''incumbent'', ''candidate''} \<times> {..<n}"
proof (induction n)
  case (Suc n)
  show ?case unfolding schedule_Suc set_append Suc.IH block_simps(3) by (rule times_lessThan_Suc)
qed (simp add: schedule_Suc)

lemma schedule_distinct: "distinct (schedule_upto n)"
  by (induction n) (auto simp: schedule_Suc schedule_set)

definition position_sum :: "string \<Rightarrow> schedule \<Rightarrow> nat" where
  "position_sum revision s = sum_list (map fst (filter (\<lambda>(i, step). fst step = revision) (enumerate 0 s)))"

lemma position_sum_Suc:
  "position_sum revision (schedule_upto (Suc (Suc (2 * m)))) =
     position_sum revision (schedule_upto (2 * m)) +
     (if revision \<in> {''incumbent'', ''candidate''} then 8 * m + 3 else 0)"
proof -
  have e: "enumerate 0 (xs @ ys) = enumerate 0 xs @ enumerate (length xs) ys" for xs ys :: schedule
    by (simp add: enumerate_append_eq)
  show ?thesis
    unfolding schedule_Suc position_sum_def
    by (simp add: e schedule_length schedule_block_def)
qed

lemma positions_balance: "position_sum ''incumbent'' (schedule_upto (2 * m)) = position_sum ''candidate'' (schedule_upto (2 * m))"
  by (induction m) (simp_all add: position_sum_Suc, simp add: schedule_Suc position_sum_def)

section \<open>The rows of a scored payload\<close>

definition side_latencies :: "string \<Rightarrow> pyval dict list \<Rightarrow> real list" where
  "side_latencies revision rows =
     List.map_filter (\<lambda>row. if get_item row ''revision'' = VStr revision then row_latency row else None) rows"

definition run_of :: "pyval dict \<Rightarrow> verification_run" where
  "run_of row = \<lparr>vr_revision = get_item row ''revision'', vr_repeat = get_item row ''repeat'',
     vr_exit_code = dict_get_default row ''exit_code'' (VInt (- 1)), vr_result = get_item row ''result'',
     vr_stdout = VStr [], vr_stderr = VStr []\<rparr>"

definition payload_rows :: "pyval \<Rightarrow> pyval dict list" where
  "payload_rows payload =
     List.map_filter as_dict (list_items (case as_dict payload of None \<Rightarrow> VNull | Some d \<Rightarrow> get_item d ''runs''))"

definition measured_on :: "string \<Rightarrow> pyval dict list \<Rightarrow> real list" where
  \<comment> \<open>the latencies the rows of a revision report\<close>
  "measured_on revision rows =
     map (\<lambda>row. the (result_latency (get_item row ''result''))) (filter (\<lambda>row. get_item row ''revision'' = VStr revision) rows)"

lemma geomean_power:
  assumes "geomean (map Fin xs) = Some g"
  shows "g ^ length xs = prod_list xs"
proof -
  have xs: "xs \<noteq> []" "\<forall>x\<in>set xs. 0 < x" "g = exp (sum_list (map ln xs) / real (length xs))"
    using assms by (auto simp: geomean_def list_ex_iff comp_def not_le split: if_split_asm)
  then have "g ^ length xs = exp (sum_list (map ln xs))" by (simp add: exp_of_nat_mult [symmetric])
  also have "\<dots> = prod_list xs" using xs(2) by (induction xs) (simp_all add: exp_add)
  finally show ?thesis .
qed

lemma score_row_parts:
  assumes "score_row t row = Inr t'"
  shows "sd_candidate t' = sd_candidate t @ side_latencies ''candidate'' [row]"
    "sd_incumbent t' = sd_incumbent t @ side_latencies ''incumbent'' [row]"
    "sd_runs t' = sd_runs t @ [run_of row]"
  using assms
  by (auto simp: score_row_def Let_def side_latencies_def run_of_def map_filter_def split: option.splits if_splits)

lemma score_rows_parts:
  assumes "fold_res score_row t rows = Inr t'"
  shows "sd_candidate t' = sd_candidate t @ side_latencies ''candidate'' rows \<and>
    sd_incumbent t' = sd_incumbent t @ side_latencies ''incumbent'' rows \<and>
    sd_runs t' = sd_runs t @ map run_of rows"
  using assms
proof (induction rows arbitrary: t)
  case (Cons row rows)
  then obtain t1 where t1: "score_row t row = Inr t1" "fold_res score_row t1 rows = Inr t'" by (auto simp: res_simps)
  have split: "side_latencies s (row # rows) = side_latencies s [row] @ side_latencies s rows" for s
    by (simp add: side_latencies_def map_filter_def)
  from Cons.IH [OF t1(2)] score_row_parts [OF t1(1)] show ?case by (simp add: split)
qed (simp add: side_latencies_def map_filter_def)

lemma side_full:
  assumes "length (side_latencies s rows) = length (filter (\<lambda>row. get_item row ''revision'' = VStr s) rows)"
    "row \<in> set rows" "get_item row ''revision'' = VStr s"
  shows "row_latency row \<noteq> None"
  using assms
proof (induction rows)
  case (Cons r rows)
  have le: "length (side_latencies s xs) \<le> length (filter (\<lambda>row. get_item row ''revision'' = VStr s) xs)" for xs
    by (induction xs) (auto simp: side_latencies_def map_filter_def)
  from Cons le [of rows] show ?case
    by (auto simp: side_latencies_def map_filter_def split: if_splits)
qed simp

lemma row_latency_parts:
  assumes "row_latency row = Some x"
  shows "x > 0" "py_eq (get_item row ''exit_code'') (VInt 0)"
    "\<exists>d. get_item row ''result'' = VDict d \<and> get_item d ''all_pass'' = VBool True"
    "result_latency (get_item row ''result'') = Some x"
proof -
  obtain d where d: "as_dict (get_item row ''result'') = Some d" using assms
    by (auto simp: row_latency_def Let_def split: option.splits)
  then have "get_item row ''result'' = VDict d" by (cases "get_item row ''result''") auto
  with assms d show "py_eq (get_item row ''exit_code'') (VInt 0)"
    "\<exists>d. get_item row ''result'' = VDict d \<and> get_item d ''all_pass'' = VBool True"
    and r: "result_latency (get_item row ''result'') = Some x"
    by (auto simp: row_latency_def Let_def split: if_splits)
  have "positive_finite v = Some x \<Longrightarrow> x > 0" for v
    by (auto simp: positive_finite_def split: option.splits pyfloat.splits if_splits)
  with r show "x > 0"
    by (auto simp: result_latency_def Let_def split: option.splits if_splits)
qed

lemma py_eq_rows:
  assumes "py_eq (actual_rows rows) (schedule_rows schedule)"
  shows "length rows = length schedule" "map (\<lambda>row. get_item row ''revision'') rows = map (\<lambda>s. VStr (fst s)) schedule"
proof -
  have "length rows = length schedule \<and> map (\<lambda>row. get_item row ''revision'') rows = map (\<lambda>s. VStr (fst s)) schedule"
    using assms
  proof (induction rows arbitrary: schedule)
    case (Cons row rows)
    then obtain s schedule' where s: "schedule = s # schedule'"
      by (cases schedule) (auto simp: actual_rows_def schedule_rows_def)
    from Cons.prems have "py_eq (actual_rows rows) (schedule_rows schedule')"
      and "py_eq (get_item row ''revision'') (VStr (fst s))"
      by (auto simp: s actual_rows_def schedule_rows_def case_prod_unfold)
    moreover have "py_eq v (VStr x) \<longleftrightarrow> v = VStr x" for v x
      by (cases v) auto
    ultimately show ?case using Cons.IH by (simp add: s)
  qed (auto simp: actual_rows_def schedule_rows_def)
  then show "length rows = length schedule" "map (\<lambda>row. get_item row ''revision'') rows = map (\<lambda>s. VStr (fst s)) schedule"
    by auto
qed

section \<open>A passing verdict\<close>

lemma judge_pass:
  assumes "vf_gate (judge_sides t n threshold artifact) = PassGate"
  shows "length (sd_candidate t) = n" "length (sd_incumbent t) = n"
    "\<exists>c i. vf_candidate (judge_sides t n threshold artifact) = Some c \<and>
       vf_incumbent (judge_sides t n threshold artifact) = Some i \<and> 0 < c \<and> 0 < i \<and>
       vf_improvement (judge_sides t n threshold artifact) = Some ((i - c) / i * 100) \<and> threshold < (i - c) / i * 100"
    "vf_error (judge_sides t n threshold artifact) = NoError"
    "vf_runs (judge_sides t n threshold artifact) = sd_runs t"
    "vf_candidate (judge_sides t n threshold artifact) = geomean (map Fin (sd_candidate t))"
    "vf_incumbent (judge_sides t n threshold artifact) = geomean (map Fin (sd_incumbent t))"
proof -
  have pos: "geomean vs = Some x \<Longrightarrow> 0 < x" for vs x by (auto simp: geomean_def split: if_splits)
  obtain c i where ci: "geomean (map Fin (sd_candidate t)) = Some c" "geomean (map Fin (sd_incumbent t)) = Some i"
    using assms by (auto simp: judge_sides_def Let_def split: option.splits)
  with assms pos [OF ci(1)] pos [OF ci(2)]
  show "length (sd_candidate t) = n" "length (sd_incumbent t) = n"
    "\<exists>c i. vf_candidate (judge_sides t n threshold artifact) = Some c \<and>
       vf_incumbent (judge_sides t n threshold artifact) = Some i \<and> 0 < c \<and> 0 < i \<and>
       vf_improvement (judge_sides t n threshold artifact) = Some ((i - c) / i * 100) \<and> threshold < (i - c) / i * 100"
    "vf_error (judge_sides t n threshold artifact) = NoError"
    "vf_runs (judge_sides t n threshold artifact) = sd_runs t"
    "vf_candidate (judge_sides t n threshold artifact) = geomean (map Fin (sd_candidate t))"
    "vf_incumbent (judge_sides t n threshold artifact) = geomean (map Fin (sd_incumbent t))"
    by (auto simp: judge_sides_def Let_def split: if_splits)
qed

lemma score_pass:
  assumes "score_verification_payload payload s n threshold artifact = Inr v" "vf_gate v = PassGate"
  obtains t where "fold_res score_row no_sides (payload_rows payload) = Inr t" "v = judge_sides t n (fin_part threshold) artifact"
    "py_eq (actual_rows (payload_rows payload)) (schedule_rows s)" "pf_finite threshold" "\<not> pf_lt threshold (Fin 0)"
  using assms
  by (auto simp: payload_rows_def score_verification_payload_def plain_result_def Let_def bind_res_Inr_iff split: if_split_asm)

lemma schedule_side:
  assumes "revision \<in> {''incumbent'', ''candidate''}"
  shows "length (filter (\<lambda>s. fst s = revision) (schedule_upto n)) = n"
  using assms by (induction n) (auto simp: schedule_Suc schedule_block_def)

lemma rows_side:
  assumes "length (filter (\<lambda>s. fst s = r) schedule) = n"
    "map (\<lambda>row. get_item row ''revision'') rows = map (\<lambda>s. VStr (fst s)) schedule"
  shows "length (filter (\<lambda>row. get_item row ''revision'' = VStr r) rows) = n"
proof -
  have "length (filter (\<lambda>v. v = VStr r) (map (\<lambda>row. get_item row ''revision'') rows)) = n"
    unfolding assms(2) using assms(1) by (simp add: filter_map comp_def)
  then show ?thesis by (simp add: filter_map comp_def)
qed

lemma measured_side:
  assumes "\<And>row. row \<in> set rows \<Longrightarrow> \<exists>x. row_latency row = Some x"
  shows "measured_on revision rows = side_latencies revision rows"
  using assms
proof (induction rows)
  case (Cons row rows)
  then obtain x where "row_latency row = Some x" by auto
  with row_latency_parts(4) [OF this] Cons show ?case by (simp add: measured_on_def side_latencies_def map_filter_def)
qed (simp add: measured_on_def side_latencies_def map_filter_def)

lemma complete_rows:
  assumes "sd_candidate t = sd_candidate no_sides @ side_latencies ''candidate'' rows \<and>
    sd_incumbent t = sd_incumbent no_sides @ side_latencies ''incumbent'' rows \<and> sd_runs t = sd_runs no_sides @ map run_of rows"
    "length (sd_candidate t) = n" "length (sd_incumbent t) = n" "py_eq (actual_rows rows) (schedule_rows (schedule_upto n))"
  shows "row \<in> set rows \<Longrightarrow> \<exists>x. row_latency row = Some x"
    "sd_candidate t = measured_on ''candidate'' rows" "sd_incumbent t = measured_on ''incumbent'' rows"
proof -
  have count: "length (filter (\<lambda>row. get_item row ''revision'' = VStr r) rows) = n"
    if "r \<in> {''incumbent'', ''candidate''}" for r
    using schedule_side [OF that] py_eq_rows(2) [OF assms(4)] by (rule rows_side)
  show all: "\<exists>x. row_latency row = Some x" if "row \<in> set rows" for row
  proof -
    have "get_item row ''revision'' \<in> set (map (\<lambda>s. VStr (fst s)) (schedule_upto n))"
      using that unfolding py_eq_rows(2) [OF assms(4), symmetric] by simp
    then obtain st where st: "st \<in> set (schedule_upto n)" "get_item row ''revision'' = VStr (fst st)" by auto
    then obtain r where r: "r \<in> {''incumbent'', ''candidate''}" "get_item row ''revision'' = VStr r"
      unfolding schedule_set by (metis mem_Times_iff)
    have "length (side_latencies r rows) = n" using r(1) assms(1-3) by (auto simp: no_sides_def)
    then show ?thesis using side_full [OF _ that r(2)] count [OF r(1)] by simp
  qed
  show "sd_candidate t = measured_on ''candidate'' rows" "sd_incumbent t = measured_on ''incumbent'' rows"
    using assms(1) measured_side [OF all] by (simp_all add: no_sides_def)
qed

lemma exit_default: "py_eq (get_item row ''exit_code'') (VInt 0) \<Longrightarrow>
    py_eq (dict_get_default row ''exit_code'' (VInt (- 1))) (VInt 0)"
  by (auto simp: get_item_def dict_get_default_def split: option.splits)

lemma faster: "0 < i \<Longrightarrow> 0 \<le> th \<Longrightarrow> th < (i - c) / i * 100 \<Longrightarrow> c < (i :: real)"
  by (smt (verit) divide_nonpos_pos)

section \<open>Properties\<close>

text \<open>Every admitted comparison is counterbalanced.  For a number of repeats the configuration accepts, the
  schedule runs each side exactly once in each of the repeats and nothing else, and the positions of the incumbent's runs add up to
  those of the candidate's, so that a drift of the machine linear in time favours neither.\<close>

theorem schedule_counterbalanced:
  assumes "validate_abba_repeats (VInt n) = Inr ()"
  shows "distinct (verification_schedule n) \<and> length (verification_schedule n) = 2 * nat n \<and>
    set (verification_schedule n) = {''incumbent'', ''candidate''} \<times> {..<nat n} \<and>
    position_sum ''incumbent'' (verification_schedule n) = position_sum ''candidate'' (verification_schedule n)"
proof -
  from assms have n: "2 \<le> n" "even n" by (auto simp: validate_abba_repeats_def res_simps)
  then have "even (nat n)" by (simp add: even_nat_iff)
  then obtain m where m: "nat n = 2 * m" by (rule evenE)
  from n have "nat (max 1 n) = nat n" by simp
  then have s: "verification_schedule n = schedule_upto (2 * m)" by (simp add: schedule_eq m)
  show ?thesis
    unfolding s m by (simp add: schedule_distinct schedule_length schedule_set positions_balance)
qed

theorem schedule_counterbalanced_witness:
  "distinct (verification_schedule 4) \<and> length (verification_schedule 4) = 2 * nat 4 \<and>
    set (verification_schedule 4) = {''incumbent'', ''candidate''} \<times> {..<nat 4} \<and>
    position_sum ''incumbent'' (verification_schedule 4) = position_sum ''candidate'' (verification_schedule 4)"
  by (rule schedule_counterbalanced) (simp add: validate_abba_repeats_def guard_res_def)

text \<open>C26: A promoted candidate was strictly faster in a complete comparison.  When the light gate passes a payload for the schedule of
  \<open>n\<close> repeats, the rows of the payload are the steps of that schedule in their order, every one of them exited with zero
  and reports \<open>all_pass\<close> with a positive latency, the two values compared are the geometric means of the \<open>n\<close>
  latencies that the rows of the candidate, respectively of the incumbent, report (their \<open>n\<close>-th powers are the products of
  these latencies), the candidate's is below the incumbent's, and the reduction in percent exceeds the threshold, which is not
  negative.  Floats are read as exact reals.\<close>

theorem promotion_is_strict:
  assumes "score_verification_payload payload (verification_schedule (int n)) n threshold artifact = Inr v"
    and "vf_gate v = PassGate" "n \<ge> 1"
  shows "length (vf_runs v) = 2 * n \<and>
    (\<forall>r\<in>set (vf_runs v). py_eq (vr_exit_code r) (VInt 0) \<and> result_latency (vr_result r) \<noteq> None \<and>
       (\<exists>d. vr_result r = VDict d \<and> get_item d ''all_pass'' = VBool True)) \<and>
    vf_runs v = map run_of (payload_rows payload) \<and>
    map (\<lambda>row. get_item row ''revision'') (payload_rows payload) = map (\<lambda>step. VStr (fst step)) (verification_schedule (int n)) \<and>
    (\<exists>c i. vf_candidate v = Some c \<and> vf_incumbent v = Some i \<and> 0 < c \<and> c < i \<and>
       length (measured_on ''candidate'' (payload_rows payload)) = n \<and> c ^ n = prod_list (measured_on ''candidate'' (payload_rows payload)) \<and>
       length (measured_on ''incumbent'' (payload_rows payload)) = n \<and> i ^ n = prod_list (measured_on ''incumbent'' (payload_rows payload)) \<and>
       vf_improvement v = Some ((i - c) / i * 100) \<and> 0 \<le> fin_part threshold \<and> fin_part threshold < (i - c) / i * 100)"
proof -
  let ?s = "schedule_upto n"
  let ?rows = "payload_rows payload"
  have s: "verification_schedule (int n) = ?s" using assms(3) by (simp add: schedule_eq max_def)
  obtain t where t: "fold_res score_row no_sides ?rows = Inr t" "v = judge_sides t n (fin_part threshold) artifact"
    "py_eq (actual_rows ?rows) (schedule_rows ?s)" "pf_finite threshold" "\<not> pf_lt threshold (Fin 0)"
    using score_pass [OF assms(1) [unfolded s] assms(2)] .
  have th: "0 \<le> fin_part threshold" using t(4,5) by (cases threshold) (auto simp: pf_lt_def)
  note j = judge_pass [OF assms(2) [unfolded t(2)]]
  note parts = score_rows_parts [OF t(1)]
  note complete = complete_rows [OF parts j(1,2) t(3)]
  have runs: "vf_runs v = map run_of ?rows" using parts by (simp add: t(2) j(5) no_sides_def)
  have clean: "py_eq (vr_exit_code (run_of row)) (VInt 0) \<and> result_latency (vr_result (run_of row)) \<noteq> None \<and>
      (\<exists>d. vr_result (run_of row) = VDict d \<and> get_item d ''all_pass'' = VBool True)" if "row \<in> set ?rows" for row
    using complete(1) [OF that] by (auto simp: run_of_def exit_default dest: row_latency_parts)
  obtain c i where ci: "vf_candidate v = Some c" "vf_incumbent v = Some i" "0 < c" "0 < i"
    "vf_improvement v = Some ((i - c) / i * 100)" "fin_part threshold < (i - c) / i * 100"
    using j(3) unfolding t(2) by blast
  have "c ^ length (sd_candidate t) = prod_list (sd_candidate t)" "i ^ length (sd_incumbent t) = prod_list (sd_incumbent t)"
    using ci(1,2) j(6,7) unfolding t(2) by (intro geomean_power; simp)+
  then have means: "c ^ n = prod_list (measured_on ''candidate'' ?rows)" "i ^ n = prod_list (measured_on ''incumbent'' ?rows)"
    using complete(2,3) j(1,2) by simp_all
  show ?thesis
    using clean ci th faster [OF ci(4) th ci(6)] means complete(2-) j(1,2)
    by (simp add: runs py_eq_rows [OF t(3)] schedule_length s)
qed

definition sample_run :: "string \<Rightarrow> int \<Rightarrow> pyval dict" where
  "sample_run revision latency = [(''revision'', VStr revision), (''repeat'', VInt 0), (''exit_code'', VInt 0),
     (''result'', VDict [(''all_pass'', VBool True), (''latency_us_geomean'', VInt latency)])]"

definition sample_payload :: pyval where
  "sample_payload = VDict [(''schema_version'', VInt 1),
     (''runs'', VList (map VDict [sample_run ''incumbent'' 10, sample_run ''candidate'' 8]))]"

lemma score_rows:
  assumes "get_item d ''runs'' = VList (map VDict rows)" "\<not> truthy (get_item d ''error'')" "0 \<le> th"
    "py_eq (actual_rows rows) (schedule_rows s)" "fold_res score_row no_sides rows = Inr t"
  shows "score_verification_payload (VDict d) s n (Fin th) artifact = Inr (judge_sides t n th artifact)"
proof -
  have "List.map_filter as_dict (map VDict rows) = rows" by (induction rows) (auto simp: map_filter_def)
  moreover have "\<not> list_ex (\<lambda>row. \<not> is_dict row) (map VDict rows)" by (auto simp: list_ex_iff)
  ultimately show ?thesis
    using assms by (simp add: score_verification_payload_def Let_def pf_lt_def)
qed

lemma sample_promoted:
  "\<exists>v. score_verification_payload sample_payload (verification_schedule (int 1)) 1 (Fin 5) [] = Inr v \<and> vf_gate v = PassGate"
proof -
  let ?rows = "[sample_run ''incumbent'' 10, sample_run ''candidate'' 8]"
  let ?t = "no_sides\<lparr>sd_incumbent := [10], sd_candidate := [8], sd_runs := map run_of ?rows\<rparr>"
  have "fold_res score_row no_sides ?rows = Inr ?t"
    by (simp add: score_row_def row_latency_def result_latency_def positive_finite_def result_performance_score_def raw_score_def
        sample_run_def get_item_def dict_get_default_def Let_def is_number_def no_sides_def run_of_def)
  moreover have "py_eq (actual_rows ?rows) (schedule_rows (verification_schedule (int 1)))" by code_simp
  ultimately have "score_verification_payload sample_payload (verification_schedule (int 1)) 1 (Fin 5) [] =
      Inr (judge_sides ?t 1 5 [])"
    unfolding sample_payload_def by (intro score_rows) (auto simp: get_item_def dict_get_default_def)
  then show ?thesis
    by (simp add: judge_sides_def geomean_def no_sides_def is_close_def Let_def)
qed

theorem promotion_is_strict_witness:
  "\<exists>v c i. score_verification_payload sample_payload (verification_schedule (int 1)) 1 (Fin 5) [] = Inr v \<and>
    length (vf_runs v) = 2 * 1 \<and> vf_candidate v = Some c \<and> vf_incumbent v = Some i \<and> c < i \<and>
    c ^ 1 = prod_list (measured_on ''candidate'' (payload_rows sample_payload)) \<and>
    i ^ 1 = prod_list (measured_on ''incumbent'' (payload_rows sample_payload)) \<and> 5 < (i - c) / i * 100"
proof -
  obtain v where v: "score_verification_payload sample_payload (verification_schedule (int 1)) 1 (Fin 5) [] = Inr v"
    "vf_gate v = PassGate" using sample_promoted by blast
  have five: "fin_part (Fin 5) = 5" by simp
  show ?thesis using promotion_is_strict [OF v order_refl, unfolded five] v(1) by blast
qed

end
