(* ===== verification/Directions.thy ===== *)
theory Directions
  imports TokenReports
begin

text \<open>
  Research directions of a campaign: the lifecycle of one direction
  (src/src/aka/light/workflow/direction_lifecycle.py) and the genealogy between directions
  (src/src/aka/light/workflow/direction_genealogy.py).  \<open>AgentRequestError\<close> is \<open>OtherException\<close> with its code.
  The stored history of a direction is its \<open>lineage\<close>; stored experiments are given by their owning direction.
\<close>

section \<open>Identifiers\<close>

definition is_hex_char :: "char \<Rightarrow> bool" where
  "is_hex_char c = (is_digit_char c \<or> char_in (CHR ''a'') (CHR ''f'') c)"

definition is_id :: "string \<Rightarrow> string \<Rightarrow> bool" where
  \<comment> \<open>\<open>re.fullmatch(prefix + r"_[0-9a-f]{32}", s)\<close>\<close>
  "is_id prefix s =
     (take (Suc (length prefix)) s = prefix @ ''_'' \<and> length s = length prefix + 33
      \<and> list_all is_hex_char (drop (Suc (length prefix)) s))"

definition request_error :: "string \<Rightarrow> exn" where
  \<comment> \<open>an \<open>AgentRequestError\<close> with this code\<close>
  "request_error code = OtherException ''AgentRequestError'' code"

section \<open>The lifecycle\<close>

definition direction_status :: "string dict" where
  "direction_status = [(''propose'', ''proposed''), (''start'', ''in_progress''), (''complete'', ''completed''),
     (''abandon'', ''abandoned''), (''block'', ''blocked''), (''defer'', ''deferred'')]"

definition closures :: "string list" where
  "closures = [''complete'', ''abandon'', ''block'', ''defer'']"

definition closed_statuses :: "string list" where
  "closed_statuses = [''completed'', ''abandoned'', ''blocked'', ''deferred'']"

definition in_progress :: "string dict \<Rightarrow> string list" where
  "in_progress statuses = map fst (filter (\<lambda>(k, s). s = ''in_progress'') statuses)"

definition may_start :: "string dict \<Rightarrow> string list \<Rightarrow> string \<Rightarrow> string \<Rightarrow> exn + unit" where
  "may_start statuses started d status =
     (if filter (\<lambda>k. k \<noteq> d) (in_progress statuses) \<noteq> [] then Inl (request_error ''direction_in_progress'')
      else if d \<notin> set started \<and> length started \<ge> 3 then Inl (request_error ''direction_limit_exceeded'')
      else if status \<notin> set (''proposed'' # closed_statuses)
      then Inl (ValueError (Msg (''Direction cannot start from status '' @ status)))
      else Inr ())"

definition direction_guard :: "string dict \<Rightarrow> string list \<Rightarrow> string \<Rightarrow> string \<Rightarrow> exn + unit" where
  "direction_guard statuses started d action =
     (case dict_get statuses d of
        None \<Rightarrow>
          if action = ''propose'' then Inr ()
          else Inl (ValueError (Msg (''Direction ID is outside visible history: '' @ d)))
      | Some status \<Rightarrow>
          if action = ''propose'' then Inl (ValueError (Msg (''Direction '' @ d @ '' was already proposed'')))
          else if action = ''start'' then may_start statuses started d status
          else if status \<notin> set (''in_progress'' # closed_statuses)
          then Inl (ValueError (Msg (''Direction cannot '' @ action @ '' from status '' @ status)))
          else Inr ())"

definition advance_direction ::
  "string dict \<Rightarrow> string list \<Rightarrow> pyval \<Rightarrow> pyval \<Rightarrow> exn + string dict \<times> string list" where
  \<comment> \<open>the set \<open>started\<close> is a list without repetition\<close>
  "advance_direction statuses started direction_id action =
     (if \<not> is_str direction_id \<or> \<not> is_id ''direction'' (str_of direction_id)
      then Inl (ValueError (Msg ''Direction ID has an invalid format''))
      else if \<not> is_str action \<or> \<not> dict_has direction_status (str_of action)
      then Inl (ValueError (Msg ''Direction action must be propose, start, complete, abandon, block, or defer''))
      else let d = str_of direction_id; act = str_of action in
        bind_res (direction_guard statuses started d act) (\<lambda>_.
        Inr (dict_set statuses d (dict_get_default direction_status act []),
             if act = ''start'' \<and> d \<notin> set started then started @ [d] else started)))"

section \<open>The genealogy\<close>

record lineage =
  ln_parents :: "string list"
  ln_experiments :: "string list"

definition relationships :: "string list" where
  "relationships = [''refinement'', ''correction'', ''combination'']"

definition relationship_names :: "string list" where
  \<comment> \<open>\<open>RELATIONSHIP_FIELDS\<close> in sorted order\<close>
  "relationship_names = [''derived_from_direction_ids'', ''derived_from_experiment_ids'', ''relationship'',
     ''supersedes_direction_id'']"

definition relationship_fields :: "pyval dict \<Rightarrow> pyval dict" where
  "relationship_fields d =
     List.map_filter (\<lambda>k. if truthy (get_item d k) then Some (k, get_item d k) else None) relationship_names"

fun seq_items :: "pyval \<Rightarrow> pyval list option" where
  "seq_items (VList xs) = Some xs"
| "seq_items (VTuple xs) = Some xs"
| "seq_items _ = None"

definition read_ids :: "pyval \<Rightarrow> string \<Rightarrow> string \<Rightarrow> exn + string list" where
  "read_ids raw prefix name =
     (case seq_items raw of
        None \<Rightarrow> Inl (ValueError (Msg (name @ '' must contain at most 32 unique IDs'')))
      | Some vs \<Rightarrow>
          if length vs > 32 then Inl (ValueError (Msg (name @ '' must contain at most 32 unique IDs'')))
          else if list_ex (\<lambda>v. \<not> is_str v \<or> \<not> is_id prefix (str_of v)) vs
          then Inl (ValueError (Msg (name @ '' contains an invalid '' @ prefix @ '' ID'')))
          else if \<not> distinct vs then Inl (ValueError (Msg (name @ '' must not contain duplicate IDs'')))
          else Inr (map str_of vs))"

definition successors :: "lineage dict \<Rightarrow> string dict \<Rightarrow> string \<Rightarrow> string list" where
  \<comment> \<open>the parents of a stored direction, its own and those of its experiments\<close>
  "successors directions experiments p =
     (case dict_get directions p of
        None \<Rightarrow> []
      | Some l \<Rightarrow> ln_parents l @ List.map_filter (dict_get experiments) (ln_experiments l))"

text \<open>The loop over \<open>pending\<close>, whose last element is the head here; \<open>True\<close> is the raise of a cycle.\<close>

function meets :: "lineage dict \<Rightarrow> string dict \<Rightarrow> string \<Rightarrow> string list \<Rightarrow> string list \<Rightarrow> bool" where
  "meets directions experiments d [] visited = False"
| "meets directions experiments d (p # pending) visited =
     (if p = d then True
      else if p \<in> set visited then meets directions experiments d pending visited
      else meets directions experiments d (rev (successors directions experiments p) @ pending) (p # visited))"
  by pat_completeness auto
termination
proof (relation "inv_image (finite_psubset <*lex*> less_than)
    (\<lambda>(directions, experiments, d, pending, visited). (set (dict_keys directions) - set visited, length pending))")
  fix directions :: "lineage dict" and experiments :: "string dict" and d p :: string and pending visited
  assume "p \<notin> set visited"
  then show "((directions, experiments, d, rev (successors directions experiments p) @ pending, p # visited),
      directions, experiments, d, p # pending, visited)
    \<in> inv_image (finite_psubset <*lex*> less_than)
        (\<lambda>(directions, experiments, d, pending, visited). (set (dict_keys directions) - set visited, length pending))"
  proof (cases "dict_get directions p")
    case None
    then have "p \<notin> set (dict_keys directions)" by (auto simp: dict_keys_def map_of_eq_None_iff)
    with None show ?thesis by (auto simp: finite_psubset_def successors_def)
  next
    case (Some l)
    then have "p \<in> set (dict_keys directions)" by (force simp: dict_keys_def dest: map_of_SomeD)
    with \<open>p \<notin> set visited\<close> show ?thesis by (auto simp: finite_psubset_def)
  qed
qed (auto intro!: wf_inv_image wf_lex_prod wf_finite_psubset)

definition visible_parent :: "lineage dict \<Rightarrow> string \<Rightarrow> exn + unit" where
  "visible_parent directions p =
     guard_res (dict_has directions p)
       (ValueError (Msg (''Parent Direction '' @ p @ '' is not visible; load an existing Direction first'')))"

definition evidence_parent :: "lineage dict \<Rightarrow> string dict \<Rightarrow> string \<Rightarrow> exn + string" where
  "evidence_parent directions experiments e =
     (case dict_get experiments e of
        None \<Rightarrow> Inl (ValueError (Msg (''Parent Experiment '' @ e @ '' is not visible; load an existing Experiment first'')))
      | Some p \<Rightarrow> if dict_has directions p then Inr p
                  else Inl (ValueError (Msg (''Parent Experiment '' @ e @ '' has no visible owning Direction''))))"

definition effective_parents ::
  "lineage dict \<Rightarrow> string dict \<Rightarrow> string list \<Rightarrow> string list \<Rightarrow> exn + string list" where
  "effective_parents directions experiments parents evidence =
     bind_res (map_res (visible_parent directions) parents) (\<lambda>_.
     bind_res (map_res (evidence_parent directions experiments) evidence) (\<lambda>owners.
     Inr (remdups (parents @ owners))))"

definition superseded :: "pyval dict \<Rightarrow> exn + unit" where
  "superseded d =
     (if get_item d ''supersedes_direction_id'' = VNull then Inr ()
      else bind_res (read_ids (VList [get_item d ''supersedes_direction_id'']) ''direction'' ''supersedes_direction_id'')
             (\<lambda>_. Inr ()))"

definition check_relationship :: "pyval \<Rightarrow> string list \<Rightarrow> pyval \<Rightarrow> exn + unit" where
  "check_relationship kind effective supersedes =
     (if effective = [] then Inl (ValueError (Msg ''relationship requires at least one parent Direction or Experiment''))
      else if kind = VStr ''combination'' \<and> length effective < 2
      then Inl (ValueError (Msg ''combination requires at least two distinct parent Directions, directly or via Experiments''))
      else if supersedes \<noteq> VNull \<and> (kind \<noteq> VStr ''correction'' \<or> str_of supersedes \<notin> set effective)
      then Inl (ValueError (Msg ''supersedes_direction_id requires correction and must name one of its parent Directions''))
      else Inr ())"

definition validate_relationship ::
  "string \<Rightarrow> pyval dict \<Rightarrow> lineage dict \<Rightarrow> string dict \<Rightarrow> exn + pyval dict" where
  "validate_relationship direction_id request directions experiments =
     (let kind = get_item request ''relationship''; supersedes = get_item request ''supersedes_direction_id'' in
      bind_res (read_ids (dict_get_default request ''derived_from_direction_ids'' (VList [])) ''direction''
                  ''derived_from_direction_ids'') (\<lambda>parents.
      bind_res (read_ids (dict_get_default request ''derived_from_experiment_ids'' (VList [])) ''experiment''
                  ''derived_from_experiment_ids'') (\<lambda>evidence.
      bind_res (superseded request) (\<lambda>_.
      if kind = VNull \<and> parents = [] \<and> evidence = [] \<and> supersedes = VNull then Inr []
      else if \<not> py_in kind (map VStr relationships)
      then Inl (ValueError (Msg ''relationship must be one of refinement, correction, combination''))
      else bind_res (effective_parents directions experiments parents evidence) (\<lambda>effective.
        bind_res (check_relationship kind effective supersedes) (\<lambda>_.
        if meets directions experiments direction_id (rev effective) []
        then Inl (ValueError (Msg ''Direction genealogy cannot contain self-references or cycles''))
        else Inr [(''relationship'', kind), (''derived_from_direction_ids'', VList (map VStr parents)),
                  (''derived_from_experiment_ids'', VList (map VStr evidence)),
                  (''supersedes_direction_id'', supersedes)]))))))"

section \<open>The lifecycle invariant\<close>

definition known_status :: "string \<Rightarrow> bool" where
  "known_status s \<longleftrightarrow> s \<in> snd ` set direction_status"

definition lifecycle_ok :: "string dict \<Rightarrow> bool" where
  "lifecycle_ok statuses \<longleftrightarrow> dict_wf statuses
     \<and> (\<forall>d e. dict_get statuses d = Some ''in_progress'' \<longrightarrow> dict_get statuses e = Some ''in_progress'' \<longrightarrow> d = e)
     \<and> (\<forall>d s. dict_get statuses d = Some s \<longrightarrow> is_id ''direction'' d \<and> known_status s)"

definition started_ok :: "string list \<Rightarrow> bool" where
  "started_ok started \<longleftrightarrow> distinct started \<and> length started \<le> 3"

lemma in_progress_iff: "dict_wf statuses \<Longrightarrow> d \<in> set (in_progress statuses) \<longleftrightarrow> dict_get statuses d = Some ''in_progress''"
  by (force simp: in_progress_def map_of_values [symmetric])

lemma others_Nil_iff:
  "dict_wf statuses \<Longrightarrow> filter (\<lambda>k. k \<noteq> d) (in_progress statuses) = [] \<longleftrightarrow>
     (\<forall>e. dict_get statuses e = Some ''in_progress'' \<longrightarrow> e = d)"
  by (auto simp: filter_empty_conv in_progress_iff)

lemma action_cases:
  assumes "dict_has direction_status act"
  obtains "act = ''propose''" | "act = ''start''" | "act \<in> set closures"
  using assms by (auto simp: dict_has_def direction_status_def closures_def split: if_splits)

lemma status_of:
  "dict_get_default direction_status ''propose'' [] = ''proposed''"
  "dict_get_default direction_status ''start'' [] = ''in_progress''"
  "act \<in> set closures \<Longrightarrow> dict_get_default direction_status act [] \<in> set closed_statuses"
  "s \<in> set closed_statuses \<Longrightarrow> s \<noteq> ''in_progress''"
  by (auto simp: dict_get_default_def direction_status_def closures_def closed_statuses_def)

lemma status_known: "dict_has direction_status act \<Longrightarrow> known_status (dict_get_default direction_status act [])"
proof -
  assume "dict_has direction_status act"
  then obtain s where s: "dict_get direction_status act = Some s" by (auto simp: dict_has_def)
  from map_of_SomeD [OF this] have "s \<in> snd ` set direction_status" by (rule image_eqI [rotated]) simp
  with s show ?thesis by (simp add: dict_get_default_def known_status_def)
qed

lemma guard_start:
  assumes "direction_guard statuses started d ''start'' = Inr ()"
  shows "filter (\<lambda>k. k \<noteq> d) (in_progress statuses) = []" "d \<in> set started \<or> length started < 3"
proof -
  obtain s where "dict_get statuses d = Some s" "may_start statuses started d s = Inr ()"
    using assms by (cases "dict_get statuses d") (simp_all add: direction_guard_def)
  then show "filter (\<lambda>k. k \<noteq> d) (in_progress statuses) = []" "d \<in> set started \<or> length started < 3"
    by (auto simp: may_start_def simp del: filter_empty_conv split: if_split_asm)
qed

lemma advance_Inr:
  assumes "advance_direction statuses started direction_id action = Inr (statuses', started')"
  obtains d act where "direction_id = VStr d" "action = VStr act" "is_id ''direction'' d" "dict_has direction_status act"
    "direction_guard statuses started d act = Inr ()" "statuses' = dict_set statuses d (dict_get_default direction_status act [])"
    "started' = (if act = ''start'' \<and> d \<notin> set started then started @ [d] else started)"
proof -
  obtain d where d: "direction_id = VStr d" using assms
    by (cases direction_id) (auto simp: advance_direction_def split: if_split_asm)
  obtain act where a: "action = VStr act" using assms
    by (cases action) (auto simp: advance_direction_def split: if_split_asm)
  show thesis
    using assms that [of d act] unfolding d a advance_direction_def by (auto simp: Let_def res_simps split: if_split_asm)
qed

lemma advance_ok:
  assumes "lifecycle_ok statuses" "started_ok started"
    "advance_direction statuses started direction_id action = Inr (statuses', started')"
  shows "lifecycle_ok statuses'" "started_ok started'"
proof -
  from assms(3) obtain d act where a: "is_id ''direction'' d" "dict_has direction_status act"
    "direction_guard statuses started d act = Inr ()" "statuses' = dict_set statuses d (dict_get_default direction_status act [])"
    "started' = (if act = ''start'' \<and> d \<notin> set started then started @ [d] else started)"
    by (rule advance_Inr)
  have start: "\<forall>e. dict_get statuses e = Some ''in_progress'' \<longrightarrow> e = d" "d \<in> set started \<or> length started < 3"
    if "act = ''start''"
    using guard_start [OF a(3) [unfolded that]] assms(1) by (auto simp: others_Nil_iff lifecycle_ok_def)
  have other: "dict_get_default direction_status act [] \<noteq> ''in_progress''" if "act \<noteq> ''start''"
    using a(2) that by (cases rule: action_cases) (auto simp: status_of dest: status_of(3,4))
  show "lifecycle_ok statuses'"
  proof (cases "act = ''start''")
    case True
    with assms(1) start(1) a(1) status_known [OF a(2)] show ?thesis
      by (auto simp: lifecycle_ok_def a(4) dict_simps status_of)
  next
    case False
    from other [OF this] assms(1) a(1) status_known [OF a(2)] show ?thesis
      by (auto simp: lifecycle_ok_def a(4) dict_simps)
  qed
  show "started_ok started'"
    using assms(2) start(2) by (auto simp: started_ok_def a(5))
qed

section \<open>Ancestry\<close>

definition ancestry :: "lineage dict \<Rightarrow> string dict \<Rightarrow> (string \<times> string) set" where
  "ancestry directions experiments = {(c, p). p \<in> set (successors directions experiments c)}"

lemma meets_sound:
  "meets directions experiments d pending visited \<Longrightarrow> \<exists>p\<in>set pending. (p, d) \<in> (ancestry directions experiments)\<^sup>*"
proof (induction directions experiments d pending visited rule: meets.induct)
  case (2 directions experiments d p pending visited)
  then show ?case
    by (auto split: if_split_asm simp: ancestry_def) (metis (mono_tags, lifting) case_prodI converse_rtrancl_into_rtrancl mem_Collect_eq)
qed simp

lemma meets_complete:
  assumes "\<not> meets directions experiments d pending visited"
    "ancestry directions experiments `` set visited \<subseteq> set visited \<union> set pending" "d \<notin> set visited"
  shows "d \<notin> (ancestry directions experiments)\<^sup>* `` (set pending \<union> set visited)"
  using assms
proof (induction directions experiments d pending visited rule: meets.induct)
  case (1 directions experiments d visited)
  then have "(ancestry directions experiments)\<^sup>* `` set visited = set visited"
    by (intro Image_closed_trancl) auto
  with 1 show ?case by simp
next
  case (2 directions experiments d p pending visited)
  from 2(3) have p: "p \<noteq> d" by auto
  show ?case
  proof (cases "p \<in> set visited")
    case True
    with 2 p show ?thesis by (simp add: insert_absorb)
  next
    case False
    have n: "ancestry directions experiments `` {p} = set (successors directions experiments p)"
      by (auto simp: ancestry_def)
    have "d \<notin> (ancestry directions experiments)\<^sup>* `` (set (rev (successors directions experiments p) @ pending) \<union> set (p # visited))"
      using 2(3-) p False n by (intro 2(2)) auto
    then show ?thesis by (auto simp: Image_Un)
  qed
qed

lemma meets_iff: "meets directions experiments d pending [] \<longleftrightarrow> d \<in> (ancestry directions experiments)\<^sup>* `` set pending"
  using meets_sound [of directions experiments d pending "[]"] meets_complete [of directions experiments d pending "[]"] by auto

lemma acyclic_new_node:
  assumes "acyclic r" "\<forall>e\<in>E. (e, d) \<notin> r\<^sup>*"
  shows "acyclic (r \<union> {d} \<times> E)"
proof -
  have "(x, y) \<in> r\<^sup>+ \<or> ((x, d) \<in> r\<^sup>* \<and> (\<exists>e\<in>E. (e, y) \<in> r\<^sup>*))" if "(x, y) \<in> (r \<union> {d} \<times> E)\<^sup>+" for x y
    using that
  proof (induction rule: trancl_induct)
    case (base y)
    then show ?case by auto
  next
    case (step y z)
    from step.hyps(2) consider "(y, z) \<in> r" | "y = d" "z \<in> E" by auto
    then show ?case
    proof cases
      case 1
      with step.IH show ?thesis by (meson rtrancl.rtrancl_into_rtrancl trancl.trancl_into_trancl)
    next
      case 2
      with step.IH assms(2) show ?thesis by (auto dest: trancl_into_rtrancl)
    qed
  qed
  with assms show ?thesis unfolding acyclic_def by (meson rtrancl_trans)
qed

lemma effective_parents_Inr:
  assumes "effective_parents directions experiments parents evidence = Inr effective"
  shows "set evidence \<subseteq> dom (dict_get experiments)"
    "set effective = set parents \<union> set (List.map_filter (dict_get experiments) evidence)"
    "set effective \<subseteq> dom (dict_get directions)"
proof -
  obtain owners us where o: "map_res (evidence_parent directions experiments) evidence = Inr owners"
    "effective = remdups (parents @ owners)" "map_res (visible_parent directions) parents = Inr us"
    using assms by (auto simp: effective_parents_def bind_res_Inr_iff)
  have one: "evidence_parent directions experiments e = Inr p \<longleftrightarrow> dict_get experiments e = Some p \<and> dict_has directions p" for e p
    by (auto simp: evidence_parent_def split: option.splits)
  have "set evidence \<subseteq> dom (dict_get experiments) \<and> owners = List.map_filter (dict_get experiments) evidence
      \<and> set owners \<subseteq> dom (dict_get directions)"
    using o(1)
  proof (induction evidence arbitrary: owners)
    case (Cons e evidence)
    then obtain p ps where p: "dict_get experiments e = Some p" "dict_has directions p"
      "map_res (evidence_parent directions experiments) evidence = Inr ps" "owners = p # ps"
      by (auto simp: bind_res_Inr_iff one)
    from Cons.IH [OF p(3)] p(1,2,4) show ?case
      by (simp add: map_filter_simps dict_has_def dom_def) blast
  qed (simp add: map_filter_simps)
  moreover have "set parents \<subseteq> dom (dict_get directions)"
    using o(3) by (induction parents arbitrary: us) (auto simp: bind_res_Inr_iff visible_parent_def guard_res_iff dict_has_def)
  ultimately show "set evidence \<subseteq> dom (dict_get experiments)"
    "set effective = set parents \<union> set (List.map_filter (dict_get experiments) evidence)"
    "set effective \<subseteq> dom (dict_get directions)"
    using o(2) by auto
qed

lemma validated_Inr:
  assumes "validate_relationship d request directions experiments = Inr f"
  obtains "f = []" | kind parents evidence effective supersedes where
    "f = [(''relationship'', kind), (''derived_from_direction_ids'', VList (map VStr parents)),
          (''derived_from_experiment_ids'', VList (map VStr evidence)), (''supersedes_direction_id'', supersedes)]"
    "effective_parents directions experiments parents evidence = Inr effective"
    "\<not> meets directions experiments d (rev effective) []"
  using assms unfolding validate_relationship_def Let_def bind_res_Inr_iff
  by (auto simp: bind_res_Inr_iff split: if_split_asm)

section \<open>Properties\<close>

text \<open>The cycle check is exact.  The worklist over \<open>pending\<close> always ends, and it reports a cycle precisely when the new
  direction is reachable from one of its effective parents along the stored ancestry, that is along parent directions and
  the directions that own parent experiments.\<close>

theorem cycle_check_exact:
  "meets directions experiments d (rev effective) [] \<longleftrightarrow>
     (\<exists>p\<in>set effective. (p, d) \<in> {(c, q). q \<in> set (successors directions experiments c)}\<^sup>*)"
  by (auto simp: meets_iff ancestry_def)

end
