(* ===== verification/Journals.thy ===== *)
theory Journals
  imports Directions
begin

text \<open>
  The private journal of an episode (src/src/aka/light/workflow/journal_service.py): direction updates, experiments,
  the replay of finished episodes, and the evidence a report needs.  A journal is the dictionary stored on disk; the
  older journals of the campaign are a list of episode numbers with their stored values, in the order of their names.
  The measurement store is the parameter \<open>evidence\<close>, what \<open>_read_private_gateway_evidence\<close> derives from a record;
  \<open>fits\<close> is the size limit of the journal file, \<open>snapshot\<close> the candidate source of the workspace and \<open>sha256\<close> its
  digest.  Every request replays the history; the process-local cache of that replay is not modelled.
\<close>

section \<open>Request fields\<close>

definition state_error :: "string \<Rightarrow> exn" where
  "state_error msg = OtherException ''RuntimeStateError'' msg"

fun is_value_error :: "exn \<Rightarrow> bool" where
  \<comment> \<open>caught by \<open>except ValueError\<close>: an \<open>AgentRequestError\<close> is one\<close>
  "is_value_error (ValueError m) = True"
| "is_value_error (OtherException c m) = (c = ''AgentRequestError'')"
| "is_value_error e = False"

definition read_text :: "pyval \<Rightarrow> string \<Rightarrow> exn + string" where
  "read_text v label =
     (if \<not> is_str v \<or> py_strip (str_of v) = [] \<or> length (str_of v) > 16000 then Inl (request_error label)
      else Inr (py_strip (str_of v)))"

definition read_texts :: "pyval \<Rightarrow> string \<Rightarrow> exn + string list" where
  "read_texts v label =
     (case v of
        VList xs \<Rightarrow>
          if length xs > 64 \<or> list_ex (\<lambda>x. \<not> is_str x \<or> py_strip (str_of x) = [] \<or> length (str_of x) > 4000) xs
          then Inl (request_error label)
          else Inr (map (\<lambda>x. py_strip (str_of x)) xs)
      | _ \<Rightarrow> Inl (request_error label))"

definition require_fields :: "pyval dict \<Rightarrow> string list \<Rightarrow> string list \<Rightarrow> exn + unit" where
  "require_fields value required optional =
     guard_res (list_all (dict_has value) required \<and> list_all (\<lambda>k. k \<in> set (required @ optional)) (dict_keys value))
       (request_error ''invalid_fields'')"

definition items_of :: "pyval dict \<Rightarrow> string \<Rightarrow> pyval list" where
  \<comment> \<open>the list a journal holds under a key\<close>
  "items_of d k = (case get_item d k of VList xs \<Rightarrow> xs | _ \<Rightarrow> [])"

definition dicts_of :: "pyval dict \<Rightarrow> string \<Rightarrow> pyval dict list" where
  \<comment> \<open>those of its elements that are dictionaries\<close>
  "dicts_of d k = List.map_filter as_dict (items_of d k)"

section \<open>The stored journal\<close>

definition initialize_journal :: "nat \<Rightarrow> pyval \<Rightarrow> pyval \<Rightarrow> pyval \<Rightarrow> bool \<Rightarrow> string \<Rightarrow> pyval dict" where
  "initialize_journal episode base_commit branch memory_version research now =
     [(''schema_version'', VInt 2), (''runtime_managed'', VBool True), (''research_records'', VBool research),
      (''episode'', VInt (int episode)), (''memory_version'', memory_version), (''base_commit'', base_commit),
      (''episode_branch'', branch), (''state'', VStr ''in_progress''), (''direction_events'', VList []),
      (''experiments'', VList []), (''outcome'', VNull), (''candidate_commit'', VNull), (''created_at'', VStr now),
      (''finalized_at'', VNull)]"

definition load_journal :: "pyval \<Rightarrow> exn + pyval dict" where
  "load_journal v =
     (case as_dict v of
        None \<Rightarrow> Inl (state_error ''The Supervisor-owned Journal has an unsupported schema.'')
      | Some d \<Rightarrow>
          if \<not> py_eq (get_item d ''schema_version'') (VInt 2) \<or> get_item d ''runtime_managed'' \<noteq> VBool True
          then Inl (state_error ''The Supervisor-owned Journal has an unsupported schema.'')
          else if \<not> is_list (get_item d ''direction_events'') \<or> \<not> is_list (get_item d ''experiments'')
          then Inl (state_error ''The Supervisor-owned Journal collections are invalid.'')
          else if \<not> is_bool (dict_get_default d ''research_records'' (VBool True))
          then Inl (state_error ''The Supervisor-owned Journal research policy is invalid.'')
          else if get_item d ''research_records'' = VBool False
                  \<and> (items_of d ''direction_events'' \<noteq> [] \<or> items_of d ''experiments'' \<noteq> [])
          then Inl (state_error ''Research-disabled Journal contains unexpected research records.'')
          else Inr d)"

definition mutable_journal :: "pyval \<Rightarrow> exn + pyval dict" where
  "mutable_journal v =
     bind_res (load_journal v) (\<lambda>d.
     if get_item d ''research_records'' = VBool False then Inl (request_error ''research_records_disabled'')
     else if get_item d ''state'' \<noteq> VStr ''in_progress'' then Inl (request_error ''journal_finalized'')
     else Inr d)"

section \<open>Replay\<close>

record direction_view =
  dv_fields :: "pyval dict"
  dv_status :: string
  dv_analysis :: pyval
  dv_updated :: pyval
  dv_assessment :: pyval
  dv_supporting :: "string list"
  dv_associated :: "string list"

record replay =
  rp_views :: "direction_view dict"
  rp_statuses :: "string dict"
  rp_started :: "string list"

definition proposal_texts :: "pyval dict \<Rightarrow> exn + unit" where
  "proposal_texts e =
     bind_res (map_res (\<lambda>k. read_text (get_item e k) k) [''name'', ''hypothesis'', ''rationale'', ''recorded_at'']) (\<lambda>_.
     bind_res (map_res (\<lambda>k. read_texts (get_item e k) k) [''plan'', ''success_criteria'', ''stop_conditions'']) (\<lambda>_. Inr ()))"

definition new_view :: "pyval dict \<Rightarrow> direction_view" where
  "new_view e =
     \<lparr>dv_fields = map (\<lambda>k. (k, get_item e k)) [''name'', ''hypothesis'', ''rationale'', ''plan'', ''success_criteria'',
          ''stop_conditions'', ''recorded_at''] @ relationship_fields e,
      dv_status = ''proposed'', dv_analysis = VNull, dv_updated = VNull, dv_assessment = VStr ''unresolved'',
      dv_supporting = [], dv_associated = []\<rparr>"

definition append_new :: "string list \<Rightarrow> string list \<Rightarrow> string list" where
  "append_new xs ys = foldl (\<lambda>acc y. if y \<in> set acc then acc else acc @ [y]) xs ys"

definition update_view :: "pyval dict \<Rightarrow> string \<Rightarrow> direction_view \<Rightarrow> direction_view" where
  "update_view e action v =
     (let assessment = get_item e ''hypothesis_status'';
          support = map str_of (items_of e ''supporting_experiment_ids'') in
      v\<lparr>dv_status := dict_get_default direction_status action [], dv_analysis := get_item e ''analysis'',
        dv_updated := get_item e ''recorded_at'',
        dv_assessment := (if truthy assessment then assessment else VStr ''unresolved''),
        dv_supporting := (if assessment \<noteq> VNull \<and> action \<in> set closures then support else []),
        dv_associated := append_new (dv_associated v) support\<rparr>)"

definition history_error :: "exn + 'a \<Rightarrow> exn + 'a" where
  \<comment> \<open>\<open>except ValueError as error: raise RuntimeStateError\<close>\<close>
  "history_error r = (case r of Inl e \<Rightarrow> Inl (if is_value_error e then state_error ''Invalid Direction history'' else e) | Inr x \<Rightarrow> Inr x)"

definition replay_event :: "replay \<Rightarrow> pyval \<Rightarrow> exn + replay" where
  "replay_event r event =
     (case as_dict event of
        None \<Rightarrow> Inl (state_error ''Runtime Journal contains an invalid Direction event'')
      | Some e \<Rightarrow>
          let action = get_item e ''action''; d = str_of (get_item e ''direction_id'') in
          history_error
            (bind_res (advance_direction (rp_statuses r) (rp_started r) (get_item e ''direction_id'') action) (\<lambda>(statuses, started).
             bind_res (if action = VStr ''propose'' then proposal_texts e else Inr ()) (\<lambda>_.
             bind_res (read_texts (dict_get_default e ''supporting_experiment_ids'' (VList [])) ''supporting_experiment_ids'') (\<lambda>_.
             Inr \<lparr>rp_views =
                    (if action = VStr ''propose'' then dict_set (rp_views r) d (new_view e)
                     else case dict_get (rp_views r) d of
                            None \<Rightarrow> rp_views r
                          | Some v \<Rightarrow> dict_set (rp_views r) d (update_view e (str_of action) v)),
                  rp_statuses = statuses, rp_started = started\<rparr>)))))"

definition apply_direction_events :: "direction_view dict \<Rightarrow> string dict \<Rightarrow> pyval dict \<Rightarrow> exn + replay" where
  "apply_direction_events views statuses journal =
     fold_res replay_event \<lparr>rp_views = views, rp_statuses = statuses, rp_started = []\<rparr> (items_of journal ''direction_events'')"

definition associate :: "direction_view dict \<Rightarrow> pyval \<Rightarrow> direction_view dict" where
  \<comment> \<open>a direction id that is no text has no view, since the views are keyed by well-formed ids\<close>
  "associate views experiment =
     (case as_dict experiment of
        None \<Rightarrow> views
      | Some x \<Rightarrow>
          (case (get_item x ''direction_id'', get_item x ''experiment_id'') of
             (VStr d, VStr e) \<Rightarrow>
               (case dict_get views d of
                  None \<Rightarrow> views
                | Some v \<Rightarrow> dict_set views d (v\<lparr>dv_associated := append_new (dv_associated v) [e]\<rparr>))
           | _ \<Rightarrow> views))"

definition associate_experiments :: "direction_view dict \<Rightarrow> pyval list \<Rightarrow> direction_view dict" where
  "associate_experiments views experiments = foldl associate views experiments"

record history =
  hs_views :: "direction_view dict"
  hs_statuses :: "string dict"
  hs_experiments :: "pyval dict dict"   \<comment> \<open>\<open>experiments\<close> and \<open>experiments_by_id\<close>: by id, in the order of their records\<close>

definition no_history :: history where
  "no_history = \<lparr>hs_views = [], hs_statuses = [], hs_experiments = []\<rparr>"

definition index_experiment :: "history \<Rightarrow> pyval \<Rightarrow> history" where
  "index_experiment h experiment =
     (case as_dict experiment of
        None \<Rightarrow> h
      | Some x \<Rightarrow>
          (case get_item x ''experiment_id'' of
             VStr e \<Rightarrow>
               if dict_has (hs_experiments h) e then h
               else h\<lparr>hs_experiments := hs_experiments h @ [(e, x)], hs_views := associate (hs_views h) experiment\<rparr>
           | _ \<Rightarrow> h))"

definition index_historical_journal :: "history \<Rightarrow> nat \<times> pyval \<Rightarrow> exn + history" where
  "index_historical_journal h entry =
     (case load_journal (snd entry) of
        Inl e \<Rightarrow> Inl (state_error ''Historical Runtime Journal is unreadable; restore it before continuing.'')
      | Inr journal \<Rightarrow>
          if \<not> py_eq (get_item journal ''episode'') (VInt (int (fst entry)))
          then Inl (state_error ''Historical Runtime Journal has a mismatched Episode identity'')
          else if \<not> truthy (get_item journal ''finalized_at'') then Inr h
          else bind_res (apply_direction_events (hs_views h) (hs_statuses h) journal) (\<lambda>r.
            Inr (foldl index_experiment (h\<lparr>hs_views := rp_views r, hs_statuses := rp_statuses r\<rparr>)
                   (items_of journal ''experiments''))))"

definition visible_history :: "(nat \<times> pyval) list \<Rightarrow> pyval dict \<Rightarrow> exn + history" where
  "visible_history older current =
     (case get_item current ''episode'' of
        VInt n \<Rightarrow>
          if n < 0 then Inl (state_error ''Runtime Journal has an invalid Episode identity'')
          else fold_res index_historical_journal no_history (filter (\<lambda>(m, _). int m < n) older)
      | _ \<Rightarrow> Inl (state_error ''Runtime Journal has an invalid Episode identity''))"

definition direction_state :: "history \<Rightarrow> pyval dict \<Rightarrow> exn + replay" where
  "direction_state h current =
     bind_res (apply_direction_events (hs_views h) (hs_statuses h) current) (\<lambda>r.
     Inr (r\<lparr>rp_views := associate_experiments (rp_views r) (items_of current ''experiments'')\<rparr>))"

section \<open>Evidence\<close>

record gateway_evidence =
  \<comment> \<open>what \<open>_read_private_gateway_evidence\<close> returns of a record\<close>
  ge_kind :: pyval
  ge_digest :: pyval
  ge_kernel :: pyval
  ge_result :: "pyval dict"
  ge_completed :: bool
  ge_exit_code :: pyval
  ge_standard :: bool

type_synonym evidence = "string \<Rightarrow> exn + gateway_evidence"

definition evidence_kinds :: "string list" where
  "evidence_kinds = [''run'', ''same_allocation_abba'', ''profile'', ''dev'', ''check'', ''disassemble'']"

definition is_digest :: "string \<Rightarrow> bool" where
  \<comment> \<open>\<open>re.fullmatch(r"sha256:[0-9a-f]{64}", s)\<close>\<close>
  "is_digest s = (take 7 s = ''sha256:'' \<and> length s = 71 \<and> list_all is_hex_char (drop 7 s))"

definition is_kernel_id :: "string \<Rightarrow> bool" where
  "is_kernel_id s = (take 7 s = ''kernel-'' \<and> length s = 39 \<and> list_all is_hex_char (drop 7 s))"

definition bound_record :: "gateway_evidence \<Rightarrow> bool" where
  "bound_record g =
     (is_str (ge_kind g) \<and> str_of (ge_kind g) \<in> set evidence_kinds \<and> is_str (ge_digest g) \<and> is_digest (str_of (ge_digest g))
      \<and> is_str (ge_kernel g) \<and> is_kernel_id (str_of (ge_kernel g)))"

definition check_record :: "evidence \<Rightarrow> string \<Rightarrow> exn + unit" where
  "check_record evidence record_id =
     (case evidence record_id of
        Inl e \<Rightarrow> Inl (if is_value_error e then request_error ''invalid_value'' else e)
      | Inr g \<Rightarrow>
          if bound_record g then Inr ()
          else Inl (ValueError (Msg (''Gateway Record '' @ record_id @ '' must bind a real Kernel and a GPU operation''))))"

definition validate_record_ids :: "evidence \<Rightarrow> pyval \<Rightarrow> string \<Rightarrow> exn + string list" where
  "validate_record_ids evidence raw label =
     bind_res (read_texts raw ''gateway_record_ids'') (\<lambda>records.
     if records = []
     then Inl (request_error (if label = ''Episode Report'' then ''invalid_value'' else ''experiment_evidence_required''))
     else if \<not> distinct records then Inl (request_error ''invalid_value'')
     else bind_res (map_res (check_record evidence) records) (\<lambda>_. Inr records))"

fun any_completed :: "evidence \<Rightarrow> string list \<Rightarrow> exn + bool" where
  "any_completed evidence [] = Inr False"
| "any_completed evidence (r # rs) =
     bind_res (evidence r) (\<lambda>g. if ge_completed g then Inr True else any_completed evidence rs)"

definition hypothesis_statuses :: "string list" where
  "hypothesis_statuses = [''unresolved'', ''supported'', ''refuted'']"

definition current_experiments :: "pyval dict \<Rightarrow> pyval dict dict" where
  "current_experiments current =
     foldl (\<lambda>d x. case get_item x ''experiment_id'' of VStr e \<Rightarrow> dict_set d e x | _ \<Rightarrow> d) [] (dicts_of current ''experiments'')"

definition find_experiment :: "history \<Rightarrow> pyval dict \<Rightarrow> string \<Rightarrow> pyval dict option" where
  \<comment> \<open>\<open>ChainMap(history.experiments_by_id, current_experiments)\<close>\<close>
  "find_experiment h current e =
     (case dict_get (hs_experiments h) e of Some x \<Rightarrow> Some x | None \<Rightarrow> dict_get (current_experiments current) e)"

definition check_support :: "evidence \<Rightarrow> history \<Rightarrow> pyval dict \<Rightarrow> string \<Rightarrow> string \<Rightarrow> string \<Rightarrow> exn + unit" where
  "check_support evidence h current d assessment experiment_id =
     (case find_experiment h current experiment_id of
        None \<Rightarrow> Inl (ValueError (Msg (''Supporting Experiment '' @ experiment_id @ '' is outside visible history'')))
      | Some x \<Rightarrow>
          if get_item x ''direction_id'' \<noteq> VStr d
          then Inl (ValueError (Msg ''Supporting Experiment must belong to the Direction being closed''))
          else bind_res (validate_record_ids evidence (get_item x ''gateway_record_ids'') ''Experiment'') (\<lambda>records.
            if assessment = ''unresolved'' then Inr ()
            else bind_res (any_completed evidence records) (\<lambda>done.
              guard_res done (request_error ''direction_assessment_requires_completed_result''))))"

definition closure_support :: "evidence \<Rightarrow> history \<Rightarrow> pyval dict \<Rightarrow> string \<Rightarrow> pyval dict \<Rightarrow> exn + string list" where
  "closure_support evidence h current d request =
     (let assessment = get_item request ''hypothesis_status'' in
      if \<not> is_str assessment \<or> str_of assessment \<notin> set hypothesis_statuses
      then Inl (ValueError (Msg ''hypothesis_status must be unresolved, supported, or refuted''))
      else bind_res (read_texts (get_item request ''supporting_experiment_ids'') ''supporting_experiment_ids'') (\<lambda>selected.
        if length selected < 1 \<or> length selected > 32 \<or> \<not> distinct selected
        then Inl (request_error ''direction_support_required'')
        else bind_res (map_res (check_support evidence h current d (str_of assessment)) selected) (\<lambda>_. Inr selected)))"

section \<open>Updates\<close>

definition proposal_fields :: "string list" where
  "proposal_fields = [''action'', ''name'', ''hypothesis'', ''rationale'', ''plan'', ''success_criteria'', ''stop_conditions'']"

definition update_fields :: "string list" where
  "update_fields = [''action'', ''direction_id'', ''analysis'']"

definition closure_fields :: "string list" where
  "closure_fields = update_fields @ [''hypothesis_status'', ''supporting_experiment_ids'']"

definition id_list :: "pyval dict \<Rightarrow> string \<Rightarrow> string list" where
  \<comment> \<open>the ids a stored relationship names\<close>
  "id_list d k = map str_of (items_of d k)"

definition lineage_of :: "pyval dict \<Rightarrow> lineage" where
  "lineage_of d = \<lparr>ln_parents = id_list d ''derived_from_direction_ids'', ln_experiments = id_list d ''derived_from_experiment_ids''\<rparr>"

definition lineages :: "direction_view dict \<Rightarrow> lineage dict" where
  "lineages views = map (\<lambda>(d, v). (d, lineage_of (dv_fields v))) views"

definition owners :: "history \<Rightarrow> pyval dict \<Rightarrow> string dict" where
  \<comment> \<open>the direction of every visible experiment\<close>
  "owners h current = map (\<lambda>(e, x). (e, str_of (get_item x ''direction_id''))) (hs_experiments h @ current_experiments current)"

definition started_ids :: "pyval dict \<Rightarrow> string list" where
  "started_ids current =
     remdups (map (\<lambda>e. str_of (get_item e ''direction_id''))
       (filter (\<lambda>e. get_item e ''action'' = VStr ''start'') (dicts_of current ''direction_events'')))"

record stamps =
  \<comment> \<open>two fresh \<open>uuid4\<close> and the clock\<close>
  st_id :: string
  st_event :: string
  st_now :: string

definition has_relationship :: "pyval dict \<Rightarrow> bool" where
  "has_relationship request = list_ex (dict_has request) relationship_names"

definition proposal_event ::
  "history \<Rightarrow> pyval dict \<Rightarrow> replay \<Rightarrow> string list \<Rightarrow> stamps \<Rightarrow> pyval dict \<Rightarrow> exn + pyval dict" where
  "proposal_event h current r started st request =
     bind_res (require_fields request proposal_fields relationship_names) (\<lambda>_.
     bind_res (advance_direction (rp_statuses r) started (VStr (st_id st)) (VStr ''propose'')) (\<lambda>_.
     bind_res (if has_relationship request
               then validate_relationship (st_id st) request (lineages (rp_views r)) (owners h current) else Inr []) (\<lambda>ancestry.
     bind_res (map_res (\<lambda>k. read_text (get_item request k) k) [''name'', ''hypothesis'', ''rationale'']) (\<lambda>texts.
     bind_res (map_res (\<lambda>k. read_texts (get_item request k) k) [''plan'', ''success_criteria'', ''stop_conditions'']) (\<lambda>lists.
     Inr ([(''direction_event_id'', VStr (st_event st)), (''direction_id'', VStr (st_id st)), (''action'', VStr ''propose''),
           (''name'', VStr (texts ! 0)), (''hypothesis'', VStr (texts ! 1)), (''rationale'', VStr (texts ! 2)),
           (''plan'', VList (map VStr (lists ! 0))), (''success_criteria'', VList (map VStr (lists ! 1))),
           (''stop_conditions'', VList (map VStr (lists ! 2))), (''recorded_at'', VStr (st_now st))] @ ancestry))))))"

definition lifecycle_event ::
  "evidence \<Rightarrow> history \<Rightarrow> pyval dict \<Rightarrow> replay \<Rightarrow> string list \<Rightarrow> stamps \<Rightarrow> pyval dict \<Rightarrow> exn + pyval dict" where
  "lifecycle_event evidence h current r started st request =
     (let action = get_item request ''action''; closing = is_str action \<and> str_of action \<in> set closures in
      if has_relationship request then Inl (ValueError (Msg ''Direction genealogy is immutable''))
      else if \<not> is_str action \<or> \<not> dict_has direction_status (str_of action)
      then Inl (ValueError (Msg ''Direction action must be propose, start, complete, abandon, block, or defer''))
      else bind_res (require_fields request (if closing then closure_fields else update_fields) []) (\<lambda>_.
        bind_res (read_text (get_item request ''direction_id'') ''direction_id'') (\<lambda>d.
        bind_res (advance_direction (rp_statuses r) started (VStr d) action) (\<lambda>_.
        bind_res (if closing then closure_support evidence h current d request else Inr []) (\<lambda>supporting.
        bind_res (read_text (get_item request ''analysis'') ''analysis'') (\<lambda>analysis.
        Inr [(''direction_event_id'', VStr (st_event st)), (''direction_id'', VStr d), (''action'', action),
             (''analysis'', VStr analysis), (''recorded_at'', VStr (st_now st)),
             (''supporting_experiment_ids'', VList (map VStr supporting)),
             (''hypothesis_status'', get_item request ''hypothesis_status'')]))))))"

definition save_journal :: "(pyval dict \<Rightarrow> bool) \<Rightarrow> pyval dict \<Rightarrow> exn + pyval dict" where
  "save_journal fits journal = (if fits journal then Inr journal else Inl (request_error ''journal_size_limit''))"

definition append_item :: "string \<Rightarrow> pyval \<Rightarrow> pyval dict \<Rightarrow> pyval dict" where
  \<comment> \<open>\<open>journal[k].append(v)\<close>\<close>
  "append_item k v journal = dict_set journal k (VList (items_of journal k @ [v]))"

definition update_direction ::
  "evidence \<Rightarrow> (pyval dict \<Rightarrow> bool) \<Rightarrow> (nat \<times> pyval) list \<Rightarrow> pyval \<Rightarrow> stamps \<Rightarrow> pyval dict \<Rightarrow> exn + pyval dict" where
  "update_direction evidence fits older stored st request =
     bind_res (mutable_journal stored) (\<lambda>current.
     bind_res (visible_history older current) (\<lambda>h.
     bind_res (direction_state h current) (\<lambda>r.
     bind_res (if get_item request ''action'' = VStr ''propose''
               then proposal_event h current r (started_ids current) st request
               else lifecycle_event evidence h current r (started_ids current) st request) (\<lambda>event.
     save_journal fits (append_item ''direction_events'' (VDict event) current)))))"

section \<open>Experiments\<close>

definition experiment_fields :: "string list" where
  "experiment_fields = [''direction_id'', ''name'', ''hypothesis'', ''change'', ''gateway_record_ids'', ''evidence'', ''analysis'',
     ''action'']"

definition experiment_actions :: "string list" where
  "experiment_actions = [''baseline'', ''keep_after'', ''restore_before'', ''abandon_direction'', ''adopt'']"

definition wiki_fields :: "string list" where
  "wiki_fields = [''wiki_usage'', ''wiki_query_ids'', ''wiki_usage_status'']"

definition experiment_direction :: "direction_view dict \<Rightarrow> pyval dict \<Rightarrow> exn + string" where
  "experiment_direction views request =
     bind_res (read_text (get_item request ''direction_id'') ''direction_id'') (\<lambda>d.
     if \<not> is_id ''direction'' d then Inl (ValueError (Msg ''Experiment Direction ID has an invalid format''))
     else case dict_get views d of
         None \<Rightarrow> Inl (ValueError (Msg ''Experiment Direction is outside visible history''))
       | Some v \<Rightarrow>
           if dv_status v \<notin> set (''in_progress'' # closed_statuses)
           then Inl (ValueError (Msg ''Experiment Direction must be in progress or closed''))
           else Inr d)"

definition experiment_row ::
  "evidence \<Rightarrow> direction_view dict \<Rightarrow> pyval dict \<Rightarrow> stamps \<Rightarrow> pyval dict \<Rightarrow> exn + pyval dict" where
  "experiment_row evidence views current st request =
     bind_res (experiment_direction views request) (\<lambda>d.
     let action = get_item request ''action'' in
     if \<not> is_str action \<or> str_of action \<notin> set experiment_actions
     then Inl (ValueError (Msg ''Experiment action must be one of the experiment actions''))
     else bind_res (validate_record_ids evidence (get_item request ''gateway_record_ids'') ''Experiment'') (\<lambda>records.
       if action = VStr ''baseline'' \<and> list_ex (\<lambda>x. get_item x ''action'' = VStr ''baseline'') (dicts_of current ''experiments'')
       then Inl (ValueError (Msg ''an Episode may record baseline only once''))
       else bind_res (map_res (\<lambda>k. read_text (get_item request k) k) [''name'', ''hypothesis'', ''change'', ''evidence'', ''analysis'']) (\<lambda>texts.
         Inr [(''experiment_id'', VStr (st_id st)), (''direction_id'', VStr d),
              (''sequence'', VInt (int (length (items_of current ''experiments'')) + 1)), (''recorded_at'', VStr (st_now st)),
              (''name'', VStr (texts ! 0)), (''hypothesis'', VStr (texts ! 1)), (''change'', VStr (texts ! 2)),
              (''gateway_record_ids'', VList (map VStr records)), (''evidence'', VStr (texts ! 3)),
              (''analysis'', VStr (texts ! 4)), (''action'', action)])))"

definition record_experiment ::
  "evidence \<Rightarrow> (pyval dict \<Rightarrow> bool) \<Rightarrow> (pyval dict \<Rightarrow> pyval dict \<Rightarrow> exn + pyval dict) \<Rightarrow> (nat \<times> pyval) list \<Rightarrow> pyval
     \<Rightarrow> stamps \<Rightarrow> pyval dict \<Rightarrow> exn + pyval dict" where
  \<comment> \<open>\<open>attribution\<close> checks the wiki fields of the request and gives the fields they add to the row\<close>
  "record_experiment evidence fits attribution older stored st request =
     bind_res (mutable_journal stored) (\<lambda>current.
     bind_res (require_fields request experiment_fields wiki_fields) (\<lambda>_.
     bind_res (visible_history older current) (\<lambda>h.
     bind_res (direction_state h current) (\<lambda>r.
     bind_res (experiment_row evidence (rp_views r) current st request) (\<lambda>row.
     bind_res (if list_ex (dict_has request) wiki_fields then attribution request row else Inr []) (\<lambda>wiki.
     save_journal fits (append_item ''experiments'' (VDict (row @ wiki)) current)))))))"

section \<open>Reports\<close>

definition passing_evaluate :: "gateway_evidence \<Rightarrow> string \<Rightarrow> bool" where
  "passing_evaluate g digest =
     (ge_kind g = VStr ''run'' \<and> ge_digest g = VStr digest \<and> get_item (ge_result g) ''all_pass'' = VBool True
      \<and> \<not> truthy (get_item (ge_result g) ''error'') \<and> ge_completed g \<and> py_eq (ge_exit_code g) (VInt 0) \<and> ge_standard g
      \<and> get_item (ge_result g) ''mode'' \<noteq> VStr ''correctness_only'' \<and> truthy (get_item (ge_result g) ''latency_us_by_shape''))"

fun has_passing_evaluate :: "evidence \<Rightarrow> string list \<Rightarrow> string \<Rightarrow> exn + bool" where
  "has_passing_evaluate evidence [] digest = Inr False"
| "has_passing_evaluate evidence (r # rs) digest =
     bind_res (evidence r) (\<lambda>g. if passing_evaluate g digest then Inr True else has_passing_evaluate evidence rs digest)"

definition candidate_source ::
  "evidence \<Rightarrow> (string \<Rightarrow> string) \<Rightarrow> (exn + string) \<Rightarrow> exn \<Rightarrow> string list \<Rightarrow> exn + string" where
  \<comment> \<open>the snapshot, if one of the records is a passing evaluation of exactly it\<close>
  "candidate_source evidence sha256 snapshot refusal records =
     bind_res snapshot (\<lambda>source.
     bind_res (has_passing_evaluate evidence records (''sha256:'' @ sha256 source)) (\<lambda>ok.
     if ok then Inr source else Inl refusal))"

definition recheck_closure :: "evidence \<Rightarrow> history \<Rightarrow> pyval dict \<Rightarrow> pyval dict \<Rightarrow> exn + unit" where
  "recheck_closure evidence h current e =
     (if get_item e ''hypothesis_status'' = VNull then Inr ()
      else bind_res (closure_support evidence h current (str_of (get_item e ''direction_id'')) e) (\<lambda>_. Inr ()))"

definition selected_experiment :: "direction_view dict \<Rightarrow> pyval dict \<Rightarrow> pyval \<Rightarrow> exn + pyval dict" where
  "selected_experiment views current selected_id =
     (if \<not> is_str selected_id \<or> \<not> is_id ''experiment'' (str_of selected_id)
      then Inl (ValueError (Msg ''candidate_ready requires a valid selected_experiment_id''))
      else case filter (\<lambda>x. get_item x ''experiment_id'' = selected_id) (dicts_of current ''experiments'') of
        [x] \<Rightarrow>
          let action = get_item x ''action''; d = get_item x ''direction_id'' in
          if \<not> is_str action \<or> str_of action \<notin> set [''keep_after'', ''adopt'', ''baseline'']
          then Inl (ValueError (Msg ''selected Experiment must use baseline, keep_after, or adopt''))
          else if \<not> is_str d \<or> \<not> dict_has views (str_of d)
          then Inl (ValueError (Msg ''selected Experiment Direction is outside visible history''))
          else if dv_status (the (dict_get views (str_of d))) \<notin> set closed_statuses
          then Inl (ValueError (Msg ''selected Experiment Direction must have been started and closed''))
          else Inr x
      | _ \<Rightarrow> Inl (ValueError (Msg ''selected_experiment_id must identify exactly one Experiment in the current Episode'')))"

definition unresearched_report ::
  "evidence \<Rightarrow> (string \<Rightarrow> string) \<Rightarrow> (exn + string) \<Rightarrow> string \<Rightarrow> pyval \<Rightarrow> pyval \<Rightarrow> exn + string option" where
  "unresearched_report evidence sha256 snapshot status selected_id record_ids =
     (if selected_id \<noteq> VNull then Inl (ValueError (Msg ''Research recording is disabled''))
      else if status \<noteq> ''candidate_ready''
      then if record_ids \<noteq> VNull then Inl (ValueError (Msg (status @ '' cannot include gateway_record_ids''))) else Inr None
      else bind_res (validate_record_ids evidence record_ids ''Episode Report'') (\<lambda>records.
        map_sum id Some (candidate_source evidence sha256 snapshot (request_error ''candidate_evidence_mismatch'') records)))"

definition researched_report ::
  "evidence \<Rightarrow> (string \<Rightarrow> string) \<Rightarrow> (exn + string) \<Rightarrow> history \<Rightarrow> pyval dict \<Rightarrow> string \<Rightarrow> pyval
     \<Rightarrow> exn + direction_view dict \<times> string option" where
  "researched_report evidence sha256 snapshot h current status selected_id =
     bind_res (direction_state h current) (\<lambda>r.
     let views = rp_views r in
     if list_ex (\<lambda>(d, v). dv_status v = ''in_progress'') views
     then Inl (ValueError (Msg ''Episode Report cannot leave a Direction in progress''))
     else bind_res (map_res (recheck_closure evidence h current) (dicts_of current ''direction_events'')) (\<lambda>_.
       if status \<noteq> ''candidate_ready''
       then if selected_id \<noteq> VNull \<and> selected_id \<noteq> VStr []
            then Inl (ValueError (Msg (status @ '' cannot include selected_experiment_id''))) else Inr (views, None)
       else bind_res (selected_experiment views current selected_id) (\<lambda>x.
         bind_res (validate_record_ids evidence (get_item x ''gateway_record_ids'') ''Experiment'') (\<lambda>records.
         bind_res (candidate_source evidence sha256 snapshot
                     (ValueError (Msg ''selected Experiment must cite a passing Evaluate Gateway record'')) records) (\<lambda>source.
         Inr (views, Some source))))))"

definition validate_report_evidence ::
  "evidence \<Rightarrow> (string \<Rightarrow> string) \<Rightarrow> (exn + string) \<Rightarrow> (nat \<times> pyval) list \<Rightarrow> pyval \<Rightarrow> string \<Rightarrow> pyval \<Rightarrow> pyval
     \<Rightarrow> exn + pyval dict \<times> direction_view dict \<times> string option" where
  "validate_report_evidence evidence sha256 snapshot older stored status selected_id record_ids =
     bind_res (load_journal stored) (\<lambda>current.
     if get_item current ''research_records'' = VBool False
     then bind_res (unresearched_report evidence sha256 snapshot status selected_id record_ids) (\<lambda>source. Inr (current, [], source))
     else if record_ids \<noteq> VNull then Inl (ValueError (Msg ''Research recording is enabled''))
     else bind_res (visible_history older current) (\<lambda>h.
       bind_res (researched_report evidence sha256 snapshot h current status selected_id) (\<lambda>(views, source).
       Inr (current, views, source))))"

end
