(* ===== verification/Campaigns.thy ===== *)
theory Campaigns
  imports Journals
begin

text \<open>
  The journal of a campaign over its episodes: every accepted update replays, and the visible directions always form an
  acyclic genealogy with at most one direction in progress.
\<close>

section \<open>Fields of a journal\<close>

lemma get_item_set [dict_simps]: "get_item (dict_set d k v) k' = (if k' = k then v else get_item d k')"
  by (simp add: get_item_def dict_get_default_def dict_simps)

lemma items_of_append [dict_simps]:
  "items_of (append_item k v j) k' = (if k' = k then items_of j k @ [v] else items_of j k')"
  by (simp add: items_of_def append_item_def dict_simps)

lemma get_item_append [dict_simps]: "k' \<noteq> k \<Longrightarrow> get_item (append_item k v j) k' = get_item j k'"
  by (simp add: append_item_def dict_simps)

lemma read_text_again: "read_text v k = Inr t \<Longrightarrow> read_text (VStr t) k' = Inr t"
  using py_strip_length [of "str_of v"] by (auto simp: read_text_def split: if_splits)

lemma read_texts_cases:
  assumes "read_texts v k = Inr ts"
  obtains xs where "v = VList xs" "length xs \<le> 64" "ts = map (\<lambda>x. py_strip (str_of x)) xs"
    "\<forall>x\<in>set xs. is_str x \<and> py_strip (str_of x) \<noteq> [] \<and> length (str_of x) \<le> 4000"
  using assms by (cases v) (auto simp: read_texts_def list_ex_iff not_less split: if_split_asm)

lemma read_texts_again:
  assumes "read_texts v k = Inr ts"
  shows "read_texts (VList (map VStr ts)) k' = Inr ts"
proof -
  obtain xs where xs: "length xs \<le> 64" "ts = map (\<lambda>x. py_strip (str_of x)) xs"
    "\<forall>x\<in>set xs. is_str x \<and> py_strip (str_of x) \<noteq> [] \<and> length (str_of x) \<le> 4000"
    using assms by (rule read_texts_cases)
  have "\<not> length (py_strip (str_of x)) > 4000" if "x \<in> set xs" for x
    using py_strip_length [of "str_of x"] xs(3) that by fastforce
  with xs show ?thesis by (auto simp: read_texts_def list_ex_iff)
qed

section \<open>Views and lineages\<close>

lemma lineages_get: "dict_get (lineages views) d = map_option (\<lambda>v. lineage_of (dv_fields v)) (dict_get views d)"
  by (simp add: lineages_def map_of_map)

lemma lineages_set:
  "dict_get views d = Some v \<Longrightarrow> dv_fields v' = dv_fields v \<Longrightarrow> lineages (dict_set views d v') = lineages views"
  by (induction views d v' rule: dict_set.induct) (auto simp: lineages_def split: if_splits)

lemma lineages_new:
  "dict_get views d = None \<Longrightarrow> lineages (dict_set views d v) = lineages views @ [(d, lineage_of (dv_fields v))]"
  by (induction views d v rule: dict_set.induct) (auto simp: lineages_def split: if_splits)

text \<open>Associating an experiment changes nothing but the list it is entered in.\<close>

lemma associate_same:
  "lineages (associate views x) = lineages views"
  "map_option dv_status (dict_get (associate views x) d) = map_option dv_status (dict_get views d)"
  "dict_wf views \<Longrightarrow> dict_wf (associate views x)"
  by (auto simp: associate_def lineages_set dict_simps split: option.splits pyval.splits)

lemma associates_same:
  "lineages (associate_experiments views xs) = lineages views"
  "map_option dv_status (dict_get (associate_experiments views xs) d) = map_option dv_status (dict_get views d)"
  "dict_wf views \<Longrightarrow> dict_wf (associate_experiments views xs)"
  unfolding associate_experiments_def by (induction xs arbitrary: views) (auto simp: associate_same)

section \<open>What is visible\<close>

definition visible_ok :: "direction_view dict \<Rightarrow> string dict \<Rightarrow> string dict \<Rightarrow> bool" where
  "visible_ok views statuses own \<longleftrightarrow> lifecycle_ok statuses \<and> dict_wf views
     \<and> (\<forall>d. map_option dv_status (dict_get views d) = dict_get statuses d)
     \<and> acyclic (ancestry (lineages views) own)
     \<and> (\<forall>d l. dict_get (lineages views) d = Some l \<longrightarrow> set (ln_experiments l) \<subseteq> dom (dict_get own))"

lemma visible_associates:
  "visible_ok views statuses own \<Longrightarrow> visible_ok (associate_experiments views xs) statuses own"
  by (simp add: visible_ok_def associates_same)

lemma ancestry_cong:
  assumes "\<And>e. e \<in> dom (dict_get own) \<Longrightarrow> dict_get own' e = dict_get own e"
    "\<forall>d l. dict_get views d = Some l \<longrightarrow> set (ln_experiments l) \<subseteq> dom (dict_get own)"
  shows "ancestry views own' = ancestry views own"
proof -
  have "set (successors views own' c) = set (successors views own c)" for c
  proof (cases "dict_get views c")
    case (Some l)
    then have "set (ln_experiments l) \<subseteq> dom (dict_get own)" using assms(2) by blast
    then have "List.map_filter (dict_get own') (ln_experiments l) = List.map_filter (dict_get own) (ln_experiments l)"
      using assms(1) by (auto simp: map_filter_def subset_iff intro!: map_cong filter_cong)
    with Some show ?thesis by (simp add: successors_def)
  qed (simp add: successors_def)
  then show ?thesis by (simp add: ancestry_def)
qed

lemma visible_extend:
  assumes "visible_ok views statuses own" "\<And>e. e \<in> dom (dict_get own) \<Longrightarrow> dict_get own' e = dict_get own e"
  shows "visible_ok views statuses own'"
proof -
  have "dom (dict_get own) \<subseteq> dom (dict_get own')" using assms(2) by force
  with assms(1) ancestry_cong [of own own' "lineages views", OF assms(2)] show ?thesis
    unfolding visible_ok_def by (metis (no_types, lifting) order_trans)
qed

section \<open>One event\<close>

lemma history_error_Inr: "history_error r = Inr x \<longleftrightarrow> r = Inr x"
  by (cases r) (auto simp: history_error_def)

lemma as_dict_iff: "as_dict v = Some d \<longleftrightarrow> v = VDict d"
  by (cases v) auto

lemma replay_Inr:
  assumes "replay_event r event = Inr r'"
  obtains e d act where "event = VDict e" "get_item e ''direction_id'' = VStr d" "get_item e ''action'' = VStr act"
    "advance_direction (rp_statuses r) (rp_started r) (VStr d) (VStr act) = Inr (rp_statuses r', rp_started r')"
    "rp_views r' = (if act = ''propose'' then dict_set (rp_views r) d (new_view e)
       else case dict_get (rp_views r) d of None \<Rightarrow> rp_views r | Some v \<Rightarrow> dict_set (rp_views r) d (update_view e act v))"
proof -
  obtain e where e: "event = VDict e" using assms by (auto simp: replay_event_def as_dict_iff split: option.splits)
  obtain st started where a: "advance_direction (rp_statuses r) (rp_started r) (get_item e ''direction_id'') (get_item e ''action'') =
      Inr (st, started)"
    using assms by (auto simp: replay_event_def e Let_def history_error_Inr bind_res_Inr_iff)
  from a obtain d act where d: "get_item e ''direction_id'' = VStr d" "get_item e ''action'' = VStr act"
    by (rule advance_Inr)
  have v: "act = ''propose'' \<longleftrightarrow> VStr act = VStr ''propose''" by simp
  show thesis
    using assms a d by (intro that [OF e d]) (auto simp: replay_event_def e Let_def history_error_Inr bind_res_Inr_iff cong: option.case_cong)
qed

lemma replay_started:
  assumes "fold_res replay_event r events = Inr r'" "distinct (rp_started r)"
  shows "distinct (rp_started r') \<and> set (rp_started r') = set (rp_started r) \<union>
     set (map (\<lambda>e. str_of (get_item e ''direction_id'')) (filter (\<lambda>e. get_item e ''action'' = VStr ''start'') (List.map_filter as_dict events)))"
  using assms
proof (induction events arbitrary: r)
  case (Cons event events)
  then obtain r1 where r1: "replay_event r event = Inr r1" "fold_res replay_event r1 events = Inr r'" by (auto simp: res_simps)
  from r1(1) obtain e d act where e: "event = VDict e" "get_item e ''direction_id'' = VStr d" "get_item e ''action'' = VStr act"
    "advance_direction (rp_statuses r) (rp_started r) (VStr d) (VStr act) = Inr (rp_statuses r1, rp_started r1)"
    by (rule replay_Inr)
  from e(4) have s: "rp_started r1 = (if act = ''start'' \<and> d \<notin> set (rp_started r) then rp_started r @ [d] else rp_started r)"
    by (rule advance_Inr) simp
  then have "distinct (rp_started r1)" using Cons.prems(2) by simp
  from Cons.IH [OF r1(2) this] show ?case
    by (auto simp: s e(1-3) map_filter_def)
qed (simp add: map_filter_def)

lemma apply_started:
  assumes "apply_direction_events views statuses j = Inr r"
  shows "distinct (rp_started r)" "set (rp_started r) = set (started_ids j)"
  using replay_started [OF assms [unfolded apply_direction_events_def]] by (simp_all add: started_ids_def dicts_of_def)

text \<open>The guard depends on the set of started directions only.\<close>

lemma advance_started:
  assumes "advance_direction statuses started d act = Inr (st, sd)"
    "set started' = set started" "distinct started'" "distinct started"
  shows "\<exists>sd'. advance_direction statuses started' d act = Inr (st, sd')"
proof -
  have "length started' = length started" using assms(2-4) by (metis distinct_card)
  then have "direction_guard statuses started' x a = direction_guard statuses started x a" for x a
    using assms(2) by (simp add: direction_guard_def may_start_def split: option.split)
  then show ?thesis using assms(1) by (auto simp: advance_direction_def Let_def res_simps split: if_split_asm)
qed

section \<open>Proposals\<close>

definition clock_ok :: "stamps \<Rightarrow> bool" where
  \<comment> \<open>the time stamp is a text the journal accepts\<close>
  "clock_ok st \<longleftrightarrow> is_ok (read_text (VStr (st_now st)) ''recorded_at'')"

lemma proposal_parts:
  assumes "proposal_event h current r started st request = Inr e"
  obtains statuses sd name hypothesis rationale plan success stop ancestry where
    "advance_direction (rp_statuses r) started (VStr (st_id st)) (VStr ''propose'') = Inr (statuses, sd)"
    "ancestry = [] \<or> validate_relationship (st_id st) request (lineages (rp_views r)) (owners h current) = Inr ancestry"
    "e = [(''direction_event_id'', VStr (st_event st)), (''direction_id'', VStr (st_id st)), (''action'', VStr ''propose''),
       (''name'', VStr name), (''hypothesis'', VStr hypothesis), (''rationale'', VStr rationale),
       (''plan'', VList (map VStr plan)), (''success_criteria'', VList (map VStr success)),
       (''stop_conditions'', VList (map VStr stop)), (''recorded_at'', VStr (st_now st))] @ ancestry"
    "\<forall>t\<in>{name, hypothesis, rationale}. \<forall>k. read_text (VStr t) k = Inr t"
    "\<forall>ts\<in>{plan, success, stop}. \<forall>k. read_texts (VList (map VStr ts)) k = Inr ts"
proof -
  obtain sd anc t1 t2 t3 l1 l2 l3 where
    p: "advance_direction (rp_statuses r) started (VStr (st_id st)) (VStr ''propose'') = Inr sd"
    "(if has_relationship request then validate_relationship (st_id st) request (lineages (rp_views r)) (owners h current)
      else Inr []) = Inr anc"
    "read_text (get_item request ''name'') ''name'' = Inr t1" "read_text (get_item request ''hypothesis'') ''hypothesis'' = Inr t2"
    "read_text (get_item request ''rationale'') ''rationale'' = Inr t3"
    "read_texts (get_item request ''plan'') ''plan'' = Inr l1"
    "read_texts (get_item request ''success_criteria'') ''success_criteria'' = Inr l2"
    "read_texts (get_item request ''stop_conditions'') ''stop_conditions'' = Inr l3"
    "e = [(''direction_event_id'', VStr (st_event st)), (''direction_id'', VStr (st_id st)), (''action'', VStr ''propose''),
       (''name'', VStr t1), (''hypothesis'', VStr t2), (''rationale'', VStr t3),
       (''plan'', VList (map VStr l1)), (''success_criteria'', VList (map VStr l2)),
       (''stop_conditions'', VList (map VStr l3)), (''recorded_at'', VStr (st_now st))] @ anc"
    using assms by (auto simp: proposal_event_def bind_res_Inr_iff)
  obtain a b where "sd = (a, b)" by (cases sd)
  with p(1) have a: "advance_direction (rp_statuses r) started (VStr (st_id st)) (VStr ''propose'') = Inr (a, b)" by simp
  have v: "anc = [] \<or> validate_relationship (st_id st) request (lineages (rp_views r)) (owners h current) = Inr anc"
    using p(2) by (auto split: if_split_asm)
  show thesis
    by (rule that [OF a v p(9)]) (auto intro: read_text_again [OF p(3)] read_text_again [OF p(4)] read_text_again [OF p(5)]
        read_texts_again [OF p(6)] read_texts_again [OF p(7)] read_texts_again [OF p(8)])
qed

lemma proposal_replays:
  assumes "proposal_event h current r started st request = Inr e" "clock_ok st" "rp_statuses r0 = rp_statuses r"
    "set (rp_started r0) = set started" "distinct (rp_started r0)" "distinct started"
  shows "is_ok (replay_event r0 (VDict e))"
proof -
  from assms(1) obtain statuses sd name hypothesis rationale plan success stop ancestry where
    p: "advance_direction (rp_statuses r) started (VStr (st_id st)) (VStr ''propose'') = Inr (statuses, sd)"
    "ancestry = [] \<or> validate_relationship (st_id st) request (lineages (rp_views r)) (owners h current) = Inr ancestry"
    "e = [(''direction_event_id'', VStr (st_event st)), (''direction_id'', VStr (st_id st)), (''action'', VStr ''propose''),
       (''name'', VStr name), (''hypothesis'', VStr hypothesis), (''rationale'', VStr rationale),
       (''plan'', VList (map VStr plan)), (''success_criteria'', VList (map VStr success)),
       (''stop_conditions'', VList (map VStr stop)), (''recorded_at'', VStr (st_now st))] @ ancestry"
    "\<forall>t\<in>{name, hypothesis, rationale}. \<forall>k. read_text (VStr t) k = Inr t"
    "\<forall>ts\<in>{plan, success, stop}. \<forall>k. read_texts (VList (map VStr ts)) k = Inr ts"
    by (rule proposal_parts)
  obtain sd' where a: "advance_direction (rp_statuses r0) (rp_started r0) (VStr (st_id st)) (VStr ''propose'') = Inr (statuses, sd')"
    using advance_started [OF p(1) assms(4-6)] assms(3) by auto
  obtain now where now: "read_text (VStr (st_now st)) ''recorded_at'' = Inr now"
    using assms(2) by (auto simp: clock_ok_def is_ok_iff)
  have s: "dict_get_default e ''supporting_experiment_ids'' (VList []) = VList []"
  proof -
    have "dict_get ancestry ''supporting_experiment_ids'' = None"
      using p(2) by (auto elim!: validated_Inr)
    then show ?thesis by (simp add: p(3) dict_get_default_def)
  qed
  have g: "get_item e ''direction_id'' = VStr (st_id st)" "get_item e ''action'' = VStr ''propose''"
    "get_item e ''name'' = VStr name" "get_item e ''hypothesis'' = VStr hypothesis" "get_item e ''rationale'' = VStr rationale"
    "get_item e ''plan'' = VList (map VStr plan)" "get_item e ''success_criteria'' = VList (map VStr success)"
    "get_item e ''stop_conditions'' = VList (map VStr stop)" "get_item e ''recorded_at'' = VStr (st_now st)"
    by (simp_all add: p(3) get_item_def dict_get_default_def)
  have "proposal_texts e = Inr ()"
    using p(4,5) now by (simp add: proposal_texts_def g)
  then show ?thesis
    by (simp add: replay_event_def g a s Let_def history_error_def read_texts_def)
qed

section \<open>Lifecycle updates\<close>

lemma lifecycle_parts:
  assumes "lifecycle_event evidence h current r started st request = Inr e"
  obtains d act statuses sd supporting analysis where
    "get_item request ''action'' = VStr act" "dict_has direction_status act"
    "advance_direction (rp_statuses r) started (VStr d) (VStr act) = Inr (statuses, sd)"
    "supporting = [] \<and> act \<notin> set closures \<or> act \<in> set closures \<and> closure_support evidence h current d request = Inr supporting"
    "e = [(''direction_event_id'', VStr (st_event st)), (''direction_id'', VStr d), (''action'', VStr act),
       (''analysis'', VStr analysis), (''recorded_at'', VStr (st_now st)),
       (''supporting_experiment_ids'', VList (map VStr supporting)),
       (''hypothesis_status'', get_item request ''hypothesis_status'')]"
proof -
  obtain act where act: "get_item request ''action'' = VStr act" "dict_has direction_status act"
    using assms by (cases "get_item request ''action''") (auto simp: lifecycle_event_def Let_def split: if_split_asm)
  have "\<exists>d statuses sd supporting analysis.
     advance_direction (rp_statuses r) started (VStr d) (VStr act) = Inr (statuses, sd)
     \<and> (supporting = [] \<and> act \<notin> set closures \<or> act \<in> set closures \<and> closure_support evidence h current d request = Inr supporting)
     \<and> e = [(''direction_event_id'', VStr (st_event st)), (''direction_id'', VStr d), (''action'', VStr act),
       (''analysis'', VStr analysis), (''recorded_at'', VStr (st_now st)),
       (''supporting_experiment_ids'', VList (map VStr supporting)),
       (''hypothesis_status'', get_item request ''hypothesis_status'')]"
    using assms act by (auto simp: lifecycle_event_def Let_def bind_res_Inr_iff split: if_split_asm)
  then show thesis using that [OF act] by blast
qed

lemma closure_support_again:
  "closure_support evidence h current d request = Inr supporting \<Longrightarrow> read_texts (VList (map VStr supporting)) k = Inr supporting"
  by (auto simp: closure_support_def Let_def bind_res_Inr_iff intro: read_texts_again split: if_split_asm)

lemma lifecycle_replays:
  assumes "lifecycle_event evidence h current r started st request = Inr e" "rp_statuses r0 = rp_statuses r"
    "set (rp_started r0) = set started" "distinct (rp_started r0)" "distinct started"
    "get_item request ''action'' \<noteq> VStr ''propose''"
  shows "is_ok (replay_event r0 (VDict e))"
proof -
  from assms(1) obtain d act statuses sd supporting analysis where
    p: "get_item request ''action'' = VStr act" "dict_has direction_status act"
    "advance_direction (rp_statuses r) started (VStr d) (VStr act) = Inr (statuses, sd)"
    "supporting = [] \<and> act \<notin> set closures \<or> act \<in> set closures \<and> closure_support evidence h current d request = Inr supporting"
    "e = [(''direction_event_id'', VStr (st_event st)), (''direction_id'', VStr d), (''action'', VStr act),
       (''analysis'', VStr analysis), (''recorded_at'', VStr (st_now st)),
       (''supporting_experiment_ids'', VList (map VStr supporting)),
       (''hypothesis_status'', get_item request ''hypothesis_status'')]"
    by (rule lifecycle_parts)
  obtain sd' where a: "advance_direction (rp_statuses r0) (rp_started r0) (VStr d) (VStr act) = Inr (statuses, sd')"
    using advance_started [OF p(3) assms(3-5)] assms(2) by auto
  have s: "read_texts (VList (map VStr supporting)) k = Inr supporting" for k
    using p(4) closure_support_again [of evidence h current d request supporting] by (auto simp: read_texts_def [of "VList []"])
  have g: "get_item e ''direction_id'' = VStr d" "get_item e ''action'' = VStr act"
    "dict_get_default e ''supporting_experiment_ids'' (VList []) = VList (map VStr supporting)"
    by (simp_all add: p(5) get_item_def dict_get_default_def)
  show ?thesis
    using p(1) assms(6) by (simp add: replay_event_def g a s Let_def history_error_def)
qed

text \<open>An accepted update leaves a journal that replays, with the event as its last step.\<close>

lemma update_direction_Inr:
  assumes "update_direction evidence fits older stored st request = Inr j'"
  obtains j h r e where "mutable_journal stored = Inr j" "visible_history older j = Inr h" "direction_state h j = Inr r"
    "(if get_item request ''action'' = VStr ''propose'' then proposal_event h j r (started_ids j) st request
      else lifecycle_event evidence h j r (started_ids j) st request) = Inr e"
    "fits (append_item ''direction_events'' (VDict e) j)" "j' = append_item ''direction_events'' (VDict e) j"
proof -
  obtain j h r e where u: "mutable_journal stored = Inr j" "visible_history older j = Inr h" "direction_state h j = Inr r"
    "(if get_item request ''action'' = VStr ''propose'' then proposal_event h j r (started_ids j) st request
      else lifecycle_event evidence h j r (started_ids j) st request) = Inr e"
    "save_journal fits (append_item ''direction_events'' (VDict e) j) = Inr j'"
    using assms unfolding update_direction_def bind_res_Inr_iff by blast
  from u(5) have "fits (append_item ''direction_events'' (VDict e) j)" "j' = append_item ''direction_events'' (VDict e) j"
    by (auto simp: save_journal_def split: if_split_asm)
  with u(1-4) show thesis by (rule that)
qed

lemma visible_history_append:
  "k \<noteq> ''episode'' \<Longrightarrow> visible_history older (append_item k v j) = visible_history older j"
  by (simp add: visible_history_def dict_simps)

lemma bind_res_right: "bind_res m Inr = m"
  by (cases m) auto

lemma apply_append_event:
  "apply_direction_events views statuses (append_item ''direction_events'' e j) =
     bind_res (apply_direction_events views statuses j) (\<lambda>r. replay_event r e)"
  by (simp add: apply_direction_events_def dict_simps fold_res_append bind_res_right)

end
