(* ===== verification/Sources.thy ===== *)
theory Sources
  imports Journals
begin

text \<open>
  Candidate sources (src/src/aka/light/workspace/sources): which paths may hold source (common.py), the three candidate file
  systems with their contracts (single_file.py, source_tree.py, cuda_manifest.py, selected in registry.py), and the snapshot of
  a candidate as one byte string (storage.py).  Bytes are strings; a text is given by its UTF-8 bytes.  Python's \<open>json\<close> and
  \<open>sha256\<close> are fields of the \<open>codec\<close>.
\<close>

record codec =
  cd_loads :: "string \<Rightarrow> exn + pyval"
  cd_dumps :: "pyval \<Rightarrow> string"     \<comment> \<open>\<open>json.dumps(v, sort_keys=True, ensure_ascii=False, separators=(',', ':'))\<close>\<close>
  cd_sha256 :: "string \<Rightarrow> string"

section \<open>Paths\<close>

definition path_parts :: "string \<Rightarrow> string list" where
  \<comment> \<open>\<open>Path(name).parts\<close> of a relative path\<close>
  "path_parts name = filter (\<lambda>p. p \<noteq> [] \<and> p \<noteq> ''.'') (str_split (CHR ''/'') name)"

definition path_suffix :: "string \<Rightarrow> string" where
  \<comment> \<open>\<open>Path(name).suffix\<close>\<close>
  "path_suffix name =
     (let last_part = (case rev (path_parts name) of [] \<Rightarrow> [] | p # ps \<Rightarrow> p);
          tail = takeWhile (\<lambda>c. c \<noteq> CHR ''.'') (rev last_part) in
      if tail = [] \<or> length last_part \<le> Suc (length tail) then [] else ''.'' @ rev tail)"

definition policy_path :: string where "policy_path = ''.atrex_source.json''"
definition selection_path :: string where "selection_path = ''.atrex_file_system.json''"
definition kernel_path :: string where "kernel_path = ''kernel.py''"
definition solution_path :: string where "solution_path = ''solution.json''"
definition snapshot_magic :: string where "snapshot_magic = ''ATREX-SOURCE-TREE-v1'' @ [CHR 0x0A]"
definition max_file :: nat where "max_file = 16 * 1024 * 1024"
definition max_total :: nat where "max_total = 64 * 1024 * 1024"
definition max_snapshot :: nat where "max_snapshot = 6 * max_total"

definition caches :: "string list" where
  "caches = [''.git'', ''__pycache__'', ''.pytest_cache'', ''.mypy_cache'', ''.ruff_cache'']"

definition protected_imports :: "string list" where
  "protected_imports = [''atrex_bench'', ''torch'', ''cutlass'', ''cuda'', ''triton'', ''site'', ''sitecustomize'', ''usercustomize'',
     ''importlib'', ''packaging'', ''json'', ''subprocess'', ''os'', ''sys'']"

definition workspace_only :: "string list" where
  "workspace_only = [''tools'', ''skills'', ''scratch'', ''memory'', ''input'', ''profiles'', ''eval'', ''plans'',
     ''reference'', ''reference-projects'', ''gpu-wiki'', ''atrex-bench'', ''verification_artifacts'',
     ''README.md'', ''CLAUDE.md'', ''WORKSPACE.md'', ''agent_problem.json'', ''reference.py'', ''input.py'',
     ''shapes.json'', ''metadata.json'', ''roofline.json'', ''valid.py'', ''definition.json'', ''workload.jsonl'',
     ''solution.json'', ''config.json'', ''test_kernel.py'', ''profile_driver.py'', ''evaluations.jsonl'',
     ''numerical_probe.py'', ''numerical_inputs.py'', ''probe-request.json'', ''policy_review_request.json'',
     ''.gitignore'', ''.claude'', ''.codex'', ''.qoder'', ''.agents'', ''.pi'', ''.orchestrator_mode.json'',
     ''.aka-agent-observations'', ''.aka-agent-sessions'', ''.aka-agent-session-errors'', ''.humanize'',
     ''.gpu_wiki_profile'', ''.atrex_long_horizon'', ''.atrex_versions'', ''.atrex_plugins'',
     ''.atrex_stall_state.json'', ''.orchestrator_state.json'', ''framework_baseline.json'',
     ''baseline_report.md'', ''trace-retention-manifest.json'', ''.atrex_environment'', ''.qodersec'', ''.venv'', ''node_modules'',
     policy_path, selection_path]"

definition safe_path :: "string \<Rightarrow> bool" where
  "safe_path s =
     (s \<noteq> [] \<and> \<not> starts_with ''/'' s \<and> \<not> starts_with ''-'' s
      \<and> \<not> list_ex (\<lambda>c. c = CHR 0x5C \<or> c = CHR 0x00 \<or> c = CHR 0x0A \<or> c = CHR 0x0D) s
      \<and> \<not> list_ex (\<lambda>p. p = [] \<or> p = ''.'' \<or> p = ''..'') (str_split (CHR ''/'') s))"

definition relative :: "bool \<Rightarrow> pyval \<Rightarrow> exn + string" where
  "relative dot v =
     (if dot \<and> v = VStr ''.'' then Inr ''.''
      else if is_str v \<and> safe_path (str_of v) then Inr (str_of v)
      else Inl (ValueError (MsgV ''Unsafe source path: '' v)))"

definition ignored :: "string \<Rightarrow> bool" where
  "ignored name = (list_ex (\<lambda>p. p \<in> set caches) (path_parts name) \<or> path_suffix name \<in> {''.pyc'', ''.pyo''})"

definition source_name :: "string \<Rightarrow> bool" where
  "source_name name = (hd (str_split (CHR ''/'') name) \<notin> set workspace_only \<and> \<not> ignored name)"

fun utf8 :: "string \<Rightarrow> bool" where
  \<comment> \<open>whether \<open>data.decode("utf-8")\<close> succeeds: the well-formed byte sequences of Unicode\<close>
  "utf8 [] = True"
| "utf8 [a] = (a < CHR 0x80)"
| "utf8 [a, b] = (if a < CHR 0x80 then b < CHR 0x80 else char_in CHR 0xC2 CHR 0xDF a \<and> char_in CHR 0x80 CHR 0xBF b)"
| "utf8 (a # b # c # s) =
     (if a < CHR 0x80 then utf8 (b # c # s)
      else if char_in CHR 0xC2 CHR 0xDF a then char_in CHR 0x80 CHR 0xBF b \<and> utf8 (c # s)
      else if char_in CHR 0xE0 CHR 0xEF a
      then (if a = CHR 0xE0 then char_in CHR 0xA0 CHR 0xBF b
            else if a = CHR 0xED then char_in CHR 0x80 CHR 0x9F b else char_in CHR 0x80 CHR 0xBF b)
           \<and> char_in CHR 0x80 CHR 0xBF c \<and> utf8 s
      else char_in CHR 0xF0 CHR 0xF4 a
           \<and> (if a = CHR 0xF0 then char_in CHR 0x90 CHR 0xBF b
              else if a = CHR 0xF4 then char_in CHR 0x80 CHR 0x8F b else char_in CHR 0x80 CHR 0xBF b)
           \<and> char_in CHR 0x80 CHR 0xBF c
           \<and> (case s of [] \<Rightarrow> False | d # s' \<Rightarrow> char_in CHR 0x80 CHR 0xBF d \<and> utf8 s'))"

definition decode_bytes :: "string \<Rightarrow> exn + string" where
  "decode_bytes data = (if utf8 data then Inr data else Inl (ValueError (Msg ''invalid utf-8'')))"

type_synonym file_map = "string dict"
type_synonym policy = pyval   \<comment> \<open>the contract of a candidate; \<open>None\<close> for a single file\<close>

section \<open>Source trees\<close>

fun any_root :: "string \<Rightarrow> pyval list \<Rightarrow> bool" where
  "any_root name [] = False"
| "any_root name (r # rs) = (r = VStr name \<or> is_str r \<and> starts_with (str_of r @ ''/'') name \<or> any_root name rs)"

definition roots_of :: "pyval dict \<Rightarrow> pyval list" where
  "roots_of p = (case get_item p ''editable_roots'' of VList rs \<Rightarrow> rs | _ \<Rightarrow> [])"

definition tree_editable :: "pyval dict \<Rightarrow> string \<Rightarrow> bool" where
  "tree_editable p name = any_root name (roots_of p)"

definition fixed_files :: "pyval dict \<Rightarrow> pyval dict" where
  "fixed_files p = (case get_item p ''immutable_files'' of VDict d \<Rightarrow> d | _ \<Rightarrow> [])"

definition contract_fields :: "string list" where
  "contract_fields = [''schema_version'', ''source_revision'', ''seed_digest'', ''package_root'', ''editable_roots'',
     ''immutable_files'', ''runtime_requirements'']"

definition hex_text :: "nat \<Rightarrow> pyval \<Rightarrow> bool" where
  "hex_text n v = (is_str v \<and> length (str_of v) = n \<and> list_all is_hex_char (str_of v))"

definition check_root :: "pyval \<Rightarrow> exn + unit" where
  "check_root v =
     bind_res (relative False v) (\<lambda>name.
       guard_res (source_name name) (ValueError (Msg ''Editable root collides with workspace infrastructure'')))"

definition check_fixed :: "string \<times> pyval \<Rightarrow> exn + unit" where
  "check_fixed entry =
     (case entry of (name, digest) \<Rightarrow>
        bind_res (relative False (VStr name)) (\<lambda>_.
          guard_res (source_name name \<and> hex_text 64 digest)
            (ValueError (Msg ''Invalid fixed source identity or reserved workspace path''))))"

definition check_requirement :: "pyval \<Rightarrow> exn + unit" where
  "check_requirement item =
     guard_res
       (case as_dict item of
          None \<Rightarrow> False
        | Some d \<Rightarrow> set (dict_keys d) \<subseteq> {''distribution'', ''import'', ''version''}
            \<and> truthy (get_item d ''distribution'') \<and> truthy (get_item d ''import'')
            \<and> list_all (\<lambda>(k, v). is_str v \<and> CHR 0x0A \<notin> set (str_of v) \<and> CHR 0x0D \<notin> set (str_of v)) d)
       (ValueError (Msg ''Invalid runtime requirement''))"

definition tree_policy :: "policy \<Rightarrow> exn + pyval dict" where
  \<comment> \<open>\<open>source_tree.validate_policy\<close>\<close>
  "tree_policy policy =
     (case as_dict policy of
        None \<Rightarrow> Inl (ValueError (Msg ''Invalid source contract''))
      | Some p \<Rightarrow>
          if set (dict_keys p) \<noteq> set contract_fields \<or> \<not> py_eq (get_item p ''schema_version'') (VInt 1)
          then Inl (ValueError (Msg ''Invalid source contract''))
          else bind_res (relative True (get_item p ''package_root'')) (\<lambda>_.
            let revision = get_item p ''source_revision''; seed = get_item p ''seed_digest'' in
            if \<not> (revision = VNull \<or> hex_text 40 revision \<or> hex_text 64 revision)
               \<or> \<not> (is_str seed \<and> starts_with ''sha256:'' (str_of seed) \<and> length (str_of seed) = 71
                     \<and> list_all is_hex_char (drop 7 (str_of seed)))
            then Inl (ValueError (Msg
              ''Source contract needs a seed digest and an exact Git revision or null for a directory snapshot''))
            else if \<not> is_list (get_item p ''editable_roots'') \<or> roots_of p = []
            then Inl (ValueError (Msg ''Source contract requires editable_roots''))
            else bind_res (map_res check_root (roots_of p)) (\<lambda>_.
            if \<not> is_dict (get_item p ''immutable_files'')
            then Inl (ValueError (Msg ''Source contract immutable_files must be an object''))
            else if tree_editable p kernel_path = dict_has (fixed_files p) kernel_path
            then Inl (ValueError (Msg ''Source contract must make kernel.py either editable or immutable''))
            else bind_res (map_res check_fixed (fixed_files p)) (\<lambda>_.
              case get_item p ''runtime_requirements'' of
                VList items \<Rightarrow> bind_res (map_res check_requirement items) (\<lambda>_. Inr p)
              | _ \<Rightarrow> Inl (ValueError (Msg ''runtime_requirements must be a list''))))))"

definition drop_suffix :: "string \<Rightarrow> string \<Rightarrow> string" where
  \<comment> \<open>\<open>s.removesuffix(t)\<close>\<close>
  "drop_suffix t s = (if ends_with t s then take (length s - length t) s else s)"

definition package_parts :: "pyval dict \<Rightarrow> string \<Rightarrow> string list" where
  "package_parts p name =
     (let package = path_parts (str_of (get_item p ''package_root'')); parts = path_parts name in
      if get_item p ''package_root'' \<noteq> VStr ''.'' \<and> take (length package) parts = package then drop (length package) parts else parts)"

definition prebuilt :: "string list" where
  "prebuilt = [''.so'', ''.a'', ''.o'', ''.cubin'', ''.whl'', ''.pth'']"

definition check_tree_file :: "codec \<Rightarrow> pyval dict \<Rightarrow> string \<times> string \<Rightarrow> exn + unit" where
  "check_tree_file cd p entry =
     (case entry of (name, data) \<Rightarrow>
        bind_res (relative False (VStr name)) (\<lambda>_.
        if \<not> source_name name then Inl (ValueError (Msg (''Source path collides with workspace infrastructure: '' @ name)))
        else if length data > max_file then Inl (ValueError (Msg (''Source file exceeds 16 MiB: '' @ name)))
        else bind_res (decode_bytes data) (\<lambda>_.
          case package_parts p name of
            [] \<Rightarrow> Inl (OtherException ''IndexError'' ''tuple index out of range'')
          | first # _ \<Rightarrow>
              if drop_suffix ''.py'' first \<in> set protected_imports
              then Inl (ValueError (Msg (''Source shadows a protected import: '' @ name)))
              else (case get_item (fixed_files p) name of
                  VNull \<Rightarrow>
                    if \<not> tree_editable p name then Inl (ValueError (Msg (''Source file is outside editable_roots: '' @ name)))
                    else if path_suffix name \<in> set prebuilt
                    then Inl (ValueError (Msg (''Prebuilt/loading artifact is not permitted: '' @ name)))
                    else Inr ()
                | expected \<Rightarrow>
                    guard_res (VStr (cd_sha256 cd data) = expected)
                      (ValueError (Msg (''Fixed source file was modified: '' @ name)))))))"

definition validate_tree :: "codec \<Rightarrow> file_map \<Rightarrow> policy \<Rightarrow> exn + file_map" where
  \<comment> \<open>\<open>source_tree.validate_files\<close>\<close>
  "validate_tree cd files policy =
     bind_res (tree_policy policy) (\<lambda>p.
     if \<not> dict_has files kernel_path then Inl (ValueError (Msg ''Source tree requires kernel.py''))
     else if length files > 4096 \<or> sum_list (map (length \<circ> snd) files) > max_total
     then Inl (ValueError (Msg ''Source tree exceeds 4096 files / 64 MiB''))
     else bind_res (map_res (check_tree_file cd p) files) (\<lambda>_.
       let missing = filter (\<lambda>k. \<not> dict_has files k) (dict_keys (fixed_files p)) in
       if missing \<noteq> [] then Inl (ValueError (Msg (''Fixed source files were removed: '' @ str_join '', '' (sorted_set missing))))
       else Inr files))"

section \<open>CUDA manifests\<close>

definition cuda_policy :: policy where
  "cuda_policy = VDict [(''kind'', VStr ''agate_cuda''), (''package_root'', VStr ''.''), (''immutable_files'', VDict []),
     (''runtime_requirements'', VList []), (''editable_roots'', VList [])]"

definition cuda_suffixes :: "string list" where
  "cuda_suffixes = [''.cu'', ''.cuh'', ''.h'', ''.hpp'', ''.cpp'', ''.cc'', ''.cxx'']"

definition manifest_fields :: "string list" where
  "manifest_fields = [''schema_version'', ''name'', ''version'', ''source'', ''entry_point'', ''dependencies'', ''targets'']"

definition check_native :: "pyval \<Rightarrow> exn + string" where
  "check_native v =
     bind_res (relative False v) (\<lambda>name.
       if \<not> source_name name \<or> path_suffix name \<notin> set cuda_suffixes \<or> starts_with ''.agate_dependencies/'' name
       then Inl (ValueError (Msg (''Not an editable native source path: '' @ name))) else Inr name)"

definition distinct_texts :: "pyval \<Rightarrow> bool" where
  \<comment> \<open>a nonempty list of different strings\<close>
  "distinct_texts v = (case v of VList vs \<Rightarrow> vs \<noteq> [] \<and> list_all is_str vs \<and> distinct vs | _ \<Rightarrow> False)"

definition valid_build :: "pyval dict \<Rightarrow> string list \<Rightarrow> bool" where
  "valid_build entry names =
     (case dict_get_default entry ''build'' (VDict []) of
        VDict build \<Rightarrow> get_item build ''toolchain'' = VStr ''torch_extension''
          \<and> (case get_item build ''sources'' of
                VList vs \<Rightarrow> vs \<noteq> [] \<and> list_all is_str vs \<and> set (map str_of vs) \<subseteq> set names
                  \<and> list_ex (\<lambda>v. ends_with ''.cu'' (str_of v)) vs
              | _ \<Rightarrow> False)
      | _ \<Rightarrow> False)"

definition manifest :: "codec \<Rightarrow> string \<Rightarrow> exn + (pyval dict \<times> string list) option" where
  \<comment> \<open>the manifest with the names of its local sources, or nothing when the file is not a versioned manifest\<close>
  "manifest cd raw =
     bind_res (cd_loads cd raw) (\<lambda>value.
     case as_dict value of
       None \<Rightarrow> Inr None
     | Some m \<Rightarrow>
         if \<not> dict_has m ''schema_version'' then Inr None
         else if get_item m ''schema_version'' \<noteq> VInt 1 then Inl (ValueError (Msg ''solution.json requires schema_version 1''))
         else (case get_item m ''entry_point'' of
             VDict entry \<Rightarrow>
               if get_item entry ''type'' \<noteq> VStr ''cuda''
               then Inl (ValueError (Msg ''Versioned AKA manifests currently require a CUDA entry_point''))
               else if \<not> set (dict_keys m) \<subseteq> set manifest_fields then Inl (ValueError (Msg ''Unknown solution.json fields''))
               else if \<not> nonempty_str (get_item m ''name'') \<or> \<not> nonempty_str (get_item m ''version'')
               then Inl (ValueError (Msg ''solution.json requires name and version strings''))
               else (case get_item m ''source'' of
                   VDict source \<Rightarrow>
                     if set (dict_keys source) \<noteq> {''type'', ''files''} \<or> get_item source ''type'' \<noteq> VStr ''local''
                     then Inl (ValueError (Msg ''AKA editable manifests require a local source''))
                     else if \<not> distinct_texts (get_item source ''files'')
                     then Inl (ValueError (Msg ''source.files must be a nonempty list of distinct local paths''))
                     else bind_res (map_res check_native (case get_item source ''files'' of VList vs \<Rightarrow> vs | _ \<Rightarrow> [])) (\<lambda>names.
                       if \<not> valid_build entry names
                       then Inl (ValueError (Msg ''CUDA build.sources must name declared sources including a .cu''))
                       else Inr (Some (m, names)))
                 | _ \<Rightarrow> Inl (ValueError (Msg ''AKA editable manifests require a local source'')))
           | _ \<Rightarrow> Inl (ValueError (Msg ''Versioned AKA manifests currently require a CUDA entry_point''))))"

definition check_native_file :: "string \<times> string \<Rightarrow> exn + unit" where
  "check_native_file entry =
     (if length (snd entry) > max_file then Inl (ValueError (Msg ''Native source file exceeds 16 MiB''))
      else bind_res (decode_bytes (snd entry)) (\<lambda>_. Inr ()))"

definition validate_native :: "codec \<Rightarrow> file_map \<Rightarrow> exn + file_map" where
  \<comment> \<open>\<open>cuda_manifest.validate\<close>\<close>
  "validate_native cd files =
     (case dict_get files solution_path of
        None \<Rightarrow> Inl (OtherException ''KeyError'' solution_path)
      | Some raw \<Rightarrow> bind_res (manifest cd raw) (\<lambda>value.
          if (case value of None \<Rightarrow> True | Some (m, names) \<Rightarrow> set (dict_keys files) \<noteq> insert solution_path (set names))
          then Inl (ValueError (Msg ''Native snapshot must contain exactly the manifest and its declared files''))
          else if length files > 2001
            \<or> sum_list (map (length \<circ> snd) (filter (\<lambda>(k, v). k \<noteq> solution_path) files)) > 4 * 1024 * 1024
          then Inl (ValueError (Msg ''Native source exceeds 2000 source files / 4 MiB''))
          else bind_res (map_res check_native_file files) (\<lambda>_. Inr files)))"

definition native_editable :: "string \<Rightarrow> exn + bool" where
  \<comment> \<open>\<open>cuda_manifest.editable\<close>\<close>
  "native_editable name =
     bind_res (relative False (VStr name)) (\<lambda>_.
       Inr (name = solution_path \<or> source_name name \<and> path_suffix name \<in> set cuda_suffixes))"

section \<open>File systems\<close>

datatype file_system = Single_File | Source_Tree | Cuda_Manifest

definition for_policy :: "policy \<Rightarrow> exn + file_system" where
  "for_policy policy =
     (case policy of
        VNull \<Rightarrow> Inr Single_File
      | VDict p \<Rightarrow> Inr (if get_item p ''kind'' = VStr ''agate_cuda'' then Cuda_Manifest else Source_Tree)
      | _ \<Rightarrow> Inl (ValueError (Msg ''Invalid source contract'')))"

definition fs_validate_policy :: "file_system \<Rightarrow> policy \<Rightarrow> exn + unit" where
  "fs_validate_policy system policy =
     (case system of
        Single_File \<Rightarrow>
          guard_res (policy = VNull) (ValueError (Msg ''Single-file candidates do not have a source-tree contract''))
      | Source_Tree \<Rightarrow> bind_res (tree_policy policy) (\<lambda>_. Inr ())
      | Cuda_Manifest \<Rightarrow> guard_res (py_eq policy cuda_policy) (ValueError (Msg ''Invalid CUDA manifest source contract'')))"

definition fs_validate :: "codec \<Rightarrow> file_system \<Rightarrow> file_map \<Rightarrow> policy \<Rightarrow> exn + file_map" where
  "fs_validate cd system files policy =
     (case system of
        Single_File \<Rightarrow>
          if set (dict_keys files) \<noteq> {kernel_path} then Inl (ValueError (Msg ''Single-file candidate requires exactly kernel.py''))
          else Inr files
      | Source_Tree \<Rightarrow> validate_tree cd files policy
      | Cuda_Manifest \<Rightarrow> validate_native cd files)"

definition fs_editable :: "file_system \<Rightarrow> policy \<Rightarrow> string \<Rightarrow> exn + bool" where
  "fs_editable system policy name =
     (case system of
        Single_File \<Rightarrow> Inr (name = kernel_path)
      | Source_Tree \<Rightarrow> Inr (case policy of VDict p \<Rightarrow> tree_editable p name | _ \<Rightarrow> False)
      | Cuda_Manifest \<Rightarrow> native_editable name)"

definition python_entrypoint :: "file_system \<Rightarrow> string option" where
  "python_entrypoint system = (if system = Cuda_Manifest then None else Some kernel_path)"

definition is_archived :: "file_system \<Rightarrow> bool" where
  "is_archived system = (system \<noteq> Single_File)"

section \<open>Snapshots\<close>

definition validate_files :: "codec \<Rightarrow> file_map \<Rightarrow> policy \<Rightarrow> exn + file_map" where
  "validate_files cd files policy =
     bind_res (for_policy policy) (\<lambda>system.
     bind_res (fs_validate_policy system policy) (\<lambda>_. fs_validate cd system files policy))"

definition snapshot_text :: "codec \<Rightarrow> file_map \<Rightarrow> policy \<Rightarrow> string" where
  "snapshot_text cd files policy =
     cd_dumps cd (VDict [(''contract'', policy), (''files'', VDict (map (\<lambda>(k, v). (k, VStr v)) (sort_key fst files)))])"

definition pack :: "codec \<Rightarrow> file_map \<Rightarrow> policy \<Rightarrow> exn + string" where
  "pack cd files policy =
     bind_res (validate_files cd files policy) (\<lambda>_.
     if policy = VNull then Inr (snd (hd files))
     else bind_res (map_res (decode_bytes \<circ> snd) (sort_key fst files)) (\<lambda>_.
       Inr (snapshot_magic @ snapshot_text cd files policy)))"

definition text_file :: "string \<times> pyval \<Rightarrow> exn + string \<times> string" where
  "text_file entry =
     (case snd entry of VStr s \<Rightarrow> Inr (fst entry, s) | _ \<Rightarrow> Inl (AttributeError ''encode''))"

definition unpack :: "codec \<Rightarrow> string \<Rightarrow> exn + policy \<times> file_map" where
  "unpack cd source =
     (if \<not> starts_with snapshot_magic source then Inr (VNull, [(kernel_path, source)])
      else if length source > max_snapshot then Inl (ValueError (Msg ''Source snapshot exceeds the bounded limit''))
      else bind_res (cd_loads cd (drop (length snapshot_magic) source)) (\<lambda>value.
        case as_dict value of
          None \<Rightarrow> Inl (TypeError (Msg ''indices must be integers or slices''))
        | Some d \<Rightarrow>
            (case (dict_get d ''files'', dict_get d ''contract'') of
               (None, _) \<Rightarrow> Inl (OtherException ''KeyError'' ''files'')
             | (Some v, c) \<Rightarrow>
                 (case as_dict v of
                    None \<Rightarrow> Inl (AttributeError ''items'')
                  | Some raw \<Rightarrow>
                      bind_res (map_res text_file raw) (\<lambda>files.
                      (case c of
                         None \<Rightarrow> Inl (OtherException ''KeyError'' ''contract'')
                       | Some contract \<Rightarrow>
                           bind_res (validate_files cd files contract) (\<lambda>_.
                           bind_res (pack cd files contract) (\<lambda>again.
                             if again \<noteq> source then Inl (ValueError (Msg ''Source snapshot is not canonical''))
                             else Inr (contract, files)))))))))"

definition allowed_changes :: "string list \<Rightarrow> policy \<Rightarrow> exn + bool" where
  \<comment> \<open>\<open>all(...)\<close> stops at the first path that is not editable or fixed\<close>
  "allowed_changes paths policy =
     bind_res (for_policy policy) (\<lambda>system.
       fold_res (\<lambda>ok name. if \<not> ok then Inr False
         else bind_res (fs_editable system policy name) (\<lambda>e.
           Inr (e \<and> \<not> (case policy of VDict p \<Rightarrow> dict_has (fixed_files p) name | _ \<Rightarrow> False)))) True paths)"

section \<open>Artifacts\<close>

definition measurement_binds :: "codec \<Rightarrow> string \<Rightarrow> pyval dict \<Rightarrow> pyval dict \<Rightarrow> exn + bool" where
  \<comment> \<open>\<open>Artifact(source).verify_measurement_inputs(request, "candidate")\<close> for the inputs and options of a request\<close>
  "measurement_binds cd source inputs options =
     bind_res (unpack cd source) (\<lambda>(policy, files).
     bind_res (for_policy policy) (\<lambda>system.
     if \<not> is_archived system then Inr (get_item inputs kernel_path = VStr (cd_sha256 cd source))
     else (case dict_get_default options ''source_snapshots'' (VDict []) of
         VDict snapshots \<Rightarrow>
           Inr (get_item snapshots ''candidate'' = VStr (cd_sha256 cd source)
                \<and> list_all (\<lambda>(n, v). get_item inputs n = VStr (cd_sha256 cd v)) files)
       | _ \<Rightarrow> Inl (AttributeError ''get''))))"

end
