(* ===== verification/CandidateChecks.thy ===== *)
theory CandidateChecks
  imports Sources
begin

text \<open>
  The supervisor's own validation of a candidate (\<open>RecordedAcceptance.validate_candidate\<close> in
  src/src/aka/light/acceptance/provider.py), which a report has to pass before its source is sealed: it measures exactly the
  bytes of the source, finds the record of that measurement and accepts it only if it is authoritative for these bytes and every
  correctness case passed.  The measurement itself, the store of records and the supplemental validator are the callables of
  the context, as in the code; an \<open>AgentRequestError\<close> is \<open>OtherException\<close> with its code.
\<close>

definition correctness_cases :: int where
  \<comment> \<open>\<open>CORRECTNESS_CASES\<close>: one base case and five additional seeds\<close>
  "correctness_cases = 6"

record gateway_response =
  gr_exit :: int
  gr_lines :: "string list"   \<comment> \<open>\<open>response["stdout"].splitlines()\<close>\<close>
  gr_reused :: bool           \<comment> \<open>\<open>response.get("reused") is True\<close>\<close>

record candidate_validation =
  cv_codec :: codec
  cv_atrex :: bool
  cv_production :: bool
  cv_measure :: "string list \<Rightarrow> string \<Rightarrow> bool \<Rightarrow> exn + gateway_response"
  cv_read :: "pyval \<Rightarrow> exn + pyval dict"
  cv_live :: "exn option"              \<comment> \<open>what \<open>ensure_live\<close> raises after the measurement\<close>
  cv_live_after :: "exn option"        \<comment> \<open>and after the supplemental validation\<close>
  cv_supplemental :: "(string \<Rightarrow> exn + string) option"
  cv_harness :: string                 \<comment> \<open>the digest of the SOL harness\<close>

definition candidate_acceptance_argv :: "bool \<Rightarrow> string list" where
  "candidate_acceptance_argv atrex =
     (if atrex then [''--kind'', ''run'', ''--mode'', ''correctness_only'', ''--multi-seed'', int_string (correctness_cases - 1), ''--no-sync'']
      else [''--kind'', ''run'', ''--no-sync''])"

section \<open>What the measurement printed\<close>

definition result_prefix :: string where "result_prefix = ''[test_kernel] RESULT_JSON=''"
definition record_prefix :: string where "record_prefix = ''[sandbox] RECORD_JSON=''"
definition source_error_prefix :: string where "source_error_prefix = ''[sandbox] SOURCE_ERROR_JSON=''"

definition marked :: "string \<Rightarrow> string list \<Rightarrow> string option" where
  \<comment> \<open>what follows the prefix on the last line that has it\<close>
  "marked prefix lines =
     (case filter (starts_with prefix) (rev lines) of [] \<Rightarrow> None | l # _ \<Rightarrow> Some (drop (length prefix) l))"

definition result_from_response :: "codec \<Rightarrow> string list \<Rightarrow> exn + pyval dict option" where
  \<comment> \<open>for the operation \<open>evaluate\<close>\<close>
  "result_from_response cd lines =
     (case marked result_prefix lines of
        None \<Rightarrow> Inr None
      | Some text \<Rightarrow> map_sum id as_dict (cd_loads cd text))"

definition source_error_result :: "pyval \<Rightarrow> bool" where
  \<comment> \<open>whether it returns; its errors are caught where it is called\<close>
  "source_error_result v =
     (case as_dict v of
        None \<Rightarrow> False
      | Some d \<Rightarrow>
          (case as_dict (get_item d ''error'') of
             None \<Rightarrow> False
           | Some e \<Rightarrow> get_item e ''code'' = VStr ''candidate_source_rejected'' \<and> get_item e ''job_submitted'' = VBool False
               \<and> is_list (dict_get_default e ''violations'' (VList []))))"

definition source_error_from_stdout :: "codec \<Rightarrow> string list \<Rightarrow> bool" where
  "source_error_from_stdout cd lines =
     list_ex (\<lambda>l. starts_with source_error_prefix l
       \<and> (case cd_loads cd (drop (length source_error_prefix) l) of Inr v \<Rightarrow> source_error_result v | Inl e \<Rightarrow> False)) lines"

definition response_identity :: "codec \<Rightarrow> string list \<Rightarrow> pyval dict option \<Rightarrow> exn + pyval" where
  \<comment> \<open>\<open>result or ...\<close>\<close>
  "response_identity cd lines result =
     (case result of
        Some d \<Rightarrow> if d \<noteq> [] then Inr (VDict d)
                  else (case marked record_prefix lines of None \<Rightarrow> Inr (VDict []) | Some text \<Rightarrow> cd_loads cd text)
      | None \<Rightarrow> (case marked record_prefix lines of None \<Rightarrow> Inr (VDict []) | Some text \<Rightarrow> cd_loads cd text))"

definition identity_record :: "pyval \<Rightarrow> exn + pyval" where
  \<comment> \<open>\<open>identity["gateway_record_id"]\<close>\<close>
  "identity_record v =
     (case as_dict v of
        None \<Rightarrow> Inl (TypeError (Msg ''indices must be integers or slices''))
      | Some d \<Rightarrow>
          (case dict_get d ''gateway_record_id'' of
             None \<Rightarrow> Inl (OtherException ''KeyError'' ''gateway_record_id'')
           | Some r \<Rightarrow> Inr r))"

section \<open>The record\<close>

definition sol_inputs :: "string list" where
  "sol_inputs = [''reference.py'', ''definition.json'', ''workload.jsonl'', ''solution.json'', ''test_kernel.py'']"

definition policy_covers :: "pyval dict \<Rightarrow> exn + bool" where
  "policy_covers options =
     (case as_dict (get_item options ''evaluation_policy'') of
        None \<Rightarrow> Inr False
      | Some policy \<Rightarrow>
          if \<not> hashable (get_item policy ''mode'') then Inl (TypeError (Msg ''unhashable type''))
          else Inr (get_item policy ''mode'' \<in> {VStr ''full'', VStr ''correctness_only''}
                    \<and> py_eq (get_item policy ''num_correctness_cases'') (VInt correctness_cases)))"

definition official_run :: "string \<Rightarrow> pyval dict \<Rightarrow> pyval dict \<Rightarrow> bool" where
  "official_run harness inputs options =
     (set sol_inputs \<subseteq> set (dict_keys inputs) \<and> get_item inputs ''test_kernel.py'' = VStr harness
      \<and> get_item options ''command'' = VList [VStr ''python3'', VStr ''test_kernel.py'']
      \<and> \<not> truthy (get_item options ''evaluation_input_path'') \<and> \<not> truthy (get_item options ''evaluation_shapes_path''))"

definition authoritative_candidate_record :: "candidate_validation \<Rightarrow> pyval dict \<Rightarrow> string \<Rightarrow> exn + bool" where
  "authoritative_candidate_record ctx rec source =
     (case as_dict (get_item rec ''request'') of
        None \<Rightarrow> Inr False
      | Some request \<Rightarrow>
          (case (as_dict (get_item request ''inputs''), as_dict (get_item request ''options'')) of
             (Some inputs, Some options) \<Rightarrow>
               if get_item rec ''cacheable'' \<noteq> VBool True \<or> get_item rec ''operation'' \<noteq> VStr ''evaluate'' then Inr False
               else bind_res (measurement_binds (cv_codec ctx) source inputs options) (\<lambda>bound.
                 if \<not> bound then Inr False
                 else if cv_atrex ctx then policy_covers options
                 else Inr (official_run (cv_harness ctx) inputs options))
           | _ \<Rightarrow> Inr False))"

fun evidence_error :: "exn \<Rightarrow> bool" where
  \<comment> \<open>\<open>except (OSError, ValueError, KeyError, TypeError)\<close>\<close>
  "evidence_error (ValueError _) = True"
| "evidence_error (TypeError _) = True"
| "evidence_error (OtherException name _) = (name \<in> {''OSError'', ''FileNotFoundError'', ''PermissionError'', ''KeyError'',
     ''AgentRequestError'', ''JSONDecodeError'', ''UnicodeDecodeError''})"
| "evidence_error _ = False"

definition catch_evidence :: "exn + 'a \<Rightarrow> exn + 'a" where
  "catch_evidence r =
     (case r of
        Inl e \<Rightarrow> if evidence_error e
                  then Inl (state_error ''Supervisor candidate correctness evidence is unavailable; report was not accepted'')
                  else Inl e
      | Inr v \<Rightarrow> Inr v)"

definition find_evidence ::
  "candidate_validation \<Rightarrow> gateway_response \<Rightarrow> string \<Rightarrow> exn + pyval dict option \<times> pyval \<times> bool" where
  \<comment> \<open>the result, the id of the record, and whether it is authoritative\<close>
  "find_evidence ctx response source =
     bind_res (result_from_response (cv_codec ctx) (gr_lines response)) (\<lambda>result.
     bind_res (response_identity (cv_codec ctx) (gr_lines response) result) (\<lambda>identity.
     bind_res (identity_record identity) (\<lambda>record_id.
     bind_res (cv_read ctx record_id) (\<lambda>rec.
     bind_res (authoritative_candidate_record ctx rec source) (\<lambda>authoritative.
       Inr (result, record_id, authoritative))))))"

section \<open>The verdict\<close>

definition result_fails :: "gateway_response \<Rightarrow> pyval dict option \<Rightarrow> bool" where
  "result_fails response result =
     (case result of None \<Rightarrow> gr_exit response \<noteq> 0 | Some d \<Rightarrow> d \<noteq> [] \<and> get_item d ''all_pass'' = VBool False)"

definition result_complete :: "bool \<Rightarrow> gateway_response \<Rightarrow> pyval dict option \<Rightarrow> bool" where
  "result_complete atrex response result =
     (case result of
        None \<Rightarrow> False
      | Some d \<Rightarrow> get_item d ''all_pass'' = VBool True \<and> gr_exit response = 0 \<and> \<not> truthy (get_item d ''error'')
          \<and> (atrex \<or> (case get_item d ''correctness_total'' of
                 VInt n \<Rightarrow> n > 0 \<and> py_eq (get_item d ''correctness_passed'') (VInt n) | _ \<Rightarrow> False)))"

definition evidence_dict :: "bool \<Rightarrow> gateway_response \<Rightarrow> pyval dict option \<Rightarrow> pyval \<Rightarrow> pyval dict" where
  "evidence_dict atrex response result record_id =
     [(''gateway_record_id'', record_id), (''reused'', VBool (gr_reused response))]
     @ (if atrex
        then [(''additional_seeds'', VInt (correctness_cases - 1)), (''correctness_cases'', VInt correctness_cases),
              (''evaluator'', VStr ''atrex_bench'')]
        else [(''additional_seeds'', VInt 0),
              (''workloads'', case result of Some d \<Rightarrow> get_item d ''correctness_total'' | None \<Rightarrow> VNull),
              (''evaluator'', VStr ''sol_execbench'')])"

definition repair_prefix :: string where
  "repair_prefix = ''Supplemental numerical probes''"

definition supplement :: "candidate_validation \<Rightarrow> string \<Rightarrow> exn + unit" where
  "supplement ctx source =
     (if \<not> cv_production ctx then Inr ()
      else case cv_supplemental ctx of
        None \<Rightarrow> Inl (state_error ''Production numerical validator is not configured'')
      | Some validator \<Rightarrow>
          bind_res (validator source) (\<lambda>feedback.
          case cv_live_after ctx of
            Some e \<Rightarrow> Inl e
          | None \<Rightarrow>
              if feedback = [] then Inr ()
              else if starts_with repair_prefix feedback then Inl (request_error ''candidate_numerical_failed'')
              else Inl (state_error ''Supplemental numerical validation is incomplete; report not accepted.'')))"

definition validate_candidate :: "candidate_validation \<Rightarrow> string \<Rightarrow> exn + pyval" where
  "validate_candidate ctx source =
     bind_res (cv_measure ctx (candidate_acceptance_argv (cv_atrex ctx)) source (cv_atrex ctx)) (\<lambda>response.
     case cv_live ctx of
       Some e \<Rightarrow> Inl e
     | None \<Rightarrow>
         if source_error_from_stdout (cv_codec ctx) (gr_lines response) then Inl (request_error ''candidate_source_rejected'')
         else bind_res (catch_evidence (find_evidence ctx response source)) (\<lambda>(result, record_id, authoritative).
           if \<not> authoritative
           then Inl (state_error
             ''Supervisor candidate correctness did not produce authoritative evidence; report was not accepted'')
           else if result_fails response result then Inl (request_error ''candidate_correctness_failed'')
           else if \<not> result_complete (cv_atrex ctx) response result
           then Inl (state_error ''Supervisor candidate correctness result is inconsistent; report was not accepted'')
           else bind_res (supplement ctx source) (\<lambda>_.
             Inr (VDict (evidence_dict (cv_atrex ctx) response result record_id)))))"

section \<open>What a validation that returns has seen\<close>

definition bound_measurement :: "codec \<Rightarrow> string \<Rightarrow> pyval dict \<Rightarrow> pyval dict \<Rightarrow> bool" where
  \<comment> \<open>the digest of the source is among the measured inputs, or that of the snapshot among the snapshots\<close>
  "bound_measurement cd source inputs options \<longleftrightarrow>
     get_item inputs kernel_path = VStr (cd_sha256 cd source)
     \<or> (\<exists>snapshots. get_item options ''source_snapshots'' = VDict snapshots
          \<and> get_item snapshots ''candidate'' = VStr (cd_sha256 cd source))"

definition proven :: "candidate_validation \<Rightarrow> string \<Rightarrow> pyval \<Rightarrow> bool" where
  \<comment> \<open>a measurement of these bytes exited with zero and passed all cases; its record is a cacheable evaluation whose request binds
    the bytes and, for Atrex-Bench, ran all six correctness cases; the verdict names that record\<close>
  "proven ctx source verdict \<longleftrightarrow>
     (\<exists>response result record_id rec request inputs options.
        cv_measure ctx (candidate_acceptance_argv (cv_atrex ctx)) source (cv_atrex ctx) = Inr response
        \<and> gr_exit response = 0 \<and> result_from_response (cv_codec ctx) (gr_lines response) = Inr (Some result)
        \<and> get_item result ''all_pass'' = VBool True \<and> \<not> truthy (get_item result ''error'')
        \<and> get_item result ''gateway_record_id'' = record_id \<and> cv_read ctx record_id = Inr rec
        \<and> get_item rec ''cacheable'' = VBool True \<and> get_item rec ''operation'' = VStr ''evaluate''
        \<and> get_item rec ''request'' = VDict request \<and> get_item request ''inputs'' = VDict inputs \<and> get_item request ''options'' = VDict options
        \<and> bound_measurement (cv_codec ctx) source inputs options
        \<and> verdict = VDict (evidence_dict (cv_atrex ctx) response (Some result) record_id)
        \<and> (if cv_atrex ctx
           then \<exists>policy. get_item options ''evaluation_policy'' = VDict policy
                  \<and> get_item policy ''mode'' \<in> {VStr ''full'', VStr ''correctness_only''}
                  \<and> py_eq (get_item policy ''num_correctness_cases'') (VInt 6)
           else \<exists>n. get_item result ''correctness_total'' = VInt n \<and> n > 0
                  \<and> py_eq (get_item result ''correctness_passed'') (VInt n)
                  \<and> official_run (cv_harness ctx) inputs options)
        \<and> (cv_production ctx \<longrightarrow> (\<exists>validator. cv_supplemental ctx = Some validator \<and> validator source = Inr [])))"

lemma as_dict_Some: "as_dict v = Some d \<longleftrightarrow> v = VDict d"
  by (cases v) auto

lemma measurement_bound:
  assumes "measurement_binds cd source inputs options = Inr True"
  shows "bound_measurement cd source inputs options"
proof -
  have "get_item options ''source_snapshots'' = VDict snapshots"
    if "dict_get_default options ''source_snapshots'' (VDict []) = VDict snapshots" "get_item snapshots ''candidate'' = VStr d" for snapshots d
    using that by (auto simp: dict_get_default_def get_item_def split: option.splits)
  with assms show ?thesis
    by (fastforce simp: measurement_binds_def bound_measurement_def bind_res_Inr_iff split: if_split_asm pyval.splits)
qed

lemma authoritative_parts:
  assumes "authoritative_candidate_record ctx rec source = Inr True"
  obtains request inputs options where "get_item rec ''request'' = VDict request" "get_item request ''inputs'' = VDict inputs"
    "get_item request ''options'' = VDict options" "get_item rec ''cacheable'' = VBool True" "get_item rec ''operation'' = VStr ''evaluate''"
    "bound_measurement (cv_codec ctx) source inputs options"
    "if cv_atrex ctx then policy_covers options = Inr True else official_run (cv_harness ctx) inputs options"
proof -
  obtain request inputs options where r: "get_item rec ''request'' = VDict request" "get_item request ''inputs'' = VDict inputs"
    "get_item request ''options'' = VDict options"
    using assms by (auto simp: authoritative_candidate_record_def as_dict_Some split: option.splits)
  with assms have "measurement_binds (cv_codec ctx) source inputs options = Inr True"
    "get_item rec ''cacheable'' = VBool True" "get_item rec ''operation'' = VStr ''evaluate''"
    "if cv_atrex ctx then policy_covers options = Inr True else official_run (cv_harness ctx) inputs options"
    by (auto simp: authoritative_candidate_record_def bind_res_Inr_iff split: if_split_asm)
  with r measurement_bound show thesis by (intro that) auto
qed

lemma policy_covers_parts:
  assumes "policy_covers options = Inr True"
  shows "\<exists>policy. get_item options ''evaluation_policy'' = VDict policy
     \<and> get_item policy ''mode'' \<in> {VStr ''full'', VStr ''correctness_only''}
     \<and> py_eq (get_item policy ''num_correctness_cases'') (VInt 6)"
  using assms by (auto simp: policy_covers_def correctness_cases_def as_dict_Some split: option.splits if_split_asm)

lemma validate_candidate_proven:
  assumes "validate_candidate ctx source = Inr verdict"
  shows "proven ctx source verdict"
proof -
  obtain response result0 record_id where m: "cv_measure ctx (candidate_acceptance_argv (cv_atrex ctx)) source (cv_atrex ctx) = Inr response"
    and f: "find_evidence ctx response source = Inr (result0, record_id, True)"
    and c: "result_complete (cv_atrex ctx) response result0" "supplement ctx source = Inr ()"
    and v: "verdict = VDict (evidence_dict (cv_atrex ctx) response result0 record_id)"
    using assms
    by (auto simp: validate_candidate_def catch_evidence_def bind_res_Inr_iff split: option.splits if_split_asm sum.splits)
  obtain result where r: "result0 = Some result" using c(1) by (cases result0) (auto simp: result_complete_def)
  have all: "get_item result ''all_pass'' = VBool True" "gr_exit response = 0" "\<not> truthy (get_item result ''error'')"
    using c(1) by (simp_all add: r result_complete_def)
  then have ne: "result \<noteq> []" by (auto simp: get_item_def dict_get_default_def)
  obtain rec where e: "result_from_response (cv_codec ctx) (gr_lines response) = Inr (Some result)"
    "identity_record (VDict result) = Inr record_id" "cv_read ctx record_id = Inr rec"
    "authoritative_candidate_record ctx rec source = Inr True"
    using f ne by (auto simp: find_evidence_def bind_res_Inr_iff r response_identity_def)
  have id: "get_item result ''gateway_record_id'' = record_id"
    using e(2) by (auto simp: identity_record_def get_item_def dict_get_default_def split: option.splits)
  from authoritative_parts [OF e(4)] obtain request inputs options where a: "get_item rec ''request'' = VDict request"
    "get_item request ''inputs'' = VDict inputs" "get_item request ''options'' = VDict options"
    "get_item rec ''cacheable'' = VBool True" "get_item rec ''operation'' = VStr ''evaluate''"
    "bound_measurement (cv_codec ctx) source inputs options"
    "if cv_atrex ctx then policy_covers options = Inr True else official_run (cv_harness ctx) inputs options" .
  have total: "\<exists>n. get_item result ''correctness_total'' = VInt n \<and> n > 0
      \<and> py_eq (get_item result ''correctness_passed'') (VInt n)" if "\<not> cv_atrex ctx"
    using c(1) that by (auto simp: r result_complete_def split: pyval.splits)
  have kind: "if cv_atrex ctx
           then \<exists>policy. get_item options ''evaluation_policy'' = VDict policy
                  \<and> get_item policy ''mode'' \<in> {VStr ''full'', VStr ''correctness_only''}
                  \<and> py_eq (get_item policy ''num_correctness_cases'') (VInt 6)
           else \<exists>n. get_item result ''correctness_total'' = VInt n \<and> n > 0
                  \<and> py_eq (get_item result ''correctness_passed'') (VInt n)
                  \<and> official_run (cv_harness ctx) inputs options"
    using a(7) total policy_covers_parts by (simp split: if_split_asm)
  have "cv_production ctx \<longrightarrow> (\<exists>validator. cv_supplemental ctx = Some validator \<and> validator source = Inr [])"
    using c(2) by (auto simp: supplement_def bind_res_Inr_iff split: option.splits if_split_asm)
  with m all e(1,3) id a(1-6) kind v show ?thesis unfolding proven_def r by blast
qed

end
