(* ===== verification/Reports.thy ===== *)
theory Reports
  imports CandidateChecks
begin

text \<open>
  The episode report (\<open>SupervisorJournalService._submit_report\<close> in src/src/aka/light/workflow/journal_service.py): the
  one operation that finalizes a journal.  The candidate validation is \<open>validate_candidate\<close> of the
  theory CandidateChecks in the context the Runtime server builds for the session
  (\<open>_validate_candidate_correctness\<close> in src/src/aka/light/runtime/server.py); the Git worktree and the diagnostics check are
  fields of \<open>report_env\<close>; the publication of the handoff files is not modelled, so the result is
  the stored journal.
\<close>

record report_env =
  re_supervisor :: bool                           \<comment> \<open>\<open>supervisor_git\<close>\<close>
  re_check :: "string \<Rightarrow> string"                 \<comment> \<open>the violation \<open>EpisodeWorktree.validate_candidate\<close> reports, or nothing\<close>
  re_validation :: "candidate_validation option" \<comment> \<open>the context of \<open>validate_candidate\<close>\<close>
  re_commit :: "string \<Rightarrow> exn + string"          \<comment> \<open>\<open>EpisodeWorktree.commit_candidate\<close>\<close>
  re_diagnostics :: "pyval \<Rightarrow> exn + pyval list"  \<comment> \<open>the normalized and validated diagnostics\<close>

definition report_optional :: "bool \<Rightarrow> bool \<Rightarrow> string list" where
  "report_optional supervisor research =
     [''status'', ''summary'', ''blocker'', ''accepted_ppu_diagnostics''] @ (if supervisor then [] else [''candidate_commit''])
     @ (if research then [''selected_experiment_id''] else [''gateway_record_ids''])"

definition report_statuses :: "string list" where
  "report_statuses = [''candidate_ready'', ''pivot'', ''blocked'']"

definition read_status :: "pyval \<Rightarrow> exn + string" where
  "read_status v =
     (if \<not> is_str v \<or> str_of v \<notin> set report_statuses
      then Inl (ValueError (Msg ''Episode Report status must be candidate_ready, pivot, or blocked''))
      else Inr (str_of v))"

definition read_blocker :: "string \<Rightarrow> pyval \<Rightarrow> exn + unit" where
  "read_blocker status blocker =
     (if status = ''blocked'' then bind_res (read_text blocker ''blocker'') (\<lambda>_. Inr ())
      else if blocker \<noteq> VNull \<and> blocker \<noteq> VStr []
      then Inl (ValueError (Msg (''Episode Report status '' @ status @ '' cannot include blocker'')))
      else Inr ())"

definition is_commit :: "string \<Rightarrow> bool" where
  \<comment> \<open>\<open>re.fullmatch(r"[0-9a-f]{40}(?:[0-9a-f]{24})?", s)\<close>\<close>
  "is_commit s = (length s \<in> {40, 64} \<and> list_all is_hex_char s)"

definition agent_commit :: "report_env \<Rightarrow> string \<Rightarrow> pyval \<Rightarrow> exn + unit" where
  "agent_commit env status raw_commit =
     (if status = ''candidate_ready'' \<and> \<not> re_supervisor env
      then if \<not> is_str raw_commit \<or> \<not> is_commit (str_of raw_commit)
           then Inl (ValueError (Msg ''candidate_ready requires the full candidate_commit''))
           else if re_check env (str_of raw_commit) \<noteq> [] then Inl (ValueError (Msg (re_check env (str_of raw_commit))))
           else Inr ()
      else if truthy raw_commit then Inl (ValueError (Msg (status @ '' cannot include candidate_commit'')))
      else Inr ())"

definition measure_candidate :: "report_env \<Rightarrow> string option \<Rightarrow> exn + pyval option" where
  "measure_candidate env source =
     (case source of
        None \<Rightarrow> Inr None
      | Some s \<Rightarrow>
          (case re_validation env of
             None \<Rightarrow> Inl (state_error ''Supervisor candidate validation is unavailable; report was not accepted'')
           | Some ctx \<Rightarrow> map_sum id Some (validate_candidate ctx s)))"

definition commit_candidate :: "report_env \<Rightarrow> string option \<Rightarrow> pyval \<Rightarrow> exn + pyval" where
  "commit_candidate env source raw_commit =
     (case source of
        Some s \<Rightarrow> if re_supervisor env then map_sum id VStr (re_commit env s) else Inr raw_commit
      | None \<Rightarrow> Inr raw_commit)"

definition next_directions :: "direction_view dict \<Rightarrow> pyval list" where
  "next_directions views =
     map (\<lambda>(d, v). get_item (dv_fields v) ''name'') (filter (\<lambda>(d, v). dv_status v \<in> {''proposed'', ''deferred''}) views)"

definition report_outcome ::
  "pyval dict \<Rightarrow> bool \<Rightarrow> string \<Rightarrow> string \<Rightarrow> direction_view dict \<Rightarrow> pyval list \<Rightarrow> exn + pyval dict" where
  "report_outcome raw research status summary views diagnostics =
     bind_res (if research then Inr []
               else if status = ''candidate_ready''
               then map_sum id (\<lambda>rs. [(''gateway_record_ids'', VList (map VStr rs))])
                      (read_texts (get_item raw ''gateway_record_ids'') ''gateway_record_ids'')
               else Inr [(''gateway_record_ids'', VList [])]) (\<lambda>records.
     Inr ([(''summary'', VStr summary), (''next_directions'', VList (next_directions views)),
           (''selected_experiment_id'',
              if status = ''candidate_ready'' then get_item raw ''selected_experiment_id'' else VNull),
           (''blocker'', if status = ''blocked'' then VStr (py_strip (str_of (get_item raw ''blocker''))) else VNull)]
          @ records @ (if diagnostics \<noteq> [] then [(''accepted_ppu_diagnostics'', VList diagnostics)] else [])))"

definition seal_journal ::
  "(string \<Rightarrow> string) \<Rightarrow> pyval dict \<Rightarrow> string \<Rightarrow> pyval dict \<Rightarrow> pyval \<Rightarrow> string option \<Rightarrow> pyval option \<Rightarrow> string \<Rightarrow> pyval dict
     \<Rightarrow> pyval dict" where
  "seal_journal sha256 current status outcome commit source checks now raw =
     dict_update current
       ((case checks of None \<Rightarrow> [] | Some c \<Rightarrow> [(''acceptance_checks'', VDict [(''multi_seed_correctness'', c)])])
        @ [(''state'', VStr status), (''outcome'', VDict outcome),
           (''candidate_commit'', if truthy commit then commit else VNull)]
        @ (case source of None \<Rightarrow> [] | Some s \<Rightarrow> [(''candidate_kernel_digest'', VStr (''sha256:'' @ sha256 s))])
        @ [(''finalized_at'', VStr now), (''submitted_report'', VDict raw)])"

definition accept_report ::
  "report_env \<Rightarrow> evidence \<Rightarrow> (string \<Rightarrow> string) \<Rightarrow> (exn + string) \<Rightarrow> (pyval dict \<Rightarrow> bool) \<Rightarrow> (nat \<times> pyval) list \<Rightarrow> pyval
     \<Rightarrow> bool \<Rightarrow> string \<Rightarrow> pyval dict \<Rightarrow> exn + pyval dict" where
  "accept_report env evidence sha256 snapshot fits older stored research now raw =
     bind_res (read_status (get_item raw ''status'')) (\<lambda>status.
     bind_res (read_text (get_item raw ''summary'') ''summary'') (\<lambda>summary.
     bind_res (read_blocker status (get_item raw ''blocker'')) (\<lambda>_.
     bind_res (validate_report_evidence evidence sha256 snapshot older stored status (get_item raw ''selected_experiment_id'')
                 (get_item raw ''gateway_record_ids'')) (\<lambda>(current, views, source).
     bind_res (agent_commit env status (get_item raw ''candidate_commit'')) (\<lambda>_.
     bind_res (case dict_get raw ''accepted_ppu_diagnostics'' of None \<Rightarrow> Inr [] | Some v \<Rightarrow> re_diagnostics env v) (\<lambda>diagnostics.
     bind_res (measure_candidate env source) (\<lambda>checks.
     bind_res (commit_candidate env source (get_item raw ''candidate_commit'')) (\<lambda>commit.
     bind_res (report_outcome raw research status summary views diagnostics) (\<lambda>outcome.
     save_journal fits (seal_journal sha256 current status outcome commit source checks now raw))))))))))"

definition submit_report ::
  "report_env \<Rightarrow> evidence \<Rightarrow> (string \<Rightarrow> string) \<Rightarrow> (exn + string) \<Rightarrow> (pyval dict \<Rightarrow> bool) \<Rightarrow> (nat \<times> pyval) list \<Rightarrow> pyval
     \<Rightarrow> string \<Rightarrow> pyval dict \<Rightarrow> exn + pyval dict" where
  "submit_report env evidence sha256 snapshot fits older stored now raw =
     bind_res (load_journal stored) (\<lambda>persisted.
     let research = get_item persisted ''research_records'' \<noteq> VBool False in
     bind_res (require_fields raw [''status'', ''summary''] (report_optional (re_supervisor env) research)) (\<lambda>_.
     if get_item persisted ''state'' \<noteq> VStr ''in_progress''
     then if \<not> py_eq (get_item persisted ''submitted_report'') (VDict raw) then Inl (request_error ''journal_finalized'')
          else Inr persisted
     else accept_report env evidence sha256 snapshot fits older stored research now raw))"

text \<open>What the acceptance reads from a sealed journal; \<open>from_git\<close> gives the candidate source of a commit.\<close>

definition sealed_candidate_source :: "(string \<Rightarrow> exn + string) \<Rightarrow> (string \<Rightarrow> string) \<Rightarrow> pyval dict \<Rightarrow> exn + string option" where
  "sealed_candidate_source from_git sha256 j =
     (if get_item j ''state'' \<noteq> VStr ''candidate_ready'' then Inr None
      else let commit = get_item j ''candidate_commit'' in
        if \<not> truthy (get_item j ''finalized_at'') \<or> \<not> is_str commit \<or> \<not> is_commit (str_of commit)
        then Inl (OtherException ''RuntimeError'' ''Private candidate report has no valid sealed commit'')
        else bind_res (from_git (str_of commit)) (\<lambda>source.
          if get_item j ''candidate_kernel_digest'' \<noteq> VStr (''sha256:'' @ sha256 source)
          then Inl (OtherException ''RuntimeError'' ''Sealed candidate commit does not match the private report digest'')
          else Inr (Some source)))"

fun find_passing :: "evidence \<Rightarrow> string \<Rightarrow> string list \<Rightarrow> exn + pyval dict" where
  "find_passing evidence digest [] =
     Inl (ValueError (Msg ''Selected report evidence has no passing standard Evaluate for this Kernel''))"
| "find_passing evidence digest (r # rs) =
     bind_res (evidence r) (\<lambda>g.
     if passing_evaluate g digest then Inr (dict_set (ge_result g) ''gateway_record_id'' (VStr r))
     else find_passing evidence digest rs)"

definition selected_evaluation ::
  "evidence \<Rightarrow> (string \<Rightarrow> string) \<Rightarrow> pyval \<Rightarrow> string \<Rightarrow> exn + pyval dict" where
  "selected_evaluation evidence sha256 stored source =
     bind_res (load_journal stored) (\<lambda>j.
     let digest = ''sha256:'' @ sha256 source in
     let outcome = (case get_item j ''outcome'' of VDict d \<Rightarrow> d | _ \<Rightarrow> []) in
     if get_item j ''state'' \<noteq> VStr ''candidate_ready'' \<or> get_item j ''candidate_kernel_digest'' \<noteq> VStr digest
     then Inl (ValueError (Msg ''Selected report does not match the acceptance Kernel''))
     else bind_res
       (if get_item j ''research_records'' = VBool False
        then validate_record_ids evidence (get_item outcome ''gateway_record_ids'') ''Episode Report''
        else case filter (\<lambda>x. get_item x ''experiment_id'' = get_item outcome ''selected_experiment_id'') (dicts_of j ''experiments'') of
            [x] \<Rightarrow> Inr (map str_of (items_of x ''gateway_record_ids''))
          | _ \<Rightarrow> Inl (ValueError (Msg ''Selected report has no unique Experiment''))) (\<lambda>rs.
       find_passing evidence digest (rev rs)))"

end
