(* ===== verification/Journal_Samples.thy ===== *)
theory Journal_Samples
  imports Campaigns Reports
begin

text \<open>
  One small episode from its first proposal to its report: the concrete inputs of the witnesses about journals.
\<close>

section \<open>Data\<close>

definition demo_direction :: string where
  "demo_direction = ''direction_0123456789abcdef0123456789abcdef''"

definition demo_experiment :: string where
  "demo_experiment = ''experiment_0123456789abcdef0123456789abcdef''"

definition demo_digest :: string where
  "demo_digest = ''0123456789abcdef0123456789abcdef0123456789abcdef0123456789abcdef''"

definition demo_stamps :: "string \<Rightarrow> stamps" where
  "demo_stamps i = \<lparr>st_id = i, st_event = ''event'', st_now = ''now''\<rparr>"

definition demo_evidence :: evidence where
  "demo_evidence r = Inr \<lparr>ge_kind = VStr ''run'', ge_digest = VStr (''sha256:'' @ demo_digest),
     ge_kernel = VStr ''kernel-0123456789abcdef0123456789abcdef'',
     ge_result = [(''all_pass'', VBool True), (''latency_us_by_shape'', VDict [(''shape'', VInt 7)])],
     ge_completed = True, ge_exit_code = VInt 0, ge_standard = True\<rparr>"

definition demo_journal :: "bool \<Rightarrow> pyval list \<Rightarrow> pyval list \<Rightarrow> pyval dict" where
  "demo_journal research events experiments = [(''schema_version'', VInt 2), (''runtime_managed'', VBool True),
     (''research_records'', VBool research), (''episode'', VInt 1), (''memory_version'', VNull), (''base_commit'', VStr ''base''),
     (''episode_branch'', VStr ''branch''), (''state'', VStr ''in_progress''), (''direction_events'', VList events),
     (''experiments'', VList experiments), (''outcome'', VNull), (''candidate_commit'', VNull), (''created_at'', VStr ''now''),
     (''finalized_at'', VNull)]"

definition demo_texts :: "pyval dict" where
  "demo_texts = [(''name'', VStr ''tile''), (''hypothesis'', VStr ''larger tiles''),
     (''rationale'', VStr ''reuse''), (''plan'', VList [VStr ''try'']), (''success_criteria'', VList [VStr ''faster'']),
     (''stop_conditions'', VList [VStr ''slower''])]"

definition demo_proposal :: "pyval dict" where
  "demo_proposal = [(''direction_event_id'', VStr ''event''), (''direction_id'', VStr demo_direction),
     (''action'', VStr ''propose'')] @ demo_texts @ [(''recorded_at'', VStr ''now'')]"

definition demo_event :: "string \<Rightarrow> pyval list \<Rightarrow> pyval \<Rightarrow> pyval dict" where
  "demo_event act support assessment = [(''direction_event_id'', VStr ''event''), (''direction_id'', VStr demo_direction),
     (''action'', VStr act), (''analysis'', VStr ''note''), (''recorded_at'', VStr ''now''),
     (''supporting_experiment_ids'', VList support), (''hypothesis_status'', assessment)]"

definition demo_start :: "pyval dict" where
  "demo_start = demo_event ''start'' [] VNull"

definition demo_complete :: "pyval dict" where
  "demo_complete = demo_event ''complete'' [VStr demo_experiment] (VStr ''supported'')"

definition demo_row :: "pyval dict" where
  "demo_row = [(''experiment_id'', VStr demo_experiment), (''direction_id'', VStr demo_direction), (''sequence'', VInt 1),
     (''recorded_at'', VStr ''now''), (''gateway_record_ids'', VList [VStr ''gateway'']), (''action'', VStr ''keep_after'')]"

section \<open>Requests\<close>

definition demo_propose :: "pyval dict" where
  "demo_propose = (''action'', VStr ''propose'') # demo_texts"

definition demo_request :: "string \<Rightarrow> pyval dict \<Rightarrow> pyval dict" where
  "demo_request act rest = [(''action'', VStr act), (''direction_id'', VStr demo_direction), (''analysis'', VStr ''note'')] @ rest"

definition demo_closing :: "pyval dict" where
  "demo_closing = [(''hypothesis_status'', VStr ''supported''), (''supporting_experiment_ids'', VList [VStr demo_experiment])]"

section \<open>The replay of the episode\<close>

definition demo_view :: "string \<Rightarrow> string list \<Rightarrow> direction_view" where
  "demo_view status support = \<lparr>dv_fields = demo_texts @ [(''recorded_at'', VStr ''now'')], dv_status = status,
     dv_analysis = (if status = ''proposed'' then VNull else VStr ''note''),
     dv_updated = (if status = ''proposed'' then VNull else VStr ''now''),
     dv_assessment = VStr (if support = [] then ''unresolved'' else ''supported''), dv_supporting = support, dv_associated = support\<rparr>"

definition demo_replay :: "string \<Rightarrow> string list \<Rightarrow> string list \<Rightarrow> replay" where
  "demo_replay status support started = \<lparr>rp_views = [(demo_direction, demo_view status support)],
     rp_statuses = [(demo_direction, status)], rp_started = started\<rparr>"

lemmas field_eval = get_item_def dict_get_default_def items_of_def dict_has_def dict_keys_def

lemma demo_is_direction: "is_id ''direction'' demo_direction"
  by code_simp

lemma demo_is_experiment: "is_id ''experiment'' demo_experiment"
  by code_simp

lemma demo_strip: "py_strip demo_direction = demo_direction" "py_strip demo_experiment = demo_experiment" "py_strip ''now'' = ''now''"
  "py_strip ''note'' = ''note''" "py_strip ''tile'' = ''tile''" "py_strip ''larger tiles'' = ''larger tiles''" "py_strip ''reuse'' = ''reuse''"
  "py_strip ''try'' = ''try''" "py_strip ''faster'' = ''faster''" "py_strip ''slower'' = ''slower''" "py_strip ''gateway'' = ''gateway''"
  by code_simp+

lemma demo_strips: "read_text (VStr demo_direction) k = Inr demo_direction" "read_texts (VList [VStr demo_experiment]) k = Inr [demo_experiment]"
  by (simp_all add: read_text_def read_texts_def demo_strip) (simp_all add: demo_direction_def demo_experiment_def)

lemma demo_texts_read:
  "read_text (VStr ''now'') k = Inr ''now''" "read_text (VStr ''note'') k = Inr ''note''" "read_texts (VList []) k = Inr []"
  "read_text (VStr ''tile'') k = Inr ''tile''" "read_text (VStr ''larger tiles'') k = Inr ''larger tiles''"
  "read_text (VStr ''reuse'') k = Inr ''reuse''" "read_texts (VList [VStr ''try'']) k = Inr [''try'']"
  "read_texts (VList [VStr ''faster'']) k = Inr [''faster'']" "read_texts (VList [VStr ''slower'']) k = Inr [''slower'']"
  "read_texts (VList [VStr ''gateway'']) k = Inr [''gateway'']"
  by (simp_all add: read_text_def read_texts_def demo_strip)

lemmas demo_reads = demo_strips demo_texts_read

lemma demo_advance:
  "advance_direction [] [] (VStr demo_direction) (VStr ''propose'') = Inr ([(demo_direction, ''proposed'')], [])"
  "advance_direction [(demo_direction, ''proposed'')] [] (VStr demo_direction) (VStr ''start'') =
     Inr ([(demo_direction, ''in_progress'')], [demo_direction])"
  "advance_direction [(demo_direction, ''in_progress'')] [demo_direction] (VStr demo_direction) (VStr ''complete'') =
     Inr ([(demo_direction, ''completed'')], [demo_direction])"
  by (simp_all add: advance_direction_def demo_is_direction direction_status_def direction_guard_def may_start_def in_progress_def
    dict_has_def dict_get_default_def Let_def)

lemma demo_propose_replays:
  "replay_event \<lparr>rp_views = [], rp_statuses = [], rp_started = []\<rparr> (VDict demo_proposal) = Inr (demo_replay ''proposed'' [] [])"
  by (simp add: replay_event_def demo_proposal_def demo_texts_def field_eval demo_advance demo_reads proposal_texts_def history_error_def
    new_view_def demo_replay_def demo_view_def relationship_fields_def relationship_names_def Let_def)

lemma demo_start_replays:
  "replay_event (demo_replay ''proposed'' [] []) (VDict demo_start) = Inr (demo_replay ''in_progress'' [] [demo_direction])"
  by (simp add: replay_event_def demo_start_def demo_event_def field_eval demo_advance demo_reads history_error_def
    update_view_def append_new_def demo_replay_def demo_view_def direction_status_def closures_def Let_def)

lemma demo_complete_replays:
  "replay_event (demo_replay ''in_progress'' [] [demo_direction]) (VDict demo_complete) =
     Inr (demo_replay ''completed'' [demo_experiment] [demo_direction])"
  by (simp add: replay_event_def demo_complete_def demo_event_def field_eval demo_advance demo_reads history_error_def
    update_view_def append_new_def demo_replay_def demo_view_def direction_status_def closures_def Let_def)

section \<open>The journals\<close>

lemma demo_fields:
  "items_of (demo_journal R E X) ''direction_events'' = E" "items_of (demo_journal R E X) ''experiments'' = X"
  "get_item (demo_journal R E X) ''state'' = VStr ''in_progress''" "get_item (demo_journal R E X) ''episode'' = VInt 1"
  "get_item (demo_journal R E X) ''research_records'' = VBool R" "get_item (demo_journal R E X) ''schema_version'' = VInt 2"
  "get_item (demo_journal R E X) ''runtime_managed'' = VBool True" "get_item (demo_journal R E X) ''direction_events'' = VList E"
  "get_item (demo_journal R E X) ''experiments'' = VList X" "dict_get_default (demo_journal R E X) ''research_records'' v = VBool R"
  "append_item ''direction_events'' e (demo_journal R E X) = demo_journal R (E @ [e]) X"
  "append_item ''experiments'' e (demo_journal R E X) = demo_journal R E (X @ [e])"
  by (simp_all add: demo_journal_def append_item_def field_eval)

lemma demo_loads: "load_journal (VDict (demo_journal R E X)) =
    (if \<not> R \<and> (E \<noteq> [] \<or> X \<noteq> []) then Inl (state_error ''Research-disabled Journal contains unexpected research records.'')
     else Inr (demo_journal R E X))"
  by (simp add: load_journal_def demo_fields)

lemma demo_mutable: "mutable_journal (VDict (demo_journal True E X)) = Inr (demo_journal True E X)"
  by (simp add: mutable_journal_def demo_loads demo_fields)

lemma demo_history: "visible_history [] (demo_journal R E X) = Inr no_history"
  by (simp add: visible_history_def demo_fields)

lemma demo_states:
  "direction_state no_history (demo_journal True [] []) = Inr \<lparr>rp_views = [], rp_statuses = [], rp_started = []\<rparr>"
  "direction_state no_history (demo_journal True [VDict demo_proposal] []) = Inr (demo_replay ''proposed'' [] [])"
  "direction_state no_history (demo_journal True [VDict demo_proposal, VDict demo_start] []) = Inr (demo_replay ''in_progress'' [] [demo_direction])"
  "direction_state no_history (demo_journal True [VDict demo_proposal, VDict demo_start] [VDict demo_row]) =
     Inr (demo_replay ''in_progress'' [] [demo_direction]\<lparr>rp_views := [(demo_direction, demo_view ''in_progress'' []\<lparr>dv_associated := [demo_experiment]\<rparr>)]\<rparr>)"
  "direction_state no_history (demo_journal True [VDict demo_proposal, VDict demo_start, VDict demo_complete] [VDict demo_row]) =
     Inr (demo_replay ''completed'' [demo_experiment] [demo_direction])"
proof -
  have row: "get_item demo_row ''direction_id'' = VStr demo_direction" "get_item demo_row ''experiment_id'' = VStr demo_experiment"
    by (simp_all add: demo_row_def field_eval)
  show
  "direction_state no_history (demo_journal True [] []) = Inr \<lparr>rp_views = [], rp_statuses = [], rp_started = []\<rparr>"
  "direction_state no_history (demo_journal True [VDict demo_proposal] []) = Inr (demo_replay ''proposed'' [] [])"
  "direction_state no_history (demo_journal True [VDict demo_proposal, VDict demo_start] []) = Inr (demo_replay ''in_progress'' [] [demo_direction])"
  "direction_state no_history (demo_journal True [VDict demo_proposal, VDict demo_start] [VDict demo_row]) =
     Inr (demo_replay ''in_progress'' [] [demo_direction]\<lparr>rp_views := [(demo_direction, demo_view ''in_progress'' []\<lparr>dv_associated := [demo_experiment]\<rparr>)]\<rparr>)"
  "direction_state no_history (demo_journal True [VDict demo_proposal, VDict demo_start, VDict demo_complete] [VDict demo_row]) =
     Inr (demo_replay ''completed'' [demo_experiment] [demo_direction])"
    by (simp_all add: direction_state_def apply_direction_events_def demo_fields no_history_def demo_propose_replays demo_start_replays
      demo_complete_replays associate_experiments_def associate_def row)
      (simp_all add: demo_replay_def demo_view_def append_new_def)
qed

text \<open>The accepted requests.\<close>

lemma demo_clock: "clock_ok (demo_stamps d)"
  by (simp add: clock_ok_def demo_stamps_def demo_reads)

lemma demo_proposes:
  "update_direction demo_evidence (\<lambda>_. True) [] (VDict (demo_journal True [] [])) (demo_stamps demo_direction) demo_propose =
     Inr (demo_journal True [VDict demo_proposal] [])"
  by (simp add: update_direction_def demo_mutable demo_history demo_states save_journal_def demo_fields)
    (simp add: demo_propose_def demo_texts_def field_eval proposal_event_def require_fields_def guard_res_def proposal_fields_def
      relationship_names_def demo_stamps_def demo_advance started_ids_def dicts_of_def has_relationship_def demo_reads demo_proposal_def
      demo_journal_def)

lemma demo_starts:
  "update_direction demo_evidence (\<lambda>_. True) [] (VDict (demo_journal True [VDict demo_proposal] [])) (demo_stamps demo_direction)
     (demo_request ''start'' []) = Inr (demo_journal True [VDict demo_proposal, VDict demo_start] [])"
  by (simp add: update_direction_def demo_mutable demo_history demo_states save_journal_def demo_fields)
    (simp add: demo_request_def field_eval lifecycle_event_def require_fields_def guard_res_def update_fields_def closures_def
      relationship_names_def demo_stamps_def demo_advance started_ids_def dicts_of_def has_relationship_def demo_reads demo_proposal_def
      demo_journal_def demo_replay_def direction_status_def demo_start_def demo_event_def Let_def)

lemma demo_record: "validate_record_ids demo_evidence (VList [VStr ''gateway'']) label = Inr [''gateway'']"
proof -
  have "is_digest (''sha256:'' @ demo_digest)" "is_kernel_id ''kernel-0123456789abcdef0123456789abcdef''" by code_simp+
  then have "check_record demo_evidence ''gateway'' = Inr ()"
    by (simp add: check_record_def demo_evidence_def bound_record_def evidence_kinds_def)
  then show ?thesis by (simp add: validate_record_ids_def demo_reads)
qed

lemma demo_found: "get_item demo_row ''direction_id'' = VStr demo_direction" "get_item demo_row ''gateway_record_ids'' = VList [VStr ''gateway'']"
  "get_item demo_row ''action'' = VStr ''keep_after''" "get_item demo_row ''experiment_id'' = VStr demo_experiment"
  by (simp_all add: demo_row_def field_eval)

lemma demo_current: "current_experiments (demo_journal True E [VDict demo_row]) = [(demo_experiment, demo_row)]"
  by (simp add: current_experiments_def dicts_of_def demo_fields demo_found)

lemma demo_support:
  assumes "get_item d ''hypothesis_status'' = VStr ''supported''" "get_item d ''supporting_experiment_ids'' = VList [VStr demo_experiment]"
  shows "closure_support demo_evidence no_history (demo_journal True E [VDict demo_row]) demo_direction d = Inr [demo_experiment]"
  using assms by (simp add: closure_support_def hypothesis_statuses_def demo_reads check_support_def find_experiment_def no_history_def
    demo_found demo_current demo_record guard_res_def) (simp add: demo_evidence_def)

lemma demo_closes:
  "update_direction demo_evidence (\<lambda>_. True) [] (VDict (demo_journal True [VDict demo_proposal, VDict demo_start] [VDict demo_row]))
     (demo_stamps demo_direction) (demo_request ''complete'' demo_closing) =
     Inr (demo_journal True [VDict demo_proposal, VDict demo_start, VDict demo_complete] [VDict demo_row])"
proof -
  have r: "get_item (demo_request ''complete'' demo_closing) ''hypothesis_status'' = VStr ''supported''"
    "get_item (demo_request ''complete'' demo_closing) ''supporting_experiment_ids'' = VList [VStr demo_experiment]"
    "get_item (demo_request ''complete'' demo_closing) ''action'' = VStr ''complete''"
    "get_item (demo_request ''complete'' demo_closing) ''direction_id'' = VStr demo_direction"
    "get_item (demo_request ''complete'' demo_closing) ''analysis'' = VStr ''note''"
    "\<not> has_relationship (demo_request ''complete'' demo_closing)"
    "require_fields (demo_request ''complete'' demo_closing) closure_fields [] = Inr ()"
    by (simp_all add: demo_request_def demo_closing_def field_eval has_relationship_def relationship_names_def require_fields_def
      guard_res_def closure_fields_def update_fields_def)
  have started: "started_ids (demo_journal True [VDict demo_proposal, VDict demo_start] [VDict demo_row]) = [demo_direction]"
    by (simp add: started_ids_def dicts_of_def demo_fields) (simp add: demo_proposal_def demo_start_def demo_event_def field_eval)
  show ?thesis
    by (simp add: update_direction_def demo_mutable demo_history demo_states save_journal_def demo_fields lifecycle_event_def Let_def r
      started demo_replay_def demo_advance demo_reads demo_support)
      (simp add: closures_def direction_status_def dict_has_def demo_complete_def demo_event_def demo_stamps_def)
qed

lemma demo_view_status [simp]: "dv_status (demo_view s e) = s"
  by (simp add: demo_view_def)

lemma demo_passes: "has_passing_evaluate demo_evidence [''gateway''] (''sha256:'' @ demo_digest) = Inr True"
  by (simp add: passing_evaluate_def demo_evidence_def field_eval)

lemma demo_source: "candidate_source demo_evidence (\<lambda>_. demo_digest) (Inr ''kernel'') refusal [''gateway''] = Inr ''kernel''"
  by (simp add: candidate_source_def demo_passes [simplified])

lemma demo_validates:
  "validate_report_evidence demo_evidence (\<lambda>_. demo_digest) (Inr ''kernel'') []
     (VDict (demo_journal True [VDict demo_proposal, VDict demo_start, VDict demo_complete] [VDict demo_row]))
     ''candidate_ready'' (VStr demo_experiment) VNull =
   Inr (demo_journal True [VDict demo_proposal, VDict demo_start, VDict demo_complete] [VDict demo_row],
     [(demo_direction, demo_view ''completed'' [demo_experiment])], Some ''kernel'')"
proof -
  have "get_item demo_proposal ''hypothesis_status'' = VNull" "get_item demo_start ''hypothesis_status'' = VNull"
    "get_item demo_complete ''hypothesis_status'' = VStr ''supported''" "get_item demo_complete ''direction_id'' = VStr demo_direction"
    "get_item demo_complete ''supporting_experiment_ids'' = VList [VStr demo_experiment]"
    by (simp_all add: demo_proposal_def demo_texts_def demo_start_def demo_complete_def demo_event_def field_eval)
  moreover have "selected_experiment [(demo_direction, demo_view ''completed'' [demo_experiment])]
     (demo_journal True E [VDict demo_row]) (VStr demo_experiment) = Inr demo_row" for E
    by (simp add: selected_experiment_def demo_is_experiment dicts_of_def demo_fields demo_found Let_def dict_has_def closed_statuses_def)
  ultimately show ?thesis
    by (simp add: validate_report_evidence_def demo_loads demo_fields demo_history researched_report_def demo_states demo_replay_def
      dicts_of_def recheck_closure_def demo_support demo_found demo_record demo_source Let_def)
qed

section \<open>A report without research records\<close>

text \<open>A measurement that passes all six cases, and its record.\<close>

definition demo_codec :: codec where
  "demo_codec = \<lparr>cd_loads = (\<lambda>s. if s = ''r'' then Inr (VDict [(''all_pass'', VBool True), (''gateway_record_id'', VStr ''gateway'')])
       else Inl (ValueError (Msg ''Expecting value''))), cd_dumps = (\<lambda>_. []), cd_sha256 = (\<lambda>_. demo_digest)\<rparr>"

definition demo_measured :: "pyval dict" where
  "demo_measured = [(''cacheable'', VBool True), (''operation'', VStr ''evaluate''),
     (''request'', VDict [(''inputs'', VDict [(''kernel.py'', VStr demo_digest)]),
        (''options'', VDict [(''evaluation_policy'', VDict [(''mode'', VStr ''correctness_only''), (''num_correctness_cases'', VInt 6)])])])]"

definition demo_validation :: candidate_validation where
  "demo_validation = \<lparr>cv_codec = demo_codec, cv_atrex = True, cv_production = False,
     cv_measure = (\<lambda>_ _ _. Inr \<lparr>gr_exit = 0, gr_lines = [''[test_kernel] RESULT_JSON=r''], gr_reused = False\<rparr>),
     cv_read = (\<lambda>_. Inr demo_measured), cv_live = None, cv_live_after = None, cv_supplemental = None, cv_harness = []\<rparr>"

definition demo_verdict :: pyval where
  "demo_verdict = VDict [(''gateway_record_id'', VStr ''gateway''), (''reused'', VBool False), (''additional_seeds'', VInt 5),
     (''correctness_cases'', VInt 6), (''evaluator'', VStr ''atrex_bench'')]"

lemma demo_validated: "validate_candidate demo_validation ''kernel'' = Inr demo_verdict"
  by code_simp

definition demo_env :: report_env where
  "demo_env = \<lparr>re_supervisor = True, re_check = (\<lambda>_. []), re_validation = Some demo_validation,
     re_commit = (\<lambda>_. Inr ''commit''), re_diagnostics = (\<lambda>_. Inr [])\<rparr>"

definition demo_report :: "pyval dict" where
  "demo_report = [(''status'', VStr ''candidate_ready''), (''summary'', VStr ''note''), (''gateway_record_ids'', VList [VStr ''gateway''])]"

lemma demo_reports:
  assumes "re_supervisor env" "re_validation env = Some demo_validation" "is_ok (re_commit env ''kernel'')"
  shows "is_ok (submit_report env demo_evidence (\<lambda>_. demo_digest) (Inr ''kernel'') (\<lambda>_. True) [] (VDict (demo_journal False [] [])) ''now'' demo_report)"
proof -
  have r: "get_item demo_report ''status'' = VStr ''candidate_ready''" "get_item demo_report ''summary'' = VStr ''note''"
    "get_item demo_report ''gateway_record_ids'' = VList [VStr ''gateway'']" "get_item demo_report ''blocker'' = VNull"
    "get_item demo_report ''selected_experiment_id'' = VNull" "get_item demo_report ''candidate_commit'' = VNull"
    "dict_get demo_report ''accepted_ppu_diagnostics'' = None"
    "require_fields demo_report [''status'', ''summary''] (report_optional True False) = Inr ()"
    by (simp_all add: demo_report_def field_eval require_fields_def guard_res_def report_optional_def)
  have "validate_report_evidence demo_evidence (\<lambda>_. demo_digest) (Inr ''kernel'') [] (VDict (demo_journal False [] [])) ''candidate_ready'' VNull
      (VList [VStr ''gateway'']) = Inr (demo_journal False [] [], [], Some ''kernel'')"
    by (simp add: validate_report_evidence_def demo_loads demo_fields unresearched_report_def demo_record demo_source)
  moreover obtain c where "re_commit env ''kernel'' = Inr c" using assms(3) by (auto simp: is_ok_iff)
  ultimately show ?thesis
    using assms(1,2) by (simp add: submit_report_def demo_loads demo_fields r Let_def accept_report_def read_status_def report_statuses_def demo_reads
      read_blocker_def agent_commit_def report_outcome_def save_journal_def measure_candidate_def demo_validated commit_candidate_def)
qed

end
