(* ===== verification/Campaign_Runs.thy ===== *)
theory Campaign_Runs
  imports Journal_Samples
begin

text \<open>
  A campaign: the finished episodes and the journal of the current one.  The steps are an accepted direction update, a
  recorded experiment, the accepted report, and the start of the next episode.
\<close>

section \<open>What an event keeps\<close>

lemma dv_fields_update [simp]: "dv_fields (update_view e a v) = dv_fields v" "dv_status (update_view e a v) = dict_get_default direction_status a []"
  by (simp_all add: update_view_def Let_def)

lemma visible_status: "visible_ok views statuses own \<Longrightarrow> map_option dv_status (dict_get views d) = dict_get statuses d"
  by (simp add: visible_ok_def)

lemma replay_update_keeps:
  assumes "visible_ok (rp_views r) (rp_statuses r) own" "started_ok (rp_started r)" "replay_event r (VDict e) = Inr r'"
    "get_item e ''action'' \<noteq> VStr ''propose''"
  shows "visible_ok (rp_views r') (rp_statuses r') own \<and> started_ok (rp_started r')"
proof -
  from assms(3) obtain d act where a: "get_item e ''direction_id'' = VStr d" "get_item e ''action'' = VStr act"
    "advance_direction (rp_statuses r) (rp_started r) (VStr d) (VStr act) = Inr (rp_statuses r', rp_started r')"
    "rp_views r' = (if act = ''propose'' then dict_set (rp_views r) d (new_view e)
       else case dict_get (rp_views r) d of None \<Rightarrow> rp_views r | Some v \<Rightarrow> dict_set (rp_views r) d (update_view e act v))"
    by (rule replay_Inr) auto
  from a(2) assms(4) have act: "act \<noteq> ''propose''" by simp
  from a(3) have g: "direction_guard (rp_statuses r) (rp_started r) d act = Inr ()"
    "rp_statuses r' = dict_set (rp_statuses r) d (dict_get_default direction_status act [])"
    by (rule advance_Inr, simp)+
  from g(1) act obtain s where "dict_get (rp_statuses r) d = Some s" by (cases "dict_get (rp_statuses r) d") (auto simp: direction_guard_def)
  with visible_status [OF assms(1), of d] obtain v where v: "dict_get (rp_views r) d = Some v" by auto
  then have views: "rp_views r' = dict_set (rp_views r) d (update_view e act v)" using act by (simp add: a(4))
  have "lifecycle_ok (rp_statuses r')" "started_ok (rp_started r')"
    using advance_ok [OF _ assms(2) a(3)] assms(1) by (auto simp: visible_ok_def)
  then show ?thesis
    using assms(1) by (simp add: visible_ok_def views g(2) lineages_set [OF v] dict_simps)
qed

lemma get_map_filter:
  "dict_get (List.map_filter (\<lambda>k. if P k then Some (k, f k) else None) ks) k = (if k \<in> set ks \<and> P k then Some (f k) else None)"
  by (induction ks) auto

lemma items_relationship:
  assumes "k \<in> set relationship_names"
  shows "items_of (relationship_fields e) k = items_of e k"
proof -
  have "get_item (relationship_fields e) k = (if truthy (get_item e k) then get_item e k else VNull)"
    using assms by (simp add: relationship_fields_def get_item_def [of "List.map_filter _ _"] dict_get_default_def get_map_filter)
  then show ?thesis by (cases "get_item e k") (simp_all add: items_of_def)
qed

lemma lineage_new_view:
  "lineage_of (dv_fields (new_view e)) = \<lparr>ln_parents = id_list e ''derived_from_direction_ids'',
     ln_experiments = id_list e ''derived_from_experiment_ids''\<rparr>"
proof -
  have "items_of ((k', v) # d) k = (if k' = k then items_of [(k, v)] k else items_of d k)" for k k' v and d :: "pyval dict"
    by (simp add: items_of_def get_item_def dict_get_default_def)
  then have "items_of (dv_fields (new_view e)) ''derived_from_direction_ids'' = items_of (relationship_fields e) ''derived_from_direction_ids''"
    "items_of (dv_fields (new_view e)) ''derived_from_experiment_ids'' = items_of (relationship_fields e) ''derived_from_experiment_ids''"
    by (simp_all add: new_view_def)
  then show ?thesis by (simp add: lineage_of_def id_list_def items_relationship relationship_names_def)
qed

text \<open>A proposal adds one node; its parents are those the relationship names, directly or by their experiments.\<close>

definition parents_of :: "string dict \<Rightarrow> lineage \<Rightarrow> string list" where
  "parents_of own l = ln_parents l @ List.map_filter (dict_get own) (ln_experiments l)"

lemma get_snoc: "dict_get directions d = None \<Longrightarrow> dict_get (directions @ [(d, l)]) c = (if c = d then Some l else dict_get directions c)"
  by (auto simp: map_add_def split: option.split)

lemma ancestry_new:
  "dict_get directions d = None \<Longrightarrow>
     ancestry (directions @ [(d, l)]) own = ancestry directions own \<union> {d} \<times> set (parents_of own l)"
  by (auto simp: ancestry_def successors_def parents_of_def get_snoc simp del: map_of_append split: if_splits)

lemma replay_propose_keeps:
  assumes "visible_ok (rp_views r) (rp_statuses r) own" "started_ok (rp_started r)" "replay_event r (VDict e) = Inr r'"
    "get_item e ''action'' = VStr ''propose''" "get_item e ''direction_id'' = VStr d"
    "set (ln_experiments (lineage_of (dv_fields (new_view e)))) \<subseteq> dom (dict_get own)"
    "d \<notin> (ancestry (lineages (rp_views r)) own)\<^sup>* `` set (parents_of own (lineage_of (dv_fields (new_view e))))"
  shows "visible_ok (rp_views r') (rp_statuses r') own \<and> started_ok (rp_started r')"
proof -
  from assms(3) obtain e' d' act where p: "VDict e = VDict e'" "get_item e' ''direction_id'' = VStr d'" "get_item e' ''action'' = VStr act"
    "advance_direction (rp_statuses r) (rp_started r) (VStr d') (VStr act) = Inr (rp_statuses r', rp_started r')"
    "rp_views r' = (if act = ''propose'' then dict_set (rp_views r) d' (new_view e')
       else case dict_get (rp_views r) d' of None \<Rightarrow> rp_views r | Some v \<Rightarrow> dict_set (rp_views r) d' (update_view e' act v))"
    by (rule replay_Inr)
  from p(1-3) assms(4,5) have i: "e' = e" "d' = d" "act = ''propose''" by auto
  from p(4,5) have a:
    "advance_direction (rp_statuses r) (rp_started r) (VStr d) (VStr ''propose'') = Inr (rp_statuses r', rp_started r')"
    "rp_views r' = dict_set (rp_views r) d (new_view e)"
    by (simp_all add: i)
  from a(1) have g: "direction_guard (rp_statuses r) (rp_started r) d ''propose'' = Inr ()"
    "rp_statuses r' = dict_set (rp_statuses r) d ''proposed''"
    by (auto elim!: advance_Inr simp: status_of)
  from g(1) have "dict_get (rp_statuses r) d = None" by (cases "dict_get (rp_statuses r) d") (auto simp: direction_guard_def)
  with visible_status [OF assms(1), of d] have n: "dict_get (rp_views r) d = None" by simp
  let ?l = "lineage_of (dv_fields (new_view e))"
  have l: "lineages (rp_views r') = lineages (rp_views r) @ [(d, ?l)]" "dict_get (lineages (rp_views r)) d = None"
    using n by (simp_all add: a(2) lineages_new lineages_get)
  have "acyclic (ancestry (lineages (rp_views r')) own)"
    using assms(1,7) unfolding l(1) ancestry_new [OF l(2)] by (intro acyclic_new_node) (auto simp: visible_ok_def)
  moreover have "\<forall>x m. dict_get (lineages (rp_views r')) x = Some m \<longrightarrow> set (ln_experiments m) \<subseteq> dom (dict_get own)"
    using assms(1,6) unfolding l(1) visible_ok_def by (auto simp: get_snoc [OF l(2)] simp del: map_of_append split: if_split_asm)
  moreover have "lifecycle_ok (rp_statuses r')" "started_ok (rp_started r')"
    using advance_ok [OF _ assms(2) a(1)] assms(1) by (auto simp: visible_ok_def)
  moreover have "dv_status (new_view e) = ''proposed''" by (simp add: new_view_def)
  ultimately show ?thesis
    using assms(1) by (simp add: visible_ok_def a(2) g(2) dict_simps)
qed

lemma relationship_lineage:
  assumes "validate_relationship d request directions own = Inr f" "id_list e ''derived_from_direction_ids'' = id_list f ''derived_from_direction_ids''"
    "id_list e ''derived_from_experiment_ids'' = id_list f ''derived_from_experiment_ids''"
  shows "set (ln_experiments (lineage_of (dv_fields (new_view e)))) \<subseteq> dom (dict_get own)
     \<and> d \<notin> (ancestry directions own)\<^sup>* `` set (parents_of own (lineage_of (dv_fields (new_view e))))"
  using assms(1)
proof (rule validated_Inr)
  assume "f = []"
  then show ?thesis using assms(2,3) by (simp add: lineage_new_view id_list_def items_of_def get_item_def dict_get_default_def parents_of_def)
next
  fix kind parents evidence effective supersedes
  assume f: "f = [(''relationship'', kind), (''derived_from_direction_ids'', VList (map VStr parents)),
      (''derived_from_experiment_ids'', VList (map VStr evidence)), (''supersedes_direction_id'', supersedes)]"
    "effective_parents directions own parents evidence = Inr effective" "\<not> meets directions own d (rev effective) []"
  have l: "lineage_of (dv_fields (new_view e)) = \<lparr>ln_parents = parents, ln_experiments = evidence\<rparr>"
    using assms(2,3) by (simp add: lineage_new_view id_list_def items_of_def get_item_def dict_get_default_def f(1) comp_def)
  from effective_parents_Inr [OF f(2)] f(3) show ?thesis
    by (simp add: l parents_of_def meets_iff)
qed

section \<open>Experiments of an episode\<close>

definition experiment_key :: "pyval dict \<Rightarrow> string" where
  "experiment_key x = str_of (get_item x ''experiment_id'')"

definition fresh_rows :: "'v dict \<Rightarrow> pyval dict list \<Rightarrow> bool" where
  \<comment> \<open>experiments with ids of their own, none of them known before\<close>
  "fresh_rows known xs \<longleftrightarrow> list_all (\<lambda>x. is_str (get_item x ''experiment_id'')) xs \<and> distinct (map experiment_key xs)
     \<and> list_all (\<lambda>x. \<not> dict_has known (experiment_key x)) xs"

lemma fresh_rows_simps:
  "fresh_rows known []"
  "fresh_rows known (x # xs) \<longleftrightarrow> is_str (get_item x ''experiment_id'') \<and> \<not> dict_has known (experiment_key x)
     \<and> fresh_rows (known @ [(experiment_key x, v)]) xs"
  by (auto simp: fresh_rows_def dict_has_keys list_all_iff) (metis imageI)

lemma index_fresh:
  "fresh_rows (hs_experiments h) xs \<Longrightarrow> foldl index_experiment h (map VDict xs) =
     h\<lparr>hs_experiments := hs_experiments h @ map (\<lambda>x. (experiment_key x, x)) xs,
       hs_views := associate_experiments (hs_views h) (map VDict xs)\<rparr>"
proof (induction xs arbitrary: h)
  case (Cons x xs)
  from Cons.prems have x: "\<not> dict_has (hs_experiments h) (experiment_key x)"
    "fresh_rows (hs_experiments h @ [(experiment_key x, x)]) xs"
    "get_item x ''experiment_id'' = VStr (experiment_key x)"
    by (auto simp: fresh_rows_simps(2) [where v = x] experiment_key_def elim: is_strE)
  have "index_experiment h (VDict x) = h\<lparr>hs_experiments := hs_experiments h @ [(experiment_key x, x)],
      hs_views := associate (hs_views h) (VDict x)\<rparr>"
    using x(1) by (simp add: index_experiment_def x(3))
  with Cons.IH [of "index_experiment h (VDict x)"] x(2) show ?case
    by (simp add: associate_experiments_def)
qed (simp add: associate_experiments_def)

definition keyed :: "pyval dict list \<Rightarrow> pyval dict dict" where
  "keyed xs = map (\<lambda>x. (experiment_key x, x)) xs"

lemma current_fresh:
  assumes "items_of j ''experiments'' = map VDict xs" "fresh_rows known xs"
  shows "current_experiments j = keyed xs"
proof -
  let ?f = "\<lambda>d x. case get_item x ''experiment_id'' of VStr e \<Rightarrow> dict_set d e x | _ \<Rightarrow> d"
  have "foldl ?f d xs = d @ keyed xs" if "fresh_rows d xs" for d
    using that
  proof (induction xs arbitrary: d)
    case (Cons x xs)
    then have x: "\<not> dict_has d (experiment_key x)" "fresh_rows (d @ [(experiment_key x, x)]) xs"
      "get_item x ''experiment_id'' = VStr (experiment_key x)"
      by (auto simp: fresh_rows_simps(2) [where v = x] experiment_key_def elim: is_strE)
    then show ?case using Cons.IH [OF x(2)] by (simp add: keyed_def dict_has_def dict_set_fresh)
  qed (simp add: keyed_def)
  moreover have "fresh_rows ([] :: pyval dict dict) xs" using assms(2) by (simp add: fresh_rows_def dict_has_def list_all_iff)
  moreover have "List.map_filter as_dict (map VDict xs) = xs" for xs :: "pyval dict list"
    by (induction xs) auto
  ultimately show ?thesis by (simp add: current_experiments_def dicts_of_def assms(1))
qed

definition owners_of :: "pyval dict dict \<Rightarrow> string dict" where
  "owners_of xs = map (\<lambda>(e, x). (e, str_of (get_item x ''direction_id''))) xs"

lemma owners_get: "dict_get (owners_of xs) e = map_option (\<lambda>x. str_of (get_item x ''direction_id'')) (dict_get xs e)"
  by (simp add: owners_of_def map_of_map)

lemma owners_eq: "owners h j = owners_of (hs_experiments h @ current_experiments j)"
  by (simp add: owners_def owners_of_def)

section \<open>The campaign\<close>

type_synonym campaign = "(nat \<times> pyval) list \<times> pyval dict"

definition journal_ok :: "history \<Rightarrow> bool" where
  "journal_ok h \<longleftrightarrow> visible_ok (hs_views h) (hs_statuses h) (owners_of (hs_experiments h))"

definition stored_ok :: "campaign \<Rightarrow> bool" where
  "stored_ok c \<longleftrightarrow> (case c of (older, j) \<Rightarrow> load_journal (VDict j) = Inr j
     \<and> (\<exists>n. get_item j ''episode'' = VInt (int n) \<and> (\<forall>(m, _)\<in>set older. m < n)))"

definition campaign_ok :: "campaign \<Rightarrow> bool" where
  "campaign_ok c \<longleftrightarrow> (case c of (older, j) \<Rightarrow> stored_ok (older, j)
     \<and> (\<exists>h r xs. visible_history older j = Inr h \<and> journal_ok h
          \<and> items_of j ''experiments'' = map VDict xs \<and> fresh_rows (hs_experiments h) xs
          \<and> apply_direction_events (hs_views h) (hs_statuses h) j = Inr r
          \<and> visible_ok (rp_views r) (rp_statuses r) (owners h j) \<and> started_ok (rp_started r)))"

definition fresh_experiment :: "(nat \<times> pyval) list \<Rightarrow> pyval dict \<Rightarrow> string \<Rightarrow> bool" where
  \<comment> \<open>a new \<open>uuid4\<close>\<close>
  "fresh_experiment older j e =
     (case visible_history older j of Inr h \<Rightarrow> \<not> dict_has (owners h j) e | Inl _ \<Rightarrow> True)"

inductive campaign_step :: "campaign \<Rightarrow> campaign \<Rightarrow> bool" where
  updated: "update_direction evidence fits older (VDict j) st request = Inr j' \<Longrightarrow> clock_ok st
    \<Longrightarrow> campaign_step (older, j) (older, j')"
| recorded: "record_experiment evidence fits attribution older (VDict j) st request = Inr j'
    \<Longrightarrow> fresh_experiment older j (st_id st) \<Longrightarrow> campaign_step (older, j) (older, j')"
| reported: "submit_report env evidence sha256 snapshot fits older (VDict j) now raw = Inr j'
    \<Longrightarrow> campaign_step (older, j) (older, j')"
| opened: "get_item j ''episode'' = VInt (int n) \<Longrightarrow> n < m
    \<Longrightarrow> campaign_step (older, j) (older @ [(n, VDict j)], initialize_journal m base branch version research now)"

inductive_cases campaign_stepE: "campaign_step (older, j) c"

lemma load_again:
  assumes "load_journal (VDict j) = Inr j"
    "\<And>k. k \<in> {''schema_version'', ''runtime_managed'', ''direction_events'', ''experiments'', ''research_records''} \<Longrightarrow> dict_get j' k = dict_get j k"
  shows "load_journal (VDict j') = Inr j'"
  using assms by (simp add: load_journal_def get_item_def dict_get_default_def items_of_def cong: if_cong split: if_split_asm)

lemma load_journal_Inr: "load_journal (VDict j) = Inr d \<Longrightarrow> d = j"
  by (auto simp: load_journal_def split: if_split_asm)

lemma mutable_Inr:
  "mutable_journal (VDict j) = Inr d \<Longrightarrow>
     d = j \<and> load_journal (VDict j) = Inr j \<and> get_item j ''research_records'' \<noteq> VBool False \<and> get_item j ''state'' = VStr ''in_progress''"
  by (auto simp: mutable_journal_def bind_res_Inr_iff dest: load_journal_Inr split: if_split_asm)

lemma load_journal_iff:
  "load_journal (VDict d) = Inr x \<longleftrightarrow> x = d \<and> py_eq (get_item d ''schema_version'') (VInt 2) \<and> get_item d ''runtime_managed'' = VBool True
     \<and> is_list (get_item d ''direction_events'') \<and> is_list (get_item d ''experiments'')
     \<and> is_bool (dict_get_default d ''research_records'' (VBool True))
     \<and> (get_item d ''research_records'' = VBool False \<longrightarrow> items_of d ''direction_events'' = [] \<and> items_of d ''experiments'' = [])"
  by (auto simp: load_journal_def split: if_split_asm)

lemma load_append:
  assumes "mutable_journal (VDict j) = Inr j" "k \<in> {''direction_events'', ''experiments''}"
  shows "load_journal (VDict (append_item k v j)) = Inr (append_item k v j)"
proof -
  have m: "load_journal (VDict j) = Inr j" "get_item j ''research_records'' \<noteq> VBool False"
    using mutable_Inr [OF assms(1)] by simp_all
  have g: "get_item (append_item k v j) k' = (if k' = k then VList (items_of j k @ [v]) else get_item j k')" for k'
    by (simp add: append_item_def dict_simps)
  have d: "dict_get_default (append_item k v j) ''research_records'' x = dict_get_default j ''research_records'' x" for x
    using assms(2) by (auto simp: append_item_def dict_get_default_def dict_simps)
  from assms(2) consider "k = ''direction_events''" | "k = ''experiments''" by auto
  then show ?thesis
    using m d g by cases (simp_all add: load_journal_iff)
qed

lemma stored_append:
  assumes "stored_ok (older, j)" "mutable_journal (VDict j) = Inr j" "k \<in> {''direction_events'', ''experiments''}"
  shows "stored_ok (older, append_item k v j)"
proof -
  have "get_item (append_item k v j) ''episode'' = get_item j ''episode''" using assms(3) by (auto simp: dict_simps)
  with assms show ?thesis by (simp add: stored_ok_def load_append)
qed

lemma owners_append: "owners h (append_item ''direction_events'' v j) = owners h j"
  by (simp add: owners_def current_experiments_def dicts_of_def dict_simps)

lemma direction_state_Inr:
  "apply_direction_events (hs_views h) (hs_statuses h) j = Inr r0 \<Longrightarrow> direction_state h j = Inr r \<longleftrightarrow>
     r = r0\<lparr>rp_views := associate_experiments (rp_views r0) (items_of j ''experiments'')\<rparr>"
  by (auto simp: direction_state_def)

lemma started_ids_ok: "distinct (started_ids j)"
  by (simp add: started_ids_def)

text \<open>The lineage a proposal is stored with is the one that was checked.\<close>

lemma proposal_lineage:
  assumes "proposal_event h j r started st request = Inr e"
  shows "get_item e ''action'' = VStr ''propose'' \<and> get_item e ''direction_id'' = VStr (st_id st)
     \<and> set (ln_experiments (lineage_of (dv_fields (new_view e)))) \<subseteq> dom (dict_get (owners h j))
     \<and> st_id st \<notin> (ancestry (lineages (rp_views r)) (owners h j))\<^sup>* ``
          set (parents_of (owners h j) (lineage_of (dv_fields (new_view e))))"
  using assms
proof (rule proposal_parts)
  fix statuses sd name hypothesis rationale plan success stop anc
  assume v: "anc = [] \<or> validate_relationship (st_id st) request (lineages (rp_views r)) (owners h j) = Inr anc"
    and e: "e = [(''direction_event_id'', VStr (st_event st)), (''direction_id'', VStr (st_id st)), (''action'', VStr ''propose''),
       (''name'', VStr name), (''hypothesis'', VStr hypothesis), (''rationale'', VStr rationale),
       (''plan'', VList (map VStr plan)), (''success_criteria'', VList (map VStr success)),
       (''stop_conditions'', VList (map VStr stop)), (''recorded_at'', VStr (st_now st))] @ anc"
  have i: "id_list e ''derived_from_direction_ids'' = id_list anc ''derived_from_direction_ids''"
    "id_list e ''derived_from_experiment_ids'' = id_list anc ''derived_from_experiment_ids''"
    by (simp_all add: e id_list_def items_of_def get_item_def dict_get_default_def)
  have "set (ln_experiments (lineage_of (dv_fields (new_view e)))) \<subseteq> dom (dict_get (owners h j))
     \<and> st_id st \<notin> (ancestry (lineages (rp_views r)) (owners h j))\<^sup>* ``
          set (parents_of (owners h j) (lineage_of (dv_fields (new_view e))))"
  proof (cases "anc = []")
    case True
    then show ?thesis
      by (simp add: lineage_new_view i parents_of_def)
        (simp add: id_list_def items_of_def get_item_def dict_get_default_def)
  next
    case False
    with v have "validate_relationship (st_id st) request (lineages (rp_views r)) (owners h j) = Inr anc" by simp
    then show ?thesis using i by (rule relationship_lineage)
  qed
  then show ?thesis by (simp add: e get_item_def dict_get_default_def)
qed

lemma lifecycle_action:
  assumes "lifecycle_event evidence h j r started st request = Inr e"
  shows "get_item e ''action'' = get_item request ''action''"
  using assms by (rule lifecycle_parts) (simp add: get_item_def dict_get_default_def)

section \<open>Preservation\<close>

lemma campaign_okI:
  assumes "stored_ok (older, j)" "visible_history older j = Inr h" "journal_ok h"
    "items_of j ''experiments'' = map VDict xs" "fresh_rows (hs_experiments h) xs"
    "apply_direction_events (hs_views h) (hs_statuses h) j = Inr r"
    "visible_ok (rp_views r) (rp_statuses r) (owners h j)" "started_ok (rp_started r)"
  shows "campaign_ok (older, j)"
  using assms unfolding campaign_ok_def by blast

lemma campaign_okE:
  assumes "campaign_ok (older, j)"
  obtains h r xs where "stored_ok (older, j)" "visible_history older j = Inr h" "journal_ok h"
    "items_of j ''experiments'' = map VDict xs" "fresh_rows (hs_experiments h) xs"
    "apply_direction_events (hs_views h) (hs_statuses h) j = Inr r"
    "visible_ok (rp_views r) (rp_statuses r) (owners h j)" "started_ok (rp_started r)"
  using assms unfolding campaign_ok_def by blast

lemma accepted_replays:
  assumes "(if get_item request ''action'' = VStr ''propose'' then proposal_event h j r (started_ids j) st request
      else lifecycle_event evidence h j r (started_ids j) st request) = Inr e"
    "apply_direction_events (hs_views h) (hs_statuses h) j = Inr r0" "rp_statuses r = rp_statuses r0" "clock_ok st"
  shows "is_ok (replay_event r0 (VDict e))"
proof -
  note st = apply_started(2) [OF assms(2)] apply_started(1) [OF assms(2)] started_ids_ok
  show ?thesis
    using assms(1) proposal_replays [OF _ assms(4) assms(3) [symmetric] st] lifecycle_replays [OF _ assms(3) [symmetric] st]
    by (auto split: if_split_asm)
qed

lemma updated_keeps:
  assumes "campaign_ok (older, j)" "update_direction evidence fits older (VDict j) st request = Inr j'" "clock_ok st"
  shows "campaign_ok (older, j')"
proof -
  obtain h r0 xs where c: "stored_ok (older, j)" "visible_history older j = Inr h" "journal_ok h"
    "items_of j ''experiments'' = map VDict xs" "fresh_rows (hs_experiments h) xs"
    "apply_direction_events (hs_views h) (hs_statuses h) j = Inr r0"
    "visible_ok (rp_views r0) (rp_statuses r0) (owners h j)" "started_ok (rp_started r0)"
    using assms(1) by (rule campaign_okE)
  from assms(2) obtain j0 h0 r e where u: "mutable_journal (VDict j) = Inr j0" "visible_history older j0 = Inr h0"
    "direction_state h0 j0 = Inr r"
    "(if get_item request ''action'' = VStr ''propose'' then proposal_event h0 j0 r (started_ids j0) st request
      else lifecycle_event evidence h0 j0 r (started_ids j0) st request) = Inr e"
    "j' = append_item ''direction_events'' (VDict e) j0"
    by (rule update_direction_Inr)
  from u(1) have j0: "j0 = j" by (auto dest: mutable_Inr)
  with u(2) c(2) have h0: "h0 = h" by simp
  from u(3) have r: "rp_statuses r = rp_statuses r0" "lineages (rp_views r) = lineages (rp_views r0)"
    by (auto simp: j0 h0 direction_state_Inr [OF c(6)] associates_same)
  have rep: "is_ok (replay_event r0 (VDict e))" using accepted_replays [OF u(4) [unfolded j0 h0] c(6) r(1) assms(3)] .
  have "\<exists>r1. replay_event r0 (VDict e) = Inr r1 \<and> visible_ok (rp_views r1) (rp_statuses r1) (owners h j) \<and> started_ok (rp_started r1)"
  proof (cases "get_item request ''action'' = VStr ''propose''")
    case True
    with u(4) have p: "proposal_event h j r (started_ids j) st request = Inr e" by (simp add: j0 h0)
    then obtain r1 where r1: "replay_event r0 (VDict e) = Inr r1"
      using rep by (auto simp: is_ok_iff)
    with replay_propose_keeps [OF c(7,8) r1] proposal_lineage [OF p] show ?thesis by (auto simp: r(2))
  next
    case False
    with u(4) have p: "lifecycle_event evidence h j r (started_ids j) st request = Inr e" by (simp add: j0 h0)
    then obtain r1 where r1: "replay_event r0 (VDict e) = Inr r1"
      using rep by (auto simp: is_ok_iff)
    with replay_update_keeps [OF c(7,8) r1] lifecycle_action [OF p] False show ?thesis by auto
  qed
  then obtain r1 where r1: "replay_event r0 (VDict e) = Inr r1" "visible_ok (rp_views r1) (rp_statuses r1) (owners h j)"
    "started_ok (rp_started r1)" by blast
  have "stored_ok (older, j')" using c(1) u(1) by (simp add: u(5) j0 stored_append)
  moreover have "visible_history older j' = Inr h" using c(2) by (simp add: u(5) j0 visible_history_append)
  moreover have "apply_direction_events (hs_views h) (hs_statuses h) j' = Inr r1"
    using c(6) r1(1) by (simp add: u(5) j0 apply_append_event)
  moreover have "items_of j' ''experiments'' = map VDict xs" using c(4) by (simp add: u(5) j0 dict_simps)
  ultimately show ?thesis
    using c(3,5) r1(2,3) by (intro campaign_okI) (simp_all add: u(5) j0 owners_append)
qed

lemma record_experiment_Inr:
  assumes "record_experiment evidence fits attribution older (VDict j) st request = Inr j'"
  obtains x where "mutable_journal (VDict j) = Inr j" "j' = append_item ''experiments'' (VDict x) j"
    "get_item x ''experiment_id'' = VStr (st_id st)"
proof -
  obtain j0 views row wiki where u: "mutable_journal (VDict j) = Inr j0" "experiment_row evidence views j0 st request = Inr row"
    "save_journal fits (append_item ''experiments'' (VDict (row @ wiki)) j0) = Inr j'"
    using assms unfolding record_experiment_def bind_res_Inr_iff by (elim exE conjE) (rule that)
  from u(1) have j0: "j0 = j" by (auto dest: mutable_Inr)
  from u(3) have s: "j' = append_item ''experiments'' (VDict (row @ wiki)) j" by (auto simp: save_journal_def j0 split: if_split_asm)
  from u(2) obtain rest where "row = (''experiment_id'', VStr (st_id st)) # rest"
    by (auto simp: experiment_row_def Let_def bind_res_Inr_iff split: if_split_asm)
  then have "get_item (row @ wiki) ''experiment_id'' = VStr (st_id st)" by (simp add: get_item_def dict_get_default_def)
  with u(1) s show thesis by (intro that) (simp_all add: j0)
qed

lemma fresh_rows_snoc:
  "fresh_rows known (xs @ [x]) \<longleftrightarrow> fresh_rows known xs \<and> is_str (get_item x ''experiment_id'')
     \<and> \<not> dict_has known (experiment_key x) \<and> experiment_key x \<notin> experiment_key ` set xs"
  by (auto simp: fresh_rows_def)

lemma recorded_keeps:
  assumes "campaign_ok (older, j)" "record_experiment evidence fits attribution older (VDict j) st request = Inr j'"
    "fresh_experiment older j (st_id st)"
  shows "campaign_ok (older, j')"
proof -
  obtain h r0 xs where c: "stored_ok (older, j)" "visible_history older j = Inr h" "journal_ok h"
    "items_of j ''experiments'' = map VDict xs" "fresh_rows (hs_experiments h) xs"
    "apply_direction_events (hs_views h) (hs_statuses h) j = Inr r0"
    "visible_ok (rp_views r0) (rp_statuses r0) (owners h j)" "started_ok (rp_started r0)"
    using assms(1) by (rule campaign_okE)
  from assms(2) obtain x where x: "mutable_journal (VDict j) = Inr j" "j' = append_item ''experiments'' (VDict x) j"
    "get_item x ''experiment_id'' = VStr (st_id st)"
    by (rule record_experiment_Inr)
  have own: "owners h j = owners_of (hs_experiments h @ keyed xs)"
    using current_fresh [OF c(4,5)] by (simp add: owners_eq)
  have "\<not> dict_has (owners_of (hs_experiments h @ keyed xs)) (st_id st)"
    using assms(3) c(2) by (simp add: fresh_experiment_def own)
  then have new: "dict_get (hs_experiments h) (st_id st) = None" "dict_get (keyed xs) (st_id st) = None"
    by (auto simp: dict_has_def owners_get map_add_Some_iff)
  have rows: "items_of j' ''experiments'' = map VDict (xs @ [x])" "fresh_rows (hs_experiments h) (xs @ [x])"
    using new c(4,5) by (auto simp: x(2,3) dict_simps fresh_rows_snoc experiment_key_def keyed_def map_of_eq_None_iff dict_has_def image_image)
  have own': "owners h j' = owners_of (hs_experiments h @ keyed (xs @ [x]))"
    using current_fresh [OF rows] by (simp add: owners_eq)
  have "visible_ok (rp_views r0) (rp_statuses r0) (owners h j')"
  proof (rule visible_extend [OF c(7)])
    fix e
    assume "e \<in> dom (dict_get (owners h j))"
    then have "e \<in> dom (dict_get (hs_experiments h @ keyed xs))" by (auto simp: own owners_get)
    then show "dict_get (owners h j') e = dict_get (owners h j) e"
      using new by (auto simp: own own' owners_get keyed_def map_add_def experiment_key_def x(3) split: option.splits)
  qed
  moreover have "stored_ok (older, j')" using c(1) x(1) by (simp add: x(2) stored_append)
  moreover have "visible_history older j' = Inr h" using c(2) by (simp add: x(2) visible_history_append)
  moreover have "apply_direction_events (hs_views h) (hs_statuses h) j' = Inr r0"
    using c(6) by (simp add: x(2) apply_direction_events_def dict_simps)
  ultimately show ?thesis using c(3,8) rows by (intro campaign_okI)
qed

text \<open>An accepted report writes none of the fields the replay reads.\<close>

lemma update_frame: "k \<notin> fst ` set e \<Longrightarrow> dict_get (dict_update d e) k = dict_get d k"
  unfolding dict_update_def by (induction e arbitrary: d) (auto simp: dict_simps)

lemma seal_frame:
  "k \<in> {''schema_version'', ''runtime_managed'', ''research_records'', ''episode'', ''direction_events'', ''experiments''} \<Longrightarrow>
     dict_get (seal_journal sha256 j status outcome commit source checks now raw) k = dict_get j k"
  unfolding seal_journal_def by (rule update_frame) (auto split: option.splits)

lemma report_evidence_Inr:
  "validate_report_evidence evidence sha256 snapshot older (VDict j) status selected records = Inr (current, views, source) \<Longrightarrow> current = j"
  by (auto simp: validate_report_evidence_def bind_res_Inr_iff dest: load_journal_Inr split: if_split_asm)

lemma accept_report_Inr:
  assumes "accept_report env evidence sha256 snapshot fits older (VDict j) research now raw = Inr j'"
  obtains status summary views source diagnostics checks commit outcome where
    "get_item raw ''status'' = VStr status" "status \<in> set report_statuses"
    "validate_report_evidence evidence sha256 snapshot older (VDict j) status (get_item raw ''selected_experiment_id'')
       (get_item raw ''gateway_record_ids'') = Inr (j, views, source)"
    "agent_commit env status (get_item raw ''candidate_commit'') = Inr ()"
    "measure_candidate env source = Inr checks"
    "commit_candidate env source (get_item raw ''candidate_commit'') = Inr commit"
    "report_outcome raw research status summary views diagnostics = Inr outcome"
    "j' = seal_journal sha256 j status outcome commit source checks now raw"
proof -
  obtain status summary current views source diagnostics checks commit outcome where
    r: "read_status (get_item raw ''status'') = Inr status"
    "validate_report_evidence evidence sha256 snapshot older (VDict j) status (get_item raw ''selected_experiment_id'')
       (get_item raw ''gateway_record_ids'') = Inr (current, views, source)"
    "agent_commit env status (get_item raw ''candidate_commit'') = Inr ()"
    "measure_candidate env source = Inr checks"
    "commit_candidate env source (get_item raw ''candidate_commit'') = Inr commit"
    "report_outcome raw research status summary views diagnostics = Inr outcome"
    "save_journal fits (seal_journal sha256 current status outcome commit source checks now raw) = Inr j'"
    using assms unfolding accept_report_def by (auto simp: bind_res_Inr_iff)
  from r(1) have s: "get_item raw ''status'' = VStr status" "status \<in> set report_statuses"
    by (auto simp: read_status_def elim: is_strE split: if_split_asm)
  from r(2) have c: "current = j" by (rule report_evidence_Inr)
  from r(7) have "j' = seal_journal sha256 j status outcome commit source checks now raw"
    by (auto simp: save_journal_def c split: if_split_asm)
  with s r(2-6) show thesis unfolding c by (rule that)
qed

lemma submit_report_cases:
  assumes "submit_report env evidence sha256 snapshot fits older (VDict j) now raw = Inr j'"
  obtains "get_item j ''state'' \<noteq> VStr ''in_progress''" "j' = j" "py_eq (get_item j ''submitted_report'') (VDict raw)"
  | research where "get_item j ''state'' = VStr ''in_progress''"
    "accept_report env evidence sha256 snapshot fits older (VDict j) research now raw = Inr j'"
proof -
  obtain persisted where p: "load_journal (VDict j) = Inr persisted" using assms by (auto simp: submit_report_def bind_res_Inr_iff)
  then have "persisted = j" by (rule load_journal_Inr)
  with assms p that show thesis by (auto simp: submit_report_def Let_def bind_res_Inr_iff split: if_split_asm)
qed

lemma reported_keeps:
  assumes "campaign_ok (older, j)" "submit_report env evidence sha256 snapshot fits older (VDict j) now raw = Inr j'"
  shows "campaign_ok (older, j')"
  using assms(2)
proof (cases rule: submit_report_cases)
  case 1
  with assms(1) show ?thesis by simp
next
  case (2 research)
  from 2(2) obtain status outcome commit source checks where
    j': "j' = seal_journal sha256 j status outcome commit source checks now raw" by (rule accept_report_Inr)
  note frame = seal_frame [of _ sha256 j status outcome commit source checks now raw, folded j']
  have g: "get_item j' k = get_item j k" "dict_get_default j' k v = dict_get_default j k v" "items_of j' k = items_of j k"
    if "k \<in> {''schema_version'', ''runtime_managed'', ''research_records'', ''episode'', ''direction_events'', ''experiments''}" for k v
    using frame [OF that] by (simp_all add: get_item_def dict_get_default_def items_of_def)
  from assms(1) show ?thesis
  proof (rule campaign_okE)
    fix h r xs
    assume c: "stored_ok (older, j)" "visible_history older j = Inr h" "journal_ok h"
      "items_of j ''experiments'' = map VDict xs" "fresh_rows (hs_experiments h) xs"
      "apply_direction_events (hs_views h) (hs_statuses h) j = Inr r"
      "visible_ok (rp_views r) (rp_statuses r) (owners h j)" "started_ok (rp_started r)"
    have "stored_ok (older, j')" using c(1) by (simp add: stored_ok_def load_journal_iff g)
    moreover have "visible_history older j' = Inr h" using c(2) by (simp add: visible_history_def g)
    moreover have "apply_direction_events (hs_views h) (hs_statuses h) j' = Inr r"
      using c(6) by (simp add: apply_direction_events_def g)
    moreover have "owners h j' = owners h j" by (simp add: owners_def current_experiments_def dicts_of_def g)
    moreover have "visible_ok (rp_views r) (rp_statuses r) (owners h j')" using c(7) calculation(4) by metis
    moreover have "items_of j' ''experiments'' = map VDict xs" using c(4) by (simp add: g)
    ultimately show ?thesis using c(3,5,8) by (intro campaign_okI)
  qed
qed

lemma initial_fields:
  "get_item (initialize_journal m base branch version research now) ''episode'' = VInt (int m)"
  "items_of (initialize_journal m base branch version research now) ''experiments'' = []"
  "items_of (initialize_journal m base branch version research now) ''direction_events'' = []"
  "load_journal (VDict (initialize_journal m base branch version research now)) = Inr (initialize_journal m base branch version research now)"
  by (simp_all add: load_journal_iff initialize_journal_def items_of_def get_item_def dict_get_default_def)

lemma initial_owners: "owners h (initialize_journal m base branch version research now) = owners_of (hs_experiments h)"
  by (simp add: owners_eq current_experiments_def dicts_of_def initial_fields)

lemma opened_journal:
  assumes "visible_history older (initialize_journal m base branch version research now) = Inr h" "journal_ok h" "\<forall>(k, _)\<in>set older. k < m"
  shows "campaign_ok (older, initialize_journal m base branch version research now)"
  using assms
  by (intro campaign_okI [where h = h and xs = "[]" and r = "\<lparr>rp_views = hs_views h, rp_statuses = hs_statuses h, rp_started = []\<rparr>"])
    (auto simp: stored_ok_def initial_fields fresh_rows_simps apply_direction_events_def initial_owners journal_ok_def started_ok_def)

lemma visible_before:
  assumes "get_item j ''episode'' = VInt (int m)" "\<forall>(k, _)\<in>set older. k < m"
  shows "visible_history older j = fold_res index_historical_journal no_history older"
proof -
  have "filter (\<lambda>(k, _). int k < int m) older = older" using assms(2) by (induction older) auto
  then show ?thesis by (simp add: visible_history_def assms(1))
qed

lemma index_finished:
  assumes "load_journal (VDict j) = Inr j" "get_item j ''episode'' = VInt (int n)" "truthy (get_item j ''finalized_at'')"
    "apply_direction_events (hs_views h) (hs_statuses h) j = Inr r"
    "items_of j ''experiments'' = map VDict xs" "fresh_rows (hs_experiments h) xs"
  shows "index_historical_journal h (n, VDict j) = Inr \<lparr>hs_views = associate_experiments (rp_views r) (map VDict xs),
     hs_statuses = rp_statuses r, hs_experiments = hs_experiments h @ keyed xs\<rparr>"
  using assms index_fresh [of "h\<lparr>hs_views := rp_views r, hs_statuses := rp_statuses r\<rparr>" xs]
  by (simp add: index_historical_journal_def keyed_def)

lemma opened_keeps:
  assumes "campaign_ok (older, j)" "get_item j ''episode'' = VInt (int n)" "n < m"
  shows "campaign_ok (older @ [(n, VDict j)], initialize_journal m base branch version research now)"
  using assms(1)
proof (rule campaign_okE)
  fix h r xs
  assume c: "stored_ok (older, j)" "visible_history older j = Inr h" "journal_ok h"
    "items_of j ''experiments'' = map VDict xs" "fresh_rows (hs_experiments h) xs"
    "apply_direction_events (hs_views h) (hs_statuses h) j = Inr r"
    "visible_ok (rp_views r) (rp_statuses r) (owners h j)" "started_ok (rp_started r)"
  from c(1) assms(2) have s: "load_journal (VDict j) = Inr j" "\<forall>(k, _)\<in>set older. k < n" by (auto simp: stored_ok_def)
  have old: "fold_res index_historical_journal no_history older = Inr h"
    using c(2) visible_before [OF assms(2) s(2)] by simp
  have m: "\<forall>(k, _)\<in>set (older @ [(n, VDict j)]). k < m" using s(2) assms(3) by auto
  have "\<exists>h'. index_historical_journal h (n, VDict j) = Inr h' \<and> journal_ok h'"
  proof (cases "truthy (get_item j ''finalized_at'')")
    case True
    have own: "owners h j = owners_of (hs_experiments h @ keyed xs)" using current_fresh [OF c(4,5)] by (simp add: owners_eq)
    show ?thesis
      using visible_associates [OF c(7), of "map VDict xs"] index_finished [OF s(1) assms(2) True c(6,4,5)]
      by (simp add: journal_ok_def own)
  next
    case False
    with s(1) assms(2) c(3) show ?thesis by (simp add: index_historical_journal_def)
  qed
  then obtain h' where h': "index_historical_journal h (n, VDict j) = Inr h'" "journal_ok h'" by blast
  have "visible_history (older @ [(n, VDict j)]) (initialize_journal m base branch version research now) = Inr h'"
    using visible_before [OF initial_fields(1) m] by (simp add: fold_res_append old h'(1))
  then show ?thesis using h'(2) m by (rule opened_journal)
qed

definition campaign_start :: "nat \<Rightarrow> pyval \<Rightarrow> pyval \<Rightarrow> pyval \<Rightarrow> bool \<Rightarrow> string \<Rightarrow> campaign" where
  "campaign_start m base branch version research now = ([], initialize_journal m base branch version research now)"

lemma campaign_reachable:
  assumes "campaign_step\<^sup>*\<^sup>* (campaign_start m base branch version research now) c"
  shows "campaign_ok c"
  using assms
proof (induction rule: rtranclp_induct)
  case base
  have "visible_history [] (initialize_journal m base branch version research now) = Inr no_history"
    by (simp add: visible_history_def initial_fields)
  moreover have "journal_ok no_history"
    by (simp add: journal_ok_def no_history_def visible_ok_def lifecycle_ok_def owners_of_def lineages_def ancestry_def successors_def acyclic_def)
  ultimately show ?case unfolding campaign_start_def by (rule opened_journal) simp
next
  case (step c c')
  from step(2,3) show ?case
    by (cases rule: campaign_step.cases) (auto intro: updated_keeps recorded_keeps reported_keeps opened_keeps)
qed

lemma in_progress_once: "lifecycle_ok statuses \<Longrightarrow> length (in_progress statuses) \<le> Suc 0"
proof -
  assume ok: "lifecycle_ok statuses"
  then have "distinct (in_progress statuses)"
    by (auto simp: lifecycle_ok_def in_progress_def dict_wf_def distinct_map_filter)
  moreover have "\<exists>d. set (in_progress statuses) \<subseteq> {d}"
    using ok by (simp add: lifecycle_ok_def subset_iff in_progress_iff) blast
  ultimately show ?thesis
    by (metis distinct_card card_mono card.empty card_insert_disjoint empty_iff finite.intros finite_insert)
qed

section \<open>Properties\<close>

text \<open>C1: The research record of a campaign stays sound.  Whatever sequence of accepted direction updates, recorded
  experiments, accepted reports and new episodes a campaign goes through, its history always replays; the genealogy of
  the visible directions is acyclic, at most one direction is in progress, at most three were started in the current
  episode, and the view of every direction shows the status its events give it.\<close>

theorem campaign_sound:
  assumes "campaign_step\<^sup>*\<^sup>* (campaign_start m base branch version research now) (older, j)"
  shows "\<exists>h r. visible_history older j = Inr h \<and> direction_state h j = Inr r
     \<and> acyclic (ancestry (lineages (rp_views r)) (owners h j))
     \<and> length (in_progress (rp_statuses r)) \<le> 1 \<and> length (started_ids j) \<le> 3
     \<and> (\<forall>d. map_option dv_status (dict_get (rp_views r) d) = dict_get (rp_statuses r) d)"
proof -
  from campaign_reachable [OF assms] obtain h r xs where c: "visible_history older j = Inr h"
    "apply_direction_events (hs_views h) (hs_statuses h) j = Inr r"
    "visible_ok (rp_views r) (rp_statuses r) (owners h j)" "started_ok (rp_started r)"
    by (rule campaign_okE)
  have "length (started_ids j) = length (rp_started r)"
    using apply_started [OF c(2)] started_ids_ok by (metis distinct_card)
  with c show ?thesis
    by (auto simp: direction_state_Inr associates_same visible_ok_def started_ok_def in_progress_once)
qed

theorem campaign_sound_witness:
  "\<exists>h r. visible_history [] (demo_journal True [VDict demo_proposal, VDict demo_start] []) = Inr h
     \<and> direction_state h (demo_journal True [VDict demo_proposal, VDict demo_start] []) = Inr r
     \<and> acyclic (ancestry (lineages (rp_views r)) (owners h (demo_journal True [VDict demo_proposal, VDict demo_start] [])))
     \<and> length (in_progress (rp_statuses r)) \<le> 1
     \<and> length (started_ids (demo_journal True [VDict demo_proposal, VDict demo_start] [])) \<le> 3
     \<and> (\<forall>d. map_option dv_status (dict_get (rp_views r) d) = dict_get (rp_statuses r) d)"
proof (rule campaign_sound)
  have "campaign_step ([], demo_journal True [] []) ([], demo_journal True [VDict demo_proposal] [])"
    by (rule campaign_step.updated [OF demo_proposes demo_clock])
  moreover have "campaign_step ([], demo_journal True [VDict demo_proposal] []) ([], demo_journal True [VDict demo_proposal, VDict demo_start] [])"
    by (rule campaign_step.updated [OF demo_starts demo_clock])
  moreover have "campaign_start 1 (VStr ''base'') (VStr ''branch'') VNull True ''now'' = ([], demo_journal True [] [])"
    by (simp add: campaign_start_def initialize_journal_def demo_journal_def)
  ultimately show "campaign_step\<^sup>*\<^sup>* (campaign_start 1 (VStr ''base'') (VStr ''branch'') VNull True ''now'')
      ([], demo_journal True [VDict demo_proposal, VDict demo_start] [])"
    by (metis rtranclp.rtrancl_into_rtrancl rtranclp.rtrancl_refl)
qed

text \<open>What an update accepts, the replay accepts.  When \<open>update_direction\<close> stores an event, the new journal replays
  against the same history, and the only status that differs is that of the direction the event names, which becomes the
  one its action stands for.\<close>

theorem update_replays:
  assumes "update_direction evidence fits older (VDict j) st request = Inr j'" "clock_ok st"
  shows "\<exists>h r r' d act. get_item request ''action'' = VStr act \<and> dict_has direction_status act
     \<and> visible_history older j = Inr h \<and> visible_history older j' = Inr h
     \<and> direction_state h j = Inr r \<and> direction_state h j' = Inr r'
     \<and> rp_statuses r' = dict_set (rp_statuses r) d (dict_get_default direction_status act [])"
proof -
  from assms(1) obtain j0 h r e where u: "mutable_journal (VDict j) = Inr j0" "visible_history older j0 = Inr h"
    "direction_state h j0 = Inr r"
    "(if get_item request ''action'' = VStr ''propose'' then proposal_event h j0 r (started_ids j0) st request
      else lifecycle_event evidence h j0 r (started_ids j0) st request) = Inr e"
    "j' = append_item ''direction_events'' (VDict e) j0"
    by (rule update_direction_Inr)
  from u(1) have j0: "j0 = j" by (auto dest: mutable_Inr)
  obtain r0 where r0: "apply_direction_events (hs_views h) (hs_statuses h) j = Inr r0" "rp_statuses r = rp_statuses r0"
    using u(3) by (auto simp: j0 direction_state_def bind_res_Inr_iff)
  obtain r1 where r1: "replay_event r0 (VDict e) = Inr r1"
    using accepted_replays [OF u(4) [unfolded j0] r0 assms(2)] by (auto simp: is_ok_iff)
  then obtain e' d act where a: "VDict e = VDict e'" "get_item e' ''action'' = VStr act"
    "advance_direction (rp_statuses r0) (rp_started r0) (VStr d) (VStr act) = Inr (rp_statuses r1, rp_started r1)"
    by (rule replay_Inr)
  from a(3) have s: "rp_statuses r1 = dict_set (rp_statuses r0) d (dict_get_default direction_status act [])" "dict_has direction_status act"
    by (auto elim!: advance_Inr)
  have "get_item request ''action'' = VStr act"
    using a(1,2) u(4) proposal_lineage lifecycle_action by (auto split: if_split_asm)
  moreover have "direction_state h j' = Inr (r1\<lparr>rp_views := associate_experiments (rp_views r1) (items_of j' ''experiments'')\<rparr>)"
    using r0(1) r1 by (simp add: direction_state_def u(5) j0 apply_append_event)
  ultimately show ?thesis
    using u(2,3) s by (auto simp: u(5) j0 visible_history_append r0(2))
qed

theorem update_replays_witness:
  "\<exists>h r r' d act. get_item (demo_request ''start'' []) ''action'' = VStr act \<and> dict_has direction_status act
     \<and> visible_history [] (demo_journal True [VDict demo_proposal] []) = Inr h
     \<and> visible_history [] (demo_journal True [VDict demo_proposal, VDict demo_start] []) = Inr h
     \<and> direction_state h (demo_journal True [VDict demo_proposal] []) = Inr r
     \<and> direction_state h (demo_journal True [VDict demo_proposal, VDict demo_start] []) = Inr r'
     \<and> rp_statuses r' = dict_set (rp_statuses r) d (dict_get_default direction_status act [])"
  by (rule update_replays [OF demo_starts demo_clock])

end
