(* ===== verification/Report_Evidence.thy ===== *)
theory Report_Evidence
  imports Campaign_Runs
begin

text \<open>
  What an accepted closure and an accepted report rest on: measurements of the visible experiments, and a passing
  evaluation of exactly the candidate source that is sealed.
\<close>

section \<open>Records\<close>

lemma map_sum_Inr: "map_sum f g m = Inr y \<longleftrightarrow> (\<exists>x. m = Inr x \<and> y = g x)"
  by (cases m) auto

lemma passing_evaluate_found:
  "has_passing_evaluate evidence rs digest = Inr True \<Longrightarrow> \<exists>r\<in>set rs. \<exists>g. evidence r = Inr g \<and> passing_evaluate g digest"
  by (induction rs) (auto simp: bind_res_Inr_iff split: if_split_asm)

lemma candidate_source_Inr:
  assumes "candidate_source evidence sha256 snapshot refusal rs = Inr source"
  shows "snapshot = Inr source" "\<exists>r\<in>set rs. \<exists>g. evidence r = Inr g \<and> passing_evaluate g (''sha256:'' @ sha256 source)"
  using assms by (auto simp: candidate_source_def bind_res_Inr_iff dest: passing_evaluate_found split: if_split_asm)

lemma completed_found:
  "any_completed evidence rs = Inr True \<Longrightarrow> \<exists>r\<in>set rs. \<exists>g. evidence r = Inr g \<and> ge_completed g"
  by (induction rs) (auto simp: bind_res_Inr_iff split: if_split_asm)

definition texts_of :: "pyval \<Rightarrow> string list" where
  \<comment> \<open>the texts of a stored list\<close>
  "texts_of v = map (\<lambda>x. py_strip (str_of x)) (case v of VList xs \<Rightarrow> xs | _ \<Rightarrow> [])"

lemma read_texts_of: "read_texts v label = Inr xs \<Longrightarrow> xs = texts_of v"
  by (auto simp: read_texts_def texts_of_def split: pyval.splits if_split_asm)

lemma records_Inr:
  assumes "validate_record_ids evidence raw label = Inr rs"
  shows "rs = texts_of raw" "rs \<noteq> []" "distinct rs" "\<forall>r\<in>set rs. \<exists>g. evidence r = Inr g \<and> bound_record g"
proof -
  obtain us where u: "map_res (check_record evidence) rs = Inr us" "rs \<noteq> []" "distinct rs"
    using assms by (auto simp: validate_record_ids_def bind_res_Inr_iff split: if_split_asm)
  show "rs = texts_of raw"
    using assms by (auto simp: validate_record_ids_def bind_res_Inr_iff dest: read_texts_of split: if_split_asm)
  have "\<exists>g. evidence r = Inr g \<and> bound_record g" if "check_record evidence r = Inr u" for r u
    using that by (auto simp: check_record_def split: sum.splits if_split_asm)
  with u(1) show "\<forall>r\<in>set rs. \<exists>g. evidence r = Inr g \<and> bound_record g"
    by (auto simp: map_res_Inr_iff list_all2_conv_all_nth in_set_conv_nth)
  show "rs \<noteq> []" "distinct rs" by (fact u)+
qed

section \<open>Closures\<close>

definition backs :: "evidence \<Rightarrow> history \<Rightarrow> pyval dict \<Rightarrow> string \<Rightarrow> string \<Rightarrow> string \<Rightarrow> bool" where
  \<comment> \<open>a visible experiment of the direction, whose own gateway records were measured, one of them to the end unless nothing is
    claimed\<close>
  "backs evidence h j d assessment e \<longleftrightarrow>
     (\<exists>x. find_experiment h j e = Some x \<and> get_item x ''direction_id'' = VStr d
        \<and> texts_of (get_item x ''gateway_record_ids'') \<noteq> [] \<and> distinct (texts_of (get_item x ''gateway_record_ids''))
        \<and> (\<forall>r\<in>set (texts_of (get_item x ''gateway_record_ids'')). \<exists>g. evidence r = Inr g \<and> bound_record g)
        \<and> (assessment \<noteq> ''unresolved'' \<longrightarrow>
             (\<exists>r\<in>set (texts_of (get_item x ''gateway_record_ids'')). \<exists>g. evidence r = Inr g \<and> ge_completed g)))"

lemma lifecycle_direction:
  assumes "lifecycle_event evidence h current r started st request = Inr e"
  shows "get_item e ''direction_id'' = VStr (py_strip (str_of (get_item request ''direction_id'')))"
proof -
  obtain d where "read_text (get_item request ''direction_id'') ''direction_id'' = Inr d" "get_item e ''direction_id'' = VStr d"
    using assms
    by (auto simp: lifecycle_event_def Let_def bind_res_Inr_iff get_item_def [of "_ # _"] dict_get_default_def split: if_split_asm)
  then show ?thesis by (auto simp: read_text_def split: if_split_asm)
qed

definition closure_rests :: "evidence \<Rightarrow> history \<Rightarrow> pyval dict \<Rightarrow> string \<Rightarrow> pyval dict \<Rightarrow> bool" where
  \<comment> \<open>a request or an event that closes a direction names an assessment and between one and 32 experiments that back it\<close>
  "closure_rests evidence h j d e \<longleftrightarrow>
     (\<exists>assessment. get_item e ''hypothesis_status'' = VStr assessment \<and> assessment \<in> set hypothesis_statuses
        \<and> texts_of (get_item e ''supporting_experiment_ids'') \<noteq> []
        \<and> length (texts_of (get_item e ''supporting_experiment_ids'')) \<le> 32
        \<and> distinct (texts_of (get_item e ''supporting_experiment_ids''))
        \<and> (\<forall>x\<in>set (texts_of (get_item e ''supporting_experiment_ids'')). backs evidence h j d assessment x))"

lemma check_support_backs:
  assumes "check_support evidence h j d assessment e = Inr ()"
  shows "backs evidence h j d assessment e"
proof -
  obtain x where x: "find_experiment h j e = Some x" "get_item x ''direction_id'' = VStr d"
    using assms by (auto simp: check_support_def split: option.splits if_split_asm)
  then obtain rs where rs: "validate_record_ids evidence (get_item x ''gateway_record_ids'') ''Experiment'' = Inr rs"
    "assessment = ''unresolved'' \<or> any_completed evidence rs = Inr True"
    using assms by (auto simp: check_support_def bind_res_Inr_iff guard_res_iff split: if_split_asm)
  from rs(2) completed_found have "assessment \<noteq> ''unresolved'' \<longrightarrow> (\<exists>r\<in>set rs. \<exists>g. evidence r = Inr g \<and> ge_completed g)"
    by blast
  with x records_Inr [OF rs(1)] show ?thesis unfolding backs_def by blast
qed

lemma closure_support_Inr:
  assumes "closure_support evidence h j d request = Inr supporting"
  shows "supporting = texts_of (get_item request ''supporting_experiment_ids'')" "closure_rests evidence h j d request"
proof -
  obtain a where a: "get_item request ''hypothesis_status'' = VStr a" "a \<in> set hypothesis_statuses"
    using assms by (auto simp: closure_support_def Let_def elim: is_strE split: if_split_asm)
  obtain us where u: "map_res (check_support evidence h j d a) supporting = Inr us" "supporting \<noteq> []" "length supporting \<le> 32"
    "distinct supporting" "read_texts (get_item request ''supporting_experiment_ids'') ''supporting_experiment_ids'' = Inr supporting"
    using assms a by (auto simp: closure_support_def Let_def bind_res_Inr_iff not_less Suc_le_eq split: if_split_asm)
  show t: "supporting = texts_of (get_item request ''supporting_experiment_ids'')" by (rule read_texts_of [OF u(5)])
  from u(1) check_support_backs have "\<forall>e\<in>set supporting. backs evidence h j d a e"
    by (fastforce simp: map_res_Inr_iff list_all2_conv_all_nth in_set_conv_nth)
  with a u(2-4) show "closure_rests evidence h j d request" unfolding t closure_rests_def by blast
qed

lemma recheck_rests:
  "recheck_closure evidence h j e = Inr () \<Longrightarrow> get_item e ''hypothesis_status'' \<noteq> VNull
     \<Longrightarrow> closure_rests evidence h j (str_of (get_item e ''direction_id'')) e"
  by (auto simp: recheck_closure_def bind_res_Inr_iff dest: closure_support_Inr(2))

section \<open>Reports\<close>

lemma selected_experiment_Inr:
  assumes "selected_experiment views j selected = Inr x"
  shows "filter (\<lambda>y. get_item y ''experiment_id'' = selected) (dicts_of j ''experiments'') = [x]"
    "\<exists>d v. get_item x ''direction_id'' = VStr d \<and> dict_get views d = Some v \<and> dv_status v \<in> set closed_statuses"
proof -
  let ?xs = "filter (\<lambda>y. get_item y ''experiment_id'' = selected) (dicts_of j ''experiments'')"
  obtain y where y: "?xs = [y]"
    using assms by (cases ?xs rule: remdups_adj.cases) (auto simp: selected_experiment_def split: if_split_asm)
  then have "x = y \<and> (\<exists>d. get_item y ''direction_id'' = VStr d \<and> dict_has views d \<and> dv_status (the (dict_get views d)) \<in> set closed_statuses)"
    using assms by (auto simp: selected_experiment_def Let_def elim!: is_strE split: if_split_asm)
  then show "?xs = [x]" "\<exists>d v. get_item x ''direction_id'' = VStr d \<and> dict_get views d = Some v \<and> dv_status v \<in> set closed_statuses"
    using y by (auto simp: dict_has_def)
qed

lemma researched_Inr:
  assumes "researched_report evidence sha256 snapshot h j ''candidate_ready'' selected = Inr (views, source)"
  obtains r x rs s where "direction_state h j = Inr r" "views = rp_views r" "\<forall>(d, v)\<in>set views. dv_status v \<noteq> ''in_progress''"
    "\<forall>e\<in>set (dicts_of j ''direction_events''). recheck_closure evidence h j e = Inr ()"
    "selected_experiment views j selected = Inr x"
    "validate_record_ids evidence (get_item x ''gateway_record_ids'') ''Experiment'' = Inr rs"
    "candidate_source evidence sha256 snapshot (ValueError (Msg ''selected Experiment must cite a passing Evaluate Gateway record'')) rs = Inr s"
    "source = Some s"
proof -
  obtain r us x rs s where r: "direction_state h j = Inr r" "views = rp_views r" "\<not> list_ex (\<lambda>(d, v). dv_status v = ''in_progress'') views"
    "map_res (recheck_closure evidence h j) (dicts_of j ''direction_events'') = Inr us"
    "selected_experiment views j selected = Inr x"
    "validate_record_ids evidence (get_item x ''gateway_record_ids'') ''Experiment'' = Inr rs"
    "candidate_source evidence sha256 snapshot (ValueError (Msg ''selected Experiment must cite a passing Evaluate Gateway record'')) rs = Inr s"
    "source = Some s"
    using assms by (auto simp: researched_report_def Let_def bind_res_Inr_iff split: if_split_asm)
  have "\<forall>(d, v)\<in>set views. dv_status v \<noteq> ''in_progress''" using r(3) by (auto simp: list_ex_iff)
  moreover have "\<forall>e\<in>set (dicts_of j ''direction_events''). recheck_closure evidence h j e = Inr ()"
    using r(4) by (auto simp: map_res_Inr_iff list_all2_conv_all_nth in_set_conv_nth)
  ultimately show thesis using r(1,2,5-8) by (intro that)
qed

lemma report_evidence_cases:
  assumes "validate_report_evidence evidence sha256 snapshot older (VDict j) status selected records = Inr (j, views, source)"
  obtains "get_item j ''research_records'' = VBool False" "unresearched_report evidence sha256 snapshot status selected records = Inr source"
  | h where "get_item j ''research_records'' \<noteq> VBool False" "visible_history older j = Inr h"
    "researched_report evidence sha256 snapshot h j status selected = Inr (views, source)"
proof -
  obtain c where c: "load_journal (VDict j) = Inr c" using assms by (auto simp: validate_report_evidence_def bind_res_Inr_iff)
  then have "c = j" by (rule load_journal_Inr)
  with assms c that show thesis by (auto simp: validate_report_evidence_def bind_res_Inr_iff split: if_split_asm)
qed

lemma seal_fields:
  "get_item (seal_journal sha256 j status outcome commit (Some source) (Some verdict) now raw) ''state'' = VStr status"
  "get_item (seal_journal sha256 j status outcome commit (Some source) (Some verdict) now raw) ''candidate_kernel_digest'' =
     VStr (''sha256:'' @ sha256 source)"
  "get_item (seal_journal sha256 j status outcome commit (Some source) (Some verdict) now raw) ''acceptance_checks'' =
     VDict [(''multi_seed_correctness'', verdict)]"
  "get_item (seal_journal sha256 j status outcome commit (Some source) (Some verdict) now raw) ''candidate_commit'' =
     (if truthy commit then commit else VNull)"
  "get_item (seal_journal sha256 j status outcome commit (Some source) (Some verdict) now raw) ''finalized_at'' = VStr now"
  by (simp_all add: seal_journal_def get_item_def dict_get_default_def dict_simps dict_wf_def map_add_def)

text \<open>The source of an accepted candidate was measured: a cited record is a passing evaluation of exactly its digest.\<close>

lemma accepted_source:
  assumes "validate_report_evidence evidence sha256 snapshot older (VDict j) ''candidate_ready'' selected records = Inr (j, views, source)"
  obtains s where "source = Some s" "snapshot = Inr s" "\<exists>r g. evidence r = Inr g \<and> passing_evaluate g (''sha256:'' @ sha256 s)"
  using assms
proof (cases rule: report_evidence_cases)
  case 1
  then obtain rs s where "candidate_source evidence sha256 snapshot (request_error ''candidate_evidence_mismatch'') rs = Inr s" "source = Some s"
    by (auto simp: unresearched_report_def bind_res_Inr_iff map_sum_Inr split: if_split_asm)
  with candidate_source_Inr [OF this(1)] show thesis by (intro that) blast+
next
  case (2 h)
  from 2(3) obtain r x rs s where "candidate_source evidence sha256 snapshot
      (ValueError (Msg ''selected Experiment must cite a passing Evaluate Gateway record'')) rs = Inr s" "source = Some s"
    by (rule researched_Inr)
  with candidate_source_Inr [OF this(1)] show thesis by (intro that) blast+
qed

lemma sealed_parts:
  assumes "submit_report env evidence sha256 snapshot fits older (VDict j) now raw = Inr j'"
    "get_item j ''state'' = VStr ''in_progress''" "get_item raw ''status'' = VStr ''candidate_ready''"
  shows "\<exists>source r g ctx verdict. snapshot = Inr source
     \<and> evidence r = Inr g \<and> passing_evaluate g (''sha256:'' @ sha256 source)
     \<and> re_validation env = Some ctx \<and> proven ctx source verdict
     \<and> get_item j' ''state'' = VStr ''candidate_ready''
     \<and> get_item j' ''candidate_kernel_digest'' = VStr (''sha256:'' @ sha256 source)
     \<and> get_item j' ''acceptance_checks'' = VDict [(''multi_seed_correctness'', verdict)]
     \<and> get_item j' ''finalized_at'' = VStr now
     \<and> (re_supervisor env \<longrightarrow> (\<exists>c. re_commit env source = Inr c
          \<and> get_item j' ''candidate_commit'' = (if c = [] then VNull else VStr c)))"
  using assms(1)
proof (cases rule: submit_report_cases)
  case 1
  with assms(2) show ?thesis by simp
next
  case (2 research)
  from 2(2) obtain status summary views source diagnostics checks commit outcome where
    a: "get_item raw ''status'' = VStr status"
    "validate_report_evidence evidence sha256 snapshot older (VDict j) status (get_item raw ''selected_experiment_id'')
       (get_item raw ''gateway_record_ids'') = Inr (j, views, source)"
    "measure_candidate env source = Inr checks"
    "commit_candidate env source (get_item raw ''candidate_commit'') = Inr commit"
    "j' = seal_journal sha256 j status outcome commit source checks now raw"
    by (rule accept_report_Inr)
  have status: "status = ''candidate_ready''" using a(1) assms(3) by simp
  from a(2) obtain s where s: "source = Some s" "snapshot = Inr s" "\<exists>r g. evidence r = Inr g \<and> passing_evaluate g (''sha256:'' @ sha256 s)"
    unfolding status by (rule accepted_source)
  from a(3) obtain ctx verdict where v: "re_validation env = Some ctx" "proven ctx s verdict" "checks = Some verdict"
    by (auto simp: measure_candidate_def s(1) map_sum_Inr dest: validate_candidate_proven split: option.splits)
  from s(3) obtain r g where g: "evidence r = Inr g" "passing_evaluate g (''sha256:'' @ sha256 s)" by blast
  have c: "re_supervisor env \<longrightarrow> (\<exists>c. re_commit env s = Inr c \<and> get_item j' ''candidate_commit'' = (if c = [] then VNull else VStr c))"
  proof
    assume "re_supervisor env"
    with a(4) obtain c where "re_commit env s = Inr c" "commit = VStr c" by (auto simp: commit_candidate_def s(1) map_sum_Inr)
    then show "\<exists>c. re_commit env s = Inr c \<and> get_item j' ''candidate_commit'' = (if c = [] then VNull else VStr c)"
      unfolding a(5) s(1) v(3) seal_fields by simp
  qed
  have "get_item j' ''state'' = VStr ''candidate_ready''" "get_item j' ''candidate_kernel_digest'' = VStr (''sha256:'' @ sha256 s)"
    "get_item j' ''acceptance_checks'' = VDict [(''multi_seed_correctness'', verdict)]" "get_item j' ''finalized_at'' = VStr now"
    unfolding a(5) s(1) v(3) status by (rule seal_fields)+
  with s(2) g v(1,2) c show ?thesis by blast
qed

section \<open>Properties\<close>

text \<open>C4: A sealed candidate is the one that was measured.  When a report with status \<open>candidate_ready\<close> finalizes a journal,
  the candidate source was readable, some gateway record is a completed, passing, standard evaluation of exactly its digest,
  and the supervisor's own validation has proven these bytes: a measurement of them exited with zero and passed, and its
  authoritative record binds their digest and covers all six correctness cases (the base case and five additional seeds) for
  Atrex-Bench, or all workloads of the official harness for SOL.  The stored journal holds that digest, the verdict naming that
  record and, when the supervisor owns Git, the commit made of the same bytes.\<close>

theorem report_sealed:
  assumes "submit_report env evidence sha256 snapshot fits older (VDict j) now raw = Inr j'"
    "get_item j ''state'' = VStr ''in_progress''" "get_item raw ''status'' = VStr ''candidate_ready''"
  shows "\<exists>source r g ctx verdict. snapshot = Inr source
     \<and> evidence r = Inr g \<and> passing_evaluate g (''sha256:'' @ sha256 source)
     \<and> re_validation env = Some ctx \<and> proven ctx source verdict
     \<and> get_item j' ''state'' = VStr ''candidate_ready''
     \<and> get_item j' ''candidate_kernel_digest'' = VStr (''sha256:'' @ sha256 source)
     \<and> get_item j' ''acceptance_checks'' = VDict [(''multi_seed_correctness'', verdict)]
     \<and> (re_supervisor env \<longrightarrow> (\<exists>c. re_commit env source = Inr c
          \<and> get_item j' ''candidate_commit'' = (if c = [] then VNull else VStr c)))"
  using sealed_parts [OF assms] by blast

theorem report_sealed_witness:
  "\<exists>j' source r g verdict. (Inr ''kernel'' :: exn + string) = Inr source
     \<and> demo_evidence r = Inr g \<and> passing_evaluate g (''sha256:'' @ demo_digest) \<and> proven demo_validation source verdict
     \<and> get_item j' ''candidate_kernel_digest'' = VStr (''sha256:'' @ demo_digest)
     \<and> get_item j' ''acceptance_checks'' = VDict [(''multi_seed_correctness'', verdict)]
     \<and> get_item j' ''candidate_commit'' = VStr ''commit''"
proof -
  obtain j' where j': "submit_report demo_env demo_evidence (\<lambda>_. demo_digest) (Inr ''kernel'') (\<lambda>_. True) [] (VDict (demo_journal False [] []))
      ''now'' demo_report = Inr j'"
    using demo_reports [of demo_env] by (auto simp: is_ok_iff demo_env_def)
  have "get_item (demo_journal False [] []) ''state'' = VStr ''in_progress''" "get_item demo_report ''status'' = VStr ''candidate_ready''"
    by (simp_all add: demo_fields demo_report_def get_item_def [of "_ # _"] dict_get_default_def)
  from report_sealed [OF j' this] obtain source r g ctx verdict where s: "(Inr ''kernel'' :: exn + string) = Inr source"
    "demo_evidence r = Inr g" "passing_evaluate g (''sha256:'' @ demo_digest)" "re_validation demo_env = Some ctx" "proven ctx source verdict"
    "get_item j' ''candidate_kernel_digest'' = VStr (''sha256:'' @ demo_digest)"
    "get_item j' ''acceptance_checks'' = VDict [(''multi_seed_correctness'', verdict)]"
    "re_supervisor demo_env \<longrightarrow> (\<exists>c. re_commit demo_env source = Inr c
          \<and> get_item j' ''candidate_commit'' = (if c = [] then VNull else VStr c))" by blast
  from s(4,8) have "ctx = demo_validation" "get_item j' ''candidate_commit'' = VStr ''commit''" by (simp_all add: demo_env_def)
  with s(1-3,5-7) show ?thesis by blast
qed

text \<open>C29: A candidate is selected from finished research.  While research records are on (the journal does not switch them off),
  an accepted \<open>candidate_ready\<close> report leaves no direction of the replayed state in progress; every closure event of the
  episode still names an assessment and different visible experiments of its direction whose own gateway records back it; and
  the report names exactly one experiment of the episode, whose direction is closed and whose own records include the passing
  evaluation of the candidate source.\<close>

theorem report_backed:
  assumes "validate_report_evidence evidence sha256 snapshot older (VDict j) ''candidate_ready'' selected records = Inr (j, views, source)"
    "get_item j ''research_records'' \<noteq> VBool False"
  shows "\<exists>h st x d v s. visible_history older j = Inr h \<and> direction_state h j = Inr st \<and> views = rp_views st
     \<and> (\<forall>(d, v)\<in>set views. dv_status v \<noteq> ''in_progress'')
     \<and> (\<forall>e\<in>set (dicts_of j ''direction_events''). get_item e ''hypothesis_status'' \<noteq> VNull \<longrightarrow>
          closure_rests evidence h j (str_of (get_item e ''direction_id'')) e)
     \<and> filter (\<lambda>y. get_item y ''experiment_id'' = selected) (dicts_of j ''experiments'') = [x]
     \<and> get_item x ''direction_id'' = VStr d \<and> dict_get views d = Some v \<and> dv_status v \<in> set closed_statuses
     \<and> source = Some s
     \<and> (\<exists>r\<in>set (texts_of (get_item x ''gateway_record_ids'')). \<exists>g. evidence r = Inr g \<and> passing_evaluate g (''sha256:'' @ sha256 s))"
  using assms(1)
proof (cases rule: report_evidence_cases)
  case 1
  with assms(2) show ?thesis by simp
next
  case (2 h)
  from 2(3) obtain st x rs s where r: "direction_state h j = Inr st" "views = rp_views st"
    "\<forall>(d, v)\<in>set views. dv_status v \<noteq> ''in_progress''"
    "\<forall>e\<in>set (dicts_of j ''direction_events''). recheck_closure evidence h j e = Inr ()"
    "selected_experiment views j selected = Inr x"
    "validate_record_ids evidence (get_item x ''gateway_record_ids'') ''Experiment'' = Inr rs"
    "candidate_source evidence sha256 snapshot (ValueError (Msg ''selected Experiment must cite a passing Evaluate Gateway record'')) rs = Inr s"
    "source = Some s"
    by (rule researched_Inr)
  have closures: "\<forall>e\<in>set (dicts_of j ''direction_events''). get_item e ''hypothesis_status'' \<noteq> VNull \<longrightarrow>
      closure_rests evidence h j (str_of (get_item e ''direction_id'')) e"
    using r(4) recheck_rests by blast
  from 2(2) r(1-3,8) closures selected_experiment_Inr [OF r(5)] candidate_source_Inr(2) [OF r(7)] records_Inr(1) [OF r(6)]
  show ?thesis by blast
qed

theorem report_backed_witness:
  "\<exists>h x d v. visible_history [] (demo_journal True [VDict demo_proposal, VDict demo_start, VDict demo_complete] [VDict demo_row]) = Inr h
     \<and> (\<forall>e\<in>set (dicts_of (demo_journal True [VDict demo_proposal, VDict demo_start, VDict demo_complete] [VDict demo_row])
          ''direction_events''). get_item e ''hypothesis_status'' \<noteq> VNull \<longrightarrow>
          closure_rests demo_evidence h (demo_journal True [VDict demo_proposal, VDict demo_start, VDict demo_complete] [VDict demo_row])
            (str_of (get_item e ''direction_id'')) e)
     \<and> filter (\<lambda>y. get_item y ''experiment_id'' = VStr demo_experiment)
          (dicts_of (demo_journal True [VDict demo_proposal, VDict demo_start, VDict demo_complete] [VDict demo_row]) ''experiments'') = [x]
     \<and> get_item x ''direction_id'' = VStr d
     \<and> dict_get [(demo_direction, demo_view ''completed'' [demo_experiment])] d = Some v \<and> dv_status v \<in> set closed_statuses
     \<and> (\<exists>r\<in>set (texts_of (get_item x ''gateway_record_ids'')). \<exists>g. demo_evidence r = Inr g \<and> passing_evaluate g (''sha256:'' @ demo_digest))"
proof -
  have "get_item (demo_journal True [VDict demo_proposal, VDict demo_start, VDict demo_complete] [VDict demo_row]) ''research_records''
      \<noteq> VBool False" by (simp add: demo_fields)
  from report_backed [OF demo_validates this] show ?thesis by (elim exE conjE) (intro exI conjI; assumption)
qed

text \<open>C19: A closed direction rests on its own measurements.  When an update that completes, abandons, blocks or defers a direction
  is accepted, the request names an assessment and between one and 32 different visible experiments of that direction; the
  gateway records each of these experiments cites, and no others, bind real kernels, and a verdict \<open>supported\<close> or
  \<open>refuted\<close> needs a completed result among the records of every one of them.  The event appended to the journal names
  this direction, these experiments and this assessment.\<close>

theorem closure_backed:
  assumes "update_direction evidence fits older (VDict j) st request = Inr j'"
    "get_item request ''action'' = VStr act" "act \<in> set closures"
  shows "\<exists>h e. visible_history older j = Inr h
     \<and> closure_rests evidence h j (py_strip (str_of (get_item request ''direction_id''))) request
     \<and> j' = append_item ''direction_events'' (VDict e) j
     \<and> get_item e ''direction_id'' = VStr (py_strip (str_of (get_item request ''direction_id'')))
     \<and> get_item e ''supporting_experiment_ids'' = VList (map VStr (texts_of (get_item request ''supporting_experiment_ids'')))
     \<and> get_item e ''hypothesis_status'' = get_item request ''hypothesis_status''"
proof -
  from assms(1) obtain j0 h r e where u: "mutable_journal (VDict j) = Inr j0" "visible_history older j0 = Inr h"
    "(if get_item request ''action'' = VStr ''propose'' then proposal_event h j0 r (started_ids j0) st request
      else lifecycle_event evidence h j0 r (started_ids j0) st request) = Inr e"
    "j' = append_item ''direction_events'' (VDict e) j0"
    by (rule update_direction_Inr)
  from u(1) have j0: "j0 = j" by (auto dest: mutable_Inr)
  have le: "lifecycle_event evidence h j r (started_ids j) st request = Inr e"
    using u(3) assms(2,3) by (auto simp: j0 closures_def split: if_split_asm)
  then obtain act' d statuses sd supporting analysis where l: "get_item request ''action'' = VStr act'"
    "supporting = [] \<and> act' \<notin> set closures \<or> act' \<in> set closures \<and> closure_support evidence h j d request = Inr supporting"
    "e = [(''direction_event_id'', VStr (st_event st)), (''direction_id'', VStr d), (''action'', VStr act'),
       (''analysis'', VStr analysis), (''recorded_at'', VStr (st_now st)),
       (''supporting_experiment_ids'', VList (map VStr supporting)),
       (''hypothesis_status'', get_item request ''hypothesis_status'')]"
    by (rule lifecycle_parts)
  have "closure_support evidence h j d request = Inr supporting" using l(1,2) assms(2,3) by auto
  note support = closure_support_Inr [OF this]
  have e: "get_item e ''direction_id'' = VStr d" "get_item e ''supporting_experiment_ids'' = VList (map VStr supporting)"
    "get_item e ''hypothesis_status'' = get_item request ''hypothesis_status''"
    by (simp_all add: l(3) get_item_def [of "_ # _"] dict_get_default_def)
  moreover have "d = py_strip (str_of (get_item request ''direction_id''))" using e(1) lifecycle_direction [OF le] by simp
  ultimately show ?thesis using u(2,4) support unfolding j0 by blast
qed

theorem closure_backed_witness:
  "\<exists>h e. visible_history [] (demo_journal True [VDict demo_proposal, VDict demo_start] [VDict demo_row]) = Inr h
     \<and> closure_rests demo_evidence h (demo_journal True [VDict demo_proposal, VDict demo_start] [VDict demo_row])
          (py_strip (str_of (get_item (demo_request ''complete'' demo_closing) ''direction_id''))) (demo_request ''complete'' demo_closing)
     \<and> demo_journal True [VDict demo_proposal, VDict demo_start, VDict demo_complete] [VDict demo_row] =
          append_item ''direction_events'' (VDict e) (demo_journal True [VDict demo_proposal, VDict demo_start] [VDict demo_row])"
proof -
  have "get_item (demo_request ''complete'' demo_closing) ''action'' = VStr ''complete''" "''complete'' \<in> set closures"
    by (simp_all add: demo_request_def get_item_def dict_get_default_def closures_def)
  from closure_backed [OF demo_closes this] show ?thesis by blast
qed

text \<open>A finalized journal is closed.  Once the state is not \<open>in_progress\<close>, no direction update and no experiment is accepted,
  and a report is either refused or, when it repeats the accepted one, leaves the journal as it is.\<close>

theorem finalized_closed:
  assumes "get_item j ''state'' \<noteq> VStr ''in_progress''"
  shows "\<not> is_ok (update_direction evidence fits older (VDict j) st request)
     \<and> \<not> is_ok (record_experiment evidence fits attribution older (VDict j) st request)
     \<and> (submit_report env evidence sha256 snapshot fits older (VDict j) now raw = Inr j' \<longrightarrow>
          j' = j \<and> py_eq (get_item j ''submitted_report'') (VDict raw))"
  using assms by (auto simp: is_ok_iff elim!: update_direction_Inr record_experiment_Inr submit_report_cases dest: mutable_Inr)

theorem finalized_closed_witness:
  "\<not> is_ok (update_direction demo_evidence (\<lambda>_. True) [] (VDict [(''state'', VStr ''pivot'')]) (demo_stamps demo_direction) demo_propose)"
proof -
  have "get_item [(''state'', VStr ''pivot'')] ''state'' \<noteq> VStr ''in_progress''" by (simp add: get_item_def dict_get_default_def)
  then show ?thesis by (rule finalized_closed [THEN conjunct1])
qed

end
