(* ===== verification/History_Cache.thy ===== *)
theory History_Cache
  imports Journals
begin

text \<open>
  The process-local cache of the replayed history (\<open>_HistoryIndex\<close> and \<open>_visible_history\<close> in
  src/src/aka/light/workflow/journal_service.py) for one campaign.  The campaign directory is a list of episode numbers with
  their stored values in the order of their names; the bound of 16 cached campaigns is not modelled.
\<close>

section \<open>The index\<close>

record history_index =
  ix_next :: nat
  ix_history :: history
  ix_pending :: "nat list"

definition empty_index :: history_index where
  "empty_index = \<lparr>ix_next = 0, ix_history = no_history, ix_pending = []\<rparr>"

definition index_entry :: "history_index \<Rightarrow> nat \<times> pyval \<Rightarrow> exn + history_index" where
  \<comment> \<open>\<open>_index_historical_journal\<close> with its set of unfinished episodes\<close>
  "index_entry ix entry =
     bind_res (index_historical_journal (ix_history ix) entry) (\<lambda>h.
     case load_journal (snd entry) of
       Inl e \<Rightarrow> Inl e
     | Inr journal \<Rightarrow>
         if truthy (get_item journal ''finalized_at'') then Inr (ix\<lparr>ix_history := h\<rparr>)
         else Inr (ix\<lparr>ix_pending := ix_pending ix @ [fst entry]\<rparr>))"

definition build_index :: "history_index \<Rightarrow> (nat \<times> pyval) list \<Rightarrow> nat \<Rightarrow> exn + history_index" where
  \<comment> \<open>ingest the episodes from \<open>ix_next\<close> up to \<open>episode\<close>\<close>
  "build_index ix store episode =
     bind_res (fold_res index_entry ix (filter (\<lambda>(n, _). ix_next ix \<le> n \<and> n < episode) store)) (\<lambda>ix'.
     Inr (ix'\<lparr>ix_next := episode\<rparr>))"

definition pending_changed :: "(nat \<times> pyval) list \<Rightarrow> nat \<Rightarrow> bool" where
  \<comment> \<open>the unfinished episode is gone, unreadable or finished by now\<close>
  "pending_changed store n =
     (case map_of store n of
        None \<Rightarrow> True
      | Some v \<Rightarrow>
          (case load_journal v of Inl _ \<Rightarrow> True | Inr journal \<Rightarrow> truthy (get_item journal ''finalized_at'')))"

definition cached_index ::
  "history_index option \<Rightarrow> (nat \<times> pyval) list \<Rightarrow> nat \<Rightarrow> exn + history_index \<times> history_index option" where
  \<comment> \<open>the index the request reads, and the one that stays published\<close>
  "cached_index cache store episode =
     (let older_snapshot = (case cache of None \<Rightarrow> False | Some ix \<Rightarrow> episode < ix_next ix);
          rebuild = (case cache of None \<Rightarrow> True | Some ix \<Rightarrow> older_snapshot \<or> list_ex (pending_changed store) (ix_pending ix)) in
      if rebuild
      then bind_res (build_index empty_index store episode) (\<lambda>ix. Inr (ix, if older_snapshot then cache else Some ix))
      else case cache of
        None \<Rightarrow> Inl (state_error ''unreachable'')
      | Some ix \<Rightarrow>
          if episode > ix_next ix
          then bind_res (build_index ix store episode) (\<lambda>ix'. Inr (ix', Some ix'))
          else Inr (ix, cache))"

definition cached_history ::
  "history_index option \<Rightarrow> (nat \<times> pyval) list \<Rightarrow> pyval dict \<Rightarrow> exn + history \<times> history_index option" where
  "cached_history cache store current =
     (case get_item current ''episode'' of
        VInt n \<Rightarrow>
          if n < 0 then Inl (state_error ''Runtime Journal has an invalid Episode identity'')
          else bind_res (cached_index cache store (nat n)) (\<lambda>(ix, cache'). Inr (ix_history ix, cache'))
      | _ \<Rightarrow> Inl (state_error ''Runtime Journal has an invalid Episode identity''))"

section \<open>What an index stands for\<close>

definition index_of :: "history_index \<Rightarrow> (nat \<times> pyval) list \<Rightarrow> bool" where
  \<comment> \<open>the index of the episodes before \<open>ix_next\<close> of this directory\<close>
  "index_of ix store \<longleftrightarrow> build_index empty_index store (ix_next ix) = Inr ix"

definition finished_kept :: "history_index \<Rightarrow> (nat \<times> pyval) list \<Rightarrow> (nat \<times> pyval) list \<Rightarrow> bool" where
  \<comment> \<open>since it was built, no journal was added to or changed among the finished ones it covers, and an unfinished one that
    is still unfinished carries its own number\<close>
  "finished_kept ix store0 store \<longleftrightarrow>
     filter (\<lambda>(n, _). n < ix_next ix \<and> n \<notin> set (ix_pending ix)) store = filter (\<lambda>(n, _). n < ix_next ix \<and> n \<notin> set (ix_pending ix)) store0
     \<and> (\<forall>(n, v)\<in>set store. n \<in> set (ix_pending ix) \<longrightarrow> (\<forall>j. load_journal v = Inr j \<longrightarrow> py_eq (get_item j ''episode'') (VInt (int n))))"

definition sorted_store :: "(nat \<times> pyval) list \<Rightarrow> bool" where
  "sorted_store store \<longleftrightarrow> sorted_wrt (<) (map fst store)"

lemma index_entry_history:
  "index_entry ix entry = Inr ix' \<Longrightarrow> index_historical_journal (ix_history ix) entry = Inr (ix_history ix')"
  by (auto simp: index_entry_def index_historical_journal_def bind_res_Inr_iff split: sum.splits if_split_asm)

lemma index_entry_ok:
  "index_historical_journal (ix_history ix) entry = Inr h \<Longrightarrow> \<exists>ix'. index_entry ix entry = Inr ix' \<and> ix_history ix' = h"
  by (auto simp: index_entry_def index_historical_journal_def split: sum.splits if_split_asm)

lemma index_entry_Inl: "index_historical_journal (ix_history ix) entry = Inl e \<Longrightarrow> index_entry ix entry = Inl e"
  by (simp add: index_entry_def)

lemma fold_index: "fold_res index_historical_journal (ix_history ix) es = map_sum id ix_history (fold_res index_entry ix es)"
proof (induction es arbitrary: ix)
  case (Cons e es)
  show ?case
  proof (cases "index_historical_journal (ix_history ix) e")
    case (Inl x)
    with index_entry_Inl [OF this] show ?thesis by simp
  next
    case (Inr h)
    then obtain ix' where "index_entry ix e = Inr ix'" "ix_history ix' = h" using index_entry_ok by blast
    with Inr Cons.IH [of ix'] show ?thesis by simp
  qed
qed simp

lemma build_history:
  "fold_res index_historical_journal (ix_history ix) (filter (\<lambda>(n, _). ix_next ix \<le> n \<and> n < episode) store) =
     map_sum id ix_history (build_index ix store episode)"
  unfolding fold_index build_index_def by (cases "fold_res index_entry ix (filter (\<lambda>(n, _). ix_next ix \<le> n \<and> n < episode) store)") simp_all

section \<open>Finished and unfinished episodes\<close>

definition unfinished :: "nat \<times> pyval \<Rightarrow> bool" where
  "unfinished e \<longleftrightarrow> (\<exists>j. load_journal (snd e) = Inr j \<and> \<not> truthy (get_item j ''finalized_at''))"

definition own_number :: "nat \<times> pyval \<Rightarrow> bool" where
  "own_number e \<longleftrightarrow> (\<forall>j. load_journal (snd e) = Inr j \<longrightarrow> py_eq (get_item j ''episode'') (VInt (int (fst e))))"

lemma index_entry_iff:
  "index_entry ix e = Inr ix' \<longleftrightarrow>
     (if unfinished e then own_number e \<and> ix' = ix\<lparr>ix_pending := ix_pending ix @ [fst e]\<rparr>
      else \<exists>h. index_historical_journal (ix_history ix) e = Inr h \<and> ix' = ix\<lparr>ix_history := h\<rparr>)"
  by (auto simp: index_entry_def index_historical_journal_def unfinished_def own_number_def bind_res_Inr_iff split: sum.splits if_split_asm)

lemma fold_entry_iff:
  "fold_res index_entry ix es = Inr ix' \<longleftrightarrow>
     (\<forall>e\<in>set (filter unfinished es). own_number e)
     \<and> fold_res index_historical_journal (ix_history ix) (filter (Not \<circ> unfinished) es) = Inr (ix_history ix')
     \<and> ix_pending ix' = ix_pending ix @ map fst (filter unfinished es) \<and> ix_next ix' = ix_next ix"
proof (induction es arbitrary: ix)
  case Nil
  then show ?case by (auto intro: history_index.equality)
next
  case (Cons e es)
  then show ?case by (auto simp: bind_res_Inr_iff index_entry_iff)
qed

definition before :: "nat \<Rightarrow> (nat \<times> pyval) list \<Rightarrow> (nat \<times> pyval) list" where
  "before m store = filter (\<lambda>(n, _). n < m) store"

lemma index_of_iff:
  "index_of ix store \<longleftrightarrow> (\<forall>e\<in>set (filter unfinished (before (ix_next ix) store)). own_number e)
     \<and> fold_res index_historical_journal no_history (filter (Not \<circ> unfinished) (before (ix_next ix) store)) = Inr (ix_history ix)
     \<and> ix_pending ix = map fst (filter unfinished (before (ix_next ix) store))"
proof -
  have "index_of ix store \<longleftrightarrow> fold_res index_entry empty_index (before (ix_next ix) store) = Inr (ix\<lparr>ix_next := 0\<rparr>)"
  proof
    assume "index_of ix store"
    then obtain ix' where "fold_res index_entry empty_index (before (ix_next ix) store) = Inr ix'" "ix = ix'\<lparr>ix_next := ix_next ix\<rparr>"
      by (auto simp: index_of_def build_index_def before_def empty_index_def bind_res_Inr_iff)
    moreover from this(1) have "ix_next ix' = 0" by (simp add: fold_entry_iff empty_index_def)
    ultimately show "fold_res index_entry empty_index (before (ix_next ix) store) = Inr (ix\<lparr>ix_next := 0\<rparr>)"
      by (metis history_index.surjective history_index.update_convs(1))
  qed (simp add: index_of_def build_index_def before_def empty_index_def)
  then show ?thesis by (simp add: fold_entry_iff empty_index_def)
qed

lemma sorted_before: "sorted_store store \<Longrightarrow> sorted_wrt (<) (map fst (filter P (before m store)))"
  unfolding sorted_store_def before_def by (induction store) auto

lemma store_unique: "sorted_store store \<Longrightarrow> (n, v) \<in> set store \<Longrightarrow> map_of store n = Some v"
  unfolding sorted_store_def by (metis map_of_is_SomeI strict_sorted_iff)

text \<open>As long as its unfinished episodes are unfinished, the index of an earlier directory is that of the present one.\<close>

lemma index_rebase:
  assumes "index_of ix store0" "finished_kept ix store0 store" "sorted_store store0" "sorted_store store"
    "\<not> list_ex (pending_changed store) (ix_pending ix)"
  shows "index_of ix store"
proof -
  let ?P = "set (ix_pending ix)"
  note i = assms(1) [unfolded index_of_iff]
  have still: "\<exists>v. (n, v) \<in> set store \<and> unfinished (n, v)" if n: "n \<in> ?P" for n
  proof -
    from n assms(5) have "\<not> pending_changed store n" by (auto simp: list_ex_iff)
    then obtain v j where "map_of store n = Some v" "load_journal v = Inr j" "\<not> truthy (get_item j ''finalized_at'')"
      by (auto simp: pending_changed_def split: option.splits sum.splits)
    then show ?thesis by (auto simp: unfinished_def dest: map_of_SomeD)
  qed
  have in0: "n < ix_next ix" if "n \<in> ?P" for n using that i by (auto simp: before_def)
  have iff: "unfinished (n, v) \<longleftrightarrow> n \<in> ?P" if nv: "(n, v) \<in> set (before (ix_next ix) store)" for n v
  proof
    assume u: "unfinished (n, v)"
    show "n \<in> ?P"
    proof (rule ccontr)
      assume "n \<notin> ?P"
      with nv have "(n, v) \<in> set (filter (\<lambda>(n, _). n < ix_next ix \<and> n \<notin> ?P) store0)"
        using assms(2) [unfolded finished_kept_def, THEN conjunct1, symmetric] by (simp add: before_def)
      with u i have "n \<in> ?P" by (force simp: before_def)
      with \<open>n \<notin> ?P\<close> show False ..
    qed
  next
    assume "n \<in> ?P"
    then obtain w where "(n, w) \<in> set store" "unfinished (n, w)" using still by blast
    moreover from nv have "(n, v) \<in> set store" by (simp add: before_def)
    ultimately have "v = w" using store_unique [OF assms(4), of n v] store_unique [OF assms(4), of n w] by auto
    with \<open>unfinished (n, w)\<close> show "unfinished (n, v)" by simp
  qed
  have "ix_pending ix = map fst (filter unfinished (before (ix_next ix) store))"
  proof (rule strict_sorted_equal)
    show "sorted_wrt (<) (ix_pending ix)" using i sorted_before [OF assms(3)] by simp
    show "sorted_wrt (<) (map fst (filter unfinished (before (ix_next ix) store)))" by (rule sorted_before [OF assms(4)])
    show "?P = set (map fst (filter unfinished (before (ix_next ix) store)))"
      using iff still in0 by (force simp: before_def)
  qed
  moreover have "filter (Not \<circ> unfinished) (before (ix_next ix) store) = filter (Not \<circ> unfinished) (before (ix_next ix) store0)"
  proof -
    have "filter (Not \<circ> unfinished) (before (ix_next ix) store) = filter (\<lambda>(n, _). n < ix_next ix \<and> n \<notin> ?P) store"
      using iff by (auto simp: before_def intro!: filter_cong)
    also have "\<dots> = filter (\<lambda>(n, _). n < ix_next ix \<and> n \<notin> ?P) store0" using assms(2) by (simp add: finished_kept_def)
    also have "\<dots> = filter (Not \<circ> unfinished) (before (ix_next ix) store0)"
    proof -
      have "unfinished (n, v) \<longleftrightarrow> n \<in> ?P" if "(n, v) \<in> set (before (ix_next ix) store0)" for n v
      proof
        assume "unfinished (n, v)"
        with that have "(n, v) \<in> set (filter unfinished (before (ix_next ix) store0))" by simp
        then have "fst (n, v) \<in> set (map fst (filter unfinished (before (ix_next ix) store0)))" unfolding set_map by (rule imageI)
        with i show "n \<in> ?P" by simp
      next
        assume "n \<in> ?P"
        then obtain w where w: "(n, w) \<in> set (before (ix_next ix) store0)" "unfinished (n, w)" using i by auto
        then have "v = w"
          using store_unique [OF assms(3), of n v] store_unique [OF assms(3), of n w] that by (simp add: before_def)
        with w(2) show "unfinished (n, v)" by simp
      qed
      then show ?thesis by (auto simp: before_def intro!: filter_cong)
    qed
    finally show ?thesis .
  qed
  moreover have "own_number e" if e: "e \<in> set (filter unfinished (before (ix_next ix) store))" for e
  proof -
    obtain n v where nv: "e = (n, v)" by (cases e)
    with e have b: "(n, v) \<in> set (before (ix_next ix) store)" "unfinished (n, v)" by simp_all
    then have "n \<in> ?P" "(n, v) \<in> set store" using iff by (auto simp: before_def)
    then show ?thesis using assms(2) by (auto simp: own_number_def finished_kept_def nv)
  qed
  ultimately show ?thesis using i by (simp add: index_of_iff)
qed

lemma before_split:
  assumes "sorted_store store" "k \<le> m"
  shows "before m store = before k store @ filter (\<lambda>(n, _). k \<le> n \<and> n < m) store"
  using assms
proof (induction store)
  case (Cons e store)
  obtain a b where e: "e = (a, b)" by (cases e)
  from Cons.prems have s: "sorted_store store" "\<forall>(n, _)\<in>set store. a < n" by (auto simp: sorted_store_def e)
  have "before k store = []" if "k \<le> a" using s(2) that by (force simp: before_def filter_empty_conv)
  with Cons.IH [OF s(1) Cons.prems(2)] Cons.prems(2) show ?case by (auto simp: before_def e)
qed (simp add: before_def)

lemma index_entry_next:
  "fold_res index_entry (ix\<lparr>ix_next := k\<rparr>) es = map_sum id (\<lambda>i. i\<lparr>ix_next := k\<rparr>) (fold_res index_entry ix es)"
proof (induction es arbitrary: ix)
  case (Cons e es)
  have "index_entry (ix\<lparr>ix_next := k\<rparr>) e = map_sum id (\<lambda>i. i\<lparr>ix_next := k\<rparr>) (index_entry ix e)"
    by (cases "index_historical_journal (ix_history ix) e") (auto simp: index_entry_def split: sum.splits)
  with Cons show ?case by (cases "index_entry ix e") auto
qed simp

lemma index_extend:
  assumes "index_of ix store" "ix_next ix \<le> m" "sorted_store store"
  shows "build_index empty_index store m = build_index ix store m"
proof -
  obtain ix0 where ix0: "fold_res index_entry empty_index (before (ix_next ix) store) = Inr ix0" "ix = ix0\<lparr>ix_next := ix_next ix\<rparr>"
    using assms(1) by (auto simp: index_of_def build_index_def before_def empty_index_def bind_res_Inr_iff)
  let ?rest = "filter (\<lambda>(n, _). ix_next ix \<le> n \<and> n < m) store"
  have "fold_res index_entry ix ?rest = map_sum id (\<lambda>i. i\<lparr>ix_next := ix_next ix\<rparr>) (fold_res index_entry ix0 ?rest)"
    using index_entry_next [where ix = ix0 and k = "ix_next ix" and es = ?rest] ix0(2) by simp
  then have "build_index ix store m = bind_res (fold_res index_entry ix0 ?rest) (\<lambda>i. Inr (i\<lparr>ix_next := m\<rparr>))"
    by (cases "fold_res index_entry ix0 ?rest") (simp_all add: build_index_def)
  moreover have "build_index empty_index store m = bind_res (fold_res index_entry empty_index (before m store)) (\<lambda>i. Inr (i\<lparr>ix_next := m\<rparr>))"
    by (simp add: build_index_def before_def empty_index_def)
  ultimately show ?thesis by (simp add: before_split [OF assms(3,2)] fold_res_append ix0(1))
qed

definition cache_valid :: "history_index option \<Rightarrow> (nat \<times> pyval) list \<Rightarrow> (nat \<times> pyval) list \<Rightarrow> bool" where
  \<comment> \<open>a published index was built from the directory as it was earlier, \<open>store0\<close>\<close>
  "cache_valid cache store0 store \<longleftrightarrow>
     (case cache of None \<Rightarrow> True | Some ix \<Rightarrow> index_of ix store0 \<and> finished_kept ix store0 store)"

text \<open>Whatever the cache holds, the request reads the index a full rebuild would give, and a published index is again one of
  this directory.\<close>

lemma cached_index_eq:
  assumes "cache_valid cache store0 store" "sorted_store store0" "sorted_store store"
  shows "map_sum id fst (cached_index cache store m) = build_index empty_index store m"
proof (cases cache)
  case None
  then show ?thesis by (cases "build_index empty_index store m") (simp_all add: cached_index_def)
next
  case (Some ix)
  show ?thesis
  proof (cases "m < ix_next ix \<or> list_ex (pending_changed store) (ix_pending ix)")
    case True
    with Some show ?thesis by (cases "build_index empty_index store m") (auto simp: cached_index_def)
  next
    case False
    with Some assms(1) have ix: "index_of ix store"
      by (intro index_rebase [OF _ _ assms(2,3)]) (simp_all add: cache_valid_def)
    then have e: "build_index empty_index store m = build_index ix store m" using False assms(3) by (intro index_extend [OF ix]) simp_all
    show ?thesis
    proof (cases "ix_next ix < m")
      case True
      with False Some e show ?thesis by (cases "build_index ix store m") (simp_all add: cached_index_def)
    next
      case False2: False
      with False have "m = ix_next ix" by simp
      with ix False Some show ?thesis by (simp add: cached_index_def index_of_def)
    qed
  qed
qed

lemma build_index_of: "build_index empty_index store m = Inr ix \<Longrightarrow> index_of ix store"
  by (auto simp: index_of_def build_index_def bind_res_Inr_iff)

lemma cached_published:
  assumes "cached_index cache store m = Inr (ix, cache')" "cache_valid cache store0 store"
    "sorted_store store0" "sorted_store store"
  shows "cache' = cache \<or> (\<exists>ix'. cache' = Some ix' \<and> index_of ix' store)"
proof -
  have "build_index empty_index store m = Inr ix" using cached_index_eq [where m = m, OF assms(2-4)] assms(1) by simp
  then have "index_of ix store" by (rule build_index_of)
  moreover have "cache' = cache \<or> cache' = Some ix"
    using assms(1) by (auto simp: cached_index_def Let_def bind_res_Inr_iff split: if_split_asm option.splits)
  ultimately show ?thesis by auto
qed

definition cache_journal :: "nat \<Rightarrow> pyval \<Rightarrow> pyval dict" where
  "cache_journal n finalized = [(''schema_version'', VInt 2), (''runtime_managed'', VBool True), (''episode'', VInt (int n)),
     (''direction_events'', VList []), (''experiments'', VList []), (''finalized_at'', finalized)]"

section \<open>Properties\<close>

text \<open>C32: The history cache is invisible.  Let the published index be one of the campaign directory at an earlier time, and let
  no finished journal it covers have changed since.  Then every request gets from the cache exactly the history, or the
  error, that replaying all earlier episodes would give, also when unfinished episodes were finished, removed or damaged in
  between and when an older episode asks; and whatever the request publishes is again an index of the directory.\<close>

theorem cache_transparent:
  assumes "cache_valid cache store0 store" "sorted_store store0" "sorted_store store"
  shows "map_sum id fst (cached_history cache store current) = visible_history store current
     \<and> (\<forall>h cache'. cached_history cache store current = Inr (h, cache') \<longrightarrow> cache' = cache \<or> (\<exists>ix. cache' = Some ix \<and> index_of ix store))"
proof (cases "\<exists>n. get_item current ''episode'' = VInt n \<and> 0 \<le> n")
  case False
  then show ?thesis by (auto simp: cached_history_def visible_history_def split: pyval.splits)
next
  case True
  then obtain m where m: "get_item current ''episode'' = VInt (int m)" by (metis nonneg_int_cases)
  have "fold_res index_historical_journal no_history (filter (\<lambda>(k, _). int k < int m) store) =
      map_sum id ix_history (build_index empty_index store m)"
    using build_history [of empty_index m store] by (simp add: empty_index_def)
  then have "map_sum id fst (cached_history cache store current) = visible_history store current"
    using cached_index_eq [OF assms, of m, symmetric]
    by (cases "cached_index cache store m") (auto simp: cached_history_def visible_history_def m)
  moreover have "cache' = cache \<or> (\<exists>ix. cache' = Some ix \<and> index_of ix store)"
    if "cached_history cache store current = Inr (h, cache')" for h cache'
    using that cached_published [OF _ assms] by (auto simp: cached_history_def m bind_res_Inr_iff)
  ultimately show ?thesis by blast
qed

theorem cache_transparent_witness:
  "map_sum id fst (cached_history (Some \<lparr>ix_next = 3, ix_history = no_history, ix_pending = [2]\<rparr>)
       [(1, VDict (cache_journal 1 (VStr ''now''))), (2, VDict (cache_journal 2 (VStr ''now'')))] (cache_journal 3 VNull)) =
     visible_history [(1, VDict (cache_journal 1 (VStr ''now''))), (2, VDict (cache_journal 2 (VStr ''now'')))] (cache_journal 3 VNull)"
proof -
  have l: "load_journal (VDict (cache_journal n f)) = Inr (cache_journal n f)" "get_item (cache_journal n f) ''episode'' = VInt (int n)"
    "get_item (cache_journal n f) ''finalized_at'' = f" "items_of (cache_journal n f) ''direction_events'' = []"
    "items_of (cache_journal n f) ''experiments'' = []" for n f
    by (simp_all add: cache_journal_def load_journal_def get_item_def dict_get_default_def items_of_def)
  have h: "index_historical_journal no_history (n, VDict (cache_journal n (VStr ''now''))) = Inr no_history" for n
    by (simp add: index_historical_journal_def l apply_direction_events_def no_history_def)
  have "cache_valid (Some \<lparr>ix_next = 3, ix_history = no_history, ix_pending = [2]\<rparr>)
      [(1, VDict (cache_journal 1 (VStr ''now''))), (2, VDict (cache_journal 2 VNull))]
      [(1, VDict (cache_journal 1 (VStr ''now''))), (2, VDict (cache_journal 2 (VStr ''now'')))]"
    using h [of 1] by (simp add: cache_valid_def index_of_iff before_def unfinished_def own_number_def finished_kept_def l)
  then show ?thesis by (rule cache_transparent [THEN conjunct1]) (simp_all add: sorted_store_def)
qed

end
