(* ===== verification/SessionClock.thy ===== *)
theory SessionClock
  imports Values Errors
begin

text \<open>
  The supervised session of an agent (src/src/aka/light/agent/execution_clock.py): the tracking of its process tree, the
  suspension of the tree while requests run, and the clock of active seconds.  Every block under the condition's lock is
  one step; clock readings and whether a signal call raises are inputs, and the signals sent are logged.  A clock reading
  is a real number.
\<close>

section \<open>Budgets\<close>

definition runtime_error :: "string \<Rightarrow> exn" where
  "runtime_error msg = OtherException ''RuntimeError'' msg"

fun validate_timeout :: "pyval \<Rightarrow> exn + real" where
  "validate_timeout (VInt i) =
     (if i \<le> 0 then Inl (ValueError (Msg ''timeout must be finite and greater than zero'')) else Inr (of_int i))"
| "validate_timeout (VFloat (Fin x)) =
     (if x \<le> 0 then Inl (ValueError (Msg ''timeout must be finite and greater than zero'')) else Inr x)"
| "validate_timeout _ = Inl (ValueError (Msg ''timeout must be finite and greater than zero''))"

record active_budget =
  ab_seconds :: real
  ab_used :: real

definition budget_remaining :: "active_budget \<Rightarrow> real" where
  "budget_remaining b = max 0 (ab_seconds b - ab_used b)"

section \<open>The process tree\<close>

record process =
  pr_start :: string
  pr_ppid :: int
  pr_pgid :: int

type_synonym processes = "(int \<times> process) list"

record process_scope =
  sc_pid :: int
  sc_identities :: "(int \<times> string) list"   \<comment> \<open>the newest entry of a pid first\<close>
  sc_group_live :: bool
  sc_empty_scans :: nat
  sc_root_start :: "string option"

definition children_of :: "processes \<Rightarrow> int list \<Rightarrow> int list" where
  "children_of table owned = map fst (filter (\<lambda>(p, r). pr_ppid r \<in> set owned) table)"

function close_owned :: "processes \<Rightarrow> int list \<Rightarrow> int list" where
  "close_owned table owned =
     (if set (children_of table owned) \<subseteq> set owned then owned
      else close_owned table (owned @ filter (\<lambda>p. p \<notin> set owned) (children_of table owned)))"
  by pat_completeness auto
termination
proof (relation "measure (\<lambda>(table, owned). card (fst ` set table - set owned))")
  fix table :: processes and owned
  assume "\<not> set (children_of table owned) \<subseteq> set owned"
  then obtain p where "p \<in> set (children_of table owned)" "p \<notin> set owned" by blast
  moreover have "set (children_of table owned) \<subseteq> fst ` set table" by (auto simp: children_of_def)
  ultimately have "fst ` set table - set (owned @ filter (\<lambda>p. p \<notin> set owned) (children_of table owned)) \<subset> fst ` set table - set owned"
    by auto
  then show "((table, owned @ filter (\<lambda>p. p \<notin> set owned) (children_of table owned)), table, owned)
      \<in> measure (\<lambda>(table, owned). card (fst ` set table - set owned))"
    by (simp add: psubset_card_mono)
qed simp

declare close_owned.simps [simp del]

definition remembered :: "process_scope \<Rightarrow> processes \<Rightarrow> int list" where
  "remembered sc table = map fst (filter (\<lambda>(p, r). map_of (sc_identities sc) p = Some (pr_start r)) table)"

definition live_root :: "process_scope \<Rightarrow> processes \<Rightarrow> int list" where
  "live_root sc table =
     (case map_of table (sc_pid sc) of
        Some r \<Rightarrow> if sc_root_start sc = Some (pr_start r) then [sc_pid sc] else []
      | None \<Rightarrow> [])"

definition foreign_root :: "process_scope \<Rightarrow> processes \<Rightarrow> bool" where
  \<comment> \<open>the pid of the leader belongs to another process by now\<close>
  "foreign_root sc table =
     (case map_of table (sc_pid sc) of Some r \<Rightarrow> sc_root_start sc \<noteq> Some (pr_start r) | None \<Rightarrow> False)"

definition group_members :: "process_scope \<Rightarrow> processes \<Rightarrow> int list" where
  "group_members sc table =
     (if sc_group_live sc \<and> \<not> foreign_root sc table then map fst (filter (\<lambda>(p, r). pr_pgid r = sc_pid sc) table) else [])"

definition scan_group :: "process_scope \<Rightarrow> processes \<Rightarrow> process_scope" where
  "scan_group sc table =
     (if \<not> sc_group_live sc then sc
      else if foreign_root sc table then sc\<lparr>sc_group_live := False\<rparr>
      else let scans = (if group_members sc table \<noteq> [] then 0 else sc_empty_scans sc + 1) in
        sc\<lparr>sc_empty_scans := scans, sc_group_live := scans < 2\<rparr>)"

definition seeds :: "process_scope \<Rightarrow> processes \<Rightarrow> int list" where
  "seeds sc table = remembered sc table @ live_root sc table @ group_members sc table"

definition refresh_scope :: "process_scope \<Rightarrow> processes \<Rightarrow> exn + process_scope \<times> int list" where
  "refresh_scope sc table =
     (if table = [] then Inl (runtime_error ''Cannot inspect the Agent process tree for Runtime suspension'')
      else let owned = close_owned table (seeds sc table) in
        Inr ((scan_group sc table)\<lparr>sc_identities :=
               List.map_filter (\<lambda>(p, r). if p \<in> set owned then Some (p, pr_start r) else None) table @ sc_identities sc\<rparr>,
             owned))"

definition new_scope :: "int \<Rightarrow> int \<Rightarrow> processes \<Rightarrow> processes \<Rightarrow> exn + process_scope" where
  \<comment> \<open>the constructor takes two snapshots\<close>
  "new_scope self pid table0 table =
     (if pid \<le> 1 \<or> pid = self then Inl (ValueError (Msg ''Agent process must be a separately spawned child''))
      else map_sum id fst (refresh_scope \<lparr>sc_pid = pid, sc_identities = [], sc_group_live = True, sc_empty_scans = 0,
             sc_root_start = map_option pr_start (map_of table0 pid)\<rparr> table))"

definition signal_order :: "process_scope \<Rightarrow> int list \<Rightarrow> int list" where
  \<comment> \<open>the root first\<close>
  "signal_order sc owned = sort_key (\<lambda>p. p \<noteq> sc_pid sc) (remdups owned)"

section \<open>What a scan finds\<close>

definition parent_links :: "processes \<Rightarrow> (int \<times> int) set" where
  "parent_links table = {(q, p). \<exists>r. (p, r) \<in> set table \<and> pr_ppid r = q}"

lemma children_links: "set (children_of table owned) = parent_links table `` set owned"
  by (force simp: children_of_def parent_links_def)

lemma close_owned_reach: "set (close_owned table owned) = (parent_links table)\<^sup>* `` set owned"
proof (induction table owned rule: close_owned.induct)
  case (1 table owned)
  show ?case
  proof (cases "set (children_of table owned) \<subseteq> set owned")
    case True
    then have "(parent_links table)\<^sup>* `` set owned = set owned"
      by (intro Image_closed_trancl) (simp add: children_links)
    with True show ?thesis by (simp add: close_owned.simps [of table owned])
  next
    case False
    let ?o = "owned @ filter (\<lambda>p. p \<notin> set owned) (children_of table owned)"
    have "set ?o = set owned \<union> parent_links table `` set owned" by (auto simp: children_links)
    then have "(parent_links table)\<^sup>* `` set ?o = (parent_links table)\<^sup>* `` set owned"
      by (auto intro: converse_rtrancl_into_rtrancl)
    with 1 [OF False] False show ?thesis by (simp add: close_owned.simps [of table owned])
  qed
qed

lemma fst_filter: "fst ` {x \<in> A. case x of (p, r) \<Rightarrow> P p r} = {p. \<exists>r. (p, r) \<in> A \<and> P p r}"
  by force

lemma remembered_set:
  "set (remembered sc table) = {p. \<exists>r. (p, r) \<in> set table \<and> map_of (sc_identities sc) p = Some (pr_start r)}"
  by (simp add: remembered_def fst_filter)

lemma live_root_set:
  "set (live_root sc table) = {p. p = sc_pid sc \<and> (\<exists>r. map_of table p = Some r \<and> sc_root_start sc = Some (pr_start r))}"
  by (cases "map_of table (sc_pid sc)") (auto simp: live_root_def)

lemma group_set:
  "set (group_members sc table) =
     {p. sc_group_live sc \<and> \<not> foreign_root sc table \<and> (\<exists>r. (p, r) \<in> set table \<and> pr_pgid r = sc_pid sc)}"
  by (simp add: group_members_def fst_filter)

lemma signal_order_set [simp]: "set (signal_order sc owned) = set owned"
  by (simp add: signal_order_def)

lemma signal_order_root: "sc_pid sc \<in> set owned \<Longrightarrow> hd (signal_order sc owned) = sc_pid sc"
proof -
  assume r: "sc_pid sc \<in> set owned"
  let ?xs = "signal_order sc owned"
  have "sorted (map (\<lambda>p. p \<noteq> sc_pid sc) ?xs)" by (simp add: signal_order_def)
  moreover from r have "sc_pid sc \<in> set ?xs" by simp
  ultimately show ?thesis by (cases ?xs) (auto simp: le_bool_def)
qed

section \<open>The session\<close>

datatype process_signal = SigStop | SigCont | SigKill

record control =
  ct_scope :: bool           \<comment> \<open>the process scope is attached\<close>
  ct_closed :: bool
  ct_pending :: nat
  ct_started :: "real option"
  ct_paused :: "real option"
  ct_wait :: real
  ct_finished :: "real option"
  ct_log :: "process_signal list"   \<comment> \<open>the calls of \<open>scope.signal\<close>, in order\<close>

definition new_control :: control where
  "new_control = \<lparr>ct_scope = False, ct_closed = False, ct_pending = 0, ct_started = None, ct_paused = None, ct_wait = 0,
     ct_finished = None, ct_log = []\<rparr>"

definition active_seconds :: "control \<Rightarrow> real \<Rightarrow> real" where
  "active_seconds c time =
     (case ct_finished c of
        Some f \<Rightarrow> f
      | None \<Rightarrow>
          (case ct_started c of
             None \<Rightarrow> 0
           | Some s \<Rightarrow> max 0 ((case ct_paused c of Some p \<Rightarrow> p | None \<Rightarrow> time) - s - ct_wait c)))"

definition send :: "process_signal \<Rightarrow> control \<Rightarrow> control" where
  "send sig c = c\<lparr>ct_log := ct_log c @ [sig]\<rparr>"

type_synonym failure = "exn option"   \<comment> \<open>what a call of \<open>scope.signal\<close>, or of the constructor, raises\<close>

definition attach :: "real \<Rightarrow> failure \<Rightarrow> control \<Rightarrow> control \<times> failure" where
  "attach time failed c =
     (if ct_closed c then (c, Some (runtime_error ''Agent session has already closed''))
      else (c\<lparr>ct_started := Some time, ct_scope := (failed = None)\<rparr>, failed))"

definition close_control :: "real \<Rightarrow> control \<Rightarrow> control" where
  "close_control time c =
     c\<lparr>ct_finished := Some (active_seconds c time), ct_closed := True\<rparr>"

definition kill_control :: "real \<Rightarrow> failure \<Rightarrow> failure \<Rightarrow> failure \<Rightarrow> control \<Rightarrow> control \<times> failure" where
  "kill_control time f1 f2 fk c =
     (let c1 = close_control time c in
      if \<not> ct_scope c then (c1, None)
      else let c2 = send SigStop c1; c3 = (if f1 = None then send SigStop c2 else c2);
               stopped = (if f1 = None then f2 else f1) in
        (send SigKill c3, if fk = None then stopped else fk))"

definition poll_control :: "failure \<Rightarrow> control \<Rightarrow> control \<times> failure" where
  "poll_control failed c =
     (if ct_scope c \<and> \<not> ct_closed c then (if ct_pending c > 0 then send SigStop c else c, failed) else (c, None))"

definition enter_request :: "real \<Rightarrow> failure \<Rightarrow> failure \<Rightarrow> failure \<Rightarrow> control \<Rightarrow> control \<times> failure" where
  \<comment> \<open>the part of \<open>request\<close> before the dispatch; it waits until the session is attached or closed\<close>
  "enter_request time f1 f2 fk c =
     (if ct_closed c then (c, Some (runtime_error ''Agent session closed before Runtime dispatch''))
      else let c1 = c\<lparr>ct_paused := (if ct_pending c = 0 then Some time else ct_paused c), ct_pending := ct_pending c + 1\<rparr>;
               c2 = send SigStop c1; c3 = (if f1 = None then send SigStop c2 else c2);
               failed = (if f1 = None then f2 else f1) in
        if failed = None then (c3, None)
        else (send SigKill (c3\<lparr>ct_pending := ct_pending c, ct_closed := True\<rparr>), if fk = None then failed else fk))"

definition leave_request :: "real \<Rightarrow> failure \<Rightarrow> failure \<Rightarrow> failure \<Rightarrow> failure \<Rightarrow> control \<Rightarrow> control \<times> failure" where
  "leave_request time fc f1 f2 fk c =
     (let c1 = c\<lparr>ct_pending := ct_pending c - 1\<rparr> in
      if ct_pending c1 > 0 then (c1, None)
      else let c2 = c1\<lparr>ct_wait := ct_wait c + (time - (case ct_paused c of Some p \<Rightarrow> p | None \<Rightarrow> time)), ct_paused := None\<rparr> in
        if ct_closed c then (c2, None)
        else let c3 = send SigCont c2 in
          if fc = None then (c3, None)
          else let (c4, k) = kill_control time f1 f2 fk c3 in (c4, if k = None then fc else k))"

datatype act =
    Attach failure
  | Poll failure
  | Enter failure failure failure
  | Leave failure failure failure failure
  | Close
  | Kill failure failure failure

fun perform :: "real \<Rightarrow> act \<Rightarrow> control \<Rightarrow> control \<times> failure" where
  "perform time (Attach f) c = attach time f c"
| "perform time (Poll f) c = poll_control f c"
| "perform time (Enter f1 f2 fk) c = enter_request time f1 f2 fk c"
| "perform time (Leave fc f1 f2 fk) c = leave_request time fc f1 f2 fk c"
| "perform time Close c = (close_control time c, None)"
| "perform time (Kill f1 f2 fk) c = kill_control time f1 f2 fk c"

fun enabled :: "act \<Rightarrow> control \<Rightarrow> bool" where
  \<comment> \<open>one launch per session; a request leaves once it has entered\<close>
  "enabled (Attach f) c = (ct_started c = None)"
| "enabled (Enter f1 f2 fk) c = (ct_scope c \<or> ct_closed c)"
| "enabled (Leave fc f1 f2 fk) c = (ct_pending c > 0)"
| "enabled _ c = True"

text \<open>
  A session up to a clock reading, with the part of it during which at least one request was in progress: the reference
  reading of what must not count as active.
\<close>

inductive session :: "real \<Rightarrow> real \<Rightarrow> control \<Rightarrow> bool" where
  session_new: "session time 0 new_control"
| session_step: "session time busy c \<Longrightarrow> time \<le> later \<Longrightarrow> enabled a c
    \<Longrightarrow> session later (busy + (if 0 < ct_pending c then later - time else 0)) (fst (perform later a c))"

section \<open>The invariant\<close>

lemmas act_defs = attach_def poll_control_def enter_request_def leave_request_def kill_control_def close_control_def send_def Let_def

lemma closed_keeps:
  "ct_closed c \<Longrightarrow> ct_closed (fst (perform time a c))
     \<and> (\<exists>extra. ct_log (fst (perform time a c)) = ct_log c @ extra \<and> SigCont \<notin> set extra)"
  by (cases a) (auto simp: act_defs)

definition control_ok :: "control \<Rightarrow> bool" where
  "control_ok c \<longleftrightarrow> (ct_scope c \<longrightarrow> ct_started c \<noteq> None)
     \<and> (ct_pending c > 0 \<longrightarrow> ct_scope c \<and> ct_paused c \<noteq> None)
     \<and> (\<not> ct_closed c \<longrightarrow> ct_finished c = None \<and> (ct_pending c = 0 \<longrightarrow> ct_paused c = None)
          \<and> (ct_pending c > 0 \<longrightarrow> ct_log c \<noteq> [] \<and> last (ct_log c) = SigStop)
          \<and> (ct_pending c = 0 \<longrightarrow> ct_log c = [] \<or> last (ct_log c) = SigCont))"

lemma control_ok_new: "control_ok new_control"
  by (simp add: control_ok_def new_control_def)

lemma control_ok_step: "control_ok c \<Longrightarrow> enabled a c \<Longrightarrow> control_ok (fst (perform time a c))"
  by (cases a) (auto simp: control_ok_def act_defs)

lemma session_ok: "session time busy c \<Longrightarrow> control_ok c"
  by (induction rule: session.induct) (auto simp: control_ok_new intro: control_ok_step)

text \<open>An open session has waited for exactly the part of the run in which a request was in progress.\<close>

definition clock_exact :: "real \<Rightarrow> real \<Rightarrow> control \<Rightarrow> bool" where
  "clock_exact time busy c \<longleftrightarrow> (\<not> ct_closed c \<longrightarrow>
     busy = ct_wait c + (case ct_paused c of Some p \<Rightarrow> time - p | None \<Rightarrow> 0)
     \<and> (ct_started c = None \<longrightarrow> busy = 0) \<and> (case ct_started c of Some s \<Rightarrow> busy \<le> time - s | None \<Rightarrow> True))"

lemma clock_exact_step:
  assumes "clock_exact time busy c" "control_ok c" "enabled a c" "time \<le> later"
  shows "clock_exact later (busy + (if 0 < ct_pending c then later - time else 0)) (fst (perform later a c))"
  using assms by (cases a) (auto simp: clock_exact_def control_ok_def act_defs split: option.splits)

lemma session_clock: "session time busy c \<Longrightarrow> clock_exact time busy c"
proof (induction rule: session.induct)
  case (session_new time)
  then show ?case by (simp add: clock_exact_def new_control_def)
next
  case (session_step time busy c later a)
  then show ?case using session_ok by (intro clock_exact_step) auto
qed

definition perform_all :: "(real \<times> act) list \<Rightarrow> control \<Rightarrow> control" where
  "perform_all steps c = foldl (\<lambda>c (time, a). fst (perform time a c)) c steps"

lemma finished_keeps:
  "ct_closed c \<and> ct_finished c = Some f \<Longrightarrow> ct_closed (fst (perform time a c)) \<and> ct_finished (fst (perform time a c)) = Some f"
  by (cases a) (auto simp: act_defs active_seconds_def)

lemma stays_finished:
  "ct_closed c \<and> ct_finished c = Some f \<Longrightarrow> active_seconds (perform_all steps c) moment = f"
proof (induction steps arbitrary: c)
  case Nil
  then show ?case by (simp add: perform_all_def active_seconds_def)
next
  case (Cons p steps)
  obtain time a where p: "p = (time, a)" by (cases p)
  from Cons.IH [OF finished_keeps [OF Cons.prems, of time a]] show ?case by (simp add: perform_all_def p)
qed

text \<open>A session of two overlapping requests.\<close>

definition calm_enter :: act where "calm_enter = Enter None None None"
definition calm_leave :: act where "calm_leave = Leave None None None None"

definition demo_control :: control where
  "demo_control = perform_all [(10, Attach None), (12, calm_enter), (13, calm_enter), (15, calm_leave)] new_control"

lemma demo_control_eq:
  "demo_control = \<lparr>ct_scope = True, ct_closed = False, ct_pending = 1, ct_started = Some 10, ct_paused = Some 12, ct_wait = 0,
     ct_finished = None, ct_log = [SigStop, SigStop, SigStop, SigStop]\<rparr>"
  by (simp add: demo_control_def perform_all_def calm_enter_def calm_leave_def act_defs new_control_def)

lemma demo_session: "session 15 3 demo_control"
proof -
  have s: "session later (busy + (if 0 < ct_pending c then later - time else 0)) c'"
    if "session time busy c" "time \<le> later" "enabled a c" "c' = fst (perform later a c)" for time busy c later a c'
    using session_step [OF that(1-3)] that(4) by simp
  let ?c1 = "fst (perform 10 (Attach None) new_control)"
  let ?c2 = "fst (perform 12 calm_enter ?c1)"
  let ?c3 = "fst (perform 13 calm_enter ?c2)"
  note d = calm_enter_def calm_leave_def act_defs new_control_def
  have "session 10 0 ?c1" using s [OF session_new [of 10], of 10 "Attach None" ?c1] by (simp add: new_control_def)
  from s [OF this, of 12 calm_enter ?c2] have "session 12 0 ?c2" by (simp add: d)
  from s [OF this, of 13 calm_enter ?c3] have "session 13 1 ?c3" by (simp add: d)
  from s [OF this, of 15 calm_leave demo_control] show ?thesis by (simp add: demo_control_def perform_all_def d)
qed

text \<open>A launched process 7 with a child 9 and a stranger 8.\<close>

lemma identities_get:
  "map_of (List.map_filter (\<lambda>(p, r). if p \<in> A then Some (p, pr_start r) else None) table) q =
     (if q \<in> A then map_option pr_start (map_of table q) else None)"
  by (induction table) auto

definition demo_table :: processes where
  "demo_table = [(7, \<lparr>pr_start = ''a'', pr_ppid = 1, pr_pgid = 7\<rparr>), (8, \<lparr>pr_start = ''c'', pr_ppid = 1, pr_pgid = 8\<rparr>),
     (9, \<lparr>pr_start = ''b'', pr_ppid = 7, pr_pgid = 9\<rparr>)]"

definition demo_scope :: process_scope where
  "demo_scope = \<lparr>sc_pid = 7, sc_identities = [], sc_group_live = True, sc_empty_scans = 0, sc_root_start = Some ''a''\<rparr>"

lemma demo_scan: "refresh_scope demo_scope demo_table = Inr (demo_scope\<lparr>sc_identities := [(7, ''a''), (9, ''b'')]\<rparr>, [7, 7, 9])"
  by (simp add: refresh_scope_def demo_scope_def demo_table_def seeds_def remembered_def live_root_def group_members_def foreign_root_def
    scan_group_def close_owned.simps children_of_def Let_def)

section \<open>Properties\<close>

text \<open>C16: Waiting is not active time.  As long as a session is open, whatever requests overlap and whatever signals failed before,
  its active seconds are the time since the launch without the periods in which at least one request was in progress; two
  requests at once are deducted once.  When the open session is then closed or killed, its active seconds keep the value of
  that moment for ever.  (A session that closes itself because it could not stop the agent for a request keeps no such value;
  it is excluded.)\<close>

theorem active_time_exact:
  assumes "session time busy c" "\<not> ct_closed c" "ct_started c = Some s"
  shows "active_seconds c time = time - s - busy
     \<and> (\<forall>later steps moment f1 f2 fk. \<forall>a\<in>{Close, Kill f1 f2 fk}. time \<le> later \<longrightarrow>
          active_seconds (perform_all steps (fst (perform later a c))) moment =
            later - s - (busy + (if 0 < ct_pending c then later - time else 0)))"
proof -
  have exact: "active_seconds c later = later - s - (busy + (if 0 < ct_pending c then later - time else 0))" if "time \<le> later" for later
  proof -
    let ?c = "fst (perform later (Poll None) c)"
    have c: "\<not> ct_closed ?c" "ct_started ?c = Some s" "active_seconds ?c later = active_seconds c later"
      using assms(2,3) by (auto simp: poll_control_def send_def active_seconds_def split: option.split)
    have "session later (busy + (if 0 < ct_pending c then later - time else 0)) ?c"
      by (rule session_step [OF assms(1) that]) simp
    from session_clock [OF this] session_ok [OF this] c(1,2) have "active_seconds ?c later =
        later - s - (busy + (if 0 < ct_pending c then later - time else 0))"
      by (auto simp: clock_exact_def control_ok_def active_seconds_def split: option.splits)
    with c(3) show ?thesis by simp
  qed
  have "ct_closed (fst (perform later a c)) \<and> ct_finished (fst (perform later a c)) = Some (active_seconds c later)"
    if "a \<in> {Close, Kill f1 f2 fk}" for later a f1 f2 fk
    using that by (auto simp: act_defs active_seconds_def)
  then have "active_seconds (perform_all steps (fst (perform later a c))) moment = active_seconds c later"
    if "a \<in> {Close, Kill f1 f2 fk}" for later a f1 f2 fk steps moment
    using stays_finished that by blast
  with exact exact [OF order_refl] show ?thesis by simp
qed

theorem active_time_exact_witness:
  "active_seconds demo_control 15 = 15 - 10 - 3
     \<and> active_seconds (perform_all [(20, calm_leave)] (fst (perform 17 Close demo_control))) 30 = 17 - 10 - 5"
proof -
  have c: "\<not> ct_closed demo_control" "ct_started demo_control = Some 10" "ct_pending demo_control = 1" by (simp_all add: demo_control_eq)
  from active_time_exact [OF demo_session c(1,2)] have "active_seconds demo_control 15 = 15 - 10 - 3"
    "active_seconds (perform_all [(20, calm_leave)] (fst (perform 17 Close demo_control))) 30 =
       17 - 10 - (3 + (if 0 < ct_pending demo_control then 17 - 15 else 0))" by fastforce+
  with c(3) show ?thesis by simp
qed

text \<open>The agent is frozen exactly while a request runs.  In an open session with a request in progress the last signal sent to the
  process tree is a stop; with none in progress it is a continue, or nothing was sent yet.\<close>

theorem suspended_while_pending:
  assumes "session time busy c" "\<not> ct_closed c"
  shows "if 0 < ct_pending c then ct_log c \<noteq> [] \<and> last (ct_log c) = SigStop else ct_log c = [] \<or> last (ct_log c) = SigCont"
  using session_ok [OF assms(1)] assms(2) by (auto simp: control_ok_def)

theorem suspended_while_pending_witness: "0 < ct_pending demo_control \<and> last (ct_log demo_control) = SigStop"
proof -
  have "\<not> ct_closed demo_control" "0 < ct_pending demo_control" by (simp_all add: demo_control_eq)
  with suspended_while_pending [OF demo_session] show ?thesis by simp
qed

text \<open>C22: A closed session is never resumed.  Once a session is closed, by cancellation or by a failed signal, no further step sends a
  continue signal, also when requests that were in progress complete afterwards.\<close>

theorem closed_never_resumed:
  assumes "ct_closed c"
  shows "\<exists>extra. ct_log (perform_all steps c) = ct_log c @ extra \<and> SigCont \<notin> set extra"
  using assms
proof (induction steps arbitrary: c)
  case Nil
  then show ?case by (simp add: perform_all_def)
next
  case (Cons p steps)
  obtain time a where p: "p = (time, a)" by (cases p)
  from closed_keeps [OF Cons.prems, of time a] Cons.IH [of "fst (perform time a c)"] show ?case
    by (fastforce simp: perform_all_def p)
qed

theorem closed_never_resumed_witness:
  "\<exists>extra. ct_log (perform_all [(17, calm_leave)] (fst (perform 16 (Kill None None None) demo_control))) =
     ct_log (fst (perform 16 (Kill None None None) demo_control)) @ extra \<and> SigCont \<notin> set extra"
  by (rule closed_never_resumed) (simp add: act_defs)

text \<open>C23: Only the agent's own processes are signaled.  A scan finds exactly the processes reachable by parent links from those it
  remembers with the same start token, from the launched process if it is still the same one, and from the members of its
  private process group as long as that group was never lost; what it finds is remembered with its start token, and a lost
  group is never adopted again.\<close>

theorem scan_exact:
  assumes "refresh_scope sc table = Inr (sc', owned)" "distinct (map fst table)"
  shows "set (signal_order sc' owned) = (parent_links table)\<^sup>* ``
       ({p. \<exists>r. map_of table p = Some r \<and> map_of (sc_identities sc) p = Some (pr_start r)}
        \<union> {p. p = sc_pid sc \<and> (\<exists>r. map_of table p = Some r \<and> sc_root_start sc = Some (pr_start r))}
        \<union> {p. sc_group_live sc \<and> \<not> foreign_root sc table \<and> (\<exists>r. map_of table p = Some r \<and> pr_pgid r = sc_pid sc)})
     \<and> (sc_group_live sc' \<longrightarrow> sc_group_live sc \<and> \<not> foreign_root sc table)
     \<and> (\<forall>p\<in>set owned. \<forall>r. map_of table p = Some r \<longrightarrow> map_of (sc_identities sc') p = Some (pr_start r))"
proof -
  have sc: "owned = close_owned table (seeds sc table)" "sc' = (scan_group sc table)\<lparr>sc_identities :=
      List.map_filter (\<lambda>(p, r). if p \<in> set owned then Some (p, pr_start r) else None) table @ sc_identities sc\<rparr>"
    using assms(1) by (auto simp: refresh_scope_def Let_def split: if_split_asm)
  have "set (seeds sc table) = {p. \<exists>r. map_of table p = Some r \<and> map_of (sc_identities sc) p = Some (pr_start r)}
        \<union> {p. p = sc_pid sc \<and> (\<exists>r. map_of table p = Some r \<and> sc_root_start sc = Some (pr_start r))}
        \<union> {p. sc_group_live sc \<and> \<not> foreign_root sc table \<and> (\<exists>r. map_of table p = Some r \<and> pr_pgid r = sc_pid sc)}"
    by (simp add: seeds_def remembered_set live_root_set group_set map_of_eq_Some_iff [OF assms(2)] Un_assoc)
  moreover have "sc_group_live sc' \<longrightarrow> sc_group_live sc \<and> \<not> foreign_root sc table"
    by (simp add: sc(2) scan_group_def Let_def)
  moreover have "\<forall>p\<in>set owned. \<forall>r. map_of table p = Some r \<longrightarrow> map_of (sc_identities sc') p = Some (pr_start r)"
    by (simp add: sc(2) map_add_Some_iff identities_get)
  ultimately show ?thesis by (simp add: close_owned_reach sc(1))
qed

theorem scan_exact_witness:
  "{7, 9} = (parent_links demo_table)\<^sup>* ``
       ({p. \<exists>r. map_of demo_table p = Some r \<and> map_of (sc_identities demo_scope) p = Some (pr_start r)}
        \<union> {p. p = sc_pid demo_scope \<and> (\<exists>r. map_of demo_table p = Some r \<and> sc_root_start demo_scope = Some (pr_start r))}
        \<union> {p. sc_group_live demo_scope \<and> \<not> foreign_root demo_scope demo_table
             \<and> (\<exists>r. map_of demo_table p = Some r \<and> pr_pgid r = sc_pid demo_scope)})"
proof -
  have "distinct (map fst demo_table)" by (simp add: demo_table_def)
  from scan_exact [OF demo_scan this, THEN conjunct1] show ?thesis by simp
qed

end
