(* ===== verification/Retry.thy ===== *)
theory Retry
  imports TokenReports SessionClock
begin

text \<open>
  Durable retries of validation steps (src/src/aka/light/execution/retry.py): the private state file, the minute-long waits for an
  unavailable service, and the budget of two review timeouts.  A run is given the readings of the clock and of the cancel
  event, and what the operation does; when its inputs end, the process has stopped, and the next process starts from the
  file.  A crash between an operation and the write that follows it is not modelled.
\<close>

section \<open>The state file\<close>

datatype retry_file = NoFile | BadFile | RetryFile pyval
  \<comment> \<open>missing; unreadable, too large or not JSON; a JSON value\<close>

definition poll_seconds :: int where
  "poll_seconds = 60"

definition retry_state_error :: exn where
  "retry_state_error = OtherException ''RetryStateError'' ''Cannot verify retry state''"

definition is_time :: "pyval \<Rightarrow> bool" where
  "is_time v =
     (case v of VInt i \<Rightarrow> 0 \<le> i | VFloat (Fin x) \<Rightarrow> 0 \<le> x | _ \<Rightarrow> False)"

definition time_fields :: "string list" where
  "time_fields = [''next_retry_at'', ''last_failure_at'', ''last_timeout_at'', ''recovered_at'', ''finished_at'']"

definition infra_statuses :: "string list" where
  "infra_statuses = [''waiting_for_infrastructure'', ''recovered'', ''step_failed'']"

definition waiting :: "pyval dict \<Rightarrow> bool" where
  "waiting record = (get_item record ''status'' = VStr ''waiting_for_infrastructure'')"

definition count_key :: "string \<Rightarrow> string" where
  "count_key category = (if category = ''review_timeouts'' then ''timeout_count'' else ''retry_count'')"

definition valid_count :: "string \<Rightarrow> pyval \<Rightarrow> bool" where
  "valid_count category v =
     (case v of VInt n \<Rightarrow> 0 \<le> n \<and> (category = ''review_timeouts'' \<longrightarrow> n \<le> 2) | _ \<Rightarrow> False)"

definition valid_record :: "string \<Rightarrow> string \<Rightarrow> pyval dict \<Rightarrow> bool" where
  "valid_record stage category record =
     (get_item record ''schema_version'' = VInt 1 \<and> get_item record ''stage'' = VStr stage
      \<and> valid_count category (get_item record (count_key category))
      \<and> (category = ''infrastructure'' \<longrightarrow>
           py_in (get_item record ''status'') (map VStr infra_statuses) \<and> (waiting record \<longrightarrow> dict_has record ''next_retry_at''))
      \<and> list_all (\<lambda>k. dict_has record k \<longrightarrow> is_time (get_item record k)) time_fields)"

definition load_retry_state :: "retry_file \<Rightarrow> string \<Rightarrow> string \<Rightarrow> exn + pyval dict" where
  "load_retry_state file stage category =
     (case file of
        NoFile \<Rightarrow> Inr []
      | BadFile \<Rightarrow> Inl retry_state_error
      | RetryFile v \<Rightarrow>
          (case as_dict v of
             None \<Rightarrow> Inl retry_state_error
           | Some record \<Rightarrow> if valid_record stage category record then Inr record else Inl retry_state_error))"

definition file_of :: "pyval dict \<Rightarrow> retry_file" where
  \<comment> \<open>the file after the last durable write: nothing is written as long as there is no record\<close>
  "file_of record = (if record = [] then NoFile else RetryFile (VDict record))"

section \<open>The outcome of a review session\<close>

record session_result =
  sr_timed_out :: bool
  sr_exit_status :: int
  sr_events :: "pyval list"   \<comment> \<open>the lines of \<open>stdout_tail\<close> that are JSON\<close>

definition outage_types :: "string list" where
  "outage_types = [''overloaded_error'', ''rate_limit_error'', ''service_unavailable_error'']"

definition outage_event :: "pyval \<Rightarrow> bool" where
  \<comment> \<open>the type of an error object is a text in the code\<close>
  "outage_event v =
     (case as_dict v of
        Some e \<Rightarrow> get_item e ''type'' = VStr ''error''
          \<and> (case as_dict (get_item e ''error'') of
               Some d \<Rightarrow> is_str (get_item d ''type'') \<and> str_of (get_item d ''type'') \<in> set outage_types
             | None \<Rightarrow> False)
      | None \<Rightarrow> False)"

datatype review_verdict = ReviewPassed | ReviewTimedOut | ReviewUnavailable | ReviewFailed

definition check_review_service :: "session_result \<Rightarrow> review_verdict" where
  \<comment> \<open>a normal return, or which of the three exceptions it raises\<close>
  "check_review_service r =
     (if sr_timed_out r then ReviewTimedOut
      else if sr_exit_status r = 0 then ReviewPassed
      else if list_ex outage_event (sr_events r) then ReviewUnavailable
      else ReviewFailed)"

section \<open>Infrastructure retries\<close>

datatype operation_outcome = OpReturned pyval | OpOutage string | OpTimedOut | OpCancelled | OpFailed exn

record attempt =
  at_readings :: "(real \<times> bool) list"   \<comment> \<open>the clock readings of the wait, and whether the wait after each is cancelled\<close>
  at_cancelled :: bool                   \<comment> \<open>\<open>cancel.is_set()\<close> before the operation\<close>
  at_outcome :: operation_outcome
  at_time :: real                        \<comment> \<open>the clock when the outcome is handled\<close>

datatype service_wait = WaitOver real | WaitCancelled | WaitStopped

fun wait_until :: "real \<Rightarrow> (real \<times> bool) list \<Rightarrow> service_wait" where
  "wait_until deadline [] = WaitStopped"
| "wait_until deadline ((t, cancelled) # readings) =
     (if deadline - t > 0 then if cancelled then WaitCancelled else wait_until deadline readings
      else WaitOver t)"

fun seconds_of :: "pyval \<Rightarrow> real" where
  "seconds_of (VInt i) = of_int i"
| "seconds_of (VFloat (Fin x)) = x"
| "seconds_of _ = 0"

fun add_poll :: "pyval \<Rightarrow> pyval" where
  "add_poll (VInt i) = VInt (i + poll_seconds)"
| "add_poll (VFloat (Fin x)) = VFloat (Fin (x + of_int poll_seconds))"
| "add_poll v = v"

definition resume_record :: "real \<Rightarrow> pyval dict \<Rightarrow> pyval dict" where
  \<comment> \<open>an older, longer wait is shortened to the current policy\<close>
  "resume_record now record =
     (if \<not> waiting record then record
      else let old = get_item record ''next_retry_at'';
               new = add_poll (dict_get_default record ''last_failure_at'' (VFloat (Fin now)));
               deadline = (if seconds_of new < seconds_of old then new else old) in
        if seconds_of deadline \<noteq> seconds_of old \<or> \<not> py_eq (get_item record ''poll_seconds'') (VInt poll_seconds)
        then dict_update record [(''next_retry_at'', deadline), (''poll_seconds'', VInt poll_seconds)]
        else record)"

definition outage_record :: "string \<Rightarrow> pyval dict \<Rightarrow> real \<Rightarrow> string \<Rightarrow> pyval dict" where
  "outage_record stage record now reason =
     [(''schema_version'', VInt 1), (''stage'', VStr stage), (''status'', VStr ''waiting_for_infrastructure''),
      (''retry_count'', case dict_get_default record ''retry_count'' (VInt 0) of VInt n \<Rightarrow> VInt (n + 1) | v \<Rightarrow> v),
      (''last_failure_at'', VFloat (Fin now)), (''next_retry_at'', VFloat (Fin (now + of_int poll_seconds))),
      (''poll_seconds'', VInt poll_seconds), (''reason'', VStr reason)]"

definition finish_record :: "string \<Rightarrow> string \<Rightarrow> real \<Rightarrow> pyval dict \<Rightarrow> pyval dict" where
  "finish_record status key now record =
     (if record = [] then [] else dict_update record [(''status'', VStr status), (key, VFloat (Fin now))])"

datatype retry_ending = EndStopped | EndReturned pyval | EndTimeout | EndCancelled | EndRaised exn

datatype retry_event = OpStart "real option" | OutageAt real
  \<comment> \<open>an operation started, after a wait that ended at this reading; an outage was recorded\<close>

definition wait_round :: "pyval dict \<Rightarrow> attempt \<Rightarrow> service_wait option" where
  "wait_round record a =
     (if waiting record then Some (wait_until (seconds_of (get_item record ''next_retry_at'')) (at_readings a)) else None)"

definition wait_end :: "service_wait option \<Rightarrow> real option" where
  "wait_end w = (case w of Some (WaitOver t) \<Rightarrow> Some t | _ \<Rightarrow> None)"

fun retry_loop :: "string \<Rightarrow> pyval dict \<Rightarrow> attempt list \<Rightarrow> pyval dict \<times> retry_ending \<times> retry_event list" where
  "retry_loop stage record [] = (record, EndStopped, [])"
| "retry_loop stage record (a # rest) =
     (let w = wait_round record a in
      if w = Some WaitStopped then (record, EndStopped, [])
      else if w = Some WaitCancelled \<or> at_cancelled a then (record, EndCancelled, [])
      else case at_outcome a of
        OpOutage reason \<Rightarrow>
          (case retry_loop stage (outage_record stage record (at_time a) reason) rest of
             (r, e, events) \<Rightarrow> (r, e, OpStart (wait_end w) # OutageAt (at_time a) # events))
      | OpTimedOut \<Rightarrow> (record, EndTimeout, [OpStart (wait_end w)])
      | OpCancelled \<Rightarrow> (record, EndCancelled, [OpStart (wait_end w)])
      | OpFailed e \<Rightarrow>
          (if is_exception e then finish_record ''step_failed'' ''finished_at'' (at_time a) record else record, EndRaised e, [OpStart (wait_end w)])
      | OpReturned v \<Rightarrow> (finish_record ''recovered'' ''recovered_at'' (at_time a) record, EndReturned v, [OpStart (wait_end w)]))"

definition retry_infrastructure ::
  "string \<Rightarrow> real \<Rightarrow> retry_file \<Rightarrow> attempt list \<Rightarrow> retry_file \<times> retry_ending \<times> retry_event list" where
  "retry_infrastructure stage now file attempts =
     (case load_retry_state file stage ''infrastructure'' of
        Inl e \<Rightarrow> (file, EndRaised e, [])
      | Inr record \<Rightarrow>
          (case retry_loop stage (resume_record now record) attempts of (r, e, events) \<Rightarrow> (file_of r, e, events)))"

section \<open>Review retries\<close>

definition timeout_record :: "string \<Rightarrow> int \<Rightarrow> real \<Rightarrow> pyval dict" where
  "timeout_record stage n now =
     [(''schema_version'', VInt 1), (''stage'', VStr stage), (''timeout_count'', VInt n), (''last_timeout_at'', VFloat (Fin now))]"

definition reset_record :: "string \<Rightarrow> pyval dict" where
  "reset_record stage = [(''schema_version'', VInt 1), (''stage'', VStr stage), (''timeout_count'', VInt 0)]"

definition twice_timed_out :: exn where
  "twice_timed_out = ValueError (Msg ''reviewer execution timed out twice for this evidence; validation blocked'')"

record invocation =
  \<comment> \<open>one call of \<open>retry_infrastructure\<close>: the clock at its start and after it, and its attempts\<close>
  iv_now :: real
  iv_after :: real
  iv_attempts :: "attempt list"

fun review_loop ::
  "string \<Rightarrow> int \<Rightarrow> retry_file \<Rightarrow> retry_file \<Rightarrow> invocation list \<Rightarrow> (retry_file \<times> retry_file) \<times> retry_ending \<times> retry_ending list" where
  \<comment> \<open>the last component lists how the calls ended\<close>
  "review_loop stage n infra review [] = ((infra, review), if n < 2 then EndStopped else EndRaised twice_timed_out, [])"
| "review_loop stage n infra review (i # rest) =
     (if n \<ge> 2 then ((infra, review), EndRaised twice_timed_out, [])
      else case retry_infrastructure stage (iv_now i) infra (iv_attempts i) of (infra', e, _) \<Rightarrow>
        (case e of
           EndTimeout \<Rightarrow>
             (case review_loop stage (n + 1) infra' (file_of (timeout_record stage (n + 1) (iv_after i))) rest of
                (files, e', es) \<Rightarrow> (files, e', EndTimeout # es))
         | EndReturned v \<Rightarrow> ((infra', if n \<noteq> 0 then file_of (reset_record stage) else review), e, [e])
         | _ \<Rightarrow> ((infra', review), e, [e])))"

definition retry_review ::
  "string \<Rightarrow> retry_file \<times> retry_file \<Rightarrow> invocation list \<Rightarrow> (retry_file \<times> retry_file) \<times> retry_ending \<times> retry_ending list" where
  "retry_review stage files invocations =
     (case load_retry_state (snd files) stage ''review_timeouts'' of
        Inl e \<Rightarrow> (files, EndRaised e, [])
      | Inr record \<Rightarrow>
          (case dict_get_default record ''timeout_count'' (VInt 0) of
             VInt n \<Rightarrow> review_loop stage n (fst files) (snd files) invocations
           | _ \<Rightarrow> (files, EndRaised retry_state_error, [])))"

section \<open>Runs over restarts\<close>

fun infra_runs :: "string \<Rightarrow> retry_file \<Rightarrow> (real \<times> attempt list) list \<Rightarrow> retry_file \<times> retry_event list" where
  "infra_runs stage file [] = (file, [])"
| "infra_runs stage file ((now, attempts) # rest) =
     (case retry_infrastructure stage now file attempts of (file', _, es) \<Rightarrow>
        (case infra_runs stage file' rest of (file'', es') \<Rightarrow> (file'', es @ es')))"

fun outages :: "retry_event list \<Rightarrow> nat" where
  "outages [] = 0"
| "outages (OutageAt T # es) = Suc (outages es)"
| "outages (OpStart s # es) = outages es"

fun gap :: "retry_event \<Rightarrow> retry_event \<Rightarrow> bool" where
  \<comment> \<open>what follows an outage starts at least a poll interval later\<close>
  "gap (OutageAt T) (OpStart s) = (\<exists>t. s = Some t \<and> T + of_int poll_seconds \<le> t)"
| "gap _ _ = True"

lemma outages_append [simp]: "outages (es @ es') = outages es + outages es'"
  by (induction es rule: outages.induct) auto

definition kept_outages :: "pyval dict \<Rightarrow> retry_event list \<Rightarrow> bool" where
  "kept_outages record es \<longleftrightarrow> successively gap es
     \<and> (if outages es = 0 then record = [] else get_item record ''retry_count'' = VInt (int (outages es)))
     \<and> (\<forall>T. es \<noteq> [] \<and> last es = OutageAt T \<longrightarrow> waiting record
          \<and> get_item record ''next_retry_at'' = VFloat (Fin (T + of_int poll_seconds))
          \<and> get_item record ''last_failure_at'' = VFloat (Fin T) \<and> get_item record ''poll_seconds'' = VInt poll_seconds)"

lemma wait_until_over: "wait_until d readings = WaitOver t \<Longrightarrow> d \<le> t"
  by (induction d readings rule: wait_until.induct) (auto split: if_split_asm)

lemma kept_start:
  assumes "kept_outages record es" "w = wait_round record a" "w \<noteq> Some WaitStopped" "w \<noteq> Some WaitCancelled"
  shows "kept_outages record (es @ [OpStart (wait_end w)])"
proof -
  have "gap (last es) (OpStart (wait_end w))" if "es \<noteq> []"
  proof (cases "last es")
    case (OutageAt T)
    with assms(1) that have "waiting record" "get_item record ''next_retry_at'' = VFloat (Fin (T + of_int poll_seconds))"
      by (auto simp: kept_outages_def)
    then have "w = Some (wait_until (T + of_int poll_seconds) (at_readings a))" by (simp add: assms(2) wait_round_def)
    with assms(3,4) obtain t where "w = Some (WaitOver t)" "T + of_int poll_seconds \<le> t"
      by (cases "wait_until (T + of_int poll_seconds) (at_readings a)") (auto dest: wait_until_over)
    then show ?thesis by (simp add: OutageAt wait_end_def)
  qed simp
  with assms(1) show ?thesis by (auto simp: kept_outages_def successively_append_iff)
qed

lemma kept_outage:
  assumes "kept_outages record (es @ [OpStart s])"
  shows "kept_outages (outage_record stage record now reason) (es @ [OpStart s, OutageAt now])"
proof -
  have "get_item (outage_record stage record now reason) ''retry_count'' = VInt (int (Suc (outages es)))"
    using assms by (cases "outages es = 0")
      (auto simp: kept_outages_def outage_record_def get_item_def dict_get_default_def split: option.splits)
  moreover have "successively gap (es @ [OpStart s, OutageAt now])"
    using assms by (auto simp: kept_outages_def successively_append_iff)
  ultimately show ?thesis
    by (simp add: kept_outages_def) (simp add: outage_record_def waiting_def get_item_def dict_get_default_def)
qed

lemma finish_record_get:
  assumes "k \<notin> {''status'', key}"
  shows "get_item (finish_record status key now record) k = (if record = [] then VNull else get_item record k)"
  using assms by (simp add: finish_record_def get_item_def dict_get_default_def dict_update_def dict_simps)

lemma kept_finish:
  assumes "kept_outages record (es @ [OpStart s])" "key \<noteq> ''retry_count''"
  shows "kept_outages (finish_record status key now record) (es @ [OpStart s])"
proof (cases "record = []")
  case True
  with assms(1) show ?thesis by (simp add: finish_record_def)
next
  case False
  with assms show ?thesis by (auto simp: kept_outages_def finish_record_get split: if_split_asm)
qed

lemma retry_loop_recorded:
  assumes "retry_loop stage record attempts = (r, e, es')" "kept_outages record es"
  shows "kept_outages r (es @ es')"
  using assms
proof (induction attempts arbitrary: "record" es es' r e)
  case (Cons a attempts)
  let ?w = "wait_round record a"
  show ?case
  proof (cases "?w = Some WaitStopped \<or> ?w = Some WaitCancelled \<or> at_cancelled a")
    case True
    with Cons.prems show ?thesis by (auto simp: Let_def split: if_split_asm)
  next
    case False
    then have start: "kept_outages record (es @ [OpStart (wait_end ?w)])"
      using Cons.prems(2) by (intro kept_start) auto
    show ?thesis
    proof (cases "at_outcome a")
      case (OpOutage reason)
      obtain r1 e1 es1 where l: "retry_loop stage (outage_record stage record (at_time a) reason) attempts = (r1, e1, es1)"
        by (cases "retry_loop stage (outage_record stage record (at_time a) reason) attempts")
      with Cons.prems(1) False OpOutage have r: "r = r1" "es' = OpStart (wait_end ?w) # OutageAt (at_time a) # es1" by auto
      from Cons.IH [OF l kept_outage [OF start]] show ?thesis by (simp add: r)
    qed (insert Cons.prems(1) False start kept_finish [OF start], auto split: if_split_asm)
  qed
qed simp

lemma resume_recorded: "kept_outages record es \<Longrightarrow> kept_outages (resume_record now record) es"
proof -
  assume r: "kept_outages record es"
  show ?thesis
  proof (cases "es \<noteq> [] \<and> (\<exists>T. last es = OutageAt T)")
    case True
    then obtain T where "waiting record" "get_item record ''next_retry_at'' = VFloat (Fin (T + of_int poll_seconds))"
      "get_item record ''last_failure_at'' = VFloat (Fin T)" "get_item record ''poll_seconds'' = VInt poll_seconds"
      using r by (auto simp: kept_outages_def)
    moreover from this(3) have "dict_get_default record ''last_failure_at'' v = VFloat (Fin T)" for v
      by (auto simp: get_item_def dict_get_default_def split: option.splits)
    ultimately have "resume_record now record = record" by (simp add: resume_record_def Let_def)
    with r show ?thesis by simp
  next
    case False
    have "get_item (resume_record now record) ''retry_count'' = get_item record ''retry_count''"
      by (simp add: resume_record_def Let_def get_item_def dict_get_default_def dict_update_def dict_simps)
    moreover have "record = [] \<Longrightarrow> resume_record now record = []"
      by (simp add: resume_record_def waiting_def get_item_def dict_get_default_def)
    ultimately show ?thesis using r False by (auto simp: kept_outages_def)
  qed
qed

lemma load_file_of: "load_retry_state (file_of record) stage category = Inr r \<Longrightarrow> r = record"
  by (auto simp: load_retry_state_def file_of_def split: if_split_asm)

lemma infra_run_recorded:
  assumes "retry_infrastructure stage now (file_of record) attempts = (file, e, es')" "kept_outages record es"
  shows "\<exists>r. file = file_of r \<and> kept_outages r (es @ es')"
proof (cases "load_retry_state (file_of record) stage ''infrastructure''")
  case (Inl x)
  with assms show ?thesis by (auto simp: retry_infrastructure_def)
next
  case (Inr r0)
  then have "r0 = record" by (rule load_file_of)
  obtain r e' es1 where l: "retry_loop stage (resume_record now record) attempts = (r, e', es1)"
    by (cases "retry_loop stage (resume_record now record) attempts")
  with Inr \<open>r0 = record\<close> assms(1) have "file = file_of r" "es' = es1" by (auto simp: retry_infrastructure_def)
  with retry_loop_recorded [OF l resume_recorded [OF assms(2)]] show ?thesis by auto
qed

lemma infra_runs_recorded:
  "infra_runs stage (file_of record) runs = (file, es') \<Longrightarrow> kept_outages record es \<Longrightarrow> \<exists>r. file = file_of r \<and> kept_outages r (es @ es')"
proof (induction runs arbitrary: "record" es es' "file")
  case Nil
  then show ?case by auto
next
  case (Cons run runs)
  obtain now attempts where run: "run = (now, attempts)" by (cases run)
  obtain file1 e1 es1 where i: "retry_infrastructure stage now (file_of record) attempts = (file1, e1, es1)"
    by (cases "retry_infrastructure stage now (file_of record) attempts")
  obtain r1 where r1: "file1 = file_of r1" "kept_outages r1 (es @ es1)" using infra_run_recorded [OF i Cons.prems(2)] by blast
  obtain file2 es2 where rest: "infra_runs stage file1 runs = (file2, es2)" by (cases "infra_runs stage file1 runs")
  from Cons.prems(1) have "file = file2" "es' = es1 @ es2" by (simp_all add: run i rest)
  with Cons.IH [OF rest [unfolded r1(1)] r1(2)] show ?case by simp
qed

section \<open>Reviews over restarts\<close>

fun review_runs ::
  "string \<Rightarrow> retry_file \<times> retry_file \<Rightarrow> invocation list list \<Rightarrow> (retry_file \<times> retry_file) \<times> retry_ending list" where
  "review_runs stage files [] = (files, [])"
| "review_runs stage files (run # rest) =
     (case retry_review stage files run of (files', _, es) \<Rightarrow>
        (case review_runs stage files' rest of (files'', es') \<Rightarrow> (files'', es @ es')))"

fun count_ending :: "int \<Rightarrow> retry_ending \<Rightarrow> int" where
  "count_ending n (EndReturned v) = 0"
| "count_ending n EndTimeout = n + 1"
| "count_ending n _ = n"

definition timeouts_since_return :: "retry_ending list \<Rightarrow> int" where
  "timeouts_since_return es = foldl count_ending 0 es"

definition within_budget :: "int \<Rightarrow> retry_ending list \<Rightarrow> bool" where
  \<comment> \<open>every call is made with fewer than two timeouts since the last review that returned\<close>
  "within_budget n es \<longleftrightarrow> (\<forall>k<length es. foldl count_ending n (take k es) < 2)"

lemma within_budget_Cons: "within_budget n (e # es) \<longleftrightarrow> n < 2 \<and> within_budget (count_ending n e) es"
proof -
  have "(\<forall>k<length (e # es). P k) \<longleftrightarrow> P 0 \<and> (\<forall>k<length es. P (Suc k))" for P
    by (auto simp: less_Suc_eq_0_disj)
  then show ?thesis by (simp add: within_budget_def)
qed

lemma within_budget_append: "within_budget n (es @ es') \<longleftrightarrow> within_budget n es \<and> within_budget (foldl count_ending n es) es'"
  by (induction es arbitrary: n) (auto simp: within_budget_Cons within_budget_def [of _ "[]"])

fun stored_count :: "retry_file \<Rightarrow> pyval" where
  "stored_count (RetryFile (VDict r)) = get_item r ''timeout_count''"
| "stored_count _ = VInt 0"

lemma stored_written:
  "stored_count (file_of (timeout_record stage n now)) = VInt n" "stored_count (file_of (reset_record stage)) = VInt 0"
  by (simp_all add: file_of_def timeout_record_def reset_record_def get_item_def dict_get_default_def)

lemma review_loop_budget:
  "review_loop stage n infra review run = ((infra', review'), e, es) \<Longrightarrow> stored_count review = VInt n \<Longrightarrow>
     within_budget n es \<and> stored_count review' = VInt (foldl count_ending n es)"
proof (induction stage n infra review run arbitrary: infra' review' e es rule: review_loop.induct)
  case (1 stage n infra review)
  then show ?case by (simp add: within_budget_def)
next
  case (2 stage n infra review i rest)
  show ?case
  proof (cases "n \<ge> 2")
    case True
    with 2(2,3) show ?thesis by (simp add: within_budget_def)
  next
    case False
    obtain infra1 e1 ev where i: "retry_infrastructure stage (iv_now i) infra (iv_attempts i) = (infra1, e1, ev)"
      by (cases "retry_infrastructure stage (iv_now i) infra (iv_attempts i)")
    show ?thesis
    proof (cases "e1 = EndTimeout")
      case True
      obtain infra2 review2 e2 es2 where rest:
        "review_loop stage (n + 1) infra1 (file_of (timeout_record stage (n + 1) (iv_after i))) rest = ((infra2, review2), e2, es2)"
        by (metis prod.collapse)
      have "within_budget (n + 1) es2 \<and> stored_count review2 = VInt (foldl count_ending (n + 1) es2)"
        by (rule 2(1) [OF False i [symmetric] refl True rest stored_written(1)])
      moreover from 2(2) have "review' = review2" "es = EndTimeout # es2" using False True by (simp_all add: i rest)
      ultimately show ?thesis using False by (simp add: within_budget_Cons)
    next
      case other: False
      with 2(2,3) False show ?thesis
        by (cases e1) (auto simp: i within_budget_Cons within_budget_def [of _ "[]"] stored_written split: if_split_asm)
    qed
  qed
qed

lemma loaded_count:
  assumes "load_retry_state review stage ''review_timeouts'' = Inr r"
  shows "dict_get_default r ''timeout_count'' (VInt 0) = stored_count review"
proof (cases review)
  case (RetryFile v)
  with assms have "v = VDict r" "valid_count ''review_timeouts'' (get_item r ''timeout_count'')"
    by (auto simp: load_retry_state_def valid_record_def count_key_def split: option.splits if_split_asm elim: as_dict.elims)
  then show ?thesis
    by (auto simp: RetryFile valid_count_def get_item_def dict_get_default_def split: option.splits)
qed (use assms in \<open>auto simp: load_retry_state_def dict_get_default_def\<close>)

lemma review_runs_budget:
  "review_runs stage files runs = (files', es) \<Longrightarrow> stored_count (snd files) = VInt n \<Longrightarrow>
     within_budget n es \<and> stored_count (snd files') = VInt (foldl count_ending n es)"
proof (induction runs arbitrary: files files' es n)
  case Nil
  then show ?case by (simp add: within_budget_def)
next
  case (Cons run runs)
  obtain files1 e1 es1 where r: "retry_review stage files run = (files1, e1, es1)" by (cases "retry_review stage files run")
  obtain files2 es2 where rest: "review_runs stage files1 runs = (files2, es2)" by (cases "review_runs stage files1 runs")
  from Cons.prems(1) have e: "files' = files2" "es = es1 @ es2" by (simp_all add: r rest)
  have "within_budget n es1 \<and> stored_count (snd files1) = VInt (foldl count_ending n es1)"
  proof (cases "load_retry_state (snd files) stage ''review_timeouts''")
    case (Inl x)
    with r Cons.prems(2) show ?thesis by (auto simp: retry_review_def within_budget_def)
  next
    case (Inr rec)
    then have "dict_get_default rec ''timeout_count'' (VInt 0) = VInt n" using loaded_count Cons.prems(2) by simp
    with r Inr have "review_loop stage n (fst files) (snd files) run = (files1, e1, es1)" by (simp add: retry_review_def)
    with review_loop_budget [of stage n "fst files" "snd files" run "fst files1" "snd files1" e1 es1] Cons.prems(2)
    show ?thesis by simp
  qed
  with Cons.IH [OF rest] show ?case by (simp add: e within_budget_append)
qed

text \<open>An outage before a restart, and a review that times out in two processes.\<close>

definition demo_attempt :: "(real \<times> bool) list \<Rightarrow> operation_outcome \<Rightarrow> real \<Rightarrow> attempt" where
  "demo_attempt readings outcome time = \<lparr>at_readings = readings, at_cancelled = False, at_outcome = outcome, at_time = time\<rparr>"

definition demo_runs :: "(real \<times> attempt list) list" where
  "demo_runs = [(100, [demo_attempt [] (OpOutage ''overloaded_error'') 100]),
     (130, [demo_attempt [(130, False), (161, False)] (OpReturned VNull) 170])]"

lemmas retry_eval = retry_infrastructure_def load_retry_state_def resume_record_def wait_round_def wait_end_def outage_record_def
  finish_record_def file_of_def waiting_def valid_record_def valid_count_def count_key_def infra_statuses_def time_fields_def is_time_def
  poll_seconds_def get_item_def dict_get_default_def dict_has_def dict_update_def py_in_def demo_attempt_def Let_def

lemma demo_infra: "\<exists>file. infra_runs ''stage'' NoFile demo_runs = (file, [OpStart None, OutageAt 100, OpStart (Some 161)])"
  by (simp add: demo_runs_def retry_eval)

definition demo_reviews :: "invocation list list" where
  "demo_reviews = [[\<lparr>iv_now = 1, iv_after = 2, iv_attempts = [demo_attempt [] OpTimedOut 2]\<rparr>],
     [\<lparr>iv_now = 3, iv_after = 4, iv_attempts = [demo_attempt [] OpTimedOut 4]\<rparr>],
     [\<lparr>iv_now = 5, iv_after = 6, iv_attempts = [demo_attempt [] (OpReturned VNull) 6]\<rparr>]]"

lemma demo_review_runs: "\<exists>files. review_runs ''stage'' (NoFile, NoFile) demo_reviews = (files, [EndTimeout, EndTimeout])"
  by (simp add: demo_reviews_def retry_review_def timeout_record_def retry_eval)

section \<open>Properties\<close>

text \<open>C27: An outage delays, and is counted, across restarts.  However often the process is restarted, the retry count in the state file is the
  number of outages recorded since the file was absent, and no operation follows an outage before the poll interval has
  passed since that outage, whichever process recorded it.\<close>

theorem outages_durable:
  assumes "infra_runs stage NoFile runs = (file, es)"
  shows "successively gap es
     \<and> (if outages es = 0 then file = NoFile
        else \<exists>r. file = RetryFile (VDict r) \<and> get_item r ''retry_count'' = VInt (int (outages es)))"
proof -
  have "kept_outages [] []" by (simp add: kept_outages_def)
  moreover have "infra_runs stage (file_of []) runs = (file, es)" using assms by (simp add: file_of_def)
  ultimately obtain r where r: "file = file_of r" "kept_outages r es" using infra_runs_recorded [of stage "[]" runs "file" es "[]"] by auto
  moreover have "r \<noteq> []" if "get_item r ''retry_count'' = VInt n" for n
    using that by (auto simp: get_item_def dict_get_default_def)
  ultimately show ?thesis by (auto simp: kept_outages_def file_of_def split: if_split_asm)
qed

theorem outages_durable_witness:
  "gap (OutageAt 100) (OpStart (Some 161))
     \<and> (\<exists>file r. infra_runs ''stage'' NoFile demo_runs = (file, [OpStart None, OutageAt 100, OpStart (Some 161)])
          \<and> file = RetryFile (VDict r) \<and> get_item r ''retry_count'' = VInt 1)"
proof -
  obtain "file" where f: "infra_runs ''stage'' NoFile demo_runs = (file, [OpStart None, OutageAt 100, OpStart (Some 161)])"
    using demo_infra by blast
  from outages_durable [OF this] f show ?thesis by auto
qed

text \<open>Two review timeouts are the most.  Over any sequence of processes, each call of a review is made with fewer than two timeouts since
  the last review that returned, so there are never more than two, and the state file always holds their number.\<close>

theorem review_budget:
  assumes "review_runs stage (infra, NoFile) runs = (files, es)"
  shows "(\<forall>k<length es. timeouts_since_return (take k es) < 2) \<and> timeouts_since_return es \<le> 2
     \<and> stored_count (snd files) = VInt (timeouts_since_return es)"
proof -
  from review_runs_budget [OF assms, of 0] have b: "within_budget 0 es" "stored_count (snd files) = VInt (timeouts_since_return es)"
    by (simp_all add: timeouts_since_return_def)
  have "timeouts_since_return es \<le> 2"
  proof (cases es rule: rev_cases)
    case (snoc es' e)
    with b(1) have "foldl count_ending 0 es' < 2" by (auto simp: within_budget_append within_budget_Cons)
    then show ?thesis by (cases e) (simp_all add: snoc timeouts_since_return_def)
  qed (simp add: timeouts_since_return_def)
  with b show ?thesis by (simp add: within_budget_def timeouts_since_return_def)
qed

theorem review_budget_witness:
  "timeouts_since_return [EndTimeout] < 2 \<and>
     (\<exists>files. review_runs ''stage'' (NoFile, NoFile) demo_reviews = (files, [EndTimeout, EndTimeout]) \<and> stored_count (snd files) = VInt 2)"
proof -
  obtain files where f: "review_runs ''stage'' (NoFile, NoFile) demo_reviews = (files, [EndTimeout, EndTimeout])"
    using demo_review_runs by blast
  note b = review_budget [OF f]
  from b [THEN conjunct1, rule_format, of 1] have "timeouts_since_return [EndTimeout] < 2" by simp
  with f b show ?thesis by (auto simp: timeouts_since_return_def)
qed

end
