(* ===== verification/DeviceFailures.thy ===== *)
theory DeviceFailures
  imports TokenReports
begin

text \<open>
  Device outages inside evaluation jobs (src/src/aka/light/evaluation/evaluation_failures.py): which job results report an
  unavailable GPU rather than a failed kernel.  Texts are over the code points below 256; the two regular expressions
  are written out.
\<close>

section \<open>Texts\<close>

definition lower_char :: "char \<Rightarrow> char" where
  "lower_char c = (if is_upper_char c \<or> char_in (CHR 0xC0) (CHR 0xD6) c \<or> char_in (CHR 0xD8) (CHR 0xDE) c
     then char_of (of_char c + 32 :: nat) else c)"

definition lower :: "string \<Rightarrow> string" where
  "lower s = map lower_char s"

definition word_char :: "char \<Rightarrow> bool" where
  \<comment> \<open>the class \<open>\w\<close>: \<open>str.isalnum\<close> or an underscore\<close>
  "word_char c = (is_lower_char c \<or> is_upper_char c \<or> is_digit_char c \<or> c = CHR ''_''
     \<or> c \<in> set [CHR 0xAA, CHR 0xB2, CHR 0xB3, CHR 0xB5, CHR 0xB9, CHR 0xBA, CHR 0xBC, CHR 0xBD, CHR 0xBE]
     \<or> char_in (CHR 0xC0) (CHR 0xD6) c \<or> char_in (CHR 0xD8) (CHR 0xF6) c \<or> char_in (CHR 0xF8) (CHR 0xFF) c)"

fun word_runs :: "string \<Rightarrow> string list" where
  \<comment> \<open>the maximal runs of word characters, with empty ones between other characters\<close>
  "word_runs [] = [[]]"
| "word_runs (c # s) =
     (if word_char c then (case word_runs s of w # ws \<Rightarrow> (c # w) # ws | [] \<Rightarrow> [[c]]) else [] # word_runs s)"

definition device_errors :: "string list" where
  "device_errors = [''all cuda-capable devices are busy or unavailable'', ''all hggc-capable devices are busy or unavailable'',
     ''cudaerrordevicesunavailable'', ''hggcerrordevicesunavailable'', ''cuda error: system not yet initialized'',
     ''cudaerrorsystemnotready'', ''no cuda gpus are available'']"

definition device_error :: "string \<Rightarrow> bool" where
  "device_error message = list_ex (\<lambda>marker. contains_sub marker (lower message)) device_errors"

definition numerical_text :: "string \<Rightarrow> bool" where
  \<comment> \<open>\<open>mismatch|not close|\b(?:nan|inf|infinity|nonfinite)\b\<close>, ignoring case\<close>
  "numerical_text message =
     (contains_sub ''mismatch'' (lower message) \<or> contains_sub ''not close'' (lower message)
      \<or> list_ex (\<lambda>w. w \<in> set [''nan'', ''inf'', ''infinity'', ''nonfinite'']) (word_runs (lower message)))"

section \<open>Walking a result\<close>

lemma size_dict: "(k, v) \<in> set d \<Longrightarrow> size v < size (VDict d)"
  by (induction d) auto

lemma size_get_item: "size (get_item d k) < size (VDict d)"
proof (cases "map_of d k")
  case None
  then show ?thesis by (simp add: get_item_def dict_get_default_def)
next
  case (Some v)
  then show ?thesis using size_dict [OF map_of_SomeD [OF Some]] by (simp add: get_item_def dict_get_default_def)
qed

definition message_keys :: "string list" where
  "message_keys = [''message'', ''reason'', ''error'', ''traceback'', ''details'']"

function messages :: "pyval \<Rightarrow> string list" where
  "messages v =
     (case v of
        VStr s \<Rightarrow> [s]
      | VDict d \<Rightarrow> concat (map (\<lambda>k. messages (get_item d k)) message_keys)
      | _ \<Rightarrow> [])"
  by pat_completeness auto
termination
  by (relation "measure size") (use size_get_item in auto)

definition result_keys :: "string list" where
  "result_keys = [''result'', ''abba'', ''sdk_results'', ''runs'', ''baseline'', ''candidate'']"

function results_in :: "pyval \<Rightarrow> pyval dict list" where
  "results_in v =
     (case v of
        VList vs \<Rightarrow> concat (map results_in vs)
      | VDict d \<Rightarrow> d # concat (map (\<lambda>k. results_in (get_item d k)) result_keys)
      | _ \<Rightarrow> [])"
  by pat_completeness auto
termination
proof (relation "measure size")
  fix v x vs
  assume "v = VList vs" "x \<in> set vs"
  then show "(x, v) \<in> measure size" by (induction vs arbitrary: v) auto
qed (use size_get_item in auto)

declare messages.simps [simp del] results_in.simps [simp del]

fun list_items :: "pyval \<Rightarrow> pyval list" where
  "list_items (VList vs) = vs"
| "list_items _ = []"

definition dict_list :: "pyval \<Rightarrow> pyval dict list" where
  \<comment> \<open>the dictionaries in a list\<close>
  "dict_list v = List.map_filter as_dict (list_items v)"

definition dict_values :: "pyval \<Rightarrow> pyval dict list" where
  \<comment> \<open>the dictionaries among the values of a dictionary\<close>
  "dict_values v = (case as_dict v of None \<Rightarrow> [] | Some d \<Rightarrow> List.map_filter as_dict (map snd d))"

section \<open>One result\<close>

definition failed_entries :: "pyval dict \<Rightarrow> pyval dict list" where
  "failed_entries r =
     (case as_dict (get_item r ''passed'') of
        None \<Rightarrow> []
      | Some passed \<Rightarrow> concat (map (\<lambda>stage.
          case as_dict (get_item passed stage) of
            None \<Rightarrow> []
          | Some verdicts \<Rightarrow>
              filter (\<lambda>e. get_item e ''status'' = VStr ''failed'')
                (if dict_has verdicts ''status'' then [verdicts] else dict_values (VDict verdicts)))
          [''compile'', ''correctness'', ''performance'']))"

definition shape_rows :: "pyval dict \<Rightarrow> pyval dict list" where
  "shape_rows r =
     concat (map (\<lambda>section. case as_dict (get_item r section) of None \<Rightarrow> [] | Some data \<Rightarrow> dict_values (get_item data ''shapes''))
       [''correctness'', ''performance''])"

definition case_rows :: "pyval dict \<Rightarrow> pyval dict list" where
  "case_rows r = concat (map (\<lambda>shape. dict_list (get_item shape ''cases'')) (shape_rows r))"

definition comparisons :: "pyval dict \<Rightarrow> pyval dict list" where
  "comparisons r =
     concat (map (\<lambda>c. concat (map (\<lambda>field. dict_list (get_item c field)) [''outputs'', ''mutated_inputs'', ''unexpected_mutations'']))
       (case_rows r))"

definition failure_texts :: "pyval dict \<Rightarrow> string list" where
  "failure_texts r = map str_of (filter is_str (list_items (get_item r ''failures'')))"

definition numerical_failure :: "pyval dict \<Rightarrow> bool" where
  \<comment> \<open>where the code returns \<open>None\<close>: a numerical failure that no device error explains\<close>
  "numerical_failure r =
     (list_ex (\<lambda>t. \<not> device_error t \<and> numerical_text t) (failure_texts r)
      \<or> list_ex (\<lambda>c. get_item c ''passed'' = VBool False \<and> \<not> list_ex device_error (messages (get_item c ''error'')))
          (comparisons r))"

definition diagnostics :: "pyval dict \<Rightarrow> pyval list" where
  "diagnostics r = list_items (dict_get_default r ''diagnostics'' (get_item r ''actionable_diagnostics''))"

definition result_messages :: "pyval dict \<Rightarrow> string list" where
  \<comment> \<open>in the order the code collects them, up to the grouping of shapes and cases\<close>
  "result_messages r =
     messages (get_item r ''error'') @ failure_texts r @ concat (map messages (diagnostics r))
     @ concat (map (\<lambda>e. messages (VDict e)) (failed_entries r))
     @ concat (map (\<lambda>shape. messages (get_item shape ''error'')
         @ concat (map (\<lambda>c. messages (get_item c ''error'')
             @ concat (map (\<lambda>field. concat (map (\<lambda>x. messages (get_item x ''error'')) (dict_list (get_item c field))))
                 [''outputs'', ''mutated_inputs'', ''unexpected_mutations'']))
             (dict_list (get_item shape ''cases'')))) (shape_rows r))"

definition embedded_device_failure :: "pyval dict \<Rightarrow> string option" where
  "embedded_device_failure job =
     (if get_item job ''status'' \<notin> {VStr ''succeeded'', VStr ''failed''} then None
      else let rs = results_in (get_item job ''result'') in
        if list_ex numerical_failure rs then None
        else List.find device_error (concat (map result_messages rs)))"

lemma find_exists: "(\<exists>m. List.find P xs = Some m) \<longleftrightarrow> (\<exists>x\<in>set xs. P x)"
  by (induction xs) auto

section \<open>Properties\<close>

text \<open>A numerical failure is never blamed on the device.  A job is reported as a device outage only with a message that names one, and
  only when no result in it, however deeply nested, has a failed comparison or a mismatch text that a device error does not
  explain; conversely such a job with a device message is always reported.\<close>

theorem device_failure_exact:
  "(\<exists>m. embedded_device_failure job = Some m) \<longleftrightarrow>
     get_item job ''status'' \<in> {VStr ''succeeded'', VStr ''failed''}
     \<and> (\<exists>r\<in>set (results_in (get_item job ''result'')). \<exists>m\<in>set (result_messages r). device_error m)
     \<and> \<not> (\<exists>r\<in>set (results_in (get_item job ''result'')). numerical_failure r)"
  by (simp add: embedded_device_failure_def Let_def list_ex_iff find_exists)

end
