(* ===== verification/GatewayJobs.thy ===== *)
theory GatewayJobs
  imports DeviceFailures SessionClock
begin

text \<open>
  Physical gateway jobs (src/src/aka/light/execution/gateway_jobs.py): which outcomes are final, which are retried, and the
  durable loop that submits, polls and recovers one job.  The gateway and the clock are the inputs of the loop, one record per
  iteration; when they end, or a call crashes, the process has stopped and the next call starts from the checkpoint.  A
  process result is given by what the code reads of it: its return code, the JSON object on its standard output and the
  matches of the regular expressions on its streams.  Job ids and statuses are texts.
\<close>

section \<open>Classification\<close>

record gw_process =
  gp_returncode :: int
  gp_job :: "pyval dict option"   \<comment> \<open>\<open>job_from_process\<close>\<close>
  gp_names_job :: bool            \<comment> \<open>a stream mentions a \<open>job_id\<close>\<close>
  gp_http :: "int option"         \<comment> \<open>the status of a line \<open>agate: [4xx]\<close> or \<open>[5xx]\<close>\<close>
  gp_usage :: bool                \<comment> \<open>an argparse usage error\<close>

record submit_rejection =
  rj_process :: gw_process
  rj_status :: "int option"

definition retry_delay :: "int \<Rightarrow> real" where
  "retry_delay n = (if n < 5 then 5 * 2 powi (n - 1) else 60)"

definition request_is_infrastructure :: "gw_process \<Rightarrow> bool" where
  "request_is_infrastructure p =
     (case gp_job p of
        None \<Rightarrow> False
      | Some payload \<Rightarrow>
          (case as_dict (dict_get_default payload ''error'' (VDict payload)) of
             None \<Rightarrow> False
           | Some e \<Rightarrow>
               \<not> (case as_dict (get_item e ''details'') of None \<Rightarrow> False | Some d \<Rightarrow> get_item d ''cause_class'' = VStr ''InvalidURL'')
               \<and> (get_item e ''error_class'' = VStr ''infra'' \<or> get_item e ''reason'' = VStr ''oss_unavailable'')))"

definition rejection_retryable :: "submit_rejection \<Rightarrow> bool" where
  "rejection_retryable rj =
     ((case rj_status rj of Some s \<Rightarrow> s \<in> {408, 429, 503} | None \<Rightarrow> False) \<or> request_is_infrastructure (rj_process rj))"

definition definitive_status :: "int \<Rightarrow> bool" where
  "definitive_status s = (s < 500 \<and> s \<noteq> 408 \<or> s = 503)"

definition submission_rejection :: "gw_process \<Rightarrow> submit_rejection option" where
  "submission_rejection p =
     (if gp_returncode p = 0 then None
      else if (case gp_job p of Some j \<Rightarrow> truthy (get_item j ''job_id'') | None \<Rightarrow> False) \<or> gp_names_job p then None
      else case gp_http p of
        Some s \<Rightarrow> if definitive_status s then Some \<lparr>rj_process = p, rj_status = Some s\<rparr> else None
      | None \<Rightarrow>
          if gp_returncode p = 2 \<and> gp_usage p then Some \<lparr>rj_process = p, rj_status = None\<rparr>
          else case gp_job p of
            None \<Rightarrow> None
          | Some j \<Rightarrow>
              (case dict_get_default j ''http_status'' (get_item j ''status_code'') of
                 VInt s \<Rightarrow>
                   if truthy (get_item j ''error'') \<and> 400 \<le> s \<and> s < 600 \<and> definitive_status s
                   then Some \<lparr>rj_process = p, rj_status = Some s\<rparr> else None
               | _ \<Rightarrow> None))"

definition retry_kind :: "pyval dict option \<Rightarrow> string option" where
  "retry_kind job =
     (case job of
        None \<Rightarrow> None
      | Some j \<Rightarrow>
          if get_item j ''status'' \<noteq> VStr ''failed'' then None
          else (case as_dict (get_item j ''error'') of
                  Some e \<Rightarrow> if get_item e ''error_class'' = VStr ''infra'' then Some ''infra'' else None
                | None \<Rightarrow> None))"

section \<open>What may be cached\<close>

definition positive_time :: "pyval \<Rightarrow> bool" where
  "positive_time v = (case v of VInt i \<Rightarrow> 0 < i | VFloat (Fin x) \<Rightarrow> 0 < x | _ \<Rightarrow> False)"

fun attr_get :: "pyval \<Rightarrow> string \<Rightarrow> pyval \<Rightarrow> pyval option" where
  \<comment> \<open>\<open>v.get(k, default)\<close>; \<open>None\<close> is the \<open>AttributeError\<close> of a value that is no dictionary\<close>
  "attr_get (VDict d) k v = Some (dict_get_default d k v)"
| "attr_get _ k v = None"

definition or_empty :: "pyval \<Rightarrow> pyval" where
  "or_empty v = (if truthy v then v else VDict [])"

fun iter_dicts :: "pyval \<Rightarrow> pyval dict list option" where
  \<comment> \<open>\<open>[row for row in v if isinstance(row, dict)]\<close>\<close>
  "iter_dicts (VList vs) = Some (List.map_filter as_dict vs)"
| "iter_dicts (VTuple vs) = Some (List.map_filter as_dict vs)"
| "iter_dicts (VDict d) = Some []"
| "iter_dicts (VStr s) = Some []"
| "iter_dicts _ = None"

definition shape_complete :: "bool \<Rightarrow> pyval dict \<Rightarrow> pyval \<Rightarrow> pyval \<Rightarrow> string \<Rightarrow> bool option" where
  \<comment> \<open>one round of the loop; \<open>None\<close> where a value of the wrong type raises\<close>
  "shape_complete correctness_only compile_result correctness performance shape =
     Option.bind (if dict_has compile_result ''status'' then Some (VDict compile_result)
                  else Some (dict_get_default compile_result shape (VDict []))) (\<lambda>compilation.
     Option.bind (attr_get compilation ''status'' VNull) (\<lambda>compiled.
     if compiled = VStr ''failed'' then Some True
     else if compiled \<noteq> VStr ''passed'' then Some False
     else Option.bind (attr_get correctness shape (VDict [])) (\<lambda>c.
       Option.bind (attr_get c ''status'' VNull) (\<lambda>status.
       if status = VStr ''failed'' then Some True
       else if status \<noteq> VStr ''passed'' then Some False
       else if correctness_only then Some True
       else Option.bind (attr_get performance shape (VDict [])) (\<lambda>p.
         Option.bind (attr_get p ''samples'' (VList [])) (\<lambda>samples.
         Option.bind (iter_dicts samples) (\<lambda>rows.
         let values = map (\<lambda>row. get_item row ''end_to_end_time_ms'') rows in
         Some (values \<noteq> [] \<and> list_all positive_time values))))))))"

fun all_shapes :: "(string \<Rightarrow> bool option) \<Rightarrow> string list \<Rightarrow> bool option" where
  "all_shapes f [] = Some True"
| "all_shapes f (s # ss) = (case f s of Some True \<Rightarrow> all_shapes f ss | r \<Rightarrow> r)"

definition complete_evaluation :: "(pyval dict \<Rightarrow> pyval dict \<Rightarrow> bool) \<Rightarrow> pyval dict \<Rightarrow> pyval dict \<Rightarrow> bool option" where
  \<comment> \<open>\<open>native_abba\<close> tells whether \<open>parse_native_abba\<close> accepts; the shapes of a request are a dictionary\<close>
  "complete_evaluation native_abba result request =
     (if truthy (get_item request ''abba'') then Some (native_abba result request)
      else Option.bind (attr_get (get_item request ''reference'') ''shapes'' (VDict [])) (\<lambda>shapes.
        case (as_dict shapes, as_dict (get_item result ''passed'')) of
          (Some ss, Some passed) \<Rightarrow>
            (case as_dict (get_item passed ''compile'') of
               None \<Rightarrow> Some False
             | Some compile_result \<Rightarrow>
                 if ss = [] then Some False
                 else Option.bind (attr_get (or_empty (get_item result ''performance'')) ''shapes'' (VDict [])) (\<lambda>performance.
                   all_shapes (shape_complete (get_item request ''mode'' = VStr ''correctness_only'') compile_result
                     (or_empty (get_item passed ''correctness'')) performance) (dict_keys ss)))
        | _ \<Rightarrow> Some False))"

definition cached_errors :: "string list" where
  "cached_errors = [''candidate'', ''compilation'', ''correctness'', ''validation'']"

definition cacheable_job :: "(pyval dict \<Rightarrow> pyval dict \<Rightarrow> bool) \<Rightarrow> pyval \<Rightarrow> pyval dict \<Rightarrow> bool" where
  \<comment> \<open>the identity of a job is a dictionary, empty when there is none, and its request is one\<close>
  "cacheable_job native_abba v identity =
     (case as_dict v of
        None \<Rightarrow> False
      | Some job \<Rightarrow>
          if retry_kind (Some job) \<noteq> None \<or> embedded_device_failure job \<noteq> None then False
          else if get_item job ''status'' = VStr ''succeeded''
          then (case as_dict (get_item job ''result'') of
                  None \<Rightarrow> False
                | Some result \<Rightarrow>
                    if result = [] \<or> truthy (get_item job ''error'') then False
                    else (case as_dict (dict_get_default identity ''request'' (dict_get_default identity ''payload'' (VDict []))) of
                        Some request \<Rightarrow>
                          if get_item identity ''kind'' \<in> {VStr ''run'', VStr ''eval''} \<and> dict_has request ''reference''
                          then complete_evaluation native_abba result request = Some True else True
                      | None \<Rightarrow> True))
          else if get_item job ''status'' \<noteq> VStr ''failed'' then False
          else (case as_dict (or_empty (get_item job ''error'')) of
              Some e \<Rightarrow> is_str (get_item e ''error_class'') \<and> str_of (get_item e ''error_class'') \<in> set cached_errors
            | None \<Rightarrow> False))"

section \<open>The durable loop\<close>

definition evidence_unavailable :: exn where
  "evidence_unavailable = OtherException ''EvidenceUnavailable'' ''Gateway job requires reconciliation''"

definition device_unavailable :: exn where
  "device_unavailable = OtherException ''EvaluationDeviceUnavailable'' ''Evaluation device unavailable''"

record job_options =
  jo_identity :: pyval
  jo_budget :: real
  jo_idempotent :: bool
  jo_max_retries :: "int option"
  jo_max_infra :: "int option"
  jo_max_device :: "int option"
  jo_device_delay :: "real option"
  jo_max_waits :: int

record job_checkpoint =
  cp_phase :: string
  cp_submission :: nat
  cp_retries :: "int dict"
  cp_identity :: pyval
  cp_key :: "string option"
  cp_process :: "gw_process option"

record job_memory =
  \<comment> \<open>the local variables; phase and process are those of \<open>state\<close>\<close>
  jm_phase :: "string option"
  jm_process :: "gw_process option"
  jm_submission :: nat
  jm_retries :: "int dict"
  jm_key :: string
  jm_deadline :: real
  jm_waits :: int
  jm_probe :: bool
  jm_rejection :: "submit_rejection option"

datatype submit_result = SubmitDone gw_process | SubmitRejected submit_rejection | SubmitUncertain gw_process | SubmitCrash
datatype poll_result = PollDone gw_process | PollMissing string | PollUnavailable | PollCrash

record job_round =
  jr_now :: real       \<comment> \<open>the clock at the head of the iteration\<close>
  jr_submit :: submit_result
  jr_after :: real     \<comment> \<open>after a submission without an answer\<close>
  jr_poll :: poll_result
  jr_wait :: real      \<comment> \<open>when a new wait window starts\<close>
  jr_delay :: real     \<comment> \<open>before the delay of a retry\<close>

datatype job_event = Saved job_checkpoint | Submitted nat "string option" | Polled bool
  \<comment> \<open>a durable write; \<open>submit\<close> called for this number and key; \<open>poll\<close> called, as a recovery probe or not\<close>

datatype job_ending = JobReturned gw_process | JobRaised exn | JobStopped

type_synonym job_flow = "job_event list \<times> (job_memory + job_ending)"
  \<comment> \<open>the loop goes on, or ends\<close>

definition saved :: "job_options \<Rightarrow> job_memory \<Rightarrow> string \<Rightarrow> gw_process option \<Rightarrow> job_event" where
  "saved opts m phase process =
     Saved \<lparr>cp_phase = phase, cp_submission = jm_submission m, cp_retries = jm_retries m, cp_identity = jo_identity opts,
       cp_key = (if jo_idempotent opts then Some (jm_key m) else None), cp_process = process\<rparr>"

definition to_state :: "string \<Rightarrow> gw_process option \<Rightarrow> job_memory \<Rightarrow> job_memory" where
  \<comment> \<open>\<open>state = save(phase, process)\<close>\<close>
  "to_state phase process m = m\<lparr>jm_phase := Some phase, jm_process := process\<rparr>"

definition job_id_of :: "pyval dict option \<Rightarrow> string option" where
  "job_id_of job =
     (case job of
        Some j \<Rightarrow> if nonempty_str (get_item j ''job_id'') then Some (str_of (get_item j ''job_id'')) else None
      | None \<Rightarrow> None)"

definition saved_job_id :: "job_memory \<Rightarrow> string option" where
  "saved_job_id m = Option.bind (jm_process m) (\<lambda>p. job_id_of (gp_job p))"

definition retry_wait ::
  "job_options \<Rightarrow> (string \<Rightarrow> string) \<Rightarrow> real \<Rightarrow> string option \<Rightarrow> job_memory \<Rightarrow> (job_event \<times> job_memory) option" where
  "retry_wait opts sha256 now previous m =
     (if jm_waits m \<ge> jo_max_waits opts then None
      else let key = (if jo_idempotent opts
                      then ''wait-retry:'' @ sha256 (case previous of Some j \<Rightarrow> j | None \<Rightarrow> jm_key m) else jm_key m);
               m1 = m\<lparr>jm_waits := jm_waits m + 1, jm_deadline := now + jo_budget opts, jm_key := key\<rparr> in
        Some (saved opts m1 ''retry_pending'' None, to_state ''retry_pending'' None m1))"

definition wait_or ::
  "job_options \<Rightarrow> (string \<Rightarrow> string) \<Rightarrow> job_round \<Rightarrow> string option \<Rightarrow> job_ending \<Rightarrow> job_memory \<Rightarrow> job_flow" where
  "wait_or opts sha256 r previous ending m =
     (case retry_wait opts sha256 (jr_wait r) previous m of
        Some (e, m') \<Rightarrow> ([e], Inl m')
      | None \<Rightarrow> ([], Inr ending))"

definition prepend :: "job_event list \<Rightarrow> job_flow \<Rightarrow> job_flow" where
  "prepend es flow = (es @ fst flow, snd flow)"

definition retry_total :: "int dict \<Rightarrow> int" where
  "retry_total retries = sum_list (map snd retries)"

definition count_retry :: "string \<Rightarrow> job_memory \<Rightarrow> job_memory" where
  "count_retry kind m = m\<lparr>jm_retries := dict_set (jm_retries m) kind (dict_get_default (jm_retries m) kind 0 + 1)\<rparr>"

definition retries_spent :: "job_options \<Rightarrow> job_memory \<Rightarrow> string \<Rightarrow> bool" where
  "retries_spent opts m kind =
     ((kind = ''infra'' \<and> (case jo_max_infra opts of Some n \<Rightarrow> dict_get_default (jm_retries m) ''infra'' 0 \<ge> n | None \<Rightarrow> False))
      \<or> (case jo_max_retries opts of Some n \<Rightarrow> retry_total (jm_retries m) \<ge> n | None \<Rightarrow> False))"

definition resubmit :: "job_options \<Rightarrow> job_round \<Rightarrow> string option \<Rightarrow> gw_process \<Rightarrow> job_memory \<Rightarrow> job_flow" where
  \<comment> \<open>the end of an iteration, from the test on \<open>kind\<close>\<close>
  "resubmit opts r kind p m =
     (case kind of
        None \<Rightarrow> ([], Inr (JobReturned p))
      | Some k \<Rightarrow>
          if retries_spent opts m k then ([], Inr (JobReturned p))
          else let m1 = count_retry k m;
                   delay = (case (k = ''device'', jo_device_delay opts) of (True, Some d) \<Rightarrow> d
                            | _ \<Rightarrow> retry_delay (retry_total (jm_retries m1))) in
            if jm_deadline m - jr_delay r \<le> delay
            then ([], Inr (if k = ''device'' then JobRaised device_unavailable else JobReturned p))
            else ([saved opts m1 ''retry_pending'' None], Inl (to_state ''retry_pending'' None m1)))"

definition job_name :: "pyval dict option \<Rightarrow> exn + string" where
  \<comment> \<open>\<open>job["job_id"].encode()\<close>\<close>
  "job_name job =
     (case Option.bind job (\<lambda>j. map_of j ''job_id'') of
        None \<Rightarrow> Inl (OtherException ''KeyError'' ''job_id'')
      | Some (VStr s) \<Rightarrow> Inr s
      | Some v \<Rightarrow> Inl (OtherException ''AttributeError'' ''encode''))"

definition retry_key :: "(string \<Rightarrow> string) \<Rightarrow> string \<Rightarrow> string \<Rightarrow> pyval dict option \<Rightarrow> string" where
  "retry_key sha256 kind name job =
     (let reason = (case Option.bind job (\<lambda>j. as_dict (get_item j ''error'')) of Some e \<Rightarrow> get_item e ''reason'' | None \<Rightarrow> VNull) in
      (if kind = ''device'' then ''eval-device-retry:''
       else if reason = VStr ''logs_unavailable'' then ''logs-retry:'' else ''infra-retry:'')
      @ sha256 name)"

definition conclude_job :: "job_options \<Rightarrow> (string \<Rightarrow> string) \<Rightarrow> job_round \<Rightarrow> gw_process \<Rightarrow> job_memory \<Rightarrow> job_flow" where
  \<comment> \<open>a terminal job\<close>
  "conclude_job opts sha256 r p m =
     (let kind = retry_kind (gp_job p);
          device = jo_max_device opts \<noteq> None \<and> (case gp_job p of Some j \<Rightarrow> embedded_device_failure j \<noteq> None | None \<Rightarrow> False) in
      if kind = None \<and> device \<and> dict_get_default (jm_retries m) ''device'' 0 \<ge> the (jo_max_device opts)
      then ([], Inr (JobRaised device_unavailable))
      else let kind' = (if kind = None \<and> device then Some ''device'' else kind) in
        case kind' of
          Some k \<Rightarrow>
            if \<not> jo_idempotent opts then resubmit opts r kind' p m
            else (case job_name (gp_job p) of
                Inl e \<Rightarrow> ([], Inr (JobRaised e))
              | Inr name \<Rightarrow> resubmit opts r kind' p (m\<lparr>jm_key := retry_key sha256 k name (gp_job p)\<rparr>))
        | None \<Rightarrow> resubmit opts r None p m)"

definition reject :: "job_options \<Rightarrow> job_round \<Rightarrow> submit_rejection \<Rightarrow> job_memory \<Rightarrow> job_flow" where
  "reject opts r rj m =
     prepend [saved opts m ''rejected'' (Some (rj_process rj))]
       (if \<not> rejection_retryable rj then ([], Inr (JobReturned (rj_process rj)))
        else resubmit opts r (Some ''submission'') (rj_process rj)
               (to_state ''rejected'' (Some (rj_process rj)) (m\<lparr>jm_rejection := None\<rparr>)))"

definition terminal_statuses :: "string list" where
  "terminal_statuses = [''succeeded'', ''failed'', ''cancelled'', ''canceled'']"

definition is_terminal :: "pyval dict option \<Rightarrow> bool" where
  "is_terminal job = (case job of None \<Rightarrow> False | Some j \<Rightarrow> get_item j ''status'' \<in> VStr ` set terminal_statuses)"

definition poll_job :: "job_options \<Rightarrow> (string \<Rightarrow> string) \<Rightarrow> job_round \<Rightarrow> gw_process \<Rightarrow> job_memory \<Rightarrow> job_flow" where
  "poll_job opts sha256 r p m =
     (let m1 = m\<lparr>jm_probe := False\<rparr> in
      prepend [Polled (jm_probe m)]
        (case jr_poll r of
           PollCrash \<Rightarrow> ([], Inr JobStopped)
         | PollMissing j \<Rightarrow> wait_or opts sha256 r (Some j) (JobRaised evidence_unavailable) m1
         | PollUnavailable \<Rightarrow> wait_or opts sha256 r (job_id_of (gp_job p)) (JobRaised evidence_unavailable) m1
         | PollDone q \<Rightarrow>
             if is_terminal (gp_job q)
             then prepend [saved opts m1 ''terminal'' (Some q)] (conclude_job opts sha256 r q (to_state ''terminal'' (Some q) m1))
             else let missing = (case submission_rejection q of Some rj \<Rightarrow> rj_status rj = Some 404 | None \<Rightarrow> False);
                      previous = (if missing \<and> saved_job_id m1 \<noteq> None then saved_job_id m1
                                  else if gp_job q \<noteq> None then job_id_of (gp_job q) else saved_job_id m1) in
               wait_or opts sha256 r previous (JobReturned q) m1))"

definition handle_job :: "job_options \<Rightarrow> (string \<Rightarrow> string) \<Rightarrow> job_round \<Rightarrow> gw_process \<Rightarrow> job_memory \<Rightarrow> job_flow" where
  "handle_job opts sha256 r p m =
     (if jm_phase m = Some ''terminal'' then conclude_job opts sha256 r p m else poll_job opts sha256 r p m)"

definition unanswered :: "job_options \<Rightarrow> job_round \<Rightarrow> gw_process \<Rightarrow> job_memory \<Rightarrow> job_flow" where
  \<comment> \<open>neither a job id nor a rejection: the submission stays uncertain\<close>
  "unanswered opts r p m =
     prepend [saved opts m ''submitting'' (Some p)]
       (if \<not> jo_idempotent opts then ([], Inr (JobReturned p))
        else let m1 = count_retry ''transport'' m in
          ([saved opts m1 ''submitting'' (Some p)],
           if jm_deadline m - jr_after r \<le> retry_delay (dict_get_default (jm_retries m1) ''transport'' 0)
           then Inr (JobRaised evidence_unavailable) else Inl m1))"

definition answer_job :: "job_options \<Rightarrow> (string \<Rightarrow> string) \<Rightarrow> job_round \<Rightarrow> gw_process \<Rightarrow> job_memory \<Rightarrow> job_flow" where
  \<comment> \<open>the process \<open>submit\<close> returned, or the one of its \<open>SubmissionUncertain\<close>\<close>
  "answer_job opts sha256 r p m =
     (if job_id_of (gp_job p) \<noteq> None
      then prepend [saved opts m ''accepted'' (Some p)] (handle_job opts sha256 r p (to_state ''accepted'' (Some p) m))
      else case submission_rejection p of
          Some rj \<Rightarrow> reject opts r rj m
        | None \<Rightarrow> unanswered opts r p m)"

definition submit_job :: "job_options \<Rightarrow> (string \<Rightarrow> string) \<Rightarrow> job_round \<Rightarrow> job_memory \<Rightarrow> job_flow" where
  "submit_job opts sha256 r m =
     (let m1 = m\<lparr>jm_submission := jm_submission m + 1\<rparr> in
      prepend [saved opts m1 ''submitting'' None, Submitted (jm_submission m1) (if jo_idempotent opts then Some (jm_key m) else None)]
        (case jr_submit r of
           SubmitCrash \<Rightarrow> ([], Inr JobStopped)
         | SubmitRejected rj \<Rightarrow> reject opts r rj m1
         | SubmitUncertain p \<Rightarrow> answer_job opts sha256 r p m1
         | SubmitDone p \<Rightarrow> answer_job opts sha256 r p m1))"

definition job_iteration :: "job_options \<Rightarrow> (string \<Rightarrow> string) \<Rightarrow> job_round \<Rightarrow> job_memory \<Rightarrow> job_flow" where
  "job_iteration opts sha256 r m =
     (if jm_deadline m - jr_now r \<le> 0 then wait_or opts sha256 r (saved_job_id m) (JobRaised evidence_unavailable) m
      else case jm_rejection m of
        Some rj \<Rightarrow> reject opts r rj m
      | None \<Rightarrow>
          if jm_phase m \<in> {Some ''accepted'', Some ''terminal''}
          then (case jm_process m of
                  Some p \<Rightarrow> handle_job opts sha256 r p m
                | None \<Rightarrow> ([], Inr (JobRaised (OtherException ''KeyError'' ''process''))))
          else submit_job opts sha256 r m)"

fun job_loop :: "job_options \<Rightarrow> (string \<Rightarrow> string) \<Rightarrow> job_memory \<Rightarrow> job_round list \<Rightarrow> job_event list \<times> job_ending" where
  "job_loop opts sha256 m [] = ([], JobStopped)"
| "job_loop opts sha256 m (r # rs) =
     (case job_iteration opts sha256 r m of
        (es, Inr ending) \<Rightarrow> (es, ending)
      | (es, Inl m') \<Rightarrow> (case job_loop opts sha256 m' rs of (es', ending) \<Rightarrow> (es @ es', ending)))"

definition open_job :: "job_options \<Rightarrow> real \<Rightarrow> string \<Rightarrow> job_checkpoint option \<Rightarrow> exn + job_memory" where
  \<comment> \<open>the variables before the loop, with a fresh \<open>uuid4\<close>\<close>
  "open_job opts now fresh file =
     (case file of
        None \<Rightarrow> Inr \<lparr>jm_phase = None, jm_process = None, jm_submission = 0, jm_retries = [], jm_key = fresh,
          jm_deadline = now + jo_budget opts, jm_waits = 0, jm_probe = False, jm_rejection = None\<rparr>
      | Some cp \<Rightarrow>
          if \<not> py_eq (cp_identity cp) (jo_identity opts) then Inl evidence_unavailable
          else let key = (case cp_key cp of Some k \<Rightarrow> k | None \<Rightarrow> []) in
            if jo_idempotent opts \<and> key = [] \<and> cp_phase cp = ''submitting'' then Inl evidence_unavailable
            else Inr \<lparr>jm_phase = Some (cp_phase cp), jm_process = cp_process cp, jm_submission = cp_submission cp,
              jm_retries = cp_retries cp, jm_key = (if key = [] then fresh else key), jm_deadline = now + jo_budget opts,
              jm_waits = 0, jm_probe = (cp_phase cp = ''accepted''), jm_rejection = None\<rparr>)"

definition recover_submission :: "job_options \<Rightarrow> job_memory \<Rightarrow> job_flow" where
  \<comment> \<open>a checkpoint left in the phase \<open>submitting\<close>\<close>
  "recover_submission opts m =
     (if jm_phase m \<noteq> Some ''submitting'' then ([], Inl m)
      else case Option.bind (jm_process m) submission_rejection of
        Some rj \<Rightarrow> ([], Inl (m\<lparr>jm_rejection := Some rj\<rparr>))
      | None \<Rightarrow>
          if jo_idempotent opts then ([], Inl m)
          else if jm_waits m \<ge> jo_max_waits opts then ([], Inr (JobRaised evidence_unavailable))
          else let m1 = m\<lparr>jm_waits := jm_waits m + 1\<rparr> in
            ([saved opts m1 ''retry_pending'' None], Inl (to_state ''retry_pending'' None m1)))"

definition execute_job ::
  "job_options \<Rightarrow> (string \<Rightarrow> string) \<Rightarrow> real \<Rightarrow> string \<Rightarrow> job_checkpoint option \<Rightarrow> job_round list \<Rightarrow> job_event list \<times> job_ending" where
  "execute_job opts sha256 now fresh file rounds =
     (if jo_max_waits opts < 0 \<or> (case jo_max_infra opts of Some n \<Rightarrow> n < 0 | None \<Rightarrow> False)
      then ([], JobRaised (ValueError (Msg ''max_wait_retries and max_infra_retries must be non-negative'')))
      else case open_job opts now fresh file of
        Inl e \<Rightarrow> ([], JobRaised e)
      | Inr m \<Rightarrow>
          (case recover_submission opts m of
             (es, Inr ending) \<Rightarrow> (es, ending)
           | (es, Inl m') \<Rightarrow> (case job_loop opts sha256 m' rounds of (es', ending) \<Rightarrow> (es @ es', ending))))"

section \<open>Traces\<close>

primrec durable :: "job_checkpoint option \<Rightarrow> job_event list \<Rightarrow> job_checkpoint option" where
  \<comment> \<open>the state file after the events\<close>
  "durable f [] = f"
| "durable f (e # es) = durable (case e of Saved cp \<Rightarrow> Some cp | _ \<Rightarrow> f) es"

primrec unresolved :: "string option option \<Rightarrow> job_event list \<Rightarrow> string option option" where
  \<comment> \<open>while no durable write says that the last submission was accepted or rejected: the key the next one must carry, which is
    that of the last one, or the key of a retry that was written since\<close>
  "unresolved u [] = u"
| "unresolved u (e # es) =
     unresolved (case e of
         Saved cp \<Rightarrow> if cp_phase cp = ''submitting'' then u
                     else if cp_phase cp = ''retry_pending'' \<and> u \<noteq> None then Some (cp_key cp) else None
       | Submitted n k \<Rightarrow> Some k
       | Polled b \<Rightarrow> u) es"

definition renewed :: "(string \<Rightarrow> string) \<Rightarrow> string option \<Rightarrow> bool" where
  \<comment> \<open>the key of a new wait window\<close>
  "renewed sha256 k = (\<exists>x. k = Some (''wait-retry:'' @ sha256 x))"

primrec submissions :: "job_event list \<Rightarrow> nat list" where
  "submissions [] = []"
| "submissions (e # es) = (case e of Submitted n k \<Rightarrow> [n] | _ \<Rightarrow> []) @ submissions es"

definition announced :: "job_checkpoint option \<Rightarrow> job_event \<Rightarrow> bool" where
  \<comment> \<open>a submission is in the file before it is made, and so is the job that is polled\<close>
  "announced f e =
     (case e of
        Saved cp \<Rightarrow> True
      | Submitted n k \<Rightarrow> (\<exists>cp. f = Some cp \<and> cp_phase cp = ''submitting'' \<and> cp_submission cp = n \<and> cp_key cp = k \<and> cp_process cp = None)
      | Polled probe \<Rightarrow> (\<exists>cp p. f = Some cp \<and> cp_phase cp = ''accepted'' \<and> cp_process cp = Some p))"

primrec write_ahead :: "job_checkpoint option \<Rightarrow> job_event list \<Rightarrow> bool" where
  "write_ahead f [] = True"
| "write_ahead f (e # es) = (announced f e \<and> write_ahead (durable f [e]) es)"

primrec same_key :: "(string \<Rightarrow> string) \<Rightarrow> string option option \<Rightarrow> job_event list \<Rightarrow> bool" where
  \<comment> \<open>an unresolved submission is repeated under its key; only the written decision to retry it after the deadline renews the key\<close>
  "same_key sha256 u [] = True"
| "same_key sha256 u (e # es) =
     ((case e of
         Submitted n k \<Rightarrow> u = None \<or> u = Some k
       | Saved cp \<Rightarrow> (\<forall>k. u = Some k \<longrightarrow> (cp_phase cp = ''submitting'' \<longrightarrow> cp_key cp = k)
                        \<and> (cp_phase cp = ''retry_pending'' \<longrightarrow> (if k = None then cp_key cp = None else renewed sha256 (cp_key cp))))
       | Polled b \<Rightarrow> u = None)
      \<and> same_key sha256 (unresolved u [e]) es)"

definition keyed_event :: "job_options \<Rightarrow> job_event \<Rightarrow> bool" where
  \<comment> \<open>keys are used for idempotent submissions, and for these only\<close>
  "keyed_event opts e =
     (case e of Saved cp \<Rightarrow> jo_idempotent opts = (cp_key cp \<noteq> None) | Submitted n k \<Rightarrow> jo_idempotent opts = (k \<noteq> None) | _ \<Rightarrow> True)"

named_theorems trace_simps

lemma durable_append [trace_simps]: "durable f (a @ b) = durable (durable f a) b"
  by (induction a arbitrary: f) simp_all

lemma unresolved_append [trace_simps]: "unresolved u (a @ b) = unresolved (unresolved u a) b"
  by (induction a arbitrary: u) simp_all

lemma submissions_append [trace_simps]: "submissions (a @ b) = submissions a @ submissions b"
  by (induction a) simp_all

lemma write_ahead_append [trace_simps]: "write_ahead f (a @ b) \<longleftrightarrow> write_ahead f a \<and> write_ahead (durable f a) b"
  by (induction a arbitrary: f) (simp_all split: job_event.splits)

lemma same_key_append [trace_simps]: "same_key sha256 u (a @ b) \<longleftrightarrow> same_key sha256 u a \<and> same_key sha256 (unresolved u a) b"
  by (induction a arbitrary: u) (simp_all split: job_event.splits)


definition numbered :: "nat \<Rightarrow> nat \<Rightarrow> nat list" where
  \<comment> \<open>the numbers after \<open>a\<close> up to \<open>b\<close>\<close>
  "numbered a b = [Suc a ..< Suc b]"

lemma numbered_simps [simp]: "numbered a a = []" "numbered a (Suc a) = [Suc a]"
  by (simp_all add: numbered_def)






lemma case_saved [simp]:
  "(case saved opts m ph p of Saved cp \<Rightarrow> a cp | Submitted n k \<Rightarrow> b n k | Polled x \<Rightarrow> c x) =
     a \<lparr>cp_phase = ph, cp_submission = jm_submission m, cp_retries = jm_retries m, cp_identity = jo_identity opts,
        cp_key = (if jo_idempotent opts then Some (jm_key m) else None), cp_process = p\<rparr>"
  by (simp add: saved_def)

lemma announced_saved [simp]: "announced f (saved opts m ph p)"
  by (simp add: announced_def)

lemma to_state_sel [simp]:
  "jm_phase (to_state ph p m) = Some ph" "jm_process (to_state ph p m) = p" "jm_submission (to_state ph p m) = jm_submission m"
  "jm_retries (to_state ph p m) = jm_retries m" "jm_key (to_state ph p m) = jm_key m" "jm_waits (to_state ph p m) = jm_waits m"
  by (simp_all add: to_state_def)

lemma prepend_sel [simp]: "fst (prepend es flow) = es @ fst flow" "snd (prepend es flow) = snd flow"
  by (simp_all add: prepend_def)

lemma keyed_simps [simp]:
  "keyed_event opts (saved opts m ph p)" "keyed_event opts (Polled b)"
  "keyed_event opts (Submitted n (if jo_idempotent opts then Some k else None))"
  by (simp_all add: keyed_event_def saved_def)

























record job_call =
  \<comment> \<open>one process: its clock and \<open>uuid4\<close> at the start, and what it meets\<close>
  jc_now :: real
  jc_fresh :: string
  jc_rounds :: "job_round list"

fun job_runs :: "job_options \<Rightarrow> (string \<Rightarrow> string) \<Rightarrow> job_checkpoint option \<Rightarrow> job_call list \<Rightarrow> job_event list" where
  "job_runs opts sha256 f [] = []"
| "job_runs opts sha256 f (c # cs) =
     (let es = fst (execute_job opts sha256 (jc_now c) (jc_fresh c) f (jc_rounds c)) in es @ job_runs opts sha256 (durable f es) cs)"






section \<open>Retry budgets\<close>

definition retries_of :: "job_checkpoint option \<Rightarrow> int dict" where
  "retries_of f = (case f of None \<Rightarrow> [] | Some cp \<Rightarrow> cp_retries cp)"

lemma retry_total_count [simp]: "retry_total (dict_set d k (dict_get_default d k 0 + 1)) = retry_total d + 1"
  by (induction d k "dict_get_default d k 0 + 1 :: int" rule: dict_set.induct) (auto simp: retry_total_def dict_get_default_def)

lemma count_retry_sel [simp]:
  "jm_waits (count_retry k m) = jm_waits m" "retry_total (jm_retries (count_retry k m)) = retry_total (jm_retries m) + 1"
  "jm_submission (count_retry k m) = jm_submission m" "jm_key (count_retry k m) = jm_key m"
  "jm_retries (count_retry k m) = dict_set (jm_retries m) k (dict_get_default (jm_retries m) k 0 + 1)"
  by (simp_all add: count_retry_def)

definition counted :: "int dict \<Rightarrow> string \<Rightarrow> int" where
  "counted retries kind = dict_get_default retries kind 0"

definition below :: "int \<Rightarrow> int option \<Rightarrow> bool" where
  "below n limit = (case limit of None \<Rightarrow> True | Some l \<Rightarrow> n \<le> max 0 l)"

definition limited :: "job_options \<Rightarrow> int dict \<Rightarrow> bool" where
  \<comment> \<open>the limits a durable retry count keeps; a lost transport is retried outside the total\<close>
  "limited opts retries =
     (below (counted retries ''infra'') (jo_max_infra opts) \<and> below (counted retries ''device'') (jo_max_device opts)
      \<and> (jo_idempotent opts \<or> below (retry_total retries) (jo_max_retries opts)))"

lemma counted_set [simp]: "counted (dict_set d k n) k' = (if k' = k then n else counted d k')"
  by (simp add: counted_def dict_get_default_def dict_simps)

lemma counted_Nil [simp]: "limited opts []"
  by (simp add: limited_def counted_def below_def retry_total_def dict_get_default_def split: option.split)

definition paid_flow :: "job_options \<Rightarrow> job_checkpoint option \<Rightarrow> job_memory \<Rightarrow> job_flow \<Rightarrow> bool" where
  \<comment> \<open>one more iteration costs one wait or one counted retry, and every durable count is within the limits\<close>
  "paid_flow opts f m flow =
     ((\<forall>cp. Saved cp \<in> set (fst flow) \<longrightarrow> limited opts (cp_retries cp)) \<and>
      (case snd flow of
         Inl m' \<Rightarrow> retries_of (durable f (fst flow)) = jm_retries m' \<and> jm_waits m' \<le> max (jm_waits m) (jo_max_waits opts)
           \<and> jm_waits m' + retry_total (jm_retries m') = jm_waits m + retry_total (jm_retries m) + 1
       | Inr _ \<Rightarrow> retry_total (jm_retries m) \<le> retry_total (retries_of (durable f (fst flow)))))"

definition paying :: "job_options \<Rightarrow> job_checkpoint option \<Rightarrow> job_memory \<Rightarrow> bool" where
  "paying opts f m = (retries_of f = jm_retries m \<and> limited opts (jm_retries m))"

lemma in_saved [simp]: "Saved cp = saved opts m ph p \<longleftrightarrow>
    cp = \<lparr>cp_phase = ph, cp_submission = jm_submission m, cp_retries = jm_retries m, cp_identity = jo_identity opts,
      cp_key = (if jo_idempotent opts then Some (jm_key m) else None), cp_process = p\<rparr>"
  by (simp add: saved_def)

lemma paid_prepend:
  assumes "\<forall>cp. Saved cp \<in> set es \<longrightarrow> limited opts (cp_retries cp)" "paid_flow opts (durable f es) m' flow"
    "jm_waits m' = jm_waits m" "jm_retries m' = jm_retries m"
  shows "paid_flow opts f m (prepend es flow)"
  using assms by (cases "snd flow") (auto simp: paid_flow_def trace_simps)

lemma paid_same: "jm_waits m' = jm_waits m \<Longrightarrow> jm_retries m' = jm_retries m \<Longrightarrow> paid_flow opts f m' flow \<Longrightarrow> paid_flow opts f m flow"
  by (cases "snd flow") (simp_all add: paid_flow_def)

lemma paid_end: "paying opts f m \<Longrightarrow> paid_flow opts f m ([], Inr ending)"
  by (simp add: paid_flow_def paying_def)

lemma paid_wait:
  assumes "paying opts f m"
  shows "paid_flow opts f m (wait_or opts sha256 r previous ending m)"
  using assms by (auto simp: wait_or_def retry_wait_def Let_def paid_flow_def paying_def retries_of_def)

lemma limited_count:
  assumes "limited opts (jm_retries m)" "\<not> retries_spent opts m k"
    and "k = ''device'' \<Longrightarrow> (\<exists>n. jo_max_device opts = Some n \<and> counted (jm_retries m) ''device'' < n)"
  shows "limited opts (jm_retries (count_retry k m))"
proof -
  have i: "counted (jm_retries m) ''infra'' < n" if "k = ''infra''" "jo_max_infra opts = Some n" for n
    using assms(2) that by (simp add: retries_spent_def counted_def)
  have t: "retry_total (jm_retries m) < n" if "jo_max_retries opts = Some n" for n
    using assms(2) that by (simp add: retries_spent_def)
  from assms(1) have w: "below (counted (jm_retries m) ''infra'') (jo_max_infra opts)" "below (counted (jm_retries m) ''device'') (jo_max_device opts)"
    "jo_idempotent opts \<or> below (retry_total (jm_retries m)) (jo_max_retries opts)"
    by (simp_all add: limited_def)
  have "below (counted (jm_retries (count_retry k m)) ''infra'') (jo_max_infra opts)"
    using w(1) i by (cases "jo_max_infra opts") (auto simp: below_def counted_def [symmetric])
  moreover have "below (counted (jm_retries (count_retry k m)) ''device'') (jo_max_device opts)"
    using w(2) assms(3) by (cases "jo_max_device opts") (auto simp: below_def counted_def [symmetric])
  moreover have "below (retry_total (jm_retries (count_retry k m))) (jo_max_retries opts)"
    using t by (cases "jo_max_retries opts") (fastforce simp: below_def)+
  ultimately show ?thesis by (simp add: limited_def)
qed

lemma paid_resubmit:
  assumes "paying opts f m" "kind = Some ''device'' \<Longrightarrow> (\<exists>n. jo_max_device opts = Some n \<and> counted (jm_retries m) ''device'' < n)"
  shows "paid_flow opts f m (resubmit opts r kind p m)"
proof (cases kind)
  case None
  with assms show ?thesis by (simp add: resubmit_def paid_end)
next
  case (Some k)
  with assms limited_count [of opts m k] have w: "\<not> retries_spent opts m k \<Longrightarrow> limited opts (jm_retries (count_retry k m))"
    by (auto simp: paying_def)
  define delay where "delay = (case (k = ''device'', jo_device_delay opts) of (True, Some d) \<Rightarrow> d
                            | _ \<Rightarrow> retry_delay (retry_total (jm_retries (count_retry k m))))"
  have "resubmit opts r kind p m =
      (if retries_spent opts m k then ([], Inr (JobReturned p))
       else if jm_deadline m - jr_delay r \<le> delay
            then ([], Inr (if k = ''device'' then JobRaised device_unavailable else JobReturned p))
            else ([saved opts (count_retry k m) ''retry_pending'' None], Inl (to_state ''retry_pending'' None (count_retry k m))))"
    by (simp only: resubmit_def Some option.case Let_def delay_def)
  moreover have "paid_flow opts f m ([saved opts (count_retry k m) ''retry_pending'' None], Inl (to_state ''retry_pending'' None (count_retry k m)))"
    if "\<not> retries_spent opts m k"
    using w [OF that] by (auto simp: paid_flow_def retries_of_def)
  ultimately show ?thesis using paid_end [OF assms(1)] by simp
qed


lemma retry_kind_infra: "retry_kind job = Some k \<Longrightarrow> k = ''infra''"
  by (auto simp: retry_kind_def split: option.splits if_split_asm)

lemma paid_conclude:
  assumes "paying opts f m"
  shows "paid_flow opts f m (conclude_job opts sha256 r p m)"
proof -
  have keyed: "paid_flow opts f m (resubmit opts r kind p (m\<lparr>jm_key := k\<rparr>))"
    if "kind = Some ''device'' \<Longrightarrow> (\<exists>n. jo_max_device opts = Some n \<and> counted (jm_retries m) ''device'' < n)" for kind k
    by (rule paid_same [OF _ _ paid_resubmit]) (use assms that in \<open>simp_all add: paying_def\<close>)
  define device where "device \<longleftrightarrow> jo_max_device opts \<noteq> None \<and> (case gp_job p of Some j \<Rightarrow> embedded_device_failure j \<noteq> None | None \<Rightarrow> False)"
  define kind where "kind = (if retry_kind (gp_job p) = None \<and> device then Some ''device'' else retry_kind (gp_job p))"
  show ?thesis
  proof (cases "retry_kind (gp_job p) = None \<and> device \<and> dict_get_default (jm_retries m) ''device'' 0 \<ge> the (jo_max_device opts)")
    case True
    then have "conclude_job opts sha256 r p m = ([], Inr (JobRaised device_unavailable))"
      by (simp only: conclude_job_def Let_def device_def [symmetric] if_True simp_thms)
    then show ?thesis by (simp add: paid_end [OF assms])
  next
    case False
    then have d: "\<exists>n. jo_max_device opts = Some n \<and> counted (jm_retries m) ''device'' < n" if "kind = Some ''device''"
      using that retry_kind_infra [of "gp_job p" "''device''"] by (auto simp: kind_def counted_def device_def split: if_split_asm)
    have "conclude_job opts sha256 r p m =
        (case kind of
          Some k \<Rightarrow>
            if \<not> jo_idempotent opts then resubmit opts r kind p m
            else (case job_name (gp_job p) of
                Inl e \<Rightarrow> ([], Inr (JobRaised e))
              | Inr name \<Rightarrow> resubmit opts r kind p (m\<lparr>jm_key := retry_key sha256 k name (gp_job p)\<rparr>))
        | None \<Rightarrow> resubmit opts r None p m)"
      using False by (simp only: conclude_job_def Let_def device_def [symmetric] kind_def [symmetric] if_False)
    then show ?thesis
      using paid_resubmit [OF assms d] keyed [OF d] paid_end [OF assms] paid_resubmit [OF assms, of None]
      by (simp split: option.split sum.split)
  qed
qed

lemma paid_reject:
  assumes "paying opts f m"
  shows "paid_flow opts f m (reject opts r rj m)"
  unfolding reject_def
  by (rule paid_prepend [where m' = "to_state ''rejected'' (Some (rj_process rj)) (m\<lparr>jm_rejection := None\<rparr>)"])
    (use assms in \<open>auto simp: paying_def retries_of_def intro!: paid_end paid_resubmit\<close>)

lemma paid_poll:
  assumes "paying opts f m"
  shows "paid_flow opts f m (poll_job opts sha256 r p m)"
proof -
  define m1 where "m1 = m\<lparr>jm_probe := False\<rparr>"
  from assms have p: "paying opts f m1" by (simp add: paying_def m1_def)
  have terminal: "paid_flow opts f m1 (prepend [saved opts m1 ''terminal'' (Some q)]
      (conclude_job opts sha256 r q (to_state ''terminal'' (Some q) m1)))" for q
    by (rule paid_prepend [where m' = "to_state ''terminal'' (Some q) m1"])
      (use p in \<open>auto simp: paying_def retries_of_def intro!: paid_conclude\<close>)
  show ?thesis
    unfolding poll_job_def Let_def m1_def [symmetric]
    by (rule paid_prepend [where m' = m1])
      (use terminal paid_wait [OF p] paid_end [OF p] in \<open>simp_all add: m1_def split: poll_result.split\<close>)
qed

lemma paid_handle: "paying opts f m \<Longrightarrow> paid_flow opts f m (handle_job opts sha256 r p m)"
  by (simp add: handle_job_def paid_conclude paid_poll)

lemma limited_transport: "limited opts (jm_retries m) \<Longrightarrow> jo_idempotent opts \<Longrightarrow> limited opts (jm_retries (count_retry ''transport'' m))"
  by (simp add: limited_def)

lemma paid_unanswered:
  assumes "paying opts f m"
  shows "paid_flow opts f m (unanswered opts r p m)"
  unfolding unanswered_def
  by (rule paid_prepend [where m' = m])
    (use assms limited_transport [of opts m] in \<open>auto simp: paying_def paid_flow_def Let_def retries_of_def\<close>)

lemma paid_answer:
  assumes "paying opts f m"
  shows "paid_flow opts f m (answer_job opts sha256 r p m)"
proof -
  have "paid_flow opts f m (prepend [saved opts m ''accepted'' (Some p)] (handle_job opts sha256 r p (to_state ''accepted'' (Some p) m)))"
    by (rule paid_prepend [where m' = "to_state ''accepted'' (Some p) m"])
      (use assms in \<open>auto simp: paying_def retries_of_def intro!: paid_handle\<close>)
  with paid_reject [OF assms] paid_unanswered [OF assms] show ?thesis
    by (simp add: answer_job_def split: option.split)
qed

lemma paid_submit:
  assumes "paying opts f m"
  shows "paid_flow opts f m (submit_job opts sha256 r m)"
proof -
  define m1 where "m1 = m\<lparr>jm_submission := jm_submission m + 1\<rparr>"
  define es where "es = [saved opts m1 ''submitting'' None, Submitted (jm_submission m1) (if jo_idempotent opts then Some (jm_key m) else None)]"
  from assms have p: "paying opts (durable f es) m1" "\<forall>cp. Saved cp \<in> set es \<longrightarrow> limited opts (cp_retries cp)"
    "jm_waits m1 = jm_waits m" "jm_retries m1 = jm_retries m"
    by (simp_all add: es_def paying_def m1_def retries_of_def)
  show ?thesis
    unfolding submit_job_def Let_def m1_def [symmetric] es_def [symmetric]
    by (rule paid_prepend [where m' = m1])
      (use p paid_reject [OF p(1)] paid_answer [OF p(1)] paid_end [OF p(1)] in \<open>simp_all split: submit_result.split\<close>)
qed

lemma paid_iteration:
  assumes "paying opts f m"
  shows "paid_flow opts f m (job_iteration opts sha256 r m)"
  using paid_wait [OF assms] paid_reject [OF assms] paid_handle [OF assms] paid_submit [OF assms] paid_end [OF assms]
  by (simp add: job_iteration_def split: option.split)


lemma submissions_waiting [simp]:
  "submissions (fst (wait_or opts sha256 r previous ending m)) = []" "submissions (fst (resubmit opts r kind p m)) = []"
  by (simp_all add: wait_or_def retry_wait_def resubmit_def Let_def split: option.split)

lemma submissions_after [simp]:
  "submissions (fst (conclude_job opts sha256 r p m)) = []" "submissions (fst (reject opts r rj m)) = []"
  "submissions (fst (unanswered opts r p m)) = []"
  by (simp_all add: conclude_job_def reject_def unanswered_def Let_def trace_simps split: option.split sum.split)

lemma submissions_handle [simp]: "submissions (fst (handle_job opts sha256 r p m)) = []"
  by (simp add: handle_job_def poll_job_def Let_def trace_simps split: poll_result.split)

lemma one_submission: "length (submissions (fst (job_iteration opts sha256 r m))) \<le> 1"
  by (simp add: job_iteration_def submit_job_def answer_job_def Let_def trace_simps split: option.split submit_result.split)

definition affordable :: "job_options \<Rightarrow> int \<Rightarrow> job_checkpoint option \<Rightarrow> job_event list \<Rightarrow> bool" where
  \<comment> \<open>at most one submission more than the waits and retries it took\<close>
  "affordable opts waits f es =
     ((\<forall>cp. Saved cp \<in> set es \<longrightarrow> limited opts (cp_retries cp))
      \<and> int (length (submissions es)) \<le> 1 + waits + retry_total (retries_of (durable f es)) - retry_total (retries_of f))"

lemma durable_saved: "durable f es = f \<or> (\<exists>cp. Saved cp \<in> set es \<and> durable f es = Some cp)"
proof (induction es arbitrary: f)
  case (Cons e es)
  then show ?case by (cases e) auto
qed simp

lemma durable_limited:
  assumes "limited opts (retries_of f)" "\<forall>cp. Saved cp \<in> set es \<longrightarrow> limited opts (cp_retries cp)"
  shows "limited opts (retries_of (durable f es))"
  using durable_saved [of f es] assms by (auto simp: retries_of_def)

lemma loop_affordable:
  "paying opts f m \<Longrightarrow> jm_waits m \<le> jo_max_waits opts \<Longrightarrow>
     affordable opts (jo_max_waits opts - jm_waits m) f (fst (job_loop opts sha256 m rs))"
proof (induction opts sha256 m rs arbitrary: f rule: job_loop.induct)
  case (1 opts sha256 m)
  then show ?case by (simp add: affordable_def)
next
  case (2 opts sha256 m r rs)
  from paid_iteration [OF 2(2)] have g: "paid_flow opts f m (job_iteration opts sha256 r m)" .
  have one: "length (submissions (fst (job_iteration opts sha256 r m))) \<le> 1" by (rule one_submission)
  show ?case
  proof (cases "job_iteration opts sha256 r m")
    case (Pair es res)
    show ?thesis
    proof (cases res)
      case (Inl m')
      let ?f = "durable f es" and ?es = "fst (job_loop opts sha256 m' rs)"
      from g 2(3) have p: "retries_of ?f = jm_retries m'" "jm_waits m' \<le> jo_max_waits opts"
        "jm_waits m' + retry_total (jm_retries m') = jm_waits m + retry_total (jm_retries m) + 1"
        "\<forall>cp. Saved cp \<in> set es \<longrightarrow> limited opts (cp_retries cp)"
        by (auto simp: paid_flow_def Pair Inl)
      have "limited opts (jm_retries m')"
        using durable_limited [of opts f es] p(1,4) 2(2) by (simp add: paying_def)
      with p 2(1) [OF Pair [symmetric] Inl] have "affordable opts (jo_max_waits opts - jm_waits m') ?f ?es"
        by (simp add: paying_def)
      with p 2(2) one show ?thesis
        by (auto simp: affordable_def paying_def Pair Inl case_prod_beta trace_simps)
    qed (use g one 2(2,3) in \<open>simp add: affordable_def paid_flow_def paying_def Pair\<close>)
  qed
qed


lemma affordable_append:
  assumes "submissions es = []" "retry_total (retries_of (durable f es)) = retry_total (retries_of f)"
    "\<forall>cp. Saved cp \<in> set es \<longrightarrow> limited opts (cp_retries cp)" "affordable opts w (durable f es) es'" "w \<le> w'"
  shows "affordable opts w' f (es @ es')"
  using assms by (auto simp: affordable_def trace_simps)

lemma execute_affordable:
  assumes "limited opts (retries_of f)"
  shows "affordable opts (max 0 (jo_max_waits opts)) f (fst (execute_job opts sha256 now fresh f rounds))"
proof -
  have nil: "affordable opts (max 0 (jo_max_waits opts)) f []" by (simp add: affordable_def)
  show ?thesis
  proof (cases "jo_max_waits opts < 0 \<or> (case jo_max_infra opts of Some n \<Rightarrow> n < 0 | None \<Rightarrow> False)")
    case True
    with nil show ?thesis by (simp add: execute_job_def)
  next
    case False
    note ok = this
    show ?thesis
    proof (cases "open_job opts now fresh f")
      case (Inl e)
      with nil ok show ?thesis by (simp add: execute_job_def)
    next
      case opened: (Inr m)
      from opened have m: "retries_of f = jm_retries m" "jm_waits m = 0"
        by (auto simp: open_job_def retries_of_def Let_def split: option.splits if_split_asm)
      with assms have p: "paying opts f m" by (simp add: paying_def)
      obtain es res where r: "recover_submission opts m = (es, res)" by (cases "recover_submission opts m")
      have es: "submissions es = []" "retry_total (retries_of (durable f es)) = retry_total (retries_of f)"
          "\<forall>cp. Saved cp \<in> set es \<longrightarrow> limited opts (cp_retries cp)"
        and m': "\<And>m'. res = Inl m' \<Longrightarrow> paying opts (durable f es) m' \<and> 0 \<le> jm_waits m' \<and> jm_waits m' \<le> jo_max_waits opts"
        using r p m ok by (auto simp: recover_submission_def paying_def retries_of_def Let_def split: if_split_asm option.splits)
      show ?thesis
      proof (cases res)
        case (Inl m')
        from m' [OF Inl] have "affordable opts (jo_max_waits opts - jm_waits m') (durable f es) (fst (job_loop opts sha256 m' rounds))"
          by (intro loop_affordable) simp_all
        with es m' [OF Inl] ok have "affordable opts (max 0 (jo_max_waits opts)) f (es @ fst (job_loop opts sha256 m' rounds))"
          by (intro affordable_append [where w = "jo_max_waits opts - jm_waits m'"]) simp_all
        with ok show ?thesis by (simp add: execute_job_def opened r Inl case_prod_beta)
      next
        case (Inr e)
        with es ok show ?thesis by (simp add: execute_job_def opened r affordable_def)
      qed
    qed
  qed
qed

lemma runs_affordable:
  assumes "limited opts (retries_of f)"
  shows "(\<forall>cp. Saved cp \<in> set (job_runs opts sha256 f cs) \<longrightarrow> limited opts (cp_retries cp))
     \<and> int (length (submissions (job_runs opts sha256 f cs))) \<le> int (length cs) * (1 + max 0 (jo_max_waits opts))
         + retry_total (retries_of (durable f (job_runs opts sha256 f cs))) - retry_total (retries_of f)"
  using assms
proof (induction cs arbitrary: f)
  case (Cons c cs)
  define es where "es = fst (execute_job opts sha256 (jc_now c) (jc_fresh c) f (jc_rounds c))"
  have a: "affordable opts (max 0 (jo_max_waits opts)) f es"
    unfolding es_def by (rule execute_affordable) (rule Cons.prems)
  then have "limited opts (retries_of (durable f es))"
    using Cons.prems by (auto simp: affordable_def intro: durable_limited)
  from Cons.IH [OF this] a show ?case
    by (auto simp: Let_def es_def [symmetric] trace_simps affordable_def algebra_simps)
qed simp

lemma settled_reused:
  assumes "cp_phase cp = ''terminal''" "cp_process cp = Some p" "retry_kind (gp_job p) = None" "jo_max_device opts = None"
    "py_eq (cp_identity cp) (jo_identity opts)" "jr_now r < now + jo_budget opts"
    "0 \<le> jo_max_waits opts" "below 0 (jo_max_infra opts) \<and> (\<forall>n. jo_max_infra opts = Some n \<longrightarrow> 0 \<le> n)"
  shows "execute_job opts sha256 now fresh (Some cp) (r # rs) = ([], JobReturned p)"
  using assms
  by (auto simp: execute_job_def open_job_def recover_submission_def job_iteration_def handle_job_def conclude_job_def
    resubmit_def Let_def split: option.splits)


section \<open>A demonstration\<close>

definition demo_job_digest :: "string \<Rightarrow> string" where "demo_job_digest s = rev s"

definition demo_job_options :: job_options where
  "demo_job_options = \<lparr>jo_identity = VDict [(''kind'', VStr ''run'')], jo_budget = 100, jo_idempotent = True, jo_max_retries = None,
     jo_max_infra = Some 2, jo_max_device = None, jo_device_delay = None, jo_max_waits = 1\<rparr>"

definition demo_process :: "string \<Rightarrow> string \<Rightarrow> pyval dict \<Rightarrow> gw_process" where
  "demo_process job status extra = \<lparr>gp_returncode = 0, gp_job = Some ([(''job_id'', VStr job), (''status'', VStr status)] @ extra),
     gp_names_job = True, gp_http = None, gp_usage = False\<rparr>"

definition demo_round :: "submit_result \<Rightarrow> poll_result \<Rightarrow> job_round" where
  "demo_round submit poll = \<lparr>jr_now = 10, jr_submit = submit, jr_after = 20, jr_poll = poll, jr_wait = 30, jr_delay = 30\<rparr>"

definition demo_job_calls :: "job_call list" where
  \<comment> \<open>the first process stops while it submits; the second repeats that submission, meets an infrastructure failure and retries\<close>
  "demo_job_calls =
     [\<lparr>jc_now = 0, jc_fresh = ''k'', jc_rounds = [demo_round SubmitCrash PollCrash]\<rparr>,
      \<lparr>jc_now = 0, jc_fresh = ''u'', jc_rounds =
         [demo_round (SubmitDone (demo_process ''a'' ''queued'' []))
            (PollDone (demo_process ''a'' ''failed'' [(''error'', VDict [(''error_class'', VStr ''infra'')])])),
          demo_round (SubmitDone (demo_process ''b'' ''queued'' [])) (PollDone (demo_process ''b'' ''succeeded'' []))]\<rparr>]"

lemmas demo_job_defs = demo_job_calls_def demo_round_def demo_process_def demo_job_options_def demo_job_digest_def

lemmas job_defs = execute_job_def open_job_def recover_submission_def job_iteration_def submit_job_def answer_job_def handle_job_def
  poll_job_def conclude_job_def resubmit_def retries_spent_def count_retry_def retry_kind_def is_terminal_def terminal_statuses_def
  job_id_of_def job_name_def retry_key_def prepend_def to_state_def saved_def retry_total_def retry_delay_def

lemma demo_job_trace:
  "map (\<lambda>e. case e of Submitted n k \<Rightarrow> k | _ \<Rightarrow> None) (filter (\<lambda>e. case e of Submitted n k \<Rightarrow> True | _ \<Rightarrow> False)
     (job_runs demo_job_options demo_job_digest None demo_job_calls)) = [Some ''k'', Some ''k'', Some ''infra-retry:a'']"
  "length (submissions (job_runs demo_job_options demo_job_digest None demo_job_calls)) = 3"
  "\<exists>cp. Saved cp \<in> set (job_runs demo_job_options demo_job_digest None demo_job_calls) \<and> cp_retries cp = [(''infra'', 1)]"
  by (simp_all add: demo_job_defs job_defs Let_def get_item_def dict_get_default_def nonempty_str_def
      conj_disj_distribR ex_disj_distrib)

section \<open>Properties\<close>



text \<open>C31: Retries are bounded over restarts.  Every retry count that reaches the disk is within the limits of the call (infrastructure
  retries, device retries and, where submissions have no key, the total), whichever processes spent them, and the number of
  submissions is at most one per process, plus its waits, plus the counted retries.\<close>

theorem job_budgets:
  "let es = job_runs opts sha256 None calls in
     (\<forall>cp. Saved cp \<in> set es \<longrightarrow> limited opts (cp_retries cp))
     \<and> int (length (submissions es)) \<le> int (length calls) * (1 + max 0 (jo_max_waits opts)) + retry_total (retries_of (durable None es))"
  using runs_affordable [of opts None sha256 calls] by (simp add: Let_def retries_of_def retry_total_def)

theorem job_budgets_witness:
  "\<exists>es cp. es = job_runs demo_job_options demo_job_digest None demo_job_calls \<and> length (submissions es) = 3
     \<and> Saved cp \<in> set es \<and> cp_retries cp = [(''infra'', 1)] \<and> limited demo_job_options (cp_retries cp)"
proof -
  define es where "es = job_runs demo_job_options demo_job_digest None demo_job_calls"
  from demo_job_trace have t: "length (submissions es) = 3" "\<exists>cp. Saved cp \<in> set es \<and> cp_retries cp = [(''infra'', 1)]"
    by (auto simp: es_def)
  then obtain cp where "Saved cp \<in> set es" "cp_retries cp = [(''infra'', 1)]" by blast
  with t job_budgets [of demo_job_options demo_job_digest demo_job_calls] show ?thesis by (auto simp: es_def Let_def)
qed

end
