(* ===== verification/CodexLedger.thy ===== *)
theory CodexLedger
  imports Phase_Accounting
begin

text \<open>
  The usage ledger of Codex sessions (src/src/aka/light/agent/runtime/codex_ledger.py), with the phase receipts of
  src/src/aka/legacy/agent/markers.py and the merge of src/src/aka/light/agent/runtime/model.py.
  A rollout file is the list of its lines, each the JSON value it holds or \<open>None\<close> when it is not JSON (a line that is still
  being written); the cursor counts lines.  \<open>json.loads\<close> of a receipt is the parameter \<open>loads\<close>.  The sessions directory is
  the record \<open>rollouts\<close>: the file a search for a thread finds, the lines of a file, and what each file says of itself.
\<close>

section \<open>Phase receipts\<close>

fun strings_in :: "pyval \<Rightarrow> string list" and strings_in_list :: "pyval list \<Rightarrow> string list"
  and strings_in_items :: "pyval dict \<Rightarrow> string list" where
  "strings_in (VStr s) = [s]"
| "strings_in (VDict d) = strings_in_items d"
| "strings_in (VList vs) = strings_in_list vs"
| "strings_in _ = []"
| "strings_in_list [] = []"
| "strings_in_list (v # vs) = strings_in v @ strings_in_list vs"
| "strings_in_items [] = []"
| "strings_in_items ((k, v) # d) = strings_in v @ strings_in_items d"

definition line_break :: "char \<Rightarrow> bool" where
  "line_break c \<longleftrightarrow> char_in (CHR 0x0A) (CHR 0x0D) c \<or> char_in (CHR 0x1C) (CHR 0x1E) c \<or> c = CHR 0x85"

fun split_lines :: "string \<Rightarrow> string \<Rightarrow> string list" where
  \<comment> \<open>\<open>str.splitlines\<close> with the current line reversed; a carriage return takes the line feed after it\<close>
  "split_lines [] acc = (if acc = [] then [] else [rev acc])"
| "split_lines (c # cs) acc =
     (if \<not> line_break c then split_lines cs (c # acc)
      else case cs of
        [] \<Rightarrow> [rev acc]
      | d # ds \<Rightarrow> rev acc # split_lines (if c = CHR 0x0D \<and> d = CHR 0x0A then ds else d # ds) [])"

definition marker_prefix :: string where
  "marker_prefix = ''ATREX_TRACE_EVENT=''"

type_synonym receipt = "string \<times> string \<times> string"   \<comment> \<open>action, phase, marker id\<close>

definition read_receipt :: "pyval \<Rightarrow> exn + receipt list" where
  "read_receipt v =
     (case as_dict v of
        None \<Rightarrow> Inr []
      | Some r \<Rightarrow>
          let action = get_item r ''action''; phase = get_item r ''phase''; marker = get_item r ''marker_id'' in
          if get_item r ''schema'' = VStr ''atrex.iteration_trace.v1'' \<and> get_item r ''kind'' = VStr ''phase_marker''
          then if \<not> hashable action then Inl (TypeError (Msg ''unhashable type''))
            else Inr (if action \<in> {VStr ''start'', VStr ''end''} \<and> nonempty_str phase \<and> nonempty_str marker
                      then [(str_of action, str_of phase, str_of marker)] else [])
          else Inr [])"

definition line_receipts :: "(string \<Rightarrow> pyval option) \<Rightarrow> string \<Rightarrow> exn + receipt list" where
  "line_receipts loads line =
     (if \<not> starts_with marker_prefix line then Inr []
      else case loads (drop (length marker_prefix) line) of None \<Rightarrow> Inr [] | Some v \<Rightarrow> read_receipt v)"

definition phase_marker_receipts :: "(string \<Rightarrow> pyval option) \<Rightarrow> pyval \<Rightarrow> exn + receipt list" where
  "phase_marker_receipts loads v =
     map_sum id concat (map_res (line_receipts loads) (concat (map (\<lambda>s. split_lines s []) (strings_in v))))"

section \<open>Counters\<close>

definition ledger_error :: "string \<Rightarrow> exn" where
  "ledger_error text = OtherException ''CodexLedgerError'' text"

definition token_counter :: "pyval dict \<Rightarrow> string \<Rightarrow> int option" where
  "token_counter d name = (case get_item d name of VInt n \<Rightarrow> if n \<ge> 0 then Some n else None | _ \<Rightarrow> None)"

definition optional_counter :: "pyval dict \<Rightarrow> string \<Rightarrow> int option" where
  "optional_counter d name = (if dict_has d name then token_counter d name else Some 0)"

definition codex_usage :: "pyval \<Rightarrow> token_usage" where
  "codex_usage v =
     (case as_dict v of
        None \<Rightarrow> unavailable
      | Some d \<Rightarrow>
          (case (token_counter d ''input_tokens'', token_counter d ''output_tokens'', optional_counter d ''cached_input_tokens'',
                 optional_counter d ''cache_write_input_tokens'', token_counter d ''total_tokens'') of
             (Some i, Some out, Some r, Some w, Some t) \<Rightarrow>
               if i < r then unavailable
               else \<lparr>tu_input = Some (i - r), tu_output = Some out, tu_cache_read = Some r, tu_cache_write = Some w,
                     tu_total = Some t, tu_measurement = Exact\<rparr>
           | _ \<Rightarrow> unavailable))"

definition legacy_codex_usage :: "pyval \<Rightarrow> token_usage" where
  "legacy_codex_usage v =
     (case as_dict v of
        None \<Rightarrow> unavailable
      | Some d \<Rightarrow>
          (case (token_counter d ''input_tokens'', token_counter d ''output_tokens'', token_counter d ''cached_input_tokens'',
                 token_counter d ''cache_write_input_tokens'', token_counter d ''total_tokens'') of
             (Some i, Some out, Some r, Some w, Some t) \<Rightarrow>
               \<lparr>tu_input = Some i, tu_output = Some out, tu_cache_read = Some r, tu_cache_write = Some w,
                tu_total = Some t, tu_measurement = Exact\<rparr>
           | _ \<Rightarrow> unavailable))"

definition usage_matches :: "token_usage \<Rightarrow> token_usage \<Rightarrow> bool" where
  "usage_matches seen terminal =
     (list_all (\<lambda>f. f seen = None \<or> f terminal = None \<or> f seen = f terminal) components
      \<and> tu_total seen \<noteq> None \<and> tu_total terminal \<noteq> None)"

definition larger :: "int option \<Rightarrow> int option \<Rightarrow> int option" where
  "larger x y = (case (x, y) of (Some m, Some n) \<Rightarrow> Some (max m n) | (Some m, None) \<Rightarrow> Some m | (None, y) \<Rightarrow> y)"

definition counted_tokens :: "int option \<Rightarrow> int" where
  "counted_tokens x = (case x of None \<Rightarrow> 0 | Some n \<Rightarrow> n)"

definition merge_token_usage_evidence :: "token_usage \<Rightarrow> token_usage \<Rightarrow> token_usage" where
  "merge_token_usage_evidence a b =
     (if tu_total a = None \<and> tu_total b = None then unavailable
      else let i = larger (tu_input a) (tu_input b); out = larger (tu_output a) (tu_output b);
               r = larger (tu_cache_read a) (tu_cache_read b); w = larger (tu_cache_write a) (tu_cache_write b) in
        \<lparr>tu_input = i, tu_output = out, tu_cache_read = r, tu_cache_write = w,
         tu_total = Some (max (counted_tokens (tu_total a)) (max (counted_tokens (tu_total b)) (counted_tokens i + counted_tokens out + counted_tokens r + counted_tokens w))),
         tu_measurement = Partial\<rparr>)"

definition disjoint_input :: "token_usage \<Rightarrow> token_usage" where
  \<comment> \<open>the input of the stream includes the cache reads\<close>
  "disjoint_input u = (case tu_input u of None \<Rightarrow> u | Some n \<Rightarrow> u\<lparr>tu_input := Some (n - counted_tokens (tu_cache_read u))\<rparr>)"

section \<open>Formats\<close>

record ledger_format =
  \<comment> \<open>\<open>json.loads\<close> of a receipt, \<open>_usage\<close>, and what the terminal usage of the stream is compared as\<close>
  lf_loads :: "string \<Rightarrow> pyval option"
  lf_usage :: "pyval \<Rightarrow> token_usage"
  lf_stream :: "token_usage \<Rightarrow> token_usage"

definition light_format :: "(string \<Rightarrow> pyval option) \<Rightarrow> ledger_format" where
  "light_format loads = \<lparr>lf_loads = loads, lf_usage = codex_usage, lf_stream = disjoint_input\<rparr>"

definition legacy_format :: "(string \<Rightarrow> pyval option) \<Rightarrow> ledger_format" where
  "legacy_format loads = \<lparr>lf_loads = loads, lf_usage = legacy_codex_usage, lf_stream = id\<rparr>"

section \<open>Reading the ledger\<close>

record scan =
  sc_events :: "agent_event list"
  sc_pending :: "receipt list"
  sc_deltas :: "token_usage list"
  sc_final :: "token_usage option"
  sc_cumulative :: int

definition add_event :: "event_kind \<Rightarrow> token_usage option \<Rightarrow> agent_event list \<Rightarrow> agent_event list" where
  "add_event kind u es = es @ [\<lparr>ae_sequence = length es, ae_kind = kind, ae_usage = u, ae_phase = None, ae_action = None,
     ae_marker = None\<rparr>]"

definition add_marker :: "agent_event list \<Rightarrow> receipt \<Rightarrow> agent_event list" where
  "add_marker es m = (case m of (action, phase, marker) \<Rightarrow>
     es @ [\<lparr>ae_sequence = length es, ae_kind = PhaseMarker, ae_usage = None, ae_phase = Some phase, ae_action = Some action,
            ae_marker = Some marker\<rparr>])"

definition sub_dict :: "pyval dict \<Rightarrow> string \<Rightarrow> pyval dict" where
  \<comment> \<open>the value of a key if it is a mapping, else an empty one\<close>
  "sub_dict d k = (case as_dict (get_item d k) of Some e \<Rightarrow> e | None \<Rightarrow> [])"

definition token_count :: "ledger_format \<Rightarrow> pyval dict \<Rightarrow> scan \<Rightarrow> exn + scan" where
  "token_count fmt info s =
     (let last_usage = lf_usage fmt (get_item info ''last_token_usage''); session_usage = lf_usage fmt (get_item info ''total_token_usage'') in
      case (tu_total last_usage, tu_total session_usage) of
        (Some n, Some cumulative) \<Rightarrow>
          if n \<le> 0 then Inl (ledger_error ''Codex token_count reported non-positive usage'')
          else if cumulative < sc_cumulative s then Inl (ledger_error ''Codex cumulative usage moved backwards'')
          else let s1 = (if cumulative = sc_cumulative s then s
                         else s\<lparr>sc_deltas := sc_deltas s @ [last_usage], sc_events := add_event UsageDelta (Some last_usage) (sc_events s),
                                sc_cumulative := cumulative, sc_final := Some session_usage\<rparr>) in
            Inr (s1\<lparr>sc_events := foldl add_marker (sc_events s1) (sc_pending s1), sc_pending := []\<rparr>)
      | _ \<Rightarrow> Inl (ledger_error ''Codex token_count is missing usage totals''))"

definition ledger_line :: "ledger_format \<Rightarrow> scan \<Rightarrow> pyval option \<Rightarrow> exn + scan" where
  "ledger_line fmt s line =
     (case line of
        None \<Rightarrow> Inl (ledger_error ''malformed Codex session ledger JSON'')
      | Some v \<Rightarrow>
          (case as_dict v of
             None \<Rightarrow> Inr s
           | Some d \<Rightarrow>
               let body = sub_dict d ''payload'' in
               if get_item d ''type'' = VStr ''response_item'' \<and> get_item body ''type'' = VStr ''custom_tool_call_output''
               then map_sum id (\<lambda>ms. s\<lparr>sc_pending := sc_pending s @ ms\<rparr>) (phase_marker_receipts (lf_loads fmt) (get_item body ''output''))
               else if get_item d ''type'' \<noteq> VStr ''event_msg'' \<or> get_item body ''type'' \<noteq> VStr ''token_count'' then Inr s
               else token_count fmt (sub_dict body ''info'') s))"

record observation =
  ob_events :: "agent_event list"
  ob_terminal :: token_usage
  ob_session :: token_usage

definition unreconciled :: "token_usage \<Rightarrow> token_usage \<Rightarrow> token_usage \<Rightarrow> (token_usage \<Rightarrow> int option) \<Rightarrow> bool" where
  "unreconciled previous invocation final f =
     (case (f previous, f invocation, f final) of (Some p, Some i, Some n) \<Rightarrow> p + i \<noteq> n | _ \<Rightarrow> False)"

definition conclude_scan :: "token_usage option \<Rightarrow> scan \<Rightarrow> exn + observation" where
  "conclude_scan session s =
     (case sc_final s of
        None \<Rightarrow> Inl (ledger_error ''Codex ledger exposed no new token_count delta'')
      | Some final \<Rightarrow>
          if sc_deltas s = [] then Inl (ledger_error ''Codex ledger exposed no new token_count delta'')
          else let invocation = sum_token_usages (sc_deltas s); previous = (case session of Some u \<Rightarrow> u | None \<Rightarrow> zero_usage) in
            if list_ex (unreconciled previous invocation final) components
            then Inl (ledger_error ''Codex component does not reconcile to cumulative usage'')
            else Inr \<lparr>ob_events = add_event TerminalUsage (Some invocation) (foldl add_marker (sc_events s) (sc_pending s)),
                      ob_terminal = invocation, ob_session = final\<rparr>)"

record rollouts =
  ro_search :: "string \<Rightarrow> string option"          \<comment> \<open>the newest file of a thread\<close>
  ro_lines :: "string \<Rightarrow> pyval option list"
  ro_meta :: "(string \<times> (string \<times> string) option) list"   \<comment> \<open>each file's session id and working directory\<close>

record ledger =
  ld_thread :: string
  ld_path :: "string option"
  ld_offset :: nat
  ld_session :: "token_usage option"
  ld_invalidated :: bool

definition new_ledger :: ledger where
  "new_ledger = \<lparr>ld_thread = [], ld_path = None, ld_offset = 0, ld_session = None, ld_invalidated = False\<rparr>"

definition invalidate :: "ledger \<Rightarrow> ledger" where
  "invalidate L = L\<lparr>ld_invalidated := True\<rparr>"

definition is_thread_id :: "string \<Rightarrow> bool" where
  "is_thread_id s = (32 \<le> length s \<and> length s \<le> 64
     \<and> list_all (\<lambda>c. is_digit_char c \<or> char_in (CHR ''a'') (CHR ''f'') c \<or> char_in (CHR ''A'') (CHR ''F'') c \<or> c = CHR ''-'') s)"

definition find_rollout_path :: "rollouts \<Rightarrow> string \<Rightarrow> ledger \<Rightarrow> ledger \<times> (exn + string)" where
  "find_rollout_path disk thread L =
     (if \<not> is_thread_id thread then (L, Inl (ledger_error ''invalid Codex thread id''))
      else case ld_path L of
        Some path \<Rightarrow> (L, Inr path)
      | None \<Rightarrow>
          (case ro_search disk thread of
             None \<Rightarrow> (L, Inl (ledger_error ''Codex session ledger not found''))
           | Some path \<Rightarrow> (L\<lparr>ld_thread := thread, ld_path := Some path\<rparr>, Inr path)))"

definition identify_new_thread :: "rollouts \<Rightarrow> string \<Rightarrow> ledger \<Rightarrow> ledger \<times> (exn + string)" where
  "identify_new_thread disk workspace L =
     (case List.map_filter (\<lambda>(path, meta). case meta of
              Some (thread, cwd) \<Rightarrow> if cwd = workspace then Some (thread, path) else None | None \<Rightarrow> None) (ro_meta disk) of
        [(thread, path)] \<Rightarrow>
          if \<not> is_thread_id thread then (L, Inl (ledger_error ''new Codex rollout has invalid thread id''))
          else (L\<lparr>ld_thread := thread, ld_path := Some path\<rparr>, Inr thread)
      | _ \<Rightarrow> (L, Inl (ledger_error ''cannot uniquely identify new Codex rollout for workspace'')))"

definition scan_lines :: "ledger_format \<Rightarrow> token_usage option \<Rightarrow> pyval option list \<Rightarrow> exn + observation" where
  "scan_lines fmt session lines =
     bind_res (fold_res (ledger_line fmt)
         \<lparr>sc_events = [], sc_pending = [], sc_deltas = [], sc_final = None,
          sc_cumulative = (case session of Some u \<Rightarrow> counted_tokens (tu_total u) | None \<Rightarrow> 0)\<rparr> lines)
       (conclude_scan session)"

definition observe :: "ledger_format \<Rightarrow> rollouts \<Rightarrow> string \<Rightarrow> ledger \<Rightarrow> ledger \<times> (exn + observation)" where
  "observe fmt disk thread L =
     (if ld_invalidated L then (L, Inl (ledger_error ''Codex ledger cursor missed an accounted invocation''))
      else case find_rollout_path disk thread L of
        (L1, Inl e) \<Rightarrow> (L1, Inl e)
      | (L1, Inr path) \<Rightarrow>
          if ld_thread L1 \<noteq> [] \<and> thread \<noteq> ld_thread L1
          then (L1, Inl (ledger_error ''Codex observer cannot switch thread ids''))
          else let lines = drop (ld_offset L1) (ro_lines disk path) in
            if lines = [] then (L1, Inl (ledger_error ''Codex session ledger has no new events''))
            else case scan_lines fmt (ld_session L1) lines of
              Inl e \<Rightarrow> (L1, Inl e)
            | Inr ob \<Rightarrow> (L1\<lparr>ld_offset := ld_offset L1 + length lines, ld_session := Some (ob_session ob)\<rparr>, Inr ob))"

definition observe_reconciled ::
  "ledger_format \<Rightarrow> rollouts \<Rightarrow> string \<Rightarrow> token_usage \<Rightarrow> ledger \<Rightarrow> ledger \<times> (exn + observation)" where
  "observe_reconciled fmt disk thread stream L =
     (case observe fmt disk thread L of
        (L1, Inl e) \<Rightarrow> (L1\<lparr>ld_offset := ld_offset L, ld_session := ld_session L\<rparr>, Inl e)
      | (L1, Inr ob) \<Rightarrow>
          if usage_matches (ob_session ob) stream then (L1, Inr ob)
          else (L1\<lparr>ld_offset := ld_offset L, ld_session := ld_session L\<rparr>,
                Inl (ledger_error ''Codex ledger usage does not match stdout terminal usage'')))"

section \<open>Choosing the evidence of an invocation\<close>

definition codex_capabilities :: capabilities where
  "codex_capabilities = \<lparr>ca_terminal = True, ca_delta = True, ca_marker = True, ca_delta_observed = True\<rparr>"

record usage_evidence =
  ev_events :: "agent_event list"
  ev_usage :: token_usage
  ev_capabilities :: capabilities
  ev_errors :: "string list"

record captured =
  cd_evidence :: usage_evidence
  cd_complete :: bool

fun exn_name :: "exn \<Rightarrow> string" where
  \<comment> \<open>\<open>type(exc).__name__\<close> of what this module raises\<close>
  "exn_name (OtherException name text) = name"
| "exn_name (TypeError m) = ''TypeError''"
| "exn_name _ = ''ValueError''"

definition make_partial :: "token_usage \<Rightarrow> token_usage" where
  "make_partial u = u\<lparr>tu_measurement := Partial\<rparr>"

definition ledger_evidence ::
  "ledger_format \<Rightarrow> rollouts \<Rightarrow> string \<Rightarrow> token_usage \<Rightarrow> ledger \<Rightarrow> ledger \<times> (exn + usage_evidence)" where
  \<comment> \<open>\<open>_observe_codex_usage\<close>\<close>
  "ledger_evidence fmt disk thread stream L =
     (if tu_total stream \<noteq> None
      then case observe_reconciled fmt disk thread (lf_stream fmt stream) L of
          (L1, Inl e) \<Rightarrow> (L1, Inl e)
        | (L1, Inr ob) \<Rightarrow> (L1, Inr \<lparr>ev_events = ob_events ob, ev_usage = ob_terminal ob, ev_capabilities = codex_capabilities,
                                  ev_errors = []\<rparr>)
      else case observe fmt disk thread L of
          (L1, Inl e) \<Rightarrow> (L1, Inl e)
        | (L1, Inr ob) \<Rightarrow>
            (L1, Inr \<lparr>ev_events = map (\<lambda>e. e\<lparr>ae_usage := map_option make_partial (ae_usage e)\<rparr>) (ob_events ob),
                     ev_usage = make_partial (ob_terminal ob), ev_capabilities = codex_capabilities,
                     ev_errors = [''codex_stdout_terminal_unavailable'']\<rparr>))"

definition uncovered :: "token_usage \<Rightarrow> token_usage \<Rightarrow> bool" where
  \<comment> \<open>the ledger has a counter the capture lacks or has smaller\<close>
  "uncovered seen cap = list_ex (\<lambda>f. case (f seen, f cap) of
       (None, _) \<Rightarrow> False | (Some m, None) \<Rightarrow> True | (Some m, Some n) \<Rightarrow> m > n) components"

definition with_terminal :: "agent_event list \<Rightarrow> token_usage \<Rightarrow> agent_event list" where
  "with_terminal es u =
     resequence_agent_events (filter (\<lambda>e. ae_kind e \<noteq> TerminalUsage) es @
       [\<lparr>ae_sequence = 0, ae_kind = TerminalUsage, ae_usage = Some u, ae_phase = None, ae_action = None, ae_marker = None\<rparr>])"

definition combine_evidence :: "captured \<Rightarrow> usage_evidence \<Rightarrow> usage_evidence" where
  "combine_evidence c seen =
     (let cap = cd_evidence c in
      if tu_measurement (ev_usage cap) = Exact \<or> ca_delta_observed (ev_capabilities cap) \<or> \<not> cd_complete c
      then if uncovered (ev_usage seen) (ev_usage cap)
        then let u = merge_token_usage_evidence (ev_usage seen) (ev_usage cap) in
          \<lparr>ev_events = with_terminal (ev_events seen) u, ev_usage = u, ev_capabilities = ev_capabilities seen,
           ev_errors = ev_errors cap @ ev_errors seen @ [''codex_capture_ledger_mismatch'']\<rparr>
        else if list_ex (\<lambda>e. ae_kind e = PhaseMarker) (ev_events seen) \<and> \<not> token_usage_exceeds (ev_usage seen) (ev_usage cap)
        then \<lparr>ev_events = with_terminal (ev_events seen) (ev_usage cap), ev_usage = ev_usage cap,
              ev_capabilities = (ev_capabilities cap)\<lparr>ca_delta_observed := True\<rparr>, ev_errors = ev_errors cap @ ev_errors seen\<rparr>
        else cap\<lparr>ev_errors := ev_errors cap @ ev_errors seen\<rparr>
      else seen)"

definition observe_codex_usage ::
  "ledger_format \<Rightarrow> rollouts \<Rightarrow> string \<Rightarrow> token_usage \<Rightarrow> captured option \<Rightarrow> ledger \<Rightarrow> ledger \<times> (exn + usage_evidence)" where
  "observe_codex_usage fmt disk thread stream capture L =
     (case ledger_evidence fmt disk thread stream L of
        (L1, Inl e) \<Rightarrow>
          (invalidate L1,
           (case capture of
              Some c \<Rightarrow> Inr ((cd_evidence c)\<lparr>ev_errors := ev_errors (cd_evidence c) @ [''codex_ledger_unavailable:'' @ exn_name e]\<rparr>)
            | None \<Rightarrow> Inl e))
      | (L1, Inr seen) \<Rightarrow> (L1, Inr (case capture of Some c \<Rightarrow> combine_evidence c seen | None \<Rightarrow> seen)))"

section \<open>What a scan collects\<close>

definition good :: "token_usage \<Rightarrow> bool" where
  \<comment> \<open>all five counters, none negative\<close>
  "good u \<longleftrightarrow> (\<forall>f\<in>set components. \<exists>n\<ge>0. f u = Some n)"

definition numbered_events :: "agent_event list \<Rightarrow> bool" where
  "numbered_events es \<longleftrightarrow> map ae_sequence es = [0 ..< length es]"

definition scan_sound :: "scan \<Rightarrow> bool" where
  "scan_sound s \<longleftrightarrow> deltas_of (sc_events s) = sc_deltas s \<and> list_all good (sc_deltas s) \<and> numbered_events (sc_events s)
     \<and> (\<forall>e\<in>set (sc_events s). ae_kind e \<noteq> TerminalUsage) \<and> (\<forall>u. sc_final s = Some u \<longrightarrow> good u)"

lemma deltas_of_append [simp]: "deltas_of (a @ b) = deltas_of a @ deltas_of b"
  by (simp add: deltas_of_def map_filter_def)

lemma deltas_of_simps [simp]:
  "deltas_of [] = []"
  "deltas_of (e # es) = (if ae_kind e = UsageDelta then (case ae_usage e of Some u \<Rightarrow> [u] | None \<Rightarrow> []) else []) @ deltas_of es"
  by (simp_all add: deltas_of_def map_filter_def split: option.split)

lemma token_counter_nonneg: "token_counter d name = Some n \<Longrightarrow> 0 \<le> n"
  by (auto simp: token_counter_def split: pyval.splits if_split_asm)

lemma optional_counter_nonneg: "optional_counter d name = Some n \<Longrightarrow> 0 \<le> n"
  by (auto simp: optional_counter_def token_counter_nonneg split: if_split_asm)

lemma codex_usage_good:
  assumes "tu_total (codex_usage v) \<noteq> None"
  shows "good (codex_usage v)"
proof -
  obtain d where d: "as_dict v = Some d" using assms by (cases "as_dict v") (auto simp: codex_usage_def unavailable_def)
  obtain i out r w t where c: "token_counter d ''input_tokens'' = Some i" "token_counter d ''output_tokens'' = Some out"
    "optional_counter d ''cached_input_tokens'' = Some r" "optional_counter d ''cache_write_input_tokens'' = Some w"
    "token_counter d ''total_tokens'' = Some t" "\<not> i < r"
    using assms unfolding codex_usage_def d by (simp add: unavailable_def split: option.splits if_split_asm)
  then have "codex_usage v = \<lparr>tu_input = Some (i - r), tu_output = Some out, tu_cache_read = Some r, tu_cache_write = Some w,
      tu_total = Some t, tu_measurement = Exact\<rparr>"
    by (simp add: codex_usage_def d)
  with c show ?thesis
    by (simp add: good_def components_def token_counter_nonneg optional_counter_nonneg)
qed

lemma legacy_codex_usage_good:
  assumes "tu_total (legacy_codex_usage v) \<noteq> None"
  shows "good (legacy_codex_usage v)"
proof -
  obtain d where d: "as_dict v = Some d" using assms by (cases "as_dict v") (auto simp: legacy_codex_usage_def unavailable_def)
  obtain i out r w t where c: "token_counter d ''input_tokens'' = Some i" "token_counter d ''output_tokens'' = Some out"
    "token_counter d ''cached_input_tokens'' = Some r" "token_counter d ''cache_write_input_tokens'' = Some w"
    "token_counter d ''total_tokens'' = Some t"
    using assms unfolding legacy_codex_usage_def d by (simp add: unavailable_def split: option.splits)
  then show ?thesis
    by (simp add: legacy_codex_usage_def d good_def components_def token_counter_nonneg)
qed

lemma numbered_events_simps [simp]: "numbered_events []" "numbered_events (es @ [e]) \<longleftrightarrow> numbered_events es \<and> ae_sequence e = length es"
  by (auto simp: numbered_events_def)

lemma foldl_markers:
  "deltas_of (foldl add_marker es ms) = deltas_of es"
  "(\<forall>e\<in>set (foldl add_marker es ms). ae_kind e \<noteq> TerminalUsage) \<longleftrightarrow> (\<forall>e\<in>set es. ae_kind e \<noteq> TerminalUsage)"
  "numbered_events es \<Longrightarrow> numbered_events (foldl add_marker es ms)"
  by (induction ms arbitrary: es) (auto simp: add_marker_def split: prod.splits)

lemma add_delta_ok: "scan_sound s \<Longrightarrow> good u \<Longrightarrow> scan_sound (s\<lparr>sc_deltas := sc_deltas s @ [u], sc_events := add_event UsageDelta (Some u) (sc_events s)\<rparr>)"
  by (auto simp: scan_sound_def add_event_def)

lemma add_markers_ok: "scan_sound s \<Longrightarrow> scan_sound (s\<lparr>sc_events := foldl add_marker (sc_events s) ms, sc_pending := []\<rparr>)"
  by (simp add: scan_sound_def foldl_markers)

lemma map_sum_InrE: "map_sum f g x = Inr y \<Longrightarrow> (\<And>a. x = Inr a \<Longrightarrow> y = g a \<Longrightarrow> P) \<Longrightarrow> P"
  by (cases x) auto

lemma add_pending_ok: "scan_sound s \<Longrightarrow> scan_sound (s\<lparr>sc_pending := ms\<rparr>)"
  by (simp add: scan_sound_def)

text \<open>
  All that is proved of a ledger holds for every format whose usages are known as a whole and not negative: both formats of
  the repository are such.
\<close>

locale sound_format =
  fixes fmt :: ledger_format
  assumes usage_good: "tu_total (lf_usage fmt v) \<noteq> None \<Longrightarrow> good (lf_usage fmt v)"
begin

lemma token_count_ok:
  assumes "scan_sound s" "token_count fmt info s = Inr s'"
  shows "scan_sound s'"
proof -
  define last_usage where "last_usage = lf_usage fmt (get_item info ''last_token_usage'')"
  define session_usage where "session_usage = lf_usage fmt (get_item info ''total_token_usage'')"
  obtain n cumulative where n: "tu_total last_usage = Some n" "tu_total session_usage = Some cumulative"
    using assms(2) by (auto simp: token_count_def Let_def last_usage_def session_usage_def split: option.splits)
  then have good: "good last_usage" "good session_usage"
    by (auto simp: last_usage_def session_usage_def intro: usage_good)
  define s1 where "s1 = (if cumulative = sc_cumulative s then s
       else s\<lparr>sc_deltas := sc_deltas s @ [last_usage], sc_events := add_event UsageDelta (Some last_usage) (sc_events s),
              sc_cumulative := cumulative, sc_final := Some session_usage\<rparr>)"
  have "scan_sound s1"
    using add_delta_ok [OF assms(1) good(1)] assms(1) good(2) by (simp add: s1_def) (simp add: scan_sound_def)
  moreover have "s' = s1\<lparr>sc_events := foldl add_marker (sc_events s1) (sc_pending s1), sc_pending := []\<rparr>"
    using assms(2) n unfolding token_count_def Let_def last_usage_def [symmetric] session_usage_def [symmetric] s1_def [symmetric]
    by (simp split: if_split_asm add: s1_def)
  ultimately show ?thesis by (simp add: add_markers_ok)
qed

lemma ledger_line_ok: "scan_sound s \<Longrightarrow> ledger_line fmt s line = Inr s' \<Longrightarrow> scan_sound s'"
  by (auto simp: ledger_line_def Let_def intro: token_count_ok add_pending_ok split: option.splits if_split_asm
    elim!: map_sum_InrE)

end

definition amount :: "(token_usage \<Rightarrow> int option) \<Rightarrow> token_usage list \<Rightarrow> int" where
  "amount f us = sum_list (map (\<lambda>u. the (f u)) us)"

lemma amount_simps [simp]: "amount f [] = 0" "amount f (u # us) = the (f u) + amount f us" "amount f (us @ vs) = amount f us + amount f vs"
  by (simp_all add: amount_def)

lemma good_whole: "list_all good us \<Longrightarrow> list_all whole us"
  by (auto simp: list_all_iff good_def whole_def)

lemma amount_nonneg: "list_all good us \<Longrightarrow> f \<in> set components \<Longrightarrow> 0 \<le> amount f us"
  by (induction us) (fastforce simp: good_def)+

lemma sum_good:
  assumes "us \<noteq> []" "list_all good us" "f \<in> set components"
  shows "f (sum_token_usages us) = Some (amount f us)"
  using sum_whole [OF good_whole [OF assms(2)] assms(3)] assms(1) by (simp add: sum_phase_usages_def amount_def)

lemma good_sum: "us \<noteq> [] \<Longrightarrow> list_all good us \<Longrightarrow> good (sum_token_usages us)"
  by (auto simp: good_def [of "sum_token_usages us"] sum_good amount_nonneg)

lemma good_zero: "good zero_usage"
  by (simp add: good_def components_def zero_usage_def)

definition start_scan :: "token_usage option \<Rightarrow> scan" where
  "start_scan session = \<lparr>sc_events = [], sc_pending = [], sc_deltas = [], sc_final = None,
     sc_cumulative = (case session of Some u \<Rightarrow> counted_tokens (tu_total u) | None \<Rightarrow> 0)\<rparr>"

lemma start_scan_sound: "scan_sound (start_scan session)"
  by (simp add: scan_sound_def start_scan_def)

definition base_usage :: "token_usage option \<Rightarrow> token_usage" where
  "base_usage session = (case session of Some u \<Rightarrow> u | None \<Rightarrow> zero_usage)"

definition reads :: "token_usage option \<Rightarrow> observation \<Rightarrow> bool" where
  \<comment> \<open>what an observation after \<open>session\<close> says\<close>
  "reads session ob \<longleftrightarrow>
     (let us = deltas_of (ob_events ob) in us \<noteq> [] \<and> list_all good us \<and> ob_terminal ob = sum_token_usages us
      \<and> good (ob_session ob) \<and> numbered_events (ob_events ob)
      \<and> (\<exists>es. ob_events ob = es @ [\<lparr>ae_sequence = length es, ae_kind = TerminalUsage, ae_usage = Some (ob_terminal ob),
            ae_phase = None, ae_action = None, ae_marker = None\<rparr>] \<and> (\<forall>e\<in>set es. ae_kind e \<noteq> TerminalUsage))
      \<and> (\<forall>f\<in>set components. \<forall>p. f (base_usage session) = Some p \<longrightarrow> f (ob_session ob) = Some (p + amount f us)))"

lemma conclude_reads:
  assumes "scan_sound s" "conclude_scan session s = Inr ob"
  shows "reads session ob" "deltas_of (ob_events ob) = sc_deltas s" "sc_final s = Some (ob_session ob)"
proof -
  define us where "us = sc_deltas s"
  obtain final where f: "sc_final s = Some final" "us \<noteq> []"
    "\<not> list_ex (unreconciled (base_usage session) (sum_token_usages us) final) components"
    and ob: "ob = \<lparr>ob_events = add_event TerminalUsage (Some (sum_token_usages us)) (foldl add_marker (sc_events s) (sc_pending s)),
       ob_terminal = sum_token_usages us, ob_session = final\<rparr>"
    using assms(2) by (auto simp: conclude_scan_def us_def base_usage_def Let_def split: option.splits if_split_asm)
  from assms(1) f(1) have ok: "deltas_of (sc_events s) = us" "list_all good us" "numbered_events (sc_events s)"
    "\<forall>e\<in>set (sc_events s). ae_kind e \<noteq> TerminalUsage" "good final"
    by (auto simp: scan_sound_def us_def)
  have sums: "g final = Some (p + amount g us)" if "g \<in> set components" "g (base_usage session) = Some p" for g p
  proof -
    from f(3) that have "\<not> unreconciled (base_usage session) (sum_token_usages us) final g" by (auto simp: list_ex_iff)
    moreover from ok(5) that obtain n where "g final = Some n" by (auto simp: good_def)
    ultimately show ?thesis using sum_good [OF f(2) ok(2) that(1)] that(2) by (simp add: unreconciled_def)
  qed
  show d: "deltas_of (ob_events ob) = sc_deltas s" "sc_final s = Some (ob_session ob)"
    using ok f(1) by (simp_all add: ob add_event_def foldl_markers us_def)
  show "reads session ob"
    unfolding reads_def Let_def d(1) us_def [symmetric]
    using f(2) ok sums foldl_markers(2,3) [of "sc_events s" "sc_pending s"]
    by (auto simp: ob add_event_def)
qed

lemma scan_lines_eq: "scan_lines fmt session lines = bind_res (fold_res (ledger_line fmt) (start_scan session) lines) (conclude_scan session)"
  by (simp add: scan_lines_def start_scan_def)

context sound_format begin

lemma fold_lines_ok: "scan_sound s \<Longrightarrow> fold_res (ledger_line fmt) s lines = Inr t \<Longrightarrow> scan_sound t"
  by (rule fold_res_invariant [where P = scan_sound]) (auto intro: ledger_line_ok)

lemma scan_lines_reads: "scan_lines fmt session lines = Inr ob \<Longrightarrow> reads session ob"
  by (auto simp: scan_lines_eq res_simps dest: fold_lines_ok [OF start_scan_sound] intro: conclude_reads(1))

end

section \<open>Conservation\<close>

definition session_is :: "ledger \<Rightarrow> token_usage list \<Rightarrow> bool" where
  \<comment> \<open>the cumulative usage the ledger remembers is the sum of the reported ones\<close>
  "session_is L us \<longleftrightarrow>
     (case ld_session L of
        None \<Rightarrow> us = []
      | Some w \<Rightarrow> us \<noteq> [] \<and> (\<forall>f\<in>set components. f w = Some (amount f us)))"

lemma find_path_keeps:
  "find_rollout_path disk thread L = (L1, r) \<Longrightarrow> ld_session L1 = ld_session L \<and> ld_offset L1 = ld_offset L \<and> ld_invalidated L1 = ld_invalidated L"
  by (auto simp: find_rollout_path_def split: if_split_asm option.splits)

lemma base_amount:
  assumes "session_is L us" "f \<in> set components"
  shows "f (base_usage (ld_session L)) = Some (amount f us)"
  using assms by (auto simp: session_is_def base_usage_def components_def zero_usage_def split: option.splits)

context sound_format begin

lemma observe_cases:
  assumes "observe fmt disk thread L = (L1, r)"
  shows "(\<exists>e. r = Inl e) \<and> ld_session L1 = ld_session L \<and> ld_offset L1 = ld_offset L
    \<or> (\<exists>ob. r = Inr ob \<and> reads (ld_session L) ob \<and> ld_session L1 = Some (ob_session ob))"
proof (cases "ld_invalidated L")
  case True
  with assms show ?thesis by (auto simp: observe_def)
next
  case False
  obtain L' q where f: "find_rollout_path disk thread L = (L', q)" by (cases "find_rollout_path disk thread L")
  note k = find_path_keeps [OF this]
  show ?thesis
  proof (cases q)
    case (Inl e)
    with assms False f k show ?thesis by (auto simp: observe_def)
  next
    case (Inr path)
    show ?thesis
    proof (cases "ld_thread L' \<noteq> [] \<and> thread \<noteq> ld_thread L' \<or> drop (ld_offset L') (ro_lines disk path) = []")
      case True
      with assms False f k Inr show ?thesis by (auto simp: observe_def Let_def split: if_split_asm)
    next
      case no: False
      obtain sl where sl: "scan_lines fmt (ld_session L') (drop (ld_offset L') (ro_lines disk path)) = sl" by simp
      then have "observe fmt disk thread L = (case sl of Inl e \<Rightarrow> (L', Inl e)
          | Inr ob \<Rightarrow> (L'\<lparr>ld_offset := ld_offset L' + length (drop (ld_offset L') (ro_lines disk path)),
                        ld_session := Some (ob_session ob)\<rparr>, Inr ob))"
        using no False by (auto simp: observe_def f Inr Let_def)
      moreover have "reads (ld_session L) ob" if "sl = Inr ob" for ob
        using sl k scan_lines_reads that by metis
      ultimately show ?thesis using assms k by (cases sl) auto
    qed
  qed
qed

end

lemma reads_amount:
  assumes "session_is L us" "reads (ld_session L) ob" "ld_session L1 = Some (ob_session ob)"
  shows "session_is L1 (us @ [ob_terminal ob])"
proof -
  let ?d = "deltas_of (ob_events ob)"
  from assms(2) have d: "?d \<noteq> []" "list_all good ?d" "ob_terminal ob = sum_token_usages ?d"
    and s: "\<And>f p. f \<in> set components \<Longrightarrow> f (base_usage (ld_session L)) = Some p \<Longrightarrow> f (ob_session ob) = Some (p + amount f ?d)"
    by (auto simp: reads_def Let_def)
  have "f (ob_session ob) = Some (amount f (us @ [ob_terminal ob]))" if "f \<in> set components" for f
    using s [OF that base_amount [OF assms(1) that]] sum_good [OF d(1,2) that] d(3) by simp
  with assms(3) show ?thesis by (simp add: session_is_def)
qed


lemma make_partial_sel [simp]:
  "f \<in> set components \<Longrightarrow> f (make_partial u) = f u"
  by (auto simp: make_partial_def components_def)

lemma amount_partial: "f \<in> set components \<Longrightarrow> amount f (map make_partial us) = amount f us"
  by (induction us) simp_all

lemma session_partial: "session_is L (us @ [make_partial u]) \<longleftrightarrow> session_is L (us @ [u])"
  by (simp add: session_is_def split: option.split)

definition kept_cursor :: "ledger \<Rightarrow> ledger \<Rightarrow> bool" where
  "kept_cursor L L1 \<longleftrightarrow> ld_session L1 = ld_session L \<and> ld_offset L1 = ld_offset L"

context sound_format begin

lemma reconciled_cases:
  assumes "observe_reconciled fmt disk thread stream L = (L1, r)"
  shows "(\<exists>e. r = Inl e) \<and> kept_cursor L L1
    \<or> (\<exists>ob. r = Inr ob \<and> reads (ld_session L) ob \<and> ld_session L1 = Some (ob_session ob))"
proof -
  obtain L' q where o: "observe fmt disk thread L = (L', q)" by (cases "observe fmt disk thread L")
  from observe_cases [OF o] assms o show ?thesis
    by (cases q) (auto simp: observe_reconciled_def kept_cursor_def split: if_split_asm)
qed

lemma evidence_cases:
  assumes "ledger_evidence fmt disk thread stream L = (L1, r)"
  shows "(\<exists>e. r = Inl e) \<and> kept_cursor L L1
    \<or> (\<exists>ob seen. r = Inr seen \<and> reads (ld_session L) ob \<and> ld_session L1 = Some (ob_session ob)
         \<and> ev_capabilities seen = codex_capabilities
         \<and> (ev_events seen = ob_events ob \<and> ev_usage seen = ob_terminal ob
            \<or> ev_events seen = map (\<lambda>e. e\<lparr>ae_usage := map_option make_partial (ae_usage e)\<rparr>) (ob_events ob)
              \<and> ev_usage seen = make_partial (ob_terminal ob)))"
proof (cases "tu_total stream = None")
  case True
  obtain L' q where o: "observe fmt disk thread L = (L', q)" by (cases "observe fmt disk thread L")
  from observe_cases [OF o] assms o True show ?thesis
    by (cases q) (auto simp: ledger_evidence_def kept_cursor_def)
next
  case False
  obtain L' q where o: "observe_reconciled fmt disk thread (lf_stream fmt stream) L = (L', q)"
    by (cases "observe_reconciled fmt disk thread (lf_stream fmt stream) L")
  from reconciled_cases [OF o] assms o False show ?thesis
    by (cases q) (auto simp: ledger_evidence_def)
qed

lemma evidence_amount:
  assumes "ledger_evidence fmt disk thread stream L = (L1, Inr seen)" "session_is L us"
  shows "session_is L1 (us @ [ev_usage seen])"
  using evidence_cases [OF assms(1)] reads_amount [OF assms(2)] by (auto simp: session_partial)

end

record ledger_call =
  lc_disk :: rollouts
  lc_thread :: string
  lc_stream :: token_usage
  lc_capture :: "captured option"

fun ledger_runs :: "ledger_format \<Rightarrow> ledger \<Rightarrow> ledger_call list \<Rightarrow> ledger \<times> token_usage list" where
  \<comment> \<open>the observer after the invocations, and the usage of each one the ledger accounted for\<close>
  "ledger_runs fmt L [] = (L, [])"
| "ledger_runs fmt L (c # cs) =
     (let us = (case ledger_evidence fmt (lc_disk c) (lc_thread c) (lc_stream c) L of
                  (_, Inr seen) \<Rightarrow> [ev_usage seen] | _ \<Rightarrow> []);
          L1 = fst (observe_codex_usage fmt (lc_disk c) (lc_thread c) (lc_stream c) (lc_capture c) L) in
      case ledger_runs fmt L1 cs of (L2, vs) \<Rightarrow> (L2, us @ vs))"

context sound_format begin

lemma runs_session:
  "session_is L us \<Longrightarrow> ledger_runs fmt L cs = (L', vs) \<Longrightarrow> session_is L' (us @ vs)"
proof (induction cs arbitrary: L us vs)
  case (Cons c cs)
  obtain L1 r where e: "ledger_evidence fmt (lc_disk c) (lc_thread c) (lc_stream c) L = (L1, r)"
    by (cases "ledger_evidence fmt (lc_disk c) (lc_thread c) (lc_stream c) L")
  define us1 where "us1 = (case r of Inl _ \<Rightarrow> [] | Inr seen \<Rightarrow> [ev_usage seen])"
  define L2 where "L2 = fst (observe_codex_usage fmt (lc_disk c) (lc_thread c) (lc_stream c) (lc_capture c) L)"
  have "session_is L2 (us @ us1)"
  proof (cases r)
    case (Inl x)
    then have "session_is L1 us"
      using evidence_cases [OF e] Cons.prems(1) by (auto simp: kept_cursor_def session_is_def)
    with Inl show ?thesis by (simp add: L2_def us1_def observe_codex_usage_def e invalidate_def session_is_def)
  next
    case (Inr seen)
    with evidence_amount [of _ _ _ L L1 seen us] e Cons.prems(1) show ?thesis
      by (simp add: L2_def us1_def observe_codex_usage_def)
  qed
  moreover obtain vs' where "ledger_runs fmt L2 cs = (L', vs')" "vs = us1 @ vs'"
    using Cons.prems(2) unfolding ledger_runs.simps Let_def L2_def [symmetric] e us1_def
    by (cases "ledger_runs fmt L2 cs"; cases r) auto
  ultimately show ?case using Cons.IH by fastforce
qed simp

end

interpretation light: sound_format "light_format loads"
  by unfold_locales (simp add: light_format_def codex_usage_good)

interpretation legacy: sound_format "legacy_format loads"
  by unfold_locales (simp add: legacy_format_def legacy_codex_usage_good)

section \<open>Attribution of what the ledger reports\<close>

lemma deltas_resequence: "deltas_of (resequence_agent_events es) = deltas_of es"
proof -
  have "deltas_of (map (\<lambda>(i, e). e\<lparr>ae_sequence := i\<rparr>) (enumerate n es)) = deltas_of es" for n
    by (induction es arbitrary: n) simp_all
  then show ?thesis by (simp add: resequence_agent_events_def)
qed

lemma deltas_with_terminal: "deltas_of (with_terminal es u) = deltas_of es"
proof -
  have "deltas_of (filter (\<lambda>e. ae_kind e \<noteq> TerminalUsage) es) = deltas_of es" by (induction es) auto
  then show ?thesis by (simp add: with_terminal_def deltas_resequence)
qed

lemma deltas_partial: "deltas_of (map (\<lambda>e. e\<lparr>ae_usage := map_option make_partial (ae_usage e)\<rparr>) es) = map make_partial (deltas_of es)"
  by (induction es) (auto split: option.split)

definition covers :: "token_usage \<Rightarrow> token_usage list \<Rightarrow> bool" where
  "covers terminal us \<longleftrightarrow> tu_total terminal \<noteq> None \<and> (\<forall>f\<in>set components. \<forall>n. f terminal = Some n \<longrightarrow> amount f us \<le> n)"

lemma covered_reconciles:
  assumes "list_all good (deltas_of es)" "covers terminal (deltas_of es)"
  shows "\<exists>s. summarize_phase_tokens es terminal caps errors = Inr s \<and> sm_reconciliation s = ''reconciled''"
proof (cases "ca_delta caps \<and> ca_delta_observed caps")
  case True
  have "\<not> token_usage_exceeds (sum_phase_usages (deltas_of es)) terminal"
  proof -
    have "f (sum_phase_usages (deltas_of es)) = Some (amount f (deltas_of es))" if "f \<in> set components" for f
      using sum_whole [OF good_whole [OF assms(1)] that] by (simp add: amount_def)
    with assms(2) show ?thesis
      by (fastforce simp: token_usage_exceeds_def list_ex_iff component_exceeds_def covers_def split: option.splits)
  qed
  with True assms complete_session [of caps es terminal errors] show ?thesis
    by (fastforce simp: list_all_iff good_def covers_def)
next
  case False
  with assms(2) show ?thesis by (auto simp: summarize_phase_tokens_def no_delta_summary_def Let_def covers_def)
qed

lemma larger_upper: "x = Some m \<Longrightarrow> larger x y = Some n \<Longrightarrow> m \<le> n"
  by (auto simp: larger_def split: option.splits)

lemma merge_covers:
  assumes "covers a us" "\<forall>f\<in>set components. f a \<noteq> None"
  shows "covers (merge_token_usage_evidence a b) us"
proof -
  obtain t where t: "tu_total a = Some t" using assms(1) by (auto simp: covers_def)
  have "amount f us \<le> n" if "f \<in> set components" "f (merge_token_usage_evidence a b) = Some n" for f n
  proof -
    from assms that(1) obtain m where "f a = Some m" "amount f us \<le> m" by (auto simp: covers_def)
    moreover from this(1) that t have "m \<le> n"
      by (auto simp: merge_token_usage_evidence_def components_def Let_def counted_tokens_def dest: larger_upper)
    ultimately show ?thesis by simp
  qed
  with t show ?thesis by (simp add: covers_def merge_token_usage_evidence_def Let_def)
qed


lemma reads_covered:
  assumes "reads session ob"
  shows "list_all good (deltas_of (ob_events ob))" "covers (ob_terminal ob) (deltas_of (ob_events ob))"
    "\<forall>f\<in>set components. f (ob_terminal ob) \<noteq> None"
    "list_all good (deltas_of (map (\<lambda>e. e\<lparr>ae_usage := map_option make_partial (ae_usage e)\<rparr>) (ob_events ob)))"
    "covers (make_partial (ob_terminal ob)) (deltas_of (map (\<lambda>e. e\<lparr>ae_usage := map_option make_partial (ae_usage e)\<rparr>) (ob_events ob)))"
proof -
  define us where "us = deltas_of (ob_events ob)"
  from assms have us: "us \<noteq> []" "list_all good us" "ob_terminal ob = sum_token_usages us" by (auto simp: reads_def us_def Let_def)
  have t: "f (ob_terminal ob) = Some (amount f us)" if "f \<in> set components" for f
    using sum_good [OF us(1,2) that] us(3) by simp
  have total: "tu_total \<in> set components" by (simp add: components_def)
  have partial: "good (make_partial u)" if "good u" for u using that by (simp add: good_def)
  show "list_all good (deltas_of (ob_events ob))" "covers (ob_terminal ob) (deltas_of (ob_events ob))"
    "\<forall>f\<in>set components. f (ob_terminal ob) \<noteq> None"
    using us(2) t total unfolding us_def covers_def by fastforce+
  show "list_all good (deltas_of (map (\<lambda>e. e\<lparr>ae_usage := map_option make_partial (ae_usage e)\<rparr>) (ob_events ob)))"
    using us(2) partial by (simp add: deltas_partial us_def [symmetric] list_all_iff)
  show "covers (make_partial (ob_terminal ob)) (deltas_of (map (\<lambda>e. e\<lparr>ae_usage := map_option make_partial (ae_usage e)\<rparr>) (ob_events ob)))"
    using t total unfolding covers_def deltas_partial us_def [symmetric] by (fastforce simp: amount_partial)
qed

lemma combine_covers:
  assumes "covers (ev_usage seen) us" "\<forall>f\<in>set components. f (ev_usage seen) \<noteq> None"
    and "ev_events (combine_evidence c seen) \<noteq> ev_events (cd_evidence c)"
  shows "deltas_of (ev_events (combine_evidence c seen)) = deltas_of (ev_events seen) \<and> covers (ev_usage (combine_evidence c seen)) us"
proof -
  let ?cap = "ev_usage (cd_evidence c)"
  have "covers ?cap us" if "\<not> uncovered (ev_usage seen) ?cap"
  proof -
    have c: "\<exists>m n. f (ev_usage seen) = Some m \<and> f ?cap = Some n \<and> m \<le> n" if "f \<in> set components" for f
    proof -
      from assms(2) that obtain m where m: "f (ev_usage seen) = Some m" by blast
      from \<open>\<not> uncovered _ _\<close> that have "\<not> (case (f (ev_usage seen), f ?cap) of
          (None, _) \<Rightarrow> False | (Some m, None) \<Rightarrow> True | (Some m, Some n) \<Rightarrow> m > n)"
        unfolding uncovered_def list_ex_iff by blast
      with m show ?thesis by (cases "f ?cap") auto
    qed
    have "amount f us \<le> n" if f: "f \<in> set components" "f ?cap = Some n" for f n
      using c [OF f(1)] assms(1) f by (force simp: covers_def)
    moreover have "tu_total ?cap \<noteq> None" using c [of tu_total] by (auto simp: components_def)
    ultimately show ?thesis by (simp add: covers_def)
  qed
  note ok = this merge_covers [OF assms(1,2), of ?cap]
  let ?prefer = "tu_measurement ?cap = Exact \<or> ca_delta_observed (ev_capabilities (cd_evidence c)) \<or> \<not> cd_complete c"
  show ?thesis
  proof (cases "?prefer \<and> \<not> uncovered (ev_usage seen) ?cap")
    case False
    then show ?thesis using ok assms(1) by (auto simp: combine_evidence_def Let_def deltas_with_terminal)
  next
    case True
    with assms(3) have "list_ex (\<lambda>e. ae_kind e = PhaseMarker) (ev_events seen) \<and> \<not> token_usage_exceeds (ev_usage seen) ?cap"
      by (rule_tac ccontr) (simp add: combine_evidence_def Let_def)
    with True ok show ?thesis by (simp add: combine_evidence_def Let_def deltas_with_terminal)
  qed
qed

section \<open>Increments\<close>

definition scan_sim :: "token_usage list \<Rightarrow> scan \<Rightarrow> scan \<Rightarrow> bool" where
  \<comment> \<open>a scan of more lines, whose earlier part reported these deltas\<close>
  "scan_sim us s t \<longleftrightarrow> sc_deltas s = us @ sc_deltas t \<and> sc_cumulative s = sc_cumulative t \<and> (sc_final t \<noteq> None \<longrightarrow> sc_final s = sc_final t)"

definition final_cumulative :: "scan \<Rightarrow> bool" where
  "final_cumulative s \<longleftrightarrow> (\<forall>u. sc_final s = Some u \<longrightarrow> tu_total u = Some (sc_cumulative s))"

lemma token_count_sim:
  assumes "scan_sim us s t" "token_count fmt info t = Inr t'"
  shows "\<exists>s'. token_count fmt info s = Inr s' \<and> scan_sim us s' t'"
  using assms by (auto simp: token_count_def scan_sim_def Let_def split: option.splits if_split_asm)

lemma ledger_line_sim:
  assumes "scan_sim us s t" "ledger_line fmt t line = Inr t'"
  shows "\<exists>s'. ledger_line fmt s line = Inr s' \<and> scan_sim us s' t'"
proof (cases line)
  case None
  with assms(2) show ?thesis by (simp add: ledger_line_def)
next
  case (Some v)
  show ?thesis
  proof (cases "as_dict v")
    case None
    with Some assms show ?thesis by (simp add: ledger_line_def)
  next
    case d: (Some d)
    let ?body = "sub_dict d ''payload''"
    consider (tool) "get_item d ''type'' = VStr ''response_item''" "get_item ?body ''type'' = VStr ''custom_tool_call_output''"
      | (other) "\<not> (get_item d ''type'' = VStr ''response_item'' \<and> get_item ?body ''type'' = VStr ''custom_tool_call_output'')"
        "get_item d ''type'' \<noteq> VStr ''event_msg'' \<or> get_item ?body ''type'' \<noteq> VStr ''token_count''"
      | (count) "get_item d ''type'' = VStr ''event_msg''" "get_item ?body ''type'' = VStr ''token_count''"
      by blast
    then show ?thesis
    proof cases
      case tool
      with assms Some d show ?thesis
        by (auto simp: ledger_line_def Let_def scan_sim_def elim!: map_sum_InrE)
    next
      case other
      with assms Some d show ?thesis by (auto simp: ledger_line_def Let_def)
    next
      case count
      with assms Some d show ?thesis by (simp add: ledger_line_def Let_def token_count_sim)
    qed
  qed
qed

lemma fold_sim:
  "scan_sim us s t \<Longrightarrow> fold_res (ledger_line fmt) t lines = Inr t' \<Longrightarrow>
     \<exists>s'. fold_res (ledger_line fmt) s lines = Inr s' \<and> scan_sim us s' t'"
proof (induction lines arbitrary: s t)
  case (Cons line lines)
  then obtain t1 where "ledger_line fmt t line = Inr t1" "fold_res (ledger_line fmt) t1 lines = Inr t'" by (auto simp: res_simps)
  with Cons.prems(1) Cons.IH ledger_line_sim [of us s t fmt line t1] show ?case by (auto simp: res_simps)
qed simp

lemma line_cumulative:
  assumes "final_cumulative s" "ledger_line fmt s line = Inr s'"
  shows "final_cumulative s'"
proof -
  have "final_cumulative s'" if "token_count fmt info s = Inr s'" for info
    using that assms(1) by (auto simp: token_count_def Let_def final_cumulative_def split: option.splits if_split_asm)
  with assms show ?thesis
    by (auto simp: ledger_line_def Let_def split: option.splits if_split_asm elim!: map_sum_InrE) (auto simp: final_cumulative_def)
qed

lemma fold_cumulative: "fold_res (ledger_line fmt) (start_scan session) lines = Inr s \<Longrightarrow> final_cumulative s"
  by (rule fold_res_invariant [where P = final_cumulative])
    (auto intro: line_cumulative, simp add: final_cumulative_def start_scan_def)

lemma conclude_joined:
  assumes "sc_deltas s = us @ vs" "sc_final s = Some (ob_session ob')" "reads session ob" "reads (Some (ob_session ob)) ob'"
    and "us = deltas_of (ob_events ob)" "vs = deltas_of (ob_events ob')" "\<forall>u. session = Some u \<longrightarrow> good u"
  shows "is_ok (conclude_scan session s)"
proof -
  from assms have u: "us \<noteq> []" "list_all good us" "vs \<noteq> []" "list_all good vs" by (auto simp: reads_def Let_def)
  have "\<not> unreconciled (base_usage session) (sum_token_usages (us @ vs)) (ob_session ob') f" if f: "f \<in> set components" for f
  proof -
    have "good (base_usage session)" using assms(7) good_zero by (auto simp: base_usage_def split: option.split)
    then obtain p where p: "f (base_usage session) = Some p" using f by (auto simp: good_def)
    with assms(3,5) f have "f (ob_session ob) = Some (p + amount f us)" by (auto simp: reads_def Let_def)
    with assms(4,6) f have "f (ob_session ob') = Some (p + amount f us + amount f vs)" by (auto simp: reads_def Let_def base_usage_def)
    with p u sum_good [of "us @ vs" f] f show ?thesis by (simp add: unreconciled_def)
  qed
  with assms(1,2) u(1) show ?thesis
    by (auto simp: conclude_scan_def Let_def list_ex_iff base_usage_def [symmetric])
qed

context sound_format begin

lemma increments:
  assumes "scan_lines fmt session a = Inr ob" "scan_lines fmt (Some (ob_session ob)) b = Inr ob'"
    and "\<forall>u. session = Some u \<longrightarrow> good u"
  shows "\<exists>ob''. scan_lines fmt session (a @ b) = Inr ob''
     \<and> deltas_of (ob_events ob'') = deltas_of (ob_events ob) @ deltas_of (ob_events ob') \<and> ob_session ob'' = ob_session ob'"
proof -
  from assms(1) obtain s where s: "fold_res (ledger_line fmt) (start_scan session) a = Inr s" "conclude_scan session s = Inr ob"
    by (auto simp: scan_lines_eq res_simps)
  from assms(2) obtain t where t: "fold_res (ledger_line fmt) (start_scan (Some (ob_session ob))) b = Inr t"
    "conclude_scan (Some (ob_session ob)) t = Inr ob'"
    by (auto simp: scan_lines_eq res_simps)
  note ok = fold_lines_ok [OF start_scan_sound s(1)] fold_lines_ok [OF start_scan_sound t(1)]
  note c = conclude_reads [OF ok(1) s(2)] conclude_reads [OF ok(2) t(2)]
  have "scan_sim (sc_deltas s) s (start_scan (Some (ob_session ob)))"
    using fold_cumulative [OF s(1)] c(3) by (simp add: scan_sim_def start_scan_def final_cumulative_def counted_tokens_def)
  from fold_sim [OF this t(1)] obtain s' where s': "fold_res (ledger_line fmt) s b = Inr s'" "scan_sim (sc_deltas s) s' t" by blast
  then have f: "fold_res (ledger_line fmt) (start_scan session) (a @ b) = Inr s'" by (simp add: fold_res_append s(1))
  from s'(2) c(6) have d: "sc_deltas s' = sc_deltas s @ sc_deltas t" "sc_final s' = Some (ob_session ob')"
    by (auto simp: scan_sim_def)
  have "is_ok (conclude_scan session s')"
    by (rule conclude_joined [OF d c(1,4)]) (use assms(3) c(2,5) in auto)
  then obtain ob'' where ob: "conclude_scan session s' = Inr ob''" by (auto simp: is_ok_iff)
  note c'' = conclude_reads [OF fold_lines_ok [OF start_scan_sound f] ob]
  with d c(2,5) ob f show ?thesis by (auto simp: scan_lines_eq res_simps)
qed

end

section \<open>A demonstration\<close>

abbreviation demo_format :: ledger_format where "demo_format \<equiv> light_format (\<lambda>_. None)"

definition demo_thread :: string where "demo_thread = replicate 32 (CHR ''a'')"

definition demo_counts :: "int \<Rightarrow> pyval" where
  "demo_counts n = VDict [(''input_tokens'', VInt (3 * n)), (''output_tokens'', VInt n), (''cached_input_tokens'', VInt n),
     (''total_tokens'', VInt (4 * n))]"

definition demo_line :: "int \<Rightarrow> pyval option" where
  \<comment> \<open>the count after the \<open>n\<close>th request of a session whose requests are alike\<close>
  "demo_line n = Some (VDict [(''type'', VStr ''event_msg''), (''payload'', VDict [(''type'', VStr ''token_count''),
     (''info'', VDict [(''last_token_usage'', demo_counts 1), (''total_token_usage'', demo_counts n)])])])"

definition demo_disk :: "nat \<Rightarrow> rollouts" where
  "demo_disk n = \<lparr>ro_search = (\<lambda>thread. if thread = demo_thread then Some ''file'' else None),
     ro_lines = (\<lambda>path. map (\<lambda>i. demo_line (int i)) [1 ..< Suc n]), ro_meta = []\<rparr>"

definition demo_invocation :: "nat \<Rightarrow> ledger_call" where
  "demo_invocation n = \<lparr>lc_disk = demo_disk n, lc_thread = demo_thread, lc_stream = unavailable, lc_capture = None\<rparr>"

definition demo_total :: "int \<Rightarrow> token_usage" where
  "demo_total n = \<lparr>tu_input = Some (2 * n), tu_output = Some n, tu_cache_read = Some n, tu_cache_write = Some 0,
     tu_total = Some (4 * n), tu_measurement = Exact\<rparr>"

lemma demo_usage: "0 \<le> n \<Longrightarrow> codex_usage (demo_counts n) = demo_total n"
  by (simp add: codex_usage_def demo_counts_def demo_total_def token_counter_def optional_counter_def get_item_def dict_get_default_def
    dict_has_def)

lemma demo_scan_line:
  assumes "0 < n" "sc_cumulative s < 4 * n"
  shows "ledger_line demo_format s (demo_line n) = Inr (s\<lparr>sc_deltas := sc_deltas s @ [demo_total 1],
     sc_events := foldl add_marker (add_event UsageDelta (Some (demo_total 1)) (sc_events s)) (sc_pending s), sc_pending := [],
     sc_cumulative := 4 * n, sc_final := Some (demo_total n)\<rparr>)"
proof -
  have [simp]: "tu_total (demo_total n) = Some (4 * n)" "tu_total (demo_total 1) = Some 4" by (simp_all add: demo_total_def)
  have u: "codex_usage (demo_counts n) = demo_total n" "codex_usage (demo_counts 1) = demo_total 1" using assms by (simp_all add: demo_usage)
  show ?thesis
    using assms by (simp add: ledger_line_def demo_line_def sub_dict_def get_item_def dict_get_default_def Let_def token_count_def light_format_def u)
qed


lemma demo_scans:
  "\<exists>ob ob'. scan_lines demo_format None [demo_line 1] = Inr ob \<and> scan_lines demo_format (Some (ob_session ob)) [demo_line 2] = Inr ob'
     \<and> length (deltas_of (ob_events ob)) = 1 \<and> length (deltas_of (ob_events ob')) = 1"
  by (simp add: scan_lines_eq start_scan_def demo_scan_line conclude_scan_def Let_def sum_token_usages_def observed_usage_def
    unreconciled_def components_def demo_total_def sum_component_def zero_usage_def add_event_def counted_tokens_def)

lemma demo_thread_ok [simp]: "is_thread_id demo_thread" "demo_thread \<noteq> []"
  by code_simp+

lemma demo_disk_lines [simp]: "ro_lines (demo_disk (Suc 0)) path = [demo_line 1]" "ro_lines (demo_disk 2) path = [demo_line 1, demo_line 2]"
  "ro_search (demo_disk n) demo_thread = Some ''file''"
  by (simp_all add: demo_disk_def numeral_2_eq_2)

lemma demo_observed:
  "\<exists>L e. observe_codex_usage demo_format (demo_disk 1) demo_thread unavailable None new_ledger = (L, Inr e)"
  using demo_scans
  by (auto simp: observe_codex_usage_def ledger_evidence_def observe_def find_rollout_path_def new_ledger_def unavailable_def)

lemma demo_invocations:
  "\<exists>L us. ledger_runs demo_format new_ledger [demo_invocation 1, demo_invocation 2] = (L, us) \<and> length us = 2"
  using demo_scans
  by (auto simp: demo_invocation_def observe_codex_usage_def ledger_evidence_def observe_def find_rollout_path_def new_ledger_def
    unavailable_def Let_def)

section \<open>Properties\<close>

text \<open>C18: The ledger neither loses nor repeats tokens.  Over any sequence of invocations, whatever the rollout files hold, whatever the
  stream and the capture report, and however many observations fail, the cumulative usage the observer remembers is, in each
  component, exactly the sum of the usages it has reported, and it remembers one as soon as it has reported one.\<close>

theorem ledger_conserves:
  assumes "ledger_runs (light_format loads) new_ledger calls = (L, us)"
  shows "case ld_session L of
      None \<Rightarrow> us = []
    | Some w \<Rightarrow> us \<noteq> [] \<and> (\<forall>f\<in>set components. f w = Some (sum_list (map (\<lambda>u. the (f u)) us)))"
proof -
  have "session_is new_ledger []" by (simp add: session_is_def new_ledger_def)
  from light.runs_session [OF this assms] show ?thesis by (cases "ld_session L") (simp_all add: session_is_def amount_def)
qed

theorem ledger_conserves_witness:
  "\<exists>L us w. ledger_runs demo_format new_ledger [demo_invocation 1, demo_invocation 2] = (L, us) \<and> length us = 2
     \<and> ld_session L = Some w \<and> tu_total w = Some (sum_list (map (\<lambda>u. the (tu_total u)) us))"
proof -
  obtain L us where r: "ledger_runs demo_format new_ledger [demo_invocation 1, demo_invocation 2] = (L, us)" "length us = 2"
    using demo_invocations by blast
  with ledger_conserves [OF r(1)] show ?thesis by (auto simp: components_def split: option.splits)
qed

text \<open>C25: What the ledger reports can be attributed.  When an invocation is accounted by the ledger's events, alone or with the usage of
  the capture merged in, the phase accounting of those events always succeeds and reconciles with the usage reported for
  the invocation, whatever markers the session wrote.\<close>

theorem ledger_usage_reconciles:
  assumes "observe_codex_usage (light_format loads) disk thread stream capture L = (L1, Inr e)"
    and "\<forall>c. capture = Some c \<longrightarrow> ev_events e \<noteq> ev_events (cd_evidence c)"
  shows "\<exists>s. summarize_phase_tokens (ev_events e) (ev_usage e) (ev_capabilities e) errors = Inr s
     \<and> sm_reconciliation s = ''reconciled''"
proof -
  obtain L' r where l: "ledger_evidence (light_format loads) disk thread stream L = (L', r)" by (cases "ledger_evidence (light_format loads) disk thread stream L")
  from assms l obtain seen where seen: "r = Inr seen" "e = (case capture of Some c \<Rightarrow> combine_evidence c seen | None \<Rightarrow> seen)"
    by (cases r; cases capture) (auto simp: observe_codex_usage_def)
  from light.evidence_cases [OF l] seen(1) obtain ob where ob: "reads (ld_session L) ob"
    "ev_events seen = ob_events ob \<and> ev_usage seen = ob_terminal ob
      \<or> ev_events seen = map (\<lambda>e. e\<lparr>ae_usage := map_option make_partial (ae_usage e)\<rparr>) (ob_events ob) \<and> ev_usage seen = make_partial (ob_terminal ob)"
    by auto
  from reads_covered [OF ob(1)] ob(2) have own: "list_all good (deltas_of (ev_events seen))" "covers (ev_usage seen) (deltas_of (ev_events seen))"
    "\<forall>f\<in>set components. f (ev_usage seen) \<noteq> None"
    by auto
  have "deltas_of (ev_events e) = deltas_of (ev_events seen) \<and> covers (ev_usage e) (deltas_of (ev_events seen))"
    using assms(2) seen(2) combine_covers [OF own(2,3)] own(2) by (cases capture) auto
  with own(1) covered_reconciles [of "ev_events e" "ev_usage e" "ev_capabilities e" errors] show ?thesis by simp
qed

theorem ledger_usage_reconciles_witness:
  "\<exists>L e s. observe_codex_usage demo_format (demo_disk 1) demo_thread unavailable None new_ledger = (L, Inr e)
     \<and> summarize_phase_tokens (ev_events e) (ev_usage e) (ev_capabilities e) [] = Inr s \<and> sm_reconciliation s = ''reconciled''"
proof -
  obtain L e where o: "observe_codex_usage demo_format (demo_disk 1) demo_thread unavailable None new_ledger = (L, Inr e)"
    using demo_observed by blast
  from ledger_usage_reconciles [OF o] o show ?thesis by auto
qed

text \<open>Reading in increments is reading at once.  When two successive observations of a growing file both succeed, reading all its lines
  in one observation succeeds too, reports the deltas of the first followed by those of the second, and ends with
  the same cumulative usage.\<close>

theorem increments_as_one:
  assumes "fmt \<in> {light_format loads, legacy_format loads}"
    and "scan_lines fmt session a = Inr ob" "scan_lines fmt (Some (ob_session ob)) b = Inr ob'"
    and "\<forall>u. session = Some u \<longrightarrow> good u"
  shows "\<exists>ob''. scan_lines fmt session (a @ b) = Inr ob''
     \<and> deltas_of (ob_events ob'') = deltas_of (ob_events ob) @ deltas_of (ob_events ob') \<and> ob_session ob'' = ob_session ob'"
  using assms light.increments legacy.increments by blast

theorem increments_as_one_witness:
  "\<exists>ob. scan_lines demo_format None ([demo_line 1] @ [demo_line 2]) = Inr ob \<and> length (deltas_of (ob_events ob)) = 2"
proof -
  obtain ob ob' where o: "scan_lines demo_format None [demo_line 1] = Inr ob" "scan_lines demo_format (Some (ob_session ob)) [demo_line 2] = Inr ob'"
    "length (deltas_of (ob_events ob)) = 1" "length (deltas_of (ob_events ob')) = 1"
    using demo_scans by blast
  from increments_as_one [of _ "\<lambda>_. None", OF _ o(1,2)] o(3,4) show ?thesis by auto
qed

end
