(* ===== verification/Streams.thy ===== *)
theory Streams
  imports CodexLedger
begin

text \<open>
  What an agent's standard output says of its usage: the adapters of src/src/aka/legacy/agent/adapter.py and of
  src/src/aka/light/agent/runtime/adapter.py, and \<open>terminal_usage_from_stream\<close> of src/src/aka/legacy/agent/runtime.py.
  \<open>json.loads\<close> of a line is the parameter \<open>loads\<close>.  Texts are over the code points below 256.
\<close>

section \<open>Usages in JSON\<close>

definition counter_of :: "pyval dict \<Rightarrow> string list \<Rightarrow> int option" where
  "counter_of d names = (case List.map_filter (token_counter d) names of n # _ \<Rightarrow> Some n | [] \<Rightarrow> None)"

definition token_usage_from_mapping :: "pyval \<Rightarrow> token_usage" where
  "token_usage_from_mapping v =
     (case as_dict v of
        None \<Rightarrow> unavailable
      | Some d \<Rightarrow>
          let i = counter_of d [''input_tokens'', ''inputTokens'', ''input''];
              out = counter_of d [''output_tokens'', ''outputTokens'', ''output''];
              r = counter_of d [''cache_read_input_tokens'', ''cacheReadInputTokens'', ''cacheRead''];
              w = counter_of d [''cache_creation_input_tokens'', ''cacheCreationInputTokens'', ''cacheWrite''];
              t = counter_of d [''total_tokens'', ''totalTokens''] in
          if t = None \<and> i = None \<and> out = None \<and> r = None \<and> w = None then unavailable
          else \<lparr>tu_input = i, tu_output = out, tu_cache_read = r, tu_cache_write = w,
                tu_total = Some (case t of Some n \<Rightarrow> n
                  | None \<Rightarrow> counted_tokens i + counted_tokens out + counted_tokens r + counted_tokens w),
                tu_measurement = Exact\<rparr>)"

definition token_usage_from_model_usage :: "pyval \<Rightarrow> token_usage" where
  "token_usage_from_model_usage v =
     (case as_dict v of None \<Rightarrow> unavailable | Some d \<Rightarrow> sum_token_usages (map (\<lambda>(k, w). token_usage_from_mapping w) d))"

definition json_events :: "(string \<Rightarrow> pyval option) \<Rightarrow> string \<Rightarrow> pyval dict list" where
  "json_events loads stdout =
     List.map_filter (\<lambda>line. if starts_with ''{'' (py_strip line) then Option.bind (loads (py_strip line)) as_dict else None)
       (split_lines stdout [])"

definition message_of :: "pyval dict \<Rightarrow> pyval dict option" where
  "message_of event = as_dict (get_item event ''message'')"

definition event_usage :: "pyval dict \<Rightarrow> pyval" where
  \<comment> \<open>the usage of an event, or else of its message\<close>
  "event_usage event =
     (case message_of event of
        Some m \<Rightarrow> if get_item event ''usage'' = VNull then get_item m ''usage'' else get_item event ''usage''
      | None \<Rightarrow> get_item event ''usage'')"

definition message_id :: "pyval dict \<Rightarrow> string option" where
  "message_id event = (case message_of event of Some m \<Rightarrow> (case get_item m ''id'' of VStr s \<Rightarrow> Some s | _ \<Rightarrow> None) | None \<Rightarrow> None)"

definition type_among :: "pyval dict \<Rightarrow> string \<Rightarrow> string list \<Rightarrow> exn + bool" where
  \<comment> \<open>\<open>d.get(k) in {...}\<close>\<close>
  "type_among d k names =
     (if hashable (get_item d k) then Inr (get_item d k \<in> VStr ` set names) else Inl (TypeError (Msg ''unhashable type'')))"

section \<open>Receipts of successful tools\<close>

definition event_roots :: "pyval dict \<Rightarrow> pyval list" where
  "event_roots event =
     (let t = get_item event ''type'' in
      if t = VStr ''user'' then
        (case message_of event of
           Some m \<Rightarrow>
             (case get_item m ''content'' of
                VList items \<Rightarrow>
                  List.map_filter (\<lambda>item. case as_dict item of
                      Some d \<Rightarrow> if get_item d ''type'' = VStr ''tool_result'' \<and> \<not> truthy (get_item d ''is_error'')
                        then Some (get_item d ''content'') else None
                    | None \<Rightarrow> None) items
              | _ \<Rightarrow> [])
         | None \<Rightarrow> [])
      else if t = VStr ''tool_result'' \<and> \<not> truthy (get_item event ''is_error'') then [get_item event ''content'']
      else if t = VStr ''message_end'' then
        (case message_of event of
           Some m \<Rightarrow> if get_item m ''role'' = VStr ''toolResult'' \<and> \<not> truthy (get_item m ''isError'') then [get_item m ''content''] else []
         | None \<Rightarrow> [])
      else if t = VStr ''item.completed'' then
        (case as_dict (get_item event ''item'') of
           Some d \<Rightarrow> if get_item d ''type'' = VStr ''command_execution'' \<and> py_eq (get_item d ''exit_code'') (VInt 0)
               \<and> get_item d ''status'' = VStr ''completed'' then [get_item d ''aggregated_output''] else []
         | None \<Rightarrow> [])
      else [])"

definition event_receipts :: "(string \<Rightarrow> pyval option) \<Rightarrow> pyval dict \<Rightarrow> exn + receipt list" where
  "event_receipts loads event = map_sum id concat (map_res (phase_marker_receipts loads) (event_roots event))"

section \<open>The terminal usage of a stream\<close>

record terminal_scan =
  ts_terminal :: token_usage
  ts_deltas :: "token_usage list"

definition terminal_event :: "terminal_scan \<Rightarrow> pyval dict \<Rightarrow> exn + terminal_scan" where
  "terminal_event s event =
     bind_res (type_among event ''type'' [''result'', ''turn.completed'']) (\<lambda>last_of_turn.
     if last_of_turn then
       let u = token_usage_from_mapping (get_item event ''usage'');
           parsed = (if tu_total u = None then token_usage_from_model_usage (get_item event ''modelUsage'') else u) in
       Inr (if tu_total parsed \<noteq> None then s\<lparr>ts_terminal := parsed\<rparr> else s)
     else
       let parsed = token_usage_from_mapping (event_usage event) in
       Inr (if tu_total parsed \<noteq> None then s\<lparr>ts_deltas := ts_deltas s @ [parsed]\<rparr> else s))"

definition partial_if_known :: "token_usage \<Rightarrow> token_usage" where
  "partial_if_known u = (if tu_total u \<noteq> None then make_partial u else u)"

definition terminal_usage_from_stream :: "(string \<Rightarrow> pyval option) \<Rightarrow> string \<Rightarrow> exn + token_usage" where
  "terminal_usage_from_stream loads stdout =
     bind_res (fold_res terminal_event \<lparr>ts_terminal = unavailable, ts_deltas = []\<rparr> (json_events loads stdout)) (\<lambda>s.
     Inr (if tu_total (ts_terminal s) \<noteq> None then ts_terminal s else partial_if_known (sum_token_usages (ts_deltas s))))"

section \<open>The adapters\<close>

type_synonym normalized = "agent_event list \<times> token_usage"

record stream =
  st_events :: "agent_event list"
  st_terminal :: token_usage
  st_seen :: "(string \<times> nat) list"   \<comment> \<open>the responses already billed, with the position of their event\<close>

definition empty_stream :: stream where
  "empty_stream = \<lparr>st_events = [], st_terminal = unavailable, st_seen = []\<rparr>"

definition note_receipts :: "(string \<Rightarrow> pyval option) \<Rightarrow> pyval dict \<Rightarrow> stream \<Rightarrow> exn + stream" where
  "note_receipts loads event s =
     map_sum id (\<lambda>ms. s\<lparr>st_events := foldl add_marker (st_events s) ms\<rparr>) (event_receipts loads event)"

definition note_terminal :: "token_usage \<Rightarrow> stream \<Rightarrow> stream" where
  "note_terminal u s = s\<lparr>st_terminal := u,
     st_events := (if tu_total u \<noteq> None then add_event TerminalUsage (Some u) (st_events s) else st_events s)\<rparr>"

definition response_name :: "string option \<Rightarrow> string option" where
  "response_name mid = (if mid = Some [] then None else mid)"

definition billed_before :: "string option \<Rightarrow> stream \<Rightarrow> nat option" where
  "billed_before mid s = Option.bind (response_name mid) (map_of (st_seen s))"

definition bill :: "string option \<Rightarrow> token_usage \<Rightarrow> stream \<Rightarrow> stream" where
  \<comment> \<open>a usage delta, remembered under its response\<close>
  "bill mid u s = s\<lparr>st_events := add_event UsageDelta (Some u) (st_events s),
     st_seen := (case response_name mid of Some m \<Rightarrow> (m, length (st_events s)) # st_seen s | None \<Rightarrow> st_seen s)\<rparr>"

definition conclude_stream :: "stream \<Rightarrow> normalized" where
  "conclude_stream s =
     (st_events s, if tu_total (st_terminal s) \<noteq> None then st_terminal s else partial_if_known (sum_token_usages (deltas_of (st_events s))))"

subsection \<open>Claude and Qoder\<close>

definition result_usage :: "bool \<Rightarrow> pyval dict \<Rightarrow> token_usage" where
  \<comment> \<open>the usage of a result, or else the sum over its models if the flag allows it\<close>
  "result_usage models event =
     (let u = token_usage_from_mapping (get_item event ''usage'') in
      if tu_total u = None \<and> models then token_usage_from_model_usage (get_item event ''modelUsage'') else u)"

definition is_result :: "pyval dict \<Rightarrow> bool" where
  "is_result event = (get_item event ''type'' = VStr ''result'')"

definition claude_event :: "(string \<Rightarrow> pyval option) \<Rightarrow> stream \<Rightarrow> pyval dict \<Rightarrow> exn + stream" where
  "claude_event loads s event =
     (if is_result event then Inr (note_terminal (result_usage True event) s)
      else
        let parsed = token_usage_from_mapping (event_usage event) in
        note_receipts loads event
          (if tu_total parsed \<noteq> None \<and> billed_before (message_id event) s = None then bill (message_id event) parsed s else s))"

definition normalize_claude :: "(string \<Rightarrow> pyval option) \<Rightarrow> string \<Rightarrow> exn + normalized" where
  "normalize_claude loads stdout = map_sum id conclude_stream (fold_res (claude_event loads) empty_stream (json_events loads stdout))"

definition qoder_result :: "normalized \<Rightarrow> normalized" where
  \<comment> \<open>a session that only ever reports zero reports nothing\<close>
  "qoder_result r = (case r of (events, terminal) \<Rightarrow>
     if tu_total terminal = Some 0 \<and> list_ex (\<lambda>e. ae_usage e \<noteq> None) events
        \<and> list_all (\<lambda>e. case ae_usage e of Some u \<Rightarrow> tu_total u = Some 0 | None \<Rightarrow> True) events
     then (resequence_agent_events (filter (\<lambda>e. ae_kind e = PhaseMarker) events), unavailable)
     else (events, terminal))"

definition light_report :: "bool \<Rightarrow> token_usage dict \<Rightarrow> pyval dict \<Rightarrow> token_usage" where
  \<comment> \<open>the usage an event reports; for Claude only a response of the root session, in its settled form when that is known\<close>
  "light_report claude settled event =
     (let parsed = token_usage_from_mapping
          (if get_item event ''type'' = VStr ''assistant'' \<and> (\<not> claude \<or> \<not> truthy (get_item event ''parent_tool_use_id''))
           then event_usage event else VNull) in
      if claude \<and> tu_total parsed \<noteq> None
      then (case Option.bind (message_id event) (map_of settled) of Some u \<Rightarrow> u | None \<Rightarrow> make_partial parsed)
      else parsed)"

definition light_event :: "bool \<Rightarrow> token_usage dict \<Rightarrow> (string \<Rightarrow> pyval option) \<Rightarrow> stream \<Rightarrow> pyval dict \<Rightarrow> exn + stream" where
  "light_event claude settled loads s event =
     (if is_result event then Inr (note_terminal (result_usage (\<not> claude) event) s)
      else
        let parsed = light_report claude settled event; mid = message_id event in
        note_receipts loads event
          (if tu_total parsed = None then s
           else case billed_before mid s of
               Some p \<Rightarrow> s\<lparr>st_events := (st_events s)[p := (st_events s ! p)\<lparr>ae_usage := Some parsed\<rparr>]\<rparr>
             | None \<Rightarrow> bill mid parsed s))"

definition normalize_light :: "bool \<Rightarrow> token_usage dict \<Rightarrow> (string \<Rightarrow> pyval option) \<Rightarrow> string \<Rightarrow> exn + normalized" where
  \<comment> \<open>the first argument tells whether the adapter is that of Claude\<close>
  "normalize_light claude settled loads stdout =
     map_sum id conclude_stream (fold_res (light_event claude settled loads) empty_stream (json_events loads stdout))"

subsection \<open>Pi\<close>

record pi_stream =
  ps_events :: "agent_event list"
  ps_deltas :: "token_usage list"
  ps_settled :: bool

definition pi_delta :: "pyval \<Rightarrow> pi_stream \<Rightarrow> pi_stream" where
  "pi_delta v s =
     (let u = token_usage_from_mapping v in
      if tu_total u = None then s
      else s\<lparr>ps_deltas := ps_deltas s @ [u], ps_events := add_event UsageDelta (Some u) (ps_events s)\<rparr>)"

definition pi_event :: "(string \<Rightarrow> pyval option) \<Rightarrow> pi_stream \<Rightarrow> pyval dict \<Rightarrow> exn + pi_stream" where
  "pi_event loads s event =
     (if get_item event ''type'' = VStr ''message_end'' then
        bind_res (case message_of event of
            Some m \<Rightarrow> bind_res (type_among m ''role'' [''assistant'', ''toolResult''])
              (\<lambda>counts. Inr (if counts then pi_delta (get_item m ''usage'') s else s))
          | None \<Rightarrow> Inr s) (\<lambda>s1.
        map_sum id (\<lambda>ms. s1\<lparr>ps_events := foldl add_marker (ps_events s1) ms\<rparr>) (event_receipts loads event))
      else if get_item event ''type'' = VStr ''compaction_end'' then
        Inr (pi_delta (case as_dict (get_item event ''result'') of Some r \<Rightarrow> get_item r ''usage'' | None \<Rightarrow> VNull) s)
      else if get_item event ''type'' = VStr ''agent_settled'' then Inr (s\<lparr>ps_settled := True\<rparr>)
      else Inr s)"

definition conclude_pi :: "pi_stream \<Rightarrow> normalized" where
  "conclude_pi s =
     (let terminal = sum_token_usages (ps_deltas s) in
      if tu_total terminal = None then (ps_events s, terminal)
      else if \<not> ps_settled s then (ps_events s, make_partial terminal)
      else (add_event TerminalUsage (Some terminal) (ps_events s), terminal))"

definition normalize_pi :: "(string \<Rightarrow> pyval option) \<Rightarrow> string \<Rightarrow> exn + normalized" where
  "normalize_pi loads stdout =
     map_sum id conclude_pi (fold_res (pi_event loads) \<lparr>ps_events = [], ps_deltas = [], ps_settled = False\<rparr> (json_events loads stdout))"

subsection \<open>Codex\<close>

definition codex_turn_usage :: "pyval \<Rightarrow> token_usage" where
  "codex_turn_usage v =
     (let u = token_usage_from_mapping v in
      case as_dict v of
        Some d \<Rightarrow> (case counter_of d [''cached_input_tokens'', ''cachedInputTokens''] of
                     Some n \<Rightarrow> u\<lparr>tu_cache_read := Some n\<rparr> | None \<Rightarrow> u)
      | None \<Rightarrow> u)"

definition codex_event :: "(string \<Rightarrow> pyval option) \<Rightarrow> stream \<Rightarrow> pyval dict \<Rightarrow> exn + stream" where
  "codex_event loads s event =
     bind_res (type_among event ''type'' [''turn.completed'', ''result'']) (\<lambda>last_of_turn.
     if last_of_turn then Inr (note_terminal (codex_turn_usage (get_item event ''usage'')) s)
     else note_receipts loads event s)"

definition normalize_codex :: "(string \<Rightarrow> pyval option) \<Rightarrow> string \<Rightarrow> exn + normalized" where
  "normalize_codex loads stdout =
     map_sum id (\<lambda>s. (st_events s, st_terminal s)) (fold_res (codex_event loads) empty_stream (json_events loads stdout))"

subsection \<open>The adapter of a backend\<close>

definition light_adapter :: "string \<Rightarrow> (string \<Rightarrow> pyval option) \<Rightarrow> string \<Rightarrow> exn + normalized" where
  "light_adapter cli loads stdout =
     (if cli = ''claude'' then normalize_light True [] loads stdout
      else if cli = ''qodercli'' then map_sum id qoder_result (normalize_light False [] loads stdout)
      else if cli = ''pi'' then normalize_pi loads stdout
      else if cli = ''codex'' then normalize_codex loads stdout
      else Inl (ValueError (Msg ''unsupported agent CLI'')))"

definition legacy_adapter :: "string \<Rightarrow> (string \<Rightarrow> pyval option) \<Rightarrow> string \<Rightarrow> exn + normalized" where
  "legacy_adapter cli loads stdout =
     (if cli = ''claude'' then normalize_claude loads stdout
      else if cli = ''qodercli'' then map_sum id qoder_result (normalize_claude loads stdout)
      else if cli = ''pi'' then normalize_pi loads stdout
      else if cli = ''codex'' then normalize_codex loads stdout
      else Inl (ValueError (Msg ''unsupported agent CLI'')))"

definition adapter_capabilities :: "string \<Rightarrow> capabilities" where
  "adapter_capabilities cli = \<lparr>ca_terminal = True, ca_delta = (cli \<noteq> ''codex''), ca_marker = True, ca_delta_observed = False\<rparr>"

section \<open>Responses are billed once\<close>

text \<open>
  The reference: among all reports of a stream, a response counts at the place of its first report with the usage of its last.
  A report is a usage under the name of its response, or under \<open>None\<close> if it has none.
\<close>

type_synonym response_report = "string option \<times> token_usage"

function billed :: "response_report list \<Rightarrow> response_report list" where
  "billed [] = []"
| "billed ((k, u) # rs) =
     (k, last (u # map snd (filter (\<lambda>(j, _). j = k \<and> k \<noteq> None) rs))) # billed (filter (\<lambda>(j, _). j \<noteq> k \<or> k = None) rs)"
  by pat_completeness auto
termination
  by (relation "measure length") (auto simp: le_imp_less_Suc)

definition add_report :: "response_report list \<Rightarrow> response_report \<Rightarrow> response_report list" where
  "add_report ks r = (case r of (k, u) \<Rightarrow>
     if k \<noteq> None \<and> k \<in> fst ` set ks then map (\<lambda>(j, v). (j, if j = k then u else v)) ks else ks @ [(k, u)])"

lemma billed_keys: "fst ` set (billed rs) = fst ` set rs"
  by (induction rs rule: billed.induct) force+

lemma filter_apart: "k \<noteq> None \<Longrightarrow> k \<notin> fst ` set (billed (filter (\<lambda>(j, _). j \<noteq> k \<or> k = None) rs))"
  by (auto simp: billed_keys)

lemma billed_snoc: "billed (rs @ [r]) = add_report (billed rs) r"
proof (induction rs rule: billed.induct)
  case 1
  then show ?case by (cases r) (simp add: add_report_def)
next
  case (2 k u rs)
  obtain j v where r: "r = (j, v)" by (cases r)
  let ?f = "filter (\<lambda>(j, _). j \<noteq> k \<or> k = None) rs"
  show ?case
  proof (cases "j = k \<and> k \<noteq> None")
    case True
    with filter_apart [of k rs] have "\<forall>(i, w)\<in>set (billed ?f). i \<noteq> j" by force
    then have "map (\<lambda>(i, w). (i, if i = j then v else w)) (billed ?f) = billed ?f"
      by (intro map_idI) auto
    with True r show ?thesis by (auto simp: add_report_def)
  next
    case False
    then have "billed (filter (\<lambda>(j, _). j \<noteq> k \<or> k = None) (rs @ [r])) = add_report (billed ?f) r"
      using 2 r by auto
    moreover have "filter (\<lambda>(j, _). j = k \<and> k \<noteq> None) (rs @ [r]) = filter (\<lambda>(j, _). j = k \<and> k \<noteq> None) rs"
      using False r by auto
    ultimately show ?thesis
      using False r by (auto simp: add_report_def)
  qed
qed

definition keyed_delta :: "(string \<times> nat) list \<Rightarrow> agent_event list \<Rightarrow> nat \<Rightarrow> response_report option" where
  "keyed_delta seen es p =
     (if ae_kind (es ! p) = UsageDelta then map_option (\<lambda>u. (map_of (map prod.swap seen) p, u)) (ae_usage (es ! p)) else None)"

definition keyed_deltas :: "(string \<times> nat) list \<Rightarrow> agent_event list \<Rightarrow> response_report list" where
  "keyed_deltas seen es = List.map_filter (keyed_delta seen es) [0 ..< length es]"

lemma map_filter_cong: "(\<And>x. x \<in> set xs \<Longrightarrow> f x = g x) \<Longrightarrow> List.map_filter f xs = List.map_filter g xs"
  by (induction xs) (auto simp: map_filter_def)

lemma map_filter_append: "List.map_filter f (xs @ ys) = List.map_filter f xs @ List.map_filter f ys"
  by (simp add: map_filter_def)

lemma map_filter_one: "List.map_filter f [x] = (case f x of Some y \<Rightarrow> [y] | None \<Rightarrow> [])"
  by (simp add: map_filter_def split: option.split)

lemma map_map_filter: "map g (List.map_filter f xs) = List.map_filter (map_option g \<circ> f) xs"
  by (induction xs) (auto simp: map_filter_def)

lemma keyed_snoc:
  "keyed_deltas seen (es @ [e]) = keyed_deltas seen es @
     (if ae_kind e = UsageDelta then (case ae_usage e of Some u \<Rightarrow> [(map_of (map prod.swap seen) (length es), u)] | None \<Rightarrow> []) else [])"
proof -
  have "List.map_filter (keyed_delta seen (es @ [e])) [0 ..< length es] = keyed_deltas seen es"
    unfolding keyed_deltas_def by (rule map_filter_cong) (simp add: keyed_delta_def nth_append)
  then show ?thesis
    by (auto simp: keyed_deltas_def map_filter_append map_filter_one keyed_delta_def nth_append split: option.split)
qed

lemma keyed_usages: "map snd (keyed_deltas seen es) = deltas_of es"
proof (induction es rule: rev_induct)
  case (snoc e es)
  then show ?case by (auto simp: keyed_snoc split: option.split)
qed (simp add: keyed_deltas_def map_filter_def)

lemma keyed_new_name:
  "keyed_deltas ((m, length es) # seen) es = keyed_deltas seen es"
  unfolding keyed_deltas_def by (rule map_filter_cong) (auto simp: keyed_delta_def)

lemma keyed_update:
  assumes "distinct (map fst seen)" "distinct (map snd seen)" "map_of seen m = Some p" "p < length es"
    "ae_kind (es ! p) = UsageDelta" "ae_usage (es ! p) \<noteq> None"
  shows "keyed_deltas seen (es[p := (es ! p)\<lparr>ae_usage := Some u\<rparr>]) =
     map (\<lambda>(j, v). (j, if j = Some m then u else v)) (keyed_deltas seen es)"
proof -
  from assms(2) have d: "distinct (map fst (map prod.swap seen))" by (simp add: comp_def)
  have own: "map_of (map prod.swap seen) p = Some m"
    using map_of_SomeD [OF assms(3)] d by (auto intro: map_of_is_SomeI)
  have other: "q = p" if "map_of (map prod.swap seen) q = Some m" for q
    using map_of_SomeD [OF that] assms(1,3) by auto
  show ?thesis
    unfolding keyed_deltas_def map_map_filter length_list_update
  proof (rule map_filter_cong)
    fix q assume "q \<in> set [0 ..< length es]"
    with own other [of q] assms(4-6)
    show "keyed_delta seen (es[p := (es ! p)\<lparr>ae_usage := Some u\<rparr>]) q =
        (map_option (\<lambda>(j, v). (j, if j = Some m then u else v)) \<circ> keyed_delta seen es) q"
      by (cases "q = p") (auto simp: keyed_delta_def nth_list_update option.map_comp comp_def intro!: option.map_cong0)
  qed
qed

definition light_reports :: "bool \<Rightarrow> token_usage dict \<Rightarrow> pyval dict list \<Rightarrow> response_report list" where
  "light_reports claude settled events =
     List.map_filter (\<lambda>event. if is_result event \<or> tu_total (light_report claude settled event) = None then None
       else Some (response_name (message_id event), light_report claude settled event)) events"

definition stream_inv :: "response_report list \<Rightarrow> stream \<Rightarrow> bool" where
  "stream_inv rs s \<longleftrightarrow>
     keyed_deltas (st_seen s) (st_events s) = billed rs \<and> distinct (map fst (st_seen s)) \<and> distinct (map snd (st_seen s))
     \<and> (\<forall>(m, p)\<in>set (st_seen s). p < length (st_events s) \<and> ae_kind (st_events s ! p) = UsageDelta \<and> ae_usage (st_events s ! p) \<noteq> None)
     \<and> fst ` set (st_seen s) = {m. Some m \<in> fst ` set rs} \<and> numbered_events (st_events s)"

lemma inv_other_event:
  assumes "stream_inv rs s" "ae_kind e \<noteq> UsageDelta" "ae_sequence e = length (st_events s)"
  shows "stream_inv rs (s\<lparr>st_events := st_events s @ [e]\<rparr>)"
  using assms by (fastforce simp: stream_inv_def keyed_snoc nth_append)

lemma inv_markers: "stream_inv rs s \<Longrightarrow> stream_inv rs (s\<lparr>st_events := foldl add_marker (st_events s) ms\<rparr>)"
proof (induction ms arbitrary: s)
  case (Cons m ms)
  obtain action phase marker where m: "m = (action, phase, marker)" by (cases m)
  have "stream_inv rs (s\<lparr>st_events := add_marker (st_events s) m\<rparr>)"
    using inv_other_event [OF Cons.prems] by (simp add: add_marker_def m)
  from Cons.IH [OF this] show ?case by simp
qed simp

lemma inv_receipts: "stream_inv rs s \<Longrightarrow> note_receipts loads event s = Inr s' \<Longrightarrow> stream_inv rs s'"
  by (auto simp: note_receipts_def inv_markers elim!: map_sum_InrE)

lemma inv_terminal_field: "stream_inv rs (s\<lparr>st_terminal := u\<rparr>) = stream_inv rs s"
  by (simp add: stream_inv_def)

lemma inv_terminal: "stream_inv rs s \<Longrightarrow> stream_inv rs (note_terminal u s)"
  using inv_other_event [of rs "s\<lparr>st_terminal := u\<rparr>"] inv_terminal_field [of rs u s]
  by (auto simp: note_terminal_def add_event_def)

lemma billed_before_iff:
  assumes "stream_inv rs s"
  shows "billed_before mid s = None \<longleftrightarrow> response_name mid = None \<or> response_name mid \<notin> fst ` set (billed rs)"
proof (cases "response_name mid")
  case (Some m)
  have "map_of (st_seen s) m = None \<longleftrightarrow> m \<notin> fst ` set (st_seen s)" by (simp add: map_of_eq_None_iff)
  with Some assms show ?thesis by (simp add: billed_before_def stream_inv_def billed_keys)
qed (simp add: billed_before_def)

lemma inv_bill:
  assumes "stream_inv rs s" "billed_before mid s = None"
  shows "stream_inv (rs @ [(response_name mid, u)]) (bill mid u s)"
proof -
  let ?e = "\<lparr>ae_sequence = length (st_events s), ae_kind = UsageDelta, ae_usage = Some u, ae_phase = None, ae_action = None,
     ae_marker = None\<rparr>"
  have new: "billed (rs @ [(response_name mid, u)]) = billed rs @ [(response_name mid, u)]"
    using assms by (auto simp: billed_snoc add_report_def billed_before_iff)
  have fresh: "length (st_events s) \<notin> snd ` set (st_seen s)" using assms(1) by (auto simp: stream_inv_def)
  then have none: "map_of (map prod.swap (st_seen s)) (length (st_events s)) = None"
    by (force simp: map_of_eq_None_iff)
  show ?thesis
  proof (cases "response_name mid")
    case None
    with assms(1) new none show ?thesis
      by (fastforce simp: stream_inv_def bill_def add_event_def keyed_snoc nth_append)
  next
    case (Some m)
    with assms have m: "m \<notin> fst ` set (st_seen s)" by (auto simp: billed_before_def map_of_eq_None_iff)
    have k: "keyed_deltas ((m, length (st_events s)) # st_seen s) (st_events s @ [?e]) = billed rs @ [(Some m, u)]"
      using assms(1) by (simp add: keyed_snoc keyed_new_name stream_inv_def)
    with Some m fresh new assms(1) show ?thesis
      by (fastforce simp: stream_inv_def bill_def add_event_def nth_append)
  qed
qed

lemma numbered_at: "numbered_events es \<Longrightarrow> p < length es \<Longrightarrow> ae_sequence (es ! p) = p"
  unfolding numbered_events_def by (metis add_0 nth_map nth_upt)

lemma inv_rebill:
  assumes "stream_inv rs s" "billed_before mid s = Some p"
  shows "stream_inv (rs @ [(response_name mid, u)]) (s\<lparr>st_events := (st_events s)[p := (st_events s ! p)\<lparr>ae_usage := Some u\<rparr>]\<rparr>)"
proof -
  obtain m where m: "response_name mid = Some m" "map_of (st_seen s) m = Some p"
    using assms(2) by (auto simp: billed_before_def bind_eq_Some_conv)
  then have p: "p < length (st_events s)" "ae_kind (st_events s ! p) = UsageDelta" "ae_usage (st_events s ! p) \<noteq> None"
    using assms(1) map_of_SomeD [OF m(2)] by (auto simp: stream_inv_def)
  have keys: "Some m \<in> fst ` set rs"
    using assms(1) map_of_SomeD [OF m(2)] by (force simp: stream_inv_def)
  have "keyed_deltas (st_seen s) ((st_events s)[p := (st_events s ! p)\<lparr>ae_usage := Some u\<rparr>]) = billed (rs @ [(Some m, u)])"
    using keyed_update [OF _ _ m(2) p] assms(1) keys by (simp add: stream_inv_def billed_snoc add_report_def billed_keys)
  moreover have "numbered_events ((st_events s)[p := (st_events s ! p)\<lparr>ae_usage := Some u\<rparr>])"
    using assms(1) numbered_at [OF _ p(1)] p(1) by (simp add: stream_inv_def numbered_events_def map_update list_update_same_conv)
  moreover have "\<forall>(j, q)\<in>set (st_seen s). q < length (st_events s)
      \<and> ae_kind ((st_events s)[p := (st_events s ! p)\<lparr>ae_usage := Some u\<rparr>] ! q) = UsageDelta
      \<and> ae_usage ((st_events s)[p := (st_events s ! p)\<lparr>ae_usage := Some u\<rparr>] ! q) \<noteq> None"
  proof clarify
    fix j q assume "(j, q) \<in> set (st_seen s)"
    with p(1,2) assms(1) show "q < length (st_events s)
      \<and> ae_kind ((st_events s)[p := (st_events s ! p)\<lparr>ae_usage := Some u\<rparr>] ! q) = UsageDelta
      \<and> ae_usage ((st_events s)[p := (st_events s ! p)\<lparr>ae_usage := Some u\<rparr>] ! q) \<noteq> None"
      by (cases "q = p") (auto simp: stream_inv_def)
  qed
  moreover have "{j. Some j \<in> fst ` set (rs @ [(Some m, u)])} = {j. Some j \<in> fst ` set rs}" using keys by auto
  ultimately show ?thesis
    using assms(1) m(1) unfolding stream_inv_def by simp
qed

lemma inv_light_event:
  assumes "stream_inv (light_reports claude settled seen) s" "light_event claude settled loads s event = Inr s'"
  shows "stream_inv (light_reports claude settled (seen @ [event])) s'"
proof -
  let ?u = "light_report claude settled event"
  have r: "light_reports claude settled (seen @ [event]) = light_reports claude settled seen @
     (if is_result event \<or> tu_total ?u = None then [] else [(response_name (message_id event), ?u)])"
    by (simp add: light_reports_def map_filter_append map_filter_one)
  show ?thesis
  proof (cases "is_result event \<or> tu_total ?u = None")
    case True
    with assms show ?thesis
      unfolding r by (auto simp: light_event_def Let_def inv_terminal intro: inv_receipts split: if_split_asm)
  next
    case False
    with assms(2) obtain t where t: "note_receipts loads event t = Inr s'"
      "t = (case billed_before (message_id event) s of
          Some p \<Rightarrow> s\<lparr>st_events := (st_events s)[p := (st_events s ! p)\<lparr>ae_usage := Some ?u\<rparr>]\<rparr> | None \<Rightarrow> bill (message_id event) ?u s)"
      by (auto simp: light_event_def Let_def)
    have "stream_inv (light_reports claude settled (seen @ [event])) t"
      using False t(2) inv_bill [OF assms(1)] inv_rebill [OF assms(1)] by (auto simp: r split: option.splits)
    then show ?thesis by (rule inv_receipts [OF _ t(1)])
  qed
qed

lemma inv_empty: "stream_inv [] empty_stream"
  by (simp add: stream_inv_def empty_stream_def keyed_deltas_def map_filter_def)

lemma inv_light:
  "fold_res (light_event claude settled loads) empty_stream events = Inr s \<Longrightarrow> stream_inv (light_reports claude settled events) s"
proof (induction events arbitrary: s rule: rev_induct)
  case Nil
  then show ?case using inv_empty by (simp add: light_reports_def map_filter_def)
next
  case (snoc event events)
  then obtain t where "fold_res (light_event claude settled loads) empty_stream events = Inr t"
    "light_event claude settled loads t event = Inr s"
    by (auto simp: fold_res_append res_simps)
  with snoc.IH show ?case by (blast intro: inv_light_event)
qed

lemma note_receipts_terminal: "note_receipts loads event s = Inr s' \<Longrightarrow> st_terminal s' = st_terminal s"
  by (auto simp: note_receipts_def elim!: map_sum_InrE)

lemma light_event_terminal:
  "light_event claude settled loads s event = Inr s' \<Longrightarrow>
     st_terminal s' = (if is_result event then result_usage (\<not> claude) event else st_terminal s)"
  by (auto simp: light_event_def Let_def note_terminal_def bill_def dest!: note_receipts_terminal split: if_split_asm option.splits)

lemma light_terminal:
  "fold_res (light_event claude settled loads) s0 events = Inr s \<Longrightarrow>
     st_terminal s = last (st_terminal s0 # map (result_usage (\<not> claude)) (filter is_result events))"
proof (induction events arbitrary: s rule: rev_induct)
  case (snoc event events)
  then obtain t where t: "fold_res (light_event claude settled loads) s0 events = Inr t" "light_event claude settled loads t event = Inr s"
    by (auto simp: fold_res_append res_simps)
  from snoc.IH [OF t(1)] light_event_terminal [OF t(2)] show ?case by auto
qed simp

section \<open>A demonstration\<close>

definition demo_response :: "int \<Rightarrow> pyval dict" where
  "demo_response n = [(''type'', VStr ''assistant''),
     (''message'', VDict [(''id'', VStr ''r''), (''usage'', VDict [(''output_tokens'', VInt n)])])]"

definition demo_stream_loads :: "string \<Rightarrow> pyval option" where
  "demo_stream_loads line = (if line = ''{1'' then Some (VDict (demo_response 5)) else if line = ''{2'' then Some (VDict (demo_response 7)) else None)"

definition demo_stdout :: string where
  "demo_stdout = ''{1'' @ CHR 0x0A # ''{2''"

lemma demo_lines: "split_lines demo_stdout [] = [''{1'', ''{2'']" "py_strip ''{1'' = ''{1''" "py_strip ''{2'' = ''{2''"
  by code_simp+

lemma demo_events: "json_events demo_stream_loads demo_stdout = [demo_response 5, demo_response 7]"
  by (simp add: json_events_def demo_lines map_filter_def demo_stream_loads_def)

lemma demo_stream_report: "0 \<le> n \<Longrightarrow> light_report True [] (demo_response n) =
    \<lparr>tu_input = None, tu_output = Some n, tu_cache_read = None, tu_cache_write = None, tu_total = Some n, tu_measurement = Partial\<rparr>"
  "response_name (message_id (demo_response n)) = Some ''r''" "\<not> is_result (demo_response n)" "event_roots (demo_response n) = []"
  by (simp_all add: light_report_def demo_response_def get_item_def dict_get_default_def event_usage_def message_of_def message_id_def
    token_usage_from_mapping_def counter_of_def token_counter_def map_filter_def make_partial_def response_name_def is_result_def
    event_roots_def Let_def counted_tokens_def)

lemma demo_stream_reports: "billed (light_reports True [] [demo_response 5, demo_response 7]) = [(Some ''r'', light_report True [] (demo_response 7))]"
  "tu_output (light_report True [] (demo_response 7)) = Some 7"
  by (simp_all add: light_reports_def map_filter_def demo_stream_report)

lemma demo_normalized: "\<exists>es terminal. normalize_light True [] demo_stream_loads demo_stdout = Inr (es, terminal)"
  by (simp add: normalize_light_def demo_events light_event_def demo_stream_report note_receipts_def event_receipts_def billed_before_def
    empty_stream_def bill_def)

section \<open>Properties\<close>

text \<open>C24: Every response is billed once.  In the stream of a Claude-like agent the usage deltas are exactly the last reported usage of each
  response, in the order of their first reports, whatever is repeated; the events are numbered from zero; and
  the terminal usage is that of the last result, or else the sum of the deltas marked as partial.\<close>

theorem responses_billed_once:
  assumes "normalize_light claude settled loads stdout = Inr (es, terminal)"
  shows "deltas_of es = map snd (billed (light_reports claude settled (json_events loads stdout)))
     \<and> map ae_sequence es = [0 ..< length es]
     \<and> terminal = (let final = last (unavailable # map (result_usage (\<not> claude)) (filter is_result (json_events loads stdout))) in
          if tu_total final \<noteq> None then final else partial_if_known (sum_token_usages (deltas_of es)))"
proof -
  from assms obtain s where s: "fold_res (light_event claude settled loads) empty_stream (json_events loads stdout) = Inr s"
    "conclude_stream s = (es, terminal)"
    by (auto simp: normalize_light_def elim!: map_sum_InrE)
  define final where "final = last (unavailable # map (result_usage (\<not> claude)) (filter is_result (json_events loads stdout)))"
  have "st_terminal s = final" using light_terminal [OF s(1)] by (simp add: final_def empty_stream_def)
  with inv_light [OF s(1)] keyed_usages [of "st_seen s" "st_events s"] s(2) show ?thesis
    unfolding final_def [symmetric] by (auto simp: stream_inv_def numbered_events_def conclude_stream_def)
qed

theorem responses_billed_once_witness:
  "\<exists>es terminal. normalize_light True [] demo_stream_loads demo_stdout = Inr (es, terminal) \<and> map tu_output (deltas_of es) = [Some 7]"
proof -
  obtain es terminal where n: "normalize_light True [] demo_stream_loads demo_stdout = Inr (es, terminal)" using demo_normalized by blast
  have "map tu_output (map snd (billed (light_reports True [] (json_events demo_stream_loads demo_stdout)))) = [Some 7]"
    by (simp add: demo_events demo_stream_reports)
  with responses_billed_once [OF n] n show ?thesis by auto
qed

end
