(* ===== verification/NativeSessions.thy ===== *)
theory NativeSessions
  imports Streams
begin

text \<open>
  The native session of an agent (\<open>NativeSession\<close> of src/src/aka/legacy/agent/native.py, as src/src/aka/light/agent/native.py
  extends it): when it may be invoked, and what usage each invocation is charged.  What an invocation meets is its input: the
  answer of the process, the rollout files of Codex at that moment, and whether the command and the observation record
  could be written.
\<close>

section \<open>The session of a stream\<close>

definition supports_same_session_resume :: "string \<Rightarrow> bool" where
  "supports_same_session_resume cli = (cli \<in> {''claude'', ''codex''})"

definition thread_started :: "pyval option \<Rightarrow> string option" where
  "thread_started line =
     (case Option.bind line as_dict of
        None \<Rightarrow> None
      | Some event \<Rightarrow>
          if get_item event ''type'' \<noteq> VStr ''thread.started'' then None
          else case (if truthy (get_item event ''thread_id'') then get_item event ''thread_id'' else get_item event ''threadId'') of
              VStr s \<Rightarrow> if is_thread_id (py_strip s) then Some (py_strip s) else None
            | _ \<Rightarrow> None)"

definition codex_thread_id_from_stream :: "(string \<Rightarrow> pyval option) \<Rightarrow> string \<Rightarrow> string" where
  "codex_thread_id_from_stream loads stdout =
     (case List.map_filter (thread_started \<circ> loads) (split_lines stdout []) of thread # _ \<Rightarrow> thread | [] \<Rightarrow> [])"

definition session_id_from_stream :: "string \<Rightarrow> (string \<Rightarrow> pyval option) \<Rightarrow> string \<Rightarrow> string \<Rightarrow> string" where
  "session_id_from_stream cli loads stdout requested =
     (if cli \<noteq> ''codex'' then requested else codex_thread_id_from_stream loads stdout)"

section \<open>The usage of an invocation\<close>

definition normalize_stream ::
  "(string \<Rightarrow> pyval option) \<Rightarrow> string \<Rightarrow> string \<Rightarrow> string \<Rightarrow> rollouts \<Rightarrow> ledger option \<Rightarrow> ledger option \<times> (exn + usage_evidence)" where
  "normalize_stream loads cli stdout thread disk observer =
     (case (case light_adapter cli loads stdout of
              Inr (events, terminal) \<Rightarrow> Inr (events, terminal, [])
            | Inl e \<Rightarrow> map_sum id (\<lambda>terminal. ([], terminal, [''stream_normalization_failed:'' @ exn_name e]))
                (terminal_usage_from_stream loads stdout)) of
        Inl e \<Rightarrow> (observer, Inl e)
      | Inr (events, terminal, errors) \<Rightarrow>
          let own = \<lparr>ev_events = events, ev_usage = terminal,
                     ev_capabilities = (adapter_capabilities cli)\<lparr>ca_delta_observed := list_ex (\<lambda>e. ae_kind e = UsageDelta) events\<rparr>,
                     ev_errors = errors\<rparr> in
          case observer of
            None \<Rightarrow> (None, Inr own)
          | Some L \<Rightarrow>
              if cli \<noteq> ''codex'' \<or> thread = [] then (Some L, Inr own)
              else case ledger_evidence (legacy_format loads) disk thread terminal L of
                  (L1, Inr seen) \<Rightarrow> (Some L1, Inr (seen\<lparr>ev_errors := errors @ ev_errors seen\<rparr>))
                | (L1, Inl e) \<Rightarrow> (Some L1, Inr (own\<lparr>ev_errors := errors @ [''codex_ledger_unavailable:'' @ exn_name e]\<rparr>)))"

definition codex_invocation_usage :: "token_usage \<Rightarrow> token_usage option \<Rightarrow> token_usage" where
  "codex_invocation_usage session previous =
     (let p = (case previous of Some u \<Rightarrow> u | None \<Rightarrow> zero_usage) in
      if tu_total session = None \<or> token_usage_exceeds p session then unavailable
      else case subtract_token_usage session p of Inr u \<Rightarrow> u | Inl e \<Rightarrow> unavailable)"

definition replace_terminal_usage :: "agent_event list \<Rightarrow> token_usage \<Rightarrow> agent_event list" where
  "replace_terminal_usage es u =
     (let retained = filter (\<lambda>e. ae_kind e \<noteq> TerminalUsage) es in
      resequence_agent_events (if tu_total u \<noteq> None then add_event TerminalUsage (Some u) retained else retained))"

section \<open>Sessions\<close>

record native =
  nv_cli :: string
  nv_environment :: "string dict"
  nv_home :: "string dict"              \<comment> \<open>the part of the environment that no invocation may change\<close>
  nv_observer :: "ledger option"
  nv_setup_errors :: "string list"
  nv_ledger_usable :: bool
  nv_stdout_usage :: "token_usage option"
  nv_session_id :: string
  nv_requested :: string
  nv_closed :: bool
  nv_invoked :: bool

definition home_binding_keys :: "string list" where
  "home_binding_keys = [''HOME'', ''CODEX_HOME'', ''CLAUDE_CONFIG_DIR'', ''QODER_USER_DATA_DIR'', ''PI_CODING_AGENT_DIR'',
     ''XDG_CONFIG_HOME'', ''XDG_CACHE_HOME'', ''XDG_DATA_HOME'', ''XDG_STATE_HOME'', ''ATREX_AGENT_HOST_HOME'',
     ''ATREX_AGENT_PREPARED_HOME'', ''ATREX_AGENT_SANDBOX'']"

definition open_native :: "string \<Rightarrow> string dict \<Rightarrow> exn option \<Rightarrow> string \<Rightarrow> native" where
  \<comment> \<open>the third argument is what setting up the observer raised\<close>
  "open_native cli environment fault requested =
     \<lparr>nv_cli = cli, nv_environment = environment, nv_home = filter (\<lambda>(k, v). k \<in> set home_binding_keys) environment,
      nv_observer = (if cli = ''codex'' \<and> fault = None then Some new_ledger else None),
      nv_setup_errors = (case fault of Some e \<Rightarrow> if cli = ''codex'' then [''codex_ledger_setup_failed:'' @ exn_name e] else [] | None \<Rightarrow> []),
      nv_ledger_usable = (cli = ''codex'' \<and> fault = None), nv_stdout_usage = None,
      nv_session_id = (if cli = ''codex'' then [] else requested), nv_requested = requested, nv_closed = False, nv_invoked = False\<rparr>"

definition close_native :: "native \<Rightarrow> native" where
  "close_native N = N\<lparr>nv_closed := True, nv_observer := None\<rparr>"

definition invocation_environment :: "native \<Rightarrow> (string \<times> string option) list \<Rightarrow> exn + string dict" where
  "invocation_environment N overrides =
     (let env = foldl (\<lambda>env (k, v). case v of None \<Rightarrow> dict_del env k | Some s \<Rightarrow> dict_set env k s) (nv_environment N) overrides in
      case filter (\<lambda>k. map_of env k \<noteq> map_of (nv_home N) k) home_binding_keys of
        [] \<Rightarrow> Inr env
      | k # _ \<Rightarrow> Inl (ValueError (Msg (''Cannot change '' @ k @ '' inside an open Agent session''))))"

record process_answer =
  pa_stdout :: string
  pa_stderr :: string
  pa_exit :: int
  pa_timed_out :: bool

record native_call =
  nc_open :: bool                        \<comment> \<open>the agent that owns the session is open\<close>
  nc_resume :: bool
  nc_environment :: "(string \<times> string option) list"
  nc_command :: "exn option"             \<comment> \<open>what building the command raises\<close>
  nc_answer :: "exn + process_answer"
  nc_disk :: rollouts
  nc_recorded :: "exn option"            \<comment> \<open>what writing the observation record raises\<close>

record turn =
  tn_exit :: int
  tn_timed_out :: bool
  tn_session :: string
  tn_stdout :: string
  tn_stderr :: string
  tn_evidence :: usage_evidence
  tn_qualified :: bool

definition native_refusal :: "string \<Rightarrow> exn" where
  "native_refusal text = OtherException ''RuntimeError'' text"

definition remember_stdout :: "token_usage option \<Rightarrow> token_usage option \<Rightarrow> token_usage option" where
  "remember_stdout prior seen =
     (case seen of
        None \<Rightarrow> prior
      | Some u \<Rightarrow> if tu_total u \<noteq> None \<and> (\<forall>k. prior = Some k \<longrightarrow> \<not> token_usage_exceeds k u) then Some u else prior)"

definition account_turn ::
  "(string \<Rightarrow> pyval option) \<Rightarrow> rollouts \<Rightarrow> string \<Rightarrow> native \<Rightarrow> native \<times> (exn + usage_evidence \<times> bool)" where
  "account_turn loads disk stdout N =
     (let codex = (nv_cli N = ''codex'') in
      case (if codex then map_sum id Some (terminal_usage_from_stream loads stdout) else Inr None) of
        Inl e \<Rightarrow> (N, Inl e)
      | Inr session \<Rightarrow>
          (case normalize_stream loads (nv_cli N) stdout (nv_session_id N) disk (if nv_ledger_usable N then nv_observer N else None) of
             (observer, Inl e) \<Rightarrow> (N, Inl e)
           | (observer, Inr ev) \<Rightarrow>
               let errors = (if \<not> nv_invoked N then nv_setup_errors N else []) @ ev_errors ev;
                   failed = list_ex (starts_with ''codex_ledger_unavailable:'') errors;
                   observed = (codex \<and> ca_delta_observed (ev_capabilities ev) \<and> \<not> failed);
                   qualified = (observed \<and> \<not> list_ex (starts_with ''codex_'') errors);
                   fallback = codex_invocation_usage (case session of Some u \<Rightarrow> u | None \<Rightarrow> unavailable) (nv_stdout_usage N);
                   ev1 = (if codex \<and> \<not> observed
                     then ev\<lparr>ev_usage := (if tu_total fallback \<noteq> None then fallback else unavailable),
                             ev_events := replace_terminal_usage (ev_events ev) (if tu_total fallback \<noteq> None then fallback else unavailable),
                             ev_errors := (if tu_total fallback \<noteq> None then errors else errors @ [''codex_cumulative_fallback_unavailable''])\<rparr>
                     else ev\<lparr>ev_errors := errors\<rparr>) in
               (N\<lparr>nv_observer := (if nv_ledger_usable N then observer else nv_observer N), nv_ledger_usable := nv_ledger_usable N \<and> \<not> failed,
                  nv_stdout_usage := remember_stdout (nv_stdout_usage N) session, nv_invoked := True\<rparr>,
                Inr (ev1, qualified))))"

definition native_invoke :: "(string \<Rightarrow> pyval option) \<Rightarrow> native_call \<Rightarrow> native \<Rightarrow> native \<times> (exn + turn)" where
  "native_invoke loads c N =
     (if \<not> nc_open c then (N, Inl (native_refusal ''Agent selection has been closed''))
      else if nv_closed N then (N, Inl (native_refusal ''native session has been closed''))
      else if \<not> nc_resume c \<and> nv_invoked N then (N, Inl (native_refusal ''Session already invoked; use resume=True or open a new Session''))
      else case invocation_environment N (nc_environment c) of
          Inl e \<Rightarrow> (N, Inl e)
        | Inr env \<Rightarrow>
            let N1 = N\<lparr>nv_environment := env\<rparr> in
            if nc_resume c \<and> (\<not> supports_same_session_resume (nv_cli N) \<or> nv_session_id N = [])
            then (N1, Inl (native_refusal ''the existing backend has no resumable native session''))
            else case nc_command c of
                Some e \<Rightarrow> (N1, Inl e)
              | None \<Rightarrow>
                  (case nc_answer c of
                     Inl e \<Rightarrow> (N1, Inl e)
                   | Inr a \<Rightarrow>
                       let seen = session_id_from_stream (nv_cli N) loads (pa_stdout a) (nv_requested N);
                           N2 = (if seen \<noteq> [] then N1\<lparr>nv_session_id := seen\<rparr> else N1) in
                       (case account_turn loads (nc_disk c) (pa_stdout a) N2 of
                          (N3, Inl e) \<Rightarrow> (N3, Inl e)
                        | (N3, Inr (ev, qualified)) \<Rightarrow>
                            (case nc_recorded c of
                               Some e \<Rightarrow> (N3, Inl e)
                             | None \<Rightarrow> (N3, Inr \<lparr>tn_exit = pa_exit a, tn_timed_out = pa_timed_out a, tn_session = nv_session_id N3,
                                 tn_stdout = pa_stdout a, tn_stderr = pa_stderr a, tn_evidence = ev, tn_qualified = qualified\<rparr>)))))"

section \<open>The two readings of a Codex stream\<close>

definition reports_usage :: "(string \<Rightarrow> pyval option) \<Rightarrow> string \<Rightarrow> bool" where
  \<comment> \<open>the stream ends with its cumulative usage, and names the cached input once\<close>
  "reports_usage loads stdout =
     (case (normalize_codex loads stdout, terminal_usage_from_stream loads stdout) of
        (Inr (es, u), Inr session) \<Rightarrow> tu_total u \<noteq> None \<and> (tu_cache_read session = None \<or> tu_cache_read session = tu_cache_read u)
      | _ \<Rightarrow> False)"

definition stdout_usage :: "(string \<Rightarrow> pyval option) \<Rightarrow> string \<Rightarrow> token_usage" where
  "stdout_usage loads stdout = (case terminal_usage_from_stream loads stdout of Inr u \<Rightarrow> u | Inl e \<Rightarrow> unavailable)"

definition same_but_cached :: "token_usage \<Rightarrow> token_usage \<Rightarrow> bool" where
  "same_but_cached u v \<longleftrightarrow> tu_input u = tu_input v \<and> tu_output u = tu_output v \<and> tu_cache_write u = tu_cache_write v \<and> tu_total u = tu_total v"

lemma codex_turn_same: "same_but_cached (token_usage_from_mapping v) (codex_turn_usage v)"
  by (simp add: same_but_cached_def codex_turn_usage_def Let_def split: option.split)

definition two_readings :: "stream \<Rightarrow> terminal_scan \<Rightarrow> bool" where
  "two_readings s t \<longleftrightarrow> (\<forall>e\<in>set (st_events s). ae_kind e \<noteq> UsageDelta)
     \<and> (tu_total (st_terminal s) \<noteq> None \<longrightarrow>
          same_but_cached (ts_terminal t) (st_terminal s) \<and> (\<exists>v. ts_terminal t = token_usage_from_mapping v))"

lemma foldl_markers_delta: "(\<forall>e\<in>set (foldl add_marker es ms). ae_kind e \<noteq> UsageDelta) \<longleftrightarrow> (\<forall>e\<in>set es. ae_kind e \<noteq> UsageDelta)"
  by (induction ms arbitrary: es) (auto simp: add_marker_def split: prod.splits)

lemma two_readings_step:
  assumes "two_readings s t" "codex_event loads s event = Inr s'" "terminal_event t event = Inr t'"
  shows "two_readings s' t'"
proof (cases "get_item event ''type'' \<in> {VStr ''turn.completed'', VStr ''result''}")
  case True
  let ?u = "token_usage_from_mapping (get_item event ''usage'')"
  have s': "s' = note_terminal (codex_turn_usage (get_item event ''usage'')) s"
    using assms(2) True by (auto simp: codex_event_def type_among_def)
  moreover have "ts_terminal t' = ?u" if "tu_total ?u \<noteq> None"
    using assms(3) True that by (auto simp: terminal_event_def type_among_def Let_def)
  ultimately show ?thesis
    using assms(1) codex_turn_same [of "get_item event ''usage''"]
    by (auto simp: two_readings_def note_terminal_def add_event_def same_but_cached_def)
next
  case False
  then have "note_receipts loads event s = Inr s'" "ts_terminal t' = ts_terminal t"
    using assms(2,3) by (auto simp: codex_event_def terminal_event_def type_among_def Let_def split: if_split_asm)
  with assms(1) show ?thesis
    unfolding two_readings_def note_receipts_def by (elim map_sum_InrE) (simp add: foldl_markers_delta)
qed

lemma two_readings_fold:
  "fold_res (codex_event loads) empty_stream events = Inr s \<Longrightarrow>
   fold_res terminal_event \<lparr>ts_terminal = unavailable, ts_deltas = []\<rparr> events = Inr t \<Longrightarrow> two_readings s t"
proof (induction events arbitrary: s t rule: rev_induct)
  case Nil
  then show ?case by (auto simp: two_readings_def empty_stream_def unavailable_def)
next
  case (snoc event events)
  then show ?case by (auto simp: fold_res_append res_simps intro: two_readings_step)
qed

definition nonneg :: "token_usage \<Rightarrow> bool" where
  "nonneg u \<longleftrightarrow> (\<forall>f\<in>set components. \<forall>n. f u = Some n \<longrightarrow> 0 \<le> n)"

lemma counter_of_nonneg: "counter_of d names = Some n \<Longrightarrow> 0 \<le> n"
proof (induction names)
  case (Cons name names)
  then show ?case by (cases "token_counter d name") (auto simp: counter_of_def map_filter_def token_counter_nonneg)
qed (simp add: counter_of_def map_filter_def)

lemma counted_nonneg: "(\<And>n. x = Some n \<Longrightarrow> 0 \<le> n) \<Longrightarrow> 0 \<le> counted_tokens x"
  by (auto simp: counted_tokens_def split: option.split)

lemma mapping_nonneg: "nonneg (token_usage_from_mapping v)"
  by (auto simp: nonneg_def components_def token_usage_from_mapping_def Let_def unavailable_def counter_of_nonneg
    intro!: add_nonneg_nonneg counted_nonneg split: option.splits if_split_asm)

lemma reported:
  assumes "reports_usage loads stdout"
  obtains es u session where "normalize_codex loads stdout = Inr (es, u)" "tu_total u \<noteq> None" "\<forall>e\<in>set es. ae_kind e \<noteq> UsageDelta"
    "terminal_usage_from_stream loads stdout = Inr session" "stdout_usage loads stdout = session" "nonneg session"
    "tu_total session = tu_total u" "\<forall>f\<in>set components. f session = None \<or> f session = f u"
proof -
  obtain es u session where r: "normalize_codex loads stdout = Inr (es, u)" "terminal_usage_from_stream loads stdout = Inr session"
    "tu_total u \<noteq> None" "tu_cache_read session = None \<or> tu_cache_read session = tu_cache_read u"
    using assms by (cases "normalize_codex loads stdout"; cases "terminal_usage_from_stream loads stdout")
      (auto simp: reports_usage_def split: prod.splits)
  obtain s where s: "fold_res (codex_event loads) empty_stream (json_events loads stdout) = Inr s" "es = st_events s" "u = st_terminal s"
    using r(1) by (auto simp: normalize_codex_def elim!: map_sum_InrE)
  obtain t where t: "fold_res terminal_event \<lparr>ts_terminal = unavailable, ts_deltas = []\<rparr> (json_events loads stdout) = Inr t"
    "session = (if tu_total (ts_terminal t) \<noteq> None then ts_terminal t else partial_if_known (sum_token_usages (ts_deltas t)))"
    using r(2) by (auto simp: terminal_usage_from_stream_def res_simps)
  from two_readings_fold [OF s(1) t(1)] r(3) s have two: "same_but_cached (ts_terminal t) u" "\<exists>v. ts_terminal t = token_usage_from_mapping v"
    "\<forall>e\<in>set es. ae_kind e \<noteq> UsageDelta"
    by (auto simp: two_readings_def)
  with r(3) t(2) have session: "session = ts_terminal t" by (simp add: same_but_cached_def)
  show ?thesis
    by (rule that [OF r(1,3) two(3) r(2)])
      (use two session r(2,4) mapping_nonneg in \<open>auto simp: stdout_usage_def same_but_cached_def components_def\<close>)
qed

section \<open>What the ledger and the stream charge\<close>

context sound_format begin

lemma evidence_matched:
  assumes "ledger_evidence fmt disk thread u L = (L1, Inr seen)" "tu_total u \<noteq> None"
  obtains ob where "reads (ld_session L) ob" "ld_session L1 = Some (ob_session ob)" "usage_matches (ob_session ob) (lf_stream fmt u)"
    "seen = \<lparr>ev_events = ob_events ob, ev_usage = ob_terminal ob, ev_capabilities = codex_capabilities, ev_errors = []\<rparr>"
proof -
  obtain L' q where o: "observe fmt disk thread L = (L', q)" by (cases "observe fmt disk thread L")
  with assms obtain ob where ob: "q = Inr ob" "usage_matches (ob_session ob) (lf_stream fmt u)" "L1 = L'"
    "seen = \<lparr>ev_events = ob_events ob, ev_usage = ob_terminal ob, ev_capabilities = codex_capabilities, ev_errors = []\<rparr>"
    by (cases q) (auto simp: ledger_evidence_def observe_reconciled_def split: if_split_asm)
  from observe_cases [OF o] ob show ?thesis by (intro that) auto
qed

end

definition in_step :: "token_usage option \<Rightarrow> token_usage option \<Rightarrow> bool" where
  \<comment> \<open>the cumulative usages that the ledger and the stream remember agree\<close>
  "in_step session out =
     (case (session, out) of
        (None, None) \<Rightarrow> True
      | (Some w, Some u) \<Rightarrow> good w \<and> (\<forall>f\<in>set components. f u = None \<or> f u = f w)
      | _ \<Rightarrow> False)"

definition charged :: "token_usage \<Rightarrow> int" where
  "charged u = counted_tokens (tu_total u)"

definition settled_at :: "native \<Rightarrow> int \<Rightarrow> bool" where
  \<comment> \<open>so much is charged: the last cumulative usage of the stream\<close>
  "settled_at N n \<longleftrightarrow> (case nv_stdout_usage N of None \<Rightarrow> n = 0 | Some u \<Rightarrow> tu_total u = Some n)"

lemma total_component [simp]: "tu_total \<in> set components"
  by (simp add: components_def)

lemma in_step_total:
  assumes "in_step w out"
  shows "case out of None \<Rightarrow> tu_total (base_usage w) = Some 0 | Some v \<Rightarrow> tu_total v = None \<or> tu_total (base_usage w) = tu_total v"
proof (cases out)
  case None
  with assms show ?thesis by (cases w) (simp_all add: in_step_def base_usage_def zero_usage_def)
next
  case (Some v)
  with assms obtain w' where w: "w = Some w'" "\<forall>f\<in>set components. f v = None \<or> f v = f w'"
    by (cases w) (auto simp: in_step_def)
  with Some bspec [OF w(2) total_component] show ?thesis by (auto simp: base_usage_def)
qed

lemma matched_step:
  assumes "reads w ob" "in_step w out" "usage_matches (ob_session ob) u" "\<forall>f\<in>set components. f session = None \<or> f session = f u"
    "tu_total session \<noteq> None" "case out of None \<Rightarrow> n = 0 | Some v \<Rightarrow> tu_total v = Some n"
  shows "in_step (Some (ob_session ob)) (Some session)" "remember_stdout out (Some session) = Some session"
    "tu_total session = Some (n + charged (ob_terminal ob))"
proof -
  define us where "us = deltas_of (ob_events ob)"
  from assms(1) have us: "us \<noteq> []" "list_all good us" "ob_terminal ob = sum_token_usages us" "good (ob_session ob)"
    and grows: "\<And>f p. f \<in> set components \<Longrightarrow> f (base_usage w) = Some p \<Longrightarrow> f (ob_session ob) = Some (p + amount f us)"
    by (auto simp: reads_def us_def Let_def)
  have same: "f session = None \<or> f session = f (ob_session ob)" if f: "f \<in> set components" for f
  proof (cases "f session = None")
    case False
    with bspec [OF assms(4) f] have "f session = f u" by simp
    moreover from us(4) f have "f (ob_session ob) \<noteq> None" by (auto simp: good_def)
    moreover have "\<forall>f\<in>set components. f (ob_session ob) = None \<or> f u = None \<or> f (ob_session ob) = f u"
      using assms(3) by (simp add: usage_matches_def list_all_iff)
    note bspec [OF this f]
    ultimately show ?thesis using False by metis
  qed simp
  then show "in_step (Some (ob_session ob)) (Some session)" using us(4) by (simp add: in_step_def)
  have "\<not> token_usage_exceeds v session" if v: "out = Some v" for v
  proof -
    obtain w' where w': "w = Some w'" "good w'" "\<forall>f\<in>set components. f v = None \<or> f v = f w'"
      using assms(2) v by (cases w) (auto simp: in_step_def)
    have "\<not> component_exceeds (f v) (f session)" if f: "f \<in> set components" for f
    proof -
      from w'(2) f obtain p where p: "f w' = Some p" by (auto simp: good_def)
      with grows [OF f, of p] w'(1) have "f (ob_session ob) = Some (p + amount f us)" by (simp add: base_usage_def)
      with amount_nonneg [OF us(2) f] w'(3) f p same [OF f] show ?thesis
        by (auto simp: component_exceeds_def split: option.split)
    qed
    then show ?thesis by (auto simp: token_usage_exceeds_def list_ex_iff)
  qed
  with assms(5) show "remember_stdout out (Some session) = Some session" by (auto simp: remember_stdout_def)
  have "tu_total (base_usage w) = Some n" using in_step_total [OF assms(2)] assms(6) by (simp split: option.splits)
  from grows [OF total_component this] same [OF total_component] assms(5) sum_good [OF us(1,2) total_component] us(3)
  show "tu_total session = Some (n + charged (ob_terminal ob))" by (auto simp: charged_def counted_tokens_def)
qed

lemma fallback_step:
  assumes "tu_total session \<noteq> None" "nonneg session" "case out of None \<Rightarrow> n = 0 | Some v \<Rightarrow> tu_total v = Some n"
  shows "case remember_stdout out (Some session) of
      None \<Rightarrow> n + charged (codex_invocation_usage session out) = 0
    | Some v \<Rightarrow> tu_total v = Some (n + charged (codex_invocation_usage session out))"
proof (cases out)
  case None
  have "\<not> token_usage_exceeds zero_usage session"
    using assms(2) by (auto simp: token_usage_exceeds_def nonneg_def list_ex_iff component_exceeds_def components_def zero_usage_def
      split: option.split)
  with None assms show ?thesis
    by (auto simp: remember_stdout_def codex_invocation_usage_def subtract_token_usage_def subtract_component_def zero_usage_def
      charged_def counted_tokens_def)
next
  case (Some v)
  with assms show ?thesis
    by (auto simp: remember_stdout_def codex_invocation_usage_def subtract_token_usage_def subtract_component_def
      charged_def counted_tokens_def unavailable_def)
qed

definition codex_inv :: "native \<Rightarrow> int \<Rightarrow> bool" where
  "codex_inv N n \<longleftrightarrow> nv_cli N = ''codex'' \<and> settled_at N n \<and> list_all (\<lambda>e. \<not> starts_with ''codex_ledger_unavailable:'' e) (nv_setup_errors N)
     \<and> (nv_ledger_usable N \<longrightarrow> (nv_invoked N \<and> nv_session_id N = []) \<or>
          (\<exists>L. nv_observer N = Some L \<and> in_step (ld_session L) (nv_stdout_usage N)))"

lemma not_observed: "\<forall>e\<in>set es. ae_kind e \<noteq> UsageDelta \<Longrightarrow> \<not> list_ex (\<lambda>e. ae_kind e = UsageDelta) es"
  by (auto simp: list_ex_iff)

lemma starts_with_append [simp]: "starts_with p (p @ s)"
  by (induction p) auto

lemma account_cases:
  assumes "reports_usage loads stdout" "codex_inv N n" "account_turn loads disk stdout N = (N1, Inr (ev, qualified))"
    and "nv_invoked N \<longrightarrow> nv_session_id N \<noteq> []"
  shows "codex_inv N1 (n + charged (ev_usage ev)) \<and> nv_stdout_usage N1 = remember_stdout (nv_stdout_usage N) (Some (stdout_usage loads stdout))"
proof -
  obtain es u session where r: "normalize_codex loads stdout = Inr (es, u)" "tu_total u \<noteq> None" "\<forall>e\<in>set es. ae_kind e \<noteq> UsageDelta"
    "terminal_usage_from_stream loads stdout = Inr session" "stdout_usage loads stdout = session" "nonneg session"
    "tu_total session = tu_total u" "\<forall>f\<in>set components. f session = None \<or> f session = f u"
    using reported [OF assms(1)] by blast
  let ?first_errors = "if \<not> nv_invoked N then nv_setup_errors N else []"
  let ?own = "\<lambda>errors. \<lparr>ev_events = es, ev_usage = u, ev_capabilities = adapter_capabilities ''codex'', ev_errors = errors\<rparr>"
  from assms(2) have N: "nv_cli N = ''codex''" "settled_at N n" "\<not> list_ex (starts_with ''codex_ledger_unavailable:'') ?first_errors"
    "list_all (\<lambda>e. \<not> starts_with ''codex_ledger_unavailable:'' e) (nv_setup_errors N)"
    by (auto simp: codex_inv_def list_all_iff list_ex_iff)
  have total: "tu_total session \<noteq> None" using r(2,7) by simp
  define observer where "observer = (if nv_ledger_usable N then nv_observer N else None)"
  have caps: "(adapter_capabilities ''codex'')\<lparr>ca_delta_observed := list_ex (\<lambda>e. ae_kind e = UsageDelta) es\<rparr> = adapter_capabilities ''codex''"
    using not_observed [OF r(3)] by (simp add: adapter_capabilities_def)
  have adapted: "light_adapter ''codex'' loads stdout = Inr (es, u)" by (simp add: light_adapter_def r(1))
  have fallback: ?thesis
    if ns: "normalize_stream loads ''codex'' stdout (nv_session_id N) disk observer = (observer', Inr (?own errors))"
      and alive: "nv_ledger_usable N \<and> \<not> list_ex (starts_with ''codex_ledger_unavailable:'') errors \<Longrightarrow> nv_session_id N = []" for observer' errors
  proof -
    from assms(3) N(1,3) ns have "charged (ev_usage ev) = charged (codex_invocation_usage session (nv_stdout_usage N))"
      "nv_stdout_usage N1 = remember_stdout (nv_stdout_usage N) (Some session)" "nv_invoked N1" "nv_session_id N1 = nv_session_id N"
      "nv_cli N1 = ''codex''" "nv_setup_errors N1 = nv_setup_errors N" "nv_ledger_usable N1 \<Longrightarrow> nv_session_id N1 = []"
      using alive by (auto simp: account_turn_def r(4) observer_def [symmetric] adapter_capabilities_def Let_def charged_def counted_tokens_def
        unavailable_def)
    with fallback_step [OF total r(6), of n "nv_stdout_usage N"] N(2,4) r(5) show ?thesis
      by (auto simp: codex_inv_def settled_at_def)
  qed
  show ?thesis
  proof (cases "nv_ledger_usable N \<and> nv_session_id N \<noteq> []")
    case False
    then have "normalize_stream loads ''codex'' stdout (nv_session_id N) disk observer = (observer, Inr (?own []))"
      by (auto simp: normalize_stream_def adapted caps observer_def Let_def split: option.split)
    from fallback [OF this] False show ?thesis by auto
  next
    case True
    with assms(2) obtain L where L: "nv_observer N = Some L" "in_step (ld_session L) (nv_stdout_usage N)"
      by (auto simp: codex_inv_def)
    obtain L1 q where e: "ledger_evidence (legacy_format loads) disk (nv_session_id N) u L = (L1, q)" by fastforce
    show ?thesis
    proof (cases q)
      case (Inl x)
      have "normalize_stream loads ''codex'' stdout (nv_session_id N) disk observer =
          (Some L1, Inr (?own [''codex_ledger_unavailable:'' @ exn_name x]))"
        using True L(1) e Inl by (simp add: normalize_stream_def adapted caps observer_def Let_def)
      from fallback [OF this] show ?thesis using starts_with_append [of "''codex_ledger_unavailable:''" "exn_name x"] by auto
    next
      case (Inr seen)
      obtain ob where ob: "reads (ld_session L) ob" "ld_session L1 = Some (ob_session ob)" "usage_matches (ob_session ob) u"
        "seen = \<lparr>ev_events = ob_events ob, ev_usage = ob_terminal ob, ev_capabilities = codex_capabilities, ev_errors = []\<rparr>"
        using legacy.evidence_matched [OF e [unfolded Inr] r(2)] by (auto simp: legacy_format_def)
      have ns: "normalize_stream loads ''codex'' stdout (nv_session_id N) disk observer = (Some L1, Inr seen)"
        using True L(1) e Inr by (simp add: normalize_stream_def adapted observer_def Let_def ob(4))
      have "N1 = N\<lparr>nv_observer := Some L1, nv_stdout_usage := remember_stdout (nv_stdout_usage N) (Some session), nv_invoked := True\<rparr>"
        "ev_usage ev = ob_terminal ob"
        using assms(3) N(1,3) True ns [unfolded observer_def]
        by (auto simp: account_turn_def r(4) Let_def ob(4) codex_capabilities_def split: if_split_asm)
      with matched_step [OF ob(1) L(2) ob(3) r(8) total] N ob(2) r(5) show ?thesis
        by (auto simp: codex_inv_def settled_at_def)
    qed
  qed
qed

lemma account_returns:
  assumes "reports_usage loads stdout" "nv_cli N = ''codex''"
  obtains N1 ev q where "account_turn loads disk stdout N = (N1, Inr (ev, q))"
proof -
  obtain es u session where r: "normalize_codex loads stdout = Inr (es, u)" "terminal_usage_from_stream loads stdout = Inr session"
    using reported [OF assms(1)] by metis
  have "is_ok (snd (normalize_stream loads ''codex'' stdout (nv_session_id N) disk observer))" for observer
    by (simp add: normalize_stream_def light_adapter_def r(1) Let_def split: option.split prod.split sum.split)
  then obtain observer ev where "normalize_stream loads ''codex'' stdout (nv_session_id N) disk
      (if nv_ledger_usable N then nv_observer N else None) = (observer, Inr ev)"
    by (metis is_ok_iff prod.collapse)
  with assms(2) r(2) show ?thesis by (intro that) (auto simp: account_turn_def Let_def)
qed

lemma inv_environment [simp]: "codex_inv (N\<lparr>nv_environment := env\<rparr>) n = codex_inv N n"
  by (simp add: codex_inv_def settled_at_def)

lemma inv_session_id: "codex_inv N n \<Longrightarrow> (nv_invoked N \<Longrightarrow> nv_session_id N \<noteq> []) \<Longrightarrow> codex_inv (N\<lparr>nv_session_id := thread\<rparr>) n"
  by (auto simp: codex_inv_def settled_at_def)

definition reporting_call :: "(string \<Rightarrow> pyval option) \<Rightarrow> native_call \<Rightarrow> bool" where
  \<comment> \<open>if the process returns, its stream ends with the cumulative usage and the observation is written\<close>
  "reporting_call loads c = (nc_recorded c = None \<and> (case nc_answer c of Inr a \<Rightarrow> reports_usage loads (pa_stdout a) | Inl e \<Rightarrow> True))"

lemma invoke_step:
  assumes "codex_inv N n" "reporting_call loads c" "native_invoke loads c N = (N1, r)"
  shows "case r of
      Inl e \<Rightarrow> codex_inv N1 n \<and> nv_stdout_usage N1 = nv_stdout_usage N
    | Inr t \<Rightarrow> codex_inv N1 (n + charged (ev_usage (tn_evidence t)))
        \<and> nv_stdout_usage N1 = remember_stdout (nv_stdout_usage N) (Some (stdout_usage loads (tn_stdout t)))"
proof (cases "\<exists>a env. nc_open c \<and> \<not> nv_closed N \<and> (nc_resume c \<or> \<not> nv_invoked N) \<and> invocation_environment N (nc_environment c) = Inr env
    \<and> (nc_resume c \<longrightarrow> nv_session_id N \<noteq> []) \<and> nc_command c = None \<and> nc_answer c = Inr a")
  case False
  with assms(1,3) show ?thesis
    by (auto simp: native_invoke_def Let_def supports_same_session_resume_def codex_inv_def settled_at_def
      split: if_split_asm sum.splits option.splits)
next
  case True
  then obtain a env where a: "nc_open c" "\<not> nv_closed N" "nc_resume c \<or> \<not> nv_invoked N" "invocation_environment N (nc_environment c) = Inr env"
    "nc_resume c \<longrightarrow> nv_session_id N \<noteq> []" "nc_command c = None" "nc_answer c = Inr a" by blast
  have codex: "nv_cli N = ''codex''" using assms(1) by (simp add: codex_inv_def)
  define seen where "seen = session_id_from_stream ''codex'' loads (pa_stdout a) (nv_requested N)"
  define N2 where "N2 = (if seen \<noteq> [] then N\<lparr>nv_environment := env, nv_session_id := seen\<rparr> else N\<lparr>nv_environment := env\<rparr>)"
  have inv: "codex_inv N2 n" and same: "nv_stdout_usage N2 = nv_stdout_usage N" "nv_cli N2 = ''codex''"
    and alive: "nv_invoked N2 \<longrightarrow> nv_session_id N2 \<noteq> []"
    using assms(1) a(3,5) codex inv_session_id [of "N\<lparr>nv_environment := env\<rparr>" n seen] by (auto simp: N2_def)
  have reports: "reports_usage loads (pa_stdout a)" using assms(2) a(7) by (simp add: reporting_call_def)
  obtain N3 ev q where acc: "account_turn loads (nc_disk c) (pa_stdout a) N2 = (N3, Inr (ev, q))"
    using account_returns [OF reports same(2)] .
  have "native_invoke loads c N = (N3, Inr \<lparr>tn_exit = pa_exit a, tn_timed_out = pa_timed_out a, tn_session = nv_session_id N3,
      tn_stdout = pa_stdout a, tn_stderr = pa_stderr a, tn_evidence = ev, tn_qualified = q\<rparr>)"
    using a assms(2) codex acc [unfolded N2_def]
    by (cases "seen = []") (auto simp: native_invoke_def Let_def supports_same_session_resume_def seen_def [symmetric] reporting_call_def)
  with account_cases [OF reports inv acc alive] same(1) assms(3) show ?thesis by auto
qed

fun native_runs :: "(string \<Rightarrow> pyval option) \<Rightarrow> native \<Rightarrow> native_call list \<Rightarrow> native \<times> turn list" where
  \<comment> \<open>the session after the calls, and the turns that returned\<close>
  "native_runs loads N [] = (N, [])"
| "native_runs loads N (c # cs) =
     (case native_invoke loads c N of (N1, r) \<Rightarrow>
       (case native_runs loads N1 cs of (N2, ts) \<Rightarrow> (N2, (case r of Inr t \<Rightarrow> t # ts | Inl e \<Rightarrow> ts))))"

definition last_cumulative :: "(string \<Rightarrow> pyval option) \<Rightarrow> token_usage option \<Rightarrow> turn list \<Rightarrow> token_usage option" where
  \<comment> \<open>the last cumulative usage that did not fall behind an earlier one\<close>
  "last_cumulative loads prior ts = foldl (\<lambda>out t. remember_stdout out (Some (stdout_usage loads (tn_stdout t)))) prior ts"

lemma runs_charged:
  assumes "codex_inv N n" "\<forall>c\<in>set cs. reporting_call loads c" "native_runs loads N cs = (N', ts)"
  shows "codex_inv N' (n + sum_list (map (\<lambda>t. charged (ev_usage (tn_evidence t))) ts))
     \<and> nv_stdout_usage N' = last_cumulative loads (nv_stdout_usage N) ts"
  using assms
proof (induction cs arbitrary: N n ts)
  case (Cons c cs)
  obtain N1 r where i: "native_invoke loads c N = (N1, r)" by fastforce
  obtain ts1 where t: "native_runs loads N1 cs = (N', ts1)" "ts = (case r of Inr t \<Rightarrow> t # ts1 | Inl e \<Rightarrow> ts1)"
    using Cons.prems(3) i by (cases "native_runs loads N1 cs") auto
  from Cons.prems(2) have c: "reporting_call loads c" "\<forall>c\<in>set cs. reporting_call loads c" by auto
  from invoke_step [OF Cons.prems(1) c(1) i] Cons.IH [OF _ c(2) t(1)] t(2) show ?case
    by (cases r) (fastforce simp: last_cumulative_def add.assoc)+
qed (simp add: last_cumulative_def)

section \<open>A demonstration\<close>

definition demo_turn :: "int \<Rightarrow> pyval" where
  "demo_turn n = VDict [(''type'', VStr ''turn.completed''),
     (''usage'', VDict [(''input_tokens'', VInt (3 * n)), (''cached_input_tokens'', VInt n), (''output_tokens'', VInt n)])]"

definition demo_codex_loads :: "string \<Rightarrow> pyval option" where
  "demo_codex_loads line =
     (if line = ''{s'' then Some (VDict [(''type'', VStr ''thread.started''), (''thread_id'', VStr demo_thread)])
      else if line = ''{1'' then Some (demo_turn 1) else if line = ''{2'' then Some (demo_turn 2) else None)"

definition demo_codex_line :: "int \<Rightarrow> pyval option" where
  "demo_codex_line n = (let counts = VDict [(''input_tokens'', VInt (3 * n)), (''output_tokens'', VInt n), (''cached_input_tokens'', VInt n),
       (''cache_write_input_tokens'', VInt 0), (''total_tokens'', VInt (4 * n))] in
     Some (VDict [(''type'', VStr ''event_msg''), (''payload'', VDict [(''type'', VStr ''token_count''),
       (''info'', VDict [(''last_token_usage'', counts), (''total_token_usage'', counts)])])]))"

definition demo_call :: "bool \<Rightarrow> string \<Rightarrow> pyval option list \<Rightarrow> native_call" where
  \<comment> \<open>an invocation that finds these lines in the ledger\<close>
  "demo_call resume line lines = \<lparr>nc_open = True, nc_resume = resume, nc_environment = [], nc_command = None,
     nc_answer = Inr \<lparr>pa_stdout = ''{s'' @ CHR 0x0A # line, pa_stderr = [], pa_exit = 0, pa_timed_out = False\<rparr>,
     nc_disk = \<lparr>ro_search = (\<lambda>thread. Some ''file''), ro_lines = (\<lambda>path. lines), ro_meta = []\<rparr>, nc_recorded = None\<rparr>"

definition demo_calls :: "native_call list" where
  \<comment> \<open>the second finds a line that is still being written, so the ledger gives up\<close>
  "demo_calls = [demo_call False ''{1'' [demo_codex_line 1], demo_call True ''{2'' [demo_codex_line 1, None]]"

lemma demo_codex_lines:
  "split_lines (''{s'' @ CHR 0x0A # ''{1'') [] = [''{s'', ''{1'']" "split_lines (''{s'' @ CHR 0x0A # ''{2'') [] = [''{s'', ''{2'']"
  "py_strip ''{s'' = ''{s''" "py_strip demo_thread = demo_thread"
  by code_simp+

lemma demo_codex_events:
  "json_events demo_codex_loads (''{s'' @ CHR 0x0A # ''{1'') = [[(''type'', VStr ''thread.started''), (''thread_id'', VStr demo_thread)], the (as_dict (demo_turn 1))]"
  "json_events demo_codex_loads (''{s'' @ CHR 0x0A # ''{2'') = [[(''type'', VStr ''thread.started''), (''thread_id'', VStr demo_thread)], the (as_dict (demo_turn 2))]"
  unfolding json_events_def demo_codex_lines
  by (simp_all add: demo_codex_lines demo_lines map_filter_def demo_codex_loads_def demo_turn_def)

lemma demo_codex_usage:
  "0 \<le> n \<Longrightarrow> token_usage_from_mapping (get_item (the (as_dict (demo_turn n))) ''usage'') =
    \<lparr>tu_input = Some (3 * n), tu_output = Some n, tu_cache_read = None, tu_cache_write = None, tu_total = Some (4 * n), tu_measurement = Exact\<rparr>"
  by (simp add: demo_turn_def token_usage_from_mapping_def get_item_def dict_get_default_def counter_of_def token_counter_def map_filter_def
    counted_tokens_def)

definition demo_session_usage :: "int \<Rightarrow> token_usage" where
  "demo_session_usage n = \<lparr>tu_input = Some (3 * n), tu_output = Some n, tu_cache_read = None, tu_cache_write = None,
     tu_total = Some (4 * n), tu_measurement = Exact\<rparr>"

definition demo_terminal :: "int \<Rightarrow> agent_event" where
  "demo_terminal n = \<lparr>ae_sequence = 0, ae_kind = TerminalUsage, ae_usage = Some (demo_session_usage n\<lparr>tu_cache_read := Some n\<rparr>),
     ae_phase = None, ae_action = None, ae_marker = None\<rparr>"

lemma demo_fold:
  assumes "0 \<le> n"
  shows "fold_res (codex_event loads) empty_stream [[(''type'', VStr ''thread.started''), (''thread_id'', VStr demo_thread)], the (as_dict (demo_turn n))]
      = Inr \<lparr>st_events = [demo_terminal n], st_terminal = demo_session_usage n\<lparr>tu_cache_read := Some n\<rparr>, st_seen = []\<rparr>"
    "fold_res terminal_event \<lparr>ts_terminal = unavailable, ts_deltas = []\<rparr>
       [[(''type'', VStr ''thread.started''), (''thread_id'', VStr demo_thread)], the (as_dict (demo_turn n))]
      = Inr \<lparr>ts_terminal = demo_session_usage n, ts_deltas = []\<rparr>"
proof -
  let ?start = "[(''type'', VStr ''thread.started''), (''thread_id'', VStr demo_thread)]"
  have t: "type_among ?start ''type'' names = Inr (''thread.started'' \<in> set names)" for names
    by (auto simp: type_among_def get_item_def dict_get_default_def)
  have u: "type_among (the (as_dict (demo_turn n))) ''type'' names = Inr (''turn.completed'' \<in> set names)" for names
    by (auto simp: type_among_def get_item_def dict_get_default_def demo_turn_def)
  have "event_usage ?start = VNull" "event_roots ?start = []"
    by (simp_all add: event_usage_def message_of_def get_item_def dict_get_default_def event_roots_def)
  moreover have "codex_turn_usage (get_item (the (as_dict (demo_turn n))) ''usage'') = demo_session_usage n\<lparr>tu_cache_read := Some n\<rparr>"
    using assms by (simp add: codex_turn_usage_def demo_codex_usage)
      (simp add: demo_turn_def get_item_def dict_get_default_def counter_of_def token_counter_def map_filter_def demo_session_usage_def)
  ultimately show "fold_res (codex_event loads) empty_stream [?start, the (as_dict (demo_turn n))]
      = Inr \<lparr>st_events = [demo_terminal n], st_terminal = demo_session_usage n\<lparr>tu_cache_read := Some n\<rparr>, st_seen = []\<rparr>"
    "fold_res terminal_event \<lparr>ts_terminal = unavailable, ts_deltas = []\<rparr> [?start, the (as_dict (demo_turn n))]
      = Inr \<lparr>ts_terminal = demo_session_usage n, ts_deltas = []\<rparr>"
    using assms
    by (simp_all add: codex_event_def terminal_event_def t u note_receipts_def event_receipts_def note_terminal_def add_event_def
      empty_stream_def demo_codex_usage token_usage_from_mapping_def [of VNull] demo_terminal_def demo_session_usage_def)
      (simp_all add: unavailable_def)
qed

lemma demo_stream:
  assumes "(line, n) \<in> {(''{1'', 1), (''{2'', 2)}"
  shows "normalize_codex demo_codex_loads (''{s'' @ CHR 0x0A # line) =
      Inr ([demo_terminal n], demo_session_usage n\<lparr>tu_cache_read := Some n\<rparr>)"
    "terminal_usage_from_stream demo_codex_loads (''{s'' @ CHR 0x0A # line) = Inr (demo_session_usage n)"
    "codex_thread_id_from_stream demo_codex_loads (''{s'' @ CHR 0x0A # line) = demo_thread"
proof -
  consider "line = ''{1'' \<and> n = 1" | "line = ''{2'' \<and> n = 2" using assms by auto
  then have e: "json_events demo_codex_loads (''{s'' @ CHR 0x0A # line) =
      [[(''type'', VStr ''thread.started''), (''thread_id'', VStr demo_thread)], the (as_dict (demo_turn n))]"
    and l: "split_lines (''{s'' @ CHR 0x0A # line) [] = [''{s'', line]" and n: "0 \<le> n"
    by (cases; simp only: demo_codex_events demo_codex_lines)+
  show "normalize_codex demo_codex_loads (''{s'' @ CHR 0x0A # line) =
      Inr ([demo_terminal n], demo_session_usage n\<lparr>tu_cache_read := Some n\<rparr>)"
    unfolding normalize_codex_def e using demo_fold(1) [OF n] by simp
  show "terminal_usage_from_stream demo_codex_loads (''{s'' @ CHR 0x0A # line) = Inr (demo_session_usage n)"
    unfolding terminal_usage_from_stream_def e using demo_fold(2) [OF n] by (simp add: demo_session_usage_def)
  have "(thread_started \<circ> demo_codex_loads) ''{s'' = Some demo_thread"
    by (simp add: thread_started_def demo_codex_loads_def get_item_def dict_get_default_def demo_codex_lines)
  then show "codex_thread_id_from_stream demo_codex_loads (''{s'' @ CHR 0x0A # line) = demo_thread"
    unfolding codex_thread_id_from_stream_def l by (simp add: map_filter_def)
qed

definition demo_counted :: token_usage where
  "demo_counted = \<lparr>tu_input = Some 3, tu_output = Some 1, tu_cache_read = Some 1, tu_cache_write = Some 0, tu_total = Some 4,
     tu_measurement = Exact\<rparr>"

definition demo_usage_evidence :: usage_evidence where
  "demo_usage_evidence = \<lparr>ev_events = add_event TerminalUsage (Some demo_counted) (add_event UsageDelta (Some demo_counted) []),
     ev_usage = demo_counted, ev_capabilities = codex_capabilities, ev_errors = []\<rparr>"

definition demo_ledger :: ledger where
  "demo_ledger = \<lparr>ld_thread = demo_thread, ld_path = Some ''file'', ld_offset = 1, ld_session = Some demo_counted, ld_invalidated = False\<rparr>"

abbreviation demo_rollouts :: "pyval option list \<Rightarrow> rollouts" where
  "demo_rollouts lines \<equiv> \<lparr>ro_search = (\<lambda>thread. Some ''file''), ro_lines = (\<lambda>path. lines), ro_meta = []\<rparr>"

lemma demo_read:
  "ledger_line (legacy_format loads) (start_scan None) (demo_codex_line 1) =
     Inr \<lparr>sc_events = add_event UsageDelta (Some demo_counted) [], sc_pending = [], sc_deltas = [demo_counted],
          sc_final = Some demo_counted, sc_cumulative = 4\<rparr>"
  by (simp add: ledger_line_def demo_codex_line_def sub_dict_def get_item_def dict_get_default_def Let_def token_count_def legacy_format_def
    legacy_codex_usage_def token_counter_def start_scan_def counted_tokens_def demo_counted_def)

lemma demo_scanned: "scan_lines (legacy_format loads) None [demo_codex_line 1] =
    Inr \<lparr>ob_events = ev_events demo_usage_evidence, ob_terminal = demo_counted, ob_session = demo_counted\<rparr>"
  by (simp add: scan_lines_eq demo_read)
    (simp add: conclude_scan_def Let_def sum_token_usages_def observed_usage_def unreconciled_def components_def demo_counted_def
      sum_component_def zero_usage_def demo_usage_evidence_def)

lemma demo_evidence_first:
  assumes "tu_total u = Some 4" "tu_input u = Some 3" "tu_output u = Some 1" "tu_cache_read u = Some 1" "tu_cache_write u = None"
  shows "ledger_evidence (legacy_format loads) (demo_rollouts [demo_codex_line 1]) demo_thread u new_ledger = (demo_ledger, Inr demo_usage_evidence)"
  using assms
  by (simp add: ledger_evidence_def observe_reconciled_def observe_def find_rollout_path_def new_ledger_def demo_scanned legacy_format_def
      demo_scanned [unfolded legacy_format_def] usage_matches_def components_def demo_ledger_def)
    (simp add: demo_counted_def demo_usage_evidence_def)

lemma demo_evidence_second:
  "tu_total u \<noteq> None \<Longrightarrow> ledger_evidence (legacy_format loads) (demo_rollouts [demo_codex_line 1, None]) demo_thread u demo_ledger =
     (demo_ledger, Inl (ledger_error ''malformed Codex session ledger JSON''))"
  by (auto simp: ledger_evidence_def observe_reconciled_def observe_def find_rollout_path_def demo_ledger_def scan_lines_eq ledger_line_def)

definition demo_native :: native where
  \<comment> \<open>the session after its first invocation\<close>
  "demo_native = (open_native ''codex'' [] None ''x'')\<lparr>nv_session_id := demo_thread, nv_observer := Some demo_ledger,
     nv_stdout_usage := Some (demo_session_usage 1), nv_invoked := True\<rparr>"

lemma demo_first: "\<exists>t. native_invoke demo_codex_loads (demo_call False ''{1'' [demo_codex_line 1]) (open_native ''codex'' [] None ''x'') =
    (demo_native, Inr t) \<and> tu_total (ev_usage (tn_evidence t)) = Some 4 \<and> tn_stdout t = ''{s'' @ CHR 0x0A # ''{1''"
proof -
  note d = demo_stream [of "''{1''" 1, simplified]
  have ev: "tu_total (demo_session_usage 1\<lparr>tu_cache_read := Some 1\<rparr>) = Some 4" "tu_input (demo_session_usage 1\<lparr>tu_cache_read := Some 1\<rparr>) = Some 3"
    "tu_output (demo_session_usage 1\<lparr>tu_cache_read := Some 1\<rparr>) = Some 1" "tu_cache_read (demo_session_usage 1\<lparr>tu_cache_read := Some 1\<rparr>) = Some 1"
    "tu_cache_write (demo_session_usage 1\<lparr>tu_cache_read := Some 1\<rparr>) = None" "tu_total (demo_session_usage 1) = Some 4"
    by (simp_all add: demo_session_usage_def)
  have c: "ev_errors demo_usage_evidence = []" "ca_delta_observed (ev_capabilities demo_usage_evidence)" "ev_usage demo_usage_evidence = demo_counted"
    by (simp_all add: demo_usage_evidence_def codex_capabilities_def)
  have "account_turn demo_codex_loads (demo_rollouts [demo_codex_line 1]) (''{s'' @ CHR 0x0A # ''{1'')
      ((open_native ''codex'' [] None ''x'')\<lparr>nv_session_id := demo_thread\<rparr>) = (demo_native, Inr (demo_usage_evidence, True))"
    by (simp add: account_turn_def open_native_def normalize_stream_def light_adapter_def d demo_evidence_first [OF ev(1-5)] c
      remember_stdout_def ev(6) demo_native_def)
  then show ?thesis
    by (simp add: native_invoke_def demo_call_def session_id_from_stream_def d invocation_environment_def home_binding_keys_def
      open_native_def c)
      (simp add: demo_counted_def)
qed

lemma demo_second:
  assumes "out = None \<and> n = 8 \<or> out = Some (demo_session_usage 1) \<and> n = 4"
  shows "\<exists>N t. native_invoke demo_codex_loads (demo_call True ''{2'' [demo_codex_line 1, None]) (demo_native\<lparr>nv_stdout_usage := out\<rparr>) = (N, Inr t)
    \<and> tu_total (ev_usage (tn_evidence t)) = Some n \<and> tn_stdout t = ''{s'' @ CHR 0x0A # ''{2'' \<and> nv_ledger_usable N = False"
proof -
  note d = demo_stream [of "''{2''" 2, simplified]
  have u: "tu_total (demo_session_usage 2\<lparr>tu_cache_read := Some 2\<rparr>) \<noteq> None" by (simp add: demo_session_usage_def)
  have f: "tu_total (codex_invocation_usage (demo_session_usage 2) out) = Some n"
    using assms by (auto simp: codex_invocation_usage_def demo_session_usage_def token_usage_exceeds_def components_def component_exceeds_def
      subtract_token_usage_def subtract_component_def zero_usage_def)
  have p: "nv_cli demo_native = ''codex''" "nv_session_id demo_native = demo_thread" "nv_ledger_usable demo_native"
    "nv_observer demo_native = Some demo_ledger" "nv_invoked demo_native" "nv_environment demo_native = []" "nv_home demo_native = []"
    "\<not> nv_closed demo_native" "nv_requested demo_native = ''x''"
    by (simp_all add: demo_native_def open_native_def)
  obtain N ev q where a: "account_turn demo_codex_loads (demo_rollouts [demo_codex_line 1, None]) (''{s'' @ CHR 0x0A # ''{2'')
      (demo_native\<lparr>nv_stdout_usage := out, nv_environment := [], nv_session_id := demo_thread\<rparr>) = (N, Inr (ev, q))" "tu_total (ev_usage ev) = Some n" "\<not> nv_ledger_usable N"
    by (simp add: account_turn_def normalize_stream_def light_adapter_def d demo_evidence_second [OF u] p f Let_def) blast
  then show ?thesis
    by (simp add: native_invoke_def demo_call_def session_id_from_stream_def d invocation_environment_def home_binding_keys_def p
      supports_same_session_resume_def)
qed

text \<open>
  The hypothesis on the streams is needed.  An invocation whose stream ends without its usage is charged by the ledger alone; when
  the ledger gives up in the next one, that one is charged the whole cumulative usage of the stream again.
\<close>

lemma demo_silent:
  "\<exists>t. native_invoke demo_codex_loads (demo_call False ''{0'' [demo_codex_line 1]) (open_native ''codex'' [] None ''x'') =
    (demo_native\<lparr>nv_stdout_usage := None\<rparr>, Inr t) \<and> tu_total (ev_usage (tn_evidence t)) = Some 4"
proof -
  have l: "split_lines (''{s'' @ CHR 0x0A # ''{0'') [] = [''{s'', ''{0'']" "py_strip ''{0'' = ''{0''" by code_simp+
  let ?start = "[(''type'', VStr ''thread.started''), (''thread_id'', VStr demo_thread)]"
  have e: "json_events demo_codex_loads (''{s'' @ CHR 0x0A # ''{0'') = [?start]"
    unfolding json_events_def l by (simp add: l demo_codex_lines map_filter_def demo_codex_loads_def)
  have t: "type_among ?start ''type'' names = Inr (''thread.started'' \<in> set names)" for names
    by (auto simp: type_among_def get_item_def dict_get_default_def)
  have "event_usage ?start = VNull" "event_roots ?start = []"
    by (simp_all add: event_usage_def message_of_def get_item_def dict_get_default_def event_roots_def)
  then have f: "fold_res (codex_event demo_codex_loads) empty_stream [?start] = Inr empty_stream"
    "fold_res terminal_event \<lparr>ts_terminal = unavailable, ts_deltas = []\<rparr> [?start] = Inr \<lparr>ts_terminal = unavailable, ts_deltas = []\<rparr>"
    by (simp_all add: codex_event_def terminal_event_def t note_receipts_def event_receipts_def empty_stream_def
      token_usage_from_mapping_def [of VNull]) (simp_all add: unavailable_def)
  have n: "normalize_codex demo_codex_loads (''{s'' @ CHR 0x0A # ''{0'') = Inr ([], unavailable)"
    unfolding normalize_codex_def e using f(1) by (simp add: empty_stream_def)
  have m: "terminal_usage_from_stream demo_codex_loads (''{s'' @ CHR 0x0A # ''{0'') = Inr unavailable"
    unfolding terminal_usage_from_stream_def e using f(2) by (simp add: partial_if_known_def sum_token_usages_def)
  have "(thread_started \<circ> demo_codex_loads) ''{s'' = Some demo_thread"
    by (simp add: thread_started_def demo_codex_loads_def get_item_def dict_get_default_def demo_codex_lines)
  then have i: "codex_thread_id_from_stream demo_codex_loads (''{s'' @ CHR 0x0A # ''{0'') = demo_thread"
    unfolding codex_thread_id_from_stream_def l by (simp add: map_filter_def)
  have o: "observe (legacy_format demo_codex_loads) (demo_rollouts [demo_codex_line 1]) demo_thread new_ledger =
      (demo_ledger, Inr \<lparr>ob_events = ev_events demo_usage_evidence, ob_terminal = demo_counted, ob_session = demo_counted\<rparr>)"
    by (simp add: observe_def find_rollout_path_def new_ledger_def demo_scanned demo_ledger_def)
  have u: "tu_total unavailable = None" by (simp add: unavailable_def)
  show ?thesis
    by (simp add: native_invoke_def demo_call_def session_id_from_stream_def i [simplified] invocation_environment_def home_binding_keys_def
      open_native_def account_turn_def normalize_stream_def light_adapter_def n [simplified] m [simplified] ledger_evidence_def o u codex_capabilities_def
      remember_stdout_def demo_native_def make_partial_def)
      (simp add: demo_counted_def)
qed

lemma silent_turn_charged_twice:
  "\<exists>N ts. native_runs demo_codex_loads (open_native ''codex'' [] None ''x'')
       [demo_call False ''{0'' [demo_codex_line 1], demo_call True ''{2'' [demo_codex_line 1, None]] = (N, ts)
     \<and> sum_list (map (\<lambda>t. counted_tokens (tu_total (ev_usage (tn_evidence t)))) ts) = 12
     \<and> terminal_usage_from_stream demo_codex_loads (''{s'' @ CHR 0x0A # ''{2'') = Inr (demo_session_usage 2) \<and> tu_total (demo_session_usage 2) = Some 8"
proof -
  obtain t N t' where "native_invoke demo_codex_loads (demo_call False ''{0'' [demo_codex_line 1]) (open_native ''codex'' [] None ''x'') =
      (demo_native\<lparr>nv_stdout_usage := None\<rparr>, Inr t)" "tu_total (ev_usage (tn_evidence t)) = Some 4"
      "native_invoke demo_codex_loads (demo_call True ''{2'' [demo_codex_line 1, None]) (demo_native\<lparr>nv_stdout_usage := None\<rparr>) = (N, Inr t')"
      "tu_total (ev_usage (tn_evidence t')) = Some 8"
    using demo_silent demo_second [of None 8] by blast
  then show ?thesis
    using demo_stream(2) [of "''{2''" 2] by (simp add: counted_tokens_def) (simp add: demo_session_usage_def)
qed

section \<open>Properties\<close>

text \<open>C12: A Codex session is charged what it used.  Over all invocations of a session whose streams end with the cumulative usage, whichever
  source accounts for each of them, ledger or stream, and wherever the ledger gives up, the charges add up to the cumulative
  usage that the stream reported last.\<close>

theorem codex_charged_once:
  assumes "native_runs loads (open_native ''codex'' env fault requested) calls = (N, ts)"
    and "\<forall>c\<in>set calls. reporting_call loads c"
  shows "sum_list (map (\<lambda>t. counted_tokens (tu_total (ev_usage (tn_evidence t)))) ts) =
    (case last_cumulative loads None ts of None \<Rightarrow> 0 | Some u \<Rightarrow> counted_tokens (tu_total u))"
proof -
  have "\<not> starts_with ''codex_ledger_unavailable:'' (''codex_ledger_setup_failed:'' @ s)" for s
    by simp
  then have "codex_inv (open_native ''codex'' env fault requested) 0"
    by (auto simp: codex_inv_def open_native_def settled_at_def in_step_def new_ledger_def split: option.split)
  from runs_charged [OF this assms(2,1)] show ?thesis
    by (cases "last_cumulative loads None ts")
      (auto simp: codex_inv_def settled_at_def charged_def counted_tokens_def open_native_def split: option.splits)
qed

theorem codex_charged_once_witness:
  "\<exists>N ts. native_runs demo_codex_loads (open_native ''codex'' [] None ''x'') demo_calls = (N, ts) \<and> length ts = 2
     \<and> sum_list (map (\<lambda>t. counted_tokens (tu_total (ev_usage (tn_evidence t)))) ts) = 8
     \<and> (case last_cumulative demo_codex_loads None ts of None \<Rightarrow> 0 | Some u \<Rightarrow> counted_tokens (tu_total u)) = 8"
proof -
  obtain t where t: "native_invoke demo_codex_loads (demo_call False ''{1'' [demo_codex_line 1]) (open_native ''codex'' [] None ''x'') =
      (demo_native, Inr t)" "tu_total (ev_usage (tn_evidence t)) = Some 4"
    using demo_first by blast
  have "demo_native\<lparr>nv_stdout_usage := Some (demo_session_usage 1)\<rparr> = demo_native" by (simp add: demo_native_def)
  then obtain N t' where t': "native_invoke demo_codex_loads (demo_call True ''{2'' [demo_codex_line 1, None]) demo_native = (N, Inr t')"
      "tu_total (ev_usage (tn_evidence t')) = Some 4"
    using demo_second [of "Some (demo_session_usage 1)" 4] by auto
  from t(1) t'(1) have r: "native_runs demo_codex_loads (open_native ''codex'' [] None ''x'') demo_calls = (N, [t, t'])"
    by (simp add: demo_calls_def)
  have "\<forall>c\<in>set demo_calls. reporting_call demo_codex_loads c"
    using demo_stream [of "''{1''" 1, simplified] demo_stream [of "''{2''" 2, simplified]
    by (simp add: demo_calls_def demo_call_def reporting_call_def reports_usage_def demo_session_usage_def)
  from codex_charged_once [OF r this] r t(2) t'(2) show ?thesis by (simp add: counted_tokens_def)
qed

end
