(* ===== verification/ProviderFailures.thy ===== *)
theory ProviderFailures
  imports Streams DeviceFailures
begin

text \<open>
  Which turns of an agent failed at the provider: \<open>rate_limit_code\<close> of src/src/aka/light/agent/runtime/provider_errors.py,
  \<open>classify_terminal_failure\<close> of the two adapters in src/src/aka/light/agent/runtime/adapter.py, and the transient errors of
  src/src/aka/light/workflow/session.py.  \<open>str\<close> of a value that is no text is the parameter \<open>other\<close>.  The regular
  expressions are written out.
\<close>

section \<open>Rate limits\<close>

definition quote :: char where "quote = CHR 0x22"

definition match_code :: "string \<Rightarrow> (string \<times> string) option" where
  \<comment> \<open>a match of \<open>"(?:code|type)"\s*:\s*"([^"\n]+)"\<close> at the start: its group and the rest\<close>
  "match_code s =
     (if starts_with (quote # ''code'' @ [quote]) s \<or> starts_with (quote # ''type'' @ [quote]) s
      then case dropWhile is_space (drop 6 s) of
          [] \<Rightarrow> None
        | c # r \<Rightarrow>
            if c \<noteq> CHR '':'' then None
            else case dropWhile is_space r of
                [] \<Rightarrow> None
              | q # t \<Rightarrow>
                  let body = takeWhile (\<lambda>c. c \<noteq> quote \<and> c \<noteq> CHR 0x0A) t; rest = dropWhile (\<lambda>c. c \<noteq> quote \<and> c \<noteq> CHR 0x0A) t in
                  if q = quote \<and> body \<noteq> [] \<and> rest \<noteq> [] \<and> hd rest = quote then Some (body, tl rest) else None
      else None)"

lemma match_code_shorter: "match_code s = Some (body, rest) \<Longrightarrow> length rest < length s"
proof -
  assume m: "match_code s = Some (body, rest)"
  then obtain c r q t where c: "dropWhile is_space (drop 6 s) = c # r" "dropWhile is_space r = q # t"
    "rest = tl (dropWhile (\<lambda>c. c \<noteq> quote \<and> c \<noteq> CHR 0x0A) t)"
    by (auto simp: match_code_def Let_def split: if_split_asm list.splits)
  have "length rest \<le> length t" using length_dropWhile_le [of _ t] c(3) by (simp add: le_diff_conv le_SucI)
  also have "length t < length r" using c(2) length_dropWhile_le [of is_space r] by simp
  also have "length r < length (drop 6 s)" using c(1) length_dropWhile_le [of is_space "drop 6 s"] by simp
  finally show ?thesis by simp
qed

function find_codes :: "string \<Rightarrow> string list" where
  "find_codes [] = []"
| "find_codes (c # s) = (case match_code (c # s) of Some (body, rest) \<Rightarrow> body # find_codes rest | None \<Rightarrow> find_codes s)"
  by pat_completeness auto
termination
  by (relation "measure length") (use match_code_shorter in force)+

fun spaced_limit :: "string \<Rightarrow> bool" where
  \<comment> \<open>\<open>rate.?limit\<close>\<close>
  "spaced_limit [] = False"
| "spaced_limit (c # s) = (starts_with ''ratelimit'' (c # s)
     \<or> (starts_with ''rate'' (c # s) \<and> starts_with ''limit'' (drop 5 (c # s)) \<and> (c # s) ! 4 \<noteq> CHR 0x0A) \<or> spaced_limit s)"

definition permanent_codes :: "string list" where
  "permanent_codes = [''insufficient_quota'', ''billing_error'', ''GoUsageLimitError'', ''FreeUsageLimitError'']"

definition throttling_code :: "string \<Rightarrow> bool" where
  "throttling_code code = (code = ''Throttling'' \<or> code = ''rate_limit_error'' \<or> starts_with ''Throttling.'' code)"

definition rate_limit_code :: "string \<Rightarrow> string option" where
  "rate_limit_code message =
     (let codes = find_codes message; text = lower message in
      if list_ex (\<lambda>c. c \<in> set permanent_codes) codes then None
      else case filter throttling_code codes of
          code # _ \<Rightarrow> Some code
        | [] \<Rightarrow>
            if list_ex (\<lambda>w. contains_sub w text) [''insufficient_quota'', ''out of budget'', ''quota exceeded'', ''billing''] then None
            else if ''429'' \<in> set (word_runs message) \<or> spaced_limit text \<or> contains_sub ''too many requests'' text
            then Some ''rate_limit'' else None)"

section \<open>The failure of a turn\<close>

datatype failure_kind = RateLimit | ProviderError | OutputLimit

type_synonym provider_failure = "(failure_kind \<times> string) option"

definition pi_failure :: "(pyval \<Rightarrow> string) \<Rightarrow> provider_failure \<Rightarrow> pyval dict \<Rightarrow> exn + provider_failure" where
  "pi_failure other f event =
     (case message_of event of
        None \<Rightarrow> Inr f
      | Some m \<Rightarrow>
          if get_item event ''type'' \<noteq> VStr ''message_end'' \<or> get_item m ''role'' \<noteq> VStr ''assistant'' then Inr f
          else bind_res (type_among m ''stopReason'' [''error'', ''aborted'']) (\<lambda>stopped.
            if \<not> stopped then Inr None
            else let code = (if get_item m ''stopReason'' = VStr ''error''
                             then rate_limit_code (py_str other (dict_get_default m ''errorMessage'' (VStr ''''))) else None) in
              Inr (Some (case code of Some c \<Rightarrow> (RateLimit, c) | None \<Rightarrow> (ProviderError, ''pi_assistant_'' @ str_of (get_item m ''stopReason''))))))"

definition classify_pi :: "(string \<Rightarrow> pyval option) \<Rightarrow> (pyval \<Rightarrow> string) \<Rightarrow> string \<Rightarrow> exn + provider_failure" where
  "classify_pi loads other stdout = fold_res (pi_failure other) None (json_events loads stdout)"

record claude_scan =
  cs_assistant :: "pyval dict option"
  cs_failure :: provider_failure

definition iterated :: "pyval \<Rightarrow> exn + pyval list" where
  \<comment> \<open>the elements a \<open>for\<close> loop meets; characters and keys are texts\<close>
  "iterated v =
     (case v of
        VList vs \<Rightarrow> Inr vs
      | VTuple vs \<Rightarrow> Inr vs
      | VStr s \<Rightarrow> Inr (map (\<lambda>c. VStr [c]) s)
      | VDict d \<Rightarrow> Inr (map (\<lambda>(k, w). VStr k) d)
      | _ \<Rightarrow> Inl (TypeError (Msg ''object is not iterable'')))"

definition block_code :: "(pyval \<Rightarrow> string) \<Rightarrow> pyval \<Rightarrow> string option" where
  "block_code other block =
     (case as_dict block of
        Some d \<Rightarrow> if get_item d ''type'' = VStr ''text'' then rate_limit_code (py_str other (dict_get_default d ''text'' (VStr ''''))) else None
      | None \<Rightarrow> None)"

definition root_event :: "string \<Rightarrow> pyval dict \<Rightarrow> bool" where
  "root_event session event = (get_item event ''session_id'' = VStr session \<and> get_item event ''parent_tool_use_id'' = VNull)"

definition error_codes :: "pyval dict \<Rightarrow> string list" where
  "error_codes event = List.map_filter (\<lambda>k. case get_item event k of VStr s \<Rightarrow> Some s | _ \<Rightarrow> None) [''error'', ''api_error'']"

definition claude_failure :: "(pyval \<Rightarrow> string) \<Rightarrow> string \<Rightarrow> claude_scan \<Rightarrow> pyval dict \<Rightarrow> exn + claude_scan" where
  "claude_failure other session s event =
     (if \<not> root_event session event then Inr s
      else if get_item event ''type'' = VStr ''assistant'' then
        bind_res (if get_item event ''isApiErrorMessage'' = VBool True
            then iterated (case message_of event of Some m \<Rightarrow> dict_get_default m ''content'' (VList []) | None \<Rightarrow> VList [])
            else Inr []) (\<lambda>blocks.
        let codes = List.map_filter (block_code other) blocks in
        Inr \<lparr>cs_assistant = Some event, cs_failure = (if codes = [] then None else Some (RateLimit, last codes))\<rparr>)
      else if get_item event ''type'' = VStr ''result'' then
        if get_item event ''is_error'' = VBool True \<and> (\<exists>c\<in>set_option (cs_failure s). fst c = RateLimit) then Inr s
        else Inr \<lparr>cs_assistant = None,
                  cs_failure = (case cs_assistant s of
                      Some a \<Rightarrow>
                        if get_item event ''is_error'' = VBool True \<and> get_item event ''terminal_reason'' = VStr ''api_error''
                           \<and> get_item a ''is_api_error_message'' = VBool True \<and> error_codes a \<noteq> []
                           \<and> list_all (\<lambda>c. c = ''max_output_tokens'') (error_codes a)
                        then Some (OutputLimit, ''max_output_tokens'') else None
                    | None \<Rightarrow> None)\<rparr>
      else Inr s)"

definition classify_claude :: "(string \<Rightarrow> pyval option) \<Rightarrow> (pyval \<Rightarrow> string) \<Rightarrow> string \<Rightarrow> string \<Rightarrow> exn + provider_failure" where
  "classify_claude loads other session stdout =
     (if session = [] then Inr None
      else map_sum id cs_failure (fold_res (claude_failure other session) \<lparr>cs_assistant = None, cs_failure = None\<rparr> (json_events loads stdout)))"

definition terminal_failure :: "(string \<Rightarrow> pyval option) \<Rightarrow> (pyval \<Rightarrow> string) \<Rightarrow> string \<Rightarrow> string \<Rightarrow> string \<Rightarrow> exn + provider_failure" where
  "terminal_failure loads other cli session stdout =
     (if cli = ''claude'' then classify_claude loads other session stdout
      else if cli = ''pi'' then classify_pi loads other stdout
      else Inr None)"

section \<open>Transient errors of Claude\<close>

definition claude_retryable_api_error :: "string \<Rightarrow> bool" where
  \<comment> \<open>on these texts \<open>casefold\<close> finds what \<open>lower\<close> finds\<close>
  "claude_retryable_api_error message =
     (let text = lower (py_strip message) in
      text = ''api error: terminated''
      \<or> (contains_sub ''request rejected (429)'' text \<and> contains_sub ''throttling'' text \<and> contains_sub ''exceeded your current quota'' text))"

definition event_texts :: "pyval dict \<Rightarrow> string list" where
  \<comment> \<open>the texts of an error event\<close>
  "event_texts event =
     (if get_item event ''isApiErrorMessage'' \<noteq> VBool True then []
      else case Option.bind (message_of event) (\<lambda>m. Some (get_item m ''content'')) of
          Some (VList blocks) \<Rightarrow>
            List.map_filter (\<lambda>block. case as_dict block of
                Some d \<Rightarrow> if get_item d ''type'' = VStr ''text'' then (case get_item d ''text'' of VStr s \<Rightarrow> Some s | _ \<Rightarrow> None) else None
              | None \<Rightarrow> None) blocks
        | _ \<Rightarrow> [])"

definition claude_transient_api_error :: "(string \<Rightarrow> pyval option) \<Rightarrow> string \<Rightarrow> string" where
  "claude_transient_api_error loads stdout =
     (case filter claude_retryable_api_error
             (concat (map event_texts (List.map_filter (\<lambda>line. Option.bind (loads line) as_dict) (split_lines stdout [])))) of
        text # _ \<Rightarrow> py_strip text
      | [] \<Rightarrow> [])"

section \<open>The last answer decides\<close>

lemma filtered_events:
  "fold_res (claude_failure other session) s events = fold_res (claude_failure other session) s (filter (root_event session) events)"
proof (induction events arbitrary: s)
  case (Cons event events)
  show ?case
  proof (cases "root_event session event")
    case True
    with Cons.IH show ?thesis by (auto intro: bind_res_cong)
  next
    case False
    with Cons.IH show ?thesis by (simp add: claude_failure_def)
  qed
qed simp

definition is_answer :: "string \<Rightarrow> pyval dict \<Rightarrow> bool" where
  \<comment> \<open>a response of the session itself\<close>
  "is_answer session event = (root_event session event \<and> get_item event ''type'' = VStr ''assistant'')"

definition api_error :: "pyval dict \<Rightarrow> bool" where
  "api_error event = (get_item event ''isApiErrorMessage'' = VBool True \<or> get_item event ''is_api_error_message'' = VBool True)"

lemma answered_step:
  assumes "cs_failure s = None" "\<forall>a. cs_assistant s = Some a \<longrightarrow> \<not> api_error a" "\<not> is_answer session event \<or> \<not> api_error event"
    and "claude_failure other session s event = Inr s'"
  shows "cs_failure s' = None \<and> (\<forall>a. cs_assistant s' = Some a \<longrightarrow> \<not> api_error a)"
  using assms
  by (auto simp: claude_failure_def is_answer_def api_error_def Let_def map_filter_def split: if_split_asm option.splits)

lemma answered_fold:
  "fold_res (claude_failure other session) s events = Inr t \<Longrightarrow> cs_failure s = None \<Longrightarrow> \<forall>a. cs_assistant s = Some a \<longrightarrow> \<not> api_error a \<Longrightarrow>
     \<forall>e\<in>set events. \<not> is_answer session e \<or> \<not> api_error e \<Longrightarrow> cs_failure t = None"
proof (induction events arbitrary: s)
  case (Cons event events)
  then obtain s' where s': "claude_failure other session s event = Inr s'" "fold_res (claude_failure other session) s' events = Inr t"
    by (auto simp: res_simps)
  with answered_step [OF Cons.prems(2,3) _ s'(1)] Cons.prems(4) Cons.IH [OF s'(2)] show ?case by auto
qed simp

lemma answer_clears:
  assumes "is_answer session a" "\<not> api_error a" "claude_failure other session s a = Inr s'"
  shows "cs_failure s' = None \<and> cs_assistant s' = Some a"
  using assms by (auto simp: claude_failure_def is_answer_def api_error_def map_filter_def)

lemma pi_fold:
  "fold_res (pi_failure other) f events = Inr g \<Longrightarrow>
     \<forall>e\<in>set events. \<not> (get_item e ''type'' = VStr ''message_end'' \<and> (\<exists>m. message_of e = Some m \<and> get_item m ''role'' = VStr ''assistant'')) \<Longrightarrow> g = f"
  by (induction events arbitrary: f) (auto simp: res_simps pi_failure_def split: option.splits if_split_asm)

section \<open>Properties\<close>

text \<open>An answered session has not failed.  When the last response of the Claude session itself is no API error, the turn is not classified
  as failed, whatever came before it and whatever other sessions and sub-agents report.\<close>

theorem answered_not_failed:
  assumes "json_events loads stdout = before @ a # after"
    and "is_answer session a" "\<not> api_error a" "\<forall>e\<in>set after. \<not> is_answer session e"
    and "classify_claude loads other session stdout = Inr failure"
  shows "failure = None"
proof (cases "session = []")
  case True
  with assms(5) show ?thesis by (simp add: classify_claude_def)
next
  case False
  with assms(1,5) obtain s t u where f: "claude_failure other session s a = Inr t" "fold_res (claude_failure other session) t after = Inr u"
    "failure = cs_failure u"
    by (auto simp: classify_claude_def fold_res_append res_simps elim!: map_sum_InrE)
  from answered_fold [OF f(2)] answer_clears [OF assms(2,3) f(1)] assms(3,4) f(3) show ?thesis by auto
qed

theorem answered_not_failed_witness:
  "classify_claude (\<lambda>line. Some (VDict (if line = ''{1'' then [(''session_id'', VStr ''s''), (''type'', VStr ''assistant''), (''isApiErrorMessage'', VBool True)]
      else [(''session_id'', VStr ''s''), (''type'', VStr ''assistant'')]))) (\<lambda>v. []) ''s'' demo_stdout = Inr None"
proof -
  let ?loads = "\<lambda>line. Some (VDict (if line = ''{1'' then [(''session_id'', VStr ''s''), (''type'', VStr ''assistant''), (''isApiErrorMessage'', VBool True)]
      else [(''session_id'', VStr ''s''), (''type'', VStr ''assistant'')]))"
  let ?a = "[(''session_id'', VStr ''s''), (''type'', VStr ''assistant'')]"
  let ?e = "[(''session_id'', VStr ''s''), (''type'', VStr ''assistant''), (''isApiErrorMessage'', VBool True)]"
  have j: "json_events ?loads demo_stdout = [?e] @ ?a # []"
    unfolding json_events_def demo_lines by (simp add: demo_lines map_filter_def)
  have a: "is_answer ''s'' ?a" "\<not> api_error ?a"
    by (simp_all add: is_answer_def root_event_def api_error_def get_item_def dict_get_default_def)
  obtain failure where f: "classify_claude ?loads (\<lambda>v. []) ''s'' demo_stdout = Inr failure"
    unfolding classify_claude_def j
    by (simp add: claude_failure_def root_event_def get_item_def dict_get_default_def message_of_def iterated_def)
  with answered_not_failed [OF j a _ f] show ?thesis by simp
qed

end
