(* ===== verification/LongSession.thy ===== *)
theory LongSession
  imports NativeSessions ProviderFailures
begin

text \<open>
  The runner of an episode's agent session: \<open>LongSessionRunner\<close> of src/src/aka/light/workflow/session.py with the handoff of
  src/src/aka/light/workflow/protocol.py, over the native sessions of \<open>NativeSessions\<close>.  A round is one pass of its loop; what
  the pass meets is its input: the clock, a cancellation, the answer of the agent, the handoff file, the check of a
  handoff, and what the operations on files raise.  Outputs to the console and waiting are left out.
\<close>

section \<open>The handoff\<close>

datatype handoff_file = Missing | Unreadable string | Content string

record handoff =
  ho_status :: string
  ho_candidate :: string
  ho_trial :: string

definition handoff_statuses :: "string list" where
  "handoff_statuses = [''candidate_ready'', ''pivot'', ''blocked'']"

fun stripped :: "pyval \<Rightarrow> string" where
  "stripped (VStr s) = py_strip s"
| "stripped _ = []"

definition normalize_handoff :: "pyval \<Rightarrow> exn + handoff option" where
  "normalize_handoff v =
     (case as_dict v of
        None \<Rightarrow> Inr None
      | Some d \<Rightarrow>
          bind_res (type_among d ''status'' handoff_statuses) (\<lambda>terminal.
          let candidate = stripped (dict_get_default d ''candidate_commit'' (VStr [])) in
          if \<not> terminal \<or> (get_item d ''status'' = VStr ''candidate_ready'' \<and> candidate = []) then Inr None
          else Inr (Some \<lparr>ho_status = str_of (get_item d ''status''), ho_candidate = candidate,
                     ho_trial = stripped (dict_get_default d ''last_trial_commit'' (VStr []))\<rparr>)))"

definition read_handoff :: "(string \<Rightarrow> pyval option) \<Rightarrow> handoff_file \<Rightarrow> exn + handoff option" where
  "read_handoff loads file =
     (case file of
        Content text \<Rightarrow> (case loads text of Some v \<Rightarrow> normalize_handoff v | None \<Rightarrow> Inr None)
      | _ \<Rightarrow> Inr None)"

definition handoff_diagnosis :: "(string \<Rightarrow> pyval option) \<Rightarrow> (pyval \<Rightarrow> string) \<Rightarrow> handoff_file \<Rightarrow> exn + string" where
  \<comment> \<open>the position of a JSON error is left out\<close>
  "handoff_diagnosis loads other file =
     (case file of
        Missing \<Rightarrow> Inr ''handoff file is missing''
      | Unreadable name \<Rightarrow> Inr (''handoff cannot be read: '' @ name)
      | Content text \<Rightarrow>
          if py_strip text = [] then Inr ''handoff file is empty''
          else case loads text of
              None \<Rightarrow> Inr ''handoff is invalid JSON''
            | Some v \<Rightarrow>
                (case as_dict v of
                   None \<Rightarrow> Inr ''handoff must be a JSON object''
                 | Some d \<Rightarrow>
                     bind_res (type_among d ''status'' handoff_statuses) (\<lambda>terminal.
                     if \<not> terminal then Inr ''handoff status must be candidate_ready, pivot, or blocked''
                     else if get_item d ''status'' = VStr ''candidate_ready''
                       \<and> py_strip (py_str other (dict_get_default d ''candidate_commit'' (VStr []))) = []
                     then Inr ''candidate_ready requires candidate_commit''
                     else Inr ''handoff schema is valid but its episode completion contract is not satisfied'')))"

section \<open>The state of a run\<close>

record session_plan =
  pl_loads :: "string \<Rightarrow> pyval option"
  pl_other :: "pyval \<Rightarrow> string"
  pl_cli :: string
  pl_prompt :: string
  pl_resumes :: int                      \<comment> \<open>\<open>handoff_resumes\<close>\<close>
  pl_budget :: "int option"              \<comment> \<open>\<open>remaining_token_budget\<close>\<close>
  pl_retries :: pyval                    \<comment> \<open>\<open>output_limit_recovery_retries\<close>\<close>
  pl_policy :: "turn \<Rightarrow> int"             \<comment> \<open>\<open>usage_policy\<close>\<close>
  pl_records :: bool                     \<comment> \<open>whether \<open>record_usage\<close> was given\<close>

record round =
  rd_spent_before :: bool                \<comment> \<open>no active time is left when the round starts\<close>
  rd_cancelled :: bool
  rd_draft :: handoff_file               \<comment> \<open>the handoff when the round starts\<close>
  rd_call :: native_call
  rd_recorded :: "exn option"            \<comment> \<open>what recording the usage raises\<close>
  rd_blocked :: "exn option"             \<comment> \<open>what \<open>raise_if_environment_blocked\<close> raises\<close>
  rd_file :: handoff_file                \<comment> \<open>the handoff after the turn\<close>
  rd_check :: "handoff \<Rightarrow> exn + string"
  rd_spent :: bool                       \<comment> \<open>no active time is left after the turn\<close>
  rd_woken :: bool                       \<comment> \<open>cancelled while waiting\<close>
  rd_id :: string                        \<comment> \<open>a fresh identifier\<close>
  rd_open :: "exn + string dict \<times> exn option"   \<comment> \<open>opening another session: its environment and the set-up of its observer\<close>
  rd_recovery :: "exn + string"          \<comment> \<open>the prompt of a recovery\<close>

datatype session_event = Opened string | Closed_Session | Invoked bool string | Usage_Recorded int

record turn_record =
  tr_turn :: turn
  tr_session :: string
  tr_purpose :: string
  tr_failure :: provider_failure

record run =
  rn_native :: native
  rn_prefix :: "string option"           \<comment> \<open>\<open>ATREX_TELEMETRY_ATTEMPT_ID\<close>\<close>
  rn_tokens :: int
  rn_diagnosis :: string
  rn_handoff :: "handoff option"
  rn_exit :: int
  rn_timed_out :: bool
  rn_resumes :: int
  rn_turns :: "turn_record list"
  rn_recoveries :: int
  rn_next :: "string option"
  rn_purpose :: string
  rn_attempt :: nat
  rn_rate_retries :: nat
  rn_retry_resume :: bool
  rn_active :: string
  rn_trace :: "session_event list"

datatype progress = Go_On run | Finish run | Abort run exn

definition retry_limit :: "session_plan \<Rightarrow> int option" where
  "retry_limit p = (case pl_retries p of VInt n \<Rightarrow> if 0 \<le> n \<and> n \<le> 10 then Some n else None | _ \<Rightarrow> None)"

definition resume_limit :: "session_plan \<Rightarrow> int" where
  "resume_limit p = max 0 (pl_resumes p)"

definition over_budget :: "session_plan \<Rightarrow> run \<Rightarrow> bool" where
  "over_budget p s = (case pl_budget p of Some b \<Rightarrow> rn_tokens s \<ge> b | None \<Rightarrow> False)"

definition failed_as :: "provider_failure \<Rightarrow> failure_kind \<Rightarrow> bool" where
  "failed_as f kind = (case f of Some (k, code) \<Rightarrow> k = kind | None \<Rightarrow> False)"

definition can_resume :: "session_plan \<Rightarrow> run \<Rightarrow> bool" where
  "can_resume p s = (rn_active s \<noteq> [] \<and> supports_same_session_resume (pl_cli p) \<and> rn_resumes s < resume_limit p)"

definition unavailable_error :: "string \<Rightarrow> exn" where
  "unavailable_error text = OtherException ''InfrastructureUnavailable'' text"

definition cancelled_error :: "string \<Rightarrow> exn" where
  "cancelled_error text = OtherException ''CancelledError'' text"

section \<open>One round\<close>

definition continuation :: string where
  "continuation = ''Continue the SAME optimization Episode after provider throttling. Preserve the existing kernel/source tree and ''
     @ ''scratch. Inspect saved progress and reconcile existing Runtime/Gateway results before repeating work. Finish the existing ''
     @ ''episode-report contract; do not reset the candidate.''"

definition resume_text :: "string \<Rightarrow> string" where
  "resume_text diagnosis = ''Continue the same long-horizon optimization episode. The previous turn did not satisfy the terminal contract: ''
     @ diagnosis @ ''. Resume concrete engineering work from the current draft. Submit tools/sandbox.py --kind episode-report; ''
     @ ''the Supervisor seals the candidate. Do not merely explain the problem. Correct the report fields indicated by Runtime ''
     @ ''feedback and resubmit episode-report. Do not create Git commits or hand-write a handoff.''"

definition reopen :: "session_plan \<Rightarrow> round \<Rightarrow> string \<Rightarrow> string \<Rightarrow> run \<Rightarrow> progress" where
  \<comment> \<open>a fresh session that starts with this prompt, for this purpose\<close>
  "reopen p i prompt purpose s =
     (let s1 = s\<lparr>rn_native := close_native (rn_native s), rn_active := rd_id i, rn_trace := rn_trace s @ [Closed_Session]\<rparr> in
      case rd_open i of
        Inl e \<Rightarrow> Abort s1 e
      | Inr (env, fault) \<Rightarrow>
          Go_On (s1\<lparr>rn_native := open_native (pl_cli p) env fault (rd_id i), rn_next := Some prompt, rn_purpose := purpose,
                    rn_trace := rn_trace s1 @ [Opened (rd_id i)]\<rparr>))"

definition rate_limited :: "session_plan \<Rightarrow> round \<Rightarrow> run \<Rightarrow> progress" where
  "rate_limited p i s =
     (let s1 = s\<lparr>rn_rate_retries := rn_rate_retries s + 1, rn_purpose := ''rate_limit_recovery''\<rparr> in
      if rd_spent i \<or> over_budget p s1 then Abort s1 (unavailable_error ''Rate-limited Episode reached its budget; draft preserved'')
      else if rd_woken i then Abort s1 (cancelled_error ''Search coordinator stopped rate-limit recovery'')
      else if supports_same_session_resume (pl_cli p) \<and> rn_active s1 \<noteq> []
      then Go_On (s1\<lparr>rn_next := Some continuation, rn_retry_resume := True\<rparr>)
      else reopen p i (rev (dropWhile is_space (rev (pl_prompt p))) @ [CHR 0x0A, CHR 0x0A] @ continuation) ''rate_limit_recovery'' s1)"

definition output_limit_text :: "int \<Rightarrow> int \<Rightarrow> string" where
  "output_limit_text recoveries limit = ''Claude max_output_tokens: response output limit exceeded; '' @ int_string recoveries @ ''/''
     @ int_string limit @ '' fresh-session recoveries used''"

definition output_limited :: "session_plan \<Rightarrow> round \<Rightarrow> turn \<Rightarrow> int \<Rightarrow> run \<Rightarrow> progress" where
  "output_limited p i t limit s =
     (let d = output_limit_text (rn_recoveries s) limit in
      if rn_exit s \<noteq> 1 \<or> rn_recoveries s \<ge> limit then Finish (s\<lparr>rn_diagnosis := d\<rparr>)
      else if tu_total (ev_usage (tn_evidence t)) = None
      then Finish (s\<lparr>rn_diagnosis := d @ ''; usage unavailable, cannot safely extend execution''\<rparr>)
      else if over_budget p s then Finish (s\<lparr>rn_diagnosis := d @ ''; Episode token budget exhausted''\<rparr>)
      else let s1 = s\<lparr>rn_diagnosis := d, rn_recoveries := rn_recoveries s + 1\<rparr> in
        case rd_recovery i of Inl e \<Rightarrow> Abort s1 e | Inr prompt \<Rightarrow> reopen p i prompt ''output_limit_recovery'' s1)"

definition after_turn :: "session_plan \<Rightarrow> round \<Rightarrow> turn \<Rightarrow> provider_failure \<Rightarrow> int \<Rightarrow> run \<Rightarrow> progress" where
  "after_turn p i t f limit s =
     (if failed_as f RateLimit \<and> \<not> rn_timed_out s then rate_limited p i s
      else
        let s1 = (if failed_as f ProviderError then s\<lparr>rn_diagnosis := ''Provider session failed: '' @ snd (the f)\<rparr> else s) in
        if rn_timed_out s1 then
          if rd_spent i then Finish (s1\<lparr>rn_diagnosis := ''Episode active-time budget exhausted; no continuation started''\<rparr>)
          else if can_resume p s1 then Go_On (s1\<lparr>rn_diagnosis := ''coding session timed out before a valid terminal handoff''\<rparr>)
          else Finish s1
        else if rn_exit s1 = 0 then Go_On s1
        else if failed_as f OutputLimit then output_limited p i t limit s1
        else
          let transient = (if pl_cli p = ''claude'' then claude_transient_api_error (pl_loads p) (tn_stdout t) else []) in
          if (rn_exit s1 \<in> {-15, 128 + 15} \<or> transient \<noteq> []) \<and> can_resume p s1
          then Go_On (s1\<lparr>rn_diagnosis :=
            (if transient \<noteq> [] then ''Claude coding session hit transient '' @ transient @ '' before publishing a valid handoff''
             else ''coding session received SIGTERM before publishing a valid handoff'')\<rparr>)
          else Finish s1)"

definition judge_turn :: "session_plan \<Rightarrow> round \<Rightarrow> turn \<Rightarrow> provider_failure \<Rightarrow> int \<Rightarrow> run \<Rightarrow> progress" where
  "judge_turn p i t f limit s =
     (case read_handoff (pl_loads p) (rd_file i) of
        Inl e \<Rightarrow> Abort s e
      | Inr (Some h) \<Rightarrow>
          (case rd_check i h of
             Inl e \<Rightarrow> Abort s e
           | Inr d \<Rightarrow>
               if d = [] then Finish (s\<lparr>rn_diagnosis := [], rn_handoff := Some h, rn_exit := 0, rn_timed_out := False\<rparr>)
               else after_turn p i t f limit (s\<lparr>rn_diagnosis := d\<rparr>))
      | Inr None \<Rightarrow>
          (case handoff_diagnosis (pl_loads p) (pl_other p) (rd_file i) of
             Inl e \<Rightarrow> Abort s e
           | Inr d \<Rightarrow> after_turn p i t f limit (s\<lparr>rn_diagnosis := d\<rparr>)))"

definition accounted :: "session_plan \<Rightarrow> turn \<Rightarrow> provider_failure \<Rightarrow> string \<Rightarrow> run \<Rightarrow> run" where
  \<comment> \<open>the turn is counted, and recorded before anything else is decided\<close>
  "accounted p t f active s =
     (let s1 = s\<lparr>rn_active := active, rn_exit := (if f \<noteq> None \<and> tn_exit t = 0 then 1 else tn_exit t),
                  rn_tokens := rn_tokens s + pl_policy p t,
                  rn_turns := rn_turns s @ [\<lparr>tr_turn = t, tr_session = active, tr_purpose = rn_purpose s, tr_failure = f\<rparr>],
                  rn_purpose := (if rn_purpose s = ''rate_limit_recovery'' \<and> \<not> failed_as f RateLimit then ''optimization'' else rn_purpose s)\<rparr> in
      if pl_records p then s1\<lparr>rn_trace := rn_trace s1 @ [Usage_Recorded (rn_tokens s1)]\<rparr> else s1)"

definition account_turn_of_run :: "session_plan \<Rightarrow> round \<Rightarrow> turn \<Rightarrow> int \<Rightarrow> run \<Rightarrow> progress" where
  "account_turn_of_run p i t limit s =
     (let active = (if tn_session t \<noteq> [] then tn_session t else rn_active s) in
      case terminal_failure (pl_loads p) (pl_other p) (pl_cli p) active (tn_stdout t) of
        Inl e \<Rightarrow> Abort (s\<lparr>rn_active := active\<rparr>) e
      | Inr f \<Rightarrow>
          (case (if pl_records p then rd_recorded i else None) of
             Some e \<Rightarrow> Abort (accounted p t f active s) e
           | None \<Rightarrow>
               (case rd_blocked i of
                  Some e \<Rightarrow> Abort (accounted p t f active s) e
                | None \<Rightarrow> judge_turn p i t f limit ((accounted p t f active s)\<lparr>rn_timed_out := tn_timed_out t\<rparr>))))"

definition invoke_turn :: "session_plan \<Rightarrow> round \<Rightarrow> string \<Rightarrow> bool \<Rightarrow> int \<Rightarrow> run \<Rightarrow> progress" where
  "invoke_turn p i prompt resume limit s =
     (let env = (case rn_prefix s of
                   Some x \<Rightarrow> if x \<noteq> [] then [(''ATREX_TELEMETRY_ATTEMPT_ID'', Some (x @ ''-'' @ int_string (int (rn_attempt s) + 1)))] else []
                 | None \<Rightarrow> []) in
      case native_invoke (pl_loads p) ((rd_call i)\<lparr>nc_resume := resume, nc_environment := env\<rparr>) (rn_native s) of
        (N, Inl e) \<Rightarrow> Abort (s\<lparr>rn_native := N, rn_trace := rn_trace s @ [Invoked resume prompt]\<rparr>) e
      | (N, Inr t) \<Rightarrow>
          account_turn_of_run p i t limit
            (s\<lparr>rn_native := N, rn_attempt := rn_attempt s + 1, rn_next := None, rn_trace := rn_trace s @ [Invoked resume prompt]\<rparr>))"

definition exhausted :: "int \<Rightarrow> int \<Rightarrow> int" where
  \<comment> \<open>\<open>exit_status or default\<close>\<close>
  "exhausted status default_status = (if status \<noteq> 0 then status else default_status)"

definition session_round :: "session_plan \<Rightarrow> int \<Rightarrow> round \<Rightarrow> run \<Rightarrow> progress" where
  "session_round p limit i s =
     (if rd_spent_before i then
        if rn_purpose s = ''rate_limit_recovery''
        then Abort s (unavailable_error ''Rate-limited Episode exhausted its active-time budget; draft preserved'')
        else Finish (s\<lparr>rn_timed_out := True, rn_exit := exhausted (rn_exit s) (- 9),
                       rn_diagnosis := ''Episode active-time budget exhausted; no continuation started''\<rparr>)
      else if rd_cancelled i then Abort s (cancelled_error ''Search coordinator stopped this Episode'')
      else if over_budget p s then
        if rn_purpose s = ''rate_limit_recovery''
        then Abort s (unavailable_error ''Rate-limited Episode exhausted its token budget; draft preserved'')
        else Finish (s\<lparr>rn_diagnosis := ''Episode token budget exhausted; no continuation started'', rn_exit := exhausted (rn_exit s) 1\<rparr>)
      else case rn_next s of
          Some prompt \<Rightarrow> invoke_turn p i prompt (rn_retry_resume s) limit (s\<lparr>rn_retry_resume := False\<rparr>)
        | None \<Rightarrow>
            if rn_resumes s \<ge> resume_limit p then Finish s
            else if \<not> supports_same_session_resume (pl_cli p)
            then Finish (s\<lparr>rn_diagnosis := (if rn_diagnosis s \<noteq> [] then rn_diagnosis s
                          else pl_cli p @ '' ended without a valid terminal handoff'')\<rparr>)
            else if rn_active s = []
            then Finish (s\<lparr>rn_diagnosis := (if rn_diagnosis s \<noteq> [] then rn_diagnosis s
                          else pl_cli p @ '' ended without exposing a resumable session id'')\<rparr>)
            else let s1 = s\<lparr>rn_resumes := rn_resumes s + 1, rn_purpose := ''handoff_resume''\<rparr> in
              case (if rn_diagnosis s1 \<noteq> [] then Inr (rn_diagnosis s1) else handoff_diagnosis (pl_loads p) (pl_other p) (rd_draft i)) of
                Inl e \<Rightarrow> Abort s1 e
              | Inr d \<Rightarrow> invoke_turn p i (resume_text d) True limit s1)"

section \<open>The run\<close>

fun session_loop :: "session_plan \<Rightarrow> int \<Rightarrow> round list \<Rightarrow> run \<Rightarrow> progress" where
  \<comment> \<open>\<open>Go_On\<close>: still running after these rounds\<close>
  "session_loop p limit [] s = Go_On s"
| "session_loop p limit (i # rounds) s =
     (case session_round p limit i s of Go_On s1 \<Rightarrow> session_loop p limit rounds s1 | r \<Rightarrow> r)"

definition start_run :: "session_plan \<Rightarrow> string dict \<Rightarrow> exn option \<Rightarrow> string \<Rightarrow> run" where
  "start_run p env fault requested =
     \<lparr>rn_native = open_native (pl_cli p) env fault requested, rn_prefix = map_of env ''ATREX_TELEMETRY_ATTEMPT_ID'', rn_tokens = 0,
      rn_diagnosis = [], rn_handoff = None, rn_exit = 0, rn_timed_out = False, rn_resumes = 0, rn_turns = [], rn_recoveries = 0,
      rn_next = Some (pl_prompt p), rn_purpose = ''optimization'', rn_attempt = 0, rn_rate_retries = 0, rn_retry_resume = False,
      rn_active = (if pl_cli p = ''codex'' then [] else requested), rn_trace = [Opened requested]\<rparr>"

record run_result =
  sr_exit :: int
  sr_timed_out :: bool
  sr_tokens :: int
  sr_session :: string
  sr_resumes :: int
  sr_handoff :: "handoff option"
  sr_stdout :: string
  sr_stderr :: string
  sr_diagnosis :: string
  sr_turns :: "turn_record list"
  sr_recoveries :: int

definition tail_of :: "string \<Rightarrow> string" where
  "tail_of s = drop (length s - 4000) s"

definition result_of :: "string \<Rightarrow> run \<Rightarrow> run_result" where
  "result_of requested s =
     \<lparr>sr_exit = rn_exit s, sr_timed_out = rn_timed_out s, sr_tokens = rn_tokens s,
      sr_session = (if rn_active s \<noteq> [] then rn_active s else requested), sr_resumes = rn_resumes s, sr_handoff = rn_handoff s,
      sr_stdout = tail_of (str_join [CHR 0x0A] (map (\<lambda>r. tn_stdout (tr_turn r)) (rn_turns s))),
      sr_stderr = tail_of (str_join [CHR 0x0A] (map (\<lambda>r. tn_stderr (tr_turn r)) (rn_turns s))),
      sr_diagnosis = rn_diagnosis s, sr_turns = rn_turns s, sr_recoveries = rn_recoveries s\<rparr>"

definition close_run :: "run \<Rightarrow> run" where
  "close_run s = s\<lparr>rn_native := close_native (rn_native s), rn_trace := rn_trace s @ [Closed_Session]\<rparr>"

definition run_session ::
  "session_plan \<Rightarrow> string \<Rightarrow> (exn + string dict \<times> exn option) \<Rightarrow> round list \<Rightarrow> run option \<times> (exn + run_result) option" where
  \<comment> \<open>the run as these rounds leave it, and what it returned or raised if it has ended\<close>
  "run_session p requested opened rounds =
     (case retry_limit p of
        None \<Rightarrow> (None, Some (Inl (ValueError (Msg ''output_limit_recovery_retries must be an integer from 0 to 10''))))
      | Some limit \<Rightarrow>
          (case opened of
             Inl e \<Rightarrow> (None, Some (Inl e))
           | Inr (env, fault) \<Rightarrow>
               (case session_loop p limit rounds (start_run p env fault requested) of
                  Go_On s \<Rightarrow> (Some s, None)
                | Finish s \<Rightarrow> (Some (close_run s), Some (Inr (result_of requested s)))
                | Abort s e \<Rightarrow> (Some (close_run s), Some (Inl e)))))"

section \<open>What the sessions see\<close>

fun protocol_step :: "bool \<times> bool \<Rightarrow> session_event \<Rightarrow> (bool \<times> bool) option" where
  \<comment> \<open>whether a session is open, and whether it was invoked; a session is opened when none is open, first invoked afresh and
    then resumed\<close>
  "protocol_step (opn, used) (Opened x) = (if opn then None else Some (True, False))"
| "protocol_step (opn, used) Closed_Session = Some (False, used)"
| "protocol_step (opn, used) (Invoked resume prompt) = (if opn \<and> resume = used then Some (True, True) else None)"
| "protocol_step (opn, used) (Usage_Recorded n) = (if opn \<and> used then Some (opn, used) else None)"

definition protocol :: "session_event list \<Rightarrow> (bool \<times> bool) option" where
  "protocol trace = foldl (\<lambda>st e. Option.bind st (\<lambda>x. protocol_step x e)) (Some (False, False)) trace"

lemma protocol_snoc [simp]: "protocol (trace @ [e]) = Option.bind (protocol trace) (\<lambda>x. protocol_step x e)"
  by (simp add: protocol_def)

lemma protocol_two [simp]: "protocol (trace @ [a, b]) = Option.bind (protocol (trace @ [a])) (\<lambda>x. protocol_step x b)"
  using protocol_snoc [of "trace @ [a]" b] by simp

fun recorded_totals :: "session_event list \<Rightarrow> int list" where
  "recorded_totals [] = []"
| "recorded_totals (Usage_Recorded n # es) = n # recorded_totals es"
| "recorded_totals (e # es) = recorded_totals es"

lemma recorded_append [simp]: "recorded_totals (a @ b) = recorded_totals a @ recorded_totals b"
  by (induction a rule: recorded_totals.induct) auto

definition is_invocation :: "session_event \<Rightarrow> bool" where
  "is_invocation e = (case e of Invoked resume prompt \<Rightarrow> True | _ \<Rightarrow> False)"

definition invocations :: "session_event list \<Rightarrow> nat" where
  "invocations trace = length (filter is_invocation trace)"

lemma invocations_append [simp]: "invocations (a @ b) = invocations a + invocations b"
  "invocations [] = 0" "invocations (e # es) = (if is_invocation e then 1 else 0) + invocations es"
  by (simp_all add: invocations_def)

lemma is_invocation_simps [simp]: "is_invocation (Invoked r x)" "\<not> is_invocation (Opened y)" "\<not> is_invocation Closed_Session"
  "\<not> is_invocation (Usage_Recorded n)"
  by (simp_all add: is_invocation_def)

fun running_totals :: "int \<Rightarrow> int list \<Rightarrow> int list" where
  "running_totals n [] = []"
| "running_totals n (x # xs) = (n + x) # running_totals (n + x) xs"

lemma running_totals_snoc: "running_totals n (xs @ [x]) = running_totals n xs @ [n + sum_list xs + x]"
  by (induction xs arbitrary: n) (simp_all add: add.assoc)

definition spent :: "session_plan \<Rightarrow> run \<Rightarrow> int list" where
  "spent p s = map (\<lambda>r. pl_policy p (tr_turn r)) (rn_turns s)"

lemma length_spent [simp]: "length (spent p s) = length (rn_turns s)"
  by (simp add: spent_def)

definition core :: "session_plan \<Rightarrow> int \<Rightarrow> run \<Rightarrow> bool" where
  "core p limit s \<longleftrightarrow> rn_tokens s = sum_list (spent p s) \<and> recorded_totals (rn_trace s) = (if pl_records p then running_totals 0 (spent p s) else [])
     \<and> (\<forall>b. pl_budget p = Some b \<longrightarrow> (\<forall>k < invocations (rn_trace s). sum_list (take k (spent p s)) < b))
     \<and> 0 \<le> rn_resumes s \<and> rn_resumes s \<le> resume_limit p \<and> 0 \<le> rn_recoveries s \<and> rn_recoveries s \<le> limit"

definition allowance :: "run \<Rightarrow> int" where
  "allowance s = 1 + rn_resumes s + rn_recoveries s + int (rn_rate_retries s)"

definition in_use :: "session_plan \<Rightarrow> run \<Rightarrow> bool" where
  \<comment> \<open>the session is open and known by its identifier\<close>
  "in_use p s \<longleftrightarrow> nv_cli (rn_native s) = pl_cli p \<and> \<not> nv_closed (rn_native s) \<and> nv_session_id (rn_native s) = rn_active s
     \<and> protocol (rn_trace s) = Some (True, nv_invoked (rn_native s)) \<and> invocations (rn_trace s) = length (rn_turns s)
     \<and> rn_handoff s = None"

definition turned :: "session_plan \<Rightarrow> int \<Rightarrow> run \<Rightarrow> bool" where
  \<comment> \<open>a turn has just been accounted\<close>
  "turned p limit s \<longleftrightarrow> core p limit s \<and> in_use p s \<and> nv_invoked (rn_native s) \<and> rn_next s = None \<and> \<not> rn_retry_resume s
     \<and> int (length (rn_turns s)) = allowance s \<and> rn_turns s \<noteq> []"

definition ready :: "session_plan \<Rightarrow> int \<Rightarrow> run \<Rightarrow> bool" where
  \<comment> \<open>at the head of the loop\<close>
  "ready p limit s \<longleftrightarrow> core p limit s \<and> in_use p s
     \<and> (case rn_next s of
          None \<Rightarrow> nv_invoked (rn_native s) \<and> \<not> rn_retry_resume s \<and> int (length (rn_turns s)) = allowance s \<and> rn_diagnosis s \<noteq> []
        | Some x \<Rightarrow> int (length (rn_turns s)) + 1 = allowance s \<and> nv_invoked (rn_native s) = rn_retry_resume s
            \<and> (rn_retry_resume s \<longrightarrow> supports_same_session_resume (pl_cli p) \<and> rn_active s \<noteq> []))"

definition ended :: "session_plan \<Rightarrow> int \<Rightarrow> run \<Rightarrow> bool" where
  "ended p limit s \<longleftrightarrow> core p limit s \<and> protocol (rn_trace s) \<noteq> None \<and> int (invocations (rn_trace s)) \<le> allowance s
     \<and> length (rn_turns s) \<le> invocations (rn_trace s) \<and> invocations (rn_trace s) \<le> length (rn_turns s) + 1"

definition sound :: "session_plan \<Rightarrow> int \<Rightarrow> progress \<Rightarrow> bool" where
  "sound p limit r = (case r of Go_On s \<Rightarrow> ready p limit s
     | Finish s \<Rightarrow> ended p limit s \<and> invocations (rn_trace s) = length (rn_turns s)
     | Abort s e \<Rightarrow> ended p limit s)"

lemma sound_simps [simp]:
  "sound p limit (Go_On s) = ready p limit s"
  "sound p limit (Finish s) = (ended p limit s \<and> invocations (rn_trace s) = length (rn_turns s))"
  "sound p limit (Abort s e) = ended p limit s"
  by (simp_all add: sound_def)

lemmas run_defs = core_def spent_def in_use_def turned_def ready_def ended_def allowance_def

lemma reopen_ok:
  assumes "core p limit s" "in_use p s" "pl_cli p \<noteq> ''codex''" "\<not> rn_retry_resume s" "int (length (rn_turns s)) + 1 = allowance s"
  shows "sound p limit (reopen p i prompt purpose s)"
  using assms
  by (auto simp: reopen_def Let_def run_defs open_native_def split: sum.split)

lemma rate_limited_ok:
  assumes "turned p limit s" "pl_cli p \<noteq> ''codex''"
  shows "sound p limit (rate_limited p i s)"
proof -
  let ?s = "s\<lparr>rn_rate_retries := rn_rate_retries s + 1, rn_purpose := ''rate_limit_recovery''\<rparr>"
  have "core p limit ?s" "in_use p ?s" "\<not> rn_retry_resume ?s" "int (length (rn_turns ?s)) + 1 = allowance ?s"
    using assms(1) by (simp_all add: run_defs)
  note r = reopen_ok [OF this(1,2) assms(2) this(3,4)]
  show ?thesis
    using assms(1) r by (auto simp: rate_limited_def Let_def) (simp_all add: run_defs)
qed

lemma output_limited_ok:
  assumes "turned p limit s" "pl_cli p \<noteq> ''codex''"
  shows "sound p limit (output_limited p i t limit s)"
proof -
  let ?s = "s\<lparr>rn_diagnosis := output_limit_text (rn_recoveries s) limit, rn_recoveries := rn_recoveries s + 1\<rparr>"
  have r: "sound p limit (reopen p i prompt purpose ?s)" if "rn_recoveries s < limit" for prompt purpose
    by (rule reopen_ok) (use assms that in \<open>simp_all add: run_defs\<close>)
  have e: "ended p limit (s\<lparr>rn_diagnosis := d\<rparr>)" "invocations (rn_trace s) = length (rn_turns s)" for d
    using assms(1) by (simp_all add: run_defs)
  have a: "ended p limit ?s" if "rn_recoveries s < limit"
    using assms(1) that by (simp add: run_defs)
  show ?thesis
    using r e a by (simp add: output_limited_def Let_def split: sum.split)
qed

lemma after_turn_ok:
  assumes "turned p limit s" "rn_diagnosis s \<noteq> []" "f \<noteq> None \<longrightarrow> pl_cli p \<noteq> ''codex''"
  shows "sound p limit (after_turn p i t f limit s)"
proof -
  have f: "failed_as f k \<Longrightarrow> pl_cli p \<noteq> ''codex''" for k using assms(3) by (cases f) (auto simp: failed_as_def)
  have turned: "turned p limit (s\<lparr>rn_diagnosis := d\<rparr>)" for d using assms(1) by (simp add: run_defs)
  have go: "ready p limit (s\<lparr>rn_diagnosis := d\<rparr>)" if "d \<noteq> []" for d using assms(1) that by (simp add: run_defs)
  have e: "ended p limit (s\<lparr>rn_diagnosis := d\<rparr>)" "invocations (rn_trace s) = length (rn_turns s)" for d
    using assms(1) by (simp_all add: run_defs)
  show ?thesis
    using rate_limited_ok [OF assms(1) f] output_limited_ok [OF turned f] output_limited_ok [OF assms(1) f] go e
      go [OF assms(2)] e(1) [of "rn_diagnosis s"]
    by (auto simp: after_turn_def Let_def)
qed

lemma diagnosis_nonempty: "handoff_diagnosis loads other file = Inr d \<Longrightarrow> d \<noteq> []"
  by (auto simp: handoff_diagnosis_def Let_def res_simps split: handoff_file.splits option.splits if_split_asm)

lemma judge_turn_ok:
  assumes "turned p limit s" "f \<noteq> None \<longrightarrow> pl_cli p \<noteq> ''codex''"
  shows "sound p limit (judge_turn p i t f limit s)"
proof -
  have a: "sound p limit (after_turn p i t f limit (s\<lparr>rn_diagnosis := d\<rparr>))" if "d \<noteq> []" for d
    by (rule after_turn_ok) (use assms that in \<open>simp_all add: run_defs\<close>)
  have e: "ended p limit s" "ended p limit (s\<lparr>rn_diagnosis := [], rn_handoff := h, rn_exit := 0, rn_timed_out := False\<rparr>)"
    "invocations (rn_trace s) = length (rn_turns s)" for h
    using assms(1) by (simp_all add: run_defs)
  show ?thesis
    using a e diagnosis_nonempty by (auto simp: judge_turn_def split: sum.split option.split)
qed

lemma account_keeps:
  "account_turn loads disk stdout N = (N1, r) \<Longrightarrow>
     nv_cli N1 = nv_cli N \<and> nv_closed N1 = nv_closed N \<and> nv_session_id N1 = nv_session_id N \<and> (is_ok r \<longrightarrow> nv_invoked N1)"
  by (auto simp: account_turn_def Let_def split: sum.splits prod.splits if_split_asm)

lemma invoke_keeps:
  assumes "native_invoke loads c N = (N1, Inr t)"
  shows "nv_cli N1 = nv_cli N" "nv_closed N1 = nv_closed N" "nv_invoked N1" "tn_session t = nv_session_id N1"
    "nv_session_id N1 = [] \<Longrightarrow> nv_session_id N = []"
  using assms
  by (auto simp: native_invoke_def Let_def split: if_split_asm sum.splits option.splits prod.splits dest!: account_keeps)

lemma terminal_failure_cli: "terminal_failure loads other cli session stdout = Inr f \<Longrightarrow> f \<noteq> None \<Longrightarrow> cli \<noteq> ''codex''"
  by (auto simp: terminal_failure_def)

lemma account_run_ok:
  assumes "core p limit s" "nv_cli (rn_native s) = pl_cli p" "\<not> nv_closed (rn_native s)" "nv_invoked (rn_native s)"
    "tn_session t = nv_session_id (rn_native s)" "tn_session t = [] \<Longrightarrow> rn_active s = []"
    "protocol (rn_trace s) = Some (True, True)" "invocations (rn_trace s) = length (rn_turns s) + 1" "rn_handoff s = None"
    "rn_next s = None" "\<not> rn_retry_resume s" "int (length (rn_turns s)) + 1 = allowance s"
  shows "sound p limit (account_turn_of_run p i t limit s)"
proof -
  define active where "active = (if tn_session t \<noteq> [] then tn_session t else rn_active s)"
  have active: "nv_session_id (rn_native s) = active" using assms(5,6) by (auto simp: active_def)
  show ?thesis
  proof (cases "terminal_failure (pl_loads p) (pl_other p) (pl_cli p) active (tn_stdout t)")
    case (Inl e)
    have "ended p limit (s\<lparr>rn_active := active\<rparr>)" using assms by (simp add: run_defs)
    with Inl show ?thesis by (simp add: account_turn_of_run_def active_def [symmetric])
  next
    case (Inr f)
    define s1 where "s1 = s\<lparr>rn_active := active, rn_exit := (if f \<noteq> None \<and> tn_exit t = 0 then 1 else tn_exit t),
      rn_tokens := rn_tokens s + pl_policy p t,
      rn_turns := rn_turns s @ [\<lparr>tr_turn = t, tr_session = active, tr_purpose = rn_purpose s, tr_failure = f\<rparr>],
      rn_purpose := (if rn_purpose s = ''rate_limit_recovery'' \<and> \<not> failed_as f RateLimit then ''optimization'' else rn_purpose s)\<rparr>"
    define s2 where "s2 = accounted p t f active s"
    have s2_def': "s2 = (if pl_records p then s1\<lparr>rn_trace := rn_trace s1 @ [Usage_Recorded (rn_tokens s1)]\<rparr> else s1)"
      by (simp add: s2_def accounted_def s1_def Let_def)
    have t: "rn_tokens s1 = sum_list (spent p s1)" "spent p s1 = spent p s @ [pl_policy p t]" "rn_tokens s = sum_list (spent p s)"
      using assms(1) by (simp_all add: core_def spent_def s1_def)
    have b: "sum_list (take k (spent p s1)) < b" if "pl_budget p = Some b" "k < length (rn_turns s1)" for k b
    proof -
      from that(2) have k: "k < length (rn_turns s) + 1" by (simp add: s1_def)
      with assms(1,8) that(1) have "sum_list (take k (spent p s)) < b" by (simp add: core_def)
      with k show ?thesis by (simp add: t(2))
    qed
    have "core p limit s2"
      using assms(1,8) t b running_totals_snoc [of 0 "spent p s" "pl_policy p t"]
      by (auto simp: core_def s2_def') (auto simp: spent_def s1_def)
    moreover have "in_use p s2" "nv_invoked (rn_native s2)" "rn_next s2 = None" "\<not> rn_retry_resume s2"
      "int (length (rn_turns s2)) = allowance s2" "rn_turns s2 \<noteq> []"
      using assms active by (simp_all add: s2_def' s1_def in_use_def allowance_def)
    ultimately have turned: "turned p limit (s2\<lparr>rn_timed_out := b\<rparr>)" "ended p limit s2" for b
      by (simp_all add: run_defs)
    from judge_turn_ok [OF turned(1), of f] terminal_failure_cli [OF Inr] turned(2) show ?thesis
      by (simp add: account_turn_of_run_def active_def [symmetric] Inr s2_def [symmetric] split: option.split)
  qed
qed

lemma invoke_turn_ok:
  assumes "core p limit s" "in_use p s" "\<not> rn_retry_resume s" "int (length (rn_turns s)) + 1 = allowance s" "\<not> over_budget p s"
    "resume = nv_invoked (rn_native s)"
  shows "sound p limit (invoke_turn p i prompt resume limit s)"
proof -
  let ?trace = "rn_trace s @ [Invoked resume prompt]"
  have c: "core p limit (s\<lparr>rn_trace := ?trace\<rparr>)"
    using assms(1,2,5) by (auto simp: core_def spent_def in_use_def over_budget_def less_Suc_eq)
  obtain N r where r: "native_invoke (pl_loads p) ((rd_call i)\<lparr>nc_resume := resume, nc_environment :=
      (case rn_prefix s of Some x \<Rightarrow> if x \<noteq> [] then [(''ATREX_TELEMETRY_ATTEMPT_ID'', Some (x @ ''-'' @ int_string (int (rn_attempt s) + 1)))] else []
        | None \<Rightarrow> [])\<rparr>) (rn_native s) = (N, r)"
    by fastforce
  show ?thesis
  proof (cases r)
    case (Inl e)
    have "ended p limit (s\<lparr>rn_native := N, rn_trace := ?trace\<rparr>)"
      using assms c by (simp add: run_defs)
    with r Inl show ?thesis by (simp add: invoke_turn_def)
  next
    case (Inr t)
    let ?s = "s\<lparr>rn_native := N, rn_attempt := rn_attempt s + 1, rn_next := None, rn_trace := ?trace\<rparr>"
    note k = invoke_keeps [OF r [unfolded Inr]]
    have "sound p limit (account_turn_of_run p i t limit ?s)"
      by (rule account_run_ok) (use assms k c in \<open>auto simp: core_def spent_def in_use_def allowance_def\<close>)
    with r Inr show ?thesis by (simp add: invoke_turn_def)
  qed
qed

lemma session_round_ok:
  assumes "ready p limit s"
  shows "sound p limit (session_round p limit i s)"
proof -
  have e: "ended p limit s" "invocations (rn_trace s) = length (rn_turns s)"
    "ended p limit (s\<lparr>rn_timed_out := b, rn_exit := x, rn_diagnosis := d\<rparr>)" "ended p limit (s\<lparr>rn_diagnosis := d, rn_exit := x\<rparr>)"
    "ended p limit (s\<lparr>rn_diagnosis := d\<rparr>)" for b x d
    using assms by (auto simp: run_defs split: option.splits)
  show ?thesis
  proof (cases "rd_spent_before i \<or> rd_cancelled i \<or> over_budget p s")
    case True
    with e show ?thesis by (cases "rd_spent_before i"; cases "rd_cancelled i") (simp_all add: session_round_def)
  next
    case False
    show ?thesis
    proof (cases "rn_next s")
      case (Some prompt)
      have "sound p limit (invoke_turn p i prompt (rn_retry_resume s) limit (s\<lparr>rn_retry_resume := False\<rparr>))"
        by (rule invoke_turn_ok) (use assms False Some in \<open>auto simp: ready_def core_def spent_def in_use_def allowance_def over_budget_def split: option.splits\<close>)
      with False Some show ?thesis by (simp add: session_round_def)
    next
      case None
      let ?s = "s\<lparr>rn_resumes := rn_resumes s + 1, rn_purpose := ''handoff_resume''\<rparr>"
      have d: "rn_diagnosis s \<noteq> []" using assms None by (simp add: ready_def)
      have "sound p limit (invoke_turn p i (resume_text (rn_diagnosis s)) True limit ?s)" if "rn_resumes s < resume_limit p"
        by (rule invoke_turn_ok) (use assms False None that in \<open>auto simp: ready_def core_def spent_def in_use_def allowance_def over_budget_def split: option.splits\<close>)
      with False None d e show ?thesis by (simp add: session_round_def Let_def)
    qed
  qed
qed

lemma session_loop_ok: "ready p limit s \<Longrightarrow> sound p limit (session_loop p limit rounds s)"
proof (induction rounds arbitrary: s)
  case (Cons i rounds)
  with session_round_ok [OF Cons.prems, of i] show ?case by (cases "session_round p limit i s") simp_all
qed simp

lemma start_run_ready: "0 \<le> limit \<Longrightarrow> ready p limit (start_run p env fault requested)"
  by (simp add: run_defs start_run_def open_native_def resume_limit_def protocol_def invocations_def)

lemma retry_limit_nonneg: "retry_limit p = Some limit \<Longrightarrow> 0 \<le> limit"
  by (auto simp: retry_limit_def split: pyval.splits if_split_asm)

lemma closed_run:
  "ended p limit s \<Longrightarrow> ended p limit (close_run s) \<and> protocol (rn_trace (close_run s)) \<noteq> None \<and> last (rn_trace (close_run s)) = Closed_Session"
  by (auto simp: run_defs close_run_def)

section \<open>One turn a round\<close>

lemma turns_kept:
  "reopen p i prompt purpose s = Go_On s' \<Longrightarrow> rn_turns s' = rn_turns s"
  "rate_limited p i s = Go_On s' \<Longrightarrow> rn_turns s' = rn_turns s"
  "output_limited p i t limit s = Go_On s' \<Longrightarrow> rn_turns s' = rn_turns s"
proof -
  show reopen: "reopen p i prompt purpose s = Go_On s' \<Longrightarrow> rn_turns s' = rn_turns s" for prompt purpose s
    by (auto simp: reopen_def Let_def split: sum.splits)
  show "rate_limited p i s = Go_On s' \<Longrightarrow> rn_turns s' = rn_turns s"
    by (auto simp: rate_limited_def Let_def split: if_split_asm dest: reopen)
  show "output_limited p i t limit s = Go_On s' \<Longrightarrow> rn_turns s' = rn_turns s"
    by (auto simp: output_limited_def Let_def split: if_split_asm sum.splits dest: reopen)
qed

lemma after_turn_keeps: "after_turn p i t f limit s = Go_On s' \<Longrightarrow> rn_turns s' = rn_turns s"
  by (auto simp: after_turn_def Let_def split: if_split_asm dest: turns_kept)

lemma judge_keeps: "judge_turn p i t f limit s = Go_On s' \<Longrightarrow> rn_turns s' = rn_turns s"
  by (auto simp: judge_turn_def split: sum.splits option.splits if_split_asm dest: after_turn_keeps)

lemma accounted_turns: "length (rn_turns (accounted p t f active s)) = length (rn_turns s) + 1" "rn_handoff (accounted p t f active s) = rn_handoff s"
  by (simp_all add: accounted_def Let_def)

lemma account_one: "account_turn_of_run p i t limit s = Go_On s' \<Longrightarrow> length (rn_turns s') = length (rn_turns s) + 1"
  by (auto simp: account_turn_of_run_def Let_def accounted_turns split: sum.splits option.splits if_split_asm dest!: judge_keeps)

lemma round_one: "session_round p limit i s = Go_On s' \<Longrightarrow> length (rn_turns s') = length (rn_turns s) + 1"
  by (auto simp: session_round_def invoke_turn_def Let_def split: sum.splits option.splits if_split_asm prod.splits dest!: account_one)

lemma loop_turns: "session_loop p limit rounds s = Go_On s' \<Longrightarrow> length (rn_turns s') = length (rn_turns s) + length rounds"
proof (induction rounds arbitrary: s)
  case (Cons i rounds)
  then show ?case by (cases "session_round p limit i s") (auto dest!: round_one)
qed simp

section \<open>What ends a run\<close>

definition trusted :: "session_plan \<Rightarrow> round list \<Rightarrow> run \<Rightarrow> bool" where
  "trusted p rounds s \<longleftrightarrow>
     (case rn_handoff s of
        None \<Rightarrow> rn_diagnosis s \<noteq> []
      | Some h \<Rightarrow> rn_exit s = 0 \<and> \<not> rn_timed_out s \<and> rn_diagnosis s = []
          \<and> (\<exists>i\<in>set rounds. read_handoff (pl_loads p) (rd_file i) = Inr (Some h) \<and> rd_check i h = Inr []))"

lemma reopen_finish: "reopen p i prompt purpose s \<noteq> Finish s'" "rate_limited p i s \<noteq> Finish s'"
  by (auto simp: reopen_def rate_limited_def Let_def split: sum.splits)

lemma output_limit_text_nonempty: "output_limit_text n limit \<noteq> []"
  by (simp add: output_limit_text_def)

lemma output_finish: "output_limited p i t limit s = Finish s' \<Longrightarrow> rn_diagnosis s' \<noteq> [] \<and> rn_handoff s' = rn_handoff s"
  by (auto simp: output_limited_def Let_def reopen_finish output_limit_text_nonempty split: if_split_asm sum.splits)

lemma after_finish: "after_turn p i t f limit s = Finish s' \<Longrightarrow> rn_diagnosis s \<noteq> [] \<Longrightarrow> rn_diagnosis s' \<noteq> [] \<and> rn_handoff s' = rn_handoff s"
  by (auto simp: after_turn_def Let_def reopen_finish split: if_split_asm dest!: output_finish)

lemma judge_finish:
  assumes "judge_turn p i t f limit s = Finish s'" "rn_handoff s = None"
  shows "trusted p [i] s'"
  using assms diagnosis_nonempty
  by (auto simp: judge_turn_def trusted_def split: sum.splits option.splits if_split_asm dest!: after_finish)

lemma account_finish: "account_turn_of_run p i t limit s = Finish s' \<Longrightarrow> rn_handoff s = None \<Longrightarrow> trusted p [i] s'"
  by (auto simp: account_turn_of_run_def Let_def accounted_turns split: sum.splits option.splits if_split_asm dest!: judge_finish)

lemma invoke_finish: "invoke_turn p i prompt resume limit s = Finish s' \<Longrightarrow> rn_handoff s = None \<Longrightarrow> trusted p [i] s'"
  by (auto simp: invoke_turn_def Let_def split: prod.splits sum.splits option.splits if_split_asm dest!: account_finish)

lemma round_finish:
  assumes "session_round p limit i s = Finish s'" "ready p limit s"
  shows "trusted p [i] s'"
proof -
  have h: "rn_handoff s = None" using assms(2) by (simp add: ready_def in_use_def)
  have d: "rn_next s = None \<Longrightarrow> rn_diagnosis s \<noteq> []" using assms(2) by (simp add: ready_def)
  have plain: "trusted p [i] u" if "rn_handoff u = None" "rn_diagnosis u \<noteq> []" for u
    using that by (simp add: trusted_def)
  show ?thesis
    using assms(1) h d
    by (auto simp: session_round_def Let_def split: if_split_asm option.splits sum.splits intro!: plain dest!: invoke_finish)
qed

lemma trusted_more: "trusted p [i] s \<Longrightarrow> i \<in> set rounds \<Longrightarrow> trusted p rounds s"
  by (auto simp: trusted_def split: option.splits)

lemma loop_finish: "session_loop p limit rounds s = Finish s' \<Longrightarrow> ready p limit s \<Longrightarrow> trusted p rounds s'"
proof (induction rounds arbitrary: s)
  case (Cons i rounds)
  show ?case
  proof (cases "session_round p limit i s")
    case (Go_On s1)
    have "ready p limit s1" using session_round_ok [OF Cons.prems(2), of i] Go_On by simp
    with Cons Go_On have "trusted p rounds s'" by simp
    then show ?thesis by (auto simp: trusted_def split: option.splits)
  next
    case (Finish s1)
    with Cons.prems round_finish [OF Finish] show ?thesis by (auto intro: trusted_more)
  next
    case (Abort s1 e)
    with Cons.prems show ?thesis by simp
  qed
qed simp

lemma handoff_shape:
  "read_handoff loads file = Inr (Some h) \<Longrightarrow>
     ho_status h \<in> set handoff_statuses \<and> (ho_status h = ''candidate_ready'' \<longrightarrow> ho_candidate h \<noteq> [])"
  by (auto simp: read_handoff_def normalize_handoff_def type_among_def Let_def res_simps
    split: handoff_file.splits option.splits if_split_asm)

section \<open>The sessions are never refused\<close>

fun is_runtime_error :: "exn \<Rightarrow> bool" where
  "is_runtime_error (OtherException name text) = (name = ''RuntimeError'')"
| "is_runtime_error _ = False"

definition quiet_round :: "round \<Rightarrow> bool" where
  \<comment> \<open>the agent stays open and nothing the round meets raises a \<open>RuntimeError\<close>\<close>
  "quiet_round i \<longleftrightarrow> nc_open (rd_call i)
     \<and> (\<forall>e. nc_command (rd_call i) = Some e \<or> nc_answer (rd_call i) = Inl e \<or> nc_recorded (rd_call i) = Some e \<or> rd_recorded i = Some e
          \<or> rd_blocked i = Some e \<or> (\<exists>h. rd_check i h = Inl e) \<or> rd_open i = Inl e \<or> rd_recovery i = Inl e \<longrightarrow> \<not> is_runtime_error e)"

lemma quiet_raises:
  assumes "quiet_round i"
  shows "nc_command (rd_call i) = Some e \<Longrightarrow> \<not> is_runtime_error e" "nc_answer (rd_call i) = Inl e \<Longrightarrow> \<not> is_runtime_error e"
    "nc_recorded (rd_call i) = Some e \<Longrightarrow> \<not> is_runtime_error e" "rd_recorded i = Some e \<Longrightarrow> \<not> is_runtime_error e"
    "rd_blocked i = Some e \<Longrightarrow> \<not> is_runtime_error e" "rd_check i h = Inl e \<Longrightarrow> \<not> is_runtime_error e"
    "rd_open i = Inl e \<Longrightarrow> \<not> is_runtime_error e" "rd_recovery i = Inl e \<Longrightarrow> \<not> is_runtime_error e" "nc_open (rd_call i)"
  using assms unfolding quiet_round_def by blast+

definition refused :: "progress \<Rightarrow> bool" where
  "refused r = (case r of Abort s e \<Rightarrow> is_runtime_error e | _ \<Rightarrow> False)"

lemma fold_res_raises: "fold_res f s xs = Inl e \<Longrightarrow> (\<And>a x. f a x = Inl e \<Longrightarrow> P) \<Longrightarrow> P"
  by (induction xs arbitrary: s) (auto simp: res_simps)

lemma type_among_raises: "type_among d k names = Inl e \<Longrightarrow> \<not> is_runtime_error e"
  by (auto simp: type_among_def split: if_split_asm)

lemma terminal_raises: "terminal_usage_from_stream loads stdout = Inl e \<Longrightarrow> \<not> is_runtime_error e"
  by (auto simp: terminal_usage_from_stream_def res_simps terminal_event_def Let_def elim!: fold_res_raises dest: type_among_raises split: if_split_asm)

lemma map_sum_InlE: "map_sum id g x = Inl e \<Longrightarrow> (x = Inl e \<Longrightarrow> P) \<Longrightarrow> P"
  by (cases x) auto

lemma failure_raises: "terminal_failure loads other cli session stdout = Inl e \<Longrightarrow> \<not> is_runtime_error e"
  by (auto simp: terminal_failure_def classify_claude_def classify_pi_def claude_failure_def pi_failure_def iterated_def res_simps Let_def
    elim!: fold_res_raises map_sum_InlE dest: type_among_raises split: if_split_asm option.splits pyval.splits)

lemma handoff_raises: "read_handoff loads file = Inl e \<Longrightarrow> \<not> is_runtime_error e" "handoff_diagnosis loads other file = Inl e \<Longrightarrow> \<not> is_runtime_error e"
  by (auto simp: read_handoff_def normalize_handoff_def handoff_diagnosis_def res_simps Let_def dest: type_among_raises
    split: handoff_file.splits option.splits if_split_asm)

lemma account_raises: "account_turn loads disk stdout N = (N1, Inl e) \<Longrightarrow> \<not> is_runtime_error e"
proof -
  have n: "normalize_stream loads cli stdout thread disk observer = (observer', Inl e) \<Longrightarrow> \<not> is_runtime_error e" for cli thread observer observer'
    by (auto simp: normalize_stream_def Let_def dest: terminal_raises elim!: map_sum_InlE split: sum.splits option.splits if_split_asm prod.splits)
  show "account_turn loads disk stdout N = (N1, Inl e) \<Longrightarrow> \<not> is_runtime_error e"
    by (auto simp: account_turn_def Let_def dest: terminal_raises n elim!: map_sum_InlE split: sum.splits prod.splits if_split_asm)
qed

lemma environment_raises: "invocation_environment N overrides = Inl e \<Longrightarrow> \<not> is_runtime_error e"
  by (auto simp: invocation_environment_def Let_def split: list.splits)

lemma invoke_raises:
  assumes "native_invoke loads ((rd_call i)\<lparr>nc_resume := resume, nc_environment := env\<rparr>) N = (N1, Inl e)" "quiet_round i"
    "\<not> nv_closed N" "resume = nv_invoked N" "resume \<longrightarrow> supports_same_session_resume (nv_cli N) \<and> nv_session_id N \<noteq> []"
  shows "\<not> is_runtime_error e"
  using assms
  by (auto simp: native_invoke_def Let_def quiet_raises(9) dest: account_raises environment_raises quiet_raises(1-3)
    split: if_split_asm sum.splits option.splits prod.splits)

lemma reopen_refused: "quiet_round i \<Longrightarrow> \<not> refused (reopen p i prompt purpose s)"
  by (auto simp: reopen_def Let_def refused_def dest: quiet_raises split: sum.splits)

lemma refused_simps [simp]: "\<not> refused (Go_On s)" "\<not> refused (Finish s)" "refused (Abort s e) = is_runtime_error e"
  by (simp_all add: refused_def)

lemma plain_errors [simp]: "\<not> is_runtime_error (unavailable_error x)" "\<not> is_runtime_error (cancelled_error x)"
  by (simp_all add: unavailable_error_def cancelled_error_def)

lemma rate_limited_refused: "quiet_round i \<Longrightarrow> \<not> refused (rate_limited p i s)"
  by (simp add: rate_limited_def Let_def reopen_refused)

lemma output_limited_refused: "quiet_round i \<Longrightarrow> \<not> refused (output_limited p i t limit s)"
  by (auto simp: output_limited_def Let_def reopen_refused dest: quiet_raises split: sum.split)

lemma after_refused: "quiet_round i \<Longrightarrow> \<not> refused (after_turn p i t f limit s)"
  by (simp add: after_turn_def Let_def rate_limited_refused output_limited_refused)

lemma judge_refused: "quiet_round i \<Longrightarrow> \<not> refused (judge_turn p i t f limit s)"
  by (auto simp: judge_turn_def after_refused dest: handoff_raises quiet_raises split: sum.split option.split)

lemma account_refused: "quiet_round i \<Longrightarrow> \<not> refused (account_turn_of_run p i t limit s)"
  by (auto simp: account_turn_of_run_def Let_def judge_refused dest: failure_raises quiet_raises split: sum.split option.split)

lemma invoke_refused:
  assumes "quiet_round i" "\<not> nv_closed (rn_native s)" "resume = nv_invoked (rn_native s)"
    "resume \<longrightarrow> supports_same_session_resume (nv_cli (rn_native s)) \<and> nv_session_id (rn_native s) \<noteq> []"
  shows "\<not> refused (invoke_turn p i prompt resume limit s)"
  using assms(1) invoke_raises [OF _ assms]
  by (auto simp: invoke_turn_def Let_def account_refused split: prod.splits sum.splits)

lemma round_refused:
  assumes "ready p limit s" "quiet_round i"
  shows "\<not> refused (session_round p limit i s)"
proof (cases "rn_next s")
  case (Some prompt)
  have "\<not> refused (invoke_turn p i prompt (rn_retry_resume s) limit (s\<lparr>rn_retry_resume := False\<rparr>))"
    by (rule invoke_refused) (use assms Some in \<open>auto simp: ready_def in_use_def\<close>)
  with Some show ?thesis by (simp add: session_round_def)
next
  case None
  with assms have r: "rn_diagnosis s \<noteq> []" "\<not> nv_closed (rn_native s)" "nv_invoked (rn_native s)" "nv_cli (rn_native s) = pl_cli p"
    "nv_session_id (rn_native s) = rn_active s"
    by (auto simp: ready_def in_use_def)
  have "\<not> refused (invoke_turn p i x True limit (s\<lparr>rn_resumes := n, rn_purpose := q\<rparr>))"
    if "supports_same_session_resume (pl_cli p)" "rn_active s \<noteq> []" for x n q
    by (rule invoke_refused) (use assms(2) r that in auto)
  with None r show ?thesis by (simp add: session_round_def Let_def)
qed

lemma loop_refused: "ready p limit s \<Longrightarrow> \<forall>i\<in>set rounds. quiet_round i \<Longrightarrow> \<not> refused (session_loop p limit rounds s)"
proof (induction rounds arbitrary: s)
  case (Cons i rounds)
  with session_round_ok [OF Cons.prems(1), of i] round_refused [OF Cons.prems(1), of i] show ?case
    by (cases "session_round p limit i s") auto
qed simp

lemma loop_over:
  assumes "ready p limit s" "session_loop p limit rounds s = Go_On s'" "rn_turns s = []"
  shows "int (length rounds) \<le> 1 + resume_limit p + limit + int (rn_rate_retries s')"
proof -
  have "ready p limit s'" using session_loop_ok [OF assms(1), of rounds] assms(2) by simp
  with loop_turns [OF assms(2)] assms(3) show ?thesis by (auto simp: run_defs split: option.splits)
qed

lemma run_cases:
  assumes "run_session p requested opened rounds = (Some s, outcome)"
  obtains limit env err where "retry_limit p = Some limit" "ready p limit (start_run p env err requested)"
    "case session_loop p limit rounds (start_run p env err requested) of
       Go_On s1 \<Rightarrow> s = s1 \<and> outcome = None
     | Finish s1 \<Rightarrow> s = close_run s1 \<and> outcome = Some (Inr (result_of requested s1))
     | Abort s1 e \<Rightarrow> s = close_run s1 \<and> outcome = Some (Inl e)"
    "rn_turns (start_run p env err requested) = []"
proof -
  obtain limit env err where l: "retry_limit p = Some limit" "opened = Inr (env, err)"
    using assms by (auto simp: run_session_def split: option.splits sum.splits)
  show ?thesis
  proof (rule that [OF l(1)])
    show "ready p limit (start_run p env err requested)" by (rule start_run_ready [OF retry_limit_nonneg [OF l(1)]])
    show "case session_loop p limit rounds (start_run p env err requested) of
       Go_On s1 \<Rightarrow> s = s1 \<and> outcome = None
     | Finish s1 \<Rightarrow> s = close_run s1 \<and> outcome = Some (Inr (result_of requested s1))
     | Abort s1 e \<Rightarrow> s = close_run s1 \<and> outcome = Some (Inl e)"
      using assms l by (auto simp: run_session_def split: progress.splits)
  qed (simp add: start_run_def)
qed

lemma run_returned:
  assumes "run_session p requested opened rounds = (state, Some (Inr r))"
  shows "\<exists>limit env err s1. ready p limit (start_run p env err requested)
    \<and> session_loop p limit rounds (start_run p env err requested) = Finish s1 \<and> r = result_of requested s1"
proof -
  obtain limit env err where l: "retry_limit p = Some limit" "opened = Inr (env, err)"
    using assms by (auto simp: run_session_def split: option.splits sum.splits)
  with assms start_run_ready [OF retry_limit_nonneg [OF l(1)]] show ?thesis
    by (fastforce simp: run_session_def split: progress.splits)
qed

lemma run_trusted:
  assumes "run_session p requested opened rounds = (state, Some (Inr r))"
  shows "\<exists>s1. r = result_of requested s1 \<and> trusted p rounds s1"
proof -
  obtain limit env err s1 where l: "ready p limit (start_run p env err requested)"
    "session_loop p limit rounds (start_run p env err requested) = Finish s1" "r = result_of requested s1"
    using run_returned [OF assms] by metis
  from loop_finish [OF l(2,1)] l(3) show ?thesis by blast
qed

lemma ready_ended: "ready p limit s \<Longrightarrow> ended p limit s"
  by (auto simp: run_defs split: option.splits)

lemma run_ended:
  assumes "run_session p requested opened rounds = (Some s, outcome)"
  obtains limit where "retry_limit p = Some limit" "ended p limit s"
proof -
  obtain limit env err where l: "retry_limit p = Some limit" "ready p limit (start_run p env err requested)"
    "case session_loop p limit rounds (start_run p env err requested) of
       Go_On s1 \<Rightarrow> s = s1 \<and> outcome = None
     | Finish s1 \<Rightarrow> s = close_run s1 \<and> outcome = Some (Inr (result_of requested s1))
     | Abort s1 e \<Rightarrow> s = close_run s1 \<and> outcome = Some (Inl e)"
    by (rule run_cases [OF assms])
  have "ended p limit s"
    using session_loop_ok [OF l(2), of rounds] l(3) ready_ended closed_run by (auto split: progress.splits)
  with l(1) show ?thesis by (rule that)
qed

lemma returned_run:
  assumes "run_session p requested opened rounds = (Some s, Some (Inr r))"
  shows "sr_tokens r = rn_tokens s" "sr_turns r = rn_turns s"
  using assms by (auto simp: run_session_def result_of_def close_run_def split: option.splits sum.splits progress.splits)

section \<open>A demonstration\<close>

definition demo_plan :: session_plan where
  "demo_plan = \<lparr>pl_loads = (\<lambda>text. Some (VDict [(''status'', VStr ''pivot'')])), pl_other = (\<lambda>v. []), pl_cli = ''claude'', pl_prompt = ''go'',
     pl_resumes = 1, pl_budget = Some 9, pl_retries = VInt 2, pl_policy = (\<lambda>t. 5), pl_records = True\<rparr>"

definition demo_turn_round :: "handoff_file \<Rightarrow> round" where
  "demo_turn_round file = \<lparr>rd_spent_before = False, rd_cancelled = False, rd_draft = Missing,
     rd_call = \<lparr>nc_open = True, nc_resume = False, nc_environment = [], nc_command = None,
       nc_answer = Inr \<lparr>pa_stdout = [], pa_stderr = [], pa_exit = 0, pa_timed_out = False\<rparr>,
       nc_disk = \<lparr>ro_search = (\<lambda>thread. None), ro_lines = (\<lambda>path. []), ro_meta = []\<rparr>, nc_recorded = None\<rparr>,
     rd_recorded = None, rd_blocked = None, rd_file = file, rd_check = (\<lambda>h. Inr []), rd_spent = False, rd_woken = False,
     rd_id = ''b'', rd_open = Inr ([], None), rd_recovery = Inr ''again''\<rparr>"

lemma demo_invoke:
  assumes "nv_cli N = ''claude''" "\<not> nv_closed N" "nv_environment N = []" "nv_home N = []" "nv_observer N = None" "nv_setup_errors N = []"
    "nv_requested N = ''a''" "nv_session_id N = ''a''" "resume = nv_invoked N" "\<not> nv_ledger_usable N" "nv_stdout_usage N = None"
  shows "\<exists>t. native_invoke loads ((rd_call (demo_turn_round file))\<lparr>nc_resume := resume, nc_environment := []\<rparr>) N = (N\<lparr>nv_invoked := True\<rparr>, Inr t)
    \<and> tn_exit t = 0 \<and> tn_session t = ''a'' \<and> tn_stdout t = [] \<and> \<not> tn_timed_out t
    \<and> tu_total (ev_usage (tn_evidence t)) = None"
proof -
  have "normalize_light True [] loads [] = Inr ([], unavailable)"
    by (simp add: normalize_light_def json_events_def map_filter_def conclude_stream_def empty_stream_def partial_if_known_def
      sum_token_usages_def unavailable_def deltas_of_def)
  with assms show ?thesis
    by (simp add: native_invoke_def demo_turn_round_def invocation_environment_def home_binding_keys_def session_id_from_stream_def
      account_turn_def normalize_stream_def light_adapter_def supports_same_session_resume_def remember_stdout_def unavailable_def Let_def)
qed

lemma demo_failure: "terminal_failure loads other ''claude'' session [] = Inr None"
  by (simp add: terminal_failure_def classify_claude_def json_events_def map_filter_def)

definition demo_rounds :: "round list" where
  "demo_rounds = [demo_turn_round Missing, demo_turn_round (Content ''x'')]"

lemma demo_run_of:
  assumes "pl_cli p = ''claude''" "pl_records p" "resume_limit p \<ge> 1" "retry_limit p \<noteq> None" "pl_loads p = pl_loads demo_plan"
    and budget: "\<And>s t. rn_tokens s \<in> {0, pl_policy p t} \<Longrightarrow> \<not> over_budget p s"
  shows "\<exists>s r. run_session p ''a'' (Inr ([], None)) demo_rounds = (Some s, Some (Inr r)) \<and> sr_resumes r = 1
    \<and> sr_handoff r = Some \<lparr>ho_status = ''pivot'', ho_candidate = [], ho_trial = []\<rparr> \<and> length (sr_turns r) = 2 \<and> sr_turns r = rn_turns s
    \<and> (\<forall>t\<in>set (sr_turns r). tu_total (ev_usage (tn_evidence (tr_turn t))) = None)"
proof -
  obtain limit where limit: "retry_limit p = Some limit" using assms(4) by blast
  let ?N = "open_native ''claude'' [] None ''a''"
  let ?s = "start_run p [] None ''a''"
  obtain t where t: "native_invoke (pl_loads p) ((rd_call (demo_turn_round Missing))\<lparr>nc_resume := False, nc_environment := []\<rparr>) ?N =
      (?N\<lparr>nv_invoked := True\<rparr>, Inr t)" "tn_exit t = 0" "tn_session t = ''a''" "tn_stdout t = []" "\<not> tn_timed_out t" "tu_total (ev_usage (tn_evidence t)) = None"
    using demo_invoke [of ?N False "pl_loads p" Missing] by (auto simp: open_native_def)
  obtain u where u: "native_invoke (pl_loads p) ((rd_call (demo_turn_round (Content ''x'')))\<lparr>nc_resume := True, nc_environment := []\<rparr>)
      (?N\<lparr>nv_invoked := True\<rparr>) = (?N\<lparr>nv_invoked := True\<rparr>, Inr u)" "tn_exit u = 0" "tn_session u = ''a''" "tn_stdout u = []" "\<not> tn_timed_out u" "tu_total (ev_usage (tn_evidence u)) = None"
    using demo_invoke [of "?N\<lparr>nv_invoked := True\<rparr>" True "pl_loads p" "Content ''x''"] by (auto simp: open_native_def)
  have h: "read_handoff (pl_loads p) (Content ''x'') = Inr (Some \<lparr>ho_status = ''pivot'', ho_candidate = [], ho_trial = []\<rparr>)"
    "read_handoff loads Missing = Inr None" "handoff_diagnosis loads other Missing = Inr ''handoff file is missing''" for loads other
    by (simp_all add: assms(5) demo_plan_def read_handoff_def handoff_diagnosis_def normalize_handoff_def type_among_def get_item_def
      dict_get_default_def handoff_statuses_def Let_def py_strip_def)
  note p = assms(1,2)
  have i: "rd_spent_before (demo_turn_round f) = False" "rd_cancelled (demo_turn_round f) = False" "rd_recorded (demo_turn_round f) = None"
    "rd_blocked (demo_turn_round f) = None" "rd_file (demo_turn_round f) = f" "rd_check (demo_turn_round f) = (\<lambda>h. Inr [])" for f
    by (simp_all add: demo_turn_round_def)
  let ?s1 = "(accounted p t None ''a'' (?s\<lparr>rn_retry_resume := False, rn_native := ?N\<lparr>nv_invoked := True\<rparr>, rn_attempt := 1, rn_next := None,
      rn_trace := rn_trace ?s @ [Invoked False (pl_prompt p)]\<rparr>))\<lparr>rn_timed_out := False, rn_diagnosis := ''handoff file is missing''\<rparr>"
  have "rn_native ?s = ?N" "rn_prefix ?s = None" "rn_tokens ?s = 0" "rn_next ?s = Some (pl_prompt p)" "\<not> rn_retry_resume ?s"
    "rn_attempt ?s = 0" "\<not> over_budget p ?s"
    by (simp_all add: start_run_def p budget)
  then have one: "session_round p limit (demo_turn_round Missing) ?s = Go_On ?s1"
    using t by (simp add: session_round_def i p invoke_turn_def account_turn_of_run_def demo_failure judge_turn_def h
      after_turn_def failed_as_def Let_def) (simp add: accounted_def p Let_def)
  have "\<not> over_budget p ?s1" by (rule budget [of _ t]) (simp add: accounted_def Let_def start_run_def p)
  moreover have "rn_native ?s1 = ?N\<lparr>nv_invoked := True\<rparr>" "rn_prefix ?s1 = None" "rn_next ?s1 = None" "rn_resumes ?s1 = 0"
    "rn_active ?s1 = ''a''" "length (rn_turns ?s1) = 1" "rn_diagnosis ?s1 \<noteq> []" "rn_turns ?s1 = [\<lparr>tr_turn = t, tr_session = ''a'', tr_purpose = ''optimization'', tr_failure = None\<rparr>]"
    by (simp_all add: accounted_def Let_def p start_run_def)
  ultimately have "\<exists>s2. session_round p limit (demo_turn_round (Content ''x'')) ?s1 = Finish s2 \<and> rn_resumes s2 = 1 \<and> length (rn_turns s2) = 2
      \<and> (\<forall>t\<in>set (rn_turns s2). tu_total (ev_usage (tn_evidence (tr_turn t))) = None) \<and> rn_handoff s2 = Some \<lparr>ho_status = ''pivot'', ho_candidate = [], ho_trial = []\<rparr>"
    using u t assms(3) by (simp add: session_round_def i p invoke_turn_def account_turn_of_run_def demo_failure judge_turn_def h
      supports_same_session_resume_def Let_def) (simp add: accounted_def p Let_def)
  then obtain s2 where two: "session_round p limit (demo_turn_round (Content ''x'')) ?s1 = Finish s2" "rn_resumes s2 = 1" "length (rn_turns s2) = 2"
      "\<forall>t\<in>set (rn_turns s2). tu_total (ev_usage (tn_evidence (tr_turn t))) = None" "rn_handoff s2 = Some \<lparr>ho_status = ''pivot'', ho_candidate = [], ho_trial = []\<rparr>" by blast
  have "session_loop p limit demo_rounds ?s = Finish s2" unfolding demo_rounds_def session_loop.simps one progress.case two(1) ..
  then show ?thesis by (simp add: run_session_def limit result_of_def two close_run_def)
qed

lemma demo_run: "\<exists>s r. run_session demo_plan ''a'' (Inr ([], None)) demo_rounds = (Some s, Some (Inr r)) \<and> sr_resumes r = 1
    \<and> sr_handoff r = Some \<lparr>ho_status = ''pivot'', ho_candidate = [], ho_trial = []\<rparr> \<and> length (sr_turns r) = 2 \<and> sr_turns r = rn_turns s
    \<and> pl_policy demo_plan = (\<lambda>t. 5)"
proof -
  have "pl_cli demo_plan = ''claude''" "pl_records demo_plan" "resume_limit demo_plan \<ge> 1" "retry_limit demo_plan \<noteq> None" "pl_policy demo_plan = (\<lambda>t. 5)"
    by (simp_all add: demo_plan_def resume_limit_def retry_limit_def)
  moreover have "\<not> over_budget demo_plan s" if "rn_tokens s \<in> {0, pl_policy demo_plan t}" for s t
    using that by (auto simp: over_budget_def demo_plan_def)
  ultimately show ?thesis using demo_run_of [of demo_plan] by auto
qed

section \<open>Properties\<close>

text \<open>
  C8: However a session runs and ends, by a handoff, a limit or an exception, the tokens it has counted are the sum of what its
  usage policy counts for each turn, the totals it has recorded are the running totals of that sum, and at most one
  invocation, one that raised before it was accounted, has no turn; when it returns, every invocation has its turn.
\<close>

theorem long_session_accounts:
  assumes "run_session p requested opened rounds = (Some s, outcome)"
  shows "rn_tokens s = sum_list (spent p s)
    \<and> recorded_totals (rn_trace s) = (if pl_records p then running_totals 0 (spent p s) else [])
    \<and> length (rn_turns s) \<le> invocations (rn_trace s) \<and> invocations (rn_trace s) \<le> length (rn_turns s) + 1
    \<and> (\<forall>r. outcome = Some (Inr r) \<longrightarrow>
         sr_tokens r = sum_list (map (\<lambda>t. pl_policy p (tr_turn t)) (sr_turns r)) \<and> length (sr_turns r) = invocations (rn_trace s))"
proof -
  obtain limit env err where l: "ready p limit (start_run p env err requested)"
    "case session_loop p limit rounds (start_run p env err requested) of
       Go_On s1 \<Rightarrow> s = s1 \<and> outcome = None
     | Finish s1 \<Rightarrow> s = close_run s1 \<and> outcome = Some (Inr (result_of requested s1))
     | Abort s1 e \<Rightarrow> s = close_run s1 \<and> outcome = Some (Inl e)"
    by (rule run_cases [OF assms])
  obtain limit' where e: "ended p limit' s" by (rule run_ended [OF assms])
  have "sr_tokens r = sum_list (map (\<lambda>t. pl_policy p (tr_turn t)) (sr_turns r)) \<and> length (sr_turns r) = invocations (rn_trace s)"
    if "outcome = Some (Inr r)" for r
    using session_loop_ok [OF l(1), of rounds] l(2) that
    by (auto simp: result_of_def close_run_def ended_def core_def spent_def split: progress.splits)
  with e show ?thesis by (simp add: ended_def core_def)
qed

theorem long_session_accounts_witness:
  "\<exists>s r. run_session demo_plan ''a'' (Inr ([], None)) demo_rounds = (Some s, Some (Inr r)) \<and> sr_tokens r = 10
    \<and> invocations (rn_trace s) = 2 \<and> rn_tokens s = sum_list (spent demo_plan s)"
proof -
  obtain s r where d: "run_session demo_plan ''a'' (Inr ([], None)) demo_rounds = (Some s, Some (Inr r))" "length (sr_turns r) = 2"
    "pl_policy demo_plan = (\<lambda>t. 5)"
    using demo_run by blast
  from long_session_accounts [OF d(1)] d(2,3) have "sr_tokens r = 10" "invocations (rn_trace s) = 2" "rn_tokens s = sum_list (spent demo_plan s)"
    by (simp_all add: map_replicate_const sum_list_replicate)
  with d(1) show ?thesis by blast
qed

text \<open>
  C9: A session never reports a handoff it was not given: a result with a handoff is a success with no diagnosis, and the
  handoff is the one some turn left in the handoff file, of a terminal status, naming its candidate when it reports one, and
  accepted by the check of the episode's contract; a result without one always says why.
\<close>

theorem handoff_trusted:
  assumes "run_session p requested opened rounds = (state, Some (Inr r))"
  shows "case sr_handoff r of
           None \<Rightarrow> sr_diagnosis r \<noteq> []
         | Some h \<Rightarrow> sr_exit r = 0 \<and> \<not> sr_timed_out r \<and> sr_diagnosis r = [] \<and> ho_status h \<in> set handoff_statuses
             \<and> (ho_status h = ''candidate_ready'' \<longrightarrow> ho_candidate h \<noteq> [])
             \<and> (\<exists>i\<in>set rounds. read_handoff (pl_loads p) (rd_file i) = Inr (Some h) \<and> rd_check i h = Inr [])"
proof -
  obtain s1 where "r = result_of requested s1" "trusted p rounds s1" using run_trusted [OF assms] by blast
  then show ?thesis by (auto simp: trusted_def result_of_def split: option.splits dest: handoff_shape)
qed

theorem handoff_trusted_witness:
  "\<exists>s r. run_session demo_plan ''a'' (Inr ([], None)) demo_rounds = (Some s, Some (Inr r)) \<and> sr_exit r = 0
    \<and> sr_handoff r = Some \<lparr>ho_status = ''pivot'', ho_candidate = [], ho_trial = []\<rparr>"
proof -
  obtain s r where d: "run_session demo_plan ''a'' (Inr ([], None)) demo_rounds = (Some s, Some (Inr r))"
    "sr_handoff r = Some \<lparr>ho_status = ''pivot'', ho_candidate = [], ho_trial = []\<rparr>"
    using demo_run by blast
  from handoff_trusted [OF d(1)] d(2) have "sr_exit r = 0" by simp
  with d show ?thesis by blast
qed

text \<open>
  C15: A session is bounded: it resumes for a handoff at most as often as it was told to, recovers from the output limit at most as
  often as it was told to, and makes one invocation beyond these and the retries of rate limits; every invocation was started
  below the token budget; so a session that has not ended has gone through no more rounds than that.
\<close>

theorem session_bounded:
  assumes "run_session p requested opened rounds = (Some s, outcome)"
  shows "\<exists>limit. retry_limit p = Some limit \<and> rn_resumes s \<le> max 0 (pl_resumes p) \<and> rn_recoveries s \<le> limit
    \<and> int (invocations (rn_trace s)) \<le> 1 + rn_resumes s + rn_recoveries s + int (rn_rate_retries s)
    \<and> (\<forall>b. pl_budget p = Some b \<longrightarrow> (\<forall>k < invocations (rn_trace s). sum_list (take k (spent p s)) < b))
    \<and> (outcome = None \<longrightarrow> int (length rounds) \<le> 1 + max 0 (pl_resumes p) + limit + int (rn_rate_retries s))"
proof -
  obtain limit env err where l: "retry_limit p = Some limit" "ready p limit (start_run p env err requested)"
    "case session_loop p limit rounds (start_run p env err requested) of
       Go_On s1 \<Rightarrow> s = s1 \<and> outcome = None
     | Finish s1 \<Rightarrow> s = close_run s1 \<and> outcome = Some (Inr (result_of requested s1))
     | Abort s1 e \<Rightarrow> s = close_run s1 \<and> outcome = Some (Inl e)"
    "rn_turns (start_run p env err requested) = []"
    by (rule run_cases [OF assms])
  have e: "ended p limit s" by (rule run_ended [OF assms]) (use l(1) in simp)
  have "int (length rounds) \<le> 1 + max 0 (pl_resumes p) + limit + int (rn_rate_retries s)" if "outcome = None"
    using loop_over [OF l(2) _ l(4), of rounds] l(3) that by (auto simp: resume_limit_def split: progress.splits)
  with l(1) e show ?thesis by (simp add: ended_def core_def allowance_def resume_limit_def)
qed

theorem session_bounded_witness:
  "\<exists>s outcome. run_session demo_plan ''a'' (Inr ([], None)) demo_rounds = (Some s, outcome) \<and> rn_resumes s \<le> 1
    \<and> (\<forall>k < invocations (rn_trace s). sum_list (take k (spent demo_plan s)) < 9)"
proof -
  obtain s r where d: "run_session demo_plan ''a'' (Inr ([], None)) demo_rounds = (Some s, Some (Inr r))"
    using demo_run by blast
  have "pl_resumes demo_plan = 1" "pl_budget demo_plan = Some 9" by (simp_all add: demo_plan_def)
  with session_bounded [OF d] have "rn_resumes s \<le> 1 \<and> (\<forall>k < invocations (rn_trace s). sum_list (take k (spent demo_plan s)) < 9)" by auto
  with d show ?thesis by blast
qed

text \<open>
  C17: The native sessions are used as they must be: a session is opened only when none is open, its first turn does not resume
  and every later turn does, usage is recorded only after a turn, and a run that has ended, in any way, has closed its session.
  So unless something the rounds meet raises a \<open>RuntimeError\<close> itself, or closes the agent, a run never ends in the
  \<open>RuntimeError\<close> that a session raises when it is used out of order.
\<close>

theorem session_protocol:
  assumes "run_session p requested opened rounds = (Some s, outcome)"
  shows "protocol (rn_trace s) \<noteq> None \<and> (outcome \<noteq> None \<longrightarrow> last (rn_trace s) = Closed_Session)
    \<and> ((\<forall>i\<in>set rounds. quiet_round i) \<longrightarrow> (\<forall>e. outcome = Some (Inl e) \<longrightarrow> \<not> is_runtime_error e))"
proof -
  obtain limit env err where l: "ready p limit (start_run p env err requested)"
    "case session_loop p limit rounds (start_run p env err requested) of
       Go_On s1 \<Rightarrow> s = s1 \<and> outcome = None
     | Finish s1 \<Rightarrow> s = close_run s1 \<and> outcome = Some (Inr (result_of requested s1))
     | Abort s1 e \<Rightarrow> s = close_run s1 \<and> outcome = Some (Inl e)"
    by (rule run_cases [OF assms])
  obtain limit' where e: "ended p limit' s" by (rule run_ended [OF assms])
  have "outcome \<noteq> None \<longrightarrow> last (rn_trace s) = Closed_Session"
    using l(2) by (auto simp: close_run_def split: progress.splits)
  moreover have "\<not> is_runtime_error x" if "\<forall>i\<in>set rounds. quiet_round i" "outcome = Some (Inl x)" for x
    using loop_refused [OF l(1) that(1)] l(2) that(2) by (auto split: progress.splits)
  ultimately show ?thesis using e by (simp add: ended_def)
qed

theorem session_protocol_witness:
  "\<exists>s r. run_session demo_plan ''a'' (Inr ([], None)) demo_rounds = (Some s, Some (Inr r)) \<and> last (rn_trace s) = Closed_Session
    \<and> protocol (rn_trace s) \<noteq> None"
proof -
  obtain s r where d: "run_session demo_plan ''a'' (Inr ([], None)) demo_rounds = (Some s, Some (Inr r))"
    using demo_run by blast
  from session_protocol [OF d] d show ?thesis by blast
qed

end
