(* ===== verification/Supervision.thy ===== *)
theory Supervision
  imports LongSession
begin

text \<open>
  The supervisor of a campaign: \<open>LongHorizonCampaign\<close> of src/src/aka/light/workflow/episode.py with \<open>CampaignStore\<close> of
  src/src/aka/light/workflow/store.py and \<open>SupervisorState\<close> of models.py.  A process recovers what the last one left behind
  and runs episodes; what it does to the disk is a list of writes, each of them atomic, and a process that is killed, or
  in which a write raises, has made a prefix of them.  What an episode meets (its session, the checks and the
  verification of its candidate) is input.  A commit is named by its place in the history after the baseline.
\<close>

section \<open>The disk\<close>

datatype commit =
    Promotion int int            \<comment> \<open>an episode, with the version of the record it commits\<close>
  | Outcome int int string       \<comment> \<open>a version, its episode and its status\<close>

record episode_attempt =
  \<comment> \<open>the fields that describe the candidate, its telemetry and its verification are left out\<close>
  at_episode :: int
  at_version :: int
  at_mode :: string
  at_status :: string
  at_accepted :: bool
  at_violation :: "string option"
  at_candidate :: "string option"
  at_base :: nat
  at_branch :: string
  at_commit :: nat                  \<comment> \<open>\<open>promotion_commit\<close> or \<open>outcome_commit\<close>\<close>
  at_tokens :: int
  at_retry :: bool                  \<comment> \<open>\<open>blocked_retry_scheduled\<close>\<close>
  at_recovered :: bool

record supervisor =
  su_episodes :: int
  su_accepted :: int
  su_rejected :: int
  su_pivoted :: int
  su_blocked :: int
  su_protocol_failures :: int
  su_interrupted :: int
  su_tokens :: int
  su_receipts :: "int dict"
  su_stall :: int                   \<comment> \<open>\<open>consecutive_without_promotion\<close>\<close>
  su_attempts :: "episode_attempt list"

definition new_supervisor :: supervisor where
  "new_supervisor = \<lparr>su_episodes = 0, su_accepted = 0, su_rejected = 0, su_pivoted = 0, su_blocked = 0, su_protocol_failures = 0,
     su_interrupted = 0, su_tokens = 0, su_receipts = [], su_stall = 0, su_attempts = []\<rparr>"

record active_episode =
  \<comment> \<open>\<open>active_episode.json\<close>\<close>
  ck_episode :: int
  ck_version :: int
  ck_base :: nat
  ck_branch :: string
  ck_path :: string
  ck_mode :: string
  ck_phase :: string
  ck_terminal :: string             \<comment> \<open>\<open>terminal_status\<close>, empty if there is none\<close>
  ck_from :: string                 \<comment> \<open>\<open>resumed_from_phase\<close>\<close>
  ck_restarts :: int

datatype record_file =
    No_Record | Written | Staged    \<comment> \<open>a version record that is not committed: written, and added to the index\<close>

record disk =
  dk_log :: "commit list"           \<comment> \<open>the commits of the campaign's branch, oldest first\<close>
  dk_squash :: "string option"      \<comment> \<open>the candidate that is squashed, uncommitted, into the incumbent's worktree\<close>
  dk_record :: record_file
  dk_active :: "active_episode option"
  dk_state :: "supervisor option"
  dk_stall :: "int option"
  dk_trees :: "string list"         \<comment> \<open>the registered worktrees\<close>

datatype disk_write =
    Save_Active active_episode | Clear_Active | Save_State supervisor | Save_Stall int
  | Start_Squash string | Write_Record | Stage_Record | Reset_Workspace | Commit commit | Add_Tree string | Remove_Tree string

fun write_disk :: "disk_write \<Rightarrow> disk \<Rightarrow> disk" where
  "write_disk (Save_Active a) d = d\<lparr>dk_active := Some a\<rparr>"
| "write_disk Clear_Active d = d\<lparr>dk_active := None\<rparr>"
| "write_disk (Save_State s) d = d\<lparr>dk_state := Some s\<rparr>"
| "write_disk (Save_Stall n) d = d\<lparr>dk_stall := Some n\<rparr>"
| "write_disk (Start_Squash candidate) d = d\<lparr>dk_squash := Some candidate\<rparr>"
| "write_disk Write_Record d = d\<lparr>dk_record := (if dk_record d = Staged then Staged else Written)\<rparr>"
| "write_disk Stage_Record d = d\<lparr>dk_record := Staged\<rparr>"
| "write_disk Reset_Workspace d = d\<lparr>dk_squash := None, dk_record := (if dk_record d = Staged then No_Record else dk_record d)\<rparr>"
| "write_disk (Commit c) d = d\<lparr>dk_log := dk_log d @ [c], dk_record := No_Record,
     dk_squash := (case c of Promotion e v \<Rightarrow> None | _ \<Rightarrow> dk_squash d)\<rparr>"
| "write_disk (Add_Tree path) d = d\<lparr>dk_trees := path # dk_trees d\<rparr>"
| "write_disk (Remove_Tree path) d = d\<lparr>dk_trees := filter (\<lambda>p. p \<noteq> path) (dk_trees d)\<rparr>"

definition write_all :: "disk_write list \<Rightarrow> disk \<Rightarrow> disk" where
  "write_all ws d = foldl (\<lambda>d w. write_disk w d) d ws"

definition revision :: "disk \<Rightarrow> nat" where
  "revision d = length (dk_log d)"

definition dirty :: "disk \<Rightarrow> bool" where
  \<comment> \<open>\<open>working_changes\<close>, which lists untracked files too\<close>
  "dirty d = (dk_squash d \<noteq> None \<or> dk_record d \<noteq> No_Record)"

definition load_state :: "disk \<Rightarrow> supervisor" where
  "load_state d = (case dk_state d of Some s \<Rightarrow> s | None \<Rightarrow> new_supervisor)"

section \<open>Usage\<close>

definition record_usage :: "supervisor \<Rightarrow> string \<Rightarrow> int \<Rightarrow> supervisor" where
  "record_usage s receipt n =
     (let previous = dict_get_default (su_receipts s) receipt 0; observed = max previous (max 0 n) in
      s\<lparr>su_tokens := su_tokens s + (observed - previous), su_receipts := dict_set (su_receipts s) receipt observed\<rparr>)"

fun usage_writes :: "string \<Rightarrow> int list \<Rightarrow> supervisor \<Rightarrow> disk_write list \<times> supervisor" where
  "usage_writes receipt [] s = ([], s)"
| "usage_writes receipt (n # ns) s =
     (let s1 = record_usage s receipt n; (ws, s2) = usage_writes receipt ns s1 in (Save_State s1 # ws, s2))"

section \<open>What a campaign and an episode meet\<close>

record long_campaign =
  ca_goal :: bool                   \<comment> \<open>\<open>goal_episodes\<close>\<close>
  ca_max_version :: "int option"
  ca_max_episodes :: int
  ca_episode_limit :: int
  ca_token_budget :: int
  ca_resumes :: int                 \<comment> \<open>\<open>handoff_resumes\<close>\<close>
  ca_max_stall :: int
  ca_converts :: bool               \<comment> \<open>\<open>source_checks_enabled\<close>, for a framework of the Triton family\<close>
  ca_convert_after :: int

record trial =
  \<comment> \<open>what the judgement of a candidate meets\<close>
  tl_diagnosis :: "handoff \<Rightarrow> string"   \<comment> \<open>of the completion check\<close>
  tl_violation :: "string \<Rightarrow> string"    \<comment> \<open>of \<open>validate_candidate\<close>, for a commit\<close>
  tl_gluon :: bool                  \<comment> \<open>the candidate is a Gluon kernel\<close>
  tl_policy :: string               \<comment> \<open>the joined violations of the production policy\<close>
  tl_verified :: "string \<Rightarrow> exn + bool \<times> bool"
    \<comment> \<open>for a commit, whether the verification passed, and whether it shows parity\<close>
  tl_capture :: "string option"     \<comment> \<open>why the output of the episode could not be captured\<close>
  tl_stops :: "nat option"          \<comment> \<open>after how many of its steps a promotion raises\<close>
  tl_target :: bool                 \<comment> \<open>the promoted version reaches the target utilization\<close>

record episode_input =
  ei_latest :: int                  \<comment> \<open>\<open>latest_version\<close>\<close>
  ei_head_gluon :: bool             \<comment> \<open>the incumbent is a Gluon kernel\<close>
  ei_branch :: string
  ei_path :: string
  ei_receipt :: string
  ei_session :: string              \<comment> \<open>the identifier of its session\<close>
  ei_plan :: session_plan
  ei_opened :: "exn + string dict \<times> exn option"
  ei_rounds :: "round list"
  ei_trial :: trial

definition conversion_required :: "long_campaign \<Rightarrow> int \<Rightarrow> bool \<Rightarrow> bool" where
  "conversion_required c stall head_gluon = (ca_converts c \<and> ca_convert_after c > 0 \<and> \<not> head_gluon \<and> stall \<ge> ca_convert_after c)"

definition episode_mode :: "long_campaign \<Rightarrow> supervisor \<Rightarrow> active_episode option \<Rightarrow> string" where
  "episode_mode c s active =
     (case active of
        Some a \<Rightarrow> if ck_mode a = ''goal'' then ''goal'' else ''episode''
      | None \<Rightarrow> if ca_goal c \<and> su_episodes s \<ge> 50 \<and> su_stall s > 3 then ''goal'' else ''episode'')"

section \<open>Judging a handoff\<close>

type_synonym assessment = "string \<times> bool option \<times> bool"   \<comment> \<open>violation, whether the verification passed, accepted\<close>

definition assess_handoff ::
  "trial \<Rightarrow> bool \<Rightarrow> active_episode \<Rightarrow> handoff \<Rightarrow> disk_write list \<times> active_episode \<times> (exn + assessment)" where
  "assess_handoff t conversion a h =
     (if ho_status h \<noteq> ''candidate_ready'' then ([], a, Inr ([], None, False))
      else if tl_diagnosis t h \<noteq> [] then ([], a, Inr (tl_diagnosis t h, None, False))
      else
        let violation = (if tl_violation t (ho_candidate h) \<noteq> [] then tl_violation t (ho_candidate h)
              else if conversion \<and> \<not> tl_gluon t then ''mandatory conversion candidate is not a committed Gluon kernel''
              else if tl_policy t \<noteq> [] then ''production policy rejected candidate: '' @ tl_policy t else []) in
        if violation \<noteq> [] then ([], a, Inr (violation, None, False))
        else let a1 = a\<lparr>ck_phase := ''verifying''\<rparr> in
          ([Save_Active a1], a1,
           case tl_verified t (ho_candidate h) of
             Inl e \<Rightarrow> Inl e
           | Inr (passed, parity) \<Rightarrow>
               let p = (passed \<or> (conversion \<and> parity)) in Inr ([], Some p, p)))"

definition session_failed_text :: "run_result \<Rightarrow> string" where
  "session_failed_text r = ''session failed: exit='' @ int_string (sr_exit r) @ '' timeout='' @ (if sr_timed_out r then ''True'' else ''False'')
     @ (if sr_diagnosis r \<noteq> [] then ''; '' @ sr_diagnosis r else [])"

definition judge_result ::
  "trial \<Rightarrow> bool \<Rightarrow> active_episode \<Rightarrow> run_result \<Rightarrow> disk_write list \<times> active_episode \<times> (exn + assessment)" where
  "judge_result t conversion a r =
     (if sr_exit r \<noteq> 0 \<or> sr_timed_out r then ([], a, Inr (session_failed_text r, None, False))
      else case sr_handoff r of
        None \<Rightarrow> ([], a, Inr (if sr_diagnosis r \<noteq> [] then sr_diagnosis r else ''session produced no valid terminal handoff'', None, False))
      | Some h \<Rightarrow> if ho_status h = ''candidate_ready'' then assess_handoff t conversion a h else ([], a, Inr ([], None, False)))"

section \<open>Recording an episode\<close>

definition count_outcome :: "string \<Rightarrow> bool \<Rightarrow> supervisor \<Rightarrow> supervisor" where
  \<comment> \<open>the flag tells whether the handoff was violated\<close>
  "count_outcome status violated s =
     (if status = ''pivot'' \<and> \<not> violated then s\<lparr>su_pivoted := su_pivoted s + 1\<rparr>
      else if status = ''blocked'' \<and> \<not> violated then s\<lparr>su_blocked := su_blocked s + 1\<rparr>
      else if status = ''invalid_handoff'' then s\<lparr>su_protocol_failures := su_protocol_failures s + 1\<rparr>
      else s\<lparr>su_rejected := su_rejected s + 1\<rparr>)"

definition optional_text :: "string \<Rightarrow> string option" where
  "optional_text s = (if s = [] then None else Some s)"

definition promotion_steps :: "trial \<Rightarrow> record_file \<Rightarrow> nat" where
  \<comment> \<open>how many of its four steps a promotion makes: a record that an earlier process staged is found in the index beside the squash\<close>
  "promotion_steps t file =
     (let possible = (if file = Staged then 1 else 4) in case tl_stops t of Some k \<Rightarrow> min k (min possible 3) | None \<Rightarrow> possible)"

definition promote_candidate :: "trial \<Rightarrow> active_episode \<Rightarrow> string \<Rightarrow> disk \<Rightarrow> disk_write list \<times> bool" where
  \<comment> \<open>whether the promotion was committed\<close>
  "promote_candidate t a candidate d =
     (let k = promotion_steps t (dk_record d) in
      if revision d \<noteq> ck_base a then ([], False)
      else (take k [Start_Squash candidate, Write_Record, Stage_Record, Commit (Promotion (ck_episode a) (ck_version a))]
              @ (if k < 4 then [Reset_Workspace] else []), k = 4))"

definition record_outcome :: "active_episode \<Rightarrow> string \<Rightarrow> disk_write list" where
  "record_outcome a status = [Write_Record, Stage_Record, Commit (Outcome (ck_version a) (ck_episode a) status)]"

definition record_terminal ::
  "long_campaign \<Rightarrow> trial \<Rightarrow> supervisor \<Rightarrow> active_episode \<Rightarrow> string \<Rightarrow> string \<Rightarrow> assessment \<Rightarrow> bool \<Rightarrow> int \<Rightarrow> bool \<Rightarrow> disk
     \<Rightarrow> disk_write list \<times> (supervisor \<times> bool) option" where
  \<comment> \<open>the state after it, and whether the episode is validly blocked; \<open>None\<close> if it raised\<close>
  "record_terminal c t s a status candidate verdict paid tokens recovered d =
     (case verdict of (violation0, verification, accepted0) \<Rightarrow>
      let mode = episode_mode c s (Some a);
          s1 = s\<lparr>su_episodes := max (su_episodes s) (ck_episode a),
                 su_tokens := (if paid then su_tokens s else su_tokens s + max 0 tokens)\<rparr>;
          lost = (accepted0 \<and> tl_capture t \<noteq> None);
          accepted = (accepted0 \<and> \<not> lost);
          violation = (if lost then ''terminal candidate output unavailable: '' @ the (tl_capture t) else violation0);
          blocked = (status = ''blocked'' \<and> violation = []);
          attempt = \<lparr>at_episode = ck_episode a, at_version = ck_version a, at_mode = mode, at_status = status, at_accepted = accepted,
            at_violation = optional_text violation, at_candidate = optional_text candidate, at_base = ck_base a, at_branch = ck_branch a,
            at_commit = revision d + 1, at_tokens = max 0 tokens, at_retry = blocked, at_recovered = recovered\<rparr>;
          close = (\<lambda>s2. [Save_State (s2\<lparr>su_attempts := su_attempts s2 @ [attempt]\<rparr>), Remove_Tree (ck_path a), Clear_Active]) in
      if accepted \<and> verification \<noteq> None then
        let a1 = a\<lparr>ck_phase := ''promoting''\<rparr>;
            s2 = s1\<lparr>su_accepted := su_accepted s1 + 1, su_stall := 0\<rparr>;
            (ws, promoted) = promote_candidate t a candidate d in
        if \<not> promoted then (Save_Active a1 # ws, None)
        else (Save_Active a1 # ws @ [Save_Stall 0, Save_Active (a1\<lparr>ck_phase := ''promoted''\<rparr>)] @ close s2,
              Some (s2\<lparr>su_attempts := su_attempts s2 @ [attempt]\<rparr>, blocked))
      else
        let a1 = a\<lparr>ck_phase := ''recording'', ck_terminal := status\<rparr>;
            s2 = count_outcome status (violation \<noteq> []) (s1\<lparr>su_stall := su_stall s1 + 1\<rparr>) in
        if revision d \<noteq> ck_base a then ([Save_Active a1], None)
        else (Save_Active a1 # record_outcome a status @ Save_Stall (su_stall s2) # close s2,
              Some (s2\<lparr>su_attempts := su_attempts s2 @ [attempt]\<rparr>, blocked)))"

section \<open>Recovery\<close>

record recovery_input =
  ri_intact :: bool                 \<comment> \<open>the worktree is on its branch, which descends from the base\<close>
  ri_audit :: "exn option"          \<comment> \<open>what verifying the audit of a promotion raises\<close>
  ri_loads :: "string \<Rightarrow> pyval option"
  ri_handoff :: handoff_file
  ri_republished :: "exn + bool"    \<comment> \<open>\<open>republish_episode_report\<close>\<close>
  ri_restored :: handoff_file       \<comment> \<open>the handoff after it\<close>
  ri_check :: "handoff \<Rightarrow> exn + string"
  ri_head_gluon :: bool
  ri_candidate :: string            \<comment> \<open>\<open>candidate_commit\<close> of the journal, if it can be read\<close>
  ri_trial :: trial

definition resumable_phases :: "string list" where
  "resumable_phases = [''preparing'', ''exploring'', ''verifying'', ''promoting'', ''recording'']"

definition recovered_handoff :: "recovery_input \<Rightarrow> exn + handoff option" where
  "recovered_handoff i =
     bind_res (read_handoff (ri_loads i) (ri_handoff i)) (\<lambda>first.
     case first of
       Some h \<Rightarrow> Inr (Some h)
     | None \<Rightarrow>
         bind_res (ri_republished i) (\<lambda>republished.
         if \<not> republished then Inr None
         else bind_res (read_handoff (ri_loads i) (ri_restored i)) (\<lambda>second.
           if second = None then Inl (native_refusal ''Finalized private report could not restore its handoff'') else Inr second)))"

definition recover_completed ::
  "long_campaign \<Rightarrow> recovery_input \<Rightarrow> supervisor \<Rightarrow> active_episode \<Rightarrow> disk \<Rightarrow> disk_write list \<times> (exn + supervisor option)" where
  \<comment> \<open>the state after recording the episode, or \<open>None\<close> if it has no handoff to recover\<close>
  "recover_completed c i s a d =
     (case recovered_handoff i of
        Inl e \<Rightarrow> ([], Inl e)
      | Inr None \<Rightarrow> ([], Inr None)
      | Inr (Some h) \<Rightarrow>
          (case ri_check i h of
             Inl e \<Rightarrow> ([], Inl e)
           | Inr diagnosis \<Rightarrow>
               if diagnosis \<noteq> [] then ([], Inr None)
               else if ck_version a \<le> 0 then ([], Inl (native_refusal ''interrupted episode has no canonical memory version''))
               else case assess_handoff (ri_trial i) (conversion_required c (su_stall s) (ri_head_gluon i)) a h of
                   (ws, a1, Inl e) \<Rightarrow> (ws, Inl e)
                 | (ws, a1, Inr verdict) \<Rightarrow>
                     (case record_terminal c (ri_trial i) s a1 (ho_status h) (ho_candidate h) verdict False 0 True d of
                        (ws', None) \<Rightarrow> (ws @ ws', Inl (native_refusal ''the incumbent was not advanced''))
                      | (ws', Some (s1, blocked)) \<Rightarrow> (ws @ ws', Inr (Some s1)))))"

definition already_recorded :: "supervisor \<Rightarrow> active_episode \<Rightarrow> bool" where
  "already_recorded s a = list_ex (\<lambda>t. at_episode t = ck_episode a \<and> at_branch t = ck_branch a) (su_attempts s)"

definition promotion_binding :: "disk \<Rightarrow> active_episode \<Rightarrow> bool" where
  \<comment> \<open>the last commit promotes the episode and follows its base\<close>
  "promotion_binding d a = (revision d = ck_base a + 1 \<and> (case last (dk_log d) of Promotion e v \<Rightarrow> e = ck_episode a | _ \<Rightarrow> False))"

definition outcome_binding :: "disk \<Rightarrow> active_episode \<Rightarrow> bool" where
  "outcome_binding d a = (ck_phase a \<in> {''recording'', ''recorded''} \<and> ck_version a > 0 \<and> ck_terminal a \<noteq> []
     \<and> revision d = ck_base a + 1 \<and> last (dk_log d) = Outcome (ck_version a) (ck_episode a) (ck_terminal a))"

definition close_recovery :: "active_episode \<Rightarrow> supervisor \<Rightarrow> disk \<Rightarrow> disk_write list" where
  "close_recovery a s d = (if ck_path a \<in> set (dk_trees d) then [Remove_Tree (ck_path a)] else [])
     @ [Save_Stall (su_stall s), Save_State s, Clear_Active]"

definition recovered_attempt :: "long_campaign \<Rightarrow> supervisor \<Rightarrow> active_episode \<Rightarrow> bool \<Rightarrow> string \<Rightarrow> nat \<Rightarrow> episode_attempt" where
  "recovered_attempt c s a promoted terminal head =
     \<lparr>at_episode = ck_episode a, at_version = ck_version a, at_mode = episode_mode c s (Some a),
      at_status = (if promoted then ''candidate_ready'' else terminal), at_accepted = promoted,
      at_violation = (if \<not> promoted \<and> terminal = ''interrupted'' then Some ''supervisor process interrupted'' else None),
      at_candidate = None, at_base = ck_base a, at_branch = ck_branch a, at_commit = head, at_tokens = 0,
      at_retry = (\<not> promoted \<and> terminal = ''blocked''), at_recovered = True\<rparr>"

definition count_recovered :: "bool \<Rightarrow> string \<Rightarrow> supervisor \<Rightarrow> supervisor" where
  "count_recovered promoted terminal s =
     (if promoted then s\<lparr>su_accepted := su_accepted s + 1, su_stall := 0\<rparr>
      else let s1 = s\<lparr>su_stall := su_stall s + 1\<rparr> in
        if terminal = ''interrupted'' then s1\<lparr>su_interrupted := su_interrupted s1 + 1\<rparr> else count_outcome terminal False s1)"

definition recover_committed ::
  "long_campaign \<Rightarrow> recovery_input \<Rightarrow> supervisor \<Rightarrow> active_episode \<Rightarrow> disk \<Rightarrow> disk_write list \<times> (exn + supervisor)" where
  \<comment> \<open>the history has advanced beyond the base of the episode\<close>
  "recover_committed c i s a d =
     (case (if promotion_binding d a then ri_audit i else None) of
        Some e \<Rightarrow> ([Save_Active a], Inl e)
      | None \<Rightarrow>
          let promoted = (ck_phase a \<in> {''promoting'', ''promoted''} \<and> promotion_binding d a);
              terminal = (if promoted \<or> outcome_binding d a then ck_terminal a else ''interrupted'');
              s1 = (if already_recorded s a then s
                else let s0 = count_recovered promoted terminal (s\<lparr>su_episodes := max (su_episodes s) (ck_episode a)\<rparr>) in
                  s0\<lparr>su_attempts := su_attempts s0 @ [recovered_attempt c s a promoted terminal (revision d)]\<rparr>) in
          (close_recovery a s1 d, Inr s1))"

fun update_attempt :: "(episode_attempt \<Rightarrow> bool) \<Rightarrow> (episode_attempt \<Rightarrow> episode_attempt) \<Rightarrow> episode_attempt list \<Rightarrow> episode_attempt list" where
  "update_attempt p f [] = []"
| "update_attempt p f (t # ts) = (if p t then f t # ts else t # update_attempt p f ts)"

definition interrupt_episode ::
  "long_campaign \<Rightarrow> recovery_input \<Rightarrow> supervisor \<Rightarrow> active_episode \<Rightarrow> disk \<Rightarrow> disk_write list \<times> (exn + supervisor)" where
  \<comment> \<open>the episode cannot be resumed and has committed nothing\<close>
  "interrupt_episode c i s a d =
     (if ck_version a \<le> 0 then ([], Inl (native_refusal ''interrupted episode has no canonical memory version''))
      else
        let a1 = a\<lparr>ck_phase := ''recording'', ck_terminal := ''interrupted''\<rparr>;
            attempt = (recovered_attempt c s a False ''interrupted'' (revision d + 1))\<lparr>at_candidate := optional_text (ri_candidate i)\<rparr>;
            s1 = (if already_recorded s a
              then s\<lparr>su_attempts := update_attempt (\<lambda>t. at_episode t = ck_episode a \<and> at_branch t = ck_branch a)
                (\<lambda>t. attempt\<lparr>at_tokens := at_tokens t, at_retry := at_retry t\<rparr>) (su_attempts s)\<rparr>
              else s\<lparr>su_episodes := max (su_episodes s) (ck_episode a), su_interrupted := su_interrupted s + 1, su_stall := su_stall s + 1,
                     su_attempts := su_attempts s @ [attempt]\<rparr>) in
        (Save_Active a1 # record_outcome a ''interrupted'' @ Save_Active (a1\<lparr>ck_phase := ''recorded''\<rparr>)
           # close_recovery a s1 d, Inr s1))"

definition known_tree :: "active_episode \<Rightarrow> disk \<Rightarrow> bool" where
  "known_tree a d = (ck_path a \<in> set (dk_trees d) \<and> ck_branch a \<noteq> [])"

definition resumable :: "recovery_input \<Rightarrow> active_episode \<Rightarrow> disk \<Rightarrow> bool" where
  "resumable i a d = (revision d = ck_base a \<and> ck_phase a \<in> set resumable_phases \<and> ck_episode a > 0 \<and> ck_version a > 0
     \<and> known_tree a d \<and> ri_intact i)"

definition rollback :: "active_episode \<Rightarrow> disk \<Rightarrow> disk_write list" where
  "rollback a d = (if ck_phase a = ''promoting'' \<and> dirty d then [Reset_Workspace] else [])"

definition explored_again :: "active_episode \<Rightarrow> active_episode" where
  "explored_again a = a\<lparr>ck_from := ck_phase a, ck_phase := ''exploring'', ck_restarts := ck_restarts a + 1\<rparr>"

definition recover_interrupted ::
  "long_campaign \<Rightarrow> recovery_input \<Rightarrow> supervisor \<Rightarrow> active_episode \<Rightarrow> disk \<Rightarrow> disk_write list \<times> (exn + active_episode option \<times> supervisor)" where
  \<comment> \<open>the episode to resume, if it is one\<close>
  "recover_interrupted c i s a d =
     (if ck_mode a = ''fast'' then ([], Inl (native_refusal ''Cannot resume an unfinished Fast Episode with the unified workflow.''))
      else if resumable i a d then
        (case recover_completed c i s a (write_all (rollback a d) d) of
           (ws, Inl e) \<Rightarrow> (rollback a d @ ws, Inl e)
         | (ws, Inr (Some s1)) \<Rightarrow> (rollback a d @ ws, Inr (None, s1))
         | (ws, Inr None) \<Rightarrow> (rollback a d @ ws @ [Save_Active (explored_again a)], Inr (Some (explored_again a), s)))
      else if revision d \<noteq> ck_base a then
        (case recover_committed c i s a d of (ws, Inl e) \<Rightarrow> (ws, Inl e) | (ws, Inr s1) \<Rightarrow> (ws, Inr (None, s1)))
      else
        (case (if known_tree a d then recover_completed c i s a (write_all (rollback a d) d) else ([], Inr None)) of
           (ws, Inl e) \<Rightarrow> (rollback a d @ ws, Inl e)
         | (ws, Inr (Some s1)) \<Rightarrow> (rollback a d @ ws, Inr (None, s1))
         | (ws, Inr None) \<Rightarrow>
             (case interrupt_episode c i s a (write_all (rollback a d) d) of
                (ws', Inl e) \<Rightarrow> (rollback a d @ ws @ ws', Inl e)
              | (ws', Inr s1) \<Rightarrow> (rollback a d @ ws @ ws', Inr (None, s1)))))"

section \<open>Running episodes\<close>

definition begin_episode :: "long_campaign \<Rightarrow> episode_input \<Rightarrow> supervisor \<Rightarrow> nat \<Rightarrow> disk_write list \<times> active_episode" where
  "begin_episode c i s head =
     (let a = \<lparr>ck_episode = su_episodes s + 1, ck_version = ei_latest i + 1, ck_base = head, ck_branch = ei_branch i, ck_path = ei_path i,
                ck_mode = episode_mode c s None, ck_phase = ''preparing'', ck_terminal = [], ck_from = [], ck_restarts = 0\<rparr>;
          a1 = a\<lparr>ck_phase := ''exploring''\<rparr> in
      ([Save_Active a, Add_Tree (ei_path i), Save_Active a1], a1))"

definition episode_plan :: "long_campaign \<Rightarrow> episode_input \<Rightarrow> supervisor \<Rightarrow> string \<Rightarrow> session_plan" where
  "episode_plan c i s mode = (ei_plan i)\<lparr>
     pl_resumes := (if mode = ''goal'' then max (ca_resumes c) 20 else ca_resumes c),
     pl_budget := (if ca_token_budget c \<noteq> 0 then Some (max 0 (ca_token_budget c - su_tokens s)) else None),
     pl_policy := (\<lambda>t. counted_tokens (tu_total (ev_usage (tn_evidence t)))),
     pl_records := True\<rparr>"

definition run_episode ::
  "long_campaign \<Rightarrow> episode_input \<Rightarrow> supervisor \<Rightarrow> active_episode \<Rightarrow> bool \<Rightarrow> disk \<Rightarrow> disk_write list \<times> (supervisor \<times> bool \<times> bool) option" where
  \<comment> \<open>the state after it, whether its candidate was accepted and whether it is validly blocked; \<open>None\<close> if it raised or still runs\<close>
  "run_episode c i s a conversion d =
     (case run_session (episode_plan c i s (ck_mode a)) (ei_session i) (ei_opened i) (ei_rounds i) of
        (r, outcome) \<Rightarrow>
          (case usage_writes (ei_receipt i) (case r of Some n \<Rightarrow> recorded_totals (rn_trace n) | None \<Rightarrow> []) s of
             (ws, s1) \<Rightarrow>
               (case outcome of
                  Some (Inr res) \<Rightarrow>
                    let s2 = record_usage s1 (ei_receipt i) (sr_tokens res);
                        status = (case sr_handoff res of Some h \<Rightarrow> ho_status h | None \<Rightarrow> ''invalid_handoff'');
                        candidate = (case sr_handoff res of Some h \<Rightarrow> ho_candidate h | None \<Rightarrow> []) in
                    (case judge_result (ei_trial i) conversion a res of
                       (ws1, a1, Inl e) \<Rightarrow> (ws @ [Save_State s2] @ ws1, None)
                     | (ws1, a1, Inr verdict) \<Rightarrow>
                         (case record_terminal c (ei_trial i) s2 a1 status candidate verdict True (sr_tokens res) False d of
                            (ws2, None) \<Rightarrow> (ws @ [Save_State s2] @ ws1 @ ws2, None)
                          | (ws2, Some (s3, blocked)) \<Rightarrow>
                              (ws @ [Save_State s2] @ ws1 @ ws2, Some (s3, snd (snd verdict), blocked))))
                | _ \<Rightarrow> (ws, None))))"

definition stop_before :: "long_campaign \<Rightarrow> int \<Rightarrow> episode_input \<Rightarrow> supervisor \<Rightarrow> (exn + string) option" where
  "stop_before c start i s =
     (let conversion = conversion_required c (su_stall s) (ei_head_gluon i) in
      case (case ca_max_version c of
              Some v \<Rightarrow>
                if ei_latest i \<ge> v
                then Some (if conversion then Inl (native_refusal ''mandatory Triton->Gluon conversion did not succeed before max-iters'')
                           else Inr ''budget: max-iters'')
                else None
            | None \<Rightarrow> if su_episodes s \<ge> ca_max_episodes c then Some (Inr ''max-episodes'') else None) of
        Some r \<Rightarrow> Some r
      | None \<Rightarrow>
          if ca_episode_limit c \<noteq> 0 \<and> su_episodes s - start \<ge> ca_episode_limit c then Some (Inr ''episode-limit'')
          else if ca_token_budget c \<noteq> 0 \<and> su_tokens s \<ge> ca_token_budget c
          then Some (if conversion then Inl (native_refusal ''mandatory Triton->Gluon conversion did not succeed before token-budget'')
                     else Inr ''budget: token-budget'')
          else None)"

definition stop_after :: "long_campaign \<Rightarrow> episode_input \<Rightarrow> supervisor \<Rightarrow> bool \<Rightarrow> bool \<Rightarrow> string option" where
  "stop_after c i s accepted blocked =
     (if accepted \<and> tl_target (ei_trial i) then Some ''success: the target utilization is reached''
      else if blocked then None
      else if ca_max_stall c \<noteq> 0 \<and> su_stall s \<ge> ca_max_stall c \<and> episode_mode c s None \<noteq> ''goal''
        \<and> \<not> conversion_required c (su_stall s) (ei_head_gluon i)
      then Some ''stall''
      else None)"

fun campaign_loop ::
  "long_campaign \<Rightarrow> int \<Rightarrow> episode_input list \<Rightarrow> active_episode option \<Rightarrow> supervisor \<Rightarrow> disk \<Rightarrow> disk_write list \<times> (exn + string) option" where
  \<comment> \<open>\<open>None\<close>: still running after these episodes, or ended by an exception of an episode\<close>
  "campaign_loop c start [] pending s d = ([], None)"
| "campaign_loop c start (i # inputs) pending s d =
     (case stop_before c start i s of
        Some r \<Rightarrow> ([], Some r)
      | None \<Rightarrow>
          let conversion = conversion_required c (su_stall s) (ei_head_gluon i);
              (ws, a) = (case pending of Some a \<Rightarrow> ([], a) | None \<Rightarrow> begin_episode c i s (revision d)) in
          (case run_episode c i s a conversion (write_all ws d) of
             (ws1, None) \<Rightarrow> (ws @ ws1, None)
           | (ws1, Some (s1, accepted, blocked)) \<Rightarrow>
               (case stop_after c i s1 accepted blocked of
                  Some r \<Rightarrow> (ws @ ws1, Some (Inr r))
                | None \<Rightarrow>
                    (case campaign_loop c start inputs None s1 (write_all (ws @ ws1) d) of
                       (ws2, r) \<Rightarrow> (ws @ ws1 @ ws2, r)))))"

section \<open>Processes\<close>

record process_input =
  pi_restored :: int                \<comment> \<open>\<open>restored_stall\<close>\<close>
  pi_recovery :: recovery_input
  pi_episodes :: "episode_input list"

definition starting_state :: "process_input \<Rightarrow> disk \<Rightarrow> supervisor" where
  "starting_state p d =
     (let s = load_state d in if su_episodes s = 0 \<and> su_stall s = 0 then s\<lparr>su_stall := pi_restored p\<rparr> else s)"

definition run_campaign :: "long_campaign \<Rightarrow> process_input \<Rightarrow> disk \<Rightarrow> disk_write list \<times> (exn + string) option" where
  "run_campaign c p d =
     (let s = starting_state p d in
      case dk_active d of
        None \<Rightarrow> campaign_loop c (su_episodes s) (pi_episodes p) None s d
      | Some a \<Rightarrow>
          (case recover_interrupted c (pi_recovery p) s a d of
             (ws, Inl e) \<Rightarrow> (ws, Some (Inl e))
           | (ws, Inr (pending, s1)) \<Rightarrow>
               (case campaign_loop c (su_episodes s1) (pi_episodes p) pending s1 (write_all ws d) of
                  (ws1, r) \<Rightarrow> (ws @ ws1, r))))"

fun process_runs :: "long_campaign \<Rightarrow> (process_input \<times> nat) list \<Rightarrow> disk \<Rightarrow> disk" where
  \<comment> \<open>each process is cut after a number of its writes\<close>
  "process_runs c [] d = d"
| "process_runs c ((p, k) # ps) d = process_runs c ps (write_all (take k (fst (run_campaign c p d))) d)"

end
