(* ===== verification/Supervision_Runs.thy ===== *)
theory Supervision_Runs
  imports Supervision
begin

text \<open>
  What the supervisor leaves on disk, wherever its processes are cut: the history of commits and the journal of attempts
  agree up to the episode in progress.
\<close>

section \<open>The books of a campaign\<close>

definition committed_as :: "episode_attempt \<Rightarrow> commit" where
  "committed_as t = (if at_accepted t then Promotion (at_episode t) (at_version t) else Outcome (at_version t) (at_episode t) (at_status t))"

fun episode_of :: "commit \<Rightarrow> int" where
  "episode_of (Promotion e v) = e"
| "episode_of (Outcome v e status) = e"

fun is_promotion :: "commit \<Rightarrow> bool" where
  "is_promotion (Promotion e v) = True"
| "is_promotion _ = False"

fun has_status :: "(string \<Rightarrow> bool) \<Rightarrow> commit \<Rightarrow> bool" where
  "has_status p (Outcome v e status) = p status"
| "has_status p _ = False"

definition tally :: "(commit \<Rightarrow> bool) \<Rightarrow> commit list \<Rightarrow> int" where
  "tally p hist = int (length (filter p hist))"

lemma tally_simps [simp]: "tally p [] = 0" "tally p (hist @ [c]) = tally p hist + (if p c then 1 else 0)"
  by (simp_all add: tally_def)

definition counted_statuses :: "string list" where
  "counted_statuses = [''pivot'', ''blocked'', ''interrupted'', ''invalid_handoff'']"

definition counters_agree :: "commit list \<Rightarrow> supervisor \<Rightarrow> bool" where
  "counters_agree hist s \<longleftrightarrow> su_episodes s = int (length hist) \<and> su_accepted s = tally is_promotion hist
     \<and> su_pivoted s = tally (has_status (\<lambda>x. x = ''pivot'')) hist \<and> su_blocked s = tally (has_status (\<lambda>x. x = ''blocked'')) hist
     \<and> su_interrupted s = tally (has_status (\<lambda>x. x = ''interrupted'')) hist
     \<and> su_protocol_failures s = tally (has_status (\<lambda>x. x = ''invalid_handoff'')) hist
     \<and> su_rejected s = tally (has_status (\<lambda>x. x \<notin> set counted_statuses)) hist"

definition tokens_receipted :: "supervisor \<Rightarrow> bool" where
  "tokens_receipted s \<longleftrightarrow> dict_wf (su_receipts s) \<and> su_tokens s = sum_list (map snd (su_receipts s))"

definition books :: "commit list \<Rightarrow> supervisor \<Rightarrow> bool" where
  "books hist s \<longleftrightarrow> map committed_as (su_attempts s) = hist \<and> counters_agree hist s \<and> tokens_receipted s"

definition in_order :: "commit list \<Rightarrow> bool" where
  "in_order hist \<longleftrightarrow> map episode_of hist = map (\<lambda>k. int k + 1) [0 ..< length hist]"

lemma in_order_snoc [simp]: "in_order (hist @ [c]) \<longleftrightarrow> in_order hist \<and> episode_of c = int (length hist) + 1"
  by (simp add: in_order_def)

lemma in_order_Nil [simp]: "in_order []"
  by (simp add: in_order_def)

lemma in_order_bound: "in_order hist \<Longrightarrow> c \<in> set hist \<Longrightarrow> episode_of c \<le> int (length hist)"
proof -
  assume "in_order hist" "c \<in> set hist"
  then have "episode_of c \<in> set (map (\<lambda>k. int k + 1) [0 ..< length hist])"
    unfolding in_order_def by (metis image_eqI list.set_map)
  then show ?thesis by auto
qed

lemma episode_of_committed_as [simp]: "episode_of (committed_as t) = at_episode t"
  by (simp add: committed_as_def)

lemma not_recorded: "books hist s \<Longrightarrow> in_order hist \<Longrightarrow> ck_episode a > int (length hist) \<Longrightarrow> \<not> already_recorded s a"
proof -
  assume b: "books hist s" "in_order hist" "ck_episode a > int (length hist)"
  have "at_episode t \<le> int (length hist)" if "t \<in> set (su_attempts s)" for t
    using in_order_bound [OF b(2), of "committed_as t"] b(1) that by (auto simp: books_def)
  with b(3) show ?thesis by (fastforce simp: already_recorded_def list_ex_iff)
qed

lemma sum_dict_set: "sum_list (map snd (dict_set d k v)) = sum_list (map snd d) + (v - dict_get_default d k (0::int))"
  by (induction d k v rule: dict_set.induct) (auto simp: dict_get_default_def)

lemma record_usage_fields [simp]:
  "su_attempts (record_usage s receipt n) = su_attempts s" "counters_agree hist (record_usage s receipt n) = counters_agree hist s"
  "su_stall (record_usage s receipt n) = su_stall s"
  by (simp_all add: record_usage_def counters_agree_def Let_def)

lemma record_usage_tokens: "tokens_receipted s \<Longrightarrow> tokens_receipted (record_usage s receipt n)"
  by (simp add: tokens_receipted_def record_usage_def Let_def sum_dict_set)

lemma record_usage_books: "books hist s \<Longrightarrow> books hist (record_usage s receipt n)"
  by (simp add: books_def record_usage_tokens)

section \<open>What holds on disk at every moment\<close>

definition pending :: "disk \<Rightarrow> active_episode \<Rightarrow> bool" where
  \<comment> \<open>the episode has not been committed\<close>
  "pending d a \<longleftrightarrow> revision d = ck_base a \<and> ck_episode a = int (revision d) + 1 \<and> books (dk_log d) (load_state d)
     \<and> (dk_squash d \<noteq> None \<longrightarrow> ck_phase a = ''promoting'')"

definition committed_by :: "active_episode \<Rightarrow> commit \<Rightarrow> bool" where
  "committed_by a c \<longleftrightarrow> c = Promotion (ck_episode a) (ck_version a) \<and> ck_phase a \<in> {''promoting'', ''promoted''}
     \<or> c = Outcome (ck_version a) (ck_episode a) (ck_terminal a) \<and> ck_phase a \<in> {''recording'', ''recorded''} \<and> ck_terminal a \<noteq> []"

definition episode_committed :: "disk \<Rightarrow> active_episode \<Rightarrow> bool" where
  \<comment> \<open>the episode has been committed, and perhaps recorded\<close>
  "episode_committed d a \<longleftrightarrow> (\<exists>hist c. dk_log d = hist @ [c] \<and> ck_base a = length hist \<and> ck_episode a = int (length hist) + 1 \<and> committed_by a c
     \<and> \<not> dirty d \<and> (books hist (load_state d) \<or> books (hist @ [c]) (load_state d) \<and> already_recorded (load_state d) a))"

definition disk_sound :: "disk \<Rightarrow> bool" where
  "disk_sound d \<longleftrightarrow> in_order (dk_log d)
     \<and> (case dk_active d of
          None \<Rightarrow> books (dk_log d) (load_state d) \<and> \<not> dirty d
        | Some a \<Rightarrow> ck_version a > 0 \<and> ck_mode a \<noteq> ''fast'' \<and> (pending d a \<or> episode_committed d a))"

definition safe :: "disk_write list \<Rightarrow> disk \<Rightarrow> bool" where
  "safe ws d \<longleftrightarrow> (\<forall>k. disk_sound (write_all (take k ws) d))"

lemma perform_all_simps [simp]: "write_all [] d = d" "write_all (w # ws) d = write_all ws (write_disk w d)"
  "write_all (xs @ ys) d = write_all ys (write_all xs d)"
  by (simp_all add: write_all_def)

lemma dirty_fields [simp]:
  "dirty (d\<lparr>dk_log := hist\<rparr>) = dirty d" "dirty (d\<lparr>dk_active := x\<rparr>) = dirty d" "dirty (d\<lparr>dk_state := y\<rparr>) = dirty d"
  "dirty (d\<lparr>dk_stall := n\<rparr>) = dirty d" "dirty (d\<lparr>dk_trees := paths\<rparr>) = dirty d"
  by (simp_all add: dirty_def)

lemma safe_Nil [simp]: "safe [] d = disk_sound d"
  by (simp add: safe_def)

lemma safe_Cons [simp]: "safe (w # ws) d \<longleftrightarrow> disk_sound d \<and> safe ws (write_disk w d)"
proof
  assume s: "safe (w # ws) d"
  have "disk_sound (write_all (take k ws) (write_disk w d))" for k
    using s unfolding safe_def by (metis perform_all_simps(2) take_Suc_Cons)
  with s show "disk_sound d \<and> safe ws (write_disk w d)" unfolding safe_def by (metis perform_all_simps(1) take0)
next
  assume "disk_sound d \<and> safe ws (write_disk w d)"
  then show "safe (w # ws) d" by (auto simp: safe_def take_Cons split: nat.split)
qed

lemma safe_ok: "safe ws d \<Longrightarrow> disk_sound d"
  unfolding safe_def by (metis perform_all_simps(1) take0)

lemma safe_append [simp]: "safe (xs @ ys) d \<longleftrightarrow> safe xs d \<and> safe ys (write_all xs d)"
  by (induction xs arbitrary: d) (auto dest: safe_ok)

lemma safe_result: "safe ws d \<Longrightarrow> disk_sound (write_all ws d)"
  using safe_append [of ws "[]" d] by simp

section \<open>Recording is safe\<close>

definition engaged :: "disk \<Rightarrow> active_episode \<Rightarrow> supervisor \<Rightarrow> bool" where
  \<comment> \<open>an episode is in progress, and the process holds this state\<close>
  "engaged d a s \<longleftrightarrow> disk_sound d \<and> dk_active d = Some a \<and> pending d a \<and> dk_squash d = None \<and> books (dk_log d) s"

definition closed_books :: "disk \<Rightarrow> supervisor \<Rightarrow> bool" where
  "closed_books d s \<longleftrightarrow> disk_sound d \<and> dk_active d = None \<and> books (dk_log d) s"

lemmas disk_defs = disk_sound_def pending_def revision_def load_state_def dirty_def

lemma usage_writes_ok:
  "usage_writes receipt ns s = (ws, s1) \<Longrightarrow> engaged d a s \<Longrightarrow> safe ws d \<and> engaged (write_all ws d) a s1 \<and> revision (write_all ws d) = revision d"
proof (induction ns arbitrary: s ws d)
  case (Cons n ns)
  obtain ws' where w: "usage_writes receipt ns (record_usage s receipt n) = (ws', s1)" "ws = Save_State (record_usage s receipt n) # ws'"
    using Cons.prems(1) by (auto simp: Let_def split: prod.splits)
  have e: "engaged (write_disk (Save_State (record_usage s receipt n)) d) a (record_usage s receipt n)"
    using Cons.prems(2) record_usage_books [of "dk_log d" s receipt n] by (auto simp: engaged_def disk_defs)
  from Cons.IH [OF w(1) e] Cons.prems(2) w(2) show ?case by (auto simp: engaged_def revision_def)
qed (auto simp: engaged_def)

definition verdict_fits :: "string \<Rightarrow> assessment \<Rightarrow> bool" where
  \<comment> \<open>what a judgement may say of a handoff of this status\<close>
  "verdict_fits status v \<longleftrightarrow> (fst v \<noteq> [] \<longrightarrow> status \<noteq> ''pivot'' \<and> status \<noteq> ''blocked'') \<and> (snd (snd v) \<longrightarrow> status = ''candidate_ready'' \<and> fst (snd v) \<noteq> None)"

lemma save_phase:
  assumes "engaged d a s"
  shows "engaged (write_disk (Save_Active (a\<lparr>ck_phase := x\<rparr>)) d) (a\<lparr>ck_phase := x\<rparr>) s" "disk_sound (write_disk (Save_Active (a\<lparr>ck_phase := x\<rparr>)) d)"
  using assms by (auto simp: engaged_def disk_defs)

lemma assess_ok:
  assumes "engaged d a s" "assess_handoff t conversion a h = (ws, a1, r)"
  shows "safe ws d \<and> engaged (write_all ws d) a1 s \<and> revision (write_all ws d) = revision d \<and> (\<forall>v. r = Inr v \<longrightarrow> verdict_fits (ho_status h) v)"
proof -
  have "disk_sound d" using assms(1) by (simp add: engaged_def)
  with assms save_phase [OF assms(1), of "''verifying''"] show ?thesis
    by (auto simp: assess_handoff_def Let_def verdict_fits_def revision_def split: if_split_asm sum.splits prod.splits)
qed

lemma judge_ok:
  assumes "engaged d a s" "judge_result t conversion a res = (ws, a1, r)" "\<And>h. sr_handoff res = Some h \<Longrightarrow> sr_exit res = 0 \<and> \<not> sr_timed_out res"
  shows "safe ws d \<and> engaged (write_all ws d) a1 s \<and> revision (write_all ws d) = revision d
    \<and> (\<forall>v. r = Inr v \<longrightarrow> verdict_fits (case sr_handoff res of Some h \<Rightarrow> ho_status h | None \<Rightarrow> ''invalid_handoff'') v)"
proof -
  have "disk_sound d" using assms(1) by (simp add: engaged_def)
  with assms assess_ok [OF assms(1)] show ?thesis
    by (fastforce simp: judge_result_def verdict_fits_def split: if_split_asm option.splits)
qed

lemma books_snoc:
  assumes "books hist s" "su_attempts s' = su_attempts s @ [t]" "committed_as t = c" "counters_agree (hist @ [c]) s'"
    "su_tokens s' = su_tokens s" "su_receipts s' = su_receipts s"
  shows "books (hist @ [c]) s'"
  using assms by (simp add: books_def tokens_receipted_def)

lemma recorded_snoc: "su_attempts s' = su_attempts s @ [t] \<Longrightarrow> at_episode t = ck_episode a \<Longrightarrow> at_branch t = ck_branch a \<Longrightarrow> already_recorded s' a"
  by (simp add: already_recorded_def)

text \<open>An episode is underway until its commit, and landed from then until it is recorded.\<close>

definition underway :: "disk \<Rightarrow> active_episode \<Rightarrow> supervisor \<Rightarrow> bool" where
  "underway d a s \<longleftrightarrow> disk_sound d \<and> dk_active d = Some a \<and> pending d a \<and> books (dk_log d) s"

definition landed :: "disk \<Rightarrow> active_episode \<Rightarrow> commit list \<Rightarrow> commit \<Rightarrow> bool" where
  "landed d a hist c \<longleftrightarrow> disk_sound d \<and> dk_active d = Some a \<and> episode_committed d a \<and> dk_log d = hist @ [c]"

lemma engaged_underway: "engaged d a s \<longleftrightarrow> underway d a s \<and> dk_squash d = None"
  by (auto simp: engaged_def underway_def)

lemma underway_sound: "underway d a s \<Longrightarrow> disk_sound d"
  by (simp add: underway_def)

lemma underway_save:
  assumes "underway d a s" "dk_squash d = None" "ck_base a' = ck_base a" "ck_episode a' = ck_episode a" "ck_version a' = ck_version a" "ck_mode a' = ck_mode a"
  shows "underway (write_disk (Save_Active a') d) a' s"
  using assms by (auto simp: underway_def disk_defs)

lemma underway_record:
  assumes "underway d a s"
  shows "underway (write_disk Write_Record d) a s" "underway (write_disk Stage_Record d) a s"
  using assms by (auto simp: underway_def disk_defs)

lemma underway_reset: "underway d a s \<Longrightarrow> underway (write_disk Reset_Workspace d) a s"
  by (auto simp: underway_def disk_defs)

lemma underway_squash: "underway d a s \<Longrightarrow> ck_phase a = ''promoting'' \<Longrightarrow> underway (write_disk (Start_Squash x) d) a s"
  by (auto simp: underway_def disk_defs)

lemma underway_lands:
  assumes "underway d a s" "committed_by a c" "dk_squash d = None \<or> is_promotion c"
  shows "landed (write_disk (Commit c) d) a (dk_log d) c"
proof -
  have u: "disk_sound d" "dk_active d = Some a" "pending d a" using assms(1) by (simp_all add: underway_def)
  have e: "episode_of c = ck_episode a" using assms(2) by (auto simp: committed_by_def)
  have clean: "\<not> dirty (write_disk (Commit c) d)" using assms(3) by (cases c) (auto simp: dirty_def)
  have "episode_committed (write_disk (Commit c) d) a"
    using u(3) assms(2) clean unfolding episode_committed_def by (intro exI [of _ "dk_log d"] exI [of _ c]) (simp add: pending_def revision_def load_state_def)
  with u e show ?thesis by (simp add: landed_def disk_sound_def pending_def revision_def)
qed

lemma landed_sound: "landed d a hist c \<Longrightarrow> disk_sound d"
  by (simp add: landed_def)

lemma landed_stall: "landed d a hist c \<Longrightarrow> landed (write_disk (Save_Stall n) d) a hist c"
proof -
  assume "landed d a hist c"
  then have l: "dk_log d = hist @ [c]" "episode_committed d a" "disk_sound d" "dk_active d = Some a" by (simp_all add: landed_def)
  have "episode_committed (d\<lparr>dk_stall := Some n\<rparr>) a" using l(2) by (simp add: episode_committed_def load_state_def dirty_def)
  with l show ?thesis by (simp add: landed_def disk_sound_def)
qed

lemma landed_save:
  assumes "landed d a hist c" "ck_base a' = ck_base a" "ck_episode a' = ck_episode a" "ck_version a' = ck_version a" "ck_branch a' = ck_branch a"
    "ck_mode a' = ck_mode a" "committed_by a' c"
  shows "landed (write_disk (Save_Active a') d) a' hist c"
proof -
  have l: "dk_log d = hist @ [c]" "episode_committed d a" "disk_sound d" "dk_active d = Some a" using assms(1) by (simp_all add: landed_def)
  have "episode_committed (write_disk (Save_Active a') d) a'"
    using l(1,2) assms(2-7) by (auto simp: episode_committed_def load_state_def dirty_def already_recorded_def)
  with l assms(2-6) show ?thesis by (simp add: landed_def disk_sound_def)
qed

lemma landed_closes:
  assumes "landed d a hist c" "books (hist @ [c]) s1" "already_recorded s1 a"
  shows "safe [Save_State s1, Remove_Tree path, Clear_Active] d \<and> closed_books (write_all [Save_State s1, Remove_Tree path, Clear_Active] d) s1"
proof -
  have l: "dk_log d = hist @ [c]" "episode_committed d a" "disk_sound d" "dk_active d = Some a" using assms(1) by (simp_all add: landed_def)
  have "\<not> dirty d" using l(2) by (auto simp: episode_committed_def)
  moreover have "episode_committed (d\<lparr>dk_state := Some s1\<rparr>) a"
    using l(1,2) assms(2,3) by (auto simp: episode_committed_def load_state_def dirty_def)
  ultimately show ?thesis using l assms(2)
    by (simp add: closed_books_def disk_sound_def episode_committed_def load_state_def dirty_def)
qed

lemma promote_writes:
  assumes "engaged d a s" "c = Promotion (ck_episode a) (ck_version a)" "books (dk_log d @ [c]) s1" "already_recorded s1 a"
    "ws = [Save_Active (a\<lparr>ck_phase := ''promoting''\<rparr>), Start_Squash x, Write_Record, Stage_Record, Commit c, Save_Stall n,
      Save_Active (a\<lparr>ck_phase := ''promoted''\<rparr>), Save_State s1, Remove_Tree path, Clear_Active]"
  shows "safe ws d \<and> closed_books (write_all ws d) s1 \<and> revision (write_all ws d) = revision d + 1"
proof -
  let ?a = "a\<lparr>ck_phase := ''promoting''\<rparr>" and ?b = "a\<lparr>ck_phase := ''promoted''\<rparr>"
  let ?d1 = "write_disk (Save_Active ?a) d"
  let ?d2 = "write_disk (Start_Squash x) ?d1"
  let ?d3 = "write_disk Write_Record ?d2"
  let ?d4 = "write_disk Stage_Record ?d3"
  let ?d5 = "write_disk (Commit c) ?d4"
  let ?d6 = "write_disk (Save_Stall n) ?d5"
  have u1: "underway ?d1 ?a s" by (rule underway_save [of d a]) (use assms(1) engaged_underway in auto)
  have u2: "underway ?d2 ?a s" by (rule underway_squash [OF u1]) simp
  note u3 = underway_record(1) [OF u2] note u4 = underway_record(2) [OF u3]
  have "landed ?d5 ?a (dk_log ?d4) c" by (rule underway_lands [OF u4]) (simp_all add: assms(2) committed_by_def)
  then have l5: "landed ?d5 ?a (dk_log d) c" by simp
  note l6 = landed_stall [OF this, of n]
  have l7: "landed (write_disk (Save_Active ?b) ?d6) ?b (dk_log d) c" by (rule landed_save [OF l6]) (simp_all add: assms(2) committed_by_def)
  have "already_recorded s1 ?b" using assms(4) by (simp add: already_recorded_def)
  note c = landed_closes [OF l7 assms(3) this, of path]
  have "disk_sound d" using assms(1) by (simp add: engaged_def)
  moreover have "revision (write_all ws d) = revision d + 1" by (simp add: assms(5) revision_def)
  ultimately show ?thesis using c u1 u2 u3 u4 l5 l6 l7 underway_sound landed_sound unfolding assms(5) safe_Cons perform_all_simps by blast
qed

lemma outcome_writes:
  assumes "engaged d a s" "c = Outcome (ck_version a) (ck_episode a) status" "status \<noteq> []" "books (dk_log d @ [c]) s1" "already_recorded s1 a"
    "ws = [Save_Active (a\<lparr>ck_phase := ''recording'', ck_terminal := status\<rparr>), Write_Record, Stage_Record, Commit c, Save_Stall n, Save_State s1,
      Remove_Tree path, Clear_Active]"
  shows "safe ws d \<and> closed_books (write_all ws d) s1 \<and> revision (write_all ws d) = revision d + 1"
proof -
  let ?a = "a\<lparr>ck_phase := ''recording'', ck_terminal := status\<rparr>"
  let ?d1 = "write_disk (Save_Active ?a) d"
  let ?d3 = "write_disk Write_Record ?d1"
  let ?d4 = "write_disk Stage_Record ?d3"
  let ?d5 = "write_disk (Commit c) ?d4"
  have u1: "underway ?d1 ?a s" by (rule underway_save [of d a]) (use assms(1) engaged_underway in auto)
  note u3 = underway_record(1) [OF u1] note u4 = underway_record(2) [OF u3]
  have "landed ?d5 ?a (dk_log ?d4) c"
    by (rule underway_lands [OF u4]) (use assms(1,3) in \<open>simp_all add: assms(2) committed_by_def engaged_def\<close>)
  then have l5: "landed ?d5 ?a (dk_log d) c" by simp
  note l6 = landed_stall [OF this, of n]
  have "already_recorded s1 ?a" using assms(5) by (simp add: already_recorded_def)
  note c = landed_closes [OF l6 assms(4) this, of path]
  have "disk_sound d" using assms(1) by (simp add: engaged_def)
  moreover have "revision (write_all ws d) = revision d + 1" by (simp add: assms(6) revision_def)
  ultimately show ?thesis using c u1 u3 u4 l5 l6 underway_sound landed_sound unfolding assms(6) safe_Cons perform_all_simps by blast
qed

lemma promotion_steps_le: "promotion_steps t file \<le> 4" "promotion_steps t file = 4 \<longleftrightarrow> file \<noteq> Staged \<and> tl_stops t = None"
  by (auto simp: promotion_steps_def Let_def split: option.splits)

lemma promotion_undone:
  assumes "promote_candidate t a x d = (ws, False)"
  shows "set ws \<subseteq> {Start_Squash x, Write_Record, Stage_Record, Reset_Workspace}"
proof -
  have "take k [Start_Squash x, Write_Record, Stage_Record, w] = take k [Start_Squash x, Write_Record, Stage_Record]" if "k < 4" for k w
    using that by (simp add: take_Cons numeral_eq_Suc split: nat.split)
  moreover have "set (take k [Start_Squash x, Write_Record, Stage_Record]) \<subseteq> {Start_Squash x, Write_Record, Stage_Record}" for k
    using set_take_subset [of k "[Start_Squash x, Write_Record, Stage_Record]"] by simp
  moreover have "promotion_steps t (dk_record d) < 4" if "revision d = ck_base a"
    using assms that promotion_steps_le(1) [of t "dk_record d"] by (auto simp: promote_candidate_def Let_def)
  ultimately have "ws = [] \<or> (\<exists>k. ws = take k [Start_Squash x, Write_Record, Stage_Record] @ [Reset_Workspace])"
    using assms by (auto simp: promote_candidate_def Let_def split: if_split_asm)
  then show ?thesis using set_take_subset [of _ "[Start_Squash x, Write_Record, Stage_Record]"] by fastforce
qed

lemma underway_writes:
  "underway d a s \<Longrightarrow> ck_phase a = ''promoting'' \<Longrightarrow> set ws \<subseteq> {Start_Squash x, Write_Record, Stage_Record, Reset_Workspace} \<Longrightarrow> safe ws d"
proof (induction ws arbitrary: d)
  case (Cons w ws)
  have "underway (write_disk w d) a s"
    using Cons.prems underway_squash [of d a s x] underway_record [of d a s] underway_reset [of d a s] by auto
  with Cons underway_sound show ?case by (simp del: write_disk.simps)
qed (simp add: underway_sound)

lemma promotion_fails_safe:
  assumes "engaged d a s" "promote_candidate t a x d0 = (ws, False)"
  shows "safe (Save_Active (a\<lparr>ck_phase := ''promoting''\<rparr>) # ws) d"
proof -
  have "underway (write_disk (Save_Active (a\<lparr>ck_phase := ''promoting''\<rparr>)) d) (a\<lparr>ck_phase := ''promoting''\<rparr>) s"
    by (rule underway_save [of d a]) (use assms(1) engaged_underway in auto)
  from underway_writes [OF this _ promotion_undone [OF assms(2)]] assms(1) show ?thesis by (simp add: engaged_def)
qed

lemma promotion_done:
  assumes "promote_candidate t a x d = (ws, True)"
  shows "ws = [Start_Squash x, Write_Record, Stage_Record, Commit (Promotion (ck_episode a) (ck_version a))] \<and> revision d = ck_base a"
  using assms by (auto simp: promote_candidate_def Let_def split: if_split_asm)

definition terminal_outcomes :: "string list" where
  "terminal_outcomes = ''invalid_handoff'' # handoff_statuses"

lemma counters_promotion:
  "counters_agree hist s \<Longrightarrow> counters_agree (hist @ [Promotion e v])
     (s\<lparr>su_episodes := int (length hist) + 1, su_accepted := su_accepted s + 1, su_stall := n, su_attempts := ts\<rparr>)"
  by (simp add: counters_agree_def)

lemma counters_outcome:
  assumes "counters_agree hist s" "status \<in> set terminal_outcomes" "violated \<longrightarrow> status \<noteq> ''pivot'' \<and> status \<noteq> ''blocked''"
  shows "counters_agree (hist @ [Outcome v e status])
    ((count_outcome status violated (s\<lparr>su_episodes := int (length hist) + 1, su_stall := n\<rparr>))\<lparr>su_attempts := ts\<rparr>)"
proof -
  have "status \<in> {''invalid_handoff'', ''candidate_ready'', ''pivot'', ''blocked''}"
    using assms(2) by (simp add: terminal_outcomes_def handoff_statuses_def)
  then show ?thesis
    using assms(1,3) by (elim insertE emptyE; hypsubst_thin) (simp_all add: counters_agree_def count_outcome_def counted_statuses_def)
qed

lemma count_outcome_fields [simp]:
  "su_attempts (count_outcome status b s) = su_attempts s" "su_tokens (count_outcome status b s) = su_tokens s"
  "su_receipts (count_outcome status b s) = su_receipts s"
  by (simp_all add: count_outcome_def)

lemma record_terminal_ok:
  assumes "engaged d a s" "record_terminal c t s a status x verdict paid tokens recovered d0 = (ws, r)" "revision d0 = revision d"
    "status \<in> set terminal_outcomes" "verdict_fits status verdict" "paid \<or> tokens = 0"
  shows "safe ws d \<and> (\<forall>s' b. r = Some (s', b) \<longrightarrow> closed_books (write_all ws d) s' \<and> revision (write_all ws d) = revision d + 1)"
proof -
  obtain violation0 verification accepted0 where v: "verdict = (violation0, verification, accepted0)" by (cases verdict)
  have e: "ck_base a = revision d" "ck_episode a = int (revision d) + 1" "books (dk_log d) s" "dk_active d = Some a"
    using assms(1) by (auto simp: engaged_def pending_def)
  have su: "su_episodes s = int (revision d)" using e(3) by (simp add: books_def counters_agree_def revision_def)
  define lost where "lost = (accepted0 \<and> tl_capture t \<noteq> None)"
  define violation where "violation = (if lost then ''terminal candidate output unavailable: '' @ the (tl_capture t) else violation0)"
  define att where "att = \<lparr>at_episode = ck_episode a, at_version = ck_version a, at_mode = episode_mode c s (Some a), at_status = status,
    at_accepted = (accepted0 \<and> \<not> lost), at_violation = optional_text violation, at_candidate = optional_text x, at_base = ck_base a, at_branch = ck_branch a,
    at_commit = revision d + 1, at_tokens = max 0 tokens, at_retry = (status = ''blocked'' \<and> violation = []), at_recovered = recovered\<rparr>"
  have paid: "(if paid then su_tokens s else su_tokens s + max 0 tokens) = su_tokens s" using assms(6) by auto
  have m: "max (su_episodes s) (ck_episode a) = ck_episode a" using su e(2) by simp
  have status: "status \<noteq> []" using assms(4) by (auto simp: terminal_outcomes_def handoff_statuses_def)
  show ?thesis
  proof (cases "accepted0 \<and> \<not> lost")
    case True
    define s1 where "s1 = s\<lparr>su_episodes := ck_episode a, su_tokens := su_tokens s, su_accepted := su_accepted s + 1, su_stall := 0,
      su_attempts := su_attempts s @ [att]\<rparr>"
    have "verification \<noteq> None" using assms(5) True by (simp add: verdict_fits_def v)
    have b: "books (dk_log d @ [Promotion (ck_episode a) (ck_version a)]) s1"
      by (rule books_snoc [OF e(3), of _ att])
        (use True e(2,3) counters_promotion [of "dk_log d" s] in
          \<open>simp_all add: s1_def att_def committed_as_def books_def revision_def\<close>)
    have "already_recorded s1 a" by (rule recorded_snoc [of _ s att]) (simp_all add: s1_def att_def)
    note w = promote_writes [OF assms(1) refl b this]
    obtain ws1 made where p: "promote_candidate t a x d0 = (ws1, made)" by fastforce
    show ?thesis
    proof (cases made)
      case False
      with assms(2) True \<open>verification \<noteq> None\<close> p have "ws = Save_Active (a\<lparr>ck_phase := ''promoting''\<rparr>) # ws1" "r = None"
        by (auto simp: record_terminal_def v Let_def lost_def)
      with promotion_fails_safe [OF assms(1), of t x d0 ws1] False p show ?thesis by simp
    next
      case made: True
      note d = promotion_done [of t a x d0 ws1]
      from assms(2) True \<open>verification \<noteq> None\<close> p d [unfolded p] made have
        "ws = [Save_Active (a\<lparr>ck_phase := ''promoting''\<rparr>), Start_Squash x, Write_Record, Stage_Record, Commit (Promotion (ck_episode a) (ck_version a)),
          Save_Stall 0, Save_Active (a\<lparr>ck_phase := ''promoted''\<rparr>), Save_State s1, Remove_Tree (ck_path a), Clear_Active]"
        "r = Some (s1, status = ''blocked'' \<and> violation = [])"
        by (auto simp: record_terminal_def v Let_def paid m e(1) assms(3) s1_def att_def violation_def lost_def)
      with w show ?thesis by blast
    qed
  next
    case False
    have viol: "violation \<noteq> [] \<longrightarrow> status \<noteq> ''pivot'' \<and> status \<noteq> ''blocked''"
      using assms(5) by (auto simp: verdict_fits_def v violation_def lost_def)
    define s0 where "s0 = s\<lparr>su_episodes := ck_episode a, su_tokens := su_tokens s, su_stall := su_stall s + 1\<rparr>"
    define s1 where "s1 = (count_outcome status (violation \<noteq> []) s0)\<lparr>su_attempts := su_attempts s @ [att]\<rparr>"
    have b: "books (dk_log d @ [Outcome (ck_version a) (ck_episode a) status]) s1"
      by (rule books_snoc [OF e(3), of _ att])
        (use False e(2,3) counters_outcome [of "dk_log d" s status "violation \<noteq> []"] assms(4) viol in
          \<open>simp_all add: s1_def s0_def att_def committed_as_def books_def revision_def\<close>)
    have "already_recorded s1 a" by (rule recorded_snoc [of _ s att]) (simp_all add: s1_def s0_def att_def)
    note w = outcome_writes [OF assms(1) refl status b this]
    from assms(2) False have
      "ws = [Save_Active (a\<lparr>ck_phase := ''recording'', ck_terminal := status\<rparr>), Write_Record, Stage_Record, Commit (Outcome (ck_version a) (ck_episode a) status),
        Save_Stall (su_stall s1), Save_State s1, Remove_Tree (ck_path a), Clear_Active]" "r = Some (s1, status = ''blocked'' \<and> violation = [])"
      by (auto simp: record_terminal_def v Let_def paid m e(1) assms(3) record_outcome_def s1_def s0_def att_def violation_def lost_def)
    then show ?thesis using w by blast
  qed
qed

section \<open>Episodes are safe\<close>

lemma result_handoff:
  assumes "run_session p requested opened rounds = (state, Some (Inr res))" "sr_handoff res = Some h"
  shows "sr_exit res = 0 \<and> \<not> sr_timed_out res \<and> ho_status h \<in> set terminal_outcomes"
proof -
  obtain s1 where "res = result_of requested s1" "trusted p rounds s1" using run_trusted [OF assms(1)] by blast
  with assms(2) show ?thesis
    by (auto simp: trusted_def result_of_def terminal_outcomes_def dest: handoff_shape)
qed

lemma save_usage:
  "engaged d a s \<Longrightarrow> engaged (write_disk (Save_State (record_usage s receipt n)) d) a (record_usage s receipt n)"
  using usage_writes_ok [of receipt "[n]" s "[Save_State (record_usage s receipt n)]" "record_usage s receipt n" d a] by (simp add: Let_def)

lemma engaged_ok: "engaged d a s \<Longrightarrow> disk_sound d"
  by (simp add: engaged_def)

lemma run_episode_ok:
  assumes "engaged d a s" "run_episode c i s a conversion d0 = (ws, r)" "revision d0 = revision d"
  shows "safe ws d \<and> (\<forall>s' x b. r = Some (s', x, b) \<longrightarrow> closed_books (write_all ws d) s' \<and> revision (write_all ws d) = revision d + 1)"
proof -
  obtain run outcome where run: "run_session (episode_plan c i s (ck_mode a)) (ei_session i) (ei_opened i) (ei_rounds i) = (run, outcome)"
    by fastforce
  obtain ws0 s1 where w: "usage_writes (ei_receipt i) (case run of Some n \<Rightarrow> recorded_totals (rn_trace n) | None \<Rightarrow> []) s = (ws0, s1)"
    by fastforce
  note u = usage_writes_ok [OF w assms(1)]
  show ?thesis
  proof (cases "\<exists>res. outcome = Some (Inr res)")
    case False
    then have "(ws, r) = (ws0, None)"
      using assms(2) by (auto simp: run_episode_def run w split: option.splits sum.splits)
    with u show ?thesis by simp
  next
    case True
    then obtain res where res: "outcome = Some (Inr res)" by blast
    note handoff = result_handoff [OF run [unfolded res]]
    define s2 where "s2 = record_usage s1 (ei_receipt i) (sr_tokens res)"
    define status where "status = (case sr_handoff res of Some h \<Rightarrow> ho_status h | None \<Rightarrow> ''invalid_handoff'')"
    define x where "x = (case sr_handoff res of Some h \<Rightarrow> ho_candidate h | None \<Rightarrow> [])"
    let ?d = "write_disk (Save_State s2) (write_all ws0 d)"
    have e: "engaged ?d a s2" unfolding s2_def by (rule save_usage) (use u in blast)
    have rev: "revision ?d = revision d" using u by (simp add: revision_def)
    obtain ws1 a1 j where j: "judge_result (ei_trial i) conversion a res = (ws1, a1, j)" by (cases "judge_result (ei_trial i) conversion a res")
    have ok: "safe ws1 ?d \<and> engaged (write_all ws1 ?d) a1 s2 \<and> revision (write_all ws1 ?d) = revision ?d \<and> (\<forall>v. j = Inr v \<longrightarrow> verdict_fits status v)"
      unfolding status_def by (rule judge_ok [OF e j]) (use handoff in blast)
    have status: "status \<in> set terminal_outcomes"
      using handoff by (auto simp: status_def terminal_outcomes_def split: option.split)
    have safe: "safe (ws0 @ Save_State s2 # ws1) d" using u ok e by (auto intro: safe_result)
    show ?thesis
    proof (cases j)
      case (Inl x)
      then have "(ws, r) = (ws0 @ Save_State s2 # ws1, None)"
        using assms(2) by (simp add: run_episode_def run w res Let_def s2_def [symmetric] j)
      with safe show ?thesis by simp
    next
      case (Inr v)
      obtain ws2 q where q: "record_terminal c (ei_trial i) s2 a1 status x v True (sr_tokens res) False d0 = (ws2, q)" by fastforce
      have "safe ws2 (write_all ws1 ?d) \<and> (\<forall>s' b. q = Some (s', b) \<longrightarrow> closed_books (write_all ws2 (write_all ws1 ?d)) s'
          \<and> revision (write_all ws2 (write_all ws1 ?d)) = revision (write_all ws1 ?d) + 1)"
        by (rule record_terminal_ok [OF _ q]) (use ok status rev Inr assms(3) in auto)
      moreover have "ws = ws0 @ Save_State s2 # ws1 @ ws2 \<and> r = map_option (\<lambda>(s', b). (s', snd (snd v), b)) q"
        using assms(2) by (auto simp: run_episode_def run w res Let_def s2_def [symmetric] j Inr status_def [symmetric] x_def [symmetric] q split: option.splits)
      ultimately show ?thesis using safe rev ok by auto
    qed
  qed
qed

lemma begin_episode_ok:
  assumes "closed_books d s" "begin_episode c i s (revision d) = (ws, a)" "0 \<le> ei_latest i"
  shows "safe ws d \<and> engaged (write_all ws d) a s \<and> revision (write_all ws d) = revision d"
proof -
  have "su_episodes s = int (revision d)" using assms(1) by (simp add: closed_books_def books_def counters_agree_def revision_def)
  with assms show ?thesis
    by (auto simp: begin_episode_def Let_def closed_books_def engaged_def disk_defs episode_mode_def)
qed

lemma loop_ok:
  "campaign_loop c start inputs p s d = (ws, r) \<Longrightarrow> (case p of Some a \<Rightarrow> engaged d a s | None \<Rightarrow> closed_books d s) \<Longrightarrow> \<forall>i\<in>set inputs. 0 \<le> ei_latest i \<Longrightarrow> safe ws d"
proof (induction inputs arbitrary: p s d ws r)
  case Nil
  then show ?case by (auto simp: engaged_def closed_books_def split: option.splits)
next
  case (Cons i inputs)
  have ok: "disk_sound d" using Cons.prems(2) by (auto simp: engaged_def closed_books_def split: option.splits)
  show ?case
  proof (cases "stop_before c start i s")
    case (Some x)
    with Cons.prems ok show ?thesis by simp
  next
    case None
    obtain ws0 a where b: "(case p of Some a \<Rightarrow> ([], a) | None \<Rightarrow> begin_episode c i s (revision d)) = (ws0, a)" by fastforce
    have e: "safe ws0 d \<and> engaged (write_all ws0 d) a s \<and> revision (write_all ws0 d) = revision d"
      using b Cons.prems(2,3) begin_episode_ok ok by (auto split: option.splits)
    obtain ws1 q where q: "run_episode c i s a (conversion_required c (su_stall s) (ei_head_gluon i)) (write_all ws0 d) = (ws1, q)" by fastforce
    have ep: "safe ws1 (write_all ws0 d) \<and> (\<forall>s' x b. q = Some (s', x, b) \<longrightarrow> closed_books (write_all ws1 (write_all ws0 d)) s')"
      by (intro conjI allI impI; use run_episode_ok [OF _ q refl] e in blast)
    show ?thesis
    proof (cases "q = None \<or> (\<exists>s1 x y. q = Some (s1, x, y) \<and> stop_after c i s1 x y \<noteq> None)")
      case True
      with Cons.prems(1) None b q have "ws = ws0 @ ws1" by (auto simp: Let_def split: option.splits)
      with e ep show ?thesis by simp
    next
      case False
      then obtain s1 x y where s1: "q = Some (s1, x, y)" "stop_after c i s1 x y = None" by auto
      obtain ws2 r2 where l: "campaign_loop c start inputs None s1 (write_all (ws0 @ ws1) d) = (ws2, r2)" by fastforce
      have "safe ws2 (write_all (ws0 @ ws1) d)"
        by (rule Cons.IH [OF l]) (use ep s1 Cons.prems(3) in auto)
      moreover have "ws = ws0 @ ws1 @ ws2" using Cons.prems(1) None b q s1 l by (auto simp: Let_def)
      ultimately show ?thesis using e ep by simp
    qed
  qed
qed

section \<open>Recovery is safe\<close>

definition recovered_to :: "disk \<Rightarrow> active_episode option \<Rightarrow> supervisor \<Rightarrow> bool" where
  "recovered_to d p s = (case p of Some a \<Rightarrow> engaged d a s \<and> ck_phase a = ''exploring'' | None \<Rightarrow> closed_books d s)"

lemma recovered_status: "recovered_handoff i = Inr (Some h) \<Longrightarrow> ho_status h \<in> set terminal_outcomes"
  by (auto simp: recovered_handoff_def res_simps terminal_outcomes_def dest: handoff_shape split: option.splits if_split_asm)

lemma recover_completed_ok:
  assumes "engaged d a s" "recover_completed c i s a d = (ws, r)"
  shows "safe ws d \<and> (r = Inr None \<longrightarrow> ws = []) \<and> (\<forall>s'. r = Inr (Some s') \<longrightarrow> closed_books (write_all ws d) s')"
proof (cases "\<exists>h. recovered_handoff i = Inr (Some h) \<and> ri_check i h = Inr [] \<and> ck_version a > 0")
  case False
  with assms engaged_ok [OF assms(1)] show ?thesis
    by (auto simp: recover_completed_def split: sum.splits option.splits if_split_asm)
next
  case True
  then obtain h where h: "recovered_handoff i = Inr (Some h)" "ri_check i h = Inr []" "ck_version a > 0" by blast
  obtain ws1 a1 j where j: "assess_handoff (ri_trial i) (conversion_required c (su_stall s) (ri_head_gluon i)) a h = (ws1, a1, j)"
    by (cases "assess_handoff (ri_trial i) (conversion_required c (su_stall s) (ri_head_gluon i)) a h")
  note ok = assess_ok [OF assms(1) j]
  show ?thesis
  proof (cases j)
    case (Inl e)
    with assms(2) h j ok show ?thesis by (auto simp: recover_completed_def)
  next
    case (Inr v)
    obtain ws2 q where q: "record_terminal c (ri_trial i) s a1 (ho_status h) (ho_candidate h) v False 0 True d = (ws2, q)" by fastforce
    have "safe ws2 (write_all ws1 d) \<and> (\<forall>s' b. q = Some (s', b) \<longrightarrow> closed_books (write_all ws2 (write_all ws1 d)) s')"
      by (intro conjI allI impI; use record_terminal_ok [OF _ q, of "write_all ws1 d"] ok Inr recovered_status [OF h(1)] in auto)
    with assms(2) h j ok Inr q show ?thesis by (auto simp: recover_completed_def split: option.splits prod.splits)
  qed
qed

lemma close_recovery_ok:
  assumes "disk_sound d" "dk_active d = Some a" "episode_committed d a" "books (dk_log d) s" "already_recorded s a"
  shows "safe (close_recovery b s d0) d \<and> closed_books (write_all (close_recovery b s d0) d) s"
  using assms by (auto simp: close_recovery_def closed_books_def disk_sound_def episode_committed_def load_state_def pending_def revision_def)

lemma counters_recovered:
  assumes "counters_agree hist s" "c = (if promoted then Promotion e v else Outcome v e terminal)"
  shows "counters_agree (hist @ [c]) ((count_recovered promoted terminal (s\<lparr>su_episodes := int (length hist) + 1\<rparr>))\<lparr>su_attempts := ts\<rparr>)"
proof (cases "promoted \<or> terminal \<in> {''invalid_handoff'', ''interrupted'', ''pivot'', ''blocked''}")
  case True
  then show ?thesis using assms
    by (elim disjE insertE emptyE; hypsubst_thin) (simp_all add: counters_agree_def count_recovered_def count_outcome_def counted_statuses_def Let_def)
next
  case False
  with assms show ?thesis
    by (simp add: counters_agree_def count_recovered_def count_outcome_def counted_statuses_def Let_def)
qed

lemma count_recovered_fields [simp]:
  "su_attempts (count_recovered promoted terminal s) = su_attempts s" "su_tokens (count_recovered promoted terminal s) = su_tokens s"
  "su_receipts (count_recovered promoted terminal s) = su_receipts s"
  by (simp_all add: count_recovered_def Let_def)

lemma recovered_committed_as:
  "committed_as (recovered_attempt c s a promoted terminal head) =
     (if promoted then Promotion (ck_episode a) (ck_version a) else Outcome (ck_version a) (ck_episode a) terminal)"
  by (simp add: committed_as_def recovered_attempt_def)

definition state_loaded :: "disk \<Rightarrow> supervisor \<Rightarrow> bool" where
  \<comment> \<open>the state on disk, but for the restored stall\<close>
  "state_loaded d s \<longleftrightarrow> (\<exists>n. s = (load_state d)\<lparr>su_stall := n\<rparr>)"

lemma loaded_books: "state_loaded d s \<Longrightarrow> books hist s = books hist (load_state d) \<and> already_recorded s a = already_recorded (load_state d) a"
  by (auto simp: state_loaded_def books_def counters_agree_def tokens_receipted_def already_recorded_def)

lemma recover_committed_ok:
  assumes "disk_sound d" "dk_active d = Some a" "revision d \<noteq> ck_base a" "state_loaded d s" "recover_committed c i s a d = (ws, r)"
  shows "safe ws d \<and> (\<forall>s'. r = Inr s' \<longrightarrow> closed_books (write_all ws d) s')"
proof -
  have cm: "episode_committed d a" "ck_version a > 0" "in_order (dk_log d)" using assms(1-3) by (auto simp: disk_sound_def pending_def)
  then obtain hist k where hist: "dk_log d = hist @ [k]" "ck_base a = length hist" "ck_episode a = int (length hist) + 1" "committed_by a k"
    "books hist s \<or> books (hist @ [k]) s \<and> already_recorded s a"
    using loaded_books [OF assms(4)] by (auto simp: episode_committed_def)
  define promoted where "promoted = (ck_phase a \<in> {''promoting'', ''promoted''} \<and> promotion_binding d a)"
  define terminal where "terminal = (if promoted \<or> outcome_binding d a then ck_terminal a else ''interrupted'')"
  have k: "k = (if promoted then Promotion (ck_episode a) (ck_version a) else Outcome (ck_version a) (ck_episode a) terminal)"
    using hist cm(2) by (auto simp: promoted_def terminal_def committed_by_def promotion_binding_def outcome_binding_def revision_def)
  define s1 where "s1 = (if already_recorded s a then s
    else let s0 = count_recovered promoted terminal (s\<lparr>su_episodes := max (su_episodes s) (ck_episode a)\<rparr>) in
      s0\<lparr>su_attempts := su_attempts s0 @ [recovered_attempt c s a promoted terminal (revision d)]\<rparr>)"
  have s1: "books (dk_log d) s1 \<and> already_recorded s1 a"
  proof (cases "already_recorded s a")
    case True
    with hist cm(3) not_recorded [of hist s a] show ?thesis by (auto simp: s1_def)
  next
    case False
    with hist(5) have b: "books hist s" by blast
    then have su: "su_episodes s = int (length hist)" by (simp add: books_def counters_agree_def)
    have "books (hist @ [k]) s1"
      by (rule books_snoc [OF b, of _ "recovered_attempt c s a promoted terminal (revision d)"])
        (use False k hist(3) su b counters_recovered [of hist s k promoted "ck_episode a" "ck_version a" terminal] in
          \<open>simp_all add: s1_def Let_def recovered_committed_as books_def\<close>)
    moreover have "already_recorded s1 a"
      using False by (simp add: s1_def Let_def already_recorded_def recovered_attempt_def)
    ultimately show ?thesis using hist(1) by simp
  qed
  show ?thesis
  proof (cases "if promotion_binding d a then ri_audit i else None")
    case (Some e)
    have "d\<lparr>dk_active := Some a\<rparr> = d" using assms(2) by (cases d) simp
    with Some assms(1,5) show ?thesis by (auto simp: recover_committed_def)
  next
    case None
    then have "ws = close_recovery a s1 d \<and> r = Inr s1"
      using assms(5) by (auto simp: recover_committed_def Let_def s1_def promoted_def terminal_def)
    with close_recovery_ok [OF assms(1,2) cm(1)] s1 show ?thesis by simp
  qed
qed

lemma interrupt_episode_ok:
  assumes "engaged d a s" "state_loaded d0 s" "interrupt_episode c i s a d1 = (ws, r)" "revision d1 = revision d"
  shows "safe ws d \<and> (\<forall>s'. r = Inr s' \<longrightarrow> closed_books (write_all ws d) s')"
proof -
  have e: "disk_sound d" "dk_active d = Some a" "pending d a" "dk_squash d = None" "books (dk_log d) s" "in_order (dk_log d)" "ck_version a > 0" "ck_mode a \<noteq> ''fast''"
    using assms(1) by (auto simp: engaged_def disk_sound_def)
  then have ep: "ck_base a = length (dk_log d)" "ck_episode a = int (length (dk_log d)) + 1" by (auto simp: pending_def revision_def)
  have no: "\<not> already_recorded s a" using not_recorded [OF e(5,6)] ep by simp
  define k where "k = Outcome (ck_version a) (ck_episode a) ''interrupted''"
  define a1 where "a1 = a\<lparr>ck_phase := ''recording'', ck_terminal := ''interrupted''\<rparr>"
  define att where "att = (recovered_attempt c s a False ''interrupted'' (revision d1 + 1))\<lparr>at_candidate := optional_text (ri_candidate i)\<rparr>"
  define s1 where "s1 = s\<lparr>su_episodes := max (su_episodes s) (ck_episode a), su_interrupted := su_interrupted s + 1, su_stall := su_stall s + 1,
    su_attempts := su_attempts s @ [att]\<rparr>"
  have su: "su_episodes s = int (length (dk_log d))" using e(5) by (simp add: books_def counters_agree_def)
  have b: "books (dk_log d @ [k]) s1"
    by (rule books_snoc [OF e(5), of _ att])
      (use e(5) su ep in \<open>simp_all add: s1_def att_def k_def committed_as_def recovered_attempt_def books_def counters_agree_def counted_statuses_def\<close>)
  have rec: "already_recorded s1 a" by (simp add: s1_def already_recorded_def att_def recovered_attempt_def)
  let ?pre = "[Save_Active a1, Write_Record, Stage_Record, Commit k, Save_Active (a1\<lparr>ck_phase := ''recorded''\<rparr>)]"
  have pre: "safe ?pre d \<and> dk_active (write_all ?pre d) = Some (a1\<lparr>ck_phase := ''recorded''\<rparr>)
      \<and> episode_committed (write_all ?pre d) (a1\<lparr>ck_phase := ''recorded''\<rparr>) \<and> dk_log (write_all ?pre d) = dk_log d @ [k]"
    using e ep by (auto simp: a1_def k_def disk_defs episode_committed_def committed_by_def)
  have "ws = ?pre @ close_recovery a s1 d1 \<and> r = Inr s1"
    using assms(3) e(7) no by (auto simp: interrupt_episode_def record_outcome_def Let_def a1_def k_def s1_def att_def)
  moreover have "safe (close_recovery a s1 d1) (write_all ?pre d) \<and> closed_books (write_all (close_recovery a s1 d1) (write_all ?pre d)) s1"
    by (rule close_recovery_ok [of _ "a1\<lparr>ck_phase := ''recorded''\<rparr>"])
      (use pre safe_result [of ?pre d] b rec in \<open>simp_all add: a1_def already_recorded_def\<close>)
  ultimately show ?thesis using pre by auto
qed

lemma completed_none: "recover_completed c i s a d = (ws, Inr None) \<Longrightarrow> ws = []"
  by (auto simp: recover_completed_def split: if_split_asm prod.splits sum.splits option.splits)

lemma recover_cases:
  assumes "recover_interrupted c i s a d = (ws, r)"
  obtains (fast) e where "ck_mode a = ''fast''" "ws = []" "r = Inl e"
  | (committed) q where "revision d \<noteq> ck_base a" "recover_committed c i s a d = (ws, q)" "r = map_sum id (Pair None) q"
  | (completed) ws1 q where "revision d = ck_base a" "recover_completed c i s a (write_all (rollback a d) d) = (ws1, q)" "q \<noteq> Inr None"
      "ws = rollback a d @ ws1" "r = map_sum id (\<lambda>s1. (None, the s1)) q"
  | (resumed) "revision d = ck_base a" "ws = rollback a d @ [Save_Active (explored_again a)]" "r = Inr (Some (explored_again a), s)"
  | (interrupted) ws2 q where "revision d = ck_base a" "interrupt_episode c i s a (write_all (rollback a d) d) = (ws2, q)"
      "ws = rollback a d @ ws2" "r = map_sum id (Pair None) q"
proof -
  obtain ws1 q where q: "recover_completed c i s a (write_all (rollback a d) d) = (ws1, q)" by fastforce
  obtain ws2 q2 where q2: "interrupt_episode c i s a (write_all (rollback a d) d) = (ws2, q2)" by fastforce
  obtain ws3 q3 where q3: "recover_committed c i s a d = (ws3, q3)" by fastforce
  note eq = assms [unfolded recover_interrupted_def q q2 q3]
  consider "ck_mode a = ''fast''" | "ck_mode a \<noteq> ''fast''" "resumable i a d" | "ck_mode a \<noteq> ''fast''" "\<not> resumable i a d" "revision d \<noteq> ck_base a"
    | "ck_mode a \<noteq> ''fast''" "\<not> resumable i a d" "revision d = ck_base a" by blast
  then show thesis
  proof cases
    case 1
    with eq fast show ?thesis by auto
  next
    case 2
    then have "revision d = ck_base a" by (simp add: resumable_def)
    with 2 eq q completed_none [of c i s a _ ws1] completed [OF _ q] resumed show ?thesis
      by (cases q) (auto split: option.splits)
  next
    case 3
    with eq committed [of q3] show ?thesis by (cases q3) (auto simp: q3)
  next
    case 4
    show ?thesis
    proof (cases "known_tree a d \<and> q \<noteq> Inr None")
      case True
      with 4 eq completed [OF _ q] show ?thesis by (cases q) auto
    next
      case False
      then have "(if known_tree a d then (ws1, q) else ([], Inr None)) = ([], Inr None)"
        using q completed_none [of c i s a _ ws1] by auto
      with 4 eq interrupted [OF _ q2] show ?thesis by (cases q2) auto
    qed
  qed
qed

lemma rollback_engaged:
  assumes "disk_sound d" "dk_active d = Some a" "pending d a" "books (dk_log d) s"
  shows "engaged (write_all (rollback a d) d) a s" "safe (rollback a d) d" "revision (write_all (rollback a d) d) = revision d"
proof -
  have "underway d a s" using assms by (simp add: underway_def)
  with assms(3) underway_reset [of d a s] show "engaged (write_all (rollback a d) d) a s" "safe (rollback a d) d"
    by (auto simp: rollback_def engaged_underway pending_def dirty_def underway_sound)
  show "revision (write_all (rollback a d) d) = revision d" by (simp add: rollback_def revision_def)
qed

lemma recover_interrupted_ok:
  assumes "disk_sound d" "dk_active d = Some a" "state_loaded d s" "recover_interrupted c i s a d = (ws, r)"
  shows "safe ws d \<and> (\<forall>p s'. r = Inr (p, s') \<longrightarrow> recovered_to (write_all ws d) p s')"
proof -
  have a: "ck_mode a \<noteq> ''fast''" "pending d a \<or> episode_committed d a" using assms(1,2) by (auto simp: disk_sound_def)
  have e: "engaged (write_all (rollback a d) d) a s" "safe (rollback a d) d" if "revision d = ck_base a"
  proof -
    have p: "pending d a" using that a(2) by (auto simp: episode_committed_def revision_def)
    then have "books (dk_log d) s" using loaded_books [OF assms(3)] by (simp add: pending_def)
    with rollback_engaged [OF assms(1,2) p] show "engaged (write_all (rollback a d) d) a s" "safe (rollback a d) d" by blast+
  qed
  from assms(4) show ?thesis
  proof (cases rule: recover_cases)
    case fast
    with a(1) show ?thesis by simp
  next
    case (committed q)
    with recover_committed_ok [OF assms(1,2) committed(1) assms(3) committed(2)] show ?thesis
      by (cases q) (auto simp: recovered_to_def)
  next
    case (completed ws1 q)
    with recover_completed_ok [OF e(1) [OF completed(1)] completed(2)] e(2) show ?thesis
      by (cases q) (auto simp: recovered_to_def)
  next
    case resumed
    have "engaged (write_disk (Save_Active (explored_again a)) (write_all (rollback a d) d)) (explored_again a) s"
      unfolding engaged_underway explored_again_def
      by (intro conjI underway_save [of _ a]) (use e(1) [OF resumed(1)] in \<open>simp_all add: engaged_underway\<close>)
    with resumed e engaged_ok show ?thesis by (auto simp: recovered_to_def explored_again_def)
  next
    case (interrupted ws2 q)
    with interrupt_episode_ok [OF e(1) [OF interrupted(1)] assms(3) interrupted(2) refl] e(2) show ?thesis
      by (cases q) (auto simp: recovered_to_def)
  qed
qed

lemma recovery_resumes:
  assumes "recover_interrupted c i s a d = (ws, Inr (Some b, s1))"
  shows "b = explored_again a
    \<and> dk_record (write_all ws d) = (if ck_phase a = ''promoting'' \<and> dk_record d = Staged then No_Record else dk_record d)"
  using assms
proof (cases rule: recover_cases)
  case (committed q)
  then show ?thesis by (cases q) auto
next
  case (completed ws1 q)
  then show ?thesis by (cases q) auto
next
  case resumed
  then show ?thesis by (auto simp: rollback_def dirty_def)
next
  case (interrupted ws2 q)
  then show ?thesis by (cases q) auto
qed simp

section \<open>Processes are safe\<close>

lemma loop_from:
  "recovered_to d p s \<Longrightarrow> \<forall>i\<in>set inputs. 0 \<le> ei_latest i \<Longrightarrow> campaign_loop c start inputs p s d = (ws, r) \<Longrightarrow> safe ws d"
  by (rule loop_ok) (auto simp: recovered_to_def split: option.splits)

lemma starting_loaded: "state_loaded d (starting_state p d)"
  unfolding state_loaded_def
  by (rule exI [of _ "if su_episodes (load_state d) = 0 \<and> su_stall (load_state d) = 0 then pi_restored p else su_stall (load_state d)"])
    (simp add: starting_state_def Let_def)

lemma run_campaign_ok:
  assumes "disk_sound d" "\<forall>i\<in>set (pi_episodes p). 0 \<le> ei_latest i" "run_campaign c p d = (ws, r)"
  shows "safe ws d"
proof -
  let ?s = "starting_state p d"
  have s: "state_loaded d ?s" by (rule starting_loaded)
  show ?thesis
  proof (cases "dk_active d")
    case None
    with assms(1) loaded_books [OF s] have "recovered_to d None ?s" by (auto simp: recovered_to_def closed_books_def disk_sound_def)
    with assms(2,3) None show ?thesis by (auto simp: run_campaign_def Let_def intro: loop_from)
  next
    case (Some a)
    obtain ws1 q where q: "recover_interrupted c (pi_recovery p) ?s a d = (ws1, q)" by fastforce
    note rc = recover_interrupted_ok [OF assms(1) Some s q]
    show ?thesis
    proof (cases q)
      case (Inl e)
      with assms(3) Some q rc show ?thesis by (auto simp: run_campaign_def Let_def)
    next
      case (Inr ps)
      obtain pend s1 where ps: "ps = (pend, s1)" by fastforce
      obtain ws2 r2 where l: "campaign_loop c (su_episodes s1) (pi_episodes p) pend s1 (write_all ws1 d) = (ws2, r2)" by fastforce
      have "safe ws2 (write_all ws1 d)" by (rule loop_from [OF _ assms(2) l]) (use rc Inr ps in simp)
      with assms(3) Some q rc Inr ps l show ?thesis by (auto simp: run_campaign_def Let_def)
    qed
  qed
qed

definition baselined :: "(process_input \<times> nat) list \<Rightarrow> bool" where
  \<comment> \<open>the baseline version exists whenever an episode starts\<close>
  "baselined ps \<longleftrightarrow> (\<forall>(p, k)\<in>set ps. \<forall>i\<in>set (pi_episodes p). 0 \<le> ei_latest i)"

lemma process_runs_ok: "disk_sound d \<Longrightarrow> baselined ps \<Longrightarrow> disk_sound (process_runs c ps d)"
proof (induction ps arbitrary: d)
  case (Cons pk ps)
  obtain p k where pk: "pk = (p, k)" by fastforce
  obtain ws r where w: "run_campaign c p d = (ws, r)" by fastforce
  have "safe ws d" using run_campaign_ok [OF Cons.prems(1) _ w] Cons.prems(2) pk by (auto simp: baselined_def)
  then have "disk_sound (write_all (take k ws) d)" by (simp add: safe_def)
  with Cons pk w show ?case by (simp add: baselined_def)
qed simp

definition new_disk :: disk where
  "new_disk = \<lparr>dk_log = [], dk_squash = None, dk_record = No_Record, dk_active = None, dk_state = None, dk_stall = None, dk_trees = []\<rparr>"

lemma new_disk_ok: "disk_sound new_disk"
  by (simp add: new_disk_def disk_defs books_def counters_agree_def tally_def tokens_receipted_def new_supervisor_def dict_wf_def)

section \<open>Promotions\<close>

fun promotions :: "disk \<Rightarrow> disk_write list \<Rightarrow> (int \<times> string option) list" where
  \<comment> \<open>the episodes whose promotion is committed, each with the candidate whose squash it commits\<close>
  "promotions d [] = []"
| "promotions d (w # ws) =
     (case w of Commit (Promotion e v) \<Rightarrow> [(e, dk_squash d)] | _ \<Rightarrow> []) @ promotions (write_disk w d) ws"

lemma promotions_append [simp]: "promotions d (xs @ ys) = promotions d xs @ promotions (write_all xs d) ys"
  by (induction xs arbitrary: d) auto

definition promotable :: "long_campaign \<Rightarrow> trial \<Rightarrow> handoff \<Rightarrow> bool" where
  "promotable c t h \<longleftrightarrow> ho_status h = ''candidate_ready'' \<and> tl_diagnosis t h = [] \<and> tl_violation t (ho_candidate h) = [] \<and> tl_policy t = []
     \<and> tl_capture t = None \<and> (\<exists>passed parity. tl_verified t (ho_candidate h) = Inr (passed, parity) \<and> (passed \<or> ca_converts c \<and> parity))"

definition session_handoff :: "long_campaign \<Rightarrow> episode_input \<Rightarrow> handoff \<Rightarrow> bool" where
  \<comment> \<open>the session of the episode succeeded with this handoff\<close>
  "session_handoff c i h \<longleftrightarrow> (\<exists>s m n res. run_session (episode_plan c i s m) (ei_session i) (ei_opened i) (ei_rounds i) = (n, Some (Inr res))
     \<and> sr_handoff res = Some h \<and> sr_exit res = 0 \<and> \<not> sr_timed_out res)"

definition first_episode :: "long_campaign \<Rightarrow> process_input \<Rightarrow> disk \<Rightarrow> int" where
  \<comment> \<open>the episode that the first of the inputs is for\<close>
  "first_episode c p d = int (revision (case dk_active d of
       None \<Rightarrow> d
     | Some a \<Rightarrow> write_all (fst (recover_interrupted c (pi_recovery p) (starting_state p d) a d)) d)) + 1"

definition episode_judged :: "long_campaign \<Rightarrow> process_input \<Rightarrow> disk \<Rightarrow> int \<Rightarrow> trial \<Rightarrow> handoff \<Rightarrow> bool" where
  \<comment> \<open>what a process judges for an episode: the handoff it recovers, or that of the session it runs for it\<close>
  "episode_judged c p d e t h \<longleftrightarrow>
     (\<exists>a. dk_active d = Some a \<and> ck_episode a = e \<and> t = ri_trial (pi_recovery p)
        \<and> recovered_handoff (pi_recovery p) = Inr (Some h) \<and> ri_check (pi_recovery p) h = Inr [])
   \<or> (\<exists>k<length (pi_episodes p). e = first_episode c p d + int k \<and> t = ei_trial (pi_episodes p ! k) \<and> session_handoff c (pi_episodes p ! k) h)"

lemma no_promotions: "\<forall>w\<in>set ws. \<forall>e v. w \<noteq> Commit (Promotion e v) \<Longrightarrow> promotions d ws = []"
  by (induction ws arbitrary: d) (auto split: disk_write.splits commit.splits)

lemma usage_plain: "usage_writes receipt ns s = (ws, s1) \<Longrightarrow> promotions d ws = []"
  by (induction ns arbitrary: s ws d) (auto simp: Let_def split: prod.splits)

lemma assess_plain: "assess_handoff t conversion a h = (ws, a1, r) \<Longrightarrow> promotions d ws = [] \<and> ck_episode a1 = ck_episode a"
  by (auto simp: assess_handoff_def Let_def split: if_split_asm)

lemma judge_plain: "judge_result t conversion a res = (ws, a1, r) \<Longrightarrow> promotions d ws = [] \<and> ck_episode a1 = ck_episode a"
  by (auto simp: judge_result_def dest: assess_plain split: if_split_asm option.splits)

lemma assess_accepts:
  "assess_handoff t (conversion_required c n g) a h = (ws, a1, Inr (v, ver, True)) \<Longrightarrow> tl_capture t = None \<Longrightarrow> promotable c t h"
  by (auto simp: assess_handoff_def promotable_def conversion_required_def Let_def split: if_split_asm sum.splits)

lemma judge_accepts:
  assumes "judge_result t (conversion_required c n g) a res = (ws, a1, Inr (v, ver, True))" "tl_capture t = None"
  shows "\<exists>h. sr_handoff res = Some h \<and> promotable c t h \<and> sr_exit res = 0 \<and> \<not> sr_timed_out res"
  using assms by (auto simp: judge_result_def dest: assess_accepts split: if_split_asm option.splits)

lemma record_promotes:
  assumes "record_terminal c t s a status x (v, ver, acc) paid tokens recovered d0 = (ws, r)" "(e, y) \<in> set (promotions d ws)"
  shows "e = ck_episode a \<and> y = Some x \<and> acc \<and> tl_capture t = None"
proof -
  obtain ws1 made where p: "promote_candidate t a x d0 = (ws1, made)" by fastforce
  have "made \<Longrightarrow> ws1 = [Start_Squash x, Write_Record, Stage_Record, Commit (Promotion (ck_episode a) (ck_version a))]"
    using p promotion_done [of t a x d0 ws1] by simp
  moreover have "promotions d' ws1 = []" if "\<not> made" for d'
    using p that promotion_undone [of t a x d0 ws1] by (intro no_promotions) auto
  ultimately show ?thesis
    using assms p by (cases made) (auto simp: record_terminal_def record_outcome_def Let_def split: if_split_asm)
qed

lemma episode_promotes:
  assumes "run_episode c i s a (conversion_required c n g) d0 = (ws, r)" "(e, x) \<in> set (promotions d ws)"
  shows "e = ck_episode a \<and> (\<exists>h. session_handoff c i h \<and> x = Some (ho_candidate h) \<and> promotable c (ei_trial i) h)"
proof -
  obtain run outcome where run: "run_session (episode_plan c i s (ck_mode a)) (ei_session i) (ei_opened i) (ei_rounds i) = (run, outcome)"
    by fastforce
  obtain ws0 s1 where w: "usage_writes (ei_receipt i) (case run of Some n \<Rightarrow> recorded_totals (rn_trace n) | None \<Rightarrow> []) s = (ws0, s1)"
    by fastforce
  note u = usage_plain [OF w]
  have "\<exists>res. outcome = Some (Inr res)"
    using assms u by (cases outcome) (auto simp: run_episode_def run w split: sum.splits)
  then obtain res where res: "outcome = Some (Inr res)" by blast
  obtain ws1 a1 j where j: "judge_result (ei_trial i) (conversion_required c n g) a res = (ws1, a1, j)"
    by (cases "judge_result (ei_trial i) (conversion_required c n g) a res")
  note plain = judge_plain [OF j]
  define status where "status = (case sr_handoff res of Some h \<Rightarrow> ho_status h | None \<Rightarrow> ''invalid_handoff'')"
  define y where "y = (case sr_handoff res of Some h \<Rightarrow> ho_candidate h | None \<Rightarrow> [])"
  note eq = assms(1) [unfolded run_episode_def run w res, simplified prod.case w option.case sum.case, unfolded Let_def status_def [symmetric] y_def [symmetric] j, simplified]
  obtain v where v: "j = Inr v" using eq assms(2) u plain by (cases j) auto
  obtain ws2 q where q: "record_terminal c (ei_trial i) (record_usage s1 (ei_receipt i) (sr_tokens res)) a1 status y v True (sr_tokens res) False d0 =
    (ws2, q)" by fastforce
  have "\<exists>d'. (e, x) \<in> set (promotions d' ws2)" using eq assms(2) u plain by (auto simp: v q split: option.splits)
  with q record_promotes [of c "ei_trial i" _ a1 status y "fst v" "fst (snd v)" "snd (snd v)"]
  have p: "e = ck_episode a1" "x = Some y" "snd (snd v)" "tl_capture (ei_trial i) = None" by auto
  from p(3,4) judge_accepts [of "ei_trial i" c n g a res ws1 a1 "fst v" "fst (snd v)"] j v obtain h where
    h: "sr_handoff res = Some h" "promotable c (ei_trial i) h" "sr_exit res = 0" "\<not> sr_timed_out res" by (cases v) auto
  have "session_handoff c i h" unfolding session_handoff_def using run res h by blast
  with p(1,2) plain h show ?thesis by (auto simp: y_def)
qed

lemma loop_promotes:
  "campaign_loop c start inputs p s d = (ws, r) \<Longrightarrow> (case p of Some a \<Rightarrow> engaged d a s | None \<Rightarrow> closed_books d s)
    \<Longrightarrow> \<forall>i\<in>set inputs. 0 \<le> ei_latest i \<Longrightarrow> (e, x) \<in> set (promotions d ws)
    \<Longrightarrow> \<exists>k<length inputs. e = int (revision d) + 1 + int k
      \<and> (\<exists>h. session_handoff c (inputs ! k) h \<and> x = Some (ho_candidate h) \<and> promotable c (ei_trial (inputs ! k)) h)"
proof (induction inputs arbitrary: p s d ws r)
  case (Cons i inputs)
  have go: "stop_before c start i s = None" using Cons.prems(1,4) by (auto split: option.splits)
  obtain ws0 a where b: "(case p of Some a \<Rightarrow> ([], a) | None \<Rightarrow> begin_episode c i s (revision d)) = (ws0, a)" by fastforce
  have plain: "promotions d ws0 = []" using b by (auto simp: begin_episode_def Let_def split: option.splits)
  have en: "engaged (write_all ws0 d) a s" "revision (write_all ws0 d) = revision d"
    using b Cons.prems(2,3) begin_episode_ok by (auto split: option.splits)
  then have ep: "ck_episode a = int (revision d) + 1" by (simp add: engaged_def pending_def)
  obtain ws1 q where q: "run_episode c i s a (conversion_required c (su_stall s) (ei_head_gluon i)) (write_all ws0 d) = (ws1, q)" by fastforce
  note ok = run_episode_ok [OF en(1) q refl]
  show ?case
  proof (cases "(e, x) \<in> set (promotions (write_all ws0 d) ws1)")
    case True
    with episode_promotes [OF q] ep show ?thesis by (intro exI [of _ 0]) auto
  next
    case False
    with Cons.prems(1,4) go b q plain obtain s1 y z ws2 r2 where l: "q = Some (s1, y, z)"
      "campaign_loop c start inputs None s1 (write_all (ws0 @ ws1) d) = (ws2, r2)" "(e, x) \<in> set (promotions (write_all (ws0 @ ws1) d) ws2)"
      by (auto simp: Let_def split: option.splits prod.splits)
    have "\<exists>k<length inputs. e = int (revision (write_all (ws0 @ ws1) d)) + 1 + int k
      \<and> (\<exists>h. session_handoff c (inputs ! k) h \<and> x = Some (ho_candidate h) \<and> promotable c (ei_trial (inputs ! k)) h)"
      by (rule Cons.IH [OF l(2) _ _ l(3)]) (use ok l(1) Cons.prems(3) in auto)
    then obtain k where "k < length inputs" "e = int (revision (write_all (ws0 @ ws1) d)) + 1 + int k"
      "\<exists>h. session_handoff c (inputs ! k) h \<and> x = Some (ho_candidate h) \<and> promotable c (ei_trial (inputs ! k)) h" by blast
    with ok l(1) en(2) show ?thesis by (intro exI [of _ "Suc k"]) auto
  qed
qed simp

lemma completed_promotes:
  assumes "recover_completed c i s a d0 = (ws, r)" "(e, x) \<in> set (promotions d ws)"
  shows "e = ck_episode a \<and> (\<exists>h. recovered_handoff i = Inr (Some h) \<and> ri_check i h = Inr [] \<and> x = Some (ho_candidate h)
    \<and> promotable c (ri_trial i) h)"
proof -
  obtain h where h: "recovered_handoff i = Inr (Some h)" "ri_check i h = Inr []" "ck_version a > 0"
    using assms by (auto simp: recover_completed_def split: sum.splits option.splits if_split_asm)
  obtain ws1 a1 j where j: "assess_handoff (ri_trial i) (conversion_required c (su_stall s) (ri_head_gluon i)) a h = (ws1, a1, j)"
    by (cases "assess_handoff (ri_trial i) (conversion_required c (su_stall s) (ri_head_gluon i)) a h")
  note plain = assess_plain [OF j]
  obtain v where v: "j = Inr v" using assms h j plain by (cases j) (auto simp: recover_completed_def)
  obtain ws2 q where q: "record_terminal c (ri_trial i) s a1 (ho_status h) (ho_candidate h) v False 0 True d0 = (ws2, q)" by fastforce
  have "\<exists>d'. (e, x) \<in> set (promotions d' ws2)"
    using assms h j v q plain by (auto simp: recover_completed_def split: option.splits prod.splits)
  with q record_promotes [of c "ri_trial i" s a1 "ho_status h" "ho_candidate h" "fst v" "fst (snd v)" "snd (snd v)"]
  have "e = ck_episode a1" "x = Some (ho_candidate h)" "snd (snd v)" "tl_capture (ri_trial i) = None" by auto
  with h j v plain assess_accepts [of "ri_trial i" c "su_stall s" "ri_head_gluon i" a h ws1 a1 "fst v" "fst (snd v)"]
  show ?thesis by (cases v) auto
qed

lemma recovery_promotes:
  assumes "recover_interrupted c i s a d = (ws, r)" "(e, x) \<in> set (promotions d ws)"
  shows "e = ck_episode a \<and> (\<exists>h. recovered_handoff i = Inr (Some h) \<and> ri_check i h = Inr [] \<and> x = Some (ho_candidate h)
    \<and> promotable c (ri_trial i) h)"
proof -
  have plain: "promotions d' (rollback a d) = []" for d' by (simp add: rollback_def)
  have interrupted: "promotions d' ws' = []" if "interrupt_episode c i s a d1 = (ws', r')" for ws' r' d1 d'
    using that by (intro no_promotions) (auto simp: interrupt_episode_def record_outcome_def close_recovery_def Let_def split: if_split_asm)
  have committed: "promotions d' ws' = []" if "recover_committed c i s a d1 = (ws', r')" for ws' r' d1 d'
    using that by (intro no_promotions) (auto simp: recover_committed_def close_recovery_def Let_def split: option.splits if_split_asm)
  from assms(1) show ?thesis
  proof (cases rule: recover_cases)
    case (completed ws1 q)
    with assms(2) plain completed_promotes [OF completed(2)] show ?thesis by auto
  qed (use assms(2) plain interrupted committed in auto)
qed

lemma campaign_promotes:
  assumes "disk_sound d" "\<forall>i\<in>set (pi_episodes p). 0 \<le> ei_latest i" "run_campaign c p d = (ws, r)" "(e, x) \<in> set (promotions d ws)"
  shows "\<exists>t h. episode_judged c p d e t h \<and> x = Some (ho_candidate h) \<and> promotable c t h"
proof (cases "dk_active d")
  case None
  let ?s = "starting_state p d"
  have "closed_books d ?s" using assms(1) None loaded_books [OF starting_loaded, of "dk_log d" p d]
    by (auto simp: closed_books_def disk_sound_def)
  with loop_promotes [of c "su_episodes ?s" "pi_episodes p" None ?s d ws r e x] assms(2-4) None show ?thesis
    by (fastforce simp: run_campaign_def Let_def episode_judged_def first_episode_def)
next
  case (Some a)
  let ?s = "starting_state p d"
  obtain ws1 q where q: "recover_interrupted c (pi_recovery p) ?s a d = (ws1, q)" by fastforce
  show ?thesis
  proof (cases "(e, x) \<in> set (promotions d ws1)")
    case True
    with recovery_promotes [OF q] Some show ?thesis by (fastforce simp: episode_judged_def)
  next
    case False
    with assms(3,4) Some q obtain pend s1 where ps: "q = Inr (pend, s1)" by (cases q) (auto simp: run_campaign_def Let_def)
    obtain ws2 r2 where l: "campaign_loop c (su_episodes s1) (pi_episodes p) pend s1 (write_all ws1 d) = (ws2, r2)" by fastforce
    with assms(3,4) Some q ps False have "(e, x) \<in> set (promotions (write_all ws1 d) ws2)" by (auto simp: run_campaign_def Let_def)
    moreover have "recovered_to (write_all ws1 d) pend s1"
      using recover_interrupted_ok [OF assms(1) Some starting_loaded q] ps by blast
    ultimately have "\<exists>k<length (pi_episodes p). e = int (revision (write_all ws1 d)) + 1 + int k
      \<and> (\<exists>h. session_handoff c (pi_episodes p ! k) h \<and> x = Some (ho_candidate h) \<and> promotable c (ei_trial (pi_episodes p ! k)) h)"
      by (intro loop_promotes [OF l _ assms(2)]) (auto simp: recovered_to_def split: option.splits)
    with Some q show ?thesis by (fastforce simp: episode_judged_def first_episode_def)
  qed
qed

section \<open>Usage\<close>

lemma usage_writes_tokens:
  "usage_writes receipt ns s = (ws, s1) \<Longrightarrow>
     dict_get_default (su_receipts s1) receipt 0 = foldl max (dict_get_default (su_receipts s) receipt 0) (map (max 0) ns)
     \<and> su_tokens s1 - dict_get_default (su_receipts s1) receipt 0 = su_tokens s - dict_get_default (su_receipts s) receipt 0"
proof (induction ns arbitrary: s ws)
  case (Cons n ns)
  obtain ws' where w: "usage_writes receipt ns (record_usage s receipt n) = (ws', s1)" using Cons.prems by (auto simp: Let_def split: prod.splits)
  from Cons.IH [OF w] show ?case by (simp add: record_usage_def Let_def dict_get_default_def dict_simps)
qed simp

lemma foldl_max_le: "m \<le> t \<Longrightarrow> \<forall>n\<in>set ns. n \<le> t \<Longrightarrow> foldl max m ns \<le> (t :: int)"
  by (induction ns arbitrary: m) auto

lemma running_totals_le: "\<forall>x\<in>set xs. 0 \<le> x \<Longrightarrow> \<forall>k\<in>set (running_totals n xs). k \<le> n + sum_list xs"
proof (induction xs arbitrary: n)
  case (Cons x xs)
  then have "0 \<le> sum_list xs" by (simp add: sum_list_nonneg)
  with Cons.IH [of "n + x"] Cons.prems show ?case by (auto simp: add.assoc)
qed simp

section \<open>A demonstration\<close>

text \<open>A process is cut when it has begun an episode; the next one recovers the handoff and is cut between the commit and the state.\<close>

definition demo_campaign :: long_campaign where
  "demo_campaign = \<lparr>ca_goal = False, ca_max_version = None, ca_max_episodes = 8, ca_episode_limit = 0, ca_token_budget = 0, ca_resumes = 2,
     ca_max_stall = 0, ca_converts = False, ca_convert_after = 0\<rparr>"

definition demo_trial :: trial where
  "demo_trial = \<lparr>tl_diagnosis = (\<lambda>h. []), tl_violation = (\<lambda>x. []), tl_gluon = False, tl_policy = [], tl_verified = (\<lambda>x. Inr (True, False)),
     tl_capture = None, tl_stops = None, tl_target = False\<rparr>"

definition demo_recovery :: recovery_input where
  "demo_recovery = \<lparr>ri_intact = True, ri_audit = None,
     ri_loads = (\<lambda>text. Some (VDict [(''status'', VStr ''candidate_ready''), (''candidate_commit'', VStr ''c'')])),
     ri_handoff = Content ''x'', ri_republished = Inr False, ri_restored = Missing, ri_check = (\<lambda>h. Inr []), ri_head_gluon = False, ri_candidate = [],
     ri_trial = demo_trial\<rparr>"

definition demo_episode :: episode_input where
  "demo_episode = \<lparr>ei_latest = 0, ei_head_gluon = False, ei_branch = ''b'', ei_path = ''w'', ei_receipt = ''r'', ei_session = ''a'',
     ei_plan = demo_plan, ei_opened = Inl (cancelled_error []), ei_rounds = [], ei_trial = demo_trial\<rparr>"

definition demo_life :: "episode_input list \<Rightarrow> process_input" where
  "demo_life inputs = \<lparr>pi_restored = 0, pi_recovery = demo_recovery, pi_episodes = inputs\<rparr>"

definition demo_checkpoint :: "string \<Rightarrow> active_episode" where
  "demo_checkpoint phase = \<lparr>ck_episode = 1, ck_version = 1, ck_base = 0, ck_branch = ''b'', ck_path = ''w'', ck_mode = ''episode'',
     ck_phase = phase, ck_terminal = [], ck_from = [], ck_restarts = 0\<rparr>"

definition demo_begun :: disk where
  "demo_begun = new_disk\<lparr>dk_active := Some (demo_checkpoint ''exploring''), dk_trees := [''w'']\<rparr>"

definition demo_committed :: disk where
  "demo_committed = new_disk\<lparr>dk_active := Some (demo_checkpoint ''promoting''), dk_trees := [''w''], dk_log := [Promotion 1 1]\<rparr>"

lemma demo_begins: "process_runs demo_campaign [(demo_life [demo_episode], 3)] new_disk = demo_begun"
proof -
  have "run_session (episode_plan demo_campaign demo_episode s m) (ei_session demo_episode) (ei_opened demo_episode) (ei_rounds demo_episode) =
      (None, Some (Inl (cancelled_error [])))" for s m
    by (simp add: run_session_def retry_limit_def episode_plan_def demo_episode_def demo_plan_def)
  then have "run_episode demo_campaign demo_episode s a conversion head = ([], None)" for s a conversion head
    by (simp add: run_episode_def)
  moreover have "stop_before demo_campaign 0 demo_episode new_supervisor = None"
    by (simp add: stop_before_def demo_campaign_def new_supervisor_def)
  moreover have "begin_episode demo_campaign demo_episode new_supervisor 0 =
      ([Save_Active (demo_checkpoint ''preparing''), Add_Tree ''w'', Save_Active (demo_checkpoint ''exploring'')], demo_checkpoint ''exploring'')"
    by (simp add: begin_episode_def demo_episode_def demo_checkpoint_def demo_campaign_def episode_mode_def new_supervisor_def Let_def)
  moreover have "starting_state (demo_life inputs) new_disk = new_supervisor" for inputs
    by (simp add: starting_state_def load_state_def new_disk_def new_supervisor_def demo_life_def)
  moreover have "su_episodes new_supervisor = 0" "dk_active new_disk = None" "revision new_disk = 0" "pi_episodes (demo_life inputs) = inputs" for inputs
    by (simp_all add: new_supervisor_def new_disk_def revision_def demo_life_def)
  ultimately show ?thesis
    by (simp add: run_campaign_def Let_def demo_begun_def) (simp add: new_disk_def)
qed

lemma demo_opening: "starting_state (demo_life inputs) demo_begun = new_supervisor" "starting_state (demo_life inputs) demo_committed = new_supervisor"
  by (simp_all add: starting_state_def load_state_def demo_begun_def demo_committed_def new_disk_def new_supervisor_def demo_life_def)

lemma demo_recovers:
  "\<exists>rest s1. recover_interrupted demo_campaign demo_recovery new_supervisor (demo_checkpoint ''exploring'') demo_begun =
     ([Save_Active (demo_checkpoint ''verifying''), Save_Active (demo_checkpoint ''promoting''), Start_Squash ''c'', Write_Record,
       Stage_Record, Commit (Promotion 1 1)] @ rest,
      Inr (None, s1))"
proof -
  have h: "recovered_handoff demo_recovery = Inr (Some \<lparr>ho_status = ''candidate_ready'', ho_candidate = ''c'', ho_trial = []\<rparr>)"
    by (simp add: recovered_handoff_def demo_recovery_def read_handoff_def normalize_handoff_def type_among_def get_item_def
      dict_get_default_def handoff_statuses_def Let_def py_strip_def is_space_def char_in_def)
  have t: "assess_handoff demo_trial conversion (demo_checkpoint ''exploring'') \<lparr>ho_status = ''candidate_ready'', ho_candidate = ''c'', ho_trial = []\<rparr> =
      ([Save_Active (demo_checkpoint ''verifying'')], demo_checkpoint ''verifying'', Inr ([], Some True, True))" if "\<not> conversion" for conversion
    using that by (simp add: assess_handoff_def demo_trial_def demo_checkpoint_def Let_def)
  have c: "\<not> conversion_required demo_campaign n g" for n g by (simp add: conversion_required_def demo_campaign_def)
  have r: "\<exists>rest s1. record_terminal demo_campaign demo_trial new_supervisor (demo_checkpoint ''verifying'') ''candidate_ready'' ''c''
      ([], Some True, True) False 0 True demo_begun = ([Save_Active (demo_checkpoint ''promoting''), Start_Squash ''c'', Write_Record,
       Stage_Record, Commit (Promotion 1 1)] @ rest, Some (s1, False))"
    by (auto simp: record_terminal_def promote_candidate_def promotion_steps_def demo_trial_def demo_checkpoint_def demo_begun_def new_disk_def
      revision_def Let_def)
  have "\<exists>rest s1. recover_completed demo_campaign demo_recovery new_supervisor (demo_checkpoint ''exploring'') demo_begun =
      ([Save_Active (demo_checkpoint ''verifying''), Save_Active (demo_checkpoint ''promoting''), Start_Squash ''c'', Write_Record,
       Stage_Record, Commit (Promotion 1 1)] @ rest,
       Inr (Some s1))"
  proof -
    have "ri_check demo_recovery h = Inr []" "ri_trial demo_recovery = demo_trial" "ck_version (demo_checkpoint x) = 1" for h x
      by (simp_all add: demo_recovery_def demo_checkpoint_def)
    with r show ?thesis by (auto simp: recover_completed_def h t c)
  qed
  moreover have "revision demo_begun = 0" "dk_trees demo_begun = [''w'']" "\<not> dirty demo_begun" "ri_intact demo_recovery"
    by (simp_all add: demo_begun_def new_disk_def revision_def dirty_def demo_recovery_def)
  moreover have "ck_mode (demo_checkpoint x) \<noteq> ''fast''" "ck_base (demo_checkpoint x) = 0" "ck_phase (demo_checkpoint ''exploring'') \<in> set resumable_phases"
    "ck_episode (demo_checkpoint x) = 1" "ck_version (demo_checkpoint x) = 1" "ck_path (demo_checkpoint x) = ''w''" "ck_branch (demo_checkpoint x) = ''b''" for x
    by (simp_all add: demo_checkpoint_def resumable_phases_def)
  ultimately show ?thesis by (auto simp: recover_interrupted_def resumable_def known_tree_def rollback_def)
qed

lemma demo_commits: "process_runs demo_campaign [(demo_life [], 6)] demo_begun = demo_committed"
proof -
  obtain rest s1 where r: "recover_interrupted demo_campaign demo_recovery new_supervisor (demo_checkpoint ''exploring'') demo_begun =
     ([Save_Active (demo_checkpoint ''verifying''), Save_Active (demo_checkpoint ''promoting''), Start_Squash ''c'', Write_Record,
       Stage_Record, Commit (Promotion 1 1)] @ rest,
      Inr (None, s1))"
    using demo_recovers by blast
  have "dk_active demo_begun = Some (demo_checkpoint ''exploring'')" "pi_recovery (demo_life []) = demo_recovery" "pi_episodes (demo_life []) = []"
    by (simp_all add: demo_begun_def demo_life_def)
  with r have "\<exists>rest. fst (run_campaign demo_campaign (demo_life []) demo_begun) =
      [Save_Active (demo_checkpoint ''verifying''), Save_Active (demo_checkpoint ''promoting''), Start_Squash ''c'', Write_Record,
       Stage_Record, Commit (Promotion 1 1)] @ rest"
    by (auto simp: run_campaign_def Let_def demo_opening)
  then show ?thesis by (auto simp: demo_begun_def demo_committed_def new_disk_def)
qed

definition demo_recorded :: supervisor where
  "demo_recorded = new_supervisor\<lparr>su_episodes := 1, su_accepted := 1, su_attempts :=
     [recovered_attempt demo_campaign new_supervisor (demo_checkpoint ''promoting'') True [] 1]\<rparr>"

lemma demo_finishes:
  "recover_interrupted demo_campaign demo_recovery new_supervisor (demo_checkpoint ''promoting'') demo_committed =
     ([Remove_Tree ''w'', Save_Stall 0, Save_State demo_recorded, Clear_Active], Inr (None, demo_recorded))"
proof -
  have "promotion_binding demo_committed (demo_checkpoint ''promoting'')" "revision demo_committed = 1" "dk_trees demo_committed = [''w'']"
    by (simp_all add: promotion_binding_def demo_committed_def new_disk_def revision_def demo_checkpoint_def)
  moreover have "\<not> already_recorded new_supervisor a" for a by (simp add: already_recorded_def new_supervisor_def)
  moreover have "ck_mode (demo_checkpoint x) \<noteq> ''fast''" "ck_base (demo_checkpoint x) = 0" "ck_path (demo_checkpoint x) = ''w''"
    "ck_phase (demo_checkpoint x) = x" "ck_terminal (demo_checkpoint x) = []" "ck_episode (demo_checkpoint x) = 1" for x
    by (simp_all add: demo_checkpoint_def)
  moreover have "ri_audit demo_recovery = None" by (simp add: demo_recovery_def)
  moreover have "count_recovered True x s = s\<lparr>su_accepted := su_accepted s + 1, su_stall := 0\<rparr>" for x s
    by (simp add: count_recovered_def)
  ultimately have "recover_interrupted demo_campaign demo_recovery new_supervisor (demo_checkpoint ''promoting'') demo_committed =
      (let s = new_supervisor\<lparr>su_episodes := max (su_episodes new_supervisor) 1, su_accepted := su_accepted new_supervisor + 1, su_stall := 0,
        su_attempts := su_attempts new_supervisor @ [recovered_attempt demo_campaign new_supervisor (demo_checkpoint ''promoting'') True [] 1]\<rparr> in
       ([Remove_Tree ''w'', Save_Stall (su_stall s), Save_State s, Clear_Active], Inr (None, s)))"
    by (simp add: recover_interrupted_def resumable_def recover_committed_def close_recovery_def Let_def)
  moreover have "new_supervisor\<lparr>su_episodes := max (su_episodes new_supervisor) 1, su_accepted := su_accepted new_supervisor + 1, su_stall := 0,
        su_attempts := su_attempts new_supervisor @ [t]\<rparr> = new_supervisor\<lparr>su_episodes := 1, su_accepted := 1, su_attempts := [t]\<rparr>" for t
    by (simp add: new_supervisor_def)
  ultimately show ?thesis by (simp add: demo_recorded_def Let_def) (simp add: new_supervisor_def)
qed

lemma demo_ends:
  "process_runs demo_campaign [(demo_life [], 4)] demo_committed = new_disk\<lparr>dk_log := [Promotion 1 1], dk_state := Some demo_recorded, dk_stall := Some 0\<rparr>"
proof -
  have "dk_active demo_committed = Some (demo_checkpoint ''promoting'')" "pi_recovery (demo_life []) = demo_recovery" "pi_episodes (demo_life []) = []"
    by (simp_all add: demo_committed_def demo_life_def)
  then have "fst (run_campaign demo_campaign (demo_life []) demo_committed) = [Remove_Tree ''w'', Save_Stall 0, Save_State demo_recorded, Clear_Active]"
    by (simp add: run_campaign_def Let_def demo_opening demo_finishes)
  then show ?thesis by (simp add: demo_committed_def new_disk_def)
qed

lemma demo_processes:
  "process_runs demo_campaign [(demo_life [demo_episode], 3), (demo_life [], 6), (demo_life [], 4)] new_disk =
     new_disk\<lparr>dk_log := [Promotion 1 1], dk_state := Some demo_recorded, dk_stall := Some 0\<rparr>"
proof -
  have split: "process_runs c (x # xs) d = process_runs c xs (process_runs c [x] d)" for c x xs d by (cases x) simp
  show ?thesis by (subst split) (subst split, unfold demo_begins demo_commits demo_ends, rule refl)
qed

lemma demo_baselined: "baselined [(demo_life [demo_episode], 3), (demo_life [], 6), (demo_life [], 4)]"
  by (simp add: baselined_def demo_life_def demo_episode_def)

lemma demo_promotes:
  "\<exists>ws r. run_campaign demo_campaign (demo_life []) demo_begun = (ws, r) \<and> (1, Some ''c'') \<in> set (promotions demo_begun ws)"
proof -
  have "dk_active demo_begun = Some (demo_checkpoint ''exploring'')" "pi_recovery (demo_life []) = demo_recovery" "pi_episodes (demo_life []) = []"
    by (simp_all add: demo_begun_def demo_life_def)
  with demo_recovers show ?thesis by (auto simp: run_campaign_def Let_def demo_opening)
qed

section \<open>Properties\<close>

text \<open>
  C5: Every episode of a campaign is committed once and recorded once.  However often its processes are killed, and after whichever
  write, the history of commits holds the episodes 1, 2, 3, \<dots> in order, and the attempts in the supervisor's state are these
  commits, but for the last one while its episode is still marked as active; once none is active they agree exactly.
\<close>

theorem episodes_recorded_once:
  assumes "baselined ps"
  shows "map episode_of (dk_log (process_runs c ps new_disk)) = map (\<lambda>k. int k + 1) [0 ..< length (dk_log (process_runs c ps new_disk))]
    \<and> (let d = process_runs c ps new_disk; recorded = map committed_as (su_attempts (load_state d)) in
         case dk_active d of
           None \<Rightarrow> recorded = dk_log d
         | Some a \<Rightarrow> recorded = dk_log d
             \<or> recorded = butlast (dk_log d) \<and> dk_log d \<noteq> [] \<and> ck_episode a = int (length (dk_log d)) \<and> committed_by a (last (dk_log d)))"
proof -
  have "disk_sound (process_runs c ps new_disk)" by (rule process_runs_ok [OF new_disk_ok assms])
  then show ?thesis
    by (auto simp: disk_sound_def in_order_def pending_def episode_committed_def books_def Let_def split: option.splits)
qed

theorem episodes_recorded_once_witness:
  "let d = process_runs demo_campaign [(demo_life [demo_episode], 3), (demo_life [], 6), (demo_life [], 4)] new_disk in
     dk_log d = [Promotion 1 1] \<and> dk_active d = None \<and> map committed_as (su_attempts (load_state d)) = [Promotion 1 1]"
  using episodes_recorded_once [OF demo_baselined, of demo_campaign] unfolding demo_processes by (simp add: new_disk_def Let_def)

text \<open>
  C6: The supervisor's books balance whenever they are read.  Wherever the processes of a campaign were cut, the counters on disk (accepted,
  rejected, pivoted, blocked, protocol failures, interrupted) are those of the attempts recorded beside them, whether an episode
  was recorded by the process that ran it or by one that recovered it; and the tokens are the sum of the usage receipts.
\<close>

theorem supervisor_balances:
  assumes "baselined ps"
  shows "counters_agree (map committed_as (su_attempts (load_state (process_runs c ps new_disk)))) (load_state (process_runs c ps new_disk))
    \<and> su_tokens (load_state (process_runs c ps new_disk)) = sum_list (map snd (su_receipts (load_state (process_runs c ps new_disk))))"
proof -
  have "disk_sound (process_runs c ps new_disk)" by (rule process_runs_ok [OF new_disk_ok assms])
  then show ?thesis
    by (auto simp: disk_sound_def pending_def episode_committed_def books_def tokens_receipted_def split: option.splits)
qed

theorem supervisor_balances_witness:
  "let s = load_state (process_runs demo_campaign [(demo_life [demo_episode], 3), (demo_life [], 6), (demo_life [], 4)] new_disk) in
     su_accepted s = tally is_promotion (map committed_as (su_attempts s)) \<and> su_accepted s = 1"
  using supervisor_balances [OF demo_baselined, of demo_campaign]
  unfolding demo_processes by (simp add: counters_agree_def load_state_def demo_recorded_def Let_def)

text \<open>
  C7: What is promoted is what was verified.  Whenever a process commits the promotion of an episode, in any state that killed
  processes can leave, the squash it commits is of the candidate named by that episode's own handoff (the one its session
  succeeded with, or the one recovered for it), and exactly this candidate satisfied the episode's contract, the rules of the
  repository and the production policy, its output was captured, and its verification passed, or showed parity in a campaign
  that converts its kernel.
\<close>

theorem promotion_verified:
  assumes "baselined ps" "\<forall>i\<in>set (pi_episodes p). 0 \<le> ei_latest i"
    and "run_campaign c p (process_runs c ps new_disk) = (ws, r)" "(e, x) \<in> set (promotions (process_runs c ps new_disk) ws)"
  shows "\<exists>t h. episode_judged c p (process_runs c ps new_disk) e t h \<and> x = Some (ho_candidate h) \<and> promotable c t h"
  by (rule campaign_promotes [OF process_runs_ok [OF new_disk_ok assms(1)] assms(2-4)])

theorem promotion_verified_witness:
  "\<exists>ws r t h. run_campaign demo_campaign (demo_life []) demo_begun = (ws, r) \<and> (1, Some ''c'') \<in> set (promotions demo_begun ws)
     \<and> episode_judged demo_campaign (demo_life []) demo_begun 1 t h \<and> ho_candidate h = ''c'' \<and> promotable demo_campaign t h"
proof -
  obtain ws r where w: "run_campaign demo_campaign (demo_life []) demo_begun = (ws, r)" "(1, Some ''c'') \<in> set (promotions demo_begun ws)"
    using demo_promotes by blast
  have b: "baselined [(demo_life [demo_episode], 3)]" "\<forall>i\<in>set (pi_episodes (demo_life [])). 0 \<le> ei_latest i"
    by (simp_all add: baselined_def demo_life_def demo_episode_def)
  from promotion_verified [OF b, of demo_campaign, unfolded demo_begins, OF w] w show ?thesis by (metis option.inject)
qed

text \<open>
  C13: Recovery settles what a killed process left behind.  From every disk that processes can leave, a recovery that does not raise
  leaves no squash in the incumbent's worktree and ends in one of two states.  Either nothing is active, the worktree is clean
  and the attempts on disk equal the history; or the same episode is active again, at the same base, to be explored further, and
  then a version record that the killed process had not committed is in the worktree as it left it, unless it was promoting.
\<close>

theorem recovery_settles:
  assumes "baselined ps" "dk_active (process_runs c ps new_disk) = Some a"
    and "recover_interrupted c i (load_state (process_runs c ps new_disk)) a (process_runs c ps new_disk) = (ws, Inr (resumed, s))"
  shows "let d = process_runs c ps new_disk; d' = write_all ws d in dk_squash d' = None \<and> map committed_as (su_attempts s) = dk_log d'
    \<and> (case resumed of
         None \<Rightarrow> dk_active d' = None \<and> \<not> dirty d' \<and> map committed_as (su_attempts (load_state d')) = dk_log d'
       | Some b \<Rightarrow> dk_active d' = Some b \<and> b = explored_again a \<and> revision d' = ck_base a
           \<and> dk_record d' = (if ck_phase a = ''promoting'' \<and> dk_record d = Staged then No_Record else dk_record d))"
proof -
  define d where "d = process_runs c ps new_disk"
  have ok: "disk_sound d" unfolding d_def by (rule process_runs_ok [OF new_disk_ok assms(1)])
  have l: "state_loaded d (load_state d)" unfolding state_loaded_def by (rule exI [of _ "su_stall (load_state d)"]) simp
  note a = assms(2,3) [folded d_def]
  have r: "recovered_to (write_all ws d) resumed s"
    using recover_interrupted_ok [OF ok a(1) l a(2)] by blast
  have "disk_sound (write_all ws d)" using recover_interrupted_ok [OF ok a(1) l a(2)] safe_result by blast
  with r recovery_resumes [of c i "load_state d" a d ws _ s] a(2) show ?thesis unfolding d_def [symmetric]
    by (auto simp: recovered_to_def closed_books_def engaged_def books_def disk_sound_def pending_def dirty_def explored_again_def Let_def split: option.splits)
qed

theorem recovery_settles_witness:
  "let d = process_runs demo_campaign [(demo_life [demo_episode], 3), (demo_life [], 6)] new_disk in
     \<exists>ws s. recover_interrupted demo_campaign demo_recovery (load_state d) (demo_checkpoint ''promoting'') d = (ws, Inr (None, s))
       \<and> dk_active (write_all ws d) = None \<and> map committed_as (su_attempts (load_state (write_all ws d))) = dk_log (write_all ws d)"
proof -
  have d: "process_runs demo_campaign [(demo_life [demo_episode], 3), (demo_life [], 6)] new_disk = demo_committed"
  proof -
    have "process_runs c [x, y] d = process_runs c [y] (process_runs c [x] d)" for c x y d by (cases x) simp
    then show ?thesis by (simp only: demo_begins demo_commits)
  qed
  have b: "baselined [(demo_life [demo_episode], 3), (demo_life [], 6)]" by (simp add: baselined_def demo_life_def demo_episode_def)
  have l: "load_state demo_committed = new_supervisor" "dk_active demo_committed = Some (demo_checkpoint ''promoting'')"
    by (simp_all add: load_state_def demo_committed_def new_disk_def)
  from recovery_settles [OF b, of demo_campaign, unfolded d, OF l(2), unfolded l(1), OF demo_finishes] show ?thesis
    unfolding d l(1) Let_def demo_finishes by simp
qed

text \<open>
  C14: The campaign pays exactly for what its sessions used.  When a session returns under a fresh receipt, the tokens of the
  supervisor have grown by the sum of what its turns used, although each turn's running total was written as soon as it was known and the
  final total once more.
\<close>

theorem session_charged_once:
  assumes "run_session (episode_plan c i s mode) (ei_session i) (ei_opened i) (ei_rounds i) = (Some n, Some (Inr res))"
    and "usage_writes (ei_receipt i) (recorded_totals (rn_trace n)) s = (ws, s1)" "ei_receipt i \<notin> fst ` set (su_receipts s)"
    and "\<forall>t\<in>set (sr_turns res). 0 \<le> counted_tokens (tu_total (ev_usage (tn_evidence (tr_turn t))))"
  shows "su_tokens (record_usage s1 (ei_receipt i) (sr_tokens res)) =
    su_tokens s + sum_list (map (\<lambda>t. counted_tokens (tu_total (ev_usage (tn_evidence (tr_turn t))))) (sr_turns res))"
proof -
  let ?p = "episode_plan c i s mode"
  obtain limit where e: "ended ?p limit n" by (rule run_ended [OF assms(1)])
  have res: "sr_tokens res = rn_tokens n" "sr_turns res = rn_turns n" using returned_run [OF assms(1)] by simp_all
  have p: "pl_records ?p" "pl_policy ?p = (\<lambda>t. counted_tokens (tu_total (ev_usage (tn_evidence t))))" by (simp_all add: episode_plan_def)
  define xs where "xs = spent ?p n"
  have xs: "xs = map (\<lambda>t. counted_tokens (tu_total (ev_usage (tn_evidence (tr_turn t))))) (sr_turns res)"
    by (simp add: xs_def spent_def p res)
  have e': "sr_tokens res = sum_list xs" "recorded_totals (rn_trace n) = running_totals 0 xs"
    using e p res by (simp_all add: ended_def core_def xs_def)
  have nonneg: "\<forall>x\<in>set xs. 0 \<le> x" using assms(4) by (auto simp: xs)
  then have total: "0 \<le> sum_list xs" by (simp add: sum_list_nonneg)
  have fresh: "dict_get_default (su_receipts s) (ei_receipt i) 0 = 0"
    using assms(3) by (simp add: dict_get_default_def map_of_eq_None_iff [THEN iffD2])
  have "foldl max 0 (map (max 0) (running_totals 0 xs)) \<le> sum_list xs"
    by (rule foldl_max_le) (use total running_totals_le [OF nonneg, of 0] in auto)
  with usage_writes_tokens [OF assms(2)] fresh total show ?thesis
    by (simp add: record_usage_def Let_def e' xs [symmetric])
qed

theorem session_charged_once_witness:
  "let i = demo_episode\<lparr>ei_opened := Inr ([], None), ei_rounds := demo_rounds\<rparr>; s = new_supervisor\<lparr>su_tokens := 7\<rparr> in
     \<exists>n res ws s1. run_session (episode_plan demo_campaign i s ''episode'') (ei_session i) (ei_opened i) (ei_rounds i) = (Some n, Some (Inr res))
       \<and> usage_writes (ei_receipt i) (recorded_totals (rn_trace n)) s = (ws, s1) \<and> length (sr_turns res) = 2
       \<and> su_tokens (record_usage s1 (ei_receipt i) (sr_tokens res)) = 7"
proof -
  define i where "i = demo_episode\<lparr>ei_opened := Inr ([], None), ei_rounds := demo_rounds\<rparr>"
  define s where "s = new_supervisor\<lparr>su_tokens := 7\<rparr>"
  let ?p = "episode_plan demo_campaign i s ''episode''"
  have "pl_cli ?p = ''claude''" "pl_records ?p" "1 \<le> resume_limit ?p" "retry_limit ?p \<noteq> None" "pl_loads ?p = pl_loads demo_plan"
    "\<not> over_budget ?p r" for r
    by (simp_all add: episode_plan_def i_def demo_episode_def demo_plan_def demo_campaign_def resume_limit_def retry_limit_def over_budget_def)
  then obtain n res where run: "run_session ?p ''a'' (Inr ([], None)) demo_rounds = (Some n, Some (Inr res))" "length (sr_turns res) = 2"
    and unknown: "\<forall>t\<in>set (sr_turns res). tu_total (ev_usage (tn_evidence (tr_turn t))) = None" using demo_run_of [of ?p] by blast
  have i: "ei_session i = ''a''" "ei_opened i = Inr ([], None)" "ei_rounds i = demo_rounds" by (simp_all add: i_def demo_episode_def)
  obtain ws s1 where u: "usage_writes (ei_receipt i) (recorded_totals (rn_trace n)) s = (ws, s1)" by fastforce
  have "su_tokens (record_usage s1 (ei_receipt i) (sr_tokens res)) =
      su_tokens s + sum_list (map (\<lambda>t. counted_tokens (tu_total (ev_usage (tn_evidence (tr_turn t))))) (sr_turns res))"
    by (rule session_charged_once [OF _ u, of demo_campaign "''episode''"])
      (use run unknown in \<open>simp_all add: i s_def new_supervisor_def counted_tokens_def\<close>)
  also have "\<dots> = 7" using unknown by (simp add: s_def counted_tokens_def cong: map_cong)
  finally show ?thesis using run u unfolding i_def [symmetric] s_def [symmetric] Let_def i by blast
qed

end
