(* ===== verification/Spec2Isabelle.thy ===== *)
theory Spec2Isabelle
  imports Driving Samples Scopes Events Search_Runs Report_Accounting Promotion Report_Evidence History_Cache Retry GatewayJobs Supervision_Runs
begin

text \<open>
  The Atrex kernel agent in HOL: its plugin core (src/src/aka/core/), the pooled search, the research journal and the
  durable execution of the light workflow, and the accounting and acceptance rules both workflows share.

  \<^bold>\<open>The program.\<close>  A host composes a flat list of rows out of JSON documents (a profile, its bundles,
  patch files and flag patches), checks the whole composition without running any plugin, compares it
  with a lock file, and mounts each enabled row as a fiber of a tree.  Fibers publish services in
  realms and wait for the services they inject; a settle loop loads, reloads and unloads fibers until
  nothing changes.  Everything a plugin contributes is filed as a reversible effect and undone when its
  fiber unloads.

  On top of the core, a pooled search runs trajectories of kernel optimization in epochs and broadcasts the fastest
  kernel at the end of each; an agent session's token usage is attributed to phases and aggregated over
  attempts; and a candidate kernel is compared with the incumbent on an A/B/B/A schedule before it is promoted.  An episode
  keeps a journal of research directions and experiments, shares it with later episodes, and ends in a report that seals the
  measured candidate; its agent session is run turn by turn under limits, with its tokens read from streams and ledgers, pays
  only for active time, and its gateway jobs and outages survive restarts through small
  durable files.  A supervisor runs the episodes of a campaign one after another, commits what each one achieved, and recovers
  what a killed supervisor left behind.

  \<^bold>\<open>The theories\<close>, in the order of the code's imports:
  \<^item> \<open>Prelude\<close>: results, Python dictionaries as association lists (locale \<open>dict_store\<close>), sorted sets, and
    string operations.  \<open>Values\<close>: Python's JSON values with equality and truth.
  \<^item> \<open>Schema\<close>: plugin_runtime/schema.py.  \<open>Errors\<close>: errors.py.  \<open>Keys\<close>: keys.py and \<open>token_table\<close> of boot.py.
  \<^item> \<open>Effects\<close>: effects.py, with the locale \<open>reversible\<close>: operations with undos, for which unwinding a stack
    restores the state.  \<open>Realms\<close>: registry.py and \<open>Scopes\<close>: scope.py, on explicit heaps; both interpret
    \<open>reversible\<close>.  \<open>Events\<close>: events.py.
  \<^item> \<open>Declarations\<close>: declaration.py.  \<open>Compositions\<close>: composition.py.
  \<^item> \<open>Fibers\<close>: fiber.py and the operations of context.py a plugin calls, as functions on the record
    \<open>world\<close>; \<open>apply\<close> of a plugin is a \<open>script\<close> of calls.  \<open>Trees\<close>: the invariant \<open>tree_ok\<close> (ownership of every
    published service by an effect, the row table, the family tree) and its preservation.  \<open>Settle\<close>:
    what holds when a settle returns.  \<open>Aborts\<close>: what holds when it raises.  \<open>Driving\<close>: the trees a program reaches, with
    settles that returned (\<open>driven\<close>) or with any settle and disposal (\<open>reached\<close>).
  \<^item> \<open>Locks\<close>: lock.py.  \<open>Boot\<close>: loader.py and boot.py.  \<open>Samples\<close>: a small host with two plugins, on which the
    properties are applied.
  \<^item> \<open>Search\<close>, \<open>Search_Runs\<close>: the pooled search of light/workflow/search.py.  \<open>coordinator\<close> is the
    state of \<open>PooledSearch._run\<close> with its program counter, \<open>work_step\<close> one action of the loop, \<open>search_step\<close> adds
    interruption and relaunch; the driver's answers are the inputs of the steps.  The invariant \<open>search_ok\<close> carries
    admission bounds, single recording and the journal; \<open>effort\<close> is the measure that ends every run.
  \<^item> \<open>TokenUsage\<close>: \<open>TokenUsage\<close>, its sum, comparison and difference, and the normalized events of contracts/agent.py.
  \<^item> \<open>PhaseTokens\<close>, \<open>TokenReports\<close>: \<open>summarize_phase_tokens\<close> and \<open>aggregate_attempt_tokens\<close> of
    legacy/workflow/phase_tokens.py; \<open>tracker\<close> holds the local variables of the event loop, \<open>token_summary\<close> is its report and
    \<open>summary_dict\<close> the dictionary written to disk.
  \<^item> \<open>Phase_Accounting\<close>, \<open>Report_Accounting\<close>: conservation of the attributed usage, the reference reading of bracketed
    sessions, and that stored summaries which reconcile aggregate to a report that reconciles.
  \<^item> \<open>Abba\<close>, \<open>Acceptance\<close>, \<open>Promotion\<close>: the A/B/B/A schedule, the merge of shape batches and the two gates of
    legacy/evaluation/abba.py and light/acceptance/verifier.py; the balance of the schedule and what a promotion implies.
  \<^item> \<open>Directions\<close>: light/workflow/direction_lifecycle.py and direction_genealogy.py.  \<open>Journals\<close>, \<open>Campaigns\<close>, \<open>Reports\<close>:
    light/workflow/journal_service.py, the journals of episodes with the history and replay of research directions, the updates
    of one episode, and its report up to the sealed candidate.  \<open>Campaign_Runs\<close> closes the updates over episodes
    (\<open>campaign_step\<close>), \<open>Report_Evidence\<close> states what an accepted report rests on, \<open>History_Cache\<close> that the published history index
    changes no answer; \<open>Journal_Samples\<close> is the journal of their witnesses.
  \<^item> \<open>Sources\<close>: light/workspace/sources, the paths and contracts of candidate source, its snapshots, and what binds a measurement
    to a source.  \<open>CandidateChecks\<close>: \<open>RecordedAcceptance.validate_candidate\<close> of light/acceptance/provider.py; \<open>proven\<close> says what
    a validation that returns has seen, and \<open>Reports\<close> calls it before it seals a candidate.
  \<^item> \<open>SessionClock\<close>: light/agent/execution_clock.py, with \<open>control\<close> for \<open>ExecutionControl\<close> and \<open>process_scope\<close> for the processes it
    signals.  \<open>Retry\<close>: light/execution/retry.py over any number of restarts.  \<open>DeviceFailures\<close>:
    light/evaluation/evaluation_failures.py.  \<open>GatewayJobs\<close>: \<open>execute_job\<close> of light/execution/gateway_jobs.py as a loop over the
    answers it meets; \<open>job_runs\<close> strings processes together through the checkpoint, \<open>killed_runs\<close> also kills them after any
    of their writes and calls, and the trace predicates (\<open>write_ahead\<close>, \<open>same_key\<close>, \<open>limited\<close>) say what the gateway and the disk see.
  \<^item> \<open>CodexLedger\<close>: the observer of a Codex rollout (light/agent/runtime/codex_ledger.py and legacy/agent/codex_ledger.py as two
    formats of the locale \<open>sound_format\<close>), its phase markers and the merge with a capture: the cumulative usage it keeps is the sum
    of what it reported, and what it reports reconciles.  \<open>Streams\<close>: the stream adapters of legacy/agent/adapter.py and
    light/agent/runtime/adapter.py; every response is billed once.  \<open>NativeSessions\<close>: legacy/agent/native.py with the checks of
    light/agent/native.py; a Codex session is charged what its stream reported last.  \<open>ProviderFailures\<close>: provider_errors.py and
    the classification of a turn's failure.
  \<^item> \<open>LongSession\<close>: \<open>LongSessionRunner\<close> of light/workflow/session.py with the handoff of protocol.py.  \<open>run\<close> holds the local
    variables of the loop, a \<open>round\<close> is what one pass meets, \<open>progress\<close> how it ends; \<open>ready\<close> and \<open>ended\<close> are the invariants at
    the head of the loop and after it.  The number of rounds is bounded by \<open>session_bounded\<close>.
  \<^item> \<open>Supervision\<close>: \<open>LongHorizonCampaign\<close> of light/workflow/episode.py with the store and state of store.py and models.py.
    \<open>disk\<close> is what survives a process, \<open>disk_write\<close> one atomic write to it; \<open>run_campaign\<close> gives the writes of a process in their
    order, \<open>campaign_loop\<close> recurses over the episodes it meets, and \<open>process_runs\<close> cuts each process after a number of
    writes; the squash of a candidate, the version record written and staged, and the commit are writes of their own.
    \<open>Supervision_Runs\<close>: the invariant \<open>disk_sound\<close> holds after every write, so the commits and the recorded attempts agree up to
    the episode in progress; which candidate a promotion commits, what recovery leaves, and what the campaign pays for.

  \<^bold>\<open>Reading the model.\<close>  Definitions carry the names of the code, without a leading underscore, with a
  prefix or suffix where HOL has the name.  An exception is the left of a sum, \<open>exn option\<close> for a procedure;
  \<open>BaseExc\<close> stands for what \<open>except Exception\<close> does not catch.  Strings are lists of characters, floats are
  exact reals with infinities and NaN, integers are unbounded as in Python.  Message texts are values
  that name the parts that were formatted, since \<open>repr\<close> of a value is the language's.  Identity of objects
  is a number in a heap.  The settle loop runs on the number of rounds the code itself counts
  (\<open>settle_rounds\<close>); disposal recurses from parents to children, whose numbers are larger, and
  \<open>tree_ok\<close> shows that the guard which makes this terminate never skips a child.

  \<^bold>\<open>Parameters.\<close>  What is not in src/ is an argument: the imported modules and the file system
  (\<open>startup\<close>, \<open>site\<close>, \<open>host\<close>), the plugins' \<open>apply\<close>, cleanups and validators (\<open>plugins\<close>), the environment,
  \<open>str\<close>, \<open>json.dumps\<close> and the digests.

  \<^bold>\<open>Not modelled.\<close>  In the core: listeners on the internal events except the rewriting of a config,
  early disposal by a plugin of its own handles, isolated and scoped contexts inside a plugin, attribute
  access on a context, the invariant registry, asynchronous callables (the code refuses them), the
  concurrent creation of a lock, and \<open>resource_identity\<close> (git and file walking).  Elsewhere: the lock file and failing durable
  writes of the search, binary rounding of ratios, the stdout sentinel and the recorded runs of the acceptance gate; of candidate sources the files of
  a workspace and the commits (\<open>collect\<close>, \<open>install\<close>, \<open>from_git\<close>, \<open>commit_candidate\<close>); of the journal
  service the wiki attribution, the list and load requests, journals without a version, and the publication of files; of the
  session clock the thread that waits for a process; of the gateway jobs the identities of payloads, bundles and commands; of the agents the command
  lines, their settings, the temporary home of Codex and the checkpoints; of the session the text of a recovery; of the
  supervisor its prompts, archives, memory records, telemetry and git commands;
  gateways, sandboxes, dashboards and the preparation of campaigns are processes, HTTP and file plumbing.
\<close>

section \<open>Starting a composition\<close>

lemma sample_boots:
  "map_sum (\<lambda>_. ()) bt_active (fst (boot sample (sample_comp [''b'', ''a'']) [sample_key] [] [''s''] None None NoLock)) =
     Inr [''ra'', ''rb'']"
  by code_simp

lemma sample_blocked:
  "map_sum (\<lambda>_. ()) bt_active (fst (boot sample (sample_comp [''b'']) [sample_key] [] [] None None NoLock)) = Inl ()"
  by code_simp

lemma sample_prepares: "is_ok (prepare sample (sample_comp [''b'', ''a'']) [sample_key] [] [])"
  by code_simp

lemma sample_freezes: "is_ok (freeze sample (sample_comp [''b'', ''a'']) [sample_key])"
  by code_simp

text \<open>
  C2: A boot that returns a report leaves a settled tree: nothing is queued, every required row
  (of the composition or of the caller) is active with all its injections resolved, and every
  required service resolves in the root realm.
\<close>

theorem boot_ready:
  assumes "boot S c tokens rows services ws mode file = (Inr rp, file', t)"
  shows "\<exists>w. t = Some w \<and> w_pending w = [] \<and>
    (\<forall>k \<in> comp_required c \<union> set rows. \<exists>u b. map_of (w_table w) k = Some u \<and> w_heap w u = Some b \<and>
       fb_state b = Active \<and> unsatisfied w b = []) \<and>
    (\<forall>n \<in> set services. realm_resolve (w_realms w) 0 n \<noteq> None)"
  using assms
proof (cases rule: boot_cases)
  case (ready rp' w)
  have ok: "tree_ok w" using ready(3) by (simp add: at_rest_def)
  have "\<exists>u b. map_of (w_table w) k = Some u \<and> w_heap w u = Some b \<and> fb_state b = Active \<and> unsatisfied w b = []"
    if k: "k \<in> comp_required c \<union> set rows" for k
  proof -
    from k ready(7) have "k \<in> set (active_rows w)" by blast
    then obtain u where u: "map_of (w_table w) k = Some u" "fb_state (fib w u) = Active"
      by (auto simp: active_rows_def rows_in_iff [OF ok])
    with tree_okD(4) [OF ok] obtain b where b: "w_heap w u = Some b" unfolding table_ok_def by blast
    with u ready(5) have "stable w u" by (auto simp: live_def)
    from active_satisfied [OF this b] u b show ?thesis by auto
  qed
  with ready show ?thesis by blast
qed simp_all

theorem boot_ready_witness:
  "\<exists>w. snd (snd (boot sample (sample_comp [''b'', ''a'']) [sample_key] [] [''s''] None None NoLock)) = Some w \<and>
     w_pending w = [] \<and> (\<forall>n \<in> {''s''}. realm_resolve (w_realms w) 0 n \<noteq> None)"
proof -
  obtain rp file' t where b: "boot sample (sample_comp [''b'', ''a'']) [sample_key] [] [''s''] None None NoLock = (Inr rp, file', t)"
    using sample_boots by (cases "boot sample (sample_comp [''b'', ''a'']) [sample_key] [] [''s''] None None NoLock";
        cases "fst (boot sample (sample_comp [''b'', ''a'']) [sample_key] [] [''s''] None None NoLock)") auto
  from boot_ready [OF b] b show ?thesis by auto
qed

text \<open>
  C3: A boot that raises after the tree was built has disposed all of it: no row is registered, every
  fiber is disposed, no realm holds a service, and the queue is empty.
\<close>

theorem boot_failed_clean:
  assumes "boot S c tokens rows services ws mode file = (Inl x, file', Some w)"
  shows "w_table w = [] \<and> w_pending w = [] \<and> w_closed w \<and>
    (\<forall>u b. w_heap w u = Some b \<longrightarrow> fb_state b = Disposed) \<and> (\<forall>i n. realm_resolve (w_realms w) i n = None)"
proof -
  from assms have "torn_down w" by (cases rule: boot_cases) simp_all
  then show ?thesis by (simp add: torn_down_def realm_resolve_def)
qed

theorem boot_failed_clean_witness:
  "\<exists>w. snd (snd (boot sample (sample_comp [''b'']) [sample_key] [] [] None None NoLock)) = Some w \<and> w_table w = []"
proof -
  have s: "snd (snd (boot sample (sample_comp [''b'']) [sample_key] [] [] None None NoLock)) \<noteq> None" by code_simp
  obtain x file' t where b: "boot sample (sample_comp [''b'']) [sample_key] [] [] None None NoLock = (Inl x, file', t)"
    using sample_blocked by (cases "boot sample (sample_comp [''b'']) [sample_key] [] [] None None NoLock";
        cases "fst (boot sample (sample_comp [''b'']) [sample_key] [] [] None None NoLock)") auto
  with s obtain w where "t = Some w" by auto
  with boot_failed_clean b show ?thesis by auto
qed

text \<open>
  The preflight never admits two enabled rows that provide the same single-implementation
  service into the shared realm.
\<close>

theorem prepare_single_owner:
  assumes "prepare S c tokens rows services = Inr (seams, ds, configs)"
    and "r \<in> set (comp_enabled c)" "q \<in> set (comp_enabled c)"
    and "map_of ds (rw_id r) = Some (Some d)" "s \<in> set (dc_provide d)" "s \<notin> set (rw_isolate r)"
    and "map_of ds (rw_id q) = Some (Some e)" "s \<in> set (dc_provide e)" "s \<notin> set (rw_isolate q)"
    and "map_of seams s = Some k" "sk_cardinality k = ''single''"
  shows "rw_id r = rw_id q"
  using two_claims [OF prepare_parts(4) [OF assms(1)] assms(2,3) _ _ assms(10,11)] assms(4-9)
  by (simp add: claims_of_def)

theorem prepare_single_owner_witness:
  "\<exists>seams ds configs d. prepare sample (sample_comp [''b'', ''a'']) [sample_key] [] [] = Inr (seams, ds, configs) \<and>
     map_of ds ''ra'' = Some (Some d) \<and> rw_id (sample_row ''ra'' ''a'') = rw_id (sample_row ''ra'' ''a'')"
proof -
  have "case prepare sample (sample_comp [''b'', ''a'']) [sample_key] [] [] of
      Inr (seams, ds, configs) \<Rightarrow> map_of seams ''s'' = Some sample_key \<and>
        (case map_of ds ''ra'' of Some (Some d) \<Rightarrow> dc_provide d = [''s''] | _ \<Rightarrow> False)
    | Inl _ \<Rightarrow> False" by code_simp
  then obtain seams ds configs d where p: "prepare sample (sample_comp [''b'', ''a'']) [sample_key] [] [] = Inr (seams, ds, configs)"
    and k: "map_of seams ''s'' = Some sample_key" and d: "map_of ds ''ra'' = Some (Some d)" "dc_provide d = [''s'']"
    by (auto split: sum.splits option.splits)
  have r: "sample_row ''ra'' ''a'' \<in> set (comp_enabled (sample_comp [''b'', ''a'']))"
    by (simp add: comp_enabled_def sample_comp_def sample_row_def)
  have "rw_id (sample_row ''ra'' ''a'') = rw_id (sample_row ''ra'' ''a'')"
    by (rule prepare_single_owner [where d = d and e = d and s = "''s''", OF p r r _ _ _ _ _ _ k])
      (use d in \<open>simp_all add: sample_row_def sample_key_def\<close>)
  with p d show ?thesis by blast
qed

text \<open>
  C36: The preflight predicts the load.  In any tree a program can reach, for a row that was just mounted and whose declaration
  has a schema when it has a validator (without one the two disagree, which is a finding), and as long as no listener rewrites
  configs, a config passes \<open>_validate_plugin_config\<close> exactly when the fiber resolves to that config when it loads.
\<close>

theorem preflight_matches_load:
  assumes "reached w" and "rw_id r \<noteq> []" and "mount_row S seams resolved r w = (Inr u, w')"
    and "row_declaration S r seams = Inr d" and "dc_validator d \<longrightarrow> dc_schema d \<noteq> None"
    and "\<forall>entry config. pr_config (su_plugins S) entry config = Inr config"
  shows "resolve_config (su_plugins S) w' u = Inr config \<longleftrightarrow>
    validate_plugin_config S d r (w_variables w) resolved = Inr config"
proof -
  from reached_ok [OF assms(1)] have ok: "tree_ok w" by simp
  from mount_row_fiber [OF ok assms(2,3)] assms(4) obtain b where "w_heap w' u = Some b"
    and b: "fb_decl b = d" "fb_raw b = rw_config r" "fb_resolved b = resolved" "fb_entry b = rw_id r"
    and v: "w_variables w' = w_variables w" by auto
  with preflight_iff [OF b assms(6,5)] show ?thesis by (simp add: resolve_config_def)
qed

theorem preflight_matches_load_witness:
  "\<exists>u w'. mount_row sample (Some [(''s'', sample_key)]) False (sample_row ''ra'' ''a'')
       (root_world [(''s'', sample_key)] [] 9) = (Inr u, w') \<and>
     resolve_config (su_plugins sample) w' u = Inr []"
proof -
  let ?w = "root_world [(''s'', sample_key)] [] 9" and ?r = "sample_row ''ra'' ''a''"
  let ?t = "Some [(''s'', sample_key)]"
  have ok: "reached ?w" by (rule reached_new)
  have "is_ok (fst (mount_row sample ?t False ?r ?w))" by code_simp
  then obtain u w' where m: "mount_row sample ?t False ?r ?w = (Inr u, w')"
    by (cases "mount_row sample ?t False ?r ?w") (auto simp: is_ok_iff)
  have "case row_declaration sample ?r ?t of Inr d \<Rightarrow> \<not> dc_validator d \<and>
      validate_plugin_config sample d ?r [] False = Inr [] | Inl _ \<Rightarrow> False" by code_simp
  then obtain d where d: "row_declaration sample ?r ?t = Inr d" "\<not> dc_validator d"
    "validate_plugin_config sample d ?r [] False = Inr []" by (auto split: sum.splits)
  have "resolve_config (su_plugins sample) w' u = Inr []"
    by (subst preflight_matches_load [OF ok _ m d(1)])
      (use d in \<open>simp_all add: sample_row_def sample_def sample_plugins_def root_world_def\<close>)
  with m show ?thesis by blast
qed

text \<open>
  Freezing is idempotent and takes the environment out of the composition: a frozen composition
  freezes again, in any environment, to itself and to the same identity.
\<close>

theorem freeze_stable:
  assumes "freeze S c tokens = Inr (c', identity)" and "rows_ok (cp_rows c)"
  shows "freeze (elsewhere env S) c' tokens = Inr (c', identity)"
  using freeze_again [OF assms(1)] assms(2) by (simp add: rows_ok_def)

theorem freeze_stable_witness:
  "\<exists>c' identity. freeze sample (sample_comp [''b'', ''a'']) [sample_key] = Inr (c', identity) \<and>
     freeze (elsewhere (\<lambda>_. Some ''x'') sample) c' [sample_key] = Inr (c', identity)"
proof -
  from sample_freezes obtain c' identity where f: "freeze sample (sample_comp [''b'', ''a'']) [sample_key] = Inr (c', identity)"
    by (auto simp: is_ok_iff)
  have "rows_ok (cp_rows (sample_comp [''b'', ''a'']))"
    by (simp add: rows_ok_def sample_comp_def sample_row_def)
  from freeze_stable [OF f this] f show ?thesis by blast
qed

section \<open>Settling and tearing down\<close>

definition sample_tree :: world where
  \<comment> \<open>the two sample rows, mounted and not yet settled\<close>
  "sample_tree = snd (snd (mount_rows sample (Some [(''s'', sample_key)]) False
     (comp_enabled (sample_comp [''b'', ''a''])) [] (root_world [(''s'', sample_key)] [] 9)))"

definition sample_settled :: world where
  "sample_settled = snd (settle sample_plugins sample_tree)"

definition grumpy :: plugins where
  \<comment> \<open>the same plugins, whose cleanups raise an abort\<close>
  "grumpy = sample_plugins\<lparr>pr_cleanup := (\<lambda>_. Some (BaseExc ''stop''))\<rparr>"

lemma sample_tree_driven: "driven sample_tree"
proof -
  let ?w = "root_world [(''s'', sample_key)] [] 9"
  obtain x un w where m: "mount_rows sample (Some [(''s'', sample_key)]) False
      (comp_enabled (sample_comp [''b'', ''a''])) [] ?w = (x, un, w)"
    by (metis prod_cases3)
  then have "sample_tree = w" by (simp add: sample_tree_def)
  with reached_boot(2) [OF driven_new m] show ?thesis by simp
qed

lemma sample_settles: "fst (settle sample_plugins sample_tree) = None"
  by code_simp

lemma sample_settle: "settle sample_plugins sample_tree = (None, sample_settled)"
  using sample_settles by (simp add: sample_settled_def prod_eq_iff)

lemma sample_settled_driven: "driven sample_settled"
  by (rule driven_settle [OF sample_tree_driven sample_settle])

lemma sample_restart_driven: "driven (request_restart 2 sample_settled)"
  by (rule driven_restart [OF sample_settled_driven])

lemma sample_settled_ok: "tree_ok sample_settled"
  using reached_ok driven_reached sample_settled_driven by blast

lemma sample_restart_ok: "tree_ok (request_restart 2 sample_settled)" "queue_ok [] (request_restart 2 sample_settled)"
  using reached_ok driven_reached sample_restart_driven by blast+

text \<open>
  C10: When a settle returns, the tree is at rest.  On a tree built by mounting rows, by restart requests and by settles that
  returned (an aborted settle can leave a fiber behind that no settle visits, see C39), after a settle that returns the queue
  is empty and every fiber that is not disposed is at rest: it failed and holds no epoch, or it is pending because a required
  service is missing, or it is active with the epoch of the services that are published now.
\<close>

theorem settle_reaches_rest:
  assumes "driven w" and "settle P w = (None, w')" and "w_heap w' u = Some b" and "fb_state b \<noteq> Disposed"
  shows "w_pending w' = [] \<and>
    (fb_state b = Failed \<and> fb_epoch b = None \<or>
     fb_state b = Pending \<and> unsatisfied w' b \<noteq> [] \<or>
     fb_state b = Active \<and> unsatisfied w' b = [] \<and> fb_epoch b = compute_epoch w' b)"
proof -
  note s = settle_spec [OF driven_rest [OF assms(1), THEN conjunct1] driven_rest [OF assms(1), THEN conjunct2] assms(2)]
  have st: "stable w' u" using s(3) assms(3,4) by (auto simp: live_def)
  have none: "compute_epoch w' b = None \<Longrightarrow> unsatisfied w' b \<noteq> []"
    by (auto simp: compute_epoch_def Let_def unsatisfied_def service_serial_def filter_empty_conv split: if_splits)
  from st assms(3) have "consistent b" "fb_state b = Failed \<or> fb_epoch b = compute_epoch w' b"
    by (auto simp: stable_def)
  with assms(4) none active_satisfied [OF st assms(3)] s(2) show ?thesis
    by (cases "fb_state b") (auto simp: consistent_def)
qed

theorem settle_reaches_rest_witness:
  "\<exists>b. w_heap sample_settled 2 = Some b \<and> fb_state b = Active \<and> fb_epoch b = compute_epoch sample_settled b"
proof -
  have c: "map_option fb_state (w_heap sample_settled 2) = Some Active" by code_simp
  then obtain b where b: "w_heap sample_settled 2 = Some b" "fb_state b = Active" by auto
  from settle_reaches_rest [OF sample_tree_driven sample_settle b(1)] b show ?thesis by simp
qed

text \<open>
  C20: Whatever a settle raises, the tree invariant survives it and no fiber is lost: every published
  service keeps its withdrawal on the effect stack of a fiber, and the row table lists exactly the
  fibers that are not disposed.
\<close>

theorem settle_any_outcome:
  assumes "tree_ok w" and "\<forall>u \<in> set (w_pending w). w_heap w u \<noteq> None" and "settle P w = (r, w')"
  shows "tree_ok w' \<and> (\<forall>u \<in> set (w_pending w'). w_heap w' u \<noteq> None) \<and>
    (\<forall>u. w_heap w u \<noteq> None \<longrightarrow> w_heap w' u \<noteq> None)"
  using settle_keeps_tree [OF assms(1) _ assms(3)] assms(2) by (simp add: keeps_def queue_ok_def)

theorem settle_any_outcome_witness:
  "tree_ok (snd (settle grumpy (request_restart 2 sample_settled))) \<and>
   fst (settle grumpy (request_restart 2 sample_settled)) = Some (BaseExc ''stop'')"
proof -
  have q: "\<forall>u \<in> set (w_pending (request_restart 2 sample_settled)). w_heap (request_restart 2 sample_settled) u \<noteq> None"
    using sample_restart_ok(2) by (simp add: queue_ok_def)
  have "fst (settle grumpy (request_restart 2 sample_settled)) = Some (BaseExc ''stop'')" by code_simp
  moreover from this obtain w' where "settle grumpy (request_restart 2 sample_settled) = (Some (BaseExc ''stop''), w')"
    by (metis prod.collapse)
  ultimately show ?thesis using settle_any_outcome [OF sample_restart_ok(1) q] by simp
qed

text \<open>
  When a refresh inside a batch raises, the rows before it were refreshed, the rows behind it go
  back to the front of the queue in their order, and nothing that the refresh itself queued is lost.
\<close>

theorem abort_requeues:
  assumes "run_batch P us w = (Some e, w')"
  shows "\<exists>before u after w1 w2. us = before @ u # after \<and> run_batch P before w = (None, w1) \<and>
    refresh P u w1 = (Some e, w2) \<and> w_pending w' = after @ w_pending w2 \<and> w_heap w' = w_heap w2"
  using batch_abort_requeues [OF assms] by fastforce

theorem abort_requeues_witness:
  "\<exists>w'. run_batch grumpy [2, 1, 2] (request_restart 2 sample_settled) = (Some (BaseExc ''stop''), w') \<and> w_pending w' \<noteq> []"
proof -
  let ?w = "request_restart 2 sample_settled"
  have "fst (run_batch grumpy [2, 1, 2] ?w) = Some (BaseExc ''stop'')" by code_simp
  then obtain w' where e: "run_batch grumpy [2, 1, 2] ?w = (Some (BaseExc ''stop''), w')" by (metis prod.collapse)
  have n: "fst (run_batch grumpy [2, 1] ?w) \<noteq> None" by code_simp
  from abort_requeues [OF e] have "w_pending w' \<noteq> []"
  proof (elim exE conjE)
    fix before u after w1 w2
    assume b: "[2, 1, 2] = before @ u # after" "run_batch grumpy before ?w = (None, w1)"
      "w_pending w' = after @ w_pending w2"
    show ?thesis
    proof
      assume "w_pending w' = []"
      with b(3) have "after = []" by simp
      with b(1) have "before = butlast [2, 1, 2]" by (simp only: butlast_snoc)
      with b(2) n show False by simp
    qed
  qed
  with e show ?thesis by blast
qed



section \<open>What an aborted reload loses\<close>

definition sample_stale :: world where
  \<comment> \<open>the provider has reloaded, and the consumer has not been visited yet\<close>
  "sample_stale = snd (refresh grumpy 2 (request_restart 2 sample_settled))"

lemma sample_stale_ok: "tree_ok sample_stale"
proof -
  let ?w = "request_restart 2 sample_settled"
  have "w_heap ?w 2 \<noteq> None" by code_simp
  then have "keeps ?w sample_stale"
    using refresh_keeps [of ?w 2 grumpy "fst (refresh grumpy 2 ?w)" sample_stale] sample_restart_ok by (simp add: sample_stale_def)
  then show ?thesis by (simp add: keeps_def)
qed

text \<open>
  C39: An abort out of the unload of a fiber that was to reload strands the fiber.  In a tree with the tree invariant, it stays UNLOADING with the epoch of the
  services it should have been reloaded with, so in this state and in every later one in which the fiber itself is unchanged
  (in particular, no restart was requested of it) and the same services are published for it, a refresh does nothing, although
  all its dependencies are there; only a restart request or a change of these services brings it back.
\<close>

theorem aborted_reload_stranded:
  assumes "tree_ok w" and "w_heap w u = Some b" and "fb_state b = Active" "\<not> fb_restart b"
    and "compute_epoch w b = Some new" and "fb_epoch b = Some old" "old \<noteq> new"
    and "unload P u (upd u (\<lambda>b. b\<lparr>fb_epoch := Some new\<rparr>) w) = (Some e, w')"
  shows "refresh P u w = (Some e, w') \<and> fb_state (fib w' u) = Unloading \<and>
    (\<forall>Q later. fib later u = fib w' u \<longrightarrow> compute_epoch later (fib later u) = Some new \<longrightarrow> refresh Q u later = (None, later))"
  using reload_abort_strands [OF assms] by blast

theorem aborted_reload_stranded_witness:
  "\<exists>w'. refresh grumpy 1 sample_stale = (Some (BaseExc ''stop''), w') \<and> fb_state (fib w' 1) = Unloading \<and>
     compute_epoch w' (fib w' 1) = Some [2] \<and> refresh sample_plugins 1 w' = (None, w')"
proof -
  let ?x = "upd 1 (\<lambda>b. b\<lparr>fb_epoch := Some [2]\<rparr>) sample_stale"
  have "case w_heap sample_stale 1 of None \<Rightarrow> False | Some b \<Rightarrow> fb_state b = Active \<and> \<not> fb_restart b \<and>
      compute_epoch sample_stale b = Some [2] \<and> fb_epoch b = Some [1]" by code_simp
  then obtain b where b: "w_heap sample_stale 1 = Some b" "fb_state b = Active" "\<not> fb_restart b"
    "compute_epoch sample_stale b = Some [2]" "fb_epoch b = Some [1]" by (auto split: option.splits)
  have "case unload grumpy 1 ?x of (r, w') \<Rightarrow> r = Some (BaseExc ''stop'') \<and> compute_epoch w' (fib w' 1) = Some [2]"
    by code_simp
  then obtain w' where u: "unload grumpy 1 ?x = (Some (BaseExc ''stop''), w')" "compute_epoch w' (fib w' 1) = Some [2]"
    by (auto split: prod.splits)
  from aborted_reload_stranded [OF sample_stale_ok b(1-5) _ u(1)] u(2) show ?thesis by simp
qed

end
